(* ===== verification/Prelude.thy ===== *)
theory Prelude
  imports Main "HOL-Library.Monad_Syntax" "HOL-Library.Word"
begin

text \<open>
  Shared vocabulary of the development: the collections of rewrite rules the component
  theories extend, pointers, and generic facts on options and lists that several components
  use. A C++ pointer is an optional address; the null pointer is \<^term>\<open>None\<close>.
\<close>

section \<open>Collections\<close>

named_theorems ptr_simps \<open>reading and writing through pointers\<close>
named_theorems rep_simps \<open>unfolding what a heap represents\<close>

section \<open>Pointers\<close>

type_synonym addr = nat
type_synonym ptr = "addr option"

section \<open>Options\<close>

text \<open>
  Code that may crash (null dereference, read outside a block) or may not return is a value of an
  option type: \<^term>\<open>None\<close> is the crash, \<^term>\<open>Some r\<close> the normal outcome.
\<close>

lemma bind_eq_Some_iff:
  "Option.bind m f = Some y \<longleftrightarrow> (\<exists>x. m = Some x \<and> f x = Some y)"
  by (cases m) auto

lemma bind_Some_step: "m = Some x \<Longrightarrow> Option.bind m f = f x"
  by simp

lemma bind_if: "Option.bind (if b then x else y) f = (if b then Option.bind x f else Option.bind y f)"
  by simp

lemma bind_case_prod:
  "Option.bind (case p of (a, b) \<Rightarrow> g a b) f = (case p of (a, b) \<Rightarrow> Option.bind (g a b) f)"
  by (simp split: prod.split)

text \<open>Normalising nested sequences of commands.\<close>

lemmas seq_simps = Option.bind_assoc Option.bind.bind_lunit bind_if bind_case_prod

section \<open>Lists\<close>

lemma find_append:
  "find P (xs @ ys) = (case find P xs of None \<Rightarrow> find P ys | Some x \<Rightarrow> Some x)"
  by (induction xs) auto

lemma remove1_middle: "x \<notin> set xs \<Longrightarrow> remove1 x (xs @ x # ys) = xs @ ys"
  by (simp add: remove1_append)

end
