(* ===== verification/Rb_Heap.thy ===== *)
theory Rb_Heap
  imports Prelude
begin

text \<open>
  The pointer code of utils/src/rbtree_base.cpp: intrusive red-black tree nodes with parent
  pointers in a heap, and a root pointer. Every read or write through a pointer goes through
  \<open>rd\<close> and \<open>wr\<close>, which fail (\<^term>\<open>None\<close>) at the null pointer and at an address that holds
  no node; a loop is a partial function whose value is \<^term>\<open>None\<close> when it does not return.
\<close>

section \<open>Nodes, roots and access through pointers\<close>

datatype rb_colour = RB_RED | RB_BLACK

record rb_node =
  rb_parent :: ptr
  rb_right :: ptr
  rb_left :: ptr
  rb_color :: rb_colour

record rb_state =
  heap :: "addr \<Rightarrow> rb_node option"
  root :: ptr

definition rd :: "rb_state \<Rightarrow> ptr \<Rightarrow> rb_node option" where
  "rd s p = Option.bind p (heap s)"

definition wr :: "(rb_node \<Rightarrow> rb_node) \<Rightarrow> ptr \<Rightarrow> rb_state \<Rightarrow> rb_state option" where
  "wr f p s = do {
     a \<leftarrow> p;
     n \<leftarrow> heap s a;
     Some (s\<lparr>heap := (heap s)(a \<mapsto> f n)\<rparr>)
   }"

abbreviation set_parent :: "ptr \<Rightarrow> ptr \<Rightarrow> rb_state \<Rightarrow> rb_state option" where
  "set_parent q p s \<equiv> wr (\<lambda>n. n\<lparr>rb_parent := q\<rparr>) p s"

abbreviation set_left :: "ptr \<Rightarrow> ptr \<Rightarrow> rb_state \<Rightarrow> rb_state option" where
  "set_left q p s \<equiv> wr (\<lambda>n. n\<lparr>rb_left := q\<rparr>) p s"

abbreviation set_right :: "ptr \<Rightarrow> ptr \<Rightarrow> rb_state \<Rightarrow> rb_state option" where
  "set_right q p s \<equiv> wr (\<lambda>n. n\<lparr>rb_right := q\<rparr>) p s"

abbreviation set_color :: "rb_colour \<Rightarrow> ptr \<Rightarrow> rb_state \<Rightarrow> rb_state option" where
  "set_color c p s \<equiv> wr (\<lambda>n. n\<lparr>rb_color := c\<rparr>) p s"

text \<open>The tests \<open>p && p->rb_color == RB_RED\<close> and \<open>!p || p->rb_color == RB_BLACK\<close>.\<close>

definition is_red :: "rb_state \<Rightarrow> ptr \<Rightarrow> bool option" where
  "is_red s p = (case p of None \<Rightarrow> Some False
     | Some _ \<Rightarrow> do { n \<leftarrow> rd s p; Some (rb_color n = RB_RED) })"

definition is_black :: "rb_state \<Rightarrow> ptr \<Rightarrow> bool option" where
  "is_black s p = (case p of None \<Rightarrow> Some True
     | Some _ \<Rightarrow> do { n \<leftarrow> rd s p; Some (rb_color n = RB_BLACK) })"

section \<open>Linking and rotating\<close>

text \<open>
  \<open>rb_link_node\<close> writes the fields of the new node and then stores it where \<open>link\<close> points: the
  root pointer, or a child pointer of \<open>parent\<close>.
\<close>

datatype rb_link = Link_Root | Link_Left addr | Link_Right addr

definition set_link :: "rb_link \<Rightarrow> ptr \<Rightarrow> rb_state \<Rightarrow> rb_state option" where
  "set_link lk p s = (case lk of
       Link_Root \<Rightarrow> Some (s\<lparr>root := p\<rparr>)
     | Link_Left a \<Rightarrow> set_left p (Some a) s
     | Link_Right a \<Rightarrow> set_right p (Some a) s)"

definition get_link :: "rb_state \<Rightarrow> rb_link \<Rightarrow> ptr option" where
  "get_link s lk = (case lk of
       Link_Root \<Rightarrow> Some (root s)
     | Link_Left a \<Rightarrow> do { n \<leftarrow> rd s (Some a); Some (rb_left n) }
     | Link_Right a \<Rightarrow> do { n \<leftarrow> rd s (Some a); Some (rb_right n) })"

definition rb_link_node :: "ptr \<Rightarrow> ptr \<Rightarrow> rb_link \<Rightarrow> rb_state \<Rightarrow> rb_state option" where
  "rb_link_node node parent lk s = do {
     s \<leftarrow> set_parent parent node s;
     s \<leftarrow> set_color RB_RED node s;
     s \<leftarrow> set_right None node s;
     s \<leftarrow> set_left None node s;
     set_link lk node s
   }"

definition rb_rotate_left :: "ptr \<Rightarrow> rb_state \<Rightarrow> rb_state option" where
  "rb_rotate_left node s = do {
     n \<leftarrow> rd s node;
     let right = rb_right n;
     r \<leftarrow> rd s right;
     s \<leftarrow> set_right (rb_left r) node s;
     s \<leftarrow> (if rb_left r \<noteq> None then set_parent node (rb_left r) s else Some s);
     s \<leftarrow> set_left node right s;
     n \<leftarrow> rd s node;
     s \<leftarrow> set_parent (rb_parent n) right s;
     s \<leftarrow> (if rb_parent n \<noteq> None then do {
             p \<leftarrow> rd s (rb_parent n);
             if node = rb_left p then set_left right (rb_parent n) s
             else set_right right (rb_parent n) s }
           else Some (s\<lparr>root := right\<rparr>));
     set_parent right node s
   }"

definition rb_rotate_right :: "ptr \<Rightarrow> rb_state \<Rightarrow> rb_state option" where
  "rb_rotate_right node s = do {
     n \<leftarrow> rd s node;
     let left = rb_left n;
     l \<leftarrow> rd s left;
     s \<leftarrow> set_left (rb_right l) node s;
     s \<leftarrow> (if rb_right l \<noteq> None then set_parent node (rb_right l) s else Some s);
     s \<leftarrow> set_right node left s;
     n \<leftarrow> rd s node;
     s \<leftarrow> set_parent (rb_parent n) left s;
     s \<leftarrow> (if rb_parent n \<noteq> None then do {
             p \<leftarrow> rd s (rb_parent n);
             if node = rb_right p then set_right left (rb_parent n) s
             else set_left left (rb_parent n) s }
           else Some (s\<lparr>root := left\<rparr>));
     set_parent left node s
   }"

section \<open>Insertion fix-up\<close>

text \<open>
  The loop of \<open>rb_insert_color\<close>. The recursion takes the variable \<open>node\<close>; \<open>parent\<close> and
  \<open>gparent\<close> are read again at the loop head, as in the source.
\<close>

partial_function (option) insert_color_loop :: "ptr \<Rightarrow> rb_state \<Rightarrow> rb_state option" where
  "insert_color_loop node s = do {
     n \<leftarrow> rd s node;
     red \<leftarrow> is_red s (rb_parent n);
     if \<not> red then Some s else do {
       let parent = rb_parent n;
       p \<leftarrow> rd s parent;
       let gparent = rb_parent p;
       g \<leftarrow> rd s gparent;
       if parent = rb_left g then do {
         let uncle = rb_right g;
         ured \<leftarrow> is_red s uncle;
         if ured then do {
           s \<leftarrow> set_color RB_BLACK uncle s;
           s \<leftarrow> set_color RB_BLACK parent s;
           s \<leftarrow> set_color RB_RED gparent s;
           insert_color_loop gparent s }
         else do {
           p \<leftarrow> rd s parent;
           (node, parent, s) \<leftarrow> (if rb_right p = node then do {
               s \<leftarrow> rb_rotate_left parent s;
               Some (parent, node, s) }
             else Some (node, parent, s));
           s \<leftarrow> set_color RB_BLACK parent s;
           s \<leftarrow> set_color RB_RED gparent s;
           s \<leftarrow> rb_rotate_right gparent s;
           insert_color_loop node s } }
       else do {
         let uncle = rb_left g;
         ured \<leftarrow> is_red s uncle;
         if ured then do {
           s \<leftarrow> set_color RB_BLACK uncle s;
           s \<leftarrow> set_color RB_BLACK parent s;
           s \<leftarrow> set_color RB_RED gparent s;
           insert_color_loop gparent s }
         else do {
           p \<leftarrow> rd s parent;
           (node, parent, s) \<leftarrow> (if rb_left p = node then do {
               s \<leftarrow> rb_rotate_right parent s;
               Some (parent, node, s) }
             else Some (node, parent, s));
           s \<leftarrow> set_color RB_BLACK parent s;
           s \<leftarrow> set_color RB_RED gparent s;
           s \<leftarrow> rb_rotate_left gparent s;
           insert_color_loop node s } } } }"

definition rb_insert_color :: "ptr \<Rightarrow> rb_state \<Rightarrow> rb_state option" where
  "rb_insert_color node s = do {
     s \<leftarrow> insert_color_loop node s;
     set_color RB_BLACK (root s) s
   }"

section \<open>Erasing\<close>

text \<open>
  The loop body of \<open>__rb_erase_color\<close> for a node on the left of its parent, and its mirror image:
  \<open>erase_sibling\<close> makes the sibling black and returns it; \<open>erase_rebalance\<close> is the branch for a
  sibling with a red child, which ends the loop.
\<close>

definition erase_sibling_left :: "ptr \<Rightarrow> rb_state \<Rightarrow> (ptr \<times> rb_state) option" where
  "erase_sibling_left parent s = do {
     p \<leftarrow> rd s parent;
     let other = rb_right p;
     o_n \<leftarrow> rd s other;
     if rb_color o_n = RB_RED then do {
       s \<leftarrow> set_color RB_BLACK other s;
       s \<leftarrow> set_color RB_RED parent s;
       s \<leftarrow> rb_rotate_left parent s;
       p \<leftarrow> rd s parent;
       Some (rb_right p, s) }
     else Some (other, s) }"

definition erase_rebalance_left :: "ptr \<Rightarrow> ptr \<Rightarrow> rb_state \<Rightarrow> rb_state option" where
  "erase_rebalance_left parent other s = do {
     o_n \<leftarrow> rd s other;
     rblack \<leftarrow> is_black s (rb_right o_n);
     (other, s) \<leftarrow> (if rblack then do {
         s \<leftarrow> (if rb_left o_n \<noteq> None then set_color RB_BLACK (rb_left o_n) s else Some s);
         s \<leftarrow> set_color RB_RED other s;
         s \<leftarrow> rb_rotate_right other s;
         p \<leftarrow> rd s parent;
         Some (rb_right p, s) }
       else Some (other, s));
     p \<leftarrow> rd s parent;
     s \<leftarrow> set_color (rb_color p) other s;
     s \<leftarrow> set_color RB_BLACK parent s;
     o_n \<leftarrow> rd s other;
     s \<leftarrow> (if rb_right o_n \<noteq> None then set_color RB_BLACK (rb_right o_n) s else Some s);
     rb_rotate_left parent s }"

definition erase_sibling_right :: "ptr \<Rightarrow> rb_state \<Rightarrow> (ptr \<times> rb_state) option" where
  "erase_sibling_right parent s = do {
     p \<leftarrow> rd s parent;
     let other = rb_left p;
     o_n \<leftarrow> rd s other;
     if rb_color o_n = RB_RED then do {
       s \<leftarrow> set_color RB_BLACK other s;
       s \<leftarrow> set_color RB_RED parent s;
       s \<leftarrow> rb_rotate_right parent s;
       p \<leftarrow> rd s parent;
       Some (rb_left p, s) }
     else Some (other, s) }"

definition erase_rebalance_right :: "ptr \<Rightarrow> ptr \<Rightarrow> rb_state \<Rightarrow> rb_state option" where
  "erase_rebalance_right parent other s = do {
     o_n \<leftarrow> rd s other;
     lblack \<leftarrow> is_black s (rb_left o_n);
     (other, s) \<leftarrow> (if lblack then do {
         s \<leftarrow> (if rb_right o_n \<noteq> None then set_color RB_BLACK (rb_right o_n) s else Some s);
         s \<leftarrow> set_color RB_RED other s;
         s \<leftarrow> rb_rotate_left other s;
         p \<leftarrow> rd s parent;
         Some (rb_left p, s) }
       else Some (other, s));
     p \<leftarrow> rd s parent;
     s \<leftarrow> set_color (rb_color p) other s;
     s \<leftarrow> set_color RB_BLACK parent s;
     o_n \<leftarrow> rd s other;
     s \<leftarrow> (if rb_left o_n \<noteq> None then set_color RB_BLACK (rb_left o_n) s else Some s);
     rb_rotate_right parent s }"

text \<open>
  The loop of \<open>__rb_erase_color\<close>. It returns the final value of \<open>node\<close>, which the code paints
  black after the loop. \<open>break\<close> is the branch that returns \<open>root\<close>.
\<close>

partial_function (option) erase_color_loop ::
    "ptr \<Rightarrow> ptr \<Rightarrow> rb_state \<Rightarrow> (ptr \<times> rb_state) option" where
  "erase_color_loop node parent s = do {
     black \<leftarrow> is_black s node;
     if \<not> (black \<and> node \<noteq> root s) then Some (node, s) else do {
       p \<leftarrow> rd s parent;
       if rb_left p = node then do {
         (other, s) \<leftarrow> erase_sibling_left parent s;
         o_n \<leftarrow> rd s other;
         lblack \<leftarrow> is_black s (rb_left o_n);
         rblack \<leftarrow> is_black s (rb_right o_n);
         if lblack \<and> rblack then do {
           s \<leftarrow> set_color RB_RED other s;
           p \<leftarrow> rd s parent;
           erase_color_loop parent (rb_parent p) s }
         else do {
           s \<leftarrow> erase_rebalance_left parent other s;
           Some (root s, s) } }
       else do {
         (other, s) \<leftarrow> erase_sibling_right parent s;
         o_n \<leftarrow> rd s other;
         lblack \<leftarrow> is_black s (rb_left o_n);
         rblack \<leftarrow> is_black s (rb_right o_n);
         if lblack \<and> rblack then do {
           s \<leftarrow> set_color RB_RED other s;
           p \<leftarrow> rd s parent;
           erase_color_loop parent (rb_parent p) s }
         else do {
           s \<leftarrow> erase_rebalance_right parent other s;
           Some (root s, s) } } } }"

definition rb_erase_color :: "ptr \<Rightarrow> ptr \<Rightarrow> rb_state \<Rightarrow> rb_state option" where
  "rb_erase_color node parent s = do {
     (node, s) \<leftarrow> erase_color_loop node parent s;
     if node \<noteq> None then set_color RB_BLACK node s else Some s
   }"

text \<open>The loops \<open>while ((left = node->rb_left)) node = left;\<close> and its mirror image.\<close>

partial_function (option) go_left :: "rb_state \<Rightarrow> ptr \<Rightarrow> ptr option" where
  "go_left s node = do {
     n \<leftarrow> rd s node;
     if rb_left n \<noteq> None then go_left s (rb_left n) else Some node }"

partial_function (option) go_right :: "rb_state \<Rightarrow> ptr \<Rightarrow> ptr option" where
  "go_right s node = do {
     n \<leftarrow> rd s node;
     if rb_right n \<noteq> None then go_right s (rb_right n) else Some node }"

text \<open>Make the child slot of \<open>parent\<close> that holds \<open>node\<close> (or the root pointer) hold \<open>child\<close>.\<close>

definition replace_child :: "ptr \<Rightarrow> ptr \<Rightarrow> ptr \<Rightarrow> rb_state \<Rightarrow> rb_state option" where
  "replace_child parent node child s = (if parent \<noteq> None then do {
       p \<leftarrow> rd s parent;
       if rb_left p = node then set_left child parent s else set_right child parent s }
     else Some (s\<lparr>root := child\<rparr>))"

text \<open>
  The part of \<open>rb_erase\<close> for a node \<open>old\<close> with two children: its successor \<open>node\<close> is unlinked and
  put in its place with its colour. Returned are \<open>child\<close>, \<open>parent\<close> and \<open>color\<close> of the place the
  successor left, which the label \<open>color:\<close> uses.
\<close>

definition erase_two_children :: "ptr \<Rightarrow> rb_state \<Rightarrow> (ptr \<times> ptr \<times> rb_colour \<times> rb_state) option" where
  "erase_two_children old s = do {
     on \<leftarrow> rd s old;
     node \<leftarrow> go_left s (rb_right on);
     n \<leftarrow> rd s node;
     let child = rb_right n;
     let parent = rb_parent n;
     let color = rb_color n;
     s \<leftarrow> (if child \<noteq> None then set_parent parent child s else Some s);
     s \<leftarrow> replace_child parent node child s;
     n \<leftarrow> rd s node;
     let parent = (if rb_parent n = old then node else parent);
     on \<leftarrow> rd s old;
     s \<leftarrow> set_parent (rb_parent on) node s;
     s \<leftarrow> set_color (rb_color on) node s;
     s \<leftarrow> set_right (rb_right on) node s;
     s \<leftarrow> set_left (rb_left on) node s;
     on \<leftarrow> rd s old;
     s \<leftarrow> replace_child (rb_parent on) old node s;
     on \<leftarrow> rd s old;
     s \<leftarrow> set_parent node (rb_left on) s;
     on \<leftarrow> rd s old;
     s \<leftarrow> (if rb_right on \<noteq> None then set_parent node (rb_right on) s else Some s);
     Some (child, parent, color, s)
   }"

definition erase_one_child :: "ptr \<Rightarrow> ptr \<Rightarrow> rb_state \<Rightarrow> (ptr \<times> ptr \<times> rb_colour \<times> rb_state) option" where
  "erase_one_child node child s = do {
     n \<leftarrow> rd s node;
     let parent = rb_parent n;
     let color = rb_color n;
     s \<leftarrow> (if child \<noteq> None then set_parent parent child s else Some s);
     s \<leftarrow> replace_child parent node child s;
     Some (child, parent, color, s)
   }"

definition rb_erase :: "ptr \<Rightarrow> rb_state \<Rightarrow> rb_state option" where
  "rb_erase node s = do {
     n \<leftarrow> rd s node;
     (child, parent, color, s) \<leftarrow>
       (if rb_left n = None then erase_one_child node (rb_right n) s
        else if rb_right n = None then erase_one_child node (rb_left n) s
        else erase_two_children node s);
     if color = RB_BLACK then rb_erase_color child parent s else Some s
   }"

section \<open>Walking in order, replacing\<close>

definition rb_first :: "rb_state \<Rightarrow> ptr option" where
  "rb_first s = (if root s = None then Some None else go_left s (root s))"

definition rb_last :: "rb_state \<Rightarrow> ptr option" where
  "rb_last s = (if root s = None then Some None else go_right s (root s))"

text \<open>The climbing loops of \<open>rb_next\<close> and \<open>rb_prev\<close>; they return the last \<open>node->rb_parent\<close>.\<close>

partial_function (option) climb_right :: "rb_state \<Rightarrow> ptr \<Rightarrow> ptr option" where
  "climb_right s node = do {
     n \<leftarrow> rd s node;
     if rb_parent n = None then Some None else do {
       p \<leftarrow> rd s (rb_parent n);
       if node = rb_right p then climb_right s (rb_parent n) else Some (rb_parent n) } }"

partial_function (option) climb_left :: "rb_state \<Rightarrow> ptr \<Rightarrow> ptr option" where
  "climb_left s node = do {
     n \<leftarrow> rd s node;
     if rb_parent n = None then Some None else do {
       p \<leftarrow> rd s (rb_parent n);
       if node = rb_left p then climb_left s (rb_parent n) else Some (rb_parent n) } }"

definition rb_next :: "rb_state \<Rightarrow> ptr \<Rightarrow> ptr option" where
  "rb_next s node = do {
     n \<leftarrow> rd s node;
     if rb_right n \<noteq> None then go_left s (rb_right n) else climb_right s node }"

definition rb_prev :: "rb_state \<Rightarrow> ptr \<Rightarrow> ptr option" where
  "rb_prev s node = do {
     n \<leftarrow> rd s node;
     if rb_left n \<noteq> None then go_right s (rb_left n) else climb_left s node }"

definition rb_replace_node :: "ptr \<Rightarrow> ptr \<Rightarrow> rb_state \<Rightarrow> rb_state option" where
  "rb_replace_node victim newnode s = do {
     v \<leftarrow> rd s victim;
     let parent = rb_parent v;
     s \<leftarrow> replace_child parent victim newnode s;
     v \<leftarrow> rd s victim;
     s \<leftarrow> (if rb_left v \<noteq> None then set_parent newnode (rb_left v) s else Some s);
     v \<leftarrow> rd s victim;
     s \<leftarrow> (if rb_right v \<noteq> None then set_parent newnode (rb_right v) s else Some s);
     v \<leftarrow> rd s victim;
     wr (\<lambda>_. v) newnode s
   }"

end
