(* ===== verification/Rb_Shape.thy ===== *)
theory Rb_Shape
  imports Rb_Heap
begin

text \<open>
  What a heap of red-black nodes represents: a tree of node addresses, split into a subtree and the
  context above it where the code works at one place of the tree. The lemmas show what a read, a
  recolouring and a rotation do to the represented tree.
\<close>

section \<open>Trees of addresses and contexts\<close>

datatype rtree = Lf | Nd rtree addr rb_colour rtree

text \<open>A context lists the frames from the hole up to the root.\<close>

datatype frame = LeftOf addr rb_colour rtree | RightOf rtree addr rb_colour

fun ptr_of :: "rtree \<Rightarrow> ptr" where
  "ptr_of Lf = None"
| "ptr_of (Nd l a c r) = Some a"

fun addrs :: "rtree \<Rightarrow> addr list" where
  "addrs Lf = []"
| "addrs (Nd l a c r) = addrs l @ a # addrs r"

fun plug :: "rtree \<Rightarrow> frame list \<Rightarrow> rtree" where
  "plug t [] = t"
| "plug t (LeftOf a c r # fs) = plug (Nd t a c r) fs"
| "plug t (RightOf l a c # fs) = plug (Nd l a c t) fs"

fun ctx_par :: "frame list \<Rightarrow> ptr" where
  "ctx_par [] = None"
| "ctx_par (LeftOf a c r # fs) = Some a"
| "ctx_par (RightOf l a c # fs) = Some a"

fun ctx_l :: "frame list \<Rightarrow> addr list" where
  "ctx_l [] = []"
| "ctx_l (LeftOf a c r # fs) = ctx_l fs"
| "ctx_l (RightOf l a c # fs) = ctx_l fs @ addrs l @ [a]"

fun ctx_r :: "frame list \<Rightarrow> addr list" where
  "ctx_r [] = []"
| "ctx_r (LeftOf a c r # fs) = a # addrs r @ ctx_r fs"
| "ctx_r (RightOf l a c # fs) = ctx_r fs"

lemma addrs_plug: "addrs (plug t fs) = ctx_l fs @ addrs t @ ctx_r fs"
  by (induction t fs rule: plug.induct) auto

lemma plug_append: "plug t (fs @ gs) = plug (plug t fs) gs"
  by (induction t fs rule: plug.induct) auto

lemma ptr_of_eq_None [simp]: "ptr_of t = None \<longleftrightarrow> t = Lf" "None = ptr_of t \<longleftrightarrow> t = Lf"
  by (cases t; auto)+

lemma ptr_of_neq [simp]:
  "a \<notin> set (addrs t) \<Longrightarrow> ptr_of t \<noteq> Some a" "a \<notin> set (addrs t) \<Longrightarrow> Some a \<noteq> ptr_of t"
  by (cases t; auto)+

lemma ptr_of_in_addrs: "ptr_of t = Some a \<Longrightarrow> a \<in> set (addrs t)"
  by (cases t) auto

fun ctx_root :: "ptr \<Rightarrow> frame list \<Rightarrow> ptr" where
  "ctx_root p [] = p"
| "ctx_root p (LeftOf a c r # fs) = ctx_root (Some a) fs"
| "ctx_root p (RightOf l a c # fs) = ctx_root (Some a) fs"

lemma ptr_of_plug: "ptr_of (plug t fs) = ctx_root (ptr_of t) fs"
  by (induction t fs rule: plug.induct) auto

section \<open>Representation\<close>

fun reps :: "(addr \<Rightarrow> rb_node option) \<Rightarrow> ptr \<Rightarrow> rtree \<Rightarrow> bool" where
  "reps h q Lf = True"
| "reps h q (Nd l a c r) =
     (h a = Some \<lparr>rb_parent = q, rb_right = ptr_of r, rb_left = ptr_of l, rb_color = c\<rparr>
      \<and> reps h (Some a) l \<and> reps h (Some a) r)"

fun repc :: "(addr \<Rightarrow> rb_node option) \<Rightarrow> ptr \<Rightarrow> frame list \<Rightarrow> bool" where
  "repc h p [] = True"
| "repc h p (LeftOf a c r # fs) =
     (h a = Some \<lparr>rb_parent = ctx_par fs, rb_right = ptr_of r, rb_left = p, rb_color = c\<rparr>
      \<and> reps h (Some a) r \<and> repc h (Some a) fs)"
| "repc h p (RightOf l a c # fs) =
     (h a = Some \<lparr>rb_parent = ctx_par fs, rb_right = p, rb_left = ptr_of l, rb_color = c\<rparr>
      \<and> reps h (Some a) l \<and> repc h (Some a) fs)"

definition rep :: "rb_state \<Rightarrow> rtree \<Rightarrow> bool" where
  "rep s t \<longleftrightarrow> root s = ptr_of t \<and> reps (heap s) None t \<and> distinct (addrs t)"

definition same_outside :: "addr set \<Rightarrow> rb_state \<Rightarrow> rb_state \<Rightarrow> bool" where
  "same_outside A s s' \<longleftrightarrow> (\<forall>a. a \<notin> A \<longrightarrow> heap s' a = heap s a)"

lemma reps_plug: "reps h None (plug t fs) \<longleftrightarrow> reps h (ctx_par fs) t \<and> repc h (ptr_of t) fs"
  by (induction t fs rule: plug.induct) auto

lemma reps_frame [simp]: "a \<notin> set (addrs t) \<Longrightarrow> reps (h(a := v)) q t = reps h q t"
  by (induction h q t rule: reps.induct) auto

lemma repc_frame [simp]:
  "a \<notin> set (ctx_l fs) \<Longrightarrow> a \<notin> set (ctx_r fs) \<Longrightarrow> repc (h(a := v)) p fs = repc h p fs"
  by (induction h p fs rule: repc.induct) auto

lemma reps_Some: "reps h q t \<Longrightarrow> a \<in> set (addrs t) \<Longrightarrow> h a \<noteq> None"
  by (induction h q t rule: reps.induct) auto

lemma same_outside_refl [simp]: "same_outside A s s"
  by (simp add: same_outside_def)

lemma same_outside_trans:
  "same_outside A s s' \<Longrightarrow> same_outside A s' s'' \<Longrightarrow> same_outside A s s''"
  by (simp add: same_outside_def)

lemma same_outside_mono: "same_outside A s s' \<Longrightarrow> A \<subseteq> B \<Longrightarrow> same_outside B s s'"
  by (auto simp: same_outside_def)

text \<open>The represented tree at a place: the subtree, the context and their disjointness.\<close>

lemma rep_plug: "rep s (plug t fs) \<longleftrightarrow>
    root s = ctx_root (ptr_of t) fs \<and> reps (heap s) (ctx_par fs) t \<and> repc (heap s) (ptr_of t) fs
    \<and> distinct (ctx_l fs @ addrs t @ ctx_r fs)"
  by (auto simp: rep_def reps_plug addrs_plug ptr_of_plug)

lemma rd_Some [simp]: "rd s (Some a) = heap s a"
  by (simp add: rd_def)

lemma rd_None [simp]: "rd s None = None"
  by (simp add: rd_def)

lemma wr_None [simp]: "wr f None s = None"
  by (simp add: wr_def)

lemma wr_Some: "wr f (Some a) s =
    (case heap s a of None \<Rightarrow> None | Some n \<Rightarrow> Some (s\<lparr>heap := (heap s)(a \<mapsto> f n)\<rparr>))"
  by (auto simp: wr_def split: option.splits)

lemma wr_SomeI: "heap s a = Some n \<Longrightarrow> wr f (Some a) s = Some (s\<lparr>heap := (heap s)(a \<mapsto> f n)\<rparr>)"
  by (simp add: wr_Some)

section \<open>What a command turns the tree into\<close>

text \<open>
  \<open>becomes s m t\<close>: the command \<open>m\<close>, run in \<open>s\<close>, returns a state that represents \<open>t\<close> and differs from
  \<open>s\<close> only at the nodes of \<open>t\<close>.
\<close>

definition becomes :: "rb_state \<Rightarrow> rb_state option \<Rightarrow> rtree \<Rightarrow> bool" where
  "becomes s m t \<longleftrightarrow> (\<exists>s'. m = Some s' \<and> rep s' t \<and> same_outside (set (addrs t)) s s')"

lemma becomesI:
  "m = Some s' \<Longrightarrow> rep s' t \<Longrightarrow> same_outside (set (addrs t)) s s' \<Longrightarrow> becomes s m t"
  by (auto simp: becomes_def)

lemma becomesE:
  assumes "becomes s m t"
  obtains s' where "m = Some s'" "rep s' t" "same_outside (set (addrs t)) s s'"
  using assms by (auto simp: becomes_def)

lemma becomes_refl: "rep s t \<Longrightarrow> becomes s (Some s) t"
  by (auto simp: becomes_def)

text \<open>Sequencing: the nodes stay the same from step to step.\<close>

lemma becomes_bind:
  assumes "becomes s m t" and "set (addrs u) = set (addrs t)"
    and "\<And>s'. rep s' t \<Longrightarrow> becomes s' (f s') u"
  shows "becomes s (Option.bind m f) u"
  using assms unfolding becomes_def same_outside_def by fastforce

lemma set_color_becomes:
  assumes "rep s (plug (Nd l a c r) fs)"
  shows "becomes s (set_color d (Some a) s) (plug (Nd l a d r) fs)"
proof -
  let ?s' = "s\<lparr>heap := (heap s)(a \<mapsto> \<lparr>rb_parent = ctx_par fs, rb_right = ptr_of r,
      rb_left = ptr_of l, rb_color = d\<rparr>)\<rparr>"
  have "set_color d (Some a) s = Some ?s'"
    using assms by (auto simp: rep_plug wr_Some)
  moreover have "rep ?s' (plug (Nd l a d r) fs)"
    using assms by (auto simp: rep_plug)
  ultimately show ?thesis
    by (rule becomesI) (auto simp: same_outside_def addrs_plug)
qed

lemma rotate_left_becomes:
  assumes "rep s (plug (Nd l a c (Nd m b d r)) fs)"
  shows "becomes s (rb_rotate_left (Some a) s) (plug (Nd (Nd l a c m) b d r) fs)"
proof (cases fs rule: ctx_par.cases)
  case 1
  then show ?thesis using assms
    by (cases m)
      (auto simp: becomes_def rep_def Let_def rb_rotate_left_def wr_Some same_outside_def addrs_plug)
next
  case (2 p pc pr gs)
  then show ?thesis using assms
    by (cases m)
      (auto simp: becomes_def rep_plug Let_def rb_rotate_left_def wr_Some same_outside_def addrs_plug)
next
  case (3 pl p pc gs)
  then show ?thesis using assms
    by (cases m)
      (auto simp: becomes_def rep_plug Let_def rb_rotate_left_def wr_Some same_outside_def addrs_plug)
qed

lemma rotate_right_becomes:
  assumes "rep s (plug (Nd (Nd l a c m) b d r) fs)"
  shows "becomes s (rb_rotate_right (Some b) s) (plug (Nd l a c (Nd m b d r)) fs)"
proof (cases fs rule: ctx_par.cases)
  case 1
  then show ?thesis using assms
    by (cases m)
      (auto simp: becomes_def rep_def Let_def rb_rotate_right_def wr_Some same_outside_def addrs_plug)
next
  case (2 p pc pr gs)
  then show ?thesis using assms
    by (cases m)
      (auto simp: becomes_def rep_plug Let_def rb_rotate_right_def wr_Some same_outside_def addrs_plug)
next
  case (3 pl p pc gs)
  then show ?thesis using assms
    by (cases m)
      (auto simp: becomes_def rep_plug Let_def rb_rotate_right_def wr_Some same_outside_def addrs_plug)
qed

section \<open>The ends of a tree\<close>

lemma go_left_hd: "reps (heap s) q t \<Longrightarrow> t \<noteq> Lf \<Longrightarrow> go_left s (ptr_of t) = Some (Some (hd (addrs t)))"
proof (induction t arbitrary: q)
  case (Nd l a c r)
  then show ?case
    by (subst ptr_of.simps, subst go_left.simps) (cases l; auto simp: hd_append)
qed simp

lemma go_right_last: "reps (heap s) q t \<Longrightarrow> t \<noteq> Lf \<Longrightarrow> go_right s (ptr_of t) = Some (Some (last (addrs t)))"
proof (induction t arbitrary: q)
  case (Nd l a c r)
  then show ?case
    by (subst ptr_of.simps, subst go_right.simps) (cases r; auto simp: last_append)
qed simp

text \<open>The leftmost node of a tree, with the frames above it.\<close>

fun split_min :: "rtree \<Rightarrow> frame list \<Rightarrow> addr \<times> rb_colour \<times> rtree \<times> frame list" where
  "split_min (Nd Lf y d yr) gs = (y, d, yr, gs)"
| "split_min (Nd l a c r) gs = split_min l (LeftOf a c r # gs)"
| "split_min Lf gs = undefined"

lemma split_min_plug:
  "t \<noteq> Lf \<Longrightarrow> split_min t gs = (y, d, yr, hs) \<Longrightarrow>
    plug (Nd Lf y d yr) hs = plug t gs \<and> y = hd (addrs t) \<and> (\<exists>ks. hs = ks @ gs \<and> ctx_l ks = [])"
proof (induction t gs arbitrary: y d yr hs rule: split_min.induct)
  case (2 l1 l2 l3 l4 a c r gs)
  obtain ks where "plug (Nd Lf y d yr) hs = plug (Nd l1 l2 l3 l4) (LeftOf a c r # gs)"
    "y = hd (addrs (Nd l1 l2 l3 l4))" "hs = ks @ LeftOf a c r # gs" "ctx_l ks = []"
    using "2.IH" [OF _ "2.prems"(2) [unfolded split_min.simps]] by blast
  moreover have "ctx_l (ks @ [LeftOf a c r]) = ctx_l ks" for ks
    by (induction ks rule: ctx_l.induct) auto
  ultimately show ?case
    by (simp add: hd_append)
qed auto

end
