(* ===== verification/Rb_Insert.thy ===== *)
theory Rb_Insert
  imports Rb_Shape
begin

text \<open>
  \<open>rb_insert_color\<close> refines a function on trees: \<open>ins_fix\<close> repairs a red node under a context
  exactly as the loop does, and the loop always returns. On trees, the repair keeps the in-order
  sequence and re-establishes the red-black invariant.
\<close>

section \<open>The red-black invariant\<close>

fun col :: "rtree \<Rightarrow> rb_colour" where
  "col Lf = RB_BLACK"
| "col (Nd l a c r) = c"

fun blacken :: "rtree \<Rightarrow> rtree" where
  "blacken Lf = Lf"
| "blacken (Nd l a c r) = Nd l a RB_BLACK r"

fun bh :: "rtree \<Rightarrow> nat" where
  "bh Lf = 0"
| "bh (Nd l a c r) = (if c = RB_BLACK then Suc (bh l) else bh l)"

fun invh :: "rtree \<Rightarrow> bool" where
  "invh Lf = True"
| "invh (Nd l a c r) = (bh l = bh r \<and> invh l \<and> invh r)"

fun invc :: "rtree \<Rightarrow> bool" where
  "invc Lf = True"
| "invc (Nd l a c r) =
     ((c = RB_RED \<longrightarrow> col l = RB_BLACK \<and> col r = RB_BLACK) \<and> invc l \<and> invc r)"

definition rb_tree :: "rtree \<Rightarrow> bool" where
  "rb_tree t \<longleftrightarrow> invh t \<and> invc t \<and> col t = RB_BLACK"

fun frame_col :: "frame \<Rightarrow> rb_colour" where
  "frame_col (LeftOf a c r) = c"
| "frame_col (RightOf l a c) = c"

fun ctx_col :: "frame list \<Rightarrow> rb_colour" where
  "ctx_col [] = RB_BLACK"
| "ctx_col (f # fs) = frame_col f"

fun ctx_invh :: "nat \<Rightarrow> frame list \<Rightarrow> bool" where
  "ctx_invh n [] = True"
| "ctx_invh n (LeftOf a c r # fs) =
     (invh r \<and> bh r = n \<and> ctx_invh (if c = RB_BLACK then Suc n else n) fs)"
| "ctx_invh n (RightOf l a c # fs) =
     (invh l \<and> bh l = n \<and> ctx_invh (if c = RB_BLACK then Suc n else n) fs)"

fun ctx_invc :: "frame list \<Rightarrow> bool" where
  "ctx_invc [] = True"
| "ctx_invc (LeftOf a c r # fs) =
     (invc r \<and> (c = RB_RED \<longrightarrow> col r = RB_BLACK \<and> ctx_col fs = RB_BLACK) \<and> ctx_invc fs)"
| "ctx_invc (RightOf l a c # fs) =
     (invc l \<and> (c = RB_RED \<longrightarrow> col l = RB_BLACK \<and> ctx_col fs = RB_BLACK) \<and> ctx_invc fs)"

lemma colour_cases: "c = RB_RED \<or> c = RB_BLACK"
  by (cases c) auto

lemma not_red [simp]: "c \<noteq> RB_RED \<longleftrightarrow> c = RB_BLACK" "c \<noteq> RB_BLACK \<longleftrightarrow> c = RB_RED"
  by (cases c; simp)+

lemma invh_plug: "invh (plug t fs) \<longleftrightarrow> invh t \<and> ctx_invh (bh t) fs"
  by (induction t fs rule: plug.induct) auto

lemma invc_plug:
  "invc (plug t fs) \<longleftrightarrow> invc t \<and> ctx_invc fs \<and> (ctx_col fs = RB_RED \<longrightarrow> col t = RB_BLACK)"
  by (induction t fs rule: plug.induct) auto

lemma col_plug: "col (plug t fs) = (if fs = [] then col t else frame_col (last fs))"
  by (induction t fs rule: plug.induct) auto

lemma blacken_simps [simp]:
  "addrs (blacken t) = addrs t" "ptr_of (blacken t) = ptr_of t" "col (blacken t) = RB_BLACK"
  "invh t \<Longrightarrow> invh (blacken t)" "invc t \<Longrightarrow> invc (blacken t)"
  by (cases t; auto)+

lemma bh_blacken: "bh (blacken t) = (if col t = RB_RED then Suc (bh t) else bh t)"
  by (cases t) auto

section \<open>The repair on trees\<close>

text \<open>
  \<open>ins_fix l x r fs\<close>: the node \<open>x\<close> is red, with subtrees \<open>l\<close> and \<open>r\<close>, below the context \<open>fs\<close>.
\<close>

fun ins_fix :: "rtree \<Rightarrow> addr \<Rightarrow> rtree \<Rightarrow> frame list \<Rightarrow> rtree" where
  "ins_fix l x r [] = Nd l x RB_RED r"
| "ins_fix l x r [f] = plug (Nd l x RB_RED r) [f]"
| "ins_fix l x r (f # g # gs) =
    (if frame_col f = RB_BLACK then plug (Nd l x RB_RED r) (f # g # gs)
     else case g of
       LeftOf q qc u \<Rightarrow>
         (case f of
           LeftOf p pc pr \<Rightarrow>
             (if col u = RB_RED
              then ins_fix (Nd (Nd l x RB_RED r) p RB_BLACK pr) q (blacken u) gs
              else plug (Nd (Nd l x RB_RED r) p RB_BLACK (Nd pr q RB_RED u)) gs)
         | RightOf pl p pc \<Rightarrow>
             (if col u = RB_RED
              then ins_fix (Nd pl p RB_BLACK (Nd l x RB_RED r)) q (blacken u) gs
              else plug (Nd (Nd pl p RB_RED l) x RB_BLACK (Nd r q RB_RED u)) gs))
     | RightOf u q qc \<Rightarrow>
         (case f of
           LeftOf p pc pr \<Rightarrow>
             (if col u = RB_RED
              then ins_fix (blacken u) q (Nd (Nd l x RB_RED r) p RB_BLACK pr) gs
              else plug (Nd (Nd u q RB_RED l) x RB_BLACK (Nd r p RB_RED pr)) gs)
         | RightOf pl p pc \<Rightarrow>
             (if col u = RB_RED
              then ins_fix (blacken u) q (Nd pl p RB_BLACK (Nd l x RB_RED r)) gs
              else plug (Nd (Nd u q RB_RED pl) p RB_BLACK (Nd l x RB_RED r)) gs)))"

lemma addrs_ins_fix: "addrs (ins_fix l x r fs) = addrs (plug (Nd l x RB_RED r) fs)"
  by (induction l x r fs rule: ins_fix.induct) (auto simp: addrs_plug split: frame.splits)

lemma inv_ins_fix:
  assumes "invh (Nd l x RB_RED r)" "invc (Nd l x RB_RED r)" "ctx_invh (bh l) fs" "ctx_invc fs"
    and "fs \<noteq> [] \<Longrightarrow> frame_col (last fs) = RB_BLACK"
  shows "invh (ins_fix l x r fs) \<and> invc (ins_fix l x r fs)"
  using assms
proof (induction l x r fs rule: ins_fix.induct)
  case (3 l x r f g gs)
  then show ?case
    by (cases f; cases g)
      (auto simp: invh_plug invc_plug bh_blacken split: if_splits)
qed (auto simp: invh_plug invc_plug split: frame.splits)

section \<open>The pointer loop refines the repair\<close>

lemma is_red_simps [simp]:
  "is_red s None = Some False" "heap s a = Some n \<Longrightarrow> is_red s (Some a) = Some (rb_color n = RB_RED)"
  "is_black s None = Some True" "heap s a = Some n \<Longrightarrow> is_black s (Some a) = Some (rb_color n = RB_BLACK)"
  by (auto simp: is_red_def is_black_def)

lemma is_red_ptr_of: "reps (heap s) q t \<Longrightarrow> is_red s (ptr_of t) = Some (col t = RB_RED)"
  by (cases t) (auto simp: is_red_def)

lemma is_black_ptr_of: "reps (heap s) q t \<Longrightarrow> is_black s (ptr_of t) = Some (col t = RB_BLACK)"
  by (cases t) (auto simp: is_black_def)

lemma insert_color_stop:
  assumes "rep s (plug (Nd l x c r) fs)" and "ctx_col fs = RB_BLACK"
  shows "becomes s (insert_color_loop (Some x) s) (plug (Nd l x c r) fs)"
proof -
  have "insert_color_loop (Some x) s = Some s"
    using assms
    by (cases fs rule: ctx_par.cases)
      (auto simp: insert_color_loop.simps rep_def reps_plug)
  then show ?thesis using assms by (simp add: becomes_refl)
qed

text \<open>Recolouring parent, uncle and grandparent, with the parent on either side.\<close>

lemma recolour_left:
  assumes "rep s (plug (Nd (Nd a p pc b) q qc (Nd ul u uc ur)) gs)"
    and "\<And>s'. rep s' (plug (Nd (Nd a p RB_BLACK b) q RB_RED (Nd ul u RB_BLACK ur)) gs)
      \<Longrightarrow> becomes s' (k s') t"
    and "set (addrs t) = set (addrs (plug (Nd (Nd a p pc b) q qc (Nd ul u uc ur)) gs))"
  shows "becomes s (do { s \<leftarrow> set_color RB_BLACK (Some u) s;
      s \<leftarrow> set_color RB_BLACK (Some p) s; s \<leftarrow> set_color RB_RED (Some q) s; k s }) t"
proof (rule becomes_bind)
  show "becomes s (set_color RB_BLACK (Some u) s)
      (plug (Nd ul u RB_BLACK ur) (RightOf (Nd a p pc b) q qc # gs))"
    by (rule set_color_becomes [where c = uc]) (use assms(1) in simp)
next
  fix s1 assume 1: "rep s1 (plug (Nd ul u RB_BLACK ur) (RightOf (Nd a p pc b) q qc # gs))"
  show "becomes s1 (do { s \<leftarrow> set_color RB_BLACK (Some p) s1;
      s \<leftarrow> set_color RB_RED (Some q) s; k s }) t"
  proof (rule becomes_bind)
    show "becomes s1 (set_color RB_BLACK (Some p) s1)
        (plug (Nd a p RB_BLACK b) (LeftOf q qc (Nd ul u RB_BLACK ur) # gs))"
      by (rule set_color_becomes [where c = pc]) (use 1 in simp)
  next
    fix s2 assume 2: "rep s2 (plug (Nd a p RB_BLACK b) (LeftOf q qc (Nd ul u RB_BLACK ur) # gs))"
    show "becomes s2 (do { s \<leftarrow> set_color RB_RED (Some q) s2; k s }) t"
    proof (rule becomes_bind)
      show "becomes s2 (set_color RB_RED (Some q) s2)
          (plug (Nd (Nd a p RB_BLACK b) q RB_RED (Nd ul u RB_BLACK ur)) gs)"
        by (rule set_color_becomes [where c = qc]) (use 2 in simp)
    qed (use assms in \<open>auto simp: addrs_plug\<close>)
  qed (use assms in \<open>auto simp: addrs_plug\<close>)
qed (use assms in \<open>auto simp: addrs_plug\<close>)

lemma recolour_right:
  assumes "rep s (plug (Nd (Nd ul u uc ur) q qc (Nd a p pc b)) gs)"
    and "\<And>s'. rep s' (plug (Nd (Nd ul u RB_BLACK ur) q RB_RED (Nd a p RB_BLACK b)) gs)
      \<Longrightarrow> becomes s' (k s') t"
    and "set (addrs t) = set (addrs (plug (Nd (Nd ul u uc ur) q qc (Nd a p pc b)) gs))"
  shows "becomes s (do { s \<leftarrow> set_color RB_BLACK (Some u) s;
      s \<leftarrow> set_color RB_BLACK (Some p) s; s \<leftarrow> set_color RB_RED (Some q) s; k s }) t"
proof (rule becomes_bind)
  show "becomes s (set_color RB_BLACK (Some u) s)
      (plug (Nd ul u RB_BLACK ur) (LeftOf q qc (Nd a p pc b) # gs))"
    by (rule set_color_becomes [where c = uc]) (use assms(1) in simp)
next
  fix s1 assume 1: "rep s1 (plug (Nd ul u RB_BLACK ur) (LeftOf q qc (Nd a p pc b) # gs))"
  show "becomes s1 (do { s \<leftarrow> set_color RB_BLACK (Some p) s1;
      s \<leftarrow> set_color RB_RED (Some q) s; k s }) t"
  proof (rule becomes_bind)
    show "becomes s1 (set_color RB_BLACK (Some p) s1)
        (plug (Nd a p RB_BLACK b) (RightOf (Nd ul u RB_BLACK ur) q qc # gs))"
      by (rule set_color_becomes [where c = pc]) (use 1 in simp)
  next
    fix s2 assume 2: "rep s2 (plug (Nd a p RB_BLACK b) (RightOf (Nd ul u RB_BLACK ur) q qc # gs))"
    show "becomes s2 (do { s \<leftarrow> set_color RB_RED (Some q) s2; k s }) t"
    proof (rule becomes_bind)
      show "becomes s2 (set_color RB_RED (Some q) s2)
          (plug (Nd (Nd ul u RB_BLACK ur) q RB_RED (Nd a p RB_BLACK b)) gs)"
        by (rule set_color_becomes [where c = qc]) (use 2 in simp)
    qed (use assms in \<open>auto simp: addrs_plug\<close>)
  qed (use assms in \<open>auto simp: addrs_plug\<close>)
qed (use assms in \<open>auto simp: addrs_plug\<close>)

text \<open>Recolouring parent and grandparent, then rotating the grandparent.\<close>

lemma recolour_rotate_right:
  assumes "rep s (plug (Nd (Nd a p pc b) q qc c) gs)"
    and "\<And>s'. rep s' (plug (Nd a p RB_BLACK (Nd b q RB_RED c)) gs) \<Longrightarrow> becomes s' (k s') t"
    and "set (addrs t) = set (addrs (plug (Nd (Nd a p pc b) q qc c) gs))"
  shows "becomes s (do { s \<leftarrow> set_color RB_BLACK (Some p) s; s \<leftarrow> set_color RB_RED (Some q) s;
      s \<leftarrow> rb_rotate_right (Some q) s; k s }) t"
proof (rule becomes_bind)
  show "becomes s (set_color RB_BLACK (Some p) s) (plug (Nd a p RB_BLACK b) (LeftOf q qc c # gs))"
    by (rule set_color_becomes [where c = pc]) (use assms(1) in simp)
next
  fix s1 assume 1: "rep s1 (plug (Nd a p RB_BLACK b) (LeftOf q qc c # gs))"
  show "becomes s1 (do { s \<leftarrow> set_color RB_RED (Some q) s1; s \<leftarrow> rb_rotate_right (Some q) s; k s }) t"
  proof (rule becomes_bind)
    show "becomes s1 (set_color RB_RED (Some q) s1) (plug (Nd (Nd a p RB_BLACK b) q RB_RED c) gs)"
      by (rule set_color_becomes [where c = qc]) (use 1 in simp)
  next
    fix s2 assume 2: "rep s2 (plug (Nd (Nd a p RB_BLACK b) q RB_RED c) gs)"
    show "becomes s2 (do { s \<leftarrow> rb_rotate_right (Some q) s2; k s }) t"
      by (rule becomes_bind [OF rotate_right_becomes [OF 2]]) (use assms in \<open>auto simp: addrs_plug\<close>)
  qed (use assms in \<open>auto simp: addrs_plug\<close>)
qed (use assms in \<open>auto simp: addrs_plug\<close>)

lemma recolour_rotate_left:
  assumes "rep s (plug (Nd c q qc (Nd a p pc b)) gs)"
    and "\<And>s'. rep s' (plug (Nd (Nd c q RB_RED a) p RB_BLACK b) gs) \<Longrightarrow> becomes s' (k s') t"
    and "set (addrs t) = set (addrs (plug (Nd c q qc (Nd a p pc b)) gs))"
  shows "becomes s (do { s \<leftarrow> set_color RB_BLACK (Some p) s; s \<leftarrow> set_color RB_RED (Some q) s;
      s \<leftarrow> rb_rotate_left (Some q) s; k s }) t"
proof (rule becomes_bind)
  show "becomes s (set_color RB_BLACK (Some p) s) (plug (Nd a p RB_BLACK b) (RightOf c q qc # gs))"
    by (rule set_color_becomes [where c = pc]) (use assms(1) in simp)
next
  fix s1 assume 1: "rep s1 (plug (Nd a p RB_BLACK b) (RightOf c q qc # gs))"
  show "becomes s1 (do { s \<leftarrow> set_color RB_RED (Some q) s1; s \<leftarrow> rb_rotate_left (Some q) s; k s }) t"
  proof (rule becomes_bind)
    show "becomes s1 (set_color RB_RED (Some q) s1) (plug (Nd c q RB_RED (Nd a p RB_BLACK b)) gs)"
      by (rule set_color_becomes [where c = qc]) (use 1 in simp)
  next
    fix s2 assume 2: "rep s2 (plug (Nd c q RB_RED (Nd a p RB_BLACK b)) gs)"
    show "becomes s2 (do { s \<leftarrow> rb_rotate_left (Some q) s2; k s }) t"
      by (rule becomes_bind [OF rotate_left_becomes [OF 2]]) (use assms in \<open>auto simp: addrs_plug\<close>)
  qed (use assms in \<open>auto simp: addrs_plug\<close>)
qed (use assms in \<open>auto simp: addrs_plug\<close>)

lemma ins_fix_LL:
  assumes rep: "rep s (plug (Nd (Nd (Nd l x RB_RED r) p RB_RED pr) q qc u) gs)"
    and IH: "\<And>s. col u = RB_RED \<Longrightarrow> rep s (plug (Nd (Nd (Nd l x RB_RED r) p RB_BLACK pr) q RB_RED (blacken u)) gs) \<Longrightarrow>
      becomes s (insert_color_loop (Some q) s) (ins_fix (Nd (Nd l x RB_RED r) p RB_BLACK pr) q (blacken u) gs)"
  shows "becomes s (insert_color_loop (Some x) s) (ins_fix l x r (LeftOf p RB_RED pr # LeftOf q qc u # gs))"
proof -
  note facts = rep [unfolded rep_plug]
  have ru: "is_red s (ptr_of u) = Some (col u = RB_RED)"
    by (rule is_red_ptr_of [of _ "Some q"]) (use facts in auto)
  have nd: "p \<noteq> x" "ptr_of pr \<noteq> Some x" using facts by auto
  show ?thesis
  proof (cases "col u = RB_RED")
    case True
    then obtain ul ua ur where u: "u = Nd ul ua RB_RED ur" by (cases u) auto
    have *: "insert_color_loop (Some x) s = do { s \<leftarrow> set_color RB_BLACK (Some ua) s;
        s \<leftarrow> set_color RB_BLACK (Some p) s; s \<leftarrow> set_color RB_RED (Some q) s;
        insert_color_loop (Some q) s }"
      using facts u by (subst insert_color_loop.simps) (simp add: Let_def)
    show ?thesis unfolding *
      by (rule recolour_left [where uc = RB_RED])
        (use rep u IH True in \<open>auto simp: addrs_plug addrs_ins_fix\<close>)
  next
    case False
    have *: "insert_color_loop (Some x) s = do { s \<leftarrow> set_color RB_BLACK (Some p) s;
        s \<leftarrow> set_color RB_RED (Some q) s; s \<leftarrow> rb_rotate_right (Some q) s;
        insert_color_loop (Some x) s }"
      using facts False nd ru
      by (subst insert_color_loop.simps) (simp add: Let_def)
    show ?thesis unfolding *
      by (rule recolour_rotate_right [OF rep])
        (use insert_color_stop [of _ l x RB_RED r "LeftOf p RB_BLACK (Nd pr q RB_RED u) # gs"] False in \<open>auto simp: addrs_plug\<close>)
  qed
qed

lemma ins_fix_RL:
  assumes rep: "rep s (plug (Nd (Nd pl p RB_RED (Nd l x RB_RED r)) q qc u) gs)"
    and IH: "\<And>s. col u = RB_RED \<Longrightarrow> rep s (plug (Nd (Nd pl p RB_BLACK (Nd l x RB_RED r)) q RB_RED (blacken u)) gs) \<Longrightarrow>
      becomes s (insert_color_loop (Some q) s) (ins_fix (Nd pl p RB_BLACK (Nd l x RB_RED r)) q (blacken u) gs)"
  shows "becomes s (insert_color_loop (Some x) s) (ins_fix l x r (RightOf pl p RB_RED # LeftOf q qc u # gs))"
proof -
  note facts = rep [unfolded rep_plug]
  have ru: "is_red s (ptr_of u) = Some (col u = RB_RED)"
    by (rule is_red_ptr_of [of _ "Some q"]) (use facts in auto)
  have nd: "p \<noteq> x" "ptr_of pl \<noteq> Some x" using facts by auto
  show ?thesis
  proof (cases "col u = RB_RED")
    case True
    then obtain ul ua ur where u: "u = Nd ul ua RB_RED ur" by (cases u) auto
    have *: "insert_color_loop (Some x) s = do { s \<leftarrow> set_color RB_BLACK (Some ua) s;
        s \<leftarrow> set_color RB_BLACK (Some p) s; s \<leftarrow> set_color RB_RED (Some q) s;
        insert_color_loop (Some q) s }"
      using facts u by (subst insert_color_loop.simps) (simp add: Let_def)
    show ?thesis unfolding *
      by (rule recolour_left [where uc = RB_RED])
        (use rep u IH True in \<open>auto simp: addrs_plug addrs_ins_fix\<close>)
  next
    case False
    have *: "insert_color_loop (Some x) s = do { s \<leftarrow> rb_rotate_left (Some p) s;
        s \<leftarrow> set_color RB_BLACK (Some x) s; s \<leftarrow> set_color RB_RED (Some q) s;
        s \<leftarrow> rb_rotate_right (Some q) s; insert_color_loop (Some p) s }"
      using facts False nd ru
      by (subst insert_color_loop.simps) (simp add: Let_def)
    have rot: "becomes s (rb_rotate_left (Some p) s) (plug (Nd (Nd pl p RB_RED l) x RB_RED r) (LeftOf q qc u # gs))"
      by (rule rotate_left_becomes) (use rep in simp)
    show ?thesis unfolding *
    proof (rule becomes_bind [OF rot])
      fix s1 assume "rep s1 (plug (Nd (Nd pl p RB_RED l) x RB_RED r) (LeftOf q qc u # gs))"
      then have r1: "rep s1 (plug (Nd (Nd (Nd pl p RB_RED l) x RB_RED r) q qc u) gs)" by simp
      show "becomes s1 (do { s \<leftarrow> set_color RB_BLACK (Some x) s1; s \<leftarrow> set_color RB_RED (Some q) s;
          s \<leftarrow> rb_rotate_right (Some q) s; insert_color_loop (Some p) s })
          (ins_fix l x r (RightOf pl p RB_RED # LeftOf q qc u # gs))"
        by (rule recolour_rotate_right [OF r1])
          (use insert_color_stop [of _ pl p RB_RED l "LeftOf x RB_BLACK (Nd r q RB_RED u) # gs"] False in \<open>auto simp: addrs_plug\<close>)
    qed (use False in \<open>auto simp: addrs_plug\<close>)
  qed
qed

lemma ins_fix_LR:
  assumes rep: "rep s (plug (Nd u q qc (Nd (Nd l x RB_RED r) p RB_RED pr)) gs)"
    and IH: "\<And>s. col u = RB_RED \<Longrightarrow> rep s (plug (Nd (blacken u) q RB_RED (Nd (Nd l x RB_RED r) p RB_BLACK pr)) gs) \<Longrightarrow>
      becomes s (insert_color_loop (Some q) s) (ins_fix (blacken u) q (Nd (Nd l x RB_RED r) p RB_BLACK pr) gs)"
  shows "becomes s (insert_color_loop (Some x) s) (ins_fix l x r (LeftOf p RB_RED pr # RightOf u q qc # gs))"
proof -
  note facts = rep [unfolded rep_plug]
  have ru: "is_red s (ptr_of u) = Some (col u = RB_RED)"
    by (rule is_red_ptr_of [of _ "Some q"]) (use facts in auto)
  have nd: "p \<noteq> x" "ptr_of pr \<noteq> Some x" "ptr_of u \<noteq> Some p" using facts by auto
  show ?thesis
  proof (cases "col u = RB_RED")
    case True
    then obtain ul ua ur where u: "u = Nd ul ua RB_RED ur" by (cases u) auto
    have *: "insert_color_loop (Some x) s = do { s \<leftarrow> set_color RB_BLACK (Some ua) s;
        s \<leftarrow> set_color RB_BLACK (Some p) s; s \<leftarrow> set_color RB_RED (Some q) s;
        insert_color_loop (Some q) s }"
      using facts u by (subst insert_color_loop.simps) (simp add: Let_def)
    show ?thesis unfolding *
      by (rule recolour_right [where uc = RB_RED])
        (use rep u IH True in \<open>auto simp: addrs_plug addrs_ins_fix\<close>)
  next
    case False
    have *: "insert_color_loop (Some x) s = do { s \<leftarrow> rb_rotate_right (Some p) s;
        s \<leftarrow> set_color RB_BLACK (Some x) s; s \<leftarrow> set_color RB_RED (Some q) s;
        s \<leftarrow> rb_rotate_left (Some q) s; insert_color_loop (Some p) s }"
      using facts False nd ru
      by (subst insert_color_loop.simps) (simp add: Let_def)
    have rot: "becomes s (rb_rotate_right (Some p) s) (plug (Nd l x RB_RED (Nd r p RB_RED pr)) (RightOf u q qc # gs))"
      by (rule rotate_right_becomes) (use rep in simp)
    show ?thesis unfolding *
    proof (rule becomes_bind [OF rot])
      fix s1 assume "rep s1 (plug (Nd l x RB_RED (Nd r p RB_RED pr)) (RightOf u q qc # gs))"
      then have r1: "rep s1 (plug (Nd u q qc (Nd l x RB_RED (Nd r p RB_RED pr))) gs)" by simp
      show "becomes s1 (do { s \<leftarrow> set_color RB_BLACK (Some x) s1; s \<leftarrow> set_color RB_RED (Some q) s;
          s \<leftarrow> rb_rotate_left (Some q) s; insert_color_loop (Some p) s })
          (ins_fix l x r (LeftOf p RB_RED pr # RightOf u q qc # gs))"
        by (rule recolour_rotate_left [OF r1])
          (use insert_color_stop [of _ r p RB_RED pr "RightOf (Nd u q RB_RED l) x RB_BLACK # gs"] False in \<open>auto simp: addrs_plug\<close>)
    qed (use False in \<open>auto simp: addrs_plug\<close>)
  qed
qed

lemma ins_fix_RR:
  assumes rep: "rep s (plug (Nd u q qc (Nd pl p RB_RED (Nd l x RB_RED r))) gs)"
    and IH: "\<And>s. col u = RB_RED \<Longrightarrow> rep s (plug (Nd (blacken u) q RB_RED (Nd pl p RB_BLACK (Nd l x RB_RED r))) gs) \<Longrightarrow>
      becomes s (insert_color_loop (Some q) s) (ins_fix (blacken u) q (Nd pl p RB_BLACK (Nd l x RB_RED r)) gs)"
  shows "becomes s (insert_color_loop (Some x) s) (ins_fix l x r (RightOf pl p RB_RED # RightOf u q qc # gs))"
proof -
  note facts = rep [unfolded rep_plug]
  have ru: "is_red s (ptr_of u) = Some (col u = RB_RED)"
    by (rule is_red_ptr_of [of _ "Some q"]) (use facts in auto)
  have nd: "p \<noteq> x" "ptr_of pl \<noteq> Some x" "ptr_of u \<noteq> Some p" using facts by auto
  show ?thesis
  proof (cases "col u = RB_RED")
    case True
    then obtain ul ua ur where u: "u = Nd ul ua RB_RED ur" by (cases u) auto
    have *: "insert_color_loop (Some x) s = do { s \<leftarrow> set_color RB_BLACK (Some ua) s;
        s \<leftarrow> set_color RB_BLACK (Some p) s; s \<leftarrow> set_color RB_RED (Some q) s;
        insert_color_loop (Some q) s }"
      using facts u by (subst insert_color_loop.simps) (simp add: Let_def)
    show ?thesis unfolding *
      by (rule recolour_right [where uc = RB_RED])
        (use rep u IH True in \<open>auto simp: addrs_plug addrs_ins_fix\<close>)
  next
    case False
    have *: "insert_color_loop (Some x) s = do { s \<leftarrow> set_color RB_BLACK (Some p) s;
        s \<leftarrow> set_color RB_RED (Some q) s; s \<leftarrow> rb_rotate_left (Some q) s;
        insert_color_loop (Some x) s }"
      using facts False nd ru
      by (subst insert_color_loop.simps) (simp add: Let_def)
    show ?thesis unfolding *
      by (rule recolour_rotate_left [OF rep])
        (use insert_color_stop [of _ l x RB_RED r "RightOf (Nd u q RB_RED pl) p RB_BLACK # gs"] False in \<open>auto simp: addrs_plug\<close>)
  qed
qed

text \<open>
  The whole loop. The one requirement is that the root is black: a red parent then always has a
  parent of its own, so the code never reads through a null grandparent.
\<close>

lemma insert_color_loop_becomes:
  assumes "rep s (plug (Nd l x RB_RED r) fs)" and "fs \<noteq> [] \<Longrightarrow> frame_col (last fs) = RB_BLACK"
  shows "becomes s (insert_color_loop (Some x) s) (ins_fix l x r fs)"
  using assms
proof (induction l x r fs arbitrary: s rule: ins_fix.induct)
  case (1 l x r)
  then show ?case using insert_color_stop [of s l x RB_RED r "[]"] by simp
next
  case (2 l x r f)
  then show ?case using insert_color_stop [of s l x RB_RED r "[f]"] by simp
next
  case (3 l x r f g gs)
  show ?case
  proof (cases "frame_col f = RB_BLACK")
    case True
    then show ?thesis using 3 insert_color_stop [of s l x RB_RED r "f # g # gs"] by simp
  next
    case False
    have top: "gs \<noteq> [] \<Longrightarrow> frame_col (last gs) = RB_BLACK" using 3 by auto
    show ?thesis
    proof (cases g)
      case g: (LeftOf q qc u)
      show ?thesis
      proof (cases f)
        case f: (LeftOf p pc pr)
        have pc: "pc = RB_RED" using False f by simp
        show ?thesis unfolding f g pc
          by (rule ins_fix_LL) (use 3 top f g pc in auto)
      next
        case f: (RightOf pl p pc)
        have pc: "pc = RB_RED" using False f by simp
        show ?thesis unfolding f g pc
          by (rule ins_fix_RL) (use 3 top f g pc in auto)
      qed
    next
      case g: (RightOf u q qc)
      show ?thesis
      proof (cases f)
        case f: (LeftOf p pc pr)
        have pc: "pc = RB_RED" using False f by simp
        show ?thesis unfolding f g pc
          by (rule ins_fix_LR) (use 3 top f g pc in auto)
      next
        case f: (RightOf pl p pc)
        have pc: "pc = RB_RED" using False f by simp
        show ?thesis unfolding f g pc
          by (rule ins_fix_RR) (use 3 top f g pc in auto)
      qed
    qed
  qed
qed

lemma set_root_black_becomes:
  assumes "rep s t" and "t \<noteq> Lf"
  shows "becomes s (set_color RB_BLACK (root s) s) (blacken t)"
proof (cases t)
  case (Nd l a c r)
  then show ?thesis
    using assms set_color_becomes [of s l a c r "[]" RB_BLACK] by (simp add: rep_def)
qed (use assms in simp)

lemma rb_insert_color_becomes:
  assumes "rep s (plug (Nd l x RB_RED r) fs)" and "fs \<noteq> [] \<Longrightarrow> frame_col (last fs) = RB_BLACK"
  shows "becomes s (rb_insert_color (Some x) s) (blacken (ins_fix l x r fs))"
  unfolding rb_insert_color_def
proof (rule becomes_bind [OF insert_color_loop_becomes [OF assms]])
  fix s' assume "rep s' (ins_fix l x r fs)"
  moreover have "ins_fix l x r fs \<noteq> Lf"
    using addrs_ins_fix [of l x r fs] by (auto simp: addrs_plug)
  ultimately show "becomes s' (set_color RB_BLACK (root s') s') (blacken (ins_fix l x r fs))"
    by (rule set_root_black_becomes)
qed auto

section \<open>Linking a new node\<close>

fun link_of :: "frame list \<Rightarrow> rb_link" where
  "link_of [] = Link_Root"
| "link_of (LeftOf a c r # fs) = Link_Left a"
| "link_of (RightOf l a c # fs) = Link_Right a"

lemma rb_link_node_becomes:
  assumes "rep s (plug Lf fs)" and "x \<notin> set (addrs (plug Lf fs))" and "heap s x \<noteq> None"
  shows "becomes s (rb_link_node (Some x) (ctx_par fs) (link_of fs) s) (plug (Nd Lf x RB_RED Lf) fs)"
proof -
  obtain n where n: "heap s x = Some n" using assms by auto
  show ?thesis
  proof (cases fs rule: ctx_par.cases)
    case 1
    then show ?thesis using assms n
      by (auto simp: becomes_def rep_def rb_link_node_def set_link_def wr_Some same_outside_def)
  next
    case (2 a c r gs)
    then show ?thesis using assms n
      by (auto simp: becomes_def rep_plug rb_link_node_def set_link_def wr_Some same_outside_def
          addrs_plug)
  next
    case (3 l a c gs)
    then show ?thesis using assms n
      by (auto simp: becomes_def rep_plug rb_link_node_def set_link_def wr_Some same_outside_def
          addrs_plug)
  qed
qed

text \<open>The tree after linking a new node at a leaf and repairing.\<close>

definition ins_at :: "addr \<Rightarrow> frame list \<Rightarrow> rtree" where
  "ins_at x fs = blacken (ins_fix Lf x Lf fs)"

lemma addrs_ins_at: "addrs (ins_at x fs) = ctx_l fs @ x # ctx_r fs"
  by (simp add: ins_at_def addrs_ins_fix addrs_plug)

lemma top_black_if_rb_tree:
  "rb_tree (plug t fs) \<Longrightarrow> fs \<noteq> [] \<Longrightarrow> frame_col (last fs) = RB_BLACK"
  by (simp add: rb_tree_def col_plug)

lemma rb_tree_ins_at:
  assumes "rb_tree (plug Lf fs)"
  shows "rb_tree (ins_at x fs)"
proof -
  have "invh (ins_fix Lf x Lf fs) \<and> invc (ins_fix Lf x Lf fs)"
    by (rule inv_ins_fix)
      (use assms top_black_if_rb_tree [OF assms] in \<open>auto simp: rb_tree_def invh_plug invc_plug\<close>)
  then show ?thesis by (simp add: rb_tree_def ins_at_def)
qed

lemma link_insert_becomes:
  assumes "rep s (plug Lf fs)" "rb_tree (plug Lf fs)"
    and "x \<notin> set (addrs (plug Lf fs))" "heap s x \<noteq> None"
  shows "becomes s (do { s \<leftarrow> rb_link_node (Some x) (ctx_par fs) (link_of fs) s;
      rb_insert_color (Some x) s }) (ins_at x fs)"
proof (rule becomes_bind [OF rb_link_node_becomes])
  fix s' assume "rep s' (plug (Nd Lf x RB_RED Lf) fs)"
  then show "becomes s' (rb_insert_color (Some x) s') (ins_at x fs)"
    unfolding ins_at_def
    by (rule rb_insert_color_becomes) (rule top_black_if_rb_tree [OF assms(2)])
qed (use assms in \<open>auto simp: addrs_plug addrs_ins_at\<close>)

end
