(* ===== verification/Rb_Erase.thy ===== *)
theory Rb_Erase
  imports Rb_Insert
begin

text \<open>
  \<open>rb_erase\<close> refines a function on trees. \<open>del_fix t fs\<close> repairs a subtree whose black height is one
  too small below the context \<open>fs\<close>, as the loop of \<open>__rb_erase_color\<close> does; the loop always
  returns, reads no null pointer, keeps the in-order sequence and restores the invariant.
\<close>

section \<open>The repair on trees\<close>

fun redden :: "rtree \<Rightarrow> rtree" where
  "redden Lf = Lf"
| "redden (Nd l a c r) = Nd l a RB_RED r"

text \<open>
  Rebalancing at \<open>p\<close> with a black sibling: \<^term>\<open>None\<close> when both nephews are black (the sibling is
  then painted red and the loop goes up), otherwise the finished subtree.
\<close>

fun sib_left :: "rtree \<Rightarrow> addr \<Rightarrow> rb_colour \<Rightarrow> rtree \<Rightarrow> rtree option" where
  "sib_left t p pc (Nd a w wc b) =
    (if col a = RB_BLACK \<and> col b = RB_BLACK then None
     else if col b = RB_BLACK then
       (case a of Nd a1 y yc a2 \<Rightarrow> Some (Nd (Nd t p RB_BLACK a1) y pc (Nd a2 w RB_BLACK b)) | Lf \<Rightarrow> None)
     else Some (Nd (Nd t p RB_BLACK a) w pc (blacken b)))"
| "sib_left t p pc Lf = None"

fun sib_right :: "rtree \<Rightarrow> addr \<Rightarrow> rb_colour \<Rightarrow> rtree \<Rightarrow> rtree option" where
  "sib_right (Nd b w wc a) p pc t =
    (if col b = RB_BLACK \<and> col a = RB_BLACK then None
     else if col b = RB_BLACK then
       (case a of Nd a2 y yc a1 \<Rightarrow> Some (Nd (Nd b w RB_BLACK a2) y pc (Nd a1 p RB_BLACK t)) | Lf \<Rightarrow> None)
     else Some (Nd (blacken b) w pc (Nd a p RB_BLACK t)))"
| "sib_right Lf p pc t = None"

fun del_fix :: "rtree \<Rightarrow> frame list \<Rightarrow> rtree" where
  "del_fix t [] = blacken t"
| "del_fix t (f # fs) =
    (if col t = RB_RED then plug (blacken t) (f # fs)
     else case f of
       LeftOf p pc sib \<Rightarrow>
         (case sib of
           Lf \<Rightarrow> plug t (f # fs)
         | Nd a w wc b \<Rightarrow>
             (if wc = RB_RED then
                (case sib_left t p RB_RED a of
                  None \<Rightarrow> plug (Nd (Nd t p RB_BLACK (redden a)) w RB_BLACK b) fs
                | Some u \<Rightarrow> blacken (plug (Nd u w RB_BLACK b) fs))
              else
                (case sib_left t p pc sib of
                  None \<Rightarrow> del_fix (Nd t p pc (redden sib)) fs
                | Some u \<Rightarrow> blacken (plug u fs))))
     | RightOf sib p pc \<Rightarrow>
         (case sib of
           Lf \<Rightarrow> plug t (f # fs)
         | Nd b w wc a \<Rightarrow>
             (if wc = RB_RED then
                (case sib_right a p RB_RED t of
                  None \<Rightarrow> plug (Nd b w RB_BLACK (Nd (redden a) p RB_BLACK t)) fs
                | Some u \<Rightarrow> blacken (plug (Nd b w RB_BLACK u) fs))
              else
                (case sib_right sib p pc t of
                  None \<Rightarrow> del_fix (Nd (redden sib) p pc t) fs
                | Some u \<Rightarrow> blacken (plug u fs)))))"

lemma redden_simps [simp]: "addrs (redden t) = addrs t" "ptr_of (redden t) = ptr_of t"
  by (cases t; simp)+

lemma addrs_sib_left: "sib_left t p pc sib = Some u \<Longrightarrow> addrs u = addrs t @ p # addrs sib"
  by (cases sib) (auto split: if_splits rtree.splits)

lemma addrs_sib_right: "sib_right sib p pc t = Some u \<Longrightarrow> addrs u = addrs sib @ p # addrs t"
  by (cases sib) (auto split: if_splits rtree.splits)

lemma addrs_del_fix: "addrs (del_fix t fs) = addrs (plug t fs)"
  by (induction t fs rule: del_fix.induct)
    (auto simp: addrs_plug addrs_sib_left addrs_sib_right split: frame.splits rtree.splits option.splits)

lemma sib_left_inv:
  assumes "sib_left t p pc sib = Some u" "invh t" "invc t" "col t = RB_BLACK"
    and "invh sib" "invc sib" "col sib = RB_BLACK" "bh sib = Suc (bh t)"
  shows "invh u \<and> invc u \<and> col u = pc \<and> bh u = (if pc = RB_BLACK then Suc (Suc (bh t)) else Suc (bh t))"
  using assms
  by (cases sib) (auto simp: bh_blacken split: if_splits rtree.splits)

lemma sib_right_inv:
  assumes "sib_right sib p pc t = Some u" "invh t" "invc t" "col t = RB_BLACK"
    and "invh sib" "invc sib" "col sib = RB_BLACK" "bh sib = Suc (bh t)"
  shows "invh u \<and> invc u \<and> col u = pc \<and> bh u = (if pc = RB_BLACK then Suc (Suc (bh t)) else Suc (bh t))"
  using assms
  by (cases sib) (auto simp: bh_blacken split: if_splits rtree.splits)

lemma sib_None:
  assumes "sib_left t p pc sib = None \<or> sib_right sib p pc t = None" "sib \<noteq> Lf"
  obtains a w wc b where "sib = Nd a w wc b" "col a = RB_BLACK" "col b = RB_BLACK"
  using assms by (cases sib) (auto split: if_splits rtree.splits)

lemma blacken_black [simp]: "col t = RB_BLACK \<Longrightarrow> blacken t = t"
  by (cases t) auto

lemma bh_Suc_nonempty: "bh t = Suc n \<Longrightarrow> t \<noteq> Lf"
  by auto

lemma redden_inv:
  "invh t \<Longrightarrow> invh (redden t)" "col t = RB_BLACK \<Longrightarrow> bh t = Suc n \<Longrightarrow> bh (redden t) = n"
  by (cases t; auto)+

lemma invc_blacken_children: "invc (blacken (Nd l a c r)) \<longleftrightarrow> invc l \<and> invc r"
  by auto

text \<open>What the loop may assume of a hole whose black height is one too small.\<close>

definition short_hole :: "rtree \<Rightarrow> frame list \<Rightarrow> bool" where
  "short_hole t fs \<longleftrightarrow> invh t \<and> invc (blacken t) \<and> ctx_invh (Suc (bh t)) fs \<and> ctx_invc fs
     \<and> (fs \<noteq> [] \<longrightarrow> frame_col (last fs) = RB_BLACK)"

lemma short_hole_up_left:
  assumes "short_hole t (LeftOf p pc (Nd a w RB_BLACK b) # fs)" "col t = RB_BLACK"
    and "sib_left t p pc (Nd a w RB_BLACK b) = None"
  shows "short_hole (Nd t p pc (Nd a w RB_RED b)) fs"
  using assms by (auto simp: short_hole_def split: if_splits rtree.splits)

lemma short_hole_up_right:
  assumes "short_hole t (RightOf (Nd b w RB_BLACK a) p pc # fs)" "col t = RB_BLACK"
    and "sib_right (Nd b w RB_BLACK a) p pc t = None"
  shows "short_hole (Nd (Nd b w RB_RED a) p pc t) fs"
  using assms by (auto simp: short_hole_def split: if_splits rtree.splits)

lemma rb_tree_plug:
  assumes "invh u" "invc u" "ctx_invh (bh u) fs" "ctx_invc fs" "ctx_col fs = RB_RED \<Longrightarrow> col u = RB_BLACK"
  shows "rb_tree (blacken (plug u fs))"
  using assms by (simp add: rb_tree_def invh_plug invc_plug)

lemma inv_del_fix: "short_hole t fs \<Longrightarrow> rb_tree (del_fix t fs)"
proof (induction t fs rule: del_fix.induct)
  case (1 t)
  then show ?case by (auto simp: short_hole_def rb_tree_def)
next
  case (2 t f fs)
  show ?case
  proof (cases "col t = RB_RED")
    case True
    with "2.prems" show ?thesis
      by (cases f) (auto simp: short_hole_def rb_tree_def invh_plug invc_plug col_plug bh_blacken)
  next
    case black: False
    show ?thesis
    proof (cases f)
      case f: (LeftOf p pc sib)
      then obtain a w wc b where sib: "sib = Nd a w wc b"
        using "2.prems" by (cases sib) (auto simp: short_hole_def)
      show ?thesis
      proof (cases "wc = RB_RED")
        case wc: True
        show ?thesis
        proof (cases "sib_left t p RB_RED a")
          case None
          with "2.prems" black f sib wc show ?thesis
            by (cases a)
              (auto simp: short_hole_def rb_tree_def invh_plug invc_plug col_plug split: if_splits rtree.splits)
        next
          case (Some u)
          have "invh u \<and> invc u \<and> col u = RB_RED \<and> bh u = Suc (bh t)"
            using sib_left_inv [OF Some] "2.prems" black f sib wc by (auto simp: short_hole_def)
          then show ?thesis
            using "2.prems" black f sib wc Some
            by (auto simp: short_hole_def intro!: rb_tree_plug)
        qed
      next
        case wc: False
        show ?thesis
        proof (cases "sib_left t p pc sib")
          case None
          have "short_hole (Nd t p pc (redden sib)) fs"
            using short_hole_up_left [of t p pc a w b fs] "2.prems" black f sib wc None by simp
          then show ?thesis using "2.IH"(1) black f sib wc None by simp
        next
          case (Some u)
          have "invh u \<and> invc u \<and> col u = pc \<and> bh u = (if pc = RB_BLACK then Suc (Suc (bh t)) else Suc (bh t))"
            by (rule sib_left_inv [OF Some]) (use "2.prems" black f sib wc in \<open>auto simp: short_hole_def\<close>)
          then have "rb_tree (blacken (plug u fs))"
            by (intro rb_tree_plug)
              (use "2.prems" black f sib wc in \<open>auto simp: short_hole_def split: if_splits\<close>)
          then show ?thesis
            using black f sib wc Some by (simp del: sib_left.simps blacken_black)
        qed
      qed
    next
      case f: (RightOf sib p pc)
      then obtain a w wc b where sib: "sib = Nd b w wc a"
        using "2.prems" by (cases sib) (auto simp: short_hole_def)
      show ?thesis
      proof (cases "wc = RB_RED")
        case wc: True
        show ?thesis
        proof (cases "sib_right a p RB_RED t")
          case None
          with "2.prems" black f sib wc show ?thesis
            by (cases a)
              (auto simp: short_hole_def rb_tree_def invh_plug invc_plug col_plug split: if_splits rtree.splits)
        next
          case (Some u)
          have "invh u \<and> invc u \<and> col u = RB_RED \<and> bh u = Suc (bh t)"
            using sib_right_inv [OF Some] "2.prems" black f sib wc by (auto simp: short_hole_def)
          then show ?thesis
            using "2.prems" black f sib wc Some
            by (auto simp: short_hole_def intro!: rb_tree_plug)
        qed
      next
        case wc: False
        show ?thesis
        proof (cases "sib_right sib p pc t")
          case None
          have "short_hole (Nd (redden sib) p pc t) fs"
            using short_hole_up_right [of t b w a p pc fs] "2.prems" black f sib wc None by simp
          then show ?thesis using "2.IH"(2) black f sib wc None by simp
        next
          case (Some u)
          have "invh u \<and> invc u \<and> col u = pc \<and> bh u = (if pc = RB_BLACK then Suc (Suc (bh t)) else Suc (bh t))"
            by (rule sib_right_inv [OF Some]) (use "2.prems" black f sib wc in \<open>auto simp: short_hole_def\<close>)
          then have "rb_tree (blacken (plug u fs))"
            by (intro rb_tree_plug)
              (use "2.prems" black f sib wc in \<open>auto simp: short_hole_def split: if_splits\<close>)
          then show ?thesis
            using black f sib wc Some by (simp del: sib_right.simps blacken_black)
        qed
      qed
    qed
  qed
qed

section \<open>The pointer loop refines the repair\<close>

definition paint_root :: "rb_state \<Rightarrow> rb_state option" where
  "paint_root s = (if root s \<noteq> None then set_color RB_BLACK (root s) s else Some s)"

definition erase_tail :: "(ptr \<Rightarrow> ptr \<Rightarrow> rb_state \<Rightarrow> rb_state option) \<Rightarrow> ptr \<Rightarrow> ptr \<Rightarrow> rb_state \<Rightarrow> rb_state option" where
  "erase_tail rebalance parent other s = do {
     o_n \<leftarrow> rd s other;
     lblack \<leftarrow> is_black s (rb_left o_n);
     rblack \<leftarrow> is_black s (rb_right o_n);
     if lblack \<and> rblack then do {
       s \<leftarrow> set_color RB_RED other s;
       p \<leftarrow> rd s parent;
       rb_erase_color parent (rb_parent p) s }
     else do { s \<leftarrow> rebalance parent other s; paint_root s } }"

lemma rb_erase_color_unfold:
  "rb_erase_color node parent s = do {
     black \<leftarrow> is_black s node;
     if \<not> (black \<and> node \<noteq> root s)
     then (if node \<noteq> None then set_color RB_BLACK node s else Some s)
     else do {
       p \<leftarrow> rd s parent;
       if rb_left p = node
       then do { (other, s) \<leftarrow> erase_sibling_left parent s; erase_tail erase_rebalance_left parent other s }
       else do { (other, s) \<leftarrow> erase_sibling_right parent s; erase_tail erase_rebalance_right parent other s } } }"
  unfolding rb_erase_color_def erase_tail_def paint_root_def
  by (subst erase_color_loop.simps) (simp only: seq_simps prod.case)

lemma erase_sibling_left_red:
  assumes "rep s (plug (Nd t p pc (Nd a w RB_RED b)) fs)"
    and "\<And>s'. rep s' (plug (Nd (Nd t p RB_RED a) w RB_BLACK b) fs) \<Longrightarrow> becomes s' (k (ptr_of a) s') u"
    and "set (addrs u) = set (addrs (plug (Nd t p pc (Nd a w RB_RED b)) fs))"
  shows "becomes s (do { (other, s) \<leftarrow> erase_sibling_left (Some p) s; k other s }) u"
proof -
  have *: "do { (other, s) \<leftarrow> erase_sibling_left (Some p) s; k other s } =
    do { s \<leftarrow> set_color RB_BLACK (Some w) s; s \<leftarrow> set_color RB_RED (Some p) s;
      s \<leftarrow> rb_rotate_left (Some p) s; p \<leftarrow> rd s (Some p); k (rb_right p) s }"
    using assms(1) by (simp add: rep_plug erase_sibling_left_def Let_def)
  show ?thesis unfolding *
  proof (rule recolour_rotate_left [OF assms(1) _ assms(3)])
    fix s' assume r: "rep s' (plug (Nd (Nd t p RB_RED a) w RB_BLACK b) fs)"
    then show "becomes s' (do { p \<leftarrow> rd s' (Some p); k (rb_right p) s' }) u"
      using assms(2) [OF r] by (simp add: rep_plug)
  qed
qed

lemma erase_sibling_right_red:
  assumes "rep s (plug (Nd (Nd b w RB_RED a) p pc t) fs)"
    and "\<And>s'. rep s' (plug (Nd b w RB_BLACK (Nd a p RB_RED t)) fs) \<Longrightarrow> becomes s' (k (ptr_of a) s') u"
    and "set (addrs u) = set (addrs (plug (Nd (Nd b w RB_RED a) p pc t) fs))"
  shows "becomes s (do { (other, s) \<leftarrow> erase_sibling_right (Some p) s; k other s }) u"
proof -
  have *: "do { (other, s) \<leftarrow> erase_sibling_right (Some p) s; k other s } =
    do { s \<leftarrow> set_color RB_BLACK (Some w) s; s \<leftarrow> set_color RB_RED (Some p) s;
      s \<leftarrow> rb_rotate_right (Some p) s; p \<leftarrow> rd s (Some p); k (rb_left p) s }"
    using assms(1) by (simp add: rep_plug erase_sibling_right_def Let_def)
  show ?thesis unfolding *
  proof (rule recolour_rotate_right [OF assms(1) _ assms(3)])
    fix s' assume r: "rep s' (plug (Nd b w RB_BLACK (Nd a p RB_RED t)) fs)"
    then show "becomes s' (do { p \<leftarrow> rd s' (Some p); k (rb_left p) s' }) u"
      using assms(2) [OF r] by (simp add: rep_plug)
  qed
qed

lemma rebalance_left_final:
  assumes "rep s (plug (Nd t p pc (Nd a w wc b)) fs)" "b \<noteq> Lf"
  shows "becomes s (do { q \<leftarrow> rd s (Some p); s \<leftarrow> set_color (rb_color q) (Some w) s;
      s \<leftarrow> set_color RB_BLACK (Some p) s; o_n \<leftarrow> rd s (Some w);
      s \<leftarrow> (if rb_right o_n \<noteq> None then set_color RB_BLACK (rb_right o_n) s else Some s);
      rb_rotate_left (Some p) s }) (plug (Nd (Nd t p RB_BLACK a) w pc (blacken b)) fs)"
proof -
  obtain b1 z zc b2 where b: "b = Nd b1 z zc b2" using assms(2) by (cases b) auto
  have q: "rd s (Some p) = Some n \<Longrightarrow> rb_color n = pc" for n
    using assms(1) by (auto simp: rep_plug)
  have "becomes s (do { s \<leftarrow> set_color pc (Some w) s;
      s \<leftarrow> set_color RB_BLACK (Some p) s; o_n \<leftarrow> rd s (Some w);
      s \<leftarrow> (if rb_right o_n \<noteq> None then set_color RB_BLACK (rb_right o_n) s else Some s);
      rb_rotate_left (Some p) s }) (plug (Nd (Nd t p RB_BLACK a) w pc (blacken b)) fs)"
  proof (rule becomes_bind)
    show "becomes s (set_color pc (Some w) s) (plug (Nd a w pc b) (RightOf t p pc # fs))"
      by (rule set_color_becomes [where c = wc]) (use assms(1) in simp)
  next
    fix s1 assume 1: "rep s1 (plug (Nd a w pc b) (RightOf t p pc # fs))"
    show "becomes s1 (do { s \<leftarrow> set_color RB_BLACK (Some p) s1; o_n \<leftarrow> rd s (Some w);
        s \<leftarrow> (if rb_right o_n \<noteq> None then set_color RB_BLACK (rb_right o_n) s else Some s);
        rb_rotate_left (Some p) s }) (plug (Nd (Nd t p RB_BLACK a) w pc (blacken b)) fs)"
    proof (rule becomes_bind)
      show "becomes s1 (set_color RB_BLACK (Some p) s1) (plug (Nd t p RB_BLACK (Nd a w pc b)) fs)"
        by (rule set_color_becomes [where c = pc]) (use 1 in simp)
    next
      fix s2 assume 2: "rep s2 (plug (Nd t p RB_BLACK (Nd a w pc b)) fs)"
      have *: "do { o_n \<leftarrow> rd s2 (Some w);
          s \<leftarrow> (if rb_right o_n \<noteq> None then set_color RB_BLACK (rb_right o_n) s2 else Some s2);
          rb_rotate_left (Some p) s } =
        do { s \<leftarrow> set_color RB_BLACK (Some z) s2; rb_rotate_left (Some p) s }"
        using 2 b by (simp add: rep_plug)
      show "becomes s2 (do { o_n \<leftarrow> rd s2 (Some w);
          s \<leftarrow> (if rb_right o_n \<noteq> None then set_color RB_BLACK (rb_right o_n) s2 else Some s2);
          rb_rotate_left (Some p) s }) (plug (Nd (Nd t p RB_BLACK a) w pc (blacken b)) fs)"
        unfolding *
      proof (rule becomes_bind)
        show "becomes s2 (set_color RB_BLACK (Some z) s2) (plug (Nd b1 z RB_BLACK b2) (RightOf a w pc # RightOf t p RB_BLACK # fs))"
          by (rule set_color_becomes [where c = zc]) (use 2 b in simp)
      next
        fix s3 assume "rep s3 (plug (Nd b1 z RB_BLACK b2) (RightOf a w pc # RightOf t p RB_BLACK # fs))"
        then show "becomes s3 (rb_rotate_left (Some p) s3) (plug (Nd (Nd t p RB_BLACK a) w pc (blacken b)) fs)"
          using rotate_left_becomes b by simp
      qed (use b in \<open>auto simp: addrs_plug\<close>)
    qed (auto simp: addrs_plug)
  qed (auto simp: addrs_plug)
  then show ?thesis using assms(1) by (simp add: rep_plug)
qed

lemma rebalance_right_final:
  assumes "rep s (plug (Nd (Nd b w wc a) p pc t) fs)" "b \<noteq> Lf"
  shows "becomes s (do { q \<leftarrow> rd s (Some p); s \<leftarrow> set_color (rb_color q) (Some w) s;
      s \<leftarrow> set_color RB_BLACK (Some p) s; o_n \<leftarrow> rd s (Some w);
      s \<leftarrow> (if rb_left o_n \<noteq> None then set_color RB_BLACK (rb_left o_n) s else Some s);
      rb_rotate_right (Some p) s }) (plug (Nd (blacken b) w pc (Nd a p RB_BLACK t)) fs)"
proof -
  obtain b1 z zc b2 where b: "b = Nd b1 z zc b2" using assms(2) by (cases b) auto
  have q: "rd s (Some p) = Some n \<Longrightarrow> rb_color n = pc" for n
    using assms(1) by (auto simp: rep_plug)
  have "becomes s (do { s \<leftarrow> set_color pc (Some w) s;
      s \<leftarrow> set_color RB_BLACK (Some p) s; o_n \<leftarrow> rd s (Some w);
      s \<leftarrow> (if rb_left o_n \<noteq> None then set_color RB_BLACK (rb_left o_n) s else Some s);
      rb_rotate_right (Some p) s }) (plug (Nd (blacken b) w pc (Nd a p RB_BLACK t)) fs)"
  proof (rule becomes_bind)
    show "becomes s (set_color pc (Some w) s) (plug (Nd b w pc a) (LeftOf p pc t # fs))"
      by (rule set_color_becomes [where c = wc]) (use assms(1) in simp)
  next
    fix s1 assume 1: "rep s1 (plug (Nd b w pc a) (LeftOf p pc t # fs))"
    show "becomes s1 (do { s \<leftarrow> set_color RB_BLACK (Some p) s1; o_n \<leftarrow> rd s (Some w);
        s \<leftarrow> (if rb_left o_n \<noteq> None then set_color RB_BLACK (rb_left o_n) s else Some s);
        rb_rotate_right (Some p) s }) (plug (Nd (blacken b) w pc (Nd a p RB_BLACK t)) fs)"
    proof (rule becomes_bind)
      show "becomes s1 (set_color RB_BLACK (Some p) s1) (plug (Nd (Nd b w pc a) p RB_BLACK t) fs)"
        by (rule set_color_becomes [where c = pc]) (use 1 in simp)
    next
      fix s2 assume 2: "rep s2 (plug (Nd (Nd b w pc a) p RB_BLACK t) fs)"
      have *: "do { o_n \<leftarrow> rd s2 (Some w);
          s \<leftarrow> (if rb_left o_n \<noteq> None then set_color RB_BLACK (rb_left o_n) s2 else Some s2);
          rb_rotate_right (Some p) s } =
        do { s \<leftarrow> set_color RB_BLACK (Some z) s2; rb_rotate_right (Some p) s }"
        using 2 b by (simp add: rep_plug)
      show "becomes s2 (do { o_n \<leftarrow> rd s2 (Some w);
          s \<leftarrow> (if rb_left o_n \<noteq> None then set_color RB_BLACK (rb_left o_n) s2 else Some s2);
          rb_rotate_right (Some p) s }) (plug (Nd (blacken b) w pc (Nd a p RB_BLACK t)) fs)"
        unfolding *
      proof (rule becomes_bind)
        show "becomes s2 (set_color RB_BLACK (Some z) s2) (plug (Nd b1 z RB_BLACK b2) (LeftOf w pc a # LeftOf p RB_BLACK t # fs))"
          by (rule set_color_becomes [where c = zc]) (use 2 b in simp)
      next
        fix s3 assume "rep s3 (plug (Nd b1 z RB_BLACK b2) (LeftOf w pc a # LeftOf p RB_BLACK t # fs))"
        then show "becomes s3 (rb_rotate_right (Some p) s3) (plug (Nd (blacken b) w pc (Nd a p RB_BLACK t)) fs)"
          using rotate_right_becomes b by simp
      qed (use b in \<open>auto simp: addrs_plug\<close>)
    qed (auto simp: addrs_plug)
  qed (auto simp: addrs_plug)
  then show ?thesis using assms(1) by (simp add: rep_plug)
qed

definition rebalance_left_end :: "ptr \<Rightarrow> ptr \<Rightarrow> rb_state \<Rightarrow> rb_state option" where
  "rebalance_left_end parent other s = do {
     q \<leftarrow> rd s parent; s \<leftarrow> set_color (rb_color q) other s;
     s \<leftarrow> set_color RB_BLACK parent s; o_n \<leftarrow> rd s other;
     s \<leftarrow> (if rb_right o_n \<noteq> None then set_color RB_BLACK (rb_right o_n) s else Some s);
     rb_rotate_left parent s }"

lemmas rebalance_left_end_becomes = rebalance_left_final [folded rebalance_left_end_def]

lemma erase_rebalance_left_becomes:
  assumes rep: "rep s (plug (Nd t p pc (Nd a w wc b)) fs)" and sib: "sib_left t p pc (Nd a w wc b) = Some u"
  shows "becomes s (erase_rebalance_left (Some p) (Some w) s) (plug u fs)"
proof (cases "col b = RB_BLACK")
  case False
  have rb: "is_black s (ptr_of b) = Some (col b = RB_BLACK)"
    by (rule is_black_ptr_of [of _ "Some w"]) (use rep in \<open>simp add: rep_plug\<close>)
  have "erase_rebalance_left (Some p) (Some w) s = rebalance_left_end (Some p) (Some w) s"
    using rep rb False by (simp add: rep_plug erase_rebalance_left_def rebalance_left_end_def)
  moreover have "b \<noteq> Lf" using False by auto
  ultimately show ?thesis using rebalance_left_end_becomes [OF rep] sib False by auto
next
  case True
  then obtain a1 y a2 where a: "a = Nd a1 y RB_RED a2"
    using sib by (cases a) (auto split: if_splits)
  have rb: "is_black s (ptr_of b) = Some True"
    using is_black_ptr_of [of s "Some w" b] rep True by (simp add: rep_plug)
  have *: "erase_rebalance_left (Some p) (Some w) s = do {
      s \<leftarrow> set_color RB_BLACK (Some y) s; s \<leftarrow> set_color RB_RED (Some w) s;
      s \<leftarrow> rb_rotate_right (Some w) s;
      q \<leftarrow> rd s (Some p); rebalance_left_end (Some p) (rb_right q) s }"
    using rep rb a by (simp add: rep_plug erase_rebalance_left_def rebalance_left_end_def)
  show ?thesis unfolding *
  proof (rule becomes_bind)
    show "becomes s (set_color RB_BLACK (Some y) s) (plug (Nd a1 y RB_BLACK a2) (LeftOf w wc b # RightOf t p pc # fs))"
      by (rule set_color_becomes [where c = RB_RED]) (use rep a in simp)
  next
    fix s1 assume 1: "rep s1 (plug (Nd a1 y RB_BLACK a2) (LeftOf w wc b # RightOf t p pc # fs))"
    show "becomes s1 (do { s \<leftarrow> set_color RB_RED (Some w) s1; s \<leftarrow> rb_rotate_right (Some w) s;
        q \<leftarrow> rd s (Some p); rebalance_left_end (Some p) (rb_right q) s }) (plug u fs)"
    proof (rule becomes_bind)
      show "becomes s1 (set_color RB_RED (Some w) s1) (plug (Nd (Nd a1 y RB_BLACK a2) w RB_RED b) (RightOf t p pc # fs))"
        by (rule set_color_becomes [where c = wc]) (use 1 in simp)
    next
      fix s2 assume 2: "rep s2 (plug (Nd (Nd a1 y RB_BLACK a2) w RB_RED b) (RightOf t p pc # fs))"
      show "becomes s2 (do { s \<leftarrow> rb_rotate_right (Some w) s2;
          q \<leftarrow> rd s (Some p); rebalance_left_end (Some p) (rb_right q) s }) (plug u fs)"
      proof (rule becomes_bind [OF rotate_right_becomes [OF 2]])
        fix s3 assume 3: "rep s3 (plug (Nd a1 y RB_BLACK (Nd a2 w RB_RED b)) (RightOf t p pc # fs))"
        have "do { q \<leftarrow> rd s3 (Some p); rebalance_left_end (Some p) (rb_right q) s3 }
            = rebalance_left_end (Some p) (Some y) s3"
          using 3 by (simp add: rep_plug)
        then show "becomes s3 (do { q \<leftarrow> rd s3 (Some p); rebalance_left_end (Some p) (rb_right q) s3 }) (plug u fs)"
          using rebalance_left_end_becomes [of _ t p pc a1 y RB_BLACK "Nd a2 w RB_RED b" fs] 3 sib a True by auto
      qed (use sib a True in \<open>auto simp: addrs_plug\<close>)
    qed (use sib a True in \<open>auto simp: addrs_plug\<close>)
  qed (use sib a True in \<open>auto simp: addrs_plug\<close>)
qed

definition rebalance_right_end :: "ptr \<Rightarrow> ptr \<Rightarrow> rb_state \<Rightarrow> rb_state option" where
  "rebalance_right_end parent other s = do {
     q \<leftarrow> rd s parent; s \<leftarrow> set_color (rb_color q) other s;
     s \<leftarrow> set_color RB_BLACK parent s; o_n \<leftarrow> rd s other;
     s \<leftarrow> (if rb_left o_n \<noteq> None then set_color RB_BLACK (rb_left o_n) s else Some s);
     rb_rotate_right parent s }"

lemmas rebalance_right_end_becomes = rebalance_right_final [folded rebalance_right_end_def]

lemma erase_rebalance_right_becomes:
  assumes rep: "rep s (plug (Nd (Nd b w wc a) p pc t) fs)" and sib: "sib_right (Nd b w wc a) p pc t = Some u"
  shows "becomes s (erase_rebalance_right (Some p) (Some w) s) (plug u fs)"
proof (cases "col b = RB_BLACK")
  case False
  have rb: "is_black s (ptr_of b) = Some (col b = RB_BLACK)"
    by (rule is_black_ptr_of [of _ "Some w"]) (use rep in \<open>simp add: rep_plug\<close>)
  have "erase_rebalance_right (Some p) (Some w) s = rebalance_right_end (Some p) (Some w) s"
    using rep rb False by (simp add: rep_plug erase_rebalance_right_def rebalance_right_end_def)
  moreover have "b \<noteq> Lf" using False by auto
  ultimately show ?thesis using rebalance_right_end_becomes [OF rep] sib False by auto
next
  case True
  then obtain a1 y a2 where a: "a = Nd a2 y RB_RED a1"
    using sib by (cases a) (auto split: if_splits)
  have rb: "is_black s (ptr_of b) = Some True"
    using is_black_ptr_of [of s "Some w" b] rep True by (simp add: rep_plug)
  have *: "erase_rebalance_right (Some p) (Some w) s = do {
      s \<leftarrow> set_color RB_BLACK (Some y) s; s \<leftarrow> set_color RB_RED (Some w) s;
      s \<leftarrow> rb_rotate_left (Some w) s;
      q \<leftarrow> rd s (Some p); rebalance_right_end (Some p) (rb_left q) s }"
    using rep rb a by (simp add: rep_plug erase_rebalance_right_def rebalance_right_end_def)
  show ?thesis unfolding *
  proof (rule becomes_bind)
    show "becomes s (set_color RB_BLACK (Some y) s) (plug (Nd a2 y RB_BLACK a1) (RightOf b w wc # LeftOf p pc t # fs))"
      by (rule set_color_becomes [where c = RB_RED]) (use rep a in simp)
  next
    fix s1 assume 1: "rep s1 (plug (Nd a2 y RB_BLACK a1) (RightOf b w wc # LeftOf p pc t # fs))"
    show "becomes s1 (do { s \<leftarrow> set_color RB_RED (Some w) s1; s \<leftarrow> rb_rotate_left (Some w) s;
        q \<leftarrow> rd s (Some p); rebalance_right_end (Some p) (rb_left q) s }) (plug u fs)"
    proof (rule becomes_bind)
      show "becomes s1 (set_color RB_RED (Some w) s1) (plug (Nd b w RB_RED (Nd a2 y RB_BLACK a1)) (LeftOf p pc t # fs))"
        by (rule set_color_becomes [where c = wc]) (use 1 in simp)
    next
      fix s2 assume 2: "rep s2 (plug (Nd b w RB_RED (Nd a2 y RB_BLACK a1)) (LeftOf p pc t # fs))"
      show "becomes s2 (do { s \<leftarrow> rb_rotate_left (Some w) s2;
          q \<leftarrow> rd s (Some p); rebalance_right_end (Some p) (rb_left q) s }) (plug u fs)"
      proof (rule becomes_bind [OF rotate_left_becomes [OF 2]])
        fix s3 assume 3: "rep s3 (plug (Nd (Nd b w RB_RED a2) y RB_BLACK a1) (LeftOf p pc t # fs))"
        have "do { q \<leftarrow> rd s3 (Some p); rebalance_right_end (Some p) (rb_left q) s3 }
            = rebalance_right_end (Some p) (Some y) s3"
          using 3 by (simp add: rep_plug)
        then show "becomes s3 (do { q \<leftarrow> rd s3 (Some p); rebalance_right_end (Some p) (rb_left q) s3 }) (plug u fs)"
          using rebalance_right_end_becomes [of _ "Nd b w RB_RED a2" y RB_BLACK a1 p pc t fs] 3 sib a True by auto
      qed (use sib a True in \<open>auto simp: addrs_plug\<close>)
    qed (use sib a True in \<open>auto simp: addrs_plug\<close>)
  qed (use sib a True in \<open>auto simp: addrs_plug\<close>)
qed

lemma erase_tail_left_final:
  assumes rep: "rep s (plug (Nd t p pc (Nd a w wc b)) fs)" and sib: "sib_left t p pc (Nd a w wc b) = Some u"
  shows "becomes s (erase_tail erase_rebalance_left (Some p) (Some w) s) (blacken (plug u fs))"
proof -
  have red: "is_black s (ptr_of a) = Some (col a = RB_BLACK)" "is_black s (ptr_of b) = Some (col b = RB_BLACK)"
    by (rule is_black_ptr_of [of _ "Some w"]; use rep in \<open>simp add: rep_plug\<close>)+
  have *: "erase_tail erase_rebalance_left (Some p) (Some w) s =
      do { s \<leftarrow> erase_rebalance_left (Some p) (Some w) s; paint_root s }"
    using rep red sib by (auto simp: rep_plug erase_tail_def split: if_splits)
  show ?thesis unfolding *
  proof (rule becomes_bind [OF erase_rebalance_left_becomes [OF rep sib]])
    fix s' assume "rep s' (plug u fs)"
    moreover have "plug u fs \<noteq> Lf"
      using addrs_sib_left [OF sib] addrs_plug [of u fs] by auto
    ultimately show "becomes s' (paint_root s') (blacken (plug u fs))"
      using set_root_black_becomes by (auto simp: paint_root_def rep_def)
  qed auto
qed

lemma erase_tail_left_up:
  assumes rep: "rep s (plug (Nd t p pc (Nd a w wc b)) fs)" and black: "col a = RB_BLACK" "col b = RB_BLACK"
    and k: "\<And>s'. rep s' (plug (Nd t p pc (Nd a w RB_RED b)) fs) \<Longrightarrow> becomes s' (rb_erase_color (Some p) (ctx_par fs) s') v"
    and addrs: "set (addrs v) = set (addrs (plug (Nd t p pc (Nd a w wc b)) fs))"
  shows "becomes s (erase_tail reb (Some p) (Some w) s) v"
proof -
  have "is_black s (ptr_of a) = Some True" "is_black s (ptr_of b) = Some True"
    using is_black_ptr_of [of s "Some w" a] is_black_ptr_of [of s "Some w" b] rep black
    by (simp_all add: rep_plug)
  then have *: "erase_tail reb (Some p) (Some w) s = do { s \<leftarrow> set_color RB_RED (Some w) s;
      q \<leftarrow> rd s (Some p); rb_erase_color (Some p) (rb_parent q) s }"
    using rep by (simp add: rep_plug erase_tail_def)
  show ?thesis unfolding *
  proof (rule becomes_bind)
    show "becomes s (set_color RB_RED (Some w) s) (plug (Nd a w RB_RED b) (RightOf t p pc # fs))"
      by (rule set_color_becomes [where c = wc]) (use rep in simp)
  next
    fix s' assume "rep s' (plug (Nd a w RB_RED b) (RightOf t p pc # fs))"
    then show "becomes s' (do { q \<leftarrow> rd s' (Some p); rb_erase_color (Some p) (rb_parent q) s' }) v"
      using k [of s'] by (simp add: rep_plug)
  qed (use addrs in \<open>auto simp: addrs_plug\<close>)
qed

lemma erase_tail_right_final:
  assumes rep: "rep s (plug (Nd (Nd b w wc a) p pc t) fs)" and sib: "sib_right (Nd b w wc a) p pc t = Some u"
  shows "becomes s (erase_tail erase_rebalance_right (Some p) (Some w) s) (blacken (plug u fs))"
proof -
  have red: "is_black s (ptr_of a) = Some (col a = RB_BLACK)" "is_black s (ptr_of b) = Some (col b = RB_BLACK)"
    by (rule is_black_ptr_of [of _ "Some w"]; use rep in \<open>simp add: rep_plug\<close>)+
  have *: "erase_tail erase_rebalance_right (Some p) (Some w) s =
      do { s \<leftarrow> erase_rebalance_right (Some p) (Some w) s; paint_root s }"
    using rep red sib by (auto simp: rep_plug erase_tail_def split: if_splits)
  show ?thesis unfolding *
  proof (rule becomes_bind [OF erase_rebalance_right_becomes [OF rep sib]])
    fix s' assume "rep s' (plug u fs)"
    moreover have "plug u fs \<noteq> Lf"
      using addrs_sib_right [OF sib] addrs_plug [of u fs] by auto
    ultimately show "becomes s' (paint_root s') (blacken (plug u fs))"
      using set_root_black_becomes by (auto simp: paint_root_def rep_def)
  qed auto
qed

lemma erase_tail_right_up:
  assumes rep: "rep s (plug (Nd (Nd b w wc a) p pc t) fs)" and black: "col a = RB_BLACK" "col b = RB_BLACK"
    and k: "\<And>s'. rep s' (plug (Nd (Nd b w RB_RED a) p pc t) fs) \<Longrightarrow> becomes s' (rb_erase_color (Some p) (ctx_par fs) s') v"
    and addrs: "set (addrs v) = set (addrs (plug (Nd (Nd b w wc a) p pc t) fs))"
  shows "becomes s (erase_tail reb (Some p) (Some w) s) v"
proof -
  have "is_black s (ptr_of a) = Some True" "is_black s (ptr_of b) = Some True"
    using is_black_ptr_of [of s "Some w" a] is_black_ptr_of [of s "Some w" b] rep black
    by (simp_all add: rep_plug)
  then have *: "erase_tail reb (Some p) (Some w) s = do { s \<leftarrow> set_color RB_RED (Some w) s;
      q \<leftarrow> rd s (Some p); rb_erase_color (Some p) (rb_parent q) s }"
    using rep by (simp add: rep_plug erase_tail_def)
  show ?thesis unfolding *
  proof (rule becomes_bind)
    show "becomes s (set_color RB_RED (Some w) s) (plug (Nd b w RB_RED a) (LeftOf p pc t # fs))"
      by (rule set_color_becomes [where c = wc]) (use rep in simp)
  next
    fix s' assume "rep s' (plug (Nd b w RB_RED a) (LeftOf p pc t # fs))"
    then show "becomes s' (do { q \<leftarrow> rd s' (Some p); rb_erase_color (Some p) (rb_parent q) s' }) v"
      using k [of s'] by (simp add: rep_plug)
  qed (use addrs in \<open>auto simp: addrs_plug\<close>)
qed

lemma ctx_root_cases:
  "ctx_root p fs = p \<and> fs = [] \<or> (\<exists>b \<in> set (ctx_l fs) \<union> set (ctx_r fs). ctx_root p fs = Some b)"
proof (induction fs arbitrary: p)
  case (Cons f fs)
  then show ?case by (cases f) fastforce+
qed simp

lemma hole_not_root:
  assumes "rep s (plug t fs)" "fs \<noteq> []"
  shows "ptr_of t \<noteq> root s"
proof -
  obtain b where "b \<in> set (ctx_l fs) \<union> set (ctx_r fs)" "ctx_root (ptr_of t) fs = Some b"
    using ctx_root_cases [of "ptr_of t" fs] assms(2) by auto
  moreover have "root s = ctx_root (ptr_of t) fs" using assms(1) by (simp only: rep_plug)
  moreover have "distinct (ctx_l fs @ addrs t @ ctx_r fs)" using assms(1) by (simp only: rep_plug)
  ultimately show ?thesis by (cases t) auto
qed

lemma rb_erase_color_root:
  assumes "rep s t"
  shows "becomes s (rb_erase_color (ptr_of t) None s) (blacken t)"
proof -
  have root: "root s = ptr_of t" using assms by (simp add: rep_def)
  have "is_black s (ptr_of t) = Some (col t = RB_BLACK)"
    using is_black_ptr_of [of s None t] assms by (simp add: rep_def)
  then have *: "rb_erase_color (ptr_of t) None s =
      (if ptr_of t \<noteq> None then set_color RB_BLACK (ptr_of t) s else Some s)"
    using root by (subst rb_erase_color_unfold) simp
  show ?thesis
  proof (cases "t = Lf")
    case True
    then show ?thesis unfolding * using assms by (simp add: becomes_refl)
  next
    case False
    then show ?thesis unfolding * using set_root_black_becomes [OF assms] root by simp
  qed
qed

lemma rb_erase_color_red:
  assumes "rep s (plug t fs)" "col t = RB_RED"
  shows "becomes s (rb_erase_color (ptr_of t) q s) (plug (blacken t) fs)"
proof (cases t)
  case (Nd l a c r)
  have "is_black s (ptr_of t) = Some False"
    using is_black_ptr_of [of s "ctx_par fs" t] assms by (simp add: rep_plug)
  then have "rb_erase_color (ptr_of t) q s = set_color RB_BLACK (Some a) s"
    using Nd by (subst rb_erase_color_unfold) simp
  then show ?thesis using set_color_becomes [of s l a c r fs RB_BLACK] assms Nd by simp
qed (use assms in simp)

text \<open>One round of the loop below a frame, up to the sibling.\<close>

lemma rb_erase_color_left:
  assumes "rep s (plug t (LeftOf p pc sib # fs))" "col t = RB_BLACK"
  shows "rb_erase_color (ptr_of t) (Some p) s =
    do { (other, s) \<leftarrow> erase_sibling_left (Some p) s; erase_tail erase_rebalance_left (Some p) other s }"
proof -
  have "is_black s (ptr_of t) = Some True"
    using is_black_ptr_of [of s "Some p" t] assms by (simp add: rep_plug)
  moreover have "heap s p = Some \<lparr>rb_parent = ctx_par fs, rb_right = ptr_of sib,
      rb_left = ptr_of t, rb_color = pc\<rparr>"
    using assms(1) by (simp add: rep_plug)
  ultimately show ?thesis
    using hole_not_root [OF assms(1)] by (subst rb_erase_color_unfold) simp
qed

lemma rb_erase_color_right:
  assumes "rep s (plug t (RightOf sib p pc # fs))" "col t = RB_BLACK" "sib \<noteq> Lf"
  shows "rb_erase_color (ptr_of t) (Some p) s =
    do { (other, s) \<leftarrow> erase_sibling_right (Some p) s; erase_tail erase_rebalance_right (Some p) other s }"
proof -
  have "is_black s (ptr_of t) = Some True"
    using is_black_ptr_of [of s "Some p" t] assms by (simp add: rep_plug)
  moreover have "heap s p = Some \<lparr>rb_parent = ctx_par fs, rb_right = ptr_of t,
      rb_left = ptr_of sib, rb_color = pc\<rparr>"
    using assms(1) by (simp add: rep_plug)
  moreover have "ptr_of sib \<noteq> ptr_of t"
    using assms by (cases sib; cases t) (auto simp: rep_plug)
  ultimately show ?thesis
    using hole_not_root [OF assms(1)] by (subst rb_erase_color_unfold) simp
qed

text \<open>One round of the loop on trees, with the sibling made black.\<close>

lemma del_round_left:
  assumes rep: "rep s (plug t (LeftOf p pc sib # fs))" and black: "col t = RB_BLACK"
    and hole: "short_hole t (LeftOf p pc sib # fs)"
    and IH: "\<And>s a w b. sib = Nd a w RB_BLACK b \<Longrightarrow> sib_left t p pc sib = None \<Longrightarrow>
      rep s (plug (Nd t p pc (redden sib)) fs) \<Longrightarrow>
      becomes s (rb_erase_color (Some p) (ctx_par fs) s) (del_fix (Nd t p pc (redden sib)) fs)"
  shows "becomes s (rb_erase_color (ptr_of t) (Some p) s) (del_fix t (LeftOf p pc sib # fs))"
proof -
  obtain a w wc b where sib: "sib = Nd a w wc b"
    using hole by (cases sib) (auto simp: short_hole_def)
  have rep': "rep s (plug (Nd t p pc (Nd a w wc b)) fs)" using rep sib by simp
  note round = rb_erase_color_left [OF rep black]
  show ?thesis
  proof (cases "wc = RB_RED")
    case True
    have red: "rep s (plug (Nd t p pc (Nd a w RB_RED b)) fs)" using rep' True by simp
    obtain a1 y yc a2 where a: "a = Nd a1 y yc a2" "yc = RB_BLACK"
      using hole sib True by (cases a) (auto simp: short_hole_def)
    have tail: "becomes s' (erase_tail erase_rebalance_left (Some p) (ptr_of a) s') (del_fix t (LeftOf p pc sib # fs))"
      if r: "rep s' (plug (Nd (Nd t p RB_RED a) w RB_BLACK b) fs)" for s'
    proof (cases "sib_left t p RB_RED a")
      case (Some u)
      then show ?thesis
        using erase_tail_left_final [of s' t p RB_RED a1 y yc a2 "LeftOf w RB_BLACK b # fs" u] r a sib True black
        by (simp del: sib_left.simps)
    next
      case None
      then have nb: "col a1 = RB_BLACK" "col a2 = RB_BLACK" using a by (auto split: if_splits rtree.splits)
      have "becomes s'' (rb_erase_color (Some p) (Some w) s'')
          (plug (Nd (Nd t p RB_BLACK (redden a)) w RB_BLACK b) fs)"
        if "rep s'' (plug (Nd t p RB_RED (Nd a1 y RB_RED a2)) (LeftOf w RB_BLACK b # fs))" for s''
        using rb_erase_color_red [OF that] a by simp
      then show ?thesis
        using erase_tail_left_up [of s' t p RB_RED a1 y yc a2 "LeftOf w RB_BLACK b # fs"] nb r a sib True None black
        by (simp add: addrs_plug del: sib_left.simps)
    qed
    show ?thesis unfolding round
      by (rule erase_sibling_left_red [OF red], rule tail) (simp_all add: addrs_del_fix addrs_plug sib del: del_fix.simps)
  next
    case False
    then have step: "erase_sibling_left (Some p) s = Some (Some w, s)"
      using rep' by (simp add: rep_plug erase_sibling_left_def)
    show ?thesis
    proof (cases "sib_left t p pc sib")
      case (Some u)
      then show ?thesis unfolding round step
        using erase_tail_left_final [OF rep'] sib False black by (simp del: sib_left.simps)
    next
      case None
      then have nb: "col a = RB_BLACK" "col b = RB_BLACK" using sib by (auto split: if_splits rtree.splits)
      show ?thesis unfolding round step
        using erase_tail_left_up [OF rep' nb] IH None sib False black
        by (simp add: addrs_plug addrs_del_fix del: sib_left.simps)
    qed
  qed
qed

lemma del_round_right:
  assumes rep: "rep s (plug t (RightOf sib p pc # fs))" and black: "col t = RB_BLACK"
    and hole: "short_hole t (RightOf sib p pc # fs)"
    and IH: "\<And>s a w b. sib = Nd b w RB_BLACK a \<Longrightarrow> sib_right sib p pc t = None \<Longrightarrow>
      rep s (plug (Nd (redden sib) p pc t) fs) \<Longrightarrow>
      becomes s (rb_erase_color (Some p) (ctx_par fs) s) (del_fix (Nd (redden sib) p pc t) fs)"
  shows "becomes s (rb_erase_color (ptr_of t) (Some p) s) (del_fix t (RightOf sib p pc # fs))"
proof -
  obtain a w wc b where sib: "sib = Nd b w wc a"
    using hole by (cases sib) (auto simp: short_hole_def)
  have rep': "rep s (plug (Nd (Nd b w wc a) p pc t) fs)" using rep sib by simp
  have ne: "sib \<noteq> Lf" using sib by simp
  note round = rb_erase_color_right [OF rep black ne]
  show ?thesis
  proof (cases "wc = RB_RED")
    case True
    have red: "rep s (plug (Nd (Nd b w RB_RED a) p pc t) fs)" using rep' True by simp
    obtain a2 y yc a1 where a: "a = Nd a2 y yc a1" "yc = RB_BLACK"
      using hole sib True by (cases a) (auto simp: short_hole_def)
    have tail: "becomes s' (erase_tail erase_rebalance_right (Some p) (ptr_of a) s') (del_fix t (RightOf sib p pc # fs))"
      if r: "rep s' (plug (Nd b w RB_BLACK (Nd a p RB_RED t)) fs)" for s'
    proof (cases "sib_right a p RB_RED t")
      case (Some u)
      then show ?thesis
        using erase_tail_right_final [of s' a2 y yc a1 p RB_RED t "RightOf b w RB_BLACK # fs" u] r a sib True black
        by (simp del: sib_right.simps)
    next
      case None
      then have nb: "col a1 = RB_BLACK" "col a2 = RB_BLACK" using a by (auto split: if_splits rtree.splits)
      have "becomes s'' (rb_erase_color (Some p) (Some w) s'')
          (plug (Nd b w RB_BLACK (Nd (redden a) p RB_BLACK t)) fs)"
        if "rep s'' (plug (Nd (Nd a2 y RB_RED a1) p RB_RED t) (RightOf b w RB_BLACK # fs))" for s''
        using rb_erase_color_red [OF that] a by simp
      then show ?thesis
        using erase_tail_right_up [of s' a2 y yc a1 p RB_RED t "RightOf b w RB_BLACK # fs"] nb r a sib True None black
        by (simp add: addrs_plug del: sib_right.simps)
    qed
    show ?thesis unfolding round
      by (rule erase_sibling_right_red [OF red], rule tail) (simp_all add: addrs_del_fix addrs_plug sib del: del_fix.simps)
  next
    case False
    then have step: "erase_sibling_right (Some p) s = Some (Some w, s)"
      using rep' by (simp add: rep_plug erase_sibling_right_def)
    show ?thesis
    proof (cases "sib_right sib p pc t")
      case (Some u)
      then show ?thesis unfolding round step
        using erase_tail_right_final [OF rep'] sib False black by (simp del: sib_right.simps)
    next
      case None
      then have nb: "col a = RB_BLACK" "col b = RB_BLACK" using sib by (auto split: if_splits rtree.splits)
      show ?thesis unfolding round step
        using erase_tail_right_up [OF rep' nb] IH None sib False black
        by (simp add: addrs_plug addrs_del_fix del: sib_right.simps)
    qed
  qed
qed

lemma rb_erase_color_becomes:
  assumes "short_hole t fs" and "rep s (plug t fs)"
  shows "becomes s (rb_erase_color (ptr_of t) (ctx_par fs) s) (del_fix t fs)"
  using assms
proof (induction t fs arbitrary: s rule: del_fix.induct)
  case (1 t)
  then show ?case using rb_erase_color_root by simp
next
  case (2 t f fs)
  show ?case
  proof (cases "col t = RB_RED")
    case True
    then show ?thesis using rb_erase_color_red [OF "2.prems"(2) True] by simp
  next
    case False
    then have black: "col t = RB_BLACK" by simp
    show ?thesis
    proof (cases f)
      case f: (LeftOf p pc sib)
      have IH: "becomes s (rb_erase_color (Some p) (ctx_par fs) s) (del_fix (Nd t p pc (redden sib)) fs)"
        if "sib = Nd a w RB_BLACK b" "sib_left t p pc sib = None" "rep s (plug (Nd t p pc (redden sib)) fs)" for s a w b
      proof -
        have "short_hole (Nd t p pc (redden sib)) fs"
          using short_hole_up_left [of t p pc a w b fs] "2.prems"(1) black f that by simp
        then show ?thesis using "2.IH"(1) [of p pc sib a w RB_BLACK b s] black f that by simp
      qed
      show ?thesis unfolding f
        using del_round_left [of s t p pc sib fs] "2.prems" black f IH by simp
    next
      case f: (RightOf sib p pc)
      have IH: "becomes s (rb_erase_color (Some p) (ctx_par fs) s) (del_fix (Nd (redden sib) p pc t) fs)"
        if "sib = Nd b w RB_BLACK a" "sib_right sib p pc t = None" "rep s (plug (Nd (redden sib) p pc t) fs)" for s a w b
      proof -
        have "short_hole (Nd (redden sib) p pc t) fs"
          using short_hole_up_right [of t b w a p pc fs] "2.prems"(1) black f that by simp
        then show ?thesis using "2.IH"(2) [of sib p pc b w RB_BLACK a s] black f that by simp
      qed
      show ?thesis unfolding f
        using del_round_right [of s t sib p pc fs] "2.prems" black f IH by simp
    qed
  qed
qed

section \<open>Unlinking a node\<close>

text \<open>\<open>erases x s m t\<close>: like \<open>becomes\<close>, where the node \<open>x\<close> taken out may be written as well.\<close>

definition erases :: "addr \<Rightarrow> rb_state \<Rightarrow> rb_state option \<Rightarrow> rtree \<Rightarrow> bool" where
  "erases x s m t \<longleftrightarrow> (\<exists>s'. m = Some s' \<and> rep s' t \<and> same_outside (insert x (set (addrs t))) s s')"

lemma erases_bind:
  assumes "m = Some s'" "same_outside (insert x (set (addrs t))) s s'" "becomes s' (f s') t"
  shows "erases x s (Option.bind m f) t"
  using assms unfolding erases_def becomes_def same_outside_def by fastforce

text \<open>A node with at most one child is replaced by that child.\<close>

lemma erase_one_child_rep:
  assumes "rep s (plug (Nd l x c r) fs)" and "l = Lf \<and> t = r \<or> r = Lf \<and> t = l"
  obtains s' where "erase_one_child (Some x) (ptr_of t) s = Some (ptr_of t, ctx_par fs, c, s')"
    "rep s' (plug t fs)" "same_outside (set (addrs (plug t fs))) s s'"
proof -
  have "\<exists>s'. erase_one_child (Some x) (ptr_of t) s = Some (ptr_of t, ctx_par fs, c, s')
      \<and> rep s' (plug t fs) \<and> same_outside (set (addrs (plug t fs))) s s'"
  proof (cases fs rule: ctx_par.cases)
    case 1
    then show ?thesis using assms
      by (cases t)
        (auto simp: erase_one_child_def replace_child_def rep_def wr_Some same_outside_def Let_def)
  next
    case (2 a ac ar gs)
    then show ?thesis using assms
      by (cases t)
        (auto simp: erase_one_child_def replace_child_def rep_plug wr_Some same_outside_def Let_def addrs_plug)
  next
    case (3 al a ac gs)
    then show ?thesis using assms
      by (cases t)
        (auto simp: erase_one_child_def replace_child_def rep_plug wr_Some same_outside_def Let_def addrs_plug)
  qed
  then show ?thesis using that by blast
qed

text \<open>
  The second half of the case with two children: \<open>y\<close>, no longer in the tree, takes the place of \<open>old\<close>.
\<close>

definition take_place :: "ptr \<Rightarrow> ptr \<Rightarrow> rb_state \<Rightarrow> rb_state option" where
  "take_place old node s = do {
     on \<leftarrow> rd s old;
     s \<leftarrow> set_parent (rb_parent on) node s;
     s \<leftarrow> set_color (rb_color on) node s;
     s \<leftarrow> set_right (rb_right on) node s;
     s \<leftarrow> set_left (rb_left on) node s;
     on \<leftarrow> rd s old;
     s \<leftarrow> replace_child (rb_parent on) old node s;
     on \<leftarrow> rd s old;
     s \<leftarrow> set_parent node (rb_left on) s;
     on \<leftarrow> rd s old;
     if rb_right on \<noteq> None then set_parent node (rb_right on) s else Some s }"

lemma erase_two_children_eq:
  "erase_two_children old s = do {
     on \<leftarrow> rd s old;
     node \<leftarrow> go_left s (rb_right on);
     n \<leftarrow> rd s node;
     (child, parent, color, s) \<leftarrow> erase_one_child node (rb_right n) s;
     n \<leftarrow> rd s node;
     let parent = (if rb_parent n = old then node else parent);
     s \<leftarrow> take_place old node s;
     Some (child, parent, color, s) }"
proof (cases "rd s old")
  case on: (Some on)
  show ?thesis
  proof (cases "go_left s (rb_right on)")
    case node: (Some node)
    show ?thesis
    proof (cases "rd s node")
      case n: (Some n)
      show ?thesis
        unfolding erase_two_children_def erase_one_child_def take_place_def Let_def on node n
          seq_simps prod.case ..
    qed (simp add: erase_two_children_def on node)
  qed (simp add: erase_two_children_def on)
qed (simp add: erase_two_children_def)

lemma take_place_rep:
  assumes "rep s (plug (Nd l x c r) fs)" "l \<noteq> Lf"
    and "y \<notin> set (addrs (plug (Nd l x c r) fs))" "heap s y \<noteq> None"
  obtains s' where "take_place (Some x) (Some y) s = Some s'" "rep s' (plug (Nd l y c r) fs)"
    "same_outside (set (addrs (plug (Nd l y c r) fs))) s s'"
proof -
  obtain l1 z zc l2 where l: "l = Nd l1 z zc l2" using assms(2) by (cases l) auto
  have "\<exists>s'. take_place (Some x) (Some y) s = Some s' \<and> rep s' (plug (Nd l y c r) fs)
      \<and> same_outside (set (addrs (plug (Nd l y c r) fs))) s s'"
  proof (cases fs rule: ctx_par.cases)
    case 1
    then show ?thesis using assms l
      by (cases r)
        (auto simp: take_place_def replace_child_def rep_def wr_Some same_outside_def)
  next
    case (2 a ac ar gs)
    then show ?thesis using assms l
      by (cases r)
        (auto simp: take_place_def replace_child_def rep_plug wr_Some same_outside_def addrs_plug)
  next
    case (3 al a ac gs)
    then show ?thesis using assms l
      by (cases r)
        (auto simp: take_place_def replace_child_def rep_plug wr_Some same_outside_def addrs_plug)
  qed
  then show ?thesis using that by blast
qed

section \<open>Erasing a node\<close>

definition repair :: "rb_colour \<Rightarrow> rtree \<Rightarrow> frame list \<Rightarrow> rtree" where
  "repair c t fs = (if c = RB_BLACK then del_fix t fs else plug t fs)"

text \<open>The tree after erasing the node \<open>x\<close> with subtrees \<open>l\<close> and \<open>r\<close> below \<open>fs\<close>.\<close>

definition erase_at :: "rtree \<Rightarrow> addr \<Rightarrow> rb_colour \<Rightarrow> rtree \<Rightarrow> frame list \<Rightarrow> rtree" where
  "erase_at l x c r fs =
     (if l = Lf then repair c r fs
      else if r = Lf then repair c l fs
      else case split_min r [] of (y, d, yr, gs) \<Rightarrow> repair d yr (gs @ RightOf l y c # fs))"

lemma addrs_repair: "addrs (repair c t fs) = addrs (plug t fs)"
  by (simp add: repair_def addrs_del_fix)

lemma addrs_erase_at: "addrs (erase_at l x c r fs) = ctx_l fs @ addrs l @ addrs r @ ctx_r fs"
proof (cases "l = Lf \<or> r = Lf")
  case False
  obtain y d yr gs where m: "split_min r [] = (y, d, yr, gs)" by (cases "split_min r []")
  have p: "plug (Nd Lf y d yr) gs = r" and g: "ctx_l gs = []"
    using split_min_plug [OF _ m] False by auto
  then have "addrs r = y # addrs yr @ ctx_r gs"
    using addrs_plug [of "Nd Lf y d yr" gs] by simp
  then show ?thesis
    using False m g by (simp add: erase_at_def addrs_repair plug_append addrs_plug)
qed (auto simp: erase_at_def addrs_repair addrs_plug)

lemma ctx_inv_rename:
  "ctx_invh n (gs @ RightOf l x c # fs) = ctx_invh n (gs @ RightOf l y c # fs)"
  "ctx_invc (gs @ RightOf l x c # fs) = ctx_invc (gs @ RightOf l y c # fs)"
  "ctx_col (gs @ RightOf l x c # fs) = ctx_col (gs @ RightOf l y c # fs)"
proof -
  show "ctx_invh n (gs @ RightOf l x c # fs) = ctx_invh n (gs @ RightOf l y c # fs)"
    by (induction n gs rule: ctx_invh.induct) auto
  show col: "ctx_col (gs @ RightOf l x c # fs) = ctx_col (gs @ RightOf l y c # fs)" for gs
    by (cases gs) auto
  show "ctx_invc (gs @ RightOf l x c # fs) = ctx_invc (gs @ RightOf l y c # fs)"
    by (induction gs rule: ctx_invc.induct) (auto simp: col)
qed

lemma last_col_rename:
  "frame_col (last (gs @ RightOf l x c # fs)) = frame_col (last (gs @ RightOf l y c # fs))"
  by (cases fs) auto

lemma short_hole_of_child:
  assumes "rb_tree (plug (Nd l x RB_BLACK r) fs)" and "l = Lf \<and> t = r \<or> r = Lf \<and> t = l"
  shows "short_hole t fs"
  using assms by (auto simp: rb_tree_def short_hole_def invh_plug invc_plug col_plug)

lemma rb_tree_red_child:
  assumes "rb_tree (plug (Nd l x RB_RED r) fs)" and "l = Lf \<and> t = r \<or> r = Lf \<and> t = l"
  shows "rb_tree (plug t fs)"
  using assms by (auto simp: rb_tree_def invh_plug invc_plug col_plug split: if_splits)

lemma rb_tree_repair:
  assumes "rb_tree (plug (Nd l x c r) fs)" and "l = Lf \<and> t = r \<or> r = Lf \<and> t = l"
  shows "rb_tree (repair c t fs)"
  using assms short_hole_of_child inv_del_fix rb_tree_red_child by (cases c) (auto simp: repair_def)

lemma rb_tree_rename:
  "rb_tree (plug t (gs @ RightOf l x c # fs)) \<longleftrightarrow> rb_tree (plug t (gs @ RightOf l y c # fs))"
  using ctx_inv_rename [where gs = gs and l = l and x = x and c = c and fs = fs and y = y]
    last_col_rename [of gs l x c fs y]
  by (simp add: rb_tree_def invh_plug invc_plug col_plug)

lemma rb_tree_erase_at:
  assumes "rb_tree (plug (Nd l x c r) fs)"
  shows "rb_tree (erase_at l x c r fs)"
proof (cases "l = Lf \<or> r = Lf")
  case False
  obtain y d yr gs where m: "split_min r [] = (y, d, yr, gs)" by (cases "split_min r []")
  have p: "plug (Nd Lf y d yr) gs = r" using split_min_plug [OF _ m] False by auto
  have "rb_tree (plug (Nd Lf y d yr) (gs @ RightOf l x c # fs))"
    using assms p by (simp add: plug_append)
  then have "rb_tree (plug (Nd Lf y d yr) (gs @ RightOf l y c # fs))"
    by (simp only: rb_tree_rename [of _ gs l x c fs y])
  then have "rb_tree (repair d yr (gs @ RightOf l y c # fs))" by (rule rb_tree_repair) simp
  then show ?thesis using False m by (simp add: erase_at_def)
qed (use assms rb_tree_repair in \<open>auto simp: erase_at_def\<close>)

text \<open>The label \<open>color:\<close> of \<open>rb_erase\<close>.\<close>

lemma repair_becomes:
  assumes "rep s (plug t fs)" "c = RB_BLACK \<Longrightarrow> short_hole t fs"
  shows "becomes s (if c = RB_BLACK then rb_erase_color (ptr_of t) (ctx_par fs) s else Some s) (repair c t fs)"
  using rb_erase_color_becomes assms becomes_refl by (auto simp: repair_def)

lemma rb_erase_one:
  assumes rep: "rep s (plug (Nd l x c r) fs)" and tree: "rb_tree (plug (Nd l x c r) fs)"
    and t: "l = Lf \<and> t = r \<or> l \<noteq> Lf \<and> r = Lf \<and> t = l"
  shows "erases x s (rb_erase (Some x) s) (repair c t fs)"
proof -
  have t': "l = Lf \<and> t = r \<or> r = Lf \<and> t = l" using t by auto
  obtain s1 where 1: "erase_one_child (Some x) (ptr_of t) s = Some (ptr_of t, ctx_par fs, c, s1)"
    "rep s1 (plug t fs)" "same_outside (set (addrs (plug t fs))) s s1"
    using erase_one_child_rep [OF rep t'] by auto
  have *: "rb_erase (Some x) s =
      do { s \<leftarrow> Some s1; if c = RB_BLACK then rb_erase_color (ptr_of t) (ctx_par fs) s else Some s }"
    using rep t 1(1) by (auto simp: rb_erase_def rep_plug)
  show ?thesis unfolding *
  proof (rule erases_bind [OF refl])
    show "same_outside (insert x (set (addrs (repair c t fs)))) s s1"
      using 1(3) by (rule same_outside_mono) (auto simp: addrs_repair)
    show "becomes s1 (if c = RB_BLACK then rb_erase_color (ptr_of t) (ctx_par fs) s1 else Some s1) (repair c t fs)"
      by (rule repair_becomes [OF 1(2)]) (use short_hole_of_child [OF _ t'] tree in auto)
  qed
qed

lemma rb_erase_two:
  assumes rep: "rep s (plug (Nd l x c r) fs)" and tree: "rb_tree (plug (Nd l x c r) fs)"
    and ne: "l \<noteq> Lf" "r \<noteq> Lf" and m: "split_min r [] = (y, d, yr, gs)"
  shows "erases x s (rb_erase (Some x) s) (repair d yr (gs @ RightOf l y c # fs))"
proof -
  let ?hs = "gs @ RightOf l x c # fs" and ?ks = "gs @ RightOf l y c # fs"
  have p: "plug (Nd Lf y d yr) gs = r" and y: "y = hd (addrs r)" and gl: "ctx_l gs = []"
    using split_min_plug [OF ne(2) m] by auto
  have addr_r: "addrs r = y # addrs yr @ ctx_r gs"
    using addrs_plug [of "Nd Lf y d yr" gs] p gl by simp
  have rep1: "rep s (plug (Nd Lf y d yr) ?hs)" using rep p by (simp add: plug_append)
  have dist: "distinct (ctx_l fs @ addrs (Nd l x c r) @ ctx_r fs)" using rep by (simp only: rep_plug)
  have left: "go_left s (ptr_of r) = Some (Some y)"
    using go_left_hd [of s "Some x" r] rep ne y by (simp add: rep_plug)
  have hy: "heap s y = Some \<lparr>rb_parent = ctx_par ?hs, rb_right = ptr_of yr, rb_left = None, rb_color = d\<rparr>"
    using rep1 by (simp add: rep_plug)
  have hx: "heap s x = Some \<lparr>rb_parent = ctx_par fs, rb_right = ptr_of r, rb_left = ptr_of l, rb_color = c\<rparr>"
    using rep by (simp add: rep_plug)
  obtain s1 where 1: "erase_one_child (Some y) (ptr_of yr) s = Some (ptr_of yr, ctx_par ?hs, d, s1)"
    "rep s1 (plug yr ?hs)" "same_outside (set (addrs (plug yr ?hs))) s s1"
    using erase_one_child_rep [OF rep1] by auto
  have rep2: "rep s1 (plug (Nd l x c (plug yr gs)) fs)" using 1(2) by (simp add: plug_append)
  have y_out: "y \<notin> set (addrs (plug (Nd l x c (plug yr gs)) fs))"
    using dist addr_r gl by (auto simp: addrs_plug)
  have y1: "heap s1 y = heap s y"
    using 1(3) y_out by (simp add: same_outside_def plug_append)
  obtain s2 where 2: "take_place (Some x) (Some y) s1 = Some s2"
    "rep s2 (plug (Nd l y c (plug yr gs)) fs)"
    "same_outside (set (addrs (plug (Nd l y c (plug yr gs)) fs))) s1 s2"
    using take_place_rep [OF rep2 ne(1) y_out] y1 hy by auto
  have rep3: "rep s2 (plug yr ?ks)" using 2(2) by (simp add: plug_append)
  have par: "(if ctx_par ?hs = Some x then Some y else ctx_par ?hs) = ctx_par ?ks"
    using dist addr_r gl by (cases gs rule: ctx_par.cases) auto
  have two: "erase_two_children (Some x) s = Some (ptr_of yr, ctx_par ?ks, d, s2)"
    unfolding erase_two_children_eq using hx left hy 1(1) y1 2(1) par by simp
  have *: "rb_erase (Some x) s =
      do { s \<leftarrow> Some s2; if d = RB_BLACK then rb_erase_color (ptr_of yr) (ctx_par ?ks) s else Some s }"
    using hx ne two by (simp add: rb_erase_def)
  show ?thesis unfolding *
  proof (rule erases_bind [OF refl])
    show "same_outside (insert x (set (addrs (repair d yr ?ks)))) s s2"
    proof (rule same_outside_trans)
      show "same_outside (insert x (set (addrs (repair d yr ?ks)))) s s1"
        using 1(3) by (rule same_outside_mono) (auto simp: addrs_repair addrs_plug plug_append)
      show "same_outside (insert x (set (addrs (repair d yr ?ks)))) s1 s2"
        using 2(3) by (rule same_outside_mono) (auto simp: addrs_repair addrs_plug plug_append)
    qed
    have "rb_tree (plug (Nd Lf y d yr) ?ks)"
      using tree p rb_tree_rename [of "Nd Lf y d yr" gs l x c fs y] by (simp add: plug_append)
    then show "becomes s2 (if d = RB_BLACK then rb_erase_color (ptr_of yr) (ctx_par ?ks) s2 else Some s2)
        (repair d yr ?ks)"
      by (intro repair_becomes [OF rep3]) (use short_hole_of_child in blast)
  qed
qed

lemma rb_erase_erases:
  assumes "rep s (plug (Nd l x c r) fs)" "rb_tree (plug (Nd l x c r) fs)"
  shows "erases x s (rb_erase (Some x) s) (erase_at l x c r fs)"
proof (cases "l = Lf \<or> r = Lf")
  case True
  then show ?thesis
    using rb_erase_one [OF assms, of r] rb_erase_one [OF assms, of l] by (auto simp: erase_at_def)
next
  case False
  obtain y d yr gs where m: "split_min r [] = (y, d, yr, gs)" by (cases "split_min r []")
  then show ?thesis using rb_erase_two [OF assms _ _ m] False by (simp add: erase_at_def)
qed

end
