(* ===== verification/Rb_Walk.thy ===== *)
theory Rb_Walk
  imports Rb_Erase
begin

text \<open>
  The walking functions of utils/src/rbtree_base.cpp read the in-order sequence of the represented
  tree: \<open>rb_first\<close> and \<open>rb_last\<close> its ends, \<open>rb_next\<close> and \<open>rb_prev\<close> the neighbours of a node. The
  descent that insertion and search share is a function \<open>locate\<close> on trees. \<open>rb_replace_node\<close> puts a
  new node in the place of an old one.
\<close>

section \<open>Ends of a sequence as pointers\<close>

definition hd_ptr :: "addr list \<Rightarrow> ptr" where
  "hd_ptr xs = (if xs = [] then None else Some (hd xs))"

definition last_ptr :: "addr list \<Rightarrow> ptr" where
  "last_ptr xs = (if xs = [] then None else Some (last xs))"

lemma hd_ptr_simps [simp]:
  "hd_ptr [] = None" "hd_ptr (x # xs) = Some x"
  "hd_ptr (xs @ ys) = (if xs = [] then hd_ptr ys else hd_ptr xs)"
  by (auto simp: hd_ptr_def)

lemma last_ptr_simps [simp]:
  "last_ptr [] = None" "last_ptr (xs @ [x]) = Some x"
  "last_ptr (xs @ ys) = (if ys = [] then last_ptr xs else last_ptr ys)"
  "last_ptr (x # xs) = (if xs = [] then Some x else last_ptr xs)"
  by (auto simp: last_ptr_def)

lemma addrs_eq_Nil [simp]: "addrs t = [] \<longleftrightarrow> t = Lf"
  by (cases t) auto

section \<open>Focusing on a node\<close>

lemma focus_exists:
  "a \<in> set (addrs t) \<Longrightarrow> \<exists>l c r gs. plug (Nd l a c r) gs = plug t fs"
proof (induction t arbitrary: fs)
  case (Nd l b c r)
  consider "a = b" | "a \<in> set (addrs l)" | "a \<in> set (addrs r)" using Nd.prems by auto
  then show ?case
  proof cases
    case 2
    then show ?thesis using Nd.IH(1) [of "LeftOf b c r # fs"] by simp
  next
    case 3
    then show ?thesis using Nd.IH(2) [of "RightOf l b c # fs"] by simp
  qed blast
qed simp

lemma focusE:
  assumes "addrs t = xs @ a # ys" and "distinct (addrs t)"
  obtains l c r gs where "t = plug (Nd l a c r) gs"
    and "xs = ctx_l gs @ addrs l" and "ys = addrs r @ ctx_r gs"
proof -
  obtain l c r gs where t: "t = plug (Nd l a c r) gs"
    using focus_exists [of a t "[]"] assms by auto
  moreover have "addrs t = (ctx_l gs @ addrs l) @ a # (addrs r @ ctx_r gs)"
    using t by (simp add: addrs_plug)
  moreover have "a \<notin> set xs" "a \<notin> set ys" using assms by auto
  ultimately show thesis
    using that assms by (metis append_Cons_eq_iff)
qed

section \<open>First and last\<close>

lemma rb_first_rep: "rep s t \<Longrightarrow> rb_first s = Some (hd_ptr (addrs t))"
  using go_left_hd [of s None t] by (auto simp: rb_first_def rep_def hd_ptr_def)

lemma rb_last_rep: "rep s t \<Longrightarrow> rb_last s = Some (last_ptr (addrs t))"
  using go_right_last [of s None t] by (auto simp: rb_last_def rep_def last_ptr_def)

section \<open>Neighbours\<close>

lemma climb_right_ctx:
  "reps (heap s) (ctx_par fs) (Nd l a c r) \<Longrightarrow> repc (heap s) (Some a) fs \<Longrightarrow>
    distinct (ctx_l fs @ addrs (Nd l a c r) @ ctx_r fs) \<Longrightarrow>
    climb_right s (Some a) = Some (hd_ptr (ctx_r fs))"
proof (induction fs arbitrary: l a c r)
  case Nil
  then show ?case by (subst climb_right.simps) auto
next
  case (Cons f fs)
  show ?case
  proof (cases f)
    case (LeftOf p pc pr)
    then show ?thesis using Cons.prems by (subst climb_right.simps) auto
  next
    case (RightOf pl p pc)
    have "climb_right s (Some p) = Some (hd_ptr (ctx_r fs))"
      by (rule Cons.IH [of pl p pc "Nd l a c r"]) (use Cons.prems RightOf in auto)
    then show ?thesis using Cons.prems RightOf by (subst climb_right.simps) auto
  qed
qed

lemma climb_left_ctx:
  "reps (heap s) (ctx_par fs) (Nd l a c r) \<Longrightarrow> repc (heap s) (Some a) fs \<Longrightarrow>
    distinct (ctx_l fs @ addrs (Nd l a c r) @ ctx_r fs) \<Longrightarrow>
    climb_left s (Some a) = Some (last_ptr (ctx_l fs))"
proof (induction fs arbitrary: l a c r)
  case Nil
  then show ?case by (subst climb_left.simps) auto
next
  case (Cons f fs)
  show ?case
  proof (cases f)
    case (RightOf pl p pc)
    then show ?thesis using Cons.prems by (subst climb_left.simps) auto
  next
    case (LeftOf p pc pr)
    have "climb_left s (Some p) = Some (last_ptr (ctx_l fs))"
      by (rule Cons.IH [of "Nd l a c r" p pc pr]) (use Cons.prems LeftOf in auto)
    then show ?thesis using Cons.prems LeftOf by (subst climb_left.simps) auto
  qed
qed

lemma rb_next_reps:
  assumes "reps (heap s) None t" and "distinct (addrs t)" and "addrs t = xs @ a # ys"
  shows "rb_next s (Some a) = Some (hd_ptr ys)"
proof -
  obtain l c r gs where t: "t = plug (Nd l a c r) gs" and ys: "ys = addrs r @ ctx_r gs"
    by (rule focusE [OF assms(3,2)])
  have rep: "reps (heap s) (ctx_par gs) (Nd l a c r)" "repc (heap s) (Some a) gs"
    "distinct (ctx_l gs @ addrs (Nd l a c r) @ ctx_r gs)"
    using assms(1,2) t by (auto simp: reps_plug addrs_plug)
  show ?thesis
  proof (cases "r = Lf")
    case True
    have "climb_right s (Some a) = Some (hd_ptr (ctx_r gs))"
      by (rule climb_right_ctx) (use rep in auto)
    then show ?thesis using True rep ys by (simp add: rb_next_def)
  next
    case False
    then show ?thesis
      using rep ys go_left_hd [of s "Some a" r] by (auto simp: rb_next_def hd_ptr_def)
  qed
qed

lemma rb_prev_reps:
  assumes "reps (heap s) None t" and "distinct (addrs t)" and "addrs t = xs @ a # ys"
  shows "rb_prev s (Some a) = Some (last_ptr xs)"
proof -
  obtain l c r gs where t: "t = plug (Nd l a c r) gs" and xs: "xs = ctx_l gs @ addrs l"
    by (rule focusE [OF assms(3,2)])
  have rep: "reps (heap s) (ctx_par gs) (Nd l a c r)" "repc (heap s) (Some a) gs"
    "distinct (ctx_l gs @ addrs (Nd l a c r) @ ctx_r gs)"
    using assms(1,2) t by (auto simp: reps_plug addrs_plug)
  show ?thesis
  proof (cases "l = Lf")
    case True
    have "climb_left s (Some a) = Some (last_ptr (ctx_l gs))"
      by (rule climb_left_ctx) (use rep in auto)
    then show ?thesis using True rep xs by (simp add: rb_prev_def)
  next
    case False
    then show ?thesis
      using rep xs go_right_last [of s "Some a" l] by (auto simp: rb_prev_def last_ptr_def)
  qed
qed

lemma rb_next_rep: "rep s t \<Longrightarrow> addrs t = xs @ a # ys \<Longrightarrow> rb_next s (Some a) = Some (hd_ptr ys)"
  by (rule rb_next_reps) (auto simp: rep_def)

lemma rb_prev_rep: "rep s t \<Longrightarrow> addrs t = xs @ a # ys \<Longrightarrow> rb_prev s (Some a) = Some (last_ptr xs)"
  by (rule rb_prev_reps) (auto simp: rep_def)

section \<open>Replacing a node\<close>

lemma reps_cong: "(\<And>a. a \<in> set (addrs t) \<Longrightarrow> h' a = h a) \<Longrightarrow> reps h' q t = reps h q t"
  by (induction h q t rule: reps.induct) auto

lemma repc_cong:
  "(\<And>a. a \<in> set (ctx_l fs @ ctx_r fs) \<Longrightarrow> h' a = h a) \<Longrightarrow> repc h' p fs = repc h p fs"
proof (induction h p fs rule: repc.induct)
  case (2 h p a c r fs)
  then show ?case using reps_cong [of r h' h] by auto
next
  case (3 h p l a c fs)
  then show ?case using reps_cong [of l h' h] by auto
qed simp

lemma replace_child_ctx:
  assumes "rep s (plug (Nd l a c r) fs)"
  obtains s' where "replace_child (ctx_par fs) (Some a) p s = Some s'"
    and "root s' = ctx_root p fs" and "repc (heap s') p fs"
    and "\<And>b. b \<notin> set (ctx_l fs @ ctx_r fs) \<Longrightarrow> heap s' b = heap s b"
    and "\<And>b. Some b \<noteq> ctx_par fs \<Longrightarrow> heap s' b = heap s b"
proof (cases fs rule: ctx_par.cases)
  case 1
  then show ?thesis using that by (simp add: replace_child_def)
next
  case (2 q qc qr gs)
  show ?thesis
    by (rule that [of "s\<lparr>heap := (heap s)(q \<mapsto> \<lparr>rb_parent = ctx_par gs, rb_right = ptr_of qr,
        rb_left = p, rb_color = qc\<rparr>)\<rparr>"])
      (use assms 2 in \<open>auto simp: replace_child_def rep_plug wr_Some\<close>)
next
  case (3 ql q qc gs)
  show ?thesis
    by (rule that [of "s\<lparr>heap := (heap s)(q \<mapsto> \<lparr>rb_parent = ctx_par gs, rb_right = p,
        rb_left = ptr_of ql, rb_color = qc\<rparr>)\<rparr>"])
      (use assms 3 in \<open>auto simp: replace_child_def rep_plug wr_Some\<close>)
qed

text \<open>The children of \<open>b\<close> are pointed at their new parent.\<close>

lemma set_child_parent:
  assumes "reps (heap s) q t" and "distinct (addrs t)"
  obtains s' where "(if ptr_of t \<noteq> None then set_parent p (ptr_of t) s else Some s) = Some s'"
    and "reps (heap s') p t" and "root s' = root s"
    and "\<And>a. a \<notin> set (addrs t) \<Longrightarrow> heap s' a = heap s a"
proof (cases t)
  case (Nd l a c r)
  then show ?thesis
    using that [of "s\<lparr>heap := (heap s)(a := map_option (\<lambda>n. n\<lparr>rb_parent := p\<rparr>) (heap s a))\<rparr>"]
      assms by (auto simp: wr_Some)
qed (use that in simp)

lemma rb_replace_node_rep:
  assumes "rep s (plug (Nd l a c r) fs)" and "b \<notin> set (addrs (plug (Nd l a c r) fs))"
    and "heap s b \<noteq> None"
  obtains s' where "rb_replace_node (Some a) (Some b) s = Some s'" and "rep s' (plug (Nd l b c r) fs)"
    and "heap s' a = heap s a"
proof -
  let ?v = "\<lparr>rb_parent = ctx_par fs, rb_right = ptr_of r, rb_left = ptr_of l, rb_color = c\<rparr>"
  have rep: "reps (heap s) (Some a) l" "reps (heap s) (Some a) r" "heap s a = Some ?v"
    "distinct (ctx_l fs @ addrs (Nd l a c r) @ ctx_r fs)"
    using assms(1) by (auto simp: rep_plug)
  have b: "b \<notin> set (addrs l)" "b \<notin> set (addrs r)" "b \<noteq> a" "b \<notin> set (ctx_l fs)" "b \<notin> set (ctx_r fs)"
    using assms(2) by (auto simp: addrs_plug)
  have apart:
    "\<And>x. x \<in> set (addrs l) \<Longrightarrow> x \<notin> set (ctx_l fs @ ctx_r fs) \<and> x \<notin> set (addrs r)"
    "\<And>x. x \<in> set (addrs r) \<Longrightarrow> x \<notin> set (ctx_l fs @ ctx_r fs) \<and> x \<notin> set (addrs l)"
    "\<And>x. x \<in> set (ctx_l fs @ ctx_r fs) \<Longrightarrow> x \<notin> set (addrs l) \<and> x \<notin> set (addrs r)"
    using rep(4) by auto
  obtain s1 where s1: "replace_child (ctx_par fs) (Some a) (Some b) s = Some s1"
    and 1: "root s1 = ctx_root (Some b) fs" "repc (heap s1) (Some b) fs"
      "\<And>x. x \<notin> set (ctx_l fs @ ctx_r fs) \<Longrightarrow> heap s1 x = heap s x"
    using replace_child_ctx [OF assms(1)] by metis
  have "reps (heap s1) (Some a) l"
    using rep(1) by (subst reps_cong [of l "heap s1" "heap s"]) (use 1(3) apart(1) in auto)
  then obtain s2 where s2: "(if ptr_of l \<noteq> None then set_parent (Some b) (ptr_of l) s1 else Some s1) = Some s2"
    and 2: "reps (heap s2) (Some b) l" "root s2 = root s1"
      "\<And>x. x \<notin> set (addrs l) \<Longrightarrow> heap s2 x = heap s1 x"
    using set_child_parent [of s1 "Some a" l "Some b"] rep(4) by auto
  have "reps (heap s2) (Some a) r"
    using rep(2) by (subst reps_cong [of r "heap s2" "heap s"]) (use 1(3) 2(3) apart(2) in auto)
  then obtain s3 where s3: "(if ptr_of r \<noteq> None then set_parent (Some b) (ptr_of r) s2 else Some s2) = Some s3"
    and 3: "reps (heap s3) (Some b) r" "root s3 = root s2"
      "\<And>x. x \<notin> set (addrs r) \<Longrightarrow> heap s3 x = heap s2 x"
    using set_child_parent [of s2 "Some a" r "Some b"] rep(4) by auto
  have v: "heap s1 a = Some ?v" "heap s2 a = Some ?v" "heap s3 a = Some ?v"
    using rep 1(3) 2(3) 3(3) by auto
  have hb: "heap s3 b \<noteq> None" using assms(3) 1(3) 2(3) 3(3) b by auto
  have run: "rb_replace_node (Some a) (Some b) s = Some (s3\<lparr>heap := (heap s3)(b \<mapsto> ?v)\<rparr>)"
  proof -
    obtain n where "heap s3 b = Some n" using hb by auto
    then show ?thesis
      by (simp add: rb_replace_node_def rep(3) s1 s2 s3 v wr_SomeI del: not_None_eq ptr_of_eq_None
          cong del: if_weak_cong split del: if_split)
  qed
  have "reps (heap s3) (Some b) l" using 2(1)
    by (subst reps_cong [of l "heap s3" "heap s2"]) (use 3(3) apart(1) in auto)
  moreover have "repc (heap s3) (Some b) fs"
    using 1(2) by (subst repc_cong [of fs "heap s3" "heap s1"]) (use 2(3) 3(3) apart(3) in auto)
  ultimately have "rep (s3\<lparr>heap := (heap s3)(b \<mapsto> ?v)\<rparr>) (plug (Nd l b c r) fs)"
    using 1(1) 2(2) 3(1,2) b rep(4) by (auto simp: rep_plug)
  then show thesis using that run v b by (simp add: rep)
qed

end
