(* ===== verification/Rb_Alloc.thy ===== *)
theory Rb_Alloc
  imports Rb_Walk
begin

text \<open>
  The functions of utils/src/rbtree_base.cpp neither allocate nor free nodes: a small calculus of
  commands over the red-black tree state, with one rule per kind of command.
\<close>

section \<open>Allocation\<close>

text \<open>
  No operation allocates or frees a node: the set of allocated addresses stays. \<open>keeps A f m\<close>: if
  the command \<open>m\<close> returns \<open>r\<close>, the state \<open>f r\<close> has the allocated addresses \<open>A\<close>.
\<close>

definition alloc_is :: "addr set \<Rightarrow> rb_state \<Rightarrow> bool" where
  "alloc_is A s \<longleftrightarrow> dom (heap s) = A"

definition keeps :: "addr set \<Rightarrow> ('r \<Rightarrow> rb_state) \<Rightarrow> 'r option \<Rightarrow> bool" where
  "keeps A f m \<longleftrightarrow> (\<forall>r. m = Some r \<longrightarrow> alloc_is A (f r))"

named_theorems keeps_intros \<open>commands that keep the allocated addresses\<close>

lemma keeps_ret [keeps_intros]: "alloc_is A (f r) \<Longrightarrow> keeps A f (Some r)"
  by (simp add: keeps_def)

lemma keeps_step [keeps_intros]:
  "keeps A (\<lambda>s. s) m \<Longrightarrow> (\<And>s. alloc_is A s \<Longrightarrow> keeps A g (f s)) \<Longrightarrow> keeps A g (Option.bind m f)"
  by (auto simp: keeps_def bind_eq_Some_conv)

lemma keeps_step_snd [keeps_intros]:
  "keeps A snd m \<Longrightarrow> (\<And>p s. alloc_is A s \<Longrightarrow> keeps A g (f (p, s))) \<Longrightarrow> keeps A g (Option.bind m f)"
  by (fastforce simp: keeps_def bind_eq_Some_conv)

lemma keeps_read: "(\<And>n. keeps A g (f n)) \<Longrightarrow> keeps A g (Option.bind m f)"
  by (auto simp: keeps_def bind_eq_Some_conv)

lemma keeps_if [keeps_intros]: "keeps A g m \<Longrightarrow> keeps A g m' \<Longrightarrow> keeps A g (if b then m else m')"
  by simp

lemma keeps_wr [keeps_intros]: "alloc_is A s \<Longrightarrow> keeps A (\<lambda>s. s) (wr f p s)"
  by (cases p) (auto simp: keeps_def wr_Some alloc_is_def dom_def split: option.splits if_splits)

lemma alloc_is_simps [simp]: "alloc_is A (s\<lparr>root := p\<rparr>) = alloc_is A s"
  by (simp add: alloc_is_def)

lemma rb_rotate_keeps [keeps_intros]:
  "alloc_is A s \<Longrightarrow> keeps A (\<lambda>s. s) (rb_rotate_left p s)"
  "alloc_is A s \<Longrightarrow> keeps A (\<lambda>s. s) (rb_rotate_right p s)"
  unfolding rb_rotate_left_def rb_rotate_right_def Let_def
  by (intro keeps_intros keeps_read | simp)+

lemma replace_child_keeps [keeps_intros]: "alloc_is A s \<Longrightarrow> keeps A (\<lambda>s. s) (replace_child p n c s)"
  unfolding replace_child_def by (intro keeps_intros keeps_read | simp)+

lemma erase_sibling_keeps [keeps_intros]:
  "alloc_is A s \<Longrightarrow> keeps A snd (erase_sibling_left p s)"
  "alloc_is A s \<Longrightarrow> keeps A snd (erase_sibling_right p s)"
  unfolding erase_sibling_left_def erase_sibling_right_def Let_def
  by (rule keeps_intros keeps_read | simp split del: if_split)+

lemma erase_rebalance_keeps [keeps_intros]:
  "alloc_is A s \<Longrightarrow> keeps A (\<lambda>s. s) (erase_rebalance_left p q s)"
  "alloc_is A s \<Longrightarrow> keeps A (\<lambda>s. s) (erase_rebalance_right p q s)"
  unfolding erase_rebalance_left_def erase_rebalance_right_def
  by (rule keeps_intros keeps_read | simp split del: if_split)+

lemma erase_color_loop_keeps [keeps_intros]:
  "alloc_is A s \<Longrightarrow> keeps A snd (erase_color_loop n p s)"
proof -
  have "erase_color_loop n p s = Some r \<Longrightarrow> alloc_is A s \<longrightarrow> alloc_is A (snd r)" for r
    apply (erule erase_color_loop.raw_induct [where P = "\<lambda>n p s r. alloc_is A s \<longrightarrow> alloc_is A (snd r)", rotated])
    subgoal premises prems for f n p s r
    proof
      assume s: "alloc_is A s"
      have f [keeps_intros]: "alloc_is A s \<Longrightarrow> keeps A snd (f n p s)" for n p s
        using prems(1) by (auto simp: keeps_def)
      have "keeps A snd (Some r)"
        unfolding prems(2) [symmetric] Let_def using s
        by - (rule keeps_intros keeps_read | simp split del: if_split)+
      then show "alloc_is A (snd r)" by (simp add: keeps_def)
    qed
    done
  then show "alloc_is A s \<Longrightarrow> keeps A snd (erase_color_loop n p s)"
    by (auto simp: keeps_def)
qed

lemma keeps_step_tuple [keeps_intros]:
  "keeps A (\<lambda>(c, p, d, s). s) m \<Longrightarrow> (\<And>c p d s. alloc_is A s \<Longrightarrow> keeps A g (f (c, p, d, s))) \<Longrightarrow>
    keeps A g (Option.bind m f)"
  by (fastforce simp: keeps_def bind_eq_Some_conv)

lemma erase_unlink_keeps [keeps_intros]:
  "alloc_is A s \<Longrightarrow> keeps A (\<lambda>(c, p, d, s). s) (erase_two_children p s)"
  "alloc_is A s \<Longrightarrow> keeps A (\<lambda>(c, p, d, s). s) (erase_one_child p c' s)"
  unfolding erase_two_children_def erase_one_child_def Let_def
  by (rule keeps_intros keeps_read | simp split del: if_split)+

lemma rb_erase_keeps [keeps_intros]: "alloc_is A s \<Longrightarrow> keeps A (\<lambda>s. s) (rb_erase p s)"
  unfolding rb_erase_def rb_erase_color_def
  by (rule keeps_intros keeps_read | simp split del: if_split)+

lemma rb_erase_alloc: "rb_erase p s = Some s' \<Longrightarrow> heap s' a = None \<longleftrightarrow> heap s a = None"
  using rb_erase_keeps [of "dom (heap s)" s p] unfolding keeps_def alloc_is_def
  by (metis domIff)

lemma rb_link_node_keeps [keeps_intros]: "alloc_is A s \<Longrightarrow> keeps A (\<lambda>s. s) (rb_link_node n p lk s)"
  unfolding rb_link_node_def set_link_def
  by (cases lk) (simp, (rule keeps_intros keeps_read | simp split del: if_split)+)+

lemma keeps_step_triple [keeps_intros]:
  "keeps A (\<lambda>(n, p, s). s) m \<Longrightarrow> (\<And>n p s. alloc_is A s \<Longrightarrow> keeps A g (f (n, p, s))) \<Longrightarrow>
    keeps A g (Option.bind m f)"
  by (fastforce simp: keeps_def bind_eq_Some_conv)

lemma insert_color_loop_keeps [keeps_intros]:
  "alloc_is A s \<Longrightarrow> keeps A (\<lambda>s. s) (insert_color_loop n s)"
proof -
  have "insert_color_loop n s = Some s' \<Longrightarrow> alloc_is A s \<longrightarrow> alloc_is A s'" for s'
    apply (erule insert_color_loop.raw_induct [where P = "\<lambda>n s s'. alloc_is A s \<longrightarrow> alloc_is A s'", rotated])
    subgoal premises prems for f n s s'
    proof
      assume s: "alloc_is A s"
      have f [keeps_intros]: "alloc_is A s \<Longrightarrow> keeps A (\<lambda>s. s) (f n s)" for n s
        using prems(1) by (auto simp: keeps_def)
      have "keeps A (\<lambda>s. s) (Some s')"
        unfolding prems(2) [symmetric] Let_def using s
        by - (rule keeps_intros keeps_read | simp split del: if_split)+
      then show "alloc_is A s'" by (simp add: keeps_def)
    qed
    done
  then show "alloc_is A s \<Longrightarrow> keeps A (\<lambda>s. s) (insert_color_loop n s)"
    by (auto simp: keeps_def)
qed

lemma rb_insert_color_keeps [keeps_intros]:
  "alloc_is A s \<Longrightarrow> keeps A (\<lambda>s. s) (rb_insert_color n s)"
  unfolding rb_insert_color_def by (rule keeps_intros keeps_read | simp split del: if_split)+

lemma link_insert_alloc:
  "do { s \<leftarrow> rb_link_node n p lk s; rb_insert_color n s } = Some s' \<Longrightarrow>
    heap s' a = None \<longleftrightarrow> heap s a = None"
proof -
  have "alloc_is A s \<Longrightarrow> keeps A (\<lambda>s. s) (do { s \<leftarrow> rb_link_node n p lk s; rb_insert_color n s })" for A
    by (rule keeps_intros | simp)+
  from this [of "dom (heap s)"] show
    "do { s \<leftarrow> rb_link_node n p lk s; rb_insert_color n s } = Some s' \<Longrightarrow>
      heap s' a = None \<longleftrightarrow> heap s a = None"
    unfolding keeps_def alloc_is_def by (metis domIff)
qed

end
