(* ===== verification/Rb_Api.thy ===== *)
theory Rb_Api
  imports Rb_Alloc
begin

text \<open>
  The public functions of utils/src/rbtree_api.cpp. A callback is a function argument (an optional
  one where the code tests it for the null pointer); \<open>rootp\<close> is the code's test that the root
  argument is not the null pointer. A callback that may change the tree takes and returns the state.
  The section on ordering states what the client promises of its comparison callbacks (locale
  \<open>node_order\<close>) and what the tree functions then promise in return.
\<close>

section \<open>The operations\<close>

definition rbtree_init :: "bool \<Rightarrow> rb_state \<Rightarrow> rb_state" where
  "rbtree_init rootp s = (if rootp then s\<lparr>root := None\<rparr> else s)"

type_synonym free_cb = "ptr \<Rightarrow> rb_state \<Rightarrow> rb_state option"

partial_function (option) clear_loop :: "free_cb option \<Rightarrow> rb_state \<Rightarrow> rb_state option" where
  "clear_loop free_node_cb s = (if root s = None then Some s else do {
     let node = root s;
     s \<leftarrow> rb_erase node s;
     s \<leftarrow> (case free_node_cb of None \<Rightarrow> Some s | Some f \<Rightarrow> f node s);
     clear_loop free_node_cb s })"

definition rbtree_clear :: "bool \<Rightarrow> free_cb option \<Rightarrow> rb_state \<Rightarrow> rb_state option" where
  "rbtree_clear rootp free_node_cb s = (if \<not> rootp then Some s else do {
     s \<leftarrow> clear_loop free_node_cb s;
     Some (s\<lparr>root := None\<rparr>) })"

text \<open>
  The descent of \<open>rbtree_insert\<close>: \<open>lk\<close> is the variable \<open>node\<close>, the place where the next pointer is
  read. The result is \<open>lk\<close>, \<open>parent\<close> and \<open>exists\<close>.
\<close>

partial_function (option) insert_descend ::
    "(ptr \<Rightarrow> ptr \<Rightarrow> int) \<Rightarrow> ptr \<Rightarrow> rb_link \<Rightarrow> ptr \<Rightarrow> rb_state \<Rightarrow> (rb_link \<times> ptr \<times> bool) option" where
  "insert_descend compare_callback newNode lk parent s = do {
     cur \<leftarrow> get_link s lk;
     case cur of None \<Rightarrow> Some (lk, parent, False)
     | Some a \<Rightarrow>
         let compareResult = compare_callback (Some a) newNode in
         if compareResult < 0 then insert_descend compare_callback newNode (Link_Right a) (Some a) s
         else if compareResult > 0 then insert_descend compare_callback newNode (Link_Left a) (Some a) s
         else Some (lk, Some a, True) }"

definition rbtree_insert ::
    "bool \<Rightarrow> ptr \<Rightarrow> (ptr \<Rightarrow> ptr \<Rightarrow> int) option \<Rightarrow> rb_state \<Rightarrow> (ptr \<times> rb_state) option" where
  "rbtree_insert rootp newNode compare_callback s =
     (case compare_callback of None \<Rightarrow> Some (None, s)
      | Some cmp \<Rightarrow> if \<not> rootp then Some (None, s) else do {
          (lk, parent, exists) \<leftarrow> insert_descend cmp newNode Link_Root None s;
          s \<leftarrow> (if \<not> exists then do {
              s \<leftarrow> rb_link_node newNode parent lk s;
              rb_insert_color newNode s }
            else Some s);
          Some (if exists then None else newNode, s) })"

partial_function (option) search_loop ::
    "(ptr \<Rightarrow> 'd option \<Rightarrow> int) \<Rightarrow> 'd option \<Rightarrow> rb_state \<Rightarrow> ptr \<Rightarrow> ptr option" where
  "search_loop equal_callback seed s node = (case node of None \<Rightarrow> Some None
     | Some _ \<Rightarrow>
         let compareResult = equal_callback node seed in
         if compareResult < 0 then do { n \<leftarrow> rd s node; search_loop equal_callback seed s (rb_left n) }
         else if compareResult > 0 then do { n \<leftarrow> rd s node; search_loop equal_callback seed s (rb_right n) }
         else Some node)"

definition rbtree_search ::
    "bool \<Rightarrow> 'd option \<Rightarrow> (ptr \<Rightarrow> 'd option \<Rightarrow> int) option \<Rightarrow> rb_state \<Rightarrow> ptr option" where
  "rbtree_search rootp seed equal_callback s =
     (case equal_callback of None \<Rightarrow> Some None
      | Some eq \<Rightarrow> if \<not> rootp then Some None else search_loop eq seed s (root s))"

definition rbtree_erase ::
    "bool \<Rightarrow> 'd option \<Rightarrow> (ptr \<Rightarrow> 'd option \<Rightarrow> int) option \<Rightarrow> rb_state \<Rightarrow> (ptr \<times> rb_state) option" where
  "rbtree_erase rootp seed equal_callback s =
     (if \<not> rootp \<or> seed = None \<or> equal_callback = None then Some (None, s) else do {
        eraseNode \<leftarrow> rbtree_search rootp seed equal_callback s;
        s \<leftarrow> (if eraseNode \<noteq> None then rb_erase eraseNode s else Some s);
        Some (eraseNode, s) })"

text \<open>A failed \<open>assert\<close> is \<^term>\<open>None\<close>.\<close>

partial_function (option) valid_loop :: "rb_state \<Rightarrow> ptr \<Rightarrow> bool option" where
  "valid_loop s parent = (if parent = None then Some False
     else if parent = root s then Some True
     else do {
       n \<leftarrow> rd s parent;
       if parent = rb_parent n then Some False else valid_loop s (rb_parent n) })"

definition isValidNode :: "bool \<Rightarrow> rb_state \<Rightarrow> ptr \<Rightarrow> bool option" where
  "isValidNode rootp s node = (if rootp \<and> node \<noteq> None then valid_loop s node else None)"

definition rbtree_erase_node :: "bool \<Rightarrow> ptr \<Rightarrow> rb_state \<Rightarrow> (ptr \<times> rb_state) option" where
  "rbtree_erase_node rootp node s = (if \<not> rootp \<or> node = None then Some (None, s) else do {
     valid \<leftarrow> isValidNode rootp s node;
     if \<not> valid then None else do {
       s \<leftarrow> rb_erase node s;
       Some (node, s) } })"

type_synonym 'w data_cb = "ptr \<Rightarrow> 'w \<Rightarrow> rb_state \<Rightarrow> (bool \<times> 'w \<times> rb_state) option"

partial_function (option) foreach_loop ::
    "'w data_cb \<Rightarrow> ptr \<Rightarrow> ptr \<Rightarrow> ptr \<Rightarrow> 'w \<Rightarrow> rb_state \<Rightarrow> (bool \<times> 'w \<times> rb_state) option" where
  "foreach_loop data_callback begin next end w s =
     (if begin \<noteq> end then do {
        next \<leftarrow> rb_next s next;
        (stop, w, s) \<leftarrow> data_callback begin w s;
        if stop then Some (True, w, s)
        else foreach_loop data_callback next next end w s }
      else do {
        (stop, w, s) \<leftarrow> data_callback end w s;
        Some (True, w, s) })"

definition rbtree_foreach ::
    "bool \<Rightarrow> 'w data_cb option \<Rightarrow> 'w \<Rightarrow> rb_state \<Rightarrow> (bool \<times> 'w \<times> rb_state) option" where
  "rbtree_foreach rootp data_callback w s =
     (case data_callback of None \<Rightarrow> Some (False, w, s)
      | Some cb \<Rightarrow> if \<not> rootp then Some (False, w, s) else do {
          begin \<leftarrow> rb_first s;
          end \<leftarrow> rb_last s;
          if begin = None then Some (True, w, s)
          else foreach_loop cb begin begin end w s })"

partial_function (option) size_loop :: "rb_state \<Rightarrow> ptr \<Rightarrow> ptr \<Rightarrow> nat \<Rightarrow> nat option" where
  "size_loop s begin end count =
     (if begin \<noteq> end then do {
        begin \<leftarrow> rb_next s begin;
        size_loop s begin end (count + 1) }
      else Some count)"

definition rbtree_size :: "bool \<Rightarrow> rb_state \<Rightarrow> nat option" where
  "rbtree_size rootp s = (if \<not> rootp then Some 0 else do {
     begin \<leftarrow> rb_first s;
     end \<leftarrow> rb_last s;
     if begin = None then Some 0 else do {
       count \<leftarrow> size_loop s begin end 0;
       Some (count + 1) } })"

section \<open>The descent on trees\<close>

text \<open>
  \<open>g a\<close> says where to go at node \<open>a\<close>: left below 0, right above 0, stop at 0. The in-order
  sequence is ordered for \<open>g\<close> when everything after a node that does not send right sends left.
\<close>

fun locate :: "(addr \<Rightarrow> int) \<Rightarrow> rtree \<Rightarrow> frame list \<Rightarrow> rtree \<times> frame list" where
  "locate g Lf fs = (Lf, fs)"
| "locate g (Nd l a c r) fs =
     (if g a < 0 then locate g l (LeftOf a c r # fs)
      else if g a > 0 then locate g r (RightOf l a c # fs)
      else (Nd l a c r, fs))"

definition ordered_by :: "(addr \<Rightarrow> int) \<Rightarrow> addr list \<Rightarrow> bool" where
  "ordered_by g xs = sorted_wrt (\<lambda>a b. g a \<le> 0 \<longrightarrow> g b < 0) xs"

lemma ordered_by_simps [simp]:
  "ordered_by g []"
  "ordered_by g (xs @ a # ys) \<longleftrightarrow> ordered_by g xs \<and> ordered_by g ys \<and>
     (\<forall>x\<in>set xs. (g x \<le> 0 \<longrightarrow> g a < 0) \<and> (\<forall>y\<in>set ys. g x \<le> 0 \<longrightarrow> g y < 0)) \<and>
     (g a \<le> 0 \<longrightarrow> (\<forall>y\<in>set ys. g y < 0))"
  by (auto simp: ordered_by_def sorted_wrt_append)

lemma locate_plug: "locate g t fs = (u, gs) \<Longrightarrow> plug u gs = plug t fs"
  by (induction g t fs rule: locate.induct) (auto split: if_splits)

lemma locate_stop: "locate g t fs = (u, gs) \<Longrightarrow> u = Lf \<or> (\<exists>l a c r. u = Nd l a c r \<and> g a = 0)"
  by (induction g t fs rule: locate.induct) (auto split: if_splits)

lemma locate_sides:
  "locate g t fs = (u, gs) \<Longrightarrow> ordered_by g (addrs t) \<Longrightarrow>
    \<forall>x\<in>set (ctx_l fs). g x > 0 \<Longrightarrow> \<forall>x\<in>set (ctx_r fs). g x < 0 \<Longrightarrow>
    (\<forall>x\<in>set (ctx_l gs). g x > 0) \<and> (\<forall>x\<in>set (ctx_r gs). g x < 0)"
proof (induction g t fs rule: locate.induct)
  case (2 g l a c r fs)
  consider "g a < 0" | "g a > 0" | "g a = 0" by linarith
  then show ?case
  proof cases
    case g: 1
    show ?thesis
      by (rule "2.IH"(1) [OF g]) (use "2.prems" g in auto)
  next
    case g: 2
    have "\<not> g a < 0" using g by simp
    have "\<forall>x\<in>set (addrs l). \<not> g x \<le> 0" using "2.prems"(2) g by auto
    then have "\<forall>x\<in>set (addrs l). g x > 0" by (simp add: not_le)
    then show ?thesis
      by (intro "2.IH"(2) [OF \<open>\<not> g a < 0\<close> g]) (use "2.prems" g in auto)
  next
    case g: 3
    have "\<forall>x\<in>set (addrs l). \<not> g x \<le> 0" "\<forall>x\<in>set (addrs r). g x < 0"
      using "2.prems"(2) g by auto
    then show ?thesis using "2.prems" g by simp
  qed
qed simp

lemma get_link_of: "rep s (plug t fs) \<Longrightarrow> get_link s (link_of fs) = Some (ptr_of t)"
  by (cases fs rule: ctx_par.cases) (auto simp: get_link_def reps_plug rep_def)

lemma insert_descend_locate:
  "rep s (plug t fs) \<Longrightarrow> locate (\<lambda>a. - cmp (Some a) n) t fs = (u, gs) \<Longrightarrow>
    insert_descend cmp n (link_of fs) (ctx_par fs) s =
      Some (link_of gs, (case u of Lf \<Rightarrow> ctx_par gs | Nd _ a _ _ \<Rightarrow> Some a), u \<noteq> Lf)"
proof (induction "\<lambda>a. - cmp (Some a) n" t fs rule: locate.induct)
  case (1 fs)
  then show ?case by (subst insert_descend.simps) (auto simp: get_link_of)
next
  case (2 l a c r fs)
  then show ?case
    by (subst insert_descend.simps, subst get_link_of [OF "2.prems"(1)]) (auto split: if_splits)
qed

lemma search_loop_locate:
  "rep s (plug t fs) \<Longrightarrow> locate (\<lambda>a. eq (Some a) d) t fs = (u, gs) \<Longrightarrow>
    search_loop eq d s (ptr_of t) = Some (ptr_of u)"
proof (induction "\<lambda>a. eq (Some a) d" t fs rule: locate.induct)
  case (1 fs)
  then show ?case by (subst search_loop.simps) auto
next
  case (2 l a c r fs)
  have "heap s a = Some \<lparr>rb_parent = ctx_par fs, rb_right = ptr_of r, rb_left = ptr_of l, rb_color = c\<rparr>"
    using "2.prems"(1) by (simp add: rep_plug)
  then show ?case
    using 2 by (subst search_loop.simps) (auto split: if_splits)
qed

section \<open>Operations refine functions on trees\<close>

definition tree_insert :: "(addr \<Rightarrow> int) \<Rightarrow> addr \<Rightarrow> rtree \<Rightarrow> rtree" where
  "tree_insert g x t = (case locate g t [] of (Lf, gs) \<Rightarrow> ins_at x gs | _ \<Rightarrow> t)"

text \<open>A new node arrives: the insertion links and repairs, or leaves everything as it is.\<close>

lemma rbtree_insert_refines:
  assumes "rep s t" "rb_tree t" "x \<notin> set (addrs t)" "heap s x \<noteq> None"
    and "locate (\<lambda>a. - cmp (Some a) (Some x)) t [] = (u, gs)"
  obtains s' where "rbtree_insert True (Some x) (Some cmp) s = Some (if u = Lf then Some x else None, s')"
    and "rep s' (tree_insert (\<lambda>a. - cmp (Some a) (Some x)) x t)"
    and "rb_tree (tree_insert (\<lambda>a. - cmp (Some a) (Some x)) x t)"
    and "same_outside (insert x (set (addrs t))) s s'" and "u \<noteq> Lf \<longrightarrow> s' = s"
proof (cases u)
  case Lf
  have t: "plug Lf gs = t" using locate_plug [OF assms(5)] Lf by simp
  have "becomes s (do { s \<leftarrow> rb_link_node (Some x) (ctx_par gs) (link_of gs) s;
      rb_insert_color (Some x) s }) (ins_at x gs)"
    by (rule link_insert_becomes) (use assms t in simp_all)
  then obtain s' where "do { s \<leftarrow> rb_link_node (Some x) (ctx_par gs) (link_of gs) s;
      rb_insert_color (Some x) s } = Some s'" "rep s' (ins_at x gs)"
    "same_outside (set (addrs (ins_at x gs))) s s'"
    by (rule becomesE)
  then show ?thesis
    using that [of s'] insert_descend_locate [of s t "[]" cmp "Some x" u gs] assms Lf t
      rb_tree_ins_at [of gs x]
    by (auto simp: rbtree_insert_def tree_insert_def addrs_ins_at addrs_plug)
next
  case (Nd l a c r)
  then show ?thesis
    using that [of s] insert_descend_locate [of s t "[]" cmp "Some x" u gs] assms
    by (auto simp: rbtree_insert_def tree_insert_def)
qed

lemma rbtree_search_refines:
  assumes "rep s t" and "locate (\<lambda>a. eq (Some a) d) t [] = (u, gs)"
  shows "rbtree_search True d (Some eq) s = Some (ptr_of u)"
  using search_loop_locate [of s t "[]" eq d u gs] assms by (auto simp: rbtree_search_def rep_def)

text \<open>Erasing a node of the tree, by its address.\<close>

lemma rb_erase_removes:
  assumes "rep s t" "rb_tree t" "a \<in> set (addrs t)"
  obtains s' t' where "rb_erase (Some a) s = Some s'" "rep s' t'" "rb_tree t'"
    and "addrs t' = remove1 a (addrs t)" and "same_outside (set (addrs t)) s s'"
    and "\<forall>b. heap s' b = None \<longleftrightarrow> heap s b = None"
proof -
  obtain l c r gs where t: "t = plug (Nd l a c r) gs"
    using focus_exists [OF assms(3), of "[]"] by auto
  have "erases a s (rb_erase (Some a) s) (erase_at l a c r gs)"
    by (rule rb_erase_erases) (use assms t in simp_all)
  then obtain s' where s': "rb_erase (Some a) s = Some s'" "rep s' (erase_at l a c r gs)"
    "same_outside (insert a (set (addrs (erase_at l a c r gs)))) s s'"
    by (auto simp: erases_def)
  have "a \<notin> set (ctx_l gs @ addrs l)" using assms(1) t by (auto simp: rep_plug)
  then have "addrs (erase_at l a c r gs) = remove1 a (addrs t)"
    using remove1_middle [of a "ctx_l gs @ addrs l" "addrs r @ ctx_r gs"]
    by (simp add: t addrs_plug addrs_erase_at)
  moreover have "insert a (set (addrs (erase_at l a c r gs))) = set (addrs t)"
    by (auto simp: t addrs_plug addrs_erase_at)
  moreover have "rb_tree (erase_at l a c r gs)"
    by (rule rb_tree_erase_at) (use assms t in simp)
  ultimately show thesis using that s' rb_erase_alloc [OF s'(1)] by simp
qed

section \<open>Clearing\<close>

text \<open>
  The contract of a release callback: it succeeds on an allocated node and touches nothing else.
\<close>

locale node_release =
  fixes free_node :: free_cb
  assumes release: "heap s a \<noteq> None \<Longrightarrow> \<exists>s'. free_node (Some a) s = Some s' \<and> root s' = root s \<and>
    (\<forall>b. b \<noteq> a \<longrightarrow> heap s' b = heap s b)"
begin

lemma clear_loop_empties:
  "rep s t \<Longrightarrow> rb_tree t \<Longrightarrow> \<exists>s'. clear_loop (Some free_node) s = Some s' \<and> root s' = None \<and>
    same_outside (set (addrs t)) s s'"
proof (induction "length (addrs t)" arbitrary: s t)
  case 0
  then show ?case by (subst clear_loop.simps) (auto simp: rep_def)
next
  case (Suc n)
  then obtain l a c r where t: "t = Nd l a c r" by (cases t) auto
  have a: "a \<in> set (addrs t)" by (simp add: t)
  obtain s1 t1 where 1: "rb_erase (Some a) s = Some s1" "rep s1 t1" "rb_tree t1"
    "addrs t1 = remove1 a (addrs t)" "same_outside (set (addrs t)) s s1"
    and alloc: "\<forall>b. heap s1 b = None \<longleftrightarrow> heap s b = None"
    by (rule rb_erase_removes [OF Suc.prems a])
  have live: "heap s1 a \<noteq> None" using alloc Suc.prems(1) t by (simp add: rep_def)
  obtain s2 where 2: "free_node (Some a) s1 = Some s2" "root s2 = root s1"
    "\<And>b. b \<noteq> a \<Longrightarrow> heap s2 b = heap s1 b"
    using release [OF live] by auto
  have "a \<notin> set (addrs t1)" using 1(4) Suc.prems(1) by (simp add: rep_def)
  then have rep2: "rep s2 t1"
    using 1(2) 2 reps_cong [of t1 "heap s2" "heap s1"] unfolding rep_def by metis
  have "length (addrs t1) = n" using Suc.hyps(2) 1(4) t by (simp add: length_remove1)
  from Suc.hyps(1) [OF this [symmetric] rep2 1(3)] obtain s3 where
    3: "clear_loop (Some free_node) s2 = Some s3" "root s3 = None" "same_outside (set (addrs t1)) s2 s3"
    by auto
  have "set (addrs t1) \<subseteq> set (addrs t)" "a \<in> set (addrs t)"
    using 1(4) t by (auto simp: set_remove1_subset)
  then have "same_outside (set (addrs t)) s s3"
    using 1(5) 2(3) 3(3) unfolding same_outside_def by (metis subsetD)
  then show ?case
    using 1(1) 2(1) 3 Suc.prems(1) t by (subst clear_loop.simps) (auto simp: rep_def)
qed

lemma rbtree_clear_empties:
  assumes "rep s t" "rb_tree t"
  obtains s' where "rbtree_clear True (Some free_node) s = Some s'" "root s' = None"
    and "same_outside (set (addrs t)) s s'"
  using clear_loop_empties [OF assms] by (auto simp: rbtree_clear_def same_outside_def)

end
text \<open>Freeing as the C library does it: the block is gone; freeing it again is an error.\<close>

definition free_block :: free_cb where
  "free_block p s = do {
     a \<leftarrow> p;
     n \<leftarrow> heap s a;
     Some (s\<lparr>heap := (heap s)(a := None)\<rparr>) }"

interpretation free_block: node_release free_block
  by unfold_locales (auto simp: free_block_def)

text \<open>With this callback, exactly the nodes of the tree are freed.\<close>

lemma free_block_Some:
  "free_block (Some a) s = (if heap s a = None then None else Some (s\<lparr>heap := (heap s)(a := None)\<rparr>))"
  by (auto simp: free_block_def split: bind_splits)

lemma free_block_clear:
  "rep s t \<Longrightarrow> rb_tree t \<Longrightarrow> \<exists>s'. clear_loop (Some free_block) s = Some s' \<and>
    (\<forall>a. heap s' a = (if a \<in> set (addrs t) then None else heap s a))"
proof (induction "length (addrs t)" arbitrary: s t)
  case 0
  then show ?case by (subst clear_loop.simps) (auto simp: rep_def)
next
  case (Suc n)
  then obtain l a c r where t: "t = Nd l a c r" by (cases t) auto
  have a: "a \<in> set (addrs t)" by (simp add: t)
  obtain s1 t1 where 1: "rb_erase (Some a) s = Some s1" "rep s1 t1" "rb_tree t1"
    "addrs t1 = remove1 a (addrs t)" "same_outside (set (addrs t)) s s1"
    and alloc: "\<forall>b. heap s1 b = None \<longleftrightarrow> heap s b = None"
    by (rule rb_erase_removes [OF Suc.prems a])
  have live: "heap s1 a \<noteq> None" using alloc Suc.prems(1) t by (simp add: rep_def)
  let ?s2 = "s1\<lparr>heap := (heap s1)(a := None)\<rparr>"
  have at1: "set (addrs t1) = set (addrs t) - {a}" "a \<notin> set (addrs t1)"
    using 1(4) Suc.prems(1) by (simp_all add: rep_def)
  have rep2: "rep ?s2 t1" using 1(2) at1(2) by (simp add: rep_def)
  have "length (addrs t1) = n" using Suc.hyps(2) 1(4) a by (simp add: length_remove1)
  from Suc.hyps(1) [OF this [symmetric] rep2 1(3)] obtain s3 where
    3: "clear_loop (Some free_block) ?s2 = Some s3"
      "\<forall>b. heap s3 b = (if b \<in> set (addrs t1) then None else heap ?s2 b)" by auto
  have "root s = Some a" using Suc.prems(1) t by (simp add: rep_def)
  then have "clear_loop (Some free_block) s = Some s3"
    using 1(1) 3(1) live by (subst clear_loop.simps) (simp add: free_block_Some)
  moreover have "heap s3 b = (if b \<in> set (addrs t) then None else heap s b)" for b
    using 3(2) 1(5) at1 a by (auto simp: same_outside_def)
  ultimately show ?case by auto
qed

section \<open>Visiting\<close>

text \<open>
  The contract of a visitor: called at a node of the tree, it records the node (\<open>log\<close>), answers
  whether to stop, and leaves a tree with the same nodes, or with all but the visited one. The
  comment in \<open>rbtree_foreach\<close> claims that the traversal is safe under such erasures.
\<close>

fun visits :: "(addr \<Rightarrow> bool) \<Rightarrow> addr list \<Rightarrow> addr list" where
  "visits stop [] = []"
| "visits stop (a # as) = a # (if stop a then [] else visits stop as)"

locale node_visitor =
  fixes cb :: "'w data_cb" and log :: "'w \<Rightarrow> addr list" and stop :: "addr \<Rightarrow> bool"
    and keep :: "addr \<Rightarrow> bool"
  assumes visit: "rep s t \<Longrightarrow> rb_tree t \<Longrightarrow> a \<in> set (addrs t) \<Longrightarrow>
    \<exists>w' s' t'. cb (Some a) w s = Some (stop a, w', s') \<and> log w' = log w @ [a] \<and>
      rep s' t' \<and> rb_tree t' \<and> addrs t' = (if keep a then addrs t else remove1 a (addrs t))"
begin

lemma visit_middle:
  assumes "rep s t" "rb_tree t" "addrs t = xs @ a # ys"
  obtains w' s' t' where "cb (Some a) w s = Some (stop a, w', s')" "log w' = log w @ [a]"
    and "rep s' t'" "rb_tree t'" and "addrs t' = (xs @ filter keep [a]) @ ys"
proof -
  have "a \<notin> set xs" using assms(1,3) by (auto simp: rep_def)
  then show thesis
    using visit [OF assms(1,2), of a w] that assms(3) by (auto simp: remove1_middle)
qed

lemma foreach_loop_visits:
  "rep s t \<Longrightarrow> rb_tree t \<Longrightarrow> addrs t = xs @ a # ys \<Longrightarrow> z = last (a # ys) \<Longrightarrow>
    \<exists>w' s' t'. foreach_loop cb (Some a) (Some a) (Some z) w s = Some (True, w', s') \<and>
      log w' = log w @ visits stop (a # ys) \<and> rep s' t' \<and> rb_tree t' \<and>
      addrs t' = xs @ filter keep (visits stop (a # ys)) @ drop (length (visits stop (a # ys))) (a # ys)"
proof (induction ys arbitrary: s t xs a w)
  case Nil
  obtain w' s' t' where "cb (Some a) w s = Some (stop a, w', s')" "log w' = log w @ [a]"
    "rep s' t'" "rb_tree t'" "addrs t' = (xs @ filter keep [a]) @ []"
    by (rule visit_middle [OF Nil(1-3)])
  then show ?case using Nil(4) by (subst foreach_loop.simps) auto
next
  case (Cons b ys)
  have az: "a \<noteq> z" using Cons.prems by (auto simp: rep_def)
  have nxt: "rb_next s (Some a) = Some (Some b)"
    using rb_next_rep [OF Cons.prems(1,3)] by simp
  obtain w' s' t' where v: "cb (Some a) w s = Some (stop a, w', s')" "log w' = log w @ [a]"
    "rep s' t'" "rb_tree t'" "addrs t' = (xs @ filter keep [a]) @ b # ys"
    by (rule visit_middle [OF Cons.prems(1-3)])
  show ?case
  proof (cases "stop a")
    case True
    then show ?thesis using az nxt v by (subst foreach_loop.simps) auto
  next
    case False
    obtain w2 s2 t2 where "foreach_loop cb (Some b) (Some b) (Some z) w' s' = Some (True, w2, s2)"
      "log w2 = log w' @ visits stop (b # ys)" "rep s2 t2" "rb_tree t2"
      "addrs t2 = (xs @ filter keep [a]) @ filter keep (visits stop (b # ys)) @
         drop (length (visits stop (b # ys))) (b # ys)"
      using Cons.IH [OF v(3-5), of w'] Cons.prems(4) by auto
    then show ?thesis using az nxt v False by (subst foreach_loop.simps) (auto simp del: visits.simps(2)
        simp: visits.simps(2) [of stop a])
  qed
qed

lemma rbtree_foreach_visits:
  assumes "rep s t" "rb_tree t"
  shows "\<exists>w' s' t'. rbtree_foreach True (Some cb) w s = Some (True, w', s') \<and>
      log w' = log w @ visits stop (addrs t) \<and> rep s' t' \<and> rb_tree t' \<and>
      addrs t' = filter keep (visits stop (addrs t)) @ drop (length (visits stop (addrs t))) (addrs t)"
proof (cases "addrs t")
  case Nil
  then show ?thesis using assms rb_first_rep [OF assms(1)] rb_last_rep [OF assms(1)]
    by (auto simp: rbtree_foreach_def)
next
  case (Cons a ys)
  then show ?thesis
    using rb_first_rep [OF assms(1)] rb_last_rep [OF assms(1)]
      foreach_loop_visits [OF assms, of "[]" a ys "last (a # ys)" w]
    by (auto simp: rbtree_foreach_def last_ptr_def simp del: visits.simps)
qed

end

text \<open>Two visitors: one that only looks, and one that erases nodes while the walk goes on.\<close>

definition record_visit :: "(addr \<Rightarrow> bool) \<Rightarrow> addr list data_cb" where
  "record_visit stop p w s = do { a \<leftarrow> p; Some (stop a, w @ [a], s) }"

definition erase_visit :: "(addr \<Rightarrow> bool) \<Rightarrow> addr list data_cb" where
  "erase_visit keep p w s = do {
     a \<leftarrow> p;
     (q, s) \<leftarrow> (if keep a then Some (None, s) else rbtree_erase_node True p s);
     Some (False, w @ [a], s) }"

lemma visits_all [simp]: "visits (\<lambda>a. False) xs = xs"
  by (induction xs) auto

section \<open>Validity of a node\<close>

lemma valid_loop_ctx:
  "reps (heap s) (ctx_par fs) (Nd l a c r) \<Longrightarrow> repc (heap s) (Some a) fs \<Longrightarrow>
    root s = ctx_root (Some a) fs \<Longrightarrow> distinct (ctx_l fs @ addrs (Nd l a c r) @ ctx_r fs) \<Longrightarrow>
    valid_loop s (Some a) = Some True"
proof (induction fs arbitrary: l a c r)
  case Nil
  then show ?case by (subst valid_loop.simps) auto
next
  case (Cons f fs)
  show ?case
  proof (cases f)
    case (LeftOf p pc pr)
    have "valid_loop s (Some p) = Some True"
      by (rule Cons.IH [of "Nd l a c r" p pc pr]) (use Cons.prems LeftOf in auto)
    then show ?thesis using Cons.prems LeftOf by (subst valid_loop.simps) auto
  next
    case (RightOf pl p pc)
    have "valid_loop s (Some p) = Some True"
      by (rule Cons.IH [of pl p pc "Nd l a c r"]) (use Cons.prems RightOf in auto)
    then show ?thesis using Cons.prems RightOf by (subst valid_loop.simps) auto
  qed
qed

lemma isValidNode_rep:
  assumes "rep s t" "a \<in> set (addrs t)"
  shows "isValidNode True s (Some a) = Some True"
proof -
  obtain l c r gs where "t = plug (Nd l a c r) gs" using focus_exists [OF assms(2), of "[]"] by auto
  then have "rep s (plug (Nd l a c r) gs)" using assms by simp
  then show ?thesis
    using valid_loop_ctx [of s gs l a c r] by (simp add: isValidNode_def rep_plug)
qed

lemma rbtree_erase_node_rep:
  assumes "rep s t" "rb_tree t" "a \<in> set (addrs t)"
  obtains s' t' where "rbtree_erase_node True (Some a) s = Some (Some a, s')" "rep s' t'" "rb_tree t'"
    and "addrs t' = remove1 a (addrs t)" and "same_outside (set (addrs t)) s s'"
    and "\<forall>b. heap s' b = None \<longleftrightarrow> heap s b = None"
  by (rule rb_erase_removes [OF assms], rule that)
    (simp_all add: rbtree_erase_node_def isValidNode_rep [OF assms(1,3)])

interpretation record_visit: node_visitor "record_visit stop" "\<lambda>w. w" stop "\<lambda>a. True" for stop
  by unfold_locales (auto simp: record_visit_def)

lemma erase_visit_step:
  assumes "rep s t" "rb_tree t" "a \<in> set (addrs t)"
  shows "\<exists>s' t'. erase_visit keep (Some a) w s = Some (False, w @ [a], s') \<and> rep s' t' \<and> rb_tree t' \<and>
    addrs t' = (if keep a then addrs t else remove1 a (addrs t))"
proof (cases "keep a")
  case False
  obtain s' t' where "rbtree_erase_node True (Some a) s = Some (Some a, s')" "rep s' t'" "rb_tree t'"
    "addrs t' = remove1 a (addrs t)"
    using rbtree_erase_node_rep [OF assms] by metis
  then show ?thesis using False by (auto simp: erase_visit_def)
qed (use assms in \<open>auto simp: erase_visit_def\<close>)

interpretation erase_visit: node_visitor "erase_visit keep" "\<lambda>w. w" "\<lambda>a. False" keep for keep
  using erase_visit_step by unfold_locales auto

section \<open>Size\<close>

lemma size_loop_rep:
  "rep s t \<Longrightarrow> addrs t = xs @ a # ys \<Longrightarrow> z = last (a # ys) \<Longrightarrow>
    size_loop s (Some a) (Some z) n = Some (n + length ys)"
proof (induction ys arbitrary: xs a n)
  case Nil
  then show ?case by (subst size_loop.simps) auto
next
  case (Cons b ys)
  have "a \<noteq> z" using Cons.prems by (auto simp: rep_def)
  moreover have "rb_next s (Some a) = Some (Some b)"
    using rb_next_rep [OF Cons.prems(1,2)] by simp
  moreover have "size_loop s (Some b) (Some z) (n + 1) = Some (n + 1 + length ys)"
    by (rule Cons.IH [of "xs @ [a]"]) (use Cons.prems in auto)
  ultimately show ?case by (subst size_loop.simps) auto
qed

lemma rbtree_size_rep: "rep s t \<Longrightarrow> rbtree_size True s = Some (length (addrs t))"
proof (cases "addrs t")
  case Nil
  assume "rep s t"
  then show ?thesis using Nil rb_first_rep [of s t] rb_last_rep [of s t]
    by (auto simp: rbtree_size_def)
next
  case (Cons a ys)
  assume "rep s t"
  then show ?thesis
    using Cons rb_first_rep [of s t] rb_last_rep [of s t] size_loop_rep [of s t "[]" a ys "last (a # ys)" 0]
    by (auto simp: rbtree_size_def last_ptr_def)
qed

end
