(* ===== verification/Rb_Order.thy ===== *)
theory Rb_Order
  imports Rb_Api
begin

text \<open>
  What the tree functions promise to a client that keeps its nodes ordered by a key. The client's
  side is the contract \<open>node_order\<close> on its two comparison callbacks; the promises are stated over the
  in-order sequence of the nodes: insertion is sorted insertion, search finds exactly the nodes that
  are there, and in every reachable state the tree is ordered, balanced and as deep as its size allows.
\<close>

section \<open>Sorted sequences\<close>

definition key_sorted :: "(addr \<Rightarrow> 'k::linorder) \<Rightarrow> addr list \<Rightarrow> bool" where
  "key_sorted key xs = sorted_wrt (\<lambda>a b. key a < key b) xs"

lemma key_sorted_simps [simp]:
  "key_sorted key []"
  "key_sorted key (a # xs) \<longleftrightarrow> (\<forall>x\<in>set xs. key a < key x) \<and> key_sorted key xs"
  "key_sorted key (xs @ ys) \<longleftrightarrow> key_sorted key xs \<and> key_sorted key ys \<and>
     (\<forall>x\<in>set xs. \<forall>y\<in>set ys. key x < key y)"
  by (auto simp: key_sorted_def sorted_wrt_append)

lemma key_sorted_inj: "key_sorted key xs \<Longrightarrow> inj_on key (set xs)"
proof (induction xs)
  case (Cons a xs)
  then have "key a \<notin> key ` set xs" by force
  then show ?case using Cons by auto
qed simp

lemma key_sorted_remove1: "key_sorted key xs \<Longrightarrow> key_sorted key (remove1 a xs)"
proof (induction xs)
  case (Cons b xs)
  have "set (remove1 a xs) \<subseteq> set xs" by (rule set_remove1_subset)
  then show ?case using Cons by auto
qed simp

lemma insort_key_middle:
  "\<forall>y\<in>set xs. key y < key x \<Longrightarrow> \<forall>y\<in>set ys. key x < key y \<Longrightarrow>
    insort_key key x (xs @ ys) = xs @ x # ys"
proof (induction xs)
  case Nil
  then show ?case by (cases ys) auto
qed auto

lemma key_sorted_insort:
  "key_sorted key xs \<Longrightarrow> key x \<notin> key ` set xs \<Longrightarrow> key_sorted key (insort_key key x xs)"
  by (induction xs) (auto simp: set_insort_key)

section \<open>The contract of the comparison callbacks\<close>

text \<open>
  \<open>compare_callback(parent, node)\<close> of \<open>rbtree_insert\<close> is negative when \<open>parent\<close> comes before \<open>node\<close>;
  \<open>equal_callback(node, seed)\<close> of \<open>rbtree_search\<close> is negative when \<open>seed\<close> comes before \<open>node\<close>.
\<close>

locale node_order =
  fixes key :: "addr \<Rightarrow> 'k::linorder" and cmp :: "ptr \<Rightarrow> ptr \<Rightarrow> int"
    and eq :: "ptr \<Rightarrow> 'd option \<Rightarrow> int" and seed :: "'d \<Rightarrow> 'k"
  assumes cmp_sign: "sgn (cmp (Some a) (Some b)) = (if key a < key b then -1 else if key b < key a then 1 else 0)"
    and eq_sign: "sgn (eq (Some a) (Some d)) = (if seed d < key a then -1 else if key a < seed d then 1 else 0)"
begin

lemma cmp_iff:
  "cmp (Some a) (Some b) < 0 \<longleftrightarrow> key a < key b" "cmp (Some a) (Some b) > 0 \<longleftrightarrow> key b < key a"
  "cmp (Some a) (Some b) = 0 \<longleftrightarrow> key a = key b" "0 \<le> cmp (Some a) (Some b) \<longleftrightarrow> key b \<le> key a"
  using cmp_sign [of a b] by (auto simp: sgn_if split: if_splits)

lemma eq_iff:
  "eq (Some a) (Some d) < 0 \<longleftrightarrow> seed d < key a" "eq (Some a) (Some d) > 0 \<longleftrightarrow> key a < seed d"
  "eq (Some a) (Some d) = 0 \<longleftrightarrow> key a = seed d" "eq (Some a) (Some d) \<le> 0 \<longleftrightarrow> seed d \<le> key a"
  using eq_sign [of a d] by (auto simp: sgn_if split: if_splits)

lemma ordered_by_cmp: "key_sorted key xs \<Longrightarrow> ordered_by (\<lambda>a. - cmp (Some a) (Some x)) xs"
  unfolding key_sorted_def ordered_by_def
  by (rule sorted_wrt_mono_rel [of xs "\<lambda>a b. key a < key b"])
    (auto simp: cmp_iff not_less)

lemma ordered_by_eq: "key_sorted key xs \<Longrightarrow> ordered_by (\<lambda>a. eq (Some a) (Some d)) xs"
  unfolding key_sorted_def ordered_by_def
  by (rule sorted_wrt_mono_rel [of xs "\<lambda>a b. key a < key b"])
    (auto simp: eq_iff not_less)

lemma insert_sorted:
  assumes "rep s t" "rb_tree t" "key_sorted key (addrs t)" "x \<notin> set (addrs t)" "heap s x \<noteq> None"
  shows "\<exists>s' t'. rbtree_insert True (Some x) (Some cmp) s =
      Some (if key x \<in> key ` set (addrs t) then None else Some x, s') \<and> rep s' t' \<and> rb_tree t' \<and>
      addrs t' = (if key x \<in> key ` set (addrs t) then addrs t else insort_key key x (addrs t)) \<and>
      same_outside (insert x (set (addrs t))) s s' \<and> (key x \<in> key ` set (addrs t) \<longrightarrow> s' = s)"
proof -
  let ?g = "\<lambda>a. - cmp (Some a) (Some x)"
  obtain u gs where loc: "locate ?g t [] = (u, gs)" by (cases "locate ?g t []")
  have t: "plug u gs = t" using locate_plug [OF loc] by simp
  have sides: "\<forall>y\<in>set (ctx_l gs). key y < key x" "\<forall>y\<in>set (ctx_r gs). key x < key y"
    using locate_sides [OF loc ordered_by_cmp [OF assms(3)]] by (auto simp: cmp_iff)
  have u: "u = Lf \<longleftrightarrow> key x \<notin> key ` set (addrs t)"
  proof (cases u)
    case Lf
    then show ?thesis using sides t by (force simp: addrs_plug)
  next
    case (Nd l a c r)
    moreover have "key a = key x" using locate_stop [OF loc] Nd by (auto simp: cmp_iff)
    ultimately show ?thesis using t by (auto simp: addrs_plug)
  qed
  have addrs: "addrs (tree_insert ?g x t) = (if u = Lf then insort_key key x (addrs t) else addrs t)"
    using t [symmetric] loc sides insort_key_middle [of "ctx_l gs" key x "ctx_r gs"]
    by (auto simp: tree_insert_def addrs_ins_at addrs_plug split: rtree.splits)
  show ?thesis
    by (rule rbtree_insert_refines [where cmp = cmp and x = x, OF assms(1,2,4,5) loc], rule exI, rule exI)
      (use u addrs in auto)
qed

lemma search_finds:
  assumes "rep s t" "key_sorted key (addrs t)"
  shows "rbtree_search True (Some d) (Some eq) s = Some (find (\<lambda>a. key a = seed d) (addrs t))"
proof -
  let ?g = "\<lambda>a. eq (Some a) (Some d)"
  obtain u gs where loc: "locate ?g t [] = (u, gs)" by (cases "locate ?g t []")
  have t: "plug u gs = t" using locate_plug [OF loc] by simp
  have sides: "\<forall>y\<in>set (ctx_l gs). key y < seed d" "\<forall>y\<in>set (ctx_r gs). seed d < key y"
    using locate_sides [OF loc ordered_by_eq [OF assms(2)]] by (auto simp: eq_iff)
  have "ptr_of u = find (\<lambda>a. key a = seed d) (addrs t)"
  proof (cases u)
    case Lf
    then have "find (\<lambda>a. key a = seed d) (addrs t) = None"
      using sides t Lf by (fastforce simp: addrs_plug find_None_iff)
    then show ?thesis using Lf by simp
  next
    case (Nd l a c r)
    have a: "key a = seed d" using locate_stop [OF loc] Nd by (auto simp: eq_iff)
    have mem: "a \<in> set (addrs t)" using t Nd by (auto simp: addrs_plug)
    then obtain b where b: "find (\<lambda>a. key a = seed d) (addrs t) = Some b"
      using a by (cases "find (\<lambda>a. key a = seed d) (addrs t)") (auto simp: find_None_iff)
    then have "key b = key a" "b \<in> set (addrs t)" using a by (auto simp: find_Some_iff in_set_conv_nth)
    then show ?thesis using b Nd mem key_sorted_inj [OF assms(2)] by (auto dest: inj_onD)
  qed
  then show ?thesis using rbtree_search_refines [where eq = eq and d = "Some d", OF assms(1) loc] by simp
qed

end

section \<open>Reachable trees\<close>

text \<open>
  The states a client can bring a tree into: it starts with \<open>rbtree_init\<close>, inserts nodes it has
  allocated and that are not in the tree, and erases nodes of the tree. \<open>A\<close> is the set of nodes it
  has put in, by the results of its calls.
\<close>

inductive rb_reach :: "(ptr \<Rightarrow> ptr \<Rightarrow> int) \<Rightarrow> rb_state \<Rightarrow> addr set \<Rightarrow> bool" for cmp where
  init: "rb_reach cmp (rbtree_init True s) {}"
| insert: "rb_reach cmp s A \<Longrightarrow> x \<notin> A \<Longrightarrow> heap s x \<noteq> None \<Longrightarrow>
    rbtree_insert True (Some x) (Some cmp) s = Some (r, s') \<Longrightarrow>
    rb_reach cmp s' (if r = None then A else Set.insert x A)"
| erase: "rb_reach cmp s A \<Longrightarrow> a \<in> A \<Longrightarrow> rbtree_erase_node True (Some a) s = Some (r, s') \<Longrightarrow>
    rb_reach cmp s' (A - {a})"

definition tree_ok :: "(addr \<Rightarrow> 'k::linorder) \<Rightarrow> rb_state \<Rightarrow> rtree \<Rightarrow> addr set \<Rightarrow> bool" where
  "tree_ok key s t A \<longleftrightarrow> rep s t \<and> rb_tree t \<and> key_sorted key (addrs t) \<and> set (addrs t) = A"

fun depth :: "rtree \<Rightarrow> nat" where
  "depth Lf = 0"
| "depth (Nd l a c r) = Suc (max (depth l) (depth r))"

lemma depth_bh:
  "invh t \<Longrightarrow> invc t \<Longrightarrow> depth t \<le> 2 * bh t + (if col t = RB_RED then 1 else 0)"
  by (induction t) (auto split: if_splits)

lemma bh_size: "invh t \<Longrightarrow> 2 ^ bh t \<le> length (addrs t) + 1"
proof (induction t)
  case (Nd l a c r)
  then have "2 ^ bh l \<le> length (addrs l) + 1" "2 ^ bh l \<le> length (addrs r) + 1" by simp_all
  then show ?case by auto
qed simp

lemma rb_tree_depth: "rb_tree t \<Longrightarrow> 2 ^ depth t \<le> (length (addrs t) + 1) ^ 2"
proof -
  assume t: "rb_tree t"
  have "2 ^ depth t \<le> (2::nat) ^ (2 * bh t)"
    using depth_bh [of t] t by (intro power_increasing) (auto simp: rb_tree_def)
  also have "\<dots> = (2 ^ bh t) ^ 2" by (simp add: power_mult [symmetric] mult.commute)
  also have "\<dots> \<le> (length (addrs t) + 1) ^ 2"
    using bh_size [of t] t by (intro power_mono) (auto simp: rb_tree_def)
  finally show ?thesis .
qed

context node_order
begin

lemma rb_reach_ok: "rb_reach cmp s A \<Longrightarrow> \<exists>t. tree_ok key s t A"
proof (induction rule: rb_reach.induct)
  case (init s)
  show ?case by (rule exI [of _ Lf]) (simp add: tree_ok_def rep_def rb_tree_def rbtree_init_def)
next
  case (insert s A x r s')
  then obtain t where t: "rep s t" "rb_tree t" "key_sorted key (addrs t)" "set (addrs t) = A"
    by (auto simp: tree_ok_def)
  then obtain t' where t': "rep s' t'" "rb_tree t'" "r = (if key x \<in> key ` set (addrs t) then None else Some x)"
    "addrs t' = (if key x \<in> key ` set (addrs t) then addrs t else insort_key key x (addrs t))"
    using insert_sorted [OF t(1-3), of x] insert by auto
  then have "tree_ok key s' t' (if r = None then A else Set.insert x A)"
    using t key_sorted_insort [OF t(3), of x] by (auto simp: tree_ok_def set_insort_key)
  then show ?case ..
next
  case (erase s A a r s')
  then obtain t where t: "rep s t" "rb_tree t" "key_sorted key (addrs t)" "set (addrs t) = A"
    by (auto simp: tree_ok_def)
  obtain s2 t' where t': "rbtree_erase_node True (Some a) s = Some (Some a, s2)" "rep s2 t'" "rb_tree t'"
    "addrs t' = remove1 a (addrs t)"
    by (rule rbtree_erase_node_rep [OF t(1,2), of a]) (use erase t in auto)
  then have "tree_ok key s' t' (A - {a})"
    using t erase(3) key_sorted_remove1 [OF t(3), of a] by (simp add: tree_ok_def rep_def)
  then show ?case ..
qed

end

end
