(* ===== verification/Rb_Spec.thy ===== *)
theory Rb_Spec
  imports Rb_Order
begin

text \<open>
  The properties of the red-black tree of utils/src/rbtree_base.cpp and rbtree_api.cpp. The
  functions run on the heap; the statements speak of the tree the heap represents.
\<close>

section \<open>A concrete heap\<close>

text \<open>Nodes 1, 2 and 4 linked, node 3 allocated and not linked; the key of a node is its number.\<close>

definition sample_tree :: rtree where
  "sample_tree = Nd (Nd Lf 1 RB_RED Lf) 2 RB_BLACK (Nd Lf 4 RB_RED Lf)"

definition sample_state :: rb_state where
  "sample_state = \<lparr>heap = [
     1 \<mapsto> \<lparr>rb_parent = Some 2, rb_right = None, rb_left = None, rb_color = RB_RED\<rparr>,
     2 \<mapsto> \<lparr>rb_parent = None, rb_right = Some 4, rb_left = Some 1, rb_color = RB_BLACK\<rparr>,
     3 \<mapsto> \<lparr>rb_parent = None, rb_right = None, rb_left = None, rb_color = RB_BLACK\<rparr>,
     4 \<mapsto> \<lparr>rb_parent = Some 2, rb_right = None, rb_left = None, rb_color = RB_RED\<rparr>],
     root = Some 2\<rparr>"

definition three_way :: "ptr \<Rightarrow> ptr \<Rightarrow> int" where
  "three_way p q = (case p of None \<Rightarrow> 0 | Some a \<Rightarrow> (case q of None \<Rightarrow> 0
     | Some b \<Rightarrow> if a < b then -1 else if b < a then 1 else 0))"

lemma sample_rep [simp]: "rep sample_state sample_tree"
  by (simp add: rep_def sample_state_def sample_tree_def)

lemma sample_facts [simp]:
  "rb_tree sample_tree" "addrs sample_tree = [1, 2, 4]" "heap sample_state 3 \<noteq> None"
  by (simp_all add: rb_tree_def sample_tree_def sample_state_def)

section \<open>Ordering\<close>

text \<open>The sign convention of the callback of \<open>rbtree_insert\<close>, and the opposite one of search.\<close>

definition compares :: "(addr \<Rightarrow> 'k::linorder) \<Rightarrow> (ptr \<Rightarrow> ptr \<Rightarrow> int) \<Rightarrow> bool" where
  "compares key cmp \<longleftrightarrow> (\<forall>a b. sgn (cmp (Some a) (Some b)) =
     (if key a < key b then -1 else if key b < key a then 1 else 0))"

lemma compares_three_way [simp]: "compares (\<lambda>a. a) three_way"
  by (simp add: compares_def three_way_def)

lemma node_order_keys:
  assumes "compares key cmp"
  shows "node_order key cmp (\<lambda>p d. case (p, d) of (Some a, Some k) \<Rightarrow>
    if k < key a then -1 else if key a < k then 1 else 0 | _ \<Rightarrow> 0) (\<lambda>k. k)"
  using assms by unfold_locales (auto simp: compares_def)

text \<open>
  C1: \<open>rbtree_insert\<close> of an allocated node that is not in the tree returns, on a red-black tree whose
  nodes are ordered by the keys the callback compares. A node with a new key is inserted: the
  in-order sequence becomes the sorted insertion, the red-black invariant holds again, and the node is
  returned. A key that is there already gives the null pointer and an unchanged state. No address
  outside the tree and the new node is written.
\<close>

theorem rbtree_insert_correct:
  assumes "rep s t" "rb_tree t" "key_sorted key (addrs t)" "x \<notin> set (addrs t)" "heap s x \<noteq> None"
    and "compares key cmp"
  shows "\<exists>s' t'. rbtree_insert True (Some x) (Some cmp) s =
      Some (if key x \<in> key ` set (addrs t) then None else Some x, s') \<and> rep s' t' \<and> rb_tree t' \<and>
      addrs t' = (if key x \<in> key ` set (addrs t) then addrs t else insort_key key x (addrs t)) \<and>
      same_outside (Set.insert x (set (addrs t))) s s' \<and> (key x \<in> key ` set (addrs t) \<longrightarrow> s' = s)"
  by (rule node_order.insert_sorted [OF node_order_keys [OF assms(6)] assms(1-5)])

theorem rbtree_insert_correct_witness:
  "\<exists>s' t'. rbtree_insert True (Some 3) (Some three_way) sample_state = Some (Some 3, s') \<and>
    rep s' t' \<and> rb_tree t' \<and> addrs t' = [1, 2, 3, 4]"
  using rbtree_insert_correct [of sample_state sample_tree "\<lambda>a. a" 3 three_way]
  by auto

text \<open>
  C2: \<open>rb_erase\<close> of a node of a red-black tree returns; the node is gone from the in-order sequence,
  every other node stays in its order, the red-black invariant holds again, only nodes of the tree
  are written and no node is freed.
\<close>

theorem rb_erase_correct:
  assumes "rep s t" "rb_tree t" "a \<in> set (addrs t)"
  shows "\<exists>s' t'. rb_erase (Some a) s = Some s' \<and> rep s' t' \<and> rb_tree t' \<and>
    addrs t' = remove1 a (addrs t) \<and> same_outside (set (addrs t)) s s' \<and>
    (\<forall>b. heap s' b = None \<longleftrightarrow> heap s b = None)"
  by (rule rb_erase_removes [OF assms]) auto

theorem rb_erase_correct_witness:
  "\<exists>s' t'. rb_erase (Some 2) sample_state = Some s' \<and> rep s' t' \<and> rb_tree t' \<and> addrs t' = [1, 4]"
  using rb_erase_correct [of sample_state sample_tree 2] by auto

text \<open>
  \<open>rbtree_search\<close> returns the node with the sought key when the ordered tree has one and the
  null pointer when it has none, provided the callback is negative for a key before the node's.
\<close>

theorem rbtree_search_correct:
  fixes eq :: "ptr \<Rightarrow> 'k::linorder option \<Rightarrow> int"
  assumes "rep s t" "key_sorted key (addrs t)"
    and "\<forall>a k. sgn (eq (Some a) (Some k)) = (if k < key a then -1 else if key a < k then 1 else 0)"
  shows "rbtree_search True (Some k) (Some eq) s = Some (find (\<lambda>a. key a = k) (addrs t))"
proof -
  have "node_order key (\<lambda>p q. case (p, q) of (Some a, Some b) \<Rightarrow>
      if key a < key b then -1 else if key b < key a then 1 else 0 | _ \<Rightarrow> 0) eq (\<lambda>k. k)"
    using assms(3) by unfold_locales auto
  then show ?thesis by (rule node_order.search_finds) (use assms in auto)
qed

theorem rbtree_search_correct_witness:
  "rbtree_search True (Some 4) (Some (\<lambda>p d. - three_way p d)) sample_state = Some (Some 4) \<and>
   rbtree_search True (Some 3) (Some (\<lambda>p d. - three_way p d)) sample_state = Some None"
  using rbtree_search_correct [of sample_state sample_tree "\<lambda>a. a" "\<lambda>p d. - three_way p d" 4]
    rbtree_search_correct [of sample_state sample_tree "\<lambda>a. a" "\<lambda>p d. - three_way p d" 3]
  by (simp add: three_way_def)

text \<open>
  C3: In every state that a client reaches from \<open>rbtree_init\<close> by insertions and erasures with one
  ordering callback, the heap represents a red-black tree of exactly the nodes the client put in,
  ordered by key, whose depth d satisfies 2^d <= (n + 1)^2.
\<close>

theorem rb_reach_invariant:
  assumes "rb_reach cmp s A"
    and "compares key cmp"
  shows "\<exists>t. tree_ok key s t A \<and> 2 ^ depth t \<le> (card A + 1) ^ 2"
proof -
  obtain t where t: "tree_ok key s t A"
    using node_order.rb_reach_ok [OF node_order_keys [OF assms(2)] assms(1)] by auto
  then have "length (addrs t) = card A"
    by (auto simp: tree_ok_def rep_def distinct_card)
  then show ?thesis using t rb_tree_depth [of t] by (auto simp: tree_ok_def)
qed

text \<open>Inserting node 3 into the empty tree leads to such a state.\<close>

lemma sample_reach: "\<exists>s. rb_reach three_way s {3}"
proof -
  let ?s = "rbtree_init True sample_state"
  have "\<exists>s' t'. rbtree_insert True (Some 3) (Some three_way) ?s =
      Some (if 3 \<in> (\<lambda>a. a) ` set (addrs Lf) then None else Some 3, s') \<and> rep s' t' \<and> rb_tree t' \<and>
      addrs t' = (if 3 \<in> (\<lambda>a. a) ` set (addrs Lf) then addrs Lf else insort_key (\<lambda>a. a) 3 (addrs Lf)) \<and>
      same_outside (Set.insert 3 (set (addrs Lf))) ?s s' \<and> (3 \<in> (\<lambda>a. a) ` set (addrs Lf) \<longrightarrow> s' = ?s)"
    by (rule node_order.insert_sorted [OF node_order_keys])
      (simp_all add: rep_def rb_tree_def rbtree_init_def sample_state_def)
  then obtain s' where "rbtree_insert True (Some 3) (Some three_way) ?s = Some (Some 3, s')" by auto
  then show ?thesis
    using rb_reach.insert [OF rb_reach.init [of three_way sample_state], of 3 "Some 3" s']
    by (auto simp: rbtree_init_def)
qed

theorem rb_reach_invariant_witness:
  "\<exists>s t. rb_reach three_way s {3} \<and> tree_ok (\<lambda>a. a) s t {3} \<and> 2 ^ depth t \<le> (2::nat) ^ 2"
proof -
  obtain s where "rb_reach three_way s {3}" using sample_reach by auto
  then show ?thesis
    using rb_reach_invariant [of three_way s "{3}" "\<lambda>a. a"] by (auto simp: numeral_2_eq_2)
qed

section \<open>Walking\<close>

text \<open>
  C4: \<open>rb_first\<close> and \<open>rb_last\<close> return the ends of the in-order sequence, and \<open>rb_next\<close> and
  \<open>rb_prev\<close> of a node its neighbours there (the null pointer at the ends).
\<close>

theorem rb_walk_in_order:
  assumes "rep s t"
  shows "rb_first s = Some (hd_ptr (addrs t)) \<and> rb_last s = Some (last_ptr (addrs t)) \<and>
    (\<forall>xs a ys. addrs t = xs @ a # ys \<longrightarrow>
      rb_next s (Some a) = Some (hd_ptr ys) \<and> rb_prev s (Some a) = Some (last_ptr xs))"
  using rb_first_rep rb_last_rep rb_next_rep rb_prev_rep assms by blast

theorem rb_walk_in_order_witness:
  "rb_next sample_state (Some 1) = Some (Some 2) \<and> rb_prev sample_state (Some 1) = Some None"
  using rb_walk_in_order [of sample_state sample_tree, THEN conjunct2, THEN conjunct2, rule_format,
      of "[]" 1 "[2, 4]"] by simp

text \<open>
  C5: \<open>rbtree_foreach\<close> with a callback that erases any of the nodes it is called with visits every
  node of the tree exactly once and in order, returns true, and leaves the red-black tree of the nodes
  that were kept.
\<close>

theorem rbtree_foreach_erasing:
  assumes "rep s t" "rb_tree t"
  shows "\<exists>s' t'. rbtree_foreach True (Some (erase_visit keep)) [] s = Some (True, addrs t, s') \<and>
    rep s' t' \<and> rb_tree t' \<and> addrs t' = filter keep (addrs t)"
  using erase_visit.rbtree_foreach_visits [OF assms, of keep "[]"] by auto

theorem rbtree_foreach_erasing_witness:
  "\<exists>s' t'. rbtree_foreach True (Some (erase_visit even)) [] sample_state = Some (True, [1, 2, 4], s') \<and>
    rep s' t' \<and> rb_tree t' \<and> addrs t' = [2, 4]"
  using rbtree_foreach_erasing [of sample_state sample_tree even] by simp

text \<open>
  \<open>rbtree_foreach\<close> with a callback that only reads calls it on the nodes in order, up to and
  including the first one where it answers true, returns true and keeps the tree.
\<close>

theorem rbtree_foreach_reading:
  assumes "rep s t" "rb_tree t"
  shows "\<exists>s' t'. rbtree_foreach True (Some (record_visit stop)) [] s = Some (True, visits stop (addrs t), s') \<and>
    rep s' t' \<and> addrs t' = addrs t"
proof -
  have "visits stop xs @ drop (length (visits stop xs)) xs = xs" for xs :: "addr list"
    by (induction xs) auto
  then show ?thesis
    using record_visit.rbtree_foreach_visits [OF assms, of stop "[]"] by auto
qed

theorem rbtree_foreach_reading_witness:
  "\<exists>s' t'. rbtree_foreach True (Some (record_visit even)) [] sample_state = Some (True, [1, 2], s') \<and>
    rep s' t' \<and> addrs t' = [1, 2, 4]"
  using rbtree_foreach_reading [of sample_state sample_tree even] by simp

text \<open>
  C6: \<open>rbtree_clear\<close> with a callback that frees the node returns: it erases and frees every node of
  the tree, none of them twice (a second free of a block has no outcome), leaves the rest of the heap
  alone, and the tree is empty.
\<close>

theorem rbtree_clear_frees_all:
  assumes "rep s t" "rb_tree t"
  shows "\<exists>s'. rbtree_clear True (Some free_block) s = Some s' \<and> root s' = None \<and>
    (\<forall>a. heap s' a = (if a \<in> set (addrs t) then None else heap s a))"
  using free_block_clear [OF assms] by (auto simp: rbtree_clear_def)

theorem rbtree_clear_frees_all_witness:
  "\<exists>s'. rbtree_clear True (Some free_block) sample_state = Some s' \<and> root s' = None \<and>
    heap s' 1 = None \<and> heap s' 2 = None \<and> heap s' 4 = None \<and> heap s' 3 \<noteq> None"
  using rbtree_clear_frees_all [of sample_state sample_tree] sample_facts(3) by force

text \<open>\<open>rbtree_size\<close> counts the nodes of the tree.\<close>

theorem rbtree_size_counts:
  assumes "rep s t"
  shows "rbtree_size True s = Some (length (addrs t))"
  using rbtree_size_rep [OF assms] .

theorem rbtree_size_counts_witness: "rbtree_size True sample_state = Some 3"
  using rbtree_size_counts [of sample_state sample_tree] by simp

text \<open>
  \<open>rb_replace_node\<close> puts an allocated node from outside the tree in the place of a node of the
  tree: same shape, same colours, the old node replaced in the in-order sequence and left unchanged.
\<close>

theorem rb_replace_node_correct:
  assumes "rep s (plug (Nd l a c r) fs)" "b \<notin> set (addrs (plug (Nd l a c r) fs))" "heap s b \<noteq> None"
  shows "\<exists>s'. rb_replace_node (Some a) (Some b) s = Some s' \<and> rep s' (plug (Nd l b c r) fs) \<and>
    heap s' a = heap s a"
  by (rule rb_replace_node_rep [OF assms]) auto

theorem rb_replace_node_correct_witness:
  "\<exists>s'. rb_replace_node (Some 2) (Some 3) sample_state = Some s' \<and>
    rep s' (Nd (Nd Lf 1 RB_RED Lf) 3 RB_BLACK (Nd Lf 4 RB_RED Lf))"
  using rb_replace_node_correct [of sample_state "Nd Lf 1 RB_RED Lf" 2 RB_BLACK "Nd Lf 4 RB_RED Lf" "[]" 3]
    sample_rep sample_facts(3) unfolding sample_tree_def by auto

section \<open>The documented convention of the callbacks\<close>

text \<open>
  The two callbacks do not follow one sign convention, as rbtree_api.h says they do: with the
  comparison that orders the tree for \<open>rbtree_insert\<close>, \<open>rbtree_search\<close> does not find a node that is
  in the tree.
\<close>

theorem search_sign_differs_from_insert:
  "\<exists>s. rbtree_insert True (Some 3) (Some three_way) sample_state = Some (Some 3, s) \<and>
    rbtree_search True (Some 4) (Some three_way) sample_state = Some None"
proof -
  have "rbtree_search True (Some 4) (Some three_way) sample_state = Some None"
    using rbtree_search_refines [of sample_state sample_tree three_way "Some 4" Lf
        "[LeftOf 1 RB_RED Lf, LeftOf 2 RB_BLACK (Nd Lf 4 RB_RED Lf)]"]
      sample_rep by (simp add: sample_tree_def three_way_def)
  moreover have "\<exists>s. rbtree_insert True (Some 3) (Some three_way) sample_state = Some (Some 3, s)"
    using node_order.insert_sorted [OF node_order_keys, of "\<lambda>a. a" three_way sample_state sample_tree 3]
    by auto
  ultimately show ?thesis by auto
qed

end
