(* ===== verification/Map_Data.thy ===== *)
theory Map_Data
  imports Rb_Order
begin

text \<open>
  The shared part of Map: \<open>detail::MapData\<close>, \<open>MapDataBase\<close> and \<open>MapNode\<close> of
  utils/include/utils/map_node.h and utils/src/map_node.cpp. The memory holds the nodes (their tree
  fields, and their key and value) and the data blocks (reference count, root, number of nodes).
  \<open>malloc\<close> is a parameter: it gives a fresh address or the null pointer, and then the code throws.
  An operation is \<^term>\<open>None\<close> where the code dereferences a bad pointer; otherwise its result is an
  exception (\<^term>\<open>Inl\<close>) or a value, with the memory it leaves. Copying keys and values is
  assumed not to throw.
\<close>

section \<open>Memory\<close>

record map_data =
  reference :: "32 word"
  rb_root :: ptr
  nullNode :: ptr
  node_count :: "64 word"

record ('k, 'v) map_mem =
  nodes :: "addr \<Rightarrow> rb_node option"
  pairs :: "addr \<Rightarrow> ('k \<times> 'v) option"
  datas :: "addr \<Rightarrow> map_data option"

datatype map_error = Bad_Alloc | Logic_Error | Insert_Error

type_synonym ('k, 'v) allocator = "('k, 'v) map_mem \<Rightarrow> ptr"

definition tree_of :: "('k, 'v) map_mem \<Rightarrow> map_data \<Rightarrow> rb_state" where
  "tree_of m D = \<lparr>heap = nodes m, root = rb_root D\<rparr>"

text \<open>Store back a tree that the red-black functions changed.\<close>

definition put_tree :: "addr \<Rightarrow> map_data \<Rightarrow> rb_state \<Rightarrow> ('k, 'v) map_mem \<Rightarrow> ('k, 'v) map_mem" where
  "put_tree d D s m = m\<lparr>nodes := heap s, datas := (datas m)(d \<mapsto> D\<lparr>rb_root := root s\<rparr>)\<rparr>"

section \<open>Allocation\<close>

definition CreateData :: "('k, 'v) allocator \<Rightarrow> ('k, 'v) map_mem \<Rightarrow> (map_error + addr) \<times> ('k, 'v) map_mem" where
  "CreateData malloc m = (case malloc m of
       None \<Rightarrow> (Inl Bad_Alloc, m)
     | Some d \<Rightarrow> (Inr d, m\<lparr>datas := (datas m)(d \<mapsto>
         \<lparr>reference = 0, rb_root = None, nullNode = None, node_count = 0\<rparr>)\<rparr>))"

definition FreeData :: "addr \<Rightarrow> ('k, 'v) map_mem \<Rightarrow> ('k, 'v) map_mem option" where
  "FreeData d m = do { D \<leftarrow> datas m d; Some (m\<lparr>datas := (datas m)(d := None)\<rparr>) }"

text \<open>\<open>memset\<close> makes the colour 0, which is \<open>RB_RED\<close>.\<close>

definition createNode ::
    "('k, 'v) allocator \<Rightarrow> 'k \<Rightarrow> 'v \<Rightarrow> ('k, 'v) map_mem \<Rightarrow> (map_error + addr) \<times> ('k, 'v) map_mem" where
  "createNode malloc k v m = (case malloc m of
       None \<Rightarrow> (Inl Bad_Alloc, m)
     | Some a \<Rightarrow> (Inr a, m\<lparr>
         nodes := (nodes m)(a \<mapsto> \<lparr>rb_parent = None, rb_right = None, rb_left = None, rb_color = RB_RED\<rparr>),
         pairs := (pairs m)(a \<mapsto> (k, v))\<rparr>))"

definition freeNode :: "ptr \<Rightarrow> ('k, 'v) map_mem \<Rightarrow> ('k, 'v) map_mem option" where
  "freeNode p m = do {
     a \<leftarrow> p;
     n \<leftarrow> nodes m a;
     kv \<leftarrow> pairs m a;
     Some (m\<lparr>nodes := (nodes m)(a := None), pairs := (pairs m)(a := None)\<rparr>) }"

section \<open>Walking\<close>

definition data_begin :: "addr \<Rightarrow> ('k, 'v) map_mem \<Rightarrow> ptr option" where
  "data_begin d m = do { D \<leftarrow> datas m d; rb_first (tree_of m D) }"

definition data_end :: "addr \<Rightarrow> ('k, 'v) map_mem \<Rightarrow> ptr option" where
  "data_end d m = do { D \<leftarrow> datas m d; Some (nullNode D) }"

definition data_rbegin :: "addr \<Rightarrow> ('k, 'v) map_mem \<Rightarrow> ptr option" where
  "data_rbegin d m = do { D \<leftarrow> datas m d; rb_last (tree_of m D) }"

text \<open>\<open>MapNode::nextNode\<close> and \<open>previousNode\<close> follow the pointers of the node only.\<close>

definition node_next :: "ptr \<Rightarrow> ('k, 'v) map_mem \<Rightarrow> ptr option" where
  "node_next p m = rb_next \<lparr>heap = nodes m, root = None\<rparr> p"

definition node_previous :: "ptr \<Rightarrow> ('k, 'v) map_mem \<Rightarrow> ptr option" where
  "node_previous p m = rb_prev \<lparr>heap = nodes m, root = None\<rparr> p"

definition data_nextNode :: "addr \<Rightarrow> ptr \<Rightarrow> ('k, 'v) map_mem \<Rightarrow> ptr option" where
  "data_nextNode d cur m = do {
     D \<leftarrow> datas m d;
     lastNode \<leftarrow> rb_last (tree_of m D);
     if cur = lastNode \<or> cur = nullNode D then Some (nullNode D) else node_next cur m }"

definition data_prevNode :: "addr \<Rightarrow> ptr \<Rightarrow> ('k, 'v) map_mem \<Rightarrow> ptr option" where
  "data_prevNode d cur m = do {
     D \<leftarrow> datas m d;
     lastNode \<leftarrow> rb_last (tree_of m D);
     first \<leftarrow> data_begin d m;
     if first = cur then Some None
     else if cur = nullNode D then Some lastNode
     else node_previous cur m }"

section \<open>Insertion, search, erasure\<close>

partial_function (option) map_insert_loop ::
    "'k::linorder \<Rightarrow> (addr \<Rightarrow> ('k \<times> 'v) option) \<Rightarrow> rb_link \<Rightarrow> ptr \<Rightarrow> rb_state \<Rightarrow> (rb_link \<times> ptr \<times> bool) option" where
  "map_insert_loop key pr lk parent s = do {
     cur \<leftarrow> get_link s lk;
     case cur of None \<Rightarrow> Some (lk, parent, False)
     | Some a \<Rightarrow> do {
         (pkey, pval) \<leftarrow> pr a;
         if key < pkey then map_insert_loop key pr (Link_Left a) (Some a) s
         else if key > pkey then map_insert_loop key pr (Link_Right a) (Some a) s
         else Some (lk, Some a, True) } }"

definition data_insert ::
    "('k::linorder, 'v) allocator \<Rightarrow> addr \<Rightarrow> 'k \<Rightarrow> 'v \<Rightarrow> ('k, 'v) map_mem \<Rightarrow>
      ((map_error + ptr) \<times> ('k, 'v) map_mem) option" where
  "data_insert malloc d key val m = (case createNode malloc key val m of
       (Inl e, m) \<Rightarrow> Some (Inl e, m)
     | (Inr newNode, m) \<Rightarrow> do {
         D \<leftarrow> datas m d;
         (lk, parent, exists) \<leftarrow> map_insert_loop key (pairs m) Link_Root None (tree_of m D);
         if exists then do {
           m \<leftarrow> freeNode (Some newNode) m;
           Some (Inr None, m) }
         else do {
           s \<leftarrow> rb_link_node (Some newNode) parent lk (tree_of m D);
           s \<leftarrow> rb_insert_color (Some newNode) s;
           Some (Inr (Some newNode), put_tree d (D\<lparr>node_count := node_count D + 1\<rparr>) s m) } })"

partial_function (option) map_find_loop ::
    "'k::linorder \<Rightarrow> (addr \<Rightarrow> ('k \<times> 'v) option) \<Rightarrow> rb_state \<Rightarrow> ptr \<Rightarrow> ptr option" where
  "map_find_loop key pr s node = (case node of None \<Rightarrow> Some None
     | Some a \<Rightarrow> do {
         (ckey, cval) \<leftarrow> pr a;
         if key < ckey then do { n \<leftarrow> rd s node; map_find_loop key pr s (rb_left n) }
         else if key > ckey then do { n \<leftarrow> rd s node; map_find_loop key pr s (rb_right n) }
         else Some node })"

definition data_find :: "addr \<Rightarrow> 'k::linorder \<Rightarrow> ('k, 'v) map_mem \<Rightarrow> ptr option" where
  "data_find d key m = do {
     D \<leftarrow> datas m d;
     map_find_loop key (pairs m) (tree_of m D) (rb_root D) }"

text \<open>\<open>MapNodeBase::isValidNode\<close>: the variant without the test for a self-loop.\<close>

partial_function (option) map_valid_loop :: "rb_state \<Rightarrow> ptr \<Rightarrow> bool option" where
  "map_valid_loop s parent = (if parent = None then Some False
     else if parent = root s then Some True
     else do { n \<leftarrow> rd s parent; map_valid_loop s (rb_parent n) })"

definition map_isValidNode :: "rb_state \<Rightarrow> ptr \<Rightarrow> bool option" where
  "map_isValidNode s node = (if node = None then None else map_valid_loop s node)"

definition data_erase_node ::
    "addr \<Rightarrow> ptr \<Rightarrow> bool \<Rightarrow> ('k, 'v) map_mem \<Rightarrow> ((map_error + ptr) \<times> ('k, 'v) map_mem) option" where
  "data_erase_node d cur check m = do {
     D \<leftarrow> datas m d;
     if cur = nullNode D then Some (Inr (nullNode D), m) else do {
       valid \<leftarrow> (if check then map_isValidNode (tree_of m D) cur else Some True);
       if \<not> valid then Some (Inl Logic_Error, m) else do {
         next \<leftarrow> data_nextNode d cur m;
         s \<leftarrow> rb_erase cur (tree_of m D);
         m \<leftarrow> freeNode cur (put_tree d D s m);
         D \<leftarrow> datas m d;
         Some (Inr next, m\<lparr>datas := (datas m)(d \<mapsto> D\<lparr>node_count := node_count D - 1\<rparr>)\<rparr>) } } }"

definition data_erase ::
    "addr \<Rightarrow> 'k::linorder \<Rightarrow> ('k, 'v) map_mem \<Rightarrow> ((map_error + ptr) \<times> ('k, 'v) map_mem) option" where
  "data_erase d key m = do {
     ret \<leftarrow> data_find d key m;
     if ret = None then Some (Inr None, m) else data_erase_node d ret False m }"

partial_function (option) data_clear_loop :: "addr \<Rightarrow> ('k, 'v) map_mem \<Rightarrow> ('k, 'v) map_mem option" where
  "data_clear_loop d m = do {
     D \<leftarrow> datas m d;
     let node = rb_root D;
     if node = None then Some m else do {
       s \<leftarrow> rb_erase node (tree_of m D);
       m \<leftarrow> freeNode node (put_tree d D s m);
       data_clear_loop d m } }"

definition data_clear :: "addr \<Rightarrow> ('k, 'v) map_mem \<Rightarrow> ('k, 'v) map_mem option" where
  "data_clear d m = do {
     m \<leftarrow> data_clear_loop d m;
     D \<leftarrow> datas m d;
     Some (m\<lparr>datas := (datas m)(d \<mapsto> D\<lparr>node_count := 0\<rparr>)\<rparr>) }"

end
