(* ===== verification/Map_Rep.thy ===== *)
theory Map_Rep
  imports Map_Data
begin

text \<open>
  What the memory of \<open>MapData\<close> represents: for every data block the list of its keys and values in
  key order, with the reference count. The operations of \<open>MapData\<close> act on these lists: insertion is
  sorted insertion, erasure removes the pair of the key, and no operation changes another block.
\<close>

section \<open>Keys of nodes\<close>

definition key_of :: "(addr \<Rightarrow> ('k \<times> 'v) option) \<Rightarrow> addr \<Rightarrow> 'k" where
  "key_of pr a = fst (the (pr a))"

text \<open>The directions that the tests \<open>std::less\<close> and \<open>std::greater\<close> of the two loops take.\<close>

definition map_cmp :: "(addr \<Rightarrow> ('k::linorder \<times> 'v) option) \<Rightarrow> ptr \<Rightarrow> ptr \<Rightarrow> int" where
  "map_cmp pr p q = (case (p, q) of (Some a, Some b) \<Rightarrow>
     if key_of pr b < key_of pr a then 1 else if key_of pr b > key_of pr a then -1 else 0 | _ \<Rightarrow> 0)"

definition map_eq :: "(addr \<Rightarrow> ('k::linorder \<times> 'v) option) \<Rightarrow> ptr \<Rightarrow> 'k option \<Rightarrow> int" where
  "map_eq pr p k = (case (p, k) of (Some a, Some k) \<Rightarrow>
     if k < key_of pr a then -1 else if k > key_of pr a then 1 else 0 | _ \<Rightarrow> 0)"

lemma map_cmp_Some [simp]: "map_cmp pr (Some a) (Some b) =
    (if key_of pr b < key_of pr a then 1 else if key_of pr b > key_of pr a then -1 else 0)"
  by (simp add: map_cmp_def)

lemma map_eq_Some [simp]: "map_eq pr (Some a) (Some k) =
    (if k < key_of pr a then -1 else if k > key_of pr a then 1 else 0)"
  by (simp add: map_eq_def)

interpretation map_order: node_order "key_of pr" "map_cmp pr" "map_eq pr" "\<lambda>k. k" for pr
  by unfold_locales auto

lemma map_insert_loop_eq:
  "rep s (plug t fs) \<Longrightarrow> \<forall>a\<in>set (addrs t). pr a \<noteq> None \<Longrightarrow> k = key_of pr n \<Longrightarrow>
    map_insert_loop k pr (link_of fs) (ctx_par fs) s =
    insert_descend (map_cmp pr) (Some n) (link_of fs) (ctx_par fs) s"
proof (induction t arbitrary: fs)
  case Lf
  then show ?case
    using get_link_of [OF Lf(1)] by (subst map_insert_loop.simps, subst insert_descend.simps) simp
next
  case (Nd l a c r)
  obtain ka va where a: "pr a = Some (ka, va)" using Nd.prems(2) by auto
  have "map_insert_loop k pr (Link_Left a) (Some a) s = insert_descend (map_cmp pr) (Some n) (Link_Left a) (Some a) s"
    using Nd.IH(1) [of "LeftOf a c r # fs"] Nd.prems by simp
  moreover have
    "map_insert_loop k pr (Link_Right a) (Some a) s = insert_descend (map_cmp pr) (Some n) (Link_Right a) (Some a) s"
    using Nd.IH(2) [of "RightOf l a c # fs"] Nd.prems by simp
  moreover have "key_of pr a = ka" using a by (simp add: key_of_def)
  ultimately show ?case
    using get_link_of [OF Nd.prems(1)] a Nd.prems(3)
    by (subst map_insert_loop.simps, subst insert_descend.simps) auto
qed

lemma map_find_loop_eq:
  "reps (heap s) q t \<Longrightarrow> \<forall>a\<in>set (addrs t). pr a \<noteq> None \<Longrightarrow>
    map_find_loop k pr s (ptr_of t) = search_loop (map_eq pr) (Some k) s (ptr_of t)"
proof (induction t arbitrary: q)
  case Lf
  then show ?case by (subst map_find_loop.simps, subst search_loop.simps) simp
next
  case (Nd l a c r)
  obtain ka va where a: "pr a = Some (ka, va)" using Nd.prems(2) by auto
  moreover have "key_of pr a = ka" using a by (simp add: key_of_def)
  ultimately show ?case
    using Nd by (subst map_find_loop.simps, subst search_loop.simps) auto
qed

section \<open>Representation\<close>

lemma rb_state_collapse [simp]: "\<lparr>heap = heap s, root = root s\<rparr> = s"
  by simp

definition data_ok :: "('k::linorder, 'v) map_mem \<Rightarrow> rtree \<Rightarrow> map_data \<Rightarrow> bool" where
  "data_ok m t D \<longleftrightarrow> rep (tree_of m D) t \<and> rb_tree t \<and> key_sorted (key_of (pairs m)) (addrs t) \<and>
     node_count D = of_nat (length (addrs t)) \<and> nullNode D = None"

definition content :: "('k, 'v) map_mem \<Rightarrow> rtree \<Rightarrow> ('k \<times> 'v) list" where
  "content m t = map (\<lambda>a. the (pairs m a)) (addrs t)"

text \<open>\<open>T\<close> gives the tree of each data block. Every node belongs to exactly one of them.\<close>

definition mem_ok :: "('k::linorder, 'v) map_mem \<Rightarrow> (addr \<Rightarrow> rtree) \<Rightarrow> bool" where
  "mem_ok m T \<longleftrightarrow>
     (\<forall>d D. datas m d = Some D \<longrightarrow> data_ok m (T d) D) \<and>
     (\<forall>d. datas m d = None \<longrightarrow> T d = Lf) \<and>
     (\<forall>d e. d \<noteq> e \<longrightarrow> set (addrs (T d)) \<inter> set (addrs (T e)) = {}) \<and>
     (\<forall>a. nodes m a \<noteq> None \<longleftrightarrow> (\<exists>d. a \<in> set (addrs (T d)))) \<and>
     (\<forall>a. pairs m a \<noteq> None \<longleftrightarrow> nodes m a \<noteq> None)"

definition mem_rep ::
    "('k::linorder, 'v) map_mem \<Rightarrow> (addr \<Rightarrow> (('k \<times> 'v) list \<times> 32 word) option) \<Rightarrow> bool" where
  "mem_rep m V \<longleftrightarrow> (\<exists>T. mem_ok m T \<and>
     V = (\<lambda>d. map_option (\<lambda>D. (content m (T d), reference D)) (datas m d)))"

definition fresh_alloc :: "('k, 'v) allocator \<Rightarrow> bool" where
  "fresh_alloc malloc \<longleftrightarrow>
     (\<forall>m a. malloc m = Some a \<longrightarrow> nodes m a = None \<and> pairs m a = None \<and> datas m a = None)"

lemma content_key_sorted:
  "sorted_wrt (\<lambda>p q. fst p < fst q) (content m t) \<longleftrightarrow> key_sorted (key_of (pairs m)) (addrs t)"
  by (simp add: content_def key_sorted_def sorted_wrt_map key_of_def)

lemma fst_content: "fst ` set (content m t) = key_of (pairs m) ` set (addrs t)"
  by (force simp: content_def key_of_def)

lemma content_cong: "(\<And>a. a \<in> set (addrs t) \<Longrightarrow> pairs m' a = pairs m a) \<Longrightarrow> content m' t = content m t"
  by (simp add: content_def)

text \<open>Changing one block: what has to be checked for the others to stay as they are.\<close>

lemma rep_cong:
  "rep s t \<Longrightarrow> root s' = root s \<Longrightarrow> (\<And>a. a \<in> set (addrs t) \<Longrightarrow> heap s' a = heap s a) \<Longrightarrow> rep s' t"
  using reps_cong [of t "heap s'" "heap s"] by (simp add: rep_def)

lemma data_ok_cong:
  assumes "data_ok m t D" and "\<And>a. a \<in> set (addrs t) \<Longrightarrow> nodes m' a = nodes m a \<and> pairs m' a = pairs m a"
  shows "data_ok m' t D"
proof -
  have "rep (tree_of m' D) t"
    by (rule rep_cong [of "tree_of m D"]) (use assms in \<open>auto simp: data_ok_def tree_of_def\<close>)
  moreover have "key_sorted (key_of (pairs m')) (addrs t) = key_sorted (key_of (pairs m)) (addrs t)"
    using content_key_sorted [of m' t] content_key_sorted [of m t] content_cong [of t m' m] assms(2)
    by simp
  ultimately show ?thesis using assms(1) by (simp add: data_ok_def)
qed

lemma mem_ok_change:
  assumes ok: "mem_ok m T" and D: "datas m d = Some D" "datas m' = (datas m)(d \<mapsto> D')"
    and t: "data_ok m' t D'"
    and apart: "\<And>e. e \<noteq> d \<Longrightarrow> set (addrs t) \<inter> set (addrs (T e)) = {}"
    and out: "\<And>a. a \<notin> set (addrs (T d)) \<union> set (addrs t) \<Longrightarrow> nodes m' a = nodes m a \<and> pairs m' a = pairs m a"
    and live: "\<And>a. a \<in> set (addrs (T d)) \<union> set (addrs t) \<Longrightarrow>
      (nodes m' a \<noteq> None \<longleftrightarrow> a \<in> set (addrs t)) \<and> (pairs m' a \<noteq> None \<longleftrightarrow> a \<in> set (addrs t))"
  shows "mem_ok m' (T(d := t))" and "\<And>e. e \<noteq> d \<Longrightarrow> content m' (T e) = content m (T e)"
proof -
  have same: "nodes m' a = nodes m a \<and> pairs m' a = pairs m a"
    if "a \<in> set (addrs (T e))" "e \<noteq> d" for a e
    using out [of a] that apart [of e] ok unfolding mem_ok_def by blast
  then show "\<And>e. e \<noteq> d \<Longrightarrow> content m' (T e) = content m (T e)"
    by (intro content_cong) auto
  have "data_ok m' ((T(d := t)) e) E" if "datas m' e = Some E" for e E
  proof (cases "e = d")
    case False
    then have "data_ok m (T e) E" using ok that D by (simp add: mem_ok_def)
    then show ?thesis using False same by (auto intro: data_ok_cong)
  qed (use that D t in simp)
  moreover have "nodes m' a \<noteq> None \<longleftrightarrow> (\<exists>e. a \<in> set (addrs ((T(d := t)) e)))"
    and "pairs m' a \<noteq> None \<longleftrightarrow> (\<exists>e. a \<in> set (addrs ((T(d := t)) e)))" for a
  proof -
    have dis: "a \<in> set (addrs (T d)) \<Longrightarrow> e = d" if "a \<in> set (addrs (T e))" for e
      using ok that unfolding mem_ok_def by blast
    have all: "nodes m a \<noteq> None \<longleftrightarrow> (\<exists>e. a \<in> set (addrs (T e)))" "pairs m a \<noteq> None \<longleftrightarrow> nodes m a \<noteq> None"
      using ok unfolding mem_ok_def by blast+
    have n: "nodes m' a \<noteq> None \<longleftrightarrow> a \<in> set (addrs t) \<or> a \<notin> set (addrs (T d)) \<and> nodes m a \<noteq> None"
      and p: "pairs m' a \<noteq> None \<longleftrightarrow> nodes m' a \<noteq> None"
      by (cases "a \<in> set (addrs (T d)) \<union> set (addrs t)",
          use live [of a] out [of a] all(2) in \<open>auto simp del: not_None_eq\<close>)+
    have "(\<exists>e. a \<in> set (addrs ((T(d := t)) e))) \<longleftrightarrow>
        a \<in> set (addrs t) \<or> a \<notin> set (addrs (T d)) \<and> nodes m a \<noteq> None"
      using dis all(1) by (auto split: if_splits)
    then show "nodes m' a \<noteq> None \<longleftrightarrow> (\<exists>e. a \<in> set (addrs ((T(d := t)) e)))"
      and "pairs m' a \<noteq> None \<longleftrightarrow> (\<exists>e. a \<in> set (addrs ((T(d := t)) e)))"
      using n p by blast+
  qed
  ultimately show "mem_ok m' (T(d := t))"
    using ok D apart unfolding mem_ok_def by (auto 0 3 simp: Int_commute)
qed

section \<open>Insertion\<close>

lemma rbtree_insert_steps:
  assumes "rbtree_insert True (Some x) (Some cmp) s = Some (r, s')"
  obtains lk parent where "insert_descend cmp (Some x) Link_Root None s = Some (lk, parent, r = None)"
    and "r \<noteq> None \<longrightarrow> r = Some x \<and> do { s \<leftarrow> rb_link_node (Some x) parent lk s; rb_insert_color (Some x) s } = Some s'"
  using assms by (auto simp: rbtree_insert_def bind_eq_Some_conv split: if_splits)

lemma map_insort_key: "map f (insort_key (\<lambda>a. g (f a)) x xs) = insort_key g (f x) (map f xs)"
  by (induction xs) auto

lemma mem_ok_data: "mem_ok m T \<Longrightarrow> datas m d = Some D \<Longrightarrow> data_ok m (T d) D"
  by (simp add: mem_ok_def)

lemma mem_ok_free: "mem_ok m T \<Longrightarrow> nodes m a = None \<Longrightarrow> a \<notin> set (addrs (T d))"
  unfolding mem_ok_def by blast

lemma mem_ok_live: "mem_ok m T \<Longrightarrow> a \<in> set (addrs (T d)) \<Longrightarrow> nodes m a \<noteq> None \<and> pairs m a \<noteq> None"
  unfolding mem_ok_def by blast

lemma mem_ok_apart: "mem_ok m T \<Longrightarrow> d \<noteq> e \<Longrightarrow> set (addrs (T d)) \<inter> set (addrs (T e)) = {}"
  by (simp add: mem_ok_def)

lemma data_insert_ok:
  assumes ok: "mem_ok m T" and D: "datas m d = Some D" and n: "malloc m = Some n" "fresh_alloc malloc"
  shows "if k \<in> fst ` set (content m (T d)) then data_insert malloc d k v m = Some (Inr None, m)
    else \<exists>m' t' D'. data_insert malloc d k v m = Some (Inr (Some n), m') \<and> mem_ok m' (T(d := t')) \<and>
      datas m' = (datas m)(d \<mapsto> D') \<and> reference D' = reference D \<and> n \<in> set (addrs t') \<and>
      content m' t' = insort_key fst (k, v) (content m (T d)) \<and> pairs m' = (pairs m)(n \<mapsto> (k, v)) \<and>
      (\<forall>e. e \<noteq> d \<longrightarrow> content m' (T e) = content m (T e))"
proof -
  have fresh: "nodes m n = None" "pairs m n = None" "datas m n = None"
    using n by (auto simp: fresh_alloc_def)
  have nd: "n \<notin> set (addrs (T e))" for e using mem_ok_free [OF ok fresh(1)] .
  define m1 where "m1 = m\<lparr>nodes := (nodes m)(n \<mapsto> \<lparr>rb_parent = None, rb_right = None, rb_left = None, rb_color = RB_RED\<rparr>),
      pairs := (pairs m)(n \<mapsto> (k, v))\<rparr>"
  have create: "createNode malloc k v m = (Inr n, m1)" by (simp add: createNode_def n m1_def)
  define s where "s = tree_of m1 D"
  have t1: "data_ok m1 (T d) D"
    by (rule data_ok_cong [OF mem_ok_data [OF ok D]]) (use nd in \<open>auto simp: m1_def\<close>)
  then have t: "rep s (T d)" "rb_tree (T d)" "key_sorted (key_of (pairs m1)) (addrs (T d))"
    by (auto simp: data_ok_def s_def)
  have hn: "heap s n \<noteq> None" by (simp add: s_def tree_of_def m1_def)
  have kn: "key_of (pairs m1) n = k" by (simp add: key_of_def m1_def)
  have keys: "key_of (pairs m1) ` set (addrs (T d)) = fst ` set (content m (T d))"
    unfolding fst_content using nd [of d] by (intro image_cong) (auto simp: key_of_def m1_def)
  obtain r s' t' where ins: "rbtree_insert True (Some n) (Some (map_cmp (pairs m1))) s = Some (r, s')"
    "r = (if k \<in> fst ` set (content m (T d)) then None else Some n)"
    "rep s' t'" "rb_tree t'" "same_outside (insert n (set (addrs (T d)))) s s'"
    "addrs t' = (if k \<in> fst ` set (content m (T d)) then addrs (T d)
      else insort_key (key_of (pairs m1)) n (addrs (T d)))"
    using map_order.insert_sorted [OF t nd hn] kn keys by auto
  obtain lk parent where steps: "insert_descend (map_cmp (pairs m1)) (Some n) Link_Root None s = Some (lk, parent, r = None)"
    "r \<noteq> None \<longrightarrow> r = Some n \<and> do { s \<leftarrow> rb_link_node (Some n) parent lk s; rb_insert_color (Some n) s } = Some s'"
    by (rule rbtree_insert_steps [OF ins(1)])
  have "\<forall>a\<in>set (addrs (T d)). pairs m1 a \<noteq> None"
    using mem_ok_live [OF ok] by (simp add: m1_def)
  then have loop: "map_insert_loop k (pairs m1) Link_Root None s = Some (lk, parent, r = None)"
    using map_insert_loop_eq [of s "T d" "[]" "pairs m1" k n] t(1) kn steps(1) by simp
  have D1: "datas m1 d = Some D" by (simp add: D m1_def)
  show ?thesis
  proof (cases "k \<in> fst ` set (content m (T d))")
    case True
    then have "data_insert malloc d k v m = Some (Inr None, m1\<lparr>nodes := (nodes m1)(n := None), pairs := (pairs m1)(n := None)\<rparr>)"
      using loop ins(2) create D1 by (simp add: data_insert_def s_def freeNode_def m1_def)
    moreover have "(nodes m)(n := None) = nodes m" "(pairs m)(n := None) = pairs m"
      using fresh by auto
    ultimately show ?thesis using True by (simp add: m1_def)
  next
    case False
    let ?m' = "put_tree d (D\<lparr>node_count := node_count D + 1\<rparr>) s' m1"
    let ?D' = "D\<lparr>node_count := node_count D + 1, rb_root := root s'\<rparr>"
    have run: "data_insert malloc d k v m = Some (Inr (Some n), ?m')"
    proof -
      have r: "r = Some n" using ins(2) False by simp
      then have "do { s \<leftarrow> rb_link_node (Some n) parent lk s; rb_insert_color (Some n) s } = Some s'"
        using steps(2) by simp
      then obtain s2 where "rb_link_node (Some n) parent lk s = Some s2" "rb_insert_color (Some n) s2 = Some s'"
        by (auto simp: bind_eq_Some_conv)
      then show ?thesis
        using loop create D1 r by (simp add: data_insert_def s_def)
    qed
    have addrs: "addrs t' = insort_key (key_of (pairs m1)) n (addrs (T d))"
      "set (addrs t') = insert n (set (addrs (T d)))"
      using ins(6) False by (simp_all add: set_insort_key)
    have c1: "content m1 (T d) = content m (T d)"
      by (rule content_cong) (use nd in \<open>auto simp: m1_def\<close>)
    have cont: "content ?m' t' = insort_key fst (k, v) (content m (T d))"
    proof -
      have "content ?m' t' = map (\<lambda>a. the (pairs m1 a)) (insort_key (\<lambda>a. fst (the (pairs m1 a))) n (addrs (T d)))"
        by (simp add: content_def addrs(1) put_tree_def key_of_def [abs_def])
      also have "\<dots> = insort_key fst (the (pairs m1 n)) (content m1 (T d))"
        unfolding content_def by (rule map_insort_key)
      finally show ?thesis by (simp add: c1) (simp add: m1_def)
    qed
    have "sorted_wrt (\<lambda>p q. fst p < fst q) (content ?m' t')"
      unfolding content_key_sorted
      using key_sorted_insort [OF t(3), of n] addrs(1) keys kn False by (simp add: put_tree_def)
    then have "key_sorted (key_of (pairs ?m')) (addrs t')" by (simp add: content_key_sorted)
    moreover have "length (addrs t') = Suc (length (addrs (T d)))" by (simp add: addrs(1))
    ultimately have ok': "data_ok ?m' t' ?D'"
      using ins(3,4) t1 by (simp add: data_ok_def tree_of_def put_tree_def)
    have out: "nodes ?m' a = nodes m a \<and> pairs ?m' a = pairs m a" if "a \<notin> set (addrs (T d)) \<union> set (addrs t')" for a
      using ins(5) that addrs(2) by (auto simp: same_outside_def put_tree_def s_def tree_of_def m1_def)
    have live: "nodes ?m' a \<noteq> None \<and> pairs ?m' a \<noteq> None" if "a \<in> set (addrs t')" for a
      using reps_Some [of "heap s'" None t' a] ins(3) that addrs(2) mem_ok_live [OF ok, of a d]
      by (auto simp: rep_def put_tree_def m1_def)
    have D': "datas ?m' = (datas m)(d \<mapsto> ?D')" by (auto simp: put_tree_def m1_def)
    have apart: "set (addrs t') \<inter> set (addrs (T e)) = {}" if "e \<noteq> d" for e
      using mem_ok_apart [OF ok, of d e] that nd [of e] addrs(2) by auto
    have "mem_ok ?m' (T(d := t'))" "\<And>e. e \<noteq> d \<Longrightarrow> content ?m' (T e) = content m (T e)"
      by (rule mem_ok_change [OF ok D D' ok' apart out]; use live addrs(2) in blast)+
    then show ?thesis using run D' cont addrs(2) False by (auto simp: put_tree_def m1_def)
  qed
qed

section \<open>Search\<close>

lemma data_find_ok:
  assumes "mem_ok m T" "datas m d = Some D"
  shows "data_find d k m = Some (find (\<lambda>a. key_of (pairs m) a = k) (addrs (T d)))"
proof -
  have t: "rep (tree_of m D) (T d)" "key_sorted (key_of (pairs m)) (addrs (T d))"
    using mem_ok_data [OF assms] by (auto simp: data_ok_def)
  have live: "\<forall>a\<in>set (addrs (T d)). pairs m a \<noteq> None" using mem_ok_live [OF assms(1)] by simp
  have "root (tree_of m D) = rb_root D" by (simp add: tree_of_def)
  then have "data_find d k m = search_loop (map_eq (pairs m)) (Some k) (tree_of m D) (rb_root D)"
    using map_find_loop_eq [of "tree_of m D" None "T d" "pairs m" k] t(1) live assms(2)
    by (simp add: data_find_def rep_def)
  also have "\<dots> = rbtree_search True (Some k) (Some (map_eq (pairs m))) (tree_of m D)"
    by (simp add: rbtree_search_def tree_of_def)
  also have "\<dots> = Some (find (\<lambda>a. key_of (pairs m) a = k) (addrs (T d)))"
    by (rule map_order.search_finds [OF t])
  finally show ?thesis .
qed

section \<open>Walking\<close>

lemma data_begin_ok:
  "mem_ok m T \<Longrightarrow> datas m d = Some D \<Longrightarrow> data_begin d m = Some (hd_ptr (addrs (T d)))"
  using mem_ok_data [of m T d D] by (simp add: data_begin_def data_ok_def rb_first_rep)

lemma data_end_ok: "mem_ok m T \<Longrightarrow> datas m d = Some D \<Longrightarrow> data_end d m = Some None"
  using mem_ok_data [of m T d D] by (simp add: data_end_def data_ok_def)

lemma data_nextNode_ok:
  assumes "mem_ok m T" "datas m d = Some D" "addrs (T d) = xs @ a # ys"
  shows "data_nextNode d (Some a) m = Some (hd_ptr ys)"
proof -
  have t: "rep (tree_of m D) (T d)" "nullNode D = None"
    using mem_ok_data [OF assms(1,2)] by (auto simp: data_ok_def)
  have nx: "node_next (Some a) m = Some (hd_ptr ys)"
    unfolding node_next_def
    by (rule rb_next_reps [OF _ _ assms(3)]) (use t(1) in \<open>simp_all add: tree_of_def rep_def\<close>)
  have last: "rb_last (tree_of m D) = Some (last_ptr (addrs (T d)))" by (rule rb_last_rep [OF t(1)])
  have "distinct (xs @ a # ys)" using t(1) assms(3) by (simp add: rep_def)
  then have "Some a = last_ptr (addrs (T d)) \<longleftrightarrow> ys = []"
    by (cases ys rule: rev_cases) (auto simp: assms(3))
  then show ?thesis using nx last t(2) assms(2) by (auto simp: data_nextNode_def)
qed

lemma data_prevNode_ok:
  assumes "mem_ok m T" "datas m d = Some D" "addrs (T d) = xs @ a # ys"
  shows "data_prevNode d (Some a) m = Some (last_ptr xs)"
proof -
  have t: "rep (tree_of m D) (T d)" "nullNode D = None"
    using mem_ok_data [OF assms(1,2)] by (auto simp: data_ok_def)
  have prev: "node_previous (Some a) m = Some (last_ptr xs)"
    unfolding node_previous_def
    by (rule rb_prev_reps [OF _ _ assms(3)]) (use t(1) in \<open>simp_all add: tree_of_def rep_def\<close>)
  have "distinct (xs @ a # ys)" using t(1) assms(3) by (simp add: rep_def)
  then have "hd_ptr (addrs (T d)) = Some a \<longleftrightarrow> xs = []" by (cases xs) (auto simp: assms(3))
  then show ?thesis
    using prev t(2) assms(2) data_begin_ok [OF assms(1,2)] rb_last_rep [OF t(1)]
    by (auto simp: data_prevNode_def)
qed

section \<open>Erasure\<close>

lemma map_valid_loop_ctx:
  "reps (heap s) (ctx_par fs) (Nd l a c r) \<Longrightarrow> repc (heap s) (Some a) fs \<Longrightarrow>
    root s = ctx_root (Some a) fs \<Longrightarrow> distinct (ctx_l fs @ addrs (Nd l a c r) @ ctx_r fs) \<Longrightarrow>
    map_valid_loop s (Some a) = Some True"
proof (induction fs arbitrary: l a c r)
  case Nil
  then show ?case by (subst map_valid_loop.simps) auto
next
  case (Cons f fs)
  show ?case
  proof (cases f)
    case (LeftOf p pc pr)
    have "map_valid_loop s (Some p) = Some True"
      by (rule Cons.IH [of "Nd l a c r" p pc pr]) (use Cons.prems LeftOf in auto)
    then show ?thesis using Cons.prems LeftOf by (subst map_valid_loop.simps) auto
  next
    case (RightOf pl p pc)
    have "map_valid_loop s (Some p) = Some True"
      by (rule Cons.IH [of pl p pc "Nd l a c r"]) (use Cons.prems RightOf in auto)
    then show ?thesis using Cons.prems RightOf by (subst map_valid_loop.simps) auto
  qed
qed

lemma map_isValidNode_rep:
  assumes "rep s t" "a \<in> set (addrs t)"
  shows "map_isValidNode s (Some a) = Some True"
proof -
  obtain l c r gs where "t = plug (Nd l a c r) gs" using focus_exists [OF assms(2), of "[]"] by auto
  then have "rep s (plug (Nd l a c r) gs)" using assms by simp
  then show ?thesis
    using map_valid_loop_ctx [of s gs l a c r] by (simp add: map_isValidNode_def rep_plug)
qed

text \<open>
  The step that erasure and clearing share: unlink a node and free it. The stored number of nodes
  may be wrong here, since clearing corrects it only at its end.
\<close>

definition with_count :: "addr \<Rightarrow> map_data \<Rightarrow> 64 word \<Rightarrow> ('k, 'v) map_mem \<Rightarrow> ('k, 'v) map_mem" where
  "with_count d D n m = m\<lparr>datas := (datas m)(d \<mapsto> D\<lparr>node_count := n\<rparr>)\<rparr>"

lemma with_count_simps [simp]:
  "nodes (with_count d D n m) = nodes m" "pairs (with_count d D n m) = pairs m"
  "datas (with_count d D n m) = (datas m)(d \<mapsto> D\<lparr>node_count := n\<rparr>)"
  by (simp_all add: with_count_def)

lemma unlink_free_ok:
  assumes ok: "mem_ok (with_count d D n0 m) T" and a: "addrs (T d) = xs @ a # ys"
  obtains s m1 D1 t where "rb_erase (Some a) (tree_of m D) = Some s"
    and "freeNode (Some a) (put_tree d D s m) = Some m1" and "datas m1 d = Some D1" and "addrs t = xs @ ys"
    and "reference D1 = reference D" and "node_count D1 = node_count D"
    and "\<And>n. n = of_nat (length (xs @ ys)) \<Longrightarrow>
      mem_ok (with_count d D1 n m1) (T(d := t))"
    and "\<And>e. e \<noteq> d \<Longrightarrow> datas m1 e = datas m e" and "pairs m1 = (pairs m)(a := None)"
proof -
  have t: "rep (tree_of m D) (T d)" "rb_tree (T d)" "key_sorted (key_of (pairs m)) (addrs (T d))" "nullNode D = None"
    using mem_ok_data [OF ok, of d "D\<lparr>node_count := n0\<rparr>"] by (auto simp: data_ok_def tree_of_def)
  have mem: "a \<in> set (addrs (T d))" and dist: "distinct (xs @ a # ys)"
    using a t(1) by (simp_all add: rep_def)
  obtain s t' where e: "rb_erase (Some a) (tree_of m D) = Some s" "rep s t'" "rb_tree t'"
    "addrs t' = remove1 a (addrs (T d))" "same_outside (set (addrs (T d))) (tree_of m D) s"
    "\<forall>b. heap s b = None \<longleftrightarrow> heap (tree_of m D) b = None"
    by (rule rb_erase_removes [OF t(1,2) mem])
  have addrs: "addrs t' = xs @ ys" using e(4) a dist by (simp add: remove1_middle)
  let ?D1 = "D\<lparr>rb_root := root s\<rparr>"
  let ?m1 = "m\<lparr>nodes := (heap s)(a := None), datas := (datas m)(d \<mapsto> ?D1), pairs := (pairs m)(a := None)\<rparr>"
  have live: "heap s a \<noteq> None" "pairs m a \<noteq> None"
    using e(6) mem_ok_live [OF ok mem] by (simp_all add: tree_of_def)
  then have free: "freeNode (Some a) (put_tree d D s m) = Some ?m1"
    by (auto simp: freeNode_def put_tree_def)
  have ks: "key_sorted (key_of ((pairs m)(a := None))) (xs @ ys)"
  proof -
    have "key_sorted (key_of (pairs m)) (xs @ ys)"
      using key_sorted_remove1 [OF t(3), of a] a dist by (simp add: remove1_middle)
    moreover have "map (key_of ((pairs m)(a := None))) (xs @ ys) = map (key_of (pairs m)) (xs @ ys)"
      using dist by (auto simp: key_of_def)
    ultimately show ?thesis unfolding key_sorted_def by (metis sorted_wrt_map)
  qed
  have "mem_ok (with_count d ?D1 n ?m1) (T(d := t'))" if n: "n = of_nat (length (xs @ ys))" for n
  proof (rule mem_ok_change(1) [OF ok, of d "D\<lparr>node_count := n0\<rparr>" _ "?D1\<lparr>node_count := n\<rparr>"])
    show "datas (with_count d D n0 m) d = Some (D\<lparr>node_count := n0\<rparr>)" by simp
    let ?m2 = "with_count d ?D1 n ?m1"
    have "rep \<lparr>heap = (heap s)(a := None), root = root s\<rparr> t'"
      by (rule rep_cong [OF e(2)]) (use addrs dist in auto)
    then show "data_ok ?m2 t' (?D1\<lparr>node_count := n\<rparr>)"
      using e(3) ks n t(4) addrs by (simp add: data_ok_def tree_of_def)
    show "datas ?m2 = (datas (with_count d D n0 m))(d \<mapsto> ?D1\<lparr>node_count := n\<rparr>)" by simp
    show "set (addrs t') \<inter> set (addrs (T e)) = {}" if "e \<noteq> d" for e
      using mem_ok_apart [OF ok, of d e] that addrs a by auto
    show "nodes ?m2 b = nodes (with_count d D n0 m) b \<and> pairs ?m2 b = pairs (with_count d D n0 m) b" if "b \<notin> set (addrs (T d)) \<union> set (addrs t')" for b
      using that e(5) a by (auto simp: same_outside_def tree_of_def)
    show "(nodes ?m2 b \<noteq> None \<longleftrightarrow> b \<in> set (addrs t')) \<and> (pairs ?m2 b \<noteq> None \<longleftrightarrow> b \<in> set (addrs t'))"
      if "b \<in> set (addrs (T d)) \<union> set (addrs t')" for b
    proof -
      have "nodes m b \<noteq> None" "pairs m b \<noteq> None"
        using mem_ok_live [OF ok, of b d] that addrs a by auto
      then show ?thesis using that addrs a dist e(6) by (auto simp: tree_of_def)
    qed
  qed
  then show thesis
    by (intro that [OF e(1) free _ addrs, of ?D1]) auto
qed

lemma content_erase:
  assumes "mem_ok m T" "datas m d = Some D" "addrs (T d) = xs @ a # ys"
    and "addrs t = xs @ ys" "pairs m1 = (pairs m)(a := None)"
  shows "content m1 t = filter (\<lambda>p. fst p \<noteq> key_of (pairs m) a) (content m (T d))"
    and "\<And>e. e \<noteq> d \<Longrightarrow> content m1 (T e) = content m (T e)"
proof -
  have t: "distinct (addrs (T d))" "key_sorted (key_of (pairs m)) (addrs (T d))"
    using mem_ok_data [OF assms(1,2)] by (auto simp: data_ok_def rep_def)
  have "a \<notin> set xs" "a \<notin> set ys" using t(1) assms(3) by auto
  then have "content m1 t = map (\<lambda>b. the (pairs m b)) (xs @ ys)"
    by (auto simp: content_def assms(4,5))
  moreover have "\<forall>b\<in>set xs. fst (the (pairs m b)) \<noteq> key_of (pairs m) a"
    "\<forall>b\<in>set ys. fst (the (pairs m b)) \<noteq> key_of (pairs m) a"
    using t(2) assms(3) by (force simp: key_of_def)+
  then have "filter (\<lambda>p. fst p \<noteq> key_of (pairs m) a) (content m (T d)) = map (\<lambda>b. the (pairs m b)) (xs @ ys)"
    by (simp add: content_def assms(3) filter_map o_def) (simp add: key_of_def)
  ultimately show "content m1 t = filter (\<lambda>p. fst p \<noteq> key_of (pairs m) a) (content m (T d))" by simp
  show "content m1 (T e) = content m (T e)" if "e \<noteq> d" for e
    using mem_ok_apart [OF assms(1) that] assms(3,5) by (intro content_cong) auto
qed

lemma data_erase_node_ok:
  assumes ok: "mem_ok m T" and D: "datas m d = Some D" and a: "addrs (T d) = xs @ a # ys"
  obtains m' t D' where "data_erase_node d (Some a) check m = Some (Inr (hd_ptr ys), m')"
    and "mem_ok m' (T(d := t))" and "addrs t = xs @ ys" and "datas m' = (datas m)(d \<mapsto> D')"
    and "reference D' = reference D" and "pairs m' = (pairs m)(a := None)"
proof -
  have d: "rep (tree_of m D) (T d)" "node_count D = of_nat (length (addrs (T d)))" "nullNode D = None"
    using mem_ok_data [OF ok D] by (auto simp: data_ok_def)
  have "with_count d D (node_count D) m = m" using D by (simp add: with_count_def fun_upd_idem)
  then have ok0: "mem_ok (with_count d D (node_count D) m) T" using ok by simp
  obtain s m1 D1 t where u: "rb_erase (Some a) (tree_of m D) = Some s"
    "freeNode (Some a) (put_tree d D s m) = Some m1" "datas m1 d = Some D1" "addrs t = xs @ ys"
    "reference D1 = reference D" "node_count D1 = node_count D"
    and okn: "\<And>n. n = of_nat (length (xs @ ys)) \<Longrightarrow>
      mem_ok (with_count d D1 n m1) (T(d := t))"
    and rest: "\<And>e. e \<noteq> d \<Longrightarrow> datas m1 e = datas m e" and pm: "pairs m1 = (pairs m)(a := None)"
    by (rule unlink_free_ok [OF ok0 a]) (rule that)
  let ?m' = "with_count d D1 (node_count D - 1) m1"
  have "map_isValidNode (tree_of m D) (Some a) = Some True"
    by (rule map_isValidNode_rep [OF d(1)]) (simp add: a)
  then have run: "data_erase_node d (Some a) check m = Some (Inr (hd_ptr ys), ?m')"
    using data_nextNode_ok [OF ok D a] u D d(3) by (simp add: data_erase_node_def with_count_def)
  have "node_count D - 1 = of_nat (length (xs @ ys))" using d(2) by (simp add: a)
  then have "mem_ok ?m' (T(d := t))" by (rule okn)
  moreover have "datas ?m' = (datas m)(d \<mapsto> D1\<lparr>node_count := node_count D - 1\<rparr>)"
    using rest by auto
  ultimately show thesis using that [OF run _ u(4)] u(5) pm by simp
qed

lemma data_clear_loop_ok:
  "mem_ok (with_count d D n0 m) T \<Longrightarrow> datas m d = Some D \<Longrightarrow>
    \<exists>m' D'. data_clear_loop d m = Some m' \<and> datas m' = (datas m)(d \<mapsto> D') \<and> reference D' = reference D \<and>
      mem_ok (with_count d D' 0 m') (T(d := Lf)) \<and> (\<forall>e. e \<noteq> d \<longrightarrow> content m' (T e) = content m (T e))"
proof (induction "length (addrs (T d))" arbitrary: m T D n0)
  case 0
  then have Lf: "T d = Lf" by simp
  then have "data_ok (with_count d D n0 m) Lf (D\<lparr>node_count := n0\<rparr>)"
    using mem_ok_data [OF "0.prems"(1), of d "D\<lparr>node_count := n0\<rparr>"] by simp
  then have "n0 = 0" "rb_root D = None" by (simp_all add: data_ok_def rep_def tree_of_def)
  moreover have "T(d := Lf) = T" "(datas m)(d \<mapsto> D) = datas m" using Lf "0.prems"(2) by auto
  ultimately show ?case
    using "0.prems" by (subst data_clear_loop.simps) (auto intro!: exI [of _ D])
next
  case (Suc n)
  then obtain l a c r where Nd: "T d = Nd l a c r" by (cases "T d") auto
  then have a: "addrs (T d) = addrs l @ a # addrs r" by simp
  have d: "data_ok (with_count d D n0 m) (T d) (D\<lparr>node_count := n0\<rparr>)"
    using mem_ok_data [OF Suc.prems(1), of d "D\<lparr>node_count := n0\<rparr>"] by simp
  then have root: "rb_root D = Some a" by (simp add: data_ok_def rep_def tree_of_def Nd)
  obtain s m1 D1 t where u: "rb_erase (Some a) (tree_of m D) = Some s"
    "freeNode (Some a) (put_tree d D s m) = Some m1" "datas m1 d = Some D1" "addrs t = addrs l @ addrs r"
    "reference D1 = reference D" "node_count D1 = node_count D"
    and okn: "\<And>n. n = of_nat (length (addrs l @ addrs r)) \<Longrightarrow> mem_ok (with_count d D1 n m1) (T(d := t))"
    and rest: "\<And>e. e \<noteq> d \<Longrightarrow> datas m1 e = datas m e" and pm: "pairs m1 = (pairs m)(a := None)"
    by (rule unlink_free_ok [OF Suc.prems(1) a]) (rule that)
  have "n = length (addrs ((T(d := t)) d))" using Suc.hyps(2) a u(4) by simp
  from Suc.hyps(1) [OF this okn u(3)] obtain m' D' where
    IH: "data_clear_loop d m1 = Some m'" "datas m' = (datas m1)(d \<mapsto> D')" "reference D' = reference D1"
      "mem_ok (with_count d D' 0 m') ((T(d := t))(d := Lf))"
      "\<forall>e. e \<noteq> d \<longrightarrow> content m' ((T(d := t)) e) = content m1 ((T(d := t)) e)"
    by auto
  have "content m1 (T e) = content m (T e)" if "e \<noteq> d" for e
    using mem_ok_apart [OF Suc.prems(1) that] a pm by (intro content_cong) auto
  moreover have "datas m' = (datas m)(d \<mapsto> D')" using IH(2) rest by auto
  moreover have "data_clear_loop d m = Some m'"
    using IH(1) root u(1,2) Suc.prems(2) by (subst data_clear_loop.simps) simp
  ultimately show ?case using IH u(5) by auto
qed

lemma data_clear_ok:
  assumes "mem_ok m T" "datas m d = Some D"
  obtains m' D' where "data_clear d m = Some m'" "mem_ok m' (T(d := Lf))" "datas m' = (datas m)(d \<mapsto> D')"
    and "reference D' = reference D" and "\<And>e. e \<noteq> d \<Longrightarrow> content m' (T e) = content m (T e)"
proof -
  have "with_count d D (node_count D) m = m" using assms(2) by (simp add: with_count_def fun_upd_idem)
  then have "mem_ok (with_count d D (node_count D) m) T" using assms(1) by simp
  from data_clear_loop_ok [OF this assms(2)] obtain m' D' where
    1: "data_clear_loop d m = Some m'" "datas m' = (datas m)(d \<mapsto> D')" "reference D' = reference D"
      "mem_ok (with_count d D' 0 m') (T(d := Lf))" "\<forall>e. e \<noteq> d \<longrightarrow> content m' (T e) = content m (T e)"
    by auto
  show thesis
  proof (rule that [OF _ 1(4), of "D'\<lparr>node_count := 0\<rparr>"])
    show "data_clear d m = Some (with_count d D' 0 m')" using 1 by (simp add: data_clear_def with_count_def)
    show "content (with_count d D' 0 m') (T e) = content m (T e)" if "e \<noteq> d" for e
      using 1(5) that by (simp add: content_def)
  qed (use 1 in auto)
qed

end
