(* ===== verification/Map_Cow.thy ===== *)
theory Map_Cow
  imports Map_Data
begin

text \<open>
  The class template Map of utils/include/utils/map.h: objects that share a data block and copy it
  before they change it. An object is the value of its member \<open>mRBtree\<close>, a pointer to a data block;
  an operation returns its result, the new value of \<open>mRBtree\<close> and the memory. The result is an
  exception or a value, and \<^term>\<open>None\<close> is a crash.
\<close>

type_synonym ('r, 'k, 'v) map_result = "((map_error + 'r) \<times> ptr \<times> ('k, 'v) map_mem) option"

section \<open>Reference counts\<close>

definition set_reference :: "addr \<Rightarrow> 32 word \<Rightarrow> ('k, 'v) map_mem \<Rightarrow> ('k, 'v) map_mem option" where
  "set_reference d n m = do {
     D \<leftarrow> datas m d;
     Some (m\<lparr>datas := (datas m)(d \<mapsto> D\<lparr>reference := n\<rparr>)\<rparr>) }"

definition ref_ref :: "addr \<Rightarrow> ('k, 'v) map_mem \<Rightarrow> ('k, 'v) map_mem option" where
  "ref_ref d m = do { D \<leftarrow> datas m d; set_reference d (reference D + 1) m }"

definition ref_deref :: "addr \<Rightarrow> ('k, 'v) map_mem \<Rightarrow> ('k, 'v) map_mem option" where
  "ref_deref d m = do {
     D \<leftarrow> datas m d;
     if reference D = 0 then Some m else set_reference d (reference D - 1) m }"

definition ref_load :: "addr \<Rightarrow> ('k, 'v) map_mem \<Rightarrow> 32 word option" where
  "ref_load d m = map_option reference (datas m d)"

section \<open>Construction, copying, destruction\<close>

definition map_create :: "('k, 'v) allocator \<Rightarrow> ('k, 'v) map_mem \<Rightarrow> (unit, 'k, 'v) map_result" where
  "map_create malloc m = (case CreateData malloc m of
       (Inl e, m) \<Rightarrow> Some (Inl e, None, m)
     | (Inr d, m) \<Rightarrow> Some (Inr (), Some d, m))"

text \<open>The constructor from an initializer list.\<close>

fun map_fill :: "('k::linorder, 'v) allocator \<Rightarrow> addr \<Rightarrow> ('k \<times> 'v) list \<Rightarrow> ('k, 'v) map_mem \<Rightarrow>
    ((map_error + unit) \<times> ('k, 'v) map_mem) option" where
  "map_fill malloc d [] m = Some (Inr (), m)"
| "map_fill malloc d ((k, v) # kvs) m = do {
     (r, m) \<leftarrow> data_insert malloc d k v m;
     case r of Inl e \<Rightarrow> Some (Inl e, m) | Inr _ \<Rightarrow> map_fill malloc d kvs m }"

definition map_create_list ::
    "('k::linorder, 'v) allocator \<Rightarrow> ('k \<times> 'v) list \<Rightarrow> ('k, 'v) map_mem \<Rightarrow> (unit, 'k, 'v) map_result" where
  "map_create_list malloc kvs m = (case CreateData malloc m of
       (Inl e, m) \<Rightarrow> Some (Inl e, None, m)
     | (Inr d, m) \<Rightarrow> do {
         (r, m) \<leftarrow> map_fill malloc d kvs m;
         Some (r, Some d, m) })"

definition map_copy :: "ptr \<Rightarrow> ('k, 'v) map_mem \<Rightarrow> (unit, 'k, 'v) map_result" where
  "map_copy other m = do {
     d \<leftarrow> other;
     m \<leftarrow> ref_ref d m;
     Some (Inr (), other, m) }"

text \<open>The move constructor returns the new value of the other object as its result.\<close>

definition map_move :: "('k, 'v) allocator \<Rightarrow> ptr \<Rightarrow> ('k, 'v) map_mem \<Rightarrow> (ptr, 'k, 'v) map_result" where
  "map_move malloc other m = (case CreateData malloc m of
       (Inl e, m) \<Rightarrow> Some (Inl e, other, m)
     | (Inr d, m) \<Rightarrow> Some (Inr (Some d), other, m))"

definition map_destroy :: "ptr \<Rightarrow> ('k, 'v) map_mem \<Rightarrow> (unit, 'k, 'v) map_result" where
  "map_destroy mRBtree m = (case mRBtree of
       None \<Rightarrow> Some (Inr (), None, m)
     | Some d \<Rightarrow> do {
         r \<leftarrow> ref_load d m;
         m \<leftarrow> (if r > 0 then ref_deref d m
              else do { m \<leftarrow> data_clear d m; FreeData d m });
         Some (Inr (), None, m) })"

definition map_assign :: "bool \<Rightarrow> ptr \<Rightarrow> ptr \<Rightarrow> ('k, 'v) map_mem \<Rightarrow> (unit, 'k, 'v) map_result" where
  "map_assign same mRBtree other m = (if same then Some (Inr (), mRBtree, m) else do {
     (_, _, m) \<leftarrow> map_destroy mRBtree m;
     d \<leftarrow> other;
     m \<leftarrow> ref_ref d m;
     Some (Inr (), other, m) })"

section \<open>Detaching\<close>

partial_function (option) detach_loop ::
    "('k::linorder, 'v) allocator \<Rightarrow> addr \<Rightarrow> addr \<Rightarrow> ptr \<Rightarrow> ('k, 'v) map_mem \<Rightarrow>
      ((map_error + unit) \<times> ('k, 'v) map_mem) option" where
  "detach_loop malloc d data it m = do {
     end \<leftarrow> data_end d m;
     if it = end then Some (Inr (), m) else do {
       a \<leftarrow> it;
       (k, v) \<leftarrow> pairs m a;
       (r, m) \<leftarrow> data_insert malloc data k v m;
       case r of Inl e \<Rightarrow> Some (Inl e, m)
       | Inr _ \<Rightarrow> do {
           it \<leftarrow> data_nextNode d it m;
           detach_loop malloc d data it m } } }"

definition detach_helper :: "('k::linorder, 'v) allocator \<Rightarrow> addr \<Rightarrow> ('k, 'v) map_mem \<Rightarrow> (unit, 'k, 'v) map_result" where
  "detach_helper malloc d m = (case CreateData malloc m of
       (Inl e, m) \<Rightarrow> Some (Inl e, Some d, m)
     | (Inr data, m) \<Rightarrow> do {
         m \<leftarrow> ref_deref d m;
         it \<leftarrow> data_begin d m;
         (r, m) \<leftarrow> detach_loop malloc d data it m;
         case r of Inl e \<Rightarrow> Some (Inl e, Some d, m) | Inr _ \<Rightarrow> Some (Inr (), Some data, m) })"

definition map_detach :: "('k::linorder, 'v) allocator \<Rightarrow> ptr \<Rightarrow> ('k, 'v) map_mem \<Rightarrow> (unit, 'k, 'v) map_result" where
  "map_detach malloc mRBtree m = (case mRBtree of
       None \<Rightarrow> map_create malloc m
     | Some d \<Rightarrow> do {
         r \<leftarrow> ref_load d m;
         if r > 0 then detach_helper malloc d m else Some (Inr (), mRBtree, m) })"

text \<open>Run \<open>f\<close> on the data block after detaching; an exception of \<open>detach\<close> leaves the function.\<close>

definition detached ::
    "('k::linorder, 'v) allocator \<Rightarrow> ptr \<Rightarrow> ('k, 'v) map_mem \<Rightarrow>
      (addr \<Rightarrow> ('k, 'v) map_mem \<Rightarrow> ((map_error + 'r) \<times> ('k, 'v) map_mem) option) \<Rightarrow> ('r, 'k, 'v) map_result" where
  "detached malloc mRBtree m f = do {
     (r, p, m) \<leftarrow> map_detach malloc mRBtree m;
     case r of Inl e \<Rightarrow> Some (Inl e, p, m)
     | Inr _ \<Rightarrow> do {
         d \<leftarrow> p;
         (r, m) \<leftarrow> f d m;
         Some (r, p, m) } }"

section \<open>Operations\<close>

definition map_begin :: "('k::linorder, 'v) allocator \<Rightarrow> ptr \<Rightarrow> ('k, 'v) map_mem \<Rightarrow> (ptr, 'k, 'v) map_result" where
  "map_begin malloc mRBtree m =
     detached malloc mRBtree m (\<lambda>d m. do { p \<leftarrow> data_begin d m; Some (Inr p, m) })"

definition map_end :: "('k::linorder, 'v) allocator \<Rightarrow> ptr \<Rightarrow> ('k, 'v) map_mem \<Rightarrow> (ptr, 'k, 'v) map_result" where
  "map_end malloc mRBtree m =
     detached malloc mRBtree m (\<lambda>d m. do { p \<leftarrow> data_end d m; Some (Inr p, m) })"

definition map_insert ::
    "('k::linorder, 'v) allocator \<Rightarrow> ptr \<Rightarrow> 'k \<Rightarrow> 'v \<Rightarrow> ('k, 'v) map_mem \<Rightarrow> (ptr, 'k, 'v) map_result" where
  "map_insert malloc mRBtree k v m = detached malloc mRBtree m (\<lambda>d m. data_insert malloc d k v m)"

definition map_erase ::
    "('k::linorder, 'v) allocator \<Rightarrow> ptr \<Rightarrow> 'k \<Rightarrow> ('k, 'v) map_mem \<Rightarrow> (ptr, 'k, 'v) map_result" where
  "map_erase malloc mRBtree k m = detached malloc mRBtree m (\<lambda>d m. data_erase d k m)"

definition map_erase_it ::
    "('k::linorder, 'v) allocator \<Rightarrow> ptr \<Rightarrow> ptr \<Rightarrow> ('k, 'v) map_mem \<Rightarrow> (ptr, 'k, 'v) map_result" where
  "map_erase_it malloc mRBtree it m =
     detached malloc mRBtree m (\<lambda>d m. data_erase_node d it False m)"

definition map_find ::
    "('k::linorder, 'v) allocator \<Rightarrow> ptr \<Rightarrow> 'k \<Rightarrow> ('k, 'v) map_mem \<Rightarrow> (ptr, 'k, 'v) map_result" where
  "map_find malloc mRBtree k m =
     detached malloc mRBtree m (\<lambda>d m. do { p \<leftarrow> data_find d k m; Some (Inr p, m) })"

definition map_find_const :: "ptr \<Rightarrow> 'k::linorder \<Rightarrow> ('k, 'v) map_mem \<Rightarrow> ptr option" where
  "map_find_const mRBtree k m = do { d \<leftarrow> mRBtree; data_find d k m }"

definition map_value :: "ptr \<Rightarrow> 'k::linorder \<Rightarrow> 'v \<Rightarrow> ('k, 'v) map_mem \<Rightarrow> 'v option" where
  "map_value mRBtree k defaultValue m = do {
     d \<leftarrow> mRBtree;
     n \<leftarrow> data_find d k m;
     if n \<noteq> None then do { a \<leftarrow> n; kv \<leftarrow> pairs m a; Some (snd kv) } else Some defaultValue }"

text \<open>\<open>operator[]\<close> returns a reference to the value of a node; \<open>dflt\<close> is the value of \<open>Val()\<close>.\<close>

definition map_index ::
    "('k::linorder, 'v) allocator \<Rightarrow> 'v \<Rightarrow> ptr \<Rightarrow> 'k \<Rightarrow> ('k, 'v) map_mem \<Rightarrow> (ptr, 'k, 'v) map_result" where
  "map_index malloc dflt mRBtree key m = detached malloc mRBtree m (\<lambda>d m. do {
     n \<leftarrow> data_find d key m;
     if n \<noteq> None then Some (Inr n, m) else do {
       (r, m) \<leftarrow> data_insert malloc d key dflt m;
       case r of Inl e \<Rightarrow> Some (Inl e, m)
       | Inr n \<Rightarrow> Some (if n = None then Inl Insert_Error else Inr n, m) } })"

text \<open>Assigning through that reference.\<close>

definition write_value :: "ptr \<Rightarrow> 'v \<Rightarrow> ('k, 'v) map_mem \<Rightarrow> ('k, 'v) map_mem option" where
  "write_value p v m = do {
     a \<leftarrow> p;
     kv \<leftarrow> pairs m a;
     Some (m\<lparr>pairs := (pairs m)(a \<mapsto> (fst kv, v))\<rparr>) }"

definition map_clear :: "('k, 'v) allocator \<Rightarrow> ptr \<Rightarrow> ('k, 'v) map_mem \<Rightarrow> (unit, 'k, 'v) map_result" where
  "map_clear malloc mRBtree m = (case mRBtree of
       None \<Rightarrow> map_create malloc m
     | Some d \<Rightarrow> do {
         r \<leftarrow> ref_load d m;
         if r > 0 then do {
           m \<leftarrow> ref_deref d m;
           case CreateData malloc m of
             (Inl e, m) \<Rightarrow> Some (Inl e, mRBtree, m)
           | (Inr d, m) \<Rightarrow> Some (Inr (), Some d, m) }
         else do { m \<leftarrow> data_clear d m; Some (Inr (), mRBtree, m) } })"

definition map_size :: "ptr \<Rightarrow> ('k, 'v) map_mem \<Rightarrow> 64 word option" where
  "map_size mRBtree m = do { d \<leftarrow> mRBtree; D \<leftarrow> datas m d; Some (node_count D) }"

end
