(* ===== verification/Map_View.thy ===== *)
theory Map_View
  imports Map_Rep Map_Cow
begin

text \<open>
  The operations of \<open>MapData\<close> and the helpers of Map over the view \<open>V\<close> of the memory: for each data
  block the sorted list of its keys and values, and its reference count. An operation changes the
  view of the block it is called on and of no other.
\<close>

section \<open>Building a view\<close>

lemma mem_repE:
  assumes "mem_rep m V" "V d = Some (xs, r)"
  obtains T D where "mem_ok m T" "datas m d = Some D" "xs = content m (T d)" "r = reference D"
    and "V = (\<lambda>d. map_option (\<lambda>D. (content m (T d), reference D)) (datas m d))"
  using assms by (auto simp: mem_rep_def)

lemma view_change:
  assumes "V = (\<lambda>d. map_option (\<lambda>D. (content m (T d), reference D)) (datas m d))"
    and "mem_ok m' (T(d := t))" "datas m' = (datas m)(d \<mapsto> D')"
    and "\<And>e. e \<noteq> d \<Longrightarrow> content m' (T e) = content m (T e)"
  shows "mem_rep m' (V(d \<mapsto> (content m' t, reference D')))"
  unfolding mem_rep_def
proof (intro exI conjI)
  show "mem_ok m' (T(d := t))" by fact
  show "V(d \<mapsto> (content m' t, reference D')) =
      (\<lambda>e. map_option (\<lambda>D. (content m' ((T(d := t)) e), reference D)) (datas m' e))"
  proof
    fix e
    show "(V(d \<mapsto> (content m' t, reference D'))) e =
        map_option (\<lambda>D. (content m' ((T(d := t)) e), reference D)) (datas m' e)"
      using assms(3,4) by (cases "e = d"; cases "datas m e") (simp_all add: assms(1))
  qed
qed

lemma view_sorted:
  assumes "mem_rep m V" "V d = Some (xs, r)"
  shows "sorted_wrt (\<lambda>p q. fst p < fst q) xs"
proof -
  obtain T D where "mem_ok m T" "datas m d = Some D" "xs = content m (T d)"
    by (rule mem_repE [OF assms])
  then show ?thesis using mem_ok_data [of m T d D] by (simp add: content_key_sorted data_ok_def)
qed

lemma sorted_fst_distinct: "sorted_wrt (\<lambda>p q. fst p < fst q) xs \<Longrightarrow> distinct (map fst xs)"
  for xs :: "('k::linorder \<times> 'v) list"
  using strict_sorted_iff [of "map fst xs"] by (simp add: sorted_wrt_map)

lemma find_key: "key_sorted key xs \<Longrightarrow> a \<in> set xs \<Longrightarrow> key a = k \<Longrightarrow> find (\<lambda>a. key a = k) xs = Some a"
proof (induction xs)
  case (Cons b xs)
  show ?case
  proof (cases "b = a")
    case False
    then have "a \<in> set xs" using Cons.prems by simp
    then have "key b < key a" using Cons.prems by auto
    then show ?thesis using Cons False by simp
  qed (use Cons in simp)
qed simp

section \<open>Data blocks\<close>

lemma create_view:
  assumes "mem_rep m V" "malloc m = Some d" "fresh_alloc malloc"
  obtains m' where "CreateData malloc m = (Inr d, m')" "mem_rep m' (V(d \<mapsto> ([], 0)))" "V d = None"
proof -
  obtain T where ok: "mem_ok m T" and V: "V = (\<lambda>d. map_option (\<lambda>D. (content m (T d), reference D)) (datas m d))"
    using assms(1) by (auto simp: mem_rep_def)
  have d: "datas m d = None" using assms(2,3) by (auto simp: fresh_alloc_def)
  then have Lf: "T d = Lf" using ok by (simp add: mem_ok_def)
  let ?D = "\<lparr>reference = 0, rb_root = None, nullNode = None, node_count = 0\<rparr>"
  let ?m' = "m\<lparr>datas := (datas m)(d \<mapsto> ?D)\<rparr>"
  have "data_ok ?m' (T e) E" if "datas ?m' e = Some E" for e E
  proof (cases "e = d")
    case True
    then show ?thesis using that by (auto simp: Lf data_ok_def rep_def tree_of_def rb_tree_def)
  next
    case False
    then show ?thesis using that mem_ok_data [OF ok, of e E] by (auto intro: data_ok_cong)
  qed
  then have ok': "mem_ok ?m' (T(d := Lf))" using ok Lf unfolding mem_ok_def by (auto simp: fun_upd_idem)
  have "mem_rep ?m' (V(d \<mapsto> (content ?m' Lf, reference ?D)))"
    by (rule view_change [OF V ok']) (simp_all add: content_def)
  then show thesis using that [of ?m'] V d by (simp add: CreateData_def assms(2) content_def)
qed

lemma ref_load_view: "mem_rep m V \<Longrightarrow> V d = Some (xs, r) \<Longrightarrow> ref_load d m = Some r"
  by (erule mem_repE) (auto simp: ref_load_def)

lemma set_reference_view:
  assumes "mem_rep m V" "V d = Some (xs, r)"
  obtains m' where "set_reference d n m = Some m'" "mem_rep m' (V(d \<mapsto> (xs, n)))"
proof -
  obtain T D where ok: "mem_ok m T" and D: "datas m d = Some D" and xs: "xs = content m (T d)"
    and V: "V = (\<lambda>d. map_option (\<lambda>D. (content m (T d), reference D)) (datas m d))"
    by (rule mem_repE [OF assms])
  let ?m' = "m\<lparr>datas := (datas m)(d \<mapsto> D\<lparr>reference := n\<rparr>)\<rparr>"
  have d: "data_ok ?m' (T d) (D\<lparr>reference := n\<rparr>)"
    using mem_ok_data [OF ok D] by (auto simp: data_ok_def tree_of_def)
  have "mem_ok ?m' (T(d := T d))"
    by (rule mem_ok_change(1) [OF ok D _ d]) (use mem_ok_apart [OF ok] mem_ok_live [OF ok] in auto)
  then have "mem_rep ?m' (V(d \<mapsto> (content ?m' (T d), n)))"
    using view_change [OF V, of ?m' d "T d" "D\<lparr>reference := n\<rparr>"] by (simp add: content_def)
  then show thesis using that [of ?m'] D xs by (simp add: set_reference_def content_def)
qed

lemma ref_ref_view:
  assumes "mem_rep m V" "V d = Some (xs, r)"
  obtains m' where "ref_ref d m = Some m'" "mem_rep m' (V(d \<mapsto> (xs, r + 1)))"
proof (rule set_reference_view [OF assms, of "r + 1"])
  fix m' assume "set_reference d (r + 1) m = Some m'" "mem_rep m' (V(d \<mapsto> (xs, r + 1)))"
  moreover obtain D where "datas m d = Some D" "reference D = r" using mem_repE [OF assms] by metis
  ultimately show thesis using that by (simp add: ref_ref_def)
qed

lemma ref_deref_view:
  assumes "mem_rep m V" "V d = Some (xs, r)" "r \<noteq> 0"
  obtains m' where "ref_deref d m = Some m'" "mem_rep m' (V(d \<mapsto> (xs, r - 1)))"
proof (rule set_reference_view [OF assms(1,2), of "r - 1"])
  fix m' assume "set_reference d (r - 1) m = Some m'" "mem_rep m' (V(d \<mapsto> (xs, r - 1)))"
  moreover obtain D where "datas m d = Some D" "reference D = r" using mem_repE [OF assms(1,2)] by metis
  ultimately show thesis using that assms(3) by (simp add: ref_deref_def)
qed

lemma clear_view:
  assumes "mem_rep m V" "V d = Some (xs, r)"
  obtains m' where "data_clear d m = Some m'" "mem_rep m' (V(d \<mapsto> ([], r)))"
proof -
  obtain T D where ok: "mem_ok m T" and D: "datas m d = Some D" and r: "r = reference D"
    and V: "V = (\<lambda>d. map_option (\<lambda>D. (content m (T d), reference D)) (datas m d))"
    by (rule mem_repE [OF assms])
  obtain m' D' where c: "data_clear d m = Some m'" "mem_ok m' (T(d := Lf))" "datas m' = (datas m)(d \<mapsto> D')"
    "reference D' = reference D" "\<And>e. e \<noteq> d \<Longrightarrow> content m' (T e) = content m (T e)"
    by (rule data_clear_ok [OF ok D]) (rule that)
  have "mem_rep m' (V(d \<mapsto> (content m' Lf, reference D')))" by (rule view_change [OF V c(2,3,5)])
  then show thesis using that [OF c(1)] c(4) r by (simp add: content_def)
qed

lemma free_view:
  assumes "mem_rep m V" "V d = Some ([], r)"
  obtains m' where "FreeData d m = Some m'" "mem_rep m' (V(d := None))"
proof -
  obtain T D where ok: "mem_ok m T" and D: "datas m d = Some D" and xs: "[] = content m (T d)"
    and V: "V = (\<lambda>d. map_option (\<lambda>D. (content m (T d), reference D)) (datas m d))"
    by (rule mem_repE [OF assms])
  let ?m' = "m\<lparr>datas := (datas m)(d := None)\<rparr>"
  have Lf: "T d = Lf" using xs by (simp add: content_def)
  have "data_ok ?m' (T e) E" if "datas ?m' e = Some E" for e E
    using that mem_ok_data [OF ok, of e E] by (auto intro: data_ok_cong split: if_splits)
  then have "mem_ok ?m' T" using ok Lf unfolding mem_ok_def by auto
  then have "mem_rep ?m' (V(d := None))"
    unfolding mem_rep_def V by (intro exI conjI) (auto simp: content_def)
  then show thesis using that D by (simp add: FreeData_def)
qed

section \<open>Keys and values\<close>

lemma find_view:
  assumes "mem_rep m V" "V d = Some (xs, r)"
  obtains p where "data_find d k m = Some p" "map_of xs k = map_option snd (Option.bind p (pairs m))"
    and "p = None \<longleftrightarrow> k \<notin> fst ` set xs" "\<And>a. p = Some a \<Longrightarrow> key_of (pairs m) a = k"
proof -
  obtain T D where ok: "mem_ok m T" and D: "datas m d = Some D" and xs: "xs = content m (T d)"
    by (rule mem_repE [OF assms])
  let ?as = "addrs (T d)" let ?p = "find (\<lambda>a. key_of (pairs m) a = k) ?as"
  have dist: "distinct (map fst xs)" by (rule sorted_fst_distinct [OF view_sorted [OF assms]])
  have none: "?p = None \<longleftrightarrow> k \<notin> fst ` set xs" by (auto simp: find_None_iff xs fst_content)
  have val: "map_of xs k = map_option snd (Option.bind ?p (pairs m))"
  proof (cases ?p)
    case None
    then show ?thesis using none by (simp add: map_of_eq_None_iff)
  next
    case (Some a)
    then have a: "a \<in> set ?as" "key_of (pairs m) a = k" by (auto simp: find_Some_iff)
    then obtain kv where kv: "pairs m a = Some kv" using mem_ok_live [OF ok a(1)] by auto
    then have "kv \<in> set xs" "fst kv = k" using a by (force simp: xs content_def, simp add: key_of_def)
    then have "map_of xs k = Some (snd kv)" using dist by (metis map_of_is_SomeI prod.collapse)
    then show ?thesis using Some kv by simp
  qed
  show thesis
    by (rule that [OF data_find_ok [OF ok D] val none]) (auto simp: find_Some_iff)
qed

definition list_insert :: "'k::linorder \<Rightarrow> 'v \<Rightarrow> ('k \<times> 'v) list \<Rightarrow> ('k \<times> 'v) list" where
  "list_insert k v xs = (if k \<in> fst ` set xs then xs else insort_key fst (k, v) xs)"

definition list_erase :: "'k \<Rightarrow> ('k \<times> 'v) list \<Rightarrow> ('k \<times> 'v) list" where
  "list_erase k xs = filter (\<lambda>p. fst p \<noteq> k) xs"

definition list_write :: "'k \<Rightarrow> 'v \<Rightarrow> ('k \<times> 'v) list \<Rightarrow> ('k \<times> 'v) list" where
  "list_write k v xs = map (\<lambda>p. if fst p = k then (k, v) else p) xs"

lemma map_of_insort: "k \<notin> fst ` set xs \<Longrightarrow> map_of (insort_key fst (k, v) xs) = (map_of xs)(k \<mapsto> v)"
  by (induction xs) (auto simp: fun_upd_twist)

lemma map_of_list_insert:
  "map_of (list_insert k v xs) = (if k \<in> dom (map_of xs) then map_of xs else (map_of xs)(k \<mapsto> v))"
  by (simp add: list_insert_def map_of_insort dom_map_of_conv_image_fst)

lemma map_of_list_erase: "map_of (list_erase k xs) = (map_of xs)(k := None)"
  by (induction xs) (auto simp: list_erase_def)

lemma map_of_list_write: "k \<in> fst ` set xs \<Longrightarrow> map_of (list_write k v xs) = (map_of xs)(k \<mapsto> v)"
proof (induction xs)
  case (Cons p xs)
  show ?case
  proof (cases "k \<in> fst ` set xs")
    case False
    then have "\<forall>p\<in>set xs. fst p \<noteq> k" by auto
    then have "list_write k v xs = xs" by (simp add: list_write_def map_idI)
    then show ?thesis using Cons.prems False by (auto simp: list_write_def)
  qed (use Cons.IH in \<open>auto simp: list_write_def fun_upd_twist\<close>)
qed simp

text \<open>Insertion may fail to allocate; then nothing has changed.\<close>

lemma insert_view:
  assumes "mem_rep m V" "V d = Some (xs, r)" "fresh_alloc malloc"
  shows "\<exists>res m'. data_insert malloc d k v m = Some (res, m') \<and>
    (case res of Inl e \<Rightarrow> e = Bad_Alloc \<and> m' = m
     | Inr p \<Rightarrow> mem_rep m' (V(d \<mapsto> (list_insert k v xs, r))) \<and>
         (if k \<in> fst ` set xs then p = None \<and> m' = m
          else p \<noteq> None \<and> data_find d k m' = Some p))"
proof (cases "malloc m")
  case None
  then show ?thesis by (simp add: data_insert_def createNode_def)
next
  case (Some n)
  obtain T D where ok: "mem_ok m T" and D: "datas m d = Some D" and xs: "xs = content m (T d)"
    and r: "r = reference D"
    and V: "V = (\<lambda>d. map_option (\<lambda>D. (content m (T d), reference D)) (datas m d))"
    by (rule mem_repE [OF assms(1,2)])
  note ins = data_insert_ok [OF ok D Some assms(3), of k v]
  show ?thesis
  proof (cases "k \<in> fst ` set xs")
    case True
    then have "data_insert malloc d k v m = Some (Inr None, m)" using ins xs by simp
    moreover have "V(d \<mapsto> (xs, r)) = V" using assms(2) by auto
    ultimately show ?thesis using True assms(1) by (simp add: list_insert_def)
  next
    case False
    then obtain m' t' D' where i: "data_insert malloc d k v m = Some (Inr (Some n), m')" "mem_ok m' (T(d := t'))"
      "datas m' = (datas m)(d \<mapsto> D')" "reference D' = reference D" "n \<in> set (addrs t')"
      "content m' t' = insort_key fst (k, v) (content m (T d))" "pairs m' = (pairs m)(n \<mapsto> (k, v))"
      "\<And>e. e \<noteq> d \<Longrightarrow> content m' (T e) = content m (T e)"
      using ins xs by auto
    have rep: "mem_rep m' (V(d \<mapsto> (list_insert k v xs, r)))"
      using view_change [OF V i(2,3,8)] i(4,6) r xs False by (simp add: list_insert_def)
    have D2: "datas m' d = Some D'" using i(3) by simp
    have "key_sorted (key_of (pairs m')) (addrs t')"
      using mem_ok_data [OF i(2) D2] by (simp add: data_ok_def)
    moreover have "key_of (pairs m') n = k" by (simp add: key_of_def i(7))
    ultimately have "data_find d k m' = Some (Some n)"
      using data_find_ok [OF i(2) D2, of k] find_key [OF _ i(5)] by simp
    then show ?thesis using i(1) rep False by simp
  qed
qed

lemma erase_view:
  assumes "mem_rep m V" "V d = Some (xs, r)"
  shows "\<exists>p m'. data_erase d k m = Some (Inr p, m') \<and> mem_rep m' (V(d \<mapsto> (list_erase k xs, r))) \<and>
    (if k \<in> fst ` set xs then Option.bind p (pairs m') = find (\<lambda>q. k < fst q) xs else p = None \<and> m' = m)"
proof -
  obtain T D where ok: "mem_ok m T" and D: "datas m d = Some D" and xs: "xs = content m (T d)"
    and r: "r = reference D"
    and V: "V = (\<lambda>d. map_option (\<lambda>D. (content m (T d), reference D)) (datas m d))"
    by (rule mem_repE [OF assms])
  let ?key = "key_of (pairs m)" let ?p = "find (\<lambda>a. ?key a = k) (addrs (T d))"
  have find: "data_find d k m = Some ?p" by (rule data_find_ok [OF ok D])
  show ?thesis
  proof (cases "?p")
    case None
    then have k: "k \<notin> fst ` set xs" by (auto simp: find_None_iff xs fst_content)
    then have "list_erase k xs = xs" by (auto simp: list_erase_def intro!: filter_True)
    moreover have "V(d \<mapsto> (xs, r)) = V" using assms(2) by auto
    ultimately show ?thesis using assms(1) find None k by (simp add: data_erase_def)
  next
    case (Some a)
    then have a: "a \<in> set (addrs (T d))" "?key a = k" by (auto simp: find_Some_iff)
    then obtain as bs where split: "addrs (T d) = as @ a # bs" by (auto dest: split_list)
    obtain m' t D' where e: "data_erase_node d (Some a) False m = Some (Inr (hd_ptr bs), m')"
      "mem_ok m' (T(d := t))" "addrs t = as @ bs" "datas m' = (datas m)(d \<mapsto> D')"
      "reference D' = reference D" "pairs m' = (pairs m)(a := None)"
      by (rule data_erase_node_ok [OF ok D split]) (rule that)
    note cont = content_erase [OF ok D split e(3,6)]
    have rep: "mem_rep m' (V(d \<mapsto> (list_erase k xs, r)))"
      using view_change [OF V e(2,4) cont(2)] cont(1) e(5) r xs a(2) by (simp add: list_erase_def)
    have ks: "key_sorted ?key (as @ a # bs)" and dist: "distinct (as @ a # bs)"
      using mem_ok_data [OF ok D] split by (auto simp: data_ok_def rep_def)
    have mem: "k \<in> fst ` set xs" using a by (auto simp: xs fst_content)
    have live: "b \<in> set bs \<Longrightarrow> pairs m b \<noteq> None" for b using mem_ok_live [OF ok, of b d] split by auto
    have "find (\<lambda>q. k < fst q) (map (\<lambda>b. the (pairs m b)) as) = None"
      using ks a(2) by (auto simp: find_None_iff key_of_def)
    then have "find (\<lambda>q. k < fst q) xs = find (\<lambda>q. k < fst q) (map (\<lambda>b. the (pairs m b)) bs)"
      using a(2) by (simp add: xs content_def split find_append) (simp add: key_of_def)
    also have "\<dots> = Option.bind (hd_ptr bs) (pairs m')"
    proof (cases bs)
      case (Cons b bs')
      have "k < fst (the (pairs m b))" using ks a(2) Cons by (simp add: key_of_def)
      moreover have "pairs m' b = Some (the (pairs m b))" using e(6) dist Cons live [of b] by auto
      ultimately show ?thesis using Cons by simp
    qed simp
    finally show ?thesis using e(1) rep mem find Some by (simp add: data_erase_def)
  qed
qed

lemma write_view:
  assumes "mem_rep m V" "V d = Some (xs, r)" "data_find d k m = Some (Some a)"
  obtains m' where "write_value (Some a) v m = Some m'" "mem_rep m' (V(d \<mapsto> (list_write k v xs, r)))"
proof -
  obtain T D where ok: "mem_ok m T" and D: "datas m d = Some D" and xs: "xs = content m (T d)"
    and r: "r = reference D"
    and V: "V = (\<lambda>d. map_option (\<lambda>D. (content m (T d), reference D)) (datas m d))"
    by (rule mem_repE [OF assms(1,2)])
  have "find (\<lambda>a. key_of (pairs m) a = k) (addrs (T d)) = Some a"
    using data_find_ok [OF ok D, of k] assms(3) by simp
  then have a: "a \<in> set (addrs (T d))" "key_of (pairs m) a = k" by (auto simp: find_Some_iff)
  then obtain v0 where v0: "pairs m a = Some (k, v0)"
    using mem_ok_live [OF ok a(1)] by (auto simp: key_of_def)
  let ?m' = "m\<lparr>pairs := (pairs m)(a \<mapsto> (k, v))\<rparr>"
  have key: "key_of (pairs ?m') = key_of (pairs m)" using v0 by (auto simp: key_of_def)
  have D': "datas ?m' = (datas m)(d \<mapsto> D)" using D by auto
  have d: "data_ok ?m' (T d) D"
    using mem_ok_data [OF ok D] key by (simp add: data_ok_def tree_of_def)
  have ok': "mem_ok ?m' (T(d := T d))" and cont: "\<And>e. e \<noteq> d \<Longrightarrow> content ?m' (T e) = content m (T e)"
    by (rule mem_ok_change [OF ok D D' d];
        use mem_ok_apart [OF ok] mem_ok_live [OF ok, of _ d] a(1) in auto)+
  have "content ?m' (T d) = list_write k v xs"
  proof -
    have inj: "b \<in> set (addrs (T d)) \<Longrightarrow> key_of (pairs m) b = k \<Longrightarrow> b = a" for b
      using key_sorted_inj [of "key_of (pairs m)" "addrs (T d)"] mem_ok_data [OF ok D] a
      by (auto simp: data_ok_def dest: inj_onD)
    show ?thesis
      by (auto simp: content_def xs list_write_def v0 dest: inj [unfolded key_of_def])
  qed
  then have "mem_rep ?m' (V(d \<mapsto> (list_write k v xs, r)))"
    using view_change [OF V ok' D' cont] r by simp
  then show thesis using that v0 by (simp add: write_value_def)
qed

section \<open>Detaching\<close>

lemma insort_key_last:
  "\<forall>p\<in>set xs. fst p < fst kv \<Longrightarrow> insort_key fst kv xs = xs @ [kv]"
  for kv :: "'k::linorder \<times> 'v"
  by (induction xs) (auto simp: not_le)

lemma detach_loop_ok:
  assumes "fresh_alloc malloc" "d \<noteq> e"
  shows "mem_ok m T \<Longrightarrow> datas m d = Some D \<Longrightarrow> datas m e = Some E \<Longrightarrow> addrs (T d) = as @ bs \<Longrightarrow>
    content m (T e) = map (\<lambda>a. the (pairs m a)) as \<Longrightarrow>
    \<exists>res m'. detach_loop malloc d e (hd_ptr bs) m = Some (res, m') \<and> (res = Inr () \<longrightarrow>
      (\<exists>t' E'. mem_ok m' (T(e := t')) \<and> datas m' = (datas m)(e \<mapsto> E') \<and> reference E' = reference E \<and>
        content m' t' = content m (T d) \<and> (\<forall>c. c \<noteq> e \<longrightarrow> content m' (T c) = content m (T c))))"
proof (induction bs arbitrary: as m T E)
  case Nil
  have "(datas m)(e \<mapsto> E) = datas m" using Nil.prems(3) by auto
  moreover have "mem_ok m (T(e := T e))" "content m (T e) = content m (T d)"
    using Nil.prems by (simp_all add: content_def)
  ultimately show ?case
    using data_end_ok [OF Nil.prems(1,2)]
    by (subst detach_loop.simps) (auto intro!: exI [of _ "T e"] exI [of _ E])
next
  case (Cons b bs)
  have data: "key_sorted (key_of (pairs m)) (as @ b # bs)" "distinct (as @ b # bs)"
    using mem_ok_data [OF Cons.prems(1,2)] Cons.prems(4) by (auto simp: data_ok_def rep_def)
  obtain k v where b: "pairs m b = Some (k, v)"
    using mem_ok_live [OF Cons.prems(1), of b d] Cons.prems(4) by auto
  have less: "\<forall>p\<in>set (content m (T e)). fst p < k"
    using data(1) b by (auto simp: Cons.prems(5) key_of_def)
  then have notin: "k \<notin> fst ` set (content m (T e))" by auto
  have "end": "data_end d m = Some None" by (rule data_end_ok [OF Cons.prems(1,2)])
  show ?case
  proof (cases "malloc m")
    case None
    then have "data_insert malloc e k v m = Some (Inl Bad_Alloc, m)"
      by (simp add: data_insert_def createNode_def)
    then show ?thesis using "end" b by (subst detach_loop.simps) simp
  next
    case (Some n)
    obtain m1 t1 E1 where i: "data_insert malloc e k v m = Some (Inr (Some n), m1)" "mem_ok m1 (T(e := t1))"
      "datas m1 = (datas m)(e \<mapsto> E1)" "reference E1 = reference E"
      "content m1 t1 = insort_key fst (k, v) (content m (T e))" "pairs m1 = (pairs m)(n \<mapsto> (k, v))"
      "\<And>c. c \<noteq> e \<Longrightarrow> content m1 (T c) = content m (T c)"
      using data_insert_ok [OF Cons.prems(1,3) Some assms(1), of k v] notin by auto
    have n: "n \<notin> set (addrs (T d))"
      using mem_ok_free [OF Cons.prems(1), of n d] Some assms(1) by (auto simp: fresh_alloc_def)
    have "content m1 t1 = content m (T e) @ [(k, v)]"
      unfolding i(5) by (rule insort_key_last) (use less in simp)
    also have "\<dots> = map (\<lambda>a. the (pairs m1 a)) (as @ [b])"
      using n Cons.prems(4) b by (auto simp: Cons.prems(5) i(6))
    finally have c1: "content m1 ((T(e := t1)) e) = map (\<lambda>a. the (pairs m1 a)) (as @ [b])" by simp
    have D1: "datas m1 d = Some D" using i(3) assms(2) Cons.prems(2) by simp
    have split: "addrs ((T(e := t1)) d) = as @ b # bs" using assms(2) Cons.prems(4) by simp
    have split2: "addrs ((T(e := t1)) d) = (as @ [b]) @ bs" using split by simp
    have E1: "datas m1 e = Some E1" using i(3) by simp
    have nx: "data_nextNode d (Some b) m1 = Some (hd_ptr bs)"
      by (rule data_nextNode_ok [OF i(2) D1 split])
    obtain res m' where r: "detach_loop malloc d e (hd_ptr bs) m1 = Some (res, m')"
      "res = Inr () \<longrightarrow> (\<exists>t' E'. mem_ok m' ((T(e := t1))(e := t')) \<and> datas m' = (datas m1)(e \<mapsto> E') \<and>
        reference E' = reference E1 \<and> content m' t' = content m1 ((T(e := t1)) d) \<and>
        (\<forall>c. c \<noteq> e \<longrightarrow> content m' ((T(e := t1)) c) = content m1 ((T(e := t1)) c)))"
      using Cons.IH [OF i(2) D1 E1 split2 c1] by blast
    have "detach_loop malloc d e (hd_ptr (b # bs)) m = Some (res, m')"
      using "end" b i(1) nx r(1) by (subst detach_loop.simps) simp
    moreover have "\<exists>t' E'. mem_ok m' (T(e := t')) \<and> datas m' = (datas m)(e \<mapsto> E') \<and> reference E' = reference E \<and>
        content m' t' = content m (T d) \<and> (\<forall>c. c \<noteq> e \<longrightarrow> content m' (T c) = content m (T c))" if "res = Inr ()"
    proof -
      obtain t' E' where q: "mem_ok m' ((T(e := t1))(e := t'))" "datas m' = (datas m1)(e \<mapsto> E')"
        "reference E' = reference E1" "content m' t' = content m1 ((T(e := t1)) d)"
        "\<forall>c. c \<noteq> e \<longrightarrow> content m' ((T(e := t1)) c) = content m1 ((T(e := t1)) c)"
        using r(2) \<open>res = Inr ()\<close> by blast
      show ?thesis
        by (intro exI [of _ t'] exI [of _ E'] conjI) (use q i(3,4,7) assms(2) in simp_all)
    qed
    ultimately show ?thesis by blast
  qed
qed

lemma detach_view:
  assumes "mem_rep m V" "V d = Some (xs, r)" "fresh_alloc malloc"
  shows "\<exists>res p m'. map_detach malloc (Some d) m = Some (res, p, m') \<and> (res = Inr () \<longrightarrow>
    (if r = 0 then p = Some d \<and> m' = m
     else \<exists>e. p = Some e \<and> V e = None \<and> mem_rep m' (V(d \<mapsto> (xs, r - 1), e \<mapsto> (xs, 0)))))"
proof (cases "r = 0")
  case True
  then show ?thesis using ref_load_view [OF assms(1,2)] by (simp add: map_detach_def)
next
  case False
  then have pos: "r > 0" by (simp add: word_gt_0)
  show ?thesis
  proof (cases "malloc m")
    case None
    then show ?thesis
      using ref_load_view [OF assms(1,2)] pos
      by (simp add: map_detach_def detach_helper_def CreateData_def)
  next
    case (Some e)
    obtain m1 where m1: "CreateData malloc m = (Inr e, m1)" "mem_rep m1 (V(e \<mapsto> ([], 0)))" "V e = None"
      by (rule create_view [OF assms(1) Some assms(3)])
    have de: "d \<noteq> e" using m1(3) assms(2) by auto
    then have Vd: "(V(e \<mapsto> ([], 0))) d = Some (xs, r)" using assms(2) by simp
    obtain m2 where m2: "ref_deref d m1 = Some m2" "mem_rep m2 (V(e \<mapsto> ([], 0), d \<mapsto> (xs, r - 1)))"
      by (rule ref_deref_view [OF m1(2) Vd False])
    let ?V2 = "V(e \<mapsto> ([], 0), d \<mapsto> (xs, r - 1))"
    have Ve: "?V2 e = Some ([], 0)" "?V2 d = Some (xs, r - 1)" using de by simp_all
    obtain T E where ok: "mem_ok m2 T" and E: "datas m2 e = Some E" and e: "[] = content m2 (T e)" "0 = reference E"
      and V2: "?V2 = (\<lambda>d. map_option (\<lambda>D. (content m2 (T d), reference D)) (datas m2 d))"
      by (rule mem_repE [OF m2(2) Ve(1)])
    obtain D where D: "datas m2 d = Some D" "content m2 (T d) = xs"
      using Ve(2) unfolding V2 by auto
    obtain res m' where loop: "detach_loop malloc d e (hd_ptr (addrs (T d))) m2 = Some (res, m')"
      "res = Inr () \<longrightarrow> (\<exists>t' E'. mem_ok m' (T(e := t')) \<and> datas m' = (datas m2)(e \<mapsto> E') \<and> reference E' = reference E \<and>
        content m' t' = content m2 (T d) \<and> (\<forall>c. c \<noteq> e \<longrightarrow> content m' (T c) = content m2 (T c)))"
      using detach_loop_ok [OF assms(3) de ok D(1) E, of "[]" "addrs (T d)"] e(1) by auto
    have run: "map_detach malloc (Some d) m =
        Some (case res of Inl err \<Rightarrow> (Inl err, Some d, m') | Inr _ \<Rightarrow> (Inr (), Some e, m'))"
      using ref_load_view [OF assms(1,2)] pos m1(1) m2(1) data_begin_ok [OF ok D(1)] loop(1)
      by (auto simp: map_detach_def detach_helper_def split: sum.split)
    show ?thesis
    proof (cases res)
      case (Inr u)
      then obtain t' E' where l: "mem_ok m' (T(e := t'))" "datas m' = (datas m2)(e \<mapsto> E')" "reference E' = 0"
        "content m' t' = xs" "\<And>c. c \<noteq> e \<Longrightarrow> content m' (T c) = content m2 (T c)"
        using loop(2) D(2) e(2) by auto
      have "mem_rep m' (?V2(e \<mapsto> (xs, 0)))" using view_change [OF V2 l(1,2,5)] l(3,4) by simp
      moreover have "?V2(e \<mapsto> (xs, 0)) = V(d \<mapsto> (xs, r - 1), e \<mapsto> (xs, 0))" using de by auto
      ultimately show ?thesis using run Inr False m1(3) by simp
    qed (use run in simp)
  qed
qed

end
