(* ===== verification/Map_Value.thy ===== *)
theory Map_Value
  imports Map_View
begin

text \<open>
  Map objects behave as values. A program that holds any number of Map objects, which share and copy
  data blocks behind its back, is simulated by one that holds an independent finite map per object.
  The simulation relation includes the ownership of the memory: each data block is used by as many
  objects as its reference count says (one more than the number), and each node belongs to one block.
\<close>

section \<open>Programs over Map objects\<close>

datatype ('o, 'k, 'v) map_op =
    Construct 'o | Copy 'o 'o | Move 'o 'o | Assign 'o 'o | Swap 'o 'o | Destroy 'o
  | Insert 'o 'k 'v | Set_At 'o 'k 'v | Erase 'o 'k | Find 'o 'k | Clear 'o

type_synonym 'o objects = "'o \<Rightarrow> ptr option"

definition store_result :: "'o \<Rightarrow> 'o objects \<Rightarrow> (map_error + 'r) \<times> ptr \<times> ('k, 'v) map_mem \<Rightarrow>
    (map_error + unit) \<times> 'o objects \<times> ('k, 'v) map_mem" where
  "store_result x objs res = (case res of (r, p, m) \<Rightarrow>
     (case r of Inl e \<Rightarrow> Inl e | Inr _ \<Rightarrow> Inr (), objs(x \<mapsto> p), m))"

text \<open>\<open>Set_At\<close> is the assignment \<open>m[k] = v\<close>; \<open>Swap\<close> is the move assignment.\<close>

fun map_exec :: "('k::linorder, 'v) allocator \<Rightarrow> 'v \<Rightarrow> ('o, 'k, 'v) map_op \<Rightarrow> 'o objects \<Rightarrow> ('k, 'v) map_mem \<Rightarrow>
    ((map_error + unit) \<times> 'o objects \<times> ('k, 'v) map_mem) option" where
  "map_exec malloc dflt (Construct x) objs m = map_option (store_result x objs) (map_create malloc m)"
| "map_exec malloc dflt (Copy x y) objs m = do {
     q \<leftarrow> objs y;
     res \<leftarrow> map_copy q m;
     Some (store_result x objs res) }"
| "map_exec malloc dflt (Move x y) objs m = do {
     q \<leftarrow> objs y;
     (r, p, m) \<leftarrow> map_move malloc q m;
     Some (case r of Inl e \<Rightarrow> (Inl e, objs, m) | Inr q' \<Rightarrow> (Inr (), objs(x \<mapsto> p, y \<mapsto> q'), m)) }"
| "map_exec malloc dflt (Assign x y) objs m = do {
     p \<leftarrow> objs x;
     q \<leftarrow> objs y;
     res \<leftarrow> map_assign (x = y) p q m;
     Some (store_result x objs res) }"
| "map_exec malloc dflt (Swap x y) objs m = do {
     p \<leftarrow> objs x;
     q \<leftarrow> objs y;
     Some (Inr (), objs(x \<mapsto> q, y \<mapsto> p), m) }"
| "map_exec malloc dflt (Destroy x) objs m = do {
     p \<leftarrow> objs x;
     (r, p, m) \<leftarrow> map_destroy p m;
     Some (r, objs(x := None), m) }"
| "map_exec malloc dflt (Insert x k v) objs m = do {
     p \<leftarrow> objs x;
     res \<leftarrow> map_insert malloc p k v m;
     Some (store_result x objs res) }"
| "map_exec malloc dflt (Set_At x k v) objs m = do {
     p \<leftarrow> objs x;
     (r, p, m) \<leftarrow> map_index malloc dflt p k m;
     case r of Inl e \<Rightarrow> Some (Inl e, objs(x \<mapsto> p), m)
     | Inr n \<Rightarrow> do {
         m \<leftarrow> write_value n v m;
         Some (Inr (), objs(x \<mapsto> p), m) } }"
| "map_exec malloc dflt (Erase x k) objs m = do {
     p \<leftarrow> objs x;
     res \<leftarrow> map_erase malloc p k m;
     Some (store_result x objs res) }"
| "map_exec malloc dflt (Find x k) objs m = do {
     p \<leftarrow> objs x;
     res \<leftarrow> map_find malloc p k m;
     Some (store_result x objs res) }"
| "map_exec malloc dflt (Clear x) objs m = do {
     p \<leftarrow> objs x;
     res \<leftarrow> map_clear malloc p m;
     Some (store_result x objs res) }"

text \<open>The same program over independent maps, and when C++ allows the operation.\<close>

fun spec_exec :: "('o, 'k, 'v) map_op \<Rightarrow> ('o \<Rightarrow> ('k \<rightharpoonup> 'v) option) \<Rightarrow> ('o \<Rightarrow> ('k \<rightharpoonup> 'v) option)" where
  "spec_exec (Construct x) f = f(x \<mapsto> Map.empty)"
| "spec_exec (Copy x y) f = f(x := f y)"
| "spec_exec (Move x y) f = f(x := f y, y \<mapsto> Map.empty)"
| "spec_exec (Assign x y) f = f(x := f y)"
| "spec_exec (Swap x y) f = f(x := f y, y := f x)"
| "spec_exec (Destroy x) f = f(x := None)"
| "spec_exec (Insert x k v) f = f(x := map_option (\<lambda>g. if k \<in> dom g then g else g(k \<mapsto> v)) (f x))"
| "spec_exec (Set_At x k v) f = f(x := map_option (\<lambda>g. g(k \<mapsto> v)) (f x))"
| "spec_exec (Erase x k) f = f(x := map_option (\<lambda>g. g(k := None)) (f x))"
| "spec_exec (Find x k) f = f"
| "spec_exec (Clear x) f = f(x \<mapsto> Map.empty)"

fun op_allowed :: "('o, 'k, 'v) map_op \<Rightarrow> 'o objects \<Rightarrow> bool" where
  "op_allowed (Construct x) objs = (objs x = None)"
| "op_allowed (Copy x y) objs = (objs x = None \<and> objs y \<noteq> None \<and> card (dom objs) < 2 ^ 32)"
| "op_allowed (Move x y) objs = (objs x = None \<and> objs y \<noteq> None)"
| "op_allowed (Assign x y) objs = (objs x \<noteq> None \<and> objs y \<noteq> None \<and> card (dom objs) < 2 ^ 32)"
| "op_allowed (Swap x y) objs = (objs x \<noteq> None \<and> objs y \<noteq> None)"
| "op_allowed (Destroy x) objs = (objs x \<noteq> None)"
| "op_allowed (Insert x k v) objs = (objs x \<noteq> None)"
| "op_allowed (Set_At x k v) objs = (objs x \<noteq> None)"
| "op_allowed (Erase x k) objs = (objs x \<noteq> None)"
| "op_allowed (Find x k) objs = (objs x \<noteq> None)"
| "op_allowed (Clear x) objs = (objs x \<noteq> None)"

section \<open>The simulation relation\<close>

definition users :: "'o objects \<Rightarrow> addr \<Rightarrow> 'o set" where
  "users objs d = {x. objs x = Some (Some d)}"

definition world_ok :: "'o objects \<Rightarrow> ('k::linorder, 'v) map_mem \<Rightarrow> (addr \<Rightarrow> (('k \<times> 'v) list \<times> 32 word) option) \<Rightarrow> bool" where
  "world_ok objs m V \<longleftrightarrow> mem_rep m V \<and> finite (dom objs) \<and>
     (\<forall>x. objs x \<noteq> Some None) \<and> (\<forall>x d. objs x = Some (Some d) \<longrightarrow> V d \<noteq> None) \<and>
     (\<forall>d xs r. V d = Some (xs, r) \<longrightarrow> card (users objs d) = unat r + 1)"

definition obj_map :: "'o objects \<Rightarrow> (addr \<Rightarrow> (('k \<times> 'v) list \<times> 32 word) option) \<Rightarrow> 'o \<Rightarrow> ('k \<rightharpoonup> 'v) option" where
  "obj_map objs V x = (case objs x of Some (Some d) \<Rightarrow> map_option (\<lambda>p. map_of (fst p)) (V d) | _ \<Rightarrow> None)"

definition simulates :: "'o objects \<Rightarrow> ('k::linorder, 'v) map_mem \<Rightarrow> ('o \<Rightarrow> ('k \<rightharpoonup> 'v) option) \<Rightarrow> bool" where
  "simulates objs m f \<longleftrightarrow> (\<exists>V. world_ok objs m V \<and> f = obj_map objs V)"

lemma users_finite: "world_ok objs m V \<Longrightarrow> finite (users objs d)"
  by (rule finite_subset [of _ "dom objs"]) (auto simp: world_ok_def users_def)

lemma world_object:
  assumes "world_ok objs m V" "objs x = Some p"
  obtains d xs r where "p = Some d" "V d = Some (xs, r)" "card (users objs d) = unat r + 1"
    and "obj_map objs V x = Some (map_of xs)"
proof -
  obtain d where d: "p = Some d" using assms by (cases p) (auto simp: world_ok_def)
  moreover obtain xs r where "V d = Some (xs, r)" using assms d by (fastforce simp: world_ok_def)
  ultimately show thesis using that assms by (auto simp: world_ok_def obj_map_def)
qed

text \<open>An unshared block is used by one object.\<close>

lemma sole_user:
  assumes "world_ok objs m V" "objs x = Some (Some d)" "V d = Some (xs, 0)"
  shows "users objs d = {x}"
proof -
  have "card (users objs d) = 1" using assms by (simp add: world_ok_def)
  then obtain y where "users objs d = {y}" by (auto simp: card_1_singleton_iff)
  moreover have "x \<in> users objs d" using assms(2) by (simp add: users_def)
  ultimately show ?thesis by auto
qed

lemma world_update:
  assumes "world_ok objs m V" "objs x = Some (Some d)" "V d = Some (xs, 0)" "mem_rep m' (V(d \<mapsto> (ys, 0)))"
  shows "world_ok objs m' (V(d \<mapsto> (ys, 0)))"
    and "obj_map objs (V(d \<mapsto> (ys, 0))) = (obj_map objs V)(x \<mapsto> map_of ys)"
proof -
  show "world_ok objs m' (V(d \<mapsto> (ys, 0)))"
    using assms unfolding world_ok_def by auto
  show "obj_map objs (V(d \<mapsto> (ys, 0))) = (obj_map objs V)(x \<mapsto> map_of ys)"
  proof
    fix y
    have "y \<noteq> x \<Longrightarrow> objs y \<noteq> Some (Some d)"
      using sole_user [OF assms(1-3)] unfolding users_def by blast
    then show "obj_map objs (V(d \<mapsto> (ys, 0))) y = ((obj_map objs V)(x \<mapsto> map_of ys)) y"
      using assms(2) by (cases "y = x") (auto simp: obj_map_def split: option.splits)
  qed
qed

section \<open>Sharing and releasing\<close>

lemma world_create:
  assumes "world_ok objs m V" "objs x = None" "malloc m = Some d" "fresh_alloc malloc"
  obtains m' where "CreateData malloc m = (Inr d, m')" "world_ok (objs(x \<mapsto> Some d)) m' (V(d \<mapsto> ([], 0)))"
    and "obj_map (objs(x \<mapsto> Some d)) (V(d \<mapsto> ([], 0))) = (obj_map objs V)(x \<mapsto> Map.empty)"
proof -
  have rep: "mem_rep m V" using assms(1) by (simp add: world_ok_def)
  obtain m' where m': "CreateData malloc m = (Inr d, m')" "mem_rep m' (V(d \<mapsto> ([], 0)))" "V d = None"
    by (rule create_view [OF rep assms(3,4)])
  have nd: "objs y \<noteq> Some (Some d)" for y using assms(1) m'(3) unfolding world_ok_def by metis
  then have u: "users (objs(x \<mapsto> Some d)) d = {x}"
    "e \<noteq> d \<Longrightarrow> users (objs(x \<mapsto> Some d)) e = users objs e" for e
    using assms(2) by (auto simp: users_def)
  have "world_ok (objs(x \<mapsto> Some d)) m' (V(d \<mapsto> ([], 0)))"
    using assms(1) m'(2) u unfolding world_ok_def by (auto split: if_splits)
  moreover have "obj_map (objs(x \<mapsto> Some d)) (V(d \<mapsto> ([], 0))) = (obj_map objs V)(x \<mapsto> Map.empty)"
  proof
    fix y
    show "obj_map (objs(x \<mapsto> Some d)) (V(d \<mapsto> ([], 0))) y = ((obj_map objs V)(x \<mapsto> Map.empty)) y"
      using nd [of y] by (cases "y = x") (auto simp: obj_map_def split: option.splits)
  qed
  ultimately show thesis using that m'(1) by blast
qed

lemma world_share:
  assumes "world_ok objs m V" "objs x = None" "objs y = Some p" "card (dom objs) < 2 ^ 32"
  obtains d m' V' where "p = Some d" "ref_ref d m = Some m'" "world_ok (objs(x \<mapsto> p)) m' V'"
    and "obj_map (objs(x \<mapsto> p)) V' = (obj_map objs V)(x := obj_map objs V y)"
proof -
  obtain d xs r where d: "p = Some d" "V d = Some (xs, r)" "card (users objs d) = unat r + 1"
    by (rule world_object [OF assms(1,3)])
  have rep: "mem_rep m V" using assms(1) by (simp add: world_ok_def)
  obtain m' where m': "ref_ref d m = Some m'" "mem_rep m' (V(d \<mapsto> (xs, r + 1)))"
    by (rule ref_ref_view [OF rep d(2)])
  have "card (users objs d) \<le> card (dom objs)"
    using assms(1) by (intro card_mono) (auto simp: world_ok_def users_def)
  then have "unat r + 1 < 2 ^ 32" using d(3) assms(4) by simp
  then have r: "unat (r + 1) = unat r + 1" by (simp add: unat_word_ariths)
  have u: "users (objs(x \<mapsto> p)) d = insert x (users objs d)" "x \<notin> users objs d"
    "e \<noteq> d \<Longrightarrow> users (objs(x \<mapsto> p)) e = users objs e" for e
    using assms(2) d(1) by (auto simp: users_def)
  have "world_ok (objs(x \<mapsto> p)) m' (V(d \<mapsto> (xs, r + 1)))"
    using assms(1) m'(2) u d users_finite [OF assms(1), of d] r
    unfolding world_ok_def by (auto split: if_splits)
  moreover have "obj_map (objs(x \<mapsto> p)) (V(d \<mapsto> (xs, r + 1))) = (obj_map objs V)(x := obj_map objs V y)"
  proof
    fix z
    show "obj_map (objs(x \<mapsto> p)) (V(d \<mapsto> (xs, r + 1))) z = ((obj_map objs V)(x := obj_map objs V y)) z"
      using d(1,2) assms(3) by (cases "z = x") (auto simp: obj_map_def split: option.splits)
  qed
  ultimately show thesis using that d(1) m'(1) by blast
qed

lemma world_unshare:
  assumes "world_ok objs m V" "objs x = Some (Some d)" "V d = Some (xs, r)" "r \<noteq> 0"
  obtains m' V' where "ref_deref d m = Some m'" "world_ok (objs(x := None)) m' V'"
    and "V' = V(d \<mapsto> (xs, r - 1))" and "obj_map (objs(x := None)) V' = (obj_map objs V)(x := None)"
proof -
  have rep: "mem_rep m V" and c: "card (users objs d) = unat r + 1"
    using assms(1,3) by (auto simp: world_ok_def)
  obtain m' where m': "ref_deref d m = Some m'" "mem_rep m' (V(d \<mapsto> (xs, r - 1)))"
    by (rule ref_deref_view [OF rep assms(3,4)])
  have u: "users (objs(x := None)) d = users objs d - {x}" "x \<in> users objs d"
    "e \<noteq> d \<Longrightarrow> users (objs(x := None)) e = users objs e" for e
    using assms(2) by (auto simp: users_def)
  have r: "unat (r - 1) + 1 = unat r"
    using assms(4) by (simp add: unat_minus_one unat_gt_0)
  have "card (users (objs(x := None)) d) = unat (r - 1) + 1"
    using u(1,2) c r users_finite [OF assms(1), of d] by (simp add: card_Diff_singleton)
  then have "world_ok (objs(x := None)) m' (V(d \<mapsto> (xs, r - 1)))"
    using assms(1) m'(2) u(3) unfolding world_ok_def by (auto split: if_splits)
  moreover have "obj_map (objs(x := None)) (V(d \<mapsto> (xs, r - 1))) = (obj_map objs V)(x := None)"
  proof
    fix y
    show "obj_map (objs(x := None)) (V(d \<mapsto> (xs, r - 1))) y = ((obj_map objs V)(x := None)) y"
      using assms(3) by (cases "y = x") (auto simp: obj_map_def split: option.splits)
  qed
  ultimately show thesis using that m'(1) by blast
qed

lemma world_destroy:
  assumes "world_ok objs m V" "objs x = Some p"
  obtains m' V' where "map_destroy p m = Some (Inr (), None, m')" "world_ok (objs(x := None)) m' V'"
    and "obj_map (objs(x := None)) V' = (obj_map objs V)(x := None)"
proof -
  obtain d xs r where d: "p = Some d" "V d = Some (xs, r)" by (rule world_object [OF assms])
  have rep: "mem_rep m V" using assms(1) by (simp add: world_ok_def)
  have load: "ref_load d m = Some r" by (rule ref_load_view [OF rep d(2)])
  show thesis
  proof (cases "r = 0")
    case False
    obtain m' V' where "ref_deref d m = Some m'" "world_ok (objs(x := None)) m' V'"
      "obj_map (objs(x := None)) V' = (obj_map objs V)(x := None)"
      by (rule world_unshare [OF assms(1) assms(2) [unfolded d(1)] d(2) False])
    then show thesis using that [of m' V'] False d(1) load by (simp add: map_destroy_def word_gt_0)
  next
    case True
    obtain m1 where m1: "data_clear d m = Some m1" "mem_rep m1 (V(d \<mapsto> ([], r)))"
      by (rule clear_view [OF rep d(2)])
    obtain m' where m': "FreeData d m1 = Some m'" "mem_rep m' (V(d \<mapsto> ([], r), d := None))"
      by (rule free_view [OF m1(2), of d r]) auto
    have sole: "users objs d = {x}"
      using sole_user [OF assms(1)] assms(2) d True by simp
    then have nd: "y \<noteq> x \<Longrightarrow> objs y \<noteq> Some (Some d)" for y unfolding users_def by blast
    have u: "e \<noteq> d \<Longrightarrow> users (objs(x := None)) e = users objs e" for e
      using assms(2) d(1) by (auto simp: users_def)
    have "world_ok (objs(x := None)) m' (V(d := None))"
      using assms(1) m'(2) u nd unfolding world_ok_def by (auto split: if_splits)
    moreover have "obj_map (objs(x := None)) (V(d := None)) = (obj_map objs V)(x := None)"
    proof
      fix y
      show "obj_map (objs(x := None)) (V(d := None)) y = ((obj_map objs V)(x := None)) y"
        using nd [of y] by (cases "y = x") (auto simp: obj_map_def split: option.splits)
    qed
    moreover have "map_destroy p m = Some (Inr (), None, m')"
      using True d(1) load m1(1) m'(1) by (simp add: map_destroy_def)
    ultimately show thesis using that by blast
  qed
qed

section \<open>Copy on write\<close>

lemma world_detach:
  assumes "world_ok objs m V" "objs x = Some p" "fresh_alloc malloc"
  shows "\<exists>res p' m'. map_detach malloc p m = Some (res, p', m') \<and> (res = Inr () \<longrightarrow>
    (\<exists>d V' xs. p' = Some d \<and> V' d = Some (xs, 0) \<and> world_ok (objs(x \<mapsto> p')) m' V' \<and>
      obj_map (objs(x \<mapsto> p')) V' = obj_map objs V \<and> obj_map objs V x = Some (map_of xs)))"
proof -
  obtain d xs r where d: "p = Some d" "V d = Some (xs, r)" "obj_map objs V x = Some (map_of xs)"
    by (rule world_object [OF assms(1,2)])
  have rep: "mem_rep m V" using assms(1) by (simp add: world_ok_def)
  have xd: "objs x = Some (Some d)" using assms(2) d(1) by simp
  obtain res p' m' where run: "map_detach malloc (Some d) m = Some (res, p', m')"
    and post: "res = Inr () \<longrightarrow> (if r = 0 then p' = Some d \<and> m' = m
     else \<exists>e. p' = Some e \<and> V e = None \<and> mem_rep m' (V(d \<mapsto> (xs, r - 1), e \<mapsto> (xs, 0))))"
    using detach_view [OF rep d(2) assms(3)] by blast
  have "\<exists>d V' xs. p' = Some d \<and> V' d = Some (xs, 0) \<and> world_ok (objs(x \<mapsto> p')) m' V' \<and>
      obj_map (objs(x \<mapsto> p')) V' = obj_map objs V \<and> obj_map objs V x = Some (map_of xs)" if res: "res = Inr ()"
  proof (cases "r = 0")
    case True
    then have "p' = Some d" "m' = m" "objs(x \<mapsto> p') = objs" using post res xd by auto
    then show ?thesis using assms(1) d True by (intro exI [of _ d] exI [of _ V] exI [of _ xs]) simp
  next
    case False
    then obtain e where e: "p' = Some e" "V e = None" "mem_rep m' (V(d \<mapsto> (xs, r - 1), e \<mapsto> (xs, 0)))"
      using post res by auto
    let ?V' = "V(d \<mapsto> (xs, r - 1), e \<mapsto> (xs, 0))" let ?objs = "objs(x \<mapsto> Some e)"
    have de: "d \<noteq> e" using d(2) e(2) by auto
    have ne: "objs y \<noteq> Some (Some e)" for y using assms(1) e(2) unfolding world_ok_def by metis
    have u: "users ?objs d = users objs d - {x}" "x \<in> users objs d" "users ?objs e = {x}"
      "c \<noteq> d \<Longrightarrow> c \<noteq> e \<Longrightarrow> users ?objs c = users objs c" for c
      using xd ne de by (auto simp: users_def)
    have "unat (r - 1) + 1 = unat r" using False by (simp add: unat_minus_one unat_gt_0)
    moreover have "card (users objs d) = unat r + 1" using assms(1) d(2) by (simp add: world_ok_def)
    ultimately have "card (users ?objs d) = unat (r - 1) + 1"
      using u(1,2) users_finite [OF assms(1), of d] by (simp add: card_Diff_singleton)
    then have "world_ok ?objs m' ?V'"
      using assms(1) e(3) u(3,4) de unfolding world_ok_def by (auto split: if_splits)
    moreover have "obj_map ?objs ?V' = obj_map objs V"
    proof
      fix y
      show "obj_map ?objs ?V' y = obj_map objs V y"
        using ne [of y] d(2) xd by (cases "y = x") (auto simp: obj_map_def split: option.splits)
    qed
    ultimately show ?thesis
      using e(1) d(3) by (intro exI [of _ e] exI [of _ ?V'] exI [of _ xs]) simp
  qed
  then show ?thesis using run d(1) by blast
qed

text \<open>
  \<open>block_op g Q f\<close>: on an unshared block, \<open>f\<close> turns the list of the block by \<open>g\<close>, unless it throws, and
  its result satisfies \<open>Q\<close>. Such an operation on the detached block of an object acts on that object only.
\<close>

definition block_op :: "(('k::linorder \<times> 'v) list \<Rightarrow> ('k \<times> 'v) list) \<Rightarrow>
    ('r \<Rightarrow> addr \<Rightarrow> ('k \<times> 'v) list \<Rightarrow> ('k, 'v) map_mem \<Rightarrow> bool) \<Rightarrow>
    (addr \<Rightarrow> ('k, 'v) map_mem \<Rightarrow> ((map_error + 'r) \<times> ('k, 'v) map_mem) option) \<Rightarrow> bool" where
  "block_op g Q f \<longleftrightarrow> (\<forall>d m V xs. mem_rep m V \<longrightarrow> V d = Some (xs, 0) \<longrightarrow>
     (\<exists>res m'. f d m = Some (res, m') \<and> (\<forall>y. res = Inr y \<longrightarrow> mem_rep m' (V(d \<mapsto> (g xs, 0))) \<and> Q y d xs m')))"

lemma world_detached:
  assumes w: "world_ok objs m V" "objs x = Some p" "fresh_alloc malloc"
    and f: "block_op g Q f"
  shows "\<exists>res p' m'. detached malloc p m f = Some (res, p', m') \<and> (\<forall>y. res = Inr y \<longrightarrow>
    (\<exists>d V' xs. p' = Some d \<and> V' d = Some (g xs, 0) \<and> world_ok (objs(x \<mapsto> p')) m' V' \<and>
      obj_map objs V x = Some (map_of xs) \<and> Q y d xs m' \<and>
      obj_map (objs(x \<mapsto> p')) V' = (obj_map objs V)(x \<mapsto> map_of (g xs))))"
proof -
  obtain res p1 m1 where det: "map_detach malloc p m = Some (res, p1, m1)"
    and post: "res = Inr () \<longrightarrow> (\<exists>d V' xs. p1 = Some d \<and> V' d = Some (xs, 0) \<and> world_ok (objs(x \<mapsto> p1)) m1 V' \<and>
      obj_map (objs(x \<mapsto> p1)) V' = obj_map objs V \<and> obj_map objs V x = Some (map_of xs))"
    using world_detach [OF w] by blast
  show ?thesis
  proof (cases res)
    case (Inl e)
    then show ?thesis using det by (simp add: detached_def)
  next
    case (Inr u)
    then obtain d V1 xs where d: "p1 = Some d" "V1 d = Some (xs, 0)" "world_ok (objs(x \<mapsto> p1)) m1 V1"
      "obj_map (objs(x \<mapsto> p1)) V1 = obj_map objs V" "obj_map objs V x = Some (map_of xs)"
      using post by auto
    have "mem_rep m1 V1" using d(3) by (simp add: world_ok_def)
    with f d(2) obtain res2 m2 where r2: "f d m1 = Some (res2, m2)"
      and Q: "\<forall>y. res2 = Inr y \<longrightarrow> mem_rep m2 (V1(d \<mapsto> (g xs, 0))) \<and> Q y d xs m2"
      unfolding block_op_def by blast
    have run: "detached malloc p m f = Some (res2, p1, m2)"
      using det Inr d(1) r2 by (simp add: detached_def)
    have "\<exists>d V' xs. p1 = Some d \<and> V' d = Some (g xs, 0) \<and> world_ok (objs(x \<mapsto> p1)) m2 V' \<and>
      obj_map objs V x = Some (map_of xs) \<and> Q y d xs m2 \<and>
      obj_map (objs(x \<mapsto> p1)) V' = (obj_map objs V)(x \<mapsto> map_of (g xs))" if "res2 = Inr y" for y
    proof (rule exI [of _ d], rule exI [of _ "V1(d \<mapsto> (g xs, 0))"], rule exI [of _ xs], intro conjI)
      have rep2: "mem_rep m2 (V1(d \<mapsto> (g xs, 0)))" using Q that by blast
      have xd: "(objs(x \<mapsto> p1)) x = Some (Some d)" using d(1) by simp
      note up = world_update [OF d(3) xd d(2) rep2]
      show "p1 = Some d" by (rule d(1))
      show "(V1(d \<mapsto> (g xs, 0))) d = Some (g xs, 0)" by simp
      show "world_ok (objs(x \<mapsto> p1)) m2 (V1(d \<mapsto> (g xs, 0)))" by (rule up(1))
      show "obj_map objs V x = Some (map_of xs)" by (rule d(5))
      show "Q y d xs m2" using Q that by blast
      show "obj_map (objs(x \<mapsto> p1)) (V1(d \<mapsto> (g xs, 0))) = (obj_map objs V)(x \<mapsto> map_of (g xs))"
        by (rule up(2) [unfolded d(4)])
    qed
    then show ?thesis using run by blast
  qed
qed

section \<open>Every operation simulates\<close>

lemma simulatesI: "world_ok objs m V \<Longrightarrow> obj_map objs V = f \<Longrightarrow> simulates objs m f"
  by (auto simp: simulates_def)

lemma live_object: "world_ok objs m V \<Longrightarrow> objs x \<noteq> None \<Longrightarrow> obj_map objs V x \<noteq> None"
  by (auto elim: world_object)

lemma detached_simulates:
  assumes "world_ok objs m V" "objs x = Some p" "fresh_alloc malloc" "block_op g (\<lambda>_ _ _ _. True) f"
  obtains res p' m' where "detached malloc p m f = Some (res, p', m')"
    and "(\<exists>y. res = Inr y) \<longrightarrow> (\<exists>xs. obj_map objs V x = Some (map_of xs) \<and>
      simulates (objs(x \<mapsto> p')) m' ((obj_map objs V)(x \<mapsto> map_of (g xs))))"
  using world_detached [OF assms]
proof (elim exE conjE)
  fix res p' m'
  assume run: "detached malloc p m f = Some (res, p', m')"
    and post: "\<forall>y. res = Inr y \<longrightarrow> (\<exists>d V' xs. p' = Some d \<and> V' d = Some (g xs, 0) \<and> world_ok (objs(x \<mapsto> p')) m' V' \<and>
      obj_map objs V x = Some (map_of xs) \<and> True \<and>
      obj_map (objs(x \<mapsto> p')) V' = (obj_map objs V)(x \<mapsto> map_of (g xs)))"
  show thesis
  proof (rule that [OF run], rule impI, elim exE)
    fix y assume "res = Inr y"
    from post [rule_format, OF this] show "\<exists>xs. obj_map objs V x = Some (map_of xs) \<and>
        simulates (objs(x \<mapsto> p')) m' ((obj_map objs V)(x \<mapsto> map_of (g xs)))"
      by (elim exE conjE) (rule exI, rule conjI, assumption, rule simulatesI)
  qed
qed

lemma insert_block: "fresh_alloc malloc \<Longrightarrow>
    block_op (list_insert k v) (\<lambda>_ _ _ _. True) (\<lambda>d m. data_insert malloc d k v m)"
  unfolding block_op_def using insert_view [of _ _ _ _ 0 malloc k v] by fastforce

lemma erase_block: "block_op (list_erase k) (\<lambda>_ _ _ _. True) (\<lambda>d m. data_erase d k m)"
  unfolding block_op_def using erase_view [of _ _ _ _ 0 k] by blast

lemma find_block: "block_op (\<lambda>xs. xs) (\<lambda>_ _ _ _. True) (\<lambda>d m. do { p \<leftarrow> data_find d k m; Some (Inr p, m) })"
  unfolding block_op_def
proof (intro allI impI)
  fix d m and V :: "addr \<Rightarrow> (('a::linorder \<times> 'b) list \<times> 32 word) option" and xs
  assume V: "mem_rep m V" "V d = Some (xs, 0)"
  obtain q where "data_find d k m = Some q" by (rule find_view [OF V, of k])
  moreover have "V(d \<mapsto> (xs, 0)) = V" using V by auto
  ultimately show "\<exists>res m'. (do { p \<leftarrow> data_find d k m; Some (Inr p, m) }) = Some (res, m') \<and>
      (\<forall>y. res = (Inr y :: map_error + ptr) \<longrightarrow> mem_rep m' (V(d \<mapsto> (xs, 0))) \<and> True)"
    using V by auto
qed

text \<open>\<open>operator[]\<close> returns the node of the key, which is there afterwards.\<close>

lemma index_block: "fresh_alloc malloc \<Longrightarrow>
    block_op (list_insert k dflt) (\<lambda>n d xs m. n \<noteq> None \<and> data_find d k m = Some n) (\<lambda>d m. do {
     n \<leftarrow> data_find d k m;
     if n \<noteq> None then Some (Inr n, m) else do {
       (r, m) \<leftarrow> data_insert malloc d k dflt m;
       case r of Inl e \<Rightarrow> Some (Inl e, m)
       | Inr n \<Rightarrow> Some (if n = None then Inl Insert_Error else Inr n, m) } })"
  unfolding block_op_def
proof (intro allI impI)
  fix d m and V :: "addr \<Rightarrow> (('a::linorder \<times> 'b) list \<times> 32 word) option" and xs
  assume fresh: "fresh_alloc malloc" and V: "mem_rep m V" "V d = Some (xs, 0)"
  let ?f = "do { n \<leftarrow> data_find d k m;
     if n \<noteq> None then Some (Inr n, m) else do {
       (r, m) \<leftarrow> data_insert malloc d k dflt m;
       case r of Inl e \<Rightarrow> Some (Inl e, m)
       | Inr n \<Rightarrow> Some (if n = None then Inl Insert_Error else Inr n, m) } }"
  obtain q where q: "data_find d k m = Some q" "q = None \<longleftrightarrow> k \<notin> fst ` set xs"
    by (rule find_view [OF V, of k])
  have same: "V(d \<mapsto> (xs, 0)) = V" using V by auto
  show "\<exists>res m'. ?f = Some (res, m') \<and> (\<forall>y. res = Inr y \<longrightarrow>
      mem_rep m' (V(d \<mapsto> (list_insert k dflt xs, 0))) \<and> y \<noteq> None \<and> data_find d k m' = Some y)"
  proof (cases q)
    case (Some a)
    then show ?thesis using q V same by (auto simp: list_insert_def)
  next
    case None
    obtain res m' where ins: "data_insert malloc d k dflt m = Some (res, m')"
      "case res of Inl e \<Rightarrow> e = Bad_Alloc \<and> m' = m
       | Inr p \<Rightarrow> mem_rep m' (V(d \<mapsto> (list_insert k dflt xs, 0))) \<and>
           (if k \<in> fst ` set xs then p = None \<and> m' = m else p \<noteq> None \<and> data_find d k m' = Some p)"
      using insert_view [OF V fresh, of k dflt] by blast
    then show ?thesis using None q by (cases res) auto
  qed
qed

lemma list_write_insert:
  "map_of (list_write k v (list_insert k dflt xs)) = (map_of xs)(k \<mapsto> v)"
proof -
  have "k \<in> fst ` set (list_insert k dflt xs)" by (auto simp: list_insert_def set_insort_key)
  then show ?thesis by (auto simp: map_of_list_write map_of_list_insert)
qed

text \<open>Exchanging the names of two objects.\<close>

definition flip :: "'o \<Rightarrow> 'o \<Rightarrow> 'o \<Rightarrow> 'o" where
  "flip x y z = (if z = x then y else if z = y then x else z)"

lemma flip_flip [simp]: "flip x y (flip x y z) = z"
  by (simp add: flip_def)

lemma inj_flip: "inj (flip x y)"
  by (metis injI flip_flip)

lemma world_flip:
  assumes "world_ok objs m V"
  shows "world_ok (objs \<circ> flip x y) m V" and "obj_map (objs \<circ> flip x y) V = obj_map objs V \<circ> flip x y"
proof -
  have "users (objs \<circ> flip x y) d = flip x y ` users objs d" for d
  proof -
    have "z \<in> users (objs \<circ> flip x y) d \<Longrightarrow> z \<in> flip x y ` users objs d" for z
      by (rule image_eqI [of _ _ "flip x y z"]) (simp_all add: users_def)
    then show ?thesis by (auto simp: users_def)
  qed
  then have "card (users (objs \<circ> flip x y) d) = card (users objs d)" for d
    by (simp add: card_image inj_on_subset [OF inj_flip])
  moreover have "finite (dom (objs \<circ> flip x y))"
  proof (rule finite_subset)
    show "dom (objs \<circ> flip x y) \<subseteq> flip x y ` dom objs"
      by (auto intro!: image_eqI [of _ _ "flip x y z" for z])
    show "finite (flip x y ` dom objs)" using assms by (simp add: world_ok_def)
  qed
  ultimately show "world_ok (objs \<circ> flip x y) m V"
    using assms by (auto simp: world_ok_def)
  show "obj_map (objs \<circ> flip x y) V = obj_map objs V \<circ> flip x y"
    by (simp add: obj_map_def fun_eq_iff)
qed

section \<open>The simulation\<close>

definition exec_simulates ::
    "('k::linorder, 'v) allocator \<Rightarrow> 'v \<Rightarrow> ('o, 'k, 'v) map_op \<Rightarrow> 'o objects \<Rightarrow> ('k, 'v) map_mem \<Rightarrow>
      ('o \<Rightarrow> ('k \<rightharpoonup> 'v) option) \<Rightarrow> bool" where
  "exec_simulates malloc dflt op objs m f \<longleftrightarrow>
     (\<exists>r objs' m'. map_exec malloc dflt op objs m = Some (r, objs', m') \<and>
       (r = Inr () \<longrightarrow> simulates objs' m' (spec_exec op f)))"

lemma exec_simulatesI:
  "map_exec malloc dflt op objs m = Some (r, objs', m') \<Longrightarrow>
    (r = Inr () \<Longrightarrow> simulates objs' m' (spec_exec op f)) \<Longrightarrow> exec_simulates malloc dflt op objs m f"
  unfolding exec_simulates_def by blast

lemma construct_simulates:
  assumes "world_ok objs m V" "objs x = None" "fresh_alloc malloc"
  shows "exec_simulates malloc dflt (Construct x) objs m (obj_map objs V)"
proof (cases "malloc m")
  case None
  then show ?thesis
    by (intro exec_simulatesI) (auto simp: map_create_def CreateData_def store_result_def)
next
  case (Some d)
  obtain m' where c: "CreateData malloc m = (Inr d, m')" "world_ok (objs(x \<mapsto> Some d)) m' (V(d \<mapsto> ([], 0)))"
    "obj_map (objs(x \<mapsto> Some d)) (V(d \<mapsto> ([], 0))) = (obj_map objs V)(x \<mapsto> Map.empty)"
    by (rule world_create [OF assms(1,2) Some assms(3)])
  show ?thesis
  proof (rule exec_simulatesI)
    show "map_exec malloc dflt (Construct x) objs m = Some (Inr (), objs(x \<mapsto> Some d), m')"
      by (simp add: map_create_def c(1) store_result_def)
    show "simulates (objs(x \<mapsto> Some d)) m' (spec_exec (Construct x) (obj_map objs V))"
      by (rule simulatesI [OF c(2)]) (simp add: c(3))
  qed
qed

lemma copy_simulates:
  assumes "world_ok objs m V" "objs x = None" "objs y = Some q" "card (dom objs) < 2 ^ 32"
  shows "exec_simulates malloc dflt (Copy x y) objs m (obj_map objs V)"
proof -
  obtain d m' V' where s: "q = Some d" "ref_ref d m = Some m'" "world_ok (objs(x \<mapsto> q)) m' V'"
    "obj_map (objs(x \<mapsto> q)) V' = (obj_map objs V)(x := obj_map objs V y)"
    by (rule world_share [OF assms])
  show ?thesis
  proof (rule exec_simulatesI)
    show "map_exec malloc dflt (Copy x y) objs m = Some (Inr (), objs(x \<mapsto> q), m')"
      using s(1,2) assms(3) by (simp add: map_copy_def store_result_def)
    show "simulates (objs(x \<mapsto> q)) m' (spec_exec (Copy x y) (obj_map objs V))"
      by (rule simulatesI [OF s(3)]) (simp add: s(4))
  qed
qed

lemma destroy_simulates:
  assumes "world_ok objs m V" "objs x = Some p"
  shows "exec_simulates malloc dflt (Destroy x) objs m (obj_map objs V)"
proof -
  obtain m' V' where d: "map_destroy p m = Some (Inr (), None, m')" "world_ok (objs(x := None)) m' V'"
    "obj_map (objs(x := None)) V' = (obj_map objs V)(x := None)"
    by (rule world_destroy [OF assms])
  show ?thesis
  proof (rule exec_simulatesI)
    show "map_exec malloc dflt (Destroy x) objs m = Some (Inr (), objs(x := None), m')"
      using d(1) assms(2) by simp
    show "simulates (objs(x := None)) m' (spec_exec (Destroy x) (obj_map objs V))"
      by (rule simulatesI [OF d(2)]) (simp add: d(3))
  qed
qed

lemma assign_simulates:
  assumes "world_ok objs m V" "objs x = Some p" "objs y = Some q" "card (dom objs) < 2 ^ 32"
  shows "exec_simulates malloc dflt (Assign x y) objs m (obj_map objs V)"
proof (cases "x = y")
  case True
  show ?thesis
  proof (rule exec_simulatesI)
    show "map_exec malloc dflt (Assign x y) objs m = Some (Inr (), objs, m)"
      using True assms(2) by (simp add: map_assign_def store_result_def fun_upd_idem)
    show "simulates objs m (spec_exec (Assign x y) (obj_map objs V))"
      by (rule simulatesI [OF assms(1)]) (use True in auto)
  qed
next
  case False
  obtain m1 V1 where d: "map_destroy p m = Some (Inr (), None, m1)" "world_ok (objs(x := None)) m1 V1"
    "obj_map (objs(x := None)) V1 = (obj_map objs V)(x := None)"
    by (rule world_destroy [OF assms(1,2)])
  have y: "(objs(x := None)) y = Some q" "(objs(x := None)) x = None" using False assms(3) by simp_all
  have "card (dom (objs(x := None))) \<le> card (dom objs)"
    using assms(1) by (intro card_mono) (auto simp: world_ok_def)
  then have "card (dom (objs(x := None))) < 2 ^ 32" using assms(4) by linarith
  then obtain e m2 V2 where s: "q = Some e" "ref_ref e m1 = Some m2" "world_ok ((objs(x := None))(x \<mapsto> q)) m2 V2"
    "obj_map ((objs(x := None))(x \<mapsto> q)) V2 = (obj_map (objs(x := None)) V1)(x := obj_map (objs(x := None)) V1 y)"
    by (rule world_share [OF d(2) y(2,1)])
  show ?thesis
  proof (rule exec_simulatesI)
    show "map_exec malloc dflt (Assign x y) objs m = Some (Inr (), objs(x \<mapsto> q), m2)"
      using d(1) s(1,2) assms(2,3) False by (simp add: map_assign_def store_result_def)
    show "simulates (objs(x \<mapsto> q)) m2 (spec_exec (Assign x y) (obj_map objs V))"
      by (rule simulatesI [OF s(3) [simplified]]) (use s(4) d(3) False in simp)
  qed
qed

lemma move_simulates:
  assumes "world_ok objs m V" "objs x = None" "objs y = Some q" "fresh_alloc malloc"
  shows "exec_simulates malloc dflt (Move x y) objs m (obj_map objs V)"
proof (cases "malloc m")
  case None
  then show ?thesis
    by (intro exec_simulatesI [of _ _ _ _ _ "Inl Bad_Alloc" objs m])
      (simp_all add: assms(3) map_move_def CreateData_def)
next
  case (Some d)
  have y: "(objs \<circ> flip x y) y = None" using assms(2) by (simp add: flip_def)
  obtain m' where c: "CreateData malloc m = (Inr d, m')"
    "world_ok ((objs \<circ> flip x y)(y \<mapsto> Some d)) m' (V(d \<mapsto> ([], 0)))"
    "obj_map ((objs \<circ> flip x y)(y \<mapsto> Some d)) (V(d \<mapsto> ([], 0))) = (obj_map (objs \<circ> flip x y) V)(y \<mapsto> Map.empty)"
    by (rule world_create [OF world_flip(1) [OF assms(1)] y Some assms(4)])
  have eq: "(objs \<circ> flip x y)(y \<mapsto> Some d) = objs(x \<mapsto> q, y \<mapsto> Some d)"
    using assms(2,3) by (simp add: fun_eq_iff flip_def)
  have f: "(obj_map (objs \<circ> flip x y) V)(y \<mapsto> Map.empty) = spec_exec (Move x y) (obj_map objs V)"
    using assms(2,3) unfolding world_flip(2) [OF assms(1)] by (auto simp: flip_def)
  show ?thesis
  proof (rule exec_simulatesI)
    show "map_exec malloc dflt (Move x y) objs m = Some (Inr (), objs(x \<mapsto> q, y \<mapsto> Some d), m')"
      by (simp add: assms(3) map_move_def c(1))
    show "simulates (objs(x \<mapsto> q, y \<mapsto> Some d)) m' (spec_exec (Move x y) (obj_map objs V))"
      using simulatesI [OF c(2)] c(3) unfolding eq f by blast
  qed
qed

lemma swap_simulates:
  assumes "world_ok objs m V" "objs x = Some p" "objs y = Some q"
  shows "exec_simulates malloc dflt (Swap x y) objs m (obj_map objs V)"
proof (rule exec_simulatesI)
  have eq: "objs \<circ> flip x y = objs(x \<mapsto> q, y \<mapsto> p)"
    using assms(2,3) by (auto simp: fun_eq_iff flip_def)
  have f: "obj_map objs V \<circ> flip x y = spec_exec (Swap x y) (obj_map objs V)"
    by (simp add: fun_eq_iff flip_def)
  show "map_exec malloc dflt (Swap x y) objs m = Some (Inr (), objs(x \<mapsto> q, y \<mapsto> p), m)"
    by (simp add: assms(2,3))
  show "simulates (objs(x \<mapsto> q, y \<mapsto> p)) m (spec_exec (Swap x y) (obj_map objs V))"
    using simulatesI [OF world_flip [OF assms(1), of x y]] unfolding eq f by blast
qed

lemma store_result_simps [simp]:
  "store_result x objs (Inl e, p, m) = (Inl e, objs(x \<mapsto> p), m)"
  "store_result x objs (Inr y, p, m) = (Inr (), objs(x \<mapsto> p), m)"
  by (simp_all add: store_result_def)

lemma insert_simulates:
  assumes "world_ok objs m V" "objs x = Some p" "fresh_alloc malloc"
  shows "exec_simulates malloc dflt (Insert x k v) objs m (obj_map objs V)"
proof -
  obtain res p' m' where run: "detached malloc p m (\<lambda>d m. data_insert malloc d k v m) = Some (res, p', m')"
    and post: "(\<exists>y. res = Inr y) \<longrightarrow> (\<exists>xs. obj_map objs V x = Some (map_of xs) \<and>
      simulates (objs(x \<mapsto> p')) m' ((obj_map objs V)(x \<mapsto> map_of (list_insert k v xs))))"
    by (rule detached_simulates [OF assms insert_block [where k = k and v = v, OF assms(3)]])
  then show ?thesis
    using assms(2) by (cases res) (auto simp: map_insert_def map_of_list_insert intro!: exec_simulatesI)
qed

lemma erase_simulates:
  assumes "world_ok objs m V" "objs x = Some p" "fresh_alloc malloc"
  shows "exec_simulates malloc dflt (Erase x k) objs m (obj_map objs V)"
proof -
  obtain res p' m' where run: "detached malloc p m (\<lambda>d m. data_erase d k m) = Some (res, p', m')"
    and post: "(\<exists>y. res = Inr y) \<longrightarrow> (\<exists>xs. obj_map objs V x = Some (map_of xs) \<and>
      simulates (objs(x \<mapsto> p')) m' ((obj_map objs V)(x \<mapsto> map_of (list_erase k xs))))"
    by (rule detached_simulates [OF assms erase_block [where k = k]])
  then show ?thesis
    using assms(2) by (cases res) (auto simp: map_erase_def map_of_list_erase intro!: exec_simulatesI)
qed

lemma find_simulates:
  assumes "world_ok objs m V" "objs x = Some p" "fresh_alloc malloc"
  shows "exec_simulates malloc dflt (Find x k) objs m (obj_map objs V)"
proof -
  obtain res p' m' where run:
      "detached malloc p m (\<lambda>d m. do { p \<leftarrow> data_find d k m; Some (Inr p, m) }) = Some (res, p', m')"
    and post: "(\<exists>y. res = Inr y) \<longrightarrow> (\<exists>xs. obj_map objs V x = Some (map_of xs) \<and>
      simulates (objs(x \<mapsto> p')) m' ((obj_map objs V)(x \<mapsto> map_of xs)))"
    by (rule detached_simulates [OF assms find_block [where k = k]])
  then have "(\<exists>y. res = Inr y) \<longrightarrow> simulates (objs(x \<mapsto> p')) m' (obj_map objs V)"
    by (auto simp: fun_upd_idem)
  then show ?thesis
    using assms(2) run by (cases res) (auto simp: map_find_def intro!: exec_simulatesI)
qed

lemma set_at_simulates:
  assumes "world_ok objs m V" "objs x = Some p" "fresh_alloc malloc"
  shows "exec_simulates malloc dflt (Set_At x k v) objs m (obj_map objs V)"
proof -
  obtain res p1 m1 where run: "map_index malloc dflt p k m = Some (res, p1, m1)"
    and post: "\<forall>y. res = Inr y \<longrightarrow> (\<exists>d V' xs. p1 = Some d \<and> V' d = Some (list_insert k dflt xs, 0) \<and>
      world_ok (objs(x \<mapsto> p1)) m1 V' \<and> obj_map objs V x = Some (map_of xs) \<and> (y \<noteq> None \<and> data_find d k m1 = Some y) \<and>
      obj_map (objs(x \<mapsto> p1)) V' = (obj_map objs V)(x \<mapsto> map_of (list_insert k dflt xs)))"
    using world_detached [OF assms index_block [where k = k and dflt = dflt, OF assms(3)], folded map_index_def]
    by (elim exE conjE) (rule that)
  show ?thesis
  proof (cases res)
    case (Inl e)
    then show ?thesis using run assms(2) by (auto intro!: exec_simulatesI)
  next
    case (Inr n)
    obtain d V1 xs a where d: "p1 = Some d" "V1 d = Some (list_insert k dflt xs, 0)"
      "world_ok (objs(x \<mapsto> p1)) m1 V1" "obj_map objs V x = Some (map_of xs)" "n = Some a"
      "data_find d k m1 = Some n"
      "obj_map (objs(x \<mapsto> p1)) V1 = (obj_map objs V)(x \<mapsto> map_of (list_insert k dflt xs))"
      using post [rule_format, OF Inr] by (elim exE conjE) (cases n, auto)
    have rep: "mem_rep m1 V1" using d(3) by (simp add: world_ok_def)
    obtain m2 where m2: "write_value (Some a) v m1 = Some m2"
      "mem_rep m2 (V1(d \<mapsto> (list_write k v (list_insert k dflt xs), 0)))"
      by (rule write_view [OF rep d(2) d(6) [unfolded d(5)]])
    have xd: "(objs(x \<mapsto> p1)) x = Some (Some d)" using d(1) by simp
    note up = world_update [OF d(3) xd d(2) m2(2)]
    show ?thesis
    proof (rule exec_simulatesI)
      show "map_exec malloc dflt (Set_At x k v) objs m = Some (Inr (), objs(x \<mapsto> p1), m2)"
        using run assms(2) Inr d(5) m2(1) by simp
      show "simulates (objs(x \<mapsto> p1)) m2 (spec_exec (Set_At x k v) (obj_map objs V))"
      proof (rule simulatesI [OF up(1)])
        show "obj_map (objs(x \<mapsto> p1)) (V1(d \<mapsto> (list_write k v (list_insert k dflt xs), 0))) =
            spec_exec (Set_At x k v) (obj_map objs V)"
          unfolding up(2) d(7) by (simp add: d(4) list_write_insert)
      qed
    qed
  qed
qed

lemma clear_simulates:
  assumes "world_ok objs m V" "objs x = Some p" "fresh_alloc malloc"
  shows "exec_simulates malloc dflt (Clear x) objs m (obj_map objs V)"
proof -
  obtain d xs r where d: "p = Some d" "V d = Some (xs, r)" by (rule world_object [OF assms(1,2)])
  have rep: "mem_rep m V" using assms(1) by (simp add: world_ok_def)
  have xd: "objs x = Some (Some d)" using assms(2) d(1) by simp
  have load: "ref_load d m = Some r" by (rule ref_load_view [OF rep d(2)])
  show ?thesis
  proof (cases "r = 0")
    case True
    obtain m1 where m1: "data_clear d m = Some m1" "mem_rep m1 (V(d \<mapsto> ([], 0)))"
      using clear_view [OF rep d(2)] True by metis
    note up = world_update [OF assms(1) xd d(2) [unfolded True] m1(2)]
    show ?thesis
    proof (rule exec_simulatesI)
      show "map_exec malloc dflt (Clear x) objs m = Some (Inr (), objs(x \<mapsto> p), m1)"
        using True load m1(1) assms(2) d(1) by (simp add: map_clear_def)
      show "simulates (objs(x \<mapsto> p)) m1 (spec_exec (Clear x) (obj_map objs V))"
        using simulatesI [OF up] assms(2) by (simp add: fun_upd_idem)
    qed
  next
    case False
    then have pos: "r > 0" by (simp add: word_gt_0)
    obtain m1 V1 where m1: "ref_deref d m = Some m1" "world_ok (objs(x := None)) m1 V1"
      "obj_map (objs(x := None)) V1 = (obj_map objs V)(x := None)"
      by (rule world_unshare [OF assms(1) xd d(2) False])
    show ?thesis
    proof (cases "malloc m1")
      case None
      then show ?thesis using load pos m1(1) assms(2) d(1)
        by (intro exec_simulatesI [of _ _ _ _ _ "Inl Bad_Alloc" "objs(x \<mapsto> p)" m1])
          (simp_all add: map_clear_def CreateData_def)
    next
      case (Some e)
      obtain m2 where c: "CreateData malloc m1 = (Inr e, m2)"
        "world_ok ((objs(x := None))(x \<mapsto> Some e)) m2 (V1(e \<mapsto> ([], 0)))"
        "obj_map ((objs(x := None))(x \<mapsto> Some e)) (V1(e \<mapsto> ([], 0))) = (obj_map (objs(x := None)) V1)(x \<mapsto> Map.empty)"
      proof (rule world_create [OF m1(2) _ Some assms(3)])
        show "(objs(x := None)) x = None" by simp
      qed (rule that)
      show ?thesis
      proof (rule exec_simulatesI)
        show "map_exec malloc dflt (Clear x) objs m = Some (Inr (), objs(x \<mapsto> Some e), m2)"
          using load pos m1(1) c(1) assms(2) d(1) by (simp add: map_clear_def)
        show "simulates (objs(x \<mapsto> Some e)) m2 (spec_exec (Clear x) (obj_map objs V))"
          using simulatesI [OF c(2)] c(3) m1(3) by simp
      qed
    qed
  qed
qed

lemma exec_ok:
  assumes "world_ok objs m V" "fresh_alloc malloc" "op_allowed op objs"
  shows "exec_simulates malloc dflt op objs m (obj_map objs V)"
  using assms
  by (cases op)
    (auto intro: construct_simulates copy_simulates move_simulates assign_simulates swap_simulates
      destroy_simulates insert_simulates set_at_simulates erase_simulates find_simulates clear_simulates)

end
