(* ===== verification/Map_Spec.thy ===== *)
theory Map_Spec
  imports Map_Value
begin

text \<open>
  The properties of Map and \<open>MapData\<close> (utils/include/utils/map.h, map_node.h).
\<close>

section \<open>A concrete memory\<close>

definition arena :: "nat \<Rightarrow> ('k, 'v) allocator" where
  "arena n m = find (\<lambda>a. nodes m a = None \<and> pairs m a = None \<and> datas m a = None) [0..<n]"

definition empty_mem :: "('k, 'v) map_mem" where
  "empty_mem = \<lparr>nodes = (\<lambda>_. None), pairs = (\<lambda>_. None), datas = (\<lambda>_. None)\<rparr>"

lemma fresh_arena [simp]: "fresh_alloc (arena n)"
  by (auto simp: fresh_alloc_def arena_def find_Some_iff)

lemma empty_mem_ok: "mem_ok empty_mem (\<lambda>_. Lf)"
  by (simp add: mem_ok_def empty_mem_def)

lemma empty_world: "world_ok (\<lambda>_. None) empty_mem (\<lambda>_. None)"
proof -
  have "mem_rep empty_mem (\<lambda>_. None)"
    unfolding mem_rep_def using empty_mem_ok by (intro exI [of _ "\<lambda>_. Lf"]) (simp add: empty_mem_def)
  then show ?thesis by (simp add: world_ok_def)
qed

lemma empty_simulates [simp]: "simulates (\<lambda>_. None) empty_mem (\<lambda>_. None)"
  by (rule simulatesI [OF empty_world]) (simp add: obj_map_def fun_eq_iff)

section \<open>Value semantics\<close>

text \<open>
  C7: Map objects are values. In a state where the Map objects of a program represent the maps \<open>f\<close>,
  every allowed operation on them (construction, copy, move, assignment, swap, destruction, insertion,
  \<open>m[k] = v\<close>, erasure, search, clearing) returns without touching freed or foreign memory, and unless
  it throws, the objects represent the maps after the same operation on independent maps: an operation
  changes no object but its own, however the objects share their data blocks. In particular the
  reference counts stay exact, no block or node leaks and none is freed twice.
\<close>

theorem map_exec_simulates:
  assumes "simulates objs m f" "fresh_alloc malloc" "op_allowed op objs"
  shows "\<exists>r objs' m'. map_exec malloc dflt op objs m = Some (r, objs', m') \<and>
    (r = Inr () \<longrightarrow> simulates objs' m' (spec_exec op f))"
proof -
  obtain V where "world_ok objs m V" "f = obj_map objs V" using assms(1) by (auto simp: simulates_def)
  then show ?thesis using exec_ok [of objs m V malloc op dflt] assms by (simp add: exec_simulates_def)
qed

lemma sample_construct:
  "\<exists>objs m. map_exec (arena 9) 0 (Construct a) (\<lambda>_. None) empty_mem = Some (Inr (), objs, m) \<and> objs a \<noteq> None"
  by (auto simp: map_create_def CreateData_def arena_def empty_mem_def upt_rec)

theorem map_exec_simulates_witness:
  "\<exists>objs m r objs' m'. simulates objs m [''a'' \<mapsto> Map.empty] \<and>
    map_exec (arena 9) (0::nat) (Insert ''a'' (5::nat) 7) objs m = Some (r, objs', m') \<and>
    (r = Inr () \<longrightarrow> simulates objs' m' [''a'' \<mapsto> [5 \<mapsto> 7]])"
proof -
  obtain objs and m :: "(nat, nat) map_mem" where c:
    "map_exec (arena 9) 0 (Construct ''a'') (\<lambda>_. None) empty_mem = Some (Inr (), objs, m)" "objs ''a'' \<noteq> None"
    using sample_construct [of "''a''"] by (elim exE conjE) (rule that)
  have allowed: "op_allowed (Construct ''a'' :: (string, nat, nat) map_op) (\<lambda>_. None)"
    "op_allowed (Insert ''a'' 5 7 :: (string, nat, nat) map_op) objs"
    using c(2) by simp_all
  have s: "simulates objs m [''a'' \<mapsto> Map.empty]"
    using map_exec_simulates [OF empty_simulates fresh_arena [of 9] allowed(1), of 0] unfolding c(1) by simp
  have "spec_exec (Insert ''a'' 5 7) [''a'' \<mapsto> Map.empty] = [''a'' \<mapsto> [5 \<mapsto> (7::nat)]]" by simp
  then show ?thesis
    using map_exec_simulates [OF s fresh_arena [of 9] allowed(2), of 0] s by metis
qed

section \<open>Blocks of data\<close>

text \<open>
  \<open>MapData::insert\<close> of a new key stores the pair at its place in the key order; of a key that is
  there it changes nothing and returns the null pointer (and frees the node it had created), although
  the comment on it promises the address of the existing node. When memory is exhausted it throws
  \<open>bad_alloc\<close>, although the comment promises the null pointer. Other blocks keep their contents.
\<close>

theorem data_insert_correct:
  assumes "mem_rep m V" "V d = Some (xs, r)" "fresh_alloc malloc"
  shows "\<exists>res m'. data_insert malloc d k v m = Some (res, m') \<and>
    (case res of Inl e \<Rightarrow> e = Bad_Alloc \<and> m' = m
     | Inr p \<Rightarrow> mem_rep m' (V(d \<mapsto> (list_insert k v xs, r))) \<and>
         (if k \<in> fst ` set xs then p = None \<and> m' = m
          else p \<noteq> None \<and> data_find d k m' = Some p))"
  by (rule insert_view [OF assms])

text \<open>A memory with one block, number 0, that is empty.\<close>

definition block_mem :: "(nat, nat) map_mem" where
  "block_mem = snd (CreateData (arena 9) empty_mem)"

lemma block_rep [simp]: "mem_rep block_mem [0 \<mapsto> ([], 0)]"
proof -
  have rep: "mem_rep empty_mem ((\<lambda>_. None) :: addr \<Rightarrow> ((nat \<times> nat) list \<times> 32 word) option)"
    using empty_world by (simp add: world_ok_def)
  have a: "arena 9 (empty_mem :: (nat, nat) map_mem) = Some 0"
    by (simp add: arena_def empty_mem_def upt_rec)
  show ?thesis by (rule create_view [OF rep a fresh_arena]) (simp add: block_mem_def)
qed

lemma block_insert: "\<exists>m p. data_insert (arena 9) 0 5 7 block_mem = Some (Inr p, m) \<and>
    mem_rep m [0 \<mapsto> ([(5, 7)], 0)]"
proof -
  have "arena 9 block_mem = Some 1"
    by (simp add: arena_def block_mem_def CreateData_def empty_mem_def upt_rec)
  then have "fst (createNode (arena 9) 5 7 block_mem) = Inr 1" by (simp add: createNode_def)
  moreover obtain res m where "data_insert (arena 9) 0 5 7 block_mem = Some (res, m)"
    "case res of Inl e \<Rightarrow> e = Bad_Alloc \<and> m = block_mem
     | Inr p \<Rightarrow> mem_rep m ([0 \<mapsto> ([], 0)](0 \<mapsto> (list_insert 5 7 [], 0))) \<and>
         (if 5 \<in> fst ` set ([] :: (nat \<times> nat) list) then p = None \<and> m = block_mem
          else p \<noteq> None \<and> data_find 0 5 m = Some p)"
    using insert_view [OF block_rep _ fresh_arena, of 0 "[]" 0 9 5 7] by auto
  ultimately show ?thesis
    by (cases res) (auto simp: list_insert_def data_insert_def bind_eq_Some_conv split: prod.splits sum.splits if_splits)
qed

theorem data_insert_correct_witness:
  "\<exists>m res m'. mem_rep m [0 \<mapsto> ([(5::nat, 7::nat)], 0)] \<and> data_insert (arena 9) 0 5 8 m = Some (res, m') \<and>
    (res = Inl Bad_Alloc \<or> res = Inr None) \<and> m' = m"
proof -
  obtain m where m: "mem_rep m [0 \<mapsto> ([(5::nat, 7::nat)], 0)]" using block_insert by auto
  show ?thesis
    using data_insert_correct [OF m _ fresh_arena, of 0 "[(5, 7)]" 0 9 5 8] m
    by (fastforce split: sum.splits)
qed

text \<open>
  \<open>MapData::erase\<close> of a key that is there removes its pair and no other, frees its node and
  returns the node of the next larger key (the null pointer for the largest); of a key that is not
  there it changes nothing and returns the null pointer.
\<close>

theorem data_erase_correct:
  assumes "mem_rep m V" "V d = Some (xs, r)"
  shows "\<exists>p m'. data_erase d k m = Some (Inr p, m') \<and> mem_rep m' (V(d \<mapsto> (list_erase k xs, r))) \<and>
    (if k \<in> fst ` set xs then Option.bind p (pairs m') = find (\<lambda>q. k < fst q) xs else p = None \<and> m' = m)"
  by (rule erase_view [OF assms])

theorem data_erase_correct_witness:
  "\<exists>m p m'. mem_rep m [0 \<mapsto> ([(5::nat, 7::nat)], 0)] \<and> data_erase 0 5 m = Some (Inr p, m') \<and>
    mem_rep m' [0 \<mapsto> ([], 0)] \<and> Option.bind p (pairs m') = None"
proof -
  obtain m where m: "mem_rep m [0 \<mapsto> ([(5::nat, 7::nat)], 0)]" using block_insert by auto
  show ?thesis
    using data_erase_correct [OF m, of 0 "[(5, 7)]" 0 5] m by (auto simp: list_erase_def)
qed

section \<open>Iteration\<close>

text \<open>The loop \<open>for (it = begin(); it != end(); ++it)\<close>, collecting the pairs.\<close>

partial_function (option) collect :: "ptr \<Rightarrow> ('k, 'v) map_mem \<Rightarrow> ('k \<times> 'v) list option" where
  "collect it m = (case it of None \<Rightarrow> Some []
     | Some a \<Rightarrow> do {
         kv \<leftarrow> pairs m a;
         it \<leftarrow> node_next it m;
         kvs \<leftarrow> collect it m;
         Some (kv # kvs) })"

lemma collect_suffix:
  assumes "mem_ok m T" "datas m d = Some D"
  shows "addrs (T d) = xs @ ys \<Longrightarrow> collect (hd_ptr ys) m = Some (map (\<lambda>a. the (pairs m a)) ys)"
proof (induction ys arbitrary: xs)
  case Nil
  then show ?case by (subst collect.simps) simp
next
  case (Cons a ys)
  have t: "rep (tree_of m D) (T d)" using mem_ok_data [OF assms] by (simp add: data_ok_def)
  have nx: "node_next (Some a) m = Some (hd_ptr ys)"
    unfolding node_next_def
    by (rule rb_next_reps [OF _ _ Cons.prems]) (use t in \<open>simp_all add: tree_of_def rep_def\<close>)
  obtain kv where "pairs m a = Some kv" using mem_ok_live [OF assms(1), of a d] Cons.prems by auto
  then show ?case using nx Cons.IH [of "xs @ [a]"] Cons.prems by (subst collect.simps) simp
qed

text \<open>
  Iterating over a block from \<open>begin()\<close> with \<open>++\<close> to \<open>end()\<close> ends and yields every pair exactly
  once, in strictly increasing key order.
\<close>

theorem iteration_in_key_order:
  assumes "mem_rep m V" "V d = Some (xs, r)"
  shows "(do { it \<leftarrow> data_begin d m; collect it m }) = Some xs \<and> sorted_wrt (\<lambda>p q. fst p < fst q) xs"
proof -
  obtain T D where "mem_ok m T" "datas m d = Some D" "xs = content m (T d)" by (rule mem_repE [OF assms])
  then show ?thesis
    using data_begin_ok [of m T d D] collect_suffix [of m T d D "[]" "addrs (T d)"] view_sorted [OF assms]
    by (simp add: content_def)
qed

theorem iteration_in_key_order_witness:
  "\<exists>m. mem_rep m [0 \<mapsto> ([(5::nat, 7::nat)], 0)] \<and> (do { it \<leftarrow> data_begin 0 m; collect it m }) = Some [(5, 7)]"
proof -
  obtain m where m: "mem_rep m [0 \<mapsto> ([(5::nat, 7::nat)], 0)]" using block_insert by auto
  then show ?thesis using iteration_in_key_order [OF m, of 0 "[(5, 7)]" 0] by auto
qed

end
