(* ===== verification/Hmap_Ops.thy ===== *)
theory Hmap_Ops
  imports Prelude
begin

unbundle bit_operations_syntax

text \<open>
  The chained hash table of \<^verbatim>\<open>src/utils/src/hash.cpp\<close> and \<^verbatim>\<open>src/utils/include/utils/hash.h\<close>: \<^verbatim>\<open>HashData\<close>, a
  reference-counted block with an array of chains, and the handle class \<^verbatim>\<open>HashMap\<close>. A chain ends with the
  address of its own block, read as a node: the field \<^verbatim>\<open>next\<close> of that node is \<^verbatim>\<open>fakeNode\<close>, and its field \<^verbatim>\<open>hash\<close>
  is the low half of the pointer to the array of buckets. Block 0 is \<^verbatim>\<open>shared_null\<close>. \<^term>\<open>None\<close> is undefined
  behaviour or a loop without end; allocation succeeds; the hash of a key is an argument.
\<close>

section \<open>Memory\<close>

datatype hptr = Null | Node addr | End addr

record ('k, 'v) hnode =
  hn_next :: hptr
  hn_hash :: "32 word"
  hn_key :: 'k
  hn_value :: 'v

record hdata =
  hd_fakeNode :: hptr
  hd_buckets :: "hptr list"
  hd_array :: addr
  hd_ref :: "32 word"
  hd_size :: nat
  hd_nodeSize :: nat
  hd_numBits :: nat
  hd_numBuckets :: nat

record ('k, 'v) hmem =
  hm_nodes :: "addr \<Rightarrow> ('k, 'v) hnode option"
  hm_datas :: "addr \<Rightarrow> hdata option"
  hm_next :: addr
  hm_low :: "addr \<Rightarrow> 32 word"

definition put_node :: "('k, 'v) hmem \<Rightarrow> addr \<Rightarrow> ('k, 'v) hnode \<Rightarrow> ('k, 'v) hmem" where
  "put_node m a n = m\<lparr>hm_nodes := (hm_nodes m)(a \<mapsto> n)\<rparr>"

definition put_data :: "('k, 'v) hmem \<Rightarrow> addr \<Rightarrow> hdata \<Rightarrow> ('k, 'v) hmem" where
  "put_data m d D = m\<lparr>hm_datas := (hm_datas m)(d \<mapsto> D)\<rparr>"

fun next_of :: "('k, 'v) hmem \<Rightarrow> hptr \<Rightarrow> hptr option" where
  "next_of m Null = None"
| "next_of m (Node a) = map_option hn_next (hm_nodes m a)"
| "next_of m (End d) = map_option hd_fakeNode (hm_datas m d)"

fun hash_at :: "('k, 'v) hmem \<Rightarrow> hptr \<Rightarrow> 32 word option" where
  "hash_at m Null = None"
| "hash_at m (Node a) = map_option hn_hash (hm_nodes m a)"
| "hash_at m (End d) = map_option (\<lambda>D. hm_low m (hd_array D)) (hm_datas m d)"

fun set_next :: "('k, 'v) hmem \<Rightarrow> hptr \<Rightarrow> hptr \<Rightarrow> ('k, 'v) hmem option" where
  "set_next m Null p = None"
| "set_next m (Node a) p = do { n \<leftarrow> hm_nodes m a; Some (put_node m a (n\<lparr>hn_next := p\<rparr>)) }"
| "set_next m (End d) p = do { D \<leftarrow> hm_datas m d; Some (put_data m d (D\<lparr>hd_fakeNode := p\<rparr>)) }"

section \<open>Numbers of buckets\<close>

definition prime_deltas :: "nat list" where
  "prime_deltas = [0, 0, 1, 3, 1, 5, 3, 3, 1, 9, 7, 5, 3, 17, 27, 3, 1, 29, 3, 21, 7, 17, 15, 9, 43, 35, 15, 29, 3, 11, 3, 11]"

text \<open>Shifting an \<^verbatim>\<open>int\<close> by 31 overflows.\<close>

definition primeForNumBits :: "nat \<Rightarrow> nat option" where
  "primeForNumBits n = (if n \<le> 30 then Some (2 ^ n + prime_deltas ! n) else None)"

fun bits_loop :: "nat \<Rightarrow> nat" where
  "bits_loop bits = (if bits > 1 then bits_loop (bits div 2) + 1 else 0)"

declare bits_loop.simps [simp del]

definition countBits :: "nat \<Rightarrow> nat option" where
  "countBits hint = (let numBits = bits_loop hint in
     if numBits \<ge> length prime_deltas then Some (length prime_deltas - 1)
     else do { p \<leftarrow> primeForNumBits numBits; Some (if p < hint then numBits + 1 else numBits) })"

definition minNumBits :: nat where "minNumBits = 4"

text \<open>The loops over \<^verbatim>\<open>buckets[0 .. numBuckets - 1]\<close>.\<close>

definition bucket_list :: "hdata \<Rightarrow> hptr list option" where
  "bucket_list D = (if hd_numBuckets D \<le> length (hd_buckets D) then Some (take (hd_numBuckets D) (hd_buckets D)) else None)"

section \<open>Reference counts\<close>

definition ref_inc :: "('k, 'v) hmem \<Rightarrow> addr \<Rightarrow> ('k, 'v) hmem option" where
  "ref_inc m d = do { D \<leftarrow> hm_datas m d; Some (put_data m d (D\<lparr>hd_ref := hd_ref D + 1\<rparr>)) }"

definition ref_dec :: "('k, 'v) hmem \<Rightarrow> addr \<Rightarrow> (32 word \<times> ('k, 'v) hmem) option" where
  "ref_dec m d = do {
     D \<leftarrow> hm_datas m d;
     if hd_ref D = 0 then Some (0, m)
     else Some (hd_ref D - 1, put_data m d (D\<lparr>hd_ref := hd_ref D - 1\<rparr>)) }"

section \<open>Blocks\<close>

definition shared_null :: addr where "shared_null = 0"

definition null_data :: "addr \<Rightarrow> hdata" where
  "null_data arr = \<lparr>hd_fakeNode = Null, hd_buckets = [], hd_array = arr, hd_ref = - 1, hd_size = 0,
     hd_nodeSize = 0, hd_numBits = minNumBits, hd_numBuckets = 0\<rparr>"

text \<open>The size of a node is counted in nodes: 0 in \<^verbatim>\<open>shared_null\<close>, where no node fits in what is allocated.\<close>

definition allocateNode :: "('k, 'v) hmem \<Rightarrow> addr \<Rightarrow> (addr \<times> ('k, 'v) hmem) option" where
  "allocateNode m d = do {
     D \<leftarrow> hm_datas m d;
     if hd_nodeSize D = 0 then None else Some (hm_next m, m\<lparr>hm_next := hm_next m + 1\<rparr>) }"

text \<open>Freeing the chains, and the block; the static block cannot be deleted.\<close>

partial_function (option) free_chain :: "('k, 'v) hmem \<Rightarrow> addr \<Rightarrow> hptr \<Rightarrow> ('k, 'v) hmem option" where
  "free_chain m d p =
    (if p = End d then Some m
     else case p of
       Node a \<Rightarrow> do {
         n \<leftarrow> hm_nodes m a;
         free_chain (m\<lparr>hm_nodes := (hm_nodes m)(a := None)\<rparr>) d (hn_next n) }
     | _ \<Rightarrow> None)"

fun free_chains :: "('k, 'v) hmem \<Rightarrow> addr \<Rightarrow> hptr list \<Rightarrow> ('k, 'v) hmem option" where
  "free_chains m d [] = Some m"
| "free_chains m d (p # ps) = do { m \<leftarrow> free_chain m d p; free_chains m d ps }"

definition free_helper :: "('k, 'v) hmem \<Rightarrow> addr \<Rightarrow> ('k, 'v) hmem option" where
  "free_helper m d = do {
     D \<leftarrow> hm_datas m d;
     m \<leftarrow> free_chains m d (hd_buckets D);
     if d = shared_null then None else Some (m\<lparr>hm_datas := (hm_datas m)(d := None)\<rparr>) }"

text \<open>
  Copying a chain of block \<^verbatim>\<open>d\<close> to block \<^verbatim>\<open>x\<close>; the result is the head of the new chain. More buckets than the copy
  has are written past the end of its array.
\<close>

partial_function (option) copy_chain :: "('k, 'v) hmem \<Rightarrow> addr \<Rightarrow> addr \<Rightarrow> hptr \<Rightarrow> (hptr \<times> ('k, 'v) hmem) option" where
  "copy_chain m d x oldNode =
    (if oldNode = End d then Some (End x, m)
     else case oldNode of
       Node a \<Rightarrow> do {
         n \<leftarrow> hm_nodes m a;
         (dup, m) \<leftarrow> allocateNode m d;
         (rest, m) \<leftarrow> copy_chain (put_node m dup (n\<lparr>hn_next := Null\<rparr>)) d x (hn_next n);
         m \<leftarrow> set_next m (Node dup) rest;
         Some (Node dup, m) }
     | _ \<Rightarrow> None)"

fun copy_chains :: "('k, 'v) hmem \<Rightarrow> addr \<Rightarrow> addr \<Rightarrow> hptr list \<Rightarrow> (hptr list \<times> ('k, 'v) hmem) option" where
  "copy_chains m d x [] = Some ([], m)"
| "copy_chains m d x (p # ps) = do {
     (q, m) \<leftarrow> copy_chain m d x p; (qs, m) \<leftarrow> copy_chains m d x ps; Some (q # qs, m) }"

definition hdata_detach :: "('k, 'v) hmem \<Rightarrow> addr \<Rightarrow> (addr \<times> ('k, 'v) hmem) option" where
  "hdata_detach m d = do {
     D \<leftarrow> hm_datas m d;
     let x = hm_next m;
     nb \<leftarrow> (if d = shared_null then primeForNumBits minNumBits else Some (hd_numBuckets D));
     let X = \<lparr>hd_fakeNode = Null, hd_buckets = replicate nb (End x), hd_array = x + 1, hd_ref = 1, hd_size = hd_size D,
       hd_nodeSize = 1, hd_numBits = (if d = shared_null then minNumBits else hd_numBits D), hd_numBuckets = nb\<rparr>;
     let m = (put_data m x X)\<lparr>hm_next := x + 2\<rparr>;
     ps \<leftarrow> bucket_list D;
     (qs, m) \<leftarrow> copy_chains m d x ps;
     if length qs \<le> nb then Some (x, put_data m x (X\<lparr>hd_buckets := qs @ drop (length qs) (hd_buckets X)\<rparr>)) else None }"

section \<open>Rehashing\<close>

text \<open>The last node of the run of nodes with the same hash; it reads the hash of the end too.\<close>

partial_function (option) run_end :: "('k, 'v) hmem \<Rightarrow> addr \<Rightarrow> 32 word \<Rightarrow> hptr \<Rightarrow> hptr option" where
  "run_end m d hash lastNode =
    (if lastNode = End d then Some lastNode
     else do {
       next \<leftarrow> next_of m lastNode;
       h \<leftarrow> hash_at m next;
       if h = hash then run_end m d hash next else Some lastNode })"

text \<open>The last node of a chain that starts at a pointer, if it has any.\<close>

partial_function (option) chain_last :: "('k, 'v) hmem \<Rightarrow> addr \<Rightarrow> hptr \<Rightarrow> hptr \<Rightarrow> hptr option" where
  "chain_last m d before p =
    (if p = End d then Some before else do { next \<leftarrow> next_of m p; chain_last m d p next })"

text \<open>Appending the run to its new bucket; \<^verbatim>\<open>Null\<close> stands for the slot in the array itself.\<close>

definition append_run :: "('k, 'v) hmem \<Rightarrow> addr \<Rightarrow> hptr list \<Rightarrow> nat \<Rightarrow> hptr \<Rightarrow> hptr \<Rightarrow> (hptr list \<times> ('k, 'v) hmem) option" where
  "append_run m d newBuckets i firstNode lastNode =
    (if i < length newBuckets then do {
       before \<leftarrow> chain_last m d Null (newBuckets ! i);
       m \<leftarrow> set_next m lastNode (End d);
       if before = Null then Some (newBuckets[i := firstNode], m)
       else do { m \<leftarrow> set_next m before firstNode; Some (newBuckets, m) } }
     else None)"

partial_function (option) rehash_chain :: "('k, 'v) hmem \<Rightarrow> addr \<Rightarrow> nat \<Rightarrow> hptr list \<Rightarrow> hptr \<Rightarrow> (hptr list \<times> ('k, 'v) hmem) option" where
  "rehash_chain m d numBuckets newBuckets firstNode =
    (if firstNode = End d then Some (newBuckets, m)
     else do {
       hash \<leftarrow> hash_at m firstNode;
       lastNode \<leftarrow> run_end m d hash firstNode;
       afterLastNode \<leftarrow> next_of m lastNode;
       (newBuckets, m) \<leftarrow> append_run m d newBuckets (unat hash mod numBuckets) firstNode lastNode;
       rehash_chain m d numBuckets newBuckets afterLastNode })"

fun rehash_chains :: "('k, 'v) hmem \<Rightarrow> addr \<Rightarrow> nat \<Rightarrow> hptr list \<Rightarrow> hptr list \<Rightarrow> (hptr list \<times> ('k, 'v) hmem) option" where
  "rehash_chains m d numBuckets newBuckets [] = Some (newBuckets, m)"
| "rehash_chains m d numBuckets newBuckets (p # ps) = do {
     (newBuckets, m) \<leftarrow> rehash_chain m d numBuckets newBuckets p;
     rehash_chains m d numBuckets newBuckets ps }"

text \<open>A hint below 0 is a capacity: then not less than half the buckets are kept.\<close>

partial_function (option) hint_loop :: "nat \<Rightarrow> nat \<Rightarrow> nat option" where
  "hint_loop half hint = do { p \<leftarrow> primeForNumBits hint; if p < half then hint_loop half (hint + 1) else Some hint }"

definition rehash_hint :: "hdata \<Rightarrow> int \<Rightarrow> nat option" where
  "rehash_hint D hint =
    (if hint < 0
     then do {
       h \<leftarrow> countBits (nat (- hint));
       hint_loop (hd_numBuckets D div 2) (if h < minNumBits then minNumBits else h) }
     else Some (if nat hint < minNumBits then minNumBits else nat hint))"

definition hdata_rehash :: "('k, 'v) hmem \<Rightarrow> addr \<Rightarrow> int \<Rightarrow> ('k, 'v) hmem option" where
  "hdata_rehash m d hint = do {
     D \<leftarrow> hm_datas m d;
     hint \<leftarrow> rehash_hint D hint;
     if hd_numBits D \<noteq> hint
     then do {
       nb \<leftarrow> primeForNumBits hint;
       let m = put_data m d (D\<lparr>hd_numBits := hint, hd_numBuckets := nb\<rparr>);
       ps \<leftarrow> bucket_list D;
       (newBuckets, m) \<leftarrow> rehash_chains m d nb (replicate nb (End d)) ps;
       D \<leftarrow> hm_datas m d;
       Some ((put_data m d (D\<lparr>hd_buckets := newBuckets, hd_array := hm_next m\<rparr>))\<lparr>hm_next := hm_next m + 1\<rparr>) }
     else Some m }"

definition hdata_grow :: "('k, 'v) hmem \<Rightarrow> addr \<Rightarrow> (bool \<times> ('k, 'v) hmem) option" where
  "hdata_grow m d = do {
     D \<leftarrow> hm_datas m d;
     if hd_numBuckets D \<le> hd_size D
     then do { m \<leftarrow> hdata_rehash m d (int (hd_numBits D + 1)); Some (True, m) }
     else Some (False, m) }"

section \<open>Walking\<close>

definition hdata_firstNode :: "('k, 'v) hmem \<Rightarrow> addr \<Rightarrow> hptr option" where
  "hdata_firstNode m d = do {
     D \<leftarrow> hm_datas m d;
     ps \<leftarrow> bucket_list D;
     Some (case find (\<lambda>p. p \<noteq> End d) ps of None \<Rightarrow> End d | Some p \<Rightarrow> p) }"

text \<open>
  The loop of \<^verbatim>\<open>nextNode\<close> over the rest of the buckets increments the pointer it found in the first of them, not
  the position in the array: the second round compares and returns an address inside the block, which is
  no node. \<^verbatim>\<open>n\<close> is what is left.
\<close>

definition next_bucket :: "addr \<Rightarrow> hptr \<Rightarrow> nat \<Rightarrow> hptr option" where
  "next_bucket d bucket n =
    (if n = 0 then Some (End d)
     else if bucket \<noteq> End d then Some bucket
     else if n = 1 then Some (End d) else None)"

definition hdata_nextNode :: "('k, 'v) hmem \<Rightarrow> hptr \<Rightarrow> hptr option" where
  "hdata_nextNode m node = do {
     next \<leftarrow> next_of m node;
     nn \<leftarrow> next_of m next;
     if nn \<noteq> Null then Some next
     else case next of
       End d \<Rightarrow> do {
         D \<leftarrow> hm_datas m d;
         h \<leftarrow> hash_at m node;
         if hd_numBuckets D = 0 then None
         else do {
           let start = unat h mod hd_numBuckets D + 1;
           if start < hd_numBuckets D
           then (if start < length (hd_buckets D)
             then next_bucket d (hd_buckets D ! start) (hd_numBuckets D - start) else None)
           else Some (End d) } }
     | _ \<Rightarrow> None }"

text \<open>\<^verbatim>\<open>previousNode\<close> looks for the end, then for the predecessor in the bucket or in the ones before it.\<close>

partial_function (option) find_end :: "('k, 'v) hmem \<Rightarrow> hptr \<Rightarrow> hptr option" where
  "find_end m p = do { next \<leftarrow> next_of m p; if next = Null then Some p else find_end m next }"

partial_function (option) find_prev :: "('k, 'v) hmem \<Rightarrow> hptr \<Rightarrow> hptr \<Rightarrow> hptr option" where
  "find_prev m sentinel prev = do {
     next \<leftarrow> next_of m prev; if next = sentinel then Some prev else find_prev m sentinel next }"

fun prev_loop :: "('k, 'v) hmem \<Rightarrow> hdata \<Rightarrow> hptr \<Rightarrow> hptr \<Rightarrow> nat \<Rightarrow> hptr option" where
  "prev_loop m D e sentinel start =
    (if start < length (hd_buckets D)
     then
       let bucket = hd_buckets D ! start in
       if bucket \<noteq> sentinel then find_prev m sentinel bucket
       else if start = 0 then Some e else prev_loop m D e e (start - 1)
     else None)"

declare prev_loop.simps [simp del]

definition hdata_previousNode :: "('k, 'v) hmem \<Rightarrow> hptr \<Rightarrow> hptr option" where
  "hdata_previousNode m node = do {
     e \<leftarrow> find_end m node;
     case e of
       End d \<Rightarrow> do {
         D \<leftarrow> hm_datas m d;
         if node = e
         then (if hd_numBuckets D = 0 then Some e else prev_loop m D e node (hd_numBuckets D - 1))
         else do {
           h \<leftarrow> hash_at m node;
           if hd_numBuckets D = 0 then None else prev_loop m D e node (unat h mod hd_numBuckets D) } }
     | _ \<Rightarrow> None }"

section \<open>The handle class\<close>

text \<open>A handle is the address of its block.\<close>

definition map_new :: addr where "map_new = shared_null"

definition freeData :: "('k, 'v) hmem \<Rightarrow> addr \<Rightarrow> ('k, 'v) hmem option" where
  "freeData m d = free_helper m d"

definition hmap_copy :: "('k, 'v) hmem \<Rightarrow> addr \<Rightarrow> (addr \<times> ('k, 'v) hmem) option" where
  "hmap_copy m other = do { m \<leftarrow> ref_inc m other; Some (other, m) }"

definition hmap_delete :: "('k, 'v) hmem \<Rightarrow> addr \<Rightarrow> ('k, 'v) hmem option" where
  "hmap_delete m d = do { (r, m) \<leftarrow> ref_dec m d; if r = 0 then freeData m d else Some m }"

definition hmap_assign :: "('k, 'v) hmem \<Rightarrow> addr \<Rightarrow> addr \<Rightarrow> (addr \<times> ('k, 'v) hmem) option" where
  "hmap_assign m d other =
    (if d \<noteq> other
     then do {
       m \<leftarrow> ref_inc m other;
       (r, m) \<leftarrow> ref_dec m d;
       m \<leftarrow> (if r = 0 then freeData m d else Some m);
       Some (other, m) }
     else Some (d, m))"

definition hmap_move :: "addr \<Rightarrow> addr \<times> addr" where "hmap_move other = (other, shared_null)"
definition hmap_assign_move :: "addr \<Rightarrow> addr \<Rightarrow> addr \<times> addr" where "hmap_assign_move d other = (other, d)"

definition hmap_clear :: "('k, 'v) hmem \<Rightarrow> addr \<Rightarrow> (addr \<times> ('k, 'v) hmem) option" where
  "hmap_clear m d = do { m \<leftarrow> hmap_delete m d; Some (map_new, m) }"

definition hmap_detach_helper :: "('k, 'v) hmem \<Rightarrow> addr \<Rightarrow> (addr \<times> ('k, 'v) hmem) option" where
  "hmap_detach_helper m d = do {
     (x, m) \<leftarrow> hdata_detach m d;
     m \<leftarrow> (if d \<noteq> shared_null
       then do { (r, m) \<leftarrow> ref_dec m d; if r = 0 then freeData m d else Some m }
       else Some m);
     Some (x, m) }"

definition hmap_detach :: "('k, 'v) hmem \<Rightarrow> addr \<Rightarrow> (addr \<times> ('k, 'v) hmem) option" where
  "hmap_detach m d = do { D \<leftarrow> hm_datas m d; if 1 < hd_ref D then hmap_detach_helper m d else Some (d, m) }"

text \<open>
  \<^verbatim>\<open>findNode\<close> returns the place of the pointer to the node or to the end: the member of the handle, a bucket or
  the field of a node.
\<close>

datatype slot = Member | Bucket nat | Next addr

definition read_slot :: "('k, 'v) hmem \<Rightarrow> addr \<Rightarrow> slot \<Rightarrow> hptr option" where
  "read_slot m d s = (case s of
     Member \<Rightarrow> Some (End d)
   | Bucket i \<Rightarrow> do { D \<leftarrow> hm_datas m d; if i < length (hd_buckets D) then Some (hd_buckets D ! i) else None }
   | Next a \<Rightarrow> map_option hn_next (hm_nodes m a))"

partial_function (option) find_loop :: "('k, 'v) hmem \<Rightarrow> addr \<Rightarrow> 'k \<Rightarrow> 32 word \<Rightarrow> slot \<Rightarrow> slot option" where
  "find_loop m d k h s = do {
     p \<leftarrow> read_slot m d s;
     if p = End d then Some s
     else case p of
       Node a \<Rightarrow> do {
         n \<leftarrow> hm_nodes m a;
         if hn_key n = k \<and> hn_hash n = h then Some s else find_loop m d k h (Next a) }
     | _ \<Rightarrow> None }"

definition findNode :: "('k, 'v) hmem \<Rightarrow> addr \<Rightarrow> 'k \<Rightarrow> 32 word \<Rightarrow> slot option" where
  "findNode m d k h = do {
     D \<leftarrow> hm_datas m d;
     if hd_numBuckets D \<noteq> 0
     then do {
       let s = Bucket (unat h mod hd_numBuckets D);
       p \<leftarrow> read_slot m d s;
       nn \<leftarrow> next_of m p;
       if p = End d \<or> nn \<noteq> Null then find_loop m d k h s else None }
     else Some Member }"

text \<open>Storing to the member would make the node the block of the handle.\<close>

definition write_slot :: "('k, 'v) hmem \<Rightarrow> addr \<Rightarrow> slot \<Rightarrow> hptr \<Rightarrow> ('k, 'v) hmem option" where
  "write_slot m d s p = (case s of
     Member \<Rightarrow> None
   | Bucket i \<Rightarrow> do {
       D \<leftarrow> hm_datas m d;
       if i < length (hd_buckets D) then Some (put_data m d (D\<lparr>hd_buckets := (hd_buckets D)[i := p]\<rparr>)) else None }
   | Next a \<Rightarrow> set_next m (Node a) p)"

definition hmap_createNode :: "('k, 'v) hmem \<Rightarrow> addr \<Rightarrow> 32 word \<Rightarrow> 'k \<Rightarrow> 'v \<Rightarrow> slot \<Rightarrow> (hptr \<times> ('k, 'v) hmem) option" where
  "hmap_createNode m d h key value nextNode = do {
     next \<leftarrow> read_slot m d nextNode;
     (a, m) \<leftarrow> allocateNode m d;
     m \<leftarrow> write_slot (put_node m a \<lparr>hn_next = next, hn_hash = h, hn_key = key, hn_value = value\<rparr>) d nextNode (Node a);
     D \<leftarrow> hm_datas m d;
     Some (Node a, put_data m d (D\<lparr>hd_size := hd_size D + 1\<rparr>)) }"

text \<open>Insertion returns the handle's block and an iterator.\<close>

definition hmap_insert :: "('k \<Rightarrow> 32 word) \<Rightarrow> ('k, 'v) hmem \<Rightarrow> addr \<Rightarrow> 'k \<Rightarrow> 'v \<Rightarrow> (hptr \<times> addr \<times> ('k, 'v) hmem) option" where
  "hmap_insert H m d key value = do {
     (d, m) \<leftarrow> hmap_detach m d;
     let h = H key;
     node \<leftarrow> findNode m d key h;
     p \<leftarrow> read_slot m d node;
     if p = End d
     then do {
       (g, m) \<leftarrow> hdata_grow m d;
       node \<leftarrow> (if g then findNode m d key h else Some node);
       (p, m) \<leftarrow> hmap_createNode m d h key value node;
       Some (p, d, m) }
     else Some (p, d, m) }"

definition hmap_find :: "('k \<Rightarrow> 32 word) \<Rightarrow> ('k, 'v) hmem \<Rightarrow> addr \<Rightarrow> 'k \<Rightarrow> (hptr \<times> addr \<times> ('k, 'v) hmem) option" where
  "hmap_find H m d key = do {
     (d, m) \<leftarrow> hmap_detach m d;
     node \<leftarrow> findNode m d key (H key);
     p \<leftarrow> read_slot m d node;
     Some (p, d, m) }"

definition hmap_find_const :: "('k \<Rightarrow> 32 word) \<Rightarrow> ('k, 'v) hmem \<Rightarrow> addr \<Rightarrow> 'k \<Rightarrow> hptr option" where
  "hmap_find_const H m d key = do { node \<leftarrow> findNode m d key (H key); read_slot m d node }"

text \<open>A reference to a value is the node it is in; \<^verbatim>\<open>at\<close> inserts a default value when the key is missing.\<close>

definition hmap_at :: "('k \<Rightarrow> 32 word) \<Rightarrow> 'v \<Rightarrow> ('k, 'v) hmem \<Rightarrow> addr \<Rightarrow> 'k \<Rightarrow> ((unit + addr) \<times> addr \<times> ('k, 'v) hmem) option" where
  "hmap_at H dflt m d key = do {
     (d, m) \<leftarrow> hmap_detach m d;
     node \<leftarrow> findNode m d key (H key);
     p \<leftarrow> read_slot m d node;
     if p = End d
     then do {
       (it, d, m) \<leftarrow> hmap_insert H m d key dflt;
       (d, m) \<leftarrow> hmap_detach m d;
       if it = End d then Some (Inl (), d, m)
       else case it of Node a \<Rightarrow> do { _ \<leftarrow> hm_nodes m a; Some (Inr a, d, m) } | _ \<Rightarrow> None }
     else case p of Node a \<Rightarrow> Some (Inr a, d, m) | _ \<Rightarrow> None }"

definition hmap_at_const :: "('k \<Rightarrow> 32 word) \<Rightarrow> ('k, 'v) hmem \<Rightarrow> addr \<Rightarrow> 'k \<Rightarrow> 'v \<Rightarrow> 'v option" where
  "hmap_at_const H m d key v = do {
     node \<leftarrow> findNode m d key (H key);
     p \<leftarrow> read_slot m d node;
     if p = End d then Some v
     else case p of Node a \<Rightarrow> map_option hn_value (hm_nodes m a) | _ \<Rightarrow> None }"

text \<open>\<^verbatim>\<open>m[key] = value\<close>.\<close>

definition hmap_store :: "('k \<Rightarrow> 32 word) \<Rightarrow> 'v \<Rightarrow> ('k, 'v) hmem \<Rightarrow> addr \<Rightarrow> 'k \<Rightarrow> 'v \<Rightarrow> ((unit + unit) \<times> addr \<times> ('k, 'v) hmem) option" where
  "hmap_store H dflt m d key value = do {
     (d, m) \<leftarrow> hmap_detach m d;
     (r, d, m) \<leftarrow> hmap_at H dflt m d key;
     case r of
       Inl e \<Rightarrow> Some (Inl e, d, m)
     | Inr a \<Rightarrow> do { n \<leftarrow> hm_nodes m a; Some (Inr (), d, put_node m a (n\<lparr>hn_value := value\<rparr>)) } }"

definition hmap_reserve :: "('k, 'v) hmem \<Rightarrow> addr \<Rightarrow> nat \<Rightarrow> (addr \<times> ('k, 'v) hmem) option" where
  "hmap_reserve m d n =
    (if 0 < n then do { (d, m) \<leftarrow> hmap_detach m d; m \<leftarrow> hdata_rehash m d (- int n); Some (d, m) } else Some (d, m))"

definition hmap_size :: "('k, 'v) hmem \<Rightarrow> addr \<Rightarrow> nat option" where "hmap_size m d = map_option hd_size (hm_datas m d)"
definition hmap_empty :: "('k, 'v) hmem \<Rightarrow> addr \<Rightarrow> bool option" where "hmap_empty m d = map_option (\<lambda>D. hd_size D = 0) (hm_datas m d)"
definition hmap_capacity :: "('k, 'v) hmem \<Rightarrow> addr \<Rightarrow> nat option" where "hmap_capacity m d = map_option hd_numBuckets (hm_datas m d)"

text \<open>Iterators are pointers; the non-constant ones are of a block of the handle's own.\<close>

definition hmap_begin :: "('k, 'v) hmem \<Rightarrow> addr \<Rightarrow> (hptr \<times> addr \<times> ('k, 'v) hmem) option" where
  "hmap_begin m d = do { (d, m) \<leftarrow> hmap_detach m d; p \<leftarrow> hdata_firstNode m d; Some (p, d, m) }"

definition hmap_end :: "('k, 'v) hmem \<Rightarrow> addr \<Rightarrow> (hptr \<times> addr \<times> ('k, 'v) hmem) option" where
  "hmap_end m d = do { (d, m) \<leftarrow> hmap_detach m d; Some (End d, d, m) }"

text \<open>The constructor from a list rehashes the static block before it inserts.\<close>

fun hmap_insert_all :: "('k \<Rightarrow> 32 word) \<Rightarrow> ('k, 'v) hmem \<Rightarrow> addr \<Rightarrow> ('k \<times> 'v) list \<Rightarrow> (addr \<times> ('k, 'v) hmem) option" where
  "hmap_insert_all H m d [] = Some (d, m)"
| "hmap_insert_all H m d (p # ps) = do { (_, d, m) \<leftarrow> hmap_insert H m d (fst p) (snd p); hmap_insert_all H m d ps }"

definition hmap_of_list :: "('k \<Rightarrow> 32 word) \<Rightarrow> ('k, 'v) hmem \<Rightarrow> ('k \<times> 'v) list \<Rightarrow> (addr \<times> ('k, 'v) hmem) option" where
  "hmap_of_list H m ps = do {
     m \<leftarrow> hdata_rehash m shared_null (- int (max (length ps) 1));
     hmap_insert_all H m shared_null ps }"

section \<open>Hashing bytes\<close>

text \<open>\<^verbatim>\<open>HashCmptBase::compute\<close> is FNV-1a, \<^verbatim>\<open>compute2\<close> xors and rotates words and then bytes.\<close>

definition offset_basis :: "32 word" where "offset_basis = 2166136261"
definition fnv_prime :: "32 word" where "fnv_prime = 16777619"

fun hash_compute_loop :: "32 word \<Rightarrow> 8 word list \<Rightarrow> 32 word" where
  "hash_compute_loop v [] = v"
| "hash_compute_loop v (k # ks) = hash_compute_loop ((v XOR ucast k) * fnv_prime) ks"

definition hash_compute :: "8 word list \<Rightarrow> 32 word" where
  "hash_compute key = hash_compute_loop offset_basis key"

fun hash_compute2_loop :: "32 word \<Rightarrow> 8 word list \<Rightarrow> 32 word" where
  "hash_compute2_loop h (a # b # c # d # ks) =
    (let h = h XOR (ucast a OR push_bit 8 (ucast b) OR push_bit 16 (ucast c) OR push_bit 24 (ucast d))
     in hash_compute2_loop (push_bit 13 h OR drop_bit 19 h) ks)"
| "hash_compute2_loop h [] = h"
| "hash_compute2_loop h (a # ks) =
    (let h = h XOR ucast a in hash_compute2_loop (push_bit 8 h OR drop_bit 24 h) ks)"

definition hash_compute2 :: "8 word list \<Rightarrow> 32 word" where
  "hash_compute2 key = hash_compute2_loop 0 key"

end
