(* ===== verification/Hmap_Rep.thy ===== *)
theory Hmap_Rep
  imports Hmap_Ops
begin

text \<open>
  What a memory of hash blocks represents. The buckets of a block are lists of addresses of nodes; the
  view of the memory gives the finite map of every block and its reference count. The end of a chain names
  its block, so chains of different blocks have no node in common.
\<close>

section \<open>Chains\<close>

fun seg :: "('k, 'v) hmem \<Rightarrow> hptr \<Rightarrow> addr list \<Rightarrow> hptr \<Rightarrow> bool" where
  "seg m p [] q \<longleftrightarrow> p = q"
| "seg m p (a # as) q \<longleftrightarrow> p = Node a \<and> (case hm_nodes m a of None \<Rightarrow> False | Some n \<Rightarrow> seg m (hn_next n) as q)"

abbreviation chain :: "('k, 'v) hmem \<Rightarrow> addr \<Rightarrow> hptr \<Rightarrow> addr list \<Rightarrow> bool" where
  "chain m d p as \<equiv> seg m p as (End d)"

definition hkey :: "('k, 'v) hmem \<Rightarrow> addr \<Rightarrow> 'k" where "hkey m a = hn_key (the (hm_nodes m a))"
definition hvalue :: "('k, 'v) hmem \<Rightarrow> addr \<Rightarrow> 'v" where "hvalue m a = hn_value (the (hm_nodes m a))"
definition hhash :: "('k, 'v) hmem \<Rightarrow> addr \<Rightarrow> 32 word" where "hhash m a = hn_hash (the (hm_nodes m a))"

lemma seg_Cons [simp]: "seg m p (a # as) q \<longleftrightarrow> p = Node a \<and> (\<exists>n. hm_nodes m a = Some n \<and> seg m (hn_next n) as q)"
  by (auto split: option.splits)

declare seg.simps(2) [simp del]

lemma seg_append: "seg m p (as @ bs) q \<longleftrightarrow> (\<exists>r. seg m p as r \<and> seg m r bs q)"
  by (induction as arbitrary: p) auto

lemma seg_cong: "(\<And>a. a \<in> set as \<Longrightarrow> hm_nodes m' a = hm_nodes m a) \<Longrightarrow> seg m' p as q = seg m p as q"
  by (induction as arbitrary: p) auto

lemma seg_keep: "seg m p as q \<Longrightarrow> (\<And>a. a \<in> set as \<Longrightarrow> hm_nodes m' a = hm_nodes m a) \<Longrightarrow> seg m' p as q"
  using seg_cong by blast

lemma chains_keep:
  "list_all2 (chain m d) ps ass \<Longrightarrow> (\<And>a. a \<in> set (concat ass) \<Longrightarrow> hm_nodes m' a = hm_nodes m a) \<Longrightarrow> list_all2 (chain m' d) ps ass"
  by (rule list.rel_mono_strong, assumption, erule seg_keep) auto

lemma seg_node: "seg m p as q \<Longrightarrow> a \<in> set as \<Longrightarrow> \<exists>n. hm_nodes m a = Some n"
  by (induction as arbitrary: p) auto

lemma seg_head: "seg m p as q \<Longrightarrow> p = (case as of [] \<Rightarrow> q | a # _ \<Rightarrow> Node a)"
  by (cases as) auto

lemma chain_unique: "chain m d p as \<Longrightarrow> chain m e p bs \<Longrightarrow> d = e \<and> as = bs"
proof (induction as arbitrary: p bs)
  case Nil
  then show ?case by (cases bs) auto
next
  case (Cons a as)
  then show ?case by (cases bs) auto
qed

lemma chain_meet:
  assumes "chain m d p as" "chain m e q bs" "a \<in> set as" "a \<in> set bs"
  shows "d = e"
proof -
  obtain as1 as2 bs1 bs2 where "as = as1 @ a # as2" "bs = bs1 @ a # bs2"
    using assms(3,4) by (auto simp: in_set_conv_decomp)
  then have "chain m d (Node a) (a # as2)" "chain m e (Node a) (a # bs2)"
    using assms(1,2) by (auto simp: seg_append)
  then show ?thesis using chain_unique by blast
qed

lemma chain_distinct: "chain m d p as \<Longrightarrow> distinct as"
proof (induction as arbitrary: p)
  case (Cons a as)
  then obtain n where n: "hm_nodes m a = Some n" "chain m d (hn_next n) as" "p = Node a"
    by auto
  have "a \<notin> set as"
  proof
    assume "a \<in> set as"
    then obtain bs cs where cs: "as = bs @ a # cs" by (auto simp: in_set_conv_decomp)
    then have "chain m d (Node a) (a # cs)" using n(2) by (auto simp: seg_append)
    then have "a # as = a # cs" using chain_unique Cons.prems n(3) by blast
    then show False using cs by simp
  qed
  then show ?case using Cons.IH n(2) by simp
qed simp

text \<open>Reading through a chain.\<close>

lemma chain_Node: "chain m d (Node a) as \<longleftrightarrow> (\<exists>n bs. as = a # bs \<and> hm_nodes m a = Some n \<and> chain m d (hn_next n) bs)"
  by (cases as) auto

lemma chain_End: "chain m d (End e) as \<longleftrightarrow> as = [] \<and> e = d"
  by (cases as) auto

lemma chain_Null [simp]: "\<not> chain m d Null as"
  by (cases as) auto

section \<open>Blocks\<close>

definition keep :: "('k \<Rightarrow> 32 word) \<Rightarrow> ('k, 'v) hmem \<Rightarrow> nat \<Rightarrow> addr list \<Rightarrow> nat \<Rightarrow> bool" where
  "keep H m nb as i \<longleftrightarrow> (\<forall>a\<in>set as. hhash m a = H (hkey m a) \<and> unat (hhash m a) mod nb = i)"

definition bits_ok :: "hdata \<Rightarrow> bool" where
  "bits_ok D \<longleftrightarrow> (if hd_numBuckets D = 0 then hd_numBits D = minNumBits
     else hd_nodeSize D = 1 \<and> primeForNumBits (hd_numBits D) = Some (hd_numBuckets D))"

definition block_ok :: "('k \<Rightarrow> 32 word) \<Rightarrow> ('k, 'v) hmem \<Rightarrow> addr \<Rightarrow> hdata \<Rightarrow> addr list list \<Rightarrow> bool" where
  "block_ok H m d D ass \<longleftrightarrow> hd_fakeNode D = Null \<and> hd_numBuckets D = length ass \<and> bits_ok D
     \<and> list_all2 (chain m d) (hd_buckets D) ass
     \<and> (\<forall>i < length ass. keep H m (length ass) (ass ! i) i)
     \<and> distinct (map (hkey m) (concat ass)) \<and> hd_size D = length (concat ass)"

definition hcontent :: "('k, 'v) hmem \<Rightarrow> addr list list \<Rightarrow> ('k \<rightharpoonup> 'v)" where
  "hcontent m ass = map_of (map (\<lambda>a. (hkey m a, hvalue m a)) (concat ass))"

definition hmem_ok :: "('k \<Rightarrow> 32 word) \<Rightarrow> ('k, 'v) hmem \<Rightarrow> (addr \<Rightarrow> addr list list) \<Rightarrow> bool" where
  "hmem_ok H m T \<longleftrightarrow> (\<forall>d D. hm_datas m d = Some D \<longrightarrow> block_ok H m d D (T d))
     \<and> (\<forall>a n. hm_nodes m a = Some n \<longrightarrow> a < hm_next m) \<and> (\<forall>d D. hm_datas m d = Some D \<longrightarrow> d < hm_next m)
     \<and> (\<forall>a n. hm_nodes m a = Some n \<longrightarrow> (\<exists>d D. hm_datas m d = Some D \<and> a \<in> set (concat (T d))))
     \<and> (\<forall>d D. hm_datas m d = Some D \<longrightarrow> d \<noteq> shared_null \<longrightarrow> hd_numBuckets D \<noteq> 0)
     \<and> (\<exists>D. hm_datas m shared_null = Some D \<and> hd_numBuckets D = 0)"

definition hmem_rep :: "('k \<Rightarrow> 32 word) \<Rightarrow> ('k, 'v) hmem \<Rightarrow> (addr \<rightharpoonup> ('k \<rightharpoonup> 'v) \<times> 32 word) \<Rightarrow> bool" where
  "hmem_rep H m V \<longleftrightarrow> (\<exists>T. hmem_ok H m T \<and> V = (\<lambda>d. map_option (\<lambda>D. (hcontent m (T d), hd_ref D)) (hm_datas m d)))"

text \<open>A block depends on its nodes only.\<close>

lemma fields_cong:
  assumes "hm_nodes m' a = hm_nodes m a"
  shows "hkey m' a = hkey m a" "hvalue m' a = hvalue m a" "hhash m' a = hhash m a"
  using assms by (simp_all add: hkey_def hvalue_def hhash_def)

lemma block_cong:
  assumes "\<And>a. a \<in> set (concat ass) \<Longrightarrow> hm_nodes m' a = hm_nodes m a"
  shows "block_ok H m' d D ass = block_ok H m d D ass" "hcontent m' ass = hcontent m ass"
proof -
  have f: "hkey m' a = hkey m a" "hvalue m' a = hvalue m a" "hhash m' a = hhash m a" if "a \<in> set (concat ass)" for a
    using fields_cong [OF assms [OF that]] by auto
  have "list_all2 (chain m' d) ps ass = list_all2 (chain m d) ps ass" for ps
    by (rule list.rel_cong [OF refl refl], rule seg_cong) (use assms in auto)
  moreover have "keep H m' n as i = keep H m n as i" if "as \<in> set ass" for as i n
  proof -
    have "hhash m' a = hhash m a" "hkey m' a = hkey m a" if "a \<in> set as" for a using f that \<open>as \<in> set ass\<close> by auto
    then show ?thesis by (simp add: keep_def)
  qed
  moreover have keys: "map (hkey m') (concat ass) = map (hkey m) (concat ass)" by (rule map_cong [OF refl]) (rule f(1))
  ultimately show "block_ok H m' d D ass = block_ok H m d D ass" unfolding block_ok_def keys by simp
  have "map (\<lambda>a. (hkey m' a, hvalue m' a)) (concat ass) = map (\<lambda>a. (hkey m a, hvalue m a)) (concat ass)"
    by (intro map_cong refl) (use f in auto)
  then show "hcontent m' ass = hcontent m ass" by (simp only: hcontent_def)
qed

section \<open>Changing one block\<close>

lemma hmem_block: "hmem_ok H m T \<Longrightarrow> hm_datas m d = Some D \<Longrightarrow> block_ok H m d D (T d)"
  by (simp add: hmem_ok_def)

lemma block_chain:
  assumes "block_ok H m d D ass" "i < length ass"
  shows "i < length (hd_buckets D)" "chain m d (hd_buckets D ! i) (ass ! i)"
  using assms by (auto simp: block_ok_def list_all2_conv_all_nth)

lemma block_node:
  assumes "block_ok H m d D ass" "a \<in> set (concat ass)"
  obtains i n where "i < length ass" "a \<in> set (ass ! i)" "hm_nodes m a = Some n"
proof -
  obtain as where "as \<in> set ass" "a \<in> set as" using assms(2) by auto
  then obtain i where i: "i < length ass" "a \<in> set (ass ! i)" by (auto simp: in_set_conv_nth [of as])
  then show thesis using seg_node [OF block_chain(2) [OF assms(1) i(1)] i(2)] that by blast
qed

lemma blocks_apart:
  assumes "hmem_ok H m T" "hm_datas m d = Some D" "hm_datas m e = Some E" "d \<noteq> e" "a \<in> set (concat (T d))"
  shows "a \<notin> set (concat (T e))"
proof
  assume a: "a \<in> set (concat (T e))"
  have b: "block_ok H m d D (T d)" "block_ok H m e E (T e)" using assms(1-3) hmem_block by blast+
  obtain i j where "i < length (T d)" "a \<in> set (T d ! i)" "j < length (T e)" "a \<in> set (T e ! j)"
    using block_node [OF b(1) assms(5)] block_node [OF b(2) a] by metis
  then show False using block_chain(2) [OF b(1)] block_chain(2) [OF b(2)] chain_meet assms(4) by metis
qed

lemma hmem_live:
  assumes "hmem_ok H m T" "hm_datas m d = Some D" "a \<in> set (concat (T d))"
  shows "a < hm_next m"
  using block_node [OF hmem_block [OF assms(1,2)] assms(3)] assms(1) unfolding hmem_ok_def by metis

definition own :: "('k, 'v) hmem \<Rightarrow> (addr \<Rightarrow> addr list list) \<Rightarrow> addr \<Rightarrow> addr set" where
  "own m T d = (if hm_datas m d = None then {} else set (concat (T d)))"

lemma hmem_change:
  assumes ok: "hmem_ok H m T" and D: "hm_datas m' = (hm_datas m)(d \<mapsto> D')" and b: "block_ok H m' d D' ass"
    and frame: "\<And>a. a \<notin> own m T d \<Longrightarrow> a < hm_next m \<Longrightarrow> hm_nodes m' a = hm_nodes m a"
    and dom: "\<And>a n. hm_nodes m' a = Some n \<Longrightarrow> a \<in> own m T d \<or> hm_next m \<le> a \<Longrightarrow> a \<in> set (concat ass) \<and> a < hm_next m'"
    and nxt: "hm_next m \<le> hm_next m'" "d < hm_next m'" and null: "hd_numBuckets D' = 0 \<longleftrightarrow> d = shared_null"
  shows "hmem_ok H m' (T(d := ass))" "\<And>e E. hm_datas m e = Some E \<Longrightarrow> e \<noteq> d \<Longrightarrow> hcontent m' (T e) = hcontent m (T e)"
proof -
  have same: "hm_nodes m' a = hm_nodes m a" if "hm_datas m e = Some E" "e \<noteq> d" "a \<in> set (concat (T e))" for a e E
  proof (rule frame)
    show "a \<notin> own m T d" using blocks_apart [OF ok that(1) _ that(2,3)] by (auto simp: own_def)
    show "a < hm_next m" by (rule hmem_live [OF ok that(1,3)])
  qed
  show "hcontent m' (T e) = hcontent m (T e)" if "hm_datas m e = Some E" "e \<noteq> d" for e E
    by (rule block_cong(2)) (rule same [OF that])
  have other: "block_ok H m' e E (T e)" if "hm_datas m e = Some E" "e \<noteq> d" for e E
    using block_cong(1) [OF same [OF that]] hmem_block [OF ok that(1)] by blast
  have nodes: "a < hm_next m' \<and> (\<exists>e E. hm_datas m' e = Some E \<and> a \<in> set (concat ((T(d := ass)) e)))"
    if n: "hm_nodes m' a = Some n" for a n
  proof (cases "a \<in> own m T d \<or> hm_next m \<le> a")
    case True
    then have "hm_datas m' d = Some D' \<and> a \<in> set (concat ((T(d := ass)) d))" using dom [OF n] D by simp
    then show ?thesis using dom [OF n True] by blast
  next
    case False
    then have m: "hm_nodes m a = Some n" "a < hm_next m" using frame n by auto
    then obtain e E where e: "hm_datas m e = Some E" "a \<in> set (concat (T e))" using ok unfolding hmem_ok_def by blast
    moreover have "e \<noteq> d" using e False by (auto simp: own_def)
    ultimately have "hm_datas m' e = Some E \<and> a \<in> set (concat ((T(d := ass)) e))" using D by simp
    then show ?thesis using m(2) nxt(1) by (meson less_le_trans)
  qed
  show "hmem_ok H m' (T(d := ass))" unfolding hmem_ok_def
  proof (intro conjI allI impI)
    show "block_ok H m' e E ((T(d := ass)) e)" if "hm_datas m' e = Some E" for e E
      using that other b D by (cases "e = d") auto
    show "a < hm_next m'" if "hm_nodes m' a = Some n" for a n using nodes that by blast
    show "\<exists>e E. hm_datas m' e = Some E \<and> a \<in> set (concat ((T(d := ass)) e))" if "hm_nodes m' a = Some n" for a n
      using nodes that by blast
    show "e < hm_next m'" if "hm_datas m' e = Some E" for e E
      using that D nxt ok unfolding hmem_ok_def by (cases "e = d") (auto intro: less_le_trans)
    show "hd_numBuckets E \<noteq> 0" if "hm_datas m' e = Some E" "e \<noteq> shared_null" for e E
      using that D null ok unfolding hmem_ok_def by (cases "e = d") auto
    show "\<exists>E. hm_datas m' shared_null = Some E \<and> hd_numBuckets E = 0"
      using D null ok unfolding hmem_ok_def by (cases "d = shared_null") auto
  qed
qed

lemma hview_change:
  assumes "hmem_ok H m T" "V = (\<lambda>d. map_option (\<lambda>D. (hcontent m (T d), hd_ref D)) (hm_datas m d))"
    and "hm_datas m' = (hm_datas m)(d \<mapsto> D')" "hmem_ok H m' (T(d := ass))"
    and "\<And>e E. hm_datas m e = Some E \<Longrightarrow> e \<noteq> d \<Longrightarrow> hcontent m' (T e) = hcontent m (T e)"
  shows "hmem_rep H m' (V(d \<mapsto> (hcontent m' ass, hd_ref D')))"
proof -
  have "(V(d \<mapsto> (hcontent m' ass, hd_ref D'))) e = map_option (\<lambda>D. (hcontent m' ((T(d := ass)) e), hd_ref D)) (hm_datas m' e)" for e
    using assms(5) [of e] by (cases "e = d"; cases "hm_datas m e") (simp_all add: assms(2,3))
  then have "V(d \<mapsto> (hcontent m' ass, hd_ref D')) = (\<lambda>e. map_option (\<lambda>D. (hcontent m' ((T(d := ass)) e), hd_ref D)) (hm_datas m' e))" ..
  then show ?thesis using assms(4) unfolding hmem_rep_def by blast
qed

end
