(* ===== verification/Hmap_Chain.thy ===== *)
theory Hmap_Chain
  imports Hmap_Rep
begin

text \<open>
  The loops over chains: search, the last node, the run of equal hashes, freeing and copying. Each returns
  what the list of the addresses in the chain says.
\<close>

section \<open>Writing through pointers\<close>

lemma put_node_simps [simp]:
  "hm_nodes (put_node m a n) = (hm_nodes m)(a \<mapsto> n)" "hm_datas (put_node m a n) = hm_datas m"
  "hm_next (put_node m a n) = hm_next m" "hm_low (put_node m a n) = hm_low m"
  by (simp_all add: put_node_def)

lemma put_data_simps [simp]:
  "hm_nodes (put_data m d D) = hm_nodes m" "hm_datas (put_data m d D) = (hm_datas m)(d \<mapsto> D)"
  "hm_next (put_data m d D) = hm_next m" "hm_low (put_data m d D) = hm_low m"
  by (simp_all add: put_data_def)

lemma seg_redirect:
  assumes "seg m p (as @ [b]) r" "b \<notin> set as" "hm_nodes m b = Some n" "hm_nodes m' = (hm_nodes m)(b \<mapsto> n\<lparr>hn_next := q\<rparr>)"
  shows "seg m' p (as @ [b]) q"
proof -
  have "seg m p as (Node b)" using assms(1) by (auto simp: seg_append)
  then have "seg m' p as (Node b)" by (rule seg_keep) (use assms(2,4) in auto)
  then show ?thesis using assms(3,4) by (auto simp: seg_append)
qed

section \<open>Search\<close>

definition slot_after :: "slot \<Rightarrow> addr list \<Rightarrow> slot" where
  "slot_after s as = (if as = [] then s else Next (last as))"

lemma find_loop_chain:
  assumes "chain m d p as" "read_slot m d s = Some p"
  shows "find_loop m d k h s = Some (slot_after s (takeWhile (\<lambda>a. \<not> (hkey m a = k \<and> hhash m a = h)) as))"
  using assms
proof (induction as arbitrary: p s)
  case Nil
  then show ?case by (subst find_loop.simps) (simp add: slot_after_def)
next
  case (Cons a as)
  then obtain n where n: "p = Node a" "hm_nodes m a = Some n" "chain m d (hn_next n) as" by auto
  have "read_slot m d (Next a) = Some (hn_next n)" using n(2) by (simp add: read_slot_def)
  from Cons.IH [OF n(3) this] show ?case
    by (subst find_loop.simps) (auto simp: Cons.prems(2) n(1,2) hkey_def hhash_def slot_after_def)
qed

lemma slot_after_reads:
  assumes "chain m d p (as @ bs)" "read_slot m d s = Some p"
  shows "read_slot m d (slot_after s as) = Some (case bs of [] \<Rightarrow> End d | b # _ \<Rightarrow> Node b)"
proof (cases as rule: rev_cases)
  case Nil
  then show ?thesis using assms seg_head by (auto simp: slot_after_def)
next
  case (snoc as' a)
  then obtain n where "hm_nodes m a = Some n" "chain m d (hn_next n) bs" using assms(1) by (auto simp: seg_append)
  then show ?thesis using snoc seg_head [of m "hn_next n" bs] by (auto simp: slot_after_def read_slot_def split: list.splits)
qed

section \<open>The last node and runs\<close>

lemma next_of_Node: "hm_nodes m a = Some n \<Longrightarrow> next_of m (Node a) = Some (hn_next n)"
  by simp

lemma chain_last_chain: "chain m d p as \<Longrightarrow> chain_last m d q p = Some (if as = [] then q else Node (last as))"
proof (induction as arbitrary: p q)
  case Nil
  then show ?case by (subst chain_last.simps) simp
next
  case (Cons a as)
  then show ?case by (subst chain_last.simps) auto
qed

lemma hash_at_head:
  assumes "chain m d p as" "hm_datas m d = Some D"
  shows "hash_at m p = Some (case as of [] \<Rightarrow> hm_low m (hd_array D) | a # _ \<Rightarrow> hhash m a)"
  using assms by (cases as) (auto simp: hhash_def)

lemma run_end_chain:
  assumes "chain m d (Node a) (a # as)" "hm_datas m d = Some D" "hm_low m (hd_array D) \<noteq> h"
  shows "run_end m d h (Node a) = Some (Node (last (a # takeWhile (\<lambda>b. hhash m b = h) as)))"
  using assms(1)
proof (induction as arbitrary: a)
  case Nil
  then obtain n where "hm_nodes m a = Some n" "hn_next n = End d" by auto
  then show ?case using assms(2,3) by (subst run_end.simps) simp
next
  case (Cons b as)
  then obtain n where n: "hm_nodes m a = Some n" "hn_next n = Node b" "chain m d (Node b) (b # as)" by auto
  have "hash_at m (Node b) = Some (hhash m b)" using hash_at_head [OF n(3) assms(2)] by simp
  then show ?case using n(1,2) Cons.IH [OF n(3)] by (subst run_end.simps) (simp del: hash_at.simps)
qed

text \<open>When the end is read as a node of the run, the run is said to end there.\<close>

lemma run_end_escapes:
  assumes "chain m d (Node a) (a # as)" "hm_datas m d = Some D" "hm_low m (hd_array D) = h" "\<forall>b\<in>set as. hhash m b = h"
  shows "run_end m d h (Node a) = Some (End d)"
  using assms(1,4)
proof (induction as arbitrary: a)
  case Nil
  then obtain n where "hm_nodes m a = Some n" "hn_next n = End d" by auto
  then show ?case using assms(2,3) by (subst run_end.simps) (simp add: run_end.simps [of m d h "End d"])
next
  case (Cons b as)
  then obtain n where n: "hm_nodes m a = Some n" "hn_next n = Node b" "chain m d (Node b) (b # as)" by auto
  have "hash_at m (Node b) = Some h" using hash_at_head [OF n(3) assms(2)] Cons.prems(2) by simp
  then show ?case using n(1,2) Cons.IH [OF n(3)] Cons.prems(2) by (subst run_end.simps) (simp del: hash_at.simps)
qed

section \<open>Freeing\<close>

lemma free_chain_chain:
  assumes "chain m d p as"
  shows "free_chain m d p = Some (m\<lparr>hm_nodes := hm_nodes m |` (- set as)\<rparr>)"
  using assms
proof (induction as arbitrary: m p)
  case Nil
  then show ?case by (subst free_chain.simps) (simp add: restrict_map_def)
next
  case (Cons a as)
  then obtain n where n: "p = Node a" "hm_nodes m a = Some n" "chain m d (hn_next n) as" by auto
  let ?m = "m\<lparr>hm_nodes := (hm_nodes m)(a := None)\<rparr>"
  have "a \<notin> set as" using chain_distinct [OF Cons.prems] by simp
  then have "chain ?m d (hn_next n) as" by (intro seg_keep [OF n(3)]) auto
  from Cons.IH [OF this] show ?case
    by (subst free_chain.simps) (auto simp: n(1,2) restrict_map_def fun_eq_iff intro!: arg_cong [of _ _ "\<lambda>f. m\<lparr>hm_nodes := f\<rparr>"])
qed

lemma free_chains_chains:
  assumes "list_all2 (chain m d) ps ass" "distinct (concat ass)"
  shows "free_chains m d ps = Some (m\<lparr>hm_nodes := hm_nodes m |` (- set (concat ass))\<rparr>)"
  using assms
proof (induction ass arbitrary: ps m rule: list.induct)
  case Nil
  have "ps = []" using Nil.prems(1) by simp
  then show ?case by (simp add: restrict_map_def)
next
  case (Cons as ass)
  then obtain p ps' where ps: "ps = p # ps'" "chain m d p as" "list_all2 (chain m d) ps' ass"
    by (auto simp: list_all2_Cons2)
  let ?m = "m\<lparr>hm_nodes := hm_nodes m |` (- set as)\<rparr>"
  have "list_all2 (chain ?m d) ps' ass"
    by (rule chains_keep [OF ps(3)]) (use Cons.prems(2) in \<open>auto simp: restrict_map_def\<close>)
  then have "free_chains ?m d ps' = Some (?m\<lparr>hm_nodes := hm_nodes ?m |` (- set (concat ass))\<rparr>)"
    using Cons by auto
  then show ?case using free_chain_chain [OF ps(2)] by (simp add: ps(1) Int_commute)
qed

section \<open>Copying\<close>

definition hinfo :: "('k, 'v) hmem \<Rightarrow> addr \<Rightarrow> 'k \<times> 'v \<times> 32 word" where
  "hinfo m a = (hkey m a, hvalue m a, hhash m a)"

lemma hinfo_cong: "hm_nodes m' a = hm_nodes m a \<Longrightarrow> hinfo m' a = hinfo m a"
  using fields_cong [of m' a m] by (simp add: hinfo_def)

text \<open>The copies are fresh and carry the same keys, values and hashes; nothing else changes.\<close>

definition grows :: "('k, 'v) hmem \<Rightarrow> ('k, 'v) hmem \<Rightarrow> bool" where
  "grows m m' \<longleftrightarrow> hm_datas m' = hm_datas m \<and> hm_low m' = hm_low m \<and> hm_next m \<le> hm_next m'
     \<and> (\<forall>a < hm_next m. hm_nodes m' a = hm_nodes m a)"

lemma grows_trans: "grows m m' \<Longrightarrow> grows m' m'' \<Longrightarrow> grows m m''"
  by (auto simp: grows_def)

lemma copy_chain_chain:
  assumes "chain m d p as" "hm_datas m d = Some D" "hd_nodeSize D \<noteq> 0" "\<And>a. a \<in> set as \<Longrightarrow> a < hm_next m"
    and "\<And>a. hm_next m \<le> a \<Longrightarrow> hm_nodes m a = None"
  obtains q m' bs where "copy_chain m d x p = Some (q, m')" "chain m' x q bs" "map (hinfo m') bs = map (hinfo m) as"
    "grows m m'" "set bs = {hm_next m ..< hm_next m'}" "\<And>a. hm_next m' \<le> a \<Longrightarrow> hm_nodes m' a = None"
proof -
  have "\<exists>q m' bs. copy_chain m d x p = Some (q, m') \<and> chain m' x q bs \<and> map (hinfo m') bs = map (hinfo m) as \<and> grows m m'
    \<and> set bs = {hm_next m ..< hm_next m'} \<and> (\<forall>a \<ge> hm_next m'. hm_nodes m' a = None)"
    using assms
  proof (induction as arbitrary: m p)
    case Nil
    then have "copy_chain m d x p = Some (End x, m)" by (subst copy_chain.simps) simp
    then show ?case using Nil.prems(5) by (intro exI [of _ "End x"] exI [of _ m] exI [of _ "[]"]) (simp add: grows_def)
  next
    case (Cons a as)
    obtain n where n: "p = Node a" "hm_nodes m a = Some n" "chain m d (hn_next n) as" using Cons.prems(1) by auto
    define dup where "dup = hm_next m"
    define m1 where "m1 = put_node (m\<lparr>hm_next := dup + 1\<rparr>) dup (n\<lparr>hn_next := Null\<rparr>)"
    have al: "allocateNode m d = Some (dup, m\<lparr>hm_next := dup + 1\<rparr>)" using Cons.prems(2,3) by (simp add: allocateNode_def dup_def)
    have m1: "hm_nodes m1 = (hm_nodes m)(dup \<mapsto> n\<lparr>hn_next := Null\<rparr>)" "hm_datas m1 = hm_datas m" "hm_next m1 = dup + 1"
      "hm_low m1 = hm_low m" by (simp_all add: m1_def)
    have old: "hm_nodes m1 b = hm_nodes m b" if "b < dup" for b using that by (simp add: m1)
    have as: "b < dup" if "b \<in> set as" for b using Cons.prems(4) that by (simp add: dup_def)
    have "chain m1 d (hn_next n) as" using n(3) by (rule seg_keep) (use old as in blast)
    then obtain q m2 bs where c: "copy_chain m1 d x (hn_next n) = Some (q, m2)" "chain m2 x q bs"
      "map (hinfo m2) bs = map (hinfo m1) as" "grows m1 m2" "set bs = {hm_next m1 ..< hm_next m2}"
      "\<forall>a \<ge> hm_next m2. hm_nodes m2 a = None"
      using Cons.IH [of m1 "hn_next n"] Cons.prems(2,3,5) m1 as by (force simp: dup_def)
    have dup: "hm_nodes m2 dup = Some (n\<lparr>hn_next := Null\<rparr>)" using c(4) m1 by (simp add: grows_def)
    define m3 where "m3 = put_node m2 dup (n\<lparr>hn_next := q\<rparr>)"
    have run: "copy_chain m d x p = Some (Node dup, m3)"
      by (subst copy_chain.simps) (simp add: n(1,2) al c(1) [unfolded m1_def, simplified] dup m3_def)
    have bs: "dup < b" if "b \<in> set bs" for b using that c(5) m1(3) by auto
    have "chain m3 x q bs" using c(2) by (rule seg_keep) (use bs in \<open>auto simp: m3_def\<close>)
    then have ch: "chain m3 x (Node dup) (dup # bs)" by (simp add: m3_def)
    have "hinfo m3 b = hinfo m2 b" if "b \<in> set bs" for b by (rule hinfo_cong) (use bs [OF that] in \<open>simp add: m3_def\<close>)
    moreover have "hinfo m1 b = hinfo m b" if "b \<in> set as" for b by (rule hinfo_cong) (use old as that in blast)
    ultimately have info: "map (hinfo m3) bs = map (hinfo m) as" using c(3) by (metis (no_types, lifting) map_cong)
    have "hinfo m3 dup = hinfo m a" using n(2) by (simp add: hinfo_def hkey_def hvalue_def hhash_def m3_def)
    then have info: "map (hinfo m3) (dup # bs) = map (hinfo m) (a # as)" using info by simp
    have gr: "grows m m3" using c(4) old m1 by (auto simp: grows_def m3_def dup_def)
    have "hm_next m1 \<le> hm_next m2" using c(4) by (simp add: grows_def)
    then have "set (dup # bs) = {hm_next m ..< hm_next m3}" "\<forall>b \<ge> hm_next m3. hm_nodes m3 b = None"
      using c(5,6) m1(3) by (auto simp: m3_def dup_def)
    then show ?case using run ch info gr by blast
  qed
  then show thesis using that by blast
qed

lemma copy_chains_chains:
  assumes "list_all2 (chain m d) ps ass" "hm_datas m d = Some D" "hd_nodeSize D \<noteq> 0 \<or> concat ass = []"
    and "\<And>a. a \<in> set (concat ass) \<Longrightarrow> a < hm_next m" and "\<And>a. hm_next m \<le> a \<Longrightarrow> hm_nodes m a = None"
  obtains qs m' bss where "copy_chains m d x ps = Some (qs, m')" "list_all2 (chain m' x) qs bss"
    "map (map (hinfo m')) bss = map (map (hinfo m)) ass" "grows m m'" "set (concat bss) = {hm_next m ..< hm_next m'}"
    "\<And>a. hm_next m' \<le> a \<Longrightarrow> hm_nodes m' a = None"
proof -
  have "\<exists>qs m' bss. copy_chains m d x ps = Some (qs, m') \<and> list_all2 (chain m' x) qs bss
    \<and> map (map (hinfo m')) bss = map (map (hinfo m)) ass \<and> grows m m'
    \<and> set (concat bss) = {hm_next m ..< hm_next m'} \<and> (\<forall>a \<ge> hm_next m'. hm_nodes m' a = None)"
    using assms
  proof (induction ass arbitrary: m ps rule: list.induct)
    case Nil
    have "ps = []" using Nil.prems(1) by simp
    then show ?case using Nil.prems(5) by (intro exI [of _ "[]"] exI [of _ m] exI [of _ "[]"]) (simp add: grows_def)
  next
    case (Cons as ass)
    then obtain p ps' where ps: "ps = p # ps'" "chain m d p as" "list_all2 (chain m d) ps' ass"
      by (auto simp: list_all2_Cons2)
    obtain q m1 bs where c: "copy_chain m d x p = Some (q, m1)" "chain m1 x q bs" "map (hinfo m1) bs = map (hinfo m) as"
      "grows m m1" "set bs = {hm_next m ..< hm_next m1}" "\<And>a. hm_next m1 \<le> a \<Longrightarrow> hm_nodes m1 a = None"
    proof (cases "as = []")
      case True
      then have "copy_chain m d x p = Some (End x, m)" using ps(2) by (subst copy_chain.simps) simp
      then show thesis using that [of "End x" m "[]"] Cons.prems(5) True by (simp add: grows_def)
    next
      case False
      then show thesis using copy_chain_chain [OF ps(2) Cons.prems(2) _ _ Cons.prems(5)] Cons.prems(3,4) that
        by (metis append_is_Nil_conv concat.simps(2) Un_iff set_append)
    qed
    have old: "hm_nodes m1 a = hm_nodes m a" if "a \<in> set (concat ass)" for a
      using that c(4) Cons.prems(4) by (auto simp: grows_def)
    have next1: "hm_next m \<le> hm_next m1" "hm_datas m1 = hm_datas m" using c(4) by (auto simp: grows_def)
    have lt: "a < hm_next m1" if "a \<in> set (concat ass)" for a using Cons.prems(4) that next1 by fastforce
    obtain qs m2 bss where r: "copy_chains m1 d x ps' = Some (qs, m2)" "list_all2 (chain m2 x) qs bss"
      "map (map (hinfo m2)) bss = map (map (hinfo m1)) ass" "grows m1 m2" "set (concat bss) = {hm_next m1 ..< hm_next m2}"
      "\<forall>a \<ge> hm_next m2. hm_nodes m2 a = None"
      using Cons.IH [OF chains_keep [OF ps(3) old]] Cons.prems(2,3) next1 lt c(6) by (metis append_is_Nil_conv concat.simps(2))
    have next2: "hm_next m1 \<le> hm_next m2" using r(4) by (simp add: grows_def)
    have same: "hm_nodes m2 a = hm_nodes m1 a" if "a \<in> set bs" for a using that r(4) c(5) by (auto simp: grows_def)
    have "chain m2 x q bs" using c(2) by (rule seg_keep) (rule same)
    then have "list_all2 (chain m2 x) (q # qs) (bs # bss)" using r(2) by simp
    moreover have "map (hinfo m2) bs = map (hinfo m1) bs" by (rule map_cong [OF refl], rule hinfo_cong, rule same)
    moreover have "map (map (hinfo m1)) ass = map (map (hinfo m)) ass"
      by (intro map_cong refl hinfo_cong) (rule old, auto)
    moreover have "set (concat (bs # bss)) = {hm_next m ..< hm_next m2}" using c(5) r(5) next1 next2 by auto
    moreover have "copy_chains m d x ps = Some (q # qs, m2)" using c(1) r(1) by (simp add: ps(1))
    ultimately show ?case using grows_trans [OF c(4) r(4)] r(3,6) c(3)
      by (intro exI [of _ "q # qs"] exI [of _ m2] exI [of _ "bs # bss"]) simp
  qed
  then show thesis using that by blast
qed

end
