(* ===== verification/Hmap_Rehash.thy ===== *)
theory Hmap_Rehash
  imports Hmap_Chain "HOL-Library.Multiset"
begin

text \<open>
  Rehashing: the runs of equal hashes of every old chain are appended to the new chain of their hash. In the
  end every node is in the chain of its hash, and no node is lost; the nodes keep their order in a chain.
\<close>

section \<open>Spreading addresses over buckets\<close>

definition drop_in :: "(addr \<Rightarrow> nat) \<Rightarrow> addr list list \<Rightarrow> addr \<Rightarrow> addr list list" where
  "drop_in f bss a = bss[f a := bss ! f a @ [a]]"

definition spread :: "(addr \<Rightarrow> nat) \<Rightarrow> addr list list \<Rightarrow> addr list \<Rightarrow> addr list list" where
  "spread f bss as = foldl (drop_in f) bss as"

definition sorted_into :: "(addr \<Rightarrow> nat) \<Rightarrow> addr list list \<Rightarrow> bool" where
  "sorted_into f bss \<longleftrightarrow> (\<forall>j < length bss. \<forall>a\<in>set (bss ! j). f a = j)"

lemma spread_simps [simp]: "spread f bss [] = bss" "spread f bss (a # as) = spread f (drop_in f bss a) as"
  "spread f bss (as @ cs) = spread f (spread f bss as) cs"
  by (simp_all add: spread_def)

lemma length_spread [simp]: "length (spread f bss as) = length bss"
  by (induction as arbitrary: bss) (simp_all add: drop_in_def)

lemma spread_run:
  "\<forall>a\<in>set run. f a = i \<Longrightarrow> i < length bss \<Longrightarrow> spread f bss run = bss[i := bss ! i @ run]"
  by (induction run arbitrary: bss) (simp_all add: drop_in_def)

lemma sorted_into_spread:
  "sorted_into f bss \<Longrightarrow> sorted_into f (spread f bss as)"
proof (induction as arbitrary: bss)
  case (Cons a as)
  have "f b = j" if "j < length bss" "b \<in> set (drop_in f bss a ! j)" for j b
  proof (cases "j = f a")
    case True
    then have "b \<in> set (bss ! j) \<or> b = a" using that by (auto simp: drop_in_def)
    then show ?thesis using Cons.prems that(1) True unfolding sorted_into_def by metis
  next
    case False
    then have "b \<in> set (bss ! j)" using that by (simp add: drop_in_def)
    then show ?thesis using Cons.prems that(1) unfolding sorted_into_def by metis
  qed
  moreover have "length (drop_in f bss a) = length bss" by (simp add: drop_in_def)
  ultimately have "sorted_into f (drop_in f bss a)" unfolding sorted_into_def by metis
  then show ?case using Cons.IH by simp
qed simp

lemma mset_concat_append:
  assumes "i < length bss"
  shows "mset (concat (bss[i := bss ! i @ run])) = mset (concat bss) + mset run"
proof -
  have "mset (concat (bss[i := bss ! i @ run])) = mset (concat (take i bss @ (bss ! i @ run) # drop (Suc i) bss))"
    using assms by (simp add: upd_conv_take_nth_drop)
  also have "\<dots> = mset (concat (take i bss @ bss ! i # drop (Suc i) bss)) + mset run" by simp
  finally show ?thesis by (simp only: id_take_nth_drop [OF assms, symmetric])
qed

lemma mset_spread:
  "\<forall>a\<in>set as. f a < length bss \<Longrightarrow> mset (concat (spread f bss as)) = mset (concat bss) + mset as"
proof (induction as arbitrary: bss)
  case (Cons a as)
  have "mset (concat (drop_in f bss a)) = mset (concat bss) + {#a#}"
    unfolding drop_in_def by (subst mset_concat_append) (use Cons.prems in auto)
  moreover have "length (drop_in f bss a) = length bss" by (simp add: drop_in_def)
  ultimately show ?case using Cons by simp
qed simp

section \<open>Relinking\<close>

definition relinks :: "('k, 'v) hmem \<Rightarrow> ('k, 'v) hmem \<Rightarrow> addr set \<Rightarrow> bool" where
  "relinks m m' S \<longleftrightarrow> hm_datas m' = hm_datas m \<and> hm_low m' = hm_low m \<and> hm_next m' = hm_next m
     \<and> (\<forall>a. a \<notin> S \<longrightarrow> hm_nodes m' a = hm_nodes m a)
     \<and> (\<forall>a. map_option (\<lambda>n. (hn_hash n, hn_key n, hn_value n)) (hm_nodes m' a)
         = map_option (\<lambda>n. (hn_hash n, hn_key n, hn_value n)) (hm_nodes m a))"

lemma relinks_refl: "relinks m m S"
  by (simp add: relinks_def)

lemma relinks_trans: "relinks m m' S \<Longrightarrow> relinks m' m'' S' \<Longrightarrow> S \<subseteq> R \<Longrightarrow> S' \<subseteq> R \<Longrightarrow> relinks m m'' R"
  unfolding relinks_def by (metis subset_iff)

lemma relinks_frame: "relinks m m' S \<Longrightarrow> a \<notin> S \<Longrightarrow> hm_nodes m' a = hm_nodes m a"
  by (simp add: relinks_def)

lemma relinks_put: "hm_nodes m a = Some n \<Longrightarrow> a \<in> S \<Longrightarrow> relinks m (put_node m a (n\<lparr>hn_next := q\<rparr>)) S"
  by (auto simp: relinks_def)

lemma relinks_info:
  assumes "relinks m m' S"
  shows "hkey m' a = hkey m a" "hvalue m' a = hvalue m a" "hhash m' a = hhash m a"
proof -
  have e: "map_option (\<lambda>n. (hn_hash n, hn_key n, hn_value n)) (hm_nodes m' a) =
      map_option (\<lambda>n. (hn_hash n, hn_key n, hn_value n)) (hm_nodes m a)"
    using assms by (simp add: relinks_def)
  show "hkey m' a = hkey m a" "hvalue m' a = hvalue m a" "hhash m' a = hhash m a"
    using e by (cases "hm_nodes m a"; cases "hm_nodes m' a"; simp add: hkey_def hvalue_def hhash_def)+
qed

lemma relinks_dom: "relinks m m' S \<Longrightarrow> hm_nodes m' a = None \<longleftrightarrow> hm_nodes m a = None"
  by (auto simp: relinks_def dest!: spec [of _ a] split: option.splits)

lemma append_run_chain:
  assumes "list_all2 (chain m d) nbk bss" "seg m (Node a) (a # rs) q" "distinct (a # rs)" "i < length bss"
    and "sorted_into f bss" "set (a # rs) \<inter> set (concat bss) = {}"
  obtains nbk' m' where "append_run m d nbk i (Node a) (Node (last (a # rs))) = Some (nbk', m')"
    "list_all2 (chain m' d) nbk' (bss[i := bss ! i @ a # rs])" "relinks m m' (set (a # rs) \<union> set (concat bss))"
proof -
  let ?run = "a # rs" and ?bs = "bss ! i"
  define b where "b = last ?run"
  obtain as' where run: "?run = as' @ [b]" using append_butlast_last_id [of ?run] by (metis b_def list.distinct(1))
  have len: "length nbk = length bss" using assms(1) by (rule list_all2_lengthD)
  have ch: "chain m d (nbk ! j) (bss ! j)" if "j < length bss" for j using assms(1) that by (auto simp: list_all2_conv_all_nth)
  have b: "b \<in> set ?run" by (simp add: b_def)
  obtain n where n: "hm_nodes m b = Some n" using seg_node [OF assms(2) b] by blast
  define m1 where "m1 = put_node m b (n\<lparr>hn_next := End d\<rparr>)"
  have sub: "set (bss ! j) \<subseteq> set (concat bss)" if "j < length bss" for j using nth_mem [OF that] by auto
  have r1: "relinks m m1 (set ?run \<union> set (concat bss))" unfolding m1_def by (rule relinks_put [OF n]) (rule UnI1, rule b)
  have b_out: "b \<notin> set (bss ! j)" if "j < length bss" for j using sub [OF that] assms(6) b by auto
  have ch1: "chain m1 d (nbk ! j) (bss ! j)" if "j < length bss" for j
    using ch [OF that] by (rule seg_keep) (use b_out [OF that] in \<open>auto simp: m1_def\<close>)
  have run1: "chain m1 d (Node a) ?run"
    unfolding run by (rule seg_redirect [where m = m and n = n and r = q]) (use assms(2,3) run n in \<open>auto simp: m1_def\<close>)
  have set1: "set_next m (Node b) (End d) = Some m1" by (simp add: n m1_def)
  have last1: "chain_last m d Null (nbk ! i) = Some (if ?bs = [] then Null else Node (last ?bs))"
    by (rule chain_last_chain) (rule ch [OF assms(4)])
  show thesis
  proof (cases "?bs = []")
    case True
    have "append_run m d nbk i (Node a) (Node b) = Some (nbk[i := Node a], m1)"
      using assms(4) len last1 set1 True by (simp add: append_run_def del: set_next.simps)
    moreover have "list_all2 (chain m1 d) (nbk[i := Node a]) (bss[i := ?bs @ ?run])"
      by (rule list_all2_update_cong) (use ch1 len run1 True in \<open>auto simp: list_all2_conv_all_nth\<close>)
    ultimately show thesis using that r1 unfolding b_def by blast
  next
    case False
    define c where "c = last ?bs"
    obtain bs' where bs: "?bs = bs' @ [c]" using append_butlast_last_id [OF False] by (metis c_def)
    have c: "c \<in> set ?bs" using False by (simp add: c_def)
    obtain n' where n': "hm_nodes m1 c = Some n'" using seg_node [OF ch1 [OF assms(4)] c] by blast
    define m2 where "m2 = put_node m1 c (n'\<lparr>hn_next := Node a\<rparr>)"
    have set2: "set_next m1 (Node c) (Node a) = Some m2" by (simp add: n' m2_def)
    have "append_run m d nbk i (Node a) (Node b) = Some (nbk, m2)"
      using assms(4) len last1 set1 set2 False by (simp add: append_run_def c_def del: set_next.simps)
    moreover have "relinks m m2 (set ?run \<union> set (concat bss))"
      by (rule relinks_trans [OF r1 relinks_put [OF n', of "set (concat bss)" "Node a", folded m2_def]])
         (use c sub [OF assms(4)] in auto)
    moreover have "list_all2 (chain m2 d) nbk (bss[i := ?bs @ ?run])"
      unfolding list_all2_conv_all_nth
    proof (intro conjI allI impI)
      show "length nbk = length (bss[i := ?bs @ ?run])" using len by simp
      fix j assume "j < length nbk"
      then have j: "j < length bss" using len by simp
      show "chain m2 d (nbk ! j) (bss[i := ?bs @ ?run] ! j)"
      proof (cases "j = i")
        case True
        have "seg m2 (nbk ! i) ?bs (Node a)" unfolding bs
          by (rule seg_redirect [where m = m1 and n = n' and r = "End d"])
             (use ch1 [OF assms(4)] bs chain_distinct [OF ch1 [OF assms(4)]] n' in \<open>auto simp: m2_def\<close>)
        moreover have "chain m2 d (Node a) ?run" using run1
          by (rule seg_keep) (use c sub [OF assms(4)] assms(6) in \<open>auto simp: m2_def\<close>)
        ultimately show ?thesis using True j by (auto simp: seg_append)
      next
        case False
        have "c \<notin> set (bss ! j)" using c assms(4,5) j False unfolding sorted_into_def by metis
        then have "chain m2 d (nbk ! j) (bss ! j)" by (intro seg_keep [OF ch1 [OF j]]) (auto simp: m2_def)
        then show ?thesis using False by simp
      qed
    qed
    ultimately show thesis using that unfolding b_def by blast
  qed
qed

section \<open>The loops\<close>

lemma rehash_chain_chain:
  assumes "chain m d p as" "hm_datas m d = Some D" "list_all2 (chain m d) nbk bss" "sorted_into f bss" "length bss = nb"
    and "\<And>a. a \<in> set as \<Longrightarrow> f a = unat (hhash m a) mod nb \<and> f a < nb \<and> hhash m a \<noteq> hm_low m (hd_array D)"
    and "set as \<inter> set (concat bss) = {}"
  obtains nbk' m' where "rehash_chain m d nb nbk p = Some (nbk', m')" "list_all2 (chain m' d) nbk' (spread f bss as)"
    "relinks m m' (set as \<union> set (concat bss))"
proof -
  have "\<exists>nbk' m'. rehash_chain m d nb nbk p = Some (nbk', m') \<and> list_all2 (chain m' d) nbk' (spread f bss as)
    \<and> relinks m m' (set as \<union> set (concat bss))"
    using assms
  proof (induction as arbitrary: m p nbk bss rule: length_induct)
    case (1 as)
    show ?case
    proof (cases as)
      case Nil
      then have "rehash_chain m d nb nbk p = Some (nbk, m)" using 1(2) by (subst rehash_chain.simps) simp
      then show ?thesis using 1(4) Nil relinks_refl by fastforce
    next
      case (Cons a as')
      define h where "h = hhash m a"
      define rs where "rs = takeWhile (\<lambda>b. hhash m b = h) as'"
      define rest where "rest = dropWhile (\<lambda>b. hhash m b = h) as'"
      have split: "as = (a # rs) @ rest" using Cons by (simp add: rs_def rest_def)
      have p: "p = Node a" using 1(2) Cons by simp
      have a: "f a = unat h mod nb" "f a < nb" "h \<noteq> hm_low m (hd_array D)" using 1(7) [of a] Cons unfolding h_def by (metis list.set_intros(1))+
      have run: "f b = f a" if "b \<in> set (a # rs)" for b
        using that 1(7) [of b] a(1) Cons by (auto simp: rs_def h_def dest: set_takeWhileD)
      obtain q where q: "seg m (Node a) (a # rs) q" "chain m d q rest" using 1(2) p unfolding split seg_append by blast
      define l where "l = last (a # rs)"
      have l: "l \<in> set (a # rs)" by (simp add: l_def)
      have dist: "distinct (a # rs)" "set (a # rs) \<inter> set rest = {}"
        using chain_distinct [OF 1(2)] unfolding split distinct_append by blast+
      have hash: "hash_at m (Node a) = Some h" using hash_at_head [OF 1(2,3)] Cons p by (simp add: h_def)
      have re: "run_end m d h (Node a) = Some (Node l)"
        using run_end_chain [of m a as' d D h] 1(2,3) Cons p a(3) by (simp add: rs_def l_def)
      have nx: "next_of m (Node l) = Some q"
      proof -
        obtain as0 where as0: "a # rs = as0 @ [l]" using append_butlast_last_id [of "a # rs"] by (metis l_def list.distinct(1))
        show ?thesis using q(1) unfolding as0 by (auto simp: seg_append)
      qed
      have disj: "set (a # rs) \<inter> set (concat bss) = {}" using 1(8) unfolding split set_append by blast
      have i: "f a < length bss" using a(2) 1(6) by simp
      obtain nbk1 m1 where ar: "append_run m d nbk (f a) (Node a) (Node l) = Some (nbk1, m1)"
        "list_all2 (chain m1 d) nbk1 (bss[f a := bss ! f a @ a # rs])" "relinks m m1 (set (a # rs) \<union> set (concat bss))"
        unfolding l_def by (rule append_run_chain [OF 1(4) q(1) dist(1) i 1(5) disj])
      let ?bss = "spread f bss (a # rs)"
      have bss: "bss[f a := bss ! f a @ a # rs] = ?bss" by (rule spread_run [symmetric]) (use run i in blast)+
      have set: "set (concat ?bss) = set (concat bss) \<union> set (a # rs)"
      proof -
        have "mset (concat ?bss) = mset (concat bss) + mset (a # rs)" by (rule mset_spread) (use run i in metis)
        then show ?thesis by (metis set_mset_mset set_mset_union)
      qed
      have rel: "hm_nodes m1 b = hm_nodes m b" if "b \<in> set rest" for b
        by (rule relinks_frame [OF ar(3)]) (use that dist(2) 1(8) [unfolded split set_append] in blast)
      have "chain m1 d q rest" using q(2) by (rule seg_keep) (rule rel)
      moreover have "hm_datas m1 d = Some D" "hm_low m1 = hm_low m" using ar(3) 1(3) by (auto simp: relinks_def)
      moreover have "sorted_into f ?bss" "length ?bss = nb" by (rule sorted_into_spread [OF 1(5)]) (use 1(6) length_spread in metis)
      moreover have "set rest \<inter> set (concat ?bss) = {}" using 1(8) dist(2) unfolding set split by auto
      moreover have "f b = unat (hhash m1 b) mod nb \<and> f b < nb \<and> hhash m1 b \<noteq> hm_low m1 (hd_array D)" if "b \<in> set rest" for b
        using 1(7) [of b] that calculation(3) relinks_info(3) [OF ar(3)] split by simp
      moreover have "length rest < length as" using Cons by (simp add: rest_def length_dropWhile_le less_Suc_eq_le)
      ultimately obtain nbk2 m2 where r: "rehash_chain m1 d nb nbk1 q = Some (nbk2, m2)"
        "list_all2 (chain m2 d) nbk2 (spread f ?bss rest)" "relinks m1 m2 (set rest \<union> set (concat ?bss))"
        using 1(1) ar(2) unfolding bss by blast
      have "rehash_chain m d nb nbk p = Some (nbk2, m2)"
        by (subst rehash_chain.simps) (simp add: p hash re nx ar(1) [unfolded a(1)] r(1) del: hash_at.simps next_of.simps)
      moreover have "spread f ?bss rest = spread f bss as" unfolding split by simp
      moreover have "relinks m m2 (set as \<union> set (concat bss))"
        by (rule relinks_trans [OF ar(3) r(3)]) (unfold set split, auto)
      ultimately show ?thesis using r(2) by (intro exI [of _ nbk2] exI [of _ m2]) simp
    qed
  qed
  then show thesis using that by blast
qed

lemma rehash_chains_chains:
  assumes "list_all2 (chain m d) ps ass" "hm_datas m d = Some D" "list_all2 (chain m d) nbk bss" "sorted_into f bss" "length bss = nb"
    and "\<And>a. a \<in> set (concat ass) \<Longrightarrow> f a = unat (hhash m a) mod nb \<and> f a < nb \<and> hhash m a \<noteq> hm_low m (hd_array D)"
    and "set (concat ass) \<inter> set (concat bss) = {}" "distinct (concat ass)"
  obtains nbk' m' where "rehash_chains m d nb nbk ps = Some (nbk', m')" "list_all2 (chain m' d) nbk' (spread f bss (concat ass))"
    "relinks m m' (set (concat ass) \<union> set (concat bss))"
proof -
  have "\<exists>nbk' m'. rehash_chains m d nb nbk ps = Some (nbk', m') \<and> list_all2 (chain m' d) nbk' (spread f bss (concat ass))
    \<and> relinks m m' (set (concat ass) \<union> set (concat bss))"
    using assms
  proof (induction ass arbitrary: m ps nbk bss rule: list.induct)
    case Nil
    have "ps = []" using Nil.prems(1) by simp
    then show ?case using Nil.prems(3) relinks_refl by fastforce
  next
    case (Cons as ass)
    then obtain p ps' where ps: "ps = p # ps'" "chain m d p as" "list_all2 (chain m d) ps' ass"
      by (auto simp: list_all2_Cons2)
    have disj: "set as \<inter> set (concat ass) = {}" "distinct (concat ass)" "set as \<inter> set (concat bss) = {}"
      "set (concat ass) \<inter> set (concat bss) = {}" using Cons.prems(7,8) by auto
    have fa: "f a = unat (hhash m a) mod nb \<and> f a < nb \<and> hhash m a \<noteq> hm_low m (hd_array D)" if "a \<in> set as" for a
      by (rule Cons.prems(6)) (use that in simp)
    obtain nbk1 m1 where c: "rehash_chain m d nb nbk p = Some (nbk1, m1)" "list_all2 (chain m1 d) nbk1 (spread f bss as)"
      "relinks m m1 (set as \<union> set (concat bss))"
      by (rule rehash_chain_chain [OF ps(2) Cons.prems(2-5) fa disj(3)])
    have set: "set (concat (spread f bss as)) = set (concat bss) \<union> set as"
      using mset_spread [of as f bss] fa Cons.prems(5) by (metis set_mset_mset set_mset_union)
    have same: "hm_nodes m1 a = hm_nodes m a" if "a \<in> set (concat ass)" for a
      using that c(3) disj unfolding relinks_def by blast
    have m1: "hm_datas m1 d = Some D" "hm_low m1 = hm_low m" using c(3) Cons.prems(2) by (auto simp: relinks_def)
    have "list_all2 (chain m1 d) ps' ass" using ps(3) by (rule chains_keep) (rule same)
    moreover have "f a = unat (hhash m1 a) mod nb \<and> f a < nb \<and> hhash m1 a \<noteq> hm_low m1 (hd_array D)" if "a \<in> set (concat ass)" for a
      using Cons.prems(6) [of a] that m1(2) relinks_info(3) [OF c(3)] by simp
    moreover have "set (concat ass) \<inter> set (concat (spread f bss as)) = {}" unfolding set using disj by blast
    ultimately obtain nbk2 m2 where r: "rehash_chains m1 d nb nbk1 ps' = Some (nbk2, m2)"
      "list_all2 (chain m2 d) nbk2 (spread f (spread f bss as) (concat ass))"
      "relinks m1 m2 (set (concat ass) \<union> set (concat (spread f bss as)))"
      using Cons.IH [OF _ m1(1) c(2) sorted_into_spread [OF Cons.prems(4)] _ _ _ disj(2)] Cons.prems(5) length_spread by metis
    have "relinks m m2 (set (concat (as # ass)) \<union> set (concat bss))"
      by (rule relinks_trans [OF c(3) r(3)]) (unfold set, auto)
    then show ?case using r(1,2) c(1) ps(1) by (intro exI [of _ nbk2] exI [of _ m2]) simp
  qed
  then show thesis using that by blast
qed

end
