(* ===== verification/Hmap_Laws.thy ===== *)
theory Hmap_Laws
  imports Hmap_Rehash
begin

text \<open>
  The operations on blocks over the view of the memory: each changes the view as an operation on finite maps
  with reference counts does.
\<close>

section \<open>The map of a block\<close>

lemma hmem_repE:
  assumes "hmem_rep H m V" "V d = Some (M, r)"
  obtains T D where "hmem_ok H m T" "hm_datas m d = Some D" "M = hcontent m (T d)" "r = hd_ref D"
    "V = (\<lambda>d. map_option (\<lambda>D. (hcontent m (T d), hd_ref D)) (hm_datas m d))" "block_ok H m d D (T d)"
  using assms hmem_block by (fastforce simp: hmem_rep_def)

lemma hcontent_iff:
  assumes "distinct (map (hkey m) (concat ass))"
  shows "hcontent m ass k = Some v \<longleftrightarrow> (\<exists>a \<in> set (concat ass). hkey m a = k \<and> hvalue m a = v)"
proof -
  have "distinct (map fst (map (\<lambda>a. (hkey m a, hvalue m a)) (concat ass)))" using assms by (simp add: comp_def)
  then show ?thesis unfolding hcontent_def by (subst map_of_eq_Some_iff) auto
qed

lemma hcontent_None: "hcontent m ass k = None \<longleftrightarrow> k \<notin> hkey m ` set (concat ass)"
  unfolding hcontent_def by (subst map_of_eq_None_iff) (simp add: image_image)

lemma hcontent_eqI:
  assumes "mset (map (hinfo m') (concat bss)) = mset (map (hinfo m) (concat ass))" "distinct (map (hkey m) (concat ass))"
  shows "hcontent m' bss = hcontent m ass" "distinct (map (hkey m') (concat bss))" "length (concat bss) = length (concat ass)"
proof -
  have k: "map (hkey m) xs = map fst (map (hinfo m) xs)" for m :: "('a, 'b) hmem" and xs by (simp add: hinfo_def)
  have "mset (map (hkey m') (concat bss)) = mset (map (hkey m) (concat ass))"
    unfolding k mset_map [of fst] assms(1) ..
  then show d: "distinct (map (hkey m') (concat bss))" using assms(2) mset_eq_imp_distinct_iff by blast
  let ?e = "\<lambda>m a. (hkey m a, hvalue m a)"
  have e: "map (?e m) xs = map (\<lambda>(k, v, h). (k, v)) (map (hinfo m) xs)" for m :: "('a, 'b) hmem" and xs by (simp add: hinfo_def)
  have "set (map (?e m') (concat bss)) = set (map (?e m) (concat ass))"
    unfolding e set_map using mset_eq_setD [OF assms(1)] by simp
  then show "hcontent m' bss = hcontent m ass"
    unfolding hcontent_def by (subst map_of_inject_set) (use d assms(2) in \<open>simp_all add: comp_def\<close>)
  show "length (concat bss) = length (concat ass)" using mset_eq_length [OF assms(1)] by simp
qed

lemma card_hcontent:
  assumes "block_ok H m d D ass"
  shows "finite (dom (hcontent m ass))" "card (dom (hcontent m ass)) = hd_size D"
proof -
  have "k \<in> dom (hcontent m ass) \<longleftrightarrow> k \<in> set (map (hkey m) (concat ass))" for k
    unfolding domIff set_map hcontent_None by (simp only: not_not)
  then have "dom (hcontent m ass) = set (map (hkey m) (concat ass))" by blast
  then show "finite (dom (hcontent m ass))" "card (dom (hcontent m ass)) = hd_size D"
    using assms distinct_card [of "map (hkey m) (concat ass)"] by (auto simp: block_ok_def simp del: set_map set_concat)
qed

lemma keep_hash:
  assumes "block_ok H m d D ass" "a \<in> set (concat ass)"
  shows "hhash m a = H (hkey m a)"
  using block_node [OF assms] assms(1) unfolding block_ok_def keep_def by metis

lemma keep_bucket: "block_ok H m d D ass \<Longrightarrow> j < length ass \<Longrightarrow> a \<in> set (ass ! j) \<Longrightarrow> j = unat (H (hkey m a)) mod length ass"
  unfolding block_ok_def keep_def by metis

section \<open>Numbers of buckets\<close>

lemma prime_deltas_le: "n \<le> 30 \<Longrightarrow> prime_deltas ! n \<le> 43"
proof -
  assume "n \<le> 30"
  moreover have "\<forall>x\<in>set prime_deltas. x \<le> 43" "length prime_deltas = 32" by (simp_all add: prime_deltas_def)
  ultimately show ?thesis by simp
qed

lemma primeForNumBits_Some:
  assumes "primeForNumBits n = Some p"
  shows "n \<le> 30" "2 ^ n \<le> p" "p \<le> 2 ^ n + 43" "0 < p"
  using assms prime_deltas_le [of n] by (auto simp: primeForNumBits_def split: if_splits)

lemma prime_deltas_less: "n \<le> 30 \<Longrightarrow> prime_deltas ! n < 2 ^ n"
proof -
  assume "n \<le> 30"
  then have "n \<in> set [0..<31]" by simp
  moreover have "\<forall>n\<in>set [0..<31]. prime_deltas ! n < 2 ^ n" by (simp add: prime_deltas_def upt_rec)
  ultimately show ?thesis by blast
qed

lemma primeForNumBits_next: "primeForNumBits n = Some p \<Longrightarrow> p < 2 ^ Suc n"
  using prime_deltas_less [of n] by (auto simp: primeForNumBits_def split: if_splits)

lemma primeForNumBits_mono:
  assumes "primeForNumBits b = Some p" "primeForNumBits c = Some q" "b \<le> c"
  shows "p \<le> q"
proof (cases "b = c")
  case False
  then have "(2::nat) ^ Suc b \<le> 2 ^ c" using assms(3) by (intro power_increasing) auto
  then show ?thesis using primeForNumBits_next [OF assms(1)] primeForNumBits_Some(2) [OF assms(2)] by linarith
qed (use assms in simp)

lemma bits_loop_bounds: "0 < n \<Longrightarrow> 2 ^ bits_loop n \<le> n \<and> n < 2 ^ Suc (bits_loop n)"
proof (induction n rule: bits_loop.induct)
  case (1 n)
  show ?case
  proof (cases "n > 1")
    case True
    then have "2 ^ bits_loop (n div 2) \<le> n div 2" "n div 2 < 2 ^ Suc (bits_loop (n div 2))" using 1 by simp_all
    then show ?thesis using True by (subst (1 2) bits_loop.simps) auto
  next
    case False
    then show ?thesis using 1 by (subst (1 2) bits_loop.simps) simp
  qed
qed

lemma bits_loop_lt:
  assumes "h < 2 ^ Suc n"
  shows "bits_loop h \<le> n"
proof (cases "h = 0")
  case True
  then show ?thesis by (subst bits_loop.simps) simp
next
  case False
  then have "(2::nat) ^ bits_loop h < 2 ^ Suc n" using bits_loop_bounds [of h] assms by linarith
  then have "bits_loop h < Suc n" by (rule power_less_imp_less_exp [rotated]) simp
  then show ?thesis by simp
qed

text \<open>\<^verbatim>\<open>countBits\<close> finds the least number of bits with enough buckets.\<close>

lemma countBits_ok:
  assumes "h < 2 ^ 30"
  obtains b p where "countBits h = Some b" "b \<le> 30" "primeForNumBits b = Some p" "h \<le> p"
    "\<forall>c q. c < b \<longrightarrow> primeForNumBits c = Some q \<longrightarrow> q < h"
proof -
  define n where "n = bits_loop h"
  have n: "n \<le> 29" using bits_loop_lt [of h 29] assms by (simp add: n_def)
  obtain p where p: "primeForNumBits n = Some p" using n by (simp add: primeForNumBits_def)
  have run: "countBits h = Some (if p < h then n + 1 else n)"
    using n p by (simp add: countBits_def prime_deltas_def flip: n_def)
  have less: "q < h" if "c < n" "primeForNumBits c = Some q" for c q
  proof -
    have "0 < n" using that by simp
    then have "0 < h" unfolding n_def by (cases "h = 0") (subst (asm) bits_loop.simps, simp_all)
    then have "2 ^ n \<le> h" using bits_loop_bounds [of h] by (simp add: n_def)
    moreover have "(2::nat) ^ Suc c \<le> 2 ^ n" using that(1) by (intro power_increasing) auto
    ultimately show ?thesis using primeForNumBits_next [OF that(2)] by linarith
  qed
  show thesis
  proof (cases "p < h")
    case True
    then have "h < 2 ^ (n + 1)" using bits_loop_bounds [of h] by (simp add: n_def)
    then have "\<exists>q. primeForNumBits (n + 1) = Some q \<and> h \<le> q" using n by (auto simp: primeForNumBits_def)
    then obtain q where "primeForNumBits (n + 1) = Some q" "h \<le> q" by blast
    then show thesis by (rule that [of "n + 1" q, rotated 2]) (use run True n p less in \<open>auto simp: less_Suc_eq\<close>)
  next
    case False
    then show thesis using that [of n p] run n p less by simp
  qed
qed

lemma hint_loop_ok:
  assumes "half \<le> 2 ^ 30" "h \<le> 30"
  shows "\<exists>b. hint_loop half h = Some b \<and> h \<le> b \<and> b \<le> 30"
  using assms(2)
proof (induction "30 - h" arbitrary: h)
  case 0
  then have "h = 30" by simp
  then show ?case using assms(1) by (subst hint_loop.simps) (simp add: primeForNumBits_def prime_deltas_def)
next
  case (Suc x)
  then have p: "primeForNumBits h = Some (2 ^ h + prime_deltas ! h)" by (simp add: primeForNumBits_def)
  show ?case
  proof (cases "2 ^ h + prime_deltas ! h < half")
    case True
    have h: "x = 30 - (h + 1)" "h + 1 \<le> 30" using Suc.hyps(2) by linarith+
    obtain b where "hint_loop half (h + 1) = Some b" "h + 1 \<le> b" "b \<le> 30" using Suc.hyps(1) [OF h] by blast
    then show ?thesis using True p by (subst hint_loop.simps) simp
  next
    case False
    then show ?thesis using p Suc.prems by (subst hint_loop.simps) simp
  qed
qed

lemma rehash_hint_ok:
  assumes "bits_ok D" "- (2 ^ 30) < hint" "hint \<le> 30"
  obtains b where "rehash_hint D hint = Some b" "minNumBits \<le> b" "b \<le> 30" "0 \<le> hint \<longrightarrow> b = max minNumBits (nat hint)"
    "hint < 0 \<longrightarrow> (\<exists>p. primeForNumBits b = Some p \<and> nat (- hint) \<le> p)"
proof (cases "hint < 0")
  case True
  have "nat (- hint) < 2 ^ 30" using assms(2) by (simp add: nat_less_iff)
  then obtain c p where c: "countBits (nat (- hint)) = Some c" "c \<le> 30" "primeForNumBits c = Some p" "nat (- hint) \<le> p"
    by (rule countBits_ok)
  have "hd_numBuckets D div 2 \<le> 2 ^ 30"
  proof (cases "hd_numBuckets D = 0")
    case False
    then have p: "primeForNumBits (hd_numBits D) = Some (hd_numBuckets D)" using assms(1) by (simp add: bits_ok_def)
    have "(2::nat) ^ hd_numBits D \<le> 2 ^ 30" using primeForNumBits_Some(1) [OF p] by (intro power_increasing) auto
    then show ?thesis using primeForNumBits_Some(3) [OF p] by simp
  qed simp
  moreover define h where "h = (if c < minNumBits then minNumBits else c)"
  moreover have h: "h \<le> 30" "minNumBits \<le> h" "c \<le> h" using c(2) by (auto simp: h_def minNumBits_def)
  ultimately obtain b where "hint_loop (hd_numBuckets D div 2) h = Some b" "h \<le> b" "b \<le> 30" using hint_loop_ok by blast
  then have b: "rehash_hint D hint = Some b" "minNumBits \<le> b" "b \<le> 30" "c \<le> b" using h(3) True c(1) h(2) by (auto simp: rehash_hint_def h_def)
  obtain q where q: "primeForNumBits b = Some q" using b(3) by (simp add: primeForNumBits_def)
  then have "nat (- hint) \<le> q" using primeForNumBits_mono [OF c(3) q b(4)] c(4) by simp
  then show thesis using that [OF b(1-3)] True q by simp
next
  case False
  then have "rehash_hint D hint = Some (max minNumBits (nat hint))" by (simp add: rehash_hint_def)
  then show thesis using that False assms(3) by (simp add: minNumBits_def)
qed

section \<open>Hashing bytes\<close>

text \<open>The hash of bytes can be computed in pieces; the one that reads words, when the first piece is whole words.\<close>

lemma hash_compute_append: "hash_compute_loop v (xs @ ys) = hash_compute_loop (hash_compute_loop v xs) ys"
  by (induction v xs rule: hash_compute_loop.induct) simp_all

lemma hash_compute2_append:
  assumes "length xs = 4 * n"
  shows "hash_compute2_loop h (xs @ ys) = hash_compute2_loop (hash_compute2_loop h xs) ys"
  using assms
proof (induction n arbitrary: h xs)
  case (Suc n)
  then have "length xs = Suc (Suc (Suc (Suc (4 * n))))" by simp
  then obtain a b c d zs where "xs = a # b # c # d # zs" "length zs = 4 * n" by (auto simp: length_Suc_conv)
  then show ?case using Suc.IH [of zs] by (simp add: Let_def)
qed simp

section \<open>Search\<close>

lemma findNode_block:
  assumes "block_ok H m d D ass" "hm_datas m d = Some D" "0 < length ass"
    and i_def: "i = unat (H k) mod length ass"
  shows "findNode m d k (H k) = Some (slot_after (Bucket i) (takeWhile (\<lambda>a. hkey m a \<noteq> k) (ass ! i)))"
    and "read_slot m d (slot_after (Bucket i) (takeWhile (\<lambda>a. hkey m a \<noteq> k) (ass ! i)))
      = Some (case find (\<lambda>a. hkey m a = k) (concat ass) of None \<Rightarrow> End d | Some a \<Rightarrow> Node a)"
proof -
  let ?P = "\<lambda>a. hkey m a \<noteq> k"
  have i: "i < length ass" using assms(3) by (simp add: i_def)
  have nb: "hd_numBuckets D = length ass" using assms(1) by (simp add: block_ok_def)
  have ch: "chain m d (hd_buckets D ! i) (ass ! i)" and len: "i < length (hd_buckets D)" using block_chain [OF assms(1) i] by auto
  have s: "read_slot m d (Bucket i) = Some (hd_buckets D ! i)" using len assms(2) by (simp add: read_slot_def)
  have keep: "hhash m a = H (hkey m a)" if "a \<in> set (ass ! i)" for a using assms(1) i that by (auto simp: block_ok_def keep_def)
  have tw: "takeWhile (\<lambda>a. \<not> (hkey m a = k \<and> hhash m a = H k)) (ass ! i) = takeWhile ?P (ass ! i)"
    by (rule takeWhile_cong [OF refl]) (use keep in auto)
  note loop = find_loop_chain [OF ch s, of k "H k", unfolded tw]
  have end_ok: "p = End d \<or> nn \<noteq> Null" if "p = hd_buckets D ! i" "next_of m p = Some nn" for p nn
    using that ch by (cases "ass ! i") (auto dest: seg_head split: list.splits)
  have "\<exists>nn. next_of m (hd_buckets D ! i) = Some nn" using ch assms(2) by (cases "ass ! i") auto
  then show "findNode m d k (H k) = Some (slot_after (Bucket i) (takeWhile ?P (ass ! i)))"
    using end_ok assms(2,3) loop by (auto simp: findNode_def nb s Let_def simp flip: i_def)
  have "read_slot m d (slot_after (Bucket i) (takeWhile ?P (ass ! i)))
      = Some (case dropWhile ?P (ass ! i) of [] \<Rightarrow> End d | b # _ \<Rightarrow> Node b)"
    by (rule slot_after_reads [OF _ s]) (use ch in simp)
  moreover have "(case dropWhile ?P (ass ! i) of [] \<Rightarrow> End d | b # _ \<Rightarrow> Node b)
      = (case find (\<lambda>a. hkey m a = k) (concat ass) of None \<Rightarrow> End d | Some a \<Rightarrow> Node a)"
  proof (cases "find (\<lambda>a. hkey m a = k) (concat ass)")
    case None
    then have "\<forall>a\<in>set (ass ! i). hkey m a \<noteq> k" using nth_mem [OF i] unfolding find_None_iff by auto
    then show ?thesis using None by (simp add: dropWhile_eq_Nil_conv [THEN iffD2])
  next
    case (Some a)
    then have a: "a \<in> set (concat ass)" "hkey m a = k" unfolding find_Some_iff by (metis nth_mem)+
    obtain j where j: "j < length ass" "a \<in> set (ass ! j)" using block_node [OF assms(1) a(1)] by blast
    then have "j = i" using keep_bucket [OF assms(1)] a(2) unfolding i_def by metis
    then have "dropWhile ?P (ass ! i) \<noteq> []" using j(2) a(2) unfolding dropWhile_eq_Nil_conv by blast
    then obtain b bs where d: "dropWhile ?P (ass ! i) = b # bs" by (meson neq_Nil_conv)
    have b: "hkey m b = k" using hd_dropWhile [of ?P "ass ! i"] d by simp
    have "b \<in> set (ass ! i)" using d set_dropWhileD [of b ?P "ass ! i"] by simp
    then have "b \<in> set (concat ass)" using nth_mem [OF i] by auto
    moreover have "inj_on (hkey m) (set (concat ass))" using assms(1) by (simp only: block_ok_def distinct_map)
    ultimately have "b = a" using a b by (metis inj_onD)
    then show ?thesis using Some d by simp
  qed
  ultimately show "read_slot m d (slot_after (Bucket i) (takeWhile ?P (ass ! i)))
      = Some (case find (\<lambda>a. hkey m a = k) (concat ass) of None \<Rightarrow> End d | Some a \<Rightarrow> Node a)" by simp
qed

section \<open>Changing the view\<close>

lemma hview_change1:
  assumes "hmem_ok H m T" "V = (\<lambda>d. map_option (\<lambda>D. (hcontent m (T d), hd_ref D)) (hm_datas m d))"
    and "hm_datas m' = (hm_datas m)(d \<mapsto> D')" "block_ok H m' d D' ass"
    and "\<And>a. a \<notin> own m T d \<Longrightarrow> a < hm_next m \<Longrightarrow> hm_nodes m' a = hm_nodes m a"
    and "\<And>a n. hm_nodes m' a = Some n \<Longrightarrow> a \<in> own m T d \<or> hm_next m \<le> a \<Longrightarrow> a \<in> set (concat ass) \<and> a < hm_next m'"
    and "hm_next m \<le> hm_next m'" "d < hm_next m'" "hd_numBuckets D' = 0 \<longleftrightarrow> d = shared_null"
  shows "hmem_rep H m' (V(d \<mapsto> (hcontent m' ass, hd_ref D')))"
  by (rule hview_change [OF assms(1-3) hmem_change(1) [OF assms(1,3-9)] hmem_change(2) [OF assms(1,3-9)]])

lemma hmem_null_iff: "hmem_ok H m T \<Longrightarrow> hm_datas m d = Some D \<Longrightarrow> hd_numBuckets D = 0 \<longleftrightarrow> d = shared_null"
  unfolding hmem_ok_def by (metis option.inject)

lemma hmem_fresh: "hmem_ok H m T \<Longrightarrow> hm_next m \<le> a \<Longrightarrow> hm_nodes m a = None \<and> hm_datas m a = None"
  unfolding hmem_ok_def by (metis linorder_not_less option.exhaust)

lemma hmem_data_lt: "hmem_ok H m T \<Longrightarrow> hm_datas m d = Some D \<Longrightarrow> d < hm_next m"
  unfolding hmem_ok_def by blast

text \<open>The reference count.\<close>

lemma set_ref_view:
  assumes "hmem_rep H m V" "V d = Some (M, r)" "hm_datas m d = Some D"
  shows "hmem_rep H (put_data m d (D\<lparr>hd_ref := r'\<rparr>)) (V(d \<mapsto> (M, r')))"
proof -
  obtain T D0 where ok: "hmem_ok H m T" and D0: "hm_datas m d = Some D0" and M: "M = hcontent m (T d)"
    and V: "V = (\<lambda>d. map_option (\<lambda>D. (hcontent m (T d), hd_ref D)) (hm_datas m d))" and b: "block_ok H m d D0 (T d)"
    by (rule hmem_repE [OF assms(1,2)])
  let ?D = "D\<lparr>hd_ref := r'\<rparr>" and ?m = "put_data m d (D\<lparr>hd_ref := r'\<rparr>)"
  have "block_ok H m d ?D (T d)" using b D0 assms(3) by (auto simp: block_ok_def bits_ok_def)
  then have "block_ok H ?m d ?D (T d)" by (subst block_cong) simp_all
  then have "hmem_rep H ?m (V(d \<mapsto> (hcontent ?m (T d), hd_ref ?D)))"
    by (rule hview_change1 [OF ok V, rotated])
       (use hmem_fresh [OF ok] hmem_data_lt [OF ok assms(3)] hmem_live [OF ok assms(3)] hmem_null_iff [OF ok assms(3)] assms(3)
         in \<open>auto simp: own_def\<close>)
  moreover have "hcontent ?m (T d) = M" unfolding M by (rule block_cong(2)) simp
  ultimately show ?thesis by simp
qed

lemma ref_inc_view:
  assumes "hmem_rep H m V" "V d = Some (M, r)"
  obtains m' where "ref_inc m d = Some m'" "hmem_rep H m' (V(d \<mapsto> (M, r + 1)))" "hm_low m' = hm_low m"
proof -
  obtain D where D: "hm_datas m d = Some D" "r = hd_ref D" by (rule hmem_repE [OF assms]) blast
  show thesis by (rule that [OF _ set_ref_view [OF assms D(1)]]) (simp_all add: ref_inc_def D)
qed

lemma ref_dec_view:
  assumes "hmem_rep H m V" "V d = Some (M, r)" "r \<noteq> 0"
  obtains m' where "ref_dec m d = Some (r - 1, m')" "hmem_rep H m' (V(d \<mapsto> (M, r - 1)))" "hm_low m' = hm_low m"
proof -
  obtain D where D: "hm_datas m d = Some D" "r = hd_ref D" by (rule hmem_repE [OF assms(1,2)]) blast
  show thesis by (rule that [OF _ set_ref_view [OF assms(1,2) D(1)]]) (use assms(3) in \<open>simp_all add: ref_dec_def D\<close>)
qed

section \<open>Freeing a block\<close>

lemma hfree_view:
  assumes "hmem_rep H m V" "V d = Some (M, r)" "d \<noteq> shared_null"
  obtains m' where "free_helper m d = Some m'" "hmem_rep H m' (V(d := None))" "hm_low m' = hm_low m"
proof -
  obtain T D where ok: "hmem_ok H m T" and D: "hm_datas m d = Some D"
    and V: "V = (\<lambda>d. map_option (\<lambda>D. (hcontent m (T d), hd_ref D)) (hm_datas m d))" and b: "block_ok H m d D (T d)"
    by (rule hmem_repE [OF assms(1,2)])
  let ?S = "set (concat (T d))"
  define m1 where "m1 = m\<lparr>hm_nodes := hm_nodes m |` (- ?S), hm_datas := (hm_datas m)(d := None)\<rparr>"
  have m1: "hm_nodes m1 = hm_nodes m |` (- ?S)" "hm_datas m1 = (hm_datas m)(d := None)" "hm_next m1 = hm_next m" "hm_low m1 = hm_low m"
    by (simp_all add: m1_def)
  have "distinct (map (hkey m) (concat (T d)))" using b by (simp only: block_ok_def)
  then have "distinct (concat (T d))" by (simp only: distinct_map)
  then have "free_chains m d (hd_buckets D) = Some (m\<lparr>hm_nodes := hm_nodes m |` (- ?S)\<rparr>)"
    by (intro free_chains_chains) (use b in \<open>simp add: block_ok_def\<close>)
  then have run: "free_helper m d = Some m1" using assms(3) by (simp add: free_helper_def D m1_def)
  have same: "hm_nodes m1 a = hm_nodes m a" if "hm_datas m e = Some E" "e \<noteq> d" "a \<in> set (concat (T e))" for a e E
    using blocks_apart [OF ok that(1) D that(2,3)] by (simp add: m1 restrict_map_def del: set_concat)
  have "hmem_ok H m1 T" unfolding hmem_ok_def
  proof (intro conjI allI impI)
    show "block_ok H m1 e E (T e)" if "hm_datas m1 e = Some E" for e E
    proof -
      have e: "hm_datas m e = Some E" "e \<noteq> d" using that by (auto simp: m1 split: if_splits)
      show ?thesis using block_cong(1) [OF same [OF e]] hmem_block [OF ok e(1)] by blast
    qed
    show "a < hm_next m1" if "hm_nodes m1 a = Some n" for a n
      using that ok unfolding hmem_ok_def m1 restrict_map_def by (metis option.distinct(1))
    show "e < hm_next m1" if "hm_datas m1 e = Some E" for e E
      using that hmem_data_lt [OF ok] by (auto simp: m1 split: if_splits)
    show "\<exists>e E. hm_datas m1 e = Some E \<and> a \<in> set (concat (T e))" if "hm_nodes m1 a = Some n" for a n
    proof -
      have a: "hm_nodes m a = Some n" "a \<notin> ?S" using that unfolding m1 restrict_map_def by (auto split: if_splits simp del: set_concat)
      then obtain e E where e: "hm_datas m e = Some E" "a \<in> set (concat (T e))" using ok unfolding hmem_ok_def by blast
      then have "e \<noteq> d" using a(2) by blast
      then show ?thesis using e by (auto simp: m1)
    qed
    show "hd_numBuckets E \<noteq> 0" if "hm_datas m1 e = Some E" "e \<noteq> shared_null" for e E
      using that hmem_null_iff [OF ok] by (auto simp: m1 split: if_splits)
    show "\<exists>E. hm_datas m1 shared_null = Some E \<and> hd_numBuckets E = 0"
      using ok assms(3) unfolding hmem_ok_def by (auto simp: m1)
  qed
  moreover have "(V(d := None)) e = map_option (\<lambda>D. (hcontent m1 (T e), hd_ref D)) (hm_datas m1 e)" for e
    using block_cong(2) [OF same] by (cases "e = d"; cases "hm_datas m e") (simp_all add: V m1)
  ultimately have "hmem_rep H m1 (V(d := None))" unfolding hmem_rep_def by blast
  then show thesis using that run m1(4) by blast
qed

end
