(* ===== verification/Hmap_View.thy ===== *)
theory Hmap_View
  imports Hmap_Laws
begin

text \<open>
  Creation of nodes, rehashing and the copy of a block over the view: creation adds one key, rehashing
  changes no map, and a copy is a new block with the same map and the count 1.
\<close>

section \<open>Nodes of a block\<close>

text \<open>A node is in the block whose end its chain has.\<close>

definition holds :: "('k, 'v) hmem \<Rightarrow> addr \<Rightarrow> addr \<Rightarrow> bool" where
  "holds m d a \<longleftrightarrow> (\<exists>as. chain m d (Node a) as)"

definition found :: "('k, 'v) hmem \<Rightarrow> addr \<Rightarrow> 'k \<Rightarrow> hptr \<Rightarrow> 'v option \<Rightarrow> bool" where
  "found m d k p v \<longleftrightarrow> (case v of None \<Rightarrow> p = End d
     | Some y \<Rightarrow> (\<exists>a n. p = Node a \<and> hm_nodes m a = Some n \<and> hn_key n = k \<and> hn_value n = y \<and> holds m d a))"

lemma block_holds: "block_ok H m d D ass \<Longrightarrow> a \<in> set (concat ass) \<Longrightarrow> holds m d a"
proof -
  assume bl: "block_ok H m d D ass" and a: "a \<in> set (concat ass)"
  obtain i where i: "i < length ass" "a \<in> set (ass ! i)" by (rule block_node [OF bl a])
  obtain as bs where "ass ! i = as @ a # bs" using i(2) by (auto simp: in_set_conv_decomp)
  then have "chain m d (Node a) (a # bs)" using block_chain(2) [OF bl i(1)] by (auto simp: seg_append)
  then show "holds m d a" unfolding holds_def by blast
qed

lemma holds_block:
  assumes "hmem_ok H m T" "hm_datas m d = Some D" "holds m d a"
  shows "a \<in> set (concat (T d))"
proof -
  obtain as where as: "chain m d (Node a) as" using assms(3) by (auto simp: holds_def)
  then obtain n where "hm_nodes m a = Some n" by (auto simp: chain_Node)
  then obtain e E where e: "hm_datas m e = Some E" "a \<in> set (concat (T e))" using assms(1) unfolding hmem_ok_def by blast
  have "holds m e a" by (rule block_holds [OF hmem_block [OF assms(1) e(1)] e(2)])
  then obtain bs where "chain m e (Node a) bs" by (auto simp: holds_def)
  then have "e = d" using chain_unique [OF as] by blast
  then show ?thesis using e(2) by simp
qed

section \<open>Creating a node\<close>

lemma hcontent_eq:
  assumes "distinct (map (hkey m) (concat ass))"
    and "\<And>k v. (\<exists>a\<in>set (concat ass). hkey m a = k \<and> hvalue m a = v) \<longleftrightarrow> N k = Some v"
  shows "hcontent m ass = N"
proof
  fix k
  have "hcontent m ass k = Some v \<longleftrightarrow> N k = Some v" for v using hcontent_iff [OF assms(1)] assms(2) by metis
  then show "hcontent m ass k = N k" by (metis option.exhaust)
qed

lemma concat_append_one:
  assumes "i < length ass" "ass' = ass[i := ass ! i @ [a]]"
  shows "mset (concat ass') = add_mset a (mset (concat ass))" "set (concat ass') = insert a (set (concat ass))"
proof -
  show m: "mset (concat ass') = add_mset a (mset (concat ass))" using mset_concat_append [OF assms(1), of "[a]"] assms(2) by simp
  show "set (concat ass') = insert a (set (concat ass))" using arg_cong [OF m, of set_mset] by (simp only: set_mset_mset set_mset_add_mset_insert)
qed

lemma block_add:
  assumes b: "block_ok H m d D ass" and i: "i = unat (H k) mod length ass" "i < length ass"
    and ch: "list_all2 (chain m' d) bs (ass[i := ass ! i @ [a]])"
    and old: "\<And>b. b \<in> set (concat ass) \<Longrightarrow> hkey m' b = hkey m b \<and> hvalue m' b = hvalue m b \<and> hhash m' b = hhash m b"
    and new: "hkey m' a = k" "hvalue m' a = v" "hhash m' a = H k" and k: "hcontent m ass k = None"
    and D': "D' = D\<lparr>hd_buckets := bs, hd_size := hd_size D + 1\<rparr>"
  shows "block_ok H m' d D' (ass[i := ass ! i @ [a]])" "hcontent m' (ass[i := ass ! i @ [a]]) = (hcontent m ass)(k \<mapsto> v)"
proof -
  let ?ass = "ass[i := ass ! i @ [a]]"
  have keys: "k \<notin> hkey m ` set (concat ass)" using k unfolding hcontent_None .
  have ms: "mset (concat ?ass) = add_mset a (mset (concat ass))" and st: "set (concat ?ass) = insert a (set (concat ass))"
    using concat_append_one [OF i(2) refl] by blast+
  have d0: "distinct (map (hkey m) (concat ass))" using b by (simp only: block_ok_def)
  have "map (hkey m') (concat ass) = map (hkey m) (concat ass)" by (rule map_cong [OF refl]) (use old in blast)
  then have "mset (map (hkey m') (concat ?ass)) = mset (k # map (hkey m) (concat ass))"
    unfolding mset_map ms image_mset_add_mset new(1) by (metis mset.simps(2) mset_map)
  moreover have "distinct (k # map (hkey m) (concat ass))" using keys d0 by (simp del: set_concat)
  ultimately have d1: "distinct (map (hkey m') (concat ?ass))" using mset_eq_imp_distinct_iff by blast
  have kp: "keep H m' (length ass) (?ass ! j) j" if j: "j < length ass" for j
  proof -
    have kj: "keep H m (length ass) (ass ! j) j" using b j by (simp only: block_ok_def)
    have sub: "c \<in> set (concat ass)" if "c \<in> set (ass ! j)" for c using nth_mem [OF j] that by auto
    have "keep H m' (length ass) (ass ! j) j" unfolding keep_def using kj old sub unfolding keep_def by metis
    then show ?thesis using new i by (cases "j = i") (auto simp: keep_def)
  qed
  have "length (concat ?ass) = length (concat ass) + 1" using arg_cong [OF ms, of size] by (simp only: size_mset size_add_mset)
  then show "block_ok H m' d D' ?ass"
    using b ch d1 kp unfolding block_ok_def D' bits_ok_def by (simp del: concat.simps set_concat length_concat)
  show "hcontent m' ?ass = (hcontent m ass)(k \<mapsto> v)"
  proof (rule hcontent_eq [OF d1])
    fix x y
    have no: "hkey m' c \<noteq> k \<and> hkey m c \<noteq> k" if "c \<in> set (concat ass)" for c using old [OF that] keys that by (metis imageI)
    show "(\<exists>c\<in>set (concat ?ass). hkey m' c = x \<and> hvalue m' c = y) \<longleftrightarrow> ((hcontent m ass)(k \<mapsto> v)) x = Some y"
      unfolding st using hcontent_iff [OF d0, of x y] new old no by (cases "x = k") (auto simp del: set_concat)
  qed
qed

text \<open>The new node is linked after the last one of its bucket.\<close>

lemma link_last:
  assumes ch: "list_all2 (chain m d) bs ass" and i: "i < length ass" and D: "hm_datas m d = Some D" "hd_buckets D = bs"
    and a: "hm_nodes m a = Some n" "hn_next n = End d" "a \<notin> set (concat ass)" and f: "sorted_into f ass"
  obtains m' bs' where "write_slot m d (slot_after (Bucket i) (ass ! i)) (Node a) = Some m'"
    "hm_datas m' = (hm_datas m)(d \<mapsto> D\<lparr>hd_buckets := bs'\<rparr>)" "list_all2 (chain m' d) bs' (ass[i := ass ! i @ [a]])"
    "hm_next m' = hm_next m" "hm_low m' = hm_low m" "hm_nodes m' a = Some n"
    "\<And>b. b \<notin> set (concat ass) \<Longrightarrow> hm_nodes m' b = hm_nodes m b"
    "\<And>b. hm_nodes m' b = None \<longleftrightarrow> hm_nodes m b = None"
    "\<And>b. hkey m' b = hkey m b \<and> hvalue m' b = hvalue m b \<and> hhash m' b = hhash m b"
proof (cases "ass ! i = []")
  case True
  define m' where "m' = put_data m d (D\<lparr>hd_buckets := bs[i := Node a]\<rparr>)"
  have len: "i < length bs" using ch i by (simp add: list_all2_lengthD)
  have w: "write_slot m d (slot_after (Bucket i) (ass ! i)) (Node a) = Some m'"
    using True D len by (simp add: slot_after_def write_slot_def m'_def)
  have "list_all2 (chain m' d) bs ass" using ch by (rule chains_keep) (simp add: m'_def)
  then have c: "list_all2 (chain m' d) (bs[i := Node a]) (ass[i := ass ! i @ [a]])"
    by (rule list_all2_update_cong) (use a True in \<open>simp add: m'_def\<close>)
  show thesis by (rule that [OF w _ c]) (simp_all add: m'_def a hkey_def hvalue_def hhash_def)
next
  case False
  define c where "c = last (ass ! i)"
  have c: "c \<in> set (ass ! i)" using False by (simp add: c_def)
  have cc: "c \<in> set (concat ass)" using c nth_mem [OF i] by auto
  have chi: "chain m d (bs ! j) (ass ! j)" if "j < length ass" for j using ch that by (simp add: list_all2_conv_all_nth)
  obtain n' where n': "hm_nodes m c = Some n'" using seg_node [OF chi [OF i] c] by blast
  define m' where "m' = put_node m c (n'\<lparr>hn_next := Node a\<rparr>)"
  have ne: "c \<noteq> a" using cc a(3) by blast
  have "write_slot m d (slot_after (Bucket i) (ass ! i)) (Node a) = Some m'"
    using False n' by (simp add: slot_after_def write_slot_def m'_def c_def)
  moreover have "list_all2 (chain m' d) bs (ass[i := ass ! i @ [a]])" unfolding list_all2_conv_all_nth
  proof (intro conjI allI impI)
    show "length bs = length (ass[i := ass ! i @ [a]])" using ch by (simp add: list_all2_lengthD)
    fix j assume "j < length bs"
    then have j: "j < length ass" using ch by (simp add: list_all2_lengthD)
    show "chain m' d (bs ! j) (ass[i := ass ! i @ [a]] ! j)"
    proof (cases "j = i")
      case True
      obtain bs' where bs': "ass ! i = bs' @ [c]" using append_butlast_last_id [OF False] by (metis c_def)
      have "seg m' (bs ! i) (ass ! i) (Node a)" unfolding bs'
        by (rule seg_redirect [where m = m and n = n' and r = "End d"])
           (use chi [OF i] bs' chain_distinct [OF chi [OF i]] n' in \<open>auto simp: m'_def\<close>)
      then show ?thesis using True j a ne by (auto simp: seg_append m'_def)
    next
      case False
      have "c \<notin> set (ass ! j)" using c i f j False unfolding sorted_into_def by metis
      then have "chain m' d (bs ! j) (ass ! j)" by (intro seg_keep [OF chi [OF j]]) (auto simp: m'_def)
      then show ?thesis using False by simp
    qed
  qed
  moreover have "hm_nodes m' b = hm_nodes m b" if "b \<notin> set (concat ass)" for b using that cc by (auto simp: m'_def simp del: set_concat)
  moreover have "hm_datas m' = (hm_datas m)(d \<mapsto> D\<lparr>hd_buckets := bs\<rparr>)" using D by (auto simp: m'_def)
  moreover have "hm_nodes m' b = None \<longleftrightarrow> hm_nodes m b = None" for b using n' by (simp add: m'_def)
  moreover have "hkey m' b = hkey m b \<and> hvalue m' b = hvalue m b \<and> hhash m' b = hhash m b" for b
    using n' by (simp add: m'_def hkey_def hvalue_def hhash_def)
  moreover have "hm_nodes m' a = Some n" using a(1) ne by (simp add: m'_def)
  moreover have "hm_next m' = hm_next m" "hm_low m' = hm_low m" by (simp_all add: m'_def)
  ultimately show thesis using that by blast
qed

lemma block_sorted_into: "block_ok H m d D ass \<Longrightarrow> sorted_into (\<lambda>a. unat (H (hkey m a)) mod length ass) ass"
  unfolding sorted_into_def using keep_bucket by metis

lemma hcreate_view:
  assumes rep: "hmem_rep H m V" "V d = Some (M, r)" and k: "M k = None" and d: "d \<noteq> shared_null"
    and s: "findNode m d k (H k) = Some s"
  obtains a m' where "hmap_createNode m d (H k) k v s = Some (Node a, m')" "hmem_rep H m' (V(d \<mapsto> (M(k \<mapsto> v), r)))"
    "found m' d k (Node a) (Some v)" "hm_low m' = hm_low m"
proof -
  obtain T D where ok: "hmem_ok H m T" and D: "hm_datas m d = Some D" and M: "M = hcontent m (T d)" and r: "r = hd_ref D"
    and V: "V = (\<lambda>d. map_option (\<lambda>D. (hcontent m (T d), hd_ref D)) (hm_datas m d))" and b: "block_ok H m d D (T d)"
    by (rule hmem_repE [OF rep])
  let ?ass = "T d"
  define i where "i = unat (H k) mod length ?ass"
  have nb: "hd_numBuckets D = length ?ass" using b by (simp add: block_ok_def)
  have pos: "0 < length ?ass" using hmem_null_iff [OF ok D] d nb by auto
  then have i: "i < length ?ass" by (simp add: i_def)
  have ns: "hd_nodeSize D = 1" using b nb pos by (auto simp: block_ok_def bits_ok_def)
  have keys: "k \<notin> hkey m ` set (concat ?ass)" using k unfolding M hcontent_None .
  have notk: "hkey m a \<noteq> k" if "a \<in> set (?ass ! i)" for a using keys nth_mem [OF i] that by auto
  have tw: "takeWhile (\<lambda>a. hkey m a \<noteq> k) (?ass ! i) = ?ass ! i" using notk by (simp add: takeWhile_eq_all_conv)
  have "find (\<lambda>a. hkey m a = k) (concat ?ass) = None" using keys unfolding find_None_iff by (metis imageI)
  then have s': "s = slot_after (Bucket i) (?ass ! i)" and rd: "read_slot m d s = Some (End d)"
    using findNode_block [OF b D pos i_def] s unfolding tw by auto
  define a where "a = hm_next m"
  have fr: "hm_nodes m c = None \<and> hm_datas m c = None" if "a \<le> c" for c using hmem_fresh [OF ok] that by (simp add: a_def)
  define n where "n = \<lparr>hn_next = End d, hn_hash = H k, hn_key = k, hn_value = v\<rparr>"
  define m1 where "m1 = put_node (m\<lparr>hm_next := a + 1\<rparr>) a n"
  have m1: "hm_nodes m1 = (hm_nodes m)(a \<mapsto> n)" "hm_datas m1 = hm_datas m" "hm_next m1 = a + 1" "hm_low m1 = hm_low m"
    by (simp_all add: m1_def)
  have lt: "c < a" if "c \<in> set (concat ?ass)" for c using hmem_live [OF ok D that] by (simp add: a_def)
  have a_out: "a \<notin> set (concat ?ass)" using lt by blast
  have "list_all2 (chain m1 d) (hd_buckets D) ?ass"
    by (rule chains_keep [of m]) (use b lt in \<open>auto simp: block_ok_def m1 simp del: set_concat\<close>)
  then obtain m2 bs' where w: "write_slot m1 d (slot_after (Bucket i) (?ass ! i)) (Node a) = Some m2"
    "hm_datas m2 = (hm_datas m1)(d \<mapsto> D\<lparr>hd_buckets := bs'\<rparr>)" "list_all2 (chain m2 d) bs' (?ass[i := ?ass ! i @ [a]])"
    "hm_next m2 = hm_next m1" "hm_low m2 = hm_low m1" "hm_nodes m2 a = Some n"
    "\<And>b. b \<notin> set (concat ?ass) \<Longrightarrow> hm_nodes m2 b = hm_nodes m1 b"
    "\<And>b. hm_nodes m2 b = None \<longleftrightarrow> hm_nodes m1 b = None"
    "\<And>b. hkey m2 b = hkey m1 b \<and> hvalue m2 b = hvalue m1 b \<and> hhash m2 b = hhash m1 b"
    by (rule link_last [OF _ i _ refl _ _ a_out block_sorted_into [OF b]]) (auto simp: m1 D n_def)
  define D' where "D' = D\<lparr>hd_buckets := bs', hd_size := hd_size D + 1\<rparr>"
  define m3 where "m3 = put_data m2 d D'"
  have run: "hmap_createNode m d (H k) k v s = Some (Node a, m3)"
    using rd D ns w(1,2) by (simp add: hmap_createNode_def allocateNode_def m3_def D'_def flip: a_def s' n_def m1_def) (simp add: m1_def n_def)
  have old: "hkey m3 c = hkey m c \<and> hvalue m3 c = hvalue m c \<and> hhash m3 c = hhash m c" if "c \<in> set (concat ?ass)" for c
    using w(9) [of c] lt [OF that] by (simp add: m3_def hkey_def hvalue_def hhash_def m1)
  have ch3: "list_all2 (chain m3 d) bs' (?ass[i := ?ass ! i @ [a]])" using w(3) by (rule chains_keep) (simp add: m3_def)
  have new: "hkey m3 a = k" "hvalue m3 a = v" "hhash m3 a = H k" using w(6) by (simp_all add: hkey_def hvalue_def hhash_def m3_def n_def)
  have b3: "block_ok H m3 d D' (?ass[i := ?ass ! i @ [a]])" and c3: "hcontent m3 (?ass[i := ?ass ! i @ [a]]) = M(k \<mapsto> v)"
    unfolding M by (rule block_add [OF b i_def i ch3 _ new _ D'_def], erule old, rule k [unfolded M])+
  have st: "set (concat (?ass[i := ?ass ! i @ [a]])) = insert a (set (concat ?ass))" by (rule concat_append_one(2) [OF i refl])
  have "hmem_rep H m3 (V(d \<mapsto> (hcontent m3 (?ass[i := ?ass ! i @ [a]]), hd_ref D')))"
  proof (rule hview_change1 [OF ok V _ b3])
    show "hm_datas m3 = (hm_datas m)(d \<mapsto> D')" by (simp add: m3_def w(2) m1)
    show "hm_nodes m3 c = hm_nodes m c" if "c \<notin> own m T d" "c < hm_next m" for c
      using that w(7) [of c] D by (simp add: m3_def m1 own_def a_def del: set_concat)
    show "c \<in> set (concat (?ass[i := ?ass ! i @ [a]])) \<and> c < hm_next m3"
      if n: "hm_nodes m3 c = Some n'" and c: "c \<in> own m T d \<or> hm_next m \<le> c" for c n'
    proof -
      have "hm_nodes m1 c \<noteq> None" using n w(8) [of c] by (auto simp: m3_def)
      then have "c = a \<or> hm_nodes m c \<noteq> None" by (auto simp: m1)
      then have "c = a \<or> c \<in> set (concat ?ass)" using c fr [of c] by (auto simp: own_def D a_def simp del: set_concat split: if_splits)
      then show ?thesis unfolding st using lt [of c] by (auto simp: m3_def w(4) m1 simp del: set_concat)
    qed
    show "hm_next m \<le> hm_next m3" by (simp add: m3_def w(4) m1 a_def)
    show "d < hm_next m3" using hmem_data_lt [OF ok D] by (simp add: m3_def w(4) m1 a_def)
    show "hd_numBuckets D' = 0 \<longleftrightarrow> d = shared_null" using hmem_null_iff [OF ok D] by (simp add: D'_def)
  qed
  then have "hmem_rep H m3 (V(d \<mapsto> (M(k \<mapsto> v), r)))" unfolding c3 by (simp add: D'_def r)
  moreover have "holds m3 d a" by (rule block_holds [OF b3]) (unfold st, rule insertI1)
  ultimately show thesis using that [OF run] w(5,6) m1(4) by (simp add: m3_def n_def found_def)
qed

section \<open>Rehashing\<close>

lemma bucket_list_block: "block_ok H m d D ass \<Longrightarrow> bucket_list D = Some (hd_buckets D)"
  by (auto simp: block_ok_def bucket_list_def dest: list_all2_lengthD)

lemma distinct_nodes: "block_ok H m d D ass \<Longrightarrow> distinct (concat ass)"
  unfolding block_ok_def distinct_map by blast

lemma concat_replicate_Nil: "concat (replicate n []) = []"
  by (induction n) simp_all

definition low_ok :: "('k \<Rightarrow> 32 word) \<Rightarrow> ('k, 'v) hmem \<Rightarrow> addr \<Rightarrow> ('k \<rightharpoonup> 'v) \<Rightarrow> bool" where
  "low_ok H m d M \<longleftrightarrow> (case hm_datas m d of None \<Rightarrow> True | Some D \<Rightarrow> (\<forall>k\<in>dom M. H k \<noteq> hm_low m (hd_array D)))"

lemma rehash_view:
  assumes rep: "hmem_rep H m V" "V d = Some (M, r)" and d: "d \<noteq> shared_null" and D: "hm_datas m d = Some D"
    and hint: "rehash_hint D hint = Some b" "b \<le> 30" and low: "low_ok H m d M"
  obtains m' D' where "hdata_rehash m d hint = Some m'" "hmem_rep H m' V" "hm_low m' = hm_low m"
    "hm_datas m' d = Some D'" "hd_numBits D' = b" "hd_ref D' = hd_ref D"
proof (cases "hd_numBits D = b")
  case True
  then have "hdata_rehash m d hint = Some m" using D hint by (simp add: hdata_rehash_def)
  then show thesis using that rep(1) D True by blast
next
  case False
  obtain T where ok: "hmem_ok H m T" and M: "M = hcontent m (T d)" and r: "r = hd_ref D"
    and V: "V = (\<lambda>d. map_option (\<lambda>D. (hcontent m (T d), hd_ref D)) (hm_datas m d))" and bl: "block_ok H m d D (T d)"
    by (rule hmem_repE [OF rep]) (use D in simp)
  let ?ass = "T d"
  obtain nb where nb: "primeForNumBits b = Some nb" using hint(2) by (simp add: primeForNumBits_def)
  have pos: "0 < nb" by (rule primeForNumBits_Some(4) [OF nb])
  have ns: "hd_nodeSize D = 1" using bl hmem_null_iff [OF ok D] d by (auto simp: block_ok_def bits_ok_def)
  define D0 where "D0 = D\<lparr>hd_numBits := b, hd_numBuckets := nb\<rparr>"
  define m0 where "m0 = put_data m d D0"
  define f where "f = (\<lambda>a. unat (hhash m0 a) mod nb)"
  have same0: "hm_nodes m0 = hm_nodes m" by (simp add: m0_def)
  have info0: "hkey m0 = hkey m" "hvalue m0 = hvalue m" "hhash m0 = hhash m" by (auto simp: m0_def hkey_def hvalue_def hhash_def)
  have low0: "hm_low m0 (hd_array D0) = hm_low m (hd_array D)" by (simp add: m0_def D0_def)
  have hash: "hhash m a = H (hkey m a)" if "a \<in> set (concat ?ass)" for a using keep_hash [OF bl that] .
  have ch: "list_all2 (chain m0 d) (hd_buckets D) ?ass" by (rule chains_keep [of m]) (use bl in \<open>auto simp: block_ok_def same0\<close>)
  have fa: "f a = unat (hhash m0 a) mod nb \<and> f a < nb \<and> hhash m0 a \<noteq> hm_low m0 (hd_array D0)" if a: "a \<in> set (concat ?ass)" for a
  proof -
    have "hkey m a \<in> dom M" using a unfolding M domIff hcontent_None by blast
    then have "H (hkey m a) \<noteq> hm_low m (hd_array D)" using low D by (simp add: low_ok_def)
    then show ?thesis using hash [OF a] pos low0 by (simp add: f_def info0)
  qed
  obtain nbk m1 where re: "rehash_chains m0 d nb (replicate nb (End d)) (hd_buckets D) = Some (nbk, m1)"
    "list_all2 (chain m1 d) nbk (spread f (replicate nb []) (concat ?ass))"
    "relinks m0 m1 (set (concat ?ass) \<union> set (concat (replicate nb [])))"
    by (rule rehash_chains_chains [OF ch _ _ _ _ fa _ distinct_nodes [OF bl], of "replicate nb (End d)" "replicate nb []"])
       (simp_all add: m0_def list_all2_conv_all_nth sorted_into_def concat_replicate_Nil)
  let ?bss = "spread f (replicate nb []) (concat ?ass)"
  have len: "length ?bss = nb" by simp
  have ms: "mset (concat ?bss) = mset (concat ?ass)"
  proof -
    have "\<forall>a\<in>set (concat ?ass). f a < length (replicate nb [])" using fa unfolding length_replicate by blast
    from mset_spread [OF this] show ?thesis by (simp add: concat_replicate_Nil)
  qed
  have st: "set (concat ?bss) = set (concat ?ass)" using mset_eq_setD [OF ms] .
  define D1 where "D1 = D0\<lparr>hd_buckets := nbk, hd_array := hm_next m1\<rparr>"
  define m2 where "m2 = (put_data m1 d D1)\<lparr>hm_next := hm_next m1 + 1\<rparr>"
  have m1: "hm_datas m1 = hm_datas m0" "hm_low m1 = hm_low m" "hm_next m1 = hm_next m" using re(3) by (auto simp: relinks_def m0_def)
  have run: "hdata_rehash m d hint = Some m2"
    using False hint D nb re(1) m1(1)
    by (simp add: hdata_rehash_def bucket_list_block [OF bl] D1_def m2_def flip: D0_def m0_def) (simp add: m0_def)
  have info: "hkey m2 a = hkey m a" "hvalue m2 a = hvalue m a" "hhash m2 a = hhash m a" for a
    using relinks_info [OF re(3), of a] info0 by (simp_all add: m2_def hkey_def hvalue_def hhash_def)
  then have hinfo: "hinfo m2 = hinfo m" by (auto simp: hinfo_def)
  have cont: "hcontent m2 ?bss = M" "distinct (map (hkey m2) (concat ?bss))" "length (concat ?bss) = length (concat ?ass)"
    unfolding M using bl by (rule_tac [!] hcontent_eqI [of m2 ?bss m ?ass])
      (simp_all add: hinfo ms block_ok_def mset_map del: length_concat)
  have kp: "keep H m2 nb (?bss ! j) j" if j: "j < nb" for j
  proof -
    have "sorted_into f ?bss" by (rule sorted_into_spread) (simp add: sorted_into_def)
    moreover have "a \<in> set (concat ?ass)" if "a \<in> set (?bss ! j)" for a
      unfolding st [symmetric] using that j len nth_mem [of j ?bss] by auto
    ultimately show ?thesis using hash j len unfolding keep_def sorted_into_def info f_def info0 by metis
  qed
  have b2: "block_ok H m2 d D1 ?bss"
    using bl cont(2,3) kp nb ns pos chains_keep [OF re(2), of m2] len
    unfolding block_ok_def bits_ok_def D1_def D0_def by (simp add: m2_def del: length_concat set_concat)
  have "hmem_rep H m2 (V(d \<mapsto> (hcontent m2 ?bss, hd_ref D1)))"
  proof (rule hview_change1 [OF ok V _ b2])
    show "hm_datas m2 = (hm_datas m)(d \<mapsto> D1)" by (simp add: m2_def m1 m0_def)
    show "hm_nodes m2 a = hm_nodes m a" if "a \<notin> own m T d" "a < hm_next m" for a
      using that relinks_frame [OF re(3), of a] D by (simp add: m2_def same0 own_def concat_replicate_Nil del: set_concat)
    show "a \<in> set (concat ?bss) \<and> a < hm_next m2" if n: "hm_nodes m2 a = Some n" and a: "a \<in> own m T d \<or> hm_next m \<le> a" for a n
    proof -
      have "hm_nodes m a \<noteq> None" using n relinks_dom [OF re(3), of a] by (auto simp: m2_def same0)
      then have "a < hm_next m" using hmem_fresh [OF ok, of a] by (meson linorder_not_less)
      then show ?thesis unfolding st using a D by (auto simp: m2_def own_def m1 simp del: set_concat)
    qed
    show "hm_next m \<le> hm_next m2" by (simp add: m2_def m1)
    show "d < hm_next m2" using hmem_data_lt [OF ok D] by (simp add: m2_def m1)
    show "hd_numBuckets D1 = 0 \<longleftrightarrow> d = shared_null" using pos d by (simp add: D1_def D0_def)
  qed
  moreover have "V(d \<mapsto> (hcontent m2 ?bss, hd_ref D1)) = V" unfolding cont(1) using rep(2) r by (auto simp: D1_def D0_def)
  ultimately show thesis using that [OF run, of D1] m1(2) by (simp add: m2_def D1_def D0_def)
qed

lemma grow_view:
  assumes rep: "hmem_rep H m V" "V d = Some (M, r)" and d: "d \<noteq> shared_null" and few: "card (dom M) < 2 ^ 30"
    and low: "low_ok H m d M"
  obtains g m' where "hdata_grow m d = Some (g, m')" "hmem_rep H m' V" "hm_low m' = hm_low m" "\<not> g \<longrightarrow> m' = m"
proof -
  obtain T D where ok: "hmem_ok H m T" and D: "hm_datas m d = Some D" and M: "M = hcontent m (T d)" and bl: "block_ok H m d D (T d)"
    by (rule hmem_repE [OF rep])
  show thesis
  proof (cases "hd_numBuckets D \<le> hd_size D")
    case True
    have sz: "hd_size D < 2 ^ 30" using card_hcontent(2) [OF bl] few M by simp
    have "hd_numBuckets D \<noteq> 0" using hmem_null_iff [OF ok D] d by simp
    then have p: "primeForNumBits (hd_numBits D) = Some (hd_numBuckets D)" using bl by (auto simp: block_ok_def bits_ok_def)
    have "(2::nat) ^ hd_numBits D < 2 ^ 30" using primeForNumBits_Some(2) [OF p] True sz by linarith
    then have "hd_numBits D < 30" by (rule power_less_imp_less_exp [rotated]) simp
    then have b: "hd_numBits D + 1 \<le> 30" by simp
    define hint where "hint = int (hd_numBits D + 1)"
    have h: "- (2 ^ 30) < hint" "hint \<le> 30" using b by (simp_all add: hint_def)
    obtain b' where b': "rehash_hint D hint = Some b'" "b' \<le> 30"
      by (rule rehash_hint_ok [OF _ h]) (use bl in \<open>auto simp: block_ok_def\<close>)
    obtain m' where "hdata_rehash m d hint = Some m'" "hmem_rep H m' V" "hm_low m' = hm_low m"
      by (rule rehash_view [OF rep d D b' low]) blast
    then show thesis using that [of True m'] True D by (simp add: hdata_grow_def hint_def)
  next
    case False
    then show thesis using that [of False m] D rep(1) by (simp add: hdata_grow_def)
  qed
qed

section \<open>Copying a block\<close>

lemma copy_keep:
  assumes "map (map (hinfo m')) bss = map (map (hinfo m)) ass" "block_ok H m d D ass" "j < length ass"
  shows "keep H m' (length ass) (bss ! j) j"
proof -
  have len: "length bss = length ass" using arg_cong [OF assms(1), of length] by simp
  have "map (hinfo m') (bss ! j) = map (hinfo m) (ass ! j)" using arg_cong [OF assms(1), of "\<lambda>xs. xs ! j"] assms(3) len by simp
  then have "hinfo m' ` set (bss ! j) = hinfo m ` set (ass ! j)" by (metis set_map)
  moreover have "keep H m (length ass) (ass ! j) j" using assms(2,3) by (simp add: block_ok_def)
  ultimately show ?thesis unfolding keep_def hinfo_def by (smt (verit, best) image_iff prod.inject)
qed

lemma hdata_detach_view:
  assumes rep: "hmem_rep H m V" "V d = Some (M, r)"
  obtains x m' where "hdata_detach m d = Some (x, m')" "hmem_rep H m' (V(x \<mapsto> (M, 1)))" "V x = None" "x \<noteq> shared_null"
    "hm_low m' = hm_low m"
proof -
  obtain T D where ok: "hmem_ok H m T" and D: "hm_datas m d = Some D" and M: "M = hcontent m (T d)"
    and V: "V = (\<lambda>d. map_option (\<lambda>D. (hcontent m (T d), hd_ref D)) (hm_datas m d))" and bl: "block_ok H m d D (T d)"
    by (rule hmem_repE [OF rep])
  let ?ass = "T d"
  define x where "x = hm_next m"
  define bits where "bits = (if d = shared_null then minNumBits else hd_numBits D)"
  define nb where "nb = (if d = shared_null then 17 else hd_numBuckets D)"
  have len: "hd_numBuckets D = length ?ass" using bl by (simp add: block_ok_def)
  have null: "length ?ass = 0 \<longleftrightarrow> d = shared_null" using hmem_null_iff [OF ok D] len by simp
  have p17: "primeForNumBits minNumBits = Some 17" by (simp add: primeForNumBits_def minNumBits_def prime_deltas_def)
  have p: "primeForNumBits bits = Some nb" "nb \<noteq> 0"
  proof -
    have "bits_ok D" using bl by (simp add: block_ok_def)
    then show "primeForNumBits bits = Some nb" "nb \<noteq> 0"
      using len null p17 by (auto simp: bits_def nb_def bits_ok_def)
  qed
  have ns: "hd_nodeSize D \<noteq> 0 \<or> concat ?ass = []" using bl len null by (auto simp: block_ok_def bits_ok_def)
  have fr: "hm_nodes m a = None \<and> hm_datas m a = None" if "x \<le> a" for a using hmem_fresh [OF ok] that by (simp add: x_def)
  have xd: "x \<noteq> d" using fr [of x] D by auto
  have x0: "x \<noteq> shared_null" using ok fr [of x] unfolding hmem_ok_def by auto
  define X where "X = \<lparr>hd_fakeNode = Null, hd_buckets = replicate nb (End x), hd_array = x + 1, hd_ref = 1, hd_size = hd_size D,
    hd_nodeSize = 1, hd_numBits = bits, hd_numBuckets = nb\<rparr>"
  define m1 where "m1 = (put_data m x X)\<lparr>hm_next := x + 2\<rparr>"
  have m1: "hm_nodes m1 = hm_nodes m" "hm_datas m1 = (hm_datas m)(x \<mapsto> X)" "hm_next m1 = x + 2" "hm_low m1 = hm_low m"
    by (simp_all add: m1_def)
  have ch: "list_all2 (chain m1 d) (hd_buckets D) ?ass" by (rule chains_keep [of m]) (use bl in \<open>auto simp: block_ok_def m1\<close>)
  have lt: "a < x" if "a \<in> set (concat ?ass)" for a using hmem_live [OF ok D that] by (simp add: x_def)
  obtain qs m2 bss where c: "copy_chains m1 d x (hd_buckets D) = Some (qs, m2)" "list_all2 (chain m2 x) qs bss"
    "map (map (hinfo m2)) bss = map (map (hinfo m1)) ?ass" "grows m1 m2" "set (concat bss) = {hm_next m1 ..< hm_next m2}"
    "\<And>a. hm_next m2 \<le> a \<Longrightarrow> hm_nodes m2 a = None"
    by (rule copy_chains_chains [OF ch _ ns, of x]) (use D xd m1 fr in \<open>auto dest!: lt simp: m1 simp del: set_concat\<close>)
  have info: "map (map (hinfo m2)) bss = map (map (hinfo m)) ?ass"
  proof -
    have "hinfo m1 = hinfo m" by (auto simp: hinfo_def hkey_def hvalue_def hhash_def m1)
    then show ?thesis using c(3) by simp
  qed
  have len2: "length bss = length ?ass" "length qs = length ?ass"
    using arg_cong [OF c(3), of length] list_all2_lengthD [OF c(2)] by simp_all
  define X' where "X' = X\<lparr>hd_buckets := qs @ drop (length qs) (hd_buckets X)\<rparr>"
  define m3 where "m3 = put_data m2 x X'"
  define ass' where "ass' = (if d = shared_null then replicate nb [] else bss)"
  have le: "length qs \<le> nb" using len2 len null by (auto simp: nb_def)
  have "(if d = shared_null then primeForNumBits minNumBits else Some (hd_numBuckets D)) = Some nb"
    using p(1) by (auto simp: bits_def nb_def)
  then have run: "hdata_detach m d = Some (x, m3)"
    using c(1) le by (simp add: hdata_detach_def D bucket_list_block [OF bl] m3_def X'_def flip: x_def X_def bits_def)
      (simp add: X_def m1_def bits_def)
  have cc: "concat ass' = concat bss" using len2 null by (auto simp: ass'_def concat_replicate_Nil)
  have len': "length ass' = nb" using len2 len by (auto simp: ass'_def nb_def)
  have ch2: "list_all2 (chain m2 x) (hd_buckets X') ass'"
    using c(2) len2 len null by (auto simp: X'_def X_def ass'_def nb_def list_all2_conv_all_nth)
  have hi: "hinfo m3 = hinfo m2" by (auto simp: hinfo_def hkey_def hvalue_def hhash_def m3_def)
  have "map (hinfo m3) (concat ass') = map (hinfo m) (concat ?ass)" using arg_cong [OF info, of concat] by (simp add: cc hi map_concat)
  moreover have "distinct (map (hkey m) (concat ?ass))" using bl by (simp add: block_ok_def)
  ultimately have cont: "hcontent m3 ass' = M" "distinct (map (hkey m3) (concat ass'))" "length (concat ass') = length (concat ?ass)"
    unfolding M by (rule_tac [!] hcontent_eqI [of m3 ass' m ?ass]) (simp_all del: length_concat)
  have kp: "keep H m3 nb (ass' ! j) j" if j: "j < nb" for j
  proof (cases "d = shared_null")
    case True
    then show ?thesis using j by (simp add: ass'_def keep_def)
  next
    case False
    have "map (map (hinfo m3)) bss = map (map (hinfo m)) ?ass" using info hi by simp
    then show ?thesis using copy_keep [OF _ bl, of m3 bss j] False j len by (simp add: ass'_def nb_def)
  qed
  have b3: "block_ok H m3 x X' ass'"
    using cont(2,3) kp len' chains_keep [OF ch2, of m3] p bl
    unfolding block_ok_def bits_ok_def X'_def X_def by (simp add: m3_def del: length_concat set_concat)
  have gr: "hm_datas m2 = hm_datas m1" "hm_low m2 = hm_low m" "hm_next m1 \<le> hm_next m2"
    "\<And>a. a < x + 2 \<Longrightarrow> hm_nodes m2 a = hm_nodes m a"
    using c(4) m1 by (auto simp: grows_def)
  have "own m T x = {}" using fr [of x] by (simp add: own_def)
  have "hmem_rep H m3 (V(x \<mapsto> (hcontent m3 ass', hd_ref X')))"
  proof (rule hview_change1 [OF ok V _ b3])
    show "hm_datas m3 = (hm_datas m)(x \<mapsto> X')" by (simp add: m3_def gr m1)
    show "hm_nodes m3 a = hm_nodes m a" if "a < hm_next m" for a using that gr(4) by (simp add: m3_def x_def)
    show "a \<in> set (concat ass') \<and> a < hm_next m3" if n: "hm_nodes m3 a = Some n" and a: "a \<in> own m T x \<or> hm_next m \<le> a" for a n
    proof -
      have ax: "x \<le> a" using a \<open>own m T x = {}\<close> by (simp add: x_def)
      then have "\<not> a < x + 2" using n gr(4) [of a] fr [OF ax] by (auto simp: m3_def)
      moreover have "a < hm_next m2" using n c(6) [of a] by (force simp: m3_def)
      ultimately show ?thesis unfolding cc c(5) by (simp add: m1 m3_def)
    qed
    show "hm_next m \<le> hm_next m3" "x < hm_next m3" using gr(3) by (simp_all add: m3_def m1 x_def)
    show "hd_numBuckets X' = 0 \<longleftrightarrow> x = shared_null" using p x0 by (simp add: X'_def X_def)
  qed
  moreover have "V x = None" using fr [of x] by (simp add: V)
  ultimately show thesis using that [OF run] x0 cont(1) gr(2) by (simp add: X'_def X_def m3_def)
qed

end
