(* ===== verification/Hmap_Handle.thy ===== *)
theory Hmap_Handle
  imports Hmap_View
begin

text \<open>
  The operations of a handle over the view: what a handle writes it first makes its own, so a handle that
  shares the block keeps its map.
\<close>

section \<open>Blocks a handle may use\<close>

definition usable :: "(addr \<rightharpoonup> ('k \<rightharpoonup> 'v) \<times> 32 word) \<Rightarrow> addr \<Rightarrow> ('k \<rightharpoonup> 'v) \<Rightarrow> bool" where
  "usable V d M \<longleftrightarrow> (\<exists>r. V d = Some (M, r) \<and> r \<noteq> 0 \<and> (d = shared_null \<longrightarrow> 1 < r))"

definition low_free :: "('k \<Rightarrow> 32 word) \<Rightarrow> ('k, 'v) hmem \<Rightarrow> ('k \<rightharpoonup> 'v) \<Rightarrow> bool" where
  "low_free H m M \<longleftrightarrow> (\<forall>arr. \<forall>k\<in>dom M. H k \<noteq> hm_low m arr)"

lemma low_free_ok: "low_free H m M \<Longrightarrow> hm_low m' = hm_low m \<Longrightarrow> low_ok H m' d M"
  by (auto simp: low_free_def low_ok_def split: option.splits)

lemma null_empty: "hmem_rep H m V \<Longrightarrow> V shared_null = Some (M, r) \<Longrightarrow> M = Map.empty"
  by (erule hmem_repE, assumption) (auto simp: hmem_ok_def block_ok_def hcontent_def)

text \<open>What \<^verbatim>\<open>detach\<close> does to the view.\<close>

definition cow_detached :: "(addr \<rightharpoonup> ('k \<rightharpoonup> 'v) \<times> 32 word) \<Rightarrow> addr \<Rightarrow> (addr \<rightharpoonup> ('k \<rightharpoonup> 'v) \<times> 32 word) \<Rightarrow> addr \<Rightarrow> bool" where
  "cow_detached V d V' d' \<longleftrightarrow> (case V d of None \<Rightarrow> False | Some (M, r) \<Rightarrow>
     if r = 1 then d' = d \<and> V' = V
     else V d' = None \<and> V' = V(d' \<mapsto> (M, 1), d \<mapsto> (M, if d = shared_null then r else r - 1)))"

lemma cow_detached_own:
  assumes "usable V d M" "cow_detached V d V' d'" "V shared_null \<noteq> None"
  shows "V' d' = Some (M, 1)" "d' \<noteq> shared_null"
  using assms by (auto simp: usable_def cow_detached_def split: if_splits)

lemma hdetach_view:
  assumes rep: "hmem_rep H m V" and u: "usable V d M"
  obtains d' m' V' where "hmap_detach m d = Some (d', m')" "hmem_rep H m' V'" "cow_detached V d V' d'" "hm_low m' = hm_low m"
proof -
  obtain r where r: "V d = Some (M, r)" "r \<noteq> 0" "d = shared_null \<longrightarrow> 1 < r" using u by (auto simp: usable_def)
  obtain D where D: "hm_datas m d = Some D" "hd_ref D = r" by (rule hmem_repE [OF rep r(1)]) blast
  show thesis
  proof (cases "r = 1")
    case True
    then show thesis using that [of d m V] D rep r by (simp add: hmap_detach_def cow_detached_def)
  next
    case False
    then have gt: "1 < r" using r(2) by (simp add: word_less_nat_alt unat_eq_0 [symmetric] word_unat_eq_iff)
    obtain x m1 where x: "hdata_detach m d = Some (x, m1)" "hmem_rep H m1 (V(x \<mapsto> (M, 1)))" "V x = None" "x \<noteq> shared_null"
      "hm_low m1 = hm_low m" by (rule hdata_detach_view [OF rep r(1)])
    have xd: "x \<noteq> d" using x(3) r(1) by auto
    show thesis
    proof (cases "d = shared_null")
      case True
      then have "hmap_detach m d = Some (x, m1)" using D gt x(1) by (simp add: hmap_detach_def hmap_detach_helper_def)
      moreover have "cow_detached V d (V(x \<mapsto> (M, 1))) x" using r(1) x(3) False True xd by (auto simp: cow_detached_def)
      ultimately show thesis using that x(2,5) by blast
    next
      case d: False
      have "(V(x \<mapsto> (M, 1))) d = Some (M, r)" using r(1) xd by simp
      then obtain m2 where m2: "ref_dec m1 d = Some (r - 1, m2)" "hmem_rep H m2 (V(x \<mapsto> (M, 1), d \<mapsto> (M, r - 1)))" "hm_low m2 = hm_low m1"
        by (rule ref_dec_view [OF x(2) _ r(2)])
      have "r - 1 \<noteq> 0" using False by simp
      then have "hmap_detach m d = Some (x, m2)" using D gt x(1) m2(1) d by (simp add: hmap_detach_def hmap_detach_helper_def)
      moreover have "cow_detached V d (V(x \<mapsto> (M, 1), d \<mapsto> (M, r - 1))) x" using r(1) x(3) False d by (auto simp: cow_detached_def)
      ultimately show thesis using that m2(2,3) x(5) by simp
    qed
  qed
qed

text \<open>Detaching a block that is not shared does nothing.\<close>

lemma detach_owned: "hmem_rep H m V \<Longrightarrow> V d = Some (M, 1) \<Longrightarrow> hmap_detach m d = Some (d, m)"
  by (erule hmem_repE, assumption) (simp add: hmap_detach_def)

section \<open>Search\<close>

lemma findNode_view:
  assumes rep: "hmem_rep H m V" "V d = Some (M, r)"
  obtains s p where "findNode m d k (H k) = Some s" "read_slot m d s = Some p" "found m d k p (M k)"
proof -
  obtain T D where ok: "hmem_ok H m T" and D: "hm_datas m d = Some D" and M: "M = hcontent m (T d)" and bl: "block_ok H m d D (T d)"
    by (rule hmem_repE [OF rep])
  have len: "hd_numBuckets D = length (T d)" using bl by (simp add: block_ok_def)
  show thesis
  proof (cases "length (T d) = 0")
    case True
    then have "findNode m d k (H k) = Some Member" "M k = None" using D len M by (simp_all add: findNode_def hcontent_def)
    then show thesis using that [of Member "End d"] by (simp add: read_slot_def found_def)
  next
    case False
    let ?fd = "find (\<lambda>a. hkey m a = k) (concat (T d))"
    have pos: "0 < length (T d)" using False by simp
    note f = findNode_block [OF bl D pos refl, of k]
    have "found m d k (case ?fd of None \<Rightarrow> End d | Some a \<Rightarrow> Node a) (M k)"
    proof (cases ?fd)
      case None
      then have "M k = None" unfolding M hcontent_None find_None_iff by blast
      then show ?thesis using None by (simp add: found_def)
    next
      case (Some a)
      then have a: "a \<in> set (concat (T d))" "hkey m a = k" unfolding find_Some_iff by (metis nth_mem)+
      have "distinct (map (hkey m) (concat (T d)))" using bl by (simp only: block_ok_def)
      then have "M k = Some (hvalue m a)" unfolding M using hcontent_iff a by metis
      moreover obtain n where "hm_nodes m a = Some n" using block_node [OF bl a(1)] by blast
      ultimately show ?thesis using Some a(2) block_holds [OF bl a(1)] by (simp add: found_def hkey_def hvalue_def)
    qed
    then show thesis using that [OF f] by blast
  qed
qed

lemma hfind_view:
  assumes "hmem_rep H m V" "usable V d M" "V shared_null \<noteq> None"
  obtains p d' m' V' where "hmap_find H m d k = Some (p, d', m')" "hmem_rep H m' V'" "cow_detached V d V' d'" "found m' d' k p (M k)"
    "hm_low m' = hm_low m"
proof -
  obtain d' m' V' where d: "hmap_detach m d = Some (d', m')" "hmem_rep H m' V'" "cow_detached V d V' d'" "hm_low m' = hm_low m"
    by (rule hdetach_view [OF assms(1,2)])
  obtain s p where "findNode m' d' k (H k) = Some s" "read_slot m' d' s = Some p" "found m' d' k p (M k)"
    by (rule findNode_view [OF d(2) cow_detached_own(1) [OF assms(2) d(3) assms(3)]])
  then show thesis using that d by (simp add: hmap_find_def)
qed

section \<open>Insertion\<close>

definition map_insert_new :: "('k \<rightharpoonup> 'v) \<Rightarrow> 'k \<Rightarrow> 'v \<Rightarrow> ('k \<rightharpoonup> 'v)" where
  "map_insert_new M k v = (case M k of None \<Rightarrow> M(k \<mapsto> v) | Some _ \<Rightarrow> M)"

lemma insert_owned:
  assumes rep: "hmem_rep H m V" "V d = Some (M, 1)" "d \<noteq> shared_null" and few: "card (dom M) < 2 ^ 30" and low: "low_free H m M"
  obtains a m' where "hmap_insert H m d k v = Some (Node a, d, m')" "hmem_rep H m' (V(d \<mapsto> (map_insert_new M k v, 1)))"
    "found m' d k (Node a) (map_insert_new M k v k)" "hm_low m' = hm_low m"
proof -
  have det: "hmap_detach m d = Some (d, m)" by (rule detach_owned [OF rep(1,2)])
  obtain s p where s: "findNode m d k (H k) = Some s" "read_slot m d s = Some p" "found m d k p (M k)"
    by (rule findNode_view [OF rep(1,2)])
  show thesis
  proof (cases "M k")
    case None
    then have p: "p = End d" using s(3) by (simp add: found_def)
    obtain g m1 where g: "hdata_grow m d = Some (g, m1)" "hmem_rep H m1 V" "hm_low m1 = hm_low m" "\<not> g \<longrightarrow> m1 = m"
      by (rule grow_view [OF rep(1,2,3) few low_free_ok [OF low refl]])
    obtain s1 p1 where s1: "findNode m1 d k (H k) = Some s1" by (rule findNode_view [OF g(2) rep(2)])
    have sel: "(if g then findNode m1 d k (H k) else Some s) = Some s1" using s1 s(1) g(4) by auto
    obtain a m2 where c: "hmap_createNode m1 d (H k) k v s1 = Some (Node a, m2)" "hmem_rep H m2 (V(d \<mapsto> (M(k \<mapsto> v), 1)))"
      "found m2 d k (Node a) (Some v)" "hm_low m2 = hm_low m1"
      by (rule hcreate_view [OF g(2) rep(2) None rep(3) s1])
    have "hmap_insert H m d k v = Some (Node a, d, m2)"
      by (simp add: hmap_insert_def det s(1,2) p g(1) sel c(1))
    then show thesis using that c g(3) None by (simp add: map_insert_new_def)
  next
    case (Some y)
    then obtain a where a: "p = Node a" "found m d k (Node a) (Some y)" using s(3) by (auto simp: found_def)
    have "hmap_insert H m d k v = Some (Node a, d, m)" by (simp add: hmap_insert_def det s(1,2) a(1))
    moreover have "V(d \<mapsto> (M, 1)) = V" using rep(2) by auto
    ultimately show thesis using that a rep(1) Some by (simp add: map_insert_new_def)
  qed
qed

lemma insert_detached:
  assumes "hmap_detach m d = Some (d', m')" "hmap_detach m' d' = Some (d', m')"
  shows "hmap_insert H m d k v = hmap_insert H m' d' k v" "hmap_at H dflt m d k = hmap_at H dflt m' d' k"
  using assms by (simp_all add: hmap_insert_def hmap_at_def)

lemma insert_hview:
  assumes rep: "hmem_rep H m V" and u: "usable V d M" and n: "V shared_null \<noteq> None" and few: "card (dom M) < 2 ^ 30" and low: "low_free H m M"
  obtains a d' m' V' where "hmap_insert H m d k v = Some (Node a, d', m')" "cow_detached V d V' d'"
    "hmem_rep H m' (V'(d' \<mapsto> (map_insert_new M k v, 1)))" "found m' d' k (Node a) (map_insert_new M k v k)" "hm_low m' = hm_low m"
proof -
  obtain d' m1 V' where d: "hmap_detach m d = Some (d', m1)" "hmem_rep H m1 V'" "cow_detached V d V' d'" "hm_low m1 = hm_low m"
    by (rule hdetach_view [OF rep u])
  note own = cow_detached_own [OF u d(3) n]
  have low': "low_free H m1 M" using low d(4) by (simp add: low_free_def)
  have "hmap_insert H m d k v = hmap_insert H m1 d' k v" by (rule insert_detached(1) [OF d(1) detach_owned [OF d(2) own(1)]])
  then show thesis using insert_owned [OF d(2) own few low', of k v] that d(3,4) by metis
qed

section \<open>Access and assignment\<close>

lemma at_owned:
  assumes rep: "hmem_rep H m V" "V d = Some (M, 1)" "d \<noteq> shared_null" and few: "card (dom M) < 2 ^ 30" and low: "low_free H m M"
  obtains a m' where "hmap_at H dflt m d k = Some (Inr a, d, m')" "hmem_rep H m' (V(d \<mapsto> (map_insert_new M k dflt, 1)))"
    "found m' d k (Node a) (map_insert_new M k dflt k)" "hm_low m' = hm_low m"
proof -
  have det: "hmap_detach m d = Some (d, m)" by (rule detach_owned [OF rep(1,2)])
  obtain s p where s: "findNode m d k (H k) = Some s" "read_slot m d s = Some p" "found m d k p (M k)"
    by (rule findNode_view [OF rep(1,2)])
  show thesis
  proof (cases "M k")
    case None
    then have p: "p = End d" using s(3) by (simp add: found_def)
    obtain a m1 where i: "hmap_insert H m d k dflt = Some (Node a, d, m1)" "hmem_rep H m1 (V(d \<mapsto> (map_insert_new M k dflt, 1)))"
      "found m1 d k (Node a) (map_insert_new M k dflt k)" "hm_low m1 = hm_low m"
      by (rule insert_owned [OF rep few low])
    have det1: "hmap_detach m1 d = Some (d, m1)" by (rule detach_owned [OF i(2)]) simp
    obtain n where "hm_nodes m1 a = Some n" using i(3) None by (auto simp: found_def map_insert_new_def)
    then have "hmap_at H dflt m d k = Some (Inr a, d, m1)" by (simp add: hmap_at_def det s(1,2) p i(1) det1)
    then show thesis using that i by blast
  next
    case (Some y)
    then obtain a where a: "p = Node a" "found m d k (Node a) (Some y)" using s(3) by (auto simp: found_def)
    have "hmap_at H dflt m d k = Some (Inr a, d, m)" by (simp add: hmap_at_def det s(1,2) a(1))
    moreover have "V(d \<mapsto> (M, 1)) = V" using rep(2) by auto
    ultimately show thesis using that a rep(1) Some by (simp add: map_insert_new_def)
  qed
qed

text \<open>Writing through the reference.\<close>

lemma set_value_view:
  assumes rep: "hmem_rep H m V" "V d = Some (M, r)" and f: "found m d k (Node a) (Some y)" and n: "hm_nodes m a = Some n"
  shows "hmem_rep H (put_node m a (n\<lparr>hn_value := v\<rparr>)) (V(d \<mapsto> (M(k \<mapsto> v), r)))"
proof -
  obtain T D where ok: "hmem_ok H m T" and D: "hm_datas m d = Some D" and M: "M = hcontent m (T d)" and r: "r = hd_ref D"
    and V: "V = (\<lambda>d. map_option (\<lambda>D. (hcontent m (T d), hd_ref D)) (hm_datas m d))" and bl: "block_ok H m d D (T d)"
    by (rule hmem_repE [OF rep])
  let ?m = "put_node m a (n\<lparr>hn_value := v\<rparr>)"
  have h: "holds m d a" "hn_key n = k" using f n by (auto simp: found_def)
  have a: "a \<in> set (concat (T d))" by (rule holds_block [OF ok D h(1)])
  have fields: "hkey ?m b = hkey m b" "hhash ?m b = hhash m b" "hvalue ?m b = (if b = a then v else hvalue m b)" for b
    using n by (simp_all add: hkey_def hhash_def hvalue_def)
  have sg: "seg ?m p as q = seg m p as q" for p as q
    by (induction as arbitrary: p) (use n in auto)
  have d1: "distinct (map (hkey m) (concat (T d)))" using bl by (simp only: block_ok_def)
  have keys: "map (hkey ?m) (concat (T d)) = map (hkey m) (concat (T d))" by (rule map_cong [OF refl]) (rule fields(1))
  have b: "block_ok H ?m d D (T d)" using bl unfolding block_ok_def keep_def keys sg fields(1,2) .
  have "hcontent ?m (T d) = M(k \<mapsto> v)"
  proof (rule hcontent_eq)
    show "distinct (map (hkey ?m) (concat (T d)))" unfolding keys by (rule d1)
    fix x z
    have ka: "hkey m a = k" using n h(2) by (simp add: hkey_def)
    have one: "b = a" if "b \<in> set (concat (T d))" "hkey m b = k" for b
      using that a ka d1 unfolding distinct_map inj_on_def by metis
    show "(\<exists>b\<in>set (concat (T d)). hkey ?m b = x \<and> hvalue ?m b = z) \<longleftrightarrow> (M(k \<mapsto> v)) x = Some z"
    proof (cases "x = k")
      case True
      have "(\<exists>b\<in>set (concat (T d)). hkey m b = k \<and> (if b = a then v else hvalue m b) = z) \<longleftrightarrow> v = z"
        using one a ka by metis
      then show ?thesis unfolding fields using True by simp
    next
      case False
      then have "(\<exists>b\<in>set (concat (T d)). hkey m b = x \<and> (if b = a then v else hvalue m b) = z) \<longleftrightarrow> M x = Some z"
        unfolding M hcontent_iff [OF d1] using ka by metis
      then show ?thesis unfolding fields using False by simp
    qed
  qed
  moreover have "hmem_rep H ?m (V(d \<mapsto> (hcontent ?m (T d), hd_ref D)))"
  proof (rule hview_change1 [OF ok V _ b])
    show "hm_datas ?m = (hm_datas m)(d \<mapsto> D)" using D by auto
    show "hm_nodes ?m b = hm_nodes m b" if "b \<notin> own m T d" for b using that a D by (auto simp: own_def simp del: set_concat)
    show "b \<in> set (concat (T d)) \<and> b < hm_next ?m" if nb: "hm_nodes ?m b = Some n'" and c: "b \<in> own m T d \<or> hm_next m \<le> b" for b n'
    proof -
      have "hm_nodes m b \<noteq> None" using nb n by (auto split: if_splits)
      then have "b < hm_next m" using hmem_fresh [OF ok, of b] by (meson linorder_not_less)
      then show ?thesis using c D by (auto simp: own_def simp del: set_concat)
    qed
    show "d < hm_next ?m" using hmem_data_lt [OF ok D] by simp
    show "hd_numBuckets D = 0 \<longleftrightarrow> d = shared_null" by (rule hmem_null_iff [OF ok D])
  qed simp
  ultimately show ?thesis by (simp add: r)
qed

lemma map_insert_new_upd: "(map_insert_new M k w)(k \<mapsto> v) = M(k \<mapsto> v)"
  by (auto simp: map_insert_new_def split: option.splits)

lemma store_hview:
  assumes rep: "hmem_rep H m V" and u: "usable V d M" and n: "V shared_null \<noteq> None" and few: "card (dom M) < 2 ^ 30" and low: "low_free H m M"
  obtains d' m' V' where "hmap_store H dflt m d k v = Some (Inr (), d', m')" "cow_detached V d V' d'"
    "hmem_rep H m' (V'(d' \<mapsto> (M(k \<mapsto> v), 1)))" "hm_low m' = hm_low m"
proof -
  obtain d' m1 V' where d: "hmap_detach m d = Some (d', m1)" "hmem_rep H m1 V'" "cow_detached V d V' d'" "hm_low m1 = hm_low m"
    by (rule hdetach_view [OF rep u])
  note own = cow_detached_own [OF u d(3) n]
  have low': "low_free H m1 M" using low d(4) by (simp add: low_free_def)
  obtain a m2 where a: "hmap_at H dflt m1 d' k = Some (Inr a, d', m2)" "hmem_rep H m2 (V'(d' \<mapsto> (map_insert_new M k dflt, 1)))"
    "found m2 d' k (Node a) (map_insert_new M k dflt k)" "hm_low m2 = hm_low m1"
    by (rule at_owned [OF d(2) own few low'])
  obtain y where y: "map_insert_new M k dflt k = Some y" by (cases "M k") (auto simp: map_insert_new_def)
  then obtain nd where nd: "hm_nodes m2 a = Some nd" using a(3) by (auto simp: found_def)
  have "hmem_rep H (put_node m2 a (nd\<lparr>hn_value := v\<rparr>)) (V'(d' \<mapsto> (map_insert_new M k dflt, 1), d' \<mapsto> ((map_insert_new M k dflt)(k \<mapsto> v), 1)))"
    by (rule set_value_view [OF a(2) _ a(3) [unfolded y] nd]) simp
  moreover have "hmap_store H dflt m d k v = Some (Inr (), d', put_node m2 a (nd\<lparr>hn_value := v\<rparr>))"
    by (simp add: hmap_store_def d(1) a(1) nd)
  ultimately show thesis using that d(3,4) a(4) by (simp add: map_insert_new_upd)
qed

lemma at_const_view:
  assumes "hmem_rep H m V" "V d = Some (M, r)"
  shows "hmap_at_const H m d k v = Some (case M k of None \<Rightarrow> v | Some y \<Rightarrow> y)"
proof -
  obtain s p where s: "findNode m d k (H k) = Some s" "read_slot m d s = Some p" "found m d k p (M k)"
    by (rule findNode_view [OF assms])
  then show ?thesis by (auto simp: hmap_at_const_def found_def split: option.splits)
qed

lemma size_view:
  assumes "hmem_rep H m V" "V d = Some (M, r)"
  shows "hmap_size m d = Some (card (dom M))" "hmap_empty m d = Some (M = Map.empty)" "finite (dom M)"
proof -
  obtain T D where D: "hm_datas m d = Some D" and M: "M = hcontent m (T d)" and bl: "block_ok H m d D (T d)"
    by (rule hmem_repE [OF assms])
  note c = card_hcontent [OF bl, folded M]
  show "finite (dom M)" by (rule c(1))
  show "hmap_size m d = Some (card (dom M))" using c(2) D by (simp add: hmap_size_def)
  have "hd_size D = 0 \<longleftrightarrow> M = Map.empty" unfolding c(2) [symmetric] using c(1) by simp
  then show "hmap_empty m d = Some (M = Map.empty)" using D by (simp add: hmap_empty_def)
qed

section \<open>Capacity\<close>

lemma reserve_hview:
  assumes rep: "hmem_rep H m V" and u: "usable V d M" and n: "V shared_null \<noteq> None" and c: "c < 2 ^ 30" and low: "low_free H m M"
  obtains d' m' V' where "hmap_reserve m d c = Some (d', m')" "hmem_rep H m' V'" "hm_low m' = hm_low m"
    "if c = 0 then d' = d \<and> V' = V else cow_detached V d V' d'"
proof (cases "c = 0")
  case True
  then show thesis using that [of d m V] rep by (simp add: hmap_reserve_def)
next
  case False
  obtain d' m1 V' where d: "hmap_detach m d = Some (d', m1)" "hmem_rep H m1 V'" "cow_detached V d V' d'" "hm_low m1 = hm_low m"
    by (rule hdetach_view [OF rep u])
  note own = cow_detached_own [OF u d(3) n]
  obtain T D where D: "hm_datas m1 d' = Some D" and bl: "block_ok H m1 d' D (T d')" by (rule hmem_repE [OF d(2) own(1)])
  have h: "- (2 ^ 30) < - int c" "- int c \<le> 30" using c by simp_all
  obtain b where b: "rehash_hint D (- int c) = Some b" "b \<le> 30"
    by (rule rehash_hint_ok [OF _ h]) (use bl in \<open>auto simp: block_ok_def\<close>)
  obtain m2 where "hdata_rehash m1 d' (- int c) = Some m2" "hmem_rep H m2 V'" "hm_low m2 = hm_low m1"
    by (rule rehash_view [OF d(2) own D b low_free_ok [OF low d(4)]]) blast
  then show thesis using that [of d' m2 V'] d False by (simp add: hmap_reserve_def)
qed

section \<open>Sharing and releasing\<close>

definition released :: "(addr \<rightharpoonup> ('k \<rightharpoonup> 'v) \<times> 32 word) \<Rightarrow> addr \<Rightarrow> addr \<rightharpoonup> ('k \<rightharpoonup> 'v) \<times> 32 word" where
  "released V d = (case V d of None \<Rightarrow> V | Some (M, r) \<Rightarrow> if r = 1 then V(d := None) else V(d \<mapsto> (M, r - 1)))"

definition shared :: "(addr \<rightharpoonup> ('k \<rightharpoonup> 'v) \<times> 32 word) \<Rightarrow> addr \<Rightarrow> addr \<rightharpoonup> ('k \<rightharpoonup> 'v) \<times> 32 word" where
  "shared V d = V(d := map_option (\<lambda>(M, r). (M, r + 1)) (V d))"

lemma delete_view:
  assumes rep: "hmem_rep H m V" and u: "usable V d M"
  obtains m' where "hmap_delete m d = Some m'" "hmem_rep H m' (released V d)" "hm_low m' = hm_low m"
proof -
  obtain r where r: "V d = Some (M, r)" "r \<noteq> 0" "d = shared_null \<longrightarrow> 1 < r" using u by (auto simp: usable_def)
  obtain m1 where m1: "ref_dec m d = Some (r - 1, m1)" "hmem_rep H m1 (V(d \<mapsto> (M, r - 1)))" "hm_low m1 = hm_low m"
    by (rule ref_dec_view [OF rep r(1,2)])
  show thesis
  proof (cases "r = 1")
    case True
    then have d: "d \<noteq> shared_null" using r(3) by auto
    obtain m2 where "free_helper m1 d = Some m2" "hmem_rep H m2 ((V(d \<mapsto> (M, r - 1)))(d := None))" "hm_low m2 = hm_low m1"
      by (rule hfree_view [OF m1(2) _ d]) simp_all
    then show thesis using that m1 True r(1) by (simp add: hmap_delete_def freeData_def released_def)
  next
    case False
    then show thesis using that m1 r(1) by (simp add: hmap_delete_def released_def)
  qed
qed

lemma copy_view:
  assumes "hmem_rep H m V" "V d = Some (M, r)"
  obtains m' where "hmap_copy m d = Some (d, m')" "hmem_rep H m' (shared V d)" "hm_low m' = hm_low m"
proof -
  obtain m1 where "ref_inc m d = Some m1" "hmem_rep H m1 (V(d \<mapsto> (M, r + 1)))" "hm_low m1 = hm_low m"
    by (rule ref_inc_view [OF assms])
  then show thesis using that assms(2) by (simp add: hmap_copy_def shared_def)
qed

lemma assign_view:
  assumes rep: "hmem_rep H m V" and u: "usable V d M" and o: "V e = Some (N, r)" and ne: "d \<noteq> e"
  obtains m' where "hmap_assign m d e = Some (e, m')" "hmem_rep H m' (released (shared V e) d)" "hm_low m' = hm_low m"
proof -
  obtain m1 where m1: "ref_inc m e = Some m1" "hmem_rep H m1 (shared V e)" "hm_low m1 = hm_low m"
    using copy_view [OF rep o] by (fastforce simp: hmap_copy_def split: Option.bind_splits)
  have "usable (shared V e) d M" using u ne by (simp add: usable_def shared_def)
  then obtain m2 where "hmap_delete m1 d = Some m2" "hmem_rep H m2 (released (shared V e) d)" "hm_low m2 = hm_low m1"
    by (rule delete_view [OF m1(2)])
  then show thesis using that m1(1,3) ne
    by (auto simp: hmap_assign_def hmap_delete_def bind_eq_Some_iff split: prod.splits if_splits)
qed

end
