(* ===== verification/Hmap_World.thy ===== *)
theory Hmap_World
  imports Hmap_Handle
begin

text \<open>
  Programs over hash maps: a handle is a variable, an environment gives the block of each, and a run of
  operations starts without handles in a memory with the static block only. The specification gives every
  variable a finite map of its own.
\<close>

section \<open>Programs\<close>

type_synonym 'o henv = "'o \<rightharpoonup> addr"

datatype ('o, 'k, 'v) hmap_op =
  HNew 'o | HCopy 'o 'o | HMove 'o 'o | HAssign 'o 'o | HAssignMove 'o 'o | HDelete 'o
| HInsert 'o 'k 'v | HStore 'o 'k 'v | HFind 'o 'k | HGet 'o 'k 'v | HReserve 'o nat | HClear 'o | HSize 'o

datatype 'v hresult = HNone | HBool bool | HValue 'v | HNat nat

definition put_env :: "'o henv \<Rightarrow> 'o \<Rightarrow> addr \<times> ('k, 'v) hmem \<Rightarrow> 'v hresult \<times> 'o henv \<times> ('k, 'v) hmem" where
  "put_env E x r = (HNone, E(x \<mapsto> fst r), snd r)"

fun hmap_exec :: "('k \<Rightarrow> 32 word) \<Rightarrow> 'v \<Rightarrow> ('o, 'k, 'v) hmap_op \<Rightarrow> 'o henv \<Rightarrow> ('k, 'v) hmem
    \<Rightarrow> ('v hresult \<times> 'o henv \<times> ('k, 'v) hmem) option" where
  "hmap_exec H dflt (HNew x) E m = Some (put_env E x (map_new, m))"
| "hmap_exec H dflt (HCopy x y) E m = do { d \<leftarrow> E y; r \<leftarrow> hmap_copy m d; Some (put_env E x r) }"
| "hmap_exec H dflt (HMove x y) E m = do {
     d \<leftarrow> E y; let (d, e) = hmap_move d; Some (HNone, E(x \<mapsto> d, y \<mapsto> e), m) }"
| "hmap_exec H dflt (HAssign x y) E m = do { d \<leftarrow> E x; e \<leftarrow> E y; r \<leftarrow> hmap_assign m d e; Some (put_env E x r) }"
| "hmap_exec H dflt (HAssignMove x y) E m = do {
     d \<leftarrow> E x; e \<leftarrow> E y; let (d, e) = hmap_assign_move d e; Some (HNone, E(x \<mapsto> d, y \<mapsto> e), m) }"
| "hmap_exec H dflt (HDelete x) E m = do { d \<leftarrow> E x; m \<leftarrow> hmap_delete m d; Some (HNone, E(x := None), m) }"
| "hmap_exec H dflt (HInsert x k v) E m = do { d \<leftarrow> E x; (p, r) \<leftarrow> hmap_insert H m d k v; Some (put_env E x r) }"
| "hmap_exec H dflt (HStore x k v) E m = do { d \<leftarrow> E x; (p, r) \<leftarrow> hmap_store H dflt m d k v; Some (put_env E x r) }"
| "hmap_exec H dflt (HFind x k) E m = do {
     d \<leftarrow> E x; (p, d, m) \<leftarrow> hmap_find H m d k; Some (HBool (p \<noteq> End d), E(x \<mapsto> d), m) }"
| "hmap_exec H dflt (HGet x k v) E m = do { d \<leftarrow> E x; y \<leftarrow> hmap_at_const H m d k v; Some (HValue y, E, m) }"
| "hmap_exec H dflt (HReserve x n) E m = do { d \<leftarrow> E x; r \<leftarrow> hmap_reserve m d n; Some (put_env E x r) }"
| "hmap_exec H dflt (HClear x) E m = do { d \<leftarrow> E x; r \<leftarrow> hmap_clear m d; Some (put_env E x r) }"
| "hmap_exec H dflt (HSize x) E m = do { d \<leftarrow> E x; n \<leftarrow> hmap_size m d; Some (HNat n, E, m) }"

text \<open>The same on maps that are values.\<close>

fun hspec_exec :: "('o, 'k, 'v) hmap_op \<Rightarrow> ('o \<rightharpoonup> ('k \<rightharpoonup> 'v)) \<Rightarrow> 'v hresult \<times> ('o \<rightharpoonup> ('k \<rightharpoonup> 'v))" where
  "hspec_exec (HNew x) f = (HNone, f(x \<mapsto> Map.empty))"
| "hspec_exec (HCopy x y) f = (HNone, f(x := f y))"
| "hspec_exec (HMove x y) f = (HNone, f(x := f y, y \<mapsto> Map.empty))"
| "hspec_exec (HAssign x y) f = (HNone, f(x := f y))"
| "hspec_exec (HAssignMove x y) f = (HNone, f(x := f y, y := f x))"
| "hspec_exec (HDelete x) f = (HNone, f(x := None))"
| "hspec_exec (HInsert x k v) f = (HNone, f(x := map_option (\<lambda>M. map_insert_new M k v) (f x)))"
| "hspec_exec (HStore x k v) f = (HNone, f(x := map_option (\<lambda>M. M(k \<mapsto> v)) (f x)))"
| "hspec_exec (HFind x k) f = (HBool (the (f x) k \<noteq> None), f)"
| "hspec_exec (HGet x k v) f = (HValue (case the (f x) k of None \<Rightarrow> v | Some y \<Rightarrow> y), f)"
| "hspec_exec (HReserve x n) f = (HNone, f)"
| "hspec_exec (HClear x) f = (HNone, f(x \<mapsto> Map.empty))"
| "hspec_exec (HSize x) f = (HNat (card (dom (the (f x)))), f)"

text \<open>A new variable is a new object, and an empty map is not copied.\<close>

definition filled :: "('o \<rightharpoonup> ('k \<rightharpoonup> 'v)) \<Rightarrow> 'o \<Rightarrow> bool" where
  "filled f y \<longleftrightarrow> (case f y of None \<Rightarrow> False | Some M \<Rightarrow> M \<noteq> Map.empty)"

fun hop_allowed :: "('o, 'k, 'v) hmap_op \<Rightarrow> ('o \<rightharpoonup> ('k \<rightharpoonup> 'v)) \<Rightarrow> bool" where
  "hop_allowed (HNew x) f \<longleftrightarrow> f x = None"
| "hop_allowed (HCopy x y) f \<longleftrightarrow> f x = None \<and> filled f y"
| "hop_allowed (HMove x y) f \<longleftrightarrow> f x = None \<and> f y \<noteq> None"
| "hop_allowed (HAssign x y) f \<longleftrightarrow> f x \<noteq> None \<and> filled f y"
| "hop_allowed (HAssignMove x y) f \<longleftrightarrow> f x \<noteq> None \<and> f y \<noteq> None"
| "hop_allowed (HDelete x) f \<longleftrightarrow> f x \<noteq> None"
| "hop_allowed (HInsert x k v) f \<longleftrightarrow> f x \<noteq> None"
| "hop_allowed (HStore x k v) f \<longleftrightarrow> f x \<noteq> None"
| "hop_allowed (HFind x k) f \<longleftrightarrow> f x \<noteq> None"
| "hop_allowed (HGet x k v) f \<longleftrightarrow> f x \<noteq> None"
| "hop_allowed (HReserve x n) f \<longleftrightarrow> f x \<noteq> None \<and> n < 2 ^ 30"
| "hop_allowed (HClear x) f \<longleftrightarrow> f x \<noteq> None"
| "hop_allowed (HSize x) f \<longleftrightarrow> f x \<noteq> None"

section \<open>The invariant\<close>

definition husers :: "'o henv \<Rightarrow> addr \<Rightarrow> 'o set" where
  "husers E d = {x. E x = Some d}"

text \<open>
  After \<^term>\<open>n\<close> operations: the count of a block is the number of its handles, no block is without handle, the
  count of the static block is at most \<^term>\<open>n\<close> below its start, and a map has at most \<^term>\<open>n\<close> keys.
\<close>

definition hworld :: "('k \<Rightarrow> 32 word) \<Rightarrow> nat \<Rightarrow> 'o henv \<Rightarrow> ('k, 'v) hmem \<Rightarrow> (addr \<rightharpoonup> ('k \<rightharpoonup> 'v) \<times> 32 word) \<Rightarrow> bool" where
  "hworld H n E m V \<longleftrightarrow> hmem_rep H m V \<and> finite (dom E) \<and> card (dom E) \<le> n
     \<and> (\<forall>x d. E x = Some d \<longrightarrow> V d \<noteq> None)
     \<and> (\<forall>d M r. V d = Some (M, r) \<longrightarrow> d \<noteq> shared_null \<longrightarrow> unat r = card (husers E d) \<and> 0 < unat r)
     \<and> (\<exists>M r. V shared_null = Some (M, r) \<and> 2 ^ 32 - 1 - n \<le> unat r)
     \<and> (\<forall>d M r. V d = Some (M, r) \<longrightarrow> card (dom M) \<le> n)"

definition henv_map :: "'o henv \<Rightarrow> (addr \<rightharpoonup> ('k \<rightharpoonup> 'v) \<times> 32 word) \<Rightarrow> 'o \<rightharpoonup> ('k \<rightharpoonup> 'v)" where
  "henv_map E V x = (case E x of None \<Rightarrow> None | Some d \<Rightarrow> map_option fst (V d))"

lemma husers_upd:
  "husers (E(x \<mapsto> e)) d = (if d = e then insert x (husers E d) else husers E d - {x})"
  "husers (E(x := None)) d = husers E d - {x}"
  by (auto simp: husers_def)

lemma husers_finite: "hworld H n E m V \<Longrightarrow> finite (husers E d)"
  by (rule finite_subset [of _ "dom E"]) (auto simp: husers_def hworld_def)

lemma husers_card: "hworld H n E m V \<Longrightarrow> card (husers E d) \<le> n"
  by (rule le_trans [OF card_mono [of "dom E"]]) (auto simp: husers_def hworld_def)

lemma hworld_handle:
  assumes "hworld H n E m V" "E x = Some d" "n < 2 ^ 30"
  obtains M r where "V d = Some (M, r)" "usable V d M" "henv_map E V x = Some M" "card (dom M) \<le> n"
    "V shared_null \<noteq> None" "hmem_rep H m V"
proof -
  obtain M r where V: "V d = Some (M, r)" using assms(1,2) by (fastforce simp: hworld_def)
  have "unat r = card (husers E d) \<and> 0 < unat r" if "d \<noteq> shared_null" using assms(1) V that unfolding hworld_def by blast
  moreover have "1 < unat r" if d: "d = shared_null"
  proof -
    have "2 ^ 32 - 1 - n \<le> unat r" using assms(1) V d unfolding hworld_def by auto
    then show ?thesis using assms(3) by simp
  qed
  ultimately have "0 < unat r" "d = shared_null \<longrightarrow> 1 < unat r" by fastforce+
  then have "usable V d M" using V by (auto simp: usable_def word_less_nat_alt)
  then show thesis using that V assms(1,2) unfolding hworld_def henv_map_def by auto
qed

lemma henv_None: "hworld H n E m V \<Longrightarrow> henv_map E V x = None \<longleftrightarrow> E x = None"
  by (auto simp: hworld_def henv_map_def split: option.splits)

lemma filled_not_null:
  assumes "hworld H n E m V" "filled (henv_map E V) y"
  obtains d M r where "E y = Some d" "V d = Some (M, r)" "M \<noteq> Map.empty" "d \<noteq> shared_null"
proof -
  obtain d M r where d: "E y = Some d" "V d = Some (M, r)" "M \<noteq> Map.empty"
    using assms(2) by (auto simp: filled_def henv_map_def split: option.splits)
  moreover have "hmem_rep H m V" using assms(1) by (simp add: hworld_def)
  then have "d \<noteq> shared_null" using null_empty d by blast
  ultimately show thesis using that by blast
qed

section \<open>Steps of the invariant\<close>

lemma hworldD:
  assumes "hworld H n E m V"
  shows "hmem_rep H m V" "finite (dom E)" "card (dom E) \<le> n" "\<And>x d. E x = Some d \<Longrightarrow> V d \<noteq> None"
    "\<And>d M r. V d = Some (M, r) \<Longrightarrow> d \<noteq> shared_null \<Longrightarrow> unat r = card (husers E d) \<and> 0 < unat r"
    "\<exists>r. V shared_null = Some (Map.empty, r) \<and> 2 ^ 32 - 1 - n \<le> unat r"
    "\<And>d M r. V d = Some (M, r) \<Longrightarrow> card (dom M) \<le> n"
  using assms null_empty [of H m V] unfolding hworld_def by blast+

lemma hworldI:
  assumes "hmem_rep H m V" "finite (dom E)" "card (dom E) \<le> n" "\<And>x d. E x = Some d \<Longrightarrow> V d \<noteq> None"
    "\<And>d M r. V d = Some (M, r) \<Longrightarrow> d \<noteq> shared_null \<Longrightarrow> unat r = card (husers E d) \<and> 0 < unat r"
    "\<exists>M r. V shared_null = Some (M, r) \<and> 2 ^ 32 - 1 - n \<le> unat r"
    "\<And>d M r. V d = Some (M, r) \<Longrightarrow> card (dom M) \<le> n"
  shows "hworld H n E m V"
  using assms unfolding hworld_def by blast

lemma hworld_later:
  assumes "hworld H n E m V"
  shows "hworld H (Suc n) E m V"
proof (rule hworldI [OF hworldD(1,2) [OF assms] _ hworldD(4,5) [OF assms]])
  show "card (dom E) \<le> Suc n" using hworldD(3) [OF assms] by simp
  obtain r where "V shared_null = Some (Map.empty, r)" "2 ^ 32 - 1 - n \<le> unat r" using hworldD(6) [OF assms] by blast
  then show "\<exists>M r. V shared_null = Some (M, r) \<and> 2 ^ 32 - 1 - Suc n \<le> unat r" by auto
  show "card (dom M) \<le> Suc n" if "V d = Some (M, r)" for d M r using hworldD(7) [OF assms that] by simp
qed

lemma card_dom_upd: "finite (dom E) \<Longrightarrow> card (dom E) \<le> n \<Longrightarrow> card (dom (E(x \<mapsto> d))) \<le> Suc n"
  by (simp add: card_insert_if)

text \<open>The null handle.\<close>

lemma hworld_new:
  assumes w: "hworld H n E m V" and x: "E x = None"
  shows "hworld H (Suc n) (E(x \<mapsto> shared_null)) m V" "henv_map (E(x \<mapsto> shared_null)) V = (henv_map E V)(x \<mapsto> Map.empty)"
proof -
  note w' = hworld_later [OF w]
  obtain r where r: "V shared_null = Some (Map.empty, r)" using hworldD(6) [OF w] by blast
  show "hworld H (Suc n) (E(x \<mapsto> shared_null)) m V"
  proof (rule hworldI [OF hworldD(1) [OF w] _ _ _ _ _ hworldD(7) [OF w']])
    show "finite (dom (E(x \<mapsto> shared_null)))" using hworldD(2) [OF w] by simp
    show "card (dom (E(x \<mapsto> shared_null))) \<le> Suc n" by (rule card_dom_upd [OF hworldD(2,3) [OF w]])
    show "V d \<noteq> None" if "(E(x \<mapsto> shared_null)) y = Some d" for y d
      using that hworldD(4) [OF w, of y d] r by (cases "y = x") auto
    show "unat s = card (husers (E(x \<mapsto> shared_null)) d) \<and> 0 < unat s" if "V d = Some (M, s)" "d \<noteq> shared_null" for d M s
    proof -
      have "husers (E(x \<mapsto> shared_null)) d = husers E d" using that(2) x by (auto simp: husers_def)
      then show ?thesis using hworldD(5) [OF w that] by simp
    qed
    show "\<exists>M r. V shared_null = Some (M, r) \<and> 2 ^ 32 - 1 - Suc n \<le> unat r" using hworldD(6) [OF w'] by blast
  qed
  show "henv_map (E(x \<mapsto> shared_null)) V = (henv_map E V)(x \<mapsto> Map.empty)" using r by (auto simp: henv_map_def)
qed

text \<open>One handle more on a block.\<close>

lemma hworld_copy:
  assumes w: "hworld H n E m V" and x: "E x = None" and d: "V d = Some (M, r)" "d \<noteq> shared_null" and n: "n < 2 ^ 30"
    and rep: "hmem_rep H m' (shared V d)"
  shows "hworld H (Suc n) (E(x \<mapsto> d)) m' (shared V d)" "henv_map (E(x \<mapsto> d)) (shared V d) = (henv_map E V)(x \<mapsto> M)"
proof -
  note w' = hworld_later [OF w]
  have c: "unat r = card (husers E d)" "0 < unat r" using hworldD(5) [OF w d] by auto
  have "unat r \<le> n" unfolding c(1) by (rule husers_card [OF w])
  then have "unat r + unat (1 :: 32 word) < 2 ^ LENGTH(32)" using n by simp
  then have r1: "unat (r + 1) = unat r + 1" unfolding unat_add_lem by simp
  have sh: "shared V d = V(d \<mapsto> (M, r + 1))" using d by (simp add: shared_def)
  show "hworld H (Suc n) (E(x \<mapsto> d)) m' (shared V d)"
  proof (rule hworldI [OF rep])
    show "finite (dom (E(x \<mapsto> d)))" using hworldD(2) [OF w] by simp
    show "card (dom (E(x \<mapsto> d))) \<le> Suc n" by (rule card_dom_upd [OF hworldD(2,3) [OF w]])
    show "shared V d e \<noteq> None" if "(E(x \<mapsto> d)) y = Some e" for y e
      using that hworldD(4) [OF w, of y e] sh by (cases "y = x") auto
    show "unat s = card (husers (E(x \<mapsto> d)) e) \<and> 0 < unat s" if "shared V d e = Some (N, s)" "e \<noteq> shared_null" for e N s
    proof (cases "e = d")
      case True
      have "card (husers (E(x \<mapsto> d)) d) = Suc (card (husers E d))"
        using x husers_finite [OF w, of d] unfolding husers_upd by (simp add: husers_def)
      then show ?thesis using that True c(1) r1 by (simp add: sh)
    next
      case False
      then have "husers (E(x \<mapsto> d)) e = husers E e" using x by (auto simp: husers_def)
      then show ?thesis using hworldD(5) [OF w, of e N s] that False by (simp add: sh)
    qed
    show "\<exists>M r. shared V d shared_null = Some (M, r) \<and> 2 ^ 32 - 1 - Suc n \<le> unat r" using hworldD(6) [OF w'] d(2) by (auto simp: sh)
    show "card (dom N) \<le> Suc n" if "shared V d e = Some (N, s)" for e N s
      using that hworldD(7) [OF w', of e N] hworldD(7) [OF w' d(1)] by (auto simp: sh split: if_splits)
  qed
  have "henv_map (E(x \<mapsto> d)) (shared V d) y = ((henv_map E V)(x \<mapsto> M)) y" for y
    using d(1) by (cases "E y") (auto simp: henv_map_def sh)
  then show "henv_map (E(x \<mapsto> d)) (shared V d) = (henv_map E V)(x \<mapsto> M)" ..
qed

text \<open>One handle less.\<close>

lemma hworld_delete:
  assumes w: "hworld H n E m V" and x: "E x = Some d" and n: "n < 2 ^ 30" and rep: "hmem_rep H m' (released V d)"
  shows "hworld H (Suc n) (E(x := None)) m' (released V d)" "henv_map (E(x := None)) (released V d) = (henv_map E V)(x := None)"
proof -
  note w' = hworld_later [OF w]
  obtain M r where V: "V d = Some (M, r)" "usable V d M" by (rule hworld_handle [OF w x n])
  have r0: "r \<noteq> 0" "d = shared_null \<longrightarrow> r \<noteq> 1" using V by (auto simp: usable_def)
  have xin: "x \<in> husers E d" using x by (simp add: husers_def)
  have fin: "finite (husers E d)" by (rule husers_finite [OF w])
  have u1: "unat (r - 1) = unat r - 1" using r0(1) by (simp add: unat_minus_one)
  have rel: "released V d = (if r = 1 then V(d := None) else V(d \<mapsto> (M, r - 1)))" using V(1) by (simp add: released_def)
  have alone: "E y \<noteq> Some d" if "r = 1" "y \<noteq> x" for y
  proof -
    have "d \<noteq> shared_null" using r0(2) that(1) by blast
    then have "card (husers E d) = 1" using hworldD(5) [OF w V(1)] that(1) by simp
    then have "husers E d = {x}" using xin by (auto simp: card_1_singleton_iff)
    then show ?thesis using that(2) by (auto simp: husers_def)
  qed
  have keep: "map_option fst (released V d e) = map_option fst (V e)" if "E y = Some e" "y \<noteq> x" for y e
    using alone [OF _ that(2)] that(1) V(1) by (auto simp: rel)
  show "hworld H (Suc n) (E(x := None)) m' (released V d)"
  proof (rule hworldI [OF rep])
    show "finite (dom (E(x := None)))" using hworldD(2) [OF w] by simp
    show "card (dom (E(x := None))) \<le> Suc n" using hworldD(3) [OF w] card_Diff1_le [of "dom E" x] by (simp add: le_SucI)
    show "released V d e \<noteq> None" if "(E(x := None)) y = Some e" for y e
      using that keep [of y e] hworldD(4) [OF w, of y e] by (auto split: if_splits)
    show "unat s = card (husers (E(x := None)) e) \<and> 0 < unat s" if "released V d e = Some (N, s)" "e \<noteq> shared_null" for e N s
    proof (cases "e = d")
      case True
      have "r \<noteq> 1" "s = r - 1" using that(1) True by (auto simp: rel split: if_splits)
      moreover have "unat r \<noteq> 1" using \<open>r \<noteq> 1\<close> by (simp add: word_unat_eq_iff)
      ultimately show ?thesis using hworldD(5) [OF w V(1)] True that(2) xin fin u1 unfolding husers_upd by simp
    next
      case False
      then have "V e = Some (N, s)" using that(1) by (auto simp: rel split: if_splits)
      moreover have "husers (E(x := None)) e = husers E e" using x False by (auto simp: husers_def)
      ultimately show ?thesis using hworldD(5) [OF w _ that(2)] by simp
    qed
    obtain r' where r': "V shared_null = Some (Map.empty, r')" "2 ^ 32 - 1 - n \<le> unat r'" using hworldD(6) [OF w] by blast
    show "\<exists>M r. released V d shared_null = Some (M, r) \<and> 2 ^ 32 - 1 - Suc n \<le> unat r"
    proof (cases "d = shared_null")
      case True
      then have "released V d shared_null = Some (M, r - 1)" using r0 V(1) by (simp add: released_def)
      moreover have "2 ^ 32 - 1 - Suc n \<le> unat (r - 1)" unfolding u1 using r' True V(1) by simp
      ultimately show ?thesis by blast
    next
      case False
      then have "released V d shared_null = V shared_null" by (simp add: rel)
      then show ?thesis using r' by auto
    qed
    show "card (dom N) \<le> Suc n" if "released V d e = Some (N, s)" for e N s
      using that hworldD(7) [OF w', of e N] hworldD(7) [OF w' V(1)] by (auto simp: rel split: if_splits)
  qed
  have "henv_map (E(x := None)) (released V d) y = ((henv_map E V)(x := None)) y" for y
    using keep [of y] by (cases "E y") (auto simp: henv_map_def)
  then show "henv_map (E(x := None)) (released V d) = (henv_map E V)(x := None)" ..
qed

text \<open>A handle that makes its block its own and changes it.\<close>

lemma hworld_write:
  assumes w: "hworld H n E m V" and x: "E x = Some d" and n: "n < 2 ^ 30" and det: "cow_detached V d V0 d'"
    and rep: "hmem_rep H m' (V0(d' \<mapsto> (N, 1)))" and few: "card (dom N) \<le> Suc n"
  shows "hworld H (Suc n) (E(x \<mapsto> d')) m' (V0(d' \<mapsto> (N, 1)))" "henv_map (E(x \<mapsto> d')) (V0(d' \<mapsto> (N, 1))) = (henv_map E V)(x \<mapsto> N)"
proof -
  note w' = hworld_later [OF w]
  obtain M r where V: "V d = Some (M, r)" "usable V d M" "V shared_null \<noteq> None" by (rule hworld_handle [OF w x n])
  have r0: "r \<noteq> 0" using V by (auto simp: usable_def)
  have xin: "x \<in> husers E d" using x by (simp add: husers_def)
  have fin: "finite (husers E d)" by (rule husers_finite [OF w])
  have d'0: "d' \<noteq> shared_null" by (rule cow_detached_own(2) [OF V(2) det V(3)])
  have fresh: "V d' = None" "V0 = V(d' \<mapsto> (M, 1), d \<mapsto> (M, if d = shared_null then r else r - 1))" "d' \<noteq> d" if "r \<noteq> 1"
    using det V(1) that by (auto simp: cow_detached_def split: if_splits)
  have same: "d' = d" "V0 = V" if "r = 1" using det V(1) that by (auto simp: cow_detached_def)
  have unused: "E y \<noteq> Some d'" if "r \<noteq> 1" for y using hworldD(4) [OF w, of y d'] fresh(1) [OF that] by auto
  have alone: "E y \<noteq> Some d'" if "r = 1" "y \<noteq> x" for y
  proof -
    have "card (husers E d) = 1" using hworldD(5) [OF w V(1)] that(1) d'0 same(1) by simp
    then have "husers E d = {x}" using xin by (auto simp: card_1_singleton_iff)
    then show ?thesis using that(2) same(1) [OF that(1)] by (auto simp: husers_def)
  qed
  have only: "husers (E(x \<mapsto> d')) d' = {x}" using unused alone by (auto simp: husers_def)
  let ?V = "V0(d' \<mapsto> (N, 1))"
  have keep: "map_option fst (?V e) = map_option fst (V e)" if "E y = Some e" "y \<noteq> x" for y e
    using alone [of y] unused [of y] that V(1) by (cases "r = 1") (auto simp: same fresh)
  show "hworld H (Suc n) (E(x \<mapsto> d')) m' ?V"
  proof (rule hworldI [OF rep])
    show "finite (dom (E(x \<mapsto> d')))" using hworldD(2) [OF w] by simp
    show "card (dom (E(x \<mapsto> d'))) \<le> Suc n" by (rule card_dom_upd [OF hworldD(2,3) [OF w]])
    show "?V e \<noteq> None" if "(E(x \<mapsto> d')) y = Some e" for y e
      using that keep [of y e] hworldD(4) [OF w, of y e] by (cases "y = x") auto
    show "unat s = card (husers (E(x \<mapsto> d')) e) \<and> 0 < unat s" if e: "?V e = Some (K, s)" "e \<noteq> shared_null" for e K s
    proof (cases "e = d'")
      case True
      then show ?thesis using e(1) only by simp
    next
      case ne: False
      show ?thesis
      proof (cases "r = 1")
        case True
        then have "V e = Some (K, s)" "husers (E(x \<mapsto> d')) e = husers E e"
          using e(1) ne same x by (auto simp: husers_def)
        then show ?thesis using hworldD(5) [OF w _ e(2)] by simp
      next
        case False
        show ?thesis
        proof (cases "e = d")
          case True
          then have "s = r - 1" using e ne fresh(2) [OF False] by simp
          moreover have "husers (E(x \<mapsto> d')) e = husers E d - {x}" using ne True unfolding husers_upd by simp
          moreover have "unat r \<noteq> 1" using False by (simp add: word_unat_eq_iff)
          ultimately show ?thesis using hworldD(5) [OF w V(1)] True e(2) xin fin r0 by (simp add: unat_minus_one)
        next
          case False
          then have "V e = Some (K, s)" "husers (E(x \<mapsto> d')) e = husers E e"
            using e(1) ne fresh(2) [OF \<open>r \<noteq> 1\<close>] x by (auto simp: husers_def)
          then show ?thesis using hworldD(5) [OF w _ e(2)] by simp
        qed
      qed
    qed
    have "?V shared_null = V shared_null" using d'0 V(1) by (cases "r = 1") (auto simp: same fresh)
    then show "\<exists>M r. ?V shared_null = Some (M, r) \<and> 2 ^ 32 - 1 - Suc n \<le> unat r" using hworldD(6) [OF w'] by auto
    show "card (dom K) \<le> Suc n" if "?V e = Some (K, s)" for e K s
      using that few hworldD(7) [OF w', of e K] hworldD(7) [OF w' V(1)]
      by (cases "r = 1") (auto simp: same fresh split: if_splits)
  qed
  have "henv_map (E(x \<mapsto> d')) ?V y = ((henv_map E V)(x \<mapsto> N)) y" for y
    using keep [of y] by (cases "E y") (auto simp: henv_map_def)
  then show "henv_map (E(x \<mapsto> d')) ?V = (henv_map E V)(x \<mapsto> N)" ..
qed

text \<open>Handles that change places.\<close>

lemma hworld_places:
  assumes w: "hworld H n E m V" and dom: "finite (dom E')" "card (dom E') \<le> Suc n"
    and live: "\<And>y d. E' y = Some d \<Longrightarrow> V d \<noteq> None" and users: "\<And>d. d \<noteq> shared_null \<Longrightarrow> card (husers E' d) = card (husers E d)"
  shows "hworld H (Suc n) E' m V"
proof -
  note w' = hworld_later [OF w]
  show ?thesis
  proof (rule hworldI [OF hworldD(1) [OF w] dom live _ _ hworldD(7) [OF w']])
    show "unat s = card (husers E' d) \<and> 0 < unat s" if "V d = Some (M, s)" "d \<noteq> shared_null" for d M s
      using hworldD(5) [OF w that] users [OF that(2)] by simp
    show "\<exists>M r. V shared_null = Some (M, r) \<and> 2 ^ 32 - 1 - Suc n \<le> unat r" using hworldD(6) [OF w'] by blast
  qed
qed

lemma card_replace: "finite S \<Longrightarrow> x \<in> S \<Longrightarrow> y \<notin> S \<Longrightarrow> card (insert y (S - {x})) = card S"
  using card_Suc_Diff1 [of S x] by simp

lemma hworld_move:
  assumes w: "hworld H n E m V" and x: "E x = None" and y: "E y = Some d" and V: "V d = Some (M, r)"
  shows "hworld H (Suc n) (E(x \<mapsto> d, y \<mapsto> shared_null)) m V"
    "henv_map (E(x \<mapsto> d, y \<mapsto> shared_null)) V = (henv_map E V)(x \<mapsto> M, y \<mapsto> Map.empty)"
proof -
  let ?E = "E(x \<mapsto> d, y \<mapsto> shared_null)"
  have ne: "x \<noteq> y" using x y by auto
  obtain r0 where r0: "V shared_null = Some (Map.empty, r0)" using hworldD(6) [OF w] by blast
  show "hworld H (Suc n) ?E m V"
  proof (rule hworld_places [OF w])
    show "finite (dom ?E)" using hworldD(2) [OF w] by simp
    have "dom ?E = dom (E(x \<mapsto> d))" using y by auto
    then show "card (dom ?E) \<le> Suc n" using card_dom_upd [OF hworldD(2,3) [OF w]] by metis
    show "V e \<noteq> None" if "?E z = Some e" for z e
      using that hworldD(4) [OF w, of z e] r0 V by (auto split: if_splits)
    show "card (husers ?E e) = card (husers E e)" if "e \<noteq> shared_null" for e
    proof (cases "e = d")
      case True
      then have "husers ?E e = insert x (husers E e - {y})" using that ne by (auto simp: husers_def)
      then show ?thesis using card_replace [OF husers_finite [OF w], of y e x] True x y by (simp add: husers_def)
    next
      case False
      then have "husers ?E e = husers E e" using that x y by (auto simp: husers_def)
      then show ?thesis by simp
    qed
  qed
  show "henv_map ?E V = (henv_map E V)(x \<mapsto> M, y \<mapsto> Map.empty)" using r0 V by (auto simp: henv_map_def)
qed

lemma hworld_swap:
  assumes w: "hworld H n E m V" and x: "E x = Some d" and y: "E y = Some e"
  shows "hworld H (Suc n) (E(x \<mapsto> e, y \<mapsto> d)) m V"
    "henv_map (E(x \<mapsto> e, y \<mapsto> d)) V = (henv_map E V)(x := henv_map E V y, y := henv_map E V x)"
proof -
  let ?E = "E(x \<mapsto> e, y \<mapsto> d)"
  show "hworld H (Suc n) ?E m V"
  proof (rule hworld_places [OF w])
    show "finite (dom ?E)" using hworldD(2) [OF w] by simp
    have "dom ?E = dom E" using x y by auto
    then show "card (dom ?E) \<le> Suc n" using hworldD(3) [OF w] by simp
    show "V c \<noteq> None" if "?E z = Some c" for z c
      using that hworldD(4) [OF w] x y by (auto split: if_splits)
    show "card (husers ?E c) = card (husers E c)" for c
    proof (cases "d = e")
      case True
      then have "?E = E" using x y by auto
      then show ?thesis by simp
    next
      case ne: False
      then have xy: "x \<noteq> y" using x y by auto
      consider "c = d" | "c = e" | "c \<noteq> d" "c \<noteq> e" by blast
      then show ?thesis
      proof cases
        case 1
        then have "husers ?E c = insert y (husers E c - {x})" using ne xy by (auto simp: husers_def)
        then show ?thesis using card_replace [OF husers_finite [OF w], of x c y] 1 ne x y by (simp add: husers_def)
      next
        case 2
        then have "husers ?E c = insert x (husers E c - {y})" using ne xy by (auto simp: husers_def)
        then show ?thesis using card_replace [OF husers_finite [OF w], of y c x] 2 ne x y by (simp add: husers_def)
      next
        case 3
        then have "husers ?E c = husers E c" using x y by (auto simp: husers_def)
        then show ?thesis by simp
      qed
    qed
  qed
  show "henv_map ?E V = (henv_map E V)(x := henv_map E V y, y := henv_map E V x)" using x y by (auto simp: henv_map_def)
qed

section \<open>One operation\<close>

definition hsimulates :: "('k \<Rightarrow> 32 word) \<Rightarrow> nat \<Rightarrow> 'o henv \<Rightarrow> ('k, 'v) hmem \<Rightarrow> ('o \<rightharpoonup> ('k \<rightharpoonup> 'v)) \<Rightarrow> bool" where
  "hsimulates H n E m f \<longleftrightarrow> (\<forall>arr k. hm_low m arr \<noteq> H k) \<and> (\<exists>V. hworld H n E m V \<and> f = henv_map E V)"

definition hstep_ok :: "('k \<Rightarrow> 32 word) \<Rightarrow> 'v \<Rightarrow> nat \<Rightarrow> ('o, 'k, 'v) hmap_op \<Rightarrow> 'o henv \<Rightarrow> ('k, 'v) hmem \<Rightarrow> ('o \<rightharpoonup> ('k \<rightharpoonup> 'v)) \<Rightarrow> bool" where
  "hstep_ok H dflt n op E m f \<longleftrightarrow> (\<exists>E' m'. hmap_exec H dflt op E m = Some (fst (hspec_exec op f), E', m')
     \<and> hsimulates H (Suc (Suc n)) E' m' (snd (hspec_exec op f)))"

lemma hstepI:
  assumes "hmap_exec H dflt op E m = Some (fst (hspec_exec op f), E', m')" "\<forall>arr k. hm_low m arr \<noteq> H k" "hm_low m' = hm_low m"
    and "hworld H (Suc n) E' m' V'" "henv_map E' V' = snd (hspec_exec op f)"
  shows "hstep_ok H dflt n op E m f"
  using assms hworld_later [OF assms(4)] unfolding hstep_ok_def hsimulates_def by metis

lemma hstepI2:
  assumes "hmap_exec H dflt op E m = Some (fst (hspec_exec op f), E', m')" "\<forall>arr k. hm_low m arr \<noteq> H k" "hm_low m' = hm_low m"
    and "hworld H (Suc (Suc n)) E' m' V'" "henv_map E' V' = snd (hspec_exec op f)"
  shows "hstep_ok H dflt n op E m f"
  using assms unfolding hstep_ok_def hsimulates_def by metis

lemma map_insert_new_card: "finite (dom M) \<Longrightarrow> card (dom M) \<le> n \<Longrightarrow> card (dom (map_insert_new M k v)) \<le> Suc n"
  by (auto simp: map_insert_new_def card_insert_if split: option.splits)

lemma map_upd_card: "finite (dom M) \<Longrightarrow> card (dom M) \<le> n \<Longrightarrow> card (dom (M(k \<mapsto> v))) \<le> Suc n"
  by (simp add: card_insert_if)

lemma low_all_free: "\<forall>arr k. hm_low m arr \<noteq> H k \<Longrightarrow> low_free H m M"
  unfolding low_free_def by metis

text \<open>Operations that only read or that exchange handles.\<close>

lemma reading_ok:
  assumes w: "hworld H n E m V" and n: "Suc n < 2 ^ 30" and low: "\<forall>arr k. hm_low m arr \<noteq> H k" and al: "hop_allowed op (henv_map E V)"
    and op: "op = HNew x \<or> op = HMove x y \<or> op = HAssignMove x y \<or> op = HGet x k v \<or> op = HSize x"
  shows "hstep_ok H dflt n op E m (henv_map E V)"
proof -
  have n': "n < 2 ^ 30" using n by simp
  note none = henv_None [OF w]
  consider (new) "op = HNew x" | (move) "op = HMove x y" | (swap) "op = HAssignMove x y" | (get) "op = HGet x k v" | (sz) "op = HSize x"
    using op by blast
  then show ?thesis
  proof cases
    case new
    then have "E x = None" using al none by simp
    note st = hworld_new [OF w this]
    show ?thesis by (rule hstepI [OF _ low refl st(1)]) (simp_all add: new st(2) put_env_def map_new_def)
  next
    case move
    then obtain d where d: "E y = Some d" "E x = None" using al none by auto
    obtain M r where V: "V d = Some (M, r)" "henv_map E V y = Some M" by (rule hworld_handle [OF w d(1) n'])
    note st = hworld_move [OF w d(2,1) V(1)]
    show ?thesis by (rule hstepI [OF _ low refl st(1)]) (simp_all add: move st(2) d V(2) hmap_move_def)
  next
    case swap
    then obtain d e where d: "E x = Some d" "E y = Some e" using al none by auto
    note st = hworld_swap [OF w d]
    show ?thesis by (rule hstepI [OF _ low refl st(1)]) (simp_all add: swap st(2) d hmap_assign_move_def)
  next
    case get
    then obtain d where d: "E x = Some d" using al none by auto
    obtain M r where V: "V d = Some (M, r)" "henv_map E V x = Some M" by (rule hworld_handle [OF w d n'])
    have "hmap_at_const H m d k v = Some (case M k of None \<Rightarrow> v | Some y \<Rightarrow> y)" by (rule at_const_view [OF hworldD(1) [OF w] V(1)])
    then show ?thesis by (intro hstepI [OF _ low refl hworld_later [OF w]]) (simp_all add: get d V(2))
  next
    case sz
    then obtain d where d: "E x = Some d" using al none by auto
    obtain M r where V: "V d = Some (M, r)" "henv_map E V x = Some M" by (rule hworld_handle [OF w d n'])
    have "hmap_size m d = Some (card (dom M))" by (rule size_view(1) [OF hworldD(1) [OF w] V(1)])
    then show ?thesis by (intro hstepI [OF _ low refl hworld_later [OF w]]) (simp_all add: sz d V(2))
  qed
qed

text \<open>Operations that write the map of a handle.\<close>

lemma writing_ok:
  assumes w: "hworld H n E m V" and n: "Suc n < 2 ^ 30" and low: "\<forall>arr k. hm_low m arr \<noteq> H k" and al: "hop_allowed op (henv_map E V)"
    and op: "op = HInsert x k v \<or> op = HStore x k v \<or> op = HFind x k \<or> op = HReserve x c"
  shows "hstep_ok H dflt n op E m (henv_map E V)"
proof -
  have n': "n < 2 ^ 30" using n by simp
  obtain d where d: "E x = Some d" using al op henv_None [OF w] by auto
  obtain M r where V: "V d = Some (M, r)" "usable V d M" "henv_map E V x = Some M" "card (dom M) \<le> n" "V shared_null \<noteq> None" "hmem_rep H m V"
    by (rule hworld_handle [OF w d n'])
  have fin: "finite (dom M)" by (rule size_view(3) [OF V(6,1)])
  have few: "card (dom M) < 2 ^ 30" "card (dom M) \<le> Suc n" using V(4) n by simp_all
  note lf = low_all_free [OF low]
  note fx = fun_upd_idem [of "henv_map E V" x "Some M", OF V(3)]
  consider (ins) "op = HInsert x k v" | (sto) "op = HStore x k v" | (fin) "op = HFind x k" | (res) "op = HReserve x c"
    using op by blast
  then show ?thesis
  proof cases
    case ins
    obtain a d' m' V' where i: "hmap_insert H m d k v = Some (Node a, d', m')" "cow_detached V d V' d'"
      "hmem_rep H m' (V'(d' \<mapsto> (map_insert_new M k v, 1)))" "found m' d' k (Node a) (map_insert_new M k v k)" "hm_low m' = hm_low m"
      by (rule insert_hview [OF V(6,2,5) few(1) lf])
    note st = hworld_write [OF w d n' i(2,3) map_insert_new_card [OF fin V(4)]]
    show ?thesis by (rule hstepI [OF _ low i(5) st(1)]) (simp_all add: ins st(2) d i(1) V(3) put_env_def)
  next
    case sto
    obtain d' m' V' where i: "hmap_store H dflt m d k v = Some (Inr (), d', m')" "cow_detached V d V' d'"
      "hmem_rep H m' (V'(d' \<mapsto> (M(k \<mapsto> v), 1)))" "hm_low m' = hm_low m"
      by (rule store_hview [OF V(6,2,5) few(1) lf])
    note st = hworld_write [OF w d n' i(2,3) map_upd_card [OF fin V(4)]]
    show ?thesis by (rule hstepI [OF _ low i(4) st(1)]) (simp_all add: sto st(2) d i(1) V(3) put_env_def)
  next
    case fin
    obtain p d' m' V' where i: "hmap_find H m d k = Some (p, d', m')" "hmem_rep H m' V'" "cow_detached V d V' d'" "found m' d' k p (M k)"
      "hm_low m' = hm_low m" by (rule hfind_view [OF V(6,2,5)])
    have own: "V'(d' \<mapsto> (M, 1)) = V'" using cow_detached_own(1) [OF V(2) i(3) V(5)] by auto
    note st = hworld_write [OF w d n' i(3) _ few(2), unfolded own, OF i(2)]
    have "p \<noteq> End d' \<longleftrightarrow> M k \<noteq> None" using i(4) by (auto simp: found_def split: option.splits)
    then show ?thesis by (intro hstepI [OF _ low i(5) st(1)]) (simp_all add: fin st(2) d i(1) V(3) fx)
  next
    case res
    then have c: "c < 2 ^ 30" using al by simp
    obtain d' m' V' where i: "hmap_reserve m d c = Some (d', m')" "hmem_rep H m' V'" "hm_low m' = hm_low m"
      "if c = 0 then d' = d \<and> V' = V else cow_detached V d V' d'" by (rule reserve_hview [OF V(6,2,5) c lf])
    show ?thesis
    proof (cases "c = 0")
      case True
      then have [simp]: "d' = d" "V' = V" using i(4) by auto
      have "hmem_rep H m' V" using i(2) by simp
      then have "hworld H (Suc n) E m' V" using hworld_later [OF w] unfolding hworld_def by blast
      moreover have "E(x \<mapsto> d) = E" using d by auto
      ultimately show ?thesis by (intro hstepI [OF _ low i(3)]) (simp_all add: res d i(1) put_env_def)
    next
      case False
      then have det: "cow_detached V d V' d'" using i(4) by simp
      have own: "V'(d' \<mapsto> (M, 1)) = V'" using cow_detached_own(1) [OF V(2) det V(5)] by auto
      note st = hworld_write [OF w d n' det _ few(2), unfolded own, OF i(2)]
      show ?thesis by (rule hstepI [OF _ low i(3) st(1)]) (simp_all add: res st(2) d i(1) V(3) put_env_def fx)
    qed
  qed
qed

text \<open>Operations that share or release blocks.\<close>

lemma shared_released: "d \<noteq> e \<Longrightarrow> released (shared V e) d = shared (released V d) e"
  by (auto simp: released_def shared_def fun_eq_iff split: option.splits)

lemma share_ok:
  assumes w: "hworld H n E m V" and n: "Suc n < 2 ^ 30" and low: "\<forall>arr k. hm_low m arr \<noteq> H k" and al: "hop_allowed op (henv_map E V)"
    and op: "op = HCopy x y \<or> op = HAssign x y \<or> op = HDelete x \<or> op = HClear x"
  shows "hstep_ok H dflt n op E m (henv_map E V)"
proof -
  have n': "n < 2 ^ 30" using n by simp
  note none = henv_None [OF w]
  consider (copy) "op = HCopy x y" | (assign) "op = HAssign x y" | (del) "op = HDelete x" | (clr) "op = HClear x"
    using op by blast
  then show ?thesis
  proof cases
    case copy
    have x: "E x = None" and f: "filled (henv_map E V) y" using al none by (simp_all add: copy)
    obtain d M r where d: "E y = Some d" "V d = Some (M, r)" "M \<noteq> Map.empty" "d \<noteq> shared_null" by (rule filled_not_null [OF w f])
    obtain m' where m': "hmap_copy m d = Some (d, m')" "hmem_rep H m' (shared V d)" "hm_low m' = hm_low m"
      by (rule copy_view [OF hworldD(1) [OF w] d(2)])
    have fy: "henv_map E V y = Some M" using d by (simp add: henv_map_def)
    note st = hworld_copy [OF w x d(2,4) n' m'(2)]
    show ?thesis by (rule hstepI [OF _ low m'(3) st(1)]) (simp_all add: copy st(2) d(1) fy m'(1) put_env_def)
  next
    case assign
    have f: "filled (henv_map E V) y" using al by (simp add: assign)
    obtain d where x: "E x = Some d" using al none by (auto simp: assign)
    obtain e N r where e: "E y = Some e" "V e = Some (N, r)" "N \<noteq> Map.empty" "e \<noteq> shared_null" by (rule filled_not_null [OF w f])
    have fy: "henv_map E V y = Some N" using e by (simp add: henv_map_def)
    show ?thesis
    proof (cases "d = e")
      case True
      then have "hmap_assign m d e = Some (e, m)" "E(x \<mapsto> e) = E" using x by (auto simp: hmap_assign_def)
      moreover have "henv_map E V x = Some N" using x e True by (simp add: henv_map_def)
      then have "(henv_map E V)(x \<mapsto> N) = henv_map E V" by auto
      ultimately show ?thesis by (intro hstepI [OF _ low refl hworld_later [OF w]]) (simp_all add: assign x e(1) fy put_env_def)
    next
      case False
      obtain M where u: "usable V d M" by (rule hworld_handle [OF w x n'])
      obtain m' where m': "hmap_assign m d e = Some (e, m')" "hmem_rep H m' (released (shared V e) d)" "hm_low m' = hm_low m"
        by (rule assign_view [OF hworldD(1) [OF w] u e(2) False])
      obtain m1 where m1: "hmem_rep H m1 (released V d)" by (rule delete_view [OF hworldD(1) [OF w] u])
      note w1 = hworld_delete [OF w x n' m1]
      have re: "released V d e = Some (N, r)" using e(2) False by (simp add: released_def split: option.splits)
      note w2 = hworld_copy [OF w1(1) _ re e(4) n m'(2) [unfolded shared_released [OF False]], of x]
      have "henv_map (E(x \<mapsto> e)) (shared (released V d) e) = (henv_map E V)(x \<mapsto> N)" using w2(2) w1(2) by simp
      then show ?thesis by (intro hstepI2 [OF _ low m'(3) w2(1)]) (simp_all add: assign x e(1) fy m'(1) put_env_def)
    qed
  next
    case del
    obtain d where x: "E x = Some d" using al none by (auto simp: del)
    obtain M where u: "usable V d M" by (rule hworld_handle [OF w x n'])
    obtain m' where m': "hmap_delete m d = Some m'" "hmem_rep H m' (released V d)" "hm_low m' = hm_low m"
      by (rule delete_view [OF hworldD(1) [OF w] u])
    note st = hworld_delete [OF w x n' m'(2)]
    show ?thesis by (rule hstepI [OF _ low m'(3) st(1)]) (simp_all add: del st(2) x m'(1))
  next
    case clr
    obtain d where x: "E x = Some d" using al none by (auto simp: clr)
    obtain M where u: "usable V d M" by (rule hworld_handle [OF w x n'])
    obtain m' where m': "hmap_delete m d = Some m'" "hmem_rep H m' (released V d)" "hm_low m' = hm_low m"
      by (rule delete_view [OF hworldD(1) [OF w] u])
    note w1 = hworld_delete [OF w x n' m'(2)]
    note w2 = hworld_new [OF w1(1), of x]
    have "henv_map (E(x \<mapsto> shared_null)) (released V d) = (henv_map E V)(x \<mapsto> Map.empty)" using w2(2) w1(2) by simp
    then show ?thesis
      by (intro hstepI2 [OF _ low m'(3) w2(1)]) (simp_all add: clr x m'(1) hmap_clear_def map_new_def put_env_def)
  qed
qed

lemma hexec_ok:
  assumes "hsimulates H n E m f" "Suc n < 2 ^ 30" "hop_allowed op f"
  shows "hstep_ok H dflt n op E m f"
proof -
  obtain V where V: "hworld H n E m V" "f = henv_map E V" and low: "\<forall>arr k. hm_low m arr \<noteq> H k"
    using assms(1) by (auto simp: hsimulates_def)
  note g = V(1) assms(2) low assms(3) [unfolded V(2)]
  show ?thesis unfolding V(2)
    by (cases op) (rule reading_ok [OF g] writing_ok [OF g] share_ok [OF g], blast)+
qed

section \<open>Runs\<close>

fun hmap_run :: "('k \<Rightarrow> 32 word) \<Rightarrow> 'v \<Rightarrow> ('o, 'k, 'v) hmap_op list \<Rightarrow> 'o henv \<Rightarrow> ('k, 'v) hmem
    \<Rightarrow> ('v hresult list \<times> 'o henv \<times> ('k, 'v) hmem) option" where
  "hmap_run H dflt [] E m = Some ([], E, m)"
| "hmap_run H dflt (op # ops) E m = do {
     (r, E, m) \<leftarrow> hmap_exec H dflt op E m; (rs, E, m) \<leftarrow> hmap_run H dflt ops E m; Some (r # rs, E, m) }"

fun hspec_run :: "('o, 'k, 'v) hmap_op list \<Rightarrow> ('o \<rightharpoonup> ('k \<rightharpoonup> 'v)) \<Rightarrow> 'v hresult list \<times> ('o \<rightharpoonup> ('k \<rightharpoonup> 'v))" where
  "hspec_run [] f = ([], f)"
| "hspec_run (op # ops) f = (let (r, f) = hspec_exec op f; (rs, f) = hspec_run ops f in (r # rs, f))"

fun hops_allowed :: "('o, 'k, 'v) hmap_op list \<Rightarrow> ('o \<rightharpoonup> ('k \<rightharpoonup> 'v)) \<Rightarrow> bool" where
  "hops_allowed [] f \<longleftrightarrow> True"
| "hops_allowed (op # ops) f \<longleftrightarrow> hop_allowed op f \<and> hops_allowed ops (snd (hspec_exec op f))"

lemma hrun_ok:
  assumes "hsimulates H n E m f" "n + 2 * length ops < 2 ^ 30" "hops_allowed ops f"
  shows "\<exists>E' m'. hmap_run H dflt ops E m = Some (fst (hspec_run ops f), E', m')
    \<and> hsimulates H (n + 2 * length ops) E' m' (snd (hspec_run ops f))"
  using assms
proof (induction ops arbitrary: n E m f)
  case Nil
  then show ?case by simp
next
  case (Cons op ops)
  have "Suc n < 2 ^ 30" "hop_allowed op f" using Cons.prems(2,3) by simp_all
  then obtain E1 m1 where s: "hmap_exec H dflt op E m = Some (fst (hspec_exec op f), E1, m1)"
    "hsimulates H (Suc (Suc n)) E1 m1 (snd (hspec_exec op f))"
    using hexec_ok [OF Cons.prems(1)] unfolding hstep_ok_def by blast
  have "Suc (Suc n) + 2 * length ops < 2 ^ 30" using Cons.prems(2) by simp
  then obtain E2 m2 where "hmap_run H dflt ops E1 m1 = Some (fst (hspec_run ops (snd (hspec_exec op f))), E2, m2)"
    "hsimulates H (Suc (Suc n) + 2 * length ops) E2 m2 (snd (hspec_run ops (snd (hspec_exec op f))))"
    using Cons.IH [OF s(2)] Cons.prems(3) by auto
  then show ?case using s(1) by (auto simp: Let_def split: prod.splits)
qed

text \<open>The memory a program starts in.\<close>

definition hmem_start :: "(addr \<Rightarrow> 32 word) \<Rightarrow> ('k, 'v) hmem" where
  "hmem_start low = \<lparr>hm_nodes = (\<lambda>_. None), hm_datas = [shared_null \<mapsto> null_data 1], hm_next = 2, hm_low = low\<rparr>"

lemma start_rep: "hmem_rep H (hmem_start low) [shared_null \<mapsto> (Map.empty, - 1)]"
  unfolding hmem_rep_def
proof (intro exI conjI)
  have b: "block_ok H (hmem_start low) shared_null (null_data 1) []"
    by (simp add: null_data_def block_ok_def bits_ok_def)
  have D: "hm_datas (hmem_start low) = [shared_null \<mapsto> null_data 1]" "hm_nodes (hmem_start low) = (\<lambda>_. None)" "hm_next (hmem_start low) = 2"
    by (simp_all add: hmem_start_def)
  show "hmem_ok H (hmem_start low) (\<lambda>_. [])"
    unfolding hmem_ok_def D using b by (simp add: null_data_def shared_null_def)
  show "[shared_null \<mapsto> (Map.empty, - 1)] =
      (\<lambda>d. map_option (\<lambda>D. (hcontent (hmem_start low) [], hd_ref D)) (hm_datas (hmem_start low) d))"
    unfolding D by (auto simp: null_data_def hcontent_def)
qed

lemma start_world: "hworld H 0 (\<lambda>_. None) (hmem_start low) [shared_null \<mapsto> (Map.empty, - 1)]"
  by (rule hworldI [OF start_rep]) (auto simp: husers_def unsigned_minus_1_eq_mask mask_eq_exp_minus_1 split: if_splits)

lemma start_simulates:
  assumes "\<forall>arr k. low arr \<noteq> H k"
  shows "hsimulates H 0 (\<lambda>_. None) (hmem_start low) (\<lambda>_. None)"
  unfolding hsimulates_def
proof (intro conjI exI)
  show "\<forall>arr k. hm_low (hmem_start low) arr \<noteq> H k" using assms by (simp add: hmem_start_def)
  show "hworld H 0 (\<lambda>_. None) (hmem_start low) [shared_null \<mapsto> (Map.empty, - 1)]" by (rule start_world)
  show "(\<lambda>_. None) = henv_map (\<lambda>_. None) [shared_null \<mapsto> (Map.empty, - 1)]" by (auto simp: henv_map_def)
qed

end
