(* ===== verification/Hmap_Iter.thy ===== *)
theory Hmap_Iter
  imports Hmap_View
begin

text \<open>
  Iterators: the order of a block is its buckets one after the other. Walking backwards follows it; walking
  forwards does as long as the next bucket has a node.
\<close>

section \<open>The first node\<close>

lemma find_bucket:
  assumes "list_all2 (chain m d) ps ass"
  shows "(case find (\<lambda>p. p \<noteq> End d) ps of None \<Rightarrow> End d | Some p \<Rightarrow> p)
    = (if concat ass = [] then End d else Node (hd (concat ass)))"
  using assms
proof (induction ass arbitrary: ps rule: list.induct)
  case Nil
  have "ps = []" using Nil by simp
  then show ?case by simp
next
  case (Cons as ass)
  then obtain p ps' where ps: "ps = p # ps'" "chain m d p as" "list_all2 (chain m d) ps' ass" by (auto simp: list_all2_Cons2)
  show ?case using Cons.IH [OF ps(3)] ps(1,2) by (cases as) auto
qed

lemma firstNode_block:
  assumes "block_ok H m d D ass" "hm_datas m d = Some D"
  shows "hdata_firstNode m d = Some (if concat ass = [] then End d else Node (hd (concat ass)))"
proof -
  have "list_all2 (chain m d) (hd_buckets D) ass" using assms(1) by (simp add: block_ok_def)
  from find_bucket [OF this] show ?thesis using assms(2) bucket_list_block [OF assms(1)] by (simp add: hdata_firstNode_def)
qed

section \<open>Forwards\<close>

lemma node_of_bucket:
  assumes "block_ok H m d D ass" "i < length ass" "ass ! i = as @ a # bs"
  obtains n where "hm_nodes m a = Some n" "chain m d (hn_next n) bs" "seg m (hd_buckets D ! i) as (Node a)"
    "unat (hn_hash n) mod length ass = i"
proof -
  obtain r where r: "seg m (hd_buckets D ! i) as r" "chain m d r (a # bs)"
    using block_chain(2) [OF assms(1,2)] unfolding assms(3) seg_append by blast
  then obtain n where n: "r = Node a" "hm_nodes m a = Some n" "chain m d (hn_next n) bs" by auto
  have "keep H m (length ass) (ass ! i) i" using assms(1,2) by (simp add: block_ok_def)
  then have "unat (hhash m a) mod length ass = i" unfolding keep_def assms(3) by (metis in_set_conv_decomp)
  then show thesis using that [OF n(2,3)] r(1) n(1,2) by (simp add: hhash_def)
qed

lemma nextNode_block:
  assumes bl: "block_ok H m d D ass" and D: "hm_datas m d = Some D" and i: "i < length ass" "ass ! i = as @ a # bs"
  shows "hdata_nextNode m (Node a) =
    (if bs \<noteq> [] then Some (Node (hd bs))
     else if i + 1 < length ass \<and> ass ! (i + 1) \<noteq> [] then Some (Node (hd (ass ! (i + 1))))
     else if i + 2 < length ass then None else Some (End d))"
proof -
  obtain n where n: "hm_nodes m a = Some n" "chain m d (hn_next n) bs" "unat (hn_hash n) mod length ass = i"
    by (rule node_of_bucket [OF bl i])
  have nb: "hd_numBuckets D = length ass" and fk: "hd_fakeNode D = Null" using bl by (simp_all add: block_ok_def)
  show ?thesis
  proof (cases bs)
    case (Cons b bs')
    then obtain n' where n': "hn_next n = Node b" "hm_nodes m b = Some n'" "chain m d (hn_next n') bs'" using n(2) by auto
    then have "hn_next n' \<noteq> Null" using chain_Null by metis
    then show ?thesis using n(1) n' Cons by (simp add: hdata_nextNode_def)
  next
    case Nil
    then have e: "hn_next n = End d" using n(2) by simp
    have start: "hdata_nextNode m (Node a) =
        (if i + 1 < length ass then next_bucket d (hd_buckets D ! (i + 1)) (length ass - (i + 1)) else Some (End d))"
      using n(1,3) e D nb fk i(1) block_chain(1) [OF bl, of "i + 1"] by (auto simp: hdata_nextNode_def Let_def)
    show ?thesis
    proof (cases "i + 1 < length ass")
      case False
      then show ?thesis using start Nil by simp
    next
      case True
      have "hd_buckets D ! (i + 1) = (case ass ! (i + 1) of [] \<Rightarrow> End d | b # _ \<Rightarrow> Node b)"
        by (rule seg_head [OF block_chain(2) [OF bl True]])
      then show ?thesis using start Nil True by (auto simp: next_bucket_def split: list.splits)
    qed
  qed
qed

section \<open>Backwards\<close>

lemma find_end_chain: "chain m d p as \<Longrightarrow> hm_datas m d = Some D \<Longrightarrow> hd_fakeNode D = Null \<Longrightarrow> find_end m p = Some (End d)"
proof (induction as arbitrary: p)
  case Nil
  then show ?case by (subst find_end.simps) simp
next
  case (Cons a as)
  then obtain n where n: "p = Node a" "hm_nodes m a = Some n" "chain m d (hn_next n) as" by auto
  then have "hn_next n \<noteq> Null" using chain_Null by metis
  then show ?case using Cons n by (subst find_end.simps) simp
qed

lemma find_prev_seg:
  assumes "seg m p (a # as) q" "\<forall>b\<in>set as. q \<noteq> Node b"
  shows "find_prev m q p = Some (Node (last (a # as)))"
  using assms
proof (induction as arbitrary: p a)
  case Nil
  then show ?case by (subst find_prev.simps) auto
next
  case (Cons b as)
  then obtain n where n: "p = Node a" "hm_nodes m a = Some n" "seg m (Node b) (b # as) q" "hn_next n = Node b" by auto
  then show ?case using Cons.IH [OF n(3)] Cons.prems(2) by (subst find_prev.simps) auto
qed

lemma prev_loop_end:
  assumes bl: "block_ok H m d D ass" and "start < length ass"
  shows "prev_loop m D (End d) (End d) start =
    Some (let xs = concat (take (Suc start) ass) in if xs = [] then End d else Node (last xs))"
  using assms(2)
proof (induction start)
  case 0
  have ch: "chain m d (hd_buckets D ! 0) (ass ! 0)" "0 < length (hd_buckets D)" using block_chain [OF bl 0] by auto
  have t: "take (Suc 0) ass = [ass ! 0]" using 0 by (cases ass) auto
  show ?case
  proof (cases "ass ! 0")
    case Nil
    then show ?thesis using ch t by (subst prev_loop.simps) simp
  next
    case (Cons a as)
    have "find_prev m (End d) (hd_buckets D ! 0) = Some (Node (last (a # as)))"
      by (rule find_prev_seg) (use ch Cons in auto)
    moreover have "hd_buckets D ! 0 = Node a" using ch(1) Cons by simp
    ultimately show ?thesis using ch(2) t Cons by (subst prev_loop.simps) (simp add: Let_def)
  qed
next
  case (Suc s)
  have ch: "chain m d (hd_buckets D ! Suc s) (ass ! Suc s)" "Suc s < length (hd_buckets D)" using block_chain [OF bl Suc.prems] by auto
  have t: "take (Suc (Suc s)) ass = take (Suc s) ass @ [ass ! Suc s]" using Suc.prems by (rule take_Suc_conv_app_nth)
  show ?case
  proof (cases "ass ! Suc s")
    case Nil
    then have "hd_buckets D ! Suc s = End d" using ch(1) by simp
    moreover have "concat (take (Suc (Suc s)) ass) = concat (take (Suc s) ass)" using t Nil by simp
    ultimately show ?thesis using ch(2) Suc by (subst prev_loop.simps) (simp add: Let_def del: take_Suc concat.simps)
  next
    case (Cons a as)
    have "find_prev m (End d) (hd_buckets D ! Suc s) = Some (Node (last (a # as)))"
      by (rule find_prev_seg) (use ch Cons in auto)
    moreover have "hd_buckets D ! Suc s = Node a" using ch(1) Cons by simp
    moreover have "concat (take (Suc (Suc s)) ass) \<noteq> []" "last (concat (take (Suc (Suc s)) ass)) = last (a # as)"
      using t Cons by simp_all
    ultimately show ?thesis using ch(2) by (subst prev_loop.simps) (simp add: Let_def del: concat.simps take_Suc)
  qed
qed

lemma previousNode_End:
  assumes bl: "block_ok H m d D ass" and D: "hm_datas m d = Some D"
  shows "hdata_previousNode m (End d) = Some (if concat ass = [] then End d else Node (last (concat ass)))"
proof -
  have nb: "hd_numBuckets D = length ass" and fk: "hd_fakeNode D = Null" using bl by (simp_all add: block_ok_def)
  have e: "find_end m (End d) = Some (End d)" by (rule find_end_chain [of m "End d" "[]" d, OF _ D fk]) simp
  show ?thesis
  proof (cases "ass = []")
    case True
    then show ?thesis using e D nb by (simp add: hdata_previousNode_def)
  next
    case False
    then have "length ass - 1 < length ass" "take (Suc (length ass - 1)) ass = ass" by simp_all
    then show ?thesis using e D nb False prev_loop_end [OF bl, of "length ass - 1"]
      by (simp add: hdata_previousNode_def Let_def del: One_nat_def)
  qed
qed

lemma previousNode_bucket:
  assumes bl: "block_ok H m d D ass" and D: "hm_datas m d = Some D" and i: "i < length ass" "ass ! i = as @ a # bs"
  shows "hdata_previousNode m (Node a) =
    Some (let xs = concat (take i ass) @ as in if xs = [] then End d else Node (last xs))"
proof -
  obtain n where n: "hm_nodes m a = Some n" "chain m d (hn_next n) bs" "seg m (hd_buckets D ! i) as (Node a)"
    "unat (hn_hash n) mod length ass = i" by (rule node_of_bucket [OF bl i])
  have nb: "hd_numBuckets D = length ass" and fk: "hd_fakeNode D = Null" using bl by (simp_all add: block_ok_def)
  have "chain m d (Node a) (a # bs)" using n(1,2) by simp
  then have e: "find_end m (Node a) = Some (End d)" by (rule find_end_chain [OF _ D fk])
  have run: "hdata_previousNode m (Node a) = prev_loop m D (End d) (Node a) i"
    using e D nb i(1) n(1,4) by (auto simp: hdata_previousNode_def)
  have len: "i < length (hd_buckets D)" by (rule block_chain(1) [OF bl i(1)])
  have dist: "distinct (ass ! i)" by (rule chain_distinct [OF block_chain(2) [OF bl i(1)]])
  show ?thesis
  proof (cases as)
    case Nil
    then have b: "hd_buckets D ! i = Node a" using n(3) by simp
    show ?thesis
    proof (cases i)
      case 0
      then show ?thesis using run Nil b len by (subst (asm) prev_loop.simps) simp
    next
      case (Suc s)
      then have "prev_loop m D (End d) (Node a) i = prev_loop m D (End d) (End d) s"
        using b len by (subst prev_loop.simps) simp
      moreover have "s < length ass" using i(1) Suc by simp
      ultimately show ?thesis using prev_loop_end [OF bl, of s] run Nil Suc by simp
    qed
  next
    case (Cons c cs)
    have "find_prev m (Node a) (hd_buckets D ! i) = Some (Node (last (c # cs)))"
      by (rule find_prev_seg) (use n(3) Cons dist i(2) in auto)
    moreover have "hd_buckets D ! i = Node c" "c \<noteq> a" using n(3) Cons dist i(2) by auto
    ultimately show ?thesis using run len Cons by (subst (asm) prev_loop.simps) (simp add: Let_def)
  qed
qed

text \<open>Over the order of the block.\<close>

lemma concat_split:
  assumes "concat ass = xs @ a # ys" "distinct (concat ass)"
  obtains i as bs where "i < length ass" "ass ! i = as @ a # bs" "xs = concat (take i ass) @ as"
proof -
  have "a \<in> set (concat ass)" using assms(1) by simp
  then obtain bss where "bss \<in> set ass" "a \<in> set bss" by auto
  then obtain i where i: "i < length ass" "a \<in> set (ass ! i)" by (metis in_set_conv_nth)
  then obtain as bs where b: "ass ! i = as @ a # bs" by (meson split_list)
  have "concat ass = concat (take i ass @ ass ! i # drop (Suc i) ass)" using id_take_nth_drop [OF i(1)] by simp
  then have "concat ass = (concat (take i ass) @ as) @ a # (bs @ concat (drop (Suc i) ass))" using b by simp
  then have "xs = concat (take i ass) @ as" using assms by (metis append_Cons_eq_iff distinct_append distinct.simps(2) not_distinct_conv_prefix)
  then show thesis using that i(1) b by blast
qed

lemma previousNode_block:
  assumes bl: "block_ok H m d D ass" and D: "hm_datas m d = Some D" and "concat ass = xs @ a # ys"
  shows "hdata_previousNode m (Node a) = Some (if xs = [] then End d else Node (last xs))"
proof -
  obtain i as bs where i: "i < length ass" "ass ! i = as @ a # bs" "xs = concat (take i ass) @ as"
    by (rule concat_split [OF assms(3) distinct_nodes [OF bl]])
  then show ?thesis using previousNode_bucket [OF bl D i(1,2)] by (simp add: Let_def)
qed

end
