(* ===== verification/Hmap_Spec.thy ===== *)
theory Hmap_Spec
  imports Hmap_World Hmap_Iter
begin

text \<open>
  What the hash table promises: its objects are values, insertion keeps other handles, rehashing keeps all
  maps, iterators follow the order of the buckets; and where the static block of the default constructor and
  the iterator break it.
\<close>

section \<open>Values\<close>

text \<open>
  C8: HashMap objects are values. A program that starts with no objects and calls less than half a billion
  allowed operations returns without touching freed or foreign memory, gives the results that the operations on
  independent finite maps give, and leaves objects that represent those maps, with exact reference counts and no
  block or node lost. Allowed are default construction, move construction, move assignment, destruction,
  insertion, \<open>m[k] = v\<close>, search, access, \<open>clear\<close> and \<open>size\<close>; copy construction and copy assignment from a map that is
  not empty; and \<open>reserve\<close> with less than \<open>2^30\<close>. Copying or assigning from an empty map is not allowed, because
  for a default-constructed one it makes the count of the static block wrap to 0. Memory is available, and the hypothesis is that no key
  hashes to the low half of the address of a bucket array, which \<open>rehash\<close> compares with hashes.
\<close>

theorem hmap_run_simulates:
  assumes "\<forall>arr k. low arr \<noteq> H k" "2 * length ops < 2 ^ 30" "hops_allowed ops Map.empty"
  shows "\<exists>E m. hmap_run H dflt ops Map.empty (hmem_start low) = Some (fst (hspec_run ops Map.empty), E, m)
    \<and> hsimulates H (2 * length ops) E m (snd (hspec_run ops Map.empty))"
  using hrun_ok [OF start_simulates [OF assms(1)], of ops] assms(2,3) by simp

definition sample_hash :: "nat \<Rightarrow> 32 word" where "sample_hash k = (if even k then 0 else 1)"

lemma sample_hash_low: "\<forall>arr k. (\<lambda>_. 2) (arr :: addr) \<noteq> sample_hash k"
  by (simp add: sample_hash_def)

theorem hmap_run_simulates_witness:
  "\<exists>E m. hmap_run sample_hash (0 :: nat)
      [HNew ''a'', HInsert ''a'' 5 7, HInsert ''a'' 5 8, HCopy ''b'' ''a'', HStore ''b'' 5 9, HGet ''a'' 5 0, HGet ''b'' 5 0, HSize ''b'']
      Map.empty (hmem_start (\<lambda>_. 2)) = Some ([HNone, HNone, HNone, HNone, HNone, HValue 7, HValue 9, HNat 1], E, m)"
  using hmap_run_simulates [OF sample_hash_low, of "[HNew ''a'', HInsert ''a'' 5 (7 :: nat), HInsert ''a'' 5 8, HCopy ''b'' ''a'',
    HStore ''b'' 5 9, HGet ''a'' 5 0, HGet ''b'' 5 0, HSize ''b'']" "0 :: nat"]
  by (simp add: map_insert_new_def filled_def) blast

section \<open>Insertion\<close>

lemma null_there: "hmem_rep H m V \<Longrightarrow> V shared_null \<noteq> None"
  by (auto simp: hmem_rep_def hmem_ok_def)

text \<open>
  insertion of a key that is missing adds it, of a key that is there changes nothing, and in both cases
  the iterator returned is on the node of the key, with the value the map has for it. A handle that shares its block first gets a
  copy of its own: then the old block keeps its map and loses one reference (the static block loses none), and
  no other block changes, whether or not the table grew.
\<close>

theorem hmap_insert_correct:
  assumes "hmem_rep H m V" "usable V d M" "card (dom M) < 2 ^ 30" "low_free H m M"
  shows "\<exists>a d' m' V'. hmap_insert H m d k v = Some (Node a, d', m') \<and> cow_detached V d V' d'
    \<and> hmem_rep H m' (V'(d' \<mapsto> (map_insert_new M k v, 1))) \<and> found m' d' k (Node a) (map_insert_new M k v k)"
  by (rule insert_hview [OF assms(1,2) null_there [OF assms(1)] assms(3,4), of k v]) blast

lemma start_usable: "usable [shared_null \<mapsto> (Map.empty, - 1)] shared_null Map.empty"
  by (simp add: usable_def word_less_nat_alt unsigned_minus_1_eq_mask mask_eq_exp_minus_1)

theorem hmap_insert_correct_witness:
  "\<exists>a d' m' V'. hmap_insert sample_hash (hmem_start (\<lambda>_. 2)) shared_null 5 (7 :: nat) = Some (Node a, d', m')
    \<and> cow_detached [shared_null \<mapsto> (Map.empty, - 1)] shared_null V' d' \<and> hmem_rep sample_hash m' (V'(d' \<mapsto> ([5 \<mapsto> 7], 1)))"
proof -
  have "low_free sample_hash (hmem_start (\<lambda>_. 2) :: (nat, nat) hmem) Map.empty" by (simp add: low_free_def)
  from hmap_insert_correct [OF start_rep start_usable _ this, of 5 7]
  show ?thesis by (simp add: map_insert_new_def) blast
qed

section \<open>Rehashing\<close>

text \<open>
  C9: \<open>rehash\<close> changes no map. Called with a number of bits or, below 0, with a capacity, it moves every
  node to the bucket of its hash, loses none and keeps every other block, and the number of buckets is the prime
  of its number of bits and not less than the capacity asked for, unless a key hashes to the low half of the
  address of the bucket array.
\<close>

theorem hdata_rehash_keeps:
  assumes "hmem_rep H m V" "V d = Some (M, r)" "d \<noteq> shared_null" "- (2 ^ 30) < hint" "hint \<le> 30" "low_ok H m d M"
  shows "\<exists>m' D. hdata_rehash m d hint = Some m' \<and> hmem_rep H m' V \<and> hm_datas m' d = Some D
    \<and> primeForNumBits (hd_numBits D) = Some (hd_numBuckets D) \<and> nat (- hint) \<le> hd_numBuckets D
    \<and> (0 \<le> hint \<longrightarrow> hd_numBits D = max minNumBits (nat hint))"
proof -
  obtain T D where D: "hm_datas m d = Some D" "block_ok H m d D (T d)" by (rule hmem_repE [OF assms(1,2)])
  obtain b where b: "rehash_hint D hint = Some b" "b \<le> 30" "0 \<le> hint \<longrightarrow> b = max minNumBits (nat hint)"
    "hint < 0 \<longrightarrow> (\<exists>p. primeForNumBits b = Some p \<and> nat (- hint) \<le> p)"
    by (rule rehash_hint_ok [OF _ assms(4,5)]) (use D(2) in \<open>auto simp: block_ok_def\<close>)
  obtain m' D' where m': "hdata_rehash m d hint = Some m'" "hmem_rep H m' V" "hm_datas m' d = Some D'" "hd_numBits D' = b"
    by (rule rehash_view [OF assms(1-3) D(1) b(1,2) assms(6)])
  obtain T' D'' where T': "hmem_ok H m' T'" "hm_datas m' d = Some D''" "block_ok H m' d D'' (T' d)" by (rule hmem_repE [OF m'(2) assms(2)])
  then have "bits_ok D'" "hd_numBuckets D' \<noteq> 0" using m'(3) hmem_null_iff [OF T'(1,2)] assms(3) by (auto simp: block_ok_def)
  then have "primeForNumBits (hd_numBits D') = Some (hd_numBuckets D')" by (simp add: bits_ok_def)
  moreover have "nat (- hint) \<le> hd_numBuckets D'" using calculation b(4) m'(4) by (cases "hint < 0") auto
  ultimately show ?thesis using m' b(3) by blast
qed

text \<open>A handle with one entry of its own.\<close>

lemma one_entry:
  obtains m d V where "hmem_rep sample_hash m V" "V d = Some ([5 \<mapsto> (7 :: nat)], 1)" "d \<noteq> shared_null" "hm_low m = (\<lambda>_. 2)"
proof -
  have low: "low_free sample_hash (hmem_start (\<lambda>_. 2) :: (nat, nat) hmem) Map.empty" by (simp add: low_free_def)
  note start = start_rep [of sample_hash "\<lambda>_. 2 :: 32 word"]
  obtain a d' m' V' where i: "hmap_insert sample_hash (hmem_start (\<lambda>_. 2)) shared_null 5 (7 :: nat) = Some (Node a, d', m')"
    "cow_detached [shared_null \<mapsto> (Map.empty, - 1)] shared_null V' d'" "hmem_rep sample_hash m' (V'(d' \<mapsto> (map_insert_new Map.empty 5 7, 1)))"
    "hm_low m' = hm_low (hmem_start (\<lambda>_. 2) :: (nat, nat) hmem)"
    by (rule insert_hview [OF start start_usable null_there [OF start] _ low, of 5 7], simp, blast)
  have "d' \<noteq> shared_null" by (rule cow_detached_own(2) [OF start_usable i(2)]) simp
  then show thesis using that [OF i(3), of d'] i(4) by (simp add: map_insert_new_def hmem_start_def)
qed

theorem hdata_rehash_keeps_witness:
  "\<exists>m d V m' D. hmem_rep sample_hash m V \<and> V d = Some ([5 \<mapsto> (7 :: nat)], 1) \<and> hdata_rehash m d (- 100) = Some m'
    \<and> hmem_rep sample_hash m' V \<and> hm_datas m' d = Some D \<and> 100 \<le> hd_numBuckets D"
proof -
  obtain m d and V :: "addr \<rightharpoonup> (nat \<rightharpoonup> nat) \<times> 32 word" where m: "hmem_rep sample_hash m V" "V d = Some ([5 \<mapsto> 7], 1)"
    "d \<noteq> shared_null" "hm_low m = (\<lambda>_. 2)" by (rule one_entry)
  have "low_ok sample_hash m d [5 \<mapsto> 7]" using m(4) by (auto simp: low_ok_def sample_hash_def split: option.splits)
  from hdata_rehash_keeps [OF m(1-3) _ _ this, of "- 100"] show ?thesis using m(1,2) by fastforce
qed

text \<open>
  C11: \<open>countBits\<close> returns the smallest number of bits whose prime is not less than the hint, as its comment says.
\<close>

theorem countBits_least:
  assumes "hint < 2 ^ 30"
  shows "\<exists>n p. countBits hint = Some n \<and> primeForNumBits n = Some p \<and> hint \<le> p \<and> p < 2 ^ Suc n
    \<and> (\<forall>c < n. \<exists>q. primeForNumBits c = Some q \<and> q < hint)"
proof -
  obtain n p where n: "countBits hint = Some n" "n \<le> 30" "primeForNumBits n = Some p" "hint \<le> p"
    "\<forall>c q. c < n \<longrightarrow> primeForNumBits c = Some q \<longrightarrow> q < hint" by (rule countBits_ok [OF assms])
  have "\<exists>q. primeForNumBits c = Some q \<and> q < hint" if "c < n" for c
    using n(2,5) that by (simp add: primeForNumBits_def)
  then show ?thesis using n(1,3,4) primeForNumBits_next [OF n(3)] by blast
qed

theorem countBits_least_witness: "\<exists>q. countBits 100 = Some 7 \<and> primeForNumBits 6 = Some q \<and> q < 100"
proof -
  have "countBits 100 = Some 7" by (simp add: countBits_def bits_loop.simps primeForNumBits_def prime_deltas_def)
  moreover have "\<exists>n. countBits 100 = Some n \<and> (\<forall>c < n. \<exists>q. primeForNumBits c = Some q \<and> q < 100)"
    using countBits_least [of 100] by simp blast
  ultimately show ?thesis by simp
qed

section \<open>Iterators\<close>

text \<open>
  C10: walking backwards is right. The order of a block is that of its buckets and, in a bucket, of its
  chain: \<open>previousNode\<close> of the end is the last node of the order, of another node the node before it, and of the first node
  the end.
\<close>

theorem previousNode_in_order:
  assumes "block_ok H m d D ass" "hm_datas m d = Some D"
  shows "hdata_firstNode m d = Some (if concat ass = [] then End d else Node (hd (concat ass)))
    \<and> hdata_previousNode m (End d) = Some (if concat ass = [] then End d else Node (last (concat ass)))
    \<and> (\<forall>xs a ys. concat ass = xs @ a # ys \<longrightarrow>
        hdata_previousNode m (Node a) = Some (if xs = [] then End d else Node (last xs)))"
  using firstNode_block [OF assms] previousNode_End [OF assms] previousNode_block [OF assms] by blast

text \<open>Two nodes in a block of 17 buckets, in the first and the fourth.\<close>

definition two_nodes :: "(nat, nat) hmem" where
  "two_nodes = \<lparr>hm_nodes = [10 \<mapsto> \<lparr>hn_next = End 5, hn_hash = 0, hn_key = 0, hn_value = 7\<rparr>,
      11 \<mapsto> \<lparr>hn_next = End 5, hn_hash = 3, hn_key = 3, hn_value = 8\<rparr>],
    hm_datas = [5 \<mapsto> \<lparr>hd_fakeNode = Null, hd_buckets = [Node 10, End 5, End 5, Node 11] @ replicate 13 (End 5), hd_array = 6, hd_ref = 1,
      hd_size = 2, hd_nodeSize = 1, hd_numBits = 4, hd_numBuckets = 17\<rparr>], hm_next = 12, hm_low = (\<lambda>_. 99)\<rparr>"

definition two_chains :: "addr list list" where "two_chains = [[10], [], [], [11]] @ replicate 13 []"

lemma two_chains_nth: "i < 17 \<Longrightarrow> two_chains ! i = (if i = 0 then [10] else if i = 3 then [11] else [])"
  by (auto simp: two_chains_def nth_append nth_Cons' eval_nat_numeral)

lemma concat_two: "concat two_chains = [10, 11]"
  by (simp add: two_chains_def eval_nat_numeral)

lemma two_nodes_ok: "\<exists>D. block_ok of_nat two_nodes 5 D two_chains \<and> hm_datas two_nodes 5 = Some D"
proof -
  have n: "hm_nodes two_nodes 10 = Some \<lparr>hn_next = End 5, hn_hash = 0, hn_key = 0, hn_value = 7\<rparr>"
    "hm_nodes two_nodes 11 = Some \<lparr>hn_next = End 5, hn_hash = 3, hn_key = 3, hn_value = 8\<rparr>"
    by (simp_all add: two_nodes_def)
  obtain D where D: "hm_datas two_nodes 5 = Some D" by (simp add: two_nodes_def)
  then have f: "hd_fakeNode D = Null" "hd_buckets D = [Node 10, End 5, End 5, Node 11] @ replicate 13 (End 5)" "hd_size D = 2"
    "hd_nodeSize D = 1" "hd_numBits D = 4" "hd_numBuckets D = 17" by (auto simp: two_nodes_def)
  have len: "length two_chains = 17" by (simp add: two_chains_def)
  have "list_all2 (chain two_nodes 5) [Node 10, End 5, End 5, Node 11] [[10], [], [], [11]]" by (simp add: n)
  moreover have "list_all2 (chain two_nodes 5) (replicate 13 (End 5)) (replicate 13 [])" by (simp add: list_all2_conv_all_nth)
  ultimately have "list_all2 (chain two_nodes 5) (hd_buckets D) two_chains"
    unfolding f two_chains_def by (rule list_all2_appendI)
  moreover have "keep of_nat two_nodes 17 (two_chains ! i) i" if "i < 17" for i
    using that by (auto simp: two_chains_nth keep_def hhash_def hkey_def n)
  moreover have "bits_ok D" by (simp add: bits_ok_def f primeForNumBits_def prime_deltas_def)
  moreover have "distinct (map (hkey two_nodes) (concat two_chains))" by (simp add: concat_two hkey_def n)
  ultimately show ?thesis using D f len unfolding block_ok_def by (simp add: concat_two)
qed

theorem previousNode_in_order_witness:
  "hdata_previousNode two_nodes (End 5) = Some (Node 11) \<and> hdata_previousNode two_nodes (Node 11) = Some (Node 10)"
proof -
  obtain D where D: "block_ok of_nat two_nodes 5 D two_chains" "hm_datas two_nodes 5 = Some D" using two_nodes_ok by blast
  have c: "concat two_chains = [10] @ 11 # []" by (simp add: concat_two)
  have "hdata_previousNode two_nodes (Node 11) = Some (if [10] = ([] :: addr list) then End 5 else Node (last [10]))"
    using previousNode_in_order [OF D] c by blast
  moreover have "hdata_previousNode two_nodes (End 5) = Some (Node (last (concat two_chains)))"
    using previousNode_in_order [OF D] by (simp add: concat_two)
  ultimately show ?thesis by (simp add: concat_two)
qed

text \<open>
  walking forwards is not. Inside a chain \<open>nextNode\<close> is right, and at the end of one when the next bucket has
  a node or it is one of the last two; when the next bucket is empty and more follow, the
  loop increments the address of the end instead of its position in the array, and returns an address that is no node.
\<close>

theorem nextNode_skips:
  assumes "block_ok H m d D ass" "hm_datas m d = Some D" "i < length ass" "ass ! i = as @ a # bs"
  shows "hdata_nextNode m (Node a) =
    (if bs \<noteq> [] then Some (Node (hd bs))
     else if i + 1 < length ass \<and> ass ! (i + 1) \<noteq> [] then Some (Node (hd (ass ! (i + 1))))
     else if i + 2 < length ass then None else Some (End d))"
  by (rule nextNode_block [OF assms])

theorem nextNode_skips_witness: "hdata_nextNode two_nodes (Node 10) = None"
proof -
  obtain D where D: "block_ok of_nat two_nodes 5 D two_chains" "hm_datas two_nodes 5 = Some D" using two_nodes_ok by blast
  have "two_chains ! 0 = [] @ 10 # []" "0 < length two_chains" "two_chains ! 1 = []" "length two_chains = 17"
    by (simp_all add: two_chains_def)
  then show ?thesis using nextNode_skips [OF D, of 0 "[]" 10 "[]"] by simp
qed

section \<open>The static block\<close>

text \<open>
  a default-constructed map cannot be copied. Its block is static, with the largest reference count there
  is: a copy wraps the count to 0, and then the destructor of either object deletes the static block, and an
  insertion into either writes into it, through a node for which no memory is asked.
\<close>

theorem null_copy_faults:
  assumes "hm_datas m shared_null = Some (null_data arr)"
  shows "\<exists>m'. hmap_copy m map_new = Some (map_new, m') \<and> hmap_delete m' map_new = None \<and> hmap_clear m' map_new = None
    \<and> hmap_insert H m' map_new k v = None \<and> hmap_store H dflt m' map_new k v = None"
proof -
  define N where "N = (null_data arr)\<lparr>hd_ref := 0\<rparr>"
  define m1 where "m1 = put_data m shared_null N"
  have cp: "hmap_copy m map_new = Some (map_new, m1)"
    by (simp add: hmap_copy_def map_new_def ref_inc_def assms m1_def N_def null_data_def)
  have D: "hm_datas m1 shared_null = Some N" by (simp add: m1_def)
  have "free_helper m1 shared_null = None" by (simp add: free_helper_def D)
  then have del: "hmap_delete m1 map_new = None" by (simp add: hmap_delete_def ref_dec_def map_new_def D N_def freeData_def)
  have det: "hmap_detach m1 map_new = Some (map_new, m1)" by (simp add: hmap_detach_def map_new_def D N_def)
  have fnd: "findNode m1 map_new k (H k) = Some Member" by (simp add: findNode_def map_new_def D N_def null_data_def)
  have rd: "read_slot m1 map_new Member = Some (End map_new)" by (simp add: read_slot_def)
  have "primeForNumBits 5 = Some 37" "rehash_hint N 5 = Some 5" "bucket_list N = Some []"
    by (simp_all add: primeForNumBits_def prime_deltas_def rehash_hint_def minNumBits_def bucket_list_def N_def null_data_def)
  then have gr: "\<exists>m2 D2. hdata_grow m1 map_new = Some (True, m2) \<and> hm_datas m2 shared_null = Some D2 \<and> hd_nodeSize D2 = 0"
    by (simp add: hdata_grow_def map_new_def D hdata_rehash_def) (simp add: N_def null_data_def minNumBits_def)
  then obtain m2 D2 where g: "hdata_grow m1 map_new = Some (True, m2)" "hm_datas m2 shared_null = Some D2" "hd_nodeSize D2 = 0" by blast
  have "hmap_createNode m2 map_new (H k) k w s = None" for w s
    using g(2,3) by (simp add: hmap_createNode_def allocateNode_def map_new_def Option.bind_eq_None_conv)
  then have ins: "hmap_insert H m1 map_new k w = None" for w
    by (simp add: hmap_insert_def det fnd rd g(1) bind_eq_None_conv)
  have "hmap_at H dflt m1 map_new k = None" by (simp add: hmap_at_def det fnd rd ins)
  then have "hmap_store H dflt m1 map_new k v = None" by (simp add: hmap_store_def det)
  then show ?thesis using cp del ins by (intro exI [of _ m1]) (simp add: hmap_clear_def)
qed

theorem null_copy_faults_witness:
  "\<exists>m'. hmap_copy (hmem_start (\<lambda>_. 2) :: (nat, nat) hmem) map_new = Some (map_new, m') \<and> hmap_delete m' map_new = None"
proof -
  have "hm_datas (hmem_start (\<lambda>_. 2) :: (nat, nat) hmem) shared_null = Some (null_data 1)" by (simp add: hmem_start_def)
  from null_copy_faults [OF this, of sample_hash 0 0 0] show ?thesis by blast
qed

lemma insert_all_ok:
  assumes "hmem_rep H m V" "usable V d M" "\<forall>arr k. hm_low m arr \<noteq> H k" "card (dom M) + length ps < 2 ^ 30"
  shows "\<exists>d' m' V' r. hmap_insert_all H m d ps = Some (d', m') \<and> hmem_rep H m' V' \<and> V' d' = Some (map_of ps ++ M, r)"
  using assms
proof (induction ps arbitrary: m V d M)
  case Nil
  then show ?case by (auto simp: usable_def)
next
  case (Cons p ps)
  obtain a d' m' V' where i: "hmap_insert H m d (fst p) (snd p) = Some (Node a, d', m')" "cow_detached V d V' d'"
    "hmem_rep H m' (V'(d' \<mapsto> (map_insert_new M (fst p) (snd p), 1)))" "hm_low m' = hm_low m"
    by (rule insert_hview [OF Cons.prems(1,2) null_there [OF Cons.prems(1)] _ low_all_free [OF Cons.prems(3)], of "fst p" "snd p"])
       (use Cons.prems(4) in simp, blast)
  let ?M = "map_insert_new M (fst p) (snd p)"
  have ne: "d' \<noteq> shared_null" by (rule cow_detached_own(2) [OF Cons.prems(2) i(2) null_there [OF Cons.prems(1)]])
  then have u: "usable (V'(d' \<mapsto> (?M, 1))) d' ?M" by (simp add: usable_def)
  obtain r where "V d = Some (M, r)" using Cons.prems(2) by (auto simp: usable_def)
  then have "finite (dom M)" by (rule size_view(3) [OF Cons.prems(1)])
  then have few: "card (dom ?M) + length ps < 2 ^ 30"
    using map_insert_new_card [of M "card (dom M)" "fst p" "snd p"] Cons.prems(4) by simp
  have "\<forall>arr k. hm_low m' arr \<noteq> H k" using Cons.prems(3) i(4) by simp
  from Cons.IH [OF i(3) u this few] obtain e m2 V2 s where
    "hmap_insert_all H m' d' ps = Some (e, m2)" "hmem_rep H m2 V2" "V2 e = Some (map_of ps ++ ?M, s)" by blast
  moreover have "map_of ps ++ ?M = map_of (p # ps) ++ M"
    by (cases "M (fst p)") (auto simp: map_insert_new_def map_add_def fun_eq_iff split: option.splits)
  moreover have "hmap_insert_all H m d (p # ps) = hmap_insert_all H m' d' ps" by (simp add: i(1))
  ultimately show ?case by metis
qed

lemma start_null: "hm_datas (hmem_start low) shared_null = Some (null_data 1)"
  by (simp add: hmem_start_def)

lemma countBits_small:
  assumes "n \<le> 17"
  shows "\<exists>c \<le> 4. countBits n = Some c"
proof -
  obtain c p where c: "countBits n = Some c" "\<forall>b q. b < c \<longrightarrow> primeForNumBits b = Some q \<longrightarrow> q < n"
    by (rule countBits_ok [of n]) (use assms in auto)
  have "primeForNumBits 4 = Some 17" by (simp add: primeForNumBits_def prime_deltas_def)
  then have "c \<le> 4" using c(2) assms by (meson linorder_not_less)
  then show ?thesis using c(1) by blast
qed

lemma rehash_null_small:
  assumes "n \<le> 17"
  shows "hdata_rehash (hmem_start low) shared_null (- int (max n 1)) = Some (hmem_start low)"
proof -
  obtain c where c: "c \<le> 4" "countBits (max n 1) = Some c" using countBits_small [of "max n 1"] assms by auto
  have "hint_loop 0 4 = Some 4" by (subst hint_loop.simps) (simp add: primeForNumBits_def)
  then have "rehash_hint (null_data 1) (- int (max n 1)) = Some 4"
    using c by (auto simp: rehash_hint_def null_data_def minNumBits_def)
  then show ?thesis by (simp add: hdata_rehash_def start_null null_data_def minNumBits_def)
qed

text \<open>Copying more chains than the copy has buckets.\<close>

lemma copy_no_nodes: "copy_chains m d x (replicate n (End d)) = Some (replicate n (End x), m)"
proof (induction n)
  case (Suc n)
  have "copy_chain m d x (End d) = Some (End x, m)" by (subst copy_chain.simps) simp
  then show ?case using Suc by simp
qed simp

lemma rehash_chains_none: "rehash_chains m d nb bs [] = Some (bs, m)"
  by simp

lemma rehash_null_big:
  assumes "18 \<le> n" "n < 2 ^ 30"
  obtains m' D where "hdata_rehash (hmem_start low) shared_null (- int (max n 1)) = Some m'" "hm_datas m' shared_null = Some D"
    "17 < hd_numBuckets D" "hd_buckets D = replicate (hd_numBuckets D) (End shared_null)" "hd_ref D = - 1"
proof -
  let ?N = "null_data 1"
  have h: "- (2 ^ 30) < - int n" "- int n \<le> 30" using assms by simp_all
  obtain b p where b: "rehash_hint ?N (- int n) = Some b" "b \<le> 30" "primeForNumBits b = Some p" "n \<le> p"
    by (rule rehash_hint_ok [OF _ h, of ?N]) (use assms in \<open>auto simp: bits_ok_def null_data_def\<close>)
  have "primeForNumBits 4 = Some 17" by (simp add: primeForNumBits_def prime_deltas_def)
  then have "b \<noteq> 4" using b(3,4) assms(1) by auto
  then have ne: "hd_numBits ?N \<noteq> b" by (simp add: null_data_def minNumBits_def)
  have "bucket_list ?N = Some []" "max n 1 = n" using assms(1) by (simp_all add: bucket_list_def null_data_def)
  then have "\<exists>m' D. hdata_rehash (hmem_start low) shared_null (- int (max n 1)) = Some m' \<and> hm_datas m' shared_null = Some D
      \<and> hd_numBuckets D = p \<and> hd_buckets D = replicate p (End shared_null) \<and> hd_ref D = - 1"
    using b(1,3) ne by (simp add: hdata_rehash_def start_null) (simp add: null_data_def)
  then show thesis using that b(4) assms(1) by fastforce
qed

text \<open>
  the constructor from a list works for up to 17 pairs, and then the map has each key with its first
  value. For more it resizes the static block (so every empty map has buckets from then on), and the first
  insertion, which copies that block into one with 17 buckets, writes past the end of the new array.
\<close>

theorem hmap_of_list_limit:
  fixes H :: "'k \<Rightarrow> 32 word" and ps :: "('k \<times> 'v) list"
  assumes "\<forall>arr k. low arr \<noteq> H k" "length ps < 2 ^ 30"
  shows "case hmap_of_list H (hmem_start low) ps of
      None \<Rightarrow> 17 < length ps
    | Some (d, m) \<Rightarrow> length ps \<le> 17 \<and> (\<exists>V r. hmem_rep H m V \<and> V d = Some (map_of ps, r))"
proof (cases "length ps \<le> 17")
  case True
  have lo: "\<forall>arr k. hm_low (hmem_start low) arr \<noteq> H k" using assms(1) by (simp add: hmem_start_def)
  have "card (dom Map.empty) + length ps < 2 ^ 30" using True by simp
  from insert_all_ok [OF start_rep start_usable lo this] obtain d m V r where
    "hmap_insert_all H (hmem_start low) shared_null ps = Some (d, m)" "hmem_rep H m V" "V d = Some (map_of ps, r)" by auto
  then have "hmap_of_list H (hmem_start low) ps = Some (d, m)" unfolding hmap_of_list_def rehash_null_small [OF True] by simp
  then show ?thesis using True \<open>hmem_rep H m V\<close> \<open>V d = Some (map_of ps, r)\<close> by auto
next
  case False
  then have big: "18 \<le> length ps" by simp
  obtain m' :: "('k, 'v) hmem" and D where m': "hdata_rehash (hmem_start low) shared_null (- int (max (length ps) 1)) = Some m'"
    "hm_datas m' shared_null = Some D" "17 < hd_numBuckets D" "hd_buckets D = replicate (hd_numBuckets D) (End shared_null)"
    "hd_ref D = - 1" by (rule rehash_null_big [OF big assms(2)])
  have "bucket_list D = Some (replicate (hd_numBuckets D) (End shared_null))" by (simp add: bucket_list_def m'(4))
  moreover have "primeForNumBits minNumBits = Some 17" by (simp add: primeForNumBits_def prime_deltas_def minNumBits_def)
  ultimately have "hdata_detach m' shared_null = None" using m'(2,3) by (simp add: hdata_detach_def copy_no_nodes)
  moreover have "(1 :: 32 word) < - 1" by (simp add: word_less_nat_alt unsigned_minus_1_eq_mask mask_eq_exp_minus_1)
  ultimately have "hmap_insert H m' shared_null k v = None" for k v
    using m'(2,5) by (simp add: hmap_insert_def hmap_detach_def hmap_detach_helper_def)
  moreover obtain p qs where "ps = p # qs" using big by (cases ps) auto
  ultimately have "hmap_of_list H (hmem_start low) ps = None" using m'(1) by (simp add: hmap_of_list_def)
  then show ?thesis using False by simp
qed

theorem hmap_of_list_limit_witness:
  "hmap_of_list sample_hash (hmem_start (\<lambda>_. 2)) (zip [0..<18] [0..<18 :: nat]) = None
    \<and> hmap_of_list sample_hash (hmem_start (\<lambda>_. 2)) [(3, 4 :: nat)] \<noteq> None"
proof -
  have "length (zip [0..<18] [0..<18 :: nat]) = 18" by simp
  then show ?thesis
    using hmap_of_list_limit [OF sample_hash_low, of "zip [0..<18] [0..<18 :: nat]"]
      hmap_of_list_limit [OF sample_hash_low, of "[(3, 4 :: nat)]"] by (auto split: option.splits simp del: length_zip)
qed

end
