(* ===== verification/Hash_Word.thy ===== *)
theory Hash_Word
  imports Prelude
begin

text \<open>
  Bytes and machine words as the hash classes of \<^verbatim>\<open>src/crypto/detail\<close> use them: reading words
  out of a byte array through a cast pointer (on a little-endian machine), rotations, the byte swap,
  writing words and lengths back as bytes, and the conversion to hexadecimal characters.
  Reading or writing outside an array is \<^term>\<open>None\<close>.
\<close>

unbundle bit_operations_syntax

section \<open>Types\<close>

type_synonym byte = "8 word"
type_synonym word32 = "32 word"
type_synonym word64 = "64 word"

named_theorems hash_simps \<open>length and indexing facts of the hash components\<close>

section \<open>Arrays\<close>

definition poke :: "'a list \<Rightarrow> nat \<Rightarrow> 'a \<Rightarrow> 'a list option" where
  "poke a i x = (if i < length a then Some (a[i := x]) else None)"

text \<open>Writing the elements of a list one after another from an offset.\<close>

fun pokes :: "'a list \<Rightarrow> nat \<Rightarrow> 'a list \<Rightarrow> 'a list option" where
  "pokes a i [] = Some a"
| "pokes a i (x # xs) = do { a' \<leftarrow> poke a i x; pokes a' (i + 1) xs }"

lemma pokes_eq:
  "i + length xs \<le> length a \<Longrightarrow> pokes a i xs = Some (take i a @ xs @ drop (i + length xs) a)"
proof (induction xs arbitrary: a i)
  case (Cons x xs)
  have "i < length a"
    using Cons.prems by simp
  moreover have "take (Suc i) (a[i := x]) = take i a @ [x]"
    using \<open>i < length a\<close> by (simp add: take_Suc_conv_app_nth)
  moreover have "drop (Suc (i + length xs)) (a[i := x]) = drop (Suc (i + length xs)) a"
    by simp
  ultimately show ?case
    using Cons.prems Cons.IH[of "i + 1" "a[i := x]"] by (simp add: poke_def)
qed simp

lemma pokes_length: "pokes a i xs = Some b \<Longrightarrow> length b = length a"
  by (induction xs arbitrary: a i) (auto simp: poke_def bind_eq_Some_iff split: if_splits)

section \<open>Reading words out of bytes\<close>

definition load_le32 :: "byte list \<Rightarrow> nat \<Rightarrow> word32" where
  "load_le32 d i = ucast (d ! (4 * i)) OR push_bit 8 (ucast (d ! (4 * i + 1)))
     OR push_bit 16 (ucast (d ! (4 * i + 2))) OR push_bit 24 (ucast (d ! (4 * i + 3)))"

definition load_be32 :: "byte list \<Rightarrow> nat \<Rightarrow> word32" where
  "load_be32 d i = push_bit 24 (ucast (d ! (4 * i))) OR push_bit 16 (ucast (d ! (4 * i + 1)))
     OR push_bit 8 (ucast (d ! (4 * i + 2))) OR ucast (d ! (4 * i + 3))"

definition load_le64 :: "byte list \<Rightarrow> nat \<Rightarrow> word64" where
  "load_le64 d i = ucast (d ! (8 * i)) OR push_bit 8 (ucast (d ! (8 * i + 1)))
     OR push_bit 16 (ucast (d ! (8 * i + 2))) OR push_bit 24 (ucast (d ! (8 * i + 3)))
     OR push_bit 32 (ucast (d ! (8 * i + 4))) OR push_bit 40 (ucast (d ! (8 * i + 5)))
     OR push_bit 48 (ucast (d ! (8 * i + 6))) OR push_bit 56 (ucast (d ! (8 * i + 7)))"

definition swap32 :: "word32 \<Rightarrow> word32" where
  "swap32 x = drop_bit 24 x OR (drop_bit 8 x AND 0x0000FF00)
     OR (push_bit 8 x AND 0x00FF0000) OR push_bit 24 x"

section \<open>Writing words as bytes\<close>

definition le32_bytes :: "word32 \<Rightarrow> byte list" where
  "le32_bytes w = [ucast w, ucast (drop_bit 8 w), ucast (drop_bit 16 w), ucast (drop_bit 24 w)]"

definition be32_bytes :: "word32 \<Rightarrow> byte list" where
  "be32_bytes w = [ucast (drop_bit 24 w), ucast (drop_bit 16 w), ucast (drop_bit 8 w), ucast w]"

definition le64_bytes :: "word64 \<Rightarrow> byte list" where
  "le64_bytes w = map (\<lambda>i. ucast (drop_bit (8 * i) w)) [0, 1, 2, 3, 4, 5, 6, 7]"

definition be64_bytes :: "word64 \<Rightarrow> byte list" where
  "be64_bytes w = map (\<lambda>i. ucast (drop_bit (8 * i) w)) [7, 6, 5, 4, 3, 2, 1, 0]"

section \<open>Hexadecimal\<close>

definition dec2hex :: string where
  "dec2hex = ''0123456789abcdef''"

definition hex_byte :: "byte \<Rightarrow> string" where
  "hex_byte b = [dec2hex ! unat (drop_bit 4 b AND 15), dec2hex ! unat (b AND 15)]"

definition hex_bytes :: "byte list \<Rightarrow> string" where
  "hex_bytes bs = concat (map hex_byte bs)"

section \<open>Facts\<close>

lemma length_bytes [hash_simps, simp]:
  "length (le32_bytes w) = 4" "length (be32_bytes w) = 4"
  "length (le64_bytes x) = 8" "length (be64_bytes x) = 8"
  by (simp_all add: le32_bytes_def be32_bytes_def le64_bytes_def be64_bytes_def)

lemma length_hex_bytes [hash_simps, simp]: "length (hex_bytes bs) = 2 * length bs"
  by (induction bs) (simp_all add: hex_bytes_def hex_byte_def)

lemma byte_masks: "0x0000FF00 = push_bit 8 (mask 8 :: word32)" "0x00FF0000 = push_bit 16 (mask 8 :: word32)"
  by (simp_all add: mask_eq_exp_minus_1 push_bit_eq_mult)

lemma bit_swap32:
  "bit (swap32 x) n = (if n < 8 then bit x (n + 24) else if n < 16 then bit x (n + 8)
     else if n < 24 then bit x (n - 8) else n < 32 \<and> bit x (n - 24))"
  unfolding swap32_def byte_masks
  by (auto simp: bit_simps add.commute dest: bit_imp_le_length)

lemma bit_load_le32:
  "bit (load_le32 d i) n = (if n < 8 then bit (d ! (4 * i)) n else if n < 16 then bit (d ! (4 * i + 1)) (n - 8)
     else if n < 24 then bit (d ! (4 * i + 2)) (n - 16) else n < 32 \<and> bit (d ! (4 * i + 3)) (n - 24))"
  unfolding load_le32_def by (auto simp: bit_simps dest: bit_imp_le_length)

lemma bit_load_be32:
  "bit (load_be32 d i) n = (if n < 8 then bit (d ! (4 * i + 3)) n else if n < 16 then bit (d ! (4 * i + 2)) (n - 8)
     else if n < 24 then bit (d ! (4 * i + 1)) (n - 16) else n < 32 \<and> bit (d ! (4 * i)) (n - 24))"
  unfolding load_be32_def by (auto simp: bit_simps dest: bit_imp_le_length)

lemma swap32_load: "swap32 (load_le32 d i) = load_be32 d i"
proof (rule bit_word_eqI)
  fix n :: nat
  consider "n < 8" | "8 \<le> n" "n < 16" | "16 \<le> n" "n < 24" | "24 \<le> n" "n < 32" | "32 \<le> n"
    by linarith
  then show "bit (swap32 (load_le32 d i)) n = bit (load_be32 d i) n"
    by cases (auto simp: bit_swap32 bit_load_le32 bit_load_be32)
qed

text \<open>The two-shift idiom is a rotation.\<close>

lemma shifts_rotl:
  fixes a :: "'a::len word"
  assumes "0 < c" "c < LENGTH('a)"
  shows "push_bit c a OR drop_bit (LENGTH('a) - c) a = word_rotl c a"
proof (rule bit_word_eqI)
  fix n assume n: "n < LENGTH('a)"
  show "bit (push_bit c a OR drop_bit (LENGTH('a) - c) a) n = bit (word_rotl c a) n"
  proof (cases "c \<le> n")
    case True
    have "(n + (LENGTH('a) - c)) mod LENGTH('a) = n - c"
      using True n assms by (simp add: le_mod_geq)
    moreover have "\<not> bit a (LENGTH('a) - c + n)"
      using True assms by (auto dest: bit_imp_le_length)
    ultimately show ?thesis
      using True n assms by (simp add: bit_simps)
  next
    case False
    then show ?thesis
      using n assms by (simp add: bit_simps add.commute)
  qed
qed

lemma shifts_rotr:
  fixes a :: "'a::len word"
  assumes "0 < c" "c < LENGTH('a)"
  shows "drop_bit c a OR push_bit (LENGTH('a) - c) a = word_rotr c a"
  using shifts_rotl[of "LENGTH('a) - c" a] assms
  by (simp add: or.commute word_rotl_eq_word_rotr)

lemma Let_load:
  "(let w = load_le32 data k in g w) = g (load_le32 data k)"
  "(let w = h ! k in g w) = g (h ! k)"
  by (simp_all only: Let_def)

end
