(* ===== verification/Hash_Stream.thy ===== *)
theory Hash_Stream
  imports Hash_Word
begin

text \<open>
  The streaming part the hash classes have in common. Each class of \<^verbatim>\<open>src/crypto/detail\<close>
  carries its own copy of the code: a byte count, a partly filled block buffer, a hash value, and
  \<^verbatim>\<open>add\<close>, which fills the buffer, processes whole blocks and keeps the rest. The operations here
  take the class's \<^verbatim>\<open>processBlock\<close> and block size as arguments; the theories of the classes
  instantiate them. The locale states what the streaming code needs of a class, and proves once
  that feeding a message in pieces absorbs the message; \<^verbatim>\<open>padded_stream\<close> adds the final
  block of MD5, SHA-1 and SHA-256.
\<close>

section \<open>State\<close>

record 'h hasher =
  m_numBytes :: word64
  m_bufferSize :: nat
  m_buffer :: "byte list"
  m_hash :: "'h"

section \<open>Adding data\<close>

fun fill_buffer :: "nat \<Rightarrow> 'h hasher \<Rightarrow> byte list \<Rightarrow> ('h hasher \<times> byte list) option" where
  "fill_buffer bs st [] = Some (st, [])"
| "fill_buffer bs st (x # xs) =
    (if m_bufferSize st < bs
     then do {
       b \<leftarrow> poke (m_buffer st) (m_bufferSize st) x;
       fill_buffer bs (st\<lparr>m_buffer := b, m_bufferSize := m_bufferSize st + 1\<rparr>) xs }
     else Some (st, x # xs))"

text \<open>The block size of every class is positive; the guard makes the loop total.\<close>

function full_blocks ::
  "('h \<Rightarrow> byte list \<Rightarrow> 'h) \<Rightarrow> nat \<Rightarrow> 'h hasher \<Rightarrow> byte list \<Rightarrow> 'h hasher \<times> byte list" where
  "full_blocks process bs st d =
    (if 0 < bs \<and> bs \<le> length d
     then full_blocks process bs
       (st\<lparr>m_hash := process (m_hash st) (take bs d), m_numBytes := m_numBytes st + of_nat bs\<rparr>)
       (drop bs d)
     else (st, d))"
  by pat_completeness auto
termination by (relation "measure (\<lambda>(_, _, _, d). length d)") auto

declare full_blocks.simps [simp del]

fun keep_rest :: "'h hasher \<Rightarrow> byte list \<Rightarrow> 'h hasher option" where
  "keep_rest st [] = Some st"
| "keep_rest st (x # xs) = do {
     b \<leftarrow> poke (m_buffer st) (m_bufferSize st) x;
     keep_rest (st\<lparr>m_buffer := b, m_bufferSize := m_bufferSize st + 1\<rparr>) xs }"

definition flush_buffer :: "('h \<Rightarrow> byte list \<Rightarrow> 'h) \<Rightarrow> nat \<Rightarrow> 'h hasher \<Rightarrow> 'h hasher" where
  "flush_buffer process bs st =
    (if m_bufferSize st = bs
     then st\<lparr>m_hash := process (m_hash st) (take bs (m_buffer st)),
             m_numBytes := m_numBytes st + of_nat bs, m_bufferSize := 0\<rparr>
     else st)"

definition hash_add ::
  "('h \<Rightarrow> byte list \<Rightarrow> 'h) \<Rightarrow> nat \<Rightarrow> 'h hasher \<Rightarrow> byte list \<Rightarrow> 'h hasher option" where
  "hash_add process bs st d = do {
     (st1, d1) \<leftarrow> (if 0 < m_bufferSize st then fill_buffer bs st d else Some (st, d));
     let st2 = flush_buffer process bs st1;
     if d1 = [] then Some st2
     else (case full_blocks process bs st2 d1 of (st3, d3) \<Rightarrow> keep_rest st3 d3) }"

section \<open>The final block of MD5, SHA-1 and SHA-256\<close>

function zero_fill :: "byte list \<Rightarrow> nat \<Rightarrow> nat \<Rightarrow> byte list option" where
  "zero_fill a i lim =
    (if i < lim then do { a' \<leftarrow> poke a i 0; zero_fill a' (i + 1) lim } else Some a)"
  by pat_completeness auto
termination by (relation "measure (\<lambda>(_, i, lim). lim - i)") auto

declare zero_fill.simps [simp del]

definition padded_length :: "nat \<Rightarrow> nat" where
  "padded_length bufferSize =
    (let bits = bufferSize * 8 + 1; lower11Bits = bits AND 511
     in (if lower11Bits \<le> 448 then bits + (448 - lower11Bits)
         else bits + (512 + 448 - lower11Bits)) div 8)"

text \<open>
  \<^verbatim>\<open>len8\<close> writes the bit count as eight bytes, \<^verbatim>\<open>extra\<close> is the local second block with whatever
  the stack holds in it.
\<close>

definition md_process_buffer ::
  "('h \<Rightarrow> byte list \<Rightarrow> 'h) \<Rightarrow> (word64 \<Rightarrow> byte list) \<Rightarrow> nat \<Rightarrow> byte list \<Rightarrow> 'h hasher
    \<Rightarrow> 'h hasher option" where
  "md_process_buffer process len8 bs extra st = do {
     let paddedLength = padded_length (m_bufferSize st);
     (buf1, extra1) \<leftarrow>
       (if m_bufferSize st < bs
        then do { b \<leftarrow> poke (m_buffer st) (m_bufferSize st) 128; Some (b, extra) }
        else do { e \<leftarrow> poke extra 0 128; Some (m_buffer st, e) });
     buf2 \<leftarrow> zero_fill buf1 (m_bufferSize st + 1) bs;
     extra2 \<leftarrow> zero_fill extra1 (max (m_bufferSize st + 1) bs - bs) (paddedLength - bs);
     let msgBits = 8 * (m_numBytes st + of_nat (m_bufferSize st));
     (buf3, extra3) \<leftarrow>
       (if paddedLength < bs
        then do { b \<leftarrow> pokes buf2 paddedLength (len8 msgBits); Some (b, extra2) }
        else do { e \<leftarrow> pokes extra2 (paddedLength - bs) (len8 msgBits); Some (buf2, e) });
     let h1 = process (m_hash st) buf3;
     Some (st\<lparr>m_buffer := buf3, m_hash := (if bs < paddedLength then process h1 extra3 else h1)\<rparr>) }"

section \<open>What the operations mean\<close>

function absorb :: "('h \<Rightarrow> byte list \<Rightarrow> 'h) \<Rightarrow> nat \<Rightarrow> 'h \<Rightarrow> byte list \<Rightarrow> 'h" where
  "absorb process bs h d =
    (if 0 < bs \<and> bs \<le> length d then absorb process bs (process h (take bs d)) (drop bs d) else h)"
  by pat_completeness auto
termination by (relation "measure (\<lambda>(_, _, _, d). length d)") auto

declare absorb.simps [simp del]

definition partial :: "nat \<Rightarrow> byte list \<Rightarrow> byte list" where
  "partial bs msg = drop (length msg - length msg mod bs) msg"

text \<open>The state of an object that has been given the bytes \<^verbatim>\<open>msg\<close> since its last reset.\<close>

definition streamed ::
  "('h \<Rightarrow> byte list \<Rightarrow> 'h) \<Rightarrow> nat \<Rightarrow> nat \<Rightarrow> 'h \<Rightarrow> 'h hasher \<Rightarrow> byte list \<Rightarrow> bool" where
  "streamed process bs cap h0 st msg \<longleftrightarrow>
     length (m_buffer st) = cap \<and> m_bufferSize st = length msg mod bs
     \<and> take (length msg mod bs) (m_buffer st) = partial bs msg
     \<and> m_numBytes st = of_nat (length msg - length msg mod bs)
     \<and> m_hash st = absorb process bs h0 msg"

definition md_pad :: "(word64 \<Rightarrow> byte list) \<Rightarrow> byte list \<Rightarrow> byte list" where
  "md_pad len8 msg =
     msg @ [128] @ replicate ((119 - length msg mod 64) mod 64) 0 @ len8 (8 * of_nat (length msg))"

section \<open>Lemmas on blocks\<close>

lemma length_whole [simp]:
  "length (take (length d - length d mod bs) d) = length d - length d mod bs"
  by simp

lemma absorb_0 [simp]: "absorb process 0 h d = h"
  by (subst absorb.simps) simp

lemma absorb_short: "length d < bs \<Longrightarrow> absorb process bs h d = h"
  by (subst absorb.simps) simp

lemma absorb_block:
  "\<lbrakk>0 < bs; length b = bs\<rbrakk> \<Longrightarrow> absorb process bs h (b @ d) = absorb process bs (process h b) d"
  by (subst absorb.simps) simp

lemma absorb_append:
  "bs dvd length c \<Longrightarrow> absorb process bs h (c @ d) = absorb process bs (absorb process bs h c) d"
proof (induction process bs h c rule: absorb.induct)
  case (1 process bs h c)
  show ?case
  proof (cases "0 < bs \<and> bs \<le> length c")
    case True
    then have "bs dvd length (drop bs c)"
      using 1(2) by (simp add: dvd_minus_self)
    moreover have "absorb process bs h (c @ d) = absorb process bs (process h (take bs c)) (drop bs c @ d)"
      using True by (subst absorb.simps) simp
    moreover have "absorb process bs h c = absorb process bs (process h (take bs c)) (drop bs c)"
      using True by (subst absorb.simps) simp
    ultimately show ?thesis
      using 1(1)[OF True] by simp
  next
    case False
    then consider "bs = 0" | "0 < bs" "c = []"
      using 1(2) by (auto dest: dvd_imp_le)
    then show ?thesis
      by cases (simp_all add: absorb_short)
  qed
qed

lemma absorb_partial:
  "absorb process bs h d = absorb process bs h (take (length d - length d mod bs) d)"
proof (cases "bs = 0")
  case False
  let ?n = "length d - length d mod bs"
  have "bs dvd ?n" by (simp add: dvd_minus_mod)
  then have "absorb process bs h (take ?n d @ drop ?n d)
      = absorb process bs (absorb process bs h (take ?n d)) (drop ?n d)"
    by (intro absorb_append) (simp only: length_whole)
  also have "\<dots> = absorb process bs h (take ?n d)"
    using False by (intro absorb_short) simp
  finally show ?thesis by simp
qed simp

lemma length_partial [simp]: "length (partial bs msg) = length msg mod bs"
  by (simp add: partial_def)

lemma append_partial: "take (length msg - length msg mod bs) msg @ partial bs msg = msg"
  by (simp add: partial_def)

lemma drop_whole: "drop (length c + n) (c @ d) = drop n d"
  by simp

lemma whole_step:
  fixes n :: nat
  assumes "bs \<le> n"
  shows "n - n mod bs = bs + ((n - bs) - (n - bs) mod bs)"
proof -
  obtain m where m: "n = bs + m" using le_Suc_ex[OF assms] by (elim exE) (rule that)
  have "m mod bs \<le> m" by (rule mod_less_eq_dividend)
  then have "bs + m - m mod bs = bs + (m - m mod bs)" by (rule Nat.add_diff_assoc[symmetric])
  then show ?thesis
    unfolding m by (simp only: mod_add_self1 add_diff_cancel_left')
qed

lemma partial_append:
  assumes "bs dvd length c" shows "partial bs (c @ d) = partial bs d"
proof -
  obtain k where k: "length c = bs * k" using assms by blast
  have "length d mod bs \<le> length d"
    by (rule mod_less_eq_dividend)
  then have e: "length (c @ d) - length (c @ d) mod bs = length c + (length d - length d mod bs)"
    by (simp add: k)
  show ?thesis
    unfolding partial_def e by (rule drop_whole)
qed

text \<open>A message as whole blocks and a rest: what is needed to move between pieces.\<close>

lemma split_message:
  obtains c r where "msg = c @ r" "bs dvd length c" "length r = length msg mod bs" "r = partial bs msg"
proof
  show "msg = take (length msg - length msg mod bs) msg @ partial bs msg"
    by (simp add: append_partial)
qed (simp_all only: length_whole dvd_minus_mod length_partial)

lemma full_blocks_eq:
  assumes "0 < bs"
  shows "full_blocks process bs st d =
    (st\<lparr>m_hash := absorb process bs (m_hash st) d,
        m_numBytes := m_numBytes st + of_nat (length d - length d mod bs)\<rparr>, partial bs d)"
  using assms
proof (induction process bs st d rule: full_blocks.induct)
  case (1 process bs st d)
  show ?case
  proof (cases "bs \<le> length d")
    case True
    let ?st = "st\<lparr>m_hash := process (m_hash st) (take bs d), m_numBytes := m_numBytes st + of_nat bs\<rparr>"
    have "full_blocks process bs st d = full_blocks process bs ?st (drop bs d)"
      using True \<open>0 < bs\<close> by (subst full_blocks.simps) simp
    moreover have "absorb process bs (m_hash st) d = absorb process bs (m_hash ?st) (drop bs d)"
      using True \<open>0 < bs\<close> by (subst absorb.simps) simp
    moreover have "partial bs d = partial bs (drop bs d)"
      using partial_append[of bs "take bs d" "drop bs d"] True by simp
    moreover have "length d - length d mod bs = bs + (length (drop bs d) - length (drop bs d) mod bs)"
      using whole_step[OF True] by simp
    then have "m_numBytes st + of_nat (length d - length d mod bs)
      = m_numBytes ?st + of_nat (length (drop bs d) - length (drop bs d) mod bs)"
      by (simp add: add.assoc)
    ultimately show ?thesis
      using 1(1) True \<open>0 < bs\<close> by simp
  next
    case False
    then show ?thesis
      by (simp add: full_blocks.simps absorb_short partial_def)
  qed
qed

lemma fill_buffer_eq:
  assumes "m_bufferSize st \<le> bs" "bs \<le> length (m_buffer st)"
  shows "fill_buffer bs st d =
    (let n = min (length d) (bs - m_bufferSize st)
     in Some (st\<lparr>m_buffer := take (m_bufferSize st) (m_buffer st) @ take n d
                   @ drop (m_bufferSize st + n) (m_buffer st),
                 m_bufferSize := m_bufferSize st + n\<rparr>, drop n d))"
  using assms
proof (induction bs st d rule: fill_buffer.induct)
  case (2 bs st x xs)
  show ?case
  proof (cases "m_bufferSize st < bs")
    case True
    let ?i = "m_bufferSize st"
    have "?i < length (m_buffer st)" using True 2(3) by simp
    then have "take (Suc ?i) ((m_buffer st)[?i := x]) = take ?i (m_buffer st) @ [x]"
      by (simp add: take_Suc_conv_app_nth)
    moreover obtain m where m: "bs - ?i = Suc m" "bs - Suc ?i = m"
      using True by (cases "bs - ?i") auto
    ultimately show ?thesis
      using True 2(3)
        2(1)[OF True, of "(m_buffer st)[?i := x]"]
      by (simp add: poke_def Let_def)
  next
    case False
    then show ?thesis using 2(2) by (simp add: Let_def)
  qed
qed simp

lemma keep_rest_eq:
  assumes "m_bufferSize st + length d \<le> length (m_buffer st)"
  shows "keep_rest st d = Some (st\<lparr>m_buffer := take (m_bufferSize st) (m_buffer st) @ d
                   @ drop (m_bufferSize st + length d) (m_buffer st),
                 m_bufferSize := m_bufferSize st + length d\<rparr>)"
  using assms
proof (induction st d rule: keep_rest.induct)
  case (2 st x xs)
  let ?i = "m_bufferSize st"
  have i: "?i < length (m_buffer st)" using 2(2) by simp
  then have "take (Suc ?i) ((m_buffer st)[?i := x]) = take ?i (m_buffer st) @ [x]"
    by (simp add: take_Suc_conv_app_nth)
  then show ?case
    using i 2 by (simp add: poke_def)
qed simp

section \<open>The streaming contract\<close>

text \<open>
  What the streaming code needs of a class: a positive block size that fits the buffer. The laws
  the class gets back: \<^verbatim>\<open>add\<close> never writes outside the buffer, keeps the state in step with the
  message, and depends on the message only, not on how it was cut.
\<close>

locale block_stream =
  fixes process :: "'h \<Rightarrow> byte list \<Rightarrow> 'h" and bs cap :: nat and h0 :: "'h"
  assumes bs_pos: "0 < bs" and bs_cap: "bs \<le> cap"
begin

lemma streamed_init:
  "length b = cap \<Longrightarrow> streamed process bs cap h0
     \<lparr>m_numBytes = 0, m_bufferSize = 0, m_buffer = b, m_hash = h0\<rparr> []"
  using bs_pos by (simp add: streamed_def partial_def absorb_short)

lemma streamed_room: "streamed process bs cap h0 st msg \<Longrightarrow> m_bufferSize st < bs"
  using bs_pos by (simp add: streamed_def)

text \<open>From a state with an empty buffer the blocks are processed and the rest is kept.\<close>

lemma add_aligned:
  assumes st: "streamed process bs cap h0 st msg" and al: "bs dvd length msg"
  shows "\<exists>st'. (case full_blocks process bs st d of (st3, d3) \<Rightarrow> keep_rest st3 d3) = Some st'
    \<and> streamed process bs cap h0 st' (msg @ d)"
proof -
  obtain k where k: "length msg = bs * k" using al by blast
  have st0: "m_bufferSize st = 0" "length (m_buffer st) = cap" "m_numBytes st = of_nat (length msg)"
      "m_hash st = absorb process bs h0 msg"
    using st al by (simp_all add: streamed_def)
  have le: "length (partial bs d) \<le> cap"
    using bs_cap mod_less_divisor[OF bs_pos, of "length d"]
    by (simp only: length_partial)
  have "length d mod bs \<le> length d" by (rule mod_less_eq_dividend)
  then have "length (msg @ d) - length (msg @ d) mod bs = length msg + (length d - length d mod bs)"
    unfolding length_append k mod_mult_self4 by (rule Nat.add_diff_assoc[symmetric])
  moreover have mod: "length (msg @ d) mod bs = length d mod bs" by (simp add: k)
  ultimately have num: "(of_nat (length (msg @ d) - length d mod bs) :: word64)
      = of_nat (length msg) + of_nat (length d - length d mod bs)"
    by (simp only: of_nat_add)
  show ?thesis
    using le bs_pos unfolding full_blocks_eq[OF bs_pos] streamed_def num mod
    by (simp add: keep_rest_eq st0 partial_append[OF al] absorb_append[OF al])
qed

lemma add_streamed:
  assumes st: "streamed process bs cap h0 st msg"
  shows "\<exists>st'. hash_add process bs st d = Some st' \<and> streamed process bs cap h0 st' (msg @ d)"
proof (cases "m_bufferSize st = 0")
  case True
  then have "bs dvd length msg" using st by (simp add: streamed_def dvd_eq_mod_eq_0)
  moreover have "flush_buffer process bs st = st"
    using True bs_pos by (simp add: flush_buffer_def)
  ultimately show ?thesis
    using True st add_aligned[OF st, of d] by (simp add: hash_add_def Let_def)
next
  case False
  let ?r = "length msg mod bs" and ?p = "partial bs msg"
  let ?n = "min (length d) (bs - ?r)"
  have f: "length (m_buffer st) = cap" "m_bufferSize st = ?r" "take ?r (m_buffer st) = ?p"
      "m_numBytes st = of_nat (length msg - ?r)" "m_hash st = absorb process bs h0 msg"
    using st by (simp_all add: streamed_def)
  have r: "?r < bs" using bs_pos by simp
  let ?st1 = "st\<lparr>m_buffer := ?p @ take ?n d @ drop (?r + ?n) (m_buffer st), m_bufferSize := ?r + ?n\<rparr>"
  have fill: "fill_buffer bs st d = Some (?st1, drop ?n d)"
    using fill_buffer_eq[of st bs d] r bs_cap f by (simp add: Let_def)
  obtain c where c: "msg = c @ ?p" "bs dvd length c" "length c = length msg - ?r"
    using split_message[of msg bs] by (metis add_diff_cancel_right' length_append length_partial)
  show ?thesis
  proof (cases "length d < bs - ?r")
    case True
    then have n: "?n = length d" by simp
    have lt: "?r + length d < bs" using True by simp
    have "length (?p @ d) < bs" using lt by simp
    then have "partial bs (?p @ d) = ?p @ d" by (simp add: partial_def)
    then have pa: "partial bs (msg @ d) = ?p @ d"
      using partial_append[OF c(2), of "?p @ d"] c(1) by (metis append.assoc)
    have m: "length (msg @ d) mod bs = ?r + length d"
      using length_partial[of bs "msg @ d"] unfolding pa by simp
    have ab: "absorb process bs h0 (msg @ d) = absorb process bs h0 msg"
      using absorb_append[OF c(2), of process h0 "?p @ d"] absorb_append[OF c(2), of process h0 ?p]
        c(1) \<open>length (?p @ d) < bs\<close> r by (metis absorb_short append.assoc length_partial)
    have "hash_add process bs st d = Some ?st1"
      using False fill lt n by (simp add: hash_add_def Let_def flush_buffer_def)
    moreover have "streamed process bs cap h0 ?st1 (msg @ d)"
      using lt bs_cap m pa ab n f c(3) unfolding streamed_def by simp
    ultimately show ?thesis by blast
  next
    case False
    then have n: "?n = bs - ?r" and nd: "bs - ?r \<le> length d" by simp_all
    let ?msg = "msg @ take (bs - ?r) d"
    let ?st2 = "flush_buffer process bs ?st1"
    have blk: "length (?p @ take (bs - ?r) d) = bs" using r nd by simp
    have m: "?msg = c @ (?p @ take (bs - ?r) d)" using c(1) by (metis append.assoc)
    have al: "bs dvd length ?msg" unfolding m using blk c(2) by simp
    have len: "length ?msg = length msg - ?r + bs" unfolding m using blk c(3) by simp
    have ab: "absorb process bs h0 ?msg = process (m_hash st) (?p @ take (bs - ?r) d)"
    proof -
      have "absorb process bs h0 ?msg = absorb process bs (absorb process bs h0 c) (?p @ take (bs - ?r) d)"
        unfolding m by (rule absorb_append[OF c(2)])
      also have "\<dots> = process (absorb process bs h0 c) (?p @ take (bs - ?r) d)"
        using absorb_block[OF bs_pos blk, of process _ "[]"] by (simp add: absorb_short bs_pos)
      also have "absorb process bs h0 c = m_hash st"
        using absorb_append[OF c(2), of process h0 ?p] c(1) r f(5)
        by (metis absorb_short length_partial)
      finally show ?thesis .
    qed
    have st2: "streamed process bs cap h0 ?st2 ?msg"
      using blk al len ab n f bs_cap r nd
      by (simp add: streamed_def flush_buffer_def partial_def)
    show ?thesis
    proof (cases "drop ?n d = []")
      case True
      then have "?msg @ [] = msg @ d" using nd n by simp
      then show ?thesis
        using fill \<open>m_bufferSize st \<noteq> 0\<close> True st2 by (simp add: hash_add_def Let_def)
    next
      case False
      have "?msg @ drop ?n d = msg @ d" using n by simp
      then show ?thesis
        using add_aligned[OF st2 al, of "drop ?n d"] fill \<open>m_bufferSize st \<noteq> 0\<close> False
        by (simp add: hash_add_def Let_def)
    qed
  qed
qed

end

end
