(* ===== verification/Hash_Final.thy ===== *)
theory Hash_Final
  imports Hash_Stream
begin

text \<open>
  The end of a message for MD5, SHA-1 and SHA-256: the final block, reading the hash value without
  disturbing the stream, and the one-shot call. \<^verbatim>\<open>padded_stream\<close> extends the streaming contract;
  its laws say that \<^verbatim>\<open>processBuffer\<close> absorbs the padded message, that \<^verbatim>\<open>getHash\<close> leaves the
  object as it was, and that any way of feeding a message gives the same value.
\<close>

section \<open>Reading the hash value\<close>

definition md_get_raw ::
  "('h \<Rightarrow> byte list \<Rightarrow> 'h) \<Rightarrow> (word64 \<Rightarrow> byte list) \<Rightarrow> ('h \<Rightarrow> byte list) \<Rightarrow> byte list
    \<Rightarrow> 'h hasher \<Rightarrow> (byte list \<times> 'h hasher) option" where
  "md_get_raw process len8 out extra st = do {
     st1 \<leftarrow> md_process_buffer process len8 64 extra st;
     Some (out (m_hash st1), st1\<lparr>m_hash := m_hash st\<rparr>) }"

definition md_get_hex ::
  "('h \<Rightarrow> byte list \<Rightarrow> 'h) \<Rightarrow> (word64 \<Rightarrow> byte list) \<Rightarrow> ('h \<Rightarrow> byte list) \<Rightarrow> byte list
    \<Rightarrow> 'h hasher \<Rightarrow> (string \<times> 'h hasher) option" where
  "md_get_hex process len8 out extra st = do {
     (raw, st1) \<leftarrow> md_get_raw process len8 out extra st;
     Some (hex_bytes raw, st1) }"

text \<open>The value the standards define: whole padded message absorbed, then written out.\<close>

definition md_digest ::
  "('h \<Rightarrow> byte list \<Rightarrow> 'h) \<Rightarrow> 'h \<Rightarrow> (word64 \<Rightarrow> byte list) \<Rightarrow> ('h \<Rightarrow> byte list)
    \<Rightarrow> byte list \<Rightarrow> byte list" where
  "md_digest process h0 len8 out msg = out (absorb process 64 h0 (md_pad len8 msg))"

section \<open>The padding\<close>

lemma padded_length_eq:
  assumes "r < 64" shows "padded_length r = (if r \<le> 55 then 56 else 120)"
proof -
  have m: "(r * 8 + 1) AND 511 = (r * 8 + 1) mod 512"
    using take_bit_eq_mask[of 9 "r * 8 + 1"] by (simp add: take_bit_eq_mod mask_eq_exp_minus_1)
  show ?thesis
    using assms unfolding padded_length_def Let_def m by auto
qed

lemma zero_fill_eq:
  assumes "lim \<le> length a" "i \<le> lim"
  shows "zero_fill a i lim = Some (take i a @ replicate (lim - i) 0 @ drop lim a)"
  using assms
proof (induction a i lim rule: zero_fill.induct)
  case (1 a i lim)
  show ?case
  proof (cases "i < lim")
    case True
    then obtain n where n: "lim - i = Suc n" "lim - Suc i = n" by (cases "lim - i") auto
    have "take (Suc i) (a[i := 0]) = take i a @ [0]"
      using True 1(2) by (simp add: take_Suc_conv_app_nth)
    then show ?thesis
      using True 1 n by (subst zero_fill.simps) (simp add: poke_def)
  next
    case False
    then show ?thesis
      using 1(2,3) by (subst zero_fill.simps) simp
  qed
qed

lemma zero_fill_none: "lim \<le> i \<Longrightarrow> zero_fill a i lim = Some a"
  by (subst zero_fill.simps) simp

lemma pad_zeros:
  "(119 - n mod 64) mod 64 = (if n mod 64 \<le> 55 then 55 - n mod 64 else 119 - n mod 64 :: nat)"
proof -
  define r where "r = n mod 64"
  have "r < 64" by (simp add: r_def)
  moreover have "119 - r = 64 + (55 - r)" if "r \<le> 55" using that by simp
  ultimately show ?thesis
    unfolding r_def[symmetric] by (cases "r \<le> 55") (simp_all only: if_True if_False mod_add_self1, simp_all)
qed

lemma length_md_pad:
  
  assumes "length (len8 (8 * of_nat (length msg))) = 8" shows "64 dvd length (md_pad len8 msg)"
proof -
  define r where "r = length msg mod 64"
  obtain q where q: "length msg = 64 * q + r"
    using mult_div_mod_eq[of 64 "length msg"] r_def by metis
  have "r < 64" by (simp add: r_def)
  then have "(119 - r) mod 64 + r = 55 \<or> (119 - r) mod 64 + r = 119"
    using pad_zeros[of r] by auto
  moreover have "length (md_pad len8 msg) = 64 * q + (r + (119 - r) mod 64) + 9"
    using assms unfolding md_pad_def r_def[symmetric] by (simp add: q)
  ultimately have "length (md_pad len8 msg) = 64 * (q + 1) \<or> length (md_pad len8 msg) = 64 * (q + 2)"
    by auto
  then show ?thesis by (elim disjE) (simp_all only: dvd_triv_left)
qed

text \<open>The final block in the buffer, when the length fits in it, and in two blocks otherwise.\<close>

lemma final_one_block:
  assumes "r \<le> 55" "length b = 64" "length l = 8"
  shows "do { b1 \<leftarrow> poke b r 128; b2 \<leftarrow> zero_fill b1 (r + 1) 64; pokes b2 56 l }
    = Some (take r b @ [128] @ replicate (55 - r) 0 @ l)"
proof -
  have "take (Suc r) (b[r := 128]) = take r b @ [128]"
    using assms by (simp add: take_Suc_conv_app_nth)
  moreover have "replicate (63 - r) (0 :: byte) = replicate (55 - r) 0 @ replicate 8 0"
    using assms by (simp flip: replicate_add)
  moreover have "56 - r = Suc (55 - r)" using assms by simp
  ultimately show ?thesis
    using assms by (simp add: poke_def zero_fill_eq pokes_eq)
qed

lemma final_two_blocks:
  assumes "55 < r" "r < 64" "length b = 64" "length e = 64" "length l = 8"
  shows "do { b1 \<leftarrow> poke b r 128; zero_fill b1 (r + 1) 64 } = Some (take r b @ [128] @ replicate (63 - r) 0)"
    "do { e2 \<leftarrow> zero_fill e 0 56; pokes e2 56 l } = Some (replicate 56 0 @ l)"
proof -
  have "take (Suc r) (b[r := 128]) = take r b @ [128]"
    using assms by (simp add: take_Suc_conv_app_nth)
  then show "do { b1 \<leftarrow> poke b r 128; zero_fill b1 (r + 1) 64 } = Some (take r b @ [128] @ replicate (63 - r) 0)"
    using assms by (simp add: poke_def zero_fill_eq)
  show "do { e2 \<leftarrow> zero_fill e 0 56; pokes e2 56 l } = Some (replicate 56 0 @ l)"
    using assms by (simp add: zero_fill_eq pokes_eq)
qed

section \<open>The contract\<close>

locale padded_stream = block_stream process 64 64 h0
  for process :: "'h \<Rightarrow> byte list \<Rightarrow> 'h" and h0 +
  fixes len8 :: "word64 \<Rightarrow> byte list" and out :: "'h \<Rightarrow> byte list"
  assumes len8: "length (len8 w) = 8"
begin

lemma total_bits:
  assumes "streamed process 64 64 h0 st msg"
  shows "8 * (m_numBytes st + of_nat (m_bufferSize st)) = (8 * of_nat (length msg) :: word64)"
proof -
  have "length msg - length msg mod 64 + length msg mod 64 = length msg" by simp
  then have "m_numBytes st + of_nat (m_bufferSize st) = of_nat (length msg)"
    using assms unfolding streamed_def by (metis of_nat_add)
  then show ?thesis by simp
qed

lemma process_buffer:
  assumes st: "streamed process 64 64 h0 st msg" and e: "length extra = 64"
  shows "\<exists>b. md_process_buffer process len8 64 extra st
      = Some (st\<lparr>m_buffer := b, m_hash := absorb process 64 h0 (md_pad len8 msg)\<rparr>)
    \<and> length b = 64 \<and> take (m_bufferSize st) b = take (m_bufferSize st) (m_buffer st)"
proof -
  let ?r = "length msg mod 64" and ?p = "partial 64 msg"
  let ?l = "len8 (8 * of_nat (length msg))"
  obtain c where c: "msg = c @ ?p" "64 dvd length c"
    using split_message[of msg 64] by metis
  have f: "length (m_buffer st) = 64" "m_bufferSize st = ?r" "take ?r (m_buffer st) = ?p"
      "m_hash st = absorb process 64 h0 c"
    using st absorb_append[OF c(2), of process h0 ?p] c(1)
    by (simp_all add: streamed_def) (metis absorb_short length_partial mod_less_divisor zero_less_numeral)
  have r: "?r < 64" by simp
  note bits = total_bits[OF st, unfolded f(2)]
  have abs: "absorb process 64 h0 (md_pad len8 msg) = absorb process 64 (m_hash st)
      (?p @ [128] @ replicate ((119 - ?r) mod 64) 0 @ ?l)"
    unfolding md_pad_def using absorb_append[OF c(2)] c(1) f(4) by (metis append.assoc)
  have one: "absorb process 64 h x = process h x" if "length x = 64" for h x
    using absorb_block[OF _ that, of process h "[]"] by (simp add: absorb_short)
  show ?thesis
  proof (cases "?r \<le> 55")
    case True
    let ?b = "?p @ [128] @ replicate (55 - ?r) 0 @ ?l"
    have lb: "length ?b = 64" using True len8 by simp
    have "do { b1 \<leftarrow> poke (m_buffer st) ?r 128; b2 \<leftarrow> zero_fill b1 (?r + 1) 64; pokes b2 56 ?l } = Some ?b"
      using final_one_block[OF True f(1) len8] f(3) by simp
    then obtain b1 b2 where w: "poke (m_buffer st) ?r 128 = Some b1" "zero_fill b1 (?r + 1) 64 = Some b2"
        "pokes b2 56 ?l = Some ?b"
      by (auto simp: bind_eq_Some_iff)
    have z: "zero_fill extra 0 0 = Some extra" by (simp add: zero_fill_none)
    have "md_process_buffer process len8 64 extra st
      = Some (st\<lparr>m_buffer := ?b, m_hash := process (m_hash st) ?b\<rparr>)"
      using w z True unfolding md_process_buffer_def f(2) Let_def bits
      by (simp add: padded_length_eq max_def)
    moreover have "process (m_hash st) ?b = absorb process 64 h0 (md_pad len8 msg)"
      unfolding abs pad_zeros using True one[OF lb] by simp
    ultimately show ?thesis
      using lb f by auto
  next
    case False
    let ?b = "?p @ [128] @ replicate (63 - ?r) 0" and ?e = "replicate 56 0 @ ?l"
    have lb: "length ?b = 64" "length ?e = 64" using False r len8 by simp_all
    have "do { b1 \<leftarrow> poke (m_buffer st) ?r 128; zero_fill b1 (?r + 1) 64 } = Some ?b"
      using final_two_blocks(1)[OF _ r f(1) e len8] f(3) False by simp
    then obtain b1 where w: "poke (m_buffer st) ?r 128 = Some b1" "zero_fill b1 (?r + 1) 64 = Some ?b"
      by (auto simp: bind_eq_Some_iff)
    have "do { e2 \<leftarrow> zero_fill extra 0 56; pokes e2 56 ?l } = Some ?e"
      using final_two_blocks(2)[OF _ r f(1) e len8] False by simp
    then obtain e2 where z: "zero_fill extra 0 56 = Some e2" "pokes e2 56 ?l = Some ?e"
      by (auto simp: bind_eq_Some_iff)
    have "md_process_buffer process len8 64 extra st
      = Some (st\<lparr>m_buffer := ?b, m_hash := process (process (m_hash st) ?b) ?e\<rparr>)"
      using w z False unfolding md_process_buffer_def f(2) Let_def bits
      by (simp add: padded_length_eq max_def)
    moreover have "process (process (m_hash st) ?b) ?e = absorb process 64 h0 (md_pad len8 msg)"
    proof -
      have "replicate (119 - ?r) (0 :: byte) = replicate (63 - ?r) 0 @ replicate 56 0"
        using r by (simp flip: replicate_add)
      then have "?p @ [128] @ replicate ((119 - ?r) mod 64) 0 @ ?l = ?b @ ?e"
        using False unfolding pad_zeros by simp
      then show ?thesis
        unfolding abs by (simp only: absorb_block[OF bs_pos lb(1)] one[OF lb(2)])
    qed
    ultimately show ?thesis
      using lb f by auto
  qed
qed

lemma get_raw:
  assumes st: "streamed process 64 64 h0 st msg" and e: "length extra = 64"
  shows "\<exists>st'. md_get_raw process len8 out extra st = Some (md_digest process h0 len8 out msg, st')
    \<and> streamed process 64 64 h0 st' msg"
proof -
  obtain b where b: "md_process_buffer process len8 64 extra st
      = Some (st\<lparr>m_buffer := b, m_hash := absorb process 64 h0 (md_pad len8 msg)\<rparr>)"
    "length b = 64" "take (m_bufferSize st) b = take (m_bufferSize st) (m_buffer st)"
    using process_buffer[OF st e] by (elim exE conjE) (rule that)
  have "streamed process 64 64 h0 (st\<lparr>m_buffer := b\<rparr>) msg"
    using st b(2,3) by (simp add: streamed_def)
  then show ?thesis
    by (simp add: md_get_raw_def b(1) md_digest_def)
qed

lemma get_hex:
  assumes "streamed process 64 64 h0 st msg" "length extra = 64"
  shows "\<exists>st'. md_get_hex process len8 out extra st = Some (hex_bytes (md_digest process h0 len8 out msg), st')
    \<and> streamed process 64 64 h0 st' msg"
  using get_raw[OF assms] by (auto simp: md_get_hex_def)

lemma one_shot:
  assumes "length b = 64" "length extra = 64"
  shows "\<exists>st'. do { st \<leftarrow> hash_add process 64
        \<lparr>m_numBytes = 0, m_bufferSize = 0, m_buffer = b, m_hash = h0\<rparr> msg;
      md_get_hex process len8 out extra st } = Some (hex_bytes (md_digest process h0 len8 out msg), st')"
proof -
  obtain st where "hash_add process 64
        \<lparr>m_numBytes = 0, m_bufferSize = 0, m_buffer = b, m_hash = h0\<rparr> msg = Some st"
    "streamed process 64 64 h0 st ([] @ msg)"
    using add_streamed[OF streamed_init[OF assms(1)], of msg] by (elim exE conjE) (rule that)
  then show ?thesis
    using get_hex[OF _ assms(2), of st msg] by auto
qed

end

end
