(* ===== verification/Hash_Object.thy ===== *)
theory Hash_Object
  imports Hash_Final
begin

text \<open>
  Hash objects as their clients see them: a client adds pieces of a message, reads the hash value
  at any moment, and starts again with \<^verbatim>\<open>reset\<close>. \<^verbatim>\<open>hash_object\<close> is the contract of one class
  (what \<^verbatim>\<open>add\<close> and \<^verbatim>\<open>getHash\<close> do to the message an object stands for); the sequences of
  calls and the template \<^verbatim>\<open>hmac\<close> of \<^verbatim>\<open>src/crypto/detail/hmac.h\<close> are clients of it.
\<close>

section \<open>Sequences of calls\<close>

datatype hash_call = Add "byte list" | GetHash | Reset

text \<open>The outputs of the calls; \<^term>\<open>None\<close> when a call writes outside an array.\<close>

fun hash_run ::
  "('s \<Rightarrow> byte list \<Rightarrow> 's option) \<Rightarrow> ('s \<Rightarrow> (string \<times> 's) option) \<Rightarrow> ('s \<Rightarrow> 's)
    \<Rightarrow> hash_call list \<Rightarrow> 's \<Rightarrow> string list option" where
  "hash_run add get reset [] s = Some []"
| "hash_run add get reset (Add d # cs) s = do { s' \<leftarrow> add s d; hash_run add get reset cs s' }"
| "hash_run add get reset (GetHash # cs) s = do {
     (out, s') \<leftarrow> get s; outs \<leftarrow> hash_run add get reset cs s'; Some (out # outs) }"
| "hash_run add get reset (Reset # cs) s = hash_run add get reset cs (reset s)"

text \<open>What the outputs should be, from the message collected so far.\<close>

fun hash_outputs :: "(byte list \<Rightarrow> byte list) \<Rightarrow> hash_call list \<Rightarrow> byte list \<Rightarrow> string list" where
  "hash_outputs H [] msg = []"
| "hash_outputs H (Add d # cs) msg = hash_outputs H cs (msg @ d)"
| "hash_outputs H (GetHash # cs) msg = hex_bytes (H msg) # hash_outputs H cs msg"
| "hash_outputs H (Reset # cs) msg = hash_outputs H cs []"

section \<open>HMAC\<close>

text \<open>
  The template, over the operations of the class it is instantiated with: \<^verbatim>\<open>fresh\<close> is a newly
  constructed object, \<^verbatim>\<open>raw\<close> and \<^verbatim>\<open>hex\<close> the two overloads of \<^verbatim>\<open>getHash\<close>.
\<close>

definition hmac ::
  "'s \<Rightarrow> ('s \<Rightarrow> byte list \<Rightarrow> 's option) \<Rightarrow> ('s \<Rightarrow> (byte list \<times> 's) option)
    \<Rightarrow> ('s \<Rightarrow> (string \<times> 's) option) \<Rightarrow> nat \<Rightarrow> byte list \<Rightarrow> byte list \<Rightarrow> string option" where
  "hmac fresh add raw hex bs data key = do {
     usedKey \<leftarrow>
       (if length key \<le> bs then pokes (replicate bs 0) 0 key
        else do { keyHasher \<leftarrow> add fresh key; (k, _) \<leftarrow> raw keyHasher; pokes (replicate bs 0) 0 k });
     let usedKey1 = map (\<lambda>x. x XOR 0x36) usedKey;
     insideHasher \<leftarrow> add fresh usedKey1;
     insideHasher \<leftarrow> add insideHasher data;
     (inside, _) \<leftarrow> raw insideHasher;
     let usedKey2 = map (\<lambda>x. x XOR (0x5C XOR 0x36)) usedKey1;
     finalHasher \<leftarrow> add fresh usedKey2;
     finalHasher \<leftarrow> add finalHasher inside;
     (out, _) \<leftarrow> hex finalHasher;
     Some out }"

text \<open>RFC 2104.\<close>

definition rfc2104 :: "(byte list \<Rightarrow> byte list) \<Rightarrow> nat \<Rightarrow> byte list \<Rightarrow> byte list \<Rightarrow> byte list" where
  "rfc2104 H B K text =
    (let K0 = (if length K \<le> B then K else H K);
         K0 = K0 @ replicate (B - length K0) 0;
         ipad = map (\<lambda>x. x XOR 0x36) K0;
         opad = map (\<lambda>x. x XOR 0x5C) K0
     in H (opad @ H (ipad @ text)))"

section \<open>The contract\<close>

locale hash_object =
  fixes rep :: "'s \<Rightarrow> byte list \<Rightarrow> bool" and add :: "'s \<Rightarrow> byte list \<Rightarrow> 's option"
    and hex :: "byte list \<Rightarrow> 's \<Rightarrow> (string \<times> 's) option" and reset :: "'s \<Rightarrow> 's"
    and good :: "'s \<Rightarrow> bool" and junk :: "byte list \<Rightarrow> bool" and H :: "byte list \<Rightarrow> byte list"
  assumes reset: "good s \<Longrightarrow> rep (reset s) []"
    and rep_good: "rep s msg \<Longrightarrow> good s"
    and add: "rep s msg \<Longrightarrow> \<exists>s'. add s d = Some s' \<and> rep s' (msg @ d)"
    and hex: "\<lbrakk>rep s msg; junk e\<rbrakk> \<Longrightarrow> \<exists>s'. hex e s = Some (hex_bytes (H msg), s') \<and> rep s' msg"
begin

lemma run_rep:
  assumes "junk e" "rep s msg"
  shows "hash_run add (hex e) reset cs s = Some (hash_outputs H cs msg)"
  using assms(2)
proof (induction cs arbitrary: s msg)
  case (Cons c cs)
  show ?case
  proof (cases c)
    case (Add d)
    obtain s' where "add s d = Some s'" "rep s' (msg @ d)"
      using add[OF Cons(2), of d] by (elim exE conjE) (rule that)
    then show ?thesis using Cons(1) Add by simp
  next
    case GetHash
    obtain s' where "hex e s = Some (hex_bytes (H msg), s')" "rep s' msg"
      using hex[OF Cons(2) assms(1)] by (elim exE conjE) (rule that)
    then show ?thesis using Cons(1) GetHash by simp
  next
    case Reset
    then show ?thesis using Cons(1) reset[OF rep_good[OF Cons(2)]] by simp
  qed
qed simp

lemma run_reset:
  "\<lbrakk>good s; junk e\<rbrakk> \<Longrightarrow> hash_run add (hex e) reset (Reset # cs) s = Some (hash_outputs H cs [])"
  using run_rep[OF _ reset] by simp

lemma one_call:
  assumes "good s" "junk e"
  shows "map_option fst (do { s1 \<leftarrow> add (reset s) d; hex e s1 }) = Some (hex_bytes (H d))"
proof -
  obtain s1 where s1: "add (reset s) d = Some s1" "rep s1 ([] @ d)"
    using add[OF reset[OF assms(1)], of d] by (elim exE conjE) (rule that)
  then show ?thesis using hex[OF s1(2) assms(2)] by auto
qed

end

text \<open>The classes HMAC can use also hand out the raw bytes, no more than a block.\<close>

locale raw_hash_object = hash_object +
  fixes raw :: "byte list \<Rightarrow> 'a \<Rightarrow> (byte list \<times> 'a) option" and bs :: nat
  assumes raw: "\<lbrakk>rep s msg; junk e\<rbrakk> \<Longrightarrow> \<exists>s'. raw e s = Some (H msg, s') \<and> rep s' msg"
    and short: "length (H msg) \<le> bs"
begin

lemma used_key:
  assumes fresh: "rep fresh []" and e: "junk e"
  shows "(if length key \<le> bs then pokes (replicate bs 0) 0 key
        else do { keyHasher \<leftarrow> add fresh key; (k, _) \<leftarrow> raw e keyHasher; pokes (replicate bs 0) 0 k })
    = Some (let K0 = (if length key \<le> bs then key else H key) in K0 @ replicate (bs - length K0) 0)"
proof (cases "length key \<le> bs")
  case True
  then show ?thesis by (simp add: pokes_eq Let_def)
next
  case False
  obtain s where s: "add fresh key = Some s" "rep s ([] @ key)"
    using add[OF fresh, of key] by (elim exE conjE) (rule that)
  obtain s' where "raw e s = Some (H ([] @ key), s')"
    using raw[OF s(2) e] by (elim exE conjE) (rule that)
  then show ?thesis
    using False s(1) short[of key] by (simp add: pokes_eq Let_def)
qed

lemma xor_pads: "map (\<lambda>x. x XOR (0x5C XOR 0x36)) (map (\<lambda>x. x XOR 0x36) k) = map (\<lambda>x. x XOR 0x5C) (k :: byte list)"
proof -
  have "(x XOR 0x36) XOR (0x5C XOR 0x36) = x XOR 0x5C" for x :: byte
    by (simp add: xor.assoc)
  then show ?thesis by (simp add: comp_def)
qed

lemma hmac_eq:
  assumes fresh: "rep fresh []" and e: "junk e"
  shows "hmac fresh add (raw e) (hex e) bs data key = Some (hex_bytes (rfc2104 H bs key data))"
proof -
  let ?K = "let K0 = (if length key \<le> bs then key else H key) in K0 @ replicate (bs - length K0) 0"
  let ?i = "map (\<lambda>x. x XOR 0x36) ?K" and ?o = "map (\<lambda>x. x XOR 0x5C) ?K"
  obtain s1 where s1: "add fresh ?i = Some s1" "rep s1 ([] @ ?i)"
    using add[OF fresh, of ?i] by (elim exE conjE) (rule that)
  obtain s2 where s2: "add s1 data = Some s2" "rep s2 (([] @ ?i) @ data)"
    using add[OF s1(2), of data] by (elim exE conjE) (rule that)
  obtain s3 where s3: "raw e s2 = Some (H (([] @ ?i) @ data), s3)"
    using raw[OF s2(2) e] by (elim exE conjE) (rule that)
  obtain s4 where s4: "add fresh ?o = Some s4" "rep s4 ([] @ ?o)"
    using add[OF fresh, of ?o] by (elim exE conjE) (rule that)
  obtain s5 where s5: "add s4 (H (?i @ data)) = Some s5" "rep s5 (([] @ ?o) @ H (?i @ data))"
    using add[OF s4(2), of "H (?i @ data)"] by (elim exE conjE) (rule that)
  obtain s6 where s6: "hex e s5 = Some (hex_bytes (H (([] @ ?o) @ H (?i @ data))), s6)"
    using hex[OF s5(2) e] by (elim exE conjE) (rule that)
  have "rfc2104 H bs key data = H (?o @ H (?i @ data))"
    by (simp add: rfc2104_def Let_def)
  then show ?thesis
    unfolding hmac_def used_key[OF fresh e] bind.bind_lunit Let_def xor_pads
    using s1(1) s2(1) s3 s4(1) s5(1) s6 by (simp add: Let_def)
qed

end

end
