(* ===== verification/Md5.thy ===== *)
theory Md5
  imports Hash_Object
begin

text \<open>
  The class \<^verbatim>\<open>MD5\<close> of \<^verbatim>\<open>src/crypto/detail/md5.cpp\<close>: its mixing functions, the unrolled
  \<^verbatim>\<open>processBlock\<close>, and the public operations as instances of the streaming code. The second
  half states the algorithm as RFC 1321 gives it (four auxiliary functions, a table of constants,
  one operation repeated 64 times) and shows the unrolled code equal to it.
\<close>

section \<open>The code\<close>

definition md5_f1 :: "word32 \<Rightarrow> word32 \<Rightarrow> word32 \<Rightarrow> word32" where
  "md5_f1 b c d = d XOR (b AND (c XOR d))"

definition md5_f2 :: "word32 \<Rightarrow> word32 \<Rightarrow> word32 \<Rightarrow> word32" where
  "md5_f2 b c d = c XOR (d AND (b XOR c))"

definition md5_f3 :: "word32 \<Rightarrow> word32 \<Rightarrow> word32 \<Rightarrow> word32" where
  "md5_f3 b c d = b XOR c XOR d"

definition md5_f4 :: "word32 \<Rightarrow> word32 \<Rightarrow> word32 \<Rightarrow> word32" where
  "md5_f4 b c d = c XOR (b OR NOT d)"

definition md5_rotate :: "word32 \<Rightarrow> nat \<Rightarrow> word32" where
  "md5_rotate a c = push_bit c a OR drop_bit (32 - c) a"

definition md5_init :: "word32 list" where
  "md5_init = [0x67452301, 0xefcdab89, 0x98badcfe, 0x10325476]"

text \<open>\<^verbatim>\<open>LITTLEENDIAN\<close> is the identity on the little-endian machines modelled here.\<close>

definition md5_processBlock :: "word32 list \<Rightarrow> byte list \<Rightarrow> word32 list" where
  "md5_processBlock h data =
    (let a = h ! 0; b = h ! 1; c = h ! 2; d = h ! 3;
     word0 = load_le32 data 0;
     a = md5_rotate (a + md5_f1 b c d + word0 + 0xd76aa478) 7 + b;
     word1 = load_le32 data 1;
     d = md5_rotate (d + md5_f1 a b c + word1 + 0xe8c7b756) 12 + a;
     word2 = load_le32 data 2;
     c = md5_rotate (c + md5_f1 d a b + word2 + 0x242070db) 17 + d;
     word3 = load_le32 data 3;
     b = md5_rotate (b + md5_f1 c d a + word3 + 0xc1bdceee) 22 + c;
     word4 = load_le32 data 4;
     a = md5_rotate (a + md5_f1 b c d + word4 + 0xf57c0faf) 7 + b;
     word5 = load_le32 data 5;
     d = md5_rotate (d + md5_f1 a b c + word5 + 0x4787c62a) 12 + a;
     word6 = load_le32 data 6;
     c = md5_rotate (c + md5_f1 d a b + word6 + 0xa8304613) 17 + d;
     word7 = load_le32 data 7;
     b = md5_rotate (b + md5_f1 c d a + word7 + 0xfd469501) 22 + c;
     word8 = load_le32 data 8;
     a = md5_rotate (a + md5_f1 b c d + word8 + 0x698098d8) 7 + b;
     word9 = load_le32 data 9;
     d = md5_rotate (d + md5_f1 a b c + word9 + 0x8b44f7af) 12 + a;
     word10 = load_le32 data 10;
     c = md5_rotate (c + md5_f1 d a b + word10 + 0xffff5bb1) 17 + d;
     word11 = load_le32 data 11;
     b = md5_rotate (b + md5_f1 c d a + word11 + 0x895cd7be) 22 + c;
     word12 = load_le32 data 12;
     a = md5_rotate (a + md5_f1 b c d + word12 + 0x6b901122) 7 + b;
     word13 = load_le32 data 13;
     d = md5_rotate (d + md5_f1 a b c + word13 + 0xfd987193) 12 + a;
     word14 = load_le32 data 14;
     c = md5_rotate (c + md5_f1 d a b + word14 + 0xa679438e) 17 + d;
     word15 = load_le32 data 15;
     b = md5_rotate (b + md5_f1 c d a + word15 + 0x49b40821) 22 + c;
     a = md5_rotate (a + md5_f2 b c d + word1 + 0xf61e2562) 5 + b;
     d = md5_rotate (d + md5_f2 a b c + word6 + 0xc040b340) 9 + a;
     c = md5_rotate (c + md5_f2 d a b + word11 + 0x265e5a51) 14 + d;
     b = md5_rotate (b + md5_f2 c d a + word0 + 0xe9b6c7aa) 20 + c;
     a = md5_rotate (a + md5_f2 b c d + word5 + 0xd62f105d) 5 + b;
     d = md5_rotate (d + md5_f2 a b c + word10 + 0x02441453) 9 + a;
     c = md5_rotate (c + md5_f2 d a b + word15 + 0xd8a1e681) 14 + d;
     b = md5_rotate (b + md5_f2 c d a + word4 + 0xe7d3fbc8) 20 + c;
     a = md5_rotate (a + md5_f2 b c d + word9 + 0x21e1cde6) 5 + b;
     d = md5_rotate (d + md5_f2 a b c + word14 + 0xc33707d6) 9 + a;
     c = md5_rotate (c + md5_f2 d a b + word3 + 0xf4d50d87) 14 + d;
     b = md5_rotate (b + md5_f2 c d a + word8 + 0x455a14ed) 20 + c;
     a = md5_rotate (a + md5_f2 b c d + word13 + 0xa9e3e905) 5 + b;
     d = md5_rotate (d + md5_f2 a b c + word2 + 0xfcefa3f8) 9 + a;
     c = md5_rotate (c + md5_f2 d a b + word7 + 0x676f02d9) 14 + d;
     b = md5_rotate (b + md5_f2 c d a + word12 + 0x8d2a4c8a) 20 + c;
     a = md5_rotate (a + md5_f3 b c d + word5 + 0xfffa3942) 4 + b;
     d = md5_rotate (d + md5_f3 a b c + word8 + 0x8771f681) 11 + a;
     c = md5_rotate (c + md5_f3 d a b + word11 + 0x6d9d6122) 16 + d;
     b = md5_rotate (b + md5_f3 c d a + word14 + 0xfde5380c) 23 + c;
     a = md5_rotate (a + md5_f3 b c d + word1 + 0xa4beea44) 4 + b;
     d = md5_rotate (d + md5_f3 a b c + word4 + 0x4bdecfa9) 11 + a;
     c = md5_rotate (c + md5_f3 d a b + word7 + 0xf6bb4b60) 16 + d;
     b = md5_rotate (b + md5_f3 c d a + word10 + 0xbebfbc70) 23 + c;
     a = md5_rotate (a + md5_f3 b c d + word13 + 0x289b7ec6) 4 + b;
     d = md5_rotate (d + md5_f3 a b c + word0 + 0xeaa127fa) 11 + a;
     c = md5_rotate (c + md5_f3 d a b + word3 + 0xd4ef3085) 16 + d;
     b = md5_rotate (b + md5_f3 c d a + word6 + 0x04881d05) 23 + c;
     a = md5_rotate (a + md5_f3 b c d + word9 + 0xd9d4d039) 4 + b;
     d = md5_rotate (d + md5_f3 a b c + word12 + 0xe6db99e5) 11 + a;
     c = md5_rotate (c + md5_f3 d a b + word15 + 0x1fa27cf8) 16 + d;
     b = md5_rotate (b + md5_f3 c d a + word2 + 0xc4ac5665) 23 + c;
     a = md5_rotate (a + md5_f4 b c d + word0 + 0xf4292244) 6 + b;
     d = md5_rotate (d + md5_f4 a b c + word7 + 0x432aff97) 10 + a;
     c = md5_rotate (c + md5_f4 d a b + word14 + 0xab9423a7) 15 + d;
     b = md5_rotate (b + md5_f4 c d a + word5 + 0xfc93a039) 21 + c;
     a = md5_rotate (a + md5_f4 b c d + word12 + 0x655b59c3) 6 + b;
     d = md5_rotate (d + md5_f4 a b c + word3 + 0x8f0ccc92) 10 + a;
     c = md5_rotate (c + md5_f4 d a b + word10 + 0xffeff47d) 15 + d;
     b = md5_rotate (b + md5_f4 c d a + word1 + 0x85845dd1) 21 + c;
     a = md5_rotate (a + md5_f4 b c d + word8 + 0x6fa87e4f) 6 + b;
     d = md5_rotate (d + md5_f4 a b c + word15 + 0xfe2ce6e0) 10 + a;
     c = md5_rotate (c + md5_f4 d a b + word6 + 0xa3014314) 15 + d;
     b = md5_rotate (b + md5_f4 c d a + word13 + 0x4e0811a1) 21 + c;
     a = md5_rotate (a + md5_f4 b c d + word4 + 0xf7537e82) 6 + b;
     d = md5_rotate (d + md5_f4 a b c + word11 + 0xbd3af235) 10 + a;
     c = md5_rotate (c + md5_f4 d a b + word2 + 0x2ad7d2bb) 15 + d;
     b = md5_rotate (b + md5_f4 c d a + word9 + 0xeb86d391) 21 + c
     in [h ! 0 + a, h ! 1 + b, h ! 2 + c, h ! 3 + d])"

definition md5_reset :: "word32 list hasher \<Rightarrow> word32 list hasher" where
  "md5_reset st = st\<lparr>m_numBytes := 0, m_bufferSize := 0, m_hash := md5_init\<rparr>"

definition md5_add :: "word32 list hasher \<Rightarrow> byte list \<Rightarrow> word32 list hasher option" where
  "md5_add st data = hash_add md5_processBlock 64 st data"

definition md5_processBuffer :: "byte list \<Rightarrow> word32 list hasher \<Rightarrow> word32 list hasher option" where
  "md5_processBuffer extra st = md_process_buffer md5_processBlock le64_bytes 64 extra st"

definition md5_bytes :: "word32 list \<Rightarrow> byte list" where
  "md5_bytes h = concat (map le32_bytes h)"

definition md5_getRaw ::
  "byte list \<Rightarrow> word32 list hasher \<Rightarrow> (byte list \<times> word32 list hasher) option" where
  "md5_getRaw extra st = do {
     st1 \<leftarrow> md5_processBuffer extra st;
     Some (md5_bytes (m_hash st1), st1\<lparr>m_hash := m_hash st\<rparr>) }"

definition md5_getHash ::
  "byte list \<Rightarrow> word32 list hasher \<Rightarrow> (string \<times> word32 list hasher) option" where
  "md5_getHash extra st = do {
     (raw, st1) \<leftarrow> md5_getRaw extra st;
     Some (hex_bytes raw, st1) }"

definition md5_call ::
  "byte list \<Rightarrow> word32 list hasher \<Rightarrow> byte list \<Rightarrow> (string \<times> word32 list hasher) option" where
  "md5_call extra st data = do {
     st1 \<leftarrow> md5_add (md5_reset st) data;
     md5_getHash extra st1 }"

section \<open>RFC 1321\<close>

definition rfc1321_F :: "word32 \<Rightarrow> word32 \<Rightarrow> word32 \<Rightarrow> word32" where
  "rfc1321_F x y z = (x AND y) OR (NOT x AND z)"

definition rfc1321_G :: "word32 \<Rightarrow> word32 \<Rightarrow> word32 \<Rightarrow> word32" where
  "rfc1321_G x y z = (x AND z) OR (y AND NOT z)"

definition rfc1321_H :: "word32 \<Rightarrow> word32 \<Rightarrow> word32 \<Rightarrow> word32" where
  "rfc1321_H x y z = x XOR y XOR z"

definition rfc1321_I :: "word32 \<Rightarrow> word32 \<Rightarrow> word32 \<Rightarrow> word32" where
  "rfc1321_I x y z = y XOR (x OR NOT z)"

definition rfc1321_T :: "word32 list" where
  "rfc1321_T = [
   0xd76aa478, 0xe8c7b756, 0x242070db, 0xc1bdceee, 0xf57c0faf, 0x4787c62a,
   0xa8304613, 0xfd469501, 0x698098d8, 0x8b44f7af, 0xffff5bb1, 0x895cd7be,
   0x6b901122, 0xfd987193, 0xa679438e, 0x49b40821, 0xf61e2562, 0xc040b340,
   0x265e5a51, 0xe9b6c7aa, 0xd62f105d, 0x02441453, 0xd8a1e681, 0xe7d3fbc8,
   0x21e1cde6, 0xc33707d6, 0xf4d50d87, 0x455a14ed, 0xa9e3e905, 0xfcefa3f8,
   0x676f02d9, 0x8d2a4c8a, 0xfffa3942, 0x8771f681, 0x6d9d6122, 0xfde5380c,
   0xa4beea44, 0x4bdecfa9, 0xf6bb4b60, 0xbebfbc70, 0x289b7ec6, 0xeaa127fa,
   0xd4ef3085, 0x04881d05, 0xd9d4d039, 0xe6db99e5, 0x1fa27cf8, 0xc4ac5665,
   0xf4292244, 0x432aff97, 0xab9423a7, 0xfc93a039, 0x655b59c3, 0x8f0ccc92,
   0xffeff47d, 0x85845dd1, 0x6fa87e4f, 0xfe2ce6e0, 0xa3014314, 0x4e0811a1,
   0xf7537e82, 0xbd3af235, 0x2ad7d2bb, 0xeb86d391]"

text \<open>
  Operation \<^verbatim>\<open>i\<close> of the 64: the auxiliary function, the message word, the shift amount. The four
  registers rotate by one place after each operation.
\<close>

definition rfc1321_word :: "nat \<Rightarrow> nat" where
  "rfc1321_word i = (if i < 16 then i else if i < 32 then (5 * i + 1) mod 16
     else if i < 48 then (3 * i + 5) mod 16 else (7 * i) mod 16)"

definition rfc1321_shift :: "nat \<Rightarrow> nat" where
  "rfc1321_shift i =
    ([[7, 12, 17, 22], [5, 9, 14, 20], [4, 11, 16, 23], [6, 10, 15, 21]] ! (i div 16)) ! (i mod 4)"

definition rfc1321_aux :: "nat \<Rightarrow> word32 \<Rightarrow> word32 \<Rightarrow> word32 \<Rightarrow> word32" where
  "rfc1321_aux i = (if i < 16 then rfc1321_F else if i < 32 then rfc1321_G
     else if i < 48 then rfc1321_H else rfc1321_I)"

fun rfc1321_step :: "byte list \<Rightarrow> nat \<Rightarrow> word32 \<times> word32 \<times> word32 \<times> word32
    \<Rightarrow> word32 \<times> word32 \<times> word32 \<times> word32" where
  "rfc1321_step data i (a, b, c, d) =
    (d, word_rotl (rfc1321_shift i)
          (a + rfc1321_aux i b c d + load_le32 data (rfc1321_word i) + rfc1321_T ! i) + b, b, c)"

definition rfc1321_block :: "word32 list \<Rightarrow> byte list \<Rightarrow> word32 list" where
  "rfc1321_block h data =
    (case fold (rfc1321_step data) [0..<64] (h ! 0, h ! 1, h ! 2, h ! 3) of
      (a, b, c, d) \<Rightarrow> [h ! 0 + a, h ! 1 + b, h ! 2 + c, h ! 3 + d])"

section \<open>The code computes RFC 1321\<close>

lemma md5_mix:
  "md5_f1 = rfc1321_F" "md5_f2 = rfc1321_G" "md5_f3 = rfc1321_H" "md5_f4 = rfc1321_I"
  unfolding fun_eq_iff md5_f1_def md5_f2_def md5_f3_def md5_f4_def rfc1321_F_def rfc1321_G_def
    rfc1321_H_def rfc1321_I_def
  by (auto intro!: bit_word_eqI simp: bit_simps)

lemma md5_rotate_rotl: "\<lbrakk>0 < c; c < 32\<rbrakk> \<Longrightarrow> md5_rotate a c = word_rotl c a"
  using shifts_rotl[of c a] by (simp add: md5_rotate_def)

text \<open>The 64 operations as a table, and one operation as a let, the shape of the unrolled code.\<close>

definition rfc1321_ops ::
  "((word32 \<Rightarrow> word32 \<Rightarrow> word32 \<Rightarrow> word32) \<times> nat \<times> nat \<times> word32) list" where
  "rfc1321_ops =
    map (\<lambda>i. (rfc1321_aux i, rfc1321_word i, rfc1321_shift i, rfc1321_T ! i)) [0..<64]"

fun rfc1321_op :: "byte list \<Rightarrow> (word32 \<Rightarrow> word32 \<Rightarrow> word32 \<Rightarrow> word32) \<times> nat \<times> nat \<times> word32
    \<Rightarrow> word32 \<times> word32 \<times> word32 \<times> word32 \<Rightarrow> word32 \<times> word32 \<times> word32 \<times> word32" where
  "rfc1321_op data (f, k, s, t) (a, b, c, d) =
    (d, word_rotl s (a + f b c d + load_le32 data k + t) + b, b, c)"

lemma rfc1321_fold_ops:
  "fold (rfc1321_step data) [0..<64] r = fold (rfc1321_op data) rfc1321_ops r"
proof -
  have "rfc1321_op data (rfc1321_aux i, rfc1321_word i, rfc1321_shift i, rfc1321_T ! i) = rfc1321_step data i"
    for i by (rule ext) (auto split: prod.splits)
  then show ?thesis
    by (simp add: rfc1321_ops_def fold_map comp_def)
qed

lemma rfc1321_ops_table: "rfc1321_ops =
    [(rfc1321_F, 0, 7, 0xd76aa478), (rfc1321_F, 1, 12, 0xe8c7b756), (rfc1321_F, 2, 17, 0x242070db),
     (rfc1321_F, 3, 22, 0xc1bdceee), (rfc1321_F, 4, 7, 0xf57c0faf), (rfc1321_F, 5, 12, 0x4787c62a),
     (rfc1321_F, 6, 17, 0xa8304613), (rfc1321_F, 7, 22, 0xfd469501), (rfc1321_F, 8, 7, 0x698098d8),
     (rfc1321_F, 9, 12, 0x8b44f7af), (rfc1321_F, 10, 17, 0xffff5bb1), (rfc1321_F, 11, 22, 0x895cd7be),
     (rfc1321_F, 12, 7, 0x6b901122), (rfc1321_F, 13, 12, 0xfd987193), (rfc1321_F, 14, 17, 0xa679438e),
     (rfc1321_F, 15, 22, 0x49b40821), (rfc1321_G, 1, 5, 0xf61e2562), (rfc1321_G, 6, 9, 0xc040b340),
     (rfc1321_G, 11, 14, 0x265e5a51), (rfc1321_G, 0, 20, 0xe9b6c7aa), (rfc1321_G, 5, 5, 0xd62f105d),
     (rfc1321_G, 10, 9, 0x02441453), (rfc1321_G, 15, 14, 0xd8a1e681), (rfc1321_G, 4, 20, 0xe7d3fbc8),
     (rfc1321_G, 9, 5, 0x21e1cde6), (rfc1321_G, 14, 9, 0xc33707d6), (rfc1321_G, 3, 14, 0xf4d50d87),
     (rfc1321_G, 8, 20, 0x455a14ed), (rfc1321_G, 13, 5, 0xa9e3e905), (rfc1321_G, 2, 9, 0xfcefa3f8),
     (rfc1321_G, 7, 14, 0x676f02d9), (rfc1321_G, 12, 20, 0x8d2a4c8a), (rfc1321_H, 5, 4, 0xfffa3942),
     (rfc1321_H, 8, 11, 0x8771f681), (rfc1321_H, 11, 16, 0x6d9d6122), (rfc1321_H, 14, 23, 0xfde5380c),
     (rfc1321_H, 1, 4, 0xa4beea44), (rfc1321_H, 4, 11, 0x4bdecfa9), (rfc1321_H, 7, 16, 0xf6bb4b60),
     (rfc1321_H, 10, 23, 0xbebfbc70), (rfc1321_H, 13, 4, 0x289b7ec6), (rfc1321_H, 0, 11, 0xeaa127fa),
     (rfc1321_H, 3, 16, 0xd4ef3085), (rfc1321_H, 6, 23, 0x04881d05), (rfc1321_H, 9, 4, 0xd9d4d039),
     (rfc1321_H, 12, 11, 0xe6db99e5), (rfc1321_H, 15, 16, 0x1fa27cf8), (rfc1321_H, 2, 23, 0xc4ac5665),
     (rfc1321_I, 0, 6, 0xf4292244), (rfc1321_I, 7, 10, 0x432aff97), (rfc1321_I, 14, 15, 0xab9423a7),
     (rfc1321_I, 5, 21, 0xfc93a039), (rfc1321_I, 12, 6, 0x655b59c3), (rfc1321_I, 3, 10, 0x8f0ccc92),
     (rfc1321_I, 10, 15, 0xffeff47d), (rfc1321_I, 1, 21, 0x85845dd1), (rfc1321_I, 8, 6, 0x6fa87e4f),
     (rfc1321_I, 15, 10, 0xfe2ce6e0), (rfc1321_I, 6, 15, 0xa3014314), (rfc1321_I, 13, 21, 0x4e0811a1),
     (rfc1321_I, 4, 6, 0xf7537e82), (rfc1321_I, 11, 10, 0xbd3af235), (rfc1321_I, 2, 15, 0x2ad7d2bb),
     (rfc1321_I, 9, 21, 0xeb86d391)]"
  by (simp add: rfc1321_ops_def upt_rec[of _ 64] rfc1321_aux_def rfc1321_word_def rfc1321_shift_def
      rfc1321_T_def)

lemma rfc1321_op_Let:
  "(case fold (rfc1321_op data) ((f, k, s, t) # ops) (a, b, c, d) of (a, b, c, d) \<Rightarrow> g a b c d) =
    (let x = word_rotl s (a + f b c d + load_le32 data k + t) + b
     in case fold (rfc1321_op data) ops (d, x, b, c) of (a, b, c, d) \<Rightarrow> g a b c d)"
  by (simp add: Let_def)

lemma rfc1321_op_Nil:
  "(case fold (rfc1321_op data) [] (a, b, c, d) of (a, b, c, d) \<Rightarrow> g a b c d) = g a b c d"
  by simp

lemma md5_rotations:
  "md5_rotate a 4 = word_rotl 4 a"
  "md5_rotate a 5 = word_rotl 5 a"
  "md5_rotate a 6 = word_rotl 6 a"
  "md5_rotate a 7 = word_rotl 7 a"
  "md5_rotate a 9 = word_rotl 9 a"
  "md5_rotate a 10 = word_rotl 10 a"
  "md5_rotate a 11 = word_rotl 11 a"
  "md5_rotate a 12 = word_rotl 12 a"
  "md5_rotate a 14 = word_rotl 14 a"
  "md5_rotate a 15 = word_rotl 15 a"
  "md5_rotate a 16 = word_rotl 16 a"
  "md5_rotate a 17 = word_rotl 17 a"
  "md5_rotate a 20 = word_rotl 20 a"
  "md5_rotate a 21 = word_rotl 21 a"
  "md5_rotate a 22 = word_rotl 22 a"
  "md5_rotate a 23 = word_rotl 23 a"
  by (simp_all add: md5_rotate_rotl)

lemma md5_processBlock_rfc: "md5_processBlock h data = rfc1321_block h data"
  unfolding md5_processBlock_def rfc1321_block_def rfc1321_fold_ops rfc1321_ops_table
  by (simp only: rfc1321_op_Let rfc1321_op_Nil Let_load md5_mix md5_rotations)

section \<open>The class meets the contract\<close>

definition md5_digest :: "byte list \<Rightarrow> byte list" where
  "md5_digest = md_digest rfc1321_block md5_init le64_bytes md5_bytes"

interpretation md5_stream: padded_stream md5_processBlock md5_init le64_bytes md5_bytes
  by unfold_locales simp_all

lemma md5_digest_code: "md_digest md5_processBlock md5_init le64_bytes md5_bytes = md5_digest"
proof -
  have "md5_processBlock = rfc1321_block" by (intro ext) (rule md5_processBlock_rfc)
  then show ?thesis by (simp add: md5_digest_def)
qed

lemma md5_raw_code: "md5_getRaw = md_get_raw md5_processBlock le64_bytes md5_bytes"
  by (intro ext) (simp add: md5_getRaw_def md_get_raw_def md5_processBuffer_def)

lemma md5_hex_code: "md5_getHash = md_get_hex md5_processBlock le64_bytes md5_bytes"
  by (intro ext) (simp add: md5_getHash_def md_get_hex_def md5_raw_code)

text \<open>The hash value always has as many words as the initial one.\<close>

lemma length_md5_absorb: "length (absorb md5_processBlock 64 h msg) = length (if 64 \<le> length msg then md5_init else h)"
proof (induction "md5_processBlock" "64 :: nat" h msg rule: absorb.induct)
  case (1 h d)
  show ?case
  proof (cases "64 \<le> length d")
    case True
    have "length (md5_processBlock h (take 64 d)) = length md5_init"
      by (simp add: md5_processBlock_rfc rfc1321_block_def md5_init_def split: prod.split)
    then show ?thesis
      using 1 True by (subst absorb.simps) (simp split: if_splits)
  next
    case False
    then show ?thesis by (simp add: absorb_short)
  qed
qed

lemma length_md5_digest: "length (md5_digest msg) = 16"
proof -
  have "length (absorb md5_processBlock 64 md5_init (md_pad le64_bytes msg)) = 4"
    by (simp add: length_md5_absorb) (simp add: md5_init_def)
  then have "length (md5_bytes (absorb md5_processBlock 64 md5_init (md_pad le64_bytes msg))) = 16"
    by (auto simp: md5_bytes_def length_concat comp_def sum_list_triv)
  then show ?thesis
    by (simp add: md5_digest_code[symmetric] md_digest_def)
qed

interpretation md5_object: raw_hash_object
  "streamed md5_processBlock 64 64 md5_init" md5_add md5_getHash md5_reset
  "\<lambda>st. length (m_buffer st) = 64" "\<lambda>e. length e = 64" md5_digest md5_getRaw 64
proof unfold_locales
  fix st :: "word32 list hasher" assume "length (m_buffer st) = 64"
  then show "streamed md5_processBlock 64 64 md5_init (md5_reset st) []"
    using md5_stream.streamed_init[of "m_buffer st"] by (simp add: md5_reset_def streamed_def)
next
  fix st :: "word32 list hasher" and msg d
  assume st: "streamed md5_processBlock 64 64 md5_init st msg"
  show "\<exists>st'. md5_add st d = Some st' \<and> streamed md5_processBlock 64 64 md5_init st' (msg @ d)"
    unfolding md5_add_def by (rule md5_stream.add_streamed[OF st])
next
  fix st :: "word32 list hasher" and msg and e :: "byte list"
  assume st: "streamed md5_processBlock 64 64 md5_init st msg" and e: "length e = 64"
  show "\<exists>st'. md5_getHash e st = Some (hex_bytes (md5_digest msg), st')
      \<and> streamed md5_processBlock 64 64 md5_init st' msg"
    unfolding md5_hex_code md5_digest_code[symmetric] by (rule md5_stream.get_hex[OF st e])
  show "\<exists>st'. md5_getRaw e st = Some (md5_digest msg, st')
      \<and> streamed md5_processBlock 64 64 md5_init st' msg"
    unfolding md5_raw_code md5_digest_code[symmetric] by (rule md5_stream.get_raw[OF st e])
qed (simp_all add: streamed_def length_md5_digest)

end
