(* ===== verification/Sha1.thy ===== *)
theory Sha1
  imports Hash_Object
begin

text \<open>
  The class \<^verbatim>\<open>SHA1\<close> of \<^verbatim>\<open>src/crypto/detail/sha1.cpp\<close>, and FIPS 180-4 (one step repeated 80
  times over a recursively defined message schedule) as the reference its \<^verbatim>\<open>processBlock\<close> is
  shown equal to.
\<close>

section \<open>The code\<close>

definition sha1_f1 :: "word32 \<Rightarrow> word32 \<Rightarrow> word32 \<Rightarrow> word32" where
  "sha1_f1 b c d = d XOR (b AND (c XOR d))"

definition sha1_f2 :: "word32 \<Rightarrow> word32 \<Rightarrow> word32 \<Rightarrow> word32" where
  "sha1_f2 b c d = b XOR c XOR d"

definition sha1_f3 :: "word32 \<Rightarrow> word32 \<Rightarrow> word32 \<Rightarrow> word32" where
  "sha1_f3 b c d = (b AND c) OR (b AND d) OR (c AND d)"

definition sha1_rotate :: "word32 \<Rightarrow> nat \<Rightarrow> word32" where
  "sha1_rotate a c = push_bit c a OR drop_bit (32 - c) a"

definition sha1_init :: "word32 list" where
  "sha1_init = [0x67452301, 0xefcdab89, 0x98badcfe, 0x10325476, 0xc3d2e1f0]"

text \<open>The words are byte-swapped into a list of 16, which the second loop extends to 80.\<close>

definition sha1_words :: "byte list \<Rightarrow> word32 list" where
  "sha1_words data =
    fold (\<lambda>i w. w @ [sha1_rotate (w ! (i - 3) XOR w ! (i - 8) XOR w ! (i - 14) XOR w ! (i - 16)) 1])
      [16..<80] (map (\<lambda>i. swap32 (load_le32 data i)) [0..<16])"

text \<open>The body the four rounds share; they differ in the mixing function and the constant.\<close>

fun sha1_five :: "(word32 \<Rightarrow> word32 \<Rightarrow> word32 \<Rightarrow> word32) \<Rightarrow> word32 \<Rightarrow> word32 list \<Rightarrow> nat
    \<Rightarrow> word32 \<times> word32 \<times> word32 \<times> word32 \<times> word32
    \<Rightarrow> word32 \<times> word32 \<times> word32 \<times> word32 \<times> word32" where
  "sha1_five f k words i (a, b, c, d, e) =
    (let offset = 5 * i;
     e = e + (sha1_rotate a 5 + f b c d + words ! offset + k); b = sha1_rotate b 30;
     d = d + (sha1_rotate e 5 + f a b c + words ! (offset + 1) + k); a = sha1_rotate a 30;
     c = c + (sha1_rotate d 5 + f e a b + words ! (offset + 2) + k); e = sha1_rotate e 30;
     b = b + (sha1_rotate c 5 + f d e a + words ! (offset + 3) + k); d = sha1_rotate d 30;
     a = a + (sha1_rotate b 5 + f c d e + words ! (offset + 4) + k); c = sha1_rotate c 30
     in (a, b, c, d, e))"

definition sha1_processBlock :: "word32 list \<Rightarrow> byte list \<Rightarrow> word32 list" where
  "sha1_processBlock h data =
    (let words = sha1_words data;
         r0 = (h ! 0, h ! 1, h ! 2, h ! 3, h ! 4);
         r1 = fold (sha1_five sha1_f1 0x5a827999 words) [0..<4] r0;
         r2 = fold (sha1_five sha1_f2 0x6ed9eba1 words) [4..<8] r1;
         r3 = fold (sha1_five sha1_f3 0x8f1bbcdc words) [8..<12] r2;
         r4 = fold (sha1_five sha1_f2 0xca62c1d6 words) [12..<16] r3
     in case r4 of (a, b, c, d, e) \<Rightarrow> [h ! 0 + a, h ! 1 + b, h ! 2 + c, h ! 3 + d, h ! 4 + e])"

definition sha1_reset :: "word32 list hasher \<Rightarrow> word32 list hasher" where
  "sha1_reset st = st\<lparr>m_numBytes := 0, m_bufferSize := 0, m_hash := sha1_init\<rparr>"

definition sha1_add :: "word32 list hasher \<Rightarrow> byte list \<Rightarrow> word32 list hasher option" where
  "sha1_add st data = hash_add sha1_processBlock 64 st data"

definition sha1_processBuffer :: "byte list \<Rightarrow> word32 list hasher \<Rightarrow> word32 list hasher option" where
  "sha1_processBuffer extra st = md_process_buffer sha1_processBlock be64_bytes 64 extra st"

definition sha1_bytes :: "word32 list \<Rightarrow> byte list" where
  "sha1_bytes h = concat (map be32_bytes h)"

definition sha1_getRaw ::
  "byte list \<Rightarrow> word32 list hasher \<Rightarrow> (byte list \<times> word32 list hasher) option" where
  "sha1_getRaw extra st = do {
     st1 \<leftarrow> sha1_processBuffer extra st;
     Some (sha1_bytes (m_hash st1), st1\<lparr>m_hash := m_hash st\<rparr>) }"

definition sha1_getHash ::
  "byte list \<Rightarrow> word32 list hasher \<Rightarrow> (string \<times> word32 list hasher) option" where
  "sha1_getHash extra st = do {
     (raw, st1) \<leftarrow> sha1_getRaw extra st;
     Some (hex_bytes raw, st1) }"

definition sha1_call ::
  "byte list \<Rightarrow> word32 list hasher \<Rightarrow> byte list \<Rightarrow> (string \<times> word32 list hasher) option" where
  "sha1_call extra st data = do {
     st1 \<leftarrow> sha1_add (sha1_reset st) data;
     sha1_getHash extra st1 }"

section \<open>FIPS 180-4\<close>

definition fips_Ch :: "word32 \<Rightarrow> word32 \<Rightarrow> word32 \<Rightarrow> word32" where
  "fips_Ch x y z = (x AND y) XOR (NOT x AND z)"

definition fips_Maj :: "word32 \<Rightarrow> word32 \<Rightarrow> word32 \<Rightarrow> word32" where
  "fips_Maj x y z = (x AND y) XOR (x AND z) XOR (y AND z)"

definition fips_Parity :: "word32 \<Rightarrow> word32 \<Rightarrow> word32 \<Rightarrow> word32" where
  "fips_Parity x y z = x XOR y XOR z"

definition fips_f1 :: "nat \<Rightarrow> word32 \<Rightarrow> word32 \<Rightarrow> word32 \<Rightarrow> word32" where
  "fips_f1 t = (if t < 20 then fips_Ch else if t < 40 then fips_Parity
     else if t < 60 then fips_Maj else fips_Parity)"

definition fips_K1 :: "nat \<Rightarrow> word32" where
  "fips_K1 t = (if t < 20 then 0x5a827999 else if t < 40 then 0x6ed9eba1
     else if t < 60 then 0x8f1bbcdc else 0xca62c1d6)"

fun fips_W1 :: "byte list \<Rightarrow> nat \<Rightarrow> word32" where
  "fips_W1 data t = (if t < 16 then load_be32 data t
     else word_rotl 1 (fips_W1 data (t - 3) XOR fips_W1 data (t - 8)
       XOR fips_W1 data (t - 14) XOR fips_W1 data (t - 16)))"

declare fips_W1.simps [simp del]

fun fips_step1 :: "byte list \<Rightarrow> nat \<Rightarrow> word32 \<times> word32 \<times> word32 \<times> word32 \<times> word32
    \<Rightarrow> word32 \<times> word32 \<times> word32 \<times> word32 \<times> word32" where
  "fips_step1 data t (a, b, c, d, e) =
    (word_rotl 5 a + fips_f1 t b c d + e + fips_K1 t + fips_W1 data t, a, word_rotl 30 b, c, d)"

definition fips_block1 :: "word32 list \<Rightarrow> byte list \<Rightarrow> word32 list" where
  "fips_block1 h data =
    (case fold (fips_step1 data) [0..<80] (h ! 0, h ! 1, h ! 2, h ! 3, h ! 4) of
      (a, b, c, d, e) \<Rightarrow> [h ! 0 + a, h ! 1 + b, h ! 2 + c, h ! 3 + d, h ! 4 + e])"

section \<open>The code computes FIPS 180-4\<close>

lemma sha1_mix: "sha1_f1 = fips_Ch" "sha1_f2 = fips_Parity" "sha1_f3 = fips_Maj"
  unfolding fun_eq_iff sha1_f1_def sha1_f2_def sha1_f3_def fips_Ch_def fips_Maj_def fips_Parity_def
  by (auto intro!: bit_word_eqI simp: bit_simps)

lemma sha1_rotations:
  "sha1_rotate a 1 = word_rotl 1 a" "sha1_rotate a 5 = word_rotl 5 a" "sha1_rotate a 30 = word_rotl 30 a"
  using shifts_rotl[of 1 a] shifts_rotl[of 5 a] shifts_rotl[of 30 a] by (simp_all add: sha1_rotate_def)

lemma sha1_extend:
  "16 \<le> n \<Longrightarrow> fold (\<lambda>i w. w @ [sha1_rotate (w ! (i - 3) XOR w ! (i - 8) XOR w ! (i - 14) XOR w ! (i - 16)) 1])
      [16..<n] (map (\<lambda>i. swap32 (load_le32 data i)) [0..<16]) = map (fips_W1 data) [0..<n]"
proof (induction n rule: nat_induct_at_least)
  case base
  show ?case by (simp add: swap32_load fips_W1.simps cong: map_cong)
next
  case (Suc n)
  then show ?case
    by (simp add: sha1_rotations(1)[unfolded One_nat_def] fips_W1.simps[of data n])
qed

lemma sha1_words_W: "sha1_words data = map (fips_W1 data) [0..<80]"
  unfolding sha1_words_def by (rule sha1_extend) simp

lemma sha1_five_steps:
  assumes "5 * i + 4 < 80"
    and f: "\<And>t. \<lbrakk>5 * i \<le> t; t \<le> 5 * i + 4\<rbrakk> \<Longrightarrow> fips_f1 t = f \<and> fips_K1 t = k"
  shows "sha1_five f k (map (fips_W1 data) [0..<80]) i = fold (fips_step1 data) [5 * i..<5 * Suc i]"
proof (rule ext, clarify)
  fix a b c d e :: word32
  have l: "[5 * i..<5 * Suc i] = [5 * i, 5 * i + 1, 5 * i + 2, 5 * i + 3, 5 * i + 4]"
    by (simp add: upt_rec)
  have w: "map (fips_W1 data) [0..<80] ! (5 * i) = fips_W1 data (5 * i)"
     "map (fips_W1 data) [0..<80] ! (5 * i + 1) = fips_W1 data (5 * i + 1)"
     "map (fips_W1 data) [0..<80] ! (5 * i + 2) = fips_W1 data (5 * i + 2)"
     "map (fips_W1 data) [0..<80] ! (5 * i + 3) = fips_W1 data (5 * i + 3)"
     "map (fips_W1 data) [0..<80] ! (5 * i + 4) = fips_W1 data (5 * i + 4)"
    using assms(1) by (simp_all del: upt_rec_numeral)
  have fk: "fips_f1 (5 * i) = f" "fips_f1 (5 * i + 1) = f" "fips_f1 (5 * i + 2) = f"
     "fips_f1 (5 * i + 3) = f" "fips_f1 (5 * i + 4) = f" "fips_K1 (5 * i) = k" "fips_K1 (5 * i + 1) = k"
     "fips_K1 (5 * i + 2) = k" "fips_K1 (5 * i + 3) = k" "fips_K1 (5 * i + 4) = k"
    using f by simp_all
  have sum: "r + g + x + k' + v = x + (r + g + v + k')" for r g x k' v :: word32
    by (simp add: ac_simps)
  show "sha1_five f k (map (fips_W1 data) [0..<80]) i (a, b, c, d, e)
    = fold (fips_step1 data) [5 * i..<5 * Suc i] (a, b, c, d, e)"
    unfolding l by (simp only: sha1_five.simps Let_def fold_simps fips_step1.simps w fk sum sha1_rotations)
qed

lemma fold_fives:
  assumes "m \<le> n" "\<And>i. \<lbrakk>m \<le> i; i < n\<rbrakk> \<Longrightarrow> g i = fold s [5 * i..<5 * Suc i]"
    and "M = 5 * m" "N = 5 * n"
  shows "fold g [m..<n] = fold s [M..<N]"
proof -
  have "fold g [m..<n] = fold s [5 * m..<5 * n]"
    using assms(1,2)
  proof (induction n rule: nat_induct_at_least)
    case (Suc n)
    have "[5 * m..<5 * Suc n] = [5 * m..<5 * n] @ [5 * n..<5 * Suc n]"
      using Suc.hyps upt_add_eq_append[of "5 * m" "5 * n" 5] by (simp add: add.commute)
    moreover have "[m..<Suc n] = [m..<n] @ [n]"
      using Suc.hyps by (rule upt_Suc_append)
    ultimately show ?case
      using Suc by (simp only: fold_append fold_simps comp_apply)
  qed simp
  then show ?thesis
    using assms(3,4) by simp
qed

lemma sha1_rounds:
  "fold (sha1_five fips_Ch 0x5a827999 (sha1_words data)) [0..<4] = fold (fips_step1 data) [0..<20]"
  "fold (sha1_five fips_Parity 0x6ed9eba1 (sha1_words data)) [4..<8] = fold (fips_step1 data) [20..<40]"
  "fold (sha1_five fips_Maj 0x8f1bbcdc (sha1_words data)) [8..<12] = fold (fips_step1 data) [40..<60]"
  "fold (sha1_five fips_Parity 0xca62c1d6 (sha1_words data)) [12..<16] = fold (fips_step1 data) [60..<80]"
  by (rule fold_fives; (rule sha1_five_steps[of _ _ _ data, folded sha1_words_W])?;
      simp add: fips_f1_def fips_K1_def)+

lemma sha1_processBlock_fips: "sha1_processBlock h data = fips_block1 h data"
proof -
  have "[0..<80] = [0..<20] @ [20..<40] @ [40..<60] @ [60..<80]"
    using upt_add_eq_append[of 0 20 60] upt_add_eq_append[of 20 40 40] upt_add_eq_append[of 40 60 20] by simp
  then show ?thesis
    by (simp only: sha1_processBlock_def fips_block1_def Let_def sha1_mix sha1_rounds fold_append comp_apply)
qed

section \<open>The class meets the contract\<close>

definition sha1_digest :: "byte list \<Rightarrow> byte list" where
  "sha1_digest = md_digest fips_block1 sha1_init be64_bytes sha1_bytes"

interpretation sha1_stream: padded_stream sha1_processBlock sha1_init be64_bytes sha1_bytes
  by unfold_locales simp_all

lemma sha1_digest_code: "md_digest sha1_processBlock sha1_init be64_bytes sha1_bytes = sha1_digest"
proof -
  have "sha1_processBlock = fips_block1" by (intro ext) (rule sha1_processBlock_fips)
  then show ?thesis by (simp add: sha1_digest_def)
qed

lemma sha1_raw_code: "sha1_getRaw = md_get_raw sha1_processBlock be64_bytes sha1_bytes"
  by (intro ext) (simp add: sha1_getRaw_def md_get_raw_def sha1_processBuffer_def)

lemma sha1_hex_code: "sha1_getHash = md_get_hex sha1_processBlock be64_bytes sha1_bytes"
  by (intro ext) (simp add: sha1_getHash_def md_get_hex_def sha1_raw_code)

text \<open>The hash value always has as many words as the initial one.\<close>

lemma length_sha1_absorb: "length (absorb sha1_processBlock 64 h msg) = length (if 64 \<le> length msg then sha1_init else h)"
proof (induction "sha1_processBlock" "64 :: nat" h msg rule: absorb.induct)
  case (1 h d)
  show ?case
  proof (cases "64 \<le> length d")
    case True
    have "length (sha1_processBlock h (take 64 d)) = length sha1_init"
      by (simp add: sha1_processBlock_fips fips_block1_def sha1_init_def split: prod.split)
    then show ?thesis
      using 1 True by (subst absorb.simps) (simp split: if_splits)
  next
    case False
    then show ?thesis by (simp add: absorb_short)
  qed
qed

lemma length_sha1_digest: "length (sha1_digest msg) = 20"
proof -
  have "length (absorb sha1_processBlock 64 sha1_init (md_pad be64_bytes msg)) = 5"
    by (simp add: length_sha1_absorb) (simp add: sha1_init_def)
  then have "length (sha1_bytes (absorb sha1_processBlock 64 sha1_init (md_pad be64_bytes msg))) = 20"
    by (auto simp: sha1_bytes_def length_concat comp_def sum_list_triv)
  then show ?thesis
    by (simp add: sha1_digest_code[symmetric] md_digest_def)
qed

interpretation sha1_object: raw_hash_object
  "streamed sha1_processBlock 64 64 sha1_init" sha1_add sha1_getHash sha1_reset
  "\<lambda>st. length (m_buffer st) = 64" "\<lambda>e. length e = 64" sha1_digest sha1_getRaw 64
proof unfold_locales
  fix st :: "word32 list hasher" assume "length (m_buffer st) = 64"
  then show "streamed sha1_processBlock 64 64 sha1_init (sha1_reset st) []"
    using sha1_stream.streamed_init[of "m_buffer st"] by (simp add: sha1_reset_def streamed_def)
next
  fix st :: "word32 list hasher" and msg d
  assume st: "streamed sha1_processBlock 64 64 sha1_init st msg"
  show "\<exists>st'. sha1_add st d = Some st' \<and> streamed sha1_processBlock 64 64 sha1_init st' (msg @ d)"
    unfolding sha1_add_def by (rule sha1_stream.add_streamed[OF st])
next
  fix st :: "word32 list hasher" and msg and e :: "byte list"
  assume st: "streamed sha1_processBlock 64 64 sha1_init st msg" and e: "length e = 64"
  show "\<exists>st'. sha1_getHash e st = Some (hex_bytes (sha1_digest msg), st')
      \<and> streamed sha1_processBlock 64 64 sha1_init st' msg"
    unfolding sha1_hex_code sha1_digest_code[symmetric] by (rule sha1_stream.get_hex[OF st e])
  show "\<exists>st'. sha1_getRaw e st = Some (sha1_digest msg, st')
      \<and> streamed sha1_processBlock 64 64 sha1_init st' msg"
    unfolding sha1_raw_code sha1_digest_code[symmetric] by (rule sha1_stream.get_raw[OF st e])
qed (simp_all add: streamed_def length_sha1_digest)

end
