(* ===== verification/Sha256.thy ===== *)
theory Sha256
  imports Sha1
begin

text \<open>
  The class \<^verbatim>\<open>SHA256\<close> of \<^verbatim>\<open>src/crypto/detail/sha256.cpp\<close> (without the SHA-224 seed option, which
  the build leaves undefined), and the FIPS 180-4 function its unrolled \<^verbatim>\<open>processBlock\<close> is shown
  equal to.
\<close>

section \<open>The code\<close>

definition sha256_rotate :: "word32 \<Rightarrow> nat \<Rightarrow> word32" where
  "sha256_rotate a c = drop_bit c a OR push_bit (32 - c) a"

definition sha256_f1 :: "word32 \<Rightarrow> word32 \<Rightarrow> word32 \<Rightarrow> word32" where
  "sha256_f1 e f g =
    (let term1 = sha256_rotate e 6 XOR sha256_rotate e 11 XOR sha256_rotate e 25;
         term2 = (e AND f) XOR (NOT e AND g)
     in term1 + term2)"

definition sha256_f2 :: "word32 \<Rightarrow> word32 \<Rightarrow> word32 \<Rightarrow> word32" where
  "sha256_f2 a b c =
    (let term1 = sha256_rotate a 2 XOR sha256_rotate a 13 XOR sha256_rotate a 22;
         term2 = ((a OR b) AND c) OR (a AND b)
     in term1 + term2)"

definition sha256_init :: "word32 list" where
  "sha256_init = [0x6a09e667, 0xbb67ae85, 0x3c6ef372, 0xa54ff53a,
     0x510e527f, 0x9b05688c, 0x1f83d9ab, 0x5be0cd19]"

definition sha256_extend :: "word32 list \<Rightarrow> nat \<Rightarrow> nat \<Rightarrow> word32 list" where
  "sha256_extend words m n =
    fold (\<lambda>i w. w @ [w ! (i - 16)
        + (sha256_rotate (w ! (i - 15)) 7 XOR sha256_rotate (w ! (i - 15)) 18 XOR drop_bit 3 (w ! (i - 15)))
        + w ! (i - 7)
        + (sha256_rotate (w ! (i - 2)) 17 XOR sha256_rotate (w ! (i - 2)) 19 XOR drop_bit 10 (w ! (i - 2)))])
      [m..<n] words"

definition sha256_processBlock :: "word32 list \<Rightarrow> byte list \<Rightarrow> word32 list" where
  "sha256_processBlock hash data =
    (let a = hash ! 0; b = hash ! 1; c = hash ! 2; d = hash ! 3;
     e = hash ! 4; f = hash ! 5; g = hash ! 6; h = hash ! 7;
     words = map (\<lambda>i. swap32 (load_le32 data i)) [0..<16];
     x = h + sha256_f1 e f g + 0x428a2f98 + words ! 0; y = sha256_f2 a b c; d = d + x; h = x + y;
     x = g + sha256_f1 d e f + 0x71374491 + words ! 1; y = sha256_f2 h a b; c = c + x; g = x + y;
     x = f + sha256_f1 c d e + 0xb5c0fbcf + words ! 2; y = sha256_f2 g h a; b = b + x; f = x + y;
     x = e + sha256_f1 b c d + 0xe9b5dba5 + words ! 3; y = sha256_f2 f g h; a = a + x; e = x + y;
     x = d + sha256_f1 a b c + 0x3956c25b + words ! 4; y = sha256_f2 e f g; h = h + x; d = x + y;
     x = c + sha256_f1 h a b + 0x59f111f1 + words ! 5; y = sha256_f2 d e f; g = g + x; c = x + y;
     x = b + sha256_f1 g h a + 0x923f82a4 + words ! 6; y = sha256_f2 c d e; f = f + x; b = x + y;
     x = a + sha256_f1 f g h + 0xab1c5ed5 + words ! 7; y = sha256_f2 b c d; e = e + x; a = x + y;
     x = h + sha256_f1 e f g + 0xd807aa98 + words ! 8; y = sha256_f2 a b c; d = d + x; h = x + y;
     x = g + sha256_f1 d e f + 0x12835b01 + words ! 9; y = sha256_f2 h a b; c = c + x; g = x + y;
     x = f + sha256_f1 c d e + 0x243185be + words ! 10; y = sha256_f2 g h a; b = b + x; f = x + y;
     x = e + sha256_f1 b c d + 0x550c7dc3 + words ! 11; y = sha256_f2 f g h; a = a + x; e = x + y;
     x = d + sha256_f1 a b c + 0x72be5d74 + words ! 12; y = sha256_f2 e f g; h = h + x; d = x + y;
     x = c + sha256_f1 h a b + 0x80deb1fe + words ! 13; y = sha256_f2 d e f; g = g + x; c = x + y;
     x = b + sha256_f1 g h a + 0x9bdc06a7 + words ! 14; y = sha256_f2 c d e; f = f + x; b = x + y;
     x = a + sha256_f1 f g h + 0xc19bf174 + words ! 15; y = sha256_f2 b c d; e = e + x; a = x + y;
     words = sha256_extend words 16 24;
     x = h + sha256_f1 e f g + 0xe49b69c1 + words ! 16; y = sha256_f2 a b c; d = d + x; h = x + y;
     x = g + sha256_f1 d e f + 0xefbe4786 + words ! 17; y = sha256_f2 h a b; c = c + x; g = x + y;
     x = f + sha256_f1 c d e + 0x0fc19dc6 + words ! 18; y = sha256_f2 g h a; b = b + x; f = x + y;
     x = e + sha256_f1 b c d + 0x240ca1cc + words ! 19; y = sha256_f2 f g h; a = a + x; e = x + y;
     x = d + sha256_f1 a b c + 0x2de92c6f + words ! 20; y = sha256_f2 e f g; h = h + x; d = x + y;
     x = c + sha256_f1 h a b + 0x4a7484aa + words ! 21; y = sha256_f2 d e f; g = g + x; c = x + y;
     x = b + sha256_f1 g h a + 0x5cb0a9dc + words ! 22; y = sha256_f2 c d e; f = f + x; b = x + y;
     x = a + sha256_f1 f g h + 0x76f988da + words ! 23; y = sha256_f2 b c d; e = e + x; a = x + y;
     words = sha256_extend words 24 32;
     x = h + sha256_f1 e f g + 0x983e5152 + words ! 24; y = sha256_f2 a b c; d = d + x; h = x + y;
     x = g + sha256_f1 d e f + 0xa831c66d + words ! 25; y = sha256_f2 h a b; c = c + x; g = x + y;
     x = f + sha256_f1 c d e + 0xb00327c8 + words ! 26; y = sha256_f2 g h a; b = b + x; f = x + y;
     x = e + sha256_f1 b c d + 0xbf597fc7 + words ! 27; y = sha256_f2 f g h; a = a + x; e = x + y;
     x = d + sha256_f1 a b c + 0xc6e00bf3 + words ! 28; y = sha256_f2 e f g; h = h + x; d = x + y;
     x = c + sha256_f1 h a b + 0xd5a79147 + words ! 29; y = sha256_f2 d e f; g = g + x; c = x + y;
     x = b + sha256_f1 g h a + 0x06ca6351 + words ! 30; y = sha256_f2 c d e; f = f + x; b = x + y;
     x = a + sha256_f1 f g h + 0x14292967 + words ! 31; y = sha256_f2 b c d; e = e + x; a = x + y;
     words = sha256_extend words 32 40;
     x = h + sha256_f1 e f g + 0x27b70a85 + words ! 32; y = sha256_f2 a b c; d = d + x; h = x + y;
     x = g + sha256_f1 d e f + 0x2e1b2138 + words ! 33; y = sha256_f2 h a b; c = c + x; g = x + y;
     x = f + sha256_f1 c d e + 0x4d2c6dfc + words ! 34; y = sha256_f2 g h a; b = b + x; f = x + y;
     x = e + sha256_f1 b c d + 0x53380d13 + words ! 35; y = sha256_f2 f g h; a = a + x; e = x + y;
     x = d + sha256_f1 a b c + 0x650a7354 + words ! 36; y = sha256_f2 e f g; h = h + x; d = x + y;
     x = c + sha256_f1 h a b + 0x766a0abb + words ! 37; y = sha256_f2 d e f; g = g + x; c = x + y;
     x = b + sha256_f1 g h a + 0x81c2c92e + words ! 38; y = sha256_f2 c d e; f = f + x; b = x + y;
     x = a + sha256_f1 f g h + 0x92722c85 + words ! 39; y = sha256_f2 b c d; e = e + x; a = x + y;
     words = sha256_extend words 40 48;
     x = h + sha256_f1 e f g + 0xa2bfe8a1 + words ! 40; y = sha256_f2 a b c; d = d + x; h = x + y;
     x = g + sha256_f1 d e f + 0xa81a664b + words ! 41; y = sha256_f2 h a b; c = c + x; g = x + y;
     x = f + sha256_f1 c d e + 0xc24b8b70 + words ! 42; y = sha256_f2 g h a; b = b + x; f = x + y;
     x = e + sha256_f1 b c d + 0xc76c51a3 + words ! 43; y = sha256_f2 f g h; a = a + x; e = x + y;
     x = d + sha256_f1 a b c + 0xd192e819 + words ! 44; y = sha256_f2 e f g; h = h + x; d = x + y;
     x = c + sha256_f1 h a b + 0xd6990624 + words ! 45; y = sha256_f2 d e f; g = g + x; c = x + y;
     x = b + sha256_f1 g h a + 0xf40e3585 + words ! 46; y = sha256_f2 c d e; f = f + x; b = x + y;
     x = a + sha256_f1 f g h + 0x106aa070 + words ! 47; y = sha256_f2 b c d; e = e + x; a = x + y;
     words = sha256_extend words 48 56;
     x = h + sha256_f1 e f g + 0x19a4c116 + words ! 48; y = sha256_f2 a b c; d = d + x; h = x + y;
     x = g + sha256_f1 d e f + 0x1e376c08 + words ! 49; y = sha256_f2 h a b; c = c + x; g = x + y;
     x = f + sha256_f1 c d e + 0x2748774c + words ! 50; y = sha256_f2 g h a; b = b + x; f = x + y;
     x = e + sha256_f1 b c d + 0x34b0bcb5 + words ! 51; y = sha256_f2 f g h; a = a + x; e = x + y;
     x = d + sha256_f1 a b c + 0x391c0cb3 + words ! 52; y = sha256_f2 e f g; h = h + x; d = x + y;
     x = c + sha256_f1 h a b + 0x4ed8aa4a + words ! 53; y = sha256_f2 d e f; g = g + x; c = x + y;
     x = b + sha256_f1 g h a + 0x5b9cca4f + words ! 54; y = sha256_f2 c d e; f = f + x; b = x + y;
     x = a + sha256_f1 f g h + 0x682e6ff3 + words ! 55; y = sha256_f2 b c d; e = e + x; a = x + y;
     words = sha256_extend words 56 64;
     x = h + sha256_f1 e f g + 0x748f82ee + words ! 56; y = sha256_f2 a b c; d = d + x; h = x + y;
     x = g + sha256_f1 d e f + 0x78a5636f + words ! 57; y = sha256_f2 h a b; c = c + x; g = x + y;
     x = f + sha256_f1 c d e + 0x84c87814 + words ! 58; y = sha256_f2 g h a; b = b + x; f = x + y;
     x = e + sha256_f1 b c d + 0x8cc70208 + words ! 59; y = sha256_f2 f g h; a = a + x; e = x + y;
     x = d + sha256_f1 a b c + 0x90befffa + words ! 60; y = sha256_f2 e f g; h = h + x; d = x + y;
     x = c + sha256_f1 h a b + 0xa4506ceb + words ! 61; y = sha256_f2 d e f; g = g + x; c = x + y;
     x = b + sha256_f1 g h a + 0xbef9a3f7 + words ! 62; y = sha256_f2 c d e; f = f + x; b = x + y;
     x = a + sha256_f1 f g h + 0xc67178f2 + words ! 63; y = sha256_f2 b c d; e = e + x; a = x + y
     in [hash ! 0 + a, hash ! 1 + b, hash ! 2 + c, hash ! 3 + d,
         hash ! 4 + e, hash ! 5 + f, hash ! 6 + g, hash ! 7 + h])"

definition sha256_reset :: "word32 list hasher \<Rightarrow> word32 list hasher" where
  "sha256_reset st = st\<lparr>m_numBytes := 0, m_bufferSize := 0, m_hash := sha256_init\<rparr>"

definition sha256_add :: "word32 list hasher \<Rightarrow> byte list \<Rightarrow> word32 list hasher option" where
  "sha256_add st data = hash_add sha256_processBlock 64 st data"

definition sha256_processBuffer :: "byte list \<Rightarrow> word32 list hasher \<Rightarrow> word32 list hasher option" where
  "sha256_processBuffer extra st = md_process_buffer sha256_processBlock be64_bytes 64 extra st"

definition sha256_bytes :: "word32 list \<Rightarrow> byte list" where
  "sha256_bytes h = concat (map be32_bytes h)"

definition sha256_getRaw ::
  "byte list \<Rightarrow> word32 list hasher \<Rightarrow> (byte list \<times> word32 list hasher) option" where
  "sha256_getRaw extra st = do {
     st1 \<leftarrow> sha256_processBuffer extra st;
     Some (sha256_bytes (m_hash st1), st1\<lparr>m_hash := m_hash st\<rparr>) }"

definition sha256_getHash ::
  "byte list \<Rightarrow> word32 list hasher \<Rightarrow> (string \<times> word32 list hasher) option" where
  "sha256_getHash extra st = do {
     (raw, st1) \<leftarrow> sha256_getRaw extra st;
     Some (hex_bytes raw, st1) }"

definition sha256_call ::
  "byte list \<Rightarrow> word32 list hasher \<Rightarrow> byte list \<Rightarrow> (string \<times> word32 list hasher) option" where
  "sha256_call extra st data = do {
     st1 \<leftarrow> sha256_add (sha256_reset st) data;
     sha256_getHash extra st1 }"

section \<open>FIPS 180-4\<close>

definition fips_Sigma0 :: "word32 \<Rightarrow> word32" where
  "fips_Sigma0 x = word_rotr 2 x XOR word_rotr 13 x XOR word_rotr 22 x"

definition fips_Sigma1 :: "word32 \<Rightarrow> word32" where
  "fips_Sigma1 x = word_rotr 6 x XOR word_rotr 11 x XOR word_rotr 25 x"

definition fips_sigma0 :: "word32 \<Rightarrow> word32" where
  "fips_sigma0 x = word_rotr 7 x XOR word_rotr 18 x XOR drop_bit 3 x"

definition fips_sigma1 :: "word32 \<Rightarrow> word32" where
  "fips_sigma1 x = word_rotr 17 x XOR word_rotr 19 x XOR drop_bit 10 x"

definition fips_K256 :: "word32 list" where
  "fips_K256 = concat [
     [0x428a2f98, 0x71374491, 0xb5c0fbcf, 0xe9b5dba5, 0x3956c25b, 0x59f111f1, 0x923f82a4, 0xab1c5ed5],
     [0xd807aa98, 0x12835b01, 0x243185be, 0x550c7dc3, 0x72be5d74, 0x80deb1fe, 0x9bdc06a7, 0xc19bf174],
     [0xe49b69c1, 0xefbe4786, 0x0fc19dc6, 0x240ca1cc, 0x2de92c6f, 0x4a7484aa, 0x5cb0a9dc, 0x76f988da],
     [0x983e5152, 0xa831c66d, 0xb00327c8, 0xbf597fc7, 0xc6e00bf3, 0xd5a79147, 0x06ca6351, 0x14292967],
     [0x27b70a85, 0x2e1b2138, 0x4d2c6dfc, 0x53380d13, 0x650a7354, 0x766a0abb, 0x81c2c92e, 0x92722c85],
     [0xa2bfe8a1, 0xa81a664b, 0xc24b8b70, 0xc76c51a3, 0xd192e819, 0xd6990624, 0xf40e3585, 0x106aa070],
     [0x19a4c116, 0x1e376c08, 0x2748774c, 0x34b0bcb5, 0x391c0cb3, 0x4ed8aa4a, 0x5b9cca4f, 0x682e6ff3],
     [0x748f82ee, 0x78a5636f, 0x84c87814, 0x8cc70208, 0x90befffa, 0xa4506ceb, 0xbef9a3f7, 0xc67178f2]]"

fun fips_W256 :: "byte list \<Rightarrow> nat \<Rightarrow> word32" where
  "fips_W256 data t = (if t < 16 then load_be32 data t
     else fips_sigma1 (fips_W256 data (t - 2)) + fips_W256 data (t - 7)
       + fips_sigma0 (fips_W256 data (t - 15)) + fips_W256 data (t - 16))"

declare fips_W256.simps [simp del]

type_synonym regs256 = "word32 \<times> word32 \<times> word32 \<times> word32 \<times> word32 \<times> word32 \<times> word32 \<times> word32"

fun fips_step256 :: "byte list \<Rightarrow> nat \<Rightarrow> regs256 \<Rightarrow> regs256" where
  "fips_step256 data t (a, b, c, d, e, f, g, h) =
    (let T1 = h + fips_Sigma1 e + fips_Ch e f g + fips_K256 ! t + fips_W256 data t;
         T2 = fips_Sigma0 a + fips_Maj a b c
     in (T1 + T2, a, b, c, d + T1, e, f, g))"

definition fips_block256 :: "word32 list \<Rightarrow> byte list \<Rightarrow> word32 list" where
  "fips_block256 h data =
    (case fold (fips_step256 data) [0..<64]
        (h ! 0, h ! 1, h ! 2, h ! 3, h ! 4, h ! 5, h ! 6, h ! 7) of
      (a, b, c, d, e, f, g, k) \<Rightarrow> [h ! 0 + a, h ! 1 + b, h ! 2 + c, h ! 3 + d,
         h ! 4 + e, h ! 5 + f, h ! 6 + g, h ! 7 + k])"

section \<open>The code computes FIPS 180-4\<close>

lemma sha256_rotate_rotr: "\<lbrakk>0 < c; c < 32\<rbrakk> \<Longrightarrow> sha256_rotate a c = word_rotr c a"
  using shifts_rotr[of c a] by (simp add: sha256_rotate_def)

lemma sha256_maj: "((a OR b) AND c) OR (a AND b) = fips_Maj a b c"
  by (rule bit_word_eqI) (auto simp: fips_Maj_def bit_simps)

lemma sha256_mix:
  "sha256_f1 e f g = fips_Sigma1 e + fips_Ch e f g" "sha256_f2 a b c = fips_Sigma0 a + fips_Maj a b c"
  by (simp_all add: sha256_f1_def sha256_f2_def sha256_rotate_rotr sha256_maj fips_Sigma0_def
      fips_Sigma1_def fips_Ch_def)

lemma sha256_extend_W:
  assumes "16 \<le> m" "m \<le> n"
  shows "sha256_extend (map (fips_W256 data) [0..<m]) m n = map (fips_W256 data) [0..<n]"
  using assms(2)
proof (induction n rule: nat_induct_at_least)
  case base
  show ?case by (simp add: sha256_extend_def)
next
  case (Suc n)
  have "sha256_extend (map (fips_W256 data) [0..<m]) m (Suc n)
    = map (fips_W256 data) [0..<n] @ [fips_W256 data n]"
    using Suc assms(1)
    by (simp add: sha256_extend_def sha256_rotate_rotr fips_W256.simps[of data n] fips_sigma0_def
        fips_sigma1_def ac_simps)
  then show ?case by simp
qed

lemma sha256_load_W: "map (\<lambda>i. swap32 (load_le32 data i)) [0..<16] = map (fips_W256 data) [0..<16]"
  by (rule map_cong) (simp_all add: swap32_load fips_W256.simps)

lemmas sha256_extends = sha256_extend_W[of 16 24, simplified] sha256_extend_W[of 24 32, simplified]
  sha256_extend_W[of 32 40, simplified] sha256_extend_W[of 40 48, simplified]
  sha256_extend_W[of 48 56, simplified] sha256_extend_W[of 56 64, simplified]

lemma sha256_nth_W: "i < n \<Longrightarrow> map (fips_W256 data) [0..<n] ! i = fips_W256 data i"
  by simp

lemma Let_words: "(let w = map (fips_W256 data) [0..<n] in g w) = g (map (fips_W256 data) [0..<n])"
  by (simp only: Let_def)

definition fips_ops256 :: "(word32 \<times> nat) list" where
  "fips_ops256 = map (\<lambda>t. (fips_K256 ! t, t)) [0..<64]"

fun fips_op256 :: "byte list \<Rightarrow> word32 \<times> nat \<Rightarrow> regs256 \<Rightarrow> regs256" where
  "fips_op256 data (k, t) (a, b, c, d, e, f, g, h) =
    (let T1 = h + (fips_Sigma1 e + fips_Ch e f g) + k + fips_W256 data t;
         T2 = fips_Sigma0 a + fips_Maj a b c
     in (T1 + T2, a, b, c, d + T1, e, f, g))"

lemma fips_fold_ops256:
  "fold (fips_step256 data) [0..<64] r = fold (fips_op256 data) fips_ops256 r"
proof -
  have "fips_op256 data (fips_K256 ! t, t) = fips_step256 data t" for t
    by (rule ext) (auto simp: add.assoc Let_def split: prod.splits)
  then show ?thesis
    by (simp add: fips_ops256_def fold_map comp_def)
qed

lemma fips_ops256_table: "fips_ops256 =
    [(0x428a2f98, 0), (0x71374491, 1), (0xb5c0fbcf, 2), (0xe9b5dba5, 3),
     (0x3956c25b, 4), (0x59f111f1, 5), (0x923f82a4, 6), (0xab1c5ed5, 7),
     (0xd807aa98, 8), (0x12835b01, 9), (0x243185be, 10), (0x550c7dc3, 11),
     (0x72be5d74, 12), (0x80deb1fe, 13), (0x9bdc06a7, 14), (0xc19bf174, 15),
     (0xe49b69c1, 16), (0xefbe4786, 17), (0x0fc19dc6, 18), (0x240ca1cc, 19),
     (0x2de92c6f, 20), (0x4a7484aa, 21), (0x5cb0a9dc, 22), (0x76f988da, 23),
     (0x983e5152, 24), (0xa831c66d, 25), (0xb00327c8, 26), (0xbf597fc7, 27),
     (0xc6e00bf3, 28), (0xd5a79147, 29), (0x06ca6351, 30), (0x14292967, 31),
     (0x27b70a85, 32), (0x2e1b2138, 33), (0x4d2c6dfc, 34), (0x53380d13, 35),
     (0x650a7354, 36), (0x766a0abb, 37), (0x81c2c92e, 38), (0x92722c85, 39),
     (0xa2bfe8a1, 40), (0xa81a664b, 41), (0xc24b8b70, 42), (0xc76c51a3, 43),
     (0xd192e819, 44), (0xd6990624, 45), (0xf40e3585, 46), (0x106aa070, 47),
     (0x19a4c116, 48), (0x1e376c08, 49), (0x2748774c, 50), (0x34b0bcb5, 51),
     (0x391c0cb3, 52), (0x4ed8aa4a, 53), (0x5b9cca4f, 54), (0x682e6ff3, 55),
     (0x748f82ee, 56), (0x78a5636f, 57), (0x84c87814, 58), (0x8cc70208, 59),
     (0x90befffa, 60), (0xa4506ceb, 61), (0xbef9a3f7, 62), (0xc67178f2, 63)]"
  by (simp add: fips_ops256_def upt_rec[of _ 64] fips_K256_def)

lemma fips_op256_Let:
  "(case fold (fips_op256 data) ((k, t) # ops) (a, b, c, d, e, f, g, h) of
      (a, b, c, d, e, f, g, h) \<Rightarrow> F a b c d e f g h) =
    (let x = h + (fips_Sigma1 e + fips_Ch e f g) + k + fips_W256 data t;
         y = fips_Sigma0 a + fips_Maj a b c; d' = d + x; h' = x + y
     in case fold (fips_op256 data) ops (h', a, b, c, d', e, f, g) of
      (a, b, c, d, e, f, g, h) \<Rightarrow> F a b c d e f g h)"
  by (simp add: Let_def)

lemma fips_op256_Nil:
  "(case fold (fips_op256 data) [] (a, b, c, d, e, f, g, h) of
      (a, b, c, d, e, f, g, h) \<Rightarrow> F a b c d e f g h) = F a b c d e f g h"
  by simp

lemma sha256_processBlock_fips: "sha256_processBlock h data = fips_block256 h data"
  unfolding sha256_processBlock_def fips_block256_def fips_fold_ops256 fips_ops256_table
  by (simp only: fips_op256_Let fips_op256_Nil sha256_load_W sha256_extends Let_words Let_load
      sha256_nth_W sha256_mix rel_simps if_True)

section \<open>The class meets the contract\<close>

definition sha256_digest :: "byte list \<Rightarrow> byte list" where
  "sha256_digest = md_digest fips_block256 sha256_init be64_bytes sha256_bytes"

interpretation sha256_stream: padded_stream sha256_processBlock sha256_init be64_bytes sha256_bytes
  by unfold_locales simp_all

lemma sha256_digest_code: "md_digest sha256_processBlock sha256_init be64_bytes sha256_bytes = sha256_digest"
proof -
  have "sha256_processBlock = fips_block256" by (intro ext) (rule sha256_processBlock_fips)
  then show ?thesis by (simp add: sha256_digest_def)
qed

lemma sha256_raw_code: "sha256_getRaw = md_get_raw sha256_processBlock be64_bytes sha256_bytes"
  by (intro ext) (simp add: sha256_getRaw_def md_get_raw_def sha256_processBuffer_def)

lemma sha256_hex_code: "sha256_getHash = md_get_hex sha256_processBlock be64_bytes sha256_bytes"
  by (intro ext) (simp add: sha256_getHash_def md_get_hex_def sha256_raw_code)

text \<open>The hash value always has as many words as the initial one.\<close>

lemma length_sha256_absorb: "length (absorb sha256_processBlock 64 h msg) = length (if 64 \<le> length msg then sha256_init else h)"
proof (induction "sha256_processBlock" "64 :: nat" h msg rule: absorb.induct)
  case (1 h d)
  show ?case
  proof (cases "64 \<le> length d")
    case True
    have "length (sha256_processBlock h (take 64 d)) = length sha256_init"
      by (simp add: sha256_processBlock_fips fips_block256_def sha256_init_def split: prod.split)
    then show ?thesis
      using 1 True by (subst absorb.simps) (simp split: if_splits)
  next
    case False
    then show ?thesis by (simp add: absorb_short)
  qed
qed

lemma length_sha256_digest: "length (sha256_digest msg) = 32"
proof -
  have "length (absorb sha256_processBlock 64 sha256_init (md_pad be64_bytes msg)) = 8"
    by (simp add: length_sha256_absorb) (simp add: sha256_init_def)
  then have "length (sha256_bytes (absorb sha256_processBlock 64 sha256_init (md_pad be64_bytes msg))) = 32"
    by (auto simp: sha256_bytes_def length_concat comp_def sum_list_triv)
  then show ?thesis
    by (simp add: sha256_digest_code[symmetric] md_digest_def)
qed

interpretation sha256_object: raw_hash_object
  "streamed sha256_processBlock 64 64 sha256_init" sha256_add sha256_getHash sha256_reset
  "\<lambda>st. length (m_buffer st) = 64" "\<lambda>e. length e = 64" sha256_digest sha256_getRaw 64
proof unfold_locales
  fix st :: "word32 list hasher" assume "length (m_buffer st) = 64"
  then show "streamed sha256_processBlock 64 64 sha256_init (sha256_reset st) []"
    using sha256_stream.streamed_init[of "m_buffer st"] by (simp add: sha256_reset_def streamed_def)
next
  fix st :: "word32 list hasher" and msg d
  assume st: "streamed sha256_processBlock 64 64 sha256_init st msg"
  show "\<exists>st'. sha256_add st d = Some st' \<and> streamed sha256_processBlock 64 64 sha256_init st' (msg @ d)"
    unfolding sha256_add_def by (rule sha256_stream.add_streamed[OF st])
next
  fix st :: "word32 list hasher" and msg and e :: "byte list"
  assume st: "streamed sha256_processBlock 64 64 sha256_init st msg" and e: "length e = 64"
  show "\<exists>st'. sha256_getHash e st = Some (hex_bytes (sha256_digest msg), st')
      \<and> streamed sha256_processBlock 64 64 sha256_init st' msg"
    unfolding sha256_hex_code sha256_digest_code[symmetric] by (rule sha256_stream.get_hex[OF st e])
  show "\<exists>st'. sha256_getRaw e st = Some (sha256_digest msg, st')
      \<and> streamed sha256_processBlock 64 64 sha256_init st' msg"
    unfolding sha256_raw_code sha256_digest_code[symmetric] by (rule sha256_stream.get_raw[OF st e])
qed (simp_all add: streamed_def length_sha256_digest)

end
