(* ===== verification/Keccak.thy ===== *)
theory Keccak
  imports Hash_Object
begin

text \<open>
  The classes \<^verbatim>\<open>Keccak\<close> and \<^verbatim>\<open>SHA3\<close> of \<^verbatim>\<open>src/crypto/detail\<close> (\<^verbatim>\<open>keccak.cpp\<close>,
  \<^verbatim>\<open>sha3.cpp\<close>), which share the permutation and differ in the padding byte; and the FIPS 202
  step mappings on the five by five state, which the in-place code is shown equal to. The state is
  a list of 25 words, lane (x, y) at index 5 y + x.
\<close>

section \<open>The permutation\<close>

datatype keccak_bits = Keccak224 | Keccak256 | Keccak384 | Keccak512

fun bits_val :: "keccak_bits \<Rightarrow> nat" where
  "bits_val Keccak224 = 224"
| "bits_val Keccak256 = 256"
| "bits_val Keccak384 = 384"
| "bits_val Keccak512 = 512"

definition keccak_blockSize :: "keccak_bits \<Rightarrow> nat" where
  "keccak_blockSize bits = 200 - 2 * (bits_val bits div 8)"

definition keccak_XorMasks :: "word64 list" where
  "keccak_XorMasks = [
   0x0000000000000001, 0x0000000000008082, 0x800000000000808a,
   0x8000000080008000, 0x000000000000808b, 0x0000000080000001,
   0x8000000080008081, 0x8000000000008009, 0x000000000000008a,
   0x0000000000000088, 0x0000000080008009, 0x000000008000000a,
   0x000000008000808b, 0x800000000000008b, 0x8000000000008089,
   0x8000000000008003, 0x8000000000008002, 0x8000000000000080,
   0x000000000000800a, 0x800000008000000a, 0x8000000080008081,
   0x8000000000008080, 0x0000000080000001, 0x8000000080008008]"

definition keccak_rotateLeft :: "word64 \<Rightarrow> nat \<Rightarrow> word64" where
  "keccak_rotateLeft x n = push_bit n x OR drop_bit (64 - n) x"

definition keccak_mod5 :: "nat \<Rightarrow> nat" where
  "keccak_mod5 x = (if x < 5 then x else x - 5)"

definition keccak_theta :: "word64 list \<Rightarrow> word64 list" where
  "keccak_theta h =
    (let coefficients = map (\<lambda>i. h ! i XOR h ! (i + 5) XOR h ! (i + 10) XOR h ! (i + 15) XOR h ! (i + 20)) [0, 1, 2, 3, 4]
     in fold (\<lambda>i h.
        let one = coefficients ! keccak_mod5 (i + 4) XOR keccak_rotateLeft (coefficients ! keccak_mod5 (i + 1)) 1;
            h = h[i := h ! i XOR one];
            h = h[i + 5 := h ! (i + 5) XOR one];
            h = h[i + 10 := h ! (i + 10) XOR one];
            h = h[i + 15 := h ! (i + 15) XOR one]
        in h[i + 20 := h ! (i + 20) XOR one]) [0, 1, 2, 3, 4] h)"

definition keccak_rho_pi :: "word64 list \<Rightarrow> word64 list" where
  "keccak_rho_pi h =
    (let last = h ! 1;
     one = h ! 10; h = h[10 := keccak_rotateLeft last 1]; last = one;
     one = h ! 7; h = h[7 := keccak_rotateLeft last 3]; last = one;
     one = h ! 11; h = h[11 := keccak_rotateLeft last 6]; last = one;
     one = h ! 17; h = h[17 := keccak_rotateLeft last 10]; last = one;
     one = h ! 18; h = h[18 := keccak_rotateLeft last 15]; last = one;
     one = h ! 3; h = h[3 := keccak_rotateLeft last 21]; last = one;
     one = h ! 5; h = h[5 := keccak_rotateLeft last 28]; last = one;
     one = h ! 16; h = h[16 := keccak_rotateLeft last 36]; last = one;
     one = h ! 8; h = h[8 := keccak_rotateLeft last 45]; last = one;
     one = h ! 21; h = h[21 := keccak_rotateLeft last 55]; last = one;
     one = h ! 24; h = h[24 := keccak_rotateLeft last 2]; last = one;
     one = h ! 4; h = h[4 := keccak_rotateLeft last 14]; last = one;
     one = h ! 15; h = h[15 := keccak_rotateLeft last 27]; last = one;
     one = h ! 23; h = h[23 := keccak_rotateLeft last 41]; last = one;
     one = h ! 19; h = h[19 := keccak_rotateLeft last 56]; last = one;
     one = h ! 13; h = h[13 := keccak_rotateLeft last 8]; last = one;
     one = h ! 12; h = h[12 := keccak_rotateLeft last 25]; last = one;
     one = h ! 2; h = h[2 := keccak_rotateLeft last 43]; last = one;
     one = h ! 20; h = h[20 := keccak_rotateLeft last 62]; last = one;
     one = h ! 14; h = h[14 := keccak_rotateLeft last 18]; last = one;
     one = h ! 22; h = h[22 := keccak_rotateLeft last 39]; last = one;
     one = h ! 9; h = h[9 := keccak_rotateLeft last 61]; last = one;
     one = h ! 6; h = h[6 := keccak_rotateLeft last 20]; last = one
     in h[1 := keccak_rotateLeft last 44])"

definition keccak_chi :: "word64 list \<Rightarrow> word64 list" where
  "keccak_chi h = fold (\<lambda>j h.
     let one = h ! j; two = h ! (j + 1);
         h = h[j := h ! j XOR (h ! (j + 2) AND NOT two)];
         h = h[j + 1 := h ! (j + 1) XOR (h ! (j + 3) AND NOT (h ! (j + 2)))];
         h = h[j + 2 := h ! (j + 2) XOR (h ! (j + 4) AND NOT (h ! (j + 3)))];
         h = h[j + 3 := h ! (j + 3) XOR (one AND NOT (h ! (j + 4)))]
     in h[j + 4 := h ! (j + 4) XOR (two AND NOT one)]) [0, 5, 10, 15, 20] h"

definition keccak_round :: "nat \<Rightarrow> word64 list \<Rightarrow> word64 list" where
  "keccak_round r h =
    (let h = keccak_chi (keccak_rho_pi (keccak_theta h)) in h[0 := h ! 0 XOR keccak_XorMasks ! r])"

definition keccak_processBlock :: "keccak_bits \<Rightarrow> word64 list \<Rightarrow> byte list \<Rightarrow> word64 list" where
  "keccak_processBlock bits h data =
    fold keccak_round [0..<24]
      (fold (\<lambda>i h. h[i := h ! i XOR load_le64 data i]) [0..<keccak_blockSize bits div 8] h)"

section \<open>The classes\<close>

definition keccak_reset :: "word64 list hasher \<Rightarrow> word64 list hasher" where
  "keccak_reset st = st\<lparr>m_hash := replicate 25 0, m_numBytes := 0, m_bufferSize := 0\<rparr>"

definition keccak_add ::
  "keccak_bits \<Rightarrow> word64 list hasher \<Rightarrow> byte list \<Rightarrow> word64 list hasher option" where
  "keccak_add bits st data = hash_add (keccak_processBlock bits) (keccak_blockSize bits) st data"

text \<open>\<^verbatim>\<open>sha3.cpp\<close> repeats these functions of \<^verbatim>\<open>keccak.cpp\<close> statement by statement.\<close>

definition sha3_processBlock :: "keccak_bits \<Rightarrow> word64 list \<Rightarrow> byte list \<Rightarrow> word64 list" where
  "sha3_processBlock bits h data = keccak_processBlock bits h data"

definition sha3_reset :: "word64 list hasher \<Rightarrow> word64 list hasher" where
  "sha3_reset st = st\<lparr>m_hash := replicate 25 0, m_numBytes := 0, m_bufferSize := 0\<rparr>"

definition sha3_add ::
  "keccak_bits \<Rightarrow> word64 list hasher \<Rightarrow> byte list \<Rightarrow> word64 list hasher option" where
  "sha3_add bits st data = hash_add (sha3_processBlock bits) (keccak_blockSize bits) st data"

definition keccak_processBuffer ::
  "keccak_bits \<Rightarrow> word64 list hasher \<Rightarrow> word64 list hasher option" where
  "keccak_processBuffer bits st = do {
     let blockSize = 200 - 2 * (bits_val bits div 8);
     b \<leftarrow> poke (m_buffer st) (m_bufferSize st) 1;
     b \<leftarrow> zero_fill b (m_bufferSize st + 1) blockSize;
     b \<leftarrow> poke b (blockSize - 1) (b ! (blockSize - 1) OR 0x80);
     Some (st\<lparr>m_buffer := b, m_hash := keccak_processBlock bits (m_hash st) (take blockSize b)\<rparr>) }"

definition sha3_processBuffer ::
  "keccak_bits \<Rightarrow> word64 list hasher \<Rightarrow> word64 list hasher option" where
  "sha3_processBuffer bits st = do {
     let blockSize = keccak_blockSize bits;
     b \<leftarrow> poke (m_buffer st) (m_bufferSize st) 0x06;
     b \<leftarrow> zero_fill b (m_bufferSize st + 1) blockSize;
     let offset = max (m_bufferSize st + 1) blockSize;
     b \<leftarrow> poke b (offset - 1) (b ! (offset - 1) OR 0x80);
     Some (st\<lparr>m_buffer := b, m_hash := sha3_processBlock bits (m_hash st) (take blockSize b)\<rparr>) }"

definition keccak_hex_byte :: "byte \<Rightarrow> string" where
  "keccak_hex_byte oneByte = [dec2hex ! unat (drop_bit 4 oneByte), dec2hex ! unat (oneByte AND 15)]"

text \<open>The bytes of the last, partly used element.\<close>

function keccak_hex_rest :: "word64 \<Rightarrow> nat \<Rightarrow> nat \<Rightarrow> string" where
  "keccak_hex_rest w processed remainder =
    (if processed < remainder
     then keccak_hex_byte (ucast (drop_bit processed w)) @ keccak_hex_rest w (processed + 8) remainder
     else [])"
  by pat_completeness auto
termination by (relation "measure (\<lambda>(_, p, r). r - p)") auto

declare keccak_hex_rest.simps [simp del]

definition keccak_hex :: "keccak_bits \<Rightarrow> word64 list \<Rightarrow> string" where
  "keccak_hex bits h =
    (let hashLength = bits_val bits div 64; remainder = bits_val bits - hashLength * 64
     in concat (map (\<lambda>i. concat (map (\<lambda>j. keccak_hex_byte (ucast (drop_bit (8 * j) (h ! i)))) [0..<8]))
          [0..<hashLength])
        @ keccak_hex_rest (h ! hashLength) 0 remainder)"

definition keccak_getHash ::
  "keccak_bits \<Rightarrow> word64 list hasher \<Rightarrow> (string \<times> word64 list hasher) option" where
  "keccak_getHash bits st = do {
     st1 \<leftarrow> keccak_processBuffer bits st;
     Some (keccak_hex bits (m_hash st1), st1\<lparr>m_hash := m_hash st\<rparr>) }"

definition sha3_getHash ::
  "keccak_bits \<Rightarrow> word64 list hasher \<Rightarrow> (string \<times> word64 list hasher) option" where
  "sha3_getHash bits st = do {
     st1 \<leftarrow> sha3_processBuffer bits st;
     Some (keccak_hex bits (m_hash st1), st1\<lparr>m_hash := m_hash st\<rparr>) }"

definition keccak_call ::
  "keccak_bits \<Rightarrow> word64 list hasher \<Rightarrow> byte list \<Rightarrow> (string \<times> word64 list hasher) option" where
  "keccak_call bits st data = do {
     st1 \<leftarrow> keccak_add bits (keccak_reset st) data;
     keccak_getHash bits st1 }"

definition sha3_call ::
  "keccak_bits \<Rightarrow> word64 list hasher \<Rightarrow> byte list \<Rightarrow> (string \<times> word64 list hasher) option" where
  "sha3_call bits st data = do {
     st1 \<leftarrow> sha3_add bits (sha3_reset st) data;
     sha3_getHash bits st1 }"

section \<open>FIPS 202\<close>

text \<open>Lane (x, y), coordinates modulo five, and a state given by its lanes.\<close>

definition lane :: "word64 list \<Rightarrow> nat \<Rightarrow> nat \<Rightarrow> word64" where
  "lane A x y = A ! (5 * (y mod 5) + x mod 5)"

definition lanes :: "(nat \<Rightarrow> nat \<Rightarrow> word64) \<Rightarrow> word64 list" where
  "lanes f = map (\<lambda>i. f (i mod 5) (i div 5)) [0..<25]"

definition fips202_C :: "word64 list \<Rightarrow> nat \<Rightarrow> word64" where
  "fips202_C A x = lane A x 0 XOR lane A x 1 XOR lane A x 2 XOR lane A x 3 XOR lane A x 4"

definition fips202_theta :: "word64 list \<Rightarrow> word64 list" where
  "fips202_theta A = lanes (\<lambda>x y. lane A x y XOR (fips202_C A (x + 4) XOR word_rotl 1 (fips202_C A (x + 1))))"

text \<open>The walk of the rho step: offset number t belongs to the lane reached after t moves.\<close>

definition rho_walk :: "nat \<Rightarrow> nat \<times> nat" where
  "rho_walk t = ((\<lambda>(x, y). (y, (2 * x + 3 * y) mod 5)) ^^ t) (1, 0)"

definition rho_offset :: "nat \<Rightarrow> nat \<Rightarrow> nat" where
  "rho_offset x y = (case find (\<lambda>t. rho_walk t = (x, y)) [0..<24] of
     None \<Rightarrow> 0 | Some t \<Rightarrow> ((t + 1) * (t + 2) div 2) mod 64)"

definition fips202_rho :: "word64 list \<Rightarrow> word64 list" where
  "fips202_rho A = lanes (\<lambda>x y. word_rotl (rho_offset x y) (lane A x y))"

definition fips202_pi :: "word64 list \<Rightarrow> word64 list" where
  "fips202_pi A = lanes (\<lambda>x y. lane A (x + 3 * y) x)"

definition fips202_chi :: "word64 list \<Rightarrow> word64 list" where
  "fips202_chi A = lanes (\<lambda>x y. lane A x y XOR (NOT (lane A (x + 1) y) AND lane A (x + 2) y))"

text \<open>
  The round constants are the output of a shift register of eight bits with the feedback taps of
  FIPS 202; bit t of the sequence fills bit \<^verbatim>\<open>2 ^ j - 1\<close> of constant r at \<^verbatim>\<open>t = j + 7 r\<close>.
\<close>

fun rc_state :: "nat \<Rightarrow> bool list" where
  "rc_state 0 = [True, False, False, False, False, False, False, False]"
| "rc_state (Suc t) = (case rc_state t of [r0, r1, r2, r3, r4, r5, r6, r7] \<Rightarrow>
     [r7, r0, r1, r2, r3 \<noteq> r7, r4 \<noteq> r7, r5 \<noteq> r7, r6] | _ \<Rightarrow> [])"

definition fips202_RC :: "nat \<Rightarrow> word64" where
  "fips202_RC r = fold (\<lambda>j w. if hd (rc_state (j + 7 * r)) then w OR push_bit (2 ^ j - 1) 1 else w) [0..<7] 0"

definition fips202_round :: "nat \<Rightarrow> word64 list \<Rightarrow> word64 list" where
  "fips202_round r A =
    (let A = fips202_chi (fips202_pi (fips202_rho (fips202_theta A))) in A[0 := lane A 0 0 XOR fips202_RC r])"

definition fips202_block :: "keccak_bits \<Rightarrow> word64 list \<Rightarrow> byte list \<Rightarrow> word64 list" where
  "fips202_block bits A data =
    fold fips202_round [0..<24]
      (map (\<lambda>i. if 8 * i < keccak_blockSize bits then A ! i XOR load_le64 data i else A ! i) [0..<25])"

section \<open>The code computes FIPS 202\<close>

lemma upt25: "[0..<25] = [0, 1, 2, 3, 4, 5, 6, 7, 8, 9, 10, 11, 12, 13,
    14, 15, 16, 17, 18, 19, 20, 21, 22, 23, 24]"
  by code_simp

lemma list25:
  assumes "length h = 25"
  obtains a0 a1 a2 a3 a4 a5 a6 a7 a8 a9 a10 a11 a12 a13 a14 a15 a16 a17 a18 a19 a20 a21 a22 a23 a24
  where "h = [a0, a1, a2, a3, a4, a5, a6, a7, a8, a9, a10, a11, a12, a13, a14, a15, a16, a17, a18,
    a19, a20, a21, a22, a23, a24]"
proof -
  have "h = map ((!) h) [0..<25]"
    using assms map_nth[of h] by simp
  also have "\<dots> = [h!0, h!1, h!2, h!3, h!4, h!5, h!6, h!7, h!8, h!9, h!10, h!11, h!12, h!13, h!14, h!15,
    h!16, h!17, h!18, h!19, h!20, h!21, h!22, h!23, h!24]"
    unfolding upt25 by simp
  finally show ?thesis by (rule that)
qed

lemma lanes_list: "lanes f = [f 0 0, f 1 0, f 2 0, f 3 0, f 4 0, f 0 1, f 1 1, f 2 1, f 3 1, f 4 1,
    f 0 2, f 1 2, f 2 2, f 3 2, f 4 2, f 0 3, f 1 3, f 2 3, f 3 3, f 4 3, f 0 4, f 1 4, f 2 4, f 3 4, f 4 4]"
  unfolding lanes_def upt25 by simp

lemma length_lanes [simp]: "length (lanes f) = 25"
  by (simp add: lanes_def)

lemma keccak_rotateLeft_rotl: "\<lbrakk>0 < n; n < 64\<rbrakk> \<Longrightarrow> keccak_rotateLeft x n = word_rotl n x"
  using shifts_rotl[of n x] by (simp add: keccak_rotateLeft_def)

lemma theta_fips202:
  assumes "length h = 25" shows "keccak_theta h = fips202_theta h"
proof -
  obtain a0 a1 a2 a3 a4 a5 a6 a7 a8 a9 a10 a11 a12 a13 a14 a15 a16 a17 a18 a19 a20 a21 a22 a23 a24
    where h: "h = [a0, a1, a2, a3, a4, a5, a6, a7, a8, a9, a10, a11, a12, a13, a14, a15, a16, a17, a18,
      a19, a20, a21, a22, a23, a24]"
    using assms by (rule list25)
  show ?thesis
    unfolding h fips202_theta_def lanes_list
    by (simp add: keccak_theta_def Let_def keccak_mod5_def keccak_rotateLeft_rotl fips202_C_def lane_def)
qed

lemma rho_offsets:
  "rho_offset 0 0 = 0" "rho_offset 1 0 = 1" "rho_offset 2 0 = 62" "rho_offset 3 0 = 28" "rho_offset 4 0 = 27"
  "rho_offset 0 1 = 36" "rho_offset 1 1 = 44" "rho_offset 2 1 = 6" "rho_offset 3 1 = 55" "rho_offset 4 1 = 20"
  "rho_offset 0 2 = 3" "rho_offset 1 2 = 10" "rho_offset 2 2 = 43" "rho_offset 3 2 = 25" "rho_offset 4 2 = 39"
  "rho_offset 0 3 = 41" "rho_offset 1 3 = 45" "rho_offset 2 3 = 15" "rho_offset 3 3 = 21" "rho_offset 4 3 = 8"
  "rho_offset 0 4 = 18" "rho_offset 1 4 = 2" "rho_offset 2 4 = 61" "rho_offset 3 4 = 56" "rho_offset 4 4 = 14"
  by code_simp+

lemma word_rotl_none: "word_rotl 0 w = w"
  by (rule bit_word_eqI) (simp add: bit_simps)

lemma rho_pi_fips202:
  assumes "length h = 25" shows "keccak_rho_pi h = fips202_pi (fips202_rho h)"
proof -
  obtain a0 a1 a2 a3 a4 a5 a6 a7 a8 a9 a10 a11 a12 a13 a14 a15 a16 a17 a18 a19 a20 a21 a22 a23 a24
    where h: "h = [a0, a1, a2, a3, a4, a5, a6, a7, a8, a9, a10, a11, a12, a13, a14, a15, a16, a17, a18,
      a19, a20, a21, a22, a23, a24]"
    using assms by (rule list25)
  show ?thesis
    unfolding h fips202_pi_def fips202_rho_def lanes_list
    by (simp add: keccak_rho_pi_def Let_def keccak_rotateLeft_rotl lane_def word_rotl_none rho_offsets rho_offsets[unfolded One_nat_def])
qed

lemma chi_fips202:
  assumes "length h = 25" shows "keccak_chi h = fips202_chi h"
proof -
  obtain a0 a1 a2 a3 a4 a5 a6 a7 a8 a9 a10 a11 a12 a13 a14 a15 a16 a17 a18 a19 a20 a21 a22 a23 a24
    where h: "h = [a0, a1, a2, a3, a4, a5, a6, a7, a8, a9, a10, a11, a12, a13, a14, a15, a16, a17, a18,
      a19, a20, a21, a22, a23, a24]"
    using assms by (rule list25)
  show ?thesis
    unfolding h fips202_chi_def lanes_list
    by (simp add: keccak_chi_def Let_def lane_def and.commute)
qed

lemma rc_table: "map fips202_RC [0..<24] = keccak_XorMasks"
  by code_simp

lemma rc_mask: "r < 24 \<Longrightarrow> keccak_XorMasks ! r = fips202_RC r"
  unfolding rc_table[symmetric] by (simp del: upt_rec_numeral)

lemma length_fips202 [simp]:
  "length (fips202_theta A) = 25" "length (fips202_rho A) = 25" "length (fips202_pi A) = 25"
  "length (fips202_chi A) = 25" "length (fips202_round r A) = 25"
  by (simp_all add: fips202_theta_def fips202_rho_def fips202_pi_def fips202_chi_def fips202_round_def Let_def)

lemma round_fips202:
  "\<lbrakk>length h = 25; r < 24\<rbrakk> \<Longrightarrow> keccak_round r h = fips202_round r h"
  by (simp add: keccak_round_def fips202_round_def Let_def theta_fips202 rho_pi_fips202 chi_fips202
      rc_mask lane_def)

lemma rounds_fips202:
  "\<lbrakk>length h = 25; n \<le> 24\<rbrakk> \<Longrightarrow> fold keccak_round [0..<n] h = fold fips202_round [0..<n] h
    \<and> length (fold fips202_round [0..<n] h) = 25"
  by (induction n) (simp_all add: round_fips202)

lemma mix_in:
  assumes "n \<le> length h"
  shows "fold (\<lambda>i h. h[i := h ! i XOR load_le64 data i]) [0..<n] h
    = map (\<lambda>i. if i < n then h ! i XOR load_le64 data i else h ! i) [0..<length h]"
  using assms
proof (induction n)
  case 0
  show ?case by (simp add: map_nth)
next
  case (Suc n)
  then show ?case
    by (intro nth_equalityI) (auto simp: nth_list_update)
qed

lemma blockSize_words: "8 * i < keccak_blockSize bits \<longleftrightarrow> i < keccak_blockSize bits div 8"
  by (cases bits) (auto simp: keccak_blockSize_def)

lemma keccak_processBlock_fips202:
  assumes "length h = 25" shows "keccak_processBlock bits h data = fips202_block bits h data"
proof -
  have "keccak_blockSize bits div 8 \<le> length h"
    using assms by (cases bits) (simp_all add: keccak_blockSize_def)
  then show ?thesis
    unfolding keccak_processBlock_def fips202_block_def blockSize_words
    by (simp only: mix_in assms) (simp only: rounds_fips202[of _ 24] length_map length_upt order_refl)
qed

lemma length_fips202_block: "length A = 25 \<Longrightarrow> length (fips202_block bits A data) = 25"
  unfolding fips202_block_def by (simp add: rounds_fips202 del: upt_rec_numeral)

section \<open>Padding and output\<close>

text \<open>The padded message: the suffix byte, zeros, and the last bit of the last byte.\<close>

definition sponge_pad :: "byte \<Rightarrow> nat \<Rightarrow> byte list \<Rightarrow> byte list" where
  "sponge_pad suffix bs msg =
    (let q = bs - length msg mod bs
     in if q = 1 then msg @ [suffix OR 0x80] else msg @ [suffix] @ replicate (q - 2) 0 @ [0x80])"

definition sponge_digest ::
  "(word64 list \<Rightarrow> byte list \<Rightarrow> word64 list) \<Rightarrow> byte \<Rightarrow> keccak_bits \<Rightarrow> byte list \<Rightarrow> byte list" where
  "sponge_digest process suffix bits msg =
    take (bits_val bits div 8) (concat (map le64_bytes
      (absorb process (keccak_blockSize bits) (replicate 25 0)
        (sponge_pad suffix (keccak_blockSize bits) msg))))"

lemma keccak_blockSize_bounds: "1 < keccak_blockSize bits" "keccak_blockSize bits \<le> 144"
  by (cases bits; simp add: keccak_blockSize_def)+

interpretation keccak_stream: block_stream "keccak_processBlock bits" "keccak_blockSize bits" 144 "replicate 25 0"
  for bits
  using keccak_blockSize_bounds[of bits] by unfold_locales simp_all

lemma sponge_last_block:
  assumes "r < bs" "1 < bs" "bs \<le> length b" "sb AND 0x80 = 0"
  shows "do { b \<leftarrow> poke b r sb; b \<leftarrow> zero_fill b (r + 1) bs; poke b (bs - 1) (b ! (bs - 1) OR 0x80) }
    = Some (take r b @ (if bs - r = 1 then [sb OR 0x80] else [sb] @ replicate (bs - r - 2) 0 @ [0x80])
        @ drop bs b)"
proof -
  have t: "take (Suc r) (b[r := sb]) = take r b @ [sb]"
    using assms by (simp add: take_Suc_conv_app_nth)
  have z: "zero_fill (b[r := sb]) (r + 1) bs = Some (take r b @ [sb] @ replicate (bs - (r + 1)) 0 @ drop bs b)"
    using assms t by (simp add: zero_fill_eq)
  show ?thesis
  proof (cases "bs = r + 1")
    case True
    then show ?thesis
      using assms z by (simp add: poke_def nth_append list_update_append)
  next
    case False
    then obtain m where m: "bs = r + 2 + m"
      using assms le_Suc_ex[of "r + 2" bs] by (auto simp: algebra_simps)
    have "replicate (bs - (r + 1)) (0 :: byte) = replicate m 0 @ [0]"
      using m by (simp flip: replicate_append_same)
    then show ?thesis
      using assms z m by (simp add: poke_def nth_append list_update_append)
  qed
qed

lemma sponge_absorb:
  assumes st: "streamed (keccak_processBlock bits) (keccak_blockSize bits) 144 (replicate 25 0) st msg"
    and sb: "sb AND 0x80 = 0"
  shows "\<exists>b. do { b \<leftarrow> poke (m_buffer st) (m_bufferSize st) sb;
       b \<leftarrow> zero_fill b (m_bufferSize st + 1) (keccak_blockSize bits);
       poke b (keccak_blockSize bits - 1) (b ! (keccak_blockSize bits - 1) OR 0x80) } = Some b
    \<and> length b = 144 \<and> take (m_bufferSize st) b = take (m_bufferSize st) (m_buffer st)
    \<and> keccak_processBlock bits (m_hash st) (take (keccak_blockSize bits) b)
      = absorb (keccak_processBlock bits) (keccak_blockSize bits) (replicate 25 0)
          (sponge_pad sb (keccak_blockSize bits) msg)"
proof -
  let ?bs = "keccak_blockSize bits" and ?P = "keccak_processBlock bits"
  let ?r = "length msg mod ?bs" and ?p = "partial ?bs msg"
  define last where "last = (if ?bs - ?r = 1 then [sb OR 0x80] else [sb] @ replicate (?bs - ?r - 2) 0 @ [0x80])"
  note bounds = keccak_blockSize_bounds[of bits]
  obtain c where c: "msg = c @ ?p" "?bs dvd length c"
    using split_message[of msg ?bs] by metis
  have r: "?r < ?bs" using bounds by simp
  have f: "length (m_buffer st) = 144" "m_bufferSize st = ?r" "take ?r (m_buffer st) = ?p"
      "m_hash st = absorb ?P ?bs (replicate 25 0) c"
    using st absorb_append[OF c(2), of ?P "replicate 25 0" ?p] c(1) r
    by (simp_all add: streamed_def) (metis absorb_short length_partial)
  have len: "length (?p @ last) = ?bs"
  proof (cases "?bs - ?r = 1")
    case True
    then show ?thesis using r by (simp add: last_def)
  next
    case False
    then have "?r + 2 \<le> ?bs" using r by linarith
    then show ?thesis using False by (simp add: last_def del: One_nat_def)
  qed
  have "sponge_pad sb ?bs msg = msg @ last"
    by (simp add: sponge_pad_def Let_def last_def)
  then have pad: "sponge_pad sb ?bs msg = c @ (?p @ last)"
    using c(1) by (metis append.assoc)
  have one: "absorb ?P ?bs h (?p @ last) = ?P h (?p @ last)" for h
    using absorb_block[OF _ len, of ?P h "[]"] bounds by (simp add: absorb_short)
  have A: "do { b \<leftarrow> poke (m_buffer st) ?r sb; b \<leftarrow> zero_fill b (?r + 1) ?bs;
       poke b (?bs - 1) (b ! (?bs - 1) OR 0x80) } = Some ((?p @ last) @ drop ?bs (m_buffer st))"
    using sponge_last_block[OF r bounds(1) _ sb, of "m_buffer st"] f(1,3) bounds(2)
    unfolding last_def by simp
  have B: "take ?bs ((?p @ last) @ drop ?bs (m_buffer st)) = ?p @ last"
    using len by simp
  have C: "?P (m_hash st) (?p @ last) = absorb ?P ?bs (replicate 25 0) (sponge_pad sb ?bs msg)"
    unfolding pad absorb_append[OF c(2)] one f(4) ..
  have D: "length ((?p @ last) @ drop ?bs (m_buffer st)) = 144"
    using len f(1) bounds(2) by simp
  have E: "take ?r ((?p @ last) @ drop ?bs (m_buffer st)) = take ?r (m_buffer st)"
    using f(3) by simp
  have "?P (m_hash st) (take ?bs ((?p @ last) @ drop ?bs (m_buffer st)))
      = absorb ?P ?bs (replicate 25 0) (sponge_pad sb ?bs msg)"
    unfolding B by (rule C)
  then show ?thesis
    unfolding f(2) using A D E by blast
qed

lemma processBuffer_sponge:
  assumes st: "streamed (keccak_processBlock bits) (keccak_blockSize bits) 144 (replicate 25 0) st msg"
  shows "\<exists>b. keccak_processBuffer bits st = Some (st\<lparr>m_buffer := b, m_hash :=
        absorb (keccak_processBlock bits) (keccak_blockSize bits) (replicate 25 0)
          (sponge_pad 1 (keccak_blockSize bits) msg)\<rparr>)
      \<and> length b = 144 \<and> take (m_bufferSize st) b = take (m_bufferSize st) (m_buffer st)"
    "\<exists>b. sha3_processBuffer bits st = Some (st\<lparr>m_buffer := b, m_hash :=
        absorb (keccak_processBlock bits) (keccak_blockSize bits) (replicate 25 0)
          (sponge_pad 0x06 (keccak_blockSize bits) msg)\<rparr>)
      \<and> length b = 144 \<and> take (m_bufferSize st) b = take (m_bufferSize st) (m_buffer st)"
proof -
  have sp: "(1 :: byte) AND 0x80 = 0" "(0x06 :: byte) AND 0x80 = 0" by simp_all
  have bs: "200 - 2 * (bits_val bits div 8) = keccak_blockSize bits"
    by (simp add: keccak_blockSize_def)
  have "m_bufferSize st < keccak_blockSize bits"
    by (rule keccak_stream.streamed_room[OF st])
  then have off: "max (m_bufferSize st + 1) (keccak_blockSize bits) = keccak_blockSize bits"
    by simp
  obtain b where "do { b \<leftarrow> poke (m_buffer st) (m_bufferSize st) 1;
       b \<leftarrow> zero_fill b (m_bufferSize st + 1) (keccak_blockSize bits);
       poke b (keccak_blockSize bits - 1) (b ! (keccak_blockSize bits - 1) OR 0x80) } = Some b"
      "length b = 144" "take (m_bufferSize st) b = take (m_bufferSize st) (m_buffer st)"
      "keccak_processBlock bits (m_hash st) (take (keccak_blockSize bits) b)
      = absorb (keccak_processBlock bits) (keccak_blockSize bits) (replicate 25 0)
          (sponge_pad 1 (keccak_blockSize bits) msg)"
    using sponge_absorb[OF st, of 1, OF sp(1)] by (elim exE conjE) (rule that)
  then show "\<exists>b. keccak_processBuffer bits st = Some (st\<lparr>m_buffer := b, m_hash :=
        absorb (keccak_processBlock bits) (keccak_blockSize bits) (replicate 25 0)
          (sponge_pad 1 (keccak_blockSize bits) msg)\<rparr>)
      \<and> length b = 144 \<and> take (m_bufferSize st) b = take (m_bufferSize st) (m_buffer st)"
    unfolding keccak_processBuffer_def bs Let_def by (auto simp: bind_eq_Some_iff)
  obtain b where "do { b \<leftarrow> poke (m_buffer st) (m_bufferSize st) 0x06;
       b \<leftarrow> zero_fill b (m_bufferSize st + 1) (keccak_blockSize bits);
       poke b (keccak_blockSize bits - 1) (b ! (keccak_blockSize bits - 1) OR 0x80) } = Some b"
      "length b = 144" "take (m_bufferSize st) b = take (m_bufferSize st) (m_buffer st)"
      "keccak_processBlock bits (m_hash st) (take (keccak_blockSize bits) b)
      = absorb (keccak_processBlock bits) (keccak_blockSize bits) (replicate 25 0)
          (sponge_pad 0x06 (keccak_blockSize bits) msg)"
    using sponge_absorb[OF st, of "0x06", OF sp(2)] by (elim exE conjE) (rule that)
  then show "\<exists>b. sha3_processBuffer bits st = Some (st\<lparr>m_buffer := b, m_hash :=
        absorb (keccak_processBlock bits) (keccak_blockSize bits) (replicate 25 0)
          (sponge_pad 0x06 (keccak_blockSize bits) msg)\<rparr>)
      \<and> length b = 144 \<and> take (m_bufferSize st) b = take (m_bufferSize st) (m_buffer st)"
    unfolding sha3_processBuffer_def sha3_processBlock_def Let_def off by (auto simp: bind_eq_Some_iff)
qed

text \<open>Hexadecimal output: whole words first, then the bytes of the word that is used in part.\<close>

lemma keccak_hex_byte_eq: "keccak_hex_byte b = hex_byte b"
proof -
  have "drop_bit 4 b AND 15 = drop_bit 4 b"
  proof (rule bit_word_eqI)
    fix n
    have "bit (15 :: byte) n \<longleftrightarrow> n < 4"
      using bit_mask_iff[of 4 n, where 'a = byte] by (auto simp: mask_eq_exp_minus_1 dest: bit_imp_le_length)
    then show "bit (drop_bit 4 b AND 15) n = bit (drop_bit 4 b) n"
      by (auto simp: bit_simps dest: bit_imp_le_length)
  qed
  then show ?thesis by (simp add: keccak_hex_byte_def hex_byte_def)
qed

lemma keccak_hex_bytes:
  assumes "length h = 25"
  shows "keccak_hex bits h = hex_bytes (take (bits_val bits div 8) (concat (map le64_bytes h)))"
proof -
  obtain a0 a1 a2 a3 a4 a5 a6 a7 a8 a9 a10 a11 a12 a13 a14 a15 a16 a17 a18 a19 a20 a21 a22 a23 a24
    where h: "h = [a0, a1, a2, a3, a4, a5, a6, a7, a8, a9, a10, a11, a12, a13, a14, a15, a16, a17, a18,
      a19, a20, a21, a22, a23, a24]"
    using assms by (rule list25)
  have u8: "[0..<8] = [0, 1, 2, 3, 4, 5, 6, 7]" by code_simp
  show ?thesis
    unfolding h by (cases bits; simp add: keccak_hex_def Let_def keccak_hex_byte_eq hex_bytes_def
        le64_bytes_def u8 keccak_hex_rest.simps upt_rec[of _ 3] upt_rec[of _ 4] upt_rec[of _ 6]
        del: upt_rec_numeral)
qed

section \<open>The classes meet the contract\<close>

definition keccak_digest :: "keccak_bits \<Rightarrow> byte list \<Rightarrow> byte list" where
  "keccak_digest bits = sponge_digest (fips202_block bits) 1 bits"

definition sha3_digest :: "keccak_bits \<Rightarrow> byte list \<Rightarrow> byte list" where
  "sha3_digest bits = sponge_digest (fips202_block bits) 0x06 bits"

lemma absorb_fips202:
  "length h = 25 \<Longrightarrow> absorb (keccak_processBlock bits) bs h d = absorb (fips202_block bits) bs h d
    \<and> length (absorb (fips202_block bits) bs h d) = 25"
proof (induction "fips202_block bits" bs h d rule: absorb.induct)
  case (1 bs h d)
  show ?case
  proof (cases "0 < bs \<and> bs \<le> length d")
    case True
    then show ?thesis
      using 1(1)[OF True] 1(2)
      by (simp add: absorb.simps[of _ bs h d] keccak_processBlock_fips202 length_fips202_block)
  next
    case False
    then have "absorb P bs h d = h" for P :: "word64 list \<Rightarrow> byte list \<Rightarrow> word64 list"
      by (subst absorb.simps) (simp only: if_False)
    then show ?thesis using 1(2) by simp
  qed
qed

lemma hex_absorbed:
  "keccak_hex bits (absorb (keccak_processBlock bits) (keccak_blockSize bits) (replicate 25 0)
      (sponge_pad sb (keccak_blockSize bits) msg))
    = hex_bytes (sponge_digest (fips202_block bits) sb bits msg)"
  using absorb_fips202[of "replicate 25 0" bits "keccak_blockSize bits" "sponge_pad sb (keccak_blockSize bits) msg"]
  by (simp add: keccak_hex_bytes sponge_digest_def)

lemma keccak_streamed_buffer:
  assumes st: "streamed process bs 144 h0 st msg" and b: "length b = 144"
    "take (m_bufferSize st) b = take (m_bufferSize st) (m_buffer st)"
  shows "streamed process bs 144 h0 (st\<lparr>m_buffer := b\<rparr>) msg"
  using assms by (simp add: streamed_def)

lemma keccak_getHash_streamed:
  assumes st: "streamed (keccak_processBlock bits) (keccak_blockSize bits) 144 (replicate 25 0) st msg"
  shows "\<exists>st'. keccak_getHash bits st = Some (hex_bytes (keccak_digest bits msg), st')
      \<and> streamed (keccak_processBlock bits) (keccak_blockSize bits) 144 (replicate 25 0) st' msg"
    "\<exists>st'. sha3_getHash bits st = Some (hex_bytes (sha3_digest bits msg), st')
      \<and> streamed (keccak_processBlock bits) (keccak_blockSize bits) 144 (replicate 25 0) st' msg"
  using processBuffer_sponge[OF st] keccak_streamed_buffer[OF st]
  by (auto simp: keccak_getHash_def sha3_getHash_def hex_absorbed keccak_digest_def sha3_digest_def)

lemma sha3_add_keccak: "sha3_add = keccak_add"
proof -
  have "sha3_processBlock = keccak_processBlock" by (intro ext) (rule sha3_processBlock_def)
  then show ?thesis by (intro ext) (simp add: sha3_add_def keccak_add_def)
qed

lemma sha3_reset_keccak: "sha3_reset = keccak_reset"
  by (intro ext) (simp add: sha3_reset_def keccak_reset_def)

lemma keccak_reset_streamed:
  "length (m_buffer st) = 144 \<Longrightarrow>
    streamed (keccak_processBlock bits) (keccak_blockSize bits) 144 (replicate 25 0) (keccak_reset st) []"
  using keccak_stream.streamed_init[of "m_buffer st" bits] by (simp add: keccak_reset_def streamed_def)

interpretation keccak_object: hash_object
  "streamed (keccak_processBlock bits) (keccak_blockSize bits) 144 (replicate 25 0)" "keccak_add bits"
  "\<lambda>_. keccak_getHash bits" keccak_reset "\<lambda>st. length (m_buffer st) = 144" "\<lambda>_. True" "keccak_digest bits"
  for bits
  by unfold_locales (simp_all add: keccak_reset_streamed keccak_getHash_streamed keccak_add_def
      keccak_stream.add_streamed, simp add: streamed_def)

interpretation sha3_object: hash_object
  "streamed (keccak_processBlock bits) (keccak_blockSize bits) 144 (replicate 25 0)" "sha3_add bits"
  "\<lambda>_. sha3_getHash bits" sha3_reset "\<lambda>st. length (m_buffer st) = 144" "\<lambda>_. True" "sha3_digest bits"
  for bits
  by unfold_locales (simp_all add: keccak_reset_streamed keccak_getHash_streamed sha3_add_keccak sha3_reset_keccak keccak_add_def
      keccak_stream.add_streamed, simp add: streamed_def)

end
