(* ===== verification/Hash_Spec.thy ===== *)
theory Hash_Spec
  imports Md5 Sha256 Keccak
begin

text \<open>
  What the hash classes and HMAC compute, stated over the code's operations: every sequence of
  calls on an object gives the values the standards define for the bytes added since the last
  reset, whatever was in the buffer and on the stack before, and no call writes outside an array.
\<close>

section \<open>The classes compute the standards\<close>

text \<open>C12: From any MD5 object (a 64-byte buffer with arbitrary contents), a reset followed by any
  sequence of \<^verbatim>\<open>add\<close>, \<^verbatim>\<open>getHash\<close> and \<^verbatim>\<open>reset\<close> calls never writes outside an array, and each
  \<^verbatim>\<open>getHash\<close> returns the RFC 1321 digest, in hexadecimal, of the bytes added since the last reset:
  cutting the message differently, or reading the hash value in the middle, changes nothing.\<close>

theorem md5_runs_rfc1321:
  assumes "length (m_buffer st) = 64" "length extra = 64"
  shows "hash_run md5_add (md5_getHash extra) md5_reset (Reset # calls) st
    = Some (hash_outputs md5_digest calls [])"
  using assms by (rule md5_object.run_reset)

text \<open>The test vector "abc" of RFC 1321, added in two pieces.\<close>

theorem md5_runs_rfc1321_witness:
  "hash_run md5_add (md5_getHash (replicate 64 7)) md5_reset
      [Reset, Add [97], Add [98, 99], GetHash]
      \<lparr>m_numBytes = 5, m_bufferSize = 3, m_buffer = replicate 64 1, m_hash = []\<rparr>
    = Some [''900150983cd24fb0d6963f7d28e17f72'']"
proof -
  have "md5_digest [97, 98, 99] =
      [0x90, 0x01, 0x50, 0x98, 0x3c, 0xd2, 0x4f, 0xb0, 0xd6, 0x96, 0x3f, 0x7d, 0x28, 0xe1, 0x7f, 0x72]"
    by code_simp
  moreover have "hex_bytes [0x90, 0x01, 0x50, 0x98, 0x3c, 0xd2, 0x4f, 0xb0, 0xd6, 0x96, 0x3f, 0x7d,
      0x28, 0xe1, 0x7f, 0x72] = ''900150983cd24fb0d6963f7d28e17f72''"
    by code_simp
  ultimately show ?thesis
    by (subst md5_runs_rfc1321) simp_all
qed

text \<open>C13: The same for SHA-1 and FIPS 180-4: every \<^verbatim>\<open>getHash\<close> in a sequence of calls returns the
  digest of the bytes added since the last reset.\<close>

theorem sha1_runs_fips180:
  assumes "length (m_buffer st) = 64" "length extra = 64"
  shows "hash_run sha1_add (sha1_getHash extra) sha1_reset (Reset # calls) st
    = Some (hash_outputs sha1_digest calls [])"
  using assms by (rule sha1_object.run_reset)

theorem sha1_runs_fips180_witness:
  "hash_run sha1_add (sha1_getHash (replicate 64 7)) sha1_reset [Reset, Add [1], GetHash, Add [2], GetHash]
      \<lparr>m_numBytes = 5, m_bufferSize = 3, m_buffer = replicate 64 1, m_hash = []\<rparr>
    = Some [hex_bytes (sha1_digest [1]), hex_bytes (sha1_digest [1, 2])]"
  by (subst sha1_runs_fips180) simp_all

text \<open>C14: The same for SHA-256 and FIPS 180-4: the eight unrolled rounds of \<^verbatim>\<open>processBlock\<close>, with the
  message schedule extended in between, compute the standard's function on the padded message.\<close>

theorem sha256_runs_fips180:
  assumes "length (m_buffer st) = 64" "length extra = 64"
  shows "hash_run sha256_add (sha256_getHash extra) sha256_reset (Reset # calls) st
    = Some (hash_outputs sha256_digest calls [])"
  using assms by (rule sha256_object.run_reset)

theorem sha256_runs_fips180_witness:
  "hash_run sha256_add (sha256_getHash (replicate 64 7)) sha256_reset
      [Reset, Add (replicate 60 1), GetHash, Add (replicate 70 2), GetHash]
      \<lparr>m_numBytes = 5, m_bufferSize = 3, m_buffer = replicate 64 1, m_hash = []\<rparr>
    = Some [hex_bytes (sha256_digest (replicate 60 1)),
        hex_bytes (sha256_digest (replicate 60 1 @ replicate 70 2))]"
  by (subst sha256_runs_fips180) simp_all

text \<open>C15: For each of the four sizes, a Keccak object returns the sponge of FIPS 202 with padding
  byte 1, and a SHA3 object the one with padding byte 6, of the bytes added since the last reset; the
  permutation is the composition of the standard's step mappings theta, rho, pi, chi and iota, which
  the code computes in place.\<close>

theorem keccak_runs_fips202:
  assumes "length (m_buffer st) = 144"
  shows "hash_run (keccak_add bits) (keccak_getHash bits) keccak_reset (Reset # calls) st
      = Some (hash_outputs (keccak_digest bits) calls [])
    \<and> hash_run (sha3_add bits) (sha3_getHash bits) sha3_reset (Reset # calls) st
      = Some (hash_outputs (sha3_digest bits) calls [])"
  using assms keccak_object.run_reset[of st] sha3_object.run_reset[of st] by blast

theorem keccak_runs_fips202_witness:
  "hash_run (sha3_add Keccak224) (sha3_getHash Keccak224) sha3_reset
      [Reset, Add (replicate 143 1), GetHash, Add [2], GetHash]
      \<lparr>m_numBytes = 5, m_bufferSize = 3, m_buffer = replicate 144 1, m_hash = []\<rparr>
    = Some [hex_bytes (sha3_digest Keccak224 (replicate 143 1)),
        hex_bytes (sha3_digest Keccak224 (replicate 143 1 @ [2]))]"
  by (subst keccak_runs_fips202[THEN conjunct2]) simp_all

text \<open>The one-shot call operators return the digest of the given bytes, however the object
  was used before.\<close>

theorem hash_calls_one_shot:
  assumes "length (m_buffer st) = 64" "length extra = 64" "length (m_buffer kst) = 144"
  shows "map_option fst (md5_call extra st data) = Some (hex_bytes (md5_digest data))
    \<and> map_option fst (sha1_call extra st data) = Some (hex_bytes (sha1_digest data))
    \<and> map_option fst (sha256_call extra st data) = Some (hex_bytes (sha256_digest data))
    \<and> map_option fst (keccak_call bits kst data) = Some (hex_bytes (keccak_digest bits data))
    \<and> map_option fst (sha3_call bits kst data) = Some (hex_bytes (sha3_digest bits data))"
proof (intro conjI)
  show "map_option fst (md5_call extra st data) = Some (hex_bytes (md5_digest data))"
    using md5_object.one_call[OF assms(1,2)] by (simp add: md5_call_def)
  show "map_option fst (sha1_call extra st data) = Some (hex_bytes (sha1_digest data))"
    using sha1_object.one_call[OF assms(1,2)] by (simp add: sha1_call_def)
  show "map_option fst (sha256_call extra st data) = Some (hex_bytes (sha256_digest data))"
    using sha256_object.one_call[OF assms(1,2)] by (simp add: sha256_call_def)
  show "map_option fst (keccak_call bits kst data) = Some (hex_bytes (keccak_digest bits data))"
    using keccak_object.one_call[OF assms(3)] by (simp add: keccak_call_def)
  show "map_option fst (sha3_call bits kst data) = Some (hex_bytes (sha3_digest bits data))"
    using sha3_object.one_call[OF assms(3)] by (simp add: sha3_call_def)
qed

theorem hash_calls_one_shot_witness:
  "map_option fst (md5_call (replicate 64 0)
      \<lparr>m_numBytes = 5, m_bufferSize = 3, m_buffer = replicate 64 1, m_hash = []\<rparr> [1, 2])
    = Some (hex_bytes (md5_digest [1, 2]))"
  using hash_calls_one_shot[of "\<lparr>m_numBytes = 5, m_bufferSize = 3, m_buffer = replicate 64 1, m_hash = []\<rparr>"
      "replicate 64 0" "\<lparr>m_numBytes = 0, m_bufferSize = 0, m_buffer = replicate 144 0, m_hash = []\<rparr>" "[1, 2]"]
  by simp

section \<open>HMAC\<close>

text \<open>C16: The template \<^verbatim>\<open>hmac\<close>, instantiated with MD5, SHA-1 or SHA-256, returns the RFC 2104 code
  for every message and every key: keys of at most a block are padded with zeros, longer ones are
  hashed first, and undoing one XOR mask while applying the other leaves the outer pad.\<close>

theorem hmac_rfc2104:
  assumes "length (m_buffer st) = 64" "length extra = 64"
  shows "hmac (md5_reset st) md5_add (md5_getRaw extra) (md5_getHash extra) 64 data key
      = Some (hex_bytes (rfc2104 md5_digest 64 key data))
    \<and> hmac (sha1_reset st) sha1_add (sha1_getRaw extra) (sha1_getHash extra) 64 data key
      = Some (hex_bytes (rfc2104 sha1_digest 64 key data))
    \<and> hmac (sha256_reset st) sha256_add (sha256_getRaw extra) (sha256_getHash extra) 64 data key
      = Some (hex_bytes (rfc2104 sha256_digest 64 key data))"
  using assms md5_object.hmac_eq[OF md5_object.reset] sha1_object.hmac_eq[OF sha1_object.reset]
    sha256_object.hmac_eq[OF sha256_object.reset] by blast

theorem hmac_rfc2104_witness:
  "hmac (sha256_reset \<lparr>m_numBytes = 0, m_bufferSize = 0, m_buffer = replicate 64 1, m_hash = []\<rparr>)
      sha256_add (sha256_getRaw (replicate 64 0)) (sha256_getHash (replicate 64 0)) 64 [1, 2] (replicate 65 3)
    = Some (hex_bytes (rfc2104 sha256_digest 64 (replicate 65 3) [1, 2]))"
  using hmac_rfc2104[of "\<lparr>m_numBytes = 0, m_bufferSize = 0, m_buffer = replicate 64 1, m_hash = []\<rparr>"
      "replicate 64 0" "[1, 2]" "replicate 65 3"] by simp

section \<open>The parts\<close>

text \<open>C17: The unrolled \<^verbatim>\<open>processBlock\<close> functions equal the standards' loops on every block and
  every hash value, and the in-place Keccak permutation equals the composed step mappings on every
  state of 25 words.\<close>

theorem process_blocks_equivalent:
  assumes "length A = 25"
  shows "md5_processBlock h data = rfc1321_block h data \<and> sha1_processBlock h data = fips_block1 h data
    \<and> sha256_processBlock h data = fips_block256 h data
    \<and> keccak_processBlock bits A data = fips202_block bits A data"
  using md5_processBlock_rfc sha1_processBlock_fips sha256_processBlock_fips
    keccak_processBlock_fips202[OF assms] by blast

theorem process_blocks_equivalent_witness:
  "keccak_processBlock Keccak256 (replicate 25 0) [1] = fips202_block Keccak256 (replicate 25 0) [1]"
  using process_blocks_equivalent[of "replicate 25 0" _ "[1]"] by simp

text \<open>\<^verbatim>\<open>add\<close> keeps its bounds: in a state that stands for a message the buffer holds fewer bytes
  than a block, \<^verbatim>\<open>add\<close> of any data succeeds without writing outside the buffer, and the byte count and
  buffer size add up to the message length (modulo the 64-bit counter).\<close>

theorem md5_add_bounds:
  assumes "streamed md5_processBlock 64 64 md5_init st msg"
  shows "\<exists>st'. md5_add st data = Some st' \<and> m_bufferSize st' < 64 \<and> length (m_buffer st') = 64
    \<and> m_numBytes st' + of_nat (m_bufferSize st') = of_nat (length (msg @ data))"
proof -
  obtain st' where st': "md5_add st data = Some st'" "streamed md5_processBlock 64 64 md5_init st' (msg @ data)"
    using md5_object.add[OF assms, of data] by (elim exE conjE) (rule that)
  have "length (msg @ data) - length (msg @ data) mod 64 + length (msg @ data) mod 64 = length (msg @ data)"
    by (simp del: length_append)
  then have "m_numBytes st' + of_nat (m_bufferSize st') = of_nat (length (msg @ data))"
    using st'(2) unfolding streamed_def by (metis of_nat_add)
  then show ?thesis
    using st' md5_stream.streamed_room[OF st'(2)] by (auto simp: streamed_def)
qed

theorem md5_add_bounds_witness:
  "\<exists>st'. md5_add (md5_reset \<lparr>m_numBytes = 5, m_bufferSize = 3, m_buffer = replicate 64 1, m_hash = []\<rparr>)
      (replicate 100 1) = Some st' \<and> m_bufferSize st' < 64"
  using md5_add_bounds[OF md5_object.reset, of "\<lparr>m_numBytes = 5, m_bufferSize = 3,
      m_buffer = replicate 64 1, m_hash = []\<rparr>" "replicate 100 1"] by auto

end
