(* ===== verification/Crc_Ops.thy ===== *)
theory Crc_Ops
  imports Crc_Table
begin

unbundle bit_operations_syntax

text \<open>
  The cyclic redundancy check of \<^verbatim>\<open>src/crypto/crc32.cpp\<close>, as it is compiled for a machine without the instructions of ARM, with
  words of eight bytes. The pointer \<^verbatim>\<open>buf\<close> is the list of the bytes that can be read from it, with its address where
  the alignment counts; a read past the end of the list is \<^term>\<open>None\<close>. Loops that need not end are partial functions, and
  \<^term>\<open>None\<close> where they do not.
\<close>

section \<open>Arithmetic of polynomials\<close>

definition POLY :: "32 word" where "POLY = 0xedb88320"

definition byte_swap :: "64 word \<Rightarrow> 64 word" where
  "byte_swap word =
    drop_bit 56 (word AND 0xff00000000000000) OR
    drop_bit 40 (word AND 0xff000000000000) OR
    drop_bit 24 (word AND 0xff0000000000) OR
    drop_bit 8 (word AND 0xff00000000) OR
    push_bit 8 (word AND 0xff000000) OR
    push_bit 24 (word AND 0xff0000) OR
    push_bit 40 (word AND 0xff00) OR
    push_bit 56 (word AND 0xff)"

text \<open>Of a zero \<open>a\<close> the mask becomes zero and the loop stays.\<close>

partial_function (option) multmodp_loop :: "32 word \<Rightarrow> 32 word \<Rightarrow> 32 word \<Rightarrow> 32 word \<Rightarrow> 32 word option" where
  "multmodp_loop a b m p =
    (if a AND m \<noteq> 0 \<and> a AND (m - 1) = 0 then Some (p XOR b)
     else multmodp_loop a (if b AND 1 \<noteq> 0 then drop_bit 1 b XOR POLY else drop_bit 1 b) (drop_bit 1 m)
       (if a AND m \<noteq> 0 then p XOR b else p))"

definition multmodp :: "32 word \<Rightarrow> 32 word \<Rightarrow> 32 word option" where
  "multmodp a b = multmodp_loop a b (push_bit 31 1) 0"

text \<open>The number \<open>n\<close> has 64 bits and a sign; the shift of a negative one keeps the sign.\<close>

partial_function (option) x2nmodp_loop :: "int \<Rightarrow> 32 word \<Rightarrow> 32 word \<Rightarrow> 32 word option" where
  "x2nmodp_loop n k p =
    (if n = 0 then Some p
     else do {
       p \<leftarrow> (if odd n then multmodp (x2n_table ! unat (k AND 31)) p else Some p);
       x2nmodp_loop (n div 2) (k + 1) p })"

definition x2nmodp :: "int \<Rightarrow> 32 word \<Rightarrow> 32 word option" where
  "x2nmodp n k = x2nmodp_loop n k (push_bit 31 1)"

definition get_crc_table :: "32 word list" where "get_crc_table = crc_table"

section \<open>Bytes\<close>

definition crc_step :: "64 word \<Rightarrow> 8 word \<Rightarrow> 64 word" where
  "crc_step crc b = drop_bit 8 crc XOR ucast (crc_table ! unat ((crc XOR ucast b) AND 0xff))"

fun crc_loop :: "nat \<Rightarrow> 64 word \<Rightarrow> 8 word list \<Rightarrow> (64 word \<times> 8 word list) option" where
  "crc_loop 0 crc buf = Some (crc, buf)"
| "crc_loop (Suc len) crc buf = (case buf of [] \<Rightarrow> None | b # buf \<Rightarrow> crc_loop len (crc_step crc b) buf)"

fun crc_align :: "nat \<Rightarrow> nat \<Rightarrow> 64 word \<Rightarrow> 8 word list \<Rightarrow> (nat \<times> 64 word \<times> 8 word list) option" where
  "crc_align addr 0 crc buf = Some (0, crc, buf)"
| "crc_align addr (Suc len) crc buf =
    (if addr mod 8 \<noteq> 0 then (case buf of [] \<Rightarrow> None | b # buf \<Rightarrow> crc_align (addr + 1) len (crc_step crc b) buf)
     else Some (Suc len, crc, buf))"

fun crc_eights :: "nat \<Rightarrow> 64 word \<Rightarrow> 8 word list \<Rightarrow> (nat \<times> 64 word \<times> 8 word list) option" where
  "crc_eights len crc buf =
    (if 8 \<le> len then do {
       (crc, buf) \<leftarrow> crc_loop 8 crc buf;
       crc_eights (len - 8) crc buf }
     else Some (len, crc, buf))"

declare crc_eights.simps [simp del]

section \<open>Words\<close>

fun le_word :: "8 word list \<Rightarrow> 64 word" where
  "le_word [] = 0"
| "le_word (b # bs) = ucast b OR push_bit 8 (le_word bs)"

definition load_word :: "bool \<Rightarrow> 8 word list \<Rightarrow> 64 word" where
  "load_word little bs = le_word (if little then bs else rev bs)"

text \<open>The words \<^verbatim>\<open>words[0]\<close> to \<^verbatim>\<open>words[4]\<close>, and the buffer after \<^verbatim>\<open>words += N\<close>.\<close>

definition load_words :: "bool \<Rightarrow> 8 word list \<Rightarrow> (64 word list \<times> 8 word list) option" where
  "load_words little buf =
    (if length buf < 40 then None
     else Some (map (\<lambda>i. load_word little (take 8 (drop (8 * i) buf))) [0, 1, 2, 3, 4], drop 40 buf))"

fun crc_word_loop :: "nat \<Rightarrow> 64 word \<Rightarrow> 64 word" where
  "crc_word_loop 0 data = data"
| "crc_word_loop (Suc k) data = crc_word_loop k (drop_bit 8 data XOR ucast (crc_table ! unat (data AND 0xff)))"

definition crc_word :: "64 word \<Rightarrow> 32 word" where
  "crc_word data = ucast (crc_word_loop 8 data)"

fun crc_word_big_loop :: "nat \<Rightarrow> 64 word \<Rightarrow> 64 word" where
  "crc_word_big_loop 0 data = data"
| "crc_word_big_loop (Suc k) data =
    crc_word_big_loop k (push_bit 8 data XOR crc_big_table ! unat (drop_bit 56 data AND 0xff))"

definition crc_word_big :: "64 word \<Rightarrow> 64 word" where
  "crc_word_big data = crc_word_big_loop 8 data"

section \<open>Braids\<close>

text \<open>
  The checks \<^verbatim>\<open>crc0\<close> to \<^verbatim>\<open>crc4\<close> of the braids are a list. The loop counts the blocks down before it tests the number: of
  none it would run off the buffer.
\<close>

definition crc_braid :: "64 word \<Rightarrow> 32 word" where
  "crc_braid word = foldl (\<lambda>crc k. crc XOR crc_braid_table ! k ! unat (drop_bit (8 * k) word AND 0xff))
    (crc_braid_table ! 0 ! unat (word AND 0xff)) [1, 2, 3, 4, 5, 6, 7]"

fun braid_loop :: "nat \<Rightarrow> 32 word list \<Rightarrow> 8 word list \<Rightarrow> (32 word list \<times> 8 word list) option" where
  "braid_loop 0 crcs buf = None"
| "braid_loop (Suc blks) crcs buf =
    (if blks = 0 then Some (crcs, buf)
     else do {
       (words, buf) \<leftarrow> load_words True buf;
       braid_loop blks (map crc_braid (map2 (\<lambda>c w. ucast c XOR w) crcs words)) buf })"

definition braid_last :: "32 word list \<Rightarrow> 64 word list \<Rightarrow> 64 word" where
  "braid_last crcs words =
    (let crc = ucast (crc_word (ucast (crcs ! 0) XOR words ! 0));
         crc = ucast (crc_word (ucast (crcs ! 1) XOR words ! 1 XOR crc));
         crc = ucast (crc_word (ucast (crcs ! 2) XOR words ! 2 XOR crc));
         crc = ucast (crc_word (ucast (crcs ! 3) XOR words ! 3 XOR crc));
         crc = ucast (crc_word (ucast (crcs ! 4) XOR words ! 4 XOR crc))
     in crc)"

definition crc_blocks :: "nat \<Rightarrow> 64 word \<Rightarrow> 8 word list \<Rightarrow> (64 word \<times> 8 word list) option" where
  "crc_blocks blks crc buf = do {
     (crcs, buf) \<leftarrow> braid_loop blks [ucast crc, 0, 0, 0, 0] buf;
     (words, buf) \<leftarrow> load_words True buf;
     Some (braid_last crcs words, buf) }"

definition crc_braid_big :: "64 word \<Rightarrow> 64 word" where
  "crc_braid_big word = foldl (\<lambda>crc k. crc XOR crc_braid_big_table ! k ! unat (drop_bit (8 * k) word AND 0xff))
    (crc_braid_big_table ! 0 ! unat (word AND 0xff)) [1, 2, 3, 4, 5, 6, 7]"

fun braid_big_loop :: "nat \<Rightarrow> 64 word list \<Rightarrow> 8 word list \<Rightarrow> (64 word list \<times> 8 word list) option" where
  "braid_big_loop 0 crcs buf = None"
| "braid_big_loop (Suc blks) crcs buf =
    (if blks = 0 then Some (crcs, buf)
     else do {
       (words, buf) \<leftarrow> load_words False buf;
       braid_big_loop blks (map crc_braid_big (map2 (\<lambda>c w. c XOR w) crcs words)) buf })"

definition braid_big_last :: "64 word list \<Rightarrow> 64 word list \<Rightarrow> 64 word" where
  "braid_big_last crcs words =
    (let comb = crc_word_big (crcs ! 0 XOR words ! 0);
         comb = crc_word_big (crcs ! 1 XOR words ! 1 XOR comb);
         comb = crc_word_big (crcs ! 2 XOR words ! 2 XOR comb);
         comb = crc_word_big (crcs ! 3 XOR words ! 3 XOR comb);
         comb = crc_word_big (crcs ! 4 XOR words ! 4 XOR comb)
     in comb)"

definition crc_blocks_big :: "nat \<Rightarrow> 64 word \<Rightarrow> 8 word list \<Rightarrow> (64 word \<times> 8 word list) option" where
  "crc_blocks_big blks crc buf = do {
     (crcs, buf) \<leftarrow> braid_big_loop blks [byte_swap crc, 0, 0, 0, 0] buf;
     (words, buf) \<leftarrow> load_words False buf;
     Some (byte_swap (braid_big_last crcs words), buf) }"

section \<open>The check\<close>

text \<open>The part for long buffers: the bytes before the first word boundary, and the blocks.\<close>

definition crc_long :: "bool \<Rightarrow> nat \<Rightarrow> nat \<Rightarrow> 64 word \<Rightarrow> 8 word list \<Rightarrow> (nat \<times> 64 word \<times> 8 word list) option" where
  "crc_long little addr len crc buf =
    (if 5 * 8 + 8 - 1 \<le> len then do {
       (len, crc, buf) \<leftarrow> crc_align addr len crc buf;
       let blks = len div (5 * 8);
       let len = len - blks * 5 * 8;
       (crc, buf) \<leftarrow> (if little then crc_blocks blks crc buf else crc_blocks_big blks crc buf);
       Some (len, crc, buf) }
     else Some (len, crc, buf))"

definition crc32_z :: "bool \<Rightarrow> 64 word \<Rightarrow> (nat \<times> 8 word list) option \<Rightarrow> nat \<Rightarrow> 64 word option" where
  "crc32_z little crc ptr len = (case ptr of
     None \<Rightarrow> Some 0
   | Some (addr, buf) \<Rightarrow> do {
       (len, crc, buf) \<leftarrow> crc_long little addr len (NOT crc AND 0xffffffff) buf;
       (len, crc, buf) \<leftarrow> crc_eights len crc buf;
       (crc, buf) \<leftarrow> crc_loop len crc buf;
       Some (crc XOR 0xffffffff) })"

definition crc32 :: "bool \<Rightarrow> 64 word \<Rightarrow> (nat \<times> 8 word list) option \<Rightarrow> 32 word \<Rightarrow> 64 word option" where
  "crc32 little crc buf len = crc32_z little crc buf (unat len)"

section \<open>Combination\<close>

definition crc32_combine_gen64 :: "int \<Rightarrow> 64 word option" where
  "crc32_combine_gen64 len2 = map_option ucast (x2nmodp len2 3)"

definition crc32_combine_gen :: "int \<Rightarrow> 64 word option" where
  "crc32_combine_gen len2 = crc32_combine_gen64 len2"

definition crc32_combine_op :: "64 word \<Rightarrow> 64 word \<Rightarrow> 64 word \<Rightarrow> 64 word option" where
  "crc32_combine_op crc1 crc2 op = do {
     p \<leftarrow> multmodp (ucast op) (ucast crc1);
     Some (ucast p XOR (crc2 AND 0xffffffff)) }"

definition crc32_combine64 :: "64 word \<Rightarrow> 64 word \<Rightarrow> int \<Rightarrow> 64 word option" where
  "crc32_combine64 crc1 crc2 len2 = do {
     op \<leftarrow> x2nmodp len2 3;
     p \<leftarrow> multmodp op (ucast crc1);
     Some (ucast p XOR (crc2 AND 0xffffffff)) }"

definition crc32_combine :: "64 word \<Rightarrow> 64 word \<Rightarrow> int \<Rightarrow> 64 word option" where
  "crc32_combine crc1 crc2 len2 = crc32_combine64 crc1 crc2 len2"

end
