(* ===== verification/Crc_Math.thy ===== *)
theory Crc_Math
  imports Crc_Ops
begin

unbundle bit_operations_syntax

text \<open>
  The arithmetic behind the check. A word of 32 bits is a polynomial over the field of two elements, reflected; \<open>crc_bit\<close>
  multiplies it by \<open>x\<close> modulo the polynomial of the check. Everything the code computes is linear, and follows from what it does with the powers of two.
\<close>

section \<open>Linear functions\<close>

definition xor_hom :: "('a::len word \<Rightarrow> 'b::len word) \<Rightarrow> bool" where
  "xor_hom f \<longleftrightarrow> (\<forall>a b. f (a XOR b) = f a XOR f b)"

lemma xor_homD: "xor_hom f \<Longrightarrow> f (a XOR b) = f a XOR f b"
  by (simp add: xor_hom_def)

lemma xor_hom_0: "xor_hom f \<Longrightarrow> f 0 = 0"
  using xor_homD [of f 0 0] by simp

lemma xor_hom_comp: "xor_hom f \<Longrightarrow> xor_hom g \<Longrightarrow> xor_hom (\<lambda>a. f (g a))"
  by (simp add: xor_hom_def)

lemma xor_hom_funpow:
  fixes f :: "'a::len word \<Rightarrow> 'a word"
  shows "xor_hom f \<Longrightarrow> xor_hom (f ^^ n)"
  by (induction n) (simp_all add: xor_hom_def)

lemma xor_hom_xor: "xor_hom f \<Longrightarrow> xor_hom g \<Longrightarrow> xor_hom (\<lambda>a. f a XOR g a)"
  by (simp add: xor_hom_def ac_simps)

lemma xor_cancel [simp]: "a XOR (a XOR b) = (b :: 'a::len word)"
  by (simp flip: xor.assoc)

lemma xor_hom_ucast: "xor_hom ucast"
  by (auto simp: xor_hom_def bit_simps intro!: bit_word_eqI)

text \<open>Two linear functions that agree on the powers of two agree.\<close>

fun span :: "'a::len word list \<Rightarrow> 'a word list" where
  "span [] = [0]"
| "span (b # bs) = (let xs = span bs in xs @ map (\<lambda>x. b XOR x) xs)"

lemma of_nat_add_xor:
  assumes "j < 2 ^ n"
  shows "(of_nat (2 ^ n + j) :: 'a::len word) = 2 ^ n XOR of_nat j"
proof -
  have "\<not> bit j n" using assms by (metis bit_take_bit_iff less_irrefl take_bit_nat_eq_self)
  then have "(2 ^ n :: 'a word) AND of_nat j = 0"
    by (auto simp: bit_simps intro!: bit_word_eqI)
  then show ?thesis by (simp add: disjunctive_add_eq_xor)
qed

lemma span_hom:
  assumes "xor_hom f"
  shows "map (\<lambda>i. f (of_nat i)) [0..<2 ^ n] = span (map (\<lambda>i. f (2 ^ i)) (rev [0..<n]))"
proof (induction n)
  case 0
  then show ?case using xor_hom_0 [OF assms] by simp
next
  case (Suc n)
  have "[0..<2 ^ Suc n] = [0..<2 ^ n] @ map (\<lambda>j. 2 ^ n + j) [0..<2 ^ n]"
    by (simp add: map_add_upt mult_2 upt_add_eq_append [of 0] add.commute)
  then have "map (\<lambda>i. f (of_nat i)) [0..<2 ^ Suc n] =
      map (\<lambda>i. f (of_nat i)) [0..<2 ^ n] @ map (\<lambda>j. f (2 ^ n) XOR f (of_nat j)) [0..<2 ^ n]"
    by (simp add: o_def of_nat_add_xor xor_homD [OF assms] del: of_nat_add)
  also have "\<dots> = map (\<lambda>i. f (of_nat i)) [0..<2 ^ n] @ map (\<lambda>x. f (2 ^ n) XOR x) (map (\<lambda>i. f (of_nat i)) [0..<2 ^ n])"
    by (simp add: o_def)
  finally show ?case using Suc by (simp add: Let_def)
qed


section \<open>Multiplication by x\<close>

definition crc_bit :: "32 word \<Rightarrow> 32 word" where
  "crc_bit c = (if c AND 1 \<noteq> 0 then drop_bit 1 c XOR POLY else drop_bit 1 c)"

lemma and_1_neq_0 [simp]: "a AND 1 \<noteq> 0 \<longleftrightarrow> bit (a :: 'a::len word) 0"
  by (simp add: and_one_eq bit_0 odd_iff_mod_2_eq_one)

lemma drop_bit_hom: "xor_hom (drop_bit n)"
  by (auto simp: xor_hom_def)

lemma crc_bit_eq: "crc_bit c = drop_bit 1 c XOR (if bit c 0 then POLY else 0)"
  by (simp add: crc_bit_def)

lemma crc_bit_hom: "xor_hom crc_bit"
  unfolding xor_hom_def
proof (intro allI)
  fix a b :: "32 word"
  have "(if bit (a XOR b) 0 then POLY else 0) = (if bit a 0 then POLY else 0) XOR (if bit b 0 then POLY else 0)"
    by (simp add: bit_xor_iff)
  then show "crc_bit (a XOR b) = crc_bit a XOR crc_bit b"
    by (simp only: crc_bit_eq drop_bit_xor ac_simps)
qed

lemma bits_hom: "xor_hom (crc_bit ^^ n)"
  by (rule xor_hom_funpow [OF crc_bit_hom])

lemma bits_0 [simp]: "(crc_bit ^^ n) 0 = 0"
  by (rule xor_hom_0 [OF bits_hom])

lemmas bits_xor = xor_homD [OF bits_hom]

lemma bits_high:
  "take_bit n c = 0 \<Longrightarrow> (crc_bit ^^ n) c = drop_bit n c"
proof (induction n arbitrary: c)
  case (Suc n)
  then have b: "\<not> bit c m" if "m \<le> n" for m
    using that by (metis bit_0_eq bit_take_bit_iff bot_apply bot_bool_def less_Suc_eq_le)
  have "\<not> bit c 0" "take_bit n (drop_bit 1 c) = 0"
    by (auto simp: b bit_simps intro!: bit_word_eqI)
  then show ?case using Suc.IH [of "drop_bit 1 c"]
    by (simp add: funpow_Suc_right crc_bit_def drop_bit_drop_bit del: funpow.simps)
qed simp

lemma bits_split: "(crc_bit ^^ n) c = drop_bit n c XOR (crc_bit ^^ n) (take_bit n c)"
proof -
  have "c = (c AND NOT (mask n)) XOR take_bit n c"
    by (auto simp: bit_simps intro!: bit_word_eqI)
  then have "(crc_bit ^^ n) c = (crc_bit ^^ n) (c AND NOT (mask n)) XOR (crc_bit ^^ n) (take_bit n c)"
    by (metis bits_xor)
  moreover have "drop_bit n (c AND NOT (mask n)) = drop_bit n c" "take_bit n (c AND NOT (mask n)) = 0"
    using bit_imp_le_length [of c] by (auto simp: bit_simps intro!: bit_word_eqI)
  ultimately show ?thesis using bits_high [of n "c AND NOT (mask n)"] by simp
qed

section \<open>Tables\<close>

lemma upt_8: "rev [0..<8] = [7, 6, 5, 4, 3, 2, 1, 0]"
  by (simp add: upt_rec)

lemma table_hom:
  assumes "xor_hom f" "t = span (map (\<lambda>i. f (2 ^ i)) [7, 6, 5, 4, 3, 2, 1, 0])"
  shows "t ! unat (b :: 8 word) = f (ucast b)"
proof -
  have "t = map (\<lambda>i. f (of_nat i)) [0..<256]"
    using span_hom [OF assms(1), of 8] assms(2) by (simp add: upt_8)
  moreover have "unat b < 2 ^ LENGTH(8)" by (rule unsigned_less)
  ultimately show ?thesis by simp
qed



end
