(* ===== verification/Crc_Rows.thy ===== *)
theory Crc_Rows
  imports Crc_Math
begin

unbundle bit_operations_syntax

text \<open>
  What the tables hold. Eight successive powers of \<open>x\<close> are the entries for the powers of two of a table, and the others are
  sums of them. The entry for a byte in a table of the braids is the check of the byte followed by the null bytes up to the same place of the
  next block.
\<close>

section \<open>Successive powers\<close>

fun bit_chain :: "nat \<Rightarrow> 32 word \<Rightarrow> 32 word list" where
  "bit_chain 0 c = []"
| "bit_chain (Suc n) c = c # bit_chain n (crc_bit c)"

fun bit_run :: "nat \<Rightarrow> 32 word \<Rightarrow> 32 word" where
  "bit_run 0 c = c"
| "bit_run (Suc n) c = bit_run n (crc_bit c)"

lemma bit_run_eq: "bit_run n c = (crc_bit ^^ n) c"
  by (induction n arbitrary: c) (simp_all add: funpow_Suc_right del: funpow.simps)

lemma bit_chain_numeral [simp]: "bit_chain (numeral k) c = c # bit_chain (pred_numeral k) (crc_bit c)"
  by (simp add: numeral_eq_Suc)

lemma bit_run_numeral [simp]: "bit_run (numeral k) c = bit_run (pred_numeral k) (crc_bit c)"
  by (simp add: numeral_eq_Suc)

lemma bit_chain_8:
  "bit_chain 8 c = map (\<lambda>i. (crc_bit ^^ (7 - i)) c) [7, 6, 5, 4, 3, 2, 1, 0]"
  by (simp flip: bit_run_eq)

lemma bits_of_powers:
  assumes "i < 8"
  shows "(crc_bit ^^ n) (2 ^ i) = (crc_bit ^^ (7 - i)) ((crc_bit ^^ n) 0x80)"
proof -
  have "(2 :: 32 word) ^ i = drop_bit (7 - i) (2 ^ 7)" "take_bit (7 - i) (2 ^ 7 :: 32 word) = 0"
    using assms by (auto simp: bit_simps simp del: power_numeral intro!: bit_word_eqI)
  then have "(crc_bit ^^ (7 - i)) (2 ^ 7) = 2 ^ i" by (simp add: bits_high del: power_numeral)
  then have "(crc_bit ^^ n) (2 ^ i) = (crc_bit ^^ (7 - i)) ((crc_bit ^^ n) (2 ^ 7))"
    by (metis add.commute funpow_add o_apply)
  then show ?thesis by simp
qed

lemma chain_powers:
  "map (\<lambda>i. (crc_bit ^^ n) (2 ^ i)) [7, 6, 5, 4, 3, 2, 1, 0] = bit_chain 8 ((crc_bit ^^ n) 0x80)"
  unfolding bit_chain_8 by (rule map_cong [OF refl], rule bits_of_powers) auto

lemma chain_table:
  assumes "xor_hom g" "c = (crc_bit ^^ n) 0x80" "t = span (map g (bit_chain 8 c))"
  shows "t ! unat (b :: 8 word) = g ((crc_bit ^^ n) (ucast b))"
proof (rule table_hom)
  show "xor_hom (\<lambda>a. g ((crc_bit ^^ n) a))" by (rule xor_hom_comp [OF assms(1) bits_hom])
  show "t = span (map (\<lambda>i. g ((crc_bit ^^ n) (2 ^ i))) [7, 6, 5, 4, 3, 2, 1, 0])"
    unfolding assms(2,3) chain_powers [symmetric] by (simp only: list.map_comp o_def)
qed

lemma chain_table_id:
  assumes "c = (crc_bit ^^ n) 0x80" "t = span (bit_chain 8 c)"
  shows "t ! unat (b :: 8 word) = (crc_bit ^^ n) (ucast b)"
  by (rule chain_table [where g = "\<lambda>a. a", OF _ assms(1)]) (simp add: xor_hom_def, simp only: assms(2) list.map_ident)

section \<open>The table of a byte\<close>

lemma bits_8: "(crc_bit ^^ 8) 0x80 = 0xedb88320"
  by (simp add: crc_bit_eq POLY_def flip: bit_run_eq)

lemma crc_table_span: "crc_table = span (bit_chain 8 0xedb88320)"
  by (simp add: crc_table_def crc_bit_eq POLY_def)

lemma crc_table_nth: "crc_table ! unat (b :: 8 word) = (crc_bit ^^ 8) (ucast b)"
  by (rule chain_table_id [OF bits_8 [symmetric] crc_table_span])

section \<open>The tables of the braids\<close>

lemma bits_264: "(crc_bit ^^ 264) 0x80 = 0x78ed02d5"
  using funpow_add [of 256 8 crc_bit] by (simp add: bits_8 crc_bit_eq POLY_def flip: bit_run_eq [of 256])

lemma braid_span_7: "crc_braid_table_7 = span (bit_chain 8 0x78ed02d5)"
  by (simp add: crc_braid_table_7_def crc_bit_eq POLY_def)

lemma bits_272: "(crc_bit ^^ 272) 0x80 = 0xf6c1cb59"
  using funpow_add [of 8 264 crc_bit] by (simp add: bits_264 crc_bit_eq POLY_def flip: bit_run_eq [of 8])

lemma braid_span_6: "crc_braid_table_6 = span (bit_chain 8 0xf6c1cb59)"
  by (simp add: crc_braid_table_6_def crc_bit_eq POLY_def)

lemma bits_280: "(crc_bit ^^ 280) 0x80 = 0x1241289b"
  using funpow_add [of 8 272 crc_bit] by (simp add: bits_272 crc_bit_eq POLY_def flip: bit_run_eq [of 8])

lemma braid_span_5: "crc_braid_table_5 = span (bit_chain 8 0x1241289b)"
  by (simp add: crc_braid_table_5_def crc_bit_eq POLY_def)

lemma bits_288: "(crc_bit ^^ 288) 0x80 = 0x67cf0be4"
  using funpow_add [of 8 280 crc_bit] by (simp add: bits_280 crc_bit_eq POLY_def flip: bit_run_eq [of 8])

lemma braid_span_4: "crc_braid_table_4 = span (bit_chain 8 0x67cf0be4)"
  by (simp add: crc_braid_table_4_def crc_bit_eq POLY_def)

lemma bits_296: "(crc_bit ^^ 296) 0x80 = 0xa700e96a"
  using funpow_add [of 8 288 crc_bit] by (simp add: bits_288 crc_bit_eq POLY_def flip: bit_run_eq [of 8])

lemma braid_span_3: "crc_braid_table_3 = span (bit_chain 8 0xa700e96a)"
  by (simp add: crc_braid_table_3_def crc_bit_eq POLY_def)

lemma bits_304: "(crc_bit ^^ 304) 0x80 = 0xadc088af"
  using funpow_add [of 8 296 crc_bit] by (simp add: bits_296 crc_bit_eq POLY_def flip: bit_run_eq [of 8])

lemma braid_span_2: "crc_braid_table_2 = span (bit_chain 8 0xadc088af)"
  by (simp add: crc_braid_table_2_def crc_bit_eq POLY_def)

lemma bits_312: "(crc_bit ^^ 312) 0x80 = 0x46c47ef1"
  using funpow_add [of 8 304 crc_bit] by (simp add: bits_304 crc_bit_eq POLY_def flip: bit_run_eq [of 8])

lemma braid_span_1: "crc_braid_table_1 = span (bit_chain 8 0x46c47ef1)"
  by (simp add: crc_braid_table_1_def crc_bit_eq POLY_def)

lemma bits_320: "(crc_bit ^^ 320) 0x80 = 0xcafc06f4"
  using funpow_add [of 8 312 crc_bit] by (simp add: bits_312 crc_bit_eq POLY_def flip: bit_run_eq [of 8])

lemma braid_span_0: "crc_braid_table_0 = span (bit_chain 8 0xcafc06f4)"
  by (simp add: crc_braid_table_0_def crc_bit_eq POLY_def)

lemma braid_rows:
  assumes "k < 8"
  shows "crc_braid_table ! k ! unat (b :: 8 word) = (crc_bit ^^ (8 * (40 - k))) (ucast b)"
proof -
  have "k = 0 \<or> k = 1 \<or> k = 2 \<or> k = 3 \<or> k = 4 \<or> k = 5 \<or> k = 6 \<or> k = 7" using assms by arith
  then show ?thesis
    by (elim disjE)
      (simp_all add: crc_braid_table_def chain_table_id [OF bits_320 [symmetric] braid_span_0] chain_table_id [OF bits_312 [symmetric] braid_span_1] chain_table_id [OF bits_304 [symmetric] braid_span_2] chain_table_id [OF bits_296 [symmetric] braid_span_3] chain_table_id [OF bits_288 [symmetric] braid_span_4] chain_table_id [OF bits_280 [symmetric] braid_span_5] chain_table_id [OF bits_272 [symmetric] braid_span_6] chain_table_id [OF bits_264 [symmetric] braid_span_7])
qed

end
