(* ===== verification/Crc_Swap.thy ===== *)
theory Crc_Swap
  imports Crc_Math
begin

unbundle bit_operations_syntax

text \<open>
  Words and the order of their bytes: what \<open>byte_swap\<close> does to the bits of a word, to shifts and to the bytes in memory.
\<close>

section \<open>Bits\<close>

definition swap_index :: "nat \<Rightarrow> nat" where
  "swap_index n = 8 * (7 - n div 8) + n mod 8"

lemma swap_index_byte: "r < 8 \<Longrightarrow> swap_index (8 * k + r) = 8 * (7 - k) + r"
  by (simp add: swap_index_def)

lemma byte_index:
  fixes n :: nat
  assumes "n < 64"
  obtains k r where "n = 8 * k + r" "r < 8" "k < 8"
proof (rule that [of "n div 8" "n mod 8"])
  show "n div 8 < 8" using assms by (simp add: less_mult_imp_div_less)
qed simp_all

lemma swap_index_less [simp]: "n < 64 \<Longrightarrow> swap_index n < 64"
  by (erule byte_index) (simp add: swap_index_byte)

lemma swap_index_swap [simp]: "n < 64 \<Longrightarrow> swap_index (swap_index n) = n"
  by (erule byte_index) (simp add: swap_index_byte)

definition byte_mask :: "nat \<Rightarrow> 64 word \<Rightarrow> 64 word" where
  "byte_mask k word = word AND push_bit (8 * k) 0xff"

lemma bit_byte_mask:
  "bit (byte_mask k word) n \<longleftrightarrow> bit word n \<and> 8 * k \<le> n \<and> n < 8 * k + 8"
proof -
  have m: "(0xff :: 64 word) = mask 8" by (simp add: mask_eq_exp_minus_1)
  show ?thesis unfolding byte_mask_def m
    by (cases "n < 64") (auto simp: bit_simps dest: bit_imp_le_length)
qed

lemma byte_swap_masks:
  "byte_swap word =
    drop_bit 56 (byte_mask 7 word) OR drop_bit 40 (byte_mask 6 word) OR drop_bit 24 (byte_mask 5 word) OR
    drop_bit 8 (byte_mask 4 word) OR push_bit 8 (byte_mask 3 word) OR push_bit 24 (byte_mask 2 word) OR
    push_bit 40 (byte_mask 1 word) OR push_bit 56 (byte_mask 0 word)"
  by (simp add: byte_swap_def byte_mask_def)

lemma bit_byte_swap:
  assumes "n < 64"
  shows "bit (byte_swap word) n \<longleftrightarrow> bit word (swap_index n)"
proof -
  obtain k r where n: "n = 8 * k + r" "r < 8" "k < 8" by (rule byte_index [OF assms])
  have "k = 0 \<or> k = 1 \<or> k = 2 \<or> k = 3 \<or> k = 4 \<or> k = 5 \<or> k = 6 \<or> k = 7" using n(3) by arith
  moreover have "swap_index n = 8 * (7 - k) + r" using n by (simp add: swap_index_byte)
  ultimately show ?thesis using n(2)
    by (elim disjE) (simp_all add: n(1) byte_swap_masks bit_or_iff bit_drop_bit_eq bit_push_bit_iff bit_byte_mask possible_bit_word)
qed

lemma byte_swap_hom: "xor_hom byte_swap"
  by (auto simp: xor_hom_def bit_byte_swap bit_xor_iff intro!: bit_word_eqI)

lemma byte_swap_swap [simp]: "byte_swap (byte_swap w) = w"
  by (rule bit_word_eqI) (simp add: bit_byte_swap)

lemma byte_swap_push: "byte_swap (push_bit 8 w) = drop_bit 8 (byte_swap w)"
proof (rule bit_word_eqI)
  fix n assume "n < LENGTH(64)"
  then have n: "n < 64" by simp
  obtain k r where k: "n = 8 * k + r" "r < 8" "k < 8" by (rule byte_index [OF n])
  show "bit (byte_swap (push_bit 8 w)) n = bit (drop_bit 8 (byte_swap w)) n"
  proof (cases "k = 7")
    case True
    then have "\<not> bit (byte_swap w) (8 + n)" using k bit_imp_le_length [of "byte_swap w" "8 + n"] by auto
    moreover have "swap_index n < 8" using True k by (simp add: swap_index_byte [of r 7, simplified])
    ultimately show ?thesis using n by (simp add: bit_byte_swap bit_push_bit_iff bit_drop_bit_eq)
  next
    case False
    then have "swap_index (8 + n) = 8 * (6 - k) + r" "8 + n < 64"
      using k swap_index_byte [of r "Suc k"] by (simp_all add: add.assoc)
    moreover have "swap_index n = 8 + (8 * (6 - k) + r)" using k False by (simp add: swap_index_byte)
    moreover have "8 * (6 - k) + r < 56" using k by simp
    ultimately show ?thesis using n by (simp add: bit_byte_swap bit_push_bit_iff bit_drop_bit_eq)
  qed
qed

lemma byte_swap_top: "drop_bit (8 * k) (byte_swap w) AND 0xff = drop_bit (8 * (7 - k)) w AND 0xff" if "k < 8"
proof (rule bit_word_eqI)
  have m: "(0xff :: 64 word) = mask 8" by (simp add: mask_eq_exp_minus_1)
  fix n
  show "bit (drop_bit (8 * k) (byte_swap w) AND 0xff) n = bit (drop_bit (8 * (7 - k)) w AND 0xff) n"
  proof (cases "n < 8")
    case True
    then have "8 * k + n < 64" using that by simp
    then show ?thesis using True
      by (simp add: m bit_simps bit_byte_swap swap_index_byte)
  qed (simp add: m bit_simps)
qed

section \<open>Bytes in memory\<close>

lemma bit_le_word:
  "length bs \<le> 8 \<Longrightarrow> bit (le_word bs) n \<longleftrightarrow> n < 8 * length bs \<and> bit (bs ! (n div 8)) (n mod 8)"
proof (induction bs arbitrary: n)
  case (Cons b bs)
  show ?case
  proof (cases "n < 8")
    case True
    then show ?thesis by (simp add: bit_or_iff bit_push_bit_iff bit_ucast_iff)
  next
    case False
    then have "n div 8 = Suc ((n - 8) div 8)" "n mod 8 = (n - 8) mod 8" by (simp_all add: le_div_geq le_mod_geq)
    moreover have "\<not> bit b n" using False bit_imp_le_length [of b n] by auto
    moreover have "bit (le_word bs) (n - 8) \<longleftrightarrow> n - 8 < 8 * length bs \<and> bit (bs ! ((n - 8) div 8)) ((n - 8) mod 8)"
      using Cons by simp
    ultimately show ?thesis using Cons.prems False
      by (auto simp: bit_or_iff bit_push_bit_iff bit_ucast_iff possible_bit_word)
  qed
qed simp

lemma le_word_rev:
  assumes "length bs = 8"
  shows "le_word (rev bs) = byte_swap (le_word bs)"
proof (rule bit_word_eqI)
  fix n assume "n < LENGTH(64)"
  then have n: "n < 64" by simp
  obtain k r where k: "n = 8 * k + r" "r < 8" "k < 8" by (rule byte_index [OF n])
  have "swap_index n div 8 = 7 - k" "swap_index n mod 8 = r" using k by (simp_all add: swap_index_byte)
  then show "bit (le_word (rev bs)) n = bit (byte_swap (le_word bs)) n"
    using n k assms by (simp add: bit_le_word bit_byte_swap rev_nth)
qed

end
