(* ===== verification/Crc_Laws.thy ===== *)
theory Crc_Laws
  imports Crc_Rows Crc_Swap
begin

unbundle bit_operations_syntax

text \<open>
  The check bit by bit, and that the code for bytes, words and braids computes it. A braid takes a word of every block and
  hands over to the word of the next block what the first one adds to the check there, so that a list of words
  keeps its check while the braids consume it.
\<close>

section \<open>The check bit by bit\<close>

definition crc_byte :: "32 word \<Rightarrow> 8 word \<Rightarrow> 32 word" where
  "crc_byte c b = (crc_bit ^^ 8) (c XOR ucast b)"

definition crc_bytes :: "32 word \<Rightarrow> 8 word list \<Rightarrow> 32 word" where
  "crc_bytes c bs = foldl crc_byte c bs"

lemma crc_bytes_simps [simp]:
  "crc_bytes c [] = c"
  "crc_bytes c (b # bs) = crc_bytes (crc_byte c b) bs"
  "crc_bytes c (bs @ cs) = crc_bytes (crc_bytes c bs) cs"
  by (simp_all add: crc_bytes_def)

lemma bits_bits [simp]: "(crc_bit ^^ m) ((crc_bit ^^ n) c) = (crc_bit ^^ (m + n)) c"
  by (simp add: funpow_add)

section \<open>Bytes\<close>

definition low_table :: "64 word \<Rightarrow> 32 word" where
  "low_table w = crc_table ! unat (w AND 0xff)"

lemma low_byte: "unat (w AND 0xff) = unat (ucast (w :: 64 word) :: 8 word)"
proof -
  have m: "(0xff :: 64 word) = mask 8" by (simp add: mask_eq_exp_minus_1)
  show ?thesis unfolding m by (simp add: unsigned_ucast_eq unsigned_take_bit_eq flip: take_bit_eq_mask)
qed

lemma low_table_eq: "low_table w = (crc_bit ^^ 8) (ucast (ucast w :: 8 word))"
  unfolding low_table_def low_byte by (rule crc_table_nth)

lemma low_table_hom: "xor_hom low_table"
  unfolding low_table_eq by (intro xor_hom_comp [OF bits_hom] xor_hom_comp [OF xor_hom_ucast] xor_hom_ucast)

lemma low_table_ucast: "low_table (ucast c) = (crc_bit ^^ 8) (take_bit 8 c)"
proof -
  have "(ucast (ucast (ucast c :: 64 word) :: 8 word) :: 32 word) = take_bit 8 c"
    by (auto simp: bit_simps intro!: bit_word_eqI)
  then show ?thesis by (simp add: low_table_eq)
qed

lemma drop_ucast: "drop_bit n (ucast c) = (ucast (drop_bit n (c :: 32 word)) :: 64 word)"
  using bit_imp_le_length [of c] by (force simp: bit_simps intro!: bit_word_eqI dest: bit_imp_le_length)

lemma ucast_xor: "ucast (a XOR b) = (ucast a XOR ucast b :: 64 word)" for a b :: "32 word"
  by (rule xor_homD [OF xor_hom_ucast])

lemma shift_table: "drop_bit 8 (ucast c) XOR ucast (low_table (ucast c)) = (ucast ((crc_bit ^^ 8) c) :: 64 word)"
  by (simp add: bits_split [of 8 c] low_table_ucast drop_ucast ucast_xor)

lemma crc_step_ucast: "crc_step (ucast c) b = ucast (crc_byte c b)"
proof -
  have u: "ucast c XOR ucast b = (ucast (c XOR ucast b) :: 64 word)"
    using bit_imp_le_length [of b] by (force simp: bit_simps intro!: bit_word_eqI dest: bit_imp_le_length)
  have "drop_bit 8 c = drop_bit 8 (c XOR ucast b)"
    using bit_imp_le_length [of b] by (force simp: bit_simps intro!: bit_word_eqI dest: bit_imp_le_length)
  then have "drop_bit 8 (ucast c) = (drop_bit 8 (ucast (c XOR ucast b)) :: 64 word)" by (simp add: drop_ucast)
  then show ?thesis using shift_table [of "c XOR ucast b"]
    by (simp add: crc_step_def crc_byte_def u flip: low_table_def)
qed

lemma crc_loop_eq:
  "n \<le> length buf \<Longrightarrow> crc_loop n (ucast c) buf = Some (ucast (crc_bytes c (take n buf)), drop n buf)"
proof (induction n arbitrary: c buf)
  case (Suc n)
  then show ?case by (cases buf) (simp_all add: crc_step_ucast)
qed simp

lemma crc_align_eq:
  "\<exists>n \<le> length buf. n \<le> (8 - addr mod 8) mod 8
    \<and> crc_align addr (length buf) (ucast c) buf = Some (length buf - n, ucast (crc_bytes c (take n buf)), drop n buf)"
proof (induction buf arbitrary: addr c)
  case (Cons b buf)
  show ?case
  proof (cases "addr mod 8 = 0")
    case True
    then show ?thesis by (intro exI [of _ 0]) simp
  next
    case False
    obtain n where n: "n \<le> length buf" "n \<le> (8 - (addr + 1) mod 8) mod 8"
      "crc_align (addr + 1) (length buf) (ucast (crc_byte c b)) buf =
        Some (length buf - n, ucast (crc_bytes (crc_byte c b) (take n buf)), drop n buf)"
      using Cons.IH by blast
    have "Suc ((8 - (addr + 1) mod 8) mod 8) = (8 - addr mod 8) mod 8" 
      by (cases "addr mod 8 = 7") (use False in \<open>simp_all add: mod_Suc\<close>)
    then show ?thesis using n False by (intro exI [of _ "Suc n"]) (simp add: crc_step_ucast)
  qed
qed simp

lemma crc_eights_eq:
  "\<exists>n \<le> length buf. crc_eights (length buf) (ucast c) buf =
    Some (length buf - n, ucast (crc_bytes c (take n buf)), drop n buf)"
proof (induction "length buf" arbitrary: c buf rule: less_induct)
  case less
  show ?case
  proof (cases "8 \<le> length buf")
    case True
    then have l: "length (drop 8 buf) < length buf" by simp
    obtain n where n: "n \<le> length (drop 8 buf)"
      "crc_eights (length (drop 8 buf)) (ucast (crc_bytes c (take 8 buf))) (drop 8 buf) =
        Some (length (drop 8 buf) - n, ucast (crc_bytes (crc_bytes c (take 8 buf)) (take n (drop 8 buf))), drop n (drop 8 buf))"
      using less [OF l] by blast
    have "take (8 + n) buf = take 8 buf @ take n (drop 8 buf)" by (rule take_add)
    then show ?thesis using n True
      by (intro exI [of _ "8 + n"]) (simp add: crc_eights.simps [of "length buf"] crc_loop_eq add.commute)
  next
    case False
    then show ?thesis by (intro exI [of _ 0]) (simp add: crc_eights.simps)
  qed
qed

section \<open>Words\<close>

lemma crc_word_loop_Suc: "crc_word_loop (Suc k) x = crc_word_loop k (drop_bit 8 x XOR ucast (low_table x))"
  by (simp add: low_table_def)

lemma word_step_hom: "xor_hom (\<lambda>x. drop_bit 8 x XOR ucast (low_table x))"
  by (intro xor_hom_xor drop_bit_hom xor_hom_comp [OF xor_hom_ucast low_table_hom])

lemma crc_word_loop_hom: "xor_hom (crc_word_loop k)"
proof (induction k)
  case (Suc k)
  show ?case using xor_hom_comp [OF Suc word_step_hom] unfolding crc_word_loop_Suc [abs_def] .
qed (simp add: xor_hom_def)

lemma crc_word_hom: "xor_hom crc_word"
  unfolding crc_word_def [abs_def] by (intro xor_hom_comp [OF xor_hom_ucast crc_word_loop_hom])

lemma crc_word_loop_ucast: "crc_word_loop k (ucast c) = ucast ((crc_bit ^^ (8 * k)) c)"
  by (induction k arbitrary: c) (simp_all only: crc_word_loop.simps(1) crc_word_loop_Suc shift_table, simp_all add: ac_simps)

lemma ucast_ucast_32: "ucast (ucast (c :: 32 word) :: 64 word) = c"
  by (auto simp: bit_simps intro!: bit_word_eqI)

lemma crc_word_ucast: "crc_word (ucast c) = (crc_bit ^^ 64) c"
  by (simp add: crc_word_def crc_word_loop_ucast ucast_ucast_32 del: crc_word_loop.simps)

fun word_sum :: "nat \<Rightarrow> 64 word \<Rightarrow> 32 word" where
  "word_sum 0 x = 0"
| "word_sum (Suc n) x = (crc_bit ^^ (8 * Suc n)) (ucast (ucast x :: 8 word)) XOR word_sum n (drop_bit 8 x)"

lemma word_sum_numeral:
  "word_sum (numeral k) x =
    (crc_bit ^^ (8 * numeral k)) (ucast (ucast x :: 8 word)) XOR word_sum (pred_numeral k) (drop_bit 8 x)"
  by (simp add: numeral_eq_Suc)

lemma crc_word_loop_sum: "crc_word_loop n x = drop_bit (8 * n) x XOR ucast (word_sum n x)"
proof (induction n arbitrary: x)
  case (Suc n)
  then show ?case
    by (simp add: crc_word_loop_Suc xor_homD [OF crc_word_loop_hom] crc_word_loop_ucast low_table_eq ucast_xor
        drop_bit_drop_bit ac_simps del: crc_word_loop.simps)
qed simp

lemma drop_bit_64: "drop_bit 64 (x :: 64 word) = 0"
  by (auto simp: bit_simps intro!: bit_word_eqI dest: bit_imp_le_length)

lemma ucast_crc_word: "ucast (crc_word x) = crc_word_loop 8 x"
  by (simp add: crc_word_def crc_word_loop_sum drop_bit_64 ucast_ucast_32)

lemma crc_word_sum: "crc_word x = word_sum 8 x"
  by (simp add: crc_word_def crc_word_loop_sum drop_bit_64 ucast_ucast_32)

lemma crc_word_loop_bytes:
  "length bs \<le> 8 \<Longrightarrow> crc_word_loop (length bs) (ucast c XOR le_word bs) = ucast (crc_bytes c bs)"
proof (induction bs arbitrary: c)
  case (Cons b bs)
  have small: "bit (le_word bs) n \<longrightarrow> n < 56" for n
    using Cons.prems by (auto simp: bit_le_word)
  have "drop_bit 8 (le_word (b # bs)) = le_word bs"
    using small bit_imp_le_length [of b] by (force simp: bit_simps intro!: bit_word_eqI)
  moreover have "low_table (le_word (b # bs)) = low_table (ucast b)"
  proof -
    have "(ucast (le_word (b # bs)) :: 8 word) = ucast (ucast b :: 64 word)"
      by (auto simp: bit_simps intro!: bit_word_eqI)
    then show ?thesis by (simp add: low_table_eq)
  qed
  moreover have "drop_bit 8 (ucast b :: 64 word) = 0"
    using bit_imp_le_length [of b] by (force simp: bit_simps intro!: bit_word_eqI)
  moreover have "(ucast (crc_byte c b) :: 64 word) = drop_bit 8 (ucast c) XOR ucast (low_table (ucast c XOR ucast b))"
    using crc_step_ucast [of c b] by (simp only: crc_step_def low_table_def)
  ultimately have "drop_bit 8 (ucast c XOR le_word (b # bs)) XOR ucast (low_table (ucast c XOR le_word (b # bs))) =
      ucast (crc_byte c b) XOR le_word bs"
    by (simp add: xor_homD [OF low_table_hom] ucast_xor ac_simps del: le_word.simps)
  then show ?case using Cons
    by (simp only: list.size crc_word_loop_Suc crc_bytes_simps)
      (simp add: crc_word_loop_Suc del: crc_word_loop.simps le_word.simps)
qed simp

lemma crc_word_bytes: "length bs = 8 \<Longrightarrow> crc_word (ucast c XOR le_word bs) = crc_bytes c bs"
  using crc_word_loop_bytes [of bs c] by (simp add: crc_word_def ucast_ucast_32)

end
