(* ===== verification/Crc_Big_Rows.thy ===== *)
theory Crc_Big_Rows
  imports Crc_Rows Crc_Swap
begin

unbundle bit_operations_syntax

text \<open>
  What the tables for machines that store the bytes of a word the other way round hold: the words of the other
  tables with their bytes swapped, and the tables of the braids in the opposite order.
\<close>

lemma swapped_hom: "xor_hom (\<lambda>c. byte_swap (ucast (c :: 32 word)))"
  by (rule xor_hom_comp [OF byte_swap_hom xor_hom_ucast])

lemma crc_big_table_span: "crc_big_table = span (map (\<lambda>c. byte_swap (ucast c)) (bit_chain 8 0xedb88320))"
  by (simp add: crc_big_table_def crc_bit_eq POLY_def byte_swap_def)

lemma crc_braid_big_table_0_span: "crc_braid_big_table_0 = span (map (\<lambda>c. byte_swap (ucast c)) (bit_chain 8 0x78ed02d5))"
  by (simp add: crc_braid_big_table_0_def crc_bit_eq POLY_def byte_swap_def)

lemma crc_braid_big_table_1_span: "crc_braid_big_table_1 = span (map (\<lambda>c. byte_swap (ucast c)) (bit_chain 8 0xf6c1cb59))"
  by (simp add: crc_braid_big_table_1_def crc_bit_eq POLY_def byte_swap_def)

lemma crc_braid_big_table_2_span: "crc_braid_big_table_2 = span (map (\<lambda>c. byte_swap (ucast c)) (bit_chain 8 0x1241289b))"
  by (simp add: crc_braid_big_table_2_def crc_bit_eq POLY_def byte_swap_def)

lemma crc_braid_big_table_3_span: "crc_braid_big_table_3 = span (map (\<lambda>c. byte_swap (ucast c)) (bit_chain 8 0x67cf0be4))"
  by (simp add: crc_braid_big_table_3_def crc_bit_eq POLY_def byte_swap_def)

lemma crc_braid_big_table_4_span: "crc_braid_big_table_4 = span (map (\<lambda>c. byte_swap (ucast c)) (bit_chain 8 0xa700e96a))"
  by (simp add: crc_braid_big_table_4_def crc_bit_eq POLY_def byte_swap_def)

lemma crc_braid_big_table_5_span: "crc_braid_big_table_5 = span (map (\<lambda>c. byte_swap (ucast c)) (bit_chain 8 0xadc088af))"
  by (simp add: crc_braid_big_table_5_def crc_bit_eq POLY_def byte_swap_def)

lemma crc_braid_big_table_6_span: "crc_braid_big_table_6 = span (map (\<lambda>c. byte_swap (ucast c)) (bit_chain 8 0x46c47ef1))"
  by (simp add: crc_braid_big_table_6_def crc_bit_eq POLY_def byte_swap_def)

lemma crc_braid_big_table_7_span: "crc_braid_big_table_7 = span (map (\<lambda>c. byte_swap (ucast c)) (bit_chain 8 0xcafc06f4))"
  by (simp add: crc_braid_big_table_7_def crc_bit_eq POLY_def byte_swap_def)

lemma crc_big_table_nth: "crc_big_table ! unat (b :: 8 word) = byte_swap (ucast ((crc_bit ^^ 8) (ucast b)))"
  by (rule chain_table [OF swapped_hom bits_8 [symmetric] crc_big_table_span])

lemma braid_big_rows:
  assumes "k < 8"
  shows "crc_braid_big_table ! k ! unat (b :: 8 word) = byte_swap (ucast ((crc_bit ^^ (8 * (33 + k))) (ucast b)))"
proof -
  have "k = 0 \<or> k = 1 \<or> k = 2 \<or> k = 3 \<or> k = 4 \<or> k = 5 \<or> k = 6 \<or> k = 7" using assms by arith
  then show ?thesis
    by (elim disjE)
      (simp_all add: crc_braid_big_table_def chain_table [OF swapped_hom bits_264 [symmetric] crc_braid_big_table_0_span] chain_table [OF swapped_hom bits_272 [symmetric] crc_braid_big_table_1_span] chain_table [OF swapped_hom bits_280 [symmetric] crc_braid_big_table_2_span] chain_table [OF swapped_hom bits_288 [symmetric] crc_braid_big_table_3_span] chain_table [OF swapped_hom bits_296 [symmetric] crc_braid_big_table_4_span] chain_table [OF swapped_hom bits_304 [symmetric] crc_braid_big_table_5_span] chain_table [OF swapped_hom bits_312 [symmetric] crc_braid_big_table_6_span] chain_table [OF swapped_hom bits_320 [symmetric] crc_braid_big_table_7_span])
qed

end
