(* ===== verification/Crc_Braid.thy ===== *)
theory Crc_Braid
  imports Crc_Laws Crc_Big_Rows
begin

unbundle bit_operations_syntax

text \<open>
  The braids compute the check of the bytes: first for words stored with the least byte first, then, through
  \<open>byte_swap\<close>, for the other order.
\<close>

section \<open>A word ahead of its braid\<close>

lemma crc_braid_word: "crc_braid x = (crc_bit ^^ 256) (crc_word x)"
proof -
  have "crc_braid x = foldl (\<lambda>crc k. crc XOR (crc_bit ^^ (8 * (40 - k))) (ucast (ucast (drop_bit (8 * k) x) :: 8 word)))
      ((crc_bit ^^ 320) (ucast (ucast x :: 8 word))) [1, 2, 3, 4, 5, 6, 7]"
    unfolding crc_braid_def low_byte
    by (rule foldl_cong) (auto simp: braid_rows braid_rows [of 0, simplified])
  also have "\<dots> = (crc_bit ^^ 256) (word_sum 8 x)"
    by (simp add: word_sum_numeral bits_xor drop_bit_drop_bit ac_simps)
  finally show ?thesis by (simp add: crc_word_sum)
qed

section \<open>Lists of words\<close>

fun crc_words :: "32 word \<Rightarrow> 64 word list \<Rightarrow> 32 word" where
  "crc_words c [] = c"
| "crc_words c (w # ws) = crc_words (crc_word (ucast c XOR w)) ws"

lemma crc_words_append [simp]: "crc_words c (vs @ ws) = crc_words (crc_words c vs) ws"
  by (induction vs arbitrary: c) simp_all

lemma crc_words_state: "crc_words c ws = (crc_bit ^^ (64 * length ws)) c XOR crc_words 0 ws"
proof (induction ws arbitrary: c)
  case (Cons w ws)
  have "crc_words c (w # ws) = (crc_bit ^^ (64 * length ws)) (crc_word (ucast c XOR w)) XOR crc_words 0 ws"
    using Cons [of "crc_word (ucast c XOR w)"] by (simp only: crc_words.simps)
  also have "\<dots> = (crc_bit ^^ (64 * length (w # ws))) c XOR ((crc_bit ^^ (64 * length ws)) (crc_word w) XOR crc_words 0 ws)"
    by (simp add: xor_homD [OF crc_word_hom] crc_word_ucast bits_xor ac_simps)
  also have "\<dots> = (crc_bit ^^ (64 * length (w # ws))) c XOR crc_words 0 (w # ws)"
    using Cons [of "crc_word w"] by (simp only: crc_words.simps unsigned_0 xor.left_neutral)
  finally show ?case .
qed simp

abbreviation xor_words :: "32 word list \<Rightarrow> 64 word list \<Rightarrow> 64 word list" where
  "xor_words cs ws \<equiv> map2 (\<lambda>c w. ucast c XOR w) cs ws"

text \<open>The word that leaves a braid is added to the word five places on.\<close>

lemma crc_words_rotate:
  assumes "length ws = 4"
  shows "crc_words 0 (x # ws @ w # rest) = crc_words 0 (ws @ (ucast (crc_braid x) XOR w) # rest)"
  using assms crc_words_state [of "crc_word x" ws]
  by (simp add: crc_braid_word ucast_xor ac_simps)

lemma length_5:
  assumes "length xs = 5"
  obtains a b c d e where "xs = [a, b, c, d, e]"
  using assms by (auto simp: numeral_eq_Suc length_Suc_conv)

lemma crc_words_braids:
  assumes "length xs = 5" "length vs = 5"
  shows "crc_words 0 (xs @ vs @ rest) = crc_words 0 (xor_words (map crc_braid xs) vs @ rest)"
proof -
  obtain a b c d e where xs: "xs = [a, b, c, d, e]" by (rule length_5 [OF assms(1)])
  obtain f g h i j where vs: "vs = [f, g, h, i, j]" by (rule length_5 [OF assms(2)])
  let ?z = "\<lambda>x v. ucast (crc_braid x) XOR v"
  have "crc_words 0 (a # [b, c, d, e] @ f # [g, h, i, j] @ rest) = crc_words 0 (b # [c, d, e, ?z a f] @ g # [h, i, j] @ rest)"
    by (subst crc_words_rotate) simp_all
  also have "\<dots> = crc_words 0 (c # [d, e, ?z a f, ?z b g] @ h # [i, j] @ rest)"
    by (subst crc_words_rotate) simp_all
  also have "\<dots> = crc_words 0 (d # [e, ?z a f, ?z b g, ?z c h] @ i # [j] @ rest)"
    by (subst crc_words_rotate) simp_all
  also have "\<dots> = crc_words 0 (e # [?z a f, ?z b g, ?z c h, ?z d i] @ j # rest)"
    by (subst crc_words_rotate) simp_all
  also have "\<dots> = crc_words 0 ([?z a f, ?z b g, ?z c h, ?z d i] @ ?z e j # rest)"
    by (subst crc_words_rotate) simp_all
  finally show ?thesis by (simp add: xs vs)
qed

section \<open>Blocks\<close>

definition words_of :: "8 word list \<Rightarrow> 64 word list" where
  "words_of buf = map (\<lambda>i. le_word (take 8 (drop (8 * i) buf))) [0, 1, 2, 3, 4]"

fun block_words :: "nat \<Rightarrow> 8 word list \<Rightarrow> 64 word list" where
  "block_words 0 buf = []"
| "block_words (Suc n) buf = words_of buf @ block_words n (drop 40 buf)"

lemma words_of_length [simp]: "length (words_of buf) = 5"
  by (simp add: words_of_def)

lemma load_words_little: "40 \<le> length buf \<Longrightarrow> load_words True buf = Some (words_of buf, drop 40 buf)"
  by (simp add: load_words_def words_of_def load_word_def)

lemma crc_words_of: "40 \<le> length buf \<Longrightarrow> crc_words c (words_of buf) = crc_bytes c (take 40 buf)"
proof -
  assume l: "40 \<le> length buf"
  have "take 40 buf = take 8 buf @ take 8 (drop 8 buf) @ take 8 (drop 16 buf) @ take 8 (drop 24 buf) @ take 8 (drop 32 buf)"
    using take_add [of 8 32 buf] take_add [of 8 24 "drop 8 buf"] take_add [of 8 16 "drop 16 buf"] take_add [of 8 8 "drop 24 buf"]
    by simp
  then show ?thesis using l by (simp add: words_of_def crc_word_bytes)
qed

lemma crc_block_words: "40 * n \<le> length buf \<Longrightarrow> crc_words c (block_words n buf) = crc_bytes c (take (40 * n) buf)"
proof (induction n arbitrary: c buf)
  case (Suc n)
  have "take (40 * Suc n) buf = take 40 buf @ take (40 * n) (drop 40 buf)" using take_add [of 40 "40 * n" buf] by simp
  then show ?case using Suc by (simp add: crc_words_of)
qed simp

lemma braid_loop_eq:
  assumes "40 * Suc n \<le> length buf" "length cs = 5"
  shows "\<exists>ds. braid_loop (Suc n) cs buf = Some (ds, drop (40 * n) buf) \<and> length ds = 5
    \<and> crc_words 0 (xor_words ds (words_of (drop (40 * n) buf))) =
        crc_words 0 (xor_words cs (words_of buf) @ block_words n (drop 40 buf))"
  using assms
proof (induction n arbitrary: cs buf)
  case (Suc n)
  let ?ds = "map crc_braid (xor_words cs (words_of buf))"
  have "40 * Suc n \<le> length (drop 40 buf)" "length ?ds = 5" using Suc.prems by simp_all
  from Suc.IH [OF this] obtain ds where ds: "braid_loop (Suc n) ?ds (drop 40 buf) = Some (ds, drop (40 * n) (drop 40 buf))" "length ds = 5"
    "crc_words 0 (xor_words ds (words_of (drop (40 * n) (drop 40 buf)))) =
      crc_words 0 (xor_words ?ds (words_of (drop 40 buf)) @ block_words n (drop 40 (drop 40 buf)))"
    by blast
  have "crc_words 0 (xor_words ?ds (words_of (drop 40 buf)) @ block_words n (drop 40 (drop 40 buf))) =
      crc_words 0 (xor_words cs (words_of buf) @ words_of (drop 40 buf) @ block_words n (drop 40 (drop 40 buf)))"
    by (rule crc_words_braids [symmetric]) (simp_all add: Suc.prems)
  moreover have "braid_loop (Suc (Suc n)) cs buf = braid_loop (Suc n) ?ds (drop 40 buf)"
    using Suc.prems by (simp add: braid_loop.simps(2) [of "Suc n"] load_words_little del: braid_loop.simps)
  ultimately show ?case using ds by (intro exI [of _ ds]) (simp add: add.commute del: braid_loop.simps)
qed simp

lemma braid_last_eq:
  assumes "length cs = 5" "length ws = 5"
  shows "braid_last cs ws = ucast (crc_words 0 (xor_words cs ws))"
proof -
  obtain a b c d e where cs: "cs = [a, b, c, d, e]" by (rule length_5 [OF assms(1)])
  obtain f g h i j where ws: "ws = [f, g, h, i, j]" by (rule length_5 [OF assms(2)])
  show ?thesis by (simp add: cs ws braid_last_def Let_def ac_simps)
qed

lemma first_words: "length ws = 5 \<Longrightarrow> crc_words 0 (xor_words [c, 0, 0, 0, 0] ws) = crc_words c ws"
  by (erule length_5) simp

lemma crc_blocks_eq:
  assumes "40 * Suc n \<le> length buf"
  shows "crc_blocks (Suc n) (ucast c) buf = Some (ucast (crc_bytes c (take (40 * Suc n) buf)), drop (40 * Suc n) buf)"
proof -
  obtain ds where ds: "braid_loop (Suc n) [c, 0, 0, 0, 0] buf = Some (ds, drop (40 * n) buf)" "length ds = 5"
    "crc_words 0 (xor_words ds (words_of (drop (40 * n) buf))) =
      crc_words 0 (xor_words [c, 0, 0, 0, 0] (words_of buf) @ block_words n (drop 40 buf))"
    using braid_loop_eq [OF assms, of "[c, 0, 0, 0, 0]"] by auto
  have "crc_words 0 (xor_words [c, 0, 0, 0, 0] (words_of buf) @ block_words n (drop 40 buf)) = crc_words c (block_words (Suc n) buf)"
    using first_words [of "words_of buf" c] by simp
  then show ?thesis using ds assms crc_block_words [OF assms, of c]
    by (simp add: crc_blocks_def ucast_ucast_32 load_words_little braid_last_eq add.commute del: braid_loop.simps)
qed

section \<open>The other order of bytes\<close>

lemma crc_word_big_loop_eq: "crc_word_big_loop k x = byte_swap (crc_word_loop k (byte_swap x))"
proof (induction k arbitrary: x)
  case (Suc k)
  have "drop_bit 56 x AND 0xff = byte_swap x AND 0xff"
    using byte_swap_top [of 0 x] by simp
  then have "crc_big_table ! unat (drop_bit 56 x AND 0xff) = byte_swap (ucast (low_table (byte_swap x)))"
    by (simp add: low_byte crc_big_table_nth low_table_eq)
  moreover have "byte_swap (push_bit 8 x) = drop_bit 8 (byte_swap x)" by (rule byte_swap_push)
  ultimately show ?case using Suc
    by (simp add: xor_homD [OF byte_swap_hom] crc_word_loop_Suc del: crc_word_loop.simps)
qed simp

lemma crc_word_big_eq: "crc_word_big (byte_swap x) = byte_swap (ucast (crc_word x))"
  by (simp add: crc_word_big_def crc_word_big_loop_eq ucast_crc_word)

lemma crc_braid_big_eq: "crc_braid_big (byte_swap x) = byte_swap (ucast (crc_braid x))"
proof -
  let ?b = "\<lambda>k. ucast (ucast (drop_bit (8 * k) (byte_swap x)) :: 8 word) :: 32 word"
  let ?c = "\<lambda>k. ucast (ucast (drop_bit (8 * k) x) :: 8 word) :: 32 word"
  have b: "?b k = ?c (7 - k)" if "k < 8" for k
  proof -
    have "ucast (drop_bit (8 * k) (byte_swap x)) = (ucast (drop_bit (8 * (7 - k)) x) :: 8 word)"
      using byte_swap_top [OF that, of x] low_byte by (metis unsigned_word_eqI)
    then show ?thesis by simp
  qed
  have "crc_braid_big (byte_swap x) =
      foldl (\<lambda>crc k. crc XOR byte_swap (ucast ((crc_bit ^^ (8 * (33 + k))) (?b k))))
        (byte_swap (ucast ((crc_bit ^^ 264) (?b 0)))) [1, 2, 3, 4, 5, 6, 7]"
    unfolding crc_braid_big_def low_byte
    by (rule foldl_cong) (auto simp: braid_big_rows braid_big_rows [of 0, simplified])
  also have "\<dots> = foldl (\<lambda>crc k. crc XOR byte_swap (ucast ((crc_bit ^^ (8 * (33 + k))) (?c (7 - k)))))
        (byte_swap (ucast ((crc_bit ^^ 264) (?c 7)))) [1, 2, 3, 4, 5, 6, 7]"
    by (rule foldl_cong) (auto simp only: b diff_zero set_simps)
  also have "\<dots> = byte_swap (ucast ((crc_bit ^^ 256) (word_sum 8 x)))"
    by (simp add: word_sum_numeral bits_xor drop_bit_drop_bit xor_homD [OF swapped_hom] ac_simps)
  finally show ?thesis by (simp add: crc_braid_word crc_word_sum)
qed

abbreviation swapped :: "32 word \<Rightarrow> 64 word" where
  "swapped c \<equiv> byte_swap (ucast c)"

lemma load_words_big: "40 \<le> length buf \<Longrightarrow> load_words False buf = Some (map byte_swap (words_of buf), drop 40 buf)"
  by (simp add: load_words_def words_of_def load_word_def le_word_rev)

lemma map2_swapped: "map2 (\<lambda>c w. c XOR w) (map swapped cs) (map byte_swap ws) = map byte_swap (xor_words cs ws)"
  by (simp add: zip_map_map o_def split_beta xor_homD [OF byte_swap_hom])

lemma braid_big_loop_eq:
  "40 * blks \<le> length buf \<Longrightarrow>
    braid_big_loop blks (map swapped cs) buf = map_option (\<lambda>(ds, buf). (map swapped ds, buf)) (braid_loop blks cs buf)"
proof (induction blks arbitrary: cs buf)
  case (Suc n)
  show ?case
  proof (cases n)
    case (Suc m)
    have "map crc_braid_big (map byte_swap xs) = map swapped (map crc_braid xs)" for xs
      by (simp add: crc_braid_big_eq)
    then show ?thesis
      using Suc Suc.IH [of "drop 40 buf" "map crc_braid (xor_words cs (words_of buf))"] Suc.prems
      by (simp only: braid_loop.simps braid_big_loop.simps) (simp add: load_words_big load_words_little map2_swapped del: map_map)
  qed simp
qed simp

lemma braid_big_last_eq:
  assumes "length cs = 5" "length ws = 5"
  shows "braid_big_last (map swapped cs) (map byte_swap ws) = byte_swap (braid_last cs ws)"
proof -
  obtain a b c d e where cs: "cs = [a, b, c, d, e]" by (rule length_5 [OF assms(1)])
  obtain f g h i j where ws: "ws = [f, g, h, i, j]" by (rule length_5 [OF assms(2)])
  show ?thesis
    by (simp add: cs ws braid_last_def braid_big_last_def Let_def crc_word_big_eq flip: xor_homD [OF byte_swap_hom])
qed

lemma crc_blocks_big_eq:
  fixes c :: "32 word"
  assumes "40 * Suc n \<le> length buf"
  shows "crc_blocks_big (Suc n) (ucast c) buf = crc_blocks (Suc n) (ucast c) buf"
proof -
  obtain ds where ds: "braid_loop (Suc n) [c, 0, 0, 0, 0] buf = Some (ds, drop (40 * n) buf)" "length ds = 5"
    using braid_loop_eq [OF assms, of "[c, 0, 0, 0, 0]"] by auto
  have "[byte_swap (ucast c), 0, 0, 0, 0] = map swapped [c, 0, 0, 0, 0]"
    by (simp add: xor_hom_0 [OF byte_swap_hom])
  then have "braid_big_loop (Suc n) [byte_swap (ucast c), 0, 0, 0, 0] buf = Some (map swapped ds, drop (40 * n) buf)"
    using braid_big_loop_eq [OF assms, of "[c, 0, 0, 0, 0]"] ds by (simp only: option.map prod.case)
  then show ?thesis using ds assms
    by (simp add: crc_blocks_big_def crc_blocks_def ucast_ucast_32 load_words_big load_words_little braid_big_last_eq
        del: braid_loop.simps braid_big_loop.simps)
qed

end
