(* ===== verification/Crc_Power.thy ===== *)
theory Crc_Power
  imports Crc_Rows
begin

unbundle bit_operations_syntax

text \<open>
  The product of two polynomials and the powers of \<open>x\<close>. The product by a power of \<open>x\<close> is repeated multiplication by \<open>x\<close>, so that the
  powers in the table can be checked by squaring each of them: the square of the last is the first.
\<close>

section \<open>Products\<close>

lemma xor_hom_basis:
  fixes f g :: "'a::len word \<Rightarrow> 'b::len word"
  assumes "xor_hom f" "xor_hom g" "\<And>i. i < LENGTH('a) \<Longrightarrow> f (2 ^ i) = g (2 ^ i)"
  shows "f a = g a"
proof -
  have "map (\<lambda>i. f (2 ^ i)) (rev [0..<LENGTH('a)]) = map (\<lambda>i. g (2 ^ i)) (rev [0..<LENGTH('a)])"
    using assms(3) by simp
  then have "map (\<lambda>i. f (of_nat i)) [0..<2 ^ LENGTH('a)] = map (\<lambda>i. g (of_nat i)) [0..<2 ^ LENGTH('a)]"
    by (simp only: span_hom [OF assms(1)] span_hom [OF assms(2)])
  moreover have "unat a \<in> set [0..<2 ^ LENGTH('a)]" using unsigned_less [of a] by simp
  ultimately have "f (of_nat (unat a)) = g (of_nat (unat a))" by (simp only: map_eq_conv)
  then show ?thesis by simp
qed

fun poly_sum :: "nat \<Rightarrow> 32 word \<Rightarrow> 32 word \<Rightarrow> 32 word" where
  "poly_sum 0 a b = 0"
| "poly_sum (Suc n) a b = (if bit a n then b else 0) XOR poly_sum n a (crc_bit b)"

definition poly_mult :: "32 word \<Rightarrow> 32 word \<Rightarrow> 32 word" where
  "poly_mult a b = poly_sum 32 a b"

lemma poly_sum_numeral [simp]:
  "poly_sum (numeral k) a b = (if bit a (pred_numeral k) then b else 0) XOR poly_sum (pred_numeral k) a (crc_bit b)"
  by (simp add: numeral_eq_Suc)

lemma poly_sum_left: "xor_hom (\<lambda>a. poly_sum n a b)"
proof (induction n arbitrary: b)
  case (Suc n)
  have "xor_hom (\<lambda>a. if bit a n then b else 0)" for b :: "32 word"
    by (simp add: xor_hom_def bit_xor_iff)
  then show ?case unfolding poly_sum.simps by (intro xor_hom_xor Suc)
qed (simp add: xor_hom_def)

lemma poly_sum_right: "xor_hom (poly_sum n a)"
proof (induction n)
  case (Suc n)
  have "xor_hom (\<lambda>b. if bit a n then b else (0 :: 32 word))" by (simp add: xor_hom_def)
  then show ?case using xor_hom_xor [OF _ xor_hom_comp [OF Suc crc_bit_hom]] by simp
qed (simp add: xor_hom_def)

lemma poly_sum_bit: "crc_bit (poly_sum n a b) = poly_sum n a (crc_bit b)"
  by (induction n arbitrary: b) (simp_all add: xor_homD [OF crc_bit_hom] xor_hom_0 [OF crc_bit_hom])

lemma poly_sum_take: "poly_sum n a b = poly_sum n (take_bit n a) b"
proof -
  have "poly_sum m a b = poly_sum m (take_bit n a) b" if "m \<le> n" for m
    using that by (induction m arbitrary: b) (simp_all add: bit_take_bit_iff)
  then show ?thesis by blast
qed

lemma poly_sum_0 [simp]: "poly_sum n 0 b = 0"
  using xor_hom_0 [OF poly_sum_left] .

lemma poly_sum_exp: "i < n \<Longrightarrow> n \<le> 32 \<Longrightarrow> poly_sum n (2 ^ i) b = (crc_bit ^^ (n - Suc i)) b"
proof (induction n arbitrary: b)
  case (Suc n)
  show ?case
  proof (cases "i = n")
    case True
    have "take_bit n (2 ^ n :: 32 word) = 0" by (auto simp: bit_simps intro!: bit_word_eqI)
    then show ?thesis using Suc True poly_sum_take [of n "2 ^ n" "crc_bit b"] by (simp add: bit_exp_iff)
  next
    case False
    then show ?thesis using Suc Suc_diff_Suc [of i n]
      by (simp add: bit_exp_iff funpow_Suc_right flip: Suc_diff_Suc del: funpow.simps)
  qed
qed simp

lemma poly_mult_exp: "i < 32 \<Longrightarrow> poly_mult (2 ^ i) b = (crc_bit ^^ (31 - i)) b"
  by (simp add: poly_mult_def poly_sum_exp del: poly_sum_numeral)

lemma poly_mult_left: "xor_hom (\<lambda>a. poly_mult a b)"
  unfolding poly_mult_def by (rule poly_sum_left)

lemma poly_mult_right: "xor_hom (poly_mult a)"
  unfolding poly_mult_def [abs_def] by (rule poly_sum_right)

lemma poly_mult_bit_right: "poly_mult a (crc_bit b) = crc_bit (poly_mult a b)"
  unfolding poly_mult_def by (rule poly_sum_bit [symmetric])

lemma poly_mult_bits_right: "poly_mult a ((crc_bit ^^ n) b) = (crc_bit ^^ n) (poly_mult a b)"
  by (induction n) (simp_all add: poly_mult_bit_right)

section \<open>Powers\<close>

definition xpow :: "nat \<Rightarrow> 32 word" where
  "xpow n = (crc_bit ^^ n) (2 ^ 31)"

lemma exp_xpow: "i < 32 \<Longrightarrow> 2 ^ i = xpow (31 - i)"
proof -
  assume i: "i < 32"
  then have "(2 :: 32 word) ^ i = drop_bit (31 - i) (2 ^ 31)" "take_bit (31 - i) (2 ^ 31 :: 32 word) = 0"
    by (auto simp: bit_simps simp del: power_numeral intro!: bit_word_eqI)
  then show ?thesis by (simp add: xpow_def bits_high del: power_numeral)
qed

lemma xpow_32: "xpow 32 = POLY"
  by (simp add: xpow_def crc_bit_eq POLY_def flip: bit_run_eq)

lemma poly_mult_POLY_one: "poly_mult POLY (2 ^ 31) = POLY"
  by (simp add: poly_mult_def crc_bit_eq POLY_def)

lemma bits_commute: "(crc_bit ^^ m) ((crc_bit ^^ n) c) = (crc_bit ^^ n) ((crc_bit ^^ m) c)"
  by (metis add.commute funpow_add o_apply)

lemma poly_mult_POLY: "poly_mult POLY b = (crc_bit ^^ 32) b"
proof (rule xor_hom_basis [where f = "poly_mult POLY"])
  fix i assume "i < LENGTH(32)"
  then have i: "2 ^ i = (crc_bit ^^ (31 - i)) (2 ^ 31)" using exp_xpow [of i] by (simp add: xpow_def)
  have "(crc_bit ^^ 32) (2 ^ i) = (crc_bit ^^ (31 - i)) POLY"
    unfolding i bits_commute [of 32] using xpow_32 by (simp only: xpow_def)
  moreover have "poly_mult POLY (2 ^ i) = (crc_bit ^^ (31 - i)) POLY"
    unfolding i poly_mult_bits_right poly_mult_POLY_one ..
  ultimately show "poly_mult POLY (2 ^ i) = (crc_bit ^^ 32) (2 ^ i)" by simp
qed (rule poly_mult_right bits_hom)+

lemma poly_mult_bit_left: "poly_mult (crc_bit a) b = crc_bit (poly_mult a b)"
proof (rule xor_hom_basis [where f = "\<lambda>a. poly_mult (crc_bit a) b"])
  show "xor_hom (\<lambda>a. poly_mult (crc_bit a) b)" by (rule xor_hom_comp [OF poly_mult_left crc_bit_hom])
  show "xor_hom (\<lambda>a. crc_bit (poly_mult a b))" by (rule xor_hom_comp [OF crc_bit_hom poly_mult_left])
  fix i assume "i < LENGTH(32)"
  then have i: "i < 32" by simp
  show "poly_mult (crc_bit (2 ^ i)) b = crc_bit (poly_mult (2 ^ i) b)"
  proof (cases i)
    case 0
    have "crc_bit 1 = POLY" by (simp add: crc_bit_eq)
    moreover have "crc_bit ((crc_bit ^^ 31) b) = (crc_bit ^^ 32) b" by (simp flip: funpow.simps(2)[THEN fun_cong, unfolded o_apply])
    ultimately show ?thesis using poly_mult_exp [of 0 b] by (simp add: 0 poly_mult_POLY)
  next
    case (Suc j)
    have "crc_bit (2 ^ Suc j) = 2 ^ j"
      using i Suc by (auto simp: crc_bit_eq bit_simps simp del: power_Suc intro!: bit_word_eqI)
    moreover have "31 - j = Suc (31 - Suc j)" using i Suc by simp
    ultimately show ?thesis using i Suc by (simp add: poly_mult_exp del: power_Suc)
  qed
qed

lemma poly_mult_xpow: "poly_mult (xpow n) b = (crc_bit ^^ n) b"
  using poly_mult_exp [of 31 b]
  by (induction n) (simp_all add: xpow_def poly_mult_bit_left del: power_numeral)

lemma xpow_add: "poly_mult (xpow m) (xpow n) = xpow (m + n)"
  by (simp add: poly_mult_xpow) (simp add: xpow_def funpow_add)

lemma crc_bit_eq_0: "crc_bit c = 0 \<longleftrightarrow> c = 0"
proof
  assume z: "crc_bit c = 0"
  have "\<not> bit c 32" using bit_imp_le_length [of c 32] by auto
  then have "bit (crc_bit c) 31 \<longleftrightarrow> bit c 0"
    by (simp add: crc_bit_eq bit_xor_iff bit_drop_bit_eq POLY_def)
  then have low: "\<not> bit c 0" and high: "drop_bit 1 c = 0" using z by (simp_all add: crc_bit_eq)
  have "\<not> bit c n" for n
  proof (cases n)
    case (Suc m)
    have "bit (drop_bit 1 c) m \<longleftrightarrow> bit c (Suc m)" by (simp add: bit_drop_bit_eq)
    then show ?thesis using high Suc by simp
  qed (simp add: low)
  then show "c = 0" by (auto intro!: bit_word_eqI)
qed (simp add: crc_bit_eq)

lemma xpow_neq_0: "xpow n \<noteq> 0"
  unfolding xpow_def by (induction n) (simp_all add: crc_bit_eq_0)

section \<open>The table of powers\<close>

lemma x2n_squares_0:
  "[poly_mult 0x40000000 0x40000000,
    poly_mult 0x20000000 0x20000000,
    poly_mult 0x8000000 0x8000000,
    poly_mult 0x800000 0x800000,
    poly_mult 0x8000 0x8000,
    poly_mult 0xedb88320 0xedb88320,
    poly_mult 0xb1e6b092 0xb1e6b092,
    poly_mult 0xa06a2517 0xa06a2517] =
     [0x20000000, 0x8000000, 0x800000, 0x8000,
      0xedb88320, 0xb1e6b092, 0xa06a2517, 0xed627dae]"
  by (simp add: poly_mult_def crc_bit_eq POLY_def)

lemma x2n_squares_1:
  "[poly_mult 0xed627dae 0xed627dae,
    poly_mult 0x88d14467 0x88d14467,
    poly_mult 0xd7bbfe6a 0xd7bbfe6a,
    poly_mult 0xec447f11 0xec447f11,
    poly_mult 0x8e7ea170 0x8e7ea170,
    poly_mult 0x6427800e 0x6427800e,
    poly_mult 0x4d47bae0 0x4d47bae0,
    poly_mult 0x9fe548f 0x9fe548f] =
     [0x88d14467, 0xd7bbfe6a, 0xec447f11, 0x8e7ea170,
      0x6427800e, 0x4d47bae0, 0x9fe548f, 0x83852d0f]"
  by (simp add: poly_mult_def crc_bit_eq POLY_def)

lemma x2n_squares_2:
  "[poly_mult 0x83852d0f 0x83852d0f,
    poly_mult 0x30362f1a 0x30362f1a,
    poly_mult 0x7b5a9cc3 0x7b5a9cc3,
    poly_mult 0x31fec169 0x31fec169,
    poly_mult 0x9fec022a 0x9fec022a,
    poly_mult 0x6c8dedc4 0x6c8dedc4,
    poly_mult 0x15d6874d 0x15d6874d,
    poly_mult 0x5fde7a4e 0x5fde7a4e] =
     [0x30362f1a, 0x7b5a9cc3, 0x31fec169, 0x9fec022a,
      0x6c8dedc4, 0x15d6874d, 0x5fde7a4e, 0xbad90e37]"
  by (simp add: poly_mult_def crc_bit_eq POLY_def)

lemma x2n_squares_3:
  "[poly_mult 0xbad90e37 0xbad90e37,
    poly_mult 0x2e4e5eef 0x2e4e5eef,
    poly_mult 0x4eaba214 0x4eaba214,
    poly_mult 0xa8a472c0 0xa8a472c0,
    poly_mult 0x429a969e 0x429a969e,
    poly_mult 0x148d302a 0x148d302a,
    poly_mult 0xc40ba6d0 0xc40ba6d0,
    poly_mult 0xc4e22c3c 0xc4e22c3c] =
     [0x2e4e5eef, 0x4eaba214, 0xa8a472c0, 0x429a969e,
      0x148d302a, 0xc40ba6d0, 0xc4e22c3c, 0x40000000]"
  by (simp add: poly_mult_def crc_bit_eq POLY_def)

lemma x2n_squares: "map (\<lambda>a. poly_mult a a) x2n_table = tl x2n_table @ [hd x2n_table]"
  using x2n_squares_0 x2n_squares_1 x2n_squares_2 x2n_squares_3 by (simp add: x2n_table_def del: poly_sum_numeral)

lemma x2n_square: "poly_mult (x2n_table ! (k mod 32)) (x2n_table ! (k mod 32)) = x2n_table ! (Suc k mod 32)"
proof -
  have l: "length x2n_table = 32" by (simp add: x2n_table_def)
  have "map (\<lambda>a. poly_mult a a) x2n_table ! (k mod 32) = (tl x2n_table @ [hd x2n_table]) ! (k mod 32)"
    by (simp only: x2n_squares)
  moreover have "k mod 32 < 31 \<or> k mod 32 = 31" by presburger
  moreover have "hd x2n_table = x2n_table ! 0" by (simp add: x2n_table_def)
  ultimately show ?thesis using l by (auto simp: nth_append nth_tl mod_Suc)
qed

lemma x2n_table_xpow: "x2n_table ! (k mod 32) = xpow (2 ^ k)"
proof (induction k)
  case 0
  have "x2n_table ! 0 = xpow (Suc 0)" by (simp add: x2n_table_def xpow_def crc_bit_eq)
  then show ?case by simp
next
  case (Suc k)
  then show ?case using x2n_square [of k] by (simp add: xpow_add mult_2)
qed

end
