(* ===== verification/Crc_Spec.thy ===== *)
theory Crc_Spec
  imports Crc_Braid Crc_Power
begin

unbundle bit_operations_syntax

text \<open>
  What the check of a string of bytes is, on every machine and from every address, and that checks combine.
\<close>

section \<open>Products and powers in the code\<close>

lemma take_bit_top: "\<not> bit a n \<Longrightarrow> take_bit (Suc n) a = take_bit n (a :: 32 word)"
  by (auto simp: bit_simps less_Suc_eq intro!: bit_word_eqI)

lemma multmodp_loop_eq:
  "n < 32 \<Longrightarrow> take_bit (Suc n) a \<noteq> 0 \<Longrightarrow> multmodp_loop a b (2 ^ n) p = Some (p XOR poly_sum (Suc n) a b)"
proof (induction n arbitrary: b p)
  case (Suc n)
  have bit: "a AND 2 ^ Suc n \<noteq> 0 \<longleftrightarrow> bit a (Suc n)"
    by (simp add: and_exp_eq_0_iff_not_bit del: power_Suc)
  have mask: "a AND (2 ^ Suc n - 1) = take_bit (Suc n) a"
    by (simp add: take_bit_eq_mask mask_eq_exp_minus_1 del: power_Suc)
  have half: "drop_bit 1 (2 ^ Suc n :: 32 word) = 2 ^ n"
    using Suc.prems(1) by (auto simp: bit_simps simp del: power_Suc intro!: bit_word_eqI)
  show ?case
  proof (cases "take_bit (Suc n) a = 0")
    case True
    then have "bit a (Suc n)" using Suc.prems(2)
      by (metis take_bit_top)
    moreover have "poly_sum (Suc n) a (crc_bit b) = 0" by (subst poly_sum_take) (simp only: True poly_sum_0)
    ultimately show ?thesis using True bit mask
      by (subst multmodp_loop.simps) (simp add: poly_sum.simps(2) [of "Suc n"] del: power_Suc poly_sum.simps)
  next
    case False
    then have "multmodp_loop a (crc_bit b) (2 ^ n) (if bit a (Suc n) then p XOR b else p) =
        Some ((if bit a (Suc n) then p XOR b else p) XOR poly_sum (Suc n) a (crc_bit b))"
      using Suc by simp
    moreover have "multmodp_loop a b (2 ^ Suc n) p =
        multmodp_loop a (crc_bit b) (2 ^ n) (if bit a (Suc n) then p XOR b else p)"
      using False bit mask half
      by (subst multmodp_loop.simps) (simp add: crc_bit_def del: power_Suc)
    ultimately show ?thesis by (simp add: poly_sum.simps(2) [of "Suc n"] xor.assoc del: poly_sum.simps power_Suc)
  qed
next
  case 0
  then have "bit a 0" using take_bit_top [of a 0] by auto
  then show ?case by (subst multmodp_loop.simps) simp
qed

lemma multmodp_loop_0: "multmodp_loop a b m p = Some r \<Longrightarrow> a \<noteq> 0"
  by (rule multmodp_loop.raw_induct [where P = "\<lambda>a b m p r. a \<noteq> 0"]) (auto split: if_splits)

lemma multmodp_eq: "multmodp a b = (if a = 0 then None else Some (poly_mult a b))"
proof (cases "a = 0")
  case True
  then show ?thesis using multmodp_loop_0 [of a b "push_bit 31 1" 0] by (cases "multmodp a b") (auto simp: multmodp_def)
next
  case False
  have "take_bit (Suc 31) a = a" by (auto simp: bit_simps intro!: bit_word_eqI)
  then show ?thesis using multmodp_loop_eq [of 31 a b 0] False
    by (simp add: multmodp_def poly_mult_def push_bit_eq_mult numeral_eq_Suc)
qed

lemma table_index: "unat ((k :: 32 word) AND 31) = unat k mod 32"
proof -
  have "unat (k AND 31) = unat k AND mask 5" by (simp add: unsigned_and_eq mask_eq_exp_minus_1)
  then show ?thesis by (simp add: take_bit_eq_mod flip: take_bit_eq_mask)
qed

lemma x2nmodp_loop_eq:
  "0 \<le> n \<Longrightarrow> K mod 32 = unat (k AND 31) \<Longrightarrow>
    x2nmodp_loop n k p = Some (poly_mult (xpow (nat n * 2 ^ K)) p)"
proof (induction "nat n" arbitrary: n k p K rule: less_induct)
  case less
  show ?case
  proof (cases "n = 0")
    case True
    then show ?thesis by (subst x2nmodp_loop.simps) (simp add: poly_mult_xpow)
  next
    case False
    have "unat (k + 1) = Suc (unat k) mod 2 ^ 32"
      unfolding unat_word_ariths(1) by simp
    then have "unat (k + 1) mod 32 = Suc (unat k) mod 32" 
      using mod_mod_cancel [of 32 "2 ^ 32" "Suc (unat k)"] by simp
    then have "Suc K mod 32 = unat ((k + 1) AND 31)"
      using less.prems(2) by (simp add: table_index) (metis mod_Suc_eq)
    moreover have "nat (n div 2) < nat n" "0 \<le> n div 2" using False less.prems(1) by auto
    ultimately have step: "x2nmodp_loop (n div 2) (k + 1) q = Some (poly_mult (xpow (nat (n div 2) * 2 ^ Suc K)) q)" for q
      using less.hyps by blast
    have "x2n_table ! unat (k AND 31) = xpow (2 ^ K)" using x2n_table_xpow [of K] less.prems(2) by simp
    then have q: "(if odd n then multmodp (x2n_table ! unat (k AND 31)) p else Some p) =
        Some (poly_mult (xpow (of_bool (odd n) * 2 ^ K)) p)"
      by (simp add: multmodp_eq xpow_neq_0 poly_mult_xpow)
    have "nat n = 2 * nat (n div 2) + of_bool (odd n)" using less.prems(1) by (cases "even n") (auto elim!: evenE oddE)
    then have "nat n * 2 ^ K = nat (n div 2) * 2 ^ Suc K + of_bool (odd n) * 2 ^ K" by (simp add: algebra_simps)
    moreover have "x2nmodp_loop n k p = do {
        p \<leftarrow> (if odd n then multmodp (x2n_table ! unat (k AND 31)) p else Some p);
        x2nmodp_loop (n div 2) (k + 1) p }"
      using False by (simp only: x2nmodp_loop.simps [of n] if_False)
    moreover have "\<dots> = Some (poly_mult (xpow (nat (n div 2) * 2 ^ Suc K)) (poly_mult (xpow (of_bool (odd n) * 2 ^ K)) p))"
      by (simp only: q step bind.bind_lunit)
    ultimately show ?thesis by (simp only: poly_mult_xpow funpow_add o_apply)
  qed
qed

lemma x2nmodp_loop_ends: "x2nmodp_loop n k p = Some r \<Longrightarrow> 0 \<le> n"
  by (rule x2nmodp_loop.raw_induct [where P = "\<lambda>n k p r. 0 \<le> n"])
    (fastforce simp: bind_eq_Some_iff pos_imp_zdiv_nonneg_iff split: if_splits)+

lemma x2nmodp_eq: "x2nmodp n k = (if n < 0 then None else Some (xpow (nat n * 2 ^ unat k)))"
proof (cases "n < 0")
  case True
  then show ?thesis using x2nmodp_loop_ends [of n k "push_bit 31 1"] by (cases "x2nmodp n k") (auto simp: x2nmodp_def)
next
  case False
  have "x2nmodp n k = Some (poly_mult (xpow (nat n * 2 ^ unat k)) (2 ^ 31))"
    using x2nmodp_loop_eq [of n "unat k" k "2 ^ 31"] False
    by (simp add: x2nmodp_def push_bit_eq_mult table_index)
  then show ?thesis using False by (simp add: poly_mult_xpow) (simp add: xpow_def)
qed

text \<open>
  C20: \<open>x2nmodp n k\<close> returns exactly when \<open>n\<close> is not negative, and then it is the power \<open>n * 2 ^ k\<close> of \<open>x\<close> modulo the polynomial of the
  check, also for a \<open>k\<close> past the end of the table; of a negative \<open>n\<close>, which the shift never makes zero, the loop
  does not end, and so neither does \<open>crc32_combine\<close> for a negative length. \<open>multmodp\<close> returns the product exactly when its first argument is not
  zero.
\<close>
theorem crc_loops_end:
  "x2nmodp n k = (if n < 0 then None else Some (xpow (nat n * 2 ^ unat k)))
   \<and> multmodp a b = (if a = 0 then None else Some (poly_mult a b))
   \<and> (crc32_combine crc1 crc2 n = None \<longleftrightarrow> n < 0)"
  by (simp add: x2nmodp_eq multmodp_eq crc32_combine_def crc32_combine64_def xpow_neq_0)

section \<open>The check of a string\<close>

definition crc32_ref :: "32 word \<Rightarrow> 8 word list \<Rightarrow> 32 word" where
  "crc32_ref crc bs = NOT (crc_bytes (NOT crc) bs)"

lemma crc32_ref_check: "crc32_ref 0 [0x31, 0x32, 0x33, 0x34, 0x35, 0x36, 0x37, 0x38, 0x39] = 0xcbf43926"
  by (simp add: crc32_ref_def crc_byte_def crc_bit_eq POLY_def flip: bit_run_eq)

lemma condition: "NOT crc AND 0xffffffff = (ucast (NOT (ucast crc :: 32 word)) :: 64 word)"
proof -
  have m: "(0xffffffff :: 64 word) = mask 32" by (simp add: mask_eq_exp_minus_1)
  show ?thesis unfolding m by (auto simp: bit_simps intro!: bit_word_eqI)
qed

lemma uncondition: "ucast c XOR 0xffffffff = (ucast (NOT c) :: 64 word)" for c :: "32 word"
proof -
  have m: "(0xffffffff :: 64 word) = mask 32" by (simp add: mask_eq_exp_minus_1)
  show ?thesis unfolding m
    using bit_imp_le_length [of c] by (force simp: bit_simps intro!: bit_word_eqI)
qed

lemma crc_long_eq:
  "\<exists>n \<le> length buf. crc_long little addr (length buf) (ucast c) buf =
    Some (length buf - n, ucast (crc_bytes c (take n buf)), drop n buf)"
proof (cases "5 * 8 + 8 - 1 \<le> length buf")
  case True
  obtain n where n: "n \<le> length buf" "n \<le> (8 - addr mod 8) mod 8"
    "crc_align addr (length buf) (ucast c) buf = Some (length buf - n, ucast (crc_bytes c (take n buf)), drop n buf)"
    using crc_align_eq by blast
  have "(8 - addr mod 8) mod 8 < 8" by simp
  then have "40 \<le> length buf - n" using True n(2) by linarith
  then obtain m where m: "(length buf - n) div 40 = Suc m"
    by (metis div_greater_zero_iff gr0_conv_Suc zero_less_numeral)
  have fit: "40 * Suc m \<le> length (drop n buf)" using times_div_less_eq_dividend [of 40 "length buf - n"] by (simp add: m)
  let ?k = "n + 40 * Suc m"
  have "take ?k buf = take n buf @ take (40 * Suc m) (drop n buf)" by (rule take_add)
  moreover have "length buf - n - (length buf - n) div (5 * 8) * 5 * 8 = length buf - ?k" using m by simp
  moreover have "?k \<le> length buf" using fit by simp
  ultimately show ?thesis using True n(3) m fit
    by (intro exI [of _ ?k]) (simp add: crc_long_def crc_blocks_eq crc_blocks_big_eq add.commute)
next
  case False
  then show ?thesis by (intro exI [of _ 0]) (simp add: crc_long_def)
qed

lemma crc32_z_eq:
  "crc32_z little crc (Some (addr, buf)) (length buf) = Some (ucast (crc32_ref (ucast crc) buf))"
proof -
  let ?c = "NOT (ucast crc) :: 32 word"
  obtain n where n: "n \<le> length buf"
    "crc_long little addr (length buf) (ucast ?c) buf = Some (length buf - n, ucast (crc_bytes ?c (take n buf)), drop n buf)"
    using crc_long_eq by blast
  obtain m where m: "m \<le> length (drop n buf)"
    "crc_eights (length (drop n buf)) (ucast (crc_bytes ?c (take n buf))) (drop n buf) =
      Some (length (drop n buf) - m, ucast (crc_bytes (crc_bytes ?c (take n buf)) (take m (drop n buf))), drop m (drop n buf))"
    using crc_eights_eq by blast
  let ?r = "drop m (drop n buf)"
  have "crc_loop (length ?r) (ucast (crc_bytes (crc_bytes ?c (take n buf)) (take m (drop n buf)))) ?r =
      Some (ucast (crc_bytes (crc_bytes (crc_bytes ?c (take n buf)) (take m (drop n buf))) ?r), [])"
    by (subst crc_loop_eq) simp_all
  moreover have "crc_bytes (crc_bytes (crc_bytes ?c (take n buf)) (take m (drop n buf))) ?r = crc_bytes ?c buf"
    by (simp only: crc_bytes_simps(3) [symmetric] append_assoc append_take_drop_id)
  ultimately show ?thesis using n m
    by (simp add: crc32_z_def condition uncondition crc32_ref_def add.commute)
qed

text \<open>
  C18: the check of a string, with the check of what comes before it as its first argument, is the one computed bit by bit, whatever
  the address of the string, its length and the byte order of the machine: the bytes up to a word boundary, the braids, the
  words that join them and the rest of the bytes make up the same sum, and nothing is read past the end.
\<close>
theorem crc32_z_correct:
  "crc32_z little crc (Some (addr, buf)) (length buf) = Some (ucast (crc32_ref (ucast crc) buf))"
  by (rule crc32_z_eq)

lemma crc_bytes_state: "crc_bytes c bs = (crc_bit ^^ (8 * length bs)) c XOR crc_bytes 0 bs"
proof (induction bs arbitrary: c)
  case (Cons b bs)
  have "crc_bytes c (b # bs) = (crc_bit ^^ (8 * length bs)) (crc_byte c b) XOR crc_bytes 0 bs"
    using Cons [of "crc_byte c b"] by (simp only: crc_bytes_simps)
  also have "\<dots> = (crc_bit ^^ (8 * length (b # bs))) c XOR ((crc_bit ^^ (8 * length bs)) (crc_byte 0 b) XOR crc_bytes 0 bs)"
    by (simp add: crc_byte_def bits_xor ac_simps)
  also have "\<dots> = (crc_bit ^^ (8 * length (b # bs))) c XOR crc_bytes 0 (b # bs)"
    using Cons [of "crc_byte 0 b"] by (simp only: crc_bytes_simps)
  finally show ?case .
qed simp

lemma crc32_combine_eq:
  "0 \<le> n \<Longrightarrow> crc32_combine (ucast c) (ucast d) n = Some (ucast ((crc_bit ^^ (8 * nat n)) c XOR d))"
proof -
  assume n: "0 \<le> n"
  have m: "(0xffffffff :: 64 word) = mask 32" by (simp add: mask_eq_exp_minus_1)
  have "ucast d AND mask 32 = (ucast d :: 64 word)"
    using bit_imp_le_length [of d] by (force simp: bit_simps intro!: bit_word_eqI)
  moreover have "x2nmodp n 3 = Some (xpow (nat n * 2 ^ unat (3 :: 32 word)))" using n by (simp add: x2nmodp_eq)
  ultimately show ?thesis
    by (simp add: crc32_combine_def crc32_combine64_def multmodp_eq xpow_neq_0 poly_mult_xpow ucast_ucast_32 ucast_xor m mult.commute)
qed

text \<open>
  C19: checks compose. The check of a string can be taken in two parts, the first part's being the starting value for the
  second, or of both parts alone, combined with the length of the second.
\<close>
theorem crc32_combines:
  "crc32_z little crc (Some (p, xs)) (length xs) \<bind> (\<lambda>c. crc32_z little c (Some (q, ys)) (length ys))
     = crc32_z little crc (Some (r, xs @ ys)) (length (xs @ ys))
   \<and> do {
       c \<leftarrow> crc32_z little crc (Some (p, xs)) (length xs);
       d \<leftarrow> crc32_z little 0 (Some (q, ys)) (length ys);
       crc32_combine c d (int (length ys)) }
     = crc32_z little crc (Some (r, xs @ ys)) (length (xs @ ys))"
proof
  show "crc32_z little crc (Some (p, xs)) (length xs) \<bind> (\<lambda>c. crc32_z little c (Some (q, ys)) (length ys))
     = crc32_z little crc (Some (r, xs @ ys)) (length (xs @ ys))"
    by (simp only: crc32_z_eq bind.bind_lunit) (simp add: ucast_ucast_32 crc32_ref_def)
  have "NOT (crc_bytes (crc_bytes c xs) ys) =
      (crc_bit ^^ (8 * length ys)) (NOT (crc_bytes c xs)) XOR NOT (crc_bytes (NOT 0) ys)" for c
    using bits_xor [of "8 * length ys" "crc_bytes c xs" "NOT 0"]
    by (simp add: crc_bytes_state [of "crc_bytes c xs" ys] crc_bytes_state [of "- 1" ys] ac_simps)
  then show "do {
       c \<leftarrow> crc32_z little crc (Some (p, xs)) (length xs);
       d \<leftarrow> crc32_z little 0 (Some (q, ys)) (length ys);
       crc32_combine c d (int (length ys)) }
     = crc32_z little crc (Some (r, xs @ ys)) (length (xs @ ys))"
    by (simp only: crc32_z_eq bind.bind_lunit) (simp add: crc32_combine_eq crc32_ref_def)
qed

end
