(* ===== verification/Str_Mem.thy ===== *)
theory Str_Mem
  imports Hash_Word "HOL-Library.Multiset"
begin

text \<open>
  Shared buffers: \<^verbatim>\<open>src/utils/src/sharedbuffer.cpp\<close> and \<^verbatim>\<open>shared_buffer.h\<close>, the reference-counted
  blocks behind \<^verbatim>\<open>String8\<close>, on a memory that maps addresses to blocks. The header and the bytes of
  a block are one record; \<^verbatim>\<open>mSize\<close> is the length of the bytes. Fresh memory has arbitrary
  contents (\<^verbatim>\<open>m_junk\<close>), allocation does not fail and returns an address that was never used, and a
  reallocated block moves. Using a freed block or leaving the bounds of a block is \<^term>\<open>None\<close>.

  The lemmas give each operation's effect on the references: \<^verbatim>\<open>refs_ok m R\<close> says that the counts
  in memory are the multiplicities in the multiset \<^verbatim>\<open>R\<close> of all references to blocks, and
  \<^verbatim>\<open>same_data\<close> that what the references in \<^verbatim>\<open>R\<close> see has not changed.
\<close>

section \<open>C strings in memory\<close>

text \<open>A character pointer is given by the bytes that can be read from it on.\<close>

definition cstr :: "byte list \<Rightarrow> byte list" where
  "cstr bs = takeWhile (\<lambda>b. b \<noteq> 0) bs"

definition c_strlen :: "byte list \<Rightarrow> nat option" where
  "c_strlen bs = (if 0 \<in> set bs then Some (length (cstr bs)) else None)"

section \<open>Blocks\<close>

record sbuf =
  sb_refs :: int
  sb_data :: "byte list"

record smem =
  m_bufs :: "addr \<Rightarrow> sbuf option"
  m_next :: addr
  m_junk :: "addr \<Rightarrow> nat \<Rightarrow> byte"

definition sb_alloc :: "smem \<Rightarrow> nat \<Rightarrow> addr \<times> smem" where
  "sb_alloc m sz =
    (let a = m_next m; b = \<lparr>sb_refs = 1, sb_data = map (m_junk m a) [0..<sz]\<rparr>
     in (a, m\<lparr>m_bufs := (m_bufs m)(a \<mapsto> b), m_next := a + 1\<rparr>))"

definition sb_dealloc :: "smem \<Rightarrow> addr \<Rightarrow> smem" where
  "sb_dealloc m a = m\<lparr>m_bufs := (m_bufs m)(a := None)\<rparr>"

definition sb_put :: "smem \<Rightarrow> addr \<Rightarrow> sbuf \<Rightarrow> smem" where
  "sb_put m a b = m\<lparr>m_bufs := (m_bufs m)(a \<mapsto> b)\<rparr>"

definition sb_onlyOwner :: "sbuf \<Rightarrow> bool" where
  "sb_onlyOwner b \<longleftrightarrow> sb_refs b = 1"

definition sb_acquire :: "smem \<Rightarrow> addr \<Rightarrow> smem option" where
  "sb_acquire m a = do { b \<leftarrow> m_bufs m a; Some (sb_put m a (b\<lparr>sb_refs := sb_refs b + 1\<rparr>)) }"

definition sb_release :: "smem \<Rightarrow> addr \<Rightarrow> bool \<Rightarrow> (int \<times> smem) option" where
  "sb_release m a keepStorage = do {
     b \<leftarrow> m_bufs m a;
     if sb_onlyOwner b
     then Some (1, if \<not> keepStorage then sb_dealloc m a else sb_put m a (b\<lparr>sb_refs := 0\<rparr>))
     else
       let prev = sb_refs b; m' = sb_put m a (b\<lparr>sb_refs := sb_refs b - 1\<rparr>)
       in Some (prev, if prev = 1 \<and> \<not> keepStorage then sb_dealloc m' a else m') }"

text \<open>Writing bytes at an offset (\<^verbatim>\<open>memcpy\<close>, \<^verbatim>\<open>memmove\<close>, \<^verbatim>\<open>memset\<close>, one character) and reading them.\<close>

definition sb_write :: "smem \<Rightarrow> addr \<Rightarrow> nat \<Rightarrow> byte list \<Rightarrow> smem option" where
  "sb_write m a i bs = do {
     b \<leftarrow> m_bufs m a;
     d \<leftarrow> pokes (sb_data b) i bs;
     Some (sb_put m a (b\<lparr>sb_data := d\<rparr>)) }"

definition sb_read :: "smem \<Rightarrow> addr \<Rightarrow> nat \<Rightarrow> nat \<Rightarrow> byte list option" where
  "sb_read m a i n = do {
     b \<leftarrow> m_bufs m a;
     if i + n \<le> length (sb_data b) then Some (take n (drop i (sb_data b))) else None }"

definition sb_edit :: "smem \<Rightarrow> addr \<Rightarrow> (addr \<times> smem) option" where
  "sb_edit m a = do {
     b \<leftarrow> m_bufs m a;
     if sb_onlyOwner b then Some (a, m)
     else do {
       let (a', m1) = sb_alloc m (length (sb_data b));
       m2 \<leftarrow> sb_write m1 a' 0 (sb_data b);
       (_, m3) \<leftarrow> sb_release m2 a False;
       Some (a', m3) } }"

definition sb_editResize :: "smem \<Rightarrow> addr \<Rightarrow> nat \<Rightarrow> (addr \<times> smem) option" where
  "sb_editResize m a newSize = do {
     b \<leftarrow> m_bufs m a;
     if sb_onlyOwner b
     then if length (sb_data b) = newSize then Some (a, m)
       else do {
         let (a', m1) = sb_alloc m newSize;
         m2 \<leftarrow> sb_write m1 a' 0 (take newSize (sb_data b));
         Some (a', sb_dealloc m2 a) }
     else do {
       let (a', m1) = sb_alloc m newSize;
       let mySize = length (sb_data b);
       m2 \<leftarrow> sb_write m1 a' 0 (replicate newSize 0);
       m3 \<leftarrow> sb_write m2 a' 0 (take (if newSize < mySize then newSize else mySize) (sb_data b));
       (_, m4) \<leftarrow> sb_release m3 a False;
       Some (a', m4) } }"

definition sb_attemptEdit :: "smem \<Rightarrow> addr \<Rightarrow> ptr option" where
  "sb_attemptEdit m a = do { b \<leftarrow> m_bufs m a; Some (if sb_onlyOwner b then Some a else None) }"

definition sb_reset :: "smem \<Rightarrow> addr \<Rightarrow> nat \<Rightarrow> (addr \<times> smem) option" where
  "sb_reset m a newSize = do {
     let (a', m1) = sb_alloc m newSize;
     (_, m2) \<leftarrow> sb_release m1 a False;
     Some (a', m2) }"

section \<open>References\<close>

definition refs_ok :: "smem \<Rightarrow> addr multiset \<Rightarrow> bool" where
  "refs_ok m R \<longleftrightarrow> (\<forall>a b. m_bufs m a = Some b \<longrightarrow>
      a < m_next m \<and> a \<in># R \<and> sb_refs b = int (count R a))
    \<and> (\<forall>a. a \<in># R \<longrightarrow> m_bufs m a \<noteq> None)"

definition data_at :: "smem \<Rightarrow> addr \<Rightarrow> byte list" where
  "data_at m a = (case m_bufs m a of None \<Rightarrow> [] | Some b \<Rightarrow> sb_data b)"

definition same_data :: "smem \<Rightarrow> addr multiset \<Rightarrow> smem \<Rightarrow> bool" where
  "same_data m R m' \<longleftrightarrow> (\<forall>a. a \<in># R \<longrightarrow> data_at m' a = data_at m a)"

lemma refs_okI:
  assumes "\<And>a b. m_bufs m a = Some b \<Longrightarrow> a < m_next m \<and> a \<in># R \<and> sb_refs b = int (count R a)"
    and "\<And>a. a \<in># R \<Longrightarrow> m_bufs m a \<noteq> None"
  shows "refs_ok m R"
  using assms unfolding refs_ok_def by blast

lemma refs_okE:
  "\<lbrakk>refs_ok m R; m_bufs m a = Some b\<rbrakk> \<Longrightarrow> a < m_next m \<and> a \<in># R \<and> sb_refs b = int (count R a)"
  unfolding refs_ok_def by blast

lemma refs_ok_live: "\<lbrakk>refs_ok m R; a \<in># R\<rbrakk> \<Longrightarrow> m_bufs m a \<noteq> None"
  unfolding refs_ok_def by blast

lemma refs_okD:
  "\<lbrakk>refs_ok m R; a \<in># R\<rbrakk> \<Longrightarrow> \<exists>b. m_bufs m a = Some b \<and> sb_refs b = int (count R a) \<and> a < m_next m"
  using refs_ok_live refs_okE by blast

lemma refs_ok_bound: "\<lbrakk>refs_ok m R; a \<in># R\<rbrakk> \<Longrightarrow> a < m_next m"
  using refs_okD by blast

lemma refs_ok_obtain:
  assumes "refs_ok m R" "a \<in># R"
  obtains b where "m_bufs m a = Some b" "sb_refs b = int (count R a)" "data_at m a = sb_data b"
  using refs_okD[OF assms] by (auto simp: data_at_def)

lemma same_data_refl [simp]: "same_data m R m"
  by (simp add: same_data_def)

lemma same_data_trans: "\<lbrakk>same_data m R m'; same_data m' R m''\<rbrakk> \<Longrightarrow> same_data m R m''"
  by (simp add: same_data_def)

lemma same_data_mono: "\<lbrakk>same_data m R m'; S \<subseteq># R\<rbrakk> \<Longrightarrow> same_data m S m'"
  by (meson mset_subset_eqD same_data_def)

lemma same_dataD: "\<lbrakk>same_data m R m'; a \<in># R\<rbrakk> \<Longrightarrow> data_at m' a = data_at m a"
  by (simp add: same_data_def)

lemma data_at_put: "data_at (sb_put m a b) x = (if x = a then sb_data b else data_at m x)"
  by (simp add: data_at_def sb_put_def)

lemma alloc_ok:
  assumes "refs_ok m R" "sb_alloc m n = (a, m')"
  shows "refs_ok m' (add_mset a R)" "same_data m R m'" "length (data_at m' a) = n" "a \<notin># R"
    "a = m_next m"
proof -
  have a: "a = m_next m" "m' = m\<lparr>m_bufs := (m_bufs m)(a \<mapsto>
      \<lparr>sb_refs = 1, sb_data = map (m_junk m a) [0..<n]\<rparr>), m_next := a + 1\<rparr>"
    using assms(2) by (auto simp: sb_alloc_def Let_def)
  show "a = m_next m" by (rule a(1))
  show na: "a \<notin># R" using refs_ok_bound[OF assms(1), of a] a(1) by auto
  then have "count R a = 0" by (simp add: count_eq_zero_iff)
  then show "refs_ok m' (add_mset a R)"
    unfolding a(2) using refs_okE[OF assms(1)] refs_ok_live[OF assms(1)] a(1)
    by (intro refs_okI) (fastforce split: if_splits)+
  show "same_data m R m'" using na by (auto simp: same_data_def data_at_def a(2))
  show "length (data_at m' a) = n" by (simp add: data_at_def a(2))
qed

lemma write_ok:
  assumes "refs_ok m (add_mset a R)" "a \<notin># R" "i + length bs \<le> length (data_at m a)"
  shows "\<exists>m'. sb_write m a i bs = Some m' \<and> refs_ok m' (add_mset a R) \<and> same_data m R m'
    \<and> data_at m' a = take i (data_at m a) @ bs @ drop (i + length bs) (data_at m a)
    \<and> m_next m' = m_next m"
proof -
  obtain b where b: "m_bufs m a = Some b" "sb_refs b = int (count (add_mset a R) a)" "data_at m a = sb_data b"
    using refs_ok_obtain[OF assms(1)] by (metis union_single_eq_member)
  let ?d = "take i (sb_data b) @ bs @ drop (i + length bs) (sb_data b)"
  let ?m = "sb_put m a (b\<lparr>sb_data := ?d\<rparr>)"
  have "sb_write m a i bs = Some ?m"
    using assms(3) b by (simp add: sb_write_def pokes_eq)
  moreover have "refs_ok ?m (add_mset a R)"
    using refs_okE[OF assms(1)] refs_ok_live[OF assms(1)] b(1)
    by (intro refs_okI) (auto simp: sb_put_def split: if_splits)
  moreover have "same_data m R ?m"
    using assms(2) by (auto simp: same_data_def data_at_put)
  moreover have "data_at ?m a = take i (data_at m a) @ bs @ drop (i + length bs) (data_at m a)"
    using b(3) by (simp add: data_at_put)
  moreover have "m_next ?m = m_next m" by (simp add: sb_put_def)
  ultimately show ?thesis by blast
qed

lemma acquire_ok:
  assumes "refs_ok m R" "a \<in># R"
  shows "\<exists>m'. sb_acquire m a = Some m' \<and> refs_ok m' (add_mset a R) \<and> (\<forall>x. data_at m' x = data_at m x)"
proof -
  obtain b where b: "m_bufs m a = Some b" "sb_refs b = int (count R a)" "data_at m a = sb_data b"
    using assms by (rule refs_ok_obtain)
  let ?m = "sb_put m a (b\<lparr>sb_refs := sb_refs b + 1\<rparr>)"
  have "sb_acquire m a = Some ?m" using b by (simp add: sb_acquire_def)
  moreover have "refs_ok ?m (add_mset a R)"
    using refs_okE[OF assms(1)] refs_ok_live[OF assms(1)] b(1,2)
    by (intro refs_okI) (auto simp: sb_put_def split: if_splits)
  moreover have "\<forall>x. data_at ?m x = data_at m x"
    using b by (simp add: data_at_put)
  ultimately show ?thesis by blast
qed

lemma release_ok:
  assumes "refs_ok m (add_mset a R)"
  shows "\<exists>p m'. sb_release m a False = Some (p, m') \<and> refs_ok m' R \<and> same_data m R m'
    \<and> m_next m' = m_next m"
proof -
  obtain b where b: "m_bufs m a = Some b" "sb_refs b = int (count (add_mset a R) a)" "data_at m a = sb_data b"
    using refs_ok_obtain[OF assms] by (metis union_single_eq_member)
  show ?thesis
  proof (cases "a \<in># R")
    case False
    then have "count R a = 0" by (simp add: count_eq_zero_iff)
    then have "sb_release m a False = Some (1, sb_dealloc m a)"
      using b by (simp add: sb_release_def sb_onlyOwner_def)
    moreover have "refs_ok (sb_dealloc m a) R"
      using refs_okE[OF assms] refs_ok_live[OF assms] False
      by (intro refs_okI) (auto simp: sb_dealloc_def split: if_splits)
    moreover have "same_data m R (sb_dealloc m a)"
      using False by (auto simp: same_data_def data_at_def sb_dealloc_def)
    ultimately show ?thesis by (auto simp: sb_dealloc_def)
  next
    case True
    then have "count R a \<noteq> 0" by (simp add: count_eq_zero_iff)
    then have r: "sb_refs b \<noteq> 1" using b(2) by simp
    let ?m = "sb_put m a (b\<lparr>sb_refs := sb_refs b - 1\<rparr>)"
    have "sb_release m a False = Some (sb_refs b, ?m)"
      using b(1) r by (simp add: sb_release_def sb_onlyOwner_def Let_def)
    moreover have "refs_ok ?m R"
      using refs_okE[OF assms] refs_ok_live[OF assms] b(1,2) True
      by (intro refs_okI) (auto simp: sb_put_def split: if_splits)
    moreover have "same_data m R ?m"
      using b(3) by (simp add: same_data_def data_at_put)
    ultimately show ?thesis by (auto simp: sb_put_def)
  qed
qed

lemma owner_iff:
  assumes "refs_ok m (add_mset a R)" "m_bufs m a = Some b"
  shows "sb_onlyOwner b \<longleftrightarrow> a \<notin># R"
proof -
  have "sb_refs b = int (count (add_mset a R) a)"
    using refs_okD[OF assms(1), of a] assms(2) by auto
  then show ?thesis by (simp add: sb_onlyOwner_def not_in_iff)
qed

text \<open>Editing a shared block: the caller's reference moves to a copy of its own.\<close>

lemma editResize_shared:
  assumes "refs_ok m (add_mset a R)" "a \<in># R"
  shows "\<exists>a' m'. sb_editResize m a n = Some (a', m') \<and> refs_ok m' (add_mset a' R) \<and> same_data m R m'
    \<and> a' \<notin># R \<and> length (data_at m' a') = n
    \<and> data_at m' a' = take n (data_at m a) @ replicate (n - length (data_at m a)) 0"
proof -
  obtain b where b: "m_bufs m a = Some b" "data_at m a = sb_data b"
    using refs_ok_obtain[OF assms(1), of a] by (metis union_single_eq_member)
  obtain a' m1 where al: "sb_alloc m n = (a', m1)" by fastforce
  note ok1 = alloc_ok[OF assms(1) al]
  have a': "a' \<notin># R" "a' \<noteq> a" using ok1(4) by auto
  define k where "k = min n (length (sb_data b))"
  have k: "k \<le> n" "k \<le> length (sb_data b)" by (simp_all add: k_def)
  obtain m2 where m2: "sb_write m1 a' 0 (replicate n 0) = Some m2"
      "refs_ok m2 (add_mset a' (add_mset a R))" "same_data m1 (add_mset a R) m2" "data_at m2 a' = replicate n 0"
    using write_ok[OF ok1(1,4), of 0 "replicate n 0"] ok1(3) by auto
  obtain m3 where m3: "sb_write m2 a' 0 (take k (sb_data b)) = Some m3"
      "refs_ok m3 (add_mset a' (add_mset a R))" "same_data m2 (add_mset a R) m3"
      "data_at m3 a' = take k (sb_data b) @ drop k (replicate n 0)"
    using write_ok[OF m2(2) ok1(4), of 0 "take k (sb_data b)"] m2(4) k by auto
  obtain p m4 where m4: "sb_release m3 a False = Some (p, m4)" "refs_ok m4 (add_mset a' R)"
      "same_data m3 (add_mset a' R) m4"
    using release_ok[of m3 a "add_mset a' R"] m3(2) by (auto simp: add_mset_commute)
  have "(if n < length (sb_data b) then n else length (sb_data b)) = k" by (simp add: k_def)
  then have run: "sb_editResize m a n = Some (a', m4)"
    using b(1) al m2(1) m3(1) m4(1) owner_iff[OF assms(1) b(1)] assms(2)
    by (simp add: sb_editResize_def Let_def)
  have "same_data m R m4"
    using ok1(2) m2(3) m3(3) m4(3) by (auto simp: same_data_def)
  moreover have "data_at m4 a' = take n (data_at m a) @ replicate (n - length (data_at m a)) 0"
    using same_dataD[OF m4(3), of a'] m3(4) b(2) by (simp add: k_def min_def)
  moreover have "length (take n (data_at m a) @ replicate (n - length (data_at m a)) (0 :: byte)) = n"
    by simp
  ultimately show ?thesis
    using run m4(2) a'(1) by auto
qed

text \<open>Editing a block of one's own: the same reference, or a moved block.\<close>

lemma editResize_own:
  assumes "refs_ok m (add_mset a R)" "a \<notin># R" "length (data_at m a) \<le> n"
  shows "\<exists>a' m'. sb_editResize m a n = Some (a', m') \<and> refs_ok m' (add_mset a' R) \<and> same_data m R m'
    \<and> a' \<notin># R \<and> length (data_at m' a') = n \<and> take (length (data_at m a)) (data_at m' a') = data_at m a"
proof -
  obtain b where b: "m_bufs m a = Some b" "data_at m a = sb_data b"
    using refs_ok_obtain[OF assms(1), of a] by (metis union_single_eq_member)
  have own: "sb_onlyOwner b" using owner_iff[OF assms(1) b(1)] assms(2) by simp
  show ?thesis
  proof (cases "length (sb_data b) = n")
    case True
    then show ?thesis
      using own b assms by (auto simp: sb_editResize_def)
  next
    case False
    obtain a' m1 where al: "sb_alloc m n = (a', m1)" by fastforce
    note ok1 = alloc_ok[OF assms(1) al]
    obtain m2 where m2: "sb_write m1 a' 0 (sb_data b) = Some m2"
        "refs_ok m2 (add_mset a' (add_mset a R))" "same_data m1 (add_mset a R) m2"
        "data_at m2 a' = sb_data b @ drop (length (sb_data b)) (data_at m1 a')"
      using write_ok[OF ok1(1,4), of 0 "sb_data b"] ok1(3) assms(3) b(2) by auto
    have run: "sb_editResize m a n = Some (a', sb_dealloc m2 a)"
      using b al m2(1) own False assms(3) by (simp add: sb_editResize_def Let_def)
    have "refs_ok (sb_dealloc m2 a) (add_mset a' R)"
      using refs_okE[OF m2(2)] refs_ok_live[OF m2(2)] assms(2) ok1(4)
      by (intro refs_okI) (auto simp: sb_dealloc_def split: if_splits)
    moreover have "same_data m R (sb_dealloc m2 a)"
      using ok1(2) m2(3) assms(2) by (auto simp: same_data_def data_at_def sb_dealloc_def)
    moreover have "data_at (sb_dealloc m2 a) a' = data_at m2 a'"
      using ok1(4) by (auto simp: data_at_def sb_dealloc_def)
    ultimately show ?thesis
      using run m2(4) ok1(3,4) assms(3) b(2) by (auto intro!: exI[of _ a'] exI[of _ "sb_dealloc m2 a"])
  qed
qed

end
