(* ===== verification/Str_Ops.thy ===== *)
theory Str_Ops
  imports Str_Mem
begin

text \<open>
  The class \<^verbatim>\<open>String8\<close> of \<^verbatim>\<open>src/utils/src/string8.cpp\<close> on shared buffers. Every member function
  takes the memory and the object and returns them; \<^term>\<open>None\<close> stands for an exception, a failed
  assertion or undefined behaviour (a read or write outside a block, a null or freed pointer).
  A \<^verbatim>\<open>const char*\<close> argument is the list of bytes that can be read from it, or \<^term>\<open>None\<close> for
  null; it does not point into the object's own buffer. Block 0 is the static empty string, on
  which the class itself holds a reference.
\<close>

type_synonym cptr = "byte list option"

record str8 =
  mString :: ptr
  mCapacity :: nat

definition s8_default_size :: nat where "s8_default_size = 128"

definition s8_maxsize :: nat where "s8_maxsize = 1024 * 1024"

definition invalid_param :: int where "invalid_param = - 22"

section \<open>Library functions on characters\<close>

text \<open>The sign of \<^verbatim>\<open>strcmp\<close>, and the first place where one string begins inside another.\<close>

fun c_strcmp :: "byte list \<Rightarrow> byte list \<Rightarrow> int" where
  "c_strcmp [] [] = 0"
| "c_strcmp [] (y # ys) = - 1"
| "c_strcmp (x # xs) [] = 1"
| "c_strcmp (x # xs) (y # ys) = (if x < y then - 1 else if y < x then 1 else c_strcmp xs ys)"

fun c_prefix :: "byte list \<Rightarrow> byte list \<Rightarrow> bool" where
  "c_prefix [] ys = True"
| "c_prefix (x # xs) [] = False"
| "c_prefix (x # xs) (y # ys) = (x = y \<and> c_prefix xs ys)"

fun c_strstr :: "byte list \<Rightarrow> byte list \<Rightarrow> nat option" where
  "c_strstr [] needle = (if needle = [] then Some 0 else None)"
| "c_strstr (x # xs) needle =
    (if c_prefix needle (x # xs) then Some 0 else map_option Suc (c_strstr xs needle))"

definition c_tolower :: "byte \<Rightarrow> byte" where
  "c_tolower c = (if 65 \<le> c \<and> c \<le> 90 then c + 32 else c)"

definition c_toupper :: "byte \<Rightarrow> byte" where
  "c_toupper c = (if 97 \<le> c \<and> c \<le> 122 then c - 32 else c)"

section \<open>Buffers\<close>

definition getEmptyString :: "smem \<Rightarrow> (ptr \<times> smem) option" where
  "getEmptyString m = do { m1 \<leftarrow> sb_acquire m 0; Some (Some 0, m1) }"

definition allocFromUTF8 :: "smem \<Rightarrow> cptr \<Rightarrow> nat \<Rightarrow> (ptr \<times> smem) option" where
  "allocFromUTF8 m inp len = (case inp of
     None \<Rightarrow> Some (None, m)
   | Some d \<Rightarrow>
     if 0 < len \<and> len < s8_maxsize
     then do {
       let (a, m1) = sb_alloc m (len + 1);
       m2 \<leftarrow> sb_write m1 a 0 (replicate (len + 1) 0);
       m3 \<leftarrow> (if len \<le> length d then sb_write m2 a 0 (take len d) else None);
       Some (Some a, m3) }
     else Some (None, m))"

text \<open>\<^verbatim>\<open>getBuffer\<close> also sets \<^verbatim>\<open>mCapacity\<close>; the result is the block, the capacity and the memory.\<close>

definition getBuffer :: "smem \<Rightarrow> nat \<Rightarrow> (addr \<times> nat \<times> smem) option" where
  "getBuffer m numChars = do {
     cap \<leftarrow> (if numChars < s8_default_size then Some s8_default_size
            else if numChars < s8_maxsize then Some numChars else None);
     let (a, m1) = sb_alloc m (cap + 1);
     m2 \<leftarrow> sb_write m1 a 0 (replicate (cap + 1) 0);
     Some (a, cap, m2) }"

definition s8_detach :: "smem \<Rightarrow> str8 \<Rightarrow> (str8 \<times> smem) option" where
  "s8_detach m s = (case mString s of
     None \<Rightarrow> do { (a, cap, m1) \<leftarrow> getBuffer m 0; Some (\<lparr>mString = Some a, mCapacity = cap\<rparr>, m1) }
   | Some a \<Rightarrow> do {
       b \<leftarrow> m_bufs m a;
       if \<not> sb_onlyOwner b
       then do {
         (a', m1) \<leftarrow> sb_editResize m a (mCapacity s + 1);
         Some (s\<lparr>mString := Some a'\<rparr>, m1) }
       else Some (s, m) })"

definition s8_release :: "smem \<Rightarrow> str8 \<Rightarrow> (str8 \<times> smem) option" where
  "s8_release m s = (case mString s of
     None \<Rightarrow> Some (\<lparr>mString = None, mCapacity = 0\<rparr>, m)
   | Some a \<Rightarrow> do {
       (_, m1) \<leftarrow> sb_release m a False;
       Some (\<lparr>mString = None, mCapacity = 0\<rparr>, m1) })"

text \<open>The bytes that can be read from \<^verbatim>\<open>mString + i\<close>.\<close>

definition s8_bytes :: "smem \<Rightarrow> str8 \<Rightarrow> nat \<Rightarrow> byte list option" where
  "s8_bytes m s i = do {
     a \<leftarrow> mString s;
     b \<leftarrow> m_bufs m a;
     if i \<le> length (sb_data b) then Some (drop i (sb_data b)) else None }"

definition s8_length :: "smem \<Rightarrow> str8 \<Rightarrow> nat option" where
  "s8_length m s = (case mString s of
     None \<Rightarrow> Some 0
   | Some _ \<Rightarrow> do { d \<leftarrow> s8_bytes m s 0; c_strlen d })"

definition s8_write :: "smem \<Rightarrow> str8 \<Rightarrow> nat \<Rightarrow> byte list \<Rightarrow> smem option" where
  "s8_write m s i bs = do { a \<leftarrow> mString s; sb_write m a i bs }"

definition s8_read :: "smem \<Rightarrow> str8 \<Rightarrow> nat \<Rightarrow> nat \<Rightarrow> byte list option" where
  "s8_read m s i n = do { a \<leftarrow> mString s; sb_read m a i n }"

section \<open>Constructors and destructor\<close>

definition s8_or_empty :: "smem \<Rightarrow> ptr \<Rightarrow> nat \<Rightarrow> (str8 \<times> smem) option" where
  "s8_or_empty m p cap = (case p of
     None \<Rightarrow> do { (e, m1) \<leftarrow> getEmptyString m; Some (\<lparr>mString = e, mCapacity = 0\<rparr>, m1) }
   | Some a \<Rightarrow> Some (\<lparr>mString = Some a, mCapacity = cap\<rparr>, m))"

definition s8_new :: "smem \<Rightarrow> (str8 \<times> smem) option" where
  "s8_new m = do { (e, m1) \<leftarrow> getEmptyString m; Some (\<lparr>mString = e, mCapacity = 0\<rparr>, m1) }"

definition s8_new_size :: "smem \<Rightarrow> nat \<Rightarrow> (str8 \<times> smem) option" where
  "s8_new_size m n = do {
     (a, cap, m1) \<leftarrow> getBuffer m n; Some (\<lparr>mString = Some a, mCapacity = cap\<rparr>, m1) }"

definition s8_new_copy :: "smem \<Rightarrow> str8 \<Rightarrow> (str8 \<times> smem) option" where
  "s8_new_copy m other = do { a \<leftarrow> mString other; m1 \<leftarrow> sb_acquire m a; Some (other, m1) }"

definition s8_new_cstr :: "smem \<Rightarrow> byte list \<Rightarrow> (str8 \<times> smem) option" where
  "s8_new_cstr m other = do {
     len \<leftarrow> c_strlen other;
     (p, m1) \<leftarrow> allocFromUTF8 m (Some other) len;
     s8_or_empty m1 p len }"

definition s8_new_chars :: "smem \<Rightarrow> cptr \<Rightarrow> nat \<Rightarrow> (str8 \<times> smem) option" where
  "s8_new_chars m other numChars = do {
     (p, m1) \<leftarrow> allocFromUTF8 m other numChars;
     s8_or_empty m1 p numChars }"

text \<open>A \<^verbatim>\<open>std::string\<close> is its characters; its \<^verbatim>\<open>c_str\<close> adds the terminator.\<close>

definition s8_new_std :: "smem \<Rightarrow> byte list \<Rightarrow> (str8 \<times> smem) option" where
  "s8_new_std m other = do {
     (p, m1) \<leftarrow> allocFromUTF8 m (Some (other @ [0])) (length other);
     s8_or_empty m1 p (length other) }"

text \<open>The move constructor returns the new object and what is left in the old one.\<close>

definition s8_new_move :: "smem \<Rightarrow> str8 \<Rightarrow> (str8 \<times> str8 \<times> smem) option" where
  "s8_new_move m other = do {
     (e, m1) \<leftarrow> getEmptyString m;
     _ \<leftarrow> mString other;
     Some (other, \<lparr>mString = e, mCapacity = 0\<rparr>, m1) }"

section \<open>Searching\<close>

definition s8_find :: "smem \<Rightarrow> str8 \<Rightarrow> byte list \<Rightarrow> nat \<Rightarrow> int option" where
  "s8_find m s other start = do {
     hay \<leftarrow> s8_bytes m s start;
     _ \<leftarrow> c_strlen hay;
     _ \<leftarrow> c_strlen other;
     Some (case c_strstr (cstr hay) (cstr other) of Some i \<Rightarrow> int (start + i) | None \<Rightarrow> - 1) }"

definition s8_find_str :: "smem \<Rightarrow> str8 \<Rightarrow> str8 \<Rightarrow> nat \<Rightarrow> int option" where
  "s8_find_str m s other start = do { d \<leftarrow> s8_bytes m other 0; s8_find m s d start }"

definition s8_find_char :: "smem \<Rightarrow> str8 \<Rightarrow> byte \<Rightarrow> nat \<Rightarrow> int option" where
  "s8_find_char m s c start = do {
     hay \<leftarrow> s8_bytes m s start;
     _ \<leftarrow> c_strlen hay;
     Some (case c_strstr (cstr hay @ [0]) [c] of Some i \<Rightarrow> int (start + i) | None \<Rightarrow> - 1) }"

text \<open>First and last position of a character other than \<^verbatim>\<open>c\<close>; the second loop stops before position 0.\<close>

definition s8_findNotChar :: "smem \<Rightarrow> str8 \<Rightarrow> byte \<Rightarrow> (int \<times> int) option" where
  "s8_findNotChar m s c = do {
     len \<leftarrow> s8_length m s;
     d \<leftarrow> s8_read m s 0 len;
     let begin = (case find (\<lambda>i. d ! i \<noteq> c) [0..<len] of Some i \<Rightarrow> int i | None \<Rightarrow> - 1);
     let last = (case find (\<lambda>i. d ! i \<noteq> c) (rev [1..<len]) of Some i \<Rightarrow> int i | None \<Rightarrow> - 1);
     Some (begin, last) }"

section \<open>Pieces of a string\<close>

definition s8_left :: "smem \<Rightarrow> str8 \<Rightarrow> nat \<Rightarrow> (str8 \<times> smem) option" where
  "s8_left m s n = do { d \<leftarrow> s8_bytes m s 0; s8_new_chars m (Some d) n }"

definition s8_right :: "smem \<Rightarrow> str8 \<Rightarrow> nat \<Rightarrow> (str8 \<times> smem) option" where
  "s8_right m s n = do {
     len \<leftarrow> s8_length m s;
     if len \<le> n then s8_new m
     else do {
       d \<leftarrow> s8_bytes m s (len - n);
       (temp, m1) \<leftarrow> s8_new_chars m (Some d) n;
       (ret, temp, m2) \<leftarrow> s8_new_move m1 temp;
       (_, m3) \<leftarrow> s8_release m2 temp;
       Some (ret, m3) } }"

definition s8_trim :: "smem \<Rightarrow> str8 \<Rightarrow> byte \<Rightarrow> (str8 \<times> smem) option" where
  "s8_trim m s c = do {
     (s, m) \<leftarrow> s8_detach m s;
     (begin, last) \<leftarrow> s8_findNotChar m s c;
     len \<leftarrow> s8_length m s;
     if begin < 0 \<and> last < 0 then do { m \<leftarrow> s8_write m s 0 [0]; Some (s, m) }
     else if begin = 0 \<and> last = int len then Some (s, m)
     else do {
       let n = nat (last - begin + 1);
       d \<leftarrow> s8_read m s (nat begin) n;
       m \<leftarrow> s8_write m s 0 d;
       m \<leftarrow> s8_write m s n [0];
       Some (s, m) } }"

definition s8_trimLeft :: "smem \<Rightarrow> str8 \<Rightarrow> byte \<Rightarrow> (str8 \<times> smem) option" where
  "s8_trimLeft m s c = do {
     (s, m) \<leftarrow> s8_detach m s;
     (begin, last) \<leftarrow> s8_findNotChar m s c;
     if begin < 0 \<and> last < 0 then do { m \<leftarrow> s8_write m s 0 [0]; Some (s, m) }
     else if begin = 0 then Some (s, m)
     else do {
       len \<leftarrow> s8_length m s;
       let n = len - nat begin;
       d \<leftarrow> s8_read m s (nat begin) n;
       m \<leftarrow> s8_write m s 0 d;
       m \<leftarrow> s8_write m s n [0];
       Some (s, m) } }"

definition s8_trimRight :: "smem \<Rightarrow> str8 \<Rightarrow> byte \<Rightarrow> (str8 \<times> smem) option" where
  "s8_trimRight m s c = do {
     (s, m) \<leftarrow> s8_detach m s;
     (begin, last) \<leftarrow> s8_findNotChar m s c;
     if begin < 0 \<and> last < 0 then do { m \<leftarrow> s8_write m s 0 [0]; Some (s, m) }
     else do {
       len \<leftarrow> s8_length m s;
       if last = int len - 1 then Some (s, m)
       else do { m \<leftarrow> s8_write m s (nat (last + 1)) [0]; Some (s, m) } } }"

definition s8_clear :: "smem \<Rightarrow> str8 \<Rightarrow> (str8 \<times> smem) option" where
  "s8_clear m s = do {
     (s, m) \<leftarrow> s8_detach m s;
     len \<leftarrow> s8_length m s;
     m \<leftarrow> s8_write m s 0 (replicate len 0);
     Some (s, m) }"

definition s8_reverse :: "smem \<Rightarrow> str8 \<Rightarrow> (str8 \<times> smem) option" where
  "s8_reverse m s = do {
     len \<leftarrow> s8_length m s;
     if len = 0 then s8_new m
     else do {
       d \<leftarrow> s8_bytes m s 0;
       (ret, m) \<leftarrow> s8_new_cstr m d;
       (ret, m) \<leftarrow> s8_clear m ret;
       d \<leftarrow> s8_read m s 0 len;
       m \<leftarrow> s8_write m ret 0 (rev d);
       Some (ret, m) } }"

definition s8_resize :: "smem \<Rightarrow> str8 \<Rightarrow> nat \<Rightarrow> (str8 \<times> smem) option" where
  "s8_resize m s n = do {
     d \<leftarrow> s8_bytes m s 0;
     (temp, m) \<leftarrow> s8_new_chars m (Some d) n;
     (_, m) \<leftarrow> s8_release m s;
     Some (temp, m) }"

definition s8_toStdString :: "smem \<Rightarrow> str8 \<Rightarrow> byte list option" where
  "s8_toStdString m s = do { d \<leftarrow> s8_bytes m s 0; _ \<leftarrow> c_strlen d; Some (cstr d) }"

definition s8_empty :: "smem \<Rightarrow> str8 \<Rightarrow> bool option" where
  "s8_empty m s = do { d \<leftarrow> s8_read m s 0 1; Some (d ! 0 = 0) }"

section \<open>Assignment and append\<close>

definition s8_setTo :: "smem \<Rightarrow> str8 \<Rightarrow> cptr \<Rightarrow> nat \<Rightarrow> (int \<times> str8 \<times> smem) option" where
  "s8_setTo m s other numChars = (case other of
     None \<Rightarrow> Some (invalid_param, s, m)
   | Some d \<Rightarrow>
     if numChars = 0 then Some (invalid_param, s, m)
     else do {
       otherLen \<leftarrow> c_strlen d;
       let n = (if numChars > otherLen then otherLen else numChars);
       case mString s of
         None \<Rightarrow> do {
           (a, cap, m) \<leftarrow> getBuffer m n;
           m \<leftarrow> sb_write m a 0 (take n d);
           Some (int n, \<lparr>mString = Some a, mCapacity = cap\<rparr>, m) }
       | Some p \<Rightarrow>
         if mCapacity s < n
         then do {
           (_, m) \<leftarrow> s8_release m s;
           (a, cap, m) \<leftarrow> getBuffer m n;
           m \<leftarrow> sb_write m a 0 (take n d);
           Some (int n, \<lparr>mString = Some a, mCapacity = cap\<rparr>, m) }
         else do {
           b \<leftarrow> m_bufs m p;
           if sb_onlyOwner b
           then do {
             (s, m) \<leftarrow> s8_clear m s;
             m \<leftarrow> s8_write m s 0 (take n d);
             Some (int n, s, m) }
           else do {
             (temp, m) \<leftarrow> s8_new_chars m other n;
             (_, m) \<leftarrow> s8_release m \<lparr>mString = mString s, mCapacity = mCapacity temp\<rparr>;
             Some (0, s\<lparr>mString := mString temp\<rparr>, m) } } })"

definition s8_setTo_cstr :: "smem \<Rightarrow> str8 \<Rightarrow> byte list \<Rightarrow> (int \<times> str8 \<times> smem) option" where
  "s8_setTo_cstr m s other = do { len \<leftarrow> c_strlen other; s8_setTo m s (Some other) len }"

definition s8_append :: "smem \<Rightarrow> str8 \<Rightarrow> cptr \<Rightarrow> nat \<Rightarrow> (int \<times> str8 \<times> smem) option" where
  "s8_append m s other numChars = (case other of
     None \<Rightarrow> Some (0, s, m)
   | Some d \<Rightarrow>
     if numChars = 0 then Some (0, s, m)
     else do {
       len \<leftarrow> s8_length m s;
       if len = 0 then s8_setTo m s other numChars
       else do {
         sz \<leftarrow> c_strlen d;
         let sz = (if sz > numChars then numChars else sz);
         if sz = 0 then Some (0, s, m)
         else do {
           let totalSize = sz + len;
           if totalSize < mCapacity s
           then do {
             (s, m) \<leftarrow> s8_detach m s;
             m \<leftarrow> s8_write m s len (take sz d);
             m \<leftarrow> s8_write m s totalSize [0];
             Some (int sz, s, m) }
           else do {
             (a, cap, m) \<leftarrow> getBuffer m totalSize;
             old \<leftarrow> s8_read m s 0 len;
             m \<leftarrow> sb_write m a 0 old;
             m \<leftarrow> sb_write m a len (take sz d);
             (_, m) \<leftarrow> s8_release m s;
             Some (int sz, \<lparr>mString = Some a, mCapacity = cap\<rparr>, m) } } } })"

definition s8_append_char :: "smem \<Rightarrow> str8 \<Rightarrow> byte \<Rightarrow> (int \<times> str8 \<times> smem) option" where
  "s8_append_char m s ch = s8_append m s (Some [ch, 0]) 1"

definition s8_append_str :: "smem \<Rightarrow> str8 \<Rightarrow> str8 \<Rightarrow> (int \<times> str8 \<times> smem) option" where
  "s8_append_str m s other = do {
     len \<leftarrow> s8_length m other;
     s8_append m s (s8_bytes m other 0) len }"

definition s8_append_cstr :: "smem \<Rightarrow> str8 \<Rightarrow> byte list \<Rightarrow> (int \<times> str8 \<times> smem) option" where
  "s8_append_cstr m s other = do { len \<leftarrow> c_strlen other; s8_append m s (Some other) len }"

text \<open>Copy assignment from another object, from characters, and move assignment (a swap).\<close>

definition s8_assign :: "smem \<Rightarrow> str8 \<Rightarrow> str8 \<Rightarrow> (str8 \<times> smem) option" where
  "s8_assign m s other = do {
     (_, m) \<leftarrow> s8_release m s;
     a \<leftarrow> mString other;
     m \<leftarrow> sb_acquire m a;
     Some (other, m) }"

definition s8_assign_cstr :: "smem \<Rightarrow> str8 \<Rightarrow> byte list \<Rightarrow> (str8 \<times> smem) option" where
  "s8_assign_cstr m s other = do { (_, s, m) \<leftarrow> s8_setTo_cstr m s other; Some (s, m) }"

definition s8_assign_move :: "str8 \<Rightarrow> str8 \<Rightarrow> str8 \<times> str8" where
  "s8_assign_move s other = (other, s)"

definition s8_plus :: "smem \<Rightarrow> str8 \<Rightarrow> str8 \<Rightarrow> (str8 \<times> smem) option" where
  "s8_plus m s other = do {
     (tmp, m) \<leftarrow> s8_new_copy m s;
     (_, tmp, m) \<leftarrow> s8_append_str m tmp other;
     Some (tmp, m) }"

definition s8_plus_cstr :: "smem \<Rightarrow> str8 \<Rightarrow> byte list \<Rightarrow> (str8 \<times> smem) option" where
  "s8_plus_cstr m s other = do {
     (tmp, m) \<leftarrow> s8_new_copy m s;
     (_, tmp, m) \<leftarrow> s8_append_cstr m tmp other;
     Some (tmp, m) }"

definition s8_substr :: "smem \<Rightarrow> str8 \<Rightarrow> nat \<Rightarrow> nat \<Rightarrow> (str8 \<times> smem) option" where
  "s8_substr m s start stop = do {
     (ret, m) \<leftarrow> s8_new m;
     len \<leftarrow> s8_length m s;
     if len \<le> start \<or> len \<le> stop \<or> stop \<le> start then Some (ret, m)
     else do {
       d \<leftarrow> s8_bytes m s start;
       (temp, m) \<leftarrow> s8_new_chars m (Some d) stop;
       (ret, temp) \<leftarrow> Some (s8_assign_move ret temp);
       (_, m) \<leftarrow> s8_release m temp;
       Some (ret, m) } }"

definition s8_contains :: "smem \<Rightarrow> str8 \<Rightarrow> byte list \<Rightarrow> bool option" where
  "s8_contains m s other = do {
     d \<leftarrow> s8_bytes m s 0;
     _ \<leftarrow> c_strlen d;
     _ \<leftarrow> c_strlen other;
     Some (c_strstr (cstr d) (cstr other) \<noteq> None) }"

definition s8_removeOne :: "smem \<Rightarrow> str8 \<Rightarrow> byte list \<Rightarrow> (bool \<times> smem) option" where
  "s8_removeOne m s other = do {
     start \<leftarrow> s8_find m s other 0;
     if start < 0 then Some (False, m)
     else do {
       oldLen \<leftarrow> s8_length m s;
       otherLen \<leftarrow> c_strlen other;
       let stop = otherLen + nat start;
       d \<leftarrow> s8_read m s stop (oldLen - stop);
       m \<leftarrow> s8_write m s (nat start) d;
       m \<leftarrow> s8_write m s (oldLen - otherLen) [0];
       Some (True, m) } }"

text \<open>The loop of \<^verbatim>\<open>removeAll\<close>; it need not end, and \<^term>\<open>None\<close> is also the value then.\<close>

partial_function (option) s8_remove_loop :: "smem \<Rightarrow> str8 \<Rightarrow> byte list \<Rightarrow> smem option" where
  "s8_remove_loop m s other = do {
     (more, m) \<leftarrow> s8_removeOne m s other;
     if more then s8_remove_loop m s other else Some m }"

definition s8_removeAll :: "smem \<Rightarrow> str8 \<Rightarrow> byte list \<Rightarrow> (bool \<times> str8 \<times> smem) option" where
  "s8_removeAll m s other = do {
     (s, m) \<leftarrow> s8_detach m s;
     m \<leftarrow> s8_remove_loop m s other;
     Some (True, s, m) }"

section \<open>Changing characters in place\<close>

text \<open>The loop bound \<^verbatim>\<open>length()\<close> is read again each time: writing a terminator ends the loop.\<close>

fun replace_loop :: "byte \<Rightarrow> byte \<Rightarrow> byte list \<Rightarrow> byte list \<times> nat" where
  "replace_loop old new [] = ([], 0)"
| "replace_loop old new (x # xs) =
    (if x = old
     then if new = 0 then (new # xs, 1)
       else (let (ys, k) = replace_loop old new xs in (new # ys, k + 1))
     else (let (ys, k) = replace_loop old new xs in (x # ys, k)))"

definition s8_replaceAll :: "smem \<Rightarrow> str8 \<Rightarrow> byte \<Rightarrow> byte \<Rightarrow> (int \<times> smem) option" where
  "s8_replaceAll m s old new =
    (if new = old then Some (0, m)
     else do {
       len \<leftarrow> s8_length m s;
       d \<leftarrow> s8_read m s 0 len;
       let (d', count) = replace_loop old new d;
       m \<leftarrow> s8_write m s 0 d';
       Some (int count, m) })"

text \<open>The loops run from \<^verbatim>\<open>start\<close> while \<^verbatim>\<open>i < numChars\<close> and \<^verbatim>\<open>i < size\<close>.\<close>

definition s8_map_range :: "(byte \<Rightarrow> byte) \<Rightarrow> smem \<Rightarrow> str8 \<Rightarrow> nat \<Rightarrow> nat \<Rightarrow> smem option" where
  "s8_map_range f m s start numChars = do {
     len \<leftarrow> s8_length m s;
     if start < len
     then do {
       d \<leftarrow> s8_read m s start (min numChars len - start);
       s8_write m s start (map f d) }
     else Some m }"

definition s8_toLower_range :: "smem \<Rightarrow> str8 \<Rightarrow> nat \<Rightarrow> nat \<Rightarrow> smem option" where
  "s8_toLower_range m s start numChars = s8_map_range c_tolower m s start numChars"

definition s8_toUpper_range :: "smem \<Rightarrow> str8 \<Rightarrow> nat \<Rightarrow> nat \<Rightarrow> smem option" where
  "s8_toUpper_range m s start numChars = s8_map_range c_toupper m s start numChars"

definition s8_toLower :: "smem \<Rightarrow> str8 \<Rightarrow> smem option" where
  "s8_toLower m s = do { len \<leftarrow> s8_length m s; s8_toLower_range m s 0 len }"

definition s8_toUpper :: "smem \<Rightarrow> str8 \<Rightarrow> smem option" where
  "s8_toUpper m s = do { len \<leftarrow> s8_length m s; s8_toUpper_range m s 0 len }"

text \<open>A reference to a character: the object may be detached, an index past the end is the end.\<close>

definition s8_index :: "smem \<Rightarrow> str8 \<Rightarrow> nat \<Rightarrow> ((addr \<times> nat) \<times> str8 \<times> smem) option" where
  "s8_index m s i = do {
     (s, m) \<leftarrow> s8_detach m s;
     a \<leftarrow> mString s;
     Some ((a, if mCapacity s \<le> i then mCapacity s else i), s, m) }"

section \<open>Comparison\<close>

definition s8_stringcompare :: "smem \<Rightarrow> str8 \<Rightarrow> cptr \<Rightarrow> int option" where
  "s8_stringcompare m s other = (case (mString s, other) of
     (Some _, Some d) \<Rightarrow> do {
       v \<leftarrow> s8_bytes m s 0;
       _ \<leftarrow> c_strlen v;
       _ \<leftarrow> c_strlen d;
       Some (c_strcmp (cstr v) (cstr d)) }
   | _ \<Rightarrow> Some (- 0xFFFF))"

definition s8_compare :: "smem \<Rightarrow> str8 \<Rightarrow> str8 \<Rightarrow> int option" where
  "s8_compare m s other = s8_stringcompare m s (s8_bytes m other 0)"

definition s8_compare_cstr :: "smem \<Rightarrow> str8 \<Rightarrow> cptr \<Rightarrow> int option" where
  "s8_compare_cstr m s other = s8_stringcompare m s other"

definition s8_ncompare :: "smem \<Rightarrow> str8 \<Rightarrow> cptr \<Rightarrow> nat \<Rightarrow> int option" where
  "s8_ncompare m s other n = (case other of
     None \<Rightarrow> Some 1
   | Some d \<Rightarrow> do {
       v \<leftarrow> s8_bytes m s 0;
       Some (c_strcmp (take n (cstr v)) (take n (cstr d))) })"

definition s8_strcasecmp :: "smem \<Rightarrow> str8 \<Rightarrow> byte list \<Rightarrow> int option" where
  "s8_strcasecmp m s other = (case mString s of
     None \<Rightarrow> Some (- 1)
   | Some _ \<Rightarrow> do {
       v \<leftarrow> s8_bytes m s 0;
       _ \<leftarrow> c_strlen v;
       _ \<leftarrow> c_strlen other;
       Some (c_strcmp (map c_tolower (cstr v)) (map c_tolower (cstr other))) })"

definition s8_lt :: "smem \<Rightarrow> str8 \<Rightarrow> str8 \<Rightarrow> bool option" where
  "s8_lt m s other = do { r \<leftarrow> s8_compare m s other; Some (r < 0) }"

definition s8_le :: "smem \<Rightarrow> str8 \<Rightarrow> str8 \<Rightarrow> bool option" where
  "s8_le m s other = do { r \<leftarrow> s8_compare m s other; Some (r \<le> 0) }"

definition s8_eq :: "smem \<Rightarrow> str8 \<Rightarrow> str8 \<Rightarrow> bool option" where
  "s8_eq m s other = do { r \<leftarrow> s8_compare m s other; Some (r = 0) }"

definition s8_ne :: "smem \<Rightarrow> str8 \<Rightarrow> str8 \<Rightarrow> bool option" where
  "s8_ne m s other = do { r \<leftarrow> s8_compare m s other; Some (r \<noteq> 0) }"

definition s8_ge :: "smem \<Rightarrow> str8 \<Rightarrow> str8 \<Rightarrow> bool option" where
  "s8_ge m s other = do { r \<leftarrow> s8_compare m s other; Some (r \<ge> 0) }"

definition s8_gt :: "smem \<Rightarrow> str8 \<Rightarrow> str8 \<Rightarrow> bool option" where
  "s8_gt m s other = do { r \<leftarrow> s8_compare m s other; Some (r > 0) }"

definition s8_lt_cstr :: "smem \<Rightarrow> str8 \<Rightarrow> cptr \<Rightarrow> bool option" where
  "s8_lt_cstr m s other = do { r \<leftarrow> s8_stringcompare m s other; Some (r < 0) }"

definition s8_le_cstr :: "smem \<Rightarrow> str8 \<Rightarrow> cptr \<Rightarrow> bool option" where
  "s8_le_cstr m s other = do { r \<leftarrow> s8_stringcompare m s other; Some (r \<le> 0) }"

definition s8_eq_cstr :: "smem \<Rightarrow> str8 \<Rightarrow> cptr \<Rightarrow> bool option" where
  "s8_eq_cstr m s other = do { r \<leftarrow> s8_stringcompare m s other; Some (r = 0) }"

definition s8_ne_cstr :: "smem \<Rightarrow> str8 \<Rightarrow> cptr \<Rightarrow> bool option" where
  "s8_ne_cstr m s other = do { r \<leftarrow> s8_stringcompare m s other; Some (r \<noteq> 0) }"

definition s8_ge_cstr :: "smem \<Rightarrow> str8 \<Rightarrow> cptr \<Rightarrow> bool option" where
  "s8_ge_cstr m s other = do { r \<leftarrow> s8_stringcompare m s other; Some (r \<ge> 0) }"

definition s8_gt_cstr :: "smem \<Rightarrow> str8 \<Rightarrow> cptr \<Rightarrow> bool option" where
  "s8_gt_cstr m s other = do { r \<leftarrow> s8_stringcompare m s other; Some (r > 0) }"

section \<open>The last occurrence\<close>

definition s8_find_last_of :: "smem \<Rightarrow> str8 \<Rightarrow> byte list \<Rightarrow> (int \<times> smem) option" where
  "s8_find_last_of m s key = do {
     (keyStr, m) \<leftarrow> s8_new_cstr m key;
     d \<leftarrow> s8_bytes m s 0;
     (value, m) \<leftarrow> s8_new_cstr m d;
     (valReverse, m) \<leftarrow> s8_reverse m value;
     (keyReverse, m) \<leftarrow> s8_reverse m keyStr;
     vr \<leftarrow> s8_length m valReverse;
     v \<leftarrow> s8_length m value;
     kr \<leftarrow> s8_length m keyReverse;
     k \<leftarrow> s8_length m keyStr;
     if vr = v \<and> kr = k
     then do {
       kd \<leftarrow> s8_bytes m keyReverse 0;
       index \<leftarrow> s8_find m valReverse kd 0;
       len \<leftarrow> s8_length m s;
       (_, m) \<leftarrow> s8_release m keyReverse;
       (_, m) \<leftarrow> s8_release m valReverse;
       (_, m) \<leftarrow> s8_release m value;
       (_, m) \<leftarrow> s8_release m keyStr;
       Some (if index < 0 then index else int len - index - int k, m) }
     else None }"

section \<open>Formatted output\<close>

text \<open>\<^verbatim>\<open>out\<close> is what \<^verbatim>\<open>vsnprintf\<close> makes of the format and the arguments.\<close>

definition s8_formatV :: "smem \<Rightarrow> byte list \<Rightarrow> (str8 \<times> smem) option" where
  "s8_formatV m out = do {
     (result, m) \<leftarrow> s8_new m;
     if 0 < length out
     then do {
       let cap = length out;
       let (a, m) = sb_alloc m (cap + 1);
       m \<leftarrow> sb_write m a 0 (out @ [0]);
       m \<leftarrow> sb_write m a cap [0];
       (_, m) \<leftarrow> s8_release m result;
       Some (\<lparr>mString = Some a, mCapacity = cap\<rparr>, m) }
     else Some (result, m) }"

definition s8_appendFormatV :: "smem \<Rightarrow> str8 \<Rightarrow> byte list \<Rightarrow> (int \<times> str8 \<times> smem) option" where
  "s8_appendFormatV m s out = do {
     let n = length out;
     if n = 0 then Some (0, s, m)
     else do {
       oldLength \<leftarrow> s8_length m s;
       if s8_maxsize - 1 < oldLength + n then Some (- 1, s, m)
       else do {
         (s, m) \<leftarrow> s8_detach m s;
         if mCapacity s < oldLength + n
         then do {
           p \<leftarrow> mString s;
           (a, m) \<leftarrow> sb_editResize m p (oldLength + n + 1);
           m \<leftarrow> sb_write m a oldLength (out @ [0]);
           Some (int n, \<lparr>mString = Some a, mCapacity = oldLength + n\<rparr>, m) }
         else do {
           m \<leftarrow> s8_write m s oldLength (out @ [0]);
           Some (int n, s, m) } } } }"

text \<open>The hash is the standard library's hash of the characters.\<close>

definition s8_hash :: "(byte list \<Rightarrow> nat) \<Rightarrow> smem \<Rightarrow> str8 \<Rightarrow> nat option" where
  "s8_hash h m s = do { len \<leftarrow> s8_length m s; d \<leftarrow> s8_read m s 0 len; Some (h d) }"

end
