(* ===== verification/Str_Rep.thy ===== *)
theory Str_Rep
  imports Str_Ops
begin

text \<open>
  What a \<^verbatim>\<open>String8\<close> object stands for. \<^verbatim>\<open>str_is m R s v\<close>: the object \<^verbatim>\<open>s\<close> holds one reference,
  \<^verbatim>\<open>R\<close> are all the other references in the program, and the characters of \<^verbatim>\<open>s\<close> are \<^verbatim>\<open>v\<close>.
  The block is as large as \<^verbatim>\<open>mCapacity\<close> says and ends with a terminator. The lemmas give each
  operation's effect in this form; \<^verbatim>\<open>same_data m R m'\<close> in their conclusions says that no other
  object changes its characters.
\<close>

named_theorems str_simps \<open>rewriting the memory accesses of a string\<close>

section \<open>Representation\<close>

definition pool :: "smem \<Rightarrow> addr multiset \<Rightarrow> bool" where
  "pool m R \<longleftrightarrow> refs_ok m R \<and> 0 \<in># R \<and> data_at m 0 = [0]"

definition str_is :: "smem \<Rightarrow> addr multiset \<Rightarrow> str8 \<Rightarrow> byte list \<Rightarrow> bool" where
  "str_is m R s v \<longleftrightarrow> (\<exists>a. mString s = Some a \<and> refs_ok m (add_mset a R) \<and> 0 \<in># R \<and> data_at m 0 = [0]
     \<and> length (data_at m a) = mCapacity s + 1 \<and> data_at m a ! mCapacity s = 0 \<and> cstr (data_at m a) = v)"

lemma str_isI:
  "\<lbrakk>mString s = Some a; refs_ok m (add_mset a R); 0 \<in># R; data_at m 0 = [0];
    length (data_at m a) = mCapacity s + 1; data_at m a ! mCapacity s = 0; cstr (data_at m a) = v\<rbrakk>
    \<Longrightarrow> str_is m R s v"
  unfolding str_is_def by blast

lemma str_isE:
  assumes "str_is m R s v"
  obtains a where "mString s = Some a" "refs_ok m (add_mset a R)" "0 \<in># R" "data_at m 0 = [0]"
    "length (data_at m a) = mCapacity s + 1" "data_at m a ! mCapacity s = 0" "cstr (data_at m a) = v"
  using assms unfolding str_is_def by (elim exE conjE) (rule that)

lemma pool_same: "\<lbrakk>pool m R; refs_ok m' R; same_data m R m'\<rbrakk> \<Longrightarrow> pool m' R"
  using same_dataD[of m R m' 0] by (simp add: pool_def)

lemma str_is_0: "str_is m R s v \<Longrightarrow> 0 \<in># R \<and> data_at m 0 = [0]"
  by (auto simp: str_is_def)

section \<open>C strings in a block\<close>

lemma cstr_no_zero: "0 \<notin> set (cstr d)"
  by (induction d) (auto simp: cstr_def)

lemma cstr_id: "0 \<notin> set v \<Longrightarrow> cstr v = v"
  by (induction v) (auto simp: cstr_def)

lemma cstr_append_zero: "0 \<notin> set v \<Longrightarrow> cstr (v @ 0 # d) = v"
  by (induction v) (auto simp: cstr_def)

lemma cstr_split: "0 \<in> set d \<Longrightarrow> \<exists>r. d = cstr d @ 0 # r"
  by (induction d) (auto simp: cstr_def)

lemma length_cstr: "length (cstr d) \<le> length d"
  unfolding cstr_def by (rule length_takeWhile_le)

lemma take_cstr: "n \<le> length (cstr d) \<Longrightarrow> take n d = take n (cstr d)"
proof -
  assume n: "n \<le> length (cstr d)"
  have "take (length (cstr d)) d = cstr d"
    unfolding cstr_def by (rule takeWhile_eq_take[symmetric])
  then show ?thesis
    by (metis n min.absorb1 take_take)
qed

lemma cstr_nth: "i < length (cstr d) \<Longrightarrow> d ! i = cstr d ! i"
  unfolding cstr_def by (rule takeWhile_nth[symmetric])

lemma cstr_drop: "\<lbrakk>0 \<in> set d; i \<le> length (cstr d)\<rbrakk> \<Longrightarrow> cstr (drop i d) = drop i (cstr d) \<and> 0 \<in> set (drop i d)"
proof -
  assume z: "0 \<in> set d" and i: "i \<le> length (cstr d)"
  obtain r where r: "d = cstr d @ 0 # r" using cstr_split[OF z] by blast
  have "drop i d = drop i (cstr d) @ 0 # r"
    using i by (subst r) simp
  moreover have "0 \<notin> set (drop i (cstr d))"
    using cstr_no_zero by (metis in_set_dropD)
  ultimately show ?thesis by (simp add: cstr_append_zero)
qed

lemma zero_in: "\<lbrakk>length d = n + 1; d ! n = 0\<rbrakk> \<Longrightarrow> 0 \<in> set d"
  by (metis less_add_one nth_mem)

lemma length_cstr_cap: "\<lbrakk>length d = n + 1; d ! n = 0\<rbrakk> \<Longrightarrow> length (cstr d) \<le> n"
proof (rule ccontr)
  assume d: "length d = n + 1" "d ! n = 0" and "\<not> length (cstr d) \<le> n"
  then have "length (cstr d) = length d" using length_cstr[of d] by simp
  then have "cstr d = d" using take_cstr[of "length d" d] by simp
  then show False using cstr_no_zero[of d] zero_in[OF d] by simp
qed

text \<open>A terminator written at the end of a text.\<close>

lemma cstr_put: "\<lbrakk>0 \<notin> set v; length v \<le> length d\<rbrakk> \<Longrightarrow> cstr (v @ [0] @ r) = v"
  using cstr_append_zero by simp

section \<open>Reading\<close>

lemma block_of:
  assumes "str_is m R s v" "mString s = Some a"
  shows "\<exists>b. m_bufs m a = Some b \<and> sb_data b = data_at m a \<and> (sb_onlyOwner b \<longleftrightarrow> a \<notin># R)"
proof -
  have "refs_ok m (add_mset a R)" using assms by (auto simp: str_is_def)
  moreover obtain b where "m_bufs m a = Some b" "data_at m a = sb_data b"
    using refs_ok_obtain[OF calculation, of a] by (metis union_single_eq_member)
  ultimately show ?thesis using owner_iff by auto
qed

lemma bytes_ok:
  assumes "str_is m R s v" "mString s = Some a" "i \<le> length (data_at m a)"
  shows "s8_bytes m s i = Some (drop i (data_at m a))"
proof -
  obtain b where "m_bufs m a = Some b" "sb_data b = data_at m a"
    using block_of[OF assms(1,2)] by blast
  then show ?thesis using assms by (simp add: s8_bytes_def)
qed

lemma data_facts:
  assumes "str_is m R s v" "mString s = Some a"
  shows "0 \<in> set (data_at m a)" "cstr (data_at m a) = v" "length v \<le> mCapacity s"
    "length (data_at m a) = mCapacity s + 1" "refs_ok m (add_mset a R)" "data_at m a ! mCapacity s = 0"
    "0 \<notin> set v"
proof -
  obtain a' where a: "mString s = Some a'" "refs_ok m (add_mset a' R)"
    "length (data_at m a') = mCapacity s + 1" "data_at m a' ! mCapacity s = 0" "cstr (data_at m a') = v"
    using assms(1) by (rule str_isE)
  then show "0 \<in> set (data_at m a)" "cstr (data_at m a) = v" "length v \<le> mCapacity s"
    "length (data_at m a) = mCapacity s + 1" "refs_ok m (add_mset a R)" "data_at m a ! mCapacity s = 0"
    "0 \<notin> set v"
    using assms(2) zero_in length_cstr_cap cstr_no_zero by auto
qed

lemma length_ok [str_simps]: "str_is m R s v \<Longrightarrow> s8_length m s = Some (length v)"
proof -
  assume s: "str_is m R s v"
  then obtain a where a: "mString s = Some a" by (rule str_isE)
  show ?thesis
    using bytes_ok[OF s a, of 0] data_facts[OF s a] a
    by (simp add: s8_length_def c_strlen_def)
qed

lemma read_ok:
  assumes "str_is m R s v" "mString s = Some a" "i + n \<le> length (data_at m a)"
  shows "s8_read m s i n = Some (take n (drop i (data_at m a)))"
proof -
  obtain b where "m_bufs m a = Some b" "sb_data b = data_at m a"
    using block_of[OF assms(1,2)] by blast
  then show ?thesis using assms by (simp add: s8_read_def sb_read_def)
qed

lemma read_value:
  assumes "str_is m R s v" "i + n \<le> length v"
  shows "s8_read m s i n = Some (take n (drop i v))"
proof -
  obtain a where a: "mString s = Some a" using assms(1) by (rule str_isE)
  note f = data_facts[OF assms(1) a]
  have "take n (drop i (data_at m a)) = drop i (take (i + n) (data_at m a))"
    by (simp add: drop_take)
  also have "take (i + n) (data_at m a) = take (i + n) v"
    using assms(2) f(2) take_cstr by metis
  finally show ?thesis
    using read_ok[OF assms(1) a, of i n] assms(2) f(3,4) by (simp add: drop_take)
qed

section \<open>Writing\<close>

text \<open>Writes through an object that owns its block alone.\<close>

lemma write_own:
  assumes "str_is m R s v" "mString s = Some a" "a \<notin># R" "i + length bs \<le> length (data_at m a)"
  shows "\<exists>m'. s8_write m s i bs = Some m' \<and> refs_ok m' (add_mset a R) \<and> same_data m R m'
    \<and> data_at m' a = take i (data_at m a) @ bs @ drop (i + length bs) (data_at m a)"
  using write_ok[OF data_facts(5)[OF assms(1,2)] assms(3,4)] assms(2)
  by (auto simp: s8_write_def)

text \<open>Writing a text and its terminator, in the two steps most operations take.\<close>

lemma str_is_intro_same:
  assumes "str_is m R s v" "mString s = Some a" "refs_ok m' (add_mset a R)" "same_data m R m'"
    "length (data_at m' a) = mCapacity s + 1" "data_at m' a ! mCapacity s = 0" "cstr (data_at m' a) = w"
  shows "str_is m' R s w"
proof (rule str_isI[OF assms(2,3) _ _ assms(5,6,7)])
  show "0 \<in># R" using str_is_0[OF assms(1)] by simp
  then show "data_at m' 0 = [0]" using str_is_0[OF assms(1)] same_dataD[OF assms(4)] by simp
qed

text \<open>A write of characters that keeps the terminator, inside the text.\<close>

lemma write_inside:
  assumes "str_is m R s v" "mString s = Some a" "a \<notin># R" "i + length bs \<le> length v"
  shows "\<exists>m'. s8_write m s i bs = Some m'
    \<and> str_is m' R s (cstr (take i v @ bs @ drop (i + length bs) v)) \<and> same_data m R m'"
proof -
  note f = data_facts[OF assms(1,2)]
  have fit: "i + length bs \<le> length (data_at m a)"
    using assms(4) f(3,4) by simp
  obtain m' where m': "s8_write m s i bs = Some m'" "refs_ok m' (add_mset a R)" "same_data m R m'"
    "data_at m' a = take i (data_at m a) @ bs @ drop (i + length bs) (data_at m a)"
    using write_own[OF assms(1-3) fit] by (elim exE conjE) (rule that)
  obtain r where r: "data_at m a = v @ 0 # r" using cstr_split[OF f(1)] f(2) by auto
  have d: "data_at m' a = (take i v @ bs @ drop (i + length bs) v) @ 0 # r"
    using m'(4) assms(4) unfolding r by simp
  have "mCapacity s = length v + length r" using f(4) r by simp
  moreover have "length (take i v @ bs @ drop (i + length bs) v) = length v"
    using assms(4) by simp
  ultimately have "data_at m' a ! mCapacity s = (0 # r) ! length r"
    "data_at m a ! mCapacity s = (0 # r) ! length r"
    unfolding d r by (metis nth_append_length_plus)+
  then have "data_at m' a ! mCapacity s = 0" using f(6) by simp
  moreover have "length (data_at m' a) = mCapacity s + 1"
    using assms(4) f(4) unfolding d r by simp
  moreover have "cstr (data_at m' a) = cstr (take i v @ bs @ drop (i + length bs) v)"
  proof (cases "0 \<in> set (take i v @ bs @ drop (i + length bs) v)")
    case True
    then obtain r' where r': "take i v @ bs @ drop (i + length bs) v
        = cstr (take i v @ bs @ drop (i + length bs) v) @ 0 # r'"
      using cstr_split by blast
    show ?thesis
      unfolding d by (subst r') (simp add: cstr_append_zero cstr_no_zero)
  next
    case False
    then show ?thesis unfolding d cstr_append_zero[OF False] cstr_id[OF False] by simp
  qed
  ultimately have "str_is m' R s (cstr (take i v @ bs @ drop (i + length bs) v))"
    using str_is_intro_same[OF assms(1,2) m'(2,3)] by blast
  then show ?thesis using m'(1,3) by blast
qed

text \<open>A terminator inside the text cuts it.\<close>

lemma write_cut:
  assumes "str_is m R s v" "mString s = Some a" "a \<notin># R" "i \<le> length v"
  shows "\<exists>m'. s8_write m s i [0] = Some m' \<and> str_is m' R s (take i v) \<and> same_data m R m'"
proof (cases "i < length v")
  case True
  have "cstr (take i v @ [0] @ drop (i + 1) v) = take i v"
    using data_facts(7)[OF assms(1,2)] cstr_append_zero[of "take i v"] by (metis append_Cons append_Nil in_set_takeD)
  then show ?thesis
    using write_inside[OF assms(1-3), of i "[0]"] True by simp
next
  case False
  then have i: "i = length v" using assms(4) by simp
  note f = data_facts[OF assms(1,2)]
  have fit: "i + length [0 :: byte] \<le> length (data_at m a)"
    using i f(3,4) by simp
  obtain m' where m': "s8_write m s i [0] = Some m'" "refs_ok m' (add_mset a R)" "same_data m R m'"
    "data_at m' a = take i (data_at m a) @ [0] @ drop (i + length [0 :: byte]) (data_at m a)"
    using write_own[OF assms(1-3) fit] by (elim exE conjE) (rule that)
  obtain r where r: "data_at m a = v @ 0 # r" using cstr_split[OF f(1)] f(2) by auto
  have "data_at m' a = data_at m a" using m'(4) i unfolding r by simp
  then show ?thesis
    using str_is_intro_same[OF assms(1,2) m'(2,3)] f m'(1,3) i by auto
qed

text \<open>Characters written from an offset in the text, ended by a terminator, within the capacity.\<close>

lemma write_text:
  assumes "str_is m R s v" "mString s = Some a" "a \<notin># R" "i \<le> length v" "0 \<notin> set bs"
    and room: "i + length bs < mCapacity s"
  shows "\<exists>m1 m2. s8_write m s i bs = Some m1 \<and> s8_write m1 s (i + length bs) [0] = Some m2
    \<and> str_is m2 R s (take i v @ bs) \<and> same_data m R m2"
proof -
  note f = data_facts[OF assms(1,2)]
  let ?d = "data_at m a"
  have t: "take i ?d = take i v" using assms(4) f(2) take_cstr by metis
  have fit: "i + length bs \<le> length (data_at m a)"
    using room f(4) by simp
  obtain m1 where m1: "s8_write m s i bs = Some m1" "refs_ok m1 (add_mset a R)" "same_data m R m1"
    "data_at m1 a = take i ?d @ bs @ drop (i + length bs) ?d"
    using write_own[OF assms(1-3) fit] by (elim exE conjE) (rule that)
  have len1: "length (data_at m1 a) = mCapacity s + 1"
    using room f(4) unfolding m1(4) by simp
  obtain m2 where m2: "s8_write m1 s (i + length bs) [0] = Some m2" "refs_ok m2 (add_mset a R)" "same_data m1 R m2"
    "data_at m2 a = take (i + length bs) (data_at m1 a) @ [0] @ drop (i + length bs + 1) (data_at m1 a)"
    using write_ok[OF m1(2) assms(3), of "i + length bs" "[0]"] len1 room assms(2)
    by (auto simp: s8_write_def)
  have li: "length (take i ?d) = i" using assms(4) f(3,4) by simp
  have d2: "data_at m2 a = take i v @ bs @ [0] @ drop (i + length bs + 1) ?d"
    unfolding m2(4) m1(4) using li t by simp
  have "length (data_at m2 a) = mCapacity s + 1"
    unfolding m2(4) using len1 room by simp
  moreover have "data_at m2 a ! mCapacity s = 0"
  proof -
    have "data_at m2 a ! mCapacity s = ?d ! mCapacity s"
      unfolding d2 using room li t f(4) by (auto simp: nth_append nth_Cons')
    then show ?thesis using f(6) by simp
  qed
  moreover have "cstr (data_at m2 a) = take i v @ bs"
  proof -
    have "0 \<notin> set (take i v @ bs)" using assms(5) f(7) by (auto dest: in_set_takeD)
    then show ?thesis
      unfolding d2 using cstr_append_zero[of "take i v @ bs"] by simp
  qed
  moreover have "same_data m R m2" using m1(3) m2(3) by (rule same_data_trans)
  ultimately have "str_is m2 R s (take i v @ bs)"
    using str_is_intro_same[OF assms(1,2) m2(2)] by blast
  then show ?thesis using m1(1) m2(1) \<open>same_data m R m2\<close> by blast
qed

end
