(* ===== verification/Str_Kmp.thy ===== *)
theory Str_Kmp
  imports Str_Ops
begin

text \<open>
  The substring search of \<^verbatim>\<open>String8\<close> (\<^verbatim>\<open>kmp_strstr\<close> and \<^verbatim>\<open>getNext\<close> of
  \<^verbatim>\<open>src/utils/src/string8.cpp\<close>): after a mismatch at position j of the key the search moves on
  by j minus the length of the longest border of the matched part. The loops are the code's, in \<^verbatim>\<open>int\<close>;
  the property is that for a text below 2 GiB and a key below a megabyte the search returns the first
  place where the key occurs.
\<close>

section \<open>The code\<close>

text \<open>The key is the list of its characters; \<^verbatim>\<open>key\<close> in \<^verbatim>\<open>getNext\<close> holds the first \<^verbatim>\<open>n\<close> of them.\<close>

definition getNext :: "byte list \<Rightarrow> nat \<Rightarrow> nat" where
  "getNext key n =
    (if n < 2 then 0
     else if n = 2 then (if key ! 0 = key ! 1 then 1 else 0)
     else fold (\<lambda>k max. if take k (drop (n - k) key) = take k key then (if max < k then k else max) else max)
       [1..<n] 0)"

text \<open>
  The loops count in \<^verbatim>\<open>int\<close>, and the lengths are narrowed to it: a text of 2 GiB or more has a negative
  length. The inner loop compares the key with the text from \<^verbatim>\<open>i\<close> on and returns the \<^verbatim>\<open>j\<close> where it
  stops: the first difference, or the length of the key. \<^verbatim>\<open>v\<close> and \<^verbatim>\<open>k\<close> are the arrays, with their
  terminators and what is behind; a read outside of them or a sum that is no \<^verbatim>\<open>int\<close> is \<^term>\<open>None\<close>.
\<close>

definition int_of_size :: "nat \<Rightarrow> int" where
  "int_of_size n = signed_take_bit 31 (int n)"

function kmp_inner :: "byte list \<Rightarrow> byte list \<Rightarrow> int \<Rightarrow> int \<Rightarrow> int \<Rightarrow> int option" where
  "kmp_inner v k keyLen i j =
    (if j < keyLen
     then if i + j < 2 ^ 31 \<and> nat (i + j) < length v \<and> nat j < length k
       then if v ! nat (i + j) = k ! nat j then kmp_inner v k keyLen i (j + 1) else Some j
       else None
     else Some j)"
  by pat_completeness auto

termination kmp_inner
  by (relation "measure (\<lambda>(v, k, keyLen, i, j). nat (keyLen - j))") auto

declare kmp_inner.simps [simp del]

text \<open>
  The outer loop. The temporary \<^verbatim>\<open>String8(key, j)\<close> passed to \<^verbatim>\<open>getNext\<close> is empty from a megabyte on,
  and comparing its characters then leaves its buffer. With a key of negative length the loop stays
  where it is for ever.
\<close>

partial_function (option) kmp_loop :: "byte list \<Rightarrow> byte list \<Rightarrow> int \<Rightarrow> int \<Rightarrow> int \<Rightarrow> int option" where
  "kmp_loop v k valLen keyLen i =
    (if i < valLen
     then do {
       j \<leftarrow> kmp_inner v k keyLen i 0;
       (if j < keyLen
        then if 0 < j
          then if nat j < s8_maxsize
            then kmp_loop v k valLen keyLen (i + (j - int (getNext (take (nat j) k) (nat j))))
            else None
          else kmp_loop v k valLen keyLen (i + 1)
        else if j = keyLen then Some i
        else kmp_loop v k valLen keyLen i) }
     else Some (- 1))"

definition kmp_strstr :: "cptr \<Rightarrow> cptr \<Rightarrow> int option" where
  "kmp_strstr val key = (case (val, key) of
     (Some v, Some k) \<Rightarrow> do {
       valLen \<leftarrow> c_strlen v;
       keyLen \<leftarrow> c_strlen k;
       kmp_loop v k (int_of_size valLen) (int_of_size keyLen) 0 }
   | _ \<Rightarrow> Some invalid_param)"

section \<open>Borders\<close>

definition border :: "byte list \<Rightarrow> nat \<Rightarrow> bool" where
  "border p k \<longleftrightarrow> k < length p \<and> drop (length p - k) p = take k p"

lemma fold_max:
  fixes P :: "nat \<Rightarrow> bool"
  shows "sorted_wrt (<) ks \<Longrightarrow> \<forall>k \<in> set ks. m < k \<Longrightarrow>
    (let r = fold (\<lambda>k mx. if P k then (if mx < k then k else mx) else mx) ks m
     in (r = m \<or> r \<in> set ks \<and> P r) \<and> m \<le> r \<and> (\<forall>k \<in> set ks. P k \<longrightarrow> k \<le> r))"
proof (induction ks arbitrary: m)
  case (Cons k ks)
  show ?case
  proof (cases "P k")
    case True
    then show ?thesis
      using Cons.IH[of k] Cons.prems by (auto simp: Let_def)
  next
    case False
    then show ?thesis
      using Cons.IH[of m] Cons.prems by (auto simp: Let_def)
  qed
qed simp

text \<open>\<^verbatim>\<open>getNext\<close> is the longest proper border, written out specially for short keys.\<close>

lemma getNext_border:
  assumes "length p = n"
  shows "0 < n \<Longrightarrow> border p (getNext p n)" "border p k \<Longrightarrow> k \<le> getNext p n"
proof -
  have b: "border p k \<longleftrightarrow> k < n \<and> take k (drop (n - k) p) = take k p" for k
    using assms by (auto simp: border_def)
  consider "n < 2" | "n = 2" | "2 < n" by linarith
  then have "(0 < n \<longrightarrow> border p (getNext p n)) \<and> (\<forall>k. border p k \<longrightarrow> k \<le> getNext p n)"
  proof cases
    case 1
    then show ?thesis by (auto simp: b getNext_def)
  next
    case 2
    then obtain x y where p: "p = [x, y]"
      using assms by (auto simp: numeral_2_eq_2 length_Suc_conv)
    then show ?thesis
      using 2 by (auto simp: border_def getNext_def less_Suc_eq)
  next
    case 3
    define P where "P = (\<lambda>k. take k (drop (n - k) p) = take k p)"
    define r where "r = fold (\<lambda>k mx. if P k then (if mx < k then k else mx) else mx) [1..<n] 0"
    have r: "getNext p n = r"
      using 3 by (simp add: getNext_def r_def P_def)
    have f: "(r = 0 \<or> r \<in> set [1..<n] \<and> P r) \<and> 0 \<le> r \<and> (\<forall>k \<in> set [1..<n]. P k \<longrightarrow> k \<le> r)"
      using fold_max[of "[1..<n]" 0 P] unfolding Let_def r_def by (simp add: sorted_wrt_upt)
    have "border p r" using f 3 by (auto simp: b P_def)
    moreover have "k \<le> r" if "border p k" for k
      using that f by (cases "k = 0") (auto simp: b P_def)
    ultimately show ?thesis using r by simp
  qed
  then show "0 < n \<Longrightarrow> border p (getNext p n)" "border p k \<Longrightarrow> k \<le> getNext p n"
    by blast+
qed

section \<open>Matching\<close>

text \<open>How many characters of the key the text begins with, which is where the inner loop stops.\<close>

fun kmp_match :: "byte list \<Rightarrow> byte list \<Rightarrow> nat" where
  "kmp_match v [] = 0"
| "kmp_match [] (k # ks) = 0"
| "kmp_match (x # v) (k # ks) = (if x = k then Suc (kmp_match v ks) else 0)"

lemma kmp_match_le: "kmp_match v key \<le> length key" "kmp_match v key \<le> length v"
  by (induction v key rule: kmp_match.induct) auto

lemma kmp_match_take: "take (kmp_match v key) v = take (kmp_match v key) key"
  by (induction v key rule: kmp_match.induct) auto

lemma kmp_match_full: "kmp_match v key = length key \<longleftrightarrow> c_prefix key v"
  by (induction v key rule: kmp_match.induct) auto

lemma c_prefix_take: "c_prefix key v \<longleftrightarrow> take (length key) v = key"
  by (induction key v rule: c_prefix.induct) auto

lemma kmp_match_max: "\<lbrakk>n \<le> length key; take n v = take n key\<rbrakk> \<Longrightarrow> n \<le> kmp_match v key"
proof (induction v key arbitrary: n rule: kmp_match.induct)
  case (3 x v k ks)
  then show ?case by (cases n) auto
next
  case (2 k ks)
  then show ?case by (cases n) auto
qed auto

text \<open>An occurrence inside the shift would give a longer border of the matched part.\<close>

lemma no_occurrence_in_shift:
  assumes j: "j = kmp_match v key" "0 < j" "j < length key"
    and d: "0 < d" "d < j - getNext (take j key) j"
  shows "\<not> c_prefix key (drop d v)"
proof
  assume occ: "c_prefix key (drop d v)"
  let ?p = "take j key" and ?k = "j - d"
  have len: "length ?p = j" using j by simp
  have v: "take j v = ?p" using kmp_match_take[of v key] j(1) by simp
  have "take ?k (drop d v) = take ?k key"
    using occ j(3) d by (simp add: c_prefix_take min_def) (metis take_take min_absorb1 diff_le_self le_less_trans less_imp_le)
  moreover have "take ?k (drop d v) = drop d (take j v)"
    by (simp add: drop_take)
  ultimately have "drop (length ?p - ?k) ?p = take ?k ?p"
    using d j v len by (simp add: min_def)
  then have "border ?p ?k"
    using d len by (simp add: border_def)
  then have "?k \<le> getNext ?p j"
    using getNext_border(2)[OF len] by blast
  then show False using d by simp
qed

section \<open>The search\<close>

lemma c_strstr_skip:
  "\<lbrakk>n \<le> length v; \<forall>d < n. \<not> c_prefix key (drop d v)\<rbrakk> \<Longrightarrow>
    c_strstr v key = map_option (\<lambda>i. i + n) (c_strstr (drop n v) key)"
proof (induction n arbitrary: v)
  case (Suc n)
  then obtain x v' where v: "v = x # v'" by (cases v) auto
  have "\<not> c_prefix key v" using Suc.prems(2) by (metis drop0 zero_less_Suc)
  moreover have "\<forall>d < n. \<not> c_prefix key (drop d v')"
    using Suc.prems(2) v by (metis Suc_less_eq drop_Suc_Cons)
  ultimately show ?case
    using Suc.IH[of v'] Suc.prems(1) v by (simp add: option.map_comp comp_def)
qed (simp add: option.map_ident)

lemma c_strstr_none:
  "\<lbrakk>\<forall>d \<le> length v. \<not> c_prefix key (drop d v)\<rbrakk> \<Longrightarrow> c_strstr v key = None"
proof (induction v)
  case Nil
  then show ?case by (cases key) auto
next
  case (Cons x v)
  have "\<not> c_prefix key (x # v)" using Cons.prems by (metis drop0 le0)
  moreover have "\<forall>d \<le> length v. \<not> c_prefix key (drop d v)"
    using Cons.prems by (metis Suc_le_mono drop_Suc_Cons length_Cons)
  ultimately show ?case using Cons.IH by simp
qed

definition kmp_result :: "nat option \<Rightarrow> int" where
  "kmp_result r = (case r of Some i \<Rightarrow> int i | None \<Rightarrow> - 1)"

lemma nth_c_text: "n < length (cstr bs) \<Longrightarrow> bs ! n = cstr bs ! n \<and> cstr bs ! n \<noteq> 0"
  unfolding cstr_def using takeWhile_nth[of n "\<lambda>b. b \<noteq> 0" bs] nth_mem[of n "takeWhile (\<lambda>b. b \<noteq> 0) bs"]
    set_takeWhileD[of _ "\<lambda>b. b \<noteq> 0" bs] by metis

lemma c_text_end: "0 \<in> set bs \<Longrightarrow> length (cstr bs) < length bs \<and> bs ! length (cstr bs) = 0"
  by (induction bs) (auto simp: cstr_def)

lemma take_c_text: "n \<le> length (cstr bs) \<Longrightarrow> take n bs = take n (cstr bs)"
  by (metis cstr_def min_absorb1 take_take takeWhile_eq_take)

lemma int_of_size_small: "n < 2 ^ 31 \<Longrightarrow> int_of_size n = int n"
  unfolding int_of_size_def by (rule signed_take_bit_int_eq_self) auto

lemma int_of_size_large:
  assumes "2 ^ 31 \<le> n" "n < 2 ^ 32"
  shows "int_of_size n < 0"
proof -
  have "n div 2 ^ 31 = 1" using assms by (simp add: div_nat_eqI)
  then have "bit n 31" by (simp add: bit_iff_odd)
  then show ?thesis by (simp add: int_of_size_def bit_of_nat_iff_bit)
qed

lemma kmp_inner_match:
  assumes v: "0 \<in> set v" "length (cstr v) < 2 ^ 31" and k: "0 \<in> set k"
  shows "\<lbrakk>i + j \<le> length (cstr v); j \<le> length (cstr k)\<rbrakk> \<Longrightarrow>
    kmp_inner v k (int (length (cstr k))) (int i) (int j)
      = Some (int (j + kmp_match (drop (i + j) (cstr v)) (drop j (cstr k))))"
proof (induction "length (cstr k) - j" arbitrary: j)
  case 0
  then show ?case by (subst kmp_inner.simps) simp
next
  case (Suc n)
  then have j: "j < length (cstr k)" by linarith
  have kj: "k ! j = cstr k ! j" "cstr k ! j \<noteq> 0" "j < length k"
    using nth_c_text[OF j] c_text_end[OF k] j by auto
  have ij: "int i + int j < 2 ^ 31" "nat (int i + int j) = i + j" "i + j < length v"
    using Suc.prems v c_text_end[OF v(1)] by auto
  have step: "kmp_inner v k (int (length (cstr k))) (int i) (int j) =
    (if v ! (i + j) = k ! j then kmp_inner v k (int (length (cstr k))) (int i) (int (Suc j)) else Some (int j))"
    by (subst kmp_inner.simps) (use ij kj j in \<open>simp add: add.commute\<close>)
  have kd: "drop j (cstr k) = cstr k ! j # drop (Suc j) (cstr k)"
    using j by (simp add: Cons_nth_drop_Suc)
  show ?case
  proof (cases "i + j < length (cstr v)")
    case True
    then have vd: "drop (i + j) (cstr v) = v ! (i + j) # drop (i + Suc j) (cstr v)"
      using nth_c_text[OF True] by (simp add: Cons_nth_drop_Suc)
    show ?thesis
      unfolding step kd vd using Suc.hyps(1)[of "Suc j"] Suc.hyps(2) True j kj by simp
  next
    case False
    then have "i + j = length (cstr v)" using Suc.prems by simp
    then have "v ! (i + j) = 0" "drop (i + j) (cstr v) = []" using c_text_end[OF v(1)] by auto
    then show ?thesis unfolding step kd using kj by simp
  qed
qed

lemma kmp_loop_strstr:
  assumes v: "0 \<in> set v" "length (cstr v) < 2 ^ 31"
    and k: "0 \<in> set k" "cstr k \<noteq> []" "length (cstr k) \<le> s8_maxsize" and i: "i \<le> length (cstr v)"
  shows "kmp_loop v k (int (length (cstr v))) (int (length (cstr k))) (int i)
    = Some (kmp_result (map_option (\<lambda>n. n + i) (c_strstr (drop i (cstr v)) (cstr k))))"
    (is "?loop i = ?res i")
  using i
proof (induction "length (cstr v) - i" arbitrary: i rule: less_induct)
  case less
  show ?case
  proof (cases "i < length (cstr v)")
    case False
    then show ?thesis
      using less.prems k by (subst kmp_loop.simps) (auto simp: kmp_result_def)
  next
    case True
    define j where "j = kmp_match (drop i (cstr v)) (cstr k)"
    have jk: "j \<le> length (cstr k)" "j \<le> length (cstr v) - i"
      using kmp_match_le[of "drop i (cstr v)" "cstr k"] by (simp_all add: j_def)
    have inner: "kmp_inner v k (int (length (cstr k))) (int i) 0 = Some (int j)"
      using kmp_inner_match[OF v k(1), of i 0] less.prems by (simp add: j_def)
    show ?thesis
    proof (cases "j = length (cstr k)")
      case full: True
      then have "c_prefix (cstr k) (drop i (cstr v))"
        using kmp_match_full[of "drop i (cstr v)" "cstr k"] j_def by simp
      then have "c_strstr (drop i (cstr v)) (cstr k) = Some 0"
        using True by (cases "drop i (cstr v)") auto
      then show ?thesis
        using True full inner by (subst kmp_loop.simps) (simp add: kmp_result_def)
    next
      case False
      define s where "s = (if 0 < j then j - getNext (take j k) j else 1)"
      have tk: "take j k = take j (cstr k)" using take_c_text jk by blast
      have gn: "getNext (take j k) j < j" if "0 < j"
        using getNext_border(1)[of "take j k" j] that jk tk by (simp add: border_def)
      have none: "\<not> c_prefix (cstr k) (drop d (drop i (cstr v)))" if "d < s" for d
      proof (cases "d = 0")
        case True
        then show ?thesis
          using False kmp_match_full[of "drop i (cstr v)" "cstr k"] j_def by simp
      next
        case d: False
        then have "0 < j" using that by (auto simp: s_def split: if_splits)
        then show ?thesis
          using no_occurrence_in_shift[OF j_def \<open>0 < j\<close>, of d] False jk d that tk
          by (simp add: s_def)
      qed
      have "0 < s" using gn by (auto simp: s_def)
      moreover have sl: "s \<le> length (cstr v) - i"
        using True jk by (auto simp: s_def)
      ultimately have is': "i + s \<le> length (cstr v)" "length (cstr v) - (i + s) < length (cstr v) - i"
        using True by auto
      have "?loop i = ?loop (i + s)"
      proof (cases "0 < j")
        case True
        then have "int i + (int j - int (getNext (take j k) j)) = int (i + s)"
          using gn by (simp add: s_def)
        then show ?thesis
          using True \<open>i < length (cstr v)\<close> False k(3) jk inner
          by (subst kmp_loop.simps) simp
      next
        case j0: False
        then show ?thesis
          using \<open>i < length (cstr v)\<close> False jk inner k(2)
          by (subst kmp_loop.simps) (simp add: s_def add.commute)
      qed
      also have "\<dots> = ?res (i + s)"
        by (rule less.hyps) (use is' in simp_all)
      also have "map_option (\<lambda>n. n + (i + s)) (c_strstr (drop (i + s) (cstr v)) (cstr k))
          = map_option (\<lambda>n. n + i) (c_strstr (drop i (cstr v)) (cstr k))"
        using c_strstr_skip[of s "drop i (cstr v)" "cstr k"] none sl
        by (simp add: option.map_comp comp_def add.commute add.left_commute)
      finally show ?thesis .
    qed
  qed
qed

lemma kmp_strstr_small:
  assumes "0 \<in> set v" "length (cstr v) < 2 ^ 31" "0 \<in> set k" "cstr k \<noteq> []" "length (cstr k) \<le> s8_maxsize"
  shows "kmp_strstr (Some v) (Some k) = Some (kmp_result (c_strstr (cstr v) (cstr k)))"
proof -
  have "length (cstr k) < 2 ^ 31" using assms(5) by (simp add: s8_maxsize_def)
  then show ?thesis
    using assms kmp_loop_strstr[OF assms, of 0]
    by (simp add: kmp_strstr_def c_strlen_def option.map_ident int_of_size_small)
qed

lemma kmp_strstr_large:
  assumes "0 \<in> set v" "2 ^ 31 \<le> length (cstr v)" "length (cstr v) < 2 ^ 32" "0 \<in> set k"
  shows "kmp_strstr (Some v) (Some k) = Some (- 1)"
  using assms int_of_size_large[of "length (cstr v)"]
  by (subst kmp_strstr_def) (simp add: c_strlen_def kmp_loop.simps)

text \<open>What \<^verbatim>\<open>c_strstr\<close> returns: the least position at which the key occurs.\<close>

lemma c_strstr_Some:
  "c_strstr v key = Some i \<Longrightarrow> c_prefix key (drop i v) \<and> (\<forall>d < i. \<not> c_prefix key (drop d v)) \<and> i \<le> length v"
proof (induction v arbitrary: i)
  case Nil
  then show ?case by (cases key) (auto split: if_splits)
next
  case (Cons x v)
  show ?case
  proof (cases "c_prefix key (x # v)")
    case True
    then show ?thesis using Cons.prems by simp
  next
    case False
    then obtain k where "i = Suc k" "c_strstr v key = Some k" using Cons.prems by auto
    then show ?thesis
      using Cons.IH[of k] False by (auto simp: less_Suc_eq_0_disj)
  qed
qed

lemma c_strstr_None: "c_strstr v key = None \<Longrightarrow> \<forall>d \<le> length v. \<not> c_prefix key (drop d v)"
proof (induction v)
  case Nil
  then show ?case by (cases key) (auto split: if_splits)
next
  case (Cons x v)
  show ?case
  proof (intro allI impI)
    fix d assume "d \<le> length (x # v)"
    then show "\<not> c_prefix key (drop d (x # v))"
      using Cons by (cases d) (auto split: if_splits)
  qed
qed

end
