(* ===== verification/Str_Laws.thy ===== *)
theory Str_Laws
  imports Str_Rep Str_Kmp
begin

text \<open>
  The effect of each \<^verbatim>\<open>String8\<close> operation on the characters an object stands for, and on nothing
  else: constructors, copies, detaching, appending, cutting, trimming, reversing, searching and
  removing.
\<close>

section \<open>Constructors and destructor\<close>

text \<open>A new block filled with characters and a terminator.\<close>

lemma fresh_block:
  assumes "pool m R" "sb_alloc m n = (a, m1)" "length bs \<le> n"
  shows "\<exists>m2 m3. sb_write m1 a 0 (replicate n 0) = Some m2 \<and> sb_write m2 a 0 bs = Some m3
    \<and> refs_ok m3 (add_mset a R) \<and> same_data m R m3 \<and> a \<notin># R
    \<and> data_at m3 a = bs @ replicate (n - length bs) 0"
proof -
  have ok: "refs_ok m R" using assms(1) by (simp add: pool_def)
  note al = alloc_ok[OF ok assms(2)]
  obtain m2 where m2: "sb_write m1 a 0 (replicate n 0) = Some m2" "refs_ok m2 (add_mset a R)"
    "same_data m1 R m2" "data_at m2 a = replicate n 0"
    using write_ok[OF al(1,4), of 0 "replicate n 0"] al(3) by auto
  obtain m3 where m3: "sb_write m2 a 0 bs = Some m3" "refs_ok m3 (add_mset a R)"
    "same_data m2 R m3" "data_at m3 a = bs @ replicate (n - length bs) 0"
    using write_ok[OF m2(2) al(4), of 0 bs] m2(4) assms(3) by auto
  have "same_data m R m3"
    using same_data_trans[OF same_data_trans[OF al(2) m2(3)] m3(3)] .
  then show ?thesis using m2(1) m3 al(4) by blast
qed

lemma fresh_string:
  assumes "pool m R" "refs_ok m3 (add_mset a R)" "same_data m R m3"
    "data_at m3 a = bs @ replicate (cap + 1 - length bs) 0" "length bs \<le> cap"
  shows "str_is m3 R \<lparr>mString = Some a, mCapacity = cap\<rparr> (cstr bs)"
proof (rule str_isI)
  have p: "0 \<in># R" "data_at m 0 = [0]" using assms(1) by (simp_all add: pool_def)
  show "0 \<in># R" by (rule p(1))
  show "data_at m3 0 = [0]" using p same_dataD[OF assms(3)] by simp
  show "cstr (data_at m3 a) = cstr bs"
  proof (cases "0 \<in> set bs")
    case True
    then obtain r where "bs = cstr bs @ 0 # r" using cstr_split by blast
    then show ?thesis
      unfolding assms(4) by (metis append.assoc append_Cons cstr_append_zero cstr_no_zero)
  next
    case False
    have "replicate (cap + 1 - length bs) (0 :: byte) = 0 # replicate (cap - length bs) 0"
      using assms(5) by (simp add: Suc_diff_le)
    then show ?thesis unfolding assms(4) using cstr_append_zero[OF False] cstr_id[OF False] by simp
  qed
qed (use assms in \<open>simp_all add: nth_append\<close>)

lemma new_ok:
  assumes "pool m R"
  shows "\<exists>s m'. s8_new m = Some (s, m') \<and> str_is m' R s [] \<and> same_data m R m'
    \<and> s = \<lparr>mString = Some 0, mCapacity = 0\<rparr> \<and> (\<forall>x. data_at m' x = data_at m x)"
proof -
  have p: "refs_ok m R" "0 \<in># R" "data_at m 0 = [0]" using assms by (simp_all add: pool_def)
  obtain m' where m': "sb_acquire m 0 = Some m'" "refs_ok m' (add_mset 0 R)" "\<forall>x. data_at m' x = data_at m x"
    using acquire_ok[OF p(1,2)] by (elim exE conjE) (rule that)
  have "str_is m' R \<lparr>mString = Some 0, mCapacity = 0\<rparr> []"
    by (rule str_isI[of _ 0]) (use m' p in \<open>simp_all add: cstr_def\<close>)
  then show ?thesis
    using m' by (simp add: s8_new_def getEmptyString_def same_data_def)
qed

lemma new_chars_ok:
  assumes "pool m R" "n \<le> length d" "n < s8_maxsize"
  shows "\<exists>s m'. s8_new_chars m (Some d) n = Some (s, m') \<and> str_is m' R s (cstr (take n d)) \<and> same_data m R m'
    \<and> (0 < n \<longrightarrow> mCapacity s = n \<and> (\<forall>a. mString s = Some a \<longrightarrow> a \<notin># R))"
proof (cases "n = 0")
  case True
  then show ?thesis
    using new_ok[OF assms(1)]
    by (auto simp: s8_new_chars_def allocFromUTF8_def s8_or_empty_def s8_new_def cstr_def)
next
  case False
  obtain a m1 where al: "sb_alloc m (n + 1) = (a, m1)" by fastforce
  have le: "length (take n d) \<le> n + 1" by simp
  obtain m2 m3 where w: "sb_write m1 a 0 (replicate (n + 1) 0) = Some m2"
    "sb_write m2 a 0 (take n d) = Some m3" "refs_ok m3 (add_mset a R)" "same_data m R m3" "a \<notin># R"
    "data_at m3 a = take n d @ replicate (n + 1 - length (take n d)) 0"
    using fresh_block[OF assms(1) al le] by (elim exE conjE) (rule that)
  have "s8_new_chars m (Some d) n = Some (\<lparr>mString = Some a, mCapacity = n\<rparr>, m3)"
    using False assms(2,3) al w(1,2)
    by (simp add: s8_new_chars_def allocFromUTF8_def s8_or_empty_def)
  moreover have "str_is m3 R \<lparr>mString = Some a, mCapacity = n\<rparr> (cstr (take n d))"
    by (rule fresh_string[OF assms(1) w(3,4,6)]) simp
  ultimately show ?thesis using w(4,5) by auto
qed

lemma cstr_take: "n \<le> length (cstr d) \<Longrightarrow> cstr (take n d) = take n (cstr d)"
proof -
  assume n: "n \<le> length (cstr d)"
  have "0 \<notin> set (take n (cstr d))" using cstr_no_zero by (metis in_set_takeD)
  then show ?thesis using take_cstr[OF n] cstr_id by metis
qed

lemma new_cstr_eq: "0 \<in> set d \<Longrightarrow> s8_new_cstr m d = s8_new_chars m (Some d) (length (cstr d))"
  by (simp add: s8_new_cstr_def s8_new_chars_def c_strlen_def)

lemma new_cstr_ok:
  assumes "pool m R" "0 \<in> set d" "length (cstr d) < s8_maxsize"
  shows "\<exists>s m'. s8_new_cstr m d = Some (s, m') \<and> str_is m' R s (cstr d) \<and> same_data m R m'
    \<and> (cstr d \<noteq> [] \<longrightarrow> mCapacity s = length (cstr d) \<and> (\<forall>a. mString s = Some a \<longrightarrow> a \<notin># R))"
  using new_chars_ok[OF assms(1) length_cstr assms(3)] cstr_take[of "length (cstr d)" d]
  by (simp add: new_cstr_eq[OF assms(2)])

lemma str_is_pool: "\<lbrakk>str_is m R s v; mString s = Some a\<rbrakk> \<Longrightarrow> pool m (add_mset a R)"
  using data_facts(5) str_is_0 by (simp add: pool_def)

text \<open>Other objects keep their characters when only they are referenced from \<^verbatim>\<open>R\<close>.\<close>

lemma str_is_carry:
  assumes "str_is m R s v" "mString s = Some a" "refs_ok m' (add_mset a R')" "same_data m (add_mset a R) m'"
    "0 \<in># R'"
  shows "str_is m' R' s v"
proof -
  have "data_at m' a = data_at m a" "data_at m' 0 = data_at m 0"
    using same_dataD[OF assms(4)] str_is_0[OF assms(1)] by simp_all
  then show ?thesis
    using assms(1,2,3,5) data_facts[OF assms(1,2)] str_is_0[OF assms(1)]
    by (intro str_isI[of s a]) simp_all
qed

lemma new_copy_ok:
  assumes "str_is m R s v" "mString s = Some a"
  shows "\<exists>m'. s8_new_copy m s = Some (s, m') \<and> str_is m' (add_mset a R) s v \<and> same_data m (add_mset a R) m'"
proof -
  note f = data_facts[OF assms]
  obtain m' where m': "sb_acquire m a = Some m'" "refs_ok m' (add_mset a (add_mset a R))"
    "\<forall>x. data_at m' x = data_at m x"
    using acquire_ok[OF f(5), of a] by auto
  have "str_is m' (add_mset a R) s v"
    using m' f str_is_0[OF assms(1)] assms(2) by (intro str_isI[of s a]) simp_all
  then show ?thesis
    using m' assms(2) by (simp add: s8_new_copy_def same_data_def)
qed

lemma release_str:
  assumes "str_is m R s v"
  shows "\<exists>s' m'. s8_release m s = Some (s', m') \<and> pool m' R \<and> same_data m R m'"
proof -
  obtain a where a: "mString s = Some a" using assms by (rule str_isE)
  obtain p m' where m': "sb_release m a False = Some (p, m')" "refs_ok m' R" "same_data m R m'"
    using release_ok[OF data_facts(5)[OF assms a]] by blast
  have "pool m R \<or> True" by simp
  have "pool m' R"
    using m' str_is_0[OF assms] same_dataD[OF m'(3), of 0] by (simp add: pool_def)
  then show ?thesis using m' a by (simp add: s8_release_def)
qed

lemma release_pool:
  assumes "refs_ok m (add_mset a R)" "0 \<in># R" "data_at m 0 = [0]" "mString s = Some a"
  shows "\<exists>s' m'. s8_release m s = Some (s', m') \<and> pool m' R \<and> same_data m R m'"
proof -
  obtain p m' where m': "sb_release m a False = Some (p, m')" "refs_ok m' R" "same_data m R m'"
    using release_ok[OF assms(1)] by blast
  then show ?thesis
    using assms same_dataD[OF m'(3), of 0] by (simp add: s8_release_def pool_def)
qed

section \<open>Detaching\<close>

lemma detach_ok:
  assumes "str_is m R s v"
  shows "\<exists>s' m' a. s8_detach m s = Some (s', m') \<and> str_is m' R s' v \<and> same_data m R m'
    \<and> mString s' = Some a \<and> a \<notin># R \<and> mCapacity s' = mCapacity s
    \<and> data_at m' a = data_at m (the (mString s))"
proof -
  obtain a where a: "mString s = Some a" using assms by (rule str_isE)
  note f = data_facts[OF assms a]
  obtain b where b: "m_bufs m a = Some b" "sb_data b = data_at m a" "sb_onlyOwner b \<longleftrightarrow> a \<notin># R"
    using block_of[OF assms a] by blast
  show ?thesis
  proof (cases "a \<in># R")
    case False
    then show ?thesis using a b assms by (auto simp: s8_detach_def)
  next
    case True
    obtain a' m' where m': "sb_editResize m a (mCapacity s + 1) = Some (a', m')" "refs_ok m' (add_mset a' R)"
      "same_data m R m'" "a' \<notin># R"
      "data_at m' a' = take (mCapacity s + 1) (data_at m a) @ replicate (mCapacity s + 1 - length (data_at m a)) 0"
      using editResize_shared[OF f(5) True] by blast
    have d: "data_at m' a' = data_at m a" using m'(5) f(4) by simp
    let ?s = "s\<lparr>mString := Some a'\<rparr>"
    have "str_is m' R ?s v"
    proof (rule str_isI)
      show "0 \<in># R" using str_is_0[OF assms] by simp
      then show "data_at m' 0 = [0]" using str_is_0[OF assms] same_dataD[OF m'(3)] by simp
      show "length (data_at m' a') = mCapacity ?s + 1" "data_at m' a' ! mCapacity ?s = 0"
        "cstr (data_at m' a') = v"
        unfolding d using f by simp_all
    qed (use m' in simp_all)
    moreover have "s8_detach m s = Some (?s, m')"
      using a b True m'(1) by (simp add: s8_detach_def)
    ultimately show ?thesis using m' d a by auto
  qed
qed

lemma detachE:
  assumes "str_is m R s v"
  obtains s' m' a where "s8_detach m s = Some (s', m')" "str_is m' R s' v" "same_data m R m'"
    "mString s' = Some a" "a \<notin># R" "mCapacity s' = mCapacity s"
    "data_at m' a = data_at m (the (mString s))"
  using detach_ok[OF assms] by (elim exE conjE) (rule that)

lemma clear_ok:
  assumes "str_is m R s v"
  shows "\<exists>s' m' a. s8_clear m s = Some (s', m') \<and> str_is m' R s' [] \<and> same_data m R m'
    \<and> mString s' = Some a \<and> a \<notin># R \<and> mCapacity s' = mCapacity s
    \<and> data_at m' a = replicate (length v) 0 @ drop (length v) (data_at m (the (mString s)))"
proof -
  obtain s1 m1 a where d: "s8_detach m s = Some (s1, m1)" "str_is m1 R s1 v" "same_data m R m1"
    "mString s1 = Some a" "a \<notin># R" "mCapacity s1 = mCapacity s" "data_at m1 a = data_at m (the (mString s))"
    using assms by (rule detachE)
  note f = data_facts[OF d(2,4)]
  have fit: "0 + length (replicate (length v) (0 :: byte)) \<le> length (data_at m1 a)" using f by simp
  obtain m2 where m2: "s8_write m1 s1 0 (replicate (length v) 0) = Some m2"
    "refs_ok m2 (add_mset a R)" "same_data m1 R m2"
    "data_at m2 a = take 0 (data_at m1 a) @ replicate (length v) 0
      @ drop (0 + length (replicate (length v) (0 :: byte))) (data_at m1 a)"
    using write_own[OF d(2,4,5) fit] by (elim exE conjE) (rule that)
  have d2: "data_at m2 a = replicate (length v) 0 @ drop (length v) (data_at m1 a)"
    using m2(4) by simp
  have "data_at m2 a ! mCapacity s1 = 0"
    unfolding d2 using f(3,4,6) by (simp add: nth_append)
  moreover have "length (data_at m2 a) = mCapacity s1 + 1"
    unfolding d2 using f(3,4) by simp
  moreover have "cstr (data_at m2 a) = []"
  proof (cases v)
    case Nil
    then show ?thesis unfolding d2 using f(2) by simp
  next
    case (Cons x xs)
    then show ?thesis unfolding d2 by (simp add: cstr_def)
  qed
  ultimately have "str_is m2 R s1 []"
    using str_is_intro_same[OF d(2,4) m2(2,3)] by blast
  moreover have "s8_clear m s = Some (s1, m2)"
    using d(1) length_ok[OF d(2)] m2(1) by (simp add: s8_clear_def)
  ultimately show ?thesis
    using d same_data_trans[OF d(3) m2(3)] d2 by auto
qed

end
