(* ===== verification/Str_Edit.thy ===== *)
theory Str_Edit
  imports Str_Laws
begin

text \<open>
  The editing operations of \<^verbatim>\<open>String8\<close>: appending and assigning characters, cutting and trimming,
  removing and replacing.
\<close>

section \<open>Appending\<close>

lemma getBuffer_ok:
  assumes "pool m R" "n < s8_maxsize"
  shows "\<exists>a cap m'. getBuffer m n = Some (a, cap, m') \<and> refs_ok m' (add_mset a R) \<and> same_data m R m'
    \<and> a \<notin># R \<and> data_at m' a = replicate (cap + 1) 0 \<and> n \<le> cap"
proof -
  define cap where "cap = (if n < s8_default_size then s8_default_size else n)"
  obtain a m1 where al: "sb_alloc m (cap + 1) = (a, m1)" by fastforce
  have "length [] \<le> cap + 1" by simp
  obtain m2 where m2: "sb_write m1 a 0 (replicate (cap + 1) 0) = Some m2" "refs_ok m2 (add_mset a R)"
    "same_data m1 R m2" "data_at m2 a = replicate (cap + 1) 0"
  proof -
    have ok: "refs_ok m R" using assms(1) by (simp add: pool_def)
    note a = alloc_ok[OF ok al]
    show ?thesis
      using write_ok[OF a(1,4), of 0 "replicate (cap + 1) 0"] a(3) that by auto
  qed
  have ok: "refs_ok m R" using assms(1) by (simp add: pool_def)
  have "getBuffer m n = Some (a, cap, m2)"
    using assms(2) al m2(1)
    by (cases "n < s8_default_size") (simp_all add: getBuffer_def cap_def del: replicate_Suc)
  moreover have "n \<le> cap" by (simp add: cap_def)
  moreover have "same_data m R m2" using same_data_trans[OF alloc_ok(2)[OF ok al] m2(3)] .
  ultimately show ?thesis using m2 alloc_ok(4)[OF ok al] by blast
qed

text \<open>Two texts one after the other in a new block.\<close>

lemma write_two:
  assumes "refs_ok m (add_mset a R)" "a \<notin># R" "data_at m a = replicate (cap + 1) 0"
    "length xs + length ys \<le> cap"
  shows "\<exists>m1 m2. sb_write m a 0 xs = Some m1 \<and> sb_write m1 a (length xs) ys = Some m2
    \<and> refs_ok m2 (add_mset a R) \<and> same_data m R m2
    \<and> data_at m2 a = (xs @ ys) @ replicate (cap + 1 - length (xs @ ys)) 0"
proof -
  obtain m1 where m1: "sb_write m a 0 xs = Some m1" "refs_ok m1 (add_mset a R)" "same_data m R m1"
    "data_at m1 a = xs @ replicate (cap + 1 - length xs) 0"
    using write_ok[OF assms(1,2), of 0 xs] assms(3,4) by (auto simp del: replicate_Suc)
  obtain m2 where m2: "sb_write m1 a (length xs) ys = Some m2" "refs_ok m2 (add_mset a R)" "same_data m1 R m2"
    "data_at m2 a = xs @ ys @ replicate (cap + 1 - length xs - length ys) 0"
    using write_ok[OF m1(2) assms(2), of "length xs" ys] m1(4) assms(4) by (auto simp del: replicate_Suc)
  then show ?thesis using m1(1) same_data_trans[OF m1(3) m2(3)] by auto
qed

lemma pad_last:
  "length xs \<le> cap \<Longrightarrow> length (xs @ replicate (cap + 1 - length xs) x) = cap + 1
    \<and> (xs @ replicate (cap + 1 - length xs) x) ! cap = x"
  by (simp add: nth_append)

lemma append_nonempty:
  assumes s: "str_is m R s v" "v \<noteq> []" and d: "0 \<in> set d"
    and small: "length v + min n (length (cstr d)) < s8_maxsize"
  shows "\<exists>s' m'. s8_append m s (Some d) n = Some (int (min n (length (cstr d))), s', m')
    \<and> str_is m' R s' (v @ take n (cstr d)) \<and> same_data m R m'"
proof -
  define k where "k = min n (length (cstr d))"
  obtain a where a: "mString s = Some a" using s(1) by (rule str_isE)
  have t: "take k d = take n (cstr d)" and k: "length (take k d) = k"
    using take_cstr[of k d] length_cstr[of d] by (auto simp: k_def min_def)
  have z: "0 \<notin> set (take k d)" unfolding t using cstr_no_zero by (metis in_set_takeD)
  have sz: "(if length (cstr d) > n then n else length (cstr d)) = k" by (simp add: k_def)
  consider "n = 0" | "n \<noteq> 0" "k = 0" | "0 < k" "k + length v < mCapacity s"
    | "0 < k" "\<not> k + length v < mCapacity s"
    by linarith
  then show ?thesis
  proof cases
    case 1
    then show ?thesis using s(1) by (simp add: s8_append_def k_def[symmetric])
  next
    case 2
    then have "cstr d = []" by (auto simp: k_def min_def split: if_splits)
    then show ?thesis
      using 2 s length_ok[OF s(1)] d by (simp add: s8_append_def c_strlen_def)
  next
    case 3
    obtain s1 m1 b where dt: "s8_detach m s = Some (s1, m1)" "str_is m1 R s1 v" "same_data m R m1"
      "mString s1 = Some b" "b \<notin># R" "mCapacity s1 = mCapacity s"
      using detachE[OF s(1)] by metis
    have n0: "n \<noteq> 0" using 3(1) by (auto simp: k_def)
    have room: "length v + length (take k d) < mCapacity s1" using 3 k dt(6) by simp
    obtain m2 m3 where w: "s8_write m1 s1 (length v) (take k d) = Some m2"
      "s8_write m2 s1 (length v + length (take k d)) [0] = Some m3"
      "str_is m3 R s1 (take (length v) v @ take k d)" "same_data m1 R m3"
      using write_text[OF dt(2,4,5) order_refl z room] by (elim exE conjE) (rule that)
    have "s8_append m s (Some d) n = Some (int k, s1, m3)"
      using 3 n0 s(2) length_ok[OF s(1)] d sz dt(1) w(1,2) k
      by (auto simp: s8_append_def c_strlen_def Let_def k_def[symmetric] add.commute)
    then show ?thesis
      using w(3) t same_data_trans[OF dt(3) w(4)] by (auto simp: k_def[symmetric])
  next
    case 4
    have n0: "n \<noteq> 0" using 4(1) by (auto simp: k_def)
    have p: "pool m (add_mset a R)" by (rule str_is_pool[OF s(1) a])
    have "k + length v < s8_maxsize" using small by (simp add: k_def)
    then obtain b cap m1 where b: "getBuffer m (k + length v) = Some (b, cap, m1)"
      "refs_ok m1 (add_mset b (add_mset a R))" "same_data m (add_mset a R) m1" "b \<notin># add_mset a R"
      "data_at m1 b = replicate (cap + 1) 0" "k + length v \<le> cap"
      using getBuffer_ok[OF p] by blast
    have fit: "length v + length (take k d) \<le> cap" using b(6) k by simp
    obtain m2 m3 where w: "sb_write m1 b 0 v = Some m2" "sb_write m2 b (length v) (take k d) = Some m3"
      "refs_ok m3 (add_mset b (add_mset a R))" "same_data m1 (add_mset a R) m3"
      "data_at m3 b = (v @ take k d) @ replicate (cap + 1 - length (v @ take k d)) 0"
      using write_two[OF b(2,4,5) fit] by (elim exE conjE) (rule that)
    have sd: "same_data m (add_mset a R) m3" by (rule same_data_trans[OF b(3) w(4)])
    have s1: "str_is m1 (add_mset b R) s v"
      using str_is_carry[OF s(1) a _ b(3), of "add_mset b R"] b(2) str_is_0[OF s(1)]
      by (simp add: add_mset_commute)
    have old: "s8_read m1 s 0 (length v) = Some v" using read_value[OF s1, of 0 "length v"] by simp
    have r3: "refs_ok m3 (add_mset a (add_mset b R))" using w(3) by (simp add: add_mset_commute)
    have z3: "0 \<in># add_mset b R" "data_at m3 0 = [0]"
      using str_is_0[OF s(1)] same_dataD[OF sd, of 0] by simp_all
    obtain s' m4 where rel: "s8_release m3 s = Some (s', m4)" "pool m4 (add_mset b R)"
      "same_data m3 (add_mset b R) m4"
      using release_pool[OF r3 z3 a] by blast
    have run: "s8_append m s (Some d) n = Some (int k, \<lparr>mString = Some b, mCapacity = cap\<rparr>, m4)"
      using 4 n0 s(2) length_ok[OF s(1)] d sz b(1) old w(1,2) rel(1)
      by (auto simp: s8_append_def c_strlen_def Let_def k_def[symmetric])
    have same: "same_data m R m4"
      using sd rel(3) by (auto simp: same_data_def)
    have "str_is m4 R \<lparr>mString = Some b, mCapacity = cap\<rparr> (v @ take k d)"
    proof (rule str_isI)
      show "refs_ok m4 (add_mset b R)" using rel(2) by (simp add: pool_def)
      show "0 \<in># R" using str_is_0[OF s(1)] by simp
      show "data_at m4 0 = [0]" using str_is_0[OF s(1)] same_dataD[OF same, of 0] by simp
      have db: "data_at m4 b = data_at m3 b" using same_dataD[OF rel(3), of b] by simp
      show "length (data_at m4 b) = mCapacity \<lparr>mString = Some b, mCapacity = cap\<rparr> + 1"
        "data_at m4 b ! mCapacity \<lparr>mString = Some b, mCapacity = cap\<rparr> = 0"
        unfolding db w(5) using pad_last[of "v @ take k d" cap 0] fit by (simp_all del: append_assoc)
      have "0 \<notin> set (v @ take k d)" using z data_facts(7)[OF s(1) a] by simp
      moreover have "replicate (cap + 1 - length (v @ take k d)) (0 :: byte)
          = 0 # replicate (cap - length (v @ take k d)) 0"
        using fit by (simp add: Suc_diff_le)
      ultimately show "cstr (data_at m4 b) = v @ take k d"
        unfolding db w(5) using cstr_append_zero by metis
    qed simp
    then show ?thesis using run same t by (auto simp: k_def[symmetric])
  qed
qed

section \<open>Assigning characters\<close>

text \<open>
  \<^verbatim>\<open>setTo\<close> is right when the object has to take a larger block, or owns its block alone and nothing
  but zeros follow the text.
\<close>

lemma setTo_grow:
  assumes s: "str_is m R s v" and d: "0 \<in> set d" and n: "0 < n" "n \<le> length (cstr d)"
    and grow: "mCapacity s < n" "n < s8_maxsize"
  shows "\<exists>s' m'. s8_setTo m s (Some d) n = Some (int n, s', m') \<and> str_is m' R s' (take n (cstr d))
    \<and> same_data m R m'"
proof -
  obtain a where a: "mString s = Some a" using s by (rule str_isE)
  obtain s1 m1 where rel: "s8_release m s = Some (s1, m1)" "pool m1 R" "same_data m R m1"
    using release_str[OF s] by blast
  obtain b cap m2 where b: "getBuffer m1 n = Some (b, cap, m2)" "refs_ok m2 (add_mset b R)"
    "same_data m1 R m2" "b \<notin># R" "data_at m2 b = replicate (cap + 1) 0" "n \<le> cap"
    using getBuffer_ok[OF rel(2) grow(2)] by blast
  have k: "take n d = take n (cstr d)" "length (take n d) = n"
    using take_cstr[OF n(2)] length_cstr[of d] n(2) by simp_all
  obtain m3 where m3: "sb_write m2 b 0 (take n d) = Some m3" "refs_ok m3 (add_mset b R)" "same_data m2 R m3"
    "data_at m3 b = take n d @ replicate (cap + 1 - length (take n d)) 0"
    using write_ok[OF b(2,4), of 0 "take n d"] b(5,6) k(2) by (auto simp del: replicate_Suc)
  have run: "s8_setTo m s (Some d) n = Some (int n, \<lparr>mString = Some b, mCapacity = cap\<rparr>, m3)"
    using n grow a d rel(1) b(1) m3(1) by (simp add: s8_setTo_def c_strlen_def Let_def)
  have "same_data m1 R m3" by (rule same_data_trans[OF b(3) m3(3)])
  then have "str_is m3 R \<lparr>mString = Some b, mCapacity = cap\<rparr> (cstr (take n d))"
    using fresh_string[OF rel(2) m3(2) _ m3(4)] b(6) k(2) by simp
  moreover have "cstr (take n d) = take n (cstr d)"
    by (rule cstr_take[OF n(2)])
  ultimately show ?thesis
    using run same_data_trans[OF rel(3) \<open>same_data m1 R m3\<close>] by auto
qed

lemma setTo_own:
  assumes s: "str_is m R s v" "mString s = Some a" "a \<notin># R" and d: "0 \<in> set d"
    and n: "0 < n" "n \<le> length (cstr d)" "n \<le> mCapacity s"
    and clean: "drop (length v) (data_at m a) = replicate (mCapacity s + 1 - length v) 0"
  shows "\<exists>s' m'. s8_setTo m s (Some d) n = Some (int n, s', m') \<and> str_is m' R s' (take n (cstr d))
    \<and> same_data m R m'"
proof -
  obtain b where b: "m_bufs m a = Some b" "sb_onlyOwner b"
    using block_of[OF s(1,2)] s(3) by blast
  obtain s1 m1 a1 where c: "s8_clear m s = Some (s1, m1)" "str_is m1 R s1 []" "same_data m R m1"
    "mString s1 = Some a1" "a1 \<notin># R" "mCapacity s1 = mCapacity s"
    "data_at m1 a1 = replicate (length v) 0 @ drop (length v) (data_at m (the (mString s)))"
    using clear_ok[OF s(1)] by (elim exE conjE) (rule that)
  have "length v \<le> mCapacity s" using data_facts[OF s(1,2)] by simp
  then have zeros: "data_at m1 a1 = replicate (mCapacity s + 1) 0"
    using c(7) clean s(2) by (simp flip: replicate_add replicate_Suc)
  have k: "take n d = take n (cstr d)" "length (take n d) = n"
    using take_cstr[OF n(2)] length_cstr[of d] n(2) by simp_all
  have fit: "0 + length (take n d) \<le> length (data_at m1 a1)" using k(2) n(3) zeros by simp
  obtain m2 where m2: "s8_write m1 s1 0 (take n d) = Some m2" "refs_ok m2 (add_mset a1 R)" "same_data m1 R m2"
    "data_at m2 a1 = take 0 (data_at m1 a1) @ take n d @ drop (0 + length (take n d)) (data_at m1 a1)"
    using write_own[OF c(2,4,5) fit] by (elim exE conjE) (rule that)
  have d2: "data_at m2 a1 = take n d @ 0 # replicate (mCapacity s - n) 0"
    using m2(4) k(2) n(3) zeros by (simp add: Suc_diff_le del: replicate_Suc) (simp add: Suc_diff_le)
  have run: "s8_setTo m s (Some d) n = Some (int n, s1, m2)"
    using n s(2) d b c(1) m2(1) by (simp add: s8_setTo_def c_strlen_def Let_def)
  have z: "0 \<notin> set (take n d)" unfolding k(1) using cstr_no_zero by (metis in_set_takeD)
  have "str_is m2 R s1 (take n d)"
  proof (rule str_is_intro_same[OF c(2,4) m2(2,3)])
    show "length (data_at m2 a1) = mCapacity s1 + 1" "data_at m2 a1 ! mCapacity s1 = 0"
      unfolding d2 using k(2) n(3) c(6) by (auto simp: nth_append nth_Cons')
    show "cstr (data_at m2 a1) = take n d" unfolding d2 by (rule cstr_append_zero[OF z])
  qed
  then show ?thesis using run k(1) same_data_trans[OF c(3) m2(3)] by auto
qed

section \<open>Cutting\<close>

text \<open>Moving a part of the text to the front and ending it there.\<close>

lemma move_cut:
  assumes s: "str_is m R s v" "mString s = Some a" "a \<notin># R" and n: "i + n \<le> length v"
  shows "\<exists>d m1 m2. s8_read m s i n = Some d \<and> s8_write m s 0 d = Some m1 \<and> s8_write m1 s n [0] = Some m2
    \<and> str_is m2 R s (take n (drop i v)) \<and> same_data m R m2"
proof -
  let ?d = "take n (drop i v)"
  have len: "length ?d = n" using n by simp
  have fit: "0 + length ?d \<le> length v" using n len by simp
  obtain m1 where m1: "s8_write m s 0 ?d = Some m1"
    "str_is m1 R s (cstr (take 0 v @ ?d @ drop (0 + length ?d) v))" "same_data m R m1"
    using write_inside[OF s fit] by (elim exE conjE) (rule that)
  have z: "0 \<notin> set (?d @ drop n v)"
    using data_facts(7)[OF s(1,2)] by (auto dest: in_set_takeD in_set_dropD)
  have v1: "str_is m1 R s (?d @ drop n v)"
    using m1(2) len cstr_id[OF z] by simp
  have "n \<le> length (?d @ drop n v)" using len by simp
  then obtain m2 where m2: "s8_write m1 s n [0] = Some m2" "str_is m2 R s (take n (?d @ drop n v))"
    "same_data m1 R m2"
    using write_cut[OF v1 s(2,3)] by blast
  have "take n (?d @ drop n v) = ?d" using len by simp
  then show ?thesis
    using read_value[OF s(1) n] m1(1) m2 same_data_trans[OF m1(3) m2(3)] by auto
qed

section \<open>Trimming\<close>

lemma find_upt:
  "find P [0..<n] = Some i \<longleftrightarrow> i < n \<and> P i \<and> (\<forall>j<i. \<not> P j)"
  by (auto simp: find_Some_iff)

lemma find_rev_upt:
  "find P (rev [1..<n]) = Some i \<longleftrightarrow> 0 < i \<and> i < n \<and> P i \<and> (\<forall>j. i < j \<and> j < n \<longrightarrow> \<not> P j)"
proof (induction n)
  case (Suc n)
  show ?case
  proof (cases "P n \<and> 0 < n")
    case True
    then show ?thesis by (auto simp: less_Suc_eq)
  next
    case False
    then have "find P (rev [1..<Suc n]) = find P (rev [1..<n])" by (cases n) auto
    then show ?thesis using Suc False by (auto simp: less_Suc_eq)
  qed
qed simp

text \<open>The text without leading, and without trailing, copies of a character.\<close>

definition strip_left :: "byte \<Rightarrow> byte list \<Rightarrow> byte list" where
  "strip_left c v = dropWhile (\<lambda>x. x = c) v"

definition strip_right :: "byte \<Rightarrow> byte list \<Rightarrow> byte list" where
  "strip_right c v = rev (dropWhile (\<lambda>x. x = c) (rev v))"

lemma dropWhile_at:
  "\<lbrakk>i < length v; \<not> P (v ! i); \<forall>j<i. P (v ! j)\<rbrakk> \<Longrightarrow> dropWhile P v = drop i v"
proof (induction v arbitrary: i)
  case (Cons x v)
  show ?case
  proof (cases i)
    case 0
    then show ?thesis using Cons.prems by simp
  next
    case (Suc k)
    then have "P x" using Cons.prems(3) by force
    moreover have "\<forall>j<k. P (v ! j)" using Cons.prems(3) Suc by force
    ultimately show ?thesis using Cons.IH[of k] Cons.prems Suc by simp
  qed
qed simp

lemma strip_left_at:
  "\<lbrakk>i < length v; v ! i \<noteq> c; \<forall>j<i. v ! j = c\<rbrakk> \<Longrightarrow> strip_left c v = drop i v"
  unfolding strip_left_def by (rule dropWhile_at) auto

lemma strip_right_at:
  assumes "i < length v" "v ! i \<noteq> c" "\<forall>j. i < j \<and> j < length v \<longrightarrow> v ! j = c"
  shows "strip_right c v = take (i + 1) v"
proof -
  let ?k = "length v - 1 - i"
  have "dropWhile (\<lambda>x. x = c) (rev v) = drop ?k (rev v)"
  proof (rule dropWhile_at)
    show "?k < length (rev v)" using assms(1) by simp
    have "length v - Suc ?k = i" using assms(1) by simp
    then show "\<not> rev v ! ?k = c" using assms(1,2) by (simp add: rev_nth)
    show "\<forall>j<?k. rev v ! j = c"
    proof (intro allI impI)
      fix j assume j: "j < ?k"
      then have "i < length v - Suc j" "length v - Suc j < length v" by simp_all
      then show "rev v ! j = c" using assms(3) j by (simp add: rev_nth)
    qed
  qed
  moreover have "length v - ?k = i + 1" using assms(1) by simp
  ultimately show ?thesis
    by (simp add: strip_right_def rev_drop)
qed

lemma strip_all:
  assumes "\<forall>x \<in> set v. x = c" shows "strip_left c v = []" "strip_right c v = []"
  using assms by (simp_all add: strip_left_def strip_right_def)

text \<open>What \<^verbatim>\<open>findNotChar\<close> finds.\<close>

lemma findNotChar_ok:
  assumes s: "str_is m R s v"
  shows "s8_findNotChar m s c = Some
    (case find (\<lambda>i. v ! i \<noteq> c) [0..<length v] of Some i \<Rightarrow> int i | None \<Rightarrow> - 1,
     case find (\<lambda>i. v ! i \<noteq> c) (rev [1..<length v]) of Some i \<Rightarrow> int i | None \<Rightarrow> - 1)"
  using length_ok[OF s] read_value[OF s, of 0 "length v"] by (simp add: s8_findNotChar_def Let_def)

lemma findNotChar_none:
  assumes s: "str_is m R s v" and all: "\<forall>x \<in> set v. x = c"
  shows "s8_findNotChar m s c = Some (- 1, - 1)"
proof -
  have "find (\<lambda>i. v ! i \<noteq> c) [0..<length v] = None" "find (\<lambda>i. v ! i \<noteq> c) (rev [1..<length v]) = None"
    using all by (auto simp: find_None_iff)
  then show ?thesis by (simp add: findNotChar_ok[OF s])
qed

text \<open>
  The second loop does not look at position 0: it fails on a text whose only other character is
  the first.
\<close>

lemma findNotChar_some:
  assumes s: "str_is m R s v" and i: "i < length v" "v ! i \<noteq> c" "\<forall>j<i. v ! j = c"
    and k: "0 < k" "k < length v" "v ! k \<noteq> c" "\<forall>j. k < j \<and> j < length v \<longrightarrow> v ! j = c"
  shows "s8_findNotChar m s c = Some (int i, int k)" "i \<le> k"
proof -
  have "find (\<lambda>i. v ! i \<noteq> c) [0..<length v] = Some i" using i by (simp add: find_upt)
  moreover have "find (\<lambda>i. v ! i \<noteq> c) (rev [1..<length v]) = Some k" using k unfolding find_rev_upt by blast
  ultimately show "s8_findNotChar m s c = Some (int i, int k)" by (simp add: findNotChar_ok[OF s])
  show "i \<le> k" using i(3) k(3) not_le by blast
qed

lemma ends_exist:
  assumes "x \<in> set v" "x \<noteq> c"
  obtains i k where "i < length v" "v ! i \<noteq> c" "\<forall>j<i. v ! j = c"
    "k < length v" "v ! k \<noteq> c" "\<forall>j. k < j \<and> j < length v \<longrightarrow> v ! j = c" "i \<le> k"
proof -
  obtain n where n: "n < length v" "v ! n \<noteq> c" using assms by (metis in_set_conv_nth)
  define i where "i = (LEAST i. i < length v \<and> v ! i \<noteq> c)"
  have i: "i < length v \<and> v ! i \<noteq> c" unfolding i_def by (rule LeastI[of _ n]) (use n in simp)
  have il: "\<forall>j<i. v ! j = c"
    using i not_less_Least[of _ "\<lambda>i. i < length v \<and> v ! i \<noteq> c"] unfolding i_def by (metis (lifting) less_trans)
  define k where "k = (GREATEST k. k < length v \<and> v ! k \<noteq> c)"
  have k: "k < length v \<and> v ! k \<noteq> c"
    unfolding k_def by (rule GreatestI_nat[of _ n "length v"]) (use n in auto)
  have kl: "j \<le> k" if "j < length v \<and> v ! j \<noteq> c" for j
    unfolding k_def by (rule Greatest_le_nat[of _ _ "length v"]) (use that in auto)
  show thesis
  proof (rule that)
    show "\<forall>j. k < j \<and> j < length v \<longrightarrow> v ! j = c" using kl by (meson not_le)
    show "i \<le> k" using kl i by blast
  qed (use i il k in auto)
qed

text \<open>Trimming is right except on texts whose only other character is the first.\<close>

definition trimmable :: "byte \<Rightarrow> byte list \<Rightarrow> bool" where
  "trimmable c v \<longleftrightarrow> (\<exists>x \<in> set (tl v). x \<noteq> c) \<or> (\<forall>x \<in> set v. x = c)"

lemma trimmable_cases:
  assumes "trimmable c v"
  obtains "\<forall>x \<in> set v. x = c"
  | i k where "i < length v" "v ! i \<noteq> c" "\<forall>j<i. v ! j = c" "0 < k"
    "k < length v" "v ! k \<noteq> c" "\<forall>j. k < j \<and> j < length v \<longrightarrow> v ! j = c" "i \<le> k"
proof (cases "\<forall>x \<in> set v. x = c")
  case False
  then obtain x where x: "x \<in> set (tl v)" "x \<noteq> c" using assms by (auto simp: trimmable_def)
  then have "x \<in> set v" by (metis list.set_sel(2) tl_Nil)
  then obtain i k where ik: "i < length v" "v ! i \<noteq> c" "\<forall>j<i. v ! j = c"
    "k < length v" "v ! k \<noteq> c" "\<forall>j. k < j \<and> j < length v \<longrightarrow> v ! j = c" "i \<le> k"
    using x(2) by (rule ends_exist)
  obtain n where "n < length (tl v)" "tl v ! n = x" using x(1) by (metis in_set_conv_nth)
  then have "Suc n < length v" "v ! Suc n \<noteq> c" using x(2) by (auto simp: nth_tl)
  then have "0 < k" using ik(6) by (metis gr0I not_less_zero zero_less_Suc)
  then show ?thesis using that(2) ik by blast
qed (use that(1) in blast)

lemma trimLeft_ok:
  assumes s: "str_is m R s v"
  shows "\<exists>s' m'. s8_trimLeft m s c = Some (s', m') \<and> str_is m' R s' (strip_left c v) \<and> same_data m R m'"
proof -
  obtain s1 m1 a where d: "s8_detach m s = Some (s1, m1)" "str_is m1 R s1 v" "same_data m R m1"
    "mString s1 = Some a" "a \<notin># R" "mCapacity s1 = mCapacity s"
    using detachE[OF s] by metis
  show ?thesis
  proof (cases "\<forall>x \<in> set v. x = c")
    case True
    obtain m2 where m2: "s8_write m1 s1 0 [0] = Some m2" "str_is m2 R s1 (take 0 v)" "same_data m1 R m2"
      using write_cut[OF d(2,4,5) le0] by blast
    then show ?thesis
      using d(1) findNotChar_none[OF d(2) True] strip_all[OF True] same_data_trans[OF d(3) m2(3)]
      by (auto simp: s8_trimLeft_def)
  next
    case False
    then obtain x where "x \<in> set v" "x \<noteq> c" by blast
    then obtain i where i: "i < length v" "v ! i \<noteq> c" "\<forall>j<i. v ! j = c"
      by (rule ends_exist)
    have fnd: "find (\<lambda>i. v ! i \<noteq> c) [0..<length v] = Some i" using i by (simp add: find_upt)
    obtain e where f: "s8_findNotChar m1 s1 c = Some (int i, e)"
      using findNotChar_ok[OF d(2), of c] fnd by simp
    show ?thesis
    proof (cases "i = 0")
      case True
      then show ?thesis
        using d f strip_left_at[OF i] by (auto simp: s8_trimLeft_def)
    next
      case False
      have "i + (length v - i) \<le> length v" using i(1) by simp
      then obtain w m2 m3 where m: "s8_read m1 s1 i (length v - i) = Some w" "s8_write m1 s1 0 w = Some m2"
        "s8_write m2 s1 (length v - i) [0] = Some m3" "str_is m3 R s1 (take (length v - i) (drop i v))"
        "same_data m1 R m3"
        using move_cut[OF d(2,4,5)] by blast
      have "s8_trimLeft m s c = Some (s1, m3)"
        using d(1) f False length_ok[OF d(2)] m(1,2,3) by (simp add: s8_trimLeft_def Let_def)
      then show ?thesis
        using m(4) strip_left_at[OF i] same_data_trans[OF d(3) m(5)] by auto
    qed
  qed
qed

lemma trimRight_ok:
  assumes s: "str_is m R s v" and t: "trimmable c v"
  shows "\<exists>s' m'. s8_trimRight m s c = Some (s', m') \<and> str_is m' R s' (strip_right c v) \<and> same_data m R m'"
proof -
  obtain s1 m1 a where d: "s8_detach m s = Some (s1, m1)" "str_is m1 R s1 v" "same_data m R m1"
    "mString s1 = Some a" "a \<notin># R" "mCapacity s1 = mCapacity s"
    using detachE[OF s] by metis
  show ?thesis
    using t
  proof (cases rule: trimmable_cases)
    case 1
    obtain m2 where m2: "s8_write m1 s1 0 [0] = Some m2" "str_is m2 R s1 (take 0 v)" "same_data m1 R m2"
      using write_cut[OF d(2,4,5) le0] by blast
    then show ?thesis
      using d(1) findNotChar_none[OF d(2) 1] strip_all[OF 1] same_data_trans[OF d(3) m2(3)]
      by (auto simp: s8_trimRight_def)
  next
    case (2 i k)
    have f: "s8_findNotChar m1 s1 c = Some (int i, int k)"
      by (rule findNotChar_some(1)[OF d(2) 2(1-3) 2(4-7)])
    have r: "strip_right c v = take (k + 1) v" by (rule strip_right_at[OF 2(5-7)])
    show ?thesis
    proof (cases "k = length v - 1")
      case True
      then have "int k = int (length v) - 1" using 2(5) by simp
      then show ?thesis
        using d(1,2,3) f length_ok[OF d(2)] r True 2(5) by (auto simp: s8_trimRight_def)
    next
      case False
      have "k + 1 \<le> length v" using 2(5) by simp
      then obtain m2 where m2: "s8_write m1 s1 (k + 1) [0] = Some m2" "str_is m2 R s1 (take (k + 1) v)"
        "same_data m1 R m2"
        using write_cut[OF d(2,4,5)] by blast
      have "int k \<noteq> int (length v) - 1" using False 2(5) by linarith
      moreover have "nat (int k + 1) = k + 1" by (metis nat_int of_nat_1 of_nat_add)
      ultimately have "s8_trimRight m s c = Some (s1, m2)"
        using d(1) f length_ok[OF d(2)] m2(1) by (simp add: s8_trimRight_def)
      then show ?thesis using m2(2) r same_data_trans[OF d(3) m2(3)] by auto
    qed
  qed
qed

lemma trim_ok:
  assumes s: "str_is m R s v" and t: "trimmable c v"
  shows "\<exists>s' m'. s8_trim m s c = Some (s', m') \<and> str_is m' R s' (strip_left c (strip_right c v))
    \<and> same_data m R m'"
proof -
  obtain s1 m1 a where d: "s8_detach m s = Some (s1, m1)" "str_is m1 R s1 v" "same_data m R m1"
    "mString s1 = Some a" "a \<notin># R" "mCapacity s1 = mCapacity s"
    using detachE[OF s] by metis
  show ?thesis
    using t
  proof (cases rule: trimmable_cases)
    case 1
    obtain m2 where m2: "s8_write m1 s1 0 [0] = Some m2" "str_is m2 R s1 (take 0 v)" "same_data m1 R m2"
      using write_cut[OF d(2,4,5) le0] by blast
    have "strip_left c (strip_right c v) = []" using strip_all[OF 1] by (simp add: strip_left_def)
    then show ?thesis
      using d(1) findNotChar_none[OF d(2) 1] m2 length_ok[OF d(2)] same_data_trans[OF d(3) m2(3)]
      by (auto simp: s8_trim_def)
  next
    case (2 i k)
    have f: "s8_findNotChar m1 s1 c = Some (int i, int k)"
      by (rule findNotChar_some(1)[OF d(2) 2(1-3) 2(4-7)])
    have r: "strip_right c v = take (k + 1) v" by (rule strip_right_at[OF 2(5-7)])
    have "strip_left c (take (k + 1) v) = drop i (take (k + 1) v)"
      using 2 by (intro strip_left_at) auto
    then have lr: "strip_left c (strip_right c v) = take (k + 1 - i) (drop i v)"
      unfolding r by (simp add: drop_take)
    have "i + (k + 1 - i) \<le> length v" using 2(5,8) by simp
    then obtain w m2 m3 where m: "s8_read m1 s1 i (k + 1 - i) = Some w" "s8_write m1 s1 0 w = Some m2"
      "s8_write m2 s1 (k + 1 - i) [0] = Some m3" "str_is m3 R s1 (take (k + 1 - i) (drop i v))"
      "same_data m1 R m3"
      using move_cut[OF d(2,4,5)] by blast
    have n: "nat (int k - int i + 1) = k + 1 - i" using 2(8) by simp
    have "s8_trim m s c = Some (s1, m3)"
      using d(1) f length_ok[OF d(2)] m(1,2,3) 2(5) n by (simp add: s8_trim_def Let_def)
    then show ?thesis using m(4) lr same_data_trans[OF d(3) m(5)] by auto
  qed
qed

end
