(* ===== verification/Str_Find.thy ===== *)
theory Str_Find
  imports Str_Edit
begin

text \<open>
  Pieces of a string, its reverse, searching from the front and from the back, and removing every
  occurrence of a substring.
\<close>

section \<open>Pieces\<close>

lemma left_ok:
  assumes s: "str_is m R s v" "mString s = Some a" and n: "n \<le> length v" "n < s8_maxsize"
  shows "\<exists>r m'. s8_left m s n = Some (r, m') \<and> str_is m' (add_mset a R) r (take n v)
    \<and> same_data m (add_mset a R) m'"
proof -
  note f = data_facts[OF s]
  have "n \<le> length (data_at m a)" using n(1) f(3,4) by simp
  then obtain r m' where r: "s8_new_chars m (Some (data_at m a)) n = Some (r, m')"
    "str_is m' (add_mset a R) r (cstr (take n (data_at m a)))" "same_data m (add_mset a R) m'"
    using new_chars_ok[OF str_is_pool[OF s] _ n(2)] by blast
  have "cstr (take n (data_at m a)) = take n v"
    using cstr_take[of n "data_at m a"] n(1) f(2) by simp
  moreover have "s8_bytes m s 0 = Some (data_at m a)" using bytes_ok[OF s, of 0] by simp
  ultimately show ?thesis using r by (auto simp: s8_left_def)
qed

text \<open>The characters from an offset on are those of the rest of the block.\<close>

lemma bytes_from:
  assumes s: "str_is m R s v" "mString s = Some a" and i: "i \<le> length v"
  shows "s8_bytes m s i = Some (drop i (data_at m a))" "0 \<in> set (drop i (data_at m a))"
    "cstr (drop i (data_at m a)) = drop i v" "length v - i \<le> length (drop i (data_at m a))"
proof -
  note f = data_facts[OF s]
  have "i \<le> length (data_at m a)" using i f(3,4) by simp
  then show "s8_bytes m s i = Some (drop i (data_at m a))" by (rule bytes_ok[OF s])
  show "0 \<in> set (drop i (data_at m a))" "cstr (drop i (data_at m a)) = drop i v"
    using cstr_drop[OF f(1), of i] i f(2) by simp_all
  show "length v - i \<le> length (drop i (data_at m a))" using f(3,4) by simp
qed

lemma right_ok:
  assumes s: "str_is m R s v" "mString s = Some a" and n: "n < s8_maxsize"
  shows "\<exists>r m'. s8_right m s n = Some (r, m')
    \<and> str_is m' (add_mset a R) r (if length v \<le> n then [] else drop (length v - n) v)
    \<and> same_data m (add_mset a R) m'"
proof (cases "length v \<le> n")
  case True
  then show ?thesis
    using new_ok[OF str_is_pool[OF s]] length_ok[OF s(1)] by (auto simp: s8_right_def)
next
  case False
  let ?R = "add_mset a R"
  let ?i = "length v - n"
  note b = bytes_from[OF s, of ?i]
  have "n \<le> length (drop ?i (data_at m a))" using b(4) False by simp
  then obtain t m1 where t: "s8_new_chars m (Some (drop ?i (data_at m a))) n = Some (t, m1)"
    "str_is m1 ?R t (cstr (take n (drop ?i (data_at m a))))" "same_data m ?R m1"
    using new_chars_ok[OF str_is_pool[OF s] _ n] by blast
  have "cstr (take n (drop ?i (data_at m a))) = take n (cstr (drop ?i (data_at m a)))"
    using b(3) False by (intro cstr_take) simp
  also have "\<dots> = drop ?i v" using b(3) False by simp
  finally have t': "str_is m1 ?R t (drop ?i v)" using t(2) by simp
  obtain p where p: "mString t = Some p" using t' by (rule str_isE)
  note pool1 = str_is_pool[OF t' p]
  obtain m2 where m2: "s8_new m1 = Some (\<lparr>mString = Some 0, mCapacity = 0\<rparr>, m2)"
    "str_is m2 (add_mset p ?R) \<lparr>mString = Some 0, mCapacity = 0\<rparr> []" "same_data m1 (add_mset p ?R) m2"
    using new_ok[OF pool1] by auto
  obtain s' m3 where rel: "s8_release m2 \<lparr>mString = Some 0, mCapacity = 0\<rparr> = Some (s', m3)"
    "pool m3 (add_mset p ?R)" "same_data m2 (add_mset p ?R) m3"
    using release_str[OF m2(2)] by blast
  have sd: "same_data m1 (add_mset p ?R) m3" by (rule same_data_trans[OF m2(3) rel(3)])
  have "str_is m3 ?R t (drop ?i v)"
    using str_is_carry[OF t' p _ sd, of ?R] rel(2) str_is_0[OF t'] by (simp add: pool_def)
  moreover have "s8_right m s n = Some (t, m3)"
    using False length_ok[OF s(1)] b(1) t(1) p m2(1) rel(1)
    by (auto simp: s8_right_def s8_new_move_def s8_new_def bind_eq_Some_iff)
  moreover have "same_data m ?R m3"
    using t(3) sd by (auto simp: same_data_def)
  ultimately show ?thesis using False by auto
qed

section \<open>Reversing\<close>

lemma reverse_ok:
  assumes s: "str_is m R s v" "mString s = Some a" and n: "length v < s8_maxsize"
  shows "\<exists>r m'. s8_reverse m s = Some (r, m') \<and> str_is m' (add_mset a R) r (rev v)
    \<and> same_data m (add_mset a R) m'"
proof (cases "v = []")
  case True
  then show ?thesis
    using new_ok[OF str_is_pool[OF s]] length_ok[OF s(1)] by (auto simp: s8_reverse_def)
next
  case False
  let ?R = "add_mset a R"
  note f = data_facts[OF s]
  obtain r m1 where r: "s8_new_cstr m (data_at m a) = Some (r, m1)" "str_is m1 ?R r v" "same_data m ?R m1"
    "mCapacity r = length v"
    using new_cstr_ok[OF str_is_pool[OF s] f(1)] n f(2) False by auto
  obtain p0 where p0: "mString r = Some p0" using r(2) by (rule str_isE)
  obtain r2 m2 p where c: "s8_clear m1 r = Some (r2, m2)" "str_is m2 ?R r2 []" "same_data m1 ?R m2"
    "mString r2 = Some p" "p \<notin># ?R" "mCapacity r2 = mCapacity r"
    "data_at m2 p = replicate (length v) 0 @ drop (length v) (data_at m1 (the (mString r)))"
    using clear_ok[OF r(2)] by (elim exE conjE) (rule that)
  note f1 = data_facts[OF r(2) p0]
  have x: "drop (length v) (data_at m1 p0) = [data_at m1 p0 ! length v]"
    using Cons_nth_drop_Suc[of "length v" "data_at m1 p0"] f1(4) r(4) by simp
  have "data_at m1 p0 ! length v = 0" using f1(6) r(4) by simp
  then have d2: "data_at m2 p = replicate (length v) 0 @ [0]" using c(7) p0 x by simp
  have s2: "str_is m2 (add_mset p R) s v"
    using str_is_carry[OF s, of m2 "add_mset p R"] same_data_trans[OF r(3) c(3)] data_facts(5)[OF c(2,4)]
      str_is_0[OF s(1)] by (simp add: add_mset_commute)
  have rd: "s8_read m2 s 0 (length v) = Some v" using read_value[OF s2, of 0 "length v"] by simp
  have fit: "0 + length (rev v) \<le> length (data_at m2 p)" using d2 by simp
  obtain m3 where m3: "s8_write m2 r2 0 (rev v) = Some m3" "refs_ok m3 (add_mset p ?R)" "same_data m2 ?R m3"
    "data_at m3 p = take 0 (data_at m2 p) @ rev v @ drop (0 + length (rev v)) (data_at m2 p)"
    using write_own[OF c(2,4,5) fit] by (elim exE conjE) (rule that)
  have d3: "data_at m3 p = rev v @ [0]" using m3(4) d2 by simp
  have "str_is m3 ?R r2 (rev v)"
  proof (rule str_is_intro_same[OF c(2,4) m3(2,3)])
    show "length (data_at m3 p) = mCapacity r2 + 1" "data_at m3 p ! mCapacity r2 = 0"
      unfolding d3 using c(6) r(4) by (simp_all add: nth_append)
    show "cstr (data_at m3 p) = rev v"
      unfolding d3 using f(7) by (intro cstr_append_zero) simp
  qed
  moreover have "s8_reverse m s = Some (r2, m3)"
    using False length_ok[OF s(1)] bytes_ok[OF s, of 0] r(1) c(1) rd m3(1) by (simp add: s8_reverse_def)
  ultimately show ?thesis
    using same_data_trans[OF same_data_trans[OF r(3) c(3)] m3(3)] by blast
qed

section \<open>Searching\<close>

lemma find_ok:
  assumes s: "str_is m R s v" and d: "0 \<in> set d" and i: "i \<le> length v"
  shows "s8_find m s d i = Some (kmp_result (map_option (\<lambda>k. i + k) (c_strstr (drop i v) (cstr d))))"
proof -
  obtain a where a: "mString s = Some a" using s by (rule str_isE)
  show ?thesis
    using bytes_from[OF s a i] d
    by (simp add: s8_find_def c_strlen_def kmp_result_def split: option.split)
qed

section \<open>Removing every occurrence\<close>

lemma c_strstr_fits: "c_strstr v k = Some i \<Longrightarrow> i + length k \<le> length v \<and> take (length k) (drop i v) = k"
proof -
  assume "c_strstr v k = Some i"
  then have p: "take (length k) (drop i v) = k" "i \<le> length v"
    using c_strstr_Some[of v k i] by (simp_all add: c_prefix_take)
  then have "length k \<le> length v - i" by (metis length_drop length_take min.cobounded1)
  then show ?thesis using p by simp
qed

lemma c_strstr_shorter:
  "\<lbrakk>c_strstr v k = Some i; k \<noteq> []\<rbrakk> \<Longrightarrow> length (take i v @ drop (i + length k) v) < length v"
proof -
  assume "c_strstr v k = Some i" "k \<noteq> []"
  then have "i + length k \<le> length v" "0 < length k" using c_strstr_fits by blast+
  then show ?thesis by (simp del: length_greater_0_conv)
qed

function remove_str :: "byte list \<Rightarrow> byte list \<Rightarrow> byte list" where
  "remove_str v k = (if k = [] then v
     else case c_strstr v k of None \<Rightarrow> v | Some i \<Rightarrow> remove_str (take i v @ drop (i + length k) v) k)"
  by pat_completeness auto

termination
proof (relation "measure (\<lambda>(v, k). length v)")
  fix v k :: "byte list" and i
  assume "k \<noteq> []" "c_strstr v k = Some i"
  then show "((take i v @ drop (i + length k) v, k), (v, k)) \<in> measure (\<lambda>(v, k). length v)"
    using c_strstr_shorter by simp
qed simp

declare remove_str.simps [simp del]

lemma remove_str_none: "k \<noteq> [] \<Longrightarrow> c_strstr (remove_str v k) k = None"
proof (induction v k rule: remove_str.induct)
  case (1 v k)
  then show ?case
    by (cases "c_strstr v k") (simp_all add: remove_str.simps[of v k])
qed

lemma removeOne_ok:
  assumes s: "str_is m R s v" "mString s = Some a" "a \<notin># R" and d: "0 \<in> set d"
  shows "case c_strstr v (cstr d) of
      None \<Rightarrow> s8_removeOne m s d = Some (False, m)
    | Some i \<Rightarrow> (\<exists>m'. s8_removeOne m s d = Some (True, m')
        \<and> str_is m' R s (take i v @ drop (i + length (cstr d)) v) \<and> same_data m R m')"
proof (cases "c_strstr v (cstr d)")
  case None
  then show ?thesis
    using find_ok[OF s(1) d, of 0] by (simp add: s8_removeOne_def kmp_result_def)
next
  case (Some i)
  let ?k = "length (cstr d)"
  have fit: "i + ?k \<le> length v" using c_strstr_fits[OF Some] by simp
  let ?w = "drop (i + ?k) v"
  have lw: "length ?w = length v - (i + ?k)" by simp
  have rd: "s8_read m s (?k + i) (length v - (?k + i)) = Some ?w"
    using read_value[OF s(1), of "?k + i" "length v - (?k + i)"] fit by (simp add: add.commute)
  have le: "i + length ?w \<le> length v" using fit lw by simp
  obtain m1 where m1: "s8_write m s i ?w = Some m1"
    "str_is m1 R s (cstr (take i v @ ?w @ drop (i + length ?w) v))" "same_data m R m1"
    using write_inside[OF s le] by (elim exE conjE) (rule that)
  have z: "0 \<notin> set (take i v @ ?w @ drop (i + length ?w) v)"
    using data_facts(7)[OF s(1,2)] by (auto dest: in_set_takeD in_set_dropD)
  have v1: "str_is m1 R s (take i v @ ?w @ drop (i + length ?w) v)"
    using m1(2) cstr_id[OF z] by simp
  have "length v - ?k \<le> length (take i v @ ?w @ drop (i + length ?w) v)" using fit by simp
  then obtain m2 where m2: "s8_write m1 s (length v - ?k) [0] = Some m2"
    "str_is m2 R s (take (length v - ?k) (take i v @ ?w @ drop (i + length ?w) v))" "same_data m1 R m2"
    using write_cut[OF v1 s(2,3)] by blast
  have "length (take i v @ ?w) = length v - ?k" using fit by simp
  then have "take (length v - ?k) (take i v @ ?w @ drop (i + length ?w) v) = take i v @ ?w"
    by (metis append.assoc append_eq_conv_conj)
  moreover have "s8_removeOne m s d = Some (True, m2)"
    using find_ok[OF s(1) d, of 0] Some length_ok[OF s(1)] d rd m1(1) m2(1)
    by (simp add: s8_removeOne_def kmp_result_def c_strlen_def Let_def)
  ultimately show ?thesis
    using Some m2(2) same_data_trans[OF m1(3) m2(3)] by simp
qed

lemma remove_loop_ok:
  assumes d: "0 \<in> set d" "cstr d \<noteq> []"
  shows "\<lbrakk>str_is m R s v; mString s = Some a; a \<notin># R\<rbrakk> \<Longrightarrow>
    \<exists>m'. s8_remove_loop m s d = Some m' \<and> str_is m' R s (remove_str v (cstr d)) \<and> same_data m R m'"
proof (induction "length v" arbitrary: m v rule: less_induct)
  case less
  note one = removeOne_ok[OF less.prems d(1)]
  show ?case
  proof (cases "c_strstr v (cstr d)")
    case None
    then show ?thesis
      using one less.prems(1) by (subst s8_remove_loop.simps) (simp add: remove_str.simps[of v])
  next
    case (Some i)
    let ?v = "take i v @ drop (i + length (cstr d)) v"
    obtain m1 where m1: "s8_removeOne m s d = Some (True, m1)" "str_is m1 R s ?v" "same_data m R m1"
      using one Some by auto
    have "length ?v < length v" by (rule c_strstr_shorter[OF Some d(2)])
    then obtain m2 where m2: "s8_remove_loop m1 s d = Some m2" "str_is m2 R s (remove_str ?v (cstr d))"
      "same_data m1 R m2"
      using less.hyps[OF _ m1(2) less.prems(2,3)] by blast
    have "remove_str v (cstr d) = remove_str ?v (cstr d)"
      using Some d(2) by (simp add: remove_str.simps[of v])
    moreover have "s8_remove_loop m s d = Some m2"
      using m1(1) m2(1) by (subst s8_remove_loop.simps) simp
    ultimately show ?thesis
      using m2(2) same_data_trans[OF m1(3) m2(3)] by auto
  qed
qed

lemma removeAll_ok:
  assumes s: "str_is m R s v" and d: "0 \<in> set d" "cstr d \<noteq> []"
  shows "\<exists>s' m'. s8_removeAll m s d = Some (True, s', m') \<and> str_is m' R s' (remove_str v (cstr d))
    \<and> same_data m R m'"
proof -
  obtain s1 m1 a where dt: "s8_detach m s = Some (s1, m1)" "str_is m1 R s1 v" "same_data m R m1"
    "mString s1 = Some a" "a \<notin># R" "mCapacity s1 = mCapacity s"
    using detachE[OF s] by metis
  obtain m2 where "s8_remove_loop m1 s1 d = Some m2" "str_is m2 R s1 (remove_str v (cstr d))" "same_data m1 R m2"
    using remove_loop_ok[OF d dt(2,4,5)] by blast
  then show ?thesis
    using dt(1) same_data_trans[OF dt(3)] by (auto simp: s8_removeAll_def)
qed

text \<open>With the empty string the loop finds it each time: it never ends.\<close>

lemma remove_loop_diverges:
  assumes d: "0 \<in> set d" "cstr d = []" and run: "s8_remove_loop m s d = Some m'"
  shows "\<not> (str_is m R s v \<and> mString s = Some a \<and> a \<notin># R)"
proof -
  define P where "P = (\<lambda>m s e (m' :: smem). e = d \<longrightarrow> (\<forall>v. \<not> (str_is m R s v \<and> mString s = Some a \<and> a \<notin># R)))"
  have "P m s d m'"
  proof (rule s8_remove_loop.raw_induct[OF _ run])
    fix loop m s e m'
    assume IH: "\<And>m s e m'. loop m s e = Some m' \<Longrightarrow> P m s e m'"
      and step: "do { (more, m) \<leftarrow> s8_removeOne m s e; if more then loop m s e else Some m } = Some m'"
    show "P m s e m'"
      unfolding P_def
    proof (intro impI allI notI)
      fix v assume e: "e = d" and s: "str_is m R s v \<and> mString s = Some a \<and> a \<notin># R"
      have "c_strstr v (cstr d) = Some 0" using d(2) by (cases v) simp_all
      then obtain m1 where m1: "s8_removeOne m s d = Some (True, m1)"
        "str_is m1 R s (take 0 v @ drop (0 + length (cstr d)) v)"
        using removeOne_ok[of m R s v a d] s d(1) by auto
      then have "loop m1 s e = Some m'" using step e by simp
      then show False using IH[of m1 s e m'] e m1(2) s unfolding P_def by blast
    qed
  qed
  then show ?thesis unfolding P_def by blast
qed

section \<open>The last occurrence\<close>

text \<open>An occurrence of the key read backwards in the reversed text.\<close>

lemma rev_occurrence:
  assumes "i + length k \<le> length v"
  shows "c_prefix (rev k) (drop i (rev v)) \<longleftrightarrow> c_prefix k (drop (length v - i - length k) v)"
proof -
  let ?n = "length v - i - length k"
  have n: "length v - (i + length k) = ?n" by simp
  have len: "length (take (length v - i) v) - length k = ?n" by simp
  have "take (length k) (drop i (rev v)) = rev (drop ?n (take (length v - i) v))"
    unfolding drop_rev take_rev len ..
  also have "drop ?n (take (length v - i) v) = take (length k) (drop ?n v)"
    using assms by (simp add: drop_take)
  finally have "take (length (rev k)) (drop i (rev v)) = rev k \<longleftrightarrow> take (length k) (drop ?n v) = k"
    by simp
  then show ?thesis by (simp only: c_prefix_take)
qed

definition last_occurrence :: "byte list \<Rightarrow> byte list \<Rightarrow> int" where
  "last_occurrence v k =
    (case find (\<lambda>i. c_prefix k (drop i v)) (rev [0..<length v + 1]) of Some i \<Rightarrow> int i | None \<Rightarrow> - 1)"

lemma last_occurrence_rev:
  assumes "k \<noteq> []"
  shows "last_occurrence v k = (case c_strstr (rev v) (rev k) of
    Some i \<Rightarrow> int (length v - i - length k) | None \<Rightarrow> - 1)"
proof -
  have long: "\<not> c_prefix k (drop j v)" if "length v < j + length k" for j
  proof
    assume "c_prefix k (drop j v)"
    then have "length k \<le> length v - j"
      by (metis c_prefix_take length_drop length_take min.cobounded1)
    then show False using that assms by (cases k) simp_all
  qed
  let ?P = "\<lambda>i. c_prefix k (drop i v)"
  show ?thesis
  proof (cases "c_strstr (rev v) (rev k)")
    case None
    have "\<not> ?P j" for j
    proof
      assume p: "?P j"
      then have fit: "j + length k \<le> length v" using long not_le by blast
      let ?i = "length v - j - length k"
      have "length v - ?i - length k = j" "?i + length k \<le> length v" using fit by simp_all
      then have "c_prefix (rev k) (drop ?i (rev v))" using rev_occurrence[of ?i k v] p by simp
      then show False using c_strstr_None[OF None] by simp
    qed
    then have "find ?P (rev [0..<length v + 1]) = None" by (simp add: find_None_iff del: upt_Suc)
    then show ?thesis using None by (simp only: last_occurrence_def option.case)
  next
    case (Some i)
    let ?j = "length v - i - length k"
    have fit: "i + length k \<le> length v" using c_strstr_fits[OF Some] by simp
    have p: "?P ?j" using c_strstr_Some[OF Some] rev_occurrence[OF fit] by simp
    have later: "\<not> ?P j" if "?j < j" for j
    proof
      assume "?P j"
      then have fj: "j + length k \<le> length v" using long not_le by blast
      let ?i = "length v - j - length k"
      have "length v - ?i - length k = j" "?i + length k \<le> length v" using fj by simp_all
      then have "c_prefix (rev k) (drop ?i (rev v))" using rev_occurrence[of ?i k v] \<open>?P j\<close> by simp
      moreover have "?i < i" using that fit fj by simp
      ultimately show False using c_strstr_Some[OF Some] by blast
    qed
    have "find ?P (rev [0..<n]) = Some ?j" if "?j < n" for n
      using that
    proof (induction n)
      case (Suc n)
      show ?case
      proof (cases "n = ?j")
        case True
        then show ?thesis using p by simp
      next
        case False
        then show ?thesis using Suc later by simp
      qed
    qed simp
    then have "find ?P (rev [0..<length v + 1]) = Some ?j" by (metis diff_diff_left diff_le_self le_imp_less_Suc Suc_eq_plus1)
    then show ?thesis using Some by (simp only: last_occurrence_def option.case)
  qed
qed

text \<open>
  The search from the back makes four temporary strings, and releases them; the object and every
  other one are as before.
\<close>

lemma find_last_of_ok:
  assumes s: "str_is m R s v" "mString s = Some a" and d: "0 \<in> set d" "cstr d \<noteq> []"
    and n: "length v < s8_maxsize" "length (cstr d) < s8_maxsize"
  shows "\<exists>m'. s8_find_last_of m s d = Some (last_occurrence v (cstr d), m')
    \<and> str_is m' R s v \<and> same_data m (add_mset a R) m'"
proof -
  let ?k = "cstr d" and ?R = "add_mset a R"
  obtain k m1 where k: "s8_new_cstr m d = Some (k, m1)" "str_is m1 ?R k ?k" "same_data m ?R m1"
    using new_cstr_ok[OF str_is_pool[OF s] d(1) n(2)] by blast
  obtain kp where kp: "mString k = Some kp" using k(2) by (rule str_isE)
  have s1: "str_is m1 (add_mset kp R) s v"
    using str_is_carry[OF s, of m1 "add_mset kp R"] k(3) data_facts(5)[OF k(2) kp] str_is_0[OF s(1)]
    by (simp add: add_mset_commute)
  let ?d1 = "data_at m1 a"
  note f1 = data_facts[OF s1 s(2)]
  have b1: "s8_bytes m1 s 0 = Some ?d1" using bytes_ok[OF s1 s(2), of 0] by simp
  obtain w m2 where w: "s8_new_cstr m1 ?d1 = Some (w, m2)" "str_is m2 (add_mset kp ?R) w v"
    "same_data m1 (add_mset kp ?R) m2"
    using new_cstr_ok[OF str_is_pool[OF k(2) kp] f1(1)] f1(2) n(1) by auto
  obtain wp where wp: "mString w = Some wp" using w(2) by (rule str_isE)
  obtain vr m3 where vr: "s8_reverse m2 w = Some (vr, m3)" "str_is m3 (add_mset wp (add_mset kp ?R)) vr (rev v)"
    "same_data m2 (add_mset wp (add_mset kp ?R)) m3"
    using reverse_ok[OF w(2) wp n(1)] by blast
  obtain vp where vp: "mString vr = Some vp" using vr(2) by (rule str_isE)
  let ?R3 = "add_mset wp (add_mset kp ?R)"
  have sd3: "same_data m1 (add_mset kp ?R) m3"
    using w(3) vr(3) by (auto simp: same_data_def)
  have k3: "str_is m3 (add_mset vp (add_mset wp ?R)) k ?k"
    using str_is_carry[OF k(2) kp, of m3 "add_mset vp (add_mset wp ?R)"] sd3 data_facts(5)[OF vr(2) vp]
      str_is_0[OF s(1)] by (simp add: add_mset_commute)
  obtain kr m4 where kr: "s8_reverse m3 k = Some (kr, m4)"
    "str_is m4 (add_mset kp (add_mset vp (add_mset wp ?R))) kr (rev ?k)"
    "same_data m3 (add_mset kp (add_mset vp (add_mset wp ?R))) m4"
    using reverse_ok[OF k3 kp n(2)] by blast
  obtain rp where rp: "mString kr = Some rp" using kr(2) by (rule str_isE)
  let ?A = "{#rp, kp, vp, wp, a#} + R"
  have ref4: "refs_ok m4 ?A" using data_facts(5)[OF kr(2) rp] by (simp add: add_mset_commute)
  have z: "0 \<in># R" using str_is_0[OF s(1)] by simp
  have d4: "data_at m4 x = data_at m3 x" if "x \<in># {#kp, vp, wp, a#} + R" for x
    using same_dataD[OF kr(3), of x] that by auto
  have vr4: "str_is m4 ({#rp, kp, wp, a#} + R) vr (rev v)"
    using vr(2) vp ref4 d4[of vp] d4[of 0] z unfolding str_is_def by (auto simp: add_mset_commute)
  have w4: "str_is m4 ({#rp, kp, vp, a#} + R) w v"
    using w(2) wp ref4 d4[of wp] d4[of 0] z same_dataD[OF vr(3), of wp] same_dataD[OF vr(3), of 0]
    unfolding str_is_def by (auto simp: add_mset_commute)
  have k4: "str_is m4 ({#rp, vp, wp, a#} + R) k ?k"
    using k3 kp ref4 d4[of kp] d4[of 0] z unfolding str_is_def by (auto simp: add_mset_commute)
  have s4: "str_is m4 ({#rp, kp, vp, wp#} + R) s v"
    using s1 s(2) ref4 d4[of a] d4[of 0] z same_dataD[OF sd3, of a] same_dataD[OF sd3, of 0]
    unfolding str_is_def by (auto simp: add_mset_commute)
  have kr4: "str_is m4 ({#kp, vp, wp, a#} + R) kr (rev ?k)"
    using kr(2) by (simp add: add_mset_commute)
  have lens: "s8_length m4 vr = Some (length v)" "s8_length m4 w = Some (length v)"
    "s8_length m4 kr = Some (length ?k)" "s8_length m4 k = Some (length ?k)" "s8_length m4 s = Some (length v)"
    using length_ok[OF vr4] length_ok[OF w4] length_ok[OF kr4] length_ok[OF k4] length_ok[OF s4] by simp_all
  note kb = bytes_ok[OF kr4 rp, of 0, simplified] and kf = data_facts[OF kr4 rp]
  have fnd: "s8_find m4 vr (data_at m4 rp) 0 = Some (kmp_result (c_strstr (rev v) (rev ?k)))"
    using find_ok[OF vr4 kf(1), of 0] kf(2) by (simp add: option.map_ident)
  obtain k5 m5 where r5: "s8_release m4 kr = Some (k5, m5)" "pool m5 ({#kp, vp, wp, a#} + R)"
    "same_data m4 ({#kp, vp, wp, a#} + R) m5"
    using release_str[OF kr4] by blast
  have p5: "refs_ok m5 ({#kp, vp, wp, a#} + R)" "data_at m5 0 = [0]" using r5(2) by (simp_all add: pool_def)
  have "refs_ok m5 (add_mset vp ({#kp, wp, a#} + R))" using p5(1) by (simp add: add_mset_commute)
  then obtain k6 m6 where r6: "s8_release m5 vr = Some (k6, m6)" "pool m6 ({#kp, wp, a#} + R)"
    "same_data m5 ({#kp, wp, a#} + R) m6"
    using release_pool[of m5 vp "{#kp, wp, a#} + R" vr] z p5(2) vp by auto
  have p6: "refs_ok m6 (add_mset wp ({#kp, a#} + R))" "data_at m6 0 = [0]"
    using r6(2) by (simp_all add: pool_def add_mset_commute)
  then obtain k7 m7 where r7: "s8_release m6 w = Some (k7, m7)" "pool m7 ({#kp, a#} + R)"
    "same_data m6 ({#kp, a#} + R) m7"
    using release_pool[of m6 wp "{#kp, a#} + R" w] z wp by auto
  have p7: "refs_ok m7 (add_mset kp (add_mset a R))" "data_at m7 0 = [0]"
    using r7(2) by (simp_all add: pool_def add_mset_commute)
  then obtain k8 m8 where r8: "s8_release m7 k = Some (k8, m8)" "pool m8 ?R" "same_data m7 ?R m8"
    using release_pool[of m7 kp ?R k] z kp by auto
  have "same_data m ?R m1" "same_data m1 ?R m3" "same_data m3 ?R m4" "same_data m4 ?R m5" "same_data m5 ?R m6"
    "same_data m6 ?R m7" "same_data m7 ?R m8"
    using k(3) sd3 kr(3) r5(3) r6(3) r7(3) r8(3) by (simp_all add: same_data_def)
  then have same: "same_data m ?R m8" by (meson same_data_trans)
  have "str_is m8 R s v"
    using str_is_carry[OF s _ same, of R] r8(2) z by (simp add: pool_def)
  moreover have "s8_find_last_of m s d = Some (last_occurrence v ?k, m8)"
  proof -
    have res: "(if kmp_result (c_strstr (rev v) (rev ?k)) < 0 then kmp_result (c_strstr (rev v) (rev ?k))
        else int (length v) - kmp_result (c_strstr (rev v) (rev ?k)) - int (length ?k)) = last_occurrence v ?k"
      using c_strstr_fits[of "rev v" "rev ?k"]
      by (auto simp: last_occurrence_rev[OF d(2)] kmp_result_def split: option.split)
    show ?thesis
      using k(1) b1 w(1) vr(1) kr(1) lens kb fnd r5(1) r6(1) r7(1) r8(1) res
      by (simp add: s8_find_last_of_def)
  qed
  ultimately show ?thesis using same by blast
qed

end
