(* ===== verification/Str_Spec.thy ===== *)
theory Str_Spec
  imports Str_Find
begin

text \<open>
  What \<^verbatim>\<open>String8\<close> guarantees, and where its code departs from it. \<^verbatim>\<open>str_is m R s v\<close> says that the
  object \<^verbatim>\<open>s\<close> has the characters \<^verbatim>\<open>v\<close> while \<^verbatim>\<open>R\<close> are the references other objects hold; a
  conclusion \<^verbatim>\<open>same_data m R m'\<close> says that no other object changes.
\<close>

section \<open>A small memory for the examples\<close>

definition mem0 :: smem where
  "mem0 = \<lparr>m_bufs = [0 \<mapsto> \<lparr>sb_refs = 1, sb_data = [0]\<rparr>], m_next = 1, m_junk = (\<lambda>_ _. 255)\<rparr>"

definition mem1 :: smem where
  "mem1 = \<lparr>m_bufs = [0 \<mapsto> \<lparr>sb_refs = 1, sb_data = [0]\<rparr>, 1 \<mapsto> \<lparr>sb_refs = 1, sb_data = [32, 97, 98, 32, 0]\<rparr>],
     m_next = 2, m_junk = (\<lambda>_ _. 255)\<rparr>"

definition str1 :: str8 where
  "str1 = \<lparr>mString = Some 1, mCapacity = 4\<rparr>"

lemma pool0: "pool mem0 {#0#}"
  by (auto simp: pool_def mem0_def refs_ok_def data_at_def)

lemma str1_is: "str_is mem1 {#0#} str1 [32, 97, 98, 32]"
  by (rule str_isI[of _ 1])
    (auto simp: mem1_def str1_def refs_ok_def data_at_def cstr_def split: if_splits)

section \<open>Searching\<close>

text \<open>C23: For a text of less than 2 GiB and a non-empty key of at most a megabyte, \<^verbatim>\<open>kmp_strstr\<close>
  returns the first position at which the key occurs in the text, or -1 when it occurs nowhere. For a text
  of 2 GiB or more, and less than 4, it returns -1 whatever the text is: its length is narrowed to a
  negative \<^verbatim>\<open>int\<close>.\<close>

theorem kmp_strstr_first:
  assumes "0 \<in> set v" "0 \<in> set k" "cstr k \<noteq> []" "length (cstr k) \<le> s8_maxsize" "length (cstr v) < 2 ^ 32"
  shows "\<exists>r. kmp_strstr (Some v) (Some k) = Some r \<and>
    (if length (cstr v) < 2 ^ 31
     then r = - 1 \<and> (\<forall>i \<le> length (cstr v). \<not> c_prefix (cstr k) (drop i (cstr v)))
       \<or> (\<exists>i. r = int i \<and> c_prefix (cstr k) (drop i (cstr v))
            \<and> (\<forall>j < i. \<not> c_prefix (cstr k) (drop j (cstr v))))
     else r = - 1)"
proof (cases "length (cstr v) < 2 ^ 31")
  case True
  then have "kmp_strstr (Some v) (Some k) = Some (kmp_result (c_strstr (cstr v) (cstr k)))"
    using assms by (simp add: kmp_strstr_small)
  then show ?thesis
    using True c_strstr_None[of "cstr v" "cstr k"] c_strstr_Some[of "cstr v" "cstr k"]
    by (cases "c_strstr (cstr v) (cstr k)") (auto simp: kmp_result_def)
next
  case False
  then show ?thesis using kmp_strstr_large[of v k] assms by simp
qed

theorem kmp_strstr_first_witness:
  "\<exists>r. kmp_strstr (Some [97, 97, 98, 97, 97, 99, 0]) (Some [97, 97, 99, 0]) = Some r"
  using kmp_strstr_first[of "[97, 97, 98, 97, 97, 99, 0]" "[97, 97, 99, 0]"]
  by (auto simp: cstr_def s8_maxsize_def)

text \<open>\<^verbatim>\<open>find_last_of\<close> (reverse both strings, search, convert the position) returns the last
  position at which a non-empty key occurs, or -1; the four temporary strings are released, and the
  object and every other one are as before.\<close>

theorem find_last_of_correct:
  assumes "str_is m R s v" "mString s = Some a" "0 \<in> set d" "cstr d \<noteq> []"
    "length v < s8_maxsize" "length (cstr d) < s8_maxsize"
  shows "\<exists>m'. s8_find_last_of m s d = Some (last_occurrence v (cstr d), m')
    \<and> str_is m' R s v \<and> same_data m (add_mset a R) m'"
  using assms by (rule find_last_of_ok)

theorem find_last_of_correct_witness:
  "\<exists>m'. s8_find_last_of mem1 str1 [32, 0] = Some (3, m')"
proof -
  have "last_occurrence [32, 97, 98, 32] (cstr [32, 0]) = 3" by code_simp
  then show ?thesis
    using find_last_of_correct[OF str1_is, of 1 "[32, 0]"]
    by (auto simp: str1_def cstr_def s8_maxsize_def)
qed

section \<open>Editing one object leaves the others alone\<close>

text \<open>C22: Appending a terminated array that lies outside the object to a non-empty string makes its
  characters the old ones followed by the first \<^verbatim>\<open>n\<close> of the array, whether they fit the block, the block
  has to be detached from other objects first, or a larger one is needed; the return value is the number of
  characters added, and every other object that shared the block keeps its characters. Two conditions: the
  result is shorter than a megabyte, since \<^verbatim>\<open>getBuffer\<close> throws from there on; and the object is well formed,
  its block has \<^verbatim>\<open>mCapacity\<close> + 1 bytes, the last of them zero. \<^verbatim>\<open>setTo\<close> on an object that shares its block
  breaks the second one (it keeps the old \<^verbatim>\<open>mCapacity\<close> for a shorter block), and an append to such an object
  can write past its block.\<close>

theorem append_correct:
  assumes "str_is m R s v" "v \<noteq> []" "0 \<in> set d" "length v + min n (length (cstr d)) < s8_maxsize"
  shows "\<exists>s' m'. s8_append m s (Some d) n = Some (int (min n (length (cstr d))), s', m')
    \<and> str_is m' R s' (v @ take n (cstr d)) \<and> same_data m R m'"
  using assms by (rule append_nonempty)

theorem append_correct_witness:
  "\<exists>s' m'. s8_append mem1 str1 (Some [99, 0]) 1 = Some (1, s', m')
    \<and> str_is m' {#0#} s' [32, 97, 98, 32, 99]"
  using append_correct[OF str1_is, of "[99, 0]" 1] by (auto simp: cstr_def s8_maxsize_def)

text \<open>\<^verbatim>\<open>trimLeft\<close> removes the leading copies of a character from every string; \<^verbatim>\<open>trimRight\<close> and
  \<^verbatim>\<open>trim\<close> remove the trailing ones, and both, from every string that does not have its first
  character as its only other one. No other object changes.\<close>

theorem trim_correct:
  assumes "str_is m R s v" "trimmable c v"
  shows "(\<exists>s' m'. s8_trimLeft m s c = Some (s', m') \<and> str_is m' R s' (strip_left c v) \<and> same_data m R m')
    \<and> (\<exists>s' m'. s8_trimRight m s c = Some (s', m') \<and> str_is m' R s' (strip_right c v) \<and> same_data m R m')
    \<and> (\<exists>s' m'. s8_trim m s c = Some (s', m') \<and> str_is m' R s' (strip_left c (strip_right c v))
        \<and> same_data m R m')"
  using trimLeft_ok[OF assms(1)] trimRight_ok[OF assms] trim_ok[OF assms] by blast

theorem trim_correct_witness:
  "\<exists>s' m'. s8_trim mem1 str1 32 = Some (s', m') \<and> str_is m' {#0#} s' [97, 98]"
  using trim_correct[OF str1_is, of 32] by (auto simp: trimmable_def strip_left_def strip_right_def)

text \<open>\<^verbatim>\<open>left\<close>, \<^verbatim>\<open>right\<close> and \<^verbatim>\<open>reverse\<close> return new strings with the first characters, the last
  characters (none at all when asked for the whole length or more), and the characters in reverse, and
  leave the object itself and every other one unchanged.\<close>

theorem pieces_correct:
  assumes "str_is m R s v" "mString s = Some a" "length v < s8_maxsize" "n \<le> length v"
  shows "(\<exists>r m'. s8_left m s n = Some (r, m') \<and> str_is m' (add_mset a R) r (take n v)
        \<and> same_data m (add_mset a R) m')
    \<and> (\<exists>r m'. s8_right m s n = Some (r, m')
        \<and> str_is m' (add_mset a R) r (if n = length v then [] else drop (length v - n) v)
        \<and> same_data m (add_mset a R) m')
    \<and> (\<exists>r m'. s8_reverse m s = Some (r, m') \<and> str_is m' (add_mset a R) r (rev v)
        \<and> same_data m (add_mset a R) m')"
proof -
  have n: "n < s8_maxsize" "length v \<le> n \<longleftrightarrow> n = length v" using assms(3,4) by auto
  show ?thesis
    using left_ok[OF assms(1,2,4) n(1)] right_ok[OF assms(1,2) n(1)] reverse_ok[OF assms(1-3)] n(2)
    by simp
qed

theorem pieces_correct_witness:
  "\<exists>r m'. s8_reverse mem1 str1 = Some (r, m') \<and> str_is m' {#1, 0#} r [32, 98, 97, 32]"
  using pieces_correct[OF str1_is, of 1 2] by (auto simp: str1_def s8_maxsize_def)

text \<open>C24: \<^verbatim>\<open>removeAll\<close> with a non-empty argument ends, returns true, and leaves a string in which the
  argument does not occur; with the empty string, on an object that owns its block, it never
  returns.\<close>

theorem removeAll_ends:
  assumes "str_is m R s v" "0 \<in> set d"
  shows "(cstr d \<noteq> [] \<longrightarrow> (\<exists>s' m'. s8_removeAll m s d = Some (True, s', m')
      \<and> str_is m' R s' (remove_str v (cstr d)) \<and> c_strstr (remove_str v (cstr d)) (cstr d) = None
      \<and> same_data m R m'))
    \<and> (cstr d = [] \<longrightarrow> s8_removeAll m s d = None)"
proof (intro conjI impI)
  assume k: "cstr d \<noteq> []"
  then show "\<exists>s' m'. s8_removeAll m s d = Some (True, s', m')
      \<and> str_is m' R s' (remove_str v (cstr d)) \<and> c_strstr (remove_str v (cstr d)) (cstr d) = None
      \<and> same_data m R m'"
    using removeAll_ok[OF assms k] remove_str_none[OF k] by blast
next
  assume k: "cstr d = []"
  obtain s1 m1 a where dt: "s8_detach m s = Some (s1, m1)" "str_is m1 R s1 v" "mString s1 = Some a" "a \<notin># R"
    using detachE[OF assms(1)] by metis
  have "s8_remove_loop m1 s1 d = None"
    using remove_loop_diverges[OF assms(2) k, of m1 s1] dt(2-4) by (cases "s8_remove_loop m1 s1 d") blast+
  then show "s8_removeAll m s d = None"
    using dt(1) by (simp add: s8_removeAll_def)
qed

theorem removeAll_ends_witness:
  "(\<exists>s' m'. s8_removeAll mem1 str1 [32, 0] = Some (True, s', m')) \<and> s8_removeAll mem1 str1 [0] = None"
  using removeAll_ends[OF str1_is, of "[32, 0]"] removeAll_ends[OF str1_is, of "[0]"]
  by (auto simp: cstr_def)

text \<open>C21: Copying an object shares its block: the copy and the original have the same
  characters, and releasing either leaves the other and everything else readable.\<close>

theorem copy_and_release:
  assumes "str_is m R s v" "mString s = Some a"
  shows "\<exists>m1 s2 m2. s8_new_copy m s = Some (s, m1) \<and> str_is m1 (add_mset a R) s v
    \<and> s8_release m1 s = Some (s2, m2) \<and> str_is m2 R s v \<and> same_data m (add_mset a R) m2"
proof -
  obtain m1 where m1: "s8_new_copy m s = Some (s, m1)" "str_is m1 (add_mset a R) s v"
    "same_data m (add_mset a R) m1"
    using new_copy_ok[OF assms] by blast
  obtain s2 m2 where m2: "s8_release m1 s = Some (s2, m2)" "pool m2 (add_mset a R)"
    "same_data m1 (add_mset a R) m2"
    using release_str[OF m1(2)] by blast
  have same: "same_data m (add_mset a R) m2" by (rule same_data_trans[OF m1(3) m2(3)])
  have "str_is m2 R s v"
    using str_is_carry[OF assms _ same, of R] m2(2) str_is_0[OF assms(1)] by (simp add: pool_def)
  then show ?thesis using m1(1,2) m2(1) same by blast
qed

theorem copy_and_release_witness:
  "\<exists>m1 s2 m2. s8_new_copy mem1 str1 = Some (str1, m1) \<and> s8_release m1 str1 = Some (s2, m2)
    \<and> str_is m2 {#0#} str1 [32, 97, 98, 32]"
  using copy_and_release[OF str1_is, of 1] by (auto simp: str1_def)

section \<open>Where the code departs\<close>

text \<open>\<^verbatim>\<open>trim\<close> and \<^verbatim>\<open>trimRight\<close> make a string empty when its first character is the only one that
  is not trimmed: the backward loop never looks at position 0.\<close>

theorem trim_loses_single:
  assumes s: "str_is m R s (x # replicate n c)" and x: "x \<noteq> c"
  shows "(\<exists>s' m'. s8_trim m s c = Some (s', m') \<and> str_is m' R s' [])
    \<and> (\<exists>s' m'. s8_trimRight m s c = Some (s', m') \<and> str_is m' R s' [])"
proof -
  let ?v = "x # replicate n c"
  obtain s1 m1 a where d: "s8_detach m s = Some (s1, m1)" "str_is m1 R s1 ?v" "same_data m R m1"
    "mString s1 = Some a" "a \<notin># R"
    using detachE[OF s] by metis
  have "find (\<lambda>i. ?v ! i \<noteq> c) [0..<length ?v] = Some 0"
    unfolding find_upt using x by simp
  moreover have "find (\<lambda>i. ?v ! i \<noteq> c) (rev [1..<length ?v]) = None"
    by (auto simp: find_None_iff nth_Cons')
  ultimately have f: "s8_findNotChar m1 s1 c = Some (0, - 1)"
    by (simp only: findNotChar_ok[OF d(2)] option.case) simp
  have len: "s8_length m1 s1 = Some (Suc n)" using length_ok[OF d(2)] by simp
  obtain w m2 m3 where m: "s8_read m1 s1 0 0 = Some w" "s8_write m1 s1 0 w = Some m2"
    "s8_write m2 s1 0 [0] = Some m3" "str_is m3 R s1 (take 0 (drop 0 ?v))"
    using move_cut[OF d(2,4,5), of 0 0] by auto
  obtain m4 where m4: "s8_write m1 s1 0 [0] = Some m4" "str_is m4 R s1 (take 0 ?v)"
    using write_cut[OF d(2,4,5), of 0] by auto
  have "s8_trim m s c = Some (s1, m3)"
    using d(1) f len m(1-3) by (simp add: s8_trim_def Let_def)
  moreover have "s8_trimRight m s c = Some (s1, m4)"
    using d(1) f len m4(1) by (simp add: s8_trimRight_def)
  ultimately show ?thesis using m(4) m4(2) by auto
qed

theorem trim_loses_single_witness:
  "\<exists>s m s' m'. s8_new_cstr mem0 [97, 0] = Some (s, m) \<and> s8_trim m s 32 = Some (s', m') \<and> str_is m' {#0#} s' []"
proof -
  obtain s m where s: "s8_new_cstr mem0 [97, 0] = Some (s, m)" "str_is m {#0#} s (cstr [97, 0])"
    using new_cstr_ok[OF pool0, of "[97, 0]"] by (auto simp: cstr_def s8_maxsize_def)
  have "str_is m {#0#} s (97 # replicate 0 32)" using s(2) by (simp add: cstr_def)
  then show ?thesis using trim_loses_single[of m "{#0#}" s 97 0 32] s(1) by auto
qed

text \<open>A write through a block that others may share.\<close>

lemma write_shared:
  assumes "refs_ok m Q" "a \<in># Q" "i + length bs \<le> length (data_at m a)"
  shows "\<exists>m'. sb_write m a i bs = Some m' \<and> refs_ok m' Q
    \<and> data_at m' a = take i (data_at m a) @ bs @ drop (i + length bs) (data_at m a)
    \<and> (\<forall>x. x \<noteq> a \<longrightarrow> data_at m' x = data_at m x)"
proof -
  obtain b where b: "m_bufs m a = Some b" "sb_refs b = int (count Q a)" "data_at m a = sb_data b"
    using assms(1,2) by (rule refs_ok_obtain)
  let ?m = "sb_put m a (b\<lparr>sb_data := take i (sb_data b) @ bs @ drop (i + length bs) (sb_data b)\<rparr>)"
  have "sb_write m a i bs = Some ?m"
    using assms(3) b by (simp add: sb_write_def pokes_eq)
  moreover have "refs_ok ?m Q"
    using refs_okE[OF assms(1)] refs_ok_live[OF assms(1)] b(1)
    by (intro refs_okI) (auto simp: sb_put_def split: if_splits)
  ultimately show ?thesis using b(3) by (auto simp: data_at_put)
qed

lemma c_toupper_0: "c_toupper x = 0 \<longleftrightarrow> x = 0"
proof (cases "97 \<le> x \<and> x \<le> 122")
  case True
  then have "x \<noteq> 32" by auto
  then have "x - 32 \<noteq> 0" by simp
  then show ?thesis using True by (auto simp: c_toupper_def)
next
  case False
  then show ?thesis by (auto simp: c_toupper_def)
qed

text \<open>Changing case does not detach: when two objects share a block, \<^verbatim>\<open>toUpper\<close> on one changes the
  characters of the other (an object that holds the same block, here the same pointer, under the other
  references).\<close>

theorem toUpper_changes_copies:
  assumes s: "str_is m (add_mset a R) s v" and a: "mString s = Some a"
  shows "\<exists>m'. s8_toUpper m s = Some m' \<and> str_is m' (add_mset a R) s (map c_toupper v)
    \<and> a \<in># add_mset a R \<and> cstr (data_at m a) = v \<and> cstr (data_at m' a) = map c_toupper v"
proof (cases "v = []")
  case True
  then show ?thesis
    using s data_facts[OF s a] length_ok[OF s]
    by (simp add: s8_toUpper_def s8_toUpper_range_def s8_map_range_def)
next
  case False
  note f = data_facts[OF s a]
  obtain r where r: "data_at m a = v @ 0 # r" using cstr_split[OF f(1)] f(2) by auto
  have a0: "a \<noteq> 0"
  proof
    assume "a = 0"
    then have "cstr [0] = v" using f(2) str_is_0[OF s] by simp
    then show False using False by (simp add: cstr_def)
  qed
  have "0 + length (map c_toupper v) \<le> length (data_at m a)" by (simp add: r)
  then obtain m' where m': "sb_write m a 0 (map c_toupper v) = Some m'" "refs_ok m' (add_mset a (add_mset a R))"
    "data_at m' a = take 0 (data_at m a) @ map c_toupper v @ drop (0 + length (map c_toupper v)) (data_at m a)"
    "\<forall>x. x \<noteq> a \<longrightarrow> data_at m' x = data_at m x"
    using write_shared[OF f(5), of a 0 "map c_toupper v"] by auto
  have d: "data_at m' a = map c_toupper v @ 0 # r" using m'(3) by (simp add: r)
  have z: "0 \<notin> set (map c_toupper v)" using f(7) c_toupper_0 by (metis (no_types, lifting) in_set_conv_nth length_map nth_map)
  have c: "cstr (data_at m' a) = map c_toupper v" unfolding d by (rule cstr_append_zero[OF z])
  have cap: "mCapacity s = length v + length r" using f(4) r by simp
  have "(v @ 0 # r) ! (length v + length r) = 0" using f(6) unfolding r cap .
  then have "(0 # r) ! length r = 0" by (simp only: nth_append_length_plus)
  then have "(map c_toupper v @ 0 # r) ! (length (map c_toupper v) + length r) = 0"
    by (simp only: nth_append_length_plus)
  then have "str_is m' (add_mset a R) s (map c_toupper v)"
    using m'(2,4) a a0 str_is_0[OF s] c d cap
    by (intro str_isI[of s a]) simp_all
  moreover have "s8_toUpper m s = Some m'"
    using False length_ok[OF s] read_value[OF s, of 0 "length v"] m'(1) a
    by (simp add: s8_toUpper_def s8_toUpper_range_def s8_map_range_def s8_write_def)
  ultimately show ?thesis using c f(2) by simp
qed

theorem toUpper_changes_copies_witness:
  "\<exists>m1 m2. s8_new_copy mem1 str1 = Some (str1, m1) \<and> s8_toUpper m1 str1 = Some m2
    \<and> cstr (data_at m2 1) = [32, 65, 66, 32]"
proof -
  have p: "mString str1 = Some 1" by (simp add: str1_def)
  obtain m1 where "s8_new_copy mem1 str1 = Some (str1, m1)" "str_is m1 (add_mset 1 {#0#}) str1 [32, 97, 98, 32]"
    using new_copy_ok[OF str1_is p] by blast
  then show ?thesis
    using toUpper_changes_copies[OF _ p] by (fastforce simp: c_toupper_def)
qed

text \<open>The operations as rewrite rules on the explicit memory of the next two examples.\<close>

lemma replicate_12: "replicate 12 x = [x, x, x, x, x, x, x, x, x, x, x, x]"
  by (simp add: numeral_eq_Suc)

lemmas evaluate = replicate_12 poke_def s8_new_cstr_def c_strlen_def cstr_def allocFromUTF8_def s8_maxsize_def
  sb_alloc_def sb_write_def pokes_eq s8_or_empty_def sb_put_def mem0_def Let_def s8_trim_def s8_detach_def
  sb_onlyOwner_def s8_findNotChar_def s8_length_def s8_bytes_def s8_read_def s8_write_def sb_read_def
  s8_toStdString_def s8_append_cstr_def s8_append_def s8_setTo_def s8_clear_def s8_new_copy_def
  s8_assign_cstr_def s8_setTo_cstr_def sb_acquire_def s8_release_def sb_release_def s8_new_chars_def

text \<open>After a trim the trimmed characters stay behind the terminator, and the next assignment to
  the emptied string does not end its text: a string of three spaces, trimmed, with "x" appended, reads
  "x" followed by two spaces.\<close>

theorem append_after_trim:
  "do { (s, m) \<leftarrow> s8_new_cstr mem0 [32, 32, 32, 0];
        (s, m) \<leftarrow> s8_trim m s 32;
        v1 \<leftarrow> s8_toStdString m s;
        (_, s, m) \<leftarrow> s8_append_cstr m s [120, 0];
        v2 \<leftarrow> s8_toStdString m s;
        Some (v1, v2) } = Some ([], [120, 32, 32])"
  by (simp add: evaluate)

text \<open>Assigning characters to an object that shares its block swaps the block and keeps the old
  capacity, so a later append writes past the end of the new, smaller block: of twelve characters
  copied, overwritten with one, then appended to, the last call leaves the block.\<close>

theorem append_after_shared_assign:
  "do { (s, m) \<leftarrow> s8_new_cstr mem0 (replicate 12 97 @ [0]);
        (t, m) \<leftarrow> s8_new_copy m s;
        (s, m) \<leftarrow> s8_assign_cstr m s [98, 0];
        Some (mCapacity s, s8_toStdString m s, s8_append_cstr m s [99, 99, 0] = None) }
    = Some (12, Some [98], True)"
  by (simp add: evaluate)

end
