(* ===== verification/Base64_Laws.thy ===== *)
theory Base64_Laws
  imports Base64
begin

text \<open>
  The encoder against RFC 4648, which sees three bytes as one number of 24 bits and four sextets;
  what the decoding tables say of each character; the round trip over groups; and which texts the
  decoder refuses.
\<close>

section \<open>RFC 4648\<close>

definition rfc4648_alphabet :: "byte list" where
  "rfc4648_alphabet =
     map of_char ''ABCDEFGHIJKLMNOPQRSTUVWXYZabcdefghijklmnopqrstuvwxyz0123456789+/''"

text \<open>A group of 24 bits as four characters.\<close>

definition quad :: "nat \<Rightarrow> byte list" where
  "quad n = map (\<lambda>k. rfc4648_alphabet ! (n div 64 ^ k mod 64)) [3, 2, 1, 0]"

definition group24 :: "byte \<Rightarrow> byte \<Rightarrow> byte \<Rightarrow> nat" where
  "group24 a b c = unat a * 2 ^ 16 + unat b * 2 ^ 8 + unat c"

fun rfc4648 :: "byte list \<Rightarrow> byte list" where
  "rfc4648 [] = []"
| "rfc4648 [a] = take 2 (quad (group24 a 0 0)) @ [CHARPAD, CHARPAD]"
| "rfc4648 [a, b] = take 3 (quad (group24 a b 0)) @ [CHARPAD]"
| "rfc4648 (a # b # c # r) = quad (group24 a b c) @ rfc4648 r"

section \<open>The encoder is RFC 4648\<close>

lemma e0_table: "e0 = map (\<lambda>i. rfc4648_alphabet ! (i div 4)) [0..<256]"
  by code_simp

lemma e1_table: "e1 = map (\<lambda>i. rfc4648_alphabet ! (i mod 64)) [0..<256]" "e2 = e1"
  by code_simp+

lemma unat_byte: "unat (t :: byte) < 256"
  using unsigned_less[of t] by simp

lemma e_nth: "e0 ! unat (t :: byte) = rfc4648_alphabet ! (unat t div 4)"
  "e1 ! unat t = rfc4648_alphabet ! (unat t mod 64)" "e2 ! unat t = rfc4648_alphabet ! (unat t mod 64)"
  using unat_byte[of t] by (simp_all add: e0_table e1_table)

lemma nat_and_mask: "n AND 3 = n mod (4 :: nat)" "n AND 15 = n mod (16 :: nat)"
  "n AND 63 = n mod (64 :: nat)"
  using take_bit_eq_mask[of 2 n] take_bit_eq_mask[of 4 n] take_bit_eq_mask[of 6 n]
  by (simp_all add: take_bit_eq_mod mask_eq_exp_minus_1)

lemma nat_or_add: "b < 2 ^ k \<Longrightarrow> (a * 2 ^ k OR b) = a * 2 ^ k + (b :: nat)"
proof -
  assume b: "b < 2 ^ k"
  have "push_bit k a AND take_bit k b = 0"
    by (rule bit_eqI) (auto simp: bit_simps)
  then show ?thesis
    using b by (simp add: disjunctive_add_eq_or[symmetric] push_bit_eq_mult take_bit_nat_eq_self)
qed

lemma unat_push_and:
  "unat (push_bit 4 (t1 AND 3) :: byte) = unat t1 mod 4 * 16"
  "unat (push_bit 2 (t2 AND 15) :: byte) = unat t2 mod 16 * 4"
  by (simp_all only: unsigned_push_bit_eq unsigned_and_eq unsigned_numeral len_num0 len_bit0 len_num1)
    (simp_all add: nat_and_mask push_bit_eq_mult take_bit_eq_mod)

lemma unat_drop_and:
  "unat (drop_bit 4 t AND 15 :: byte) = unat t div 16" "unat (drop_bit 6 t AND 3 :: byte) = unat t div 64"
  using unat_byte[of t]
  by (simp_all only: unsigned_and_eq unsigned_drop_bit_eq unsigned_numeral len_num0 len_bit0 len_num1)
    (auto simp: nat_and_mask drop_bit_eq_div take_bit_eq_mod div_less_iff_less_mult)

lemma unat_high2: "unat (push_bit 4 (t1 AND 3) OR (drop_bit 4 t2 AND 15) :: byte) = unat t1 mod 4 * 16 + unat t2 div 16"
  using unat_byte[of t2] nat_or_add[of "unat t2 div 16" 4 "unat t1 mod 4"]
  unfolding unsigned_or_eq unat_push_and unat_drop_and by simp

lemma unat_high4: "unat (push_bit 2 (t2 AND 15) OR (drop_bit 6 t3 AND 3) :: byte) = unat t2 mod 16 * 4 + unat t3 div 64"
  using unat_byte[of t3] nat_or_add[of "unat t3 div 64" 2 "unat t2 mod 16"]
  unfolding unsigned_or_eq unat_push_and unat_drop_and by simp

lemma last_digit: "\<lbrakk>z < 64; n = k * 64 + z\<rbrakk> \<Longrightarrow> n div 64 = k \<and> n mod 64 = (z :: nat)"
  by simp

lemma digits64:
  assumes "w < 64" "x < 64" "y < 64" "z < (64 :: nat)" "n = ((w * 64 + x) * 64 + y) * 64 + z"
  shows "n div 64 ^ 3 mod 64 = w" "n div 64 ^ 2 mod 64 = x" "n div 64 mod 64 = y" "n mod 64 = z"
proof -
  have 1: "n div 64 = (w * 64 + x) * 64 + y" "n mod 64 = z" using last_digit[OF assms(4,5)] by blast+
  have 2: "n div 64 div 64 = w * 64 + x" "n div 64 mod 64 = y" unfolding 1 using last_digit[OF assms(3) refl] by blast+
  have 3: "n div 64 div 64 div 64 = w" "n div 64 div 64 mod 64 = x" unfolding 2 using last_digit[OF assms(2) refl] by blast+
  have "n div 64 ^ 3 = n div 64 div 64 div 64" "n div 64 ^ 2 = n div 64 div 64"
    by (simp_all add: div_mult2_eq[symmetric])
  then show "n div 64 ^ 3 mod 64 = w" "n div 64 ^ 2 mod 64 = x" "n div 64 mod 64 = y" "n mod 64 = z"
    using 1(2) 2(2) 3 assms(1) by simp_all
qed

lemma regroup24:
  "\<lbrakk>a = qa * 4 + ra; b = qb * 16 + rb; c = qc * 64 + (rc :: nat)\<rbrakk> \<Longrightarrow> a * 2 ^ 16 + b * 2 ^ 8 + c =
    ((qa * 64 + (ra * 16 + qb)) * 64 + (rb * 4 + qc)) * 64 + rc"
  by simp

lemma group24_digits:
  "group24 a b c = ((unat a div 4 * 64 + (unat a mod 4 * 16 + unat b div 16)) * 64
     + (unat b mod 16 * 4 + unat c div 64)) * 64 + unat c mod 64"
proof -
  have "unat a = unat a div 4 * 4 + unat a mod 4" "unat b = unat b div 16 * 16 + unat b mod 16"
    "unat c = unat c div 64 * 64 + unat c mod 64" by simp_all
  then show ?thesis unfolding group24_def by (rule regroup24)
qed

lemma group24_parts:
  defines "n a b c \<equiv> group24 a b c"
  shows "n a b c div 64 ^ 3 mod 64 = unat a div 4"
    "n a b c div 64 ^ 2 mod 64 = unat a mod 4 * 16 + unat b div 16"
    "n a b c div 64 mod 64 = unat b mod 16 * 4 + unat c div 64" "n a b c mod 64 = unat c mod 64"
proof -
  have "unat a div 4 < 64" "unat a mod 4 * 16 + unat b div 16 < 64" "unat b mod 16 * 4 + unat c div 64 < 64"
    "unat c mod 64 < 64"
    using unat_byte[of a] unat_byte[of b] unat_byte[of c] by (auto simp: div_less_iff_less_mult)
  then show "n a b c div 64 ^ 3 mod 64 = unat a div 4"
    "n a b c div 64 ^ 2 mod 64 = unat a mod 4 * 16 + unat b div 16"
    "n a b c div 64 mod 64 = unat b mod 16 * 4 + unat c div 64" "n a b c mod 64 = unat c mod 64"
    unfolding n_def using digits64[OF _ _ _ _ group24_digits[of a b c]] by blast+
qed

lemma e1_small: "n < 64 \<Longrightarrow> e1 ! n = rfc4648_alphabet ! n"
  by (simp add: e1_table)

lemma sextet_less: "unat (a :: byte) mod 4 * 16 + unat (b :: byte) div 16 < 64"
  "unat a mod 16 * 4 + unat b div 64 < 64"
  using unat_byte[of b] by (auto simp: div_less_iff_less_mult)

lemma quad_sextets:
  "quad (group24 a b c) = [rfc4648_alphabet ! (unat a div 4), rfc4648_alphabet ! (unat a mod 4 * 16 + unat b div 16),
     rfc4648_alphabet ! (unat b mod 16 * 4 + unat c div 64), rfc4648_alphabet ! (unat c mod 64)]"
  unfolding quad_def list.map power_0 power_one_right div_by_1 group24_parts ..

lemma quad_code:
  "quad (group24 t1 t2 t3) =
    [e0 ! unat t1, e1 ! unat (push_bit 4 (t1 AND 3) OR (drop_bit 4 t2 AND 15)),
     e1 ! unat (push_bit 2 (t2 AND 15) OR (drop_bit 6 t3 AND 3)), e2 ! unat t3]"
  unfolding quad_sextets unat_high2 unat_high4 e1_small[OF sextet_less(1)] e1_small[OF sextet_less(2)]
    e_nth(1,3) ..

lemma quad_code_last:
  "take 2 (quad (group24 t1 0 0)) = [e0 ! unat t1, e1 ! unat (push_bit 4 (t1 AND 3))]"
  "take 3 (quad (group24 t1 t2 0)) =
    [e0 ! unat t1, e1 ! unat (push_bit 4 (t1 AND 3) OR (drop_bit 4 t2 AND 15)), e2 ! unat (push_bit 2 (t2 AND 15))]"
proof -
  have "unat t1 mod 4 * 16 < 64" "unat t2 mod 16 * 4 < 64" by auto
  then show "take 2 (quad (group24 t1 0 0)) = [e0 ! unat t1, e1 ! unat (push_bit 4 (t1 AND 3))]"
    "take 3 (quad (group24 t1 t2 0)) =
      [e0 ! unat t1, e1 ! unat (push_bit 4 (t1 AND 3) OR (drop_bit 4 t2 AND 15)), e2 ! unat (push_bit 2 (t2 AND 15))]"
    unfolding quad_sextets unat_high2 unat_push_and e1_small[OF sextet_less(1)] e_nth(1) e1_table(2)
    by (simp_all add: e1_small)
qed

lemma encode_loop_rfc4648:
  "encode_loop s = (p, rest) \<Longrightarrow> rfc4648 s = p @ rfc4648 rest \<and> length rest < 3"
proof (induction s arbitrary: p rest rule: encode_loop.induct)
  case (1 t1 t2 t3 str)
  then show ?case
    by (auto simp: quad_code split: prod.splits)
qed auto

lemma encode_rfc4648:
  "chromium_base64_encode True (Some s) = (rfc4648 s @ [0], length (rfc4648 s))"
proof -
  obtain p rest where l: "encode_loop s = (p, rest)" by fastforce
  note r = encode_loop_rfc4648[OF l]
  then consider "rest = []" | t where "rest = [t]" | t u where "rest = [t, u]"
    by (cases rest; cases "tl rest"; cases "tl (tl rest)") auto
  then show ?thesis
    using r l by cases (simp_all add: chromium_base64_encode_def quad_code_last)
qed

lemma length_rfc4648: "length (rfc4648 s) = (length s + 2) div 3 * 4"
proof (induction s rule: rfc4648.induct)
  case (4 a b c r)
  have "(length r + 2 + 3) div 3 = Suc ((length r + 2) div 3)" by simp
  then show ?case using 4 by (simp add: quad_def add.commute)
qed (simp_all add: quad_def)

section \<open>What the decoder's tables say\<close>

text \<open>The part of \<^verbatim>\<open>x\<close> that a character with value \<^verbatim>\<open>v\<close> gives in each of the four positions.\<close>

definition part0 :: "word32 \<Rightarrow> word32" where "part0 v = push_bit 2 v"

definition part1 :: "word32 \<Rightarrow> word32" where "part1 v = drop_bit 4 v OR push_bit 12 (v AND 15)"

definition part2 :: "word32 \<Rightarrow> word32" where "part2 v = push_bit 8 (drop_bit 2 v) OR push_bit 22 (v AND 3)"

definition part3 :: "word32 \<Rightarrow> word32" where "part3 v = push_bit 16 v"

definition decode_table :: "(word32 \<Rightarrow> word32) \<Rightarrow> word32 list" where
  "decode_table f = replicate 43 BADCHAR @ [f 62] @ replicate 3 BADCHAR @ [f 63] @ map (\<lambda>i. f (of_nat i)) [52..<62]
    @ replicate 7 BADCHAR @ map (\<lambda>i. f (of_nat i)) [0..<26] @ replicate 6 BADCHAR
    @ map (\<lambda>i. f (of_nat i)) [26..<52] @ replicate 133 BADCHAR"

lemma decode_tables: "d0 = decode_table part0" "d1 = decode_table part1" "d2 = decode_table part2" "d3 = decode_table part3"
  by code_simp+

text \<open>The value of a character, by its code.\<close>

definition value_at :: "nat \<Rightarrow> nat option" where
  "value_at i = (if i = 43 then Some 62 else if i = 47 then Some 63 else if 48 \<le> i \<and> i < 58 then Some (i + 4)
     else if 65 \<le> i \<and> i < 91 then Some (i - 65) else if 97 \<le> i \<and> i < 123 then Some (i - 71) else None)"

lemma upt_parts:
  "[0..<256] = [0..<43] @ [43] @ [44..<47] @ [47] @ [48..<58] @ [58..<65] @ [65..<91] @ [91..<97] @ [97..<123]
     @ [123..<(256 :: nat)]"
proof -
  have step: "a \<le> b \<Longrightarrow> b \<le> c \<Longrightarrow> [a..<c] = [a..<b] @ [b..<c]" for a b c :: nat
    by (metis le_add_diff_inverse upt_add_eq_append)
  show ?thesis
    using step[of 0 43 256] step[of 43 44 256] step[of 44 47 256] step[of 47 48 256] step[of 48 58 256]
      step[of 58 65 256] step[of 65 91 256] step[of 91 97 256] step[of 97 123 256]
    by (simp del: upt_rec_numeral) (simp add: upt_rec[of 43 44] upt_rec[of 47 48])
qed

lemma map_const_upt: "\<forall>i. a \<le> i \<and> i < b \<longrightarrow> g i = x \<Longrightarrow> map g [a..<b] = replicate (b - a) x"
  by (rule nth_equalityI) auto

lemma map_shift_upt:
  "\<forall>i < n. g (a + i) = h (b + i) \<Longrightarrow> map g [a..<a + n] = map h [b..<b + n]"
  by (rule nth_equalityI) auto

lemma decode_table_map:
  "decode_table f = map (\<lambda>i. case value_at i of None \<Rightarrow> BADCHAR | Some v \<Rightarrow> f (of_nat v)) [0..<256]"
    (is "_ = map ?g _")
proof -
  have "map ?g [0..<43] = replicate 43 BADCHAR" "map ?g [44..<47] = replicate 3 BADCHAR"
    "map ?g [58..<65] = replicate 7 BADCHAR" "map ?g [91..<97] = replicate 6 BADCHAR"
    "map ?g [123..<256] = replicate 133 BADCHAR"
    using map_const_upt[of 0 43 ?g BADCHAR] map_const_upt[of 44 47 ?g BADCHAR] map_const_upt[of 58 65 ?g BADCHAR]
      map_const_upt[of 91 97 ?g BADCHAR] map_const_upt[of 123 256 ?g BADCHAR]
    by (simp_all add: value_at_def del: upt_rec_numeral)
  moreover have "map ?g [48..<58] = map (\<lambda>i. f (of_nat i)) [52..<62]"
    "map ?g [65..<91] = map (\<lambda>i. f (of_nat i)) [0..<26]"
    "map ?g [97..<123] = map (\<lambda>i. f (of_nat i)) [26..<52]"
    using map_shift_upt[of 10 ?g 48 "\<lambda>i. f (of_nat i)" 52] map_shift_upt[of 26 ?g 65 "\<lambda>i. f (of_nat i)" 0]
      map_shift_upt[of 26 ?g 97 "\<lambda>i. f (of_nat i)" 26]
    by (simp_all add: value_at_def add.commute del: upt_rec_numeral of_nat_add)
  ultimately show ?thesis
    unfolding upt_parts map_append decode_table_def by (simp add: value_at_def)
qed

definition b64_value :: "byte \<Rightarrow> nat option" where
  "b64_value c = value_at (unat c)"

lemma decode_table_value:
  "decode_table f ! unat c = (case b64_value c of None \<Rightarrow> BADCHAR | Some v \<Rightarrow> f (of_nat v))"
  using unat_byte[of c] unfolding decode_table_map b64_value_def by simp

lemma length_alphabet: "length rfc4648_alphabet = 64"
  by (simp add: rfc4648_alphabet_def)

lemma alphabet_values: "map b64_value rfc4648_alphabet = map Some [0..<64]"
  by code_simp

lemma value_alphabet: "n < 64 \<Longrightarrow> b64_value (rfc4648_alphabet ! n) = Some n"
  using arg_cong[OF alphabet_values, of "\<lambda>xs. xs ! n"] length_alphabet by simp

lemma value_pad: "b64_value CHARPAD = None"
  by code_simp

lemma value_less: "b64_value c = Some v \<Longrightarrow> v < 64"
  by (auto simp: b64_value_def value_at_def split: if_splits)

section \<open>Decoding a group\<close>

definition group_word :: "nat list \<Rightarrow> word32" where
  "group_word vs = part0 (of_nat (vs ! 0)) OR part1 (of_nat (vs ! 1)) OR part2 (of_nat (vs ! 2)) OR part3 (of_nat (vs ! 3))"

lemma bit_sextet: "\<lbrakk>v < 64; bit (of_nat v :: word32) n\<rbrakk> \<Longrightarrow> n < 6"
proof (rule ccontr)
  assume v: "v < 64" "bit (of_nat v :: word32) n" "\<not> n < 6"
  have "(2 :: nat) ^ 6 \<le> 2 ^ n" using v(3) by (intro power_increasing) auto
  then have "v div 2 ^ n = 0" using v(1) by simp
  then show False using v(2) bit_of_nat_iff[of v n, where ?'a = "32 word"] by (simp add: bit_iff_odd[of v])
qed

lemma masks32: "(15 :: word32) = mask 4" "(3 :: word32) = mask 2" "(15 :: byte) = mask 4" "(3 :: byte) = mask 2"
  "(63 :: byte) = mask 6"
  by (simp_all add: mask_eq_exp_minus_1)

definition low24 :: "word32 \<Rightarrow> bool" where
  "low24 x \<longleftrightarrow> (\<forall>n. bit x n \<longrightarrow> n < 24)"

lemma low24_or: "low24 (x OR y) \<longleftrightarrow> low24 x \<and> low24 y"
  by (auto simp: low24_def bit_or_iff)

lemma low24_good: "low24 x \<Longrightarrow> \<not> BADCHAR \<le> x"
proof -
  assume "low24 x"
  then have "x = take_bit 24 x" by (intro bit_eqI) (auto simp: bit_take_bit_iff low24_def)
  then have "unat x = take_bit 24 (unat x)" by (metis unsigned_take_bit_eq)
  then have "unat x < 2 ^ 24" using take_bit_nat_less_exp[of 24 "unat x"] by simp
  then show ?thesis by (simp add: BADCHAR_def word_le_nat_alt)
qed

lemma low24_parts:
  "v < 64 \<Longrightarrow> low24 (part0 (of_nat v))" "v < 64 \<Longrightarrow> low24 (part1 (of_nat v))"
  "v < 64 \<Longrightarrow> low24 (part2 (of_nat v))" "v < 64 \<Longrightarrow> low24 (part3 (of_nat v))"
  unfolding low24_def part0_def part1_def part2_def part3_def masks32 bit_or_iff bit_and_iff bit_push_bit_iff
    bit_drop_bit_eq bit_mask_iff o_def
  by (fastforce dest: bit_sextet)+

lemma or_ge: "a \<le> a OR b" "b \<le> a OR (b :: word32)"
proof -
  have *: "uint x \<le> uint (x OR y)" for x y :: word32
    using or_greater_eq[of "uint y" "uint x"] by (simp add: unsigned_or_eq)
  show "a \<le> a OR b" by (simp add: word_le_def *)
  show "b \<le> a OR b" using *[of b a] by (simp add: word_le_def or.commute)
qed

lemma bad_or: "BADCHAR \<le> x \<Longrightarrow> BADCHAR \<le> x OR y" "BADCHAR \<le> y \<Longrightarrow> BADCHAR \<le> x OR y"
  by (rule order_trans[OF _ or_ge(1)], assumption) (rule order_trans[OF _ or_ge(2)], assumption)

lemma table_cases:
  assumes "\<And>v. v < 64 \<Longrightarrow> low24 (f (of_nat v))"
  shows "b64_value c = None \<Longrightarrow> BADCHAR \<le> decode_table f ! unat c"
    "b64_value c \<noteq> None \<Longrightarrow> low24 (decode_table f ! unat c)"
  using assms value_less[of c] by (auto simp: decode_table_value)

lemma table_bad:
  "b64_value c = None \<Longrightarrow> BADCHAR \<le> d0 ! unat c" "b64_value c = None \<Longrightarrow> BADCHAR \<le> d1 ! unat c"
  "b64_value c = None \<Longrightarrow> BADCHAR \<le> d2 ! unat c" "b64_value c = None \<Longrightarrow> BADCHAR \<le> d3 ! unat c"
  unfolding decode_tables using low24_parts by (blast intro: table_cases)+

lemma table_good:
  "b64_value c \<noteq> None \<Longrightarrow> low24 (d0 ! unat c)" "b64_value c \<noteq> None \<Longrightarrow> low24 (d1 ! unat c)"
  "b64_value c \<noteq> None \<Longrightarrow> low24 (d2 ! unat c)" "b64_value c \<noteq> None \<Longrightarrow> low24 (d3 ! unat c)"
  unfolding decode_tables using low24_parts by (blast intro: table_cases)+

definition tests :: "bool \<Rightarrow> word32 \<Rightarrow> bool" where
  "tests p x \<longleftrightarrow> (if p then low24 x else BADCHAR \<le> x)"

lemma tests_or: "\<lbrakk>tests p x; tests q y\<rbrakk> \<Longrightarrow> tests (p \<and> q) (x OR y)"
  using bad_or(1)[of x y] bad_or(2)[of y x] low24_or by (auto simp: tests_def split: if_splits)

lemma tests_bad: "tests p x \<Longrightarrow> BADCHAR \<le> x \<longleftrightarrow> \<not> p"
  using low24_good by (auto simp: tests_def split: if_splits)

lemma tests_table:
  "tests (b64_value c \<noteq> None) (d0 ! unat c)" "tests (b64_value c \<noteq> None) (d1 ! unat c)"
  "tests (b64_value c \<noteq> None) (d2 ! unat c)" "tests (b64_value c \<noteq> None) (d3 ! unat c)"
  using table_bad table_good by (simp_all add: tests_def)

text \<open>A group, of two to four characters, is refused exactly when one of them is no base64 character.\<close>

lemma group_bad:
  "BADCHAR \<le> d0 ! unat c0 OR d1 ! unat c1 \<longleftrightarrow> b64_value c0 = None \<or> b64_value c1 = None"
  "BADCHAR \<le> d0 ! unat c0 OR d1 ! unat c1 OR d2 ! unat c2 \<longleftrightarrow>
     b64_value c0 = None \<or> b64_value c1 = None \<or> b64_value c2 = None"
  "BADCHAR \<le> d0 ! unat c0 OR d1 ! unat c1 OR d2 ! unat c2 OR d3 ! unat c3 \<longleftrightarrow>
     b64_value c0 = None \<or> b64_value c1 = None \<or> b64_value c2 = None \<or> b64_value c3 = None"
proof -
  note t2 = tests_or[OF tests_table(1)[of c0] tests_table(2)[of c1]]
  note t3 = tests_or[OF tests_table(1)[of c0] tests_or[OF tests_table(2)[of c1] tests_table(3)[of c2]]]
  note t4 = tests_or[OF tests_table(1)[of c0] tests_or[OF tests_table(2)[of c1]
      tests_or[OF tests_table(3)[of c2] tests_table(4)[of c3]]]]
  show "BADCHAR \<le> d0 ! unat c0 OR d1 ! unat c1 \<longleftrightarrow> b64_value c0 = None \<or> b64_value c1 = None"
    unfolding tests_bad[OF t2] by simp
  show "BADCHAR \<le> d0 ! unat c0 OR d1 ! unat c1 OR d2 ! unat c2 \<longleftrightarrow>
     b64_value c0 = None \<or> b64_value c1 = None \<or> b64_value c2 = None"
    unfolding tests_bad[OF t3] by simp
  show "BADCHAR \<le> d0 ! unat c0 OR d1 ! unat c1 OR d2 ! unat c2 OR d3 ! unat c3 \<longleftrightarrow>
     b64_value c0 = None \<or> b64_value c1 = None \<or> b64_value c2 = None \<or> b64_value c3 = None"
    unfolding tests_bad[OF t4] by simp
qed

lemma table_value:
  assumes "b64_value c = Some v"
  shows "d0 ! unat c = part0 (of_nat v)" "d1 ! unat c = part1 (of_nat v)" "d2 ! unat c = part2 (of_nat v)"
    "d3 ! unat c = part3 (of_nat v)"
  by (simp_all add: decode_tables decode_table_value assms)

text \<open>The bytes of a group come back.\<close>

lemma byte_bit_cases: "(\<And>n. n \<in> {0, 1, 2, 3, 4, 5, 6, 7} \<Longrightarrow> bit x n = bit y n) \<Longrightarrow> x = (y :: byte)"
proof (rule bit_word_eqI)
  fix n assume *: "\<And>n. n \<in> {0, 1, 2, 3, 4, 5, 6, 7} \<Longrightarrow> bit x n = bit y n" "n < LENGTH(8)"
  have "n = 0 \<or> n = 1 \<or> n = 2 \<or> n = 3 \<or> n = 4 \<or> n = 5 \<or> n = 6 \<or> n = 7" using *(2) by (simp, linarith)
  then show "bit x n = bit y n" using *(1) by blast
qed

lemma byte_high: "8 \<le> n \<Longrightarrow> \<not> bit (a :: byte) n"
  using bit_imp_le_length[of a n] by auto

lemma bytes_back:
  fixes a b c :: byte
  defines "w \<equiv> part0 (ucast (drop_bit 2 a))"
    and "x \<equiv> part1 (ucast (push_bit 4 (a AND 3) OR (drop_bit 4 b AND 15)))"
    and "y \<equiv> part2 (ucast (push_bit 2 (b AND 15) OR (drop_bit 6 c AND 3)))" and "z \<equiv> part3 (ucast (c AND 63))"
  shows "byte_of (w OR x) 0 = a" "byte_of (w OR x OR y) 0 = a" "byte_of (w OR x OR y) 1 = b"
    "byte_of (w OR x OR y OR z) 0 = a" "byte_of (w OR x OR y OR z) 1 = b" "byte_of (w OR x OR y OR z) 2 = c"
  unfolding w_def x_def y_def z_def byte_of_def part0_def part1_def part2_def part3_def masks32
  by (rule byte_bit_cases, elim insertE emptyE; simp only: bit_ucast_iff bit_drop_bit_eq o_def bit_or_iff
      bit_and_iff bit_push_bit_iff bit_mask_iff; simp add: byte_high)+

text \<open>The values of the four characters of a group.\<close>

lemma sextet_words:
  fixes a b c :: byte
  shows
  "of_nat (unat a div 4) = (ucast (drop_bit 2 a) :: word32)"
  "of_nat (unat a mod 4 * 16 + unat b div 16) = (ucast (push_bit 4 (a AND 3) OR (drop_bit 4 b AND 15)) :: word32)"
  "of_nat (unat b mod 16 * 4 + unat c div 64) = (ucast (push_bit 2 (b AND 15) OR (drop_bit 6 c AND 3)) :: word32)"
  "of_nat (unat c mod 64) = (ucast (c AND 63) :: word32)"
proof -
  have "unat a div 4 = unat (drop_bit 2 a)" using unat_byte[of a]
    by (simp only: unsigned_drop_bit_eq) (simp add: drop_bit_eq_div take_bit_eq_mod)
  moreover have "unat c mod 64 = unat (c AND 63)"
    by (simp only: unsigned_and_eq unsigned_numeral len_num0 len_bit0 len_num1) (simp add: nat_and_mask)
  ultimately show "of_nat (unat a div 4) = (ucast (drop_bit 2 a) :: word32)"
    "of_nat (unat c mod 64) = (ucast (c AND 63) :: word32)" by (simp_all only: of_nat_unat)
  show "of_nat (unat a mod 4 * 16 + unat b div 16) = (ucast (push_bit 4 (a AND 3) OR (drop_bit 4 b AND 15)) :: word32)"
    "of_nat (unat b mod 16 * 4 + unat c div 64) = (ucast (push_bit 2 (b AND 15) OR (drop_bit 6 c AND 3)) :: word32)"
    unfolding unat_high2[symmetric] unat_high4[symmetric] of_nat_unat by (rule refl)+
qed

lemma quad_values:
  "map b64_value (quad (group24 a b c)) = [Some (unat a div 4), Some (unat a mod 4 * 16 + unat b div 16),
     Some (unat b mod 16 * 4 + unat c div 64), Some (unat c mod 64)]"
proof -
  have "unat a div 4 < 64" using unat_byte[of a] by simp
  then show ?thesis
    unfolding quad_sextets using sextet_less[of a b] sextet_less(2)[of b c] by (simp add: value_alphabet)
qed

lemma quad_chars:
  assumes "quad (group24 a b c) = [c0, c1, c2, c3]"
  shows "d0 ! unat c0 = part0 (ucast (drop_bit 2 a))"
    "d1 ! unat c1 = part1 (ucast (push_bit 4 (a AND 3) OR (drop_bit 4 b AND 15)))"
    "d2 ! unat c2 = part2 (ucast (push_bit 2 (b AND 15) OR (drop_bit 6 c AND 3)))"
    "d3 ! unat c3 = part3 (ucast (c AND 63))"
    "b64_value c0 \<noteq> None" "b64_value c1 \<noteq> None" "b64_value c2 \<noteq> None" "b64_value c3 \<noteq> None"
proof -
  have v: "b64_value c0 = Some (unat a div 4)" "b64_value c1 = Some (unat a mod 4 * 16 + unat b div 16)"
    "b64_value c2 = Some (unat b mod 16 * 4 + unat c div 64)" "b64_value c3 = Some (unat c mod 64)"
    using quad_values[of a b c] unfolding assms by simp_all
  show "d0 ! unat c0 = part0 (ucast (drop_bit 2 a))"
    "d1 ! unat c1 = part1 (ucast (push_bit 4 (a AND 3) OR (drop_bit 4 b AND 15)))"
    "d2 ! unat c2 = part2 (ucast (push_bit 2 (b AND 15) OR (drop_bit 6 c AND 3)))"
    "d3 ! unat c3 = part3 (ucast (c AND 63))"
    unfolding table_value(1)[OF v(1)] table_value(2)[OF v(2)] table_value(3)[OF v(3)] table_value(4)[OF v(4)]
      sextet_words by (rule refl)+
  show "b64_value c0 \<noteq> None" "b64_value c1 \<noteq> None" "b64_value c2 \<noteq> None" "b64_value c3 \<noteq> None"
    using v by simp_all
qed

lemma quad_list: "\<exists>c0 c1 c2 c3. quad n = [c0, c1, c2, c3]"
  by (simp add: quad_def)

section \<open>The round trip\<close>

lemma rfc4648_append: "length s mod 3 = 0 \<Longrightarrow> rfc4648 (s @ u) = rfc4648 s @ rfc4648 u"
  by (induction s rule: rfc4648.induct) auto

lemma decode_loop_quads: "length s = 3 * n \<Longrightarrow> decode_loop n (rfc4648 s @ y) = (s, Some y)"
proof (induction s arbitrary: n rule: rfc4648.induct)
  case (4 a b c r)
  then obtain k where k: "n = Suc k" "length r = 3 * k" by (cases n) auto
  obtain c0 c1 c2 c3 where q: "quad (group24 a b c) = [c0, c1, c2, c3]" using quad_list by blast
  note ch = quad_chars[OF q]
  have "\<not> BADCHAR \<le> d0 ! unat c0 OR d1 ! unat c1 OR d2 ! unat c2 OR d3 ! unat c3"
    using ch(5-8) unfolding group_bad by simp
  then show ?case
    using 4(1)[OF k(2)] bytes_back(4-6)[of a b c] unfolding k(1) rfc4648.simps q ch(1-4)[symmetric]
    by (simp add: Let_def)
next
  case (2 a)
  have "1 \<noteq> 3 * n" by presburger
  then show ?case using 2 by simp
next
  case (3 a b)
  have "2 \<noteq> 3 * n" by presburger
  then show ?case using 3 by simp
qed simp

lemma last_group:
  assumes "s \<noteq> []"
  obtains s1 s2 k where "s = s1 @ s2" "length s1 = 3 * k" "length s2 \<in> {1, 2, 3}"
proof
  let ?k = "(length s - 1) div 3"
  have "0 < length s" using assms by simp
  then have "length s - 3 * ?k \<in> {1, 2, 3}" "3 * ?k \<le> length s" by (auto, presburger+)
  then show "s = take (3 * ?k) s @ drop (3 * ?k) s" "length (take (3 * ?k) s) = 3 * ?k"
    "length (drop (3 * ?k) s) \<in> {1, 2, 3}" by simp_all
qed

lemma strip_pad_append:
  "strip_pad (x @ [a, b, c, d]) = length x + (if d = CHARPAD then if c = CHARPAD then 2 else 3 else 4)"
  by (simp add: strip_pad_def Let_def nth_append)

lemma by_four: "Suc (Suc (4 * k)) mod 4 = 2" "Suc (Suc (4 * k)) div 4 = k"
  "Suc (Suc (Suc (4 * k))) mod 4 = 3" "Suc (Suc (Suc (4 * k))) div 4 = k"
  "(4 * k + 2) mod 4 = 2" "(4 * k + 2) div 4 = k" "(4 * k + 3) mod 4 = 3" "(4 * k + 3) div 4 = k"
  by presburger+

lemma decode_rfc4648: "chromium_base64_decode (rfc4648 s) = (s, length s)"
proof (cases "s = []")
  case True
  then show ?thesis by (simp add: chromium_base64_decode_def)
next
  case False
  then obtain s1 s2 k where s: "s = s1 @ s2" "length s1 = 3 * k" "length s2 \<in> {1, 2, 3}" by (rule last_group)
  have r: "rfc4648 s = rfc4648 s1 @ rfc4648 s2" using s(1,2) by (simp add: rfc4648_append)
  have len: "length (rfc4648 s1) = 4 * k" using s(2) by (simp add: length_rfc4648)
  note loop = decode_loop_quads[OF s(2)]
  have pad: "c \<noteq> CHARPAD" if "b64_value c \<noteq> None" for c using that value_pad by auto
  consider a where "s2 = [a]" | a b where "s2 = [a, b]" | a b c where "s2 = [a, b, c]"
    using s(3) by (cases s2; cases "tl s2"; cases "tl (tl s2)") auto
  then show ?thesis
  proof cases
    case 1
    obtain c0 c1 c2 c3 where q: "quad (group24 a 0 0) = [c0, c1, c2, c3]" using quad_list by blast
    note ch = quad_chars[OF q]
    have s2: "rfc4648 s2 = [c0, c1, CHARPAD, CHARPAD]" and sl: "s = s1 @ [a]" by (simp_all add: 1 q s(1))
    have "\<not> BADCHAR \<le> d0 ! unat c0 OR d1 ! unat c1" using ch(5,6) unfolding group_bad by simp
    moreover have "byte_of (d0 ! unat c0 OR d1 ! unat c1) 0 = a" unfolding ch(1,2) by (rule bytes_back[of a 0])
    ultimately show ?thesis
      using loop strip_pad_append[of "rfc4648 s1"] len s(2)
      unfolding r s2 by (simp add: sl chromium_base64_decode_def Let_def by_four)
  next
    case 2
    obtain c0 c1 c2 c3 where q: "quad (group24 a b 0) = [c0, c1, c2, c3]" using quad_list by blast
    note ch = quad_chars[OF q]
    have s2: "rfc4648 s2 = [c0, c1, c2, CHARPAD]" and sl: "s = s1 @ [a, b]" by (simp_all add: 2 q s(1))
    have "\<not> BADCHAR \<le> d0 ! unat c0 OR d1 ! unat c1 OR d2 ! unat c2" using ch(5-7) unfolding group_bad by simp
    moreover have "byte_of (d0 ! unat c0 OR d1 ! unat c1 OR d2 ! unat c2) 0 = a"
      "byte_of (d0 ! unat c0 OR d1 ! unat c1 OR d2 ! unat c2) 1 = b" unfolding ch(1-3) by (rule bytes_back(2,3)[of a b 0])+
    ultimately show ?thesis
      using loop strip_pad_append[of "rfc4648 s1"] len s(2) pad[OF ch(7)]
      unfolding r s2 by (simp add: sl chromium_base64_decode_def Let_def by_four)
  next
    case 3
    obtain c0 c1 c2 c3 where q: "quad (group24 a b c) = [c0, c1, c2, c3]" using quad_list by blast
    note ch = quad_chars[OF q]
    have s2: "rfc4648 s2 = [c0, c1, c2, c3]" and sl: "s = s1 @ [a, b, c]" by (simp_all add: 3 q s(1))
    let ?x = "d0 ! unat c0 OR d1 ! unat c1 OR d2 ! unat c2 OR d3 ! unat c3"
    have "\<not> BADCHAR \<le> ?x" using ch(5-8) unfolding group_bad by simp
    moreover have "byte_of ?x 0 = a" "byte_of ?x 1 = b" "byte_of ?x 2 = c" unfolding ch(1-4) by (rule bytes_back(4-6)[of a b c])+
    ultimately show ?thesis
      using loop strip_pad_append[of "rfc4648 s1"] len s(2) pad[OF ch(8)]
      unfolding r s2 by (simp add: sl chromium_base64_decode_def Let_def by_four)
  qed
qed

section \<open>What the decoder refuses\<close>

lemma value_at_inj: "value_at i = Some v \<Longrightarrow> value_at j = Some v \<Longrightarrow> i = j"
  by (auto simp: value_at_def split: if_splits)

lemma value_inj: "b64_value c = Some v \<Longrightarrow> b64_value d = Some v \<Longrightarrow> c = d"
  using value_at_inj[of "unat c" v "unat d"] by (simp add: b64_value_def word_unat_eq_iff)

lemma value_some: "b64_value c \<noteq> None \<longleftrightarrow> c \<in> set rfc4648_alphabet"
proof
  assume "b64_value c \<noteq> None"
  then obtain v where v: "b64_value c = Some v" by blast
  have "v < 64" using v by (rule value_less)
  then have "c = rfc4648_alphabet ! v" using value_inj v value_alphabet by blast
  then show "c \<in> set rfc4648_alphabet" using \<open>v < 64\<close> length_alphabet by simp
next
  assume "c \<in> set rfc4648_alphabet"
  then show "b64_value c \<noteq> None" using value_alphabet length_alphabet by (auto simp: in_set_conv_nth)
qed

lemma decode_loop_result:
  "4 * n \<le> length y \<Longrightarrow> decode_loop n y = (p, r) \<Longrightarrow>
    (if \<forall>c \<in> set (take (4 * n) y). b64_value c \<noteq> None then r = Some (drop (4 * n) y) \<and> length p = 3 * n
     else r = None \<and> length p \<le> 3 * n)"
proof (induction n arbitrary: y p r)
  case (Suc n)
  have "Suc (Suc (Suc (Suc (4 * n)))) \<le> length y" using Suc.prems(1) by simp
  then obtain c0 c1 c2 c3 z where y: "y = c0 # c1 # c2 # c3 # z" and "4 * n \<le> length z"
    by (auto simp only: Suc_le_length_iff)
  obtain q s where l: "decode_loop n z = (q, s)" by fastforce
  note IH = Suc.IH[OF _ l]
  have cut: "take (4 * Suc n) y = c0 # c1 # c2 # c3 # take (4 * n) z" "drop (4 * Suc n) y = drop (4 * n) z"
    by (simp_all only: y mult_Suc_right numeral_eq_Suc pred_numeral_simps BitM.simps arith_simps add_Suc add_0 take_Suc_Cons drop_Suc_Cons)
  have "(p, r) = (if BADCHAR \<le> d0 ! unat c0 OR d1 ! unat c1 OR d2 ! unat c2 OR d3 ! unat c3 then ([], None)
      else (let x = d0 ! unat c0 OR d1 ! unat c1 OR d2 ! unat c2 OR d3 ! unat c3 in
        ([byte_of x 0, byte_of x 1, byte_of x 2] @ q, s)))"
    unfolding Suc.prems(2)[symmetric] y by (simp add: Let_def l)
  then show ?case
    unfolding cut group_bad using IH[OF \<open>4 * n \<le> length z\<close>] by (auto simp: Let_def split: if_splits)
qed simp

text \<open>All of a text is base64: full groups, of which the last may be padded.\<close>

definition base64_text :: "byte list \<Rightarrow> bool" where
  "base64_text src \<longleftrightarrow> length src mod 4 = 0 \<and> (\<forall>c \<in> set (take (strip_pad src) src). c \<in> set rfc4648_alphabet)"

definition decodes :: "byte list \<Rightarrow> byte list \<times> nat \<Rightarrow> bool" where
  "decodes src res \<longleftrightarrow> length (fst res) \<le> chromium_base64_decode_len (length src)
    \<and> (if base64_text src then snd res = length (fst res) else snd res = MODP_B64_ERROR)"

lemma decode_result:
  assumes "src \<noteq> []"
  shows "decodes src (chromium_base64_decode src)"
proof (cases "length src mod 4 = 0")
  case False
  then show ?thesis using assms by (simp add: chromium_base64_decode_def base64_text_def decodes_def)
next
  case True
  then obtain L where L: "length src = 4 * L" by (metis mod_0_imp_dvd dvdE)
  with assms obtain k where k: "L = Suc k" by (cases L) auto
  have "length (drop (4 * k) src) = Suc (Suc (Suc (Suc 0)))" using L k by simp
  then obtain c0 c1 c2 c3 where d: "drop (4 * k) src = [c0, c1, c2, c3]"
    by (auto simp only: length_Suc_conv length_0_conv)
  define x where "x = take (4 * k) src"
  have src: "src = x @ [c0, c1, c2, c3]" "length x = 4 * k"
    using append_take_drop_id[of "4 * k" src] L k d by (simp_all add: x_def)
  obtain p r where l: "decode_loop k (x @ [c0, c1, c2, c3]) = (p, r)" by fastforce
  have loop: "if \<forall>c \<in> set x. b64_value c \<noteq> None then r = Some [c0, c1, c2, c3] \<and> length p = 3 * k
      else r = None \<and> length p \<le> 3 * k"
    using decode_loop_result[OF _ l] src(2) by simp
  have len: "chromium_base64_decode_len (length src) = 3 * k + 5" using src by (simp add: chromium_base64_decode_len_def)
  have good: "base64_text src \<longleftrightarrow> (\<forall>c \<in> set x. b64_value c \<noteq> None) \<and>
      (\<forall>c \<in> set (if c3 = CHARPAD then if c2 = CHARPAD then [c0, c1] else [c0, c1, c2] else [c0, c1, c2, c3]).
         b64_value c \<noteq> None)"
    unfolding base64_text_def src(1) strip_pad_append value_some using src(2) by auto
  consider "c3 = CHARPAD" "c2 = CHARPAD" | "c3 = CHARPAD" "c2 \<noteq> CHARPAD" | "c3 \<noteq> CHARPAD" by blast
  note tails = this
  show ?thesis
  proof (cases "\<forall>c \<in> set x. b64_value c \<noteq> None")
    case False
    then have "\<not> base64_text src" unfolding good by blast
    moreover have "r = None" "length p \<le> 3 * k" using False loop by (simp_all split: if_splits)
    ultimately show ?thesis
      using l src(2) unfolding decodes_def len
      by (cases rule: tails) (simp_all add: src(1) chromium_base64_decode_def Let_def strip_pad_append by_four)
  next
    case True
    then have r: "r = Some [c0, c1, c2, c3]" "length p = 3 * k" using loop by auto
    have t: "base64_text src \<longleftrightarrow> (\<forall>c \<in> set (if c3 = CHARPAD then if c2 = CHARPAD then [c0, c1] else [c0, c1, c2]
        else [c0, c1, c2, c3]). b64_value c \<noteq> None)" using True unfolding good by blast
    show ?thesis
      using l r src(2) unfolding decodes_def len t
      by (cases rule: tails) (simp_all add: src(1) chromium_base64_decode_def Let_def strip_pad_append by_four group_bad)
  qed
qed

end
