(* ===== verification/Base64_Spec.thy ===== *)
theory Base64_Spec
  imports Base64_Laws
begin

text \<open>What the base64 routines guarantee.\<close>

text \<open>C25: Given two pointers that are not null, the encoder writes the RFC 4648 encoding of every input and a
  terminator, exactly as many bytes as \<^verbatim>\<open>chromium_base64_encode_len\<close> promises, and returns the length of the
  encoding without the terminator (its header says with it); decoding what it wrote, the terminator left out,
  gives the input back.\<close>

theorem base64_round_trip:
  "\<exists>t n. chromium_base64_encode True (Some s) = (t, n)
    \<and> t = rfc4648 s @ [0] \<and> n = length (rfc4648 s) \<and> length t = chromium_base64_encode_len (length s)
    \<and> chromium_base64_decode (take n t) = (s, length s)"
  by (simp add: encode_rfc4648 decode_rfc4648 length_rfc4648 chromium_base64_encode_len_def)

text \<open>C26: The decoder returns the error value exactly for the texts that are not base64 (a length that
  is not a multiple of four, or a character outside the alphabet before the padding); it never writes
  more than \<^verbatim>\<open>chromium_base64_decode_len\<close> bytes, refused or not, and for a base64 text it returns the
  number of bytes it wrote.\<close>

theorem base64_decode_errors:
  assumes "length src < 2 ^ 64"
  shows "(snd (chromium_base64_decode src) = MODP_B64_ERROR \<longleftrightarrow> \<not> base64_text src)
    \<and> length (fst (chromium_base64_decode src)) \<le> chromium_base64_decode_len (length src)
    \<and> (base64_text src \<longrightarrow> snd (chromium_base64_decode src) = length (fst (chromium_base64_decode src)))"
proof (cases "src = []")
  case True
  then show ?thesis
    by (simp add: chromium_base64_decode_def base64_text_def MODP_B64_ERROR_def)
next
  case False
  note r = decode_result[OF False, unfolded decodes_def]
  have "base64_text src \<Longrightarrow> 4 \<le> length src" using False by (simp add: base64_text_def mod_eq_0_iff_dvd dvd_imp_le)
  moreover have "chromium_base64_decode_len n < 2 ^ 64 - 1" if "4 \<le> n" "n < 2 ^ 64" for n
    using that by (simp add: chromium_base64_decode_len_def)
  ultimately show ?thesis using r assms by (fastforce simp: MODP_B64_ERROR_def split: if_splits)
qed

theorem base64_decode_errors_witness:
  "snd (chromium_base64_decode [89, 81, 61, 42]) = MODP_B64_ERROR \<and> snd (chromium_base64_decode [89, 81, 61, 61]) = 1"
proof -
  have "\<not> base64_text [89, 81, 61, 42]" "base64_text [89, 81, 61, 61]" by code_simp+
  moreover have "rfc4648 [97] = [89, 81, 61, 61]" by (simp add: quad_sextets rfc4648_alphabet_def CHARPAD_def)
  then have "length (fst (chromium_base64_decode [89, 81, 61, 61])) = 1" using decode_rfc4648[of "[97]"] by simp
  ultimately show ?thesis
    using base64_decode_errors[of "[89, 81, 61, 42]"] base64_decode_errors[of "[89, 81, 61, 61]"] by simp
qed

end
