(* ===== verification/Conv_Ops.thy ===== *)
theory Conv_Ops
  imports Prelude
begin

text \<open>
  Character sets: \<^verbatim>\<open>src/utils/src/convert.cpp\<close>. A string is a list of bytes; the pointer \<^verbatim>\<open>start\<close> of a loop is
  what is left of the list, so a byte can only be read when it is there. The conversion itself is
  \<^verbatim>\<open>iconv\<close>, a parameter: for the names of two character sets, whether there is a conversion, and the result of converting some
  bytes, if it succeeds.
\<close>

section \<open>Classes of bytes\<close>

definition IS_UTF8_ANSII :: "8 word \<Rightarrow> bool" where "IS_UTF8_ANSII code \<longleftrightarrow> 0x00 < code \<and> code < 0x80"
definition IS_UTF8_2BYTE :: "8 word \<Rightarrow> bool" where "IS_UTF8_2BYTE code \<longleftrightarrow> 0xc0 < code \<and> code < 0xe0"
definition IS_UTF8_3BYTE :: "8 word \<Rightarrow> bool" where "IS_UTF8_3BYTE code \<longleftrightarrow> 0xe0 < code \<and> code < 0xf0"
definition IS_UTF8_4BYTE :: "8 word \<Rightarrow> bool" where "IS_UTF8_4BYTE code \<longleftrightarrow> 0xf0 < code \<and> code < 0xf8"
definition IS_UTF8_EXTRA :: "8 word \<Rightarrow> bool" where "IS_UTF8_EXTRA code \<longleftrightarrow> 0x80 < code \<and> code < 0xc0"

section \<open>Recognition\<close>

fun utf8_loop :: "bool \<Rightarrow> 8 word list \<Rightarrow> bool" where
  "utf8_loop isUtf8 [] = isUtf8"
| "utf8_loop isUtf8 (c # cs) =
    (if IS_UTF8_ANSII c then utf8_loop isUtf8 cs
     else if IS_UTF8_2BYTE c then
       (case cs of
          c1 # cs \<Rightarrow> utf8_loop (if IS_UTF8_EXTRA c1 then True else isUtf8) cs
        | _ \<Rightarrow> False)
     else if IS_UTF8_3BYTE c then
       (case cs of
          c1 # c2 # cs \<Rightarrow> utf8_loop (if IS_UTF8_EXTRA c1 \<and> IS_UTF8_EXTRA c2 then True else isUtf8) cs
        | _ \<Rightarrow> False)
     else if IS_UTF8_4BYTE c then
       (case cs of
          c1 # c2 # c3 # cs \<Rightarrow>
            utf8_loop (if IS_UTF8_EXTRA c1 \<and> IS_UTF8_EXTRA c2 \<and> IS_UTF8_EXTRA c3 then True else isUtf8) cs
        | _ \<Rightarrow> False)
     else False)"

definition isUTF8Encode :: "8 word list \<Rightarrow> bool" where
  "isUTF8Encode str = (if length str = 0 then False else utf8_loop False str)"

text \<open>The length of the character at the start of a string: 0 for one byte, and below 0 for no character.\<close>

definition getChar :: "8 word list \<Rightarrow> int option" where
  "getChar str = (case str of
     [] \<Rightarrow> None
   | c # cs \<Rightarrow> Some (
       if IS_UTF8_ANSII c then 0
       else if IS_UTF8_2BYTE c then
         (case cs of c1 # _ \<Rightarrow> if IS_UTF8_EXTRA c1 then 2 else - 1 | _ \<Rightarrow> - 1)
       else if IS_UTF8_3BYTE c then
         (case cs of c1 # c2 # _ \<Rightarrow> if IS_UTF8_EXTRA c1 \<and> IS_UTF8_EXTRA c2 then 3 else - 1 | _ \<Rightarrow> - 1)
       else if IS_UTF8_4BYTE c then
         (case cs of c1 # c2 # c3 # _ \<Rightarrow> if IS_UTF8_EXTRA c1 \<and> IS_UTF8_EXTRA c2 \<and> IS_UTF8_EXTRA c3 then 4 else - 1 | _ \<Rightarrow> - 1)
       else - 1))"

section \<open>Conversion\<close>

text \<open>
  \<^verbatim>\<open>iconv_open\<close> takes the target first, and fails with \<^verbatim>\<open>(iconv_t)-1\<close>, which is not the null pointer;
  with that descriptor \<^verbatim>\<open>iconv\<close> fails.
\<close>

datatype iconv_t = Iconv_Null | Iconv_Invalid | Iconv_Open string string

record iconv =
  ic_has :: "string \<Rightarrow> string \<Rightarrow> bool"
  ic_run :: "string \<Rightarrow> string \<Rightarrow> 8 word list \<Rightarrow> 8 word list option"

definition CODE_TYPE_UTF8 :: string where "CODE_TYPE_UTF8 = ''utf-8''"
definition CODE_TYPE_GBK :: string where "CODE_TYPE_GBK = ''gbk''"

definition iconv_open :: "iconv \<Rightarrow> string \<Rightarrow> string \<Rightarrow> iconv_t" where
  "iconv_open I tocode fromcode = (if ic_has I tocode fromcode then Iconv_Open tocode fromcode else Iconv_Invalid)"

definition convert_open :: "iconv \<Rightarrow> string \<Rightarrow> string \<Rightarrow> iconv_t" where
  "convert_open I fromCode toCode = iconv_open I toCode fromCode"

text \<open>The buffer starts with null bytes, so what it holds ends with one unless the conversion fills it.\<close>

definition convert_code :: "iconv \<Rightarrow> iconv_t \<Rightarrow> 8 word list \<Rightarrow> nat \<Rightarrow> 8 word list option" where
  "convert_code I cd inbuf outlen = (case cd of
     Iconv_Open to from \<Rightarrow> do {
       bs \<leftarrow> ic_run I to from inbuf;
       if length bs \<le> outlen then Some (bs @ replicate (outlen - length bs) 0) else None }
   | _ \<Rightarrow> None)"

definition c_string :: "8 word list \<Rightarrow> 8 word list option" where
  "c_string buf = (if 0 \<in> set buf then Some (takeWhile (\<lambda>b. b \<noteq> 0) buf) else None)"

definition GBK2UTF8 :: "iconv \<Rightarrow> 8 word list \<Rightarrow> 8 word list \<Rightarrow> bool \<times> 8 word list" where
  "GBK2UTF8 I out input =
    (let cd = convert_open I CODE_TYPE_GBK CODE_TYPE_UTF8 in
     if cd = Iconv_Null then (False, out) else (False, out))"

text \<open>
  Every round takes at least one byte. \<^term>\<open>Some None\<close> is the failure; \<^term>\<open>None\<close> a failed assertion, or a read past
  the end of the buffer.
\<close>

function to_gbk_loop :: "iconv \<Rightarrow> iconv_t \<Rightarrow> 8 word list \<Rightarrow> 8 word list \<Rightarrow> 8 word list option option" where
  "to_gbk_loop I cd temp [] = Some (Some temp)"
| "to_gbk_loop I cd temp (c # cs) = do {
     bytes \<leftarrow> getChar (c # cs);
     if bytes < 0 then Some None
     else if bytes = 0 then to_gbk_loop I cd (temp @ [c]) cs
     else (case convert_code I cd (take (nat bytes) (c # cs)) 32 of
         None \<Rightarrow> Some None
       | Some pout \<Rightarrow> do {
           p \<leftarrow> c_string pout;
           to_gbk_loop I cd (temp @ p) (drop (nat bytes) (c # cs)) }) }"
  by pat_completeness auto
termination
  by (relation "measure (\<lambda>(_, _, _, cs). length cs)") auto

definition UTF82GBK :: "iconv \<Rightarrow> 8 word list \<Rightarrow> 8 word list \<Rightarrow> (bool \<times> 8 word list) option" where
  "UTF82GBK I out input =
    (let cd = convert_open I CODE_TYPE_GBK CODE_TYPE_UTF8 in
     if cd = Iconv_Null then Some (False, out)
     else do {
       r \<leftarrow> to_gbk_loop I cd [] input;
       Some (case r of None \<Rightarrow> (False, out) | Some temp \<Rightarrow> (True, out @ temp)) })"

end
