(* ===== verification/Conv_Spec.thy ===== *)
theory Conv_Spec
  imports Conv_Ops
begin

text \<open>
  What the functions on UTF-8 do with texts in UTF-8, the encoding of RFC 3629. They take the first byte of a
  class for no byte of the class, so they refuse some characters: those with a continuation byte
  \<open>80\<close> and those that start with \<open>E0\<close> or \<open>F0\<close>.
\<close>

section \<open>UTF-8\<close>

definition utf8_encode :: "nat \<Rightarrow> 8 word list" where
  "utf8_encode u =
    (if u < 0x80 then [of_nat u]
     else if u < 0x800 then [of_nat (0xC0 + u div 64), of_nat (0x80 + u mod 64)]
     else if u < 0x10000 then [of_nat (0xE0 + u div 4096), of_nat (0x80 + u div 64 mod 64), of_nat (0x80 + u mod 64)]
     else [of_nat (0xF0 + u div 262144), of_nat (0x80 + u div 4096 mod 64), of_nat (0x80 + u div 64 mod 64), of_nat (0x80 + u mod 64)])"

definition utf8_text :: "nat list \<Rightarrow> 8 word list" where
  "utf8_text us = concat (map utf8_encode us)"

definition scalar :: "nat \<Rightarrow> bool" where
  "scalar u \<longleftrightarrow> u < 0x110000 \<and> \<not> (0xD800 \<le> u \<and> u \<le> 0xDFFF)"

text \<open>Characters the functions pass over, and characters they recognise.\<close>

definition passes :: "nat \<Rightarrow> bool" where
  "passes u \<longleftrightarrow> u \<noteq> 0 \<and> \<not> (0x800 \<le> u \<and> u < 0x1000) \<and> \<not> (0x10000 \<le> u \<and> u < 0x40000)"

definition recognised :: "nat \<Rightarrow> bool" where
  "recognised u \<longleftrightarrow> 0x80 \<le> u \<and> u mod 64 \<noteq> 0 \<and> (0x800 \<le> u \<longrightarrow> u div 64 mod 64 \<noteq> 0)
     \<and> (0x10000 \<le> u \<longrightarrow> u div 4096 mod 64 \<noteq> 0)"

section \<open>Bytes of a character\<close>

lemma byte_class:
  assumes "n < 256"
  shows "IS_UTF8_ANSII (of_nat n) \<longleftrightarrow> 0 < n \<and> n < 0x80" "IS_UTF8_2BYTE (of_nat n) \<longleftrightarrow> 0xC0 < n \<and> n < 0xE0"
    "IS_UTF8_3BYTE (of_nat n) \<longleftrightarrow> 0xE0 < n \<and> n < 0xF0" "IS_UTF8_4BYTE (of_nat n) \<longleftrightarrow> 0xF0 < n \<and> n < 0xF8"
    "IS_UTF8_EXTRA (of_nat n) \<longleftrightarrow> 0x80 < n \<and> n < 0xC0"
  using assms by (simp_all add: IS_UTF8_ANSII_def IS_UTF8_2BYTE_def IS_UTF8_3BYTE_def IS_UTF8_4BYTE_def IS_UTF8_EXTRA_def
      word_less_nat_alt unat_of_nat take_bit_eq_mod)

lemma extra_byte: "IS_UTF8_EXTRA (of_nat (0x80 + n mod 64)) \<longleftrightarrow> n mod 64 \<noteq> 0"
proof -
  have "n mod 64 < 64" by simp
  then have "0x80 + n mod 64 < 256" by linarith
  then show ?thesis using byte_class(5) [of "0x80 + n mod 64"] \<open>n mod 64 < 64\<close> by simp
qed

lemma one_byte:
  assumes "u < 0x80"
  shows "IS_UTF8_ANSII (of_nat u) \<longleftrightarrow> u \<noteq> 0" "\<not> IS_UTF8_2BYTE (of_nat u)" "\<not> IS_UTF8_3BYTE (of_nat u)" "\<not> IS_UTF8_4BYTE (of_nat u)"
  using byte_class [of u] assms by auto

lemma lead_byte_2:
  assumes "0x80 \<le> u" "u < 0x800"
  shows "\<not> IS_UTF8_ANSII (of_nat (0xC0 + u div 64))" "IS_UTF8_2BYTE (of_nat (0xC0 + u div 64))"
proof -
  have "2 \<le> u div 64" "u div 64 < 32" using assms by (simp_all add: less_mult_imp_div_less div_le_mono [of 128 u 64, simplified])
  then show "\<not> IS_UTF8_ANSII (of_nat (0xC0 + u div 64))" "IS_UTF8_2BYTE (of_nat (0xC0 + u div 64))"
    using byte_class [of "0xC0 + u div 64"] by simp_all
qed

lemma lead_byte_3:
  assumes "0x800 \<le> u" "u < 0x10000"
  shows "\<not> IS_UTF8_ANSII (of_nat (0xE0 + u div 4096))" "\<not> IS_UTF8_2BYTE (of_nat (0xE0 + u div 4096))"
    "IS_UTF8_3BYTE (of_nat (0xE0 + u div 4096)) \<longleftrightarrow> passes u" "\<not> IS_UTF8_4BYTE (of_nat (0xE0 + u div 4096))"
proof -
  have d: "u div 4096 < 16" using assms by (simp add: less_mult_imp_div_less)
  have p: "0 < u div 4096 \<longleftrightarrow> passes u" using assms by (auto simp: passes_def div_greater_zero_iff)
  show "\<not> IS_UTF8_ANSII (of_nat (0xE0 + u div 4096))" "\<not> IS_UTF8_2BYTE (of_nat (0xE0 + u div 4096))"
    "IS_UTF8_3BYTE (of_nat (0xE0 + u div 4096)) \<longleftrightarrow> passes u" "\<not> IS_UTF8_4BYTE (of_nat (0xE0 + u div 4096))"
    using byte_class [of "0xE0 + u div 4096"] d p by auto
qed

lemma lead_byte_4:
  assumes "0x10000 \<le> u" "u < 0x110000"
  shows "\<not> IS_UTF8_ANSII (of_nat (0xF0 + u div 262144))" "\<not> IS_UTF8_2BYTE (of_nat (0xF0 + u div 262144))"
    "\<not> IS_UTF8_3BYTE (of_nat (0xF0 + u div 262144))" "IS_UTF8_4BYTE (of_nat (0xF0 + u div 262144)) \<longleftrightarrow> passes u"
proof -
  have d: "u div 262144 < 5" using assms by (simp add: less_mult_imp_div_less)
  have p: "0 < u div 262144 \<longleftrightarrow> passes u" using assms by (auto simp: passes_def div_greater_zero_iff)
  show "\<not> IS_UTF8_ANSII (of_nat (0xF0 + u div 262144))" "\<not> IS_UTF8_2BYTE (of_nat (0xF0 + u div 262144))"
    "\<not> IS_UTF8_3BYTE (of_nat (0xF0 + u div 262144))" "IS_UTF8_4BYTE (of_nat (0xF0 + u div 262144)) \<longleftrightarrow> passes u"
    using byte_class [of "0xF0 + u div 262144"] d p by auto
qed

lemma encode_cases:
  assumes "u < 0x110000"
  obtains "u < 0x80" "utf8_encode u = [of_nat u]"
  | "0x80 \<le> u" "u < 0x800" "utf8_encode u = [of_nat (0xC0 + u div 64), of_nat (0x80 + u mod 64)]"
  | "0x800 \<le> u" "u < 0x10000"
    "utf8_encode u = [of_nat (0xE0 + u div 4096), of_nat (0x80 + u div 64 mod 64), of_nat (0x80 + u mod 64)]"
  | "0x10000 \<le> u" "u < 0x110000"
    "utf8_encode u = [of_nat (0xF0 + u div 262144), of_nat (0x80 + u div 4096 mod 64), of_nat (0x80 + u div 64 mod 64), of_nat (0x80 + u mod 64)]"
proof -
  consider "u < 0x80" | "0x80 \<le> u" "u < 0x800" | "0x800 \<le> u" "u < 0x10000" | "0x10000 \<le> u" by linarith
  then show thesis using that assms by cases (simp_all add: utf8_encode_def)
qed

lemma utf8_loop_char:
  assumes "u < 0x110000"
  shows "utf8_loop b (utf8_encode u @ cs) \<longleftrightarrow> passes u \<and> utf8_loop (b \<or> recognised u) cs"
  using assms
proof (cases rule: encode_cases)
  case 1
  then show ?thesis using one_byte [of u] by (auto simp: passes_def recognised_def)
next
  case 2
  then have "passes u" "recognised u \<longleftrightarrow> u mod 64 \<noteq> 0" by (auto simp: passes_def recognised_def)
  then show ?thesis using lead_byte_2 [OF 2(1,2)] extra_byte [of u] by (simp only: 2(3) append.simps utf8_loop.simps list.case if_False if_True) auto
next
  case 3
  then have "recognised u \<longleftrightarrow> u div 64 mod 64 \<noteq> 0 \<and> u mod 64 \<noteq> 0" by (auto simp: recognised_def)
  then show ?thesis using lead_byte_3 [OF 3(1,2)] extra_byte [of u] extra_byte [of "u div 64"]
    by (simp only: 3(3) append.simps utf8_loop.simps list.case if_False if_True) auto
next
  case 4
  then have "recognised u \<longleftrightarrow> u div 4096 mod 64 \<noteq> 0 \<and> u div 64 mod 64 \<noteq> 0 \<and> u mod 64 \<noteq> 0" by (auto simp: recognised_def)
  then show ?thesis using lead_byte_4 [OF 4(1,2)] extra_byte [of u] extra_byte [of "u div 64"] extra_byte [of "u div 4096"]
    by (simp only: 4(3) append.simps utf8_loop.simps list.case if_False if_True) auto
qed

lemma getChar_char:
  assumes "u < 0x110000"
  shows "getChar (utf8_encode u @ cs) =
    Some (if u < 0x80 then (if u = 0 then - 1 else 0) else if passes u \<and> recognised u then int (length (utf8_encode u)) else - 1)"
  using assms
proof (cases rule: encode_cases)
  case 1
  then show ?thesis using one_byte [OF 1(1)] 1(1)
    by (simp only: 1(2) append.simps getChar_def list.case if_False if_True) auto
next
  case 2
  then have "passes u" "recognised u \<longleftrightarrow> u mod 64 \<noteq> 0" by (auto simp: passes_def recognised_def)
  then show ?thesis using lead_byte_2 [OF 2(1,2)] extra_byte [of u] 2(1) by (simp only: 2(3) append.simps getChar_def list.case if_False if_True) auto
next
  case 3
  then have "recognised u \<longleftrightarrow> u div 64 mod 64 \<noteq> 0 \<and> u mod 64 \<noteq> 0" by (auto simp: recognised_def)
  then show ?thesis using lead_byte_3 [OF 3(1,2)] extra_byte [of u] extra_byte [of "u div 64"] 3(1)
    by (simp only: 3(3) append.simps getChar_def list.case if_False if_True) auto
next
  case 4
  then have "recognised u \<longleftrightarrow> u div 4096 mod 64 \<noteq> 0 \<and> u div 64 mod 64 \<noteq> 0 \<and> u mod 64 \<noteq> 0" by (auto simp: recognised_def)
  then show ?thesis using lead_byte_4 [OF 4(1,2)] extra_byte [of u] extra_byte [of "u div 64"] extra_byte [of "u div 4096"] 4(1)
    by (simp only: 4(3) append.simps getChar_def list.case if_False if_True) auto
qed

section \<open>Recognition of texts\<close>

lemma utf8_text_simps [simp]:
  "utf8_text [] = []" "utf8_text (u # us) = utf8_encode u @ utf8_text us"
  by (simp_all add: utf8_text_def)

lemma encode_not_Nil [simp]: "utf8_encode u \<noteq> []"
  by (simp add: utf8_encode_def)

lemma encode_length: "length (utf8_encode u) \<le> 4"
  by (simp add: utf8_encode_def)

lemma utf8_loop_text:
  "list_all scalar us \<Longrightarrow>
    utf8_loop b (utf8_text us) \<longleftrightarrow> list_all passes us \<and> (b \<or> list_ex recognised us)"
  by (induction us arbitrary: b) (auto simp: utf8_loop_char scalar_def)

text \<open>
  C27: of a string that holds characters in UTF-8, \<open>isUTF8Encode\<close> says that it is UTF-8 exactly when none of its
  characters is null or starts with the byte \<open>E0\<close> or \<open>F0\<close> (\<open>passes\<close>) and some character of it takes several bytes and has
  no continuation byte \<open>80\<close> (\<open>recognised\<close>): a text in ASCII, or one with an emoji, is refused.
\<close>
theorem isUTF8Encode_text:
  assumes "list_all scalar us"
  shows "isUTF8Encode (utf8_text us) \<longleftrightarrow> list_all passes us \<and> list_ex recognised us"
  using utf8_loop_text [OF assms, of False] by (cases us) (simp_all add: isUTF8Encode_def)

theorem isUTF8Encode_text_witness:
  "isUTF8Encode (utf8_text [0x41, 0x4E2D]) \<and> \<not> isUTF8Encode (utf8_text [0x41]) \<and> \<not> isUTF8Encode (utf8_text [0x4E2D, 0x1F600])"
  using isUTF8Encode_text [of "[0x41, 0x4E2D]"] isUTF8Encode_text [of "[0x41]"] isUTF8Encode_text [of "[0x4E2D, 0x1F600]"]
  by (simp add: scalar_def passes_def recognised_def)

section \<open>Conversion of texts\<close>

definition gbk_char :: "iconv \<Rightarrow> nat \<Rightarrow> 8 word list option" where
  "gbk_char I u =
    (if u < 0x80 then (if u = 0 then None else Some [of_nat u])
     else if passes u \<and> recognised u \<and> ic_has I ''utf-8'' ''gbk''
     then map_option (takeWhile (\<lambda>b. b \<noteq> 0)) (ic_run I ''utf-8'' ''gbk'' (utf8_encode u))
     else None)"

definition small_results :: "iconv \<Rightarrow> bool" where
  "small_results I \<longleftrightarrow> (\<forall>to from inb bs. length inb \<le> 4 \<longrightarrow> ic_run I to from inb = Some bs \<longrightarrow> length bs < 32)"

lemma convert_open_gbk:
  "convert_open I CODE_TYPE_GBK CODE_TYPE_UTF8 = (if ic_has I ''utf-8'' ''gbk'' then Iconv_Open ''utf-8'' ''gbk'' else Iconv_Invalid)"
  by (simp add: convert_open_def iconv_open_def CODE_TYPE_GBK_def CODE_TYPE_UTF8_def)

lemma takeWhile_pad: "takeWhile (\<lambda>b. b \<noteq> 0) (bs @ replicate n (0::8 word)) = takeWhile (\<lambda>b. b \<noteq> 0) bs"
  by (induction bs) (simp_all add: takeWhile_replicate)

lemma convert_code_char:
  assumes "small_results I" "0x80 \<le> u" "passes u" "recognised u"
  shows "(case convert_code I (convert_open I CODE_TYPE_GBK CODE_TYPE_UTF8) (utf8_encode u) 32 of
      None \<Rightarrow> Some None
    | Some pout \<Rightarrow> c_string pout \<bind> f) =
    (case gbk_char I u of None \<Rightarrow> Some None | Some p \<Rightarrow> f p)"
proof (cases "ic_has I ''utf-8'' ''gbk''")
  case False
  then show ?thesis using assms(2) by (simp add: convert_open_gbk convert_code_def gbk_char_def)
next
  case True
  show ?thesis
  proof (cases "ic_run I ''utf-8'' ''gbk'' (utf8_encode u)")
    case None
    then show ?thesis using True assms(2) by (simp add: convert_open_gbk convert_code_def gbk_char_def)
  next
    case (Some bs)
    then have "length bs < 32" using assms(1) encode_length [of u] by (auto simp: small_results_def)
    then show ?thesis using True Some assms(2-4)
      by (simp add: convert_open_gbk convert_code_def gbk_char_def c_string_def takeWhile_pad)
  qed
qed

lemma to_gbk_char:
  assumes "small_results I" "scalar u"
  shows "to_gbk_loop I (convert_open I CODE_TYPE_GBK CODE_TYPE_UTF8) temp (utf8_encode u @ cs) =
    (case gbk_char I u of None \<Rightarrow> Some None
     | Some p \<Rightarrow> to_gbk_loop I (convert_open I CODE_TYPE_GBK CODE_TYPE_UTF8) (temp @ p) cs)"
proof -
  have u: "u < 0x110000" using assms(2) by (simp add: scalar_def)
  obtain c ds where e: "utf8_encode u = c # ds" by (cases "utf8_encode u") auto
  have g: "getChar (c # ds @ cs) =
    Some (if u < 0x80 then (if u = 0 then - 1 else 0) else if passes u \<and> recognised u then int (length (utf8_encode u)) else - 1)"
    using getChar_char [OF u, of cs] by (simp add: e)
  show ?thesis
  proof (cases "u < 0x80 \<or> \<not> (passes u \<and> recognised u)")
    case True
    moreover have "u < 0x80 \<Longrightarrow> ds = [] \<and> c = of_nat u" using e by (simp add: utf8_encode_def)
    ultimately show ?thesis using g by (auto simp: e gbk_char_def)
  next
    case False
    then have "take (length (utf8_encode u)) (c # ds @ cs) = utf8_encode u" "drop (length (utf8_encode u)) (c # ds @ cs) = cs"
      by (simp_all add: e)
    moreover have "nat (1 + int (length ds)) = Suc (length ds)" by simp
    ultimately show ?thesis using False g convert_code_char [OF assms(1), of u] by (simp add: e cong: option.case_cong)
  qed
qed

lemma to_gbk_text:
  "small_results I \<Longrightarrow> list_all scalar us \<Longrightarrow>
    to_gbk_loop I (convert_open I CODE_TYPE_GBK CODE_TYPE_UTF8) temp (utf8_text us) =
      Some (map_option (\<lambda>ps. temp @ concat ps) (those (map (gbk_char I) us)))"
  by (induction us arbitrary: temp)
    (auto simp: to_gbk_char option.map_comp o_def split: option.splits)

lemma convert_open_not_null [simp]: "convert_open I f t \<noteq> Iconv_Null"
  by (simp add: convert_open_def iconv_open_def)

text \<open>
  C28: of a text in UTF-8 of characters, \<open>UTF82GBK\<close> keeps the ASCII characters and replaces every other one by what
  \<open>iconv\<close> makes of its bytes read as GBK, converted to UTF-8 (\<open>gbk_char\<close>): the two character sets are the wrong way round. It appends the
  pieces to the output, or leaves it when one character has no conversion. That the system has no such
  conversion goes unnoticed: a text in ASCII then still succeeds. A conversion of at most four bytes has to give less than 32.
\<close>
theorem UTF82GBK_text:
  assumes "small_results I" "list_all scalar us"
  shows "UTF82GBK I out (utf8_text us) =
    Some (case those (map (gbk_char I) us) of None \<Rightarrow> (False, out) | Some ps \<Rightarrow> (True, out @ concat ps))"
  using to_gbk_text [OF assms, of "[]"] by (simp add: UTF82GBK_def split: option.splits)

definition sample_iconv :: iconv where
  "sample_iconv = \<lparr>ic_has = \<lambda>to from. True, ic_run = \<lambda>to from bs. if bs = [0xC3, 0xA9] then Some [0xE8, 0x8C, 0x85] else None\<rparr>"

theorem UTF82GBK_text_witness:
  "UTF82GBK sample_iconv [0x20] (utf8_text [0x41, 0xE9]) = Some (True, [0x20, 0x41, 0xE8, 0x8C, 0x85])
   \<and> UTF82GBK sample_iconv [0x20] (utf8_text [0x4E2D]) = Some (False, [0x20])"
proof -
  have s: "small_results sample_iconv" by (auto simp: small_results_def sample_iconv_def)
  show ?thesis
    using UTF82GBK_text [OF s, of "[0x41, 0xE9]" "[0x20]"] UTF82GBK_text [OF s, of "[0x4E2D]" "[0x20]"]
    by (simp add: scalar_def gbk_char_def passes_def recognised_def utf8_encode_def sample_iconv_def)
qed

text \<open>\<open>GBK2UTF8\<close> does not convert anything: it fails and leaves the output.\<close>

lemma GBK2UTF8_fails: "GBK2UTF8 I out input = (False, out)"
  by (simp add: GBK2UTF8_def)

end
