(* ===== verification/Buf_Ops.thy ===== *)
theory Buf_Ops
  imports Str_Mem
begin

text \<open>
  The class \<^verbatim>\<open>ByteBuffer\<close> of \<^verbatim>\<open>src/utils/src/buffer.cpp\<close> on shared buffers. Every member function
  takes the memory and the object and returns them; \<^term>\<open>None\<close> is undefined behaviour. Block 0 is the
  static empty buffer, on which the class itself holds a reference. A data pointer is null, or points to
  bytes outside the shared blocks, or into a block: then it dangles once that block is freed.
\<close>

section \<open>Objects and data pointers\<close>

record bytebuf =
  bb_buf :: ptr
  bb_size :: nat
  bb_cap :: nat

datatype bsrc = Outside "byte list" | Inside addr nat

definition src_bytes :: "smem \<Rightarrow> bsrc \<Rightarrow> nat \<Rightarrow> byte list option" where
  "src_bytes m src n = (case src of
     Outside d \<Rightarrow> if n \<le> length d then Some (take n d) else None
   | Inside a i \<Rightarrow> sb_read m a i n)"

definition size_max :: nat where "size_max = 2 ^ 64 - 1"

definition default_buffer_size :: nat where "default_buffer_size = 256"

definition GetEmptyBuffer :: "smem \<Rightarrow> (addr \<times> smem) option" where
  "GetEmptyBuffer m = do { m \<leftarrow> sb_acquire m 0; Some (0, m) }"

section \<open>Space\<close>

text \<open>\<^verbatim>\<open>dataSize *= 1.5\<close> rounds down; the product is exact for sizes below \<^term>\<open>2 ^ 52 :: nat\<close>.\<close>

definition bb_calculate :: "nat \<Rightarrow> nat" where
  "bb_calculate dataSize =
    (if default_buffer_size \<le> dataSize then dataSize + dataSize div 2 else default_buffer_size)"

text \<open>\<^verbatim>\<open>allocBuffer\<close> returns the size; a buffer that has a block keeps it and 0 is returned.\<close>

definition bb_allocBuffer :: "smem \<Rightarrow> bytebuf \<Rightarrow> nat \<Rightarrow> (nat \<times> bytebuf \<times> smem) option" where
  "bb_allocBuffer m b sz =
    (let sz = (if sz = 0 then default_buffer_size else sz) in
     case bb_buf b of
       Some _ \<Rightarrow> Some (0, b, m)
     | None \<Rightarrow> do {
         let (a, m) = sb_alloc m sz;
         m \<leftarrow> sb_write m a 0 (replicate sz 0);
         Some (sz, b\<lparr>bb_buf := Some a\<rparr>, m) })"

definition bb_freeBuffer :: "smem \<Rightarrow> bytebuf \<Rightarrow> (bytebuf \<times> smem) option" where
  "bb_freeBuffer m b = do {
     m \<leftarrow> (case bb_buf b of None \<Rightarrow> Some m | Some a \<Rightarrow> do { (_, m) \<leftarrow> sb_release m a False; Some m });
     Some (\<lparr>bb_buf = None, bb_size = 0, bb_cap = 0\<rparr>, m) }"

text \<open>The block to write \<^verbatim>\<open>newSize\<close> bytes to: enlarged, or detached from other users.\<close>

definition bb_writable :: "smem \<Rightarrow> bytebuf \<Rightarrow> nat \<Rightarrow> (addr \<times> nat \<times> smem) option" where
  "bb_writable m b newSize = do {
     a \<leftarrow> bb_buf b;
     (a, m) \<leftarrow> (if bb_cap b < newSize then sb_editResize m a (bb_calculate newSize) else sb_edit m a);
     blk \<leftarrow> m_bufs m a;
     Some (a, length (sb_data blk), m) }"

section \<open>Editing\<close>

definition bb_set :: "smem \<Rightarrow> bytebuf \<Rightarrow> bsrc option \<Rightarrow> nat \<Rightarrow> nat \<Rightarrow> (nat \<times> bytebuf \<times> smem) option" where
  "bb_set m b data dataSize offset = (case data of
     None \<Rightarrow> Some (0, b, m)
   | Some src \<Rightarrow>
     if dataSize = 0 then Some (0, b, m)
     else
       let real_offset = (if offset \<le> bb_size b then offset else 0);
           newSize = dataSize + real_offset
       in if size_max < newSize then Some (0, b, m)
       else do {
         (a, cap, m) \<leftarrow> bb_writable m b newSize;
         bs \<leftarrow> src_bytes m src dataSize;
         m \<leftarrow> sb_write m a real_offset bs;
         Some (dataSize, \<lparr>bb_buf = Some a, bb_size = newSize, bb_cap = cap\<rparr>, m) })"

text \<open>For a \<^verbatim>\<open>const char*\<close> the size \<^verbatim>\<open>SIZE_MAX\<close> means the length of the C string.\<close>

definition chars_size :: "byte list \<Rightarrow> nat \<Rightarrow> nat option" where
  "chars_size d dataSize = (if dataSize = size_max then c_strlen d else Some dataSize)"

definition bb_append_chars :: "smem \<Rightarrow> bytebuf \<Rightarrow> byte list option \<Rightarrow> nat \<Rightarrow> (bytebuf \<times> smem) option" where
  "bb_append_chars m b data dataSize = (case data of
     None \<Rightarrow> Some (b, m)
   | Some d \<Rightarrow>
     if dataSize = 0 then Some (b, m)
     else do {
       n \<leftarrow> chars_size d dataSize;
       (_, b, m) \<leftarrow> bb_set m b (Some (Outside d)) n (bb_size b);
       Some (b, m) })"

definition bb_append :: "smem \<Rightarrow> bytebuf \<Rightarrow> bsrc option \<Rightarrow> nat \<Rightarrow> (bytebuf \<times> smem) option" where
  "bb_append m b data dataSize = do {
     (_, b, m) \<leftarrow> bb_set m b data dataSize (bb_size b); Some (b, m) }"

definition bb_data :: "bytebuf \<Rightarrow> bsrc option" where
  "bb_data b = map_option (\<lambda>a. Inside a 0) (bb_buf b)"

definition bb_append_buffer :: "smem \<Rightarrow> bytebuf \<Rightarrow> bytebuf \<Rightarrow> (bytebuf \<times> smem) option" where
  "bb_append_buffer m b other = bb_append m b (bb_data other) (bb_size other)"

definition bb_insert :: "smem \<Rightarrow> bytebuf \<Rightarrow> bsrc option \<Rightarrow> nat \<Rightarrow> nat \<Rightarrow> (nat \<times> bytebuf \<times> smem) option" where
  "bb_insert m b data dataSize offset = (case data of
     None \<Rightarrow> Some (0, b, m)
   | Some src \<Rightarrow>
     if bb_size b < offset then Some (0, b, m)
     else
       let copySize = bb_size b - offset; oldDataSize = bb_size b; newSize = dataSize + bb_size b
       in if size_max < newSize then Some (0, b, m)
       else do {
         (a, cap, m) \<leftarrow> bb_writable m b newSize;
         m \<leftarrow> (if copySize = 0
               then do { bs \<leftarrow> src_bytes m src dataSize; sb_write m a oldDataSize bs }
               else do {
                 temp \<leftarrow> sb_read m a offset copySize;
                 bs \<leftarrow> src_bytes m src dataSize;
                 m \<leftarrow> sb_write m a offset bs;
                 sb_write m a (offset + dataSize) temp });
         Some (dataSize, \<lparr>bb_buf = Some a, bb_size = newSize, bb_cap = cap\<rparr>, m) })"

definition bb_reserve :: "smem \<Rightarrow> bytebuf \<Rightarrow> nat \<Rightarrow> (bytebuf \<times> smem) option" where
  "bb_reserve m b newSize =
    (if newSize = 0 then Some (b, m)
     else case bb_buf b of
       None \<Rightarrow> do { (cap, b, m) \<leftarrow> bb_allocBuffer m b newSize; Some (b\<lparr>bb_cap := cap, bb_size := 0\<rparr>, m) }
     | Some a \<Rightarrow> do {
         (a, m) \<leftarrow> sb_editResize m a newSize;
         blk \<leftarrow> m_bufs m a;
         Some (b\<lparr>bb_buf := Some a, bb_cap := length (sb_data blk)\<rparr>, m) })"

definition bb_resize :: "bytebuf \<Rightarrow> nat \<Rightarrow> bytebuf" where
  "bb_resize b sz = b\<lparr>bb_size := (if bb_cap b < sz then bb_cap b else sz)\<rparr>"

definition bb_detach :: "smem \<Rightarrow> bytebuf \<Rightarrow> (bytebuf \<times> smem) option" where
  "bb_detach m b = (case bb_buf b of
     None \<Rightarrow> do {
       (cap, b, m) \<leftarrow> bb_allocBuffer m b default_buffer_size;
       Some (b\<lparr>bb_cap := cap, bb_size := 0\<rparr>, m) }
   | Some a \<Rightarrow> do {
       blk \<leftarrow> m_bufs m a;
       if \<not> sb_onlyOwner blk
       then do { (a, m) \<leftarrow> sb_edit m a; Some (b\<lparr>bb_buf := Some a\<rparr>, m) }
       else Some (b, m) })"

definition bb_clear :: "smem \<Rightarrow> bytebuf \<Rightarrow> (bytebuf \<times> smem) option" where
  "bb_clear m b = do { (b, m) \<leftarrow> bb_detach m b; Some (b\<lparr>bb_size := 0\<rparr>, m) }"

section \<open>Constructors, destructor and assignment\<close>

definition bb_new :: "smem \<Rightarrow> (bytebuf \<times> smem) option" where
  "bb_new m = do { (a, m) \<leftarrow> GetEmptyBuffer m; Some (\<lparr>bb_buf = Some a, bb_size = 0, bb_cap = 0\<rparr>, m) }"

definition bb_new_size :: "smem \<Rightarrow> nat \<Rightarrow> (bytebuf \<times> smem) option" where
  "bb_new_size m sz = do {
     (b, m) \<leftarrow> bb_new m;
     if 0 < sz
     then do {
       a \<leftarrow> bb_buf b;
       (a, m) \<leftarrow> sb_reset m a sz;
       blk \<leftarrow> m_bufs m a;
       Some (b\<lparr>bb_buf := Some a, bb_cap := length (sb_data blk)\<rparr>, m) }
     else Some (b, m) }"

definition bb_new_chars :: "smem \<Rightarrow> byte list option \<Rightarrow> nat \<Rightarrow> (bytebuf \<times> smem) option" where
  "bb_new_chars m data dataLength = do {
     (b, m) \<leftarrow> bb_new m;
     case data of
       None \<Rightarrow> Some (b, m)
     | Some d \<Rightarrow>
       if dataLength = 0 then Some (b, m)
       else do {
         n \<leftarrow> chars_size d dataLength;
         (_, b, m) \<leftarrow> bb_set m b (Some (Outside d)) n 0;
         Some (b, m) } }"

definition bb_new_bytes :: "smem \<Rightarrow> bsrc option \<Rightarrow> nat \<Rightarrow> (bytebuf \<times> smem) option" where
  "bb_new_bytes m data dataLength = do {
     (cap, b, m) \<leftarrow> bb_allocBuffer m \<lparr>bb_buf = None, bb_size = 0, bb_cap = 0\<rparr> dataLength;
     (_, b, m) \<leftarrow> bb_set m (b\<lparr>bb_cap := cap\<rparr>) data dataLength 0;
     Some (b, m) }"

definition bb_new_copy :: "smem \<Rightarrow> bytebuf \<Rightarrow> (bytebuf \<times> smem) option" where
  "bb_new_copy m other = do { a \<leftarrow> bb_buf other; m \<leftarrow> sb_acquire m a; Some (other, m) }"

text \<open>\<^verbatim>\<open>moveAssign\<close> swaps; the moved-from object of the constructor keeps the empty buffer.\<close>

definition bb_moveAssign :: "bytebuf \<Rightarrow> bytebuf \<Rightarrow> bytebuf \<times> bytebuf" where
  "bb_moveAssign b other = (other, b)"

definition bb_new_move :: "smem \<Rightarrow> bytebuf \<Rightarrow> (bytebuf \<times> bytebuf \<times> smem) option" where
  "bb_new_move m other = do {
     (b, m) \<leftarrow> bb_new m;
     let (b, other) = bb_moveAssign b other;
     Some (b, other, m) }"

text \<open>Copy assignment does not release the block the object had.\<close>

definition bb_assign :: "smem \<Rightarrow> bytebuf \<Rightarrow> bytebuf \<Rightarrow> (bytebuf \<times> smem) option" where
  "bb_assign m b other = do { a \<leftarrow> bb_buf other; m \<leftarrow> sb_acquire m a; Some (other, m) }"

section \<open>Reading\<close>

text \<open>A reference to a byte, or the exception for an index past the capacity.\<close>

definition bb_index :: "bytebuf \<Rightarrow> nat \<Rightarrow> (unit + addr \<times> nat) option" where
  "bb_index b i = (if bb_cap b \<le> i then Some (Inl ()) else do { a \<leftarrow> bb_buf b; Some (Inr (a, i)) })"

definition bb_bytes :: "smem \<Rightarrow> bytebuf \<Rightarrow> byte list option" where
  "bb_bytes m b = do { a \<leftarrow> bb_buf b; sb_read m a 0 (bb_size b) }"

definition bb_equal :: "smem \<Rightarrow> bytebuf \<Rightarrow> bytebuf \<Rightarrow> bool option" where
  "bb_equal m b other =
    (if bb_buf b = bb_buf other then Some True
     else if bb_size b \<noteq> bb_size other then Some False
     else do { x \<leftarrow> bb_bytes m b; y \<leftarrow> bb_bytes m other; Some (x = y) })"

definition dump_byte :: "byte \<Rightarrow> string" where
  "dump_byte x = ''0x'' @ hex_byte x @ '' ''"

definition bb_dump :: "smem \<Rightarrow> bytebuf \<Rightarrow> string option" where
  "bb_dump m b =
    (if bb_buf b = None \<or> bb_size b = 0 then Some ''''
     else do {
       d \<leftarrow> bb_bytes m b;
       let cycle = bb_size b div 4;
       let remainder = bb_size b mod 4;
       let ret = concat (map (\<lambda>i. dump_byte (d ! (i * 4)) @ dump_byte (d ! (i * 4 + 1))
             @ dump_byte (d ! (i * 4 + 2)) @ dump_byte (d ! (i * 4 + 3))) [0..<cycle]);
       Some (ret @ concat (map (\<lambda>i. dump_byte (d ! i)) [bb_size b - remainder..<bb_size b])) })"

text \<open>The hash is the standard library's hash of the bytes.\<close>

definition bb_hash :: "(byte list \<Rightarrow> nat) \<Rightarrow> smem \<Rightarrow> bytebuf \<Rightarrow> nat option" where
  "bb_hash h m b = map_option h (bb_bytes m b)"

end
