(* ===== verification/Stream_Ops.thy ===== *)
theory Stream_Ops
  imports Buf_Ops
begin

text \<open>
  \<^verbatim>\<open>BufferStream\<close> of \<^verbatim>\<open>src/utils/src/buffer_stream.cpp\<close>: typed values written to and read from a
  \<^verbatim>\<open>ByteBuffer\<close>. A stream points to a buffer object, which others may hold too; the state is the store of
  buffer objects and the memory of their blocks. The positions are 32-bit and wrap; the bytes of
  one write are fewer than \<^term>\<open>2 ^ 32 :: nat\<close>. An exception is the
  left value of a result, with the state it leaves.
\<close>

section \<open>State\<close>

record bstream =
  st_buffer :: ptr
  st_rpos :: word32
  st_wpos :: word32

record bstate =
  bs_objs :: "addr \<Rightarrow> bytebuf option"
  bs_mem :: smem

datatype stream_error = Invalid_call | Not_enough_memory | Read_error

type_synonym 'a stream_result = "((stream_error + 'a) \<times> bstream \<times> bstate) option"

definition stream_new :: bstream where
  "stream_new = \<lparr>st_buffer = None, st_rpos = 0, st_wpos = 0\<rparr>"

definition stream_on :: "bstate \<Rightarrow> addr \<Rightarrow> bstream option" where
  "stream_on st obj = do {
     b \<leftarrow> bs_objs st obj;
     Some \<lparr>st_buffer = Some obj, st_rpos = 0, st_wpos = of_nat (bb_size b)\<rparr> }"

definition stream_move :: "bstream \<Rightarrow> bstream \<times> bstream" where
  "stream_move other = (other, \<lparr>st_buffer = None, st_rpos = 0, st_wpos = 0\<rparr>)"

definition stream_assign_move :: "bstream \<Rightarrow> bstream \<Rightarrow> bstream \<times> bstream" where
  "stream_assign_move s other = (other, s)"

section \<open>Bytes in and out\<close>

text \<open>Bytes that no longer fit behind the unread ones first move to the front of the buffer.\<close>

definition stream_compact :: "bstream \<Rightarrow> bytebuf \<Rightarrow> smem \<Rightarrow> ((stream_error + unit) \<times> bstream \<times> bytebuf \<times> smem) option" where
  "stream_compact s b m = do {
     a \<leftarrow> bb_buf b;
     let copySize = st_wpos s - st_rpos s;
     (realCopySize, b, m) \<leftarrow> bb_set m b (Some (Inside a (unat (st_rpos s)))) (unat copySize) 0;
     if realCopySize \<noteq> unat copySize then Some (Inl Not_enough_memory, s, b, m)
     else Some (Inr (), s\<lparr>st_rpos := 0, st_wpos := copySize\<rparr>, b, m) }"

definition stream_write :: "bstate \<Rightarrow> bstream \<Rightarrow> byte list \<Rightarrow> unit stream_result" where
  "stream_write st s data = (case st_buffer s of
     None \<Rightarrow> Some (Inl Invalid_call, s, st)
   | Some obj \<Rightarrow> do {
       b \<leftarrow> bs_objs st obj;
       let cap = (of_nat (bb_cap b) :: word32);
       let wpos = st_wpos s + of_nat (length data);
       (r, s, b, m) \<leftarrow> (if st_rpos s \<noteq> 0 \<and> cap < wpos then stream_compact s b (bs_mem st)
                        else Some (Inr (), s, b, bs_mem st));
       case r of
         Inl e \<Rightarrow> Some (Inl e, s, \<lparr>bs_objs = (bs_objs st)(obj \<mapsto> b), bs_mem = m\<rparr>)
       | Inr _ \<Rightarrow> do {
           (b, m) \<leftarrow> bb_append m b (Some (Outside data)) (length data);
           Some (Inr (), s\<lparr>st_wpos := st_wpos s + of_nat (length data)\<rparr>,
             \<lparr>bs_objs = (bs_objs st)(obj \<mapsto> b), bs_mem = m\<rparr>) } })"

text \<open>\<^verbatim>\<open>read\<close> returns whether there was enough, and then the bytes.\<close>

definition stream_read :: "bstate \<Rightarrow> bstream \<Rightarrow> word32 \<Rightarrow> byte list option stream_result" where
  "stream_read st s n = (case st_buffer s of
     None \<Rightarrow> Some (Inl Invalid_call, s, st)
   | Some obj \<Rightarrow>
       let rpos = st_rpos s + n in
       if rpos \<le> st_wpos s
       then do {
         b \<leftarrow> bs_objs st obj;
         a \<leftarrow> bb_buf b;
         d \<leftarrow> sb_read (bs_mem st) a (unat (st_rpos s)) (unat n);
         Some (Inr (Some d), s\<lparr>st_rpos := st_rpos s + n\<rparr>, st) }
       else Some (Inr None, s, st))"

section \<open>Values\<close>

text \<open>A signed integer, a float or a double is its word of the same width.\<close>

datatype item =
  Bool_item bool | Int8_item "8 word" | UInt8_item "8 word" | WChar_item "32 word" | Int16_item "16 word"
| UInt16_item "16 word" | Float_item "32 word" | Int32_item "32 word" | UInt32_item "32 word"
| Double_item "64 word" | Int64_item "64 word" | UInt64_item "64 word" | String_item "byte list"

text \<open>The type of a variable to read into; a string already has contents.\<close>

datatype kind =
  Bool_kind | Int8_kind | UInt8_kind | WChar_kind | Int16_kind | UInt16_kind | Float_kind | Int32_kind | UInt32_kind
| Double_kind | Int64_kind | UInt64_kind | String_kind "byte list"

definition word_bytes :: "nat \<Rightarrow> 'a::len word \<Rightarrow> byte list" where
  "word_bytes n w = map (\<lambda>i. ucast (drop_bit (8 * i) w)) [0..<n]"

definition bytes_word :: "byte list \<Rightarrow> 'a::len word" where
  "bytes_word bs = foldr (\<lambda>b w. ucast b OR push_bit 8 w) bs 0"

fun item_bytes :: "item \<Rightarrow> byte list" where
  "item_bytes (Bool_item b) = [if b then 1 else 0]"
| "item_bytes (Int8_item w) = word_bytes 1 w"
| "item_bytes (UInt8_item w) = word_bytes 1 w"
| "item_bytes (WChar_item w) = word_bytes 4 w"
| "item_bytes (Int16_item w) = word_bytes 2 w"
| "item_bytes (UInt16_item w) = word_bytes 2 w"
| "item_bytes (Float_item w) = word_bytes 4 w"
| "item_bytes (Int32_item w) = word_bytes 4 w"
| "item_bytes (UInt32_item w) = word_bytes 4 w"
| "item_bytes (Double_item w) = word_bytes 8 w"
| "item_bytes (Int64_item w) = word_bytes 8 w"
| "item_bytes (UInt64_item w) = word_bytes 8 w"
| "item_bytes (String_item s) = s @ [0]"

text \<open>The operators \<^verbatim>\<open><<\<close>; the one for strings writes nothing for an empty string.\<close>

definition stream_put :: "bstate \<Rightarrow> bstream \<Rightarrow> item \<Rightarrow> unit stream_result" where
  "stream_put st s x = (if x = String_item [] then Some (Inr (), s, st) else stream_write st s (item_bytes x))"

fun kind_size :: "kind \<Rightarrow> nat" where
  "kind_size Bool_kind = 1" | "kind_size Int8_kind = 1" | "kind_size UInt8_kind = 1" | "kind_size WChar_kind = 4"
| "kind_size Int16_kind = 2" | "kind_size UInt16_kind = 2" | "kind_size Float_kind = 4" | "kind_size Int32_kind = 4"
| "kind_size UInt32_kind = 4" | "kind_size Double_kind = 8" | "kind_size Int64_kind = 8" | "kind_size UInt64_kind = 8"
| "kind_size (String_kind _) = 1"

text \<open>A \<^verbatim>\<open>bool\<close> object must hold 0 or 1.\<close>

fun decode_item :: "kind \<Rightarrow> byte list \<Rightarrow> item option" where
  "decode_item Bool_kind d = (if d = [0] then Some (Bool_item False) else if d = [1] then Some (Bool_item True) else None)"
| "decode_item Int8_kind d = Some (Int8_item (bytes_word d))"
| "decode_item UInt8_kind d = Some (UInt8_item (bytes_word d))"
| "decode_item WChar_kind d = Some (WChar_item (bytes_word d))"
| "decode_item Int16_kind d = Some (Int16_item (bytes_word d))"
| "decode_item UInt16_kind d = Some (UInt16_item (bytes_word d))"
| "decode_item Float_kind d = Some (Float_item (bytes_word d))"
| "decode_item Int32_kind d = Some (Int32_item (bytes_word d))"
| "decode_item UInt32_kind d = Some (UInt32_item (bytes_word d))"
| "decode_item Double_kind d = Some (Double_item (bytes_word d))"
| "decode_item Int64_kind d = Some (Int64_item (bytes_word d))"
| "decode_item UInt64_kind d = Some (UInt64_item (bytes_word d))"
| "decode_item (String_kind _) d = None"

text \<open>The loop that collects characters up to the terminator behind what the string already has.\<close>

partial_function (option) string_loop :: "bstate \<Rightarrow> bstream \<Rightarrow> byte list \<Rightarrow> byte list stream_result" where
  "string_loop st s temp = do {
     (r, s, st) \<leftarrow> stream_read st s 1;
     case r of
       Inl e \<Rightarrow> Some (Inl e, s, st)
     | Inr None \<Rightarrow> Some (Inl Read_error, s, st)
     | Inr (Some d) \<Rightarrow>
         let ch = d ! 0; temp = temp @ [ch] in
         if ch \<noteq> 0 then string_loop st s temp else Some (Inr temp, s, st) }"

text \<open>
  The operators \<^verbatim>\<open>>>\<close>. A string is assigned the first \<^verbatim>\<open>size - 1\<close> characters collected.
\<close>

definition stream_get :: "bstate \<Rightarrow> bstream \<Rightarrow> kind \<Rightarrow> item stream_result" where
  "stream_get st s k = (case k of
     String_kind cur \<Rightarrow>
       (if st_buffer s = None then Some (Inl Invalid_call, s, st)
        else do {
          (r, s, st) \<leftarrow> string_loop st s cur;
          case r of
            Inl e \<Rightarrow> Some (Inl e, s, st)
          | Inr temp \<Rightarrow> Some (Inr (String_item (take (length temp - 1) temp)), s, st) })
   | _ \<Rightarrow> do {
       (r, s, st) \<leftarrow> stream_read st s (of_nat (kind_size k));
       case r of
         Inl e \<Rightarrow> Some (Inl e, s, st)
       | Inr None \<Rightarrow> Some (Inl Read_error, s, st)
       | Inr (Some d) \<Rightarrow> do { x \<leftarrow> decode_item k d; Some (Inr x, s, st) } })"

section \<open>Sequences of operations\<close>

text \<open>Statements \<^verbatim>\<open>s << x << y ...\<close> and \<^verbatim>\<open>s >> x >> y ...\<close>: the first exception ends them.\<close>

fun stream_puts :: "bstate \<Rightarrow> bstream \<Rightarrow> item list \<Rightarrow> unit stream_result" where
  "stream_puts st s [] = Some (Inr (), s, st)"
| "stream_puts st s (x # xs) = do {
     (r, s, st) \<leftarrow> stream_put st s x;
     case r of Inl e \<Rightarrow> Some (Inl e, s, st) | Inr _ \<Rightarrow> stream_puts st s xs }"

fun stream_gets :: "bstate \<Rightarrow> bstream \<Rightarrow> kind list \<Rightarrow> item list stream_result" where
  "stream_gets st s [] = Some (Inr [], s, st)"
| "stream_gets st s (k # ks) = do {
     (r, s, st) \<leftarrow> stream_get st s k;
     case r of
       Inl e \<Rightarrow> Some (Inl e, s, st)
     | Inr x \<Rightarrow> do {
         (r, s, st) \<leftarrow> stream_gets st s ks;
         case r of Inl e \<Rightarrow> Some (Inl e, s, st) | Inr xs \<Rightarrow> Some (Inr (x # xs), s, st) } }"

end
