(* ===== verification/Buf_Laws.thy ===== *)
theory Buf_Laws
  imports Buf_Ops
begin

text \<open>
  What a \<^verbatim>\<open>ByteBuffer\<close> stands for, and the effect of its operations on it. \<^verbatim>\<open>bb_is m R b v\<close>: the object
  \<^verbatim>\<open>b\<close> holds one reference, \<^verbatim>\<open>R\<close> are all other references in the program, and the bytes of \<^verbatim>\<open>b\<close> are \<^verbatim>\<open>v\<close>.
  The capacity is the size of the block, except that it may be 0 on a block of one byte: the static
  empty buffer and its copies.
\<close>

section \<open>Representation\<close>

definition bb_at :: "smem \<Rightarrow> addr multiset \<Rightarrow> bytebuf \<Rightarrow> addr \<Rightarrow> byte list \<Rightarrow> bool" where
  "bb_at m R b a v \<longleftrightarrow> bb_buf b = Some a \<and> refs_ok m (add_mset a R) \<and> bb_size b \<le> bb_cap b
     \<and> (bb_cap b = length (data_at m a) \<or> bb_cap b = 0 \<and> length (data_at m a) = 1)
     \<and> take (bb_size b) (data_at m a) = v"

definition bb_is :: "smem \<Rightarrow> addr multiset \<Rightarrow> bytebuf \<Rightarrow> byte list \<Rightarrow> bool" where
  "bb_is m R b v \<longleftrightarrow> (\<exists>a. bb_at m R b a v)"

lemma bb_at_size: "bb_at m R b a v \<Longrightarrow> bb_size b = length v"
  by (auto simp: bb_at_def)

lemma bb_at_same: "\<lbrakk>bb_at m R b a v; refs_ok m' (add_mset a R); same_data m (add_mset a R) m'\<rbrakk> \<Longrightarrow> bb_at m' R b a v"
  using same_dataD[of m "add_mset a R" m' a] by (simp add: bb_at_def)

section \<open>Blocks that may be written\<close>

lemma edit_ok:
  assumes "refs_ok m (add_mset a R)"
  shows "\<exists>a' m'. sb_edit m a = Some (a', m') \<and> refs_ok m' (add_mset a' R) \<and> same_data m R m' \<and> a' \<notin># R
    \<and> data_at m' a' = data_at m a \<and> (a \<notin># R \<longrightarrow> a' = a)"
proof -
  obtain blk where b: "m_bufs m a = Some blk" "data_at m a = sb_data blk"
    using refs_ok_obtain[OF assms(1), of a] by (metis union_single_eq_member)
  show ?thesis
  proof (cases "a \<in># R")
    case False
    then have "sb_onlyOwner blk" using owner_iff[OF assms b(1)] by simp
    then show ?thesis using assms False b(1) by (auto simp: sb_edit_def)
  next
    case True
    obtain a' m1 where al: "sb_alloc m (length (sb_data blk)) = (a', m1)" by fastforce
    note ok1 = alloc_ok[OF assms al]
    obtain m2 where m2: "sb_write m1 a' 0 (sb_data blk) = Some m2" "refs_ok m2 (add_mset a' (add_mset a R))"
      "same_data m1 (add_mset a R) m2" "data_at m2 a' = sb_data blk"
      using write_ok[OF ok1(1,4), of 0 "sb_data blk"] ok1(3) by auto
    obtain p m3 where m3: "sb_release m2 a False = Some (p, m3)" "refs_ok m3 (add_mset a' R)"
      "same_data m2 (add_mset a' R) m3"
      using release_ok[of m2 a "add_mset a' R"] m2(2) by (auto simp: add_mset_commute)
    have "sb_edit m a = Some (a', m3)"
      using b(1) al m2(1) m3(1) owner_iff[OF assms b(1)] True by (simp add: sb_edit_def)
    moreover have "same_data m R m3" using ok1(2) m2(3) m3(3) by (auto simp: same_data_def)
    moreover have "data_at m3 a' = data_at m a" using same_dataD[OF m3(3), of a'] m2(4) b(2) by simp
    ultimately show ?thesis using m3(2) ok1(4) True by auto
  qed
qed

lemma editResize_grow:
  assumes "refs_ok m (add_mset a R)" "length (data_at m a) \<le> n"
  shows "\<exists>a' m'. sb_editResize m a n = Some (a', m') \<and> refs_ok m' (add_mset a' R) \<and> same_data m R m' \<and> a' \<notin># R
    \<and> length (data_at m' a') = n \<and> take (length (data_at m a)) (data_at m' a') = data_at m a"
proof (cases "a \<in># R")
  case True
  show ?thesis using editResize_shared[OF assms(1) True, of n] assms(2)
    by (elim exE conjE) (intro exI conjI, assumption+, simp)
next
  case False
  show ?thesis by (rule editResize_own[OF assms(1) False assms(2)])
qed

lemma calculate_ge: "n \<le> bb_calculate n" "1 \<le> bb_calculate n"
  by (auto simp: bb_calculate_def default_buffer_size_def)

lemma block_size:
  "refs_ok m (add_mset a R) \<Longrightarrow>
    (do { blk \<leftarrow> m_bufs m a; Some (a, length (sb_data blk), m) }) = Some (a, length (data_at m a), m)"
  by (erule refs_ok_obtain[of _ _ a]) simp_all

lemma writable_ok:
  assumes "bb_at m R b a v"
  obtains a' m' where "bb_writable m b n = Some (a', length (data_at m' a'), m')" "refs_ok m' (add_mset a' R)"
    "same_data m R m'" "a' \<notin># R" "n \<le> length (data_at m' a')"
    "take (length (data_at m a)) (data_at m' a') = data_at m a" "a \<notin># R \<Longrightarrow> n \<le> bb_cap b \<Longrightarrow> a' = a"
proof -
  have a: "bb_buf b = Some a" "refs_ok m (add_mset a R)"
    "bb_cap b = length (data_at m a) \<or> bb_cap b = 0 \<and> length (data_at m a) = 1"
    using assms by (auto simp: bb_at_def)
  note len = block_size
  show ?thesis
  proof (cases "bb_cap b < n")
    case True
    then have "length (data_at m a) \<le> bb_calculate n" using a(3) calculate_ge[of n] by auto
    then obtain a' m' where r: "sb_editResize m a (bb_calculate n) = Some (a', m')" "refs_ok m' (add_mset a' R)"
      "same_data m R m'" "a' \<notin># R" "length (data_at m' a') = bb_calculate n"
      "take (length (data_at m a)) (data_at m' a') = data_at m a"
      using editResize_grow[OF a(2)] by metis
    then have "bb_writable m b n = Some (a', length (data_at m' a'), m')"
      using True a(1) len[OF r(2)] by (simp add: bb_writable_def)
    then show ?thesis by (rule that[of a' m']) (use r True calculate_ge(1)[of n] in auto)
  next
    case False
    obtain a' m' where r: "sb_edit m a = Some (a', m')" "refs_ok m' (add_mset a' R)" "same_data m R m'" "a' \<notin># R"
      "data_at m' a' = data_at m a" "a \<notin># R \<longrightarrow> a' = a"
      using edit_ok[OF a(2)] by metis
    then have "bb_writable m b n = Some (a', length (data_at m' a'), m')"
      using False a(1) len[OF r(2)] by (simp add: bb_writable_def)
    then show ?thesis by (rule that[of a' m']) (use r False a(3) in auto)
  qed
qed

section \<open>Setting, appending and inserting\<close>

text \<open>
  The bytes a data pointer gives after the block has been made writable: outside bytes, the bytes of
  another live block, or of the object's own as long as it does not move.
\<close>

definition gives :: "smem \<Rightarrow> addr multiset \<Rightarrow> bytebuf \<Rightarrow> nat \<Rightarrow> bsrc \<Rightarrow> byte list \<Rightarrow> bool" where
  "gives m R b need src bs \<longleftrightarrow> (case src of
     Outside d \<Rightarrow> length bs \<le> length d \<and> take (length bs) d = bs
   | Inside x i \<Rightarrow> (x \<in># R \<or> bb_buf b = Some x \<and> need \<le> bb_cap b) \<and> i + length bs \<le> length (data_at m x)
       \<and> take (length bs) (drop i (data_at m x)) = bs)"

lemma read_at: "\<lbrakk>refs_ok m Q; x \<in># Q; i + n \<le> length (data_at m x)\<rbrakk> \<Longrightarrow> sb_read m x i n = Some (take n (drop i (data_at m x)))"
  by (erule refs_ok_obtain, assumption) (simp add: sb_read_def)

lemma gives_bytes:
  assumes "bb_at m R b a v" "gives m R b n src bs"
    and w: "refs_ok m' (add_mset a' R)" "same_data m R m'" "take (length (data_at m a)) (data_at m' a') = data_at m a"
      "a \<notin># R \<Longrightarrow> n \<le> bb_cap b \<Longrightarrow> a' = a"
  shows "src_bytes m' src (length bs) = Some bs"
proof (cases src)
  case (Outside d)
  then show ?thesis using assms(2) by (simp add: gives_def src_bytes_def)
next
  case (Inside x i)
  then have g: "x \<in># R \<or> x = a \<and> n \<le> bb_cap b" "i + length bs \<le> length (data_at m x)"
    "take (length bs) (drop i (data_at m x)) = bs"
    using assms(1,2) by (auto simp: gives_def bb_at_def)
  have "x \<in># add_mset a' R \<and> take (length (data_at m x)) (data_at m' x) = data_at m x"
    using g(1) w(3,4) same_dataD[OF w(2), of x] by (cases "x \<in># R") auto
  then have x: "x \<in># add_mset a' R" "take (length (data_at m x)) (data_at m' x) = data_at m x" by blast+
  then have len: "length (data_at m x) \<le> length (data_at m' x)" by (metis length_take min.cobounded2 nat_le_linear take_all)
  then have "sb_read m' x i (length bs) = Some (take (length bs) (drop i (data_at m' x)))"
    using g(2) by (intro read_at[OF w(1) x(1)]) simp
  also have "take (length bs) (drop i (data_at m' x)) = bs"
  proof -
    have "take (length bs) (drop i (take (length (data_at m x)) (data_at m' x))) = take (length bs) (drop i (data_at m' x))"
      using g(2) by (simp add: drop_take min_def)
    then show ?thesis using x(2) g(3) by simp
  qed
  finally show ?thesis by (simp add: Inside src_bytes_def)
qed

lemma bb_set_ok:
  assumes "bb_at m R b a v" "0 < length bs" "gives m R b (length bs + off') src bs"
    and off': "off' = (if off \<le> length v then off else 0)" and "length bs + off' \<le> size_max"
  shows "\<exists>b' m' a'. bb_set m b (Some src) (length bs) off = Some (length bs, b', m')
    \<and> bb_at m' R b' a' (take off' v @ bs) \<and> same_data m R m'"
proof -
  have v: "bb_size b = length v" "take (length v) (data_at m a) = v" "length v \<le> length (data_at m a)"
    using assms(1) bb_at_size[OF assms(1)] by (auto simp: bb_at_def)
  obtain a' m1 where w: "bb_writable m b (length bs + off') = Some (a', length (data_at m1 a'), m1)"
    "refs_ok m1 (add_mset a' R)" "same_data m R m1" "a' \<notin># R" "length bs + off' \<le> length (data_at m1 a')"
    "take (length (data_at m a)) (data_at m1 a') = data_at m a" "a \<notin># R \<Longrightarrow> length bs + off' \<le> bb_cap b \<Longrightarrow> a' = a"
    by (rule writable_ok[OF assms(1), of "length bs + off'"]) blast
  have src: "src_bytes m1 src (length bs) = Some bs" by (rule gives_bytes[OF assms(1,3) w(2,3,6,7)])
  obtain m2 where m2: "sb_write m1 a' off' bs = Some m2" "refs_ok m2 (add_mset a' R)" "same_data m1 R m2"
    "data_at m2 a' = take off' (data_at m1 a') @ bs @ drop (off' + length bs) (data_at m1 a')"
    using write_ok[OF w(2,4), of off' bs] w(5) by (auto simp: add.commute)
  have "off' \<le> length v" by (simp add: off')
  have "take off' (data_at m1 a') = take off' v"
  proof -
    from \<open>off' \<le> length v\<close> have "take off' (take (length (data_at m a)) (data_at m1 a')) = take off' (data_at m1 a')"
      using v(3) by (simp add: min_def)
    then show ?thesis using w(6) v(2) \<open>off' \<le> length v\<close> by (metis min.absorb1 take_take)
  qed
  moreover have "length (take off' v) = off'" by (simp add: off')
  ultimately have d: "take (length bs + off') (data_at m2 a') = take off' v @ bs" unfolding m2(4) by simp
  have len2: "length (data_at m2 a') = length (data_at m1 a')" unfolding m2(4) using w(5) by simp
  have "bb_at m2 R \<lparr>bb_buf = Some a', bb_size = length bs + off', bb_cap = length (data_at m1 a')\<rparr> a' (take off' v @ bs)"
    using m2(2) len2 w(5) d by (simp add: bb_at_def)
  moreover have "bb_set m b (Some src) (length bs) off =
      Some (length bs, \<lparr>bb_buf = Some a', bb_size = length bs + off', bb_cap = length (data_at m1 a')\<rparr>, m2)"
    using assms(2,5) w(1) src m2(1) unfolding bb_set_def v(1) by (simp add: off'[symmetric])
  ultimately show ?thesis using same_data_trans[OF w(3) m2(3)] by blast
qed

lemma take_prefix: "\<lbrakk>take n d' = d; k \<le> n; n = length d\<rbrakk> \<Longrightarrow> take k d' = take k d"
  by (metis min.absorb1 take_take)

lemma bb_insert_ok:
  assumes "bb_at m R b a v" "gives m R b (length bs + length v) src bs" "off \<le> length v"
    "length bs + length v \<le> size_max"
  shows "\<exists>b' m' a'. bb_insert m b (Some src) (length bs) off = Some (length bs, b', m')
    \<and> bb_at m' R b' a' (take off v @ bs @ drop off v) \<and> same_data m R m'"
proof -
  have v: "bb_size b = length v" "take (length v) (data_at m a) = v" "length v \<le> length (data_at m a)"
    using assms(1) bb_at_size[OF assms(1)] by (auto simp: bb_at_def)
  obtain a' m1 where w: "bb_writable m b (length bs + length v) = Some (a', length (data_at m1 a'), m1)"
    "refs_ok m1 (add_mset a' R)" "same_data m R m1" "a' \<notin># R" "length bs + length v \<le> length (data_at m1 a')"
    "take (length (data_at m a)) (data_at m1 a') = data_at m a" "a \<notin># R \<Longrightarrow> length bs + length v \<le> bb_cap b \<Longrightarrow> a' = a"
    by (rule writable_ok[OF assms(1), of "length bs + length v"]) blast
  let ?d = "data_at m1 a'"
  have src: "src_bytes m1 src (length bs) = Some bs" by (rule gives_bytes[OF assms(1,2) w(2,3,6,7)])
  have old: "take (length v) ?d = v" using take_prefix[OF w(6) v(3)] v(2) by simp
  obtain m2 where m2: "sb_write m1 a' off bs = Some m2" "refs_ok m2 (add_mset a' R)" "same_data m1 R m2"
    "data_at m2 a' = take off ?d @ bs @ drop (off + length bs) ?d"
    using write_ok[OF w(2,4), of off bs] w(5) assms(3) by (auto simp: add.commute)
  have l2: "length (data_at m2 a') = length ?d" unfolding m2(4) using w(5) assms(3) by simp
  have pre: "take off ?d = take off v" using old assms(3) by (metis min.absorb1 take_take)
  obtain m3 where m3: "sb_write m2 a' (off + length bs) (drop off v) = Some m3" "refs_ok m3 (add_mset a' R)"
    "same_data m2 R m3"
    "data_at m3 a' = take (off + length bs) (data_at m2 a') @ drop off v @ drop (off + length bs + length (drop off v)) (data_at m2 a')"
    using write_ok[OF m2(2) w(4), of "off + length bs" "drop off v"] w(5) l2 assms(3) by auto
  have "take (off + length bs) (data_at m2 a') = take off v @ bs"
    unfolding m2(4) pre using assms(3) by simp
  then have d3: "take (length bs + length v) (data_at m3 a') = take off v @ bs @ drop off v"
    unfolding m3(4) using assms(3) by simp
  have l3: "length (data_at m3 a') = length ?d" unfolding m3(4) using l2 w(5) assms(3) by simp
  let ?b = "\<lparr>bb_buf = Some a', bb_size = length bs + length v, bb_cap = length ?d\<rparr>"
  have temp: "sb_read m1 a' off (length v - off) = Some (drop off v)"
  proof -
    have "take (length v - off) (drop off ?d) = drop off v" using old by (metis drop_take)
    then show ?thesis using read_at[OF w(2), of a' off "length v - off"] w(5) assms(3) by simp
  qed
  have "bb_insert m b (Some src) (length bs) off = Some (length bs, ?b, m3)
    \<or> off = length v \<and> bb_insert m b (Some src) (length bs) off = Some (length bs, ?b, m2)"
    using assms(3,4) w(1) src m2(1) m3(1) temp v(1)
    by (cases "off = length v") (simp_all add: bb_insert_def Let_def add.commute)
  moreover have "bb_at m3 R ?b a' (take off v @ bs @ drop off v)"
    using m3(2) l3 w(5) d3 by (simp add: bb_at_def)
  moreover have "off = length v \<Longrightarrow> bb_at m2 R ?b a' (take off v @ bs @ drop off v)"
    using m2(2,4) l2 w(5) pre by (simp add: bb_at_def)
  moreover have "same_data m R m2" "same_data m R m3"
    using same_data_trans[OF w(3) m2(3)] same_data_trans[OF same_data_trans[OF w(3) m2(3)] m3(3)] by blast+
  ultimately show ?thesis by blast
qed

lemma bb_append_ok:
  assumes "bb_at m R b a v" "gives m R b (length bs + length v) src bs" "length bs + length v \<le> size_max"
  shows "\<exists>b' m' a'. bb_append m b (Some src) (length bs) = Some (b', m')
    \<and> bb_at m' R b' a' (v @ bs) \<and> same_data m R m'"
proof (cases "bs = []")
  case True
  then show ?thesis using assms(1) by (auto simp: bb_append_def bb_set_def)
next
  case False
  then obtain b' m' a' where "bb_set m b (Some src) (length bs) (length v) = Some (length bs, b', m')"
    "bb_at m' R b' a' (take (length v) v @ bs)" "same_data m R m'"
    using bb_set_ok[OF assms(1) _ _ refl, of bs "length v" src] assms(2,3) by auto
  then show ?thesis using bb_at_size[OF assms(1)] by (auto simp: bb_append_def)
qed

lemma bb_clear_ok:
  assumes "bb_at m R b a v"
  shows "\<exists>b' m' a'. bb_clear m b = Some (b', m') \<and> bb_at m' R b' a' [] \<and> same_data m R m' \<and> a' \<notin># R"
proof -
  have a: "bb_buf b = Some a" "refs_ok m (add_mset a R)"
    "bb_cap b = length (data_at m a) \<or> bb_cap b = 0 \<and> length (data_at m a) = 1"
    using assms by (auto simp: bb_at_def)
  obtain blk where blk: "m_bufs m a = Some blk"
    using refs_ok_obtain[OF a(2), of a] by (metis union_single_eq_member)
  note own = owner_iff[OF a(2) blk]
  show ?thesis
  proof (cases "a \<in># R")
    case True
    obtain a' m' where r: "sb_edit m a = Some (a', m')" "refs_ok m' (add_mset a' R)" "same_data m R m'" "a' \<notin># R"
      "data_at m' a' = data_at m a" using edit_ok[OF a(2)] by metis
    then show ?thesis
      using a True blk own by (auto simp: bb_clear_def bb_detach_def bb_at_def)
  next
    case False
    then show ?thesis
      using a blk own by (auto simp: bb_clear_def bb_detach_def bb_at_def)
  qed
qed

text \<open>Appending an object to itself when it has to grow: the block is reallocated under the source.\<close>

lemma append_self_dangles:
  assumes "bb_at m R b a v" "a \<notin># R" "v \<noteq> []" "bb_cap b < 2 * length v" "2 * length v \<le> size_max"
  shows "bb_append_buffer m b b = None"
proof -
  have a: "bb_buf b = Some a" "refs_ok m (add_mset a R)" "bb_size b = length v"
    "bb_cap b = length (data_at m a) \<or> bb_cap b = 0 \<and> length (data_at m a) = 1"
    using assms(1) bb_at_size[OF assms(1)] by (auto simp: bb_at_def)
  have vl: "length v \<le> bb_cap b" using assms(1) a(3) by (simp add: bb_at_def)
  have cap: "bb_cap b = length (data_at m a)" using a(4) vl assms(3) by auto
  obtain blk where blk: "m_bufs m a = Some blk" "data_at m a = sb_data blk"
    using refs_ok_obtain[OF a(2), of a] by (metis union_single_eq_member)
  have own: "sb_onlyOwner blk" using owner_iff[OF a(2) blk(1)] assms(2) by simp
  let ?n = "bb_calculate (length v + length v)"
  have n: "length (sb_data blk) < ?n" using calculate_ge(1)[of "length v + length v"] assms(4) cap blk(2) by simp
  obtain a' m1 where r: "sb_editResize m a ?n = Some (a', m1)" "refs_ok m1 (add_mset a' R)"
    using editResize_grow[OF a(2), of ?n] n blk(2) by auto
  have "a' = m_next m"
    using r(1) own n blk(1) by (auto simp: sb_editResize_def sb_alloc_def Let_def bind_eq_Some_iff)
  moreover have "a < m_next m" using refs_ok_bound[OF a(2), of a] by simp
  ultimately have "a \<notin># add_mset a' R" using assms(2) by simp
  then have "m_bufs m1 a = None" using refs_okE[OF r(2), of a] by (cases "m_bufs m1 a") auto
  then have "src_bytes m1 (Inside a 0) (length v) = None" by (simp add: src_bytes_def sb_read_def)
  moreover have "bb_writable m b (length v + length v) = Some (a', length (data_at m1 a'), m1)"
    using a(1) r assms(4) block_size[OF r(2)] by (simp add: bb_writable_def)
  ultimately show ?thesis
    using assms(3,5) a(1,3) by (simp add: bb_append_buffer_def bb_append_def bb_data_def bb_set_def)
qed

end
