(* ===== verification/Stream_Laws.thy ===== *)
theory Stream_Laws
  imports Stream_Ops Buf_Laws
begin

text \<open>
  The bytes a stream holds. \<^verbatim>\<open>stream_at st R s b a v\<close>: the buffer object of \<^verbatim>\<open>s\<close> is \<^verbatim>\<open>b\<close>, with block
  \<^verbatim>\<open>a\<close> and bytes \<^verbatim>\<open>v\<close>, of which those from the read position on are unread. The lemmas show that writing
  appends to the unread bytes and reading takes from their front.
\<close>

section \<open>Representation\<close>

definition stream_at :: "bstate \<Rightarrow> addr multiset \<Rightarrow> bstream \<Rightarrow> bytebuf \<Rightarrow> addr \<Rightarrow> byte list \<Rightarrow> bool" where
  "stream_at st R s b a v \<longleftrightarrow> (\<exists>obj. st_buffer s = Some obj \<and> bs_objs st obj = Some b) \<and> bb_at (bs_mem st) R b a v
     \<and> unat (st_wpos s) = length v \<and> st_rpos s \<le> st_wpos s"

definition unread :: "bstream \<Rightarrow> byte list \<Rightarrow> byte list" where
  "unread s v = drop (unat (st_rpos s)) v"

definition stream_holds :: "bstate \<Rightarrow> addr multiset \<Rightarrow> bstream \<Rightarrow> byte list \<Rightarrow> bool" where
  "stream_holds st R s q \<longleftrightarrow> (\<exists>b a v. stream_at st R s b a v \<and> q = unread s v)"

lemma stream_atE:
  assumes "stream_at st R s b a v"
  obtains obj where "st_buffer s = Some obj" "bs_objs st obj = Some b" "bb_at (bs_mem st) R b a v"
    "unat (st_wpos s) = length v" "unat (st_rpos s) \<le> length v"
  using assms unfolding stream_at_def word_le_nat_alt by (elim exE conjE) (rule that, simp_all)

text \<open>A write that does not fit when everything has been read.\<close>

definition drained_overflow :: "bstream \<Rightarrow> bytebuf \<Rightarrow> nat \<Rightarrow> bool" where
  "drained_overflow s b n \<longleftrightarrow> st_rpos s \<noteq> 0 \<and> st_rpos s = st_wpos s \<and> (of_nat (bb_cap b) :: word32) < st_wpos s + of_nat n"

section \<open>Writing\<close>

lemma unat_add_less: "unat (w :: word32) + n < 2 ^ 32 \<Longrightarrow> unat (w + of_nat n) = unat w + n"
  using unat_word_ariths(1)[of w "of_nat n"] by (simp add: unat_of_nat)

lemma append_bytes:
  assumes "bb_at m R b a v" "length v + length d < 2 ^ 32"
  obtains b' m' a' where "bb_append m b (Some (Outside d)) (length d) = Some (b', m')"
    "bb_at m' R b' a' (v @ d)" "same_data m R m'"
  using bb_append_ok[OF assms(1), of d "Outside d"] assms(2)
  by (auto simp: gives_def size_max_def)

lemma write_keeps:
  assumes "stream_at st R s b a v" "length v + length d < 2 ^ 32" "\<not> drained_overflow s b (length d)"
  shows "\<exists>st' s' b' a' v'. stream_write st s d = Some (Inr (), s', st') \<and> stream_at st' R s' b' a' v'
    \<and> unread s' v' = unread s v @ d \<and> same_data (bs_mem st) R (bs_mem st')
    \<and> length v' \<le> length v + length d \<and> (st_rpos s = 0 \<longrightarrow> st_rpos s' = 0)"
proof -
  obtain obj where o: "st_buffer s = Some obj" "bs_objs st obj = Some b" "bb_at (bs_mem st) R b a v"
    "unat (st_wpos s) = length v" "unat (st_rpos s) \<le> length v"
    using assms(1) by (rule stream_atE)
  let ?compact = "st_rpos s \<noteq> 0 \<and> (of_nat (bb_cap b) :: word32) < st_wpos s + of_nat (length d)"
  show ?thesis
  proof (cases ?compact)
    case False
    obtain b' m' a' where ap: "bb_append (bs_mem st) b (Some (Outside d)) (length d) = Some (b', m')"
      "bb_at m' R b' a' (v @ d)" "same_data (bs_mem st) R m'"
      using append_bytes[OF o(3) assms(2)] .
    let ?s = "s\<lparr>st_wpos := st_wpos s + of_nat (length d)\<rparr>"
    let ?st = "\<lparr>bs_objs = (bs_objs st)(obj \<mapsto> b'), bs_mem = m'\<rparr>"
    have "stream_write st s d = Some (Inr (), ?s, ?st)"
      using o(1,2) ap(1) False by (auto simp: stream_write_def Let_def)
    moreover have "stream_at ?st R ?s b' a' (v @ d)"
      using o ap(2) unat_add_less[of "st_wpos s" "length d"] assms(2) by (simp add: stream_at_def word_le_nat_alt)
    moreover have "unread ?s (v @ d) = unread s v @ d" using o(5) by (simp add: unread_def)
    ultimately show ?thesis using ap(3) by (intro exI[of _ ?st] exI[of _ ?s] exI[of _ b'] exI[of _ a'] exI[of _ "v @ d"]) simp
  next
    case True
    then have "st_rpos s \<noteq> st_wpos s" using assms(3) by (simp add: drained_overflow_def)
    then have less: "unat (st_rpos s) < length v" using o(4,5) by (metis le_neq_implies_less word_unat_eq_iff)
    let ?q = "drop (unat (st_rpos s)) v"
    have cs: "unat (st_wpos s - st_rpos s) = length ?q"
      using o(4,5) by (simp add: unat_sub word_le_nat_alt)
    have ba: "bb_buf b = Some a" "length v \<le> bb_cap b" "take (length v) (data_at (bs_mem st) a) = v"
      "length v \<le> length (data_at (bs_mem st) a)"
      using o(3) bb_at_size[OF o(3)] by (auto simp: bb_at_def)
    have "gives (bs_mem st) R b (length ?q + 0) (Inside a (unat (st_rpos s))) ?q"
    proof -
      have "take (length ?q) (drop (unat (st_rpos s)) (data_at (bs_mem st) a)) = ?q"
        using ba(3) by (metis drop_take length_drop)
      moreover have "length v - unat (st_rpos s) \<le> bb_cap b" using ba(2) by simp
      ultimately show ?thesis using ba less by (simp add: gives_def)
    qed
    moreover have "0 < length ?q" "length ?q + 0 \<le> size_max" "0 = (if 0 \<le> length v then 0 else (0 :: nat))"
      using less assms(2) by (simp_all add: size_max_def)
    ultimately obtain b1 m1 a1 where set: "bb_set (bs_mem st) b (Some (Inside a (unat (st_rpos s)))) (length ?q) 0 = Some (length ?q, b1, m1)"
      "bb_at m1 R b1 a1 ?q" "same_data (bs_mem st) R m1"
      using bb_set_ok[OF o(3), of ?q 0 "Inside a (unat (st_rpos s))" 0] by auto
    have short: "length ?q + length d < 2 ^ 32" using assms(2) by simp
    obtain b' m' a' where ap: "bb_append m1 b1 (Some (Outside d)) (length d) = Some (b', m')"
      "bb_at m' R b' a' (?q @ d)" "same_data m1 R m'"
      using append_bytes[OF set(2) short] .
    let ?s = "s\<lparr>st_rpos := 0, st_wpos := st_wpos s - st_rpos s + of_nat (length d)\<rparr>"
    let ?st = "\<lparr>bs_objs = (bs_objs st)(obj \<mapsto> b'), bs_mem = m'\<rparr>"
    have "stream_write st s d = Some (Inr (), ?s, ?st)"
      using o(1,2) ap(1) set(1) True ba(1) cs by (simp add: stream_write_def stream_compact_def Let_def)
    moreover have "stream_at ?st R ?s b' a' (?q @ d)"
      using o(1) ap(2) unat_add_less[of "st_wpos s - st_rpos s" "length d"] cs short by (simp add: stream_at_def)
    moreover have "unread ?s (?q @ d) = unread s v @ d" by (simp add: unread_def)
    ultimately show ?thesis using same_data_trans[OF set(3) ap(3)] True
      by (intro exI[of _ ?st] exI[of _ ?s] exI[of _ b'] exI[of _ a'] exI[of _ "?q @ d"]) simp
  qed
qed

text \<open>A write after everything has been read that does not fit: the read position moves back over old bytes.\<close>

lemma write_drained:
  assumes "stream_at st R s b a v" "length v + length d < 2 ^ 32" "drained_overflow s b (length d)"
  shows "\<exists>st' s' b' a'. stream_write st s d = Some (Inr (), s', st') \<and> st_buffer s' = st_buffer s
    \<and> (\<exists>obj. st_buffer s' = Some obj \<and> bs_objs st' obj = Some b') \<and> bb_at (bs_mem st') R b' a' (v @ d)
    \<and> st_rpos s' = 0 \<and> unat (st_wpos s') = length d"
proof -
  obtain obj where o: "st_buffer s = Some obj" "bs_objs st obj = Some b" "bb_at (bs_mem st) R b a v"
    "unat (st_wpos s) = length v"
    using assms(1) by (rule stream_atE)
  obtain b' m' a' where ap: "bb_append (bs_mem st) b (Some (Outside d)) (length d) = Some (b', m')"
    "bb_at m' R b' a' (v @ d)" "same_data (bs_mem st) R m'"
    using append_bytes[OF o(3) assms(2)] .
  let ?s = "s\<lparr>st_rpos := 0, st_wpos := of_nat (length d)\<rparr>"
  let ?st = "\<lparr>bs_objs = (bs_objs st)(obj \<mapsto> b'), bs_mem = m'\<rparr>"
  have "bb_buf b = Some a" using o(3) by (simp add: bb_at_def)
  then have "stream_write st s d = Some (Inr (), ?s, ?st)"
    using o(1,2) ap(1) assms(3)
    by (simp add: stream_write_def stream_compact_def bb_set_def Let_def drained_overflow_def)
  then show ?thesis using o(1) ap(2) assms(2)
    by (intro exI[of _ ?st] exI[of _ ?s] exI[of _ b'] exI[of _ a']) (simp add: unat_of_nat)
qed

section \<open>Reading\<close>

lemma read_enough:
  assumes "stream_at st R s b a v" "n \<le> length (unread s v)"
  shows "stream_read st s (of_nat n) = Some (Inr (Some (take n (unread s v))), s\<lparr>st_rpos := st_rpos s + of_nat n\<rparr>, st)
    \<and> stream_at st R (s\<lparr>st_rpos := st_rpos s + of_nat n\<rparr>) b a v
    \<and> unread (s\<lparr>st_rpos := st_rpos s + of_nat n\<rparr>) v = drop n (unread s v)"
proof -
  obtain obj where o: "st_buffer s = Some obj" "bs_objs st obj = Some b" "bb_at (bs_mem st) R b a v"
    "unat (st_wpos s) = length v" "unat (st_rpos s) \<le> length v"
    using assms(1) by (rule stream_atE)
  have n: "unat (st_rpos s) + n \<le> length v" using assms(2) o(5) by (simp add: unread_def)
  have small: "length v < 2 ^ 32" using o(4) unsigned_less[of "st_wpos s", where ?'a = nat] by simp
  then have r: "unat (st_rpos s + of_nat n) = unat (st_rpos s) + n" "unat (of_nat n :: word32) = n"
    using n unat_add_less[of "st_rpos s" n] by (simp_all add: unat_of_nat)
  have ba: "bb_buf b = Some a" "refs_ok (bs_mem st) (add_mset a R)" "take (length v) (data_at (bs_mem st) a) = v"
    "length v \<le> length (data_at (bs_mem st) a)"
    using o(3) bb_at_size[OF o(3)] by (auto simp: bb_at_def)
  have "take n (drop (unat (st_rpos s)) (data_at (bs_mem st) a)) = take n (drop (unat (st_rpos s)) v)"
  proof -
    have "take n (drop (unat (st_rpos s)) (take (length v) (data_at (bs_mem st) a))) =
        take n (drop (unat (st_rpos s)) (data_at (bs_mem st) a))"
      using n by (simp add: drop_take min_def)
    then show ?thesis using ba(3) by simp
  qed
  moreover have "sb_read (bs_mem st) a (unat (st_rpos s)) n =
      Some (take n (drop (unat (st_rpos s)) (data_at (bs_mem st) a)))"
    by (rule read_at[OF ba(2)]) (use n ba(4) in simp_all)
  ultimately have "stream_read st s (of_nat n) =
      Some (Inr (Some (take n (unread s v))), s\<lparr>st_rpos := st_rpos s + of_nat n\<rparr>, st)"
    using o(1,2,4) r ba(1) n by (simp add: stream_read_def Let_def unread_def word_le_nat_alt)
  moreover have "stream_at st R (s\<lparr>st_rpos := st_rpos s + of_nat n\<rparr>) b a v"
    using o r(1) n by (simp add: stream_at_def word_le_nat_alt)
  moreover have "unread (s\<lparr>st_rpos := st_rpos s + of_nat n\<rparr>) v = drop n (unread s v)"
    using r(1) by (simp add: unread_def add.commute)
  ultimately show ?thesis by blast
qed

lemma read_short:
  assumes "stream_at st R s b a v" "length (unread s v) < n" "unat (st_rpos s) + n < 2 ^ 32"
  shows "stream_read st s (of_nat n) = Some (Inr None, s, st)"
proof -
  obtain obj where o: "st_buffer s = Some obj" "unat (st_wpos s) = length v" "unat (st_rpos s) \<le> length v"
    using assms(1) by (rule stream_atE)
  have "unat (st_rpos s + of_nat n) = unat (st_rpos s) + n" using unat_add_less[OF assms(3)] .
  moreover have "length v < unat (st_rpos s) + n" using assms(2) o(3) by (simp add: unread_def)
  ultimately have "\<not> st_rpos s + of_nat n \<le> st_wpos s" using o(2) by (simp add: word_le_nat_alt)
  then show ?thesis using o(1) by (simp add: stream_read_def Let_def)
qed

section \<open>Values\<close>

lemma word_bytes_Suc: "word_bytes (Suc n) w = ucast w # word_bytes n (drop_bit 8 w)"
proof -
  have "word_bytes (Suc n) w = ucast (drop_bit 0 w) # map (\<lambda>i. ucast (drop_bit (8 * Suc i) w)) [0..<n]"
    unfolding word_bytes_def upt_conv_Cons[OF zero_less_Suc] map_Suc_upt[symmetric] by (simp add: comp_def)
  then show ?thesis by (simp add: word_bytes_def add.commute)
qed

lemma bytes_word_bytes: "bytes_word (word_bytes n w) = take_bit (8 * n) w"
proof (induction n arbitrary: w)
  case 0
  then show ?case by (simp add: word_bytes_def bytes_word_def)
next
  case (Suc n)
  have "bytes_word (word_bytes (Suc n) w) = ucast (ucast w :: byte) OR push_bit 8 (take_bit (8 * n) (drop_bit 8 w))"
    using Suc by (simp add: word_bytes_Suc bytes_word_def)
  also have "\<dots> = take_bit (8 * Suc n) w"
    by (rule bit_word_eqI) (auto simp: bit_or_iff bit_push_bit_iff bit_take_bit_iff bit_drop_bit_eq bit_ucast_iff)
  finally show ?case .
qed

lemma word_back: "LENGTH('a) \<le> 8 * n \<Longrightarrow> bytes_word (word_bytes n w) = (w :: 'a::len word)"
  by (simp add: bytes_word_bytes take_bit_word_eq_self)

lemma length_word_bytes [simp]: "length (word_bytes n w) = n"
  by (simp add: word_bytes_def)

text \<open>
  The type of variable a value is read into; a string variable holds \<^verbatim>\<open>w\<close> before, and afterwards \<^verbatim>\<open>w\<close> with
  the characters read behind it. The other types are overwritten.
\<close>

fun kind_of :: "byte list \<Rightarrow> item \<Rightarrow> kind" where
  "kind_of w (Bool_item _) = Bool_kind" | "kind_of w (Int8_item _) = Int8_kind" | "kind_of w (UInt8_item _) = UInt8_kind"
| "kind_of w (WChar_item _) = WChar_kind" | "kind_of w (Int16_item _) = Int16_kind" | "kind_of w (UInt16_item _) = UInt16_kind"
| "kind_of w (Float_item _) = Float_kind" | "kind_of w (Int32_item _) = Int32_kind" | "kind_of w (UInt32_item _) = UInt32_kind"
| "kind_of w (Double_item _) = Double_kind" | "kind_of w (Int64_item _) = Int64_kind" | "kind_of w (UInt64_item _) = UInt64_kind"
| "kind_of w (String_item _) = String_kind w"

fun read_behind :: "byte list \<Rightarrow> item \<Rightarrow> item" where
  "read_behind w (String_item s) = String_item (w @ s)"
| "read_behind w x = x"

lemma read_behind_Nil [simp]: "read_behind [] x = x"
  by (cases x) simp_all

abbreviation kind_number :: "kind \<Rightarrow> bool" where
  "kind_number k \<equiv> \<forall>c. k \<noteq> String_kind c"

text \<open>What comes back as it was: strings must be non-empty C strings.\<close>

fun storable :: "item \<Rightarrow> bool" where
  "storable (String_item s) = (s \<noteq> [] \<and> 0 \<notin> set s)"
| "storable _ = True"

lemma decode_item_bytes:
  assumes "\<forall>c. kind_of w x \<noteq> String_kind c"
  shows "decode_item (kind_of w x) (item_bytes x) = Some x \<and> length (item_bytes x) = kind_size (kind_of w x)
    \<and> read_behind w x = x"
  using assms by (cases x) (simp_all add: word_back)

text \<open>The loop for strings: the characters up to the terminator, or everything and an exception.\<close>

lemma string_loop_found:
  "\<lbrakk>stream_at st R s b a v; unread s v = str @ 0 # q; 0 \<notin> set str\<rbrakk> \<Longrightarrow>
    \<exists>s'. string_loop st s temp = Some (Inr (temp @ str @ [0]), s', st) \<and> stream_at st R s' b a v \<and> unread s' v = q"
proof (induction str arbitrary: s temp)
  case Nil
  have "1 \<le> length (unread s v)" using Nil(2) by simp
  note r = read_enough[OF Nil(1) this]
  then show ?case using Nil(2) by (subst string_loop.simps) auto
next
  case (Cons c str)
  have "1 \<le> length (unread s v)" using Cons.prems(2) by simp
  note r = read_enough[OF Cons.prems(1) this]
  let ?s = "s\<lparr>st_rpos := st_rpos s + of_nat 1\<rparr>"
  have "unread ?s v = str @ 0 # q" "c \<noteq> 0" "0 \<notin> set str" using r Cons.prems(2,3) by auto
  then obtain s' where "string_loop st ?s (temp @ [c]) = Some (Inr ((temp @ [c]) @ str @ [0]), s', st)"
    "stream_at st R s' b a v" "unread s' v = q"
    using Cons.IH[of ?s "temp @ [c]"] r by blast
  then show ?case using r Cons.prems(2) \<open>c \<noteq> 0\<close> by (subst string_loop.simps) auto
qed

lemma string_loop_missing:
  "\<lbrakk>stream_at st R s b a v; 0 \<notin> set (unread s v); length v + 1 < 2 ^ 32\<rbrakk> \<Longrightarrow>
    \<exists>s'. string_loop st s temp = Some (Inl Read_error, s', st) \<and> stream_at st R s' b a v \<and> unread s' v = []"
proof (induction "unread s v" arbitrary: s temp)
  case Nil
  have "unat (st_rpos s) + 1 < 2 ^ 32" using Nil(2,4) by (elim stream_atE) simp
  then have "stream_read st s (of_nat 1) = Some (Inr None, s, st)" using read_short[OF Nil(2), of 1] Nil(1) by simp
  then show ?case using Nil(1,2) by (subst string_loop.simps) auto
next
  case (Cons c str)
  have "1 \<le> length (unread s v)" using Cons(2)[symmetric] by simp
  note r = read_enough[OF Cons(3) this]
  let ?s = "s\<lparr>st_rpos := st_rpos s + of_nat 1\<rparr>"
  have u: "unread ?s v = str" using r Cons(2)[symmetric] by auto
  moreover have "c \<noteq> 0" "0 \<notin> set str" using Cons(4) Cons(2)[symmetric] by auto
  ultimately obtain s' where "string_loop st ?s (temp @ [c]) = Some (Inl Read_error, s', st)"
    "stream_at st R s' b a v" "unread s' v = []"
    using Cons(1)[of ?s "temp @ [c]"] r Cons(5) by auto
  then show ?case using r Cons(2)[symmetric] \<open>c \<noteq> 0\<close> by (subst string_loop.simps) auto
qed

lemma get_item:
  assumes "stream_at st R s b a v" "unread s v = item_bytes x @ q" "storable x"
  shows "\<exists>s'. stream_get st s (kind_of w x) = Some (Inr (read_behind w x), s', st) \<and> stream_at st R s' b a v
    \<and> unread s' v = q"
proof (cases "\<exists>str. x = String_item str")
  case True
  then obtain str where x: "x = String_item str" by blast
  have "unread s v = str @ 0 # q" "0 \<notin> set str" using assms(2,3) by (simp_all add: x)
  then obtain s' where "string_loop st s w = Some (Inr (w @ str @ [0]), s', st)" "stream_at st R s' b a v" "unread s' v = q"
    using string_loop_found[OF assms(1)] by blast
  moreover have "st_buffer s \<noteq> None" using assms(1) by (elim stream_atE) simp
  ultimately show ?thesis by (simp add: x stream_get_def)
next
  case False
  then have k: "\<forall>c. kind_of w x \<noteq> String_kind c" by (cases x) auto
  note d = decode_item_bytes[OF k]
  have "kind_size (kind_of w x) \<le> length (unread s v)" using assms(2) d by simp
  note r = read_enough[OF assms(1) this]
  moreover have "take (kind_size (kind_of w x)) (unread s v) = item_bytes x" "drop (kind_size (kind_of w x)) (unread s v) = q"
    using assms(2) d by simp_all
  ultimately show ?thesis
    using d k by (cases "kind_of w x") (simp_all add: stream_get_def)
qed

lemma gets_items:
  "\<lbrakk>stream_at st R s b a v; unread s v = concat (map item_bytes xs) @ q; \<forall>x \<in> set xs. storable x;
    length ws = length xs\<rbrakk> \<Longrightarrow>
    \<exists>s'. stream_gets st s (map2 kind_of ws xs) = Some (Inr (map2 read_behind ws xs), s', st)
      \<and> stream_at st R s' b a v \<and> unread s' v = q"
proof (induction xs arbitrary: s ws)
  case (Cons x xs)
  then obtain w ws' where ws: "ws = w # ws'" "length ws' = length xs" by (cases ws) auto
  obtain s1 where 1: "stream_get st s (kind_of w x) = Some (Inr (read_behind w x), s1, st)" "stream_at st R s1 b a v"
    "unread s1 v = concat (map item_bytes xs) @ q"
    using get_item[OF Cons.prems(1), of x "concat (map item_bytes xs) @ q"] Cons.prems(2,3) by auto
  then show ?case using Cons.IH[OF 1(2,3) _ ws(2)] Cons.prems(3) by (auto simp: ws)
qed auto

lemma puts_items:
  "\<lbrakk>stream_at st R s b a v; st_rpos s = 0; length v + length (concat (map item_bytes xs)) < 2 ^ 32;
    \<forall>x \<in> set xs. storable x\<rbrakk> \<Longrightarrow>
    \<exists>st' s' b' a' v'. stream_puts st s xs = Some (Inr (), s', st') \<and> stream_at st' R s' b' a' v' \<and> st_rpos s' = 0
      \<and> unread s' v' = unread s v @ concat (map item_bytes xs) \<and> same_data (bs_mem st) R (bs_mem st')"
proof (induction xs arbitrary: st s b a v)
  case Nil
  then show ?case by auto
next
  case (Cons x xs)
  have "\<not> drained_overflow s b (length (item_bytes x))" using Cons.prems(2) by (simp add: drained_overflow_def)
  then obtain st1 s1 b1 a1 v1 where 1: "stream_write st s (item_bytes x) = Some (Inr (), s1, st1)" "stream_at st1 R s1 b1 a1 v1"
    "unread s1 v1 = unread s v @ item_bytes x" "same_data (bs_mem st) R (bs_mem st1)"
    "length v1 \<le> length v + length (item_bytes x)" "st_rpos s1 = 0"
    using write_keeps[OF Cons.prems(1), of "item_bytes x"] Cons.prems(2,3) by auto
  have "x \<noteq> String_item []" using Cons.prems(4) by auto
  then have put: "stream_put st s x = Some (Inr (), s1, st1)" using 1(1) by (simp add: stream_put_def)
  have "length v1 + length (concat (map item_bytes xs)) < 2 ^ 32" using 1(5) Cons.prems(3) by simp
  then obtain st' s' b' a' v' where 2: "stream_puts st1 s1 xs = Some (Inr (), s', st')" "stream_at st' R s' b' a' v'"
    "st_rpos s' = 0" "unread s' v' = unread s1 v1 @ concat (map item_bytes xs)" "same_data (bs_mem st1) R (bs_mem st')"
    using Cons.IH[OF 1(2,6)] Cons.prems(4) by auto
  have "stream_puts st s (x # xs) = Some (Inr (), s', st')" using put 2(1) by simp
  then show ?case using 2(2-4) 1(3) same_data_trans[OF 1(4) 2(5)] by auto
qed

end
