(* ===== verification/Buf_Spec.thy ===== *)
theory Buf_Spec
  imports Stream_Laws
begin

text \<open>What \<^verbatim>\<open>ByteBuffer\<close> and \<^verbatim>\<open>BufferStream\<close> guarantee, and where the code departs from it.\<close>

section \<open>A small memory for the examples\<close>

definition bmem :: smem where
  "bmem = \<lparr>m_bufs = [0 \<mapsto> \<lparr>sb_refs = 1, sb_data = [0]\<rparr>, 1 \<mapsto> \<lparr>sb_refs = 1, sb_data = [7, 8, 9, 5]\<rparr>],
     m_next = 2, m_junk = (\<lambda>_ _. 255)\<rparr>"

definition buf1 :: "nat \<Rightarrow> bytebuf" where
  "buf1 n = \<lparr>bb_buf = Some 1, bb_size = n, bb_cap = 4\<rparr>"

definition state1 :: "nat \<Rightarrow> bstate" where
  "state1 n = \<lparr>bs_objs = [0 \<mapsto> buf1 n], bs_mem = bmem\<rparr>"

lemma buf1_at: "n \<le> 4 \<Longrightarrow> bb_at bmem {#0#} (buf1 n) 1 (take n [7, 8, 9, 5])"
  by (auto simp: bb_at_def buf1_def bmem_def refs_ok_def data_at_def split: if_splits)

lemma stream1_at:
  "\<lbrakk>n \<le> 4; unat r \<le> n\<rbrakk> \<Longrightarrow> stream_at (state1 n) {#0#} \<lparr>st_buffer = Some 0, st_rpos = r, st_wpos = of_nat n\<rparr> (buf1 n) 1 (take n [7, 8, 9, 5])"
  using buf1_at[of n] by (simp add: stream_at_def state1_def word_le_nat_alt unat_of_nat)

section \<open>Byte buffers\<close>

text \<open>C30: Given at least one byte, with fewer than \<^verbatim>\<open>2^52\<close> in all and memory enough, \<^verbatim>\<open>set\<close> keeps the
  bytes before the offset and puts the new ones there, as the last ones (an offset past the end means 0);
  \<^verbatim>\<open>append\<close> puts them at the end, \<^verbatim>\<open>insert\<close> in the middle. Each detaches from other objects or grows the
  block when it has to, and no other object that shares a block changes. The new bytes may lie outside every
  block, in a block that another object holds, or in the object's own block if that has room for the old
  and the new bytes together. They must not lie in the object's own block when it has to grow: the code then
  reads them from the freed block.\<close>

theorem buffer_edits:
  assumes b: "bb_at m R b a v" and bs: "bs \<noteq> []" "length bs + length v < 2 ^ 52"
    and src: "gives m R b (length bs + length v) src bs"
  shows "(\<exists>b' m' a'. bb_set m b (Some src) (length bs) off = Some (length bs, b', m') \<and> same_data m R m'
      \<and> bb_at m' R b' a' (if off \<le> length v then take off v @ bs else bs))
    \<and> (\<exists>b' m' a'. bb_append m b (Some src) (length bs) = Some (b', m') \<and> same_data m R m' \<and> bb_at m' R b' a' (v @ bs))
    \<and> (if off \<le> length v
       then \<exists>b' m' a'. bb_insert m b (Some src) (length bs) off = Some (length bs, b', m') \<and> same_data m R m'
         \<and> bb_at m' R b' a' (take off v @ bs @ drop off v)
       else bb_insert m b (Some src) (length bs) off = Some (0, b, m))"
proof -
  have l: "0 < length bs" "length bs + length v \<le> size_max" using bs by (simp_all add: size_max_def)
  have g: "gives m R b (length bs + k) src bs" if "k \<le> length v" for k
    using src that by (auto simp: gives_def split: bsrc.splits)
  have "\<exists>b' m' a'. bb_set m b (Some src) (length bs) off = Some (length bs, b', m') \<and> same_data m R m'
      \<and> bb_at m' R b' a' (if off \<le> length v then take off v @ bs else bs)"
    using bb_set_ok[OF b l(1) g refl, of off] l(2) by (cases "off \<le> length v") auto
  moreover have "\<exists>b' m' a'. bb_append m b (Some src) (length bs) = Some (b', m') \<and> same_data m R m' \<and> bb_at m' R b' a' (v @ bs)"
    using bb_append_ok[OF b src l(2)] by blast
  moreover have "off \<le> length v \<Longrightarrow> \<exists>b' m' a'. bb_insert m b (Some src) (length bs) off = Some (length bs, b', m')
      \<and> same_data m R m' \<and> bb_at m' R b' a' (take off v @ bs @ drop off v)"
    using bb_insert_ok[OF b src _ l(2)] by blast
  moreover have "\<not> off \<le> length v \<Longrightarrow> bb_insert m b (Some src) (length bs) off = Some (0, b, m)"
    using bb_at_size[OF b] by (simp add: bb_insert_def)
  ultimately show ?thesis by simp
qed

theorem buffer_edits_witness:
  "\<exists>b' m' a' b2 m2 a2. bb_insert bmem (buf1 3) (Some (Outside [1, 2])) 2 1 = Some (2, b', m')
    \<and> same_data bmem {#0#} m' \<and> bb_at m' {#0#} b' a' [7, 1, 2, 8, 9]
    \<and> bb_append bmem (buf1 2) (Some (Inside 1 0)) 2 = Some (b2, m2) \<and> bb_at m2 {#0#} b2 a2 [7, 8, 7, 8]"
proof -
  let ?d = "[1, 2 :: byte]" and ?v = "[7, 8 :: byte]" and ?w = "[7, 8, 9 :: byte]"
  have at: "bb_at bmem {#0#} (buf1 3) 1 ?w" "bb_at bmem {#0#} (buf1 2) 1 ?v"
    using buf1_at[of 3] buf1_at[of 2] by simp_all
  have src: "gives bmem {#0#} (buf1 3) (length ?d + length ?w) (Outside ?d) ?d"
    "gives bmem {#0#} (buf1 2) (length ?v + length ?v) (Inside 1 0) ?v"
    by (simp_all add: gives_def buf1_def bmem_def data_at_def)
  have len: "?d \<noteq> []" "?v \<noteq> []" "length ?d + length ?w < 2 ^ 52" "length ?v + length ?v < 2 ^ 52" by simp_all
  show ?thesis
    using buffer_edits[OF at(1) len(1,3) src(1), of 1] buffer_edits[OF at(2) len(2,4) src(2), of 0]
    by (simp add: numeral_2_eq_2) blast
qed

section \<open>Streams\<close>

text \<open>C29: Values of every type written to an empty stream one after another and read back with the same
  sequence of types: numbers and booleans come back as they were, whatever the variables held before; a string
  is appended to what its variable held before, so it comes back as written exactly when that was empty. The
  strings written are non-empty and without embedded terminators, and everything takes less than 4 GiB.\<close>

theorem stream_round_trip:
  assumes "stream_at st R s b a []" "\<forall>x \<in> set xs. storable x" "length (concat (map item_bytes xs)) < 2 ^ 32"
    "length olds = length xs"
  shows "\<exists>st' s' s''. stream_puts st s xs = Some (Inr (), s', st')
    \<and> stream_gets st' s' (map2 kind_of olds xs) = Some (Inr (map2 read_behind olds xs), s'', st')
    \<and> same_data (bs_mem st) R (bs_mem st')"
proof -
  have "st_rpos s = 0" using assms(1) by (elim stream_atE) (simp add: unat_eq_0)
  then obtain st' s' b' a' v' where p: "stream_puts st s xs = Some (Inr (), s', st')" "stream_at st' R s' b' a' v'"
    "unread s' v' = unread s [] @ concat (map item_bytes xs)" "same_data (bs_mem st) R (bs_mem st')"
    using puts_items[OF assms(1) _ _ assms(2)] assms(3) by auto
  have "unread s' v' = concat (map item_bytes xs) @ []" using p(3) by (simp add: unread_def)
  then show ?thesis using gets_items[OF p(2) _ assms(2,4)] p(1,4) by blast
qed

theorem stream_round_trip_witness:
  "\<exists>st' s' s''. stream_puts (state1 0) \<lparr>st_buffer = Some 0, st_rpos = 0, st_wpos = 0\<rparr>
        [Int16_item 300, String_item [104, 105], Bool_item True, String_item [33]] = Some (Inr (), s', st')
    \<and> stream_gets st' s' [Int16_kind, String_kind [], Bool_kind, String_kind [104]]
      = Some (Inr [Int16_item 300, String_item [104, 105], Bool_item True, String_item [104, 33]], s'', st')"
  using stream_round_trip[of "state1 0" "{#0#}" "\<lparr>st_buffer = Some 0, st_rpos = 0, st_wpos = 0\<rparr>" "buf1 0" 1
      "[Int16_item 300, String_item [104, 105], Bool_item True, String_item [33]]" "[[], [], [], [104]]"] stream1_at[of 0 0]
  by auto

text \<open>C31: As long as the contents and the new data together stay below 4 GiB (the positions have 32 bits
  and wrap beyond), writing keeps first-in-first-out order in the middle of a run too, moving the unread bytes
  to the front when the block is full: the unread bytes are the old ones followed by the new ones. Within
  that bound there is one exception: when everything has been read and the write does not fit, the next read
  does not return what was written but the oldest bytes of the buffer.\<close>

theorem stream_fifo:
  assumes s: "stream_at st R s b a v" and n: "length v + length d < 2 ^ 32"
  shows "if drained_overflow s b (length d)
    then \<exists>st' s' r. stream_write st s d = Some (Inr (), s', st')
      \<and> stream_read st' s' (of_nat (length d)) = Some (Inr (Some (take (length d) (v @ d))), r, st')
    else \<exists>st' s' b' a' v'. stream_write st s d = Some (Inr (), s', st') \<and> stream_at st' R s' b' a' v'
      \<and> unread s' v' = unread s v @ d \<and> same_data (bs_mem st) R (bs_mem st')"
proof (cases "drained_overflow s b (length d)")
  case False
  then show ?thesis using write_keeps[OF s n False] by (simp only: if_False) blast
next
  case True
  obtain st' s' b' a' obj where w: "stream_write st s d = Some (Inr (), s', st')" "st_buffer s' = Some obj"
    "bs_objs st' obj = Some b'" "bb_at (bs_mem st') R b' a' (v @ d)" "st_rpos s' = 0" "unat (st_wpos s') = length d"
    using write_drained[OF s n True] by blast
  have a: "bb_buf b' = Some a'" "refs_ok (bs_mem st') (add_mset a' R)"
    "take (length (v @ d)) (data_at (bs_mem st') a') = v @ d" "length (v @ d) \<le> length (data_at (bs_mem st') a')"
    using w(4) bb_at_size[OF w(4)] by (auto simp: bb_at_def)
  have len: "unat (of_nat (length d) :: word32) = length d" using n by (simp add: unat_of_nat)
  have "sb_read (bs_mem st') a' 0 (length d) = Some (take (length d) (v @ d))"
    using read_at[OF a(2), of a' 0 "length d"] a(4) take_prefix[OF a(3), of "length d"] by simp
  then have "stream_read st' s' (of_nat (length d)) =
      Some (Inr (Some (take (length d) (v @ d))), s'\<lparr>st_rpos := of_nat (length d)\<rparr>, st')"
    using w(2,3,5,6) a(1) len by (simp add: stream_read_def Let_def word_le_nat_alt)
  then show ?thesis using True w(1) by auto
qed

theorem stream_fifo_witness:
  "\<exists>st' s' r. stream_write (state1 4) \<lparr>st_buffer = Some 0, st_rpos = 4, st_wpos = 4\<rparr> [1, 2] = Some (Inr (), s', st')
    \<and> stream_read st' s' 2 = Some (Inr (Some [7, 8]), r, st')"
proof -
  have "drained_overflow \<lparr>st_buffer = Some 0, st_rpos = 4, st_wpos = 4\<rparr> (buf1 4) (Suc (Suc 0))"
    by (simp add: drained_overflow_def buf1_def)
  then show ?thesis
    using stream_fifo[of "state1 4" "{#0#}" "\<lparr>st_buffer = Some 0, st_rpos = 4, st_wpos = 4\<rparr>" "buf1 4" 1 "[7, 8, 9, 5]" "[1, 2]"]
      stream1_at[of 4 4] by simp
qed

text \<open>Reading errors are exceptions: a number that is not complete is refused and nothing is consumed;
  a string without its terminator is refused after all unread bytes have been consumed; a stream
  without a buffer refuses everything.\<close>

theorem stream_get_errors:
  assumes s: "stream_at st R s b a v" and n: "length v + 8 < 2 ^ 32"
  shows "(kind_number k \<and> length (unread s v) < kind_size k \<longrightarrow> stream_get st s k = Some (Inl Read_error, s, st))
    \<and> (0 \<notin> set (unread s v) \<longrightarrow> (\<exists>s'. stream_get st s (String_kind cur) = Some (Inl Read_error, s', st)
        \<and> stream_at st R s' b a v \<and> unread s' v = []))
    \<and> stream_get st stream_new k = Some (Inl Invalid_call, stream_new, st)"
proof (intro conjI impI)
  have r: "unat (st_rpos s) \<le> length v" using s by (rule stream_atE)
  show "stream_get st s k = Some (Inl Read_error, s, st)" if k: "kind_number k \<and> length (unread s v) < kind_size k"
  proof -
    have "kind_size k \<le> 8" by (cases k) simp_all
    then have "stream_read st s (of_nat (kind_size k)) = Some (Inr None, s, st)"
      using read_short[OF s] k n r by simp
    then show ?thesis using k by (cases k) (simp_all add: stream_get_def)
  qed
  show "\<exists>s'. stream_get st s (String_kind cur) = Some (Inl Read_error, s', st)
      \<and> stream_at st R s' b a v \<and> unread s' v = []" if z: "0 \<notin> set (unread s v)"
  proof -
    obtain s' where "string_loop st s cur = Some (Inl Read_error, s', st)" "stream_at st R s' b a v" "unread s' v = []"
      using string_loop_missing[OF s z] n by fastforce
    moreover have "st_buffer s \<noteq> None" using s by (elim stream_atE) simp
    ultimately show ?thesis by (simp add: stream_get_def)
  qed
  show "stream_get st stream_new k = Some (Inl Invalid_call, stream_new, st)"
    by (cases k) (simp_all add: stream_get_def stream_new_def stream_read_def)
qed

theorem stream_get_errors_witness:
  "stream_get (state1 3) \<lparr>st_buffer = Some 0, st_rpos = 0, st_wpos = 3\<rparr> Int32_kind
    = Some (Inl Read_error, \<lparr>st_buffer = Some 0, st_rpos = 0, st_wpos = 3\<rparr>, state1 3)"
  using stream_get_errors[of "state1 3" "{#0#}" "\<lparr>st_buffer = Some 0, st_rpos = 0, st_wpos = 3\<rparr>" "buf1 3" 1 "[7, 8, 9]" Int32_kind]
    stream1_at[of 3 0] by (simp add: unread_def)

end
