(* ===== verification/Timer_Ops.thy ===== *)
theory Timer_Ops
  imports Prelude
begin

unbundle bit_operations_syntax

text \<open>
  Timers and their manager, \<^verbatim>\<open>src/utils/src/timer.cpp\<close> and \<^verbatim>\<open>src/utils/include/utils/timer.h\<close>. The worker
  thread is a program counter over the statements of \<^verbatim>\<open>threadWorkFunction\<close>; one step is what it does
  between two points where another thread can see a difference. The other threads, and the callbacks,
  call the public functions at any time: each holds the lock for its whole body and is one event. The
  semaphore is a number, the clock a number of milliseconds that is read modulo \<^term>\<open>2 ^ 64 :: nat\<close>, and a
  callback is a number that stands for a function object.
\<close>

section \<open>Timers\<close>

record timer =
  mTime :: "64 word"
  mRecycleTime :: "64 word"
  mCb :: "nat option"
  mUniqueId :: "64 word"

text \<open>\<^verbatim>\<open>now\<close> is the clock; the count of timers is incremented before it is used.\<close>

definition getCurrentTime :: "nat \<Rightarrow> 64 word" where
  "getCurrentTime clk = of_nat clk"

definition timer_new :: "64 word \<Rightarrow> nat \<Rightarrow> 64 word \<Rightarrow> nat option \<Rightarrow> 32 word \<Rightarrow> timer \<times> 64 word" where
  "timer_new gTimerCount clk ms cb recycle =
    (let c = gTimerCount + 1 in
     (\<lparr>mTime = getCurrentTime clk + ms, mRecycleTime = ucast recycle, mCb = cb, mUniqueId = c\<rparr>, c))"

definition timer_copy :: "timer \<Rightarrow> timer" where
  "timer_copy t = \<lparr>mTime = mTime t, mRecycleTime = mRecycleTime t, mCb = mCb t, mUniqueId = mUniqueId t\<rparr>"

definition timer_assign :: "timer \<Rightarrow> timer \<Rightarrow> timer" where
  "timer_assign t u = t\<lparr>mUniqueId := mUniqueId u, mTime := mTime u, mRecycleTime := mRecycleTime u, mCb := mCb u\<rparr>"

definition setNextTime :: "timer \<Rightarrow> 64 word \<Rightarrow> timer" where "setNextTime t ms = t\<lparr>mTime := ms\<rparr>"
definition setCallback :: "timer \<Rightarrow> nat option \<Rightarrow> timer" where "setCallback t cb = t\<lparr>mCb := cb\<rparr>"
definition setRecycleTime :: "timer \<Rightarrow> 64 word \<Rightarrow> timer" where "setRecycleTime t ms = t\<lparr>mRecycleTime := ms\<rparr>"

definition timer_cancel :: "timer \<Rightarrow> timer" where
  "timer_cancel t = t\<lparr>mCb := None\<rparr>"

definition timer_refresh :: "timer \<Rightarrow> nat \<Rightarrow> timer" where
  "timer_refresh t clk = (if 0 < mRecycleTime t then t\<lparr>mTime := getCurrentTime clk + mRecycleTime t\<rparr> else t)"

definition timer_reset :: "timer \<Rightarrow> nat \<Rightarrow> 64 word \<Rightarrow> nat option \<Rightarrow> 32 word \<Rightarrow> timer" where
  "timer_reset t clk ms cb recycle = t\<lparr>mTime := getCurrentTime clk + ms, mCb := cb, mRecycleTime := ucast recycle\<rparr>"

text \<open>The order of the set: null pointers first, then the time, then the number.\<close>

definition timer_less :: "timer option \<Rightarrow> timer option \<Rightarrow> bool" where
  "timer_less l r = (case l of
     None \<Rightarrow> r \<noteq> None
   | Some l \<Rightarrow> (case r of
       None \<Rightarrow> False
     | Some r \<Rightarrow> if mTime l = mTime r then mUniqueId l < mUniqueId r else mTime l < mTime r))"

section \<open>The manager\<close>

text \<open>The set of timers is the list of its elements in order.\<close>

record manager =
  mSignal :: nat
  mShouldExit :: bool
  mExpireTimerVec :: "timer list"
  mTimers :: "timer list"

definition manager_new :: manager where
  "manager_new = \<lparr>mSignal = 0, mShouldExit = False, mExpireTimerVec = [], mTimers = []\<rparr>"

text \<open>\<^verbatim>\<open>std::set::insert\<close>: the new set, and whether the element was inserted.\<close>

fun set_insert :: "timer \<Rightarrow> timer list \<Rightarrow> timer list \<times> bool" where
  "set_insert t [] = ([t], True)"
| "set_insert t (u # us) =
    (if timer_less (Some t) (Some u) then (t # u # us, True)
     else if timer_less (Some u) (Some t) then (let (vs, b) = set_insert t us in (u # vs, b))
     else (u # us, False))"

definition addTimer :: "manager \<Rightarrow> 64 word \<Rightarrow> nat \<Rightarrow> 64 word \<Rightarrow> nat option \<Rightarrow> 32 word \<Rightarrow> 64 word \<times> manager \<times> 64 word" where
  "addTimer m gTimerCount clk ms cb recycle =
    (let (t, c) = timer_new gTimerCount clk ms cb recycle; (ts, inserted) = set_insert t (mTimers m) in
     if inserted
     then (mUniqueId t,
       m\<lparr>mTimers := ts, mSignal := (if length ts = 1 then mSignal m + 1 else mSignal m)\<rparr>, c)
     else (0, m, c))"

text \<open>The other \<^verbatim>\<open>addTimer\<close>, for a timer that exists already.\<close>

definition addTimer_again :: "manager \<Rightarrow> timer option \<Rightarrow> manager" where
  "addTimer_again m t = (case t of None \<Rightarrow> m | Some t \<Rightarrow> m\<lparr>mTimers := fst (set_insert t (mTimers m))\<rparr>)"

fun del_loop :: "64 word \<Rightarrow> timer list \<Rightarrow> timer list \<times> bool" where
  "del_loop uniqueId [] = ([], False)"
| "del_loop uniqueId (t # ts) =
    (if mUniqueId t = uniqueId then (ts, True) else (let (us, b) = del_loop uniqueId ts in (t # us, b)))"

definition delTimer :: "manager \<Rightarrow> 64 word \<Rightarrow> bool \<times> manager" where
  "delTimer m uniqueId = (let (ts, flag) = del_loop uniqueId (mTimers m) in (flag, m\<lparr>mTimers := ts\<rparr>))"

definition stopTimer :: "manager \<Rightarrow> manager" where
  "stopTimer m = m\<lparr>mSignal := mSignal m + 1, mShouldExit := True\<rparr>"

text \<open>The loop of \<^verbatim>\<open>ListExpireTimer\<close>: the expired timers and the ones that stay.\<close>

fun expire_loop :: "64 word \<Rightarrow> timer list \<Rightarrow> timer list \<times> timer list" where
  "expire_loop currTimeMs [] = ([], [])"
| "expire_loop currTimeMs (t # ts) =
    (let (es, us) = expire_loop currTimeMs ts in
     if mTime t < currTimeMs then (t # es, us) else (es, t # us))"

definition ListExpireTimer :: "manager \<Rightarrow> 64 word \<Rightarrow> manager" where
  "ListExpireTimer m currTimeMs = (let (es, us) = expire_loop currTimeMs (mTimers m) in
     m\<lparr>mExpireTimerVec := mExpireTimerVec m @ es, mTimers := us\<rparr>)"

text \<open>The destructor, apart from closing the descriptor.\<close>

definition manager_destroy :: "manager \<Rightarrow> manager" where
  "manager_destroy m = (stopTimer m)\<lparr>mTimers := []\<rparr>"

section \<open>The worker thread\<close>

text \<open>
  Where the worker is: not started; at the loop condition; blocked on the semaphore; about to take the
  first timer; about to read the time of the timer it took; in \<^verbatim>\<open>epoll_wait\<close> until a time; at the test
  after it; about to collect what expired before a time it read; about to call the callback of the
  first of the given expired timers, or to put that timer back; at the last test of the loop; ended by
  return, by an exception, or in undefined behaviour (the assertion, or a dangling iterator).
\<close>

datatype pc =
  Idle | At_while | Waiting | Pick | Look timer | Sleeping nat | Test | Collect "64 word"
| Handle "timer list" | Requeue "timer list" | After | Returned | Thrown | Crashed

record tworld =
  tw_mgr :: manager
  tw_clock :: nat
  tw_count :: "64 word"
  tw_pc :: pc
  tw_n :: int
  tw_next :: int
  tw_ran :: "(timer \<times> nat) list"

text \<open>The difference of two times is narrowed to \<^verbatim>\<open>int\<close>.\<close>

definition next_time :: "timer \<Rightarrow> nat \<Rightarrow> int" where
  "next_time t clk = sint (ucast (mTime t - getCurrentTime clk) :: 32 word)"

fun work_step :: "tworld \<Rightarrow> pc \<Rightarrow> tworld" where
  "work_step w At_while =
    (if mShouldExit (tw_mgr w) then w\<lparr>tw_pc := Returned\<rparr>
     else case mTimers (tw_mgr w) of [] \<Rightarrow> w\<lparr>tw_pc := Waiting\<rparr> | t # _ \<Rightarrow> w\<lparr>tw_pc := Look t\<rparr>)"
| "work_step w Waiting =
    (if 0 < mSignal (tw_mgr w)
     then w\<lparr>tw_mgr := (tw_mgr w)\<lparr>mSignal := mSignal (tw_mgr w) - 1\<rparr>, tw_pc := Pick\<rparr> else w)"
| "work_step w Pick =
    (case mTimers (tw_mgr w) of [] \<Rightarrow> w\<lparr>tw_pc := Crashed\<rparr> | t # _ \<Rightarrow> w\<lparr>tw_pc := Look t\<rparr>)"
| "work_step w (Look t) =
    (if t \<in> set (mTimers (tw_mgr w))
     then let k = next_time t (tw_clock w) in
       w\<lparr>tw_next := k, tw_pc := (if 0 < k then Sleeping (tw_clock w + nat k) else Test)\<rparr>
     else w\<lparr>tw_pc := Crashed\<rparr>)"
| "work_step w (Sleeping d) = (if d \<le> tw_clock w then w\<lparr>tw_n := 0, tw_pc := Test\<rparr> else w)"
| "work_step w Test =
    w\<lparr>tw_pc := (if tw_n w = 0 \<or> tw_next w < 0 then Collect (getCurrentTime (tw_clock w)) else After)\<rparr>"
| "work_step w (Collect currTimeMs) =
    (let m = ListExpireTimer (tw_mgr w) currTimeMs in w\<lparr>tw_mgr := m, tw_pc := Handle (mExpireTimerVec m)\<rparr>)"
| "work_step w (Handle []) = w\<lparr>tw_mgr := (tw_mgr w)\<lparr>mExpireTimerVec := []\<rparr>, tw_pc := After\<rparr>"
| "work_step w (Handle (t # ts)) =
    w\<lparr>tw_ran := (if mCb t \<noteq> None then tw_ran w @ [(t, tw_clock w)] else tw_ran w), tw_pc := Requeue (t # ts)\<rparr>"
| "work_step w (Requeue []) = w"
| "work_step w (Requeue (t # ts)) =
    w\<lparr>tw_mgr := (if 0 < mRecycleTime t \<and> mCb t \<noteq> None
        then addTimer_again (tw_mgr w) (Some (t\<lparr>mTime := mTime t + mRecycleTime t\<rparr>)) else tw_mgr w),
      tw_pc := Handle ts\<rparr>"
| "work_step w After = w\<lparr>tw_pc := (if tw_n w < 0 then Thrown else At_while)\<rparr>"
| "work_step w _ = w"

text \<open>
  The events: the worker's next step; time passes; \<^verbatim>\<open>startTimer\<close>, with whether \<^verbatim>\<open>epoll_create\<close> succeeds;
  \<^verbatim>\<open>epoll_wait\<close> fails; and the calls of other threads and callbacks.
\<close>

datatype event = Work | Tick nat | Start bool | Interrupt | Add "64 word" "nat option" "32 word" | Del "64 word" | Stop

fun tstep :: "event \<Rightarrow> tworld \<Rightarrow> tworld" where
  "tstep Work w = work_step w (tw_pc w)"
| "tstep (Tick d) w = w\<lparr>tw_clock := tw_clock w + d\<rparr>"
| "tstep (Start ok) w = (if ok \<and> tw_pc w = Idle then w\<lparr>tw_pc := At_while, tw_n := 0\<rparr> else w)"
| "tstep Interrupt w = (case tw_pc w of Sleeping _ \<Rightarrow> w\<lparr>tw_n := -1, tw_pc := Test\<rparr> | _ \<Rightarrow> w)"
| "tstep (Add ms cb recycle) w =
    (let (_, m, c) = addTimer (tw_mgr w) (tw_count w) (tw_clock w) ms cb recycle in w\<lparr>tw_mgr := m, tw_count := c\<rparr>)"
| "tstep (Del uniqueId) w = w\<lparr>tw_mgr := snd (delTimer (tw_mgr w) uniqueId)\<rparr>"
| "tstep Stop w = w\<lparr>tw_mgr := stopTimer (tw_mgr w)\<rparr>"

definition tinit :: "nat \<Rightarrow> tworld" where
  "tinit clk = \<lparr>tw_mgr = manager_new, tw_clock = clk, tw_count = 0, tw_pc = Idle, tw_n = 0, tw_next = 0, tw_ran = []\<rparr>"

fun truns :: "event list \<Rightarrow> tworld \<Rightarrow> tworld" where
  "truns [] w = w"
| "truns (e # es) w = truns es (tstep e w)"

text \<open>An infinite run.\<close>

primrec trun :: "(nat \<Rightarrow> event) \<Rightarrow> tworld \<Rightarrow> nat \<Rightarrow> tworld" where
  "trun e w 0 = w"
| "trun e w (Suc i) = tstep (e i) (trun e w i)"

end
