(* ===== verification/Timer_Laws.thy ===== *)
theory Timer_Laws
  imports Timer_Ops "HOL-Library.Multiset"
begin

text \<open>
  The order of the timer set, what the loops over it compute, and the invariant that every event keeps.
\<close>

section \<open>The order\<close>

definition tless :: "timer \<Rightarrow> timer \<Rightarrow> bool" where
  "tless t u = timer_less (Some t) (Some u)"

lemma tless_simps: "tless t u \<longleftrightarrow> mTime t < mTime u \<or> mTime t = mTime u \<and> mUniqueId t < mUniqueId u"
  by (auto simp: tless_def timer_less_def)

lemma tless_trans: "tless t u \<Longrightarrow> tless u v \<Longrightarrow> tless t v"
  by (auto simp: tless_simps)

lemma tless_irrefl [simp]: "\<not> tless t t"
  by (simp add: tless_simps)

lemma tless_total: "mUniqueId t \<noteq> mUniqueId u \<Longrightarrow> tless t u \<or> tless u t"
  by (auto simp: tless_simps)

lemma set_insert_set: "set (fst (set_insert t us)) = (if snd (set_insert t us) then insert t (set us) else set us)"
  by (induction us) (auto split: prod.splits)

lemma set_insert_keeps: "u \<in> set us \<Longrightarrow> u \<in> set (fst (set_insert t us))"
  by (simp add: set_insert_set)

lemma set_insert_length: "length (fst (set_insert t us)) = (if snd (set_insert t us) then Suc (length us) else length us)"
  by (induction us) (auto split: prod.splits)

lemma set_insert_ids:
  "mUniqueId t \<notin> mUniqueId ` set us \<Longrightarrow>
    snd (set_insert t us) \<and> mset (map mUniqueId (fst (set_insert t us))) = add_mset (mUniqueId t) (mset (map mUniqueId us))"
proof (induction us)
  case (Cons u us)
  then have "tless t u \<or> tless u t" by (intro tless_total) auto
  with Cons show ?case by (auto simp: tless_def split: prod.splits)
qed simp

lemma set_insert_sorted: "sorted_wrt tless us \<Longrightarrow> sorted_wrt tless (fst (set_insert t us))"
proof (induction us)
  case (Cons u us)
  show ?case
  proof (cases "tless t u")
    case True
    then have "\<forall>v \<in> set (u # us). tless t v" using Cons.prems tless_trans by auto
    then show ?thesis using True Cons.prems by (simp add: tless_def)
  next
    case False
    have "tless u t \<Longrightarrow> \<forall>v \<in> set (fst (set_insert t us)). tless u v"
      using Cons.prems by (auto simp: set_insert_set split: if_splits)
    then show ?thesis using Cons False by (auto simp: tless_def split: prod.splits)
  qed
qed simp

section \<open>The loops\<close>

lemma expire_loop_filter: "expire_loop n ts = (filter (\<lambda>t. mTime t < n) ts, filter (\<lambda>t. \<not> mTime t < n) ts)"
  by (induction ts) auto

lemma filter_prefix:
  assumes "sorted_wrt tless ts"
  shows "filter (\<lambda>t. mTime t < n) ts = takeWhile (\<lambda>t. mTime t < n) ts"
    and "filter (\<lambda>t. \<not> mTime t < n) ts = dropWhile (\<lambda>t. mTime t < n) ts"
  using assms
proof (induction ts)
  case (Cons t ts)
  { case 1
    then show ?case using Cons by (cases ts) (auto simp: tless_simps filter_empty_conv)
  next
    case 2
    then show ?case using Cons by (cases ts) (auto simp: tless_simps filter_id_conv) }
qed simp_all

lemma ListExpireTimer_eq:
  "ListExpireTimer m n = m\<lparr>mExpireTimerVec := mExpireTimerVec m @ filter (\<lambda>t. mTime t < n) (mTimers m),
     mTimers := filter (\<lambda>t. \<not> mTime t < n) (mTimers m)\<rparr>"
  by (simp add: ListExpireTimer_def expire_loop_filter)

lemma del_loop_none: "k \<notin> mUniqueId ` set ts \<Longrightarrow> del_loop k ts = (ts, False)"
  by (induction ts) auto

lemma del_loop_some:
  "k \<in> mUniqueId ` set ts \<Longrightarrow> \<exists>us t vs. ts = us @ t # vs \<and> mUniqueId t = k \<and> del_loop k ts = (us @ vs, True)"
proof (induction ts)
  case (Cons t ts)
  show ?case
  proof (cases "mUniqueId t = k")
    case True
    then have "t # ts = [] @ t # ts \<and> mUniqueId t = k \<and> del_loop k (t # ts) = ([] @ ts, True)" by simp
    then show ?thesis by blast
  next
    case False
    then obtain us u vs where "ts = us @ u # vs" "mUniqueId u = k" "del_loop k ts = (us @ vs, True)"
      using Cons by auto
    then have "t # ts = (t # us) @ u # vs \<and> mUniqueId u = k \<and> del_loop k (t # ts) = ((t # us) @ vs, True)"
      using False by simp
    then show ?thesis by blast
  qed
qed simp

text \<open>Deleting a timer twice, or a timer that is not in the set, does nothing.\<close>

lemma del_loop_parts:
  "\<exists>us t vs. (ts = us @ t # vs \<and> fst (del_loop k ts) = us @ vs) \<or> fst (del_loop k ts) = ts"
  using del_loop_none del_loop_some by (metis fst_conv)

section \<open>The invariant\<close>

text \<open>The expired timers the worker still has to deal with.\<close>

fun pending :: "pc \<Rightarrow> timer list" where
  "pending (Handle ts) = ts" | "pending (Requeue ts) = ts" | "pending _ = []"

definition all_timers :: "tworld \<Rightarrow> timer list" where
  "all_timers w = mTimers (tw_mgr w) @ pending (tw_pc w)"

definition tids :: "timer list \<Rightarrow> 64 word list" where
  "tids ts = map mUniqueId ts"

text \<open>
  The set is in order; no two timers share a number and the count is the greatest; a worker that waits while
  there are timers has been signalled; and no timer is collected or run before its time.
\<close>

definition set_ok :: "tworld \<Rightarrow> bool" where
  "set_ok w \<longleftrightarrow> sorted_wrt tless (mTimers (tw_mgr w)) \<and> distinct (tids (all_timers w))
     \<and> (\<forall>t \<in> set (all_timers w). unat (mUniqueId t) \<le> unat (tw_count w))"

definition signal_ok :: "tworld \<Rightarrow> bool" where
  "signal_ok w \<longleftrightarrow> (tw_pc w = Waiting \<and> mTimers (tw_mgr w) \<noteq> [] \<longrightarrow> 0 < mSignal (tw_mgr w))"

definition times_ok :: "tworld \<Rightarrow> bool" where
  "times_ok w \<longleftrightarrow> (\<forall>n. tw_pc w = Collect n \<longrightarrow> unat n \<le> tw_clock w)
     \<and> (\<forall>t \<in> set (pending (tw_pc w)). unat (mTime t) < tw_clock w)
     \<and> (\<forall>(t, c) \<in> set (tw_ran w). unat (mTime t) < c \<and> c \<le> tw_clock w \<and> mCb t \<noteq> None)"

definition vec_ok :: "tworld \<Rightarrow> bool" where
  "vec_ok w \<longleftrightarrow> mExpireTimerVec (tw_mgr w) = [] \<or> (\<exists>ts. tw_pc w = Handle ts \<or> tw_pc w = Requeue ts)"

lemma unat_of_nat_le: "unat (of_nat n :: 'a::len word) \<le> n"
  by (simp add: unat_of_nat)

lemma all_timers_simps [simp]:
  "pending (tw_pc w) = [] \<Longrightarrow> all_timers w = mTimers (tw_mgr w)"
  by (simp add: all_timers_def)

lemma tids_simps [simp]: "tids [] = []" "tids (t # ts) = mUniqueId t # tids ts" "tids (ts @ us) = tids ts @ tids us"
  "set (tids ts) = mUniqueId ` set ts" "mset (tids ts) = image_mset mUniqueId (mset ts)"
  by (simp_all add: tids_def)

text \<open>Whether the numbers are distinct depends on the multiset of timers only.\<close>

lemma distinct_tids_mset: "mset (tids ts) = mset (tids us) \<Longrightarrow> distinct (tids ts) = distinct (tids us)"
  using mset_eq_imp_distinct_iff by blast

lemma filter_split_mset: "mset (filter (\<lambda>t. \<not> P t) ts @ filter P ts) = mset ts"
  by (induction ts) auto

lemma set_insert_mset:
  assumes "mUniqueId t \<notin> mUniqueId ` set us"
  shows "mset (tids (fst (set_insert t us))) = add_mset (mUniqueId t) (mset (tids us))"
    and "snd (set_insert t us)" and "set (fst (set_insert t us)) = insert t (set us)"
  using set_insert_ids[OF assms] set_insert_set[of t us] by (simp_all add: tids_def)

section \<open>Every event keeps the invariant\<close>

lemma addTimer_eq:
  "addTimer m c clk ms cb recycle =
    (let t = fst (timer_new c clk ms cb recycle); r = set_insert t (mTimers m) in
     if snd r then (mUniqueId t, m\<lparr>mTimers := fst r, mSignal := (if length (fst r) = 1 then mSignal m + 1 else mSignal m)\<rparr>, c + 1)
     else (0, m, c + 1))"
  by (simp add: addTimer_def timer_new_def Let_def split: prod.split)

lemma unat_Suc_word: "unat c + 1 < 2 ^ LENGTH('a) \<Longrightarrow> unat (c + 1 :: 'a::len word) = unat c + 1"
  by (simp add: unat_word_ariths)

lemma times_ok_step: "\<lbrakk>times_ok w; vec_ok w\<rbrakk> \<Longrightarrow> times_ok (tstep e w)"
proof (cases e)
  case Work
  assume t: "times_ok w" and v: "vec_ok w"
  show ?thesis
  proof (cases "tw_pc w")
    case (Collect n)
    then show ?thesis using t v Work
      by (auto simp: times_ok_def vec_ok_def ListExpireTimer_eq word_less_nat_alt Let_def)
  next
    case (Handle ts)
    then show ?thesis using t Work by (cases ts) (auto simp: times_ok_def)
  next
    case (Requeue ts)
    then show ?thesis using t Work by (cases ts) (auto simp: times_ok_def)
  qed (use t Work in \<open>auto simp: times_ok_def getCurrentTime_def unat_of_nat_le Let_def split: list.splits\<close>)
qed (auto simp: times_ok_def Let_def split: prod.splits pc.splits)

lemma vec_ok_step: "vec_ok w \<Longrightarrow> vec_ok (tstep e w)"
proof (cases e)
  case Work
  assume v: "vec_ok w"
  show ?thesis
  proof (cases "tw_pc w")
    case (Handle ts)
    then show ?thesis using v Work by (cases ts) (auto simp: vec_ok_def)
  next
    case (Requeue ts)
    then show ?thesis using v Work by (cases ts) (auto simp: vec_ok_def addTimer_again_def)
  qed (use v Work in \<open>auto simp: vec_ok_def ListExpireTimer_eq Let_def split: list.splits\<close>)
qed (auto simp: vec_ok_def Let_def addTimer_eq delTimer_def stopTimer_def split: prod.splits pc.splits)

lemma signal_ok_step: "signal_ok w \<Longrightarrow> signal_ok (tstep e w)"
proof (cases e)
  case Work
  assume v: "signal_ok w"
  show ?thesis
  proof (cases "tw_pc w")
    case (Handle ts)
    then show ?thesis using v Work by (cases ts) (auto simp: signal_ok_def)
  next
    case (Requeue ts)
    then show ?thesis using v Work by (cases ts) (auto simp: signal_ok_def addTimer_again_def)
  qed (use v Work in \<open>auto simp: signal_ok_def ListExpireTimer_eq Let_def split: list.splits\<close>)
next
  case (Add ms cb recycle)
  assume v: "signal_ok w"
  let ?t = "fst (timer_new (tw_count w) (tw_clock w) ms cb recycle)"
  show ?thesis using v Add set_insert_length[of ?t "mTimers (tw_mgr w)"]
    by (auto simp: signal_ok_def addTimer_eq Let_def split: if_splits)
next
  case (Del k)
  assume "signal_ok w"
  then show ?thesis using Del del_loop_parts[of "mTimers (tw_mgr w)" k]
    by (auto simp: signal_ok_def delTimer_def split: prod.splits)
qed (auto simp: signal_ok_def stopTimer_def split: pc.splits)

text \<open>\<^const>\<open>set_ok\<close> depends on the multiset of numbers and the order of the set; here are the ways an event changes them.\<close>

definition parts_ok :: "timer list \<Rightarrow> timer list \<Rightarrow> 64 word \<Rightarrow> bool" where
  "parts_ok ts ps c \<longleftrightarrow> sorted_wrt tless ts \<and> (\<forall>k. count (image_mset mUniqueId (mset (ts @ ps))) k \<le> 1)
     \<and> (\<forall>k \<in># image_mset mUniqueId (mset (ts @ ps)). unat k \<le> unat c)"

lemma distinct_count: "distinct xs \<longleftrightarrow> (\<forall>k. count (mset xs) k \<le> 1)"
proof (induction xs)
  case (Cons x xs)
  show ?case
  proof
    assume "distinct (x # xs)"
    then show "\<forall>k. count (mset (x # xs)) k \<le> 1" using Cons by (auto simp: count_eq_zero_iff not_in_iff[symmetric])
  next
    assume a: "\<forall>k. count (mset (x # xs)) k \<le> 1"
    then have "count (mset xs) x = 0" by (auto dest!: spec[of _ x])
    moreover have "\<forall>k. count (mset xs) k \<le> 1"
      using a by (metis add_mset_add_single count_union le_add1 le_trans mset.simps(2))
    ultimately show "distinct (x # xs)" using Cons by (simp add: count_eq_zero_iff)
  qed
qed simp

lemma set_ok_parts: "set_ok w \<longleftrightarrow> parts_ok (mTimers (tw_mgr w)) (pending (tw_pc w)) (tw_count w)"
  by (simp add: set_ok_def parts_ok_def all_timers_def distinct_count tids_def image_Un ball_Un)

lemma parts_ok_mono:
  assumes "parts_ok ts ps c" "sorted_wrt tless ts'"
    "image_mset mUniqueId (mset (ts' @ ps')) \<subseteq># image_mset mUniqueId (mset (ts @ ps))"
  shows "parts_ok ts' ps' c"
  using assms unfolding parts_ok_def by (meson le_trans mset_subset_eqD mset_subset_eq_count)

lemma parts_ok_fewer: "parts_ok ts (p # ps) c \<Longrightarrow> parts_ok ts ps c"
  using parts_ok_mono[of ts "p # ps" c ts ps] by (simp add: parts_ok_def)

lemma parts_ok_expire:
  assumes "parts_ok ts [] c"
  shows "parts_ok (filter (\<lambda>t. \<not> P t) ts) (filter P ts) c"
proof (rule parts_ok_mono[OF assms])
  show "image_mset mUniqueId (mset (filter (\<lambda>t. \<not> P t) ts @ filter P ts)) \<subseteq># image_mset mUniqueId (mset (ts @ []))"
    unfolding filter_split_mset by simp
qed (use assms in \<open>simp add: parts_ok_def sorted_wrt_filter\<close>)

lemma parts_ok_again:
  assumes p: "parts_ok ts (t # ps) c" and u: "mUniqueId u = mUniqueId t"
  shows "parts_ok (fst (set_insert u ts)) ps c"
proof (rule parts_ok_mono[OF p])
  have "count (image_mset mUniqueId (mset (ts @ t # ps))) (mUniqueId t) \<le> 1" using p unfolding parts_ok_def by blast
  then have "count (image_mset mUniqueId (mset ts)) (mUniqueId u) = 0" using u by simp
  then have n: "mUniqueId u \<notin> mUniqueId ` set ts" by (simp add: count_eq_zero_iff)
  show "image_mset mUniqueId (mset (fst (set_insert u ts) @ ps)) \<subseteq># image_mset mUniqueId (mset (ts @ t # ps))"
    using set_insert_mset(1)[OF n] u by simp
qed (use p set_insert_sorted in \<open>simp add: parts_ok_def\<close>)

lemma parts_ok_add:
  assumes p: "parts_ok ts ps c" and c: "unat c + 1 < 2 ^ 64" and u: "mUniqueId u = c + 1"
  shows "parts_ok (fst (set_insert u ts)) ps (c + 1)" and "mUniqueId u \<notin> mUniqueId ` set ts"
proof -
  have Suc: "unat (c + 1) = unat c + 1" using c by (intro unat_Suc_word) simp
  have le: "\<forall>k \<in># image_mset mUniqueId (mset (ts @ ps)). unat k \<le> unat c" using p by (simp add: parts_ok_def)
  then have n: "c + 1 \<notin># image_mset mUniqueId (mset (ts @ ps))" using Suc by fastforce
  then show n': "mUniqueId u \<notin> mUniqueId ` set ts" using u by simp
  have m: "image_mset mUniqueId (mset (fst (set_insert u ts) @ ps)) = add_mset (c + 1) (image_mset mUniqueId (mset (ts @ ps)))"
    using set_insert_mset(1)[OF n'] u by simp
  have "count (image_mset mUniqueId (mset (ts @ ps))) (c + 1) = 0" using n by (simp only: not_in_iff)
  moreover have "\<forall>k. count (image_mset mUniqueId (mset (ts @ ps))) k \<le> 1" using p unfolding parts_ok_def by blast
  ultimately have "\<forall>k. count (image_mset mUniqueId (mset (fst (set_insert u ts) @ ps))) k \<le> 1"
    unfolding m by auto
  moreover have "\<forall>k \<in># image_mset mUniqueId (mset (fst (set_insert u ts) @ ps)). unat k \<le> unat (c + 1)"
    unfolding m Suc using le by (simp add: Suc) (simp add: le_SucI)
  ultimately show "parts_ok (fst (set_insert u ts)) ps (c + 1)"
    using p set_insert_sorted unfolding parts_ok_def by blast
qed

lemma parts_ok_del:
  assumes p: "parts_ok ts ps c"
  shows "parts_ok (fst (del_loop k ts)) ps c"
proof (rule parts_ok_mono[OF p])
  show "sorted_wrt tless (fst (del_loop k ts))"
    using p del_loop_parts[of ts k] by (auto simp: parts_ok_def sorted_wrt_append)
  show "image_mset mUniqueId (mset (fst (del_loop k ts) @ ps)) \<subseteq># image_mset mUniqueId (mset (ts @ ps))"
    using del_loop_parts[of ts k] by auto
qed

lemma set_ok_work: "\<lbrakk>set_ok w; vec_ok w\<rbrakk> \<Longrightarrow> set_ok (tstep Work w)"
proof (cases "tw_pc w")
  case (Collect n)
  assume "set_ok w" "vec_ok w"
  then show ?thesis using Collect parts_ok_expire
    by (simp add: set_ok_parts vec_ok_def ListExpireTimer_eq Let_def)
next
  case (Handle ts)
  assume "set_ok w"
  then show ?thesis using Handle by (cases ts) (simp_all add: set_ok_parts)
next
  case (Requeue ts)
  assume s: "set_ok w"
  show ?thesis
  proof (cases ts)
    case (Cons t ps)
    then show ?thesis using s Requeue parts_ok_again[of _ t] parts_ok_fewer
      by (fastforce simp: set_ok_parts addTimer_again_def)
  qed (use s Requeue in simp)
qed (auto simp: set_ok_parts Let_def split: list.splits)

lemma set_ok_step:
  assumes "set_ok w" "vec_ok w" "unat (tw_count w) + 1 < 2 ^ 64"
  shows "set_ok (tstep e w)"
proof (cases e)
  case Work
  then show ?thesis using assms set_ok_work by simp
next
  case (Add ms cb recycle)
  let ?t = "fst (timer_new (tw_count w) (tw_clock w) ms cb recycle)"
  have id: "mUniqueId ?t = tw_count w + 1" by (simp add: timer_new_def Let_def)
  have p: "parts_ok (mTimers (tw_mgr w)) (pending (tw_pc w)) (tw_count w)" using assms(1) by (simp add: set_ok_parts)
  have "snd (set_insert ?t (mTimers (tw_mgr w)))"
    using parts_ok_add(2)[OF p assms(3) id] by (intro set_insert_mset(2)) simp
  then show ?thesis using parts_ok_add(1)[OF p assms(3) id] Add
    by (simp add: set_ok_parts addTimer_eq Let_def)
next
  case (Del k)
  then show ?thesis using assms(1) parts_ok_del[of "mTimers (tw_mgr w)"]
    by (simp add: set_ok_parts delTimer_def split: prod.split) (metis fst_conv)
qed (use assms(1) in \<open>auto simp: set_ok_parts stopTimer_def split: pc.splits\<close>)

lemma count_step: "tw_count (tstep e w) = tw_count w \<or> tw_count (tstep e w) = tw_count w + 1"
proof (cases e)
  case Work
  show ?thesis
  proof (cases "tw_pc w")
    case (Handle ts)
    then show ?thesis using Work by (cases ts) simp_all
  next
    case (Requeue ts)
    then show ?thesis using Work by (cases ts) simp_all
  qed (use Work in \<open>auto simp: Let_def split: list.splits\<close>)
qed (auto simp: addTimer_eq Let_def split: pc.splits)

definition timers_ok :: "tworld \<Rightarrow> bool" where
  "timers_ok w \<longleftrightarrow> set_ok w \<and> signal_ok w \<and> times_ok w \<and> vec_ok w"

lemma timers_ok_init: "timers_ok (tinit clk)"
  by (simp add: timers_ok_def tinit_def manager_new_def set_ok_def signal_ok_def times_ok_def vec_ok_def)

lemma timers_ok_step: "\<lbrakk>timers_ok w; unat (tw_count w) + 1 < 2 ^ 64\<rbrakk> \<Longrightarrow> timers_ok (tstep e w)"
  using set_ok_step signal_ok_step times_ok_step vec_ok_step by (simp add: timers_ok_def)

lemma timers_ok_run:
  "\<lbrakk>timers_ok w; unat (tw_count w) + length es < 2 ^ 64\<rbrakk> \<Longrightarrow> timers_ok (truns es w)"
proof (induction es arbitrary: w)
  case (Cons e es)
  have "unat (tw_count (tstep e w)) \<le> unat (tw_count w) + 1"
    using count_step[of e w] Cons.prems(2) unat_Suc_word[of "tw_count w"] by auto
  then show ?case using Cons timers_ok_step[of w e] by simp
qed simp

end
