(* ===== verification/Timer_Live.thy ===== *)
theory Timer_Live
  imports Timer_Laws
begin

text \<open>
  The progress of the worker: every step it takes brings it closer to the loop condition, and a due timer
  that is in the set at the loop condition has been run when the worker is back there.
\<close>

section \<open>Runs\<close>

text \<open>Whether the worker's next step does something.\<close>

definition can_work :: "tworld \<Rightarrow> bool" where
  "can_work w = (case tw_pc w of
     Sleeping d \<Rightarrow> d \<le> tw_clock w | Waiting \<Rightarrow> 0 < mSignal (tw_mgr w)
   | Idle \<Rightarrow> False | Returned \<Rightarrow> False | Thrown \<Rightarrow> False | Crashed \<Rightarrow> False | _ \<Rightarrow> True)"

text \<open>Weak fairness: infinitely often the worker cannot move or moves. And every sleep ends.\<close>

definition fair_run :: "(nat \<Rightarrow> event) \<Rightarrow> tworld \<Rightarrow> bool" where
  "fair_run e w \<longleftrightarrow> (\<forall>i. \<exists>j\<ge>i. e j = Work \<or> \<not> can_work (trun e w j))
     \<and> (\<forall>i d. tw_pc (trun e w i) = Sleeping d \<longrightarrow> (\<exists>j. d \<le> tw_clock (trun e w j)))"

text \<open>Nobody deletes timers or stops the manager, and \<^verbatim>\<open>epoll_wait\<close> does not fail.\<close>

definition calm :: "event \<Rightarrow> bool" where
  "calm e = (case e of Del _ \<Rightarrow> False | Stop \<Rightarrow> False | Interrupt \<Rightarrow> False | _ \<Rightarrow> True)"

definition alive :: "pc \<Rightarrow> bool" where
  "alive p \<longleftrightarrow> p \<notin> {Idle, Returned, Thrown, Crashed}"

text \<open>What calm events keep.\<close>

definition calm_ok :: "tworld \<Rightarrow> bool" where
  "calm_ok w \<longleftrightarrow> tw_n w = 0 \<and> \<not> mShouldExit (tw_mgr w) \<and> (\<forall>t. tw_pc w = Look t \<longrightarrow> t \<in> set (mTimers (tw_mgr w)))
     \<and> tw_pc w \<noteq> Requeue [] \<and> signal_ok w"

text \<open>The worker will not end in undefined behaviour before it is at the loop condition.\<close>

definition steady :: "tworld \<Rightarrow> bool" where
  "steady w \<longleftrightarrow> calm_ok w \<and> alive (tw_pc w) \<and> (tw_pc w \<in> {Waiting, Pick} \<longrightarrow> mTimers (tw_mgr w) \<noteq> [])"

lemma calm_cases:
  assumes "calm e"
  obtains "e = Work" | d where "e = Tick d" | ok where "e = Start ok" | ms cb recycle where "e = Add ms cb recycle"
  using assms by (cases e) (auto simp: calm_def)

lemma Add_parts:
  "tw_n (tstep (Add ms cb r) w) = tw_n w" "tw_pc (tstep (Add ms cb r) w) = tw_pc w"
  "tw_clock (tstep (Add ms cb r) w) = tw_clock w" "tw_ran (tstep (Add ms cb r) w) = tw_ran w"
  "mShouldExit (tw_mgr (tstep (Add ms cb r) w)) = mShouldExit (tw_mgr w)"
  "set (mTimers (tw_mgr w)) \<subseteq> set (mTimers (tw_mgr (tstep (Add ms cb r) w)))"
  "mSignal (tw_mgr w) \<le> mSignal (tw_mgr (tstep (Add ms cb r) w))"
  by (auto simp: addTimer_eq Let_def set_insert_keeps)

declare tstep.simps(5) [simp del]
lemmas calm_events = Add_parts

lemma Add_keeps: "t \<in> set (mTimers (tw_mgr w)) \<Longrightarrow> t \<in> set (mTimers (tw_mgr (tstep (Add ms cb r) w)))"
  using Add_parts(6) by blast

lemma Add_nonempty: "mTimers (tw_mgr w) \<noteq> [] \<Longrightarrow> mTimers (tw_mgr (tstep (Add ms cb r) w)) \<noteq> []"
  using Add_keeps by (metis empty_set ex_in_conv set_empty)

lemma clock_mono: "tw_clock w \<le> tw_clock (tstep e w)"
proof (cases e)
  case Work
  show ?thesis
  proof (cases "tw_pc w")
    case (Handle ts)
    then show ?thesis using Work by (cases ts) simp_all
  next
    case (Requeue ts)
    then show ?thesis using Work by (cases ts) simp_all
  qed (use Work in \<open>auto simp: Let_def split: list.splits\<close>)
qed (auto simp: calm_events split: pc.splits)

lemma ran_grows: "\<exists>l. tw_ran (tstep e w) = tw_ran w @ l"
proof (cases e)
  case Work
  show ?thesis
  proof (cases "tw_pc w")
    case (Handle ts)
    then show ?thesis using Work by (cases ts) simp_all
  next
    case (Requeue ts)
    then show ?thesis using Work by (cases ts) simp_all
  qed (use Work in \<open>auto simp: Let_def split: list.splits\<close>)
qed (auto simp: calm_events split: pc.splits)

section \<open>Steps\<close>

text \<open>An event that is not a step of the worker leaves it where it is.\<close>

lemma other_event:
  assumes "calm e" "\<not> (e = Work \<and> can_work w)" "alive (tw_pc w)"
  shows "tw_pc (tstep e w) = tw_pc w"
  using assms(1)
proof (cases rule: calm_cases)
  case 1
  then show ?thesis using assms(2,3) by (cases "tw_pc w") (auto simp: can_work_def alive_def)
qed (use assms(3) in \<open>auto simp: calm_events alive_def\<close>)

lemma can_work_stays:
  assumes "calm e" "e \<noteq> Work" "can_work w"
  shows "can_work (tstep e w)"
  using assms(1)
proof (cases rule: calm_cases)
  case 4
  then show ?thesis using assms(3) Add_parts(7)[of w] unfolding can_work_def
    by (auto simp: calm_events split: pc.splits intro: less_le_trans)
qed (use assms(2,3) in \<open>auto simp: can_work_def split: pc.splits\<close>)

lemma calm_ok_step:
  assumes "calm e" "calm_ok w"
  shows "calm_ok (tstep e w)"
  using assms(1)
proof (cases rule: calm_cases)
  case 1
  show ?thesis
  proof (cases "tw_pc w")
    case (Handle ts)
    then show ?thesis using 1 assms(2) by (cases ts) (auto simp: calm_ok_def signal_ok_def)
  next
    case (Requeue ts)
    then show ?thesis using 1 assms(2) by (cases ts) (auto simp: calm_ok_def signal_ok_def addTimer_again_def)
  qed (use 1 assms(2) in \<open>auto simp: calm_ok_def signal_ok_def Let_def ListExpireTimer_eq split: list.splits\<close>)
next
  case 4
  then show ?thesis using assms(2) signal_ok_step[of w e]
    by (auto simp: calm_ok_def calm_events Add_keeps)
qed (use assms(2) in \<open>auto simp: calm_ok_def signal_ok_def\<close>)

lemma steady_step:
  assumes "calm e" "steady w" "tw_pc w \<noteq> At_while"
  shows "steady (tstep e w)"
proof -
  have c: "calm_ok (tstep e w)" using assms(1,2) calm_ok_step by (simp add: steady_def)
  show ?thesis using assms(1)
  proof (cases rule: calm_cases)
    case 1
    show ?thesis
    proof (cases "tw_pc w")
      case (Handle ts)
      then show ?thesis using 1 c by (cases ts) (auto simp: steady_def alive_def)
    next
      case (Requeue ts)
      then show ?thesis using 1 c assms(2) by (cases ts) (auto simp: steady_def calm_ok_def alive_def)
    qed (use 1 c assms in \<open>auto simp: steady_def calm_ok_def alive_def Let_def split: list.splits\<close>)
  next
    case 4
    then show ?thesis using assms(2) c by (auto simp: steady_def calm_events Add_nonempty)
  qed (use assms(2) c in \<open>auto simp: steady_def alive_def\<close>)
qed

section \<open>Getting back to the loop condition\<close>

fun stage :: "pc \<Rightarrow> nat \<times> nat" where
  "stage Waiting = (9, 0)" | "stage Pick = (8, 0)" | "stage (Look _) = (7, 0)" | "stage (Sleeping _) = (6, 0)"
| "stage Test = (5, 0)" | "stage (Collect _) = (4, 0)" | "stage (Handle ts) = (3, 2 * length ts)"
| "stage (Requeue ts) = (3, 2 * length ts - 1)" | "stage After = (2, 0)" | "stage _ = (0, 0)"

lemma work_stage:
  assumes "steady w" "can_work w" "tw_pc w \<noteq> At_while"
  shows "(stage (tw_pc (tstep Work w)), stage (tw_pc w)) \<in> less_than <*lex*> less_than"
proof (cases "tw_pc w")
  case (Handle ts)
  then show ?thesis by (cases ts) simp_all
next
  case (Requeue ts)
  then show ?thesis using assms(1) by (cases ts) (auto simp: steady_def calm_ok_def)
qed (use assms in \<open>auto simp: steady_def calm_ok_def alive_def can_work_def Let_def split: list.splits\<close>)

text \<open>An infinite calm run, and the next step the worker takes in it.\<close>

definition calm_run :: "(nat \<Rightarrow> event) \<Rightarrow> tworld \<Rightarrow> bool" where
  "calm_run e w \<longleftrightarrow> (\<forall>i. calm (e i)) \<and> fair_run e w"

lemma trun_mono:
  assumes "\<And>j. i \<le> j \<Longrightarrow> P (trun e w j) \<Longrightarrow> P (trun e w (Suc j))" "P (trun e w i)" "i \<le> j"
  shows "P (trun e w j)"
  using assms(3) by (induction j rule: nat_induct_at_least) (use assms(1,2) in auto)

lemma trun_clock: "i \<le> j \<Longrightarrow> tw_clock (trun e w i) \<le> tw_clock (trun e w j)"
  by (induction j rule: nat_induct_at_least) (auto intro: le_trans[OF _ clock_mono])

lemma stuck_run:
  assumes r: "calm_run e w" and a: "alive (tw_pc (trun e w i))"
    and s: "\<forall>j\<ge>i. \<not> (e j = Work \<and> can_work (trun e w j))"
  shows "i \<le> j \<Longrightarrow> tw_pc (trun e w j) = tw_pc (trun e w i)"
proof (induction j rule: nat_induct_at_least)
  case (Suc j)
  then show ?case using other_event[of "e j" "trun e w j"] r a s by (simp add: calm_run_def)
qed simp

lemma steady_can_work:
  assumes r: "calm_run e w" and a: "steady (trun e w i)"
    and s: "\<forall>j\<ge>i. \<not> (e j = Work \<and> can_work (trun e w j))"
  shows "\<exists>j\<ge>i. can_work (trun e w j)"
proof -
  have a': "alive (tw_pc (trun e w i))" using a by (simp add: steady_def)
  show ?thesis
  proof (cases "\<exists>d. tw_pc (trun e w i) = Sleeping d")
    case True
    then obtain d where d: "tw_pc (trun e w i) = Sleeping d" by blast
    then obtain j where j: "d \<le> tw_clock (trun e w j)" using r unfolding calm_run_def fair_run_def by blast
    let ?k = "max i j"
    have "d \<le> tw_clock (trun e w ?k)" using j trun_clock[of j ?k] by (meson le_trans max.cobounded2)
    then have "can_work (trun e w ?k)" using stuck_run[OF r a' s, of ?k] d by (simp add: can_work_def)
    then show ?thesis by (meson max.cobounded1)
  next
    case False
    then have "can_work (trun e w i)" using a
      by (cases "tw_pc (trun e w i)") (auto simp: steady_def calm_ok_def signal_ok_def alive_def can_work_def)
    then show ?thesis by blast
  qed
qed

lemma next_taken:
  assumes r: "calm_run e w" and a: "steady (trun e w i)"
  shows "\<exists>j\<ge>i. e j = Work \<and> can_work (trun e w j)"
proof (rule ccontr)
  assume "\<not> ?thesis"
  then have s: "\<forall>j\<ge>i. \<not> (e j = Work \<and> can_work (trun e w j))" by blast
  obtain k where k: "i \<le> k" "can_work (trun e w k)" using steady_can_work[OF r a s] by blast
  have c: "can_work (trun e w j)" if "k \<le> j" for j
    using that
  proof (induction j rule: nat_induct_at_least)
    case (Suc j)
    then have "e j \<noteq> Work" using s k(1) by auto
    then show ?case using Suc r can_work_stays[of "e j"] by (simp add: calm_run_def)
  qed (use k(2) in simp)
  obtain j where "k \<le> j" "e j = Work \<or> \<not> can_work (trun e w j)" using r unfolding calm_run_def fair_run_def by blast
  then show False using c s k(1) by (meson le_trans)
qed

text \<open>The first such step: until then the worker is where it was.\<close>

lemma first_taken:
  assumes r: "calm_run e w" and a: "steady (trun e w i)"
  obtains j where "i \<le> j" "e j = Work" "can_work (trun e w j)"
    "\<And>k. i \<le> k \<Longrightarrow> k \<le> j \<Longrightarrow> tw_pc (trun e w k) = tw_pc (trun e w i)"
proof -
  let ?P = "\<lambda>j. i \<le> j \<and> e j = Work \<and> can_work (trun e w j)"
  define j where "j = (LEAST j. ?P j)"
  have j: "?P j" unfolding j_def using next_taken[OF r a] by (rule LeastI_ex)
  have "i \<le> k \<Longrightarrow> k \<le> j \<Longrightarrow> tw_pc (trun e w k) = tw_pc (trun e w i)" for k
  proof (induction k rule: nat_induct_at_least)
    case (Suc k)
    then have "\<not> ?P k" using not_less_Least[of k ?P] by (simp add: j_def)
    then show ?case using Suc other_event[of "e k" "trun e w k"] r a by (simp add: calm_run_def steady_def)
  qed simp
  then show ?thesis using that j by blast
qed

lemma steady_run:
  assumes r: "calm_run e w" and a: "steady (trun e w i)" and n: "tw_pc (trun e w i) \<noteq> At_while"
    and j: "i \<le> j" "\<And>k. i \<le> k \<Longrightarrow> k < j \<Longrightarrow> tw_pc (trun e w k) \<noteq> At_while"
  shows "steady (trun e w j)"
  using j
proof (induction j rule: nat_induct_at_least)
  case (Suc j)
  then show ?case using steady_step[of "e j" "trun e w j"] r by (simp add: calm_run_def)
qed (use a in simp)

lemma reach_while:
  assumes r: "calm_run e w"
  shows "steady (trun e w i) \<Longrightarrow> \<exists>j\<ge>i. tw_pc (trun e w j) = At_while \<and> steady (trun e w j)"
proof (induction "stage (tw_pc (trun e w i))" arbitrary: i rule: wf_induct_rule[OF wf_lex_prod[OF wf_less_than wf_less_than]])
  case (1 i)
  show ?case
  proof (cases "tw_pc (trun e w i) = At_while")
    case False
    obtain j where j: "i \<le> j" "e j = Work" "can_work (trun e w j)"
      "\<And>k. i \<le> k \<Longrightarrow> k \<le> j \<Longrightarrow> tw_pc (trun e w k) = tw_pc (trun e w i)"
      using first_taken[OF r 1(2)] by blast
    have n: "tw_pc (trun e w j) \<noteq> At_while" using j(4)[OF j(1) order_refl] False by simp
    have "tw_pc (trun e w k) \<noteq> At_while" if "i \<le> k" "k < j" for k
      using j(4)[OF that(1) less_imp_le[OF that(2)]] False by simp
    then have st: "steady (trun e w j)" by (rule steady_run[OF r 1(2) False j(1)])
    have less: "(stage (tw_pc (trun e w (Suc j))), stage (tw_pc (trun e w i))) \<in> less_than <*lex*> less_than"
      using work_stage[OF st j(3) n] j(2) j(4)[OF j(1) order_refl] by simp
    have "steady (trun e w (Suc j))" using steady_step[of "e j"] st n r by (simp add: calm_run_def)
    from 1(1)[OF less this] obtain k where "Suc j \<le> k" "tw_pc (trun e w k) = At_while" "steady (trun e w k)" by blast
    then show ?thesis using j(1) by (intro exI[of _ k]) simp
  qed (use 1 in blast)
qed

section \<open>A due timer is run\<close>

text \<open>The timer has been run after the first \<^verbatim>\<open>l\<close> calls of the log.\<close>

definition ran_after :: "nat \<Rightarrow> timer \<Rightarrow> tworld \<Rightarrow> bool" where
  "ran_after l t w \<longleftrightarrow> t \<in> fst ` set (drop l (tw_ran w))"

text \<open>The timer has run, or is in the set or among the expired ones not yet dealt with.\<close>

definition held :: "nat \<Rightarrow> timer \<Rightarrow> tworld \<Rightarrow> bool" where
  "held l t w \<longleftrightarrow> ran_after l t w \<or> t \<in> set (mTimers (tw_mgr w))
     \<or> (\<exists>ts. tw_pc w = Handle ts \<and> t \<in> set ts) \<or> (\<exists>u ts. tw_pc w = Requeue (u # ts) \<and> t \<in> set ts)"

text \<open>The timer is due, and the worker is on its way to run it.\<close>

definition doomed :: "nat \<Rightarrow> timer \<Rightarrow> tworld \<Rightarrow> bool" where
  "doomed l t w \<longleftrightarrow> ran_after l t w \<or> (case tw_pc w of
     Look _ \<Rightarrow> t \<in> set (mTimers (tw_mgr w)) \<and> unat (mTime t) < tw_clock w
   | Sleeping _ \<Rightarrow> t \<in> set (mTimers (tw_mgr w)) \<and> unat (mTime t) < tw_clock w
   | Test \<Rightarrow> t \<in> set (mTimers (tw_mgr w)) \<and> unat (mTime t) < tw_clock w
   | Collect n \<Rightarrow> t \<in> set (mTimers (tw_mgr w)) \<and> mTime t < n
   | Handle ts \<Rightarrow> t \<in> set ts
   | Requeue ts \<Rightarrow> t \<in> set (tl ts)
   | _ \<Rightarrow> False)"

lemma ran_after_step: "\<lbrakk>ran_after l t w; l \<le> length (tw_ran w)\<rbrakk> \<Longrightarrow> ran_after l t (tstep e w)"
  using ran_grows[of e w] by (auto simp: ran_after_def)

lemma ran_now: "l \<le> length xs \<Longrightarrow> t \<in> fst ` set (drop l (xs @ [(t, c)]))"
  by simp

lemma held_step:
  assumes "calm e" "held l t w" "l \<le> length (tw_ran w)" "mCb t \<noteq> None"
  shows "held l t (tstep e w)"
proof (cases "ran_after l t w")
  case False
  show ?thesis using assms(1)
  proof (cases rule: calm_cases)
    case 1
    show ?thesis
    proof (cases "tw_pc w")
      case (Handle ts)
      then show ?thesis using 1 assms False by (cases ts) (auto simp: held_def ran_after_def)
    next
      case (Requeue ts)
      then show ?thesis using 1 assms False
        by (cases ts) (auto simp: held_def ran_after_def addTimer_again_def set_insert_keeps)
    qed (use 1 assms False in \<open>auto simp: held_def ran_after_def Let_def ListExpireTimer_eq split: list.splits\<close>)
  next
    case 4
    then show ?thesis using assms(2) by (auto simp: held_def calm_events Add_keeps ran_after_def)
  qed (use assms(2) in \<open>auto simp: held_def ran_after_def\<close>)
qed (use assms ran_after_step in \<open>auto simp: held_def\<close>)

lemma doomed_step:
  assumes "calm e" "doomed l t w" "calm_ok w" "l \<le> length (tw_ran w)" "mCb t \<noteq> None" "tw_clock w < 2 ^ 64"
  shows "doomed l t (tstep e w)"
proof (cases "ran_after l t w")
  case False
  show ?thesis using assms(1)
  proof (cases rule: calm_cases)
    case 1
    show ?thesis
    proof (cases "tw_pc w")
      case (Handle ts)
      then show ?thesis using 1 assms False by (cases ts) (auto simp: doomed_def ran_after_def)
    next
      case (Requeue ts)
      then show ?thesis using 1 assms False by (cases ts) (auto simp: doomed_def ran_after_def calm_ok_def)
    next
      case (Collect n)
      then show ?thesis using 1 assms False by (simp add: doomed_def ran_after_def ListExpireTimer_eq Let_def)
    next
      case Test
      then show ?thesis using 1 assms False
        by (simp add: doomed_def ran_after_def calm_ok_def getCurrentTime_def word_less_nat_alt unat_of_nat)
    qed (use 1 assms False in \<open>auto simp: doomed_def ran_after_def calm_ok_def Let_def split: list.splits\<close>)
  next
    case 4
    then show ?thesis using assms(2) False
      by (simp add: doomed_def calm_events ran_after_def Add_keeps split: pc.splits)
  next
    case 2
    then show ?thesis using assms(2) False
      by (auto simp: doomed_def ran_after_def split: pc.splits)
  next
    case 3
    then show ?thesis using assms(2) False
      by (auto simp: doomed_def ran_after_def split: pc.splits)
  qed
qed (use assms ran_after_step in \<open>auto simp: doomed_def\<close>)

end
