(* ===== verification/Timer_Spec.thy ===== *)
theory Timer_Spec
  imports Timer_Live
begin

text \<open>What the timer manager guarantees, and where the worker thread ends in undefined behaviour.\<close>

section \<open>Timers run\<close>

lemma calm_ok_run: "calm_run e (tinit clk) \<Longrightarrow> calm_ok (trun e (tinit clk) i)"
proof (induction i)
  case 0
  show ?case by (simp add: calm_ok_def tinit_def manager_new_def signal_ok_def)
next
  case (Suc i)
  then show ?case using calm_ok_step[of "e i"] by (simp add: calm_run_def)
qed

lemma ran_prefix: "i \<le> j \<Longrightarrow> \<exists>l. tw_ran (trun e w j) = tw_ran (trun e w i) @ l"
proof (induction j rule: nat_induct_at_least)
  case (Suc j)
  then show ?case using ran_grows[of "e j" "trun e w j"] by auto
qed simp

lemma ran_length: "i \<le> j \<Longrightarrow> length (tw_ran (trun e w i)) \<le> length (tw_ran (trun e w j))"
  using ran_prefix[of i j e w] by auto

lemma steady_held_step:
  assumes "calm e" "steady w" "held l t w" "\<not> ran_after l t w"
  shows "steady (tstep e w)"
proof (cases "tw_pc w = At_while")
  case True
  then have t: "t \<in> set (mTimers (tw_mgr w))" using assms(3,4) by (simp add: held_def)
  have c: "calm_ok (tstep e w)" using assms(1,2) calm_ok_step by (simp add: steady_def)
  show ?thesis using assms(1)
  proof (cases rule: calm_cases)
    case 1
    then show ?thesis using True t c assms(2)
      by (auto simp: steady_def calm_ok_def alive_def split: list.splits)
  qed (use True c in \<open>auto simp: steady_def alive_def calm_events\<close>)
qed (use assms steady_step in blast)

lemma held_run:
  assumes "calm_run e w" "held (length (tw_ran (trun e w i))) t (trun e w i)" "mCb t \<noteq> None" "i \<le> j"
  shows "held (length (tw_ran (trun e w i))) t (trun e w j)"
  using assms(4)
proof (induction j rule: nat_induct_at_least)
  case (Suc j)
  then show ?case using held_step[of "e j" _ t "trun e w j"] assms(1,3) ran_length by (simp add: calm_run_def)
qed (use assms(2) in simp)

lemma steady_or_ran:
  assumes "calm_run e w" "held (length (tw_ran (trun e w i))) t (trun e w i)" "mCb t \<noteq> None" "i \<le> j" "steady (trun e w i)"
  shows "ran_after (length (tw_ran (trun e w i))) t (trun e w j) \<or> steady (trun e w j)"
  using assms(4)
proof (induction j rule: nat_induct_at_least)
  case (Suc j)
  let ?l = "length (tw_ran (trun e w i))"
  have c: "calm (e j)" using assms(1) by (simp add: calm_run_def)
  show ?case
  proof (cases "ran_after ?l t (trun e w j)")
    case True
    then show ?thesis using ran_after_step[of ?l t "trun e w j" "e j"] ran_length[OF Suc.hyps, of e w] by simp
  next
    case False
    then have "steady (trun e w (Suc j))"
      using steady_held_step[OF c _ held_run[OF assms(1-3) Suc.hyps]] Suc.IH by simp
    then show ?thesis by simp
  qed
qed (use assms(5) in simp)

text \<open>From the loop condition on, with the timer due and in the set.\<close>

lemma due_at_while_runs:
  assumes r: "calm_run e (tinit clk)" and l: "l \<le> length (tw_ran (trun e (tinit clk) i))" and cb: "mCb t \<noteq> None"
    and s: "steady (trun e (tinit clk) i)" "tw_pc (trun e (tinit clk) i) = At_while"
    and h: "\<And>j. i \<le> j \<Longrightarrow> held l t (trun e (tinit clk) j)"
    and due: "unat (mTime t) < tw_clock (trun e (tinit clk) i)" and c: "\<forall>j. tw_clock (trun e (tinit clk) j) < 2 ^ 64"
  shows "\<exists>j\<ge>i. ran_after l t (trun e (tinit clk) j)"
proof -
  let ?W = "trun e (tinit clk)"
  obtain j where j: "i \<le> j" "e j = Work" "can_work (?W j)"
    "\<And>k. i \<le> k \<Longrightarrow> k \<le> j \<Longrightarrow> tw_pc (?W k) = tw_pc (?W i)"
    using first_taken[OF r s(1)] by blast
  have pc: "tw_pc (?W j) = At_while" using j(4)[OF j(1) order_refl] s(2) by simp
  show ?thesis
  proof (cases "ran_after l t (?W j)")
    case False
    then have t: "t \<in> set (mTimers (tw_mgr (?W j)))" using h[OF j(1)] pc by (simp add: held_def)
    have ok: "calm_ok (?W j)" by (rule calm_ok_run[OF r])
    have clk: "unat (mTime t) < tw_clock (?W j)" using due trun_clock[OF j(1), of e "tinit clk"] by linarith
    have d: "doomed l t (?W (Suc j))"
      using t pc ok clk j(2) by (auto simp: doomed_def calm_ok_def split: list.splits)
    have st: "steady (?W (Suc j))"
      using t pc ok j(2) calm_ok_run[OF r, of "Suc j"] by (auto simp: steady_def calm_ok_def alive_def split: list.splits)
    obtain k where k: "Suc j \<le> k" "tw_pc (?W k) = At_while" using reach_while[OF r st] by blast
    have "doomed l t (?W k)"
    proof (rule trun_mono[where P = "doomed l t", OF _ d k(1)])
      fix n assume n: "Suc j \<le> n" "doomed l t (?W n)"
      have "calm (e n)" using r by (simp add: calm_run_def)
      moreover have "l \<le> length (tw_ran (?W n))" using l ran_length[of i n e "tinit clk"] j(1) n(1) by linarith
      ultimately show "doomed l t (?W (Suc n))"
        using doomed_step[of "e n" l t "?W n"] n(2) calm_ok_run[OF r, of n] cb c by simp
    qed
    then show ?thesis using k j(1) by (intro exI[of _ k]) (simp add: doomed_def)
  qed (use j(1) in blast)
qed

text \<open>C32: In every fair run in which nobody deletes timers or stops the manager and \<^verbatim>\<open>epoll_wait\<close> does not
  fail, a timer with a callback that is in the set while the worker thread is alive is run, once the
  clock passes its time, whatever other timers are added meanwhile.\<close>

theorem timer_runs:
  assumes "\<forall>i. calm (e i)" "fair_run e (tinit clk)" "\<forall>j. tw_clock (trun e (tinit clk) j) < 2 ^ 64"
    and "alive (tw_pc (trun e (tinit clk) i))" "t \<in> set (mTimers (tw_mgr (trun e (tinit clk) i)))" "mCb t \<noteq> None"
    and "\<exists>j. unat (mTime t) < tw_clock (trun e (tinit clk) j)"
  shows "\<exists>j\<ge>i. \<exists>l c. tw_ran (trun e (tinit clk) j) = tw_ran (trun e (tinit clk) i) @ l \<and> (t, c) \<in> set l"
proof -
  let ?W = "trun e (tinit clk)" and ?l = "length (tw_ran (trun e (tinit clk) i))"
  have r: "calm_run e (tinit clk)" using assms(1,2) by (simp add: calm_run_def)
  have st: "steady (?W i)" using calm_ok_run[OF r, of i] assms(4,5) by (auto simp: steady_def)
  have h: "held ?l t (?W i)" using assms(5) by (simp add: held_def)
  obtain j0 where j0: "unat (mTime t) < tw_clock (?W j0)" using assms(7) by blast
  have "\<exists>j\<ge>i. ran_after ?l t (?W j)"
  proof (cases "ran_after ?l t (?W (max i j0))")
    case False
    then have "steady (?W (max i j0))" using steady_or_ran[OF r h assms(6) _ st, of "max i j0"] by simp
    then obtain k where k: "max i j0 \<le> k" "tw_pc (?W k) = At_while" "steady (?W k)" using reach_while[OF r] by blast
    have "unat (mTime t) < tw_clock (?W k)" using j0 trun_clock[of j0 k e "tinit clk"] k(1) by simp
    moreover have "held ?l t (?W j)" if "k \<le> j" for j using held_run[OF r h assms(6)] that k(1) by simp
    ultimately have "\<exists>j\<ge>k. ran_after ?l t (?W j)"
      using due_at_while_runs[OF r _ assms(6) k(3,2) _ _ assms(3)] ran_length[of i k] k(1) by simp
    then show ?thesis using k(1) by (meson le_trans max.cobounded1)
  qed (use max.cobounded1 in blast)
  then obtain j where j: "i \<le> j" "ran_after ?l t (?W j)" by blast
  then show ?thesis using ran_prefix[OF j(1), of e "tinit clk"] by (fastforce simp: ran_after_def)
qed

text \<open>The worker waits, a timer is added, time passes.\<close>

definition first_events :: "nat \<Rightarrow> event" where
  "first_events i = (if i = 0 then Start True else if i = 1 then Work else if i = 2 then Add 0 (Some 1) 0
     else if i = 3 then Tick 1 else Work)"

definition first_timer :: timer where
  "first_timer = \<lparr>mTime = 0, mRecycleTime = 0, mCb = Some 1, mUniqueId = 1\<rparr>"

definition first_world :: "nat \<Rightarrow> tworld" where
  "first_world i = trun first_events (tinit 0) i"

lemma first_world_Suc: "first_world (Suc i) = tstep (first_events i) (first_world i)"
  by (simp add: first_world_def)

lemma first_world_4: "first_world 4 = \<lparr>tw_mgr = \<lparr>mSignal = 1, mShouldExit = False, mExpireTimerVec = [], mTimers = [first_timer]\<rparr>,
    tw_clock = 1, tw_count = 1, tw_pc = Waiting, tw_n = 0, tw_next = 0, tw_ran = []\<rparr>"
  by (simp add: first_world_def first_events_def numeral_eq_Suc tinit_def manager_new_def addTimer_eq timer_new_def
      first_timer_def getCurrentTime_def tstep.simps(5))

text \<open>From then on the worker does not sleep: the only timer is due.\<close>

definition only_first :: "tworld \<Rightarrow> bool" where
  "only_first w \<longleftrightarrow> tw_clock w = 1 \<and> set (mTimers (tw_mgr w)) \<subseteq> {first_timer} \<and> set (mExpireTimerVec (tw_mgr w)) \<subseteq> {first_timer}
     \<and> (case tw_pc w of Sleeping _ \<Rightarrow> False | Look x \<Rightarrow> x = first_timer | Handle ts \<Rightarrow> set ts \<subseteq> {first_timer}
         | Requeue ts \<Rightarrow> set ts \<subseteq> {first_timer} | _ \<Rightarrow> True)"

lemma next_time_past: "mTime t - getCurrentTime clk = - 1 \<Longrightarrow> next_time t clk = -1"
proof -
  have "ucast (- 1 :: 64 word) = (- 1 :: 32 word)" by (rule bit_word_eqI) (simp add: bit_simps)
  then show "mTime t - getCurrentTime clk = - 1 \<Longrightarrow> next_time t clk = -1" by (simp add: next_time_def)
qed

lemma next_time_first: "next_time first_timer (Suc 0) = -1"
  by (rule next_time_past) (simp add: first_timer_def getCurrentTime_def)

lemma only_first_step: "only_first w \<Longrightarrow> only_first (tstep Work w)"
proof (cases "tw_pc w")
  case (Look x)
  assume "only_first w"
  then show ?thesis using Look
    by (simp add: only_first_def next_time_first)
next
  case (Handle ts)
  assume "only_first w"
  then show ?thesis using Handle by (cases ts) (auto simp: only_first_def)
next
  case (Requeue ts)
  assume "only_first w"
  then show ?thesis using Requeue by (cases ts) (auto simp: only_first_def first_timer_def)
qed (auto simp: only_first_def ListExpireTimer_eq Let_def split: list.splits)

lemma only_first_run: "only_first (first_world (4 + i))"
proof (induction i)
  case 0
  show ?case by (simp add: first_world_4 only_first_def)
next
  case (Suc i)
  have "first_world (4 + Suc i) = tstep Work (first_world (4 + i))"
    using first_world_Suc[of "4 + i"] by (simp add: first_events_def)
  then show ?case using only_first_step[OF Suc] by (simp only:)
qed

lemma first_world_early: "i < 4 \<Longrightarrow> tw_clock (first_world i) = 0 \<and> (\<forall>d. tw_pc (first_world i) \<noteq> Sleeping d)"
  by (auto simp: less_Suc_eq numeral_eq_Suc first_world_def first_events_def tinit_def manager_new_def calm_events)

lemma first_world_facts: "tw_clock (first_world i) \<le> 1 \<and> (\<forall>d. tw_pc (first_world i) \<noteq> Sleeping d)"
proof (cases "i < 4")
  case False
  then show ?thesis using only_first_run[of "i - 4"] by (auto simp: only_first_def)
qed (use first_world_early[of i] in auto)

theorem timer_runs_witness:
  "\<exists>j\<ge>4. \<exists>l c. tw_ran (trun first_events (tinit 0) j) = tw_ran (trun first_events (tinit 0) 4) @ l \<and> (first_timer, c) \<in> set l"
proof (rule timer_runs)
  have w: "trun first_events (tinit 0) = first_world" by (rule ext) (simp add: first_world_def)
  show "\<forall>i. calm (first_events i)" by (simp add: first_events_def calm_def)
  have "\<exists>j\<ge>i. first_events j = Work" for i by (rule exI[of _ "i + 4"]) (simp add: first_events_def)
  then show "fair_run first_events (tinit 0)" using first_world_facts unfolding fair_run_def w by blast
  show "\<forall>j. tw_clock (trun first_events (tinit 0) j) < 2 ^ 64"
    unfolding w using le_less_trans[OF conjunct1[OF first_world_facts], of "2 ^ 64"] by simp
  show "\<exists>j. unat (mTime first_timer) < tw_clock (trun first_events (tinit 0) j)"
    unfolding w by (rule exI[of _ 4]) (simp add: first_world_4 first_timer_def)
qed (simp_all add: first_world_def[symmetric] first_world_4 alive_def first_timer_def)

section \<open>One pass of the loop\<close>

definition again :: "timer \<Rightarrow> bool" where
  "again t \<longleftrightarrow> 0 < mRecycleTime t \<and> mCb t \<noteq> None"

definition next_turn :: "timer \<Rightarrow> timer" where
  "next_turn t = t\<lparr>mTime := mTime t + mRecycleTime t\<rparr>"

text \<open>The part of a pass that deals with the expired timers.\<close>

lemma handle_run:
  assumes "tw_pc w = Handle ds" "parts_ok (mTimers (tw_mgr w)) ds (tw_count w)"
  shows "\<exists>us. truns (replicate (2 * length ds) Work) w = w\<lparr>tw_pc := Handle [], tw_mgr := (tw_mgr w)\<lparr>mTimers := us\<rparr>,
        tw_ran := tw_ran w @ map (\<lambda>t. (t, tw_clock w)) (filter (\<lambda>t. mCb t \<noteq> None) ds)\<rparr>
      \<and> sorted_wrt tless us \<and> set us = set (mTimers (tw_mgr w)) \<union> next_turn ` {t \<in> set ds. again t}"
  using assms
proof (induction ds arbitrary: w)
  case Nil
  then have "w = w\<lparr>tw_pc := Handle [], tw_mgr := (tw_mgr w)\<lparr>mTimers := mTimers (tw_mgr w)\<rparr>, tw_ran := tw_ran w @ []\<rparr>" by simp
  then show ?case using Nil by (intro exI[of _ "mTimers (tw_mgr w)"]) (simp add: parts_ok_def)
next
  case (Cons t ds)
  let ?w = "tstep Work (tstep Work w)"
  let ?ts = "if again t then fst (set_insert (next_turn t) (mTimers (tw_mgr w))) else mTimers (tw_mgr w)"
  have w: "?w = w\<lparr>tw_pc := Handle ds, tw_mgr := (tw_mgr w)\<lparr>mTimers := ?ts\<rparr>,
      tw_ran := tw_ran w @ (if mCb t \<noteq> None then [(t, tw_clock w)] else [])\<rparr>"
    using Cons.prems(1) by (simp add: again_def next_turn_def addTimer_again_def)
  have id: "mUniqueId (next_turn t) = mUniqueId t" by (simp add: next_turn_def)
  have p: "parts_ok ?ts ds (tw_count w)"
    using parts_ok_again[OF Cons.prems(2) id] parts_ok_fewer[OF Cons.prems(2)] by simp
  have "mUniqueId t \<notin> mUniqueId ` set (mTimers (tw_mgr w))"
  proof -
    have "count (image_mset mUniqueId (mset (mTimers (tw_mgr w) @ t # ds))) (mUniqueId t) \<le> 1"
      using Cons.prems(2) unfolding parts_ok_def by blast
    then have "count (image_mset mUniqueId (mset (mTimers (tw_mgr w)))) (mUniqueId t) = 0" by simp
    then show ?thesis by (simp add: count_eq_zero_iff)
  qed
  then have ts: "set ?ts = set (mTimers (tw_mgr w)) \<union> next_turn ` {u. u = t \<and> again u}"
    using set_insert_mset(3)[of "next_turn t" "mTimers (tw_mgr w)"] id by auto
  obtain us where us: "truns (replicate (2 * length ds) Work) ?w = ?w\<lparr>tw_pc := Handle [], tw_mgr := (tw_mgr ?w)\<lparr>mTimers := us\<rparr>,
        tw_ran := tw_ran ?w @ map (\<lambda>t. (t, tw_clock ?w)) (filter (\<lambda>t. mCb t \<noteq> None) ds)\<rparr>"
    "sorted_wrt tless us" "set us = set ?ts \<union> next_turn ` {t \<in> set ds. again t}"
    using Cons.IH[of ?w] p unfolding w by auto
  have "set us = set (mTimers (tw_mgr w)) \<union> next_turn ` {u \<in> set (t # ds). again u}" using us(3) ts by auto
  moreover have "truns (replicate (2 * length (t # ds)) Work) w = truns (replicate (2 * length ds) Work) ?w" by simp
  ultimately show ?case using us(1,2) unfolding w by (intro exI[of _ us]) (simp del: tstep.simps)
qed

lemma truns_append: "truns (xs @ ys) w = truns ys (truns xs w)"
  by (induction xs arbitrary: w) simp_all

text \<open>One pass of the loop, when the first timer is due or the narrowed wait is not positive: exactly
  the timers whose time is before now run, once each, in the order of their times and numbers; those with
  a period are back in the set at their old time plus the period, the others are gone, and the rest
  stays. The set is in order again and the list of expired timers empty.\<close>

theorem loop_pass:
  assumes inv: "timers_ok w" and pc: "tw_pc w = At_while" "\<not> mShouldExit (tw_mgr w)" "tw_n w = 0"
    and ts: "mTimers (tw_mgr w) = t # ts" "next_time t (tw_clock w) \<le> 0"
    and due_def: "due = takeWhile (\<lambda>t. mTime t < getCurrentTime (tw_clock w)) (t # ts)"
  shows "\<exists>us. truns (replicate (2 * length due + 6) Work) w = w\<lparr>tw_mgr := (tw_mgr w)\<lparr>mTimers := us\<rparr>,
        tw_next := next_time t (tw_clock w), tw_ran := tw_ran w @ map (\<lambda>t. (t, tw_clock w)) (filter (\<lambda>t. mCb t \<noteq> None) due)\<rparr>
      \<and> sorted_wrt tless us
      \<and> set us = set (dropWhile (\<lambda>t. mTime t < getCurrentTime (tw_clock w)) (t # ts)) \<union> next_turn ` {t \<in> set due. again t}"
proof -
  let ?now = "getCurrentTime (tw_clock w)"
  define rest where "rest = dropWhile (\<lambda>t. mTime t < ?now) (t # ts)"
  have p: "parts_ok (t # ts) [] (tw_count w)" and v: "mExpireTimerVec (tw_mgr w) = []"
    using inv pc(1) ts(1) by (auto simp: timers_ok_def set_ok_parts vec_ok_def)
  then have s: "sorted_wrt tless (t # ts)" by (simp add: parts_ok_def)
  have f: "filter (\<lambda>t. mTime t < ?now) (t # ts) = due" "filter (\<lambda>t. \<not> mTime t < ?now) (t # ts) = rest"
    unfolding due_def rest_def using filter_prefix[OF s] by blast+
  let ?w = "w\<lparr>tw_next := next_time t (tw_clock w), tw_pc := Handle due,
      tw_mgr := (tw_mgr w)\<lparr>mExpireTimerVec := due, mTimers := rest\<rparr>\<rparr>"
  have start: "truns (replicate 4 Work) w = ?w"
    using pc ts v f by (simp add: numeral_eq_Suc ListExpireTimer_eq Let_def)
  have "parts_ok rest due (tw_count w)" using parts_ok_expire[OF p, of "\<lambda>t. mTime t < ?now"] unfolding f .
  then obtain us where us: "truns (replicate (2 * length due) Work) ?w = ?w\<lparr>tw_pc := Handle [], tw_mgr := (tw_mgr ?w)\<lparr>mTimers := us\<rparr>,
        tw_ran := tw_ran ?w @ map (\<lambda>t. (t, tw_clock ?w)) (filter (\<lambda>t. mCb t \<noteq> None) due)\<rparr>"
    "sorted_wrt tless us" "set us = set rest \<union> next_turn ` {t \<in> set due. again t}"
    using handle_run[of ?w due] by auto
  have length_Suc: "2 * length due + 6 = 4 + (2 * length due + 2)" by simp
  have "replicate (2 * length due + 6) Work = replicate 4 Work @ replicate (2 * length due) Work @ replicate 2 Work"
    unfolding length_Suc by (simp only: replicate_add)
  then have "truns (replicate (2 * length due + 6) Work) w = truns (replicate 2 Work) (truns (replicate (2 * length due) Work) ?w)"
    by (simp only: truns_append start)
  also have "\<dots> = w\<lparr>tw_mgr := (tw_mgr w)\<lparr>mTimers := us\<rparr>, tw_next := next_time t (tw_clock w),
      tw_ran := tw_ran w @ map (\<lambda>t. (t, tw_clock w)) (filter (\<lambda>t. mCb t \<noteq> None) due)\<rparr>"
    unfolding us(1) using pc v by (simp add: numeral_eq_Suc)
  finally show ?thesis using us(2,3) unfolding rest_def by blast
qed

definition three_timers :: "timer list" where
  "three_timers = [\<lparr>mTime = 9, mRecycleTime = 0, mCb = Some 1, mUniqueId = 2\<rparr>,
     \<lparr>mTime = 9, mRecycleTime = 20, mCb = Some 2, mUniqueId = 3\<rparr>, \<lparr>mTime = 50, mRecycleTime = 0, mCb = Some 3, mUniqueId = 1\<rparr>]"

definition three_world :: tworld where
  "three_world = \<lparr>tw_mgr = \<lparr>mSignal = 0, mShouldExit = False, mExpireTimerVec = [], mTimers = three_timers\<rparr>,
     tw_clock = 10, tw_count = 3, tw_pc = At_while, tw_n = 0, tw_next = 0, tw_ran = []\<rparr>"

lemma three_world_ok: "timers_ok three_world"
  by (simp add: timers_ok_def three_world_def three_timers_def set_ok_def signal_ok_def times_ok_def vec_ok_def tless_simps)

theorem loop_pass_witness:
  "\<exists>us. truns (replicate 10 Work) three_world = three_world\<lparr>tw_mgr := (tw_mgr three_world)\<lparr>mTimers := us\<rparr>, tw_next := -1,
       tw_ran := [(three_timers ! 0, 10), (three_timers ! 1, 10)]\<rparr>
     \<and> sorted_wrt tless us \<and> set us = {three_timers ! 2, (three_timers ! 1)\<lparr>mTime := 29\<rparr>}"
proof -
  have n: "next_time (hd three_timers) 10 = -1"
    by (rule next_time_past) (simp add: three_timers_def getCurrentTime_def)
  have d: "takeWhile (\<lambda>t. mTime t < getCurrentTime 10) three_timers = [three_timers ! 0, three_timers ! 1]"
    "dropWhile (\<lambda>t. mTime t < getCurrentTime 10) three_timers = [three_timers ! 2]"
    by (simp_all add: three_timers_def getCurrentTime_def)
  have "{t \<in> set [three_timers ! 0, three_timers ! 1]. again t} = {three_timers ! 1}"
    by (auto simp: three_timers_def again_def)
  then have a: "next_turn ` {t \<in> set [three_timers ! 0, three_timers ! 1]. again t} = {(three_timers ! 1)\<lparr>mTime := 29\<rparr>}"
    by (simp add: next_turn_def three_timers_def)
  have c: "three_timers ! 0 # tl three_timers = three_timers" "hd three_timers = three_timers ! 0" by (simp_all add: three_timers_def)
  have f: "filter (\<lambda>t. mCb t \<noteq> None) [three_timers ! 0, three_timers ! 1] = [three_timers ! 0, three_timers ! 1]"
    by (simp add: three_timers_def)
  have w: "tw_clock three_world = 10" "mTimers (tw_mgr three_world) = three_timers" "tw_ran three_world = []"
    "tw_pc three_world = At_while" "\<not> mShouldExit (tw_mgr three_world)" "tw_n three_world = 0" by (simp_all add: three_world_def)
  show ?thesis
    using loop_pass[OF three_world_ok w(4-6), of "three_timers ! 0" "tl three_timers" "[three_timers ! 0, three_timers ! 1]"] n
    unfolding c w d f a by auto
qed

section \<open>Invariants\<close>

text \<open>C33: After any events, fewer than \<^term>\<open>2 ^ 64 :: nat\<close> of them: the set is in the order of times and numbers, no two
  timers held by the manager share a number, no timer has run before its time, and a worker that waits
  on the semaphore while there are timers has been signalled.\<close>

theorem timers_invariant:
  assumes "length es < 2 ^ 64"
  shows "timers_ok (truns es (tinit clk))"
  using timers_ok_run[OF timers_ok_init] assms by (simp add: tinit_def)

theorem timers_invariant_witness:
  "timers_ok (truns [Add 5 (Some 1) 0, Start True, Work, Tick 6] (tinit 0))"
  using timers_invariant[of "[Add 5 (Some 1) 0, Start True, Work, Tick 6]" 0] by simp

section \<open>The end of the thread\<close>

text \<open>The worker takes the first element of an empty set, which is undefined behaviour, when a signal is
  pending as it finds the set empty: so it does after every timer that was added before the thread was
  started and ran once; and when the manager is stopped while the worker waits.\<close>

theorem worker_crashes:
  assumes "0 < ms" "ms < 2 ^ 31" "clk + ms + 1 < 2 ^ 64"
  shows "(let w = truns ([Add (of_nat ms) (Some cb) 0, Start True, Work, Work, Tick (ms + 1)] @ replicate 7 Work) (tinit clk) in
      map (mCb \<circ> fst) (tw_ran w) = [Some cb] \<and> tw_pc w = At_while \<and> tw_pc (truns [Work, Work, Work] w) = Crashed)
    \<and> tw_pc (truns [Start True, Work, Stop, Work, Work] (tinit clk)) = Crashed"
proof -
  let ?c = "of_nat clk :: 64 word" and ?m = "of_nat ms :: 64 word"
  have u: "ucast ?m = (of_nat ms :: 32 word)"
    by (rule bit_word_eqI) (simp add: bit_simps)
  have n: "sint (ucast ?m :: 32 word) = int ms"
    unfolding u using assms(2) by (simp add: signed_of_nat signed_take_bit_int_eq_self)
  have c: "?c + ?m = of_nat (clk + ms)" by simp
  have l: "?c + ?m < of_nat (clk + ms + 1)"
    using assms(3) unfolding c by (simp only: word_less_nat_alt unat_of_nat) simp
  show ?thesis
    using assms(1) n l
    by (simp add: numeral_eq_Suc tstep.simps(5) addTimer_eq timer_new_def tinit_def manager_new_def next_time_def getCurrentTime_def
        ListExpireTimer_eq stopTimer_def Let_def)
qed

theorem worker_crashes_witness:
  "tw_pc (truns [Work, Work, Work] (truns ([Add (of_nat 5) (Some 1) 0, Start True, Work, Work, Tick (5 + 1)] @ replicate 7 Work) (tinit 100)))
    = Crashed"
proof -
  have "0 < (5::nat)" "5 < (2::nat) ^ 31" "100 + 5 + 1 < (2::nat) ^ 64" by simp_all
  from worker_crashes[OF this, of 1] show ?thesis unfolding Let_def by blast
qed

end
