(* ===== verification/Bitmap.thy ===== *)
theory Bitmap
  imports Prelude
begin

unbundle bit_operations_syntax

text \<open>
  The class \<^verbatim>\<open>BitMap\<close> of \<^verbatim>\<open>src/utils/src/bitmap.cpp\<close>, on a heap of blocks of bytes. \<^verbatim>\<open>malloc\<close> may fail: whether
  it does is an argument of the functions that call it. \<^term>\<open>None\<close> is an access outside a block or to a
  freed one; an exception is the left value of a result. Capacities are 32-bit and wrap.
\<close>

section \<open>Memory\<close>

record bheap =
  bh_blocks :: "addr \<Rightarrow> 8 word list option"
  bh_next :: addr
  bh_junk :: "addr \<Rightarrow> nat \<Rightarrow> 8 word"

definition bh_malloc :: "bool \<Rightarrow> bheap \<Rightarrow> nat \<Rightarrow> ptr \<times> bheap" where
  "bh_malloc ok h n =
    (if ok
     then (Some (bh_next h), h\<lparr>bh_blocks := (bh_blocks h)(bh_next h \<mapsto> map (bh_junk h (bh_next h)) [0..<n]), bh_next := bh_next h + 1\<rparr>)
     else (None, h))"

definition bh_free :: "bheap \<Rightarrow> addr \<Rightarrow> bheap option" where
  "bh_free h a = do { _ \<leftarrow> bh_blocks h a; Some (h\<lparr>bh_blocks := (bh_blocks h)(a := None)\<rparr>) }"

text \<open>Reading and writing the first bytes of a block; nothing is accessed when the number is 0.\<close>

definition bh_read :: "bheap \<Rightarrow> ptr \<Rightarrow> nat \<Rightarrow> 8 word list option" where
  "bh_read h p n =
    (if n = 0 then Some []
     else do { a \<leftarrow> p; d \<leftarrow> bh_blocks h a; if n \<le> length d then Some (take n d) else None })"

definition bh_write :: "bheap \<Rightarrow> ptr \<Rightarrow> 8 word list \<Rightarrow> bheap option" where
  "bh_write h p bs =
    (if bs = [] then Some h
     else do {
       a \<leftarrow> p; d \<leftarrow> bh_blocks h a;
       if length bs \<le> length d then Some (h\<lparr>bh_blocks := (bh_blocks h)(a \<mapsto> bs @ drop (length bs) d)\<rparr>) else None })"

section \<open>The object\<close>

record bitmap =
  mBitMap :: ptr
  mCapacity :: "32 word"

definition DEFAULT_SIZE :: "32 word" where "DEFAULT_SIZE = 1024"

text \<open>The tables \<^verbatim>\<open>init\<close> fills.\<close>

definition POS :: "8 word list" where "POS = map (\<lambda>i. push_bit i 1) [0..<8]"
definition NPOS :: "8 word list" where "NPOS = map (\<lambda>w. NOT w) POS"

definition bitmap_alloc :: "bool \<Rightarrow> bheap \<Rightarrow> bitmap \<Rightarrow> 32 word \<Rightarrow> (ptr \<times> bitmap \<times> bheap) option" where
  "bitmap_alloc ok h b bitSize =
    (let bytes = bitSize div 8 + (if bitSize mod 8 \<noteq> 0 then 1 else 0);
         b = b\<lparr>mCapacity := 0\<rparr>;
         (p, h) = bh_malloc ok h (unat bytes) in
     case p of
       None \<Rightarrow> Some (None, b, h)
     | Some a \<Rightarrow> do {
         h \<leftarrow> bh_write h (Some a) (replicate (unat bytes) 0);
         Some (Some a, b\<lparr>mCapacity := bytes * 8\<rparr>, h) })"

definition bitmap_release :: "bheap \<Rightarrow> bitmap \<Rightarrow> (bitmap \<times> bheap) option" where
  "bitmap_release h b = (case mBitMap b of
     None \<Rightarrow> Some (b, h)
   | Some a \<Rightarrow> do { h \<leftarrow> bh_free h a; Some (b\<lparr>mBitMap := None\<rparr>, h) })"

definition bitmap_reserve :: "bool \<Rightarrow> bheap \<Rightarrow> bitmap \<Rightarrow> 32 word \<Rightarrow> (bool \<times> bitmap \<times> bheap) option" where
  "bitmap_reserve ok h b bitSize =
    (if bitSize \<le> mCapacity b then Some (True, b, h)
     else do {
       let oldCap = mCapacity b;
       (newBitMap, b, h) \<leftarrow> bitmap_alloc ok h b bitSize;
       if newBitMap = None then Some (False, b\<lparr>mCapacity := oldCap\<rparr>, h)
       else do {
         let bytes = (if mCapacity b < oldCap then mCapacity b div 8 else oldCap div 8);
         d \<leftarrow> bh_read h (mBitMap b) (unat bytes);
         h \<leftarrow> bh_write h newBitMap d;
         (b, h) \<leftarrow> bitmap_release h b;
         Some (True, b\<lparr>mBitMap := newBitMap\<rparr>, h) } })"

text \<open>Constructors, destructor and assignment.\<close>

definition bitmap_null :: bitmap where "bitmap_null = \<lparr>mBitMap = None, mCapacity = 0\<rparr>"

definition bitmap_new :: "bool \<Rightarrow> bheap \<Rightarrow> (bitmap \<times> bheap) option" where
  "bitmap_new ok h = do { (p, b, h) \<leftarrow> bitmap_alloc ok h bitmap_null DEFAULT_SIZE; Some (b\<lparr>mBitMap := p\<rparr>, h) }"

definition bitmap_new_size :: "bool \<Rightarrow> bheap \<Rightarrow> 32 word \<Rightarrow> (bitmap \<times> bheap) option" where
  "bitmap_new_size ok h bitSize = do { (_, b, h) \<leftarrow> bitmap_reserve ok h bitmap_null bitSize; Some (b, h) }"

text \<open>The number of bytes that are copied is the capacity in bits.\<close>

definition bitmap_new_copy :: "bool \<Rightarrow> bheap \<Rightarrow> bitmap \<Rightarrow> (bitmap \<times> bheap) option" where
  "bitmap_new_copy ok h other =
    (if mBitMap other \<noteq> None \<and> mCapacity other \<noteq> 0
     then do {
       (p, b, h) \<leftarrow> bitmap_alloc ok h bitmap_null (mCapacity other);
       d \<leftarrow> bh_read h (mBitMap other) (unat (mCapacity b));
       h \<leftarrow> bh_write h p d;
       Some (b\<lparr>mBitMap := p\<rparr>, h) }
     else Some (bitmap_null, h))"

text \<open>Assignment from another object forgets the block and copies like the constructor.\<close>

definition bitmap_assign :: "bool \<Rightarrow> bheap \<Rightarrow> bitmap \<Rightarrow> bitmap \<Rightarrow> (bitmap \<times> bheap) option" where
  "bitmap_assign ok h b other =
    (let b = b\<lparr>mBitMap := None, mCapacity := 0\<rparr> in
     if mBitMap other \<noteq> None \<and> mCapacity other \<noteq> 0
     then do {
       (p, b, h) \<leftarrow> bitmap_alloc ok h b (mCapacity other);
       d \<leftarrow> bh_read h (mBitMap other) (unat (mCapacity b));
       h \<leftarrow> bh_write h p d;
       Some (b\<lparr>mBitMap := p\<rparr>, h) }
     else Some (b, h))"

definition bitmap_delete :: "bheap \<Rightarrow> bitmap \<Rightarrow> bheap option" where
  "bitmap_delete h b = do { (_, h) \<leftarrow> bitmap_release h b; Some h }"

section \<open>Bits\<close>

definition bitmap_nullThrow :: "bitmap \<Rightarrow> unit + addr" where
  "bitmap_nullThrow b = (case mBitMap b of None \<Rightarrow> Inl () | Some a \<Rightarrow> Inr a)"

definition bitmap_set :: "bheap \<Rightarrow> bitmap \<Rightarrow> 32 word \<Rightarrow> bool \<Rightarrow> ((unit + bool) \<times> bheap) option" where
  "bitmap_set h b idx v =
    (if mCapacity b \<le> idx then Some (Inr False, h)
     else case bitmap_nullThrow b of
       Inl e \<Rightarrow> Some (Inl e, h)
     | Inr a \<Rightarrow> do {
         let index = unat (idx div 8);
         let pos = unat (idx mod 8);
         d \<leftarrow> bh_blocks h a;
         if index < length d
         then do {
           let value = (if v then d ! index OR POS ! pos else d ! index AND NPOS ! pos);
           Some (Inr True, h\<lparr>bh_blocks := (bh_blocks h)(a \<mapsto> d[index := value])\<rparr>) }
         else None })"

definition bitmap_at :: "bheap \<Rightarrow> bitmap \<Rightarrow> 32 word \<Rightarrow> (unit + bool) option" where
  "bitmap_at h b idx =
    (if mCapacity b \<le> idx then Some (Inr False)
     else case bitmap_nullThrow b of
       Inl e \<Rightarrow> Some (Inl e)
     | Inr a \<Rightarrow> do {
         let index = unat (idx div 8);
         let pos = unat (idx mod 8);
         d \<leftarrow> bh_blocks h a;
         if index < length d then Some (Inr (d ! index AND POS ! pos \<noteq> 0)) else None })"

definition bitmap_clear :: "bheap \<Rightarrow> bitmap \<Rightarrow> bheap option" where
  "bitmap_clear h b = bh_write h (mBitMap b) (replicate (unat (mCapacity b div 8)) 0)"

text \<open>\<^verbatim>\<open>__builtin_popcount\<close> counts the bits that are set.\<close>

definition popcount :: "32 word \<Rightarrow> 32 word" where
  "popcount n = of_nat (length (filter (bit n) [0..<32]))"

definition count_bits_u8 :: "8 word \<Rightarrow> 32 word" where
  "count_bits_u8 v = popcount (ucast v)"

definition count_bits_u64 :: "64 word \<Rightarrow> 64 word" where
  "count_bits_u64 v = ucast (popcount (ucast (v AND 0xFFFFFFFF)) + popcount (ucast (drop_bit 32 v)))"

definition u64_of :: "8 word list \<Rightarrow> 64 word" where
  "u64_of bs = foldr (\<lambda>b w. ucast b OR push_bit 8 w) bs 0"

text \<open>The loop over 64-bit words, with the index and the number of words left; then the one over the bytes left.\<close>

fun count_words :: "8 word list \<Rightarrow> nat \<Rightarrow> nat \<Rightarrow> 32 word \<Rightarrow> 32 word option" where
  "count_words d i 0 count = Some count"
| "count_words d i (Suc k) count =
    (if 8 * i + 8 \<le> length d
     then count_words d (i + 1) k (ucast (ucast count + count_bits_u64 (u64_of (take 8 (drop (8 * i) d)))))
     else None)"

fun count_bytes :: "8 word list \<Rightarrow> nat \<Rightarrow> nat \<Rightarrow> 32 word \<Rightarrow> 32 word option" where
  "count_bytes d i 0 count = Some count"
| "count_bytes d i (Suc k) count =
    (if i < length d
     then count_bytes d (i + 1) k (if d ! i \<noteq> 0 then count + count_bits_u8 (d ! i) else count)
     else None)"

definition bitmap_count :: "bheap \<Rightarrow> bitmap \<Rightarrow> 32 word option" where
  "bitmap_count h b = do {
     let bytes = mCapacity b div 8;
     let len = unat (bytes div 8);
     let reserveSize = unat (bytes mod 8);
     d \<leftarrow> (if bytes = 0 then Some [] else do { a \<leftarrow> mBitMap b; bh_blocks h a });
     count \<leftarrow> count_words d 0 len 0;
     count_bytes d (8 * len) reserveSize count }"

section \<open>Sequences of operations\<close>

datatype bit_op = SetBit "32 word" bool | AtBit "32 word" | ClearBits | Count | Capacity | Reserve bool "32 word"

datatype bit_result = Flag bool | Number "32 word" | Nothing | Exception

definition result_of :: "unit + bool \<Rightarrow> bit_result" where
  "result_of r = (case r of Inl _ \<Rightarrow> Exception | Inr v \<Rightarrow> Flag v)"

fun bitmap_do :: "bit_op \<Rightarrow> bheap \<Rightarrow> bitmap \<Rightarrow> (bit_result \<times> bitmap \<times> bheap) option" where
  "bitmap_do (SetBit i v) h b = do { (r, h) \<leftarrow> bitmap_set h b i v; Some (result_of r, b, h) }"
| "bitmap_do (AtBit i) h b = do { r \<leftarrow> bitmap_at h b i; Some (result_of r, b, h) }"
| "bitmap_do ClearBits h b = do { h \<leftarrow> bitmap_clear h b; Some (Nothing, b, h) }"
| "bitmap_do Count h b = do { n \<leftarrow> bitmap_count h b; Some (Number n, b, h) }"
| "bitmap_do Capacity h b = Some (Number (mCapacity b), b, h)"
| "bitmap_do (Reserve ok n) h b = do { (r, b, h) \<leftarrow> bitmap_reserve ok h b n; Some (Flag r, b, h) }"

fun bitmap_run :: "bit_op list \<Rightarrow> bheap \<Rightarrow> bitmap \<Rightarrow> (bit_result list \<times> bitmap \<times> bheap) option" where
  "bitmap_run [] h b = Some ([], b, h)"
| "bitmap_run (x # xs) h b = do {
     (r, b, h) \<leftarrow> bitmap_do x h b;
     (rs, b, h) \<leftarrow> bitmap_run xs h b;
     Some (r # rs, b, h) }"

end
