(* ===== verification/Bitmap_Laws.thy ===== *)
theory Bitmap_Laws
  imports Bitmap
begin

text \<open>A bit map stands for the list of its bits: what each operation does to that list.\<close>

section \<open>The bits of a block\<close>

definition flat :: "8 word list \<Rightarrow> bool list" where
  "flat d = concat (map (\<lambda>w. map (bit w) [0..<8]) d)"

definition ones :: "bool list \<Rightarrow> nat" where
  "ones bs = length (filter (\<lambda>v. v) bs)"

lemma flat_simps [simp]:
  "flat [] = []" "flat (w # d) = map (bit w) [0..<8] @ flat d" "flat (d @ e) = flat d @ flat e"
  by (simp_all add: flat_def)

lemma flat_length [simp]: "length (flat d) = 8 * length d"
  by (induction d) (simp_all del: upt_Suc upt_rec_numeral)

lemma flat_nth: "i < 8 * length d \<Longrightarrow> flat d ! i = bit (d ! (i div 8)) (i mod 8)"
proof (induction d arbitrary: i)
  case (Cons w d)
  show ?case
  proof (cases "i < 8")
    case False
    then obtain j where j: "i = 8 + j" using le_Suc_ex[of 8 i] by auto
    then have "i div 8 = Suc (j div 8)" "i mod 8 = j mod 8" by simp_all
    then show ?thesis using Cons j by (simp del: upt_Suc upt_rec_numeral add: nth_append)
  qed (simp del: upt_Suc upt_rec_numeral add: nth_append)
qed simp

lemma flat_take: "flat (take n d) = take (8 * n) (flat d)"
proof (induction d arbitrary: n)
  case (Cons w d)
  then show ?case by (cases n) (simp_all del: upt_Suc upt_rec_numeral)
qed simp

lemma flat_drop: "flat (drop n d) = drop (8 * n) (flat d)"
proof (induction d arbitrary: n)
  case (Cons w d)
  then show ?case by (cases n) (simp_all del: upt_Suc upt_rec_numeral)
qed simp

lemma flat_zeros [simp]: "flat (replicate n 0) = replicate (8 * n) False"
  by (rule nth_equalityI) (simp_all add: flat_nth)

lemma flat_update:
  assumes "i < 8 * length d" "\<And>k. k < 8 \<Longrightarrow> bit w k = (if k = i mod 8 then v else bit (d ! (i div 8)) k)"
  shows "flat (d[i div 8 := w]) = (flat d)[i := v]"
proof (rule nth_equalityI)
  fix j assume j: "j < length (flat (d[i div 8 := w]))"
  show "flat (d[i div 8 := w]) ! j = (flat d)[i := v] ! j"
  proof (cases "j div 8 = i div 8")
    case True
    have "j = i \<longleftrightarrow> j mod 8 = i mod 8" using True by (metis div_mult_mod_eq)
    then show ?thesis using j assms True by (auto simp: flat_nth nth_list_update)
  qed (use j assms(1) in \<open>auto simp: flat_nth nth_list_update\<close>)
qed simp

lemma ones_append [simp]: "ones (xs @ ys) = ones xs + ones ys"
  by (simp add: ones_def)

lemma ones_map: "length (filter P xs) = ones (map P xs)"
  by (simp add: ones_def filter_map comp_def)

lemma ones_le: "ones bs \<le> length bs"
  by (simp add: ones_def)

lemma ones_False [simp]: "ones (replicate n False) = 0"
  by (simp add: ones_def)

lemma ones_Nil [simp]: "ones [] = 0"
  by (simp add: ones_def)

section \<open>Counting\<close>

lemma count_bits_u8_eq: "count_bits_u8 w = of_nat (ones (map (bit w) [0..<8]))"
proof -
  have s: "[0..<32] = [0..<8] @ [8..<32::nat]" using upt_add_eq_append[of 0 8 24] by (simp del: upt_rec_numeral)
  have lo: "map (bit (ucast w :: 32 word)) [0..<8] = map (bit w) [0..<8]" by (simp del: upt_rec_numeral add: bit_simps)
  have hi: "map (bit (ucast w :: 32 word)) [8..<32] = replicate 24 False"
    by (rule nth_equalityI) (auto simp del: upt_rec_numeral simp: bit_simps dest: bit_imp_le_length)
  show ?thesis unfolding count_bits_u8_def popcount_def ones_map s map_append ones_append lo hi by simp
qed

lemma count_bits_u64_eq: "count_bits_u64 v = of_nat (ones (map (bit v) [0..<64]))"
proof -
  have s: "[0..<64] = [0..<32] @ [32..<64::nat]" using upt_add_eq_append[of 0 32 32] by (simp del: upt_rec_numeral)
  have m: "(0xFFFFFFFF :: 64 word) = mask 32" by (simp add: mask_eq_exp_minus_1)
  have lo: "map (bit (ucast (v AND 0xFFFFFFFF) :: 32 word)) [0..<32] = map (bit v) [0..<32]"
    unfolding m by (simp del: upt_rec_numeral add: bit_simps)
  have hi: "map (bit (ucast (drop_bit 32 v) :: 32 word)) [0..<32] = map (bit v) [32..<64]"
    by (rule nth_equalityI) (simp_all del: upt_rec_numeral add: bit_simps)
  have b: "ones (map (bit v) [0..<32]) + ones (map (bit v) [32..<64]) \<le> 64"
    using ones_le[of "map (bit v) [0..<32]"] ones_le[of "map (bit v) [32..<64]"] by simp
  have u: "ucast (of_nat n :: 32 word) = (of_nat n :: 64 word)" if "n \<le> 64" for n
    using that by (simp add: unsigned_of_nat take_bit_nat_eq_self)
  show ?thesis
    unfolding count_bits_u64_def popcount_def ones_map lo hi s map_append ones_append of_nat_add[symmetric]
    using u[OF b] by simp
qed

lemma u64_of_bit: "length bs \<le> 8 \<Longrightarrow> bit (u64_of bs) i \<longleftrightarrow> i < 8 * length bs \<and> flat bs ! i"
proof (induction bs arbitrary: i)
  case (Cons b bs)
  have "u64_of (b # bs) = ucast b OR push_bit 8 (u64_of bs)" by (simp add: u64_of_def)
  moreover have "bit (u64_of bs) (i - 8) \<longleftrightarrow> i - 8 < 8 * length bs \<and> flat bs ! (i - 8)" using Cons by simp
  ultimately show ?case using Cons.prems
    by (auto simp: bit_simps nth_append simp del: upt_rec_numeral dest: bit_imp_le_length)
qed (simp add: u64_of_def)

lemma u64_of_bits: "length bs = 8 \<Longrightarrow> map (bit (u64_of bs)) [0..<64] = flat bs"
  by (rule nth_equalityI) (simp_all del: upt_rec_numeral add: u64_of_bit)

lemma ucast_add_nat: "ucast (ucast c + of_nat n :: 64 word) = (c + of_nat n :: 32 word)"
proof -
  have "take_bit 32 (take_bit 64 (take_bit 32 k + int n)) = take_bit 32 (k + int n)" for k
    by (simp add: take_bit_eq_mod mod_mod_cancel mod_add_left_eq)
  then show ?thesis by transfer simp
qed

lemma count_words_eq:
  "8 * (i + k) \<le> length d \<Longrightarrow> count_words d i k c = Some (c + of_nat (ones (take (64 * k) (drop (64 * i) (flat d)))))"
proof (induction k arbitrary: i c)
  case (Suc k)
  let ?bs = "take 8 (drop (8 * i) d)"
  have l: "length ?bs = 8" using Suc.prems by simp
  have f: "flat ?bs = take 64 (drop (64 * i) (flat d))" by (simp add: flat_take flat_drop)
  have c: "ucast (ucast c + count_bits_u64 (u64_of ?bs)) = c + of_nat (ones (flat ?bs))"
    unfolding count_bits_u64_eq u64_of_bits[OF l]
    by (rule ucast_add_nat)
  have "take (64 * Suc k) (drop (64 * i) (flat d)) = take 64 (drop (64 * i) (flat d)) @ take (64 * k) (drop (64 * (i + 1)) (flat d))"
    using take_add[of 64 "64 * k" "drop (64 * i) (flat d)"] by (simp add: add.commute)
  then have "ones (take (64 * Suc k) (drop (64 * i) (flat d))) = ones (flat ?bs) + ones (take (64 * k) (drop (64 * (i + 1)) (flat d)))"
    unfolding f by simp
  then show ?case using Suc.IH[of "i + 1"] Suc.prems c by (simp add: add.assoc)
qed simp

lemma count_bytes_eq:
  "i + k \<le> length d \<Longrightarrow> count_bytes d i k c = Some (c + of_nat (ones (take (8 * k) (drop (8 * i) (flat d)))))"
proof (induction k arbitrary: i c)
  case (Suc k)
  have "take 1 (drop i d) = [d ! i]" using Suc.prems by (simp add: take_Suc_conv_app_nth)
  then have f: "map (bit (d ! i)) [0..<8] = take 8 (drop (8 * i) (flat d))"
    using flat_take[of 1 "drop i d"] by (simp add: flat_drop del: upt_rec_numeral)
  have "(if d ! i \<noteq> 0 then c + count_bits_u8 (d ! i) else c) = c + of_nat (ones (map (bit (d ! i)) [0..<8]))"
    by (simp add: count_bits_u8_eq ones_def del: upt_rec_numeral)
  moreover have "take (8 * Suc k) (drop (8 * i) (flat d)) = take 8 (drop (8 * i) (flat d)) @ take (8 * k) (drop (8 * (i + 1)) (flat d))"
    using take_add[of 8 "8 * k" "drop (8 * i) (flat d)"] by (simp add: add.commute)
  ultimately show ?case using Suc.IH[of "i + 1"] Suc.prems unfolding f[symmetric] by (simp add: add.assoc del: upt_rec_numeral)
qed simp

section \<open>What an object stands for\<close>

definition bitmap_rel :: "bheap \<Rightarrow> bitmap \<Rightarrow> bool list \<Rightarrow> bool" where
  "bitmap_rel h b bs \<longleftrightarrow> mCapacity b mod 8 = 0 \<and> length bs = unat (mCapacity b)
     \<and> (case mBitMap b of None \<Rightarrow> bs = []
        | Some a \<Rightarrow> \<exists>d. bh_blocks h a = Some d \<and> length bs \<le> 8 * length d \<and> bs = take (length bs) (flat d))
     \<and> (\<forall>a\<ge>bh_next h. bh_blocks h a = None)"

text \<open>The blocks that are not the object's.\<close>

definition other_blocks :: "bheap \<Rightarrow> bitmap \<Rightarrow> addr \<Rightarrow> 8 word list option" where
  "other_blocks h b = (\<lambda>a. if mBitMap b = Some a then None else bh_blocks h a)"

lemma POS_bit: "k < 8 \<Longrightarrow> i < 8 \<Longrightarrow> bit (POS ! i) k \<longleftrightarrow> k = i"
  by (auto simp: POS_def bit_simps simp del: upt_rec_numeral)

lemma NPOS_bit: "k < 8 \<Longrightarrow> i < 8 \<Longrightarrow> bit (NPOS ! i) k \<longleftrightarrow> k \<noteq> i"
  by (auto simp: NPOS_def POS_def bit_simps simp del: upt_rec_numeral)

lemma and_POS: "i < 8 \<Longrightarrow> w AND POS ! i \<noteq> 0 \<longleftrightarrow> bit w i"
proof -
  assume i: "i < 8"
  then have "POS ! i = push_bit i 1" by (simp add: POS_def del: upt_rec_numeral)
  then show ?thesis using bit_iff_and_push_bit_not_eq_0[of w i] by simp
qed

lemma index_parts: "unat (i div 8) = unat (i :: 32 word) div 8" "unat (i mod 8) = unat i mod 8"
  by (simp_all add: unat_div unat_mod)

lemma bitmap_relE:
  assumes "bitmap_rel h b bs" "i < mCapacity b"
  obtains a d where "mBitMap b = Some a" "bh_blocks h a = Some d" "length bs = unat (mCapacity b)"
    "unat i < length bs" "length bs \<le> 8 * length d" "bs = take (length bs) (flat d)" "unat i div 8 < length d"
proof -
  have "unat i < length bs" using assms by (simp add: bitmap_rel_def word_less_nat_alt)
  then show ?thesis using that assms by (cases "mBitMap b") (auto simp: bitmap_rel_def)
qed

lemma set_rel:
  assumes "bitmap_rel h b bs"
  shows "\<exists>h'. bitmap_set h b i v = Some (Inr (unat i < length bs), h') \<and> bitmap_rel h' b (bs[unat i := v])
    \<and> other_blocks h' b = other_blocks h b"
proof (cases "i < mCapacity b")
  case True
  from assms True obtain a d where a: "mBitMap b = Some a" "bh_blocks h a = Some d" "length bs = unat (mCapacity b)"
    "unat i < length bs" "length bs \<le> 8 * length d" "bs = take (length bs) (flat d)" "unat i div 8 < length d" by (rule bitmap_relE)
  let ?w = "if v then d ! (unat i div 8) OR POS ! (unat i mod 8) else d ! (unat i div 8) AND NPOS ! (unat i mod 8)"
  have f: "flat (d[unat i div 8 := ?w]) = (flat d)[unat i := v]"
    using a(4,5) by (intro flat_update) (auto simp: bit_simps POS_bit NPOS_bit)
  have "bs[unat i := v] = take (length bs) ((flat d)[unat i := v])"
    using a(6) by (metis take_update_swap)
  then show ?thesis using True a assms f
    by (auto simp: bitmap_set_def bitmap_nullThrow_def index_parts bitmap_rel_def other_blocks_def fun_eq_iff Let_def)
next
  case False
  then have "\<not> unat i < length bs" "bs[unat i := v] = bs" using assms by (auto simp: bitmap_rel_def word_less_nat_alt list_update_beyond)
  then show ?thesis using False assms by (simp add: bitmap_set_def not_less)
qed

lemma at_rel:
  assumes "bitmap_rel h b bs"
  shows "bitmap_at h b i = Some (Inr (unat i < length bs \<and> bs ! unat i))"
proof (cases "i < mCapacity b")
  case True
  from assms True obtain a d where a: "mBitMap b = Some a" "bh_blocks h a = Some d" "length bs = unat (mCapacity b)"
    "unat i < length bs" "length bs \<le> 8 * length d" "bs = take (length bs) (flat d)" "unat i div 8 < length d" by (rule bitmap_relE)
  have "bs ! unat i = flat d ! unat i" using a(4,6) by (metis nth_take)
  then have "bs ! unat i = bit (d ! (unat i div 8)) (unat i mod 8)" using a(4,5) by (simp add: flat_nth)
  moreover have "\<not> mCapacity b \<le> i" using True by simp
  ultimately show ?thesis using a
    by (simp add: bitmap_at_def bitmap_nullThrow_def index_parts and_POS Let_def)
next
  case False
  then have "\<not> unat i < length bs" using assms by (simp add: bitmap_rel_def word_less_nat_alt)
  then show ?thesis using False by (simp add: bitmap_at_def not_less)
qed

lemma capacity_bytes:
  assumes "bitmap_rel h b bs"
  shows "length bs = 8 * unat (mCapacity b div 8)"
proof -
  have "unat (mCapacity b mod 8) = 0" "length bs = unat (mCapacity b)" using assms by (simp_all add: bitmap_rel_def)
  then show ?thesis using mult_div_mod_eq[of 8 "unat (mCapacity b)"] by (simp add: index_parts)
qed

lemma bitmap_block:
  assumes "bitmap_rel h b bs" "mCapacity b div 8 \<noteq> 0"
  obtains a d where "mBitMap b = Some a" "bh_blocks h a = Some d" "unat (mCapacity b div 8) \<le> length d"
    "bs = take (8 * unat (mCapacity b div 8)) (flat d)"
proof -
  have "length bs \<noteq> 0" using capacity_bytes[OF assms(1)] assms(2) by (simp add: unat_eq_0)
  then show ?thesis using that assms(1) capacity_bytes[OF assms(1)]
    by (cases "mBitMap b") (auto simp: bitmap_rel_def)
qed

lemma clear_rel:
  assumes "bitmap_rel h b bs"
  shows "\<exists>h'. bitmap_clear h b = Some h' \<and> bitmap_rel h' b (replicate (length bs) False) \<and> other_blocks h' b = other_blocks h b"
proof (cases "mCapacity b div 8 = 0")
  case True
  then have "length bs = 0" using capacity_bytes[OF assms] by simp
  then show ?thesis using True assms by (simp add: bitmap_clear_def bh_write_def)
next
  case False
  obtain a d where a: "mBitMap b = Some a" "bh_blocks h a = Some d" "unat (mCapacity b div 8) \<le> length d"
    "bs = take (8 * unat (mCapacity b div 8)) (flat d)" using assms False by (rule bitmap_block)
  then show ?thesis using False assms capacity_bytes[OF assms]
    by (auto simp: bitmap_clear_def bh_write_def bitmap_rel_def other_blocks_def fun_eq_iff unat_eq_0)
qed

lemma count_rel:
  assumes "bitmap_rel h b bs"
  shows "bitmap_count h b = Some (of_nat (ones bs))"
proof (cases "mCapacity b div 8 = 0")
  case True
  then have "length bs = 0" using capacity_bytes[OF assms] by simp
  then show ?thesis using True by (simp add: bitmap_count_def Let_def)
next
  case False
  obtain a d where a: "mBitMap b = Some a" "bh_blocks h a = Some d" "unat (mCapacity b div 8) \<le> length d"
    "bs = take (8 * unat (mCapacity b div 8)) (flat d)" using assms False by (rule bitmap_block)
  let ?n = "unat (mCapacity b div 8)" and ?l = "unat (mCapacity b div 8 div 8)" and ?r = "unat (mCapacity b div 8 mod 8)"
  have n: "?n = 8 * ?l + ?r" by (simp only: index_parts mult_div_mod_eq)
  have "bs = take (64 * ?l) (flat d) @ take (8 * ?r) (drop (64 * ?l) (flat d))"
    using a(4) take_add[of "64 * ?l" "8 * ?r" "flat d"] n by (simp add: mult.assoc distrib_left)
  then have o: "ones bs = ones (take (64 * ?l) (flat d)) + ones (take (8 * ?r) (drop (64 * ?l) (flat d)))" by simp
  have "8 * ?l + ?r \<le> length d" using a(3) n by simp
  then show ?thesis using a False o count_words_eq[of 0 ?l d 0] count_bytes_eq[of "8 * ?l" ?r d]
    by (simp add: bitmap_count_def Let_def mult.assoc[symmetric])
qed

section \<open>Allocation\<close>

text \<open>The capacity for a number of bits: rounded up to whole bytes, and 0 when that is \<^term>\<open>2 ^ 32 :: nat\<close>.\<close>

definition round_up :: "32 word \<Rightarrow> nat" where
  "round_up n = 8 * ((unat n + 7) div 8) mod 2 ^ 32"

lemma bytes_of:
  "unat (n div 8 + (if n mod 8 \<noteq> 0 then 1 else 0) :: 32 word) = (unat n + 7) div 8"
proof -
  have d: "unat (n div 8) = unat n div 8" "n mod 8 = 0 \<longleftrightarrow> unat n mod 8 = 0"
    by (simp_all add: index_parts unat_eq_0[symmetric] del: unat_eq_0)
  have "unat n < 2 ^ LENGTH(32)" by (rule unsigned_less)
  then have "unat (n div 8) + 1 < 2 ^ 32" unfolding d(1) by simp
  then have "unat (n div 8 + 1) = unat n div 8 + 1" using d(1) by (simp add: unat_word_ariths)
  moreover have "(unat n + 7) div 8 = (if unat n mod 8 = 0 then unat n div 8 else unat n div 8 + 1)" by presburger
  ultimately show ?thesis using d by simp
qed

lemma round_up_word: "unat ((n div 8 + (if n mod 8 \<noteq> 0 then 1 else 0)) * 8 :: 32 word) = round_up n"
proof -
  have "unat (x * 8 :: 32 word) = 8 * unat x mod 2 ^ 32" for x :: "32 word"
    by (simp add: unat_word_ariths mult.commute)
  then show ?thesis by (simp only: bytes_of round_up_def)
qed

lemma round_up_cases:
  "round_up n = 8 * ((unat n + 7) div 8) \<and> unat n \<le> round_up n \<or> round_up n = 0"
proof -
  have "unat n < 2 ^ LENGTH(32)" by (rule unsigned_less)
  then have "(unat n + 7) div 8 \<le> 2 ^ 29" by simp
  then show ?thesis by (cases "(unat n + 7) div 8 = 2 ^ 29") (auto simp: round_up_def)
qed

definition fresh_ok :: "bheap \<Rightarrow> bool" where
  "fresh_ok h \<longleftrightarrow> (\<forall>a\<ge>bh_next h. bh_blocks h a = None)"

lemma alloc_succeeds:
  "bitmap_alloc True h b n = Some (Some (bh_next h), b\<lparr>mCapacity := (n div 8 + (if n mod 8 \<noteq> 0 then 1 else 0)) * 8\<rparr>,
     h\<lparr>bh_blocks := (bh_blocks h)(bh_next h \<mapsto> replicate ((unat n + 7) div 8) 0), bh_next := bh_next h + 1\<rparr>)"
  unfolding bitmap_alloc_def Let_def bytes_of by (simp add: bh_malloc_def bh_write_def)

lemma alloc_fails: "bitmap_alloc False h b n = Some (None, b\<lparr>mCapacity := 0\<rparr>, h)"
  by (simp add: bitmap_alloc_def bh_malloc_def Let_def)

text \<open>The bits that \<^verbatim>\<open>reserve\<close> leaves, also when the capacity it computes is 0.\<close>

definition code_bits :: "bool \<Rightarrow> 32 word \<Rightarrow> bool list \<Rightarrow> bool list" where
  "code_bits ok n bs = (if unat n \<le> length bs \<or> \<not> ok then bs
     else take (round_up n) bs @ replicate (round_up n - length bs) False)"

text \<open>The bytes that are copied to a new block of \<^verbatim>\<open>N\<close> bytes.\<close>

lemma copied_bytes:
  assumes r: "bitmap_rel h b bs" and c: "unat c = round_up n" and n: "length bs < unat n"
    and nb_def: "nb = unat (if c < mCapacity b then c div 8 else mCapacity b div 8)" and N_def: "N = (unat n + 7) div 8"
    and h1_def: "h1 = h\<lparr>bh_blocks := (bh_blocks h)(bh_next h \<mapsto> replicate N 0), bh_next := bh_next h + 1\<rparr>"
  shows "\<exists>ds. bh_read h1 (mBitMap b) nb = Some ds \<and> length ds = nb \<and> nb \<le> N
    \<and> take (round_up n) (flat (ds @ replicate (N - nb) 0)) = code_bits True n bs \<and> round_up n \<le> 8 * N"
proof -
  have l: "length bs = unat (mCapacity b)" "length bs = 8 * unat (mCapacity b div 8)"
    using r capacity_bytes[OF r] by (simp_all add: bitmap_rel_def)
  have res: "code_bits True n bs = take (round_up n) bs @ replicate (round_up n - length bs) False"
    using n by (simp add: code_bits_def)
  show ?thesis
  proof (cases "round_up n = 0")
    case True
    then have "c = 0" using c by (simp add: unat_eq_0)
    then have "nb = 0" by (auto simp: nb_def index_parts word_less_nat_alt not_less)
    then show ?thesis using True res by (simp add: bh_read_def)
  next
    case False
    then have u: "round_up n = 8 * N" "unat n \<le> round_up n" using round_up_cases[of n] by (auto simp: N_def)
    then have "\<not> c < mCapacity b" using n l(1) c by (simp add: word_less_nat_alt)
    then have nb: "nb = unat (mCapacity b div 8)" by (simp add: nb_def)
    have le: "nb \<le> N" using l(2) n u nb by simp
    have "\<exists>ds. bh_read h1 (mBitMap b) nb = Some ds \<and> length ds = nb \<and> flat ds = bs"
    proof (cases "mCapacity b div 8 = 0")
      case True
      then show ?thesis using l(2) nb by (simp add: bh_read_def)
    next
      case nz: False
      obtain a d where a: "mBitMap b = Some a" "bh_blocks h a = Some d" "nb \<le> length d" "bs = take (8 * nb) (flat d)"
        using bitmap_block[OF r nz] nb by metis
      have "a \<noteq> bh_next h" using a(2) r by (auto simp: bitmap_rel_def)
      then show ?thesis using a by (auto simp: bh_read_def h1_def flat_take)
    qed
    then obtain ds where ds: "bh_read h1 (mBitMap b) nb = Some ds" "length ds = nb" "flat ds = bs" by blast
    have "take (round_up n) (flat (ds @ replicate (N - nb) 0)) = code_bits True n bs"
      unfolding res using ds u l(2) nb n by (simp add: min_def right_diff_distrib')
    then show ?thesis using ds le u by auto
  qed
qed

lemma reserve_rel:
  assumes r: "bitmap_rel h b bs"
  shows "\<exists>b' h'. bitmap_reserve ok h b n = Some (unat n \<le> length bs \<or> ok, b', h')
    \<and> bitmap_rel h' b' (code_bits ok n bs) \<and> other_blocks h' b' = other_blocks h b"
proof (cases "unat n \<le> length bs")
  case True
  then have "n \<le> mCapacity b" using r by (simp add: bitmap_rel_def word_le_nat_alt)
  then show ?thesis using True r by (simp add: bitmap_reserve_def code_bits_def)
next
  case False
  then have n: "\<not> n \<le> mCapacity b" using r by (simp add: bitmap_rel_def word_le_nat_alt)
  show ?thesis
  proof (cases ok)
    case nok: False
    then show ?thesis using False n r by (simp add: bitmap_reserve_def code_bits_def alloc_fails)
  next
    case True
    define c :: "32 word" where "c = (n div 8 + (if n mod 8 \<noteq> 0 then 1 else 0)) * 8"
    define nb where "nb = unat (if c < mCapacity b then c div 8 else mCapacity b div 8)"
    define N where "N = (unat n + 7) div 8"
    let ?h = "h\<lparr>bh_blocks := (bh_blocks h)(bh_next h \<mapsto> replicate N 0), bh_next := bh_next h + 1\<rparr>"
    have c: "unat c = round_up n" unfolding c_def by (rule round_up_word)
    obtain ds where ds: "bh_read ?h (mBitMap b) nb = Some ds" "length ds = nb" "nb \<le> N"
      "take (round_up n) (flat (ds @ replicate (N - nb) 0)) = code_bits True n bs" "round_up n \<le> 8 * N"
      using copied_bytes[OF r c _ nb_def N_def refl] False by auto
    let ?h2 = "h\<lparr>bh_blocks := (bh_blocks h)(bh_next h \<mapsto> ds @ replicate (N - nb) 0), bh_next := bh_next h + 1\<rparr>"
    have w: "bh_write ?h (Some (bh_next h)) ds = Some ?h2"
      using ds(2,3) by (auto simp: bh_write_def)
    let ?b = "\<lparr>mBitMap = Some (bh_next h), mCapacity = c\<rparr>"
    have len: "length (code_bits True n bs) = round_up n" using ds(4,5) ds(2,3) by (metis length_take flat_length length_append length_replicate le_add_diff_inverse min_absorb2)
    have "round_up n mod 8 = 0" unfolding round_up_def by (simp add: mod_mod_cancel)
    then have c8: "c mod 8 = 0" using c index_parts(2)[of c] by (simp add: unat_eq_0[symmetric] del: unat_eq_0)
    have a: "bitmap_alloc True h b n = Some (Some (bh_next h), b\<lparr>mCapacity := c\<rparr>, ?h)"
      unfolding alloc_succeeds c_def N_def ..
    have fr: "\<forall>a\<ge>bh_next h. bh_blocks h a = None" using r by (simp add: bitmap_rel_def)
    obtain h' where h': "bitmap_release ?h2 (b\<lparr>mCapacity := c\<rparr>) = Some (\<lparr>mBitMap = None, mCapacity = c\<rparr>, h')"
      "bh_blocks h' = (other_blocks h b)(bh_next h \<mapsto> ds @ replicate (N - nb) 0)" "bh_next h' = bh_next h + 1"
    proof (cases "mBitMap b")
      case None
      then show ?thesis by (intro that[of ?h2]) (auto simp: bitmap_release_def other_blocks_def)
    next
      case (Some a)
      then obtain d where d: "bh_blocks h a = Some d" using r by (auto simp: bitmap_rel_def)
      then have "a \<noteq> bh_next h" using fr by auto
      then show ?thesis using Some d
        by (intro that[of "?h2\<lparr>bh_blocks := (bh_blocks ?h2)(a := None)\<rparr>"])
          (auto simp: bitmap_release_def bh_free_def other_blocks_def)
    qed
    have nb: "unat (if c < mCapacity b then mCapacity (b\<lparr>mCapacity := c\<rparr>) div 8 else mCapacity b div 8) = nb"
      by (simp add: nb_def)
    have "bitmap_reserve ok h b n = Some (True, ?b, h')"
      using n True a w ds(1) h'(1)
      by (simp add: bitmap_reserve_def nb Let_def split del: if_split)
    moreover have "bitmap_rel h' ?b (code_bits True n bs)"
      using c c8 len ds(2-5) fr h' by (auto simp: bitmap_rel_def other_blocks_def)
    moreover have "other_blocks h' ?b = other_blocks h b"
      using h'(2) fr by (auto simp: other_blocks_def fun_eq_iff)
    ultimately show ?thesis using True by auto
  qed
qed

end
