(* ===== verification/Bitmap_Spec.thy ===== *)
theory Bitmap_Spec
  imports Bitmap_Laws
begin

text \<open>What \<^verbatim>\<open>BitMap\<close> guarantees: it is a list of bits; and where it fails.\<close>

section \<open>The list of bits\<close>

text \<open>\<^verbatim>\<open>reserve\<close> is to make room for \<^verbatim>\<open>n\<close> bits, in whole bytes, and to keep the bits there are; without
  memory nothing changes.\<close>

definition reserve_bits :: "bool \<Rightarrow> 32 word \<Rightarrow> bool list \<Rightarrow> bool list" where
  "reserve_bits ok n bs = (if unat n \<le> length bs \<or> \<not> ok then bs
     else bs @ replicate (8 * ((unat n + 7) div 8) - length bs) False)"

text \<open>Beyond \<^verbatim>\<open>2^32 - 8\<close> bits the whole bytes do not fit 32 bits.\<close>

fun fits :: "bit_op \<Rightarrow> bool" where
  "fits (Reserve ok n) = (unat n \<le> 2 ^ 32 - 8)"
| "fits _ = True"

lemma code_bits_fit: "unat n \<le> 2 ^ 32 - 8 \<Longrightarrow> code_bits ok n bs = reserve_bits ok n bs"
proof -
  assume n: "unat n \<le> 2 ^ 32 - 8"
  then have "(unat n + 7) div 8 < 2 ^ 29" by simp
  then have "round_up n = 8 * ((unat n + 7) div 8)" by (simp add: round_up_def)
  moreover from this have "unat n \<le> round_up n" by simp
  ultimately show ?thesis by (simp add: code_bits_def reserve_bits_def)
qed

fun spec_do :: "bit_op \<Rightarrow> bool list \<Rightarrow> bit_result \<times> bool list" where
  "spec_do (SetBit i v) bs = (Flag (unat i < length bs), bs[unat i := v])"
| "spec_do (AtBit i) bs = (Flag (unat i < length bs \<and> bs ! unat i), bs)"
| "spec_do ClearBits bs = (Nothing, replicate (length bs) False)"
| "spec_do Count bs = (Number (of_nat (ones bs)), bs)"
| "spec_do Capacity bs = (Number (of_nat (length bs)), bs)"
| "spec_do (Reserve ok n) bs = (Flag (unat n \<le> length bs \<or> ok), reserve_bits ok n bs)"

fun spec_run :: "bit_op list \<Rightarrow> bool list \<Rightarrow> bit_result list \<times> bool list" where
  "spec_run [] bs = ([], bs)"
| "spec_run (x # xs) bs = (let (r, bs) = spec_do x bs; (rs, bs) = spec_run xs bs in (r # rs, bs))"

lemma do_rel:
  assumes "bitmap_rel h b bs"
  shows "\<exists>b' h'. bitmap_do x h b = Some (fst (spec_do x bs), b', h')
    \<and> bitmap_rel h' b' (case x of Reserve ok n \<Rightarrow> code_bits ok n bs | _ \<Rightarrow> snd (spec_do x bs))
    \<and> other_blocks h' b' = other_blocks h b"
proof (cases x)
  case (SetBit i v)
  then show ?thesis using set_rel[OF assms, of i v] by (auto simp: result_of_def)
next
  case (AtBit i)
  then show ?thesis using at_rel[OF assms] assms by (simp add: result_of_def)
next
  case ClearBits
  then show ?thesis using clear_rel[OF assms] by auto
next
  case Count
  then show ?thesis using count_rel[OF assms] assms by simp
next
  case Capacity
  have "mCapacity b = of_nat (length bs)" using assms by (simp add: bitmap_rel_def)
  then show ?thesis using Capacity assms by simp
next
  case (Reserve ok n)
  then show ?thesis using reserve_rel[OF assms, where ok = ok and n = n] by auto
qed

lemma do_simulates:
  assumes "bitmap_rel h b bs" "fits x"
  shows "\<exists>b' h'. bitmap_do x h b = Some (fst (spec_do x bs), b', h') \<and> bitmap_rel h' b' (snd (spec_do x bs))
    \<and> other_blocks h' b' = other_blocks h b"
  using do_rel[OF assms(1), of x] assms(2) by (cases x) (simp_all add: code_bits_fit)

lemma run_simulates:
  "\<lbrakk>bitmap_rel h b bs; list_all fits xs\<rbrakk> \<Longrightarrow> \<exists>b' h'. bitmap_run xs h b = Some (fst (spec_run xs bs), b', h')
    \<and> bitmap_rel h' b' (snd (spec_run xs bs)) \<and> other_blocks h' b' = other_blocks h b"
proof (induction xs arbitrary: h b bs)
  case (Cons x xs)
  obtain b' h' where d: "bitmap_do x h b = Some (fst (spec_do x bs), b', h')" "bitmap_rel h' b' (snd (spec_do x bs))"
    "other_blocks h' b' = other_blocks h b" using do_simulates[OF Cons.prems(1), of x] Cons.prems(2) by auto
  show ?case using Cons.IH[OF d(2)] Cons.prems(2) d(1,3) by (auto simp: Let_def split: prod.split)
qed simp

text \<open>The constructors.\<close>

lemma null_rel: "fresh_ok h \<Longrightarrow> bitmap_rel h bitmap_null []"
  by (simp add: bitmap_rel_def bitmap_null_def fresh_ok_def)

lemma new_size_rel:
  assumes "fresh_ok h"
  shows "\<exists>b h'. bitmap_new_size ok h n = Some (b, h') \<and> bitmap_rel h' b (code_bits ok n [])
    \<and> other_blocks h' b = bh_blocks h"
proof -
  have "other_blocks h bitmap_null = bh_blocks h" by (simp add: other_blocks_def bitmap_null_def)
  then show ?thesis using reserve_rel[OF null_rel[OF assms], of ok n] by (auto simp: bitmap_new_size_def)
qed

lemma new_rel:
  assumes "fresh_ok h"
  shows "\<exists>b h'. bitmap_new ok h = Some (b, h') \<and> bitmap_rel h' b (if ok then replicate 1024 False else [])
    \<and> other_blocks h' b = bh_blocks h"
proof (cases ok)
  case True
  have "flat (replicate 128 0) = replicate 1024 False" by simp
  moreover have "\<forall>a. bh_next h \<noteq> a \<or> bh_blocks h (bh_next h) = None" using assms by (simp add: fresh_ok_def)
  ultimately show ?thesis using True assms
    by (auto simp: bitmap_new_def alloc_succeeds bitmap_rel_def other_blocks_def fun_eq_iff fresh_ok_def DEFAULT_SIZE_def
        simp del: flat_zeros)
next
  case False
  then show ?thesis using assms
    by (simp add: bitmap_new_def alloc_fails bitmap_null_def bitmap_rel_def other_blocks_def fresh_ok_def)
qed

text \<open>C34: Every sequence of calls of \<^verbatim>\<open>set\<close>, \<^verbatim>\<open>at\<close>, \<^verbatim>\<open>clear\<close>, \<^verbatim>\<open>count\<close>, \<^verbatim>\<open>capacity\<close> and \<^verbatim>\<open>reserve\<close> on a bit map,
  with reservations of at most \<^verbatim>\<open>2^32 - 8\<close> bits and memory available or not, returns what the same calls
  return on the list of its bits, without an access outside its block, and leaves a bit map that stands for the
  resulting list; no other block changes and none is lost. Setting and reading past the capacity return false.
  Copy construction and assignment are not among the calls (they read and write past the blocks), and
  reservations beyond the bound are not (the capacity wraps to 0 and all bits are lost).\<close>

theorem bitmap_simulates:
  assumes "bitmap_rel h b bs" "list_all fits xs"
  shows "\<exists>b' h'. bitmap_run xs h b = Some (fst (spec_run xs bs), b', h') \<and> bitmap_rel h' b' (snd (spec_run xs bs))
    \<and> other_blocks h' b' = other_blocks h b"
  using assms by (rule run_simulates)

definition small_heap :: bheap where
  "small_heap = \<lparr>bh_blocks = [3 \<mapsto> [5, 0, 1]], bh_next = 4, bh_junk = (\<lambda>_ _. 255)\<rparr>"

definition small_map :: bitmap where "small_map = \<lparr>mBitMap = Some 3, mCapacity = 24\<rparr>"

lemma small_rel: "bitmap_rel small_heap small_map (flat [5, 0, 1])"
  by (simp add: bitmap_rel_def small_heap_def small_map_def)

theorem bitmap_simulates_witness:
  "\<exists>b' h'. bitmap_run [Count, SetBit 9 True, AtBit 9, AtBit 24, Reserve True 25, Capacity, Count] small_heap small_map
    = Some ([Number 3, Flag True, Flag True, Flag False, Flag True, Number 32, Number 4], b', h')"
proof -
  have f: "flat [5, 0, 1] = [True, False, True, False, False, False, False, False, False, False, False, False, False, False,
      False, False, True, False, False, False, False, False, False, False]"
    by (simp add: upt_conv_Cons bit_numeral_rec)
  have "fst (spec_run [Count, SetBit 9 True, AtBit 9, AtBit 24, Reserve True 25, Capacity, Count] (flat [5, 0, 1]))
    = [Number 3, Flag True, Flag True, Flag False, Flag True, Number 32, Number 4]"
    unfolding f by (simp add: reserve_bits_def ones_def)
  then show ?thesis
    using bitmap_simulates[OF small_rel, of "[Count, SetBit 9 True, AtBit 9, AtBit 24, Reserve True 25, Capacity, Count]"]
    by auto
qed

section \<open>Types and lifetimes\<close>

text \<open>The result an operation may have.\<close>

fun result_ok :: "bit_op \<Rightarrow> bit_result \<Rightarrow> bool" where
  "result_ok (SetBit _ _) r = (\<exists>v. r = Flag v)" | "result_ok (AtBit _) r = (\<exists>v. r = Flag v)"
| "result_ok ClearBits r = (r = Nothing)" | "result_ok Count r = (\<exists>n. r = Number n)"
| "result_ok Capacity r = (\<exists>n. r = Number n)" | "result_ok (Reserve _ _) r = (\<exists>v. r = Flag v)"

lemma run_rel:
  "bitmap_rel h b bs \<Longrightarrow> \<exists>rs b' h' bs'. bitmap_run xs h b = Some (rs, b', h') \<and> list_all2 result_ok xs rs
    \<and> bitmap_rel h' b' bs' \<and> other_blocks h' b' = other_blocks h b"
proof (induction xs arbitrary: h b bs)
  case (Cons x xs)
  obtain r b' h' bs' where d: "bitmap_do x h b = Some (r, b', h')" "bitmap_rel h' b' bs'"
    "other_blocks h' b' = other_blocks h b" "r = fst (spec_do x bs)" using do_rel[OF Cons.prems] by blast
  have "result_ok x r" unfolding d(4) by (cases x) simp_all
  then show ?case using Cons.IH[OF d(2)] d(1,3) by fastforce
qed auto

lemma delete_rel:
  assumes "bitmap_rel h b bs"
  shows "\<exists>h3. bitmap_delete h b = Some h3 \<and> bh_blocks h3 = other_blocks h b"
  using assms by (cases "mBitMap b")
    (auto simp: bitmap_delete_def bitmap_release_def bh_free_def bitmap_rel_def other_blocks_def fun_eq_iff)

text \<open>C35: A bit map can be constructed by default or for a number of bits, whether memory is available or not,
  used by any sequence of calls of \<^verbatim>\<open>set\<close>, \<^verbatim>\<open>at\<close>, \<^verbatim>\<open>clear\<close>, \<^verbatim>\<open>count\<close>, \<^verbatim>\<open>capacity\<close> and \<^verbatim>\<open>reserve\<close>, and destroyed,
  as long as it is never copied or assigned: every call returns a value of its type, no exception is thrown for a
  null block, no freed or foreign memory is touched, and the destructor gives back exactly what was
  allocated.\<close>

theorem bitmap_lifetime:
  assumes "fresh_ok h"
  shows "\<exists>b h1 rs b' h2 h3. (if by_size then bitmap_new_size ok h n else bitmap_new ok h) = Some (b, h1)
    \<and> bitmap_run xs h1 b = Some (rs, b', h2) \<and> bitmap_delete h2 b' = Some h3 \<and> list_all2 result_ok xs rs
    \<and> bh_blocks h3 = bh_blocks h"
proof -
  obtain b h1 bs where b: "(if by_size then bitmap_new_size ok h n else bitmap_new ok h) = Some (b, h1)"
    "bitmap_rel h1 b bs" "other_blocks h1 b = bh_blocks h"
    using new_size_rel[OF assms, of ok n] new_rel[OF assms, of ok] by (cases by_size) fastforce+
  obtain rs b' h2 bs' where r: "bitmap_run xs h1 b = Some (rs, b', h2)" "list_all2 result_ok xs rs"
    "bitmap_rel h2 b' bs'" "other_blocks h2 b' = other_blocks h1 b" using run_rel[OF b(2)] by blast
  obtain h3 where "bitmap_delete h2 b' = Some h3" "bh_blocks h3 = other_blocks h2 b'"
    using delete_rel[OF r(3)] by blast
  then show ?thesis using b r by (metis (no_types))
qed

theorem bitmap_lifetime_witness:
  "\<exists>b h1 rs b' h2 h3. bitmap_new_size True small_heap 100 = Some (b, h1) \<and> bitmap_run [SetBit 99 True, Count] h1 b = Some (rs, b', h2)
    \<and> bitmap_delete h2 b' = Some h3 \<and> list_all2 result_ok [SetBit 99 True, Count] rs \<and> bh_blocks h3 = bh_blocks small_heap"
  using bitmap_lifetime[where by_size = True and ok = True and n = 100 and h = small_heap and xs = "[SetBit 99 True, Count]"]
  by (simp add: fresh_ok_def small_heap_def)

section \<open>Where it fails\<close>

lemma new_size_block:
  assumes "0 < n"
  shows "bitmap_new_size True h n = Some (\<lparr>mBitMap = Some (bh_next h), mCapacity = (n div 8 + (if n mod 8 \<noteq> 0 then 1 else 0)) * 8\<rparr>,
     h\<lparr>bh_blocks := (bh_blocks h)(bh_next h \<mapsto> replicate ((unat n + 7) div 8) 0), bh_next := bh_next h + 1\<rparr>)"
  using assms by (simp add: bitmap_new_size_def bitmap_reserve_def alloc_succeeds bitmap_null_def bh_read_def bh_write_def bitmap_release_def Let_def)

text \<open>Copying or assigning a bit map that was constructed with at least one bit reads past the end of its
  block: as many bytes are copied as it has bits. And asking for more than \<^term>\<open>2 ^ 32 - 8 :: nat\<close> bits
  is reported as a success but leaves a map without any bit.\<close>

theorem bitmap_faults:
  assumes "0 < n"
  shows "if unat n \<le> 2 ^ 32 - 8
    then \<exists>b h'. bitmap_new_size True h n = Some (b, h') \<and> bitmap_new_copy True h' b = None
      \<and> bitmap_assign True h' bitmap_null b = None
    else bitmap_rel h b bs \<and> length bs < unat n \<longrightarrow>
      (\<exists>b' h'. bitmap_reserve True h b n = Some (True, b', h') \<and> mCapacity b' = 0)"
proof (cases "unat n \<le> 2 ^ 32 - 8")
  case True
  define c :: "32 word" where "c = (n div 8 + (if n mod 8 \<noteq> 0 then 1 else 0)) * 8"
  define N where "N = (unat n + 7) div 8"
  have "0 < unat n" using assms by (simp add: word_less_nat_alt)
  then have "0 < N" unfolding N_def by simp
  moreover have "unat c = 8 * N" unfolding c_def round_up_word using True by (simp add: round_up_def N_def)
  ultimately have c: "N < unat c" "c \<noteq> 0" by auto
  let ?h = "h\<lparr>bh_blocks := (bh_blocks h)(bh_next h \<mapsto> replicate N 0), bh_next := bh_next h + 1\<rparr>"
  let ?b = "\<lparr>mBitMap = Some (bh_next h), mCapacity = c\<rparr>"
  have n: "bitmap_new_size True h n = Some (?b, ?h)" unfolding c_def N_def by (rule new_size_block[OF assms])
  define c2 where "c2 = (c div 8 + (if c mod 8 \<noteq> 0 then 1 else 0)) * 8"
  have "unat c2 = round_up c" unfolding c2_def by (rule round_up_word)
  also have "\<dots> = unat c" using \<open>unat c = 8 * N\<close> True by (simp add: round_up_def N_def)
  finally have r: "N < unat c2" using c by simp
  let ?h2 = "?h\<lparr>bh_blocks := (bh_blocks ?h)(bh_next ?h \<mapsto> replicate ((unat c + 7) div 8) 0), bh_next := bh_next ?h + 1\<rparr>"
  have a: "bitmap_alloc True ?h b c = Some (Some (bh_next ?h), b\<lparr>mCapacity := c2\<rparr>, ?h2)" for b
    unfolding c2_def by (rule alloc_succeeds)
  have "bh_read ?h2 (Some (bh_next h)) (unat c2) = None" using r by (simp add: bh_read_def)
  then have "bitmap_new_copy True ?h ?b = None" "bitmap_assign True ?h bitmap_null ?b = None"
    using c(2) a unfolding bitmap_new_copy_def bitmap_assign_def by (simp_all add: Let_def)
  then show ?thesis using True n by auto
next
  case False
  have "unat n < 2 ^ LENGTH(32)" by (rule unsigned_less)
  then have "(unat n + 7) div 8 = 2 ^ 29" using False by simp
  then have z: "round_up n = 0" by (simp add: round_up_def)
  have "\<exists>b' h'. bitmap_reserve True h b n = Some (True, b', h') \<and> mCapacity b' = 0"
    if rel: "bitmap_rel h b bs" and less: "length bs < unat n"
  proof -
    have "code_bits True n bs = []" using z less by (simp add: code_bits_def)
    then obtain b' h' where "bitmap_reserve True h b n = Some (True, b', h')" "bitmap_rel h' b' []"
      using reserve_rel[OF rel, of True n] by auto
    moreover from this(2) have "mCapacity b' = 0" by (simp add: bitmap_rel_def unat_eq_0[symmetric] del: unat_eq_0)
    ultimately show ?thesis by blast
  qed
  then show ?thesis using False by auto
qed

theorem bitmap_faults_witness:
  "(\<exists>b h'. bitmap_new_size True small_heap 100 = Some (b, h') \<and> bitmap_new_copy True h' b = None)
    \<and> (\<exists>b' h'. bitmap_reserve True small_heap small_map 0xFFFFFFFF = Some (True, b', h') \<and> mCapacity b' = 0)"
  using bitmap_faults[where n = 100 and h = small_heap] small_rel
    bitmap_faults[where n = "0xFFFFFFFF" and h = small_heap and b = small_map and bs = "flat [5, 0, 1]"]
  by auto

end
