(* ===== verification/Bimap.thy ===== *)
theory Bimap
  imports Prelude
begin

text \<open>
  The template \<^verbatim>\<open>BiMap\<close> of \<^verbatim>\<open>src/utils/include/utils/bimap.h\<close> and \<^verbatim>\<open>bimap.hpp\<close>: a \<^verbatim>\<open>std::map\<close> of keys and values, and
  an index from the hash of a value to a pointer to the key in its node. A node has a number that stands for
  its address; it is never used again. The index holds such numbers, an iterator is a number or \<^term>\<open>None\<close>
  for the end. \<^term>\<open>None\<close> as the result of an operation is the use of a dangling pointer or iterator; an
  exception is the left value of a result. The hash function is an argument of the operations.
\<close>

section \<open>The standard containers\<close>

type_synonym ('k, 'v) node = "nat \<times> 'k \<times> 'v"

record ('k, 'v) bimap =
  m_storage :: "('k, 'v) node list"
  m_indexMap :: "64 word \<Rightarrow> nat option"
  bi_next :: nat

fun node_key :: "('k, 'v) node \<Rightarrow> 'k" where "node_key (i, k, v) = k"
fun node_value :: "('k, 'v) node \<Rightarrow> 'v" where "node_value (i, k, v) = v"

text \<open>\<^verbatim>\<open>std::map\<close>: nodes in key order.\<close>

definition storage_find :: "('k, 'v) node list \<Rightarrow> 'k \<Rightarrow> nat option" where
  "storage_find s k = map_option fst (find (\<lambda>n. node_key n = k) s)"

definition storage_node :: "('k, 'v) node list \<Rightarrow> nat \<Rightarrow> ('k, 'v) node option" where
  "storage_node s i = find (\<lambda>n. fst n = i) s"

fun storage_insert :: "('k::linorder, 'v) node \<Rightarrow> ('k, 'v) node list \<Rightarrow> ('k, 'v) node list" where
  "storage_insert n [] = [n]"
| "storage_insert n (x # xs) = (if node_key n < node_key x then n # x # xs else x # storage_insert n xs)"

text \<open>Erasing a node gives the iterator to the next one.\<close>

fun storage_next :: "('k, 'v) node list \<Rightarrow> nat \<Rightarrow> nat option" where
  "storage_next [] i = None"
| "storage_next (x # xs) i = (if fst x = i then map_option fst (case xs of [] \<Rightarrow> None | y # _ \<Rightarrow> Some y) else storage_next xs i)"

definition storage_erase :: "('k, 'v) node list \<Rightarrow> nat \<Rightarrow> ('k, 'v) node list" where
  "storage_erase s i = filter (\<lambda>n. fst n \<noteq> i) s"

section \<open>Construction\<close>

definition bimap_new :: "('k, 'v) bimap" where
  "bimap_new = \<lparr>m_storage = [], m_indexMap = (\<lambda>_. None), bi_next = 0\<rparr>"

text \<open>Insertion; the result tells whether something was inserted.\<close>

definition bimap_insert :: "('v \<Rightarrow> 64 word) \<Rightarrow> ('k::linorder, 'v) bimap \<Rightarrow> 'k \<Rightarrow> 'v \<Rightarrow> bool \<times> ('k, 'v) bimap" where
  "bimap_insert H b key value =
    (let hashV = H value in
     if m_indexMap b hashV \<noteq> None then (False, b)
     else if storage_find (m_storage b) key \<noteq> None then (False, b)
     else let pKey = bi_next b in
       (True, b\<lparr>m_storage := storage_insert (pKey, key, value) (m_storage b), bi_next := pKey + 1,
          m_indexMap := (m_indexMap b)(hashV \<mapsto> pKey)\<rparr>))"

fun bimap_insert_all :: "('v \<Rightarrow> 64 word) \<Rightarrow> ('k::linorder, 'v) bimap \<Rightarrow> ('k \<times> 'v) list \<Rightarrow> unit + ('k, 'v) bimap" where
  "bimap_insert_all H b [] = Inr b"
| "bimap_insert_all H b ((k, v) # ps) =
    (let (r, b) = bimap_insert H b k v in if r then bimap_insert_all H b ps else Inl ())"

definition bimap_of_list :: "('v \<Rightarrow> 64 word) \<Rightarrow> ('k::linorder \<times> 'v) list \<Rightarrow> unit + ('k, 'v) bimap" where
  "bimap_of_list H ps = bimap_insert_all H bimap_new ps"

text \<open>Copying a \<^verbatim>\<open>std::map\<close> makes new nodes; then the nodes are entered in the index.\<close>

definition storage_copy :: "nat \<Rightarrow> ('k, 'v) node list \<Rightarrow> ('k, 'v) node list" where
  "storage_copy i s = map2 (\<lambda>j n. (j, snd n)) [i..<i + length s] s"

fun index_all :: "('v \<Rightarrow> 64 word) \<Rightarrow> ('k, 'v) node list \<Rightarrow> (64 word \<Rightarrow> nat option) \<Rightarrow> 64 word \<Rightarrow> nat option" where
  "index_all H [] idx = idx"
| "index_all H (n # ns) idx = index_all H ns (idx(H (node_value n) \<mapsto> fst n))"

definition bimap_copy :: "('v \<Rightarrow> 64 word) \<Rightarrow> ('k, 'v) bimap \<Rightarrow> ('k, 'v) bimap" where
  "bimap_copy H other =
    (let s = storage_copy 0 (m_storage other) in
     \<lparr>m_storage = s, m_indexMap = index_all H s (\<lambda>_. None), bi_next = length s\<rparr>)"

text \<open>Copy assignment does not clear the index.\<close>

definition bimap_assign :: "('v \<Rightarrow> 64 word) \<Rightarrow> ('k, 'v) bimap \<Rightarrow> ('k, 'v) bimap \<Rightarrow> ('k, 'v) bimap" where
  "bimap_assign H b other =
    (let s = storage_copy (bi_next b) (m_storage other) in
     b\<lparr>m_storage := s, bi_next := bi_next b + length s, m_indexMap := index_all H s (m_indexMap b)\<rparr>)"

text \<open>Moving swaps both members.\<close>

definition bimap_move :: "('k, 'v) bimap \<Rightarrow> ('k, 'v) bimap \<times> ('k, 'v) bimap" where
  "bimap_move other = (other, bimap_new)"

definition bimap_assign_move :: "('k, 'v) bimap \<Rightarrow> ('k, 'v) bimap \<Rightarrow> ('k, 'v) bimap \<times> ('k, 'v) bimap" where
  "bimap_assign_move b other = (other, b)"

definition bimap_clear :: "('k, 'v) bimap \<Rightarrow> ('k, 'v) bimap" where
  "bimap_clear b = b\<lparr>m_indexMap := (\<lambda>_. None), m_storage := []\<rparr>"

section \<open>Searching and erasing\<close>

definition key_at :: "('k, 'v) bimap \<Rightarrow> nat \<Rightarrow> 'k option" where
  "key_at b p = map_option node_key (storage_node (m_storage b) p)"

definition bimap_find_key :: "('k, 'v) bimap \<Rightarrow> 'k \<Rightarrow> nat option" where
  "bimap_find_key b key = storage_find (m_storage b) key"

definition bimap_find_value :: "('v \<Rightarrow> 64 word) \<Rightarrow> ('k, 'v) bimap \<Rightarrow> 'v \<Rightarrow> nat option option" where
  "bimap_find_value H b value = (case m_indexMap b (H value) of
     None \<Rightarrow> Some None
   | Some p \<Rightarrow> do { k \<leftarrow> key_at b p; Some (storage_find (m_storage b) k) })"

definition bimap_contains_key :: "('k, 'v) bimap \<Rightarrow> 'k \<Rightarrow> bool" where
  "bimap_contains_key b key \<longleftrightarrow> storage_find (m_storage b) key \<noteq> None"

definition bimap_contains_value :: "('v \<Rightarrow> 64 word) \<Rightarrow> ('k, 'v) bimap \<Rightarrow> 'v \<Rightarrow> bool" where
  "bimap_contains_value H b value \<longleftrightarrow> m_indexMap b (H value) \<noteq> None"

definition bimap_size :: "('k, 'v) bimap \<Rightarrow> nat" where "bimap_size b = length (m_storage b)"
definition bimap_empty :: "('k, 'v) bimap \<Rightarrow> bool" where "bimap_empty b \<longleftrightarrow> m_storage b = []"

definition bimap_begin :: "('k, 'v) bimap \<Rightarrow> nat option" where
  "bimap_begin b = (case m_storage b of [] \<Rightarrow> None | n # _ \<Rightarrow> Some (fst n))"

text \<open>Erasing by key, by value and by iterator; the result is the next iterator.\<close>

definition bimap_erase_key :: "('v \<Rightarrow> 64 word) \<Rightarrow> ('k, 'v) bimap \<Rightarrow> 'k \<Rightarrow> (nat option \<times> ('k, 'v) bimap) option" where
  "bimap_erase_key H b key = (case storage_find (m_storage b) key of
     None \<Rightarrow> Some (None, b)
   | Some i \<Rightarrow> do {
       n \<leftarrow> storage_node (m_storage b) i;
       Some (storage_next (m_storage b) i,
         b\<lparr>m_indexMap := (m_indexMap b)(H (node_value n) := None), m_storage := storage_erase (m_storage b) i\<rparr>) })"

definition bimap_erase_value :: "('v \<Rightarrow> 64 word) \<Rightarrow> ('k, 'v) bimap \<Rightarrow> 'v \<Rightarrow> (nat option \<times> ('k, 'v) bimap) option" where
  "bimap_erase_value H b value = (case m_indexMap b (H value) of
     None \<Rightarrow> Some (None, b)
   | Some p \<Rightarrow> do {
       k \<leftarrow> key_at b p;
       i \<leftarrow> storage_find (m_storage b) k;
       Some (storage_next (m_storage b) i,
         b\<lparr>m_indexMap := (m_indexMap b)(H value := None), m_storage := storage_erase (m_storage b) i\<rparr>) })"

definition bimap_erase_at :: "('v \<Rightarrow> 64 word) \<Rightarrow> ('k, 'v) bimap \<Rightarrow> nat option \<Rightarrow> (unit + nat option \<times> ('k, 'v) bimap) option" where
  "bimap_erase_at H b it = (case it of
     None \<Rightarrow> Some (Inl ())
   | Some p \<Rightarrow> do {
       n \<leftarrow> storage_node (m_storage b) p;
       i \<leftarrow> storage_find (m_storage b) (node_key n);
       Some (Inr (storage_next (m_storage b) i,
         b\<lparr>m_indexMap := (m_indexMap b)(H (node_value n) := None), m_storage := storage_erase (m_storage b) i\<rparr>)) })"

section \<open>Replacing\<close>

text \<open>\<^verbatim>\<open>replaceValue\<close> enters the new value in the index only.\<close>

definition bimap_replaceValue :: "('v \<Rightarrow> 64 word) \<Rightarrow> ('k::linorder, 'v) bimap \<Rightarrow> 'k \<Rightarrow> 'v \<Rightarrow> (unit + ('k, 'v) bimap) option" where
  "bimap_replaceValue H b key value =
    (let newHashV = H value in
     if m_indexMap b newHashV \<noteq> None then Some (Inl ())
     else case storage_find (m_storage b) key of
       None \<Rightarrow> Some (Inr (snd (bimap_insert H b key value)))
     | Some i \<Rightarrow> do {
         n \<leftarrow> storage_node (m_storage b) i;
         Some (Inr (b\<lparr>m_indexMap := ((m_indexMap b)(H (node_value n) := None))(newHashV \<mapsto> i)\<rparr>)) })"

definition bimap_replaceKey :: "('v \<Rightarrow> 64 word) \<Rightarrow> ('k::linorder, 'v) bimap \<Rightarrow> 'v \<Rightarrow> 'k \<Rightarrow> (unit + ('k, 'v) bimap) option" where
  "bimap_replaceKey H b value key =
    (if storage_find (m_storage b) key \<noteq> None then Some (Inl ())
     else let hashV = H value in
     case m_indexMap b hashV of
       None \<Rightarrow> Some (Inr (snd (bimap_insert H b key value)))
     | Some p \<Rightarrow> do {
         k \<leftarrow> key_at b p;
         let s = (case storage_find (m_storage b) k of None \<Rightarrow> m_storage b | Some i \<Rightarrow> storage_erase (m_storage b) i);
         if storage_find s key \<noteq> None then Some (Inl ())
         else let pKey = bi_next b in
           Some (Inr (b\<lparr>m_storage := storage_insert (pKey, key, value) s, bi_next := pKey + 1,
             m_indexMap := (m_indexMap b)(hashV \<mapsto> pKey)\<rparr>)) })"

section \<open>Iterators\<close>

text \<open>Dereferencing the end throws.\<close>

definition iterator_key :: "('k, 'v) bimap \<Rightarrow> nat option \<Rightarrow> (unit + 'k) option" where
  "iterator_key b it = (case it of
     None \<Rightarrow> Some (Inl ()) | Some i \<Rightarrow> map_option (\<lambda>n. Inr (node_key n)) (storage_node (m_storage b) i))"

definition iterator_value :: "('k, 'v) bimap \<Rightarrow> nat option \<Rightarrow> (unit + 'v) option" where
  "iterator_value b it = (case it of
     None \<Rightarrow> Some (Inl ()) | Some i \<Rightarrow> map_option (\<lambda>n. Inr (node_value n)) (storage_node (m_storage b) i))"

definition iterator_next :: "('k, 'v) bimap \<Rightarrow> nat option \<Rightarrow> nat option option" where
  "iterator_next b it = do { i \<leftarrow> it; _ \<leftarrow> storage_node (m_storage b) i; Some (storage_next (m_storage b) i) }"

definition iterator_prev :: "('k, 'v) bimap \<Rightarrow> nat option \<Rightarrow> nat option" where
  "iterator_prev b it = (case it of
     None \<Rightarrow> map_option fst (case rev (m_storage b) of [] \<Rightarrow> None | n # _ \<Rightarrow> Some n)
   | Some i \<Rightarrow> storage_next (rev (m_storage b)) i)"

text \<open>\<^verbatim>\<open>update\<close> with a value: the old entry of the index is erased and entered again.\<close>

definition iterator_update :: "('v \<Rightarrow> 64 word) \<Rightarrow> ('k, 'v) bimap \<Rightarrow> nat option \<Rightarrow> 'v \<Rightarrow> (unit + bool \<times> ('k, 'v) bimap) option" where
  "iterator_update H b it value = (case it of
     None \<Rightarrow> Some (Inl ())
   | Some i \<Rightarrow>
     if m_indexMap b (H value) \<noteq> None then Some (Inr (False, b))
     else do {
       n \<leftarrow> storage_node (m_storage b) i;
       let oldHashV = H (node_value n);
       let idx = (m_indexMap b)(oldHashV := None);
       Some (Inr (True, b\<lparr>m_indexMap := idx(oldHashV \<mapsto> i)\<rparr>)) })"

text \<open>The loop \<^verbatim>\<open>for (it = begin(); it != end(); ++it)\<close> over all pairs.\<close>

partial_function (option) bimap_walk :: "('k, 'v) bimap \<Rightarrow> nat option \<Rightarrow> ('k \<times> 'v) list option" where
  "bimap_walk b it = (case it of
     None \<Rightarrow> Some []
   | Some i \<Rightarrow> do {
       n \<leftarrow> storage_node (m_storage b) i;
       it' \<leftarrow> iterator_next b (Some i);
       ps \<leftarrow> bimap_walk b it';
       Some ((node_key n, node_value n) # ps) })"

end
