(* ===== verification/Bimap_Laws.thy ===== *)
theory Bimap_Laws
  imports Bimap "HOL-Library.Multiset"
begin

text \<open>
  What the operations of \<^verbatim>\<open>BiMap\<close> do to its list of pairs, as long as every node has exactly one entry in the
  index.
\<close>

section \<open>The invariant\<close>

text \<open>Nodes are in key order and have numbers of their own, and the index maps each hash to the node of its value.\<close>

definition nodes_ok :: "nat \<Rightarrow> ('k::linorder, 'v) node list \<Rightarrow> bool" where
  "nodes_ok n s \<longleftrightarrow> sorted_wrt (<) (map node_key s) \<and> distinct (map fst s) \<and> (\<forall>x \<in> set s. fst x < n)"

definition index_ok :: "('v \<Rightarrow> 64 word) \<Rightarrow> ('k, 'v) node list \<Rightarrow> (64 word \<Rightarrow> nat option) \<Rightarrow> bool" where
  "index_ok H s idx \<longleftrightarrow> (\<forall>h i. idx h = Some i \<longleftrightarrow> (\<exists>k v. (i, k, v) \<in> set s \<and> H v = h))"

definition bimap_ok :: "('v \<Rightarrow> 64 word) \<Rightarrow> ('k::linorder, 'v) bimap \<Rightarrow> bool" where
  "bimap_ok H b \<longleftrightarrow> nodes_ok (bi_next b) (m_storage b) \<and> index_ok H (m_storage b) (m_indexMap b)"

definition pairs :: "('k, 'v) bimap \<Rightarrow> ('k \<times> 'v) list" where
  "pairs b = map snd (m_storage b)"

lemma node_parts: "node_key n = fst (snd n)" "node_value n = snd (snd n)"
  by (cases n; simp)+

lemma node_key_eq: "node_key = (\<lambda>n. fst (snd n))"
  by (rule ext) (simp add: node_parts)

section \<open>Nodes\<close>

lemma nodes_key_inj:
  assumes "nodes_ok n s" "(i, k, v) \<in> set s" "(j, k, w) \<in> set s"
  shows "j = i \<and> w = v"
proof -
  have "inj_on node_key (set s)" using assms(1) by (simp add: nodes_ok_def strict_sorted_iff distinct_map)
  then show ?thesis using inj_onD[of node_key "set s" "(i, k, v)" "(j, k, w)"] assms(2,3) by simp
qed

lemma nodes_id_inj:
  assumes "nodes_ok n s" "(i, k, v) \<in> set s" "(i, l, w) \<in> set s"
  shows "l = k \<and> w = v"
proof -
  have "inj_on fst (set s)" using assms(1) by (simp add: nodes_ok_def distinct_map)
  then show ?thesis using inj_onD[of fst "set s" "(i, k, v)" "(i, l, w)"] assms(2,3) by simp
qed

lemma find_in: "find P s = Some x \<Longrightarrow> x \<in> set s \<and> P x"
  by (induction s) (auto split: if_splits)

lemma storage_find_in: "storage_find s k = Some i \<Longrightarrow> \<exists>v. (i, k, v) \<in> set s"
  using find_in[of "\<lambda>n. node_key n = k" s] by (auto simp: storage_find_def)

lemma storage_find_None: "storage_find s k = None \<longleftrightarrow> k \<notin> fst ` snd ` set s"
  by (auto simp: storage_find_def find_None_iff node_parts image_iff)

lemma storage_find_Some:
  assumes "nodes_ok n s" "(i, k, v) \<in> set s"
  shows "storage_find s k = Some i"
proof (cases "storage_find s k")
  case None
  then show ?thesis using assms(2) unfolding storage_find_None by force
next
  case (Some j)
  then show ?thesis using storage_find_in[OF Some] nodes_key_inj[OF assms] by blast
qed

lemma storage_node_Some:
  assumes "nodes_ok n s" "(i, k, v) \<in> set s"
  shows "storage_node s i = Some (i, k, v)"
proof (cases "storage_node s i")
  case None
  then show ?thesis using assms(2) by (force simp: storage_node_def find_None_iff)
next
  case (Some m)
  then have "m \<in> set s" "fst m = i" using find_in[of "\<lambda>n. fst n = i" s m] by (simp_all add: storage_node_def)
  then show ?thesis using Some nodes_id_inj[OF assms, of "fst (snd m)" "snd (snd m)"] by (cases m) auto
qed

lemma storage_insert_set: "set (storage_insert x s) = insert x (set s)"
  by (induction s) auto

lemma storage_insert_fst: "mset (map fst (storage_insert x s)) = add_mset (fst x) (mset (map fst s))"
  by (induction s) auto

lemma storage_insert_ok:
  assumes "nodes_ok n s" "k \<notin> fst ` snd ` set s"
  shows "nodes_ok (n + 1) (storage_insert (n, k, v) s)"
proof -
  have "sorted_wrt (<) (map node_key (storage_insert (n, k, v) s))"
    using assms by (induction s) (force simp: nodes_ok_def storage_insert_set node_parts)+
  moreover have "mset (map fst (storage_insert (n, k, v) s)) = mset (n # map fst s)" using storage_insert_fst[of "(n, k, v)" s] by simp
  then have "distinct (map fst (storage_insert (n, k, v) s)) = distinct (n # map fst s)" by (rule mset_eq_imp_distinct_iff)
  ultimately show ?thesis using assms(1) by (fastforce simp: nodes_ok_def storage_insert_set)
qed

lemma storage_erase_ok: "nodes_ok n s \<Longrightarrow> nodes_ok n (storage_erase s i)"
  by (auto simp: nodes_ok_def storage_erase_def sorted_wrt_map intro: sorted_wrt_filter distinct_map_filter)

lemma storage_erase_set: "set (storage_erase s i) = {x \<in> set s. fst x \<noteq> i}"
  by (auto simp: storage_erase_def)

lemma insert_pairs:
  "k \<notin> fst ` snd ` set s \<Longrightarrow> map snd (storage_insert (i, k, v) s) = insort_key fst (k, v) (map snd s)"
  by (induction s) (auto simp: node_parts)

lemma erase_pairs:
  assumes "nodes_ok n s" "(i, k, v) \<in> set s"
  shows "map snd (storage_erase s i) = filter (\<lambda>p. fst p \<noteq> k) (map snd s)"
proof -
  have "x \<in> set s \<Longrightarrow> fst x \<noteq> i \<longleftrightarrow> fst (snd x) \<noteq> k" for x
    using nodes_key_inj[OF assms] nodes_id_inj[OF assms] by (cases x) auto
  then show ?thesis by (simp add: storage_erase_def filter_map comp_def cong: filter_cong)
qed

lemma nodes_tail: "nodes_ok n (x # s) \<Longrightarrow> nodes_ok n s \<and> (\<forall>y \<in> set s. node_key x < node_key y)"
  by (simp add: nodes_ok_def)

lemma storage_next_pairs:
  "\<lbrakk>nodes_ok n s; (i, k, v) \<in> set s\<rbrakk> \<Longrightarrow> storage_next s i = map_option fst (find (\<lambda>x. k < node_key x) s)"
proof (induction s)
  case (Cons x s)
  show ?case
  proof (cases "fst x = i")
    case True
    have x: "x = (i, k, v)" using True nodes_id_inj[OF Cons.prems, of "fst (snd x)" "snd (snd x)"] by (cases x) simp
    then have "\<forall>y \<in> set s. k < node_key y" using nodes_tail[OF Cons.prems(1)] by simp
    then show ?thesis using x by (cases s) simp_all
  next
    case False
    then have s: "(i, k, v) \<in> set s" using Cons.prems(2) by auto
    then have "node_key x < node_key (i, k, v)" using nodes_tail[OF Cons.prems(1)] by blast
    then have "\<not> k < node_key x" by simp
    then show ?thesis using False Cons.IH s nodes_tail[OF Cons.prems(1)] by simp
  qed
qed simp

section \<open>The index\<close>

lemma index_None: "index_ok H s idx \<Longrightarrow> idx h = None \<longleftrightarrow> (\<forall>(i, k, v) \<in> set s. H v \<noteq> h)"
  unfolding index_ok_def not_Some_eq[symmetric] by (simp add: split_paired_Ball_Sigma Ball_def)

lemma index_Some: "index_ok H s idx \<Longrightarrow> idx h = Some i \<longleftrightarrow> (\<exists>k v. (i, k, v) \<in> set s \<and> H v = h)"
  by (simp add: index_ok_def)

lemma index_insert:
  assumes "index_ok H s idx" "idx (H v) = None"
  shows "index_ok H (storage_insert (n, k, v) s) (idx(H v \<mapsto> n))"
  using assms index_None[OF assms(1), of "H v"] by (auto simp: index_ok_def storage_insert_set)

lemma index_erase:
  assumes "nodes_ok n s" "index_ok H s idx" "(i, k, v) \<in> set s"
  shows "index_ok H (storage_erase s i) (idx(H v := None))"
proof -
  have iv: "idx (H v) = Some i" using assms(2,3) by (auto simp: index_ok_def)
  have "((idx(H v := None)) h = Some j) = (\<exists>l w. (j, l, w) \<in> set (storage_erase s i) \<and> H w = h)" for h j
  proof (cases "h = H v")
    case True
    have "(j, l, w) \<in> set s \<Longrightarrow> H w = H v \<Longrightarrow> j = i" for l w
      using iv index_Some[OF assms(2), of "H v" j] by auto
    then show ?thesis using True by (auto simp: storage_erase_set)
  next
    case False
    then have "(j, l, w) \<in> set s \<Longrightarrow> H w = h \<Longrightarrow> j \<noteq> i" for l w using nodes_id_inj[OF assms(1,3)] by blast
    then show ?thesis using False assms(2) by (auto simp: storage_erase_set index_ok_def)
  qed
  then show ?thesis by (simp add: index_ok_def)
qed

lemma index_all_map: "index_all H s idx = idx ++ map_of (rev (map (\<lambda>n. (H (node_value n), fst n)) s))"
  by (induction s arbitrary: idx) (simp_all add: map_add_assoc[symmetric] map_of_append fun_upd_def[symmetric] map_add_upd_left)

text \<open>Distinct nodes of an indexed list have different hashes.\<close>

lemma hashes_distinct:
  assumes "nodes_ok n s" "index_ok H s idx"
  shows "distinct (map (\<lambda>n. H (node_value n)) s)"
proof -
  have "inj_on (\<lambda>n. H (node_value n)) (set s)"
  proof (rule inj_onI)
    fix x y assume a: "x \<in> set s" "y \<in> set s" "H (node_value x) = H (node_value y)"
    obtain i k v where x: "x = (i, k, v)" by (cases x)
    obtain j l w where y: "y = (j, l, w)" by (cases y)
    have "idx (H v) = Some i" "idx (H w) = Some j" using a(1,2) assms(2) x y by (auto simp: index_ok_def)
    then have "j = i" using a(3) x y by simp
    then show "x = y" using nodes_id_inj[OF assms(1), of i k v l w] a x y by simp
  qed
  moreover have "distinct s" using assms(1) by (simp add: nodes_ok_def distinct_map)
  ultimately show ?thesis by (simp add: distinct_map)
qed

lemma index_all_ok:
  assumes "distinct (map (\<lambda>n. H (node_value n)) s)"
  shows "index_ok H s (index_all H s (\<lambda>_. None))"
proof -
  let ?ps = "rev (map (\<lambda>n. (H (node_value n), fst n)) s)"
  have "map fst ?ps = rev (map (\<lambda>n. H (node_value n)) s)" by (simp add: rev_map comp_def)
  then have "distinct (map fst ?ps)" using assms by (simp only: distinct_rev)
  then have "map_of ?ps h = Some i \<longleftrightarrow> (h, i) \<in> set ?ps" for h i by (rule map_of_eq_Some_iff)
  moreover have "(h, i) \<in> set ?ps \<longleftrightarrow> (\<exists>k v. (i, k, v) \<in> set s \<and> H v = h)" for h i
    by (force simp: node_parts image_iff)
  moreover have "index_all H s (\<lambda>_. None) = map_of ?ps" by (simp add: index_all_map)
  ultimately show ?thesis by (simp add: index_ok_def)
qed

lemma storage_copy_parts:
  "map fst (storage_copy i s) = [i..<i + length s]" "map snd (storage_copy i s) = map snd s"
  by (rule nth_equalityI; simp add: storage_copy_def)+

lemma storage_copy_ok: "nodes_ok n s \<Longrightarrow> nodes_ok (i + length s) (storage_copy i s)"
proof -
  assume s: "nodes_ok n s"
  have "map node_key (storage_copy i s) = map node_key s"
    using arg_cong[OF storage_copy_parts(2)[of i s], of "map fst"] by (simp add: node_key_eq comp_def)
  moreover have "set (map fst (storage_copy i s)) = {i..<i + length s}" by (simp add: storage_copy_parts)
  then have "\<forall>j \<in> fst ` set (storage_copy i s). j < i + length s" by simp
  ultimately show ?thesis using s by (simp add: nodes_ok_def storage_copy_parts)
qed

section \<open>Iterators\<close>

lemma find_map: "find P (map f xs) = map_option f (find (\<lambda>x. P (f x)) xs)"
  by (induction xs) auto

text \<open>The pair at an iterator; the end has none.\<close>

definition place :: "('k, 'v) bimap \<Rightarrow> nat option \<Rightarrow> ('k \<times> 'v) option option" where
  "place b it = (case it of None \<Rightarrow> Some None | Some i \<Rightarrow> map_option (\<lambda>n. Some (snd n)) (storage_node (m_storage b) i))"

lemma place_found:
  assumes "nodes_ok n (m_storage b)" "find P (m_storage b) = f" "\<And>x. P x = Q (snd x)"
  shows "place b (map_option fst f) = Some (find Q (pairs b))"
proof (cases f)
  case None
  have "P = (\<lambda>x. Q (snd x))" using assms(3) by blast
  then show ?thesis using None assms(2) by (simp add: place_def pairs_def find_map)
next
  case (Some x)
  then have "x \<in> set (m_storage b)" using find_in assms(2) by metis
  then have "storage_node (m_storage b) (fst x) = Some x" using storage_node_Some[OF assms(1), of "fst x" "fst (snd x)" "snd (snd x)"] by simp
  moreover have "P = (\<lambda>x. Q (snd x))" using assms(3) by blast
  ultimately show ?thesis using Some assms(2) by (simp add: place_def pairs_def find_map)
qed

lemma next_at: "distinct (map fst (us @ x # vs)) \<Longrightarrow> storage_next (us @ x # vs) (fst x) = map_option fst (case vs of [] \<Rightarrow> None | y # _ \<Rightarrow> Some y)"
  by (induction us) auto

lemma walk_suffix:
  "\<lbrakk>nodes_ok n (m_storage b); m_storage b = us @ vs\<rbrakk> \<Longrightarrow>
    bimap_walk b (map_option fst (case vs of [] \<Rightarrow> None | y # _ \<Rightarrow> Some y)) = Some (map snd vs)"
proof (induction vs arbitrary: us)
  case Nil
  show ?case by (subst bimap_walk.simps) simp
next
  case (Cons x vs)
  have m: "x \<in> set (m_storage b)" using Cons.prems(2) by simp
  have nd: "storage_node (m_storage b) (fst x) = Some x"
    using storage_node_Some[OF Cons.prems(1), of "fst x" "fst (snd x)" "snd (snd x)"] m by simp
  have "distinct (map fst (us @ x # vs))" using Cons.prems by (simp add: nodes_ok_def)
  then have "storage_next (m_storage b) (fst x) = map_option fst (case vs of [] \<Rightarrow> None | y # _ \<Rightarrow> Some y)"
    unfolding Cons.prems(2) by (rule next_at)
  moreover have "bimap_walk b (map_option fst (case vs of [] \<Rightarrow> None | y # _ \<Rightarrow> Some y)) = Some (map snd vs)"
    using Cons.IH[of "us @ [x]"] Cons.prems by simp
  ultimately show ?case using nd by (subst bimap_walk.simps) (simp add: iterator_next_def node_parts)
qed

end
