(* ===== verification/Bimap_Spec.thy ===== *)
theory Bimap_Spec
  imports Bimap_Laws
begin

text \<open>\<^verbatim>\<open>BiMap\<close> is a one-to-one map in key order, except for the operations that replace a value.\<close>

section \<open>Operations and their meaning on the list of pairs\<close>

datatype ('k, 'v) bi_op =
  Insert 'k 'v | EraseKey 'k | EraseValue 'v | FindKey 'k | FindValue 'v | ReplaceKey 'v 'k | HasKey 'k | HasValue 'v
| Size | ClearAll | Copy | Walk

datatype ('k, 'v) bi_result = Flag bool | Place "('k \<times> 'v) option" | Number nat | Listing "('k \<times> 'v) list" | Done | Refused

fun bimap_do :: "('v \<Rightarrow> 64 word) \<Rightarrow> ('k::linorder, 'v) bi_op \<Rightarrow> ('k, 'v) bimap \<Rightarrow> (('k, 'v) bi_result \<times> ('k, 'v) bimap) option" where
  "bimap_do H (Insert k v) b = (let (r, b) = bimap_insert H b k v in Some (Flag r, b))"
| "bimap_do H (EraseKey k) b = do { (it, b) \<leftarrow> bimap_erase_key H b k; p \<leftarrow> place b it; Some (Place p, b) }"
| "bimap_do H (EraseValue v) b = do { (it, b) \<leftarrow> bimap_erase_value H b v; p \<leftarrow> place b it; Some (Place p, b) }"
| "bimap_do H (FindKey k) b = do { p \<leftarrow> place b (bimap_find_key b k); Some (Place p, b) }"
| "bimap_do H (FindValue v) b = do { it \<leftarrow> bimap_find_value H b v; p \<leftarrow> place b it; Some (Place p, b) }"
| "bimap_do H (ReplaceKey v k) b = do {
     r \<leftarrow> bimap_replaceKey H b v k;
     Some (case r of Inl _ \<Rightarrow> (Refused, b) | Inr b \<Rightarrow> (Done, b)) }"
| "bimap_do H (HasKey k) b = Some (Flag (bimap_contains_key b k), b)"
| "bimap_do H (HasValue v) b = Some (Flag (bimap_contains_value H b v), b)"
| "bimap_do H Size b = Some (Number (bimap_size b), b)"
| "bimap_do H ClearAll b = Some (Done, bimap_clear b)"
| "bimap_do H Copy b = Some (Done, bimap_copy H b)"
| "bimap_do H Walk b = do { ps \<leftarrow> bimap_walk b (bimap_begin b); Some (Listing ps, b) }"

fun bimap_run :: "('v \<Rightarrow> 64 word) \<Rightarrow> ('k::linorder, 'v) bi_op list \<Rightarrow> ('k, 'v) bimap \<Rightarrow> (('k, 'v) bi_result list \<times> ('k, 'v) bimap) option" where
  "bimap_run H [] b = Some ([], b)"
| "bimap_run H (x # xs) b = do { (r, b) \<leftarrow> bimap_do H x b; (rs, b) \<leftarrow> bimap_run H xs b; Some (r # rs, b) }"

text \<open>The pairs are in key order, without two of the same key or value.\<close>

definition by_key :: "('k \<times> 'v) list \<Rightarrow> 'k \<Rightarrow> ('k \<times> 'v) option" where
  "by_key ps k = find (\<lambda>p. fst p = k) ps"

definition by_value :: "('k \<times> 'v) list \<Rightarrow> 'v \<Rightarrow> ('k \<times> 'v) option" where
  "by_value ps v = find (\<lambda>p. snd p = v) ps"

definition without :: "('k \<times> 'v) list \<Rightarrow> 'k \<Rightarrow> ('k \<times> 'v) list" where
  "without ps k = filter (\<lambda>p. fst p \<noteq> k) ps"

definition after :: "('k::linorder \<times> 'v) list \<Rightarrow> 'k \<Rightarrow> ('k \<times> 'v) option" where
  "after ps k = find (\<lambda>p. k < fst p) ps"

fun pairs_do :: "('k::linorder, 'v) bi_op \<Rightarrow> ('k \<times> 'v) list \<Rightarrow> ('k, 'v) bi_result \<times> ('k \<times> 'v) list" where
  "pairs_do (Insert k v) ps =
    (if by_value ps v = None \<and> by_key ps k = None then (Flag True, insort_key fst (k, v) ps) else (Flag False, ps))"
| "pairs_do (EraseKey k) ps = (if by_key ps k = None then (Place None, ps) else (Place (after ps k), without ps k))"
| "pairs_do (EraseValue v) ps =
    (case by_value ps v of None \<Rightarrow> (Place None, ps) | Some p \<Rightarrow> (Place (after ps (fst p)), without ps (fst p)))"
| "pairs_do (FindKey k) ps = (Place (by_key ps k), ps)"
| "pairs_do (FindValue v) ps = (Place (by_value ps v), ps)"
| "pairs_do (ReplaceKey v k) ps =
    (if by_key ps k \<noteq> None then (Refused, ps)
     else case by_value ps v of
       None \<Rightarrow> (Done, insort_key fst (k, v) ps)
     | Some p \<Rightarrow> (Done, insort_key fst (k, v) (without ps (fst p))))"
| "pairs_do (HasKey k) ps = (Flag (by_key ps k \<noteq> None), ps)"
| "pairs_do (HasValue v) ps = (Flag (by_value ps v \<noteq> None), ps)"
| "pairs_do Size ps = (Number (length ps), ps)"
| "pairs_do ClearAll ps = (Done, [])"
| "pairs_do Copy ps = (Done, ps)"
| "pairs_do Walk ps = (Listing ps, ps)"

fun pairs_run :: "('k::linorder, 'v) bi_op list \<Rightarrow> ('k \<times> 'v) list \<Rightarrow> ('k, 'v) bi_result list \<times> ('k \<times> 'v) list" where
  "pairs_run [] ps = ([], ps)"
| "pairs_run (x # xs) ps = (let (r, ps) = pairs_do x ps; (rs, ps) = pairs_run xs ps in (r # rs, ps))"

section \<open>Each operation\<close>

lemma by_key_pairs: "by_key (pairs b) k = None \<longleftrightarrow> storage_find (m_storage b) k = None"
  by (simp add: by_key_def pairs_def find_map storage_find_def node_parts)

lemma find_filter: "\<forall>x \<in> set xs. \<not> P x \<longrightarrow> \<not> Q x \<Longrightarrow> find Q (filter P xs) = find Q xs"
  by (induction xs) auto

lemma in_pairs: "p \<in> set (pairs b) \<Longrightarrow> \<exists>i. (i, fst p, snd p) \<in> set (m_storage b)"
  unfolding pairs_def by (cases p) force

lemma key_stored:
  assumes "bimap_ok H b" "(i, k, v) \<in> set (m_storage b)"
  shows "storage_find (m_storage b) k = Some i" "storage_node (m_storage b) i = Some (i, k, v)"
    "by_key (pairs b) k = Some (k, v)" "m_indexMap b (H v) = Some i" "key_at b i = Some k"
    "storage_next (m_storage b) i = map_option fst (find (\<lambda>x. k < node_key x) (m_storage b))"
proof -
  have n: "nodes_ok (bi_next b) (m_storage b)" and x: "index_ok H (m_storage b) (m_indexMap b)"
    using assms(1) by (simp_all add: bimap_ok_def)
  show f: "storage_find (m_storage b) k = Some i" using n assms(2) by (rule storage_find_Some)
  show d: "storage_node (m_storage b) i = Some (i, k, v)" using n assms(2) by (rule storage_node_Some)
  show "m_indexMap b (H v) = Some i" using assms(2) index_Some[OF x] by blast
  show "key_at b i = Some k" using d by (simp add: key_at_def)
  show "storage_next (m_storage b) i = map_option fst (find (\<lambda>x. k < node_key x) (m_storage b))"
    using n assms(2) by (rule storage_next_pairs)
  have "by_key (pairs b) k \<noteq> None" using f by_key_pairs[of b k] by simp
  then obtain p where p: "by_key (pairs b) k = Some p" by blast
  then have "p \<in> set (pairs b)" "fst p = k" by (auto simp: by_key_def dest!: find_in)
  then obtain j where "(j, k, snd p) \<in> set (m_storage b)" using in_pairs by blast
  then have "snd p = v" using nodes_key_inj[OF n assms(2)] by blast
  then show "by_key (pairs b) k = Some (k, v)" using p \<open>fst p = k\<close> by (cases p) simp
qed

text \<open>Among values on which the hash is injective, the index finds the value itself.\<close>

lemma value_lookup:
  assumes "bimap_ok H b" "inj_on H U" "snd ` set (pairs b) \<subseteq> U" "v \<in> U"
  shows "(by_value (pairs b) v = None \<and> m_indexMap b (H v) = None) \<or>
    (\<exists>i k. by_value (pairs b) v = Some (k, v) \<and> (i, k, v) \<in> set (m_storage b) \<and> m_indexMap b (H v) = Some i)"
proof (cases "by_value (pairs b) v")
  case None
  then have "v \<notin> snd ` set (pairs b)" by (auto simp: by_value_def find_None_iff image_iff)
  then have "\<forall>(i, k, w) \<in> set (m_storage b). H w \<noteq> H v"
    using assms(2-4) by (fastforce simp: pairs_def inj_on_def image_iff)
  then show ?thesis using None assms(1) index_None[of H "m_storage b" "m_indexMap b"] by (simp add: bimap_ok_def)
next
  case (Some p)
  then have p: "p \<in> set (pairs b)" "snd p = v" by (auto simp: by_value_def dest!: find_in)
  then obtain i where "(i, fst p, v) \<in> set (m_storage b)" using in_pairs by blast
  then show ?thesis using Some p(2) key_stored(4)[OF assms(1)] by (cases p) auto
qed

lemma insert_step:
  assumes "bimap_ok H b" "m_indexMap b (H v) = None" "storage_find (m_storage b) k = None"
  defines "b' \<equiv> b\<lparr>m_storage := storage_insert (bi_next b, k, v) (m_storage b), bi_next := bi_next b + 1,
     m_indexMap := (m_indexMap b)(H v \<mapsto> bi_next b)\<rparr>"
  shows "bimap_insert H b k v = (True, b')" "bimap_ok H b'" "pairs b' = insort_key fst (k, v) (pairs b)"
  using assms storage_insert_ok[of "bi_next b" "m_storage b" k v] index_insert[of H "m_storage b" "m_indexMap b" v "bi_next b" k]
    insert_pairs[of k "m_storage b" "bi_next b" v]
  by (simp_all add: bimap_insert_def bimap_ok_def storage_find_None pairs_def Let_def)

lemma erase_step:
  assumes "bimap_ok H b" "(i, k, v) \<in> set (m_storage b)"
  defines "b' \<equiv> b\<lparr>m_indexMap := (m_indexMap b)(H v := None), m_storage := storage_erase (m_storage b) i\<rparr>"
  shows "bimap_ok H b'" "pairs b' = without (pairs b) k"
    "place b' (storage_next (m_storage b) i) = Some (after (pairs b) k)"
proof -
  have n: "nodes_ok (bi_next b) (m_storage b)" and x: "index_ok H (m_storage b) (m_indexMap b)"
    using assms(1) by (simp_all add: bimap_ok_def)
  show ok: "bimap_ok H b'" using storage_erase_ok[OF n] index_erase[OF n x assms(2)] by (simp add: bimap_ok_def b'_def)
  show p: "pairs b' = without (pairs b) k" using erase_pairs[OF n assms(2)] by (simp add: pairs_def without_def b'_def)
  have e: "find (\<lambda>x. k < node_key x) (storage_erase (m_storage b) i) = find (\<lambda>x. k < node_key x) (m_storage b)"
  proof -
    have "\<forall>x \<in> set (m_storage b). fst x = i \<longrightarrow> \<not> k < node_key x"
      using nodes_id_inj[OF n assms(2)] by (auto simp: node_parts)
    then show ?thesis unfolding storage_erase_def by (intro find_filter) blast
  qed
  have "find (\<lambda>p. k < fst p) (without (pairs b) k) = find (\<lambda>p. k < fst p) (pairs b)"
    unfolding without_def by (intro find_filter) auto
  then have "place b' (map_option fst (find (\<lambda>x. k < node_key x) (m_storage b))) = Some (after (pairs b) k)"
    using place_found[of "bi_next b" b' "\<lambda>x. k < node_key x" "find (\<lambda>x. k < node_key x) (m_storage b)" "\<lambda>p. k < fst p"] ok e p
    by (simp add: bimap_ok_def b'_def node_parts after_def)
  then show "place b' (storage_next (m_storage b) i) = Some (after (pairs b) k)"
    using key_stored(6)[OF assms(1,2)] by simp
qed

lemma index_not_key: "bimap_ok H b \<Longrightarrow> m_indexMap b (H v) = None \<Longrightarrow> H v \<notin> H ` snd ` set (pairs b)"
  using index_None[of H "m_storage b" "m_indexMap b" "H v"] by (fastforce simp: bimap_ok_def pairs_def)

fun op_values :: "('k, 'v) bi_op \<Rightarrow> 'v set" where
  "op_values (Insert k v) = {v}" | "op_values (EraseValue v) = {v}" | "op_values (FindValue v) = {v}"
| "op_values (ReplaceKey v k) = {v}" | "op_values (HasValue v) = {v}" | "op_values _ = {}"

definition does :: "('v \<Rightarrow> 64 word) \<Rightarrow> ('k::linorder, 'v) bi_op \<Rightarrow> ('k, 'v) bimap \<Rightarrow> bool" where
  "does H x b \<longleftrightarrow> (\<exists>b'. bimap_do H x b = Some (fst (pairs_do x (pairs b)), b') \<and> bimap_ok H b' \<and> pairs b' = snd (pairs_do x (pairs b)))"

lemma doesI: "\<lbrakk>bimap_do H x b = Some (r, b'); bimap_ok H b'; pairs_do x (pairs b) = (r, pairs b')\<rbrakk> \<Longrightarrow> does H x b"
  by (simp add: does_def)

lemma insert_does:
  assumes "bimap_ok H b" "inj_on H U" "snd ` set (pairs b) \<subseteq> U" "v \<in> U"
  shows "does H (Insert k v) b"
proof (cases "m_indexMap b (H v) = None \<and> storage_find (m_storage b) k = None")
  case True
  then show ?thesis using value_lookup[OF assms] insert_step[OF assms(1)] by_key_pairs[of b k]
    by (intro doesI) auto
next
  case False
  then have "bimap_insert H b k v = (False, b)" by (auto simp: bimap_insert_def Let_def)
  moreover have "\<not> (by_value (pairs b) v = None \<and> by_key (pairs b) k = None)"
    using False value_lookup[OF assms] by_key_pairs[of b k] by auto
  ultimately show ?thesis using assms(1) by (intro doesI) auto
qed

lemma erase_key_does:
  assumes "bimap_ok H b"
  shows "does H (EraseKey k) b"
proof (cases "storage_find (m_storage b) k")
  case None
  then show ?thesis using assms by_key_pairs[of b k]
    by (intro doesI[of _ _ _ "Place None" b]) (auto simp: bimap_erase_key_def place_def)
next
  case (Some i)
  then obtain v where v: "(i, k, v) \<in> set (m_storage b)" using storage_find_in by metis
  show ?thesis using Some key_stored[OF assms v] erase_step[OF assms v]
    by (intro doesI) (auto simp: bimap_erase_key_def)
qed

lemma erase_value_does:
  assumes "bimap_ok H b" "inj_on H U" "snd ` set (pairs b) \<subseteq> U" "v \<in> U"
  shows "does H (EraseValue v) b"
  using value_lookup[OF assms]
proof (elim disjE conjE exE)
  assume "by_value (pairs b) v = None" "m_indexMap b (H v) = None"
  then show ?thesis using assms(1)
    by (intro doesI[of _ _ _ "Place None" b]) (auto simp: bimap_erase_value_def place_def)
next
  fix i k assume a: "by_value (pairs b) v = Some (k, v)" "(i, k, v) \<in> set (m_storage b)" "m_indexMap b (H v) = Some i"
  then show ?thesis using key_stored[OF assms(1) a(2)] erase_step[OF assms(1) a(2)]
    by (intro doesI) (auto simp: bimap_erase_value_def)
qed

lemma place_stored:
  assumes "bimap_ok H b" "(i, k, v) \<in> set (m_storage b)"
  shows "place b (Some i) = Some (Some (k, v))"
  using key_stored(2)[OF assms] by (simp add: place_def)

lemma find_key_does:
  assumes "bimap_ok H b"
  shows "does H (FindKey k) b"
proof (cases "storage_find (m_storage b) k")
  case None
  then show ?thesis using assms by_key_pairs[of b k] by (intro doesI) (auto simp: bimap_find_key_def place_def)
next
  case (Some i)
  then obtain v where v: "(i, k, v) \<in> set (m_storage b)" using storage_find_in by metis
  show ?thesis using Some key_stored(3)[OF assms v] place_stored[OF assms v] assms
    by (intro doesI) (auto simp: bimap_find_key_def)
qed

lemma find_value_does:
  assumes "bimap_ok H b" "inj_on H U" "snd ` set (pairs b) \<subseteq> U" "v \<in> U"
  shows "does H (FindValue v) b"
  using value_lookup[OF assms]
proof (elim disjE conjE exE)
  assume "by_value (pairs b) v = None" "m_indexMap b (H v) = None"
  then show ?thesis using assms(1) by (intro doesI) (auto simp: bimap_find_value_def place_def)
next
  fix i k assume a: "by_value (pairs b) v = Some (k, v)" "(i, k, v) \<in> set (m_storage b)" "m_indexMap b (H v) = Some i"
  then show ?thesis using key_stored[OF assms(1) a(2)] place_stored[OF assms(1) a(2)] assms(1)
    by (intro doesI) (auto simp: bimap_find_value_def)
qed

lemma has_value_does:
  assumes "bimap_ok H b" "inj_on H U" "snd ` set (pairs b) \<subseteq> U" "v \<in> U"
  shows "does H (HasValue v) b"
  using value_lookup[OF assms] assms(1) by (intro doesI) (auto simp: bimap_contains_value_def)

lemma replace_key_does:
  assumes "bimap_ok H b" "inj_on H U" "snd ` set (pairs b) \<subseteq> U" "v \<in> U"
  shows "does H (ReplaceKey v k) b"
proof (cases "storage_find (m_storage b) k")
  case (Some i)
  then show ?thesis using assms(1) by_key_pairs[of b k]
    by (intro doesI[of _ _ _ Refused b]) (auto simp: bimap_replaceKey_def)
next
  case None
  then have nk: "by_key (pairs b) k = None" using by_key_pairs[of b k] by simp
  from value_lookup[OF assms] show ?thesis
  proof (elim disjE conjE exE)
    assume "by_value (pairs b) v = None" "m_indexMap b (H v) = None"
    then show ?thesis using None nk insert_step[OF assms(1)]
      by (intro doesI) (auto simp: bimap_replaceKey_def Let_def)
  next
    fix i l assume a: "by_value (pairs b) v = Some (l, v)" "(i, l, v) \<in> set (m_storage b)" "m_indexMap b (H v) = Some i"
    define c where "c = b\<lparr>m_indexMap := (m_indexMap b)(H v := None), m_storage := storage_erase (m_storage b) i\<rparr>"
    have c: "bimap_ok H c" "pairs c = without (pairs b) l" using erase_step[OF assms(1) a(2)] by (simp_all add: c_def)
    have ck: "storage_find (m_storage c) k = None" "m_indexMap c (H v) = None"
      using None by (auto simp: c_def storage_find_None storage_erase_set)
    let ?b = "c\<lparr>m_storage := storage_insert (bi_next c, k, v) (m_storage c), bi_next := bi_next c + 1,
     m_indexMap := (m_indexMap c)(H v \<mapsto> bi_next c)\<rparr>"
    have "bimap_replaceKey H b v k = Some (Inr ?b)"
      using None a key_stored[OF assms(1) a(2)] ck by (simp add: bimap_replaceKey_def c_def Let_def)
    then show ?thesis using insert_step(2,3)[OF c(1) ck(2,1)] c(2) a(1) nk by (intro doesI) auto
  qed
qed

lemma copy_does:
  assumes "bimap_ok H b"
  shows "does H Copy b"
proof -
  let ?s = "storage_copy 0 (m_storage b)"
  have n: "nodes_ok (bi_next b) (m_storage b)" and x: "index_ok H (m_storage b) (m_indexMap b)"
    using assms by (simp_all add: bimap_ok_def)
  have "map (\<lambda>n. H (node_value n)) ?s = map (\<lambda>n. H (node_value n)) (m_storage b)"
    using arg_cong[OF storage_copy_parts(2)[of 0 "m_storage b"], of "map (\<lambda>p. H (snd p))"] by (simp add: node_parts comp_def)
  then have "index_ok H ?s (index_all H ?s (\<lambda>_. None))" using hashes_distinct[OF n x] by (intro index_all_ok) simp
  moreover have "length ?s = length (m_storage b)" by (simp add: storage_copy_def)
  ultimately show ?thesis using storage_copy_ok[OF n, of 0]
    by (intro doesI[of _ _ _ Done "bimap_copy H b"]) (auto simp: bimap_copy_def bimap_ok_def pairs_def storage_copy_parts Let_def)
qed

lemma walk_does:
  assumes "bimap_ok H b"
  shows "does H Walk b"
proof -
  have "bimap_begin b = map_option fst (case m_storage b of [] \<Rightarrow> None | y # _ \<Rightarrow> Some y)"
    by (simp add: bimap_begin_def split: list.split)
  then have "bimap_walk b (bimap_begin b) = Some (pairs b)"
    using walk_suffix[of "bi_next b" b "[]" "m_storage b"] assms by (simp add: bimap_ok_def pairs_def)
  then show ?thesis using assms by (intro doesI) auto
qed

lemma bi_do_simulates:
  assumes "bimap_ok H b" "inj_on H U" "snd ` set (pairs b) \<subseteq> U" "op_values x \<subseteq> U"
  shows "does H x b"
proof (cases x)
  case (HasKey k)
  then show ?thesis using assms(1) by_key_pairs[of b k] by (intro doesI) (auto simp: bimap_contains_key_def)
next
  case Size
  then show ?thesis using assms(1) by (intro doesI) (auto simp: bimap_size_def pairs_def)
next
  case ClearAll
  then show ?thesis by (intro doesI) (auto simp: bimap_clear_def pairs_def bimap_ok_def nodes_ok_def index_ok_def)
qed (use assms insert_does erase_key_does erase_value_does find_key_does find_value_does has_value_does
    replace_key_does copy_does walk_does in auto)

lemma pairs_values: "snd ` set (snd (pairs_do x ps)) \<subseteq> snd ` set ps \<union> op_values x"
  by (cases x) (auto simp: set_insort_key without_def split: option.splits)

section \<open>Programs\<close>

lemma one_to_one:
  assumes "bimap_ok H b"
  shows "sorted_wrt (<) (map fst (pairs b))" "distinct (map snd (pairs b))"
proof -
  have n: "nodes_ok (bi_next b) (m_storage b)" and x: "index_ok H (m_storage b) (m_indexMap b)"
    using assms by (simp_all add: bimap_ok_def)
  show "sorted_wrt (<) (map fst (pairs b))" using n by (simp add: nodes_ok_def node_key_eq pairs_def comp_def)
  have "distinct (map H (map snd (pairs b)))" using hashes_distinct[OF n x] by (simp add: pairs_def node_parts comp_def)
  then show "distinct (map snd (pairs b))" by (simp only: distinct_map)
qed

lemma bi_run_simulates:
  "\<lbrakk>bimap_ok H b; inj_on H U; snd ` set (pairs b) \<subseteq> U; \<forall>x \<in> set xs. op_values x \<subseteq> U\<rbrakk> \<Longrightarrow>
    \<exists>b'. bimap_run H xs b = Some (fst (pairs_run xs (pairs b)), b') \<and> bimap_ok H b' \<and> pairs b' = snd (pairs_run xs (pairs b))"
proof (induction xs arbitrary: b)
  case (Cons x xs)
  obtain b' where b': "bimap_do H x b = Some (fst (pairs_do x (pairs b)), b')" "bimap_ok H b'" "pairs b' = snd (pairs_do x (pairs b))"
    using bi_do_simulates[OF Cons.prems(1-3), of x] Cons.prems(4) by (auto simp: does_def)
  have "snd ` set (pairs b') \<subseteq> U" using pairs_values[of x "pairs b"] Cons.prems(3,4) b'(3) by auto
  then show ?case using Cons.IH[OF b'(2) Cons.prems(2)] Cons.prems(4) b' by (auto simp: Let_def split: prod.split)
qed simp

text \<open>C36: Every program of insertions, erasures and look-ups by key or value, key replacements, copies and walks
  returns what it returns on the list of pairs in key order, without following a dangling pointer, and
  keeps the map one-to-one, if the hash does not collide on the values that occur.\<close>

theorem bimap_simulates:
  assumes "bimap_ok H b" "inj_on H U" "snd ` set (pairs b) \<subseteq> U" "\<forall>x \<in> set xs. op_values x \<subseteq> U"
  shows "\<exists>b'. bimap_run H xs b = Some (fst (pairs_run xs (pairs b)), b') \<and> bimap_ok H b' \<and> pairs b' = snd (pairs_run xs (pairs b))
    \<and> sorted_wrt (<) (map fst (pairs b')) \<and> distinct (map snd (pairs b'))"
  using bi_run_simulates[OF assms] one_to_one by blast

lemma bi_new_ok: "bimap_ok H bimap_new" "pairs bimap_new = []"
  by (simp_all add: bimap_ok_def bimap_new_def nodes_ok_def index_ok_def pairs_def)

theorem bimap_simulates_witness:
  "\<exists>b'. bimap_run of_nat [Insert 5 70, Insert (2::nat) 80, Insert 2 90, Insert 9 70, FindValue 80, ReplaceKey 70 1, Walk, EraseValue 70, Size] bimap_new
    = Some ([Flag True, Flag True, Flag False, Flag False, Place (Some (2, 80)), Done, Listing [(1, 70), (2, 80)], Place (Some (2, 80)), Number 1], b')"
proof -
  have "inj_on (of_nat :: nat \<Rightarrow> 64 word) {70, 80, 90}" by (simp add: inj_on_def)
  then show ?thesis
    using bimap_simulates[OF bi_new_ok(1), of of_nat "{70, 80, 90}" "[Insert 5 70, Insert (2::nat) 80, Insert 2 90, Insert 9 70, FindValue 80, ReplaceKey 70 1, Walk, EraseValue 70, Size]"]
    by (auto simp: bi_new_ok by_value_def by_key_def without_def after_def)
qed

section \<open>Where it fails\<close>

text \<open>\<^verbatim>\<open>replaceValue\<close> of an existing key keeps the old value: the new value is found in its place but reads as
  the old one, the old one is no longer found, and once the key is erased a search for the new value
  follows a dangling pointer. \<^verbatim>\<open>update\<close> of an iterator with a new value returns true and changes nothing.
  Assigning a map leaves the entries of the old values in the index, and searching one dangles.\<close>

theorem bimap_value_faults:
  assumes ok: "bimap_ok H b" and x: "(i, k, v) \<in> set (m_storage b)" and w: "m_indexMap b (H w) = None"
    and other: "H v \<notin> H ` snd ` set (pairs c)"
  shows "(\<exists>b' b'' it. bimap_replaceValue H b k w = Some (Inr b') \<and> pairs b' = pairs b
      \<and> bimap_find_value H b' w = Some (Some i) \<and> iterator_value b' (Some i) = Some (Inr v) \<and> \<not> bimap_contains_value H b' v
      \<and> bimap_erase_key H b' k = Some (it, b'') \<and> bimap_contains_value H b'' w \<and> bimap_find_value H b'' w = None)
    \<and> iterator_update H b (Some i) w = Some (Inr (True, b))
    \<and> bimap_contains_value H (bimap_assign H b c) v \<and> bimap_find_value H (bimap_assign H b c) v = None"
proof -
  note st = key_stored[OF ok x]
  have hw: "H w \<noteq> H v" using w st(4) by auto
  let ?b = "b\<lparr>m_indexMap := ((m_indexMap b)(H v := None))(H w \<mapsto> i)\<rparr>"
  let ?c = "?b\<lparr>m_indexMap := (m_indexMap ?b)(H v := None), m_storage := storage_erase (m_storage b) i\<rparr>"
  have r: "bimap_replaceValue H b k w = Some (Inr ?b)" using w st by (simp add: bimap_replaceValue_def)
  have f: "bimap_find_value H ?b w = Some (Some i)" "iterator_value ?b (Some i) = Some (Inr v)" "\<not> bimap_contains_value H ?b v"
    using st hw by (simp_all add: bimap_find_value_def key_at_def iterator_value_def bimap_contains_value_def)
  have e: "bimap_erase_key H ?b k = Some (storage_next (m_storage b) i, ?c)" using st by (simp add: bimap_erase_key_def)
  have gone: "storage_node (storage_erase (m_storage b) i) i = None"
    by (auto simp: storage_node_def storage_erase_def find_None_iff)
  have d: "bimap_contains_value H ?c w" "bimap_find_value H ?c w = None"
    using hw gone by (simp_all add: bimap_contains_value_def bimap_find_value_def key_at_def)
  have u: "iterator_update H b (Some i) w = Some (Inr (True, b))"
    using w st by (simp add: iterator_update_def Let_def fun_upd_idem)
  let ?s = "storage_copy (bi_next b) (m_storage c)"
  have "map_of (rev (map (\<lambda>n. (H (node_value n), fst n)) ?s)) (H v) = None"
  proof -
    have "map (\<lambda>n. H (node_value n)) ?s = map (\<lambda>p. H (snd p)) (pairs c)"
      using arg_cong[OF storage_copy_parts(2)[of "bi_next b" "m_storage c"], of "map (\<lambda>p. H (snd p))"]
      by (simp add: node_parts comp_def pairs_def)
    then have "(\<lambda>n. H (node_value n)) ` set ?s = (\<lambda>p. H (snd p)) ` set (pairs c)" by (metis set_map)
    then show ?thesis using other by (auto simp: map_of_eq_None_iff image_image)
  qed
  then have a: "m_indexMap (bimap_assign H b c) (H v) = Some i"
    using st(4) by (simp add: bimap_assign_def index_all_map Let_def map_add_def)
  have "i < bi_next b" using ok x by (fastforce simp: bimap_ok_def nodes_ok_def)
  moreover have "fst ` set ?s = {bi_next b..<bi_next b + length (m_storage c)}"
    using arg_cong[OF storage_copy_parts(1)[of "bi_next b" "m_storage c"], of set] by simp
  ultimately have "i \<notin> fst ` set ?s" by simp
  then have "storage_node ?s i = None" by (auto simp: storage_node_def find_None_iff image_iff)
  then have "bimap_contains_value H (bimap_assign H b c) v" "bimap_find_value H (bimap_assign H b c) v = None"
    using a by (simp_all add: bimap_contains_value_def bimap_find_value_def key_at_def bimap_assign_def Let_def)
  moreover have "pairs ?b = pairs b" by (simp add: pairs_def)
  ultimately show ?thesis using r f e d u by blast
qed

definition one_pair :: "(nat, nat) bimap" where
  "one_pair = \<lparr>m_storage = [(0, 5, 70)], m_indexMap = [70 \<mapsto> 0], bi_next = 1\<rparr>"

lemma one_pair_ok: "bimap_ok of_nat one_pair"
  by (auto simp: bimap_ok_def one_pair_def nodes_ok_def index_ok_def)

theorem bimap_value_faults_witness:
  "\<exists>b' b'' it. bimap_replaceValue of_nat one_pair 5 80 = Some (Inr b') \<and> pairs b' = [(5, 70)]
    \<and> bimap_erase_key of_nat b' 5 = Some (it, b'') \<and> bimap_find_value of_nat b'' 80 = None"
proof -
  have x: "(0, 5, 70) \<in> set (m_storage one_pair)" "m_indexMap one_pair (of_nat 80) = None" by (simp_all add: one_pair_def)
  have o: "of_nat 70 \<notin> of_nat ` snd ` set (pairs (bimap_new :: (nat, nat) bimap))" by (simp add: bi_new_ok)
  have p: "pairs one_pair = [(5, 70)]" by (simp add: one_pair_def pairs_def)
  from bimap_value_faults[OF one_pair_ok x o] show ?thesis unfolding p by blast
qed

end
