(* ===== verification/Ini_Ops.thy ===== *)
theory Ini_Ops
  imports Prelude "HOL-Library.Char_ord" "HOL-Library.List_Lexorder"
begin

text \<open>
  The reader and writer of INI files, \<^verbatim>\<open>src/config/IniConfig.cpp\<close>. A file is a string, or \<^term>\<open>None\<close> when it cannot be
  opened. A \<^verbatim>\<open>std::string\<close> may hold null characters; a pointer to characters stands for those before the first one. An
  exception is the left value of a result and leaves the object as it is at that moment.
\<close>

section \<open>The standard containers\<close>

text \<open>\<^verbatim>\<open>std::map\<close> with strings as keys: the pairs in key order.\<close>

type_synonym 'v smap = "(string \<times> 'v) list"

fun smap_update :: "string \<Rightarrow> 'v \<Rightarrow> 'v smap \<Rightarrow> 'v smap" where
  "smap_update k v [] = [(k, v)]"
| "smap_update k v ((k', v') # m) =
    (if k < k' then (k, v) # (k', v') # m
     else if k = k' then (k, v) # m
     else (k', v') # smap_update k v m)"

definition smap_insert :: "string \<Rightarrow> 'v \<Rightarrow> 'v smap \<Rightarrow> 'v smap" where
  "smap_insert k v m = (if map_of m k = None then smap_update k v m else m)"

definition smap_erase :: "string \<Rightarrow> 'v smap \<Rightarrow> 'v smap" where
  "smap_erase k m = filter (\<lambda>p. fst p \<noteq> k) m"

text \<open>\<^verbatim>\<open>operator[]\<close> of a map makes a default value when there is none.\<close>

definition smap_at :: "'v \<Rightarrow> string \<Rightarrow> 'v smap \<Rightarrow> 'v \<times> 'v smap" where
  "smap_at d k m = (case map_of m k of Some v \<Rightarrow> (v, m) | None \<Rightarrow> (d, smap_update k d m))"

definition NUL :: char where "NUL = CHR 0x00"

definition c_str :: "string \<Rightarrow> string" where
  "c_str s = takeWhile (\<lambda>c. c \<noteq> NUL) s"

definition find_char :: "char \<Rightarrow> string \<Rightarrow> nat option" where
  "find_char c s = (if c \<in> set s then Some (length (takeWhile (\<lambda>d. d \<noteq> c) s)) else None)"

definition find_first_not_of :: "string \<Rightarrow> string \<Rightarrow> nat option" where
  "find_first_not_of s cs =
    (let n = length (takeWhile (\<lambda>d. d \<in> set cs) s) in if n < length s then Some n else None)"

definition find_last_not_of :: "string \<Rightarrow> string \<Rightarrow> nat option" where
  "find_last_not_of s cs = map_option (\<lambda>n. length s - 1 - n) (find_first_not_of (rev s) cs)"

section \<open>Lines\<close>

definition blanks :: string where
  "blanks = [CHR 0x20, CHR 0x09, CHR 0x0D, CHR 0x0A]"

definition ini_trim :: "string \<Rightarrow> bool \<times> string" where
  "ini_trim str = (case find_first_not_of str blanks of
     None \<Rightarrow> (False, str)
   | Some begin \<Rightarrow> (case find_last_not_of str blanks of
       None \<Rightarrow> (False, str)
     | Some stop \<Rightarrow> if begin = stop then (False, str) else (True, take (stop - begin + 1) (drop begin str))))"

text \<open>\<^verbatim>\<open>fgets\<close> reads a line with its end, or as much of it as the buffer holds.\<close>

fun fgets :: "nat \<Rightarrow> string \<Rightarrow> string \<times> string" where
  "fgets 0 s = ([], s)"
| "fgets (Suc n) [] = ([], [])"
| "fgets (Suc n) (c # s) = (if c = CHR 0x0A then ([c], s) else let (l, r) = fgets n s in (c # l, r))"

definition escapeString :: string where
  "escapeString = ''abcdefghijklmnopqrstuvwxyz_ABCDEFGHIJKLMNOPQRSTUVWXYZ0123456789''"

definition GLOBAL_NODE_NAME :: string where "GLOBAL_NODE_NAME = ''''"

record ini_config =
  mConfigFilePath :: string
  mConfigMap :: "string smap"
  mSourceMap :: "string smap smap"

datatype ini_error = Invalid_Node_Name | Invalid_Pair | Invalid_Key_Name | Length_Error

definition ini_new :: ini_config where
  "ini_new = \<lparr>mConfigFilePath = '''', mConfigMap = [], mSourceMap = []\<rparr>"

definition ini_reset :: "ini_config \<Rightarrow> ini_config" where
  "ini_reset s = s\<lparr>mConfigFilePath := '''', mConfigMap := [], mSourceMap := []\<rparr>"

text \<open>
  One round of the loop, with the name of the current node: a range that ends before it starts makes the
  constructor of a string throw.
\<close>

definition ini_store :: "string \<Rightarrow> string \<Rightarrow> string \<Rightarrow> ini_config \<Rightarrow> ini_config" where
  "ini_store nodeName key val s =
    (let s = s\<lparr>mConfigMap := smap_update (if nodeName = GLOBAL_NODE_NAME then key else nodeName @ ''.'' @ key) val (mConfigMap s)\<rparr>;
         (m, source) = smap_at [] nodeName (mSourceMap s)
     in s\<lparr>mSourceMap := smap_update nodeName (smap_insert key val m) source\<rparr>)"

definition ini_pair :: "string \<Rightarrow> string \<Rightarrow> ini_config \<Rightarrow> ini_error + string \<times> ini_config" where
  "ini_pair nodeName pos s = (case find_char (CHR ''='') pos of
     None \<Rightarrow> Inl Invalid_Pair
   | Some equalChar \<Rightarrow>
       if equalChar = 0 then Inl Length_Error
       else
         let key = snd (ini_trim (take (equalChar - 1) pos));
             val = snd (ini_trim (drop (equalChar + 1) pos))
         in if find_first_not_of key escapeString \<noteq> None then Inl Invalid_Key_Name
            else Inr (nodeName, ini_store nodeName key val s))"

definition ini_content :: "string \<Rightarrow> string \<Rightarrow> ini_config \<Rightarrow> ini_error + string \<times> ini_config" where
  "ini_content nodeName pos s = (case (find_char (CHR ''['') pos, find_char (CHR '']'') pos) of
     (Some left, Some right) \<Rightarrow>
       if left < right then
         let nodeName = snd (ini_trim (take (right - left - 1) (drop (left + 1) pos))) in
         if find_first_not_of nodeName escapeString \<noteq> None then Inl Invalid_Node_Name else Inr (nodeName, s)
       else ini_pair nodeName pos s
   | _ \<Rightarrow> ini_pair nodeName pos s)"

definition ini_line :: "string \<Rightarrow> string \<Rightarrow> ini_config \<Rightarrow> ini_error + string \<times> ini_config" where
  "ini_line nodeName buf s =
    (let line = c_str buf in
     if buf ! 0 = CHR '';'' then Inr (nodeName, s)
     else
       let line = (case find_char (CHR '';'') line of None \<Rightarrow> line | Some index \<Rightarrow> line[index := NUL]);
           (ok, line) = ini_trim line
       in if \<not> ok then Inr (nodeName, s) else ini_content nodeName (c_str line) s)"

lemma fgets_rest: "length (snd (fgets n s)) \<le> length s"
  by (induction n s rule: fgets.induct) (auto split: prod.splits)

lemma fgets_shorter: "fgets (numeral n) (c # s) = (l, r) \<Longrightarrow> length r < Suc (length s)"
  using fgets_rest [of "pred_numeral n" s] by (auto simp: numeral_eq_Suc split: if_splits prod.splits)

function ini_loop :: "string \<Rightarrow> ini_config \<Rightarrow> string \<Rightarrow> (ini_error + bool) \<times> ini_config" where
  "ini_loop nodeName s [] = (Inr True, s)"
| "ini_loop nodeName s (c # file) =
    (let (buf, rest) = fgets 1023 (c # file) in
     case ini_line nodeName buf s of
       Inl e \<Rightarrow> (Inl e, s)
     | Inr (nodeName, s) \<Rightarrow> ini_loop nodeName s rest)"
  by pat_completeness auto
termination
  by (relation "measure (\<lambda>(_, _, s). length s)") (auto dest: fgets_shorter [OF sym])

definition ini_parser :: "ini_config \<Rightarrow> string \<Rightarrow> string option \<Rightarrow> (ini_error + bool) \<times> ini_config" where
  "ini_parser s configPath file =
    (let s = (ini_reset s)\<lparr>mConfigFilePath := configPath\<rparr> in
     case file of None \<Rightarrow> (Inr False, s) | Some text \<Rightarrow> ini_loop GLOBAL_NODE_NAME s text)"

section \<open>Access\<close>

definition ini_value :: "ini_config \<Rightarrow> string \<Rightarrow> string" where
  "ini_value s key = (case map_of (mConfigMap s) key of None \<Rightarrow> '''' | Some v \<Rightarrow> v)"

text \<open>The name of the node and the key in it; the node loses its last character.\<close>

definition ini_split :: "string \<Rightarrow> ini_error + string \<times> string" where
  "ini_split key = (case find_char (CHR ''.'') key of
     None \<Rightarrow> Inr (GLOBAL_NODE_NAME, key)
   | Some pos \<Rightarrow> if pos = 0 then Inl Length_Error else Inr (take (pos - 1) key, c_str (drop (pos + 1) key)))"

text \<open>\<^verbatim>\<open>operator[]\<close> gives a reference: here the value it refers to, and where it is.\<close>

definition ini_index :: "ini_config \<Rightarrow> string \<Rightarrow> ini_error + (string \<times> string \<times> string) \<times> ini_config" where
  "ini_index s key = (case ini_split key of
     Inl e \<Rightarrow> Inl e
   | Inr (nodeName, keyName) \<Rightarrow> (case map_of (mSourceMap s) nodeName of
       None \<Rightarrow> Inr ((nodeName, keyName, ''''), s\<lparr>mSourceMap := smap_update nodeName [(keyName, '''')] (mSourceMap s)\<rparr>)
     | Some m \<Rightarrow>
         let (v, m) = smap_at '''' keyName m in
         Inr ((nodeName, keyName, v), s\<lparr>mSourceMap := smap_update nodeName m (mSourceMap s)\<rparr>)))"

definition ini_assign :: "ini_config \<Rightarrow> string \<Rightarrow> string \<Rightarrow> ini_error + ini_config" where
  "ini_assign s key val = (case ini_index s key of
     Inl e \<Rightarrow> Inl e
   | Inr ((nodeName, keyName, _), s) \<Rightarrow> (case map_of (mSourceMap s) nodeName of
       None \<Rightarrow> Inr s
     | Some m \<Rightarrow> Inr (s\<lparr>mSourceMap := smap_update nodeName (smap_update keyName val m) (mSourceMap s)\<rparr>)))"

definition ini_del :: "ini_config \<Rightarrow> string \<Rightarrow> (ini_error + bool) \<times> ini_config" where
  "ini_del s key = (case map_of (mConfigMap s) key of
     None \<Rightarrow> (Inr True, s)
   | Some _ \<Rightarrow>
       let s = s\<lparr>mConfigMap := smap_erase key (mConfigMap s)\<rparr> in
       (case ini_split key of
          Inl e \<Rightarrow> (Inl e, s)
        | Inr (nodeName, keyName) \<Rightarrow> (case map_of (mSourceMap s) nodeName of
            None \<Rightarrow> (Inr True, s)
          | Some m \<Rightarrow> (Inr True, s\<lparr>mSourceMap := smap_update nodeName (smap_erase keyName m) (mSourceMap s)\<rparr>))))"

section \<open>Writing\<close>

text \<open>\<^verbatim>\<open>snprintf\<close> into a buffer of 512 characters.\<close>

definition ini_print :: "string \<Rightarrow> string" where
  "ini_print s = take 511 s"

definition print_pair :: "string \<times> string \<Rightarrow> string" where
  "print_pair p = ini_print (c_str (fst p) @ '' = '' @ c_str (snd p) @ [CHR 0x0A])"

definition print_node :: "string \<times> string smap \<Rightarrow> string" where
  "print_node n = ini_print (''['' @ c_str (fst n) @ '']'' @ [CHR 0x0A]) @ concat (map print_pair (snd n)) @ [CHR 0x0A]"

definition print_global :: "string \<times> string smap \<Rightarrow> string" where
  "print_global n = concat (map print_pair (snd n)) @ [CHR 0x0A]"

text \<open>
  The result and, when the file can be opened (\<open>ok\<close>), its name and what is written to it. After writing
  the function ends without returning a value: there is a result, \<open>False\<close>, only when the file cannot be opened.
\<close>

definition ini_keep :: "ini_config \<Rightarrow> string \<Rightarrow> (string \<Rightarrow> bool) \<Rightarrow> bool option \<times> (string \<times> string) option" where
  "ini_keep s file ok =
    (let file = (if length file = 0 then mConfigFilePath s else file) in
     if \<not> ok file then (Some False, None)
     else
       let global = concat (map (\<lambda>n. if fst n = GLOBAL_NODE_NAME then print_global n else '''') (mSourceMap s));
           node = concat (map (\<lambda>n. if fst n = GLOBAL_NODE_NAME then '''' else print_node n) (mSourceMap s))
       in (None, Some (file, global @ take (length node - 1) node)))"

end
