(* ===== verification/Ini_Laws.thy ===== *)
theory Ini_Laws
  imports Ini_Ops
begin

text \<open>
  Sorted maps, trimming, and what one line does: the facts by which a file that was written is read.
\<close>

section \<open>Maps\<close>

definition smap_ok :: "'v smap \<Rightarrow> bool" where
  "smap_ok m \<longleftrightarrow> sorted_wrt (<) (map fst m)"

lemma smap_update_keys: "set (map fst (smap_update k v m)) = insert k (set (map fst m))"
  by (induction k v m rule: smap_update.induct) auto

lemma smap_update_ok: "smap_ok m \<Longrightarrow> smap_ok (smap_update k v m)"
proof (induction k v m rule: smap_update.induct)
  case (2 k v k' v' m)
  have "set (map fst (smap_update k v m)) = insert k (set (map fst m))" by (rule smap_update_keys)
  then show ?case using 2 by (auto simp: smap_ok_def)
qed (simp add: smap_ok_def)

lemma map_of_smap_update: "smap_ok m \<Longrightarrow> map_of (smap_update k v m) = (map_of m)(k \<mapsto> v)"
proof (induction k v m rule: smap_update.induct)
  case (2 k v k' v' m)
  have "k' \<noteq> k \<Longrightarrow> \<not> k < k' \<Longrightarrow> map_of (smap_update k v m) = (map_of m)(k \<mapsto> v)"
    using 2 by (auto simp: smap_ok_def)
  then show ?case by (auto simp: fun_eq_iff)
qed auto

lemma smap_update_after: "(\<And>p. p \<in> set m \<Longrightarrow> fst p < k) \<Longrightarrow> smap_update k v m = m @ [(k, v)]"
  by (induction k v m rule: smap_update.induct) (force simp: less_imp_not_less less_imp_neq)+

lemma smap_update_last: "(\<And>p. p \<in> set m \<Longrightarrow> fst p < k) \<Longrightarrow> smap_update k v (m @ [(k, w)]) = m @ [(k, v)]"
  by (induction k v m rule: smap_update.induct) (force simp: less_imp_not_less less_imp_neq)+

lemma map_of_after:
  fixes k :: string
  assumes "\<And>p. p \<in> set m \<Longrightarrow> fst p < k"
  shows "map_of m k = None"
proof -
  have "k \<notin> fst ` set m"
  proof
    assume "k \<in> fst ` set m"
    then obtain p where "p \<in> set m" "fst p = k" by auto
    then show False using assms [of p] by simp
  qed
  then show ?thesis by (simp add: map_of_eq_None_iff)
qed

section \<open>Characters\<close>

lemma find_char_None [simp]: "c \<notin> set s \<Longrightarrow> find_char c s = None"
  by (simp add: find_char_def)

lemma find_char_at [simp]: "c \<notin> set s \<Longrightarrow> find_char c (s @ c # t) = Some (length s)"
  by (simp add: find_char_def takeWhile_append)

lemma c_str_id [simp]: "NUL \<notin> set s \<Longrightarrow> c_str s = s"
  by (auto simp: c_str_def takeWhile_eq_all_conv)

lemma first_not_of_None: "find_first_not_of s cs = None \<longleftrightarrow> set s \<subseteq> set cs"
proof -
  have "length (takeWhile (\<lambda>d. d \<in> set cs) s) < length s \<longleftrightarrow> takeWhile (\<lambda>d. d \<in> set cs) s \<noteq> s"
    by (metis length_takeWhile_le less_le nth_equalityI takeWhile_nth)
  then show ?thesis by (auto simp: find_first_not_of_def Let_def takeWhile_eq_all_conv)
qed

lemma first_not_of: "set bs \<subseteq> set cs \<Longrightarrow> c \<notin> set cs \<Longrightarrow> find_first_not_of (bs @ c # t) cs = Some (length bs)"
proof -
  assume "set bs \<subseteq> set cs" "c \<notin> set cs"
  then have "takeWhile (\<lambda>d. d \<in> set cs) (bs @ c # t) = bs" by (induction bs) auto
  then show ?thesis by (simp add: find_first_not_of_def)
qed

lemma last_not_of: "set bs \<subseteq> set cs \<Longrightarrow> c \<notin> set cs \<Longrightarrow> find_last_not_of (t @ c # bs) cs = Some (length t)"
  using first_not_of [of "rev bs" cs c "rev t"] by (simp add: find_last_not_of_def)

section \<open>Trimming\<close>

lemma trim_text:
  assumes "set as \<subseteq> set blanks" "set bs \<subseteq> set blanks" "2 \<le> length t" "hd t \<notin> set blanks" "last t \<notin> set blanks"
  shows "ini_trim (as @ t @ bs) = (True, t)"
proof -
  obtain c u where t: "t = c # u" "u \<noteq> []" using assms(3) by (cases t) (auto simp: Suc_le_eq)
  have "find_first_not_of (as @ t @ bs) blanks = Some (length as)"
    using first_not_of [of as blanks c "u @ bs"] assms(1,4) by (simp add: t)
  moreover have "find_last_not_of (as @ t @ bs) blanks = Some (length (as @ butlast t))"
    using last_not_of [of bs blanks "last t" "as @ butlast t"] assms(2,5) t
    by (metis append.assoc append.left_neutral append_Cons append_butlast_last_id list.distinct(1))
  ultimately show ?thesis using t by (simp add: ini_trim_def)
qed

lemma trim_blank: "set s \<subseteq> set blanks \<Longrightarrow> ini_trim s = (False, s)"
  by (simp add: ini_trim_def first_not_of_None [THEN iffD2])

lemma trim_single:
  assumes "set as \<subseteq> set blanks" "set bs \<subseteq> set blanks"
  shows "ini_trim (as @ c # bs) = (False, as @ c # bs)"
proof (cases "c \<in> set blanks")
  case True
  then show ?thesis using assms by (intro trim_blank) auto
next
  case False
  then show ?thesis using first_not_of [OF assms(1) False] last_not_of [OF assms(2) False] by (simp add: ini_trim_def)
qed

lemma trim_id:
  assumes "t = [] \<or> hd t \<notin> set blanks \<and> last t \<notin> set blanks"
  shows "snd (ini_trim t) = t"
proof -
  consider "t = []" | c where "t = [c]" | "2 \<le> length t"
    by (cases t; cases "tl t") (auto simp: Suc_le_eq)
  then show ?thesis
  proof cases
    case 2
    then show ?thesis using trim_single [of "[]" "[]" c] by simp
  next
    case 3
    then show ?thesis using trim_text [of "[]" "[]" t] assms by auto
  qed (simp add: trim_blank)
qed

section \<open>Lines\<close>

text \<open>Names, and values that are written and read back.\<close>

definition good_name :: "string \<Rightarrow> bool" where
  "good_name n \<longleftrightarrow> set n \<subseteq> set escapeString"

definition plain :: "string \<Rightarrow> bool" where
  "plain v \<longleftrightarrow> set v \<inter> {NUL, CHR '';'', CHR ''['', CHR 0x0A} = {}"

definition good_value :: "string \<Rightarrow> bool" where
  "good_value v \<longleftrightarrow> plain v \<and> (v = [] \<or> 2 \<le> length v \<and> hd v \<notin> set blanks \<and> last v \<notin> set blanks)"

lemma good_name_char:
  assumes "good_name n" "c \<in> set n"
  shows "c \<noteq> NUL" "c \<noteq> CHR '';''" "c \<noteq> CHR ''[''" "c \<noteq> CHR '']''" "c \<noteq> CHR ''=''" "c \<noteq> CHR ''.''" "c \<notin> set blanks"
  using assms by (auto simp: good_name_def escapeString_def NUL_def blanks_def)

lemma good_name_notin:
  assumes "good_name n"
  shows "NUL \<notin> set n" "CHR '';'' \<notin> set n" "CHR ''['' \<notin> set n" "CHR '']'' \<notin> set n" "CHR ''='' \<notin> set n" "CHR ''.'' \<notin> set n"
    "CHR 0x0A \<notin> set n"
  using good_name_char [OF assms, of NUL] good_name_char [OF assms, of "CHR '';''"] good_name_char [OF assms, of "CHR ''[''"]
    good_name_char [OF assms, of "CHR '']''"] good_name_char [OF assms, of "CHR ''=''"] good_name_char [OF assms, of "CHR ''.''"]
    good_name_char(7) [OF assms, of "CHR 0x0A"]
  by (auto simp: blanks_def)

lemma good_name_trim: "good_name n \<Longrightarrow> snd (ini_trim n) = n"
  by (rule trim_id) (metis good_name_char(7) hd_in_set last_in_set)

lemma good_name_first: "good_name n \<Longrightarrow> find_first_not_of n escapeString = None"
  by (simp add: good_name_def first_not_of_None [THEN iffD2])

lemma blank_chars [simp]: "CHR 0x20 \<in> set blanks" "CHR 0x0A \<in> set blanks" "CHR ''='' \<notin> set blanks" "CHR '']'' \<notin> set blanks"
  "CHR ''['' \<notin> set blanks" "NUL \<notin> set blanks"
  by (simp_all add: blanks_def NUL_def)

lemma ini_line_text:
  assumes "set as \<subseteq> set blanks" "set bs \<subseteq> set blanks" "2 \<le> length t" "hd t \<notin> set blanks" "last t \<notin> set blanks"
    "NUL \<notin> set t" "CHR '';'' \<notin> set t"
  shows "ini_line n (as @ t @ bs) s = ini_content n t s"
proof -
  have "NUL \<notin> set (as @ t @ bs)" using assms(1,2,6) by (auto simp: NUL_def blanks_def)
  then have c: "c_str (as @ t @ bs) = as @ t @ bs" by (rule c_str_id)
  have q: "CHR '';'' \<notin> set (as @ t @ bs)" using assms(1,2,7) by (auto simp: blanks_def)
  moreover have "(as @ t @ bs) ! 0 \<in> set (as @ t @ bs)" using assms(3) by (intro nth_mem) auto
  ultimately have "(as @ t @ bs) ! 0 \<noteq> CHR '';''" by metis
  then show ?thesis using q trim_text [OF assms(1-5)] assms(6)
    by (simp add: ini_line_def c Let_def)
qed

lemma ini_content_pair: "CHR ''['' \<notin> set pos \<Longrightarrow> ini_content n pos s = ini_pair n pos s"
  by (simp add: ini_content_def)

lemma ini_pair_text:
  assumes "good_name k" "CHR ''='' \<notin> set k'" "butlast k' = k" "k' \<noteq> []"
  shows "ini_pair n (k' @ CHR ''='' # v) s = Inr (n, ini_store n k (snd (ini_trim v)) s)"
proof -
  have "take (length k' - 1) (k' @ CHR ''='' # v) = k" using assms(3,4) by (simp add: butlast_conv_take)
  then show ?thesis using assms by (simp add: ini_pair_def good_name_trim good_name_first Let_def)
qed

lemma ini_line_pair:
  assumes "good_name k" "k \<noteq> []" "good_value v"
  shows "ini_line n (k @ '' = '' @ v @ [CHR 0x0A]) s = Inr (n, ini_store n k v s)"
proof -
  define t where "t = k @ '' ='' @ (if v = [] then [] else CHR 0x20 # v)"
  have l: "k @ '' = '' @ v @ [CHR 0x0A] = [] @ t @ (if v = [] then [CHR 0x20, CHR 0x0A] else [CHR 0x0A])"
    by (simp add: t_def)
  have v: "plain v" "v \<noteq> [] \<Longrightarrow> last v \<notin> set blanks" using assms(3) by (auto simp: good_value_def)
  have h: "hd k \<notin> set blanks" using good_name_char(7) [OF assms(1)] assms(2) by simp
  have "ini_line n (k @ '' = '' @ v @ [CHR 0x0A]) s = ini_content n t s"
    unfolding l
  proof (rule ini_line_text)
    show "NUL \<notin> set t" "CHR '';'' \<notin> set t"
      using good_name_notin [OF assms(1)] v(1) by (auto simp: t_def plain_def NUL_def)
  qed (use assms(2) h v(2) in \<open>auto simp: t_def\<close>)
  also have "\<dots> = ini_pair n ((k @ [CHR 0x20]) @ CHR ''='' # (if v = [] then [] else CHR 0x20 # v)) s"
    using good_name_notin [OF assms(1)] v(1) by (subst ini_content_pair) (auto simp: t_def plain_def)
  also have "\<dots> = Inr (n, ini_store n k (snd (ini_trim (if v = [] then [] else CHR 0x20 # v))) s)"
    using good_name_notin [OF assms(1)] by (intro ini_pair_text assms(1)) auto
  also have "snd (ini_trim (if v = [] then [] else CHR 0x20 # v)) = v"
    using assms(3) trim_text [of "[CHR 0x20]" "[]" v] by (auto simp: good_value_def trim_blank)
  finally show ?thesis .
qed

lemma ini_line_node:
  assumes "good_name m"
  shows "ini_line n (''['' @ m @ '']'' @ [CHR 0x0A]) s = Inr (m, s)"
proof -
  have l: "''['' @ m @ '']'' @ [CHR 0x0A] = [] @ (''['' @ m @ '']'') @ [CHR 0x0A]" by simp
  have "ini_line n (''['' @ m @ '']'' @ [CHR 0x0A]) s = ini_content n (''['' @ m @ '']'') s"
    unfolding l
  proof (rule ini_line_text)
    show "NUL \<notin> set (''['' @ m @ '']'')" using good_name_notin(1) [OF assms] by (auto simp: NUL_def)
    show "CHR '';'' \<notin> set (''['' @ m @ '']'')" using good_name_notin(2) [OF assms] by auto
  qed auto
  moreover have "find_char (CHR '']'') (''['' @ m @ '']'') = Some (Suc (length m))"
    using find_char_at [of "CHR '']''" "CHR ''['' # m" "[]"] good_name_notin(4) [OF assms] by simp
  moreover have "find_char (CHR ''['') (''['' @ m @ '']'') = Some 0"
    using find_char_at [of "CHR ''[''" "[]" "m @ '']''"] by simp
  ultimately show ?thesis using assms by (simp add: ini_content_def good_name_trim good_name_first Let_def)
qed

lemma ini_line_empty: "ini_line n [CHR 0x0A] s = Inr (n, s)"
  by (simp add: ini_line_def trim_blank NUL_def)

lemma fgets_line: "CHR 0x0A \<notin> set l \<Longrightarrow> length l < n \<Longrightarrow> fgets n (l @ CHR 0x0A # r) = (l @ [CHR 0x0A], r)"
proof (induction l arbitrary: n)
  case Nil
  then show ?case by (cases n) simp_all
next
  case (Cons c l)
  then show ?case by (cases n) auto
qed

lemma ini_loop_line:
  assumes "CHR 0x0A \<notin> set l" "length l < 1023"
  shows "ini_loop n s (l @ CHR 0x0A # r) =
    (case ini_line n (l @ [CHR 0x0A]) s of Inl e \<Rightarrow> (Inl e, s) | Inr (n, s) \<Rightarrow> ini_loop n s r)"
  using fgets_line [OF assms, of r] by (cases l) (simp_all split: sum.splits prod.splits)

end
