(* ===== verification/Ini_Spec.thy ===== *)
theory Ini_Spec
  imports Ini_Laws
begin

text \<open>
  What is written can be read back, which lines are refused or misread, and how the two ways to access a
  value differ.
\<close>

section \<open>Reading what was written\<close>

text \<open>Objects whose names, keys and values survive in a file: no line is too long for the buffer it is printed to.\<close>

definition good_pair :: "string \<times> string \<Rightarrow> bool" where
  "good_pair p \<longleftrightarrow> good_name (fst p) \<and> fst p \<noteq> [] \<and> good_value (snd p) \<and> length (fst p) + length (snd p) \<le> 507"

definition good_node :: "string \<times> string smap \<Rightarrow> bool" where
  "good_node n \<longleftrightarrow> good_name (fst n) \<and> length (fst n) \<le> 508 \<and> smap_ok (snd n) \<and> list_all good_pair (snd n)"

definition good_source :: "string smap smap \<Rightarrow> bool" where
  "good_source S \<longleftrightarrow> smap_ok S \<and> list_all good_node S"

lemma print_pair_good:
  "good_pair (k, v) \<Longrightarrow> print_pair (k, v) = (k @ '' = '' @ v) @ [CHR 0x0A]"
  using good_name_notin(1) [of k] by (auto simp: good_pair_def print_pair_def ini_print_def good_value_def plain_def)

lemma print_node_good:
  "good_node (n, m) \<Longrightarrow> print_node (n, m) = (''['' @ n @ '']'') @ CHR 0x0A # concat (map print_pair m) @ [CHR 0x0A]"
  using good_name_notin(1) [of n] by (auto simp: good_node_def print_node_def ini_print_def)

definition store_all :: "string \<Rightarrow> string smap \<Rightarrow> ini_config \<Rightarrow> ini_config" where
  "store_all n m s = fold (\<lambda>(k, v). ini_store n k v) m s"

lemma ini_loop_pair:
  assumes "good_pair (k, v)"
  shows "ini_loop n s (print_pair (k, v) @ r) = ini_loop n (ini_store n k v s) r"
proof -
  have g: "good_name k" "k \<noteq> []" "good_value v" "length (k @ '' = '' @ v) < 1023"
    using assms by (auto simp: good_pair_def)
  have "CHR 0x0A \<notin> set (k @ '' = '' @ v)"
    using good_name_notin(7) [OF g(1)] g(3) by (auto simp: good_value_def plain_def)
  from ini_loop_line [OF this g(4), of n s r] show ?thesis
    using ini_line_pair [OF g(1-3), of n s] by (simp add: print_pair_good [OF assms])
qed

lemma ini_loop_pairs:
  "list_all good_pair m \<Longrightarrow> ini_loop n s (concat (map print_pair m) @ r) = ini_loop n (store_all n m s) r"
proof (induction m arbitrary: s)
  case (Cons p m)
  then show ?case by (cases p) (simp add: ini_loop_pair store_all_def)
qed (simp add: store_all_def)

lemma ini_loop_empty: "ini_loop n s (CHR 0x0A # r) = ini_loop n s r"
  using ini_loop_line [of "[]" n s r] by (simp add: ini_line_empty)

lemma ini_loop_header:
  assumes "good_name m" "length m \<le> 508"
  shows "ini_loop n s ((''['' @ m @ '']'') @ CHR 0x0A # r) = ini_loop m s r"
proof -
  have "CHR 0x0A \<notin> set (''['' @ m @ '']'')" using good_name_notin(7) [OF assms(1)] by auto
  moreover have "length (''['' @ m @ '']'') < 1023" using assms(2) by simp
  ultimately show ?thesis using ini_loop_line [of "''['' @ m @ '']''" n s r] ini_line_node [OF assms(1), of n s] by simp
qed

lemma ini_loop_node:
  assumes "good_node (m, ps)"
  shows "ini_loop n s (print_node (m, ps) @ r) = ini_loop m (store_all m ps s) r"
  using assms ini_loop_header [of m n s "concat (map print_pair ps) @ CHR 0x0A # r"] ini_loop_pairs [of ps m s "CHR 0x0A # r"]
  by (simp add: print_node_good good_node_def ini_loop_empty del: ini_loop.simps)

definition store_nodes :: "string smap smap \<Rightarrow> ini_config \<Rightarrow> ini_config" where
  "store_nodes S s = fold (\<lambda>(n, m). store_all n m) S s"

lemma ini_loop_nodes:
  "list_all good_node S \<Longrightarrow> S \<noteq> [] \<Longrightarrow>
    ini_loop n s (butlast (concat (map print_node S))) = (Inr True, store_nodes S s)"
proof (induction S arbitrary: n s)
  case (Cons q S)
  obtain m ps where q: "q = (m, ps)" by (cases q)
  have g: "good_node (m, ps)" using Cons.prems(1) by (simp add: q)
  show ?case
  proof (cases "S = []")
    case True
    have "butlast (print_node (m, ps)) = (''['' @ m @ '']'') @ CHR 0x0A # concat (map print_pair ps) @ []"
      by (simp only: print_node_good [OF g] butlast_append butlast.simps) simp
    then show ?thesis using True g ini_loop_header [of m n s "concat (map print_pair ps) @ []"] ini_loop_pairs [of ps m s "[]"]
      by (simp add: q good_node_def store_nodes_def)
  next
    case False
    then obtain p S' where S: "S = p # S'" by (cases S) auto
    have "concat (map print_node S) \<noteq> []" by (simp add: S print_node_def)
    then have "butlast (concat (map print_node (q # S))) = print_node (m, ps) @ butlast (concat (map print_node S))"
      by (simp only: q list.map concat.simps butlast_append if_False)
    then show ?thesis using ini_loop_node [OF g] Cons.IH [of m "store_all m ps s"] Cons.prems(1) False
      by (simp add: q store_nodes_def)
  qed
qed simp

section \<open>What is stored\<close>

lemma smap_ok_less: "smap_ok (m @ [(k, v)] @ m') \<Longrightarrow> p \<in> set m \<Longrightarrow> fst p < k"
  by (auto simp: smap_ok_def sorted_wrt_append)

lemma ini_store_source:
  assumes "mSourceMap s = S @ [(n, m)]" "\<And>p. p \<in> set S \<Longrightarrow> fst p < n" "\<And>p. p \<in> set m \<Longrightarrow> fst p < k"
  shows "mSourceMap (ini_store n k v s) = S @ [(n, m @ [(k, v)])]"
  using assms map_of_after [OF assms(2)] map_of_after [OF assms(3)]
  by (simp add: ini_store_def Let_def smap_at_def map_add_def smap_insert_def smap_update_after smap_update_last)

lemma ini_store_new_node:
  assumes "\<And>p. p \<in> set (mSourceMap s) \<Longrightarrow> fst p < n"
  shows "mSourceMap (ini_store n k v s) = mSourceMap s @ [(n, [(k, v)])]"
  using map_of_after [OF assms] assms
  by (simp add: ini_store_def Let_def smap_at_def smap_insert_def smap_update_after smap_update_last)

lemma store_all_source:
  assumes "mSourceMap s = S @ [(n, m)]" "\<And>p. p \<in> set S \<Longrightarrow> fst p < n" "smap_ok (m @ ps)"
  shows "mSourceMap (store_all n ps s) = S @ [(n, m @ ps)]"
  using assms(1,3)
proof (induction ps arbitrary: s m)
  case (Cons p ps)
  obtain k v where p: "p = (k, v)" by (cases p)
  have "mSourceMap (ini_store n k v s) = S @ [(n, m @ [(k, v)])]"
    using Cons.prems smap_ok_less [of m k v ps] by (intro ini_store_source assms(2)) (simp_all add: p)
  from Cons.IH [OF this] show ?case using Cons.prems(2) by (simp add: store_all_def p)
qed (simp add: store_all_def)

lemma store_node_source:
  assumes "\<And>p. p \<in> set (mSourceMap s) \<Longrightarrow> fst p < n" "smap_ok ps" "ps \<noteq> []"
  shows "mSourceMap (store_all n ps s) = mSourceMap s @ [(n, ps)]"
proof -
  obtain k v qs where ps: "ps = (k, v) # qs" using assms(3) by (cases ps) auto
  have "mSourceMap (ini_store n k v s) = mSourceMap s @ [(n, [(k, v)])]" by (rule ini_store_new_node [OF assms(1)])
  from store_all_source [OF this assms(1), of qs] show ?thesis using assms(2) by (simp add: ps store_all_def)
qed

text \<open>A node without keys leaves no trace.\<close>

definition no_empty :: "string smap smap \<Rightarrow> string smap smap" where
  "no_empty S = filter (\<lambda>n. snd n \<noteq> []) S"

lemma store_nodes_source:
  "list_all good_node S \<Longrightarrow> smap_ok (mSourceMap s @ S) \<Longrightarrow> mSourceMap (store_nodes S s) = mSourceMap s @ no_empty S"
proof (induction S arbitrary: s)
  case (Cons q S)
  obtain n ps where q: "q = (n, ps)" by (cases q)
  have s1: "mSourceMap (store_all n ps s) = mSourceMap s @ no_empty [(n, ps)]"
  proof (cases "ps = []")
    case False
    then have "mSourceMap (store_all n ps s) = mSourceMap s @ [(n, ps)]"
      using Cons.prems smap_ok_less [of "mSourceMap s" n ps S] by (intro store_node_source) (auto simp: q good_node_def)
    then show ?thesis using False by (simp add: no_empty_def)
  qed (simp add: store_all_def no_empty_def)
  have "smap_ok (mSourceMap s @ no_empty [(n, ps)] @ S)"
    using Cons.prems(2) by (auto simp: q no_empty_def smap_ok_def sorted_wrt_append)
  then show ?case using Cons.IH [of "store_all n ps s"] Cons.prems s1 by (simp add: q store_nodes_def no_empty_def)
qed (simp add: store_nodes_def no_empty_def)

definition config_key :: "string \<Rightarrow> string \<Rightarrow> string" where
  "config_key n k = (if n = '''' then k else n @ ''.'' @ k)"

lemma config_key_inj:
  assumes "good_name n" "good_name n'" "good_name k" "good_name k'" "config_key n k = config_key n' k'"
  shows "n = n' \<and> k = k'"
proof (cases "n = [] \<or> n' = []")
  case True
  then show ?thesis using assms good_name_notin(6) [of k] good_name_notin(6) [of k'] by (auto simp: config_key_def split: if_splits)
next
  case False
  then have e: "n @ CHR ''.'' # k = n' @ CHR ''.'' # k'" using assms(5) by (simp add: config_key_def)
  have "takeWhile (\<lambda>c. c \<noteq> CHR ''.'') (n @ CHR ''.'' # k) = n" "takeWhile (\<lambda>c. c \<noteq> CHR ''.'') (n' @ CHR ''.'' # k') = n'"
    using good_name_char(6) [OF assms(1)] good_name_char(6) [OF assms(2)] by (simp_all add: takeWhile_append2)
  then have "n = n'" by (metis e)
  then show ?thesis using e by simp
qed

lemma ini_store_config:
  "mConfigMap (ini_store n k v s) = smap_update (config_key n k) v (mConfigMap s)"
  by (simp add: ini_store_def config_key_def GLOBAL_NODE_NAME_def Let_def split: prod.splits)

lemma store_all_config_ok: "smap_ok (mConfigMap s) \<Longrightarrow> smap_ok (mConfigMap (store_all n m s))"
  unfolding store_all_def by (induction m arbitrary: s) (auto simp: ini_store_config smap_update_ok)

lemma store_all_config:
  assumes "smap_ok (mConfigMap s)" "smap_ok m" "list_all good_pair m" "good_name n" "good_name n'" "good_name k"
  shows "map_of (mConfigMap (store_all n m s)) (config_key n' k) =
    (case if n = n' then map_of m k else None of None \<Rightarrow> map_of (mConfigMap s) (config_key n' k) | Some v \<Rightarrow> Some v)"
  using assms(1-3)
proof (induction m arbitrary: s)
  case (Cons p m)
  obtain k1 v1 where p: "p = (k1, v1)" by (cases p)
  have k1: "good_name k1" using Cons.prems(3) by (simp add: p good_pair_def)
  have ok: "smap_ok (mConfigMap (ini_store n k1 v1 s))" using Cons.prems(1) by (simp add: ini_store_config smap_update_ok)
  have fresh: "map_of m k1 = None" using Cons.prems(2) by (auto simp: p smap_ok_def map_of_eq_None_iff)
  have e: "config_key n' k = config_key n k1 \<longleftrightarrow> n = n' \<and> k = k1" using config_key_inj assms k1 by blast
  have "map_of (mConfigMap (store_all n m (ini_store n k1 v1 s))) (config_key n' k) =
      (case if n = n' then map_of m k else None of
         None \<Rightarrow> map_of (mConfigMap (ini_store n k1 v1 s)) (config_key n' k) | Some v \<Rightarrow> Some v)"
    using Cons ok by (simp add: smap_ok_def)
  then show ?case using fresh e Cons.prems(1)
    by (auto simp: p store_all_def ini_store_config map_of_smap_update split: option.splits)
qed (simp add: store_all_def split: option.splits)

lemma store_nodes_config:
  assumes "smap_ok (mConfigMap s)" "smap_ok S" "list_all good_node S" "good_name n" "good_name k"
  shows "map_of (mConfigMap (store_nodes S s)) (config_key n k) =
    (case Option.bind (map_of S n) (\<lambda>m. map_of m k) of None \<Rightarrow> map_of (mConfigMap s) (config_key n k) | Some v \<Rightarrow> Some v)"
  using assms(1-3)
proof (induction S arbitrary: s)
  case (Cons q S)
  obtain n1 m1 where q: "q = (n1, m1)" by (cases q)
  have g: "good_name n1" "smap_ok m1" "list_all good_pair m1" using Cons.prems(3) by (simp_all add: q good_node_def)
  have fresh: "map_of S n1 = None" using Cons.prems(2) by (auto simp: q smap_ok_def map_of_eq_None_iff)
  have "smap_ok (mConfigMap (store_all n1 m1 s))" by (rule store_all_config_ok [OF Cons.prems(1)])
  moreover have "smap_ok S" "list_all good_node S" using Cons.prems(2,3) by (simp_all add: smap_ok_def)
  ultimately have "map_of (mConfigMap (store_nodes S (store_all n1 m1 s))) (config_key n k) =
      (case Option.bind (map_of S n) (\<lambda>m. map_of m k) of
         None \<Rightarrow> map_of (mConfigMap (store_all n1 m1 s)) (config_key n k) | Some v \<Rightarrow> Some v)"
    by (rule Cons.IH)
  then show ?case using fresh store_all_config [OF Cons.prems(1) g(2,3,1) assms(4,5)]
    by (auto simp: q store_nodes_def split: option.splits)
qed (simp add: store_nodes_def split: option.splits)

section \<open>The text\<close>

definition ini_text :: "string smap smap \<Rightarrow> string" where
  "ini_text S =
    concat (map (\<lambda>n. if fst n = GLOBAL_NODE_NAME then print_global n else '''') S) @
    butlast (concat (map (\<lambda>n. if fst n = GLOBAL_NODE_NAME then '''' else print_node n) S))"

lemma ini_keep_text:
  "ok (mConfigFilePath s) \<Longrightarrow> ini_keep s '''' ok = (None, Some (mConfigFilePath s, ini_text (mSourceMap s)))"
  by (simp add: ini_keep_def ini_text_def butlast_conv_take Let_def)

lemma no_global:
  assumes "\<And>p. p \<in> set S \<Longrightarrow> fst p \<noteq> ''''"
  shows "ini_text S = butlast (concat (map print_node S))"
proof -
  have "map (\<lambda>n. if fst n = GLOBAL_NODE_NAME then print_global n else '''') S = map (\<lambda>n. '''') S"
    "map (\<lambda>n. if fst n = GLOBAL_NODE_NAME then '''' else print_node n) S = map print_node S"
    using assms by (auto simp: GLOBAL_NODE_NAME_def)
  then show ?thesis by (simp only: ini_text_def) simp
qed

lemma ini_loop_text:
  assumes "good_source S"
  shows "ini_loop '''' s (ini_text S) = (Inr True, store_nodes S s)"
proof (cases S)
  case Nil
  then show ?thesis by (simp add: ini_text_def store_nodes_def)
next
  case (Cons q S')
  obtain n m where q: "q = (n, m)" by (cases q)
  have g: "good_node (n, m)" "list_all good_node S'" using assms by (simp_all add: good_source_def Cons q)
  have later: "fst p \<noteq> ''''" if "p \<in> set S'" for p
  proof -
    have "n < fst p" using assms that by (auto simp: good_source_def smap_ok_def Cons q)
    then show ?thesis by auto
  qed
  show ?thesis
  proof (cases "n = ''''")
    case True
    have "ini_text S = concat (map print_pair m) @ CHR 0x0A # ini_text S'"
      unfolding no_global [OF later, simplified]
      using later by (simp add: Cons q True ini_text_def print_global_def GLOBAL_NODE_NAME_def cong: map_cong)
    moreover have "ini_loop '''' t (ini_text S') = (Inr True, store_nodes S' t)" for t
      using ini_loop_nodes [OF g(2)] no_global [of S'] later by (cases "S' = []") (simp_all add: store_nodes_def)
    ultimately show ?thesis using g(1) ini_loop_pairs [of m "''''" s] ini_loop_empty
      by (simp add: Cons q True good_node_def store_nodes_def del: ini_loop.simps)
  next
    case False
    then have "ini_text S = butlast (concat (map print_node S))"
      using later by (intro no_global) (auto simp: Cons q)
    then show ?thesis using ini_loop_nodes [of S "''''" s] assms by (simp add: good_source_def Cons)
  qed
qed

text \<open>
  C37: What \<open>keep\<close> writes to the object's own file (it returns no value when it succeeds) a parser reads back: the source
  map is the same but for nodes without keys, which are written as a bare head and lost, and \<open>value\<close> finds every value
  under the name of its node and its key. This is so when all names and keys are made of the characters the parser
  allows in them, keys are not empty, values are empty or of two characters or more (see the next property for those of
  one), without opening brackets, semicolons, line ends, null characters and blanks at their ends, and every line fits in the
  buffer of 512 characters it is printed to.
\<close>
theorem ini_round_trip:
  assumes "good_source (mSourceMap s)" "ok (mConfigFilePath s)" "good_name n" "good_name k"
  shows "\<exists>file s'. ini_keep s '''' ok = (None, Some (mConfigFilePath s, file))
    \<and> ini_parser t path (Some file) = (Inr True, s')
    \<and> mSourceMap s' = no_empty (mSourceMap s)
    \<and> ini_value s' (config_key n k) =
        (case Option.bind (map_of (mSourceMap s) n) (\<lambda>m. map_of m k) of None \<Rightarrow> '''' | Some v \<Rightarrow> v)"
proof -
  define t0 where "t0 = (ini_reset t)\<lparr>mConfigFilePath := path\<rparr>"
  have t0: "mSourceMap t0 = []" "mConfigMap t0 = []" by (simp_all add: t0_def ini_reset_def)
  have S: "smap_ok (mSourceMap s)" "list_all good_node (mSourceMap s)" using assms(1) by (simp_all add: good_source_def)
  let ?s = "store_nodes (mSourceMap s) t0"
  have p: "ini_parser t path (Some (ini_text (mSourceMap s))) = (Inr True, ?s)"
    using ini_loop_text [OF assms(1)] by (simp add: ini_parser_def Let_def GLOBAL_NODE_NAME_def t0_def)
  have m: "mSourceMap ?s = no_empty (mSourceMap s)" using store_nodes_source [OF S(2), of t0] S(1) by (simp add: t0)
  have "ini_value ?s (config_key n k) =
      (case Option.bind (map_of (mSourceMap s) n) (\<lambda>m. map_of m k) of None \<Rightarrow> '''' | Some v \<Rightarrow> v)"
    using store_nodes_config [of t0, OF _ S assms(3,4)] by (simp add: t0 smap_ok_def ini_value_def split: option.splits)
  then show ?thesis using ini_keep_text [of ok s, OF assms(2)] p m by blast
qed

definition sample_config :: ini_config where
  "sample_config = \<lparr>mConfigFilePath = ''a.ini'', mConfigMap = [],
    mSourceMap = [('''', [(''host'', ''10.0.0.1'')]), (''node'', [(''port'', ''2000'')])]\<rparr>"

definition with_empty :: ini_config where
  "with_empty = sample_config\<lparr>mSourceMap := [('''', [(''host'', ''10.0.0.1'')]), (''empty'', []), (''node'', [(''port'', ''2000'')])]\<rparr>"

theorem ini_round_trip_witness:
  "\<exists>file s'. ini_keep with_empty '''' (\<lambda>f. f = ''a.ini'') = (None, Some (''a.ini'', file))
    \<and> ini_parser ini_new ''b.ini'' (Some file) = (Inr True, s')
    \<and> mSourceMap s' = mSourceMap sample_config
    \<and> ini_value s' ''node.port'' = ''2000''"
proof -
  have "good_source (mSourceMap with_empty)"
    by (simp add: with_empty_def good_source_def smap_ok_def good_node_def good_pair_def good_name_def good_value_def
        plain_def escapeString_def blanks_def NUL_def)
  moreover have "good_name ''node''" "good_name ''port''" by (simp_all add: good_name_def escapeString_def)
  ultimately show ?thesis
    using ini_round_trip [of with_empty "\<lambda>f. f = ''a.ini''" "''node''" "''port''" ini_new "''b.ini''"]
    by (simp add: with_empty_def sample_config_def config_key_def no_empty_def)
qed

section \<open>Lines that are misread\<close>

lemma ini_line_tight:
  assumes "good_name k" "k \<noteq> []" "good_value v" "v \<noteq> []"
  shows "ini_line n (k @ ''='' @ v @ [CHR 0x0A]) s = Inr (n, ini_store n (butlast k) v s)"
proof -
  have v: "plain v" "last v \<notin> set blanks" "2 \<le> length v" "hd v \<notin> set blanks" using assms(3,4) by (auto simp: good_value_def)
  have l: "k @ ''='' @ v @ [CHR 0x0A] = [] @ (k @ ''='' @ v) @ [CHR 0x0A]" by simp
  have h: "hd k \<notin> set blanks" using good_name_char(7) [OF assms(1)] assms(2) by simp
  have "ini_line n (k @ ''='' @ v @ [CHR 0x0A]) s = ini_content n (k @ ''='' @ v) s"
    unfolding l
  proof (rule ini_line_text)
    show "NUL \<notin> set (k @ ''='' @ v)" "CHR '';'' \<notin> set (k @ ''='' @ v)"
      using good_name_notin [OF assms(1)] v(1) by (auto simp: plain_def NUL_def)
  qed (use assms(2,4) h v in \<open>auto simp: Suc_le_eq\<close>)
  also have "\<dots> = ini_pair n (k @ CHR ''='' # v) s"
    using good_name_notin [OF assms(1)] v(1) by (subst ini_content_pair) (auto simp: plain_def)
  also have "\<dots> = Inr (n, ini_store n (butlast k) (snd (ini_trim v)) s)"
    using assms(1,2) good_name_notin [OF assms(1)]
    by (intro ini_pair_text) (auto simp: good_name_def dest: in_set_butlastD)
  also have "snd (ini_trim v) = v" using v by (intro trim_id) auto
  finally show ?thesis .
qed

lemma ini_line_one:
  assumes "good_name k" "k \<noteq> []" "c \<notin> set blanks" "plain [c]"
  shows "ini_line n (k @ '' = '' @ [c] @ [CHR 0x0A]) s = Inr (n, ini_store n k [CHR 0x20, c] s)"
proof -
  have l: "k @ '' = '' @ [c] @ [CHR 0x0A] = [] @ (k @ '' = '' @ [c]) @ [CHR 0x0A]" by simp
  have h: "hd k \<notin> set blanks" using good_name_char(7) [OF assms(1)] assms(2) by simp
  have "ini_line n (k @ '' = '' @ [c] @ [CHR 0x0A]) s = ini_content n (k @ '' = '' @ [c]) s"
    unfolding l
  proof (rule ini_line_text)
    show "NUL \<notin> set (k @ '' = '' @ [c])" "CHR '';'' \<notin> set (k @ '' = '' @ [c])"
      using good_name_notin [OF assms(1)] assms(4) by (auto simp: plain_def NUL_def)
  qed (use assms(2,3) h in auto)
  also have "\<dots> = ini_pair n ((k @ [CHR 0x20]) @ CHR ''='' # [CHR 0x20, c]) s"
    using good_name_notin [OF assms(1)] assms(4) by (subst ini_content_pair) (auto simp: plain_def)
  also have "\<dots> = Inr (n, ini_store n k (snd (ini_trim [CHR 0x20, c])) s)"
    using good_name_notin [OF assms(1)] by (intro ini_pair_text assms(1)) auto
  also have "snd (ini_trim [CHR 0x20, c]) = [CHR 0x20, c]" using trim_single [of "[CHR 0x20]" "[]" c] by simp
  finally show ?thesis .
qed

lemma ini_line_indented_comment:
  assumes "NUL \<notin> set cs" "d \<noteq> NUL" "d \<notin> set blanks"
  shows "ini_line n (CHR 0x20 # CHR '';'' # cs @ [d, CHR 0x0A]) s = Inl Invalid_Pair"
proof -
  let ?t = "NUL # cs @ [d]"
  have "NUL \<notin> set (CHR 0x20 # CHR '';'' # cs @ [d, CHR 0x0A])" using assms by (auto simp: NUL_def)
  then have c: "c_str (CHR 0x20 # CHR '';'' # cs @ [d, CHR 0x0A]) = CHR 0x20 # CHR '';'' # cs @ [d, CHR 0x0A]"
    by (rule c_str_id)
  have "find_char (CHR '';'') (CHR 0x20 # CHR '';'' # cs @ [d, CHR 0x0A]) = Some 1"
    using find_char_at [of "CHR '';''" "[CHR 0x20]"] by simp
  moreover have "ini_trim ([CHR 0x20] @ ?t @ [CHR 0x0A]) = (True, ?t)"
    using assms(3) by (intro trim_text) auto
  moreover have "c_str ?t = []" by (simp add: c_str_def)
  ultimately show ?thesis by (simp add: ini_line_def c Let_def ini_content_def ini_pair_def)
qed

lemma ini_line_bracket_value:
  assumes "good_name k" "k \<noteq> []" "good_name m"
  shows "ini_line n (k @ '' = ['' @ m @ '']'' @ [CHR 0x0A]) s = Inr (m, s)"
proof -
  let ?t = "k @ '' = ['' @ m @ '']''"
  have l: "k @ '' = ['' @ m @ '']'' @ [CHR 0x0A] = [] @ ?t @ [CHR 0x0A]" by simp
  have h: "hd k \<notin> set blanks" using good_name_char(7) [OF assms(1)] assms(2) by simp
  have k: "NUL \<notin> set k" "CHR '';'' \<notin> set k" "CHR ''['' \<notin> set k" "CHR '']'' \<notin> set k"
    and m: "NUL \<notin> set m" "CHR '';'' \<notin> set m" "CHR ''['' \<notin> set m" "CHR '']'' \<notin> set m"
    using good_name_notin [OF assms(1)] good_name_notin [OF assms(3)] by auto
  have "ini_line n (k @ '' = ['' @ m @ '']'' @ [CHR 0x0A]) s = ini_content n ?t s"
    unfolding l
  proof (rule ini_line_text)
    show "NUL \<notin> set ?t" "CHR '';'' \<notin> set ?t" using k m by (auto simp: NUL_def)
  qed (use assms(2) h in auto)
  moreover have "find_char (CHR ''['') ?t = Some (length k + 3)"
    using find_char_at [of "CHR ''[''" "k @ '' = ''" "m @ '']''"] k by simp
  moreover have "find_char (CHR '']'') ?t = Some (length k + 4 + length m)"
    using find_char_at [of "CHR '']''" "k @ '' = ['' @ m" "[]"] k m by simp
  ultimately show ?thesis using assms(3)
    by (simp add: ini_content_def good_name_trim good_name_first Let_def)
qed

text \<open>
  C38: well-formed lines that are not read as they are meant. Without a blank before the equals sign the key loses its last character; a
  value of one character keeps the blank before it; a value in brackets is taken for the head of a node, and there is no
  pair; a comment after a blank makes the parser throw.
\<close>
theorem ini_lines_misread:
  assumes "good_name k" "k \<noteq> []" "good_value v" "v \<noteq> []" "c \<notin> set blanks" "plain [c]" "good_name m"
    "NUL \<notin> set cs" "d \<noteq> NUL" "d \<notin> set blanks"
  shows "ini_line n (k @ ''='' @ v @ [CHR 0x0A]) s = Inr (n, ini_store n (butlast k) v s)
    \<and> ini_line n (k @ '' = '' @ [c] @ [CHR 0x0A]) s = Inr (n, ini_store n k [CHR 0x20, c] s)
    \<and> ini_line n (k @ '' = ['' @ m @ '']'' @ [CHR 0x0A]) s = Inr (m, s)
    \<and> ini_line n (CHR 0x20 # CHR '';'' # cs @ [d, CHR 0x0A]) s = Inl Invalid_Pair"
  using ini_line_tight [OF assms(1-4)] ini_line_one [OF assms(1,2,5,6)] ini_line_bracket_value [OF assms(1,2,7)]
    ini_line_indented_comment [OF assms(8-10)] by blast

theorem ini_lines_misread_witness:
  "ini_line ''n'' (''port=2000'' @ [CHR 0x0A]) ini_new = Inr (''n'', ini_store ''n'' ''por'' ''2000'' ini_new)
    \<and> ini_line ''n'' (''port = 5'' @ [CHR 0x0A]) ini_new = Inr (''n'', ini_store ''n'' ''port'' '' 5'' ini_new)
    \<and> ini_line ''n'' (''port = [abc]'' @ [CHR 0x0A]) ini_new = Inr (''abc'', ini_new)
    \<and> ini_line ''n'' ('' ; xy'' @ [CHR 0x0A]) ini_new = Inl Invalid_Pair"
proof -
  have "good_name ''port''" "good_name ''abc''" by (simp_all add: good_name_def escapeString_def)
  moreover have "good_value ''2000''" "plain ''5''" by (simp_all add: good_value_def plain_def blanks_def NUL_def)
  ultimately show ?thesis
    using ini_lines_misread [of "''port''" "''2000''" "CHR ''5''" "''abc''" "'' x''" "CHR ''y''" "''n''" ini_new]
    by (simp add: blanks_def NUL_def)
qed

section \<open>Two ways to access\<close>

text \<open>
  Assigning to \<open>operator[]\<close> with a key of a node writes to the node whose name lacks the last character, made when there is none, and
  no assignment changes what \<open>value\<close> returns.
\<close>
theorem ini_access:
  assumes "good_name n" "n \<noteq> ''''" "good_name k" "smap_ok (mSourceMap s)" "list_all (\<lambda>p. smap_ok (snd p)) (mSourceMap s)"
  shows "\<exists>s'. ini_assign s (config_key n k) v = Inr s'
    \<and> Option.bind (map_of (mSourceMap s') (butlast n)) (\<lambda>m. map_of m k) = Some v
    \<and> ini_value s' key = ini_value s key"
proof -
  have "find_char (CHR ''.'') (n @ CHR ''.'' # k) = Some (length n)"
    using good_name_notin(6) [OF assms(1)] by (rule find_char_at)
  then have sp: "ini_split (config_key n k) = Inr (butlast n, k)"
    using assms(2) good_name_notin(1) [OF assms(3)]
    by (simp add: ini_split_def config_key_def butlast_conv_take)
  show ?thesis
  proof (cases "map_of (mSourceMap s) (butlast n)")
    case None
    then show ?thesis using assms(4)
      by (simp add: ini_assign_def ini_index_def sp map_of_smap_update smap_update_ok ini_value_def)
  next
    case (Some m)
    then have "smap_ok m" using assms(5) map_of_SomeD [OF Some] by (force simp: list_all_iff)
    then show ?thesis using Some assms(4)
      by (simp add: ini_assign_def ini_index_def sp smap_at_def map_of_smap_update smap_update_ok ini_value_def split: option.splits)
  qed
qed

theorem ini_access_witness:
  "\<exists>s'. ini_assign sample_config ''node.port'' ''80'' = Inr s'
    \<and> Option.bind (map_of (mSourceMap s') ''nod'') (\<lambda>m. map_of m ''port'') = Some ''80''
    \<and> ini_value s' ''node.port'' = ini_value sample_config ''node.port''"
proof -
  have "good_name ''node''" "good_name ''port''" by (simp_all add: good_name_def escapeString_def)
  then show ?thesis
    using ini_access [of "''node''" "''port''" sample_config "''80''" "''node.port''"]
    by (simp add: sample_config_def config_key_def smap_ok_def)
qed

end
