(* ===== verification/Rw_Ops.thy ===== *)
theory Rw_Ops
  imports Prelude
begin

text \<open>
  The lock for many readers or one writer of \<^verbatim>\<open>src/config/rwmutex.cpp\<close>, run by \<open>N\<close> threads. A step is one access to a shared
  variable by one thread: the loads, stores and increments of the atomic variables, taking and releasing the mutex, starting to wait, and
  notifying. The standard library allows a thread to return from a wait without a notification.
\<close>

section \<open>State\<close>

datatype rw_kind = R | W

text \<open>Where a thread is: what it does next, \<open>Reading\<close> and \<open>Writing\<close> while it has the lock.\<close>

datatype rw_pc =
    Idle
  | R_test | R_inc bool | Reading | RU_dec | RU_test | RU_notify
  | W_test_read | W_test_write | W_set bool | Writing | WU_test | WU_clear | WU_notify
  | Lock rw_kind | Wait rw_kind | Blocked rw_kind | Relock rw_kind | Unlock rw_kind

record rw_mutex =
  m_readCount :: "32 word"
  m_writeCount :: bool
  m_mutex :: "nat option"
  rw_pcs :: "nat \<Rightarrow> rw_pc"

definition rw_new :: rw_mutex where
  "rw_new = \<lparr>m_readCount = 0, m_writeCount = False, m_mutex = None, rw_pcs = (\<lambda>_. Idle)\<rparr>"

definition goto :: "nat \<Rightarrow> rw_pc \<Rightarrow> rw_mutex \<Rightarrow> rw_mutex" where
  "goto t p s = s\<lparr>rw_pcs := (rw_pcs s)(t := p)\<rparr>"

fun wake :: "rw_pc \<Rightarrow> rw_pc" where
  "wake (Blocked k) = Relock k"
| "wake p = p"

definition is_blocked :: "rw_mutex \<Rightarrow> nat \<Rightarrow> bool" where
  "is_blocked s t \<longleftrightarrow> wake (rw_pcs s t) \<noteq> rw_pcs s t"

text \<open>One of the blocked threads, if there is one; the choice is open.\<close>

definition notify_one :: "nat \<Rightarrow> nat \<Rightarrow> rw_mutex \<Rightarrow> rw_mutex" where
  "notify_one N choice s =
    (let ts = filter (is_blocked s) [0..<N] in
     if ts = [] then s else let t = ts ! (choice mod length ts) in goto t (wake (rw_pcs s t)) s)"

definition notify_all :: "rw_mutex \<Rightarrow> rw_mutex" where
  "notify_all s = s\<lparr>rw_pcs := \<lambda>t. wake (rw_pcs s t)\<rparr>"

section \<open>Steps of the functions\<close>

text \<open>The mutex and the wait, which both locking functions have alike; at the end of the function the mutex is released.\<close>

fun rw_wait :: "nat \<Rightarrow> rw_pc \<Rightarrow> rw_mutex \<Rightarrow> rw_mutex option" where
  "rw_wait t (Lock k) s = (if m_mutex s = None then Some (goto t (Wait k) (s\<lparr>m_mutex := Some t\<rparr>)) else None)"
| "rw_wait t (Wait k) s = Some (goto t (Blocked k) (s\<lparr>m_mutex := None\<rparr>))"
| "rw_wait t (Relock k) s =
    (if m_mutex s = None then Some (goto t (case k of R \<Rightarrow> R_inc True | W \<Rightarrow> W_set True) (s\<lparr>m_mutex := Some t\<rparr>)) else None)"
| "rw_wait t (Unlock k) s = Some (goto t (case k of R \<Rightarrow> Reading | W \<Rightarrow> Writing) (s\<lparr>m_mutex := None\<rparr>))"
| "rw_wait t p s = None"

fun rlock_step :: "nat \<Rightarrow> rw_pc \<Rightarrow> rw_mutex \<Rightarrow> rw_mutex option" where
  "rlock_step t R_test s = Some (goto t (if m_writeCount s then Lock R else R_inc False) s)"
| "rlock_step t (R_inc locked) s =
    Some (goto t (if locked then Unlock R else Reading) (s\<lparr>m_readCount := m_readCount s + 1\<rparr>))"
| "rlock_step t p s = None"

fun runlock_step :: "nat \<Rightarrow> nat \<Rightarrow> nat \<Rightarrow> rw_pc \<Rightarrow> rw_mutex \<Rightarrow> rw_mutex option" where
  "runlock_step N choice t RU_dec s = Some (goto t RU_test (s\<lparr>m_readCount := m_readCount s - 1\<rparr>))"
| "runlock_step N choice t RU_test s = Some (goto t (if m_readCount s = 0 then RU_notify else Idle) s)"
| "runlock_step N choice t RU_notify s = Some (goto t Idle (notify_one N choice s))"
| "runlock_step N choice t p s = None"

fun wlock_step :: "nat \<Rightarrow> rw_pc \<Rightarrow> rw_mutex \<Rightarrow> rw_mutex option" where
  "wlock_step t W_test_read s = Some (goto t (if m_readCount s > 0 then Lock W else W_test_write) s)"
| "wlock_step t W_test_write s = Some (goto t (if m_writeCount s then Lock W else W_set False) s)"
| "wlock_step t (W_set locked) s = Some (goto t (if locked then Unlock W else Writing) (s\<lparr>m_writeCount := True\<rparr>))"
| "wlock_step t p s = None"

fun wunlock_step :: "nat \<Rightarrow> rw_pc \<Rightarrow> rw_mutex \<Rightarrow> rw_mutex option" where
  "wunlock_step t WU_test s = Some (goto t (if m_writeCount s then WU_clear else Idle) s)"
| "wunlock_step t WU_clear s = Some (goto t WU_notify (s\<lparr>m_writeCount := False\<rparr>))"
| "wunlock_step t WU_notify s = Some (goto t Idle (notify_all s))"
| "wunlock_step t p s = None"

text \<open>The calls: a thread without the lock asks for it as a reader or a writer, one that has it releases it.\<close>

fun rw_call :: "nat \<Rightarrow> nat \<Rightarrow> rw_pc \<Rightarrow> rw_mutex \<Rightarrow> rw_mutex option" where
  "rw_call choice t Idle s = Some (goto t (if choice = 0 then R_test else W_test_read) s)"
| "rw_call choice t Reading s = Some (goto t RU_dec s)"
| "rw_call choice t Writing s = Some (goto t WU_test s)"
| "rw_call choice t p s = None"

definition rw_act :: "nat \<Rightarrow> nat \<Rightarrow> nat \<Rightarrow> rw_mutex \<Rightarrow> rw_mutex option" where
  "rw_act N choice t s =
    (let p = rw_pcs s t in
     case rw_call choice t p s of Some s' \<Rightarrow> Some s' | None \<Rightarrow>
     case rlock_step t p s of Some s' \<Rightarrow> Some s' | None \<Rightarrow>
     case runlock_step N choice t p s of Some s' \<Rightarrow> Some s' | None \<Rightarrow>
     case wlock_step t p s of Some s' \<Rightarrow> Some s' | None \<Rightarrow>
     case wunlock_step t p s of Some s' \<Rightarrow> Some s' | None \<Rightarrow> rw_wait t p s)"

inductive rw_step :: "nat \<Rightarrow> rw_mutex \<Rightarrow> rw_mutex \<Rightarrow> bool" for N where
  act: "t < N \<Longrightarrow> rw_act N choice t s = Some s' \<Longrightarrow> rw_step N s s'"
| spurious: "t < N \<Longrightarrow> rw_pcs s t = Blocked k \<Longrightarrow> rw_step N s (goto t (Relock k) s)"

inductive rw_reach :: "nat \<Rightarrow> rw_mutex \<Rightarrow> bool" for N where
  init: "rw_reach N rw_new"
| step: "rw_reach N s \<Longrightarrow> rw_step N s s' \<Longrightarrow> rw_reach N s'"

text \<open>What the destructor asserts.\<close>

definition rw_destructor :: "rw_mutex \<Rightarrow> bool" where
  "rw_destructor s \<longleftrightarrow> m_readCount s = 0 \<and> m_writeCount s = False"

text \<open>The run of a schedule, a list of threads and choices.\<close>

fun rw_run :: "nat \<Rightarrow> (nat \<times> nat) list \<Rightarrow> rw_mutex \<Rightarrow> rw_mutex option" where
  "rw_run N [] s = Some s"
| "rw_run N ((t, choice) # ts) s = (if t < N then Option.bind (rw_act N choice t s) (rw_run N ts) else None)"

end
