(* ===== verification/Rw_Spec.thy ===== *)
theory Rw_Spec
  imports Rw_Ops
begin

text \<open>
  The counts and the mutex follow the threads in every state that can be reached, so that the destructor finds the
  lock free when all have released it; but the lock does not exclude anybody, and can be missed.
\<close>

section \<open>The invariant\<close>

fun reads :: "rw_pc \<Rightarrow> bool" where
  "reads (Unlock k) \<longleftrightarrow> k = R"
| "reads Reading \<longleftrightarrow> True"
| "reads RU_dec \<longleftrightarrow> True"
| "reads p \<longleftrightarrow> False"

fun owns :: "rw_pc \<Rightarrow> bool" where
  "owns (Wait k) \<longleftrightarrow> True"
| "owns (R_inc locked) \<longleftrightarrow> locked"
| "owns (W_set locked) \<longleftrightarrow> locked"
| "owns (Unlock k) \<longleftrightarrow> True"
| "owns p \<longleftrightarrow> False"

fun marks :: "rw_pc \<Rightarrow> bool" where
  "marks (Unlock k) \<longleftrightarrow> k = W"
| "marks Writing \<longleftrightarrow> True"
| "marks WU_test \<longleftrightarrow> True"
| "marks WU_clear \<longleftrightarrow> True"
| "marks p \<longleftrightarrow> False"

definition readers :: "nat \<Rightarrow> (nat \<Rightarrow> rw_pc) \<Rightarrow> 32 word" where
  "readers N f = (\<Sum>t<N. if reads (f t) then 1 else 0)"

definition rw_inv :: "nat \<Rightarrow> rw_mutex \<Rightarrow> bool" where
  "rw_inv N s \<longleftrightarrow> m_readCount s = readers N (rw_pcs s)
     \<and> (\<forall>t. m_mutex s = Some t \<longleftrightarrow> owns (rw_pcs s t))
     \<and> (m_writeCount s \<longrightarrow> (\<exists>t<N. marks (rw_pcs s t)))"

lemma readers_update:
  assumes "t < N"
  shows "readers N (f(t := p)) = readers N f - (if reads (f t) then 1 else 0) + (if reads p then 1 else 0)"
proof -
  have s: "readers N g = (if reads (g t) then 1 else 0) + (\<Sum>u\<in>{..<N} - {t}. if reads (g u) then 1 else 0)" for g
    unfolding readers_def using assms by (intro sum.remove) auto
  have "(\<Sum>u\<in>{..<N} - {t}. if reads ((f(t := p)) u) then 1 else 0) = (\<Sum>u\<in>{..<N} - {t}. if reads (f u) then (1 :: 32 word) else 0)"
    by (rule sum.cong) auto
  then show ?thesis using s [of f] s [of "f(t := p)"] by simp
qed

lemma wake_simps [simp]: "reads (wake p) = reads p" "owns (wake p) = owns p" "marks (wake p) = marks p"
  by (cases p; simp)+

lemma wake_inv:
  assumes "rw_inv N s" "\<And>t. rw_pcs s' t = rw_pcs s t \<or> rw_pcs s' t = wake (rw_pcs s t)"
    "m_readCount s' = m_readCount s" "m_writeCount s' = m_writeCount s" "m_mutex s' = m_mutex s"
  shows "rw_inv N s'"
proof -
  have same: "reads (rw_pcs s' t) = reads (rw_pcs s t)" "owns (rw_pcs s' t) = owns (rw_pcs s t)"
    "marks (rw_pcs s' t) = marks (rw_pcs s t)" for t
    using assms(2) [of t] by auto
  then have "readers N (rw_pcs s') = readers N (rw_pcs s)" by (simp add: readers_def)
  then show ?thesis using assms(1,3-5) by (simp add: rw_inv_def same)
qed

lemma notify_one_inv: "rw_inv N s \<Longrightarrow> rw_inv N (notify_one M c s)"
  by (rule wake_inv [of N s]) (auto simp: notify_one_def goto_def Let_def)

lemma notify_all_inv: "rw_inv N s \<Longrightarrow> rw_inv N (notify_all s)"
  by (rule wake_inv [of N s]) (auto simp: notify_all_def)

lemma notify_keeps: "\<not> is_blocked s t \<Longrightarrow> rw_pcs (notify_one M c s) t = rw_pcs s t"
  "\<not> is_blocked s t \<Longrightarrow> rw_pcs (notify_all s) t = rw_pcs s t"
proof -
  show "rw_pcs (notify_one M c s) t = rw_pcs s t" if "\<not> is_blocked s t"
  proof (cases "filter (is_blocked s) [0..<M] = []")
    case False
    let ?ts = "filter (is_blocked s) [0..<M]"
    have "?ts ! (c mod length ?ts) \<in> set ?ts" using False by (intro nth_mem) simp
    then have "is_blocked s (?ts ! (c mod length ?ts))" by simp
    then have "?ts ! (c mod length ?ts) \<noteq> t" using that by metis
    then show ?thesis using False by (simp add: notify_one_def Let_def goto_def)
  qed (simp add: notify_one_def)
qed (simp add: notify_all_def is_blocked_def)

text \<open>A step of a thread that moves from one place to another keeps the invariant when the variables follow.\<close>

lemma goto_inv:
  assumes "rw_inv N s" "t < N"
    "m_readCount s' = m_readCount s - (if reads (rw_pcs s t) then 1 else 0) + (if reads p then 1 else 0)"
    "m_mutex s' = (if owns p then Some t else if owns (rw_pcs s t) then None else m_mutex s)"
    "owns p \<longrightarrow> owns (rw_pcs s t) \<or> m_mutex s = None"
    "m_writeCount s' \<longrightarrow> marks p \<or> m_writeCount s \<and> \<not> marks (rw_pcs s t)"
    "rw_pcs s' = rw_pcs s"
  shows "rw_inv N (goto t p s')"
proof -
  have o: "m_mutex s = Some u \<longleftrightarrow> owns (rw_pcs s u)" for u using assms(1) by (simp add: rw_inv_def)
  have "readers N ((rw_pcs s)(t := p)) = m_readCount s'"
    using assms(1,3) by (simp add: readers_update [OF assms(2)] rw_inv_def)
  moreover have "m_mutex s' = Some u \<longleftrightarrow> owns (((rw_pcs s)(t := p)) u)" for u
    using o [of u] o [of t] assms(4,5) by auto
  moreover have "\<exists>u<N. marks (((rw_pcs s)(t := p)) u)" if w: "m_writeCount s'"
  proof (cases "marks p")
    case False
    then have "m_writeCount s" "\<not> marks (rw_pcs s t)" using assms(6) w by auto
    then obtain u where "u < N" "marks (rw_pcs s u)" "u \<noteq> t" using assms(1) by (auto simp: rw_inv_def)
    then show ?thesis by auto
  qed (use assms(2) in auto)
  ultimately show ?thesis using assms(7) by (simp add: rw_inv_def goto_def)
qed

lemma rw_act_inv:
  assumes "rw_inv N s" "t < N" "rw_act N choice t s = Some s'"
  shows "rw_inv N s'"
proof -
  have o: "owns (rw_pcs s t) \<longleftrightarrow> m_mutex s = Some t" using assms(1) by (simp add: rw_inv_def)
  show ?thesis
  proof (cases "rw_pcs s t")
    case RU_notify
    then have s': "s' = goto t Idle (notify_one N choice s)" using assms(3) by (simp add: rw_act_def)
    have "rw_pcs (notify_one N choice s) t = RU_notify"
      using RU_notify notify_keeps(1) [of s t N choice] by (simp add: is_blocked_def)
    then show ?thesis unfolding s' using o RU_notify
      by (intro goto_inv [OF notify_one_inv [OF assms(1)] assms(2)]) auto
  next
    case WU_notify
    then have s': "s' = goto t Idle (notify_all s)" using assms(3) by (simp add: rw_act_def)
    have "rw_pcs (notify_all s) t = WU_notify"
      using WU_notify notify_keeps(2) [of s t] by (simp add: is_blocked_def)
    then show ?thesis unfolding s' using o WU_notify
      by (intro goto_inv [OF notify_all_inv [OF assms(1)] assms(2)]) auto
  next
    case (Lock k)
    then show ?thesis using assms(3) o
      by (auto simp: rw_act_def Let_def split: if_splits intro!: goto_inv [OF assms(1,2)])
  next
    case (Relock k)
    then show ?thesis using assms(3) o
      by (auto simp: rw_act_def Let_def split: if_splits rw_kind.splits intro!: goto_inv [OF assms(1,2)])
  next
    case (Unlock k)
    then show ?thesis using assms(3) o
      by (auto simp: rw_act_def Let_def split: rw_kind.splits intro!: goto_inv [OF assms(1,2)])
  qed (use assms(3) o in \<open>auto simp: rw_act_def Let_def split: if_splits intro!: goto_inv [OF assms(1,2)]\<close>)
qed

lemma rw_step_inv: "rw_step N s s' \<Longrightarrow> rw_inv N s \<Longrightarrow> rw_inv N s'"
proof (induction rule: rw_step.induct)
  case (spurious t s k)
  then show ?case by (intro goto_inv) (auto simp: rw_inv_def)
qed (rule rw_act_inv)

lemma rw_reach_inv: "rw_reach N s \<Longrightarrow> rw_inv N s"
proof (induction rule: rw_reach.induct)
  case init
  then show ?case by (simp add: rw_inv_def rw_new_def readers_def)
qed (rule rw_step_inv)

text \<open>
  C39: in every state of any number of threads the count of readers is the number of threads that have the lock as
  readers (modulo \<open>2 ^ 32\<close>), at most one thread is in the part under the mutex, and the flag is only set while a thread has the lock as a
  writer or is about to release it; so when all threads have released it, what the destructor asserts holds.
\<close>
theorem rw_invariant:
  assumes "rw_reach N s"
  shows "m_readCount s = (\<Sum>t<N. if reads (rw_pcs s t) then 1 else 0)
    \<and> (owns (rw_pcs s t) \<and> owns (rw_pcs s u) \<longrightarrow> t = u)
    \<and> (m_writeCount s \<longrightarrow> (\<exists>t<N. marks (rw_pcs s t)))
    \<and> ((\<forall>t<N. rw_pcs s t = Idle) \<longrightarrow> rw_destructor s)"
proof -
  have i: "rw_inv N s" by (rule rw_reach_inv [OF assms])
  have "owns (rw_pcs s t) \<and> owns (rw_pcs s u) \<longrightarrow> t = u"
    using i unfolding rw_inv_def by (metis option.inject)
  moreover have "(\<forall>t<N. rw_pcs s t = Idle) \<longrightarrow> rw_destructor s"
    using i by (auto simp: rw_inv_def rw_destructor_def readers_def)
  ultimately show ?thesis using i by (simp add: rw_inv_def readers_def)
qed

section \<open>Schedules\<close>

lemma rw_run_reach: "rw_reach N s \<Longrightarrow> rw_run N ts s = Some s' \<Longrightarrow> rw_reach N s'"
proof (induction ts arbitrary: s)
  case (Cons a ts)
  obtain t c where a: "a = (t, c)" by (cases a)
  from Cons.prems obtain s1 where s1: "t < N" "rw_act N c t s = Some s1" "rw_run N ts s1 = Some s'"
    by (auto simp: a bind_eq_Some_iff split: if_splits)
  then show ?case using Cons.IH [of s1] rw_reach.step [OF Cons.prems(1) rw_step.act] by blast
qed simp

theorem rw_invariant_witness:
  "\<exists>s. rw_reach 2 s \<and> m_readCount s = (\<Sum>t<2. if reads (rw_pcs s t) then 1 else 0) \<and> m_readCount s = 1"
proof -
  obtain s where s: "rw_run 2 [(0, 0), (0, 0), (0, 0)] rw_new = Some s" "m_readCount s = 1"
    by (simp add: rw_act_def rw_new_def goto_def Let_def)
  have "rw_reach 2 s" by (rule rw_run_reach [OF rw_reach.init s(1)])
  then show ?thesis using rw_invariant [of 2 s] s(2) by blast
qed

lemmas run_simps = rw_act_def rw_new_def goto_def Let_def notify_one_def notify_all_def is_blocked_def

text \<open>
  C40: the lock does not do what it is for. Two threads can have it as writers at the same time, one as a reader while another has it
  as a writer, since the tests and the updates are separate steps; and a thread can wait for good for a lock that nobody has, since the
  release does not take the mutex: its notification comes between the test and the wait.
\<close>
theorem rw_no_exclusion:
  "(\<exists>s. rw_reach 2 s \<and> rw_pcs s 0 = Writing \<and> rw_pcs s 1 = Writing)
   \<and> (\<exists>s. rw_reach 2 s \<and> rw_pcs s 0 = Reading \<and> rw_pcs s 1 = Writing)
   \<and> (\<exists>s. rw_reach 2 s \<and> rw_pcs s 0 = Blocked W \<and> rw_pcs s 1 = Idle \<and> rw_destructor s)"
proof (intro conjI)
  obtain s where s: "rw_run 2 [(0, 1), (0, 0), (0, 0), (1, 1), (1, 0), (1, 0), (0, 0), (1, 0)] rw_new = Some s"
    "rw_pcs s 0 = Writing" "rw_pcs s 1 = Writing"
    by (simp add: run_simps)
  then show "\<exists>s. rw_reach 2 s \<and> rw_pcs s 0 = Writing \<and> rw_pcs s 1 = Writing"
    using rw_run_reach [OF rw_reach.init s(1)] by blast
next
  obtain s where s: "rw_run 2 [(0, 0), (0, 0), (1, 1), (1, 0), (1, 0), (1, 0), (0, 0)] rw_new = Some s"
    "rw_pcs s 0 = Reading" "rw_pcs s 1 = Writing"
    by (simp add: run_simps)
  then show "\<exists>s. rw_reach 2 s \<and> rw_pcs s 0 = Reading \<and> rw_pcs s 1 = Writing"
    using rw_run_reach [OF rw_reach.init s(1)] by blast
next
  obtain s where s: "rw_run 2 [(1, 1), (1, 0), (1, 0), (1, 0), (0, 1), (0, 0), (0, 0), (1, 0), (1, 0), (1, 0), (1, 0), (0, 0), (0, 0)] rw_new = Some s"
    "rw_pcs s 0 = Blocked W" "rw_pcs s 1 = Idle" "rw_destructor s"
    by (simp add: run_simps rw_destructor_def)
  then show "\<exists>s. rw_reach 2 s \<and> rw_pcs s 0 = Blocked W \<and> rw_pcs s 1 = Idle \<and> rw_destructor s"
    using rw_run_reach [OF rw_reach.init s(1)] by blast
qed

end
