(* ===== verification/Spec2Isabelle.thy ===== *)
theory Spec2Isabelle
  imports Rb_Spec Map_Spec Hmap_Spec Hash_Spec Crc_Spec Str_Spec Base64_Spec Conv_Spec Buf_Spec Timer_Spec Bitmap_Spec Bimap_Spec
    Ini_Spec Rw_Spec
begin

text \<open>
  A verification development for the C++ utility library \<^bold>\<open>alias\<close>: its containers, strings, buffers,
  hashes and encodings. File and function names below are paths under \<^verbatim>\<open>src/\<close>.

  \<^bold>\<open>The program and its theories.\<close> The library is a set of classes; the modelled ones build on each
  other as follows. Every theory opens with a text that says what it holds; the properties of the
  manifest stand in the \<^verbatim>\<open>_Spec\<close> theories, each after a text with its number.

  \<^item> \<^bold>\<open>Red-black trees\<close> (\<^verbatim>\<open>utils/src/rbtree_base.cpp\<close>, \<^verbatim>\<open>rbtree_api.cpp\<close>). \<^verbatim>\<open>Rb_Heap\<close> has the nodes
    as records in a heap (a partial map from addresses), with parent pointers and colours, and one
    definition per function or loop: linking, rotations, the two fix-ups, erasure, walking and
    replacing; \<^verbatim>\<open>Rb_Api\<close> the callback-driven functions on top (insert, search, erase, clear, foreach,
    size). \<^verbatim>\<open>Rb_Shape\<close> says which heaps represent which tree, with zippers for a node's context;
    \<^verbatim>\<open>Rb_Insert\<close> and \<^verbatim>\<open>Rb_Erase\<close> show that each step of a fix-up is a step on trees that keeps the colour
    and height invariants, \<^verbatim>\<open>Rb_Walk\<close> that the walks follow the in-order sequence, \<^verbatim>\<open>Rb_Alloc\<close> that no
    function allocates or frees behind the client's back, \<^verbatim>\<open>Rb_Order\<close> the consequences of sorted keys
    and the logarithmic depth. The locale \<^verbatim>\<open>node_order\<close> states what a client's callbacks must satisfy.

  \<^item> \<^bold>\<open>Map\<close> (\<^verbatim>\<open>utils/include/utils/map.h\<close>, \<^verbatim>\<open>map_node.h\<close>, \<^verbatim>\<open>refcount.h\<close>, \<^verbatim>\<open>map_node.cpp\<close>), a copy-on-write map on
    the red-black tree. \<^verbatim>\<open>Map_Data\<close> models a shared data block and its operations, \<^verbatim>\<open>Map_Cow\<close> the handle
    class that counts references and detaches before it writes. \<^verbatim>\<open>Map_Rep\<close> and \<^verbatim>\<open>Map_View\<close> relate a block to
    the sorted list of its pairs, \<^verbatim>\<open>Map_Value\<close> proves that running any program of map operations
    simulates running it on independent finite maps: sharing is invisible.

  \<^item> \<^bold>\<open>Hashes\<close> (\<^verbatim>\<open>crypto/detail\<close>). \<^verbatim>\<open>Hash_Word\<close> has bytes, words and their loads and stores; \<^verbatim>\<open>Hash_Stream\<close> and
    \<^verbatim>\<open>Hash_Final\<close> the buffering code the classes repeat, with the locales \<^verbatim>\<open>block_stream\<close> and
    \<^verbatim>\<open>padded_stream\<close>; \<^verbatim>\<open>Hash_Object\<close> runs of an object's operations and HMAC. \<^verbatim>\<open>Md5\<close>, \<^verbatim>\<open>Sha1\<close>, \<^verbatim>\<open>Sha256\<close> and
    \<^verbatim>\<open>Keccak\<close> (with SHA3) translate each class and prove its unrolled block function equal to the
    rounds of RFC 1321, FIPS 180-4 and FIPS 202; interpreting the locales gives the whole class.

  \<^item> \<^bold>\<open>Shared buffers and strings\<close> (\<^verbatim>\<open>utils/src/sharedbuffer.cpp\<close>, \<^verbatim>\<open>string8.cpp\<close>). \<^verbatim>\<open>Str_Mem\<close> models the
    reference-counted blocks and proves each operation's effect on the references of the whole
    program; \<^verbatim>\<open>Str_Ops\<close> and \<^verbatim>\<open>Str_Kmp\<close> are the class \<^verbatim>\<open>String8\<close> (the substring search counts in \<^verbatim>\<open>int\<close>, so it
    finds nothing in a text of 2 GiB or more), \<^verbatim>\<open>Str_Rep\<close> says what characters an object
    stands for, \<^verbatim>\<open>Str_Laws\<close>, \<^verbatim>\<open>Str_Edit\<close> and \<^verbatim>\<open>Str_Find\<close> hold the operations' effects.

  \<^item> \<^bold>\<open>Base64\<close> (\<^verbatim>\<open>crypto/base64_chromium.cpp\<close>). \<^verbatim>\<open>Base64\<close> has the seven tables, the encoder and the
    decoder; \<^verbatim>\<open>Base64_Laws\<close> the equality with RFC 4648, the round trip and the refused texts.


  \<^item> \<^bold>\<open>Byte buffers and streams\<close> (\<^verbatim>\<open>utils/src/buffer.cpp\<close>, \<^verbatim>\<open>buffer_stream.cpp\<close>). \<^verbatim>\<open>Buf_Ops\<close> is the class
    \<^verbatim>\<open>ByteBuffer\<close>, a copy-on-write byte array on the shared blocks of \<^verbatim>\<open>Str_Mem\<close>, with its growth by half;
    a data argument is either outside every block or inside one. \<^verbatim>\<open>Stream_Ops\<close> is \<^verbatim>\<open>BufferStream\<close>, typed
    values in a queue of bytes whose positions have 32 bits; a string is read behind what its variable holds. \<^verbatim>\<open>Buf_Laws\<close> and \<^verbatim>\<open>Stream_Laws\<close> hold the effect of each operation.

  \<^item> \<^bold>\<open>Timers\<close> (\<^verbatim>\<open>utils/src/timer.cpp\<close>). \<^verbatim>\<open>Timer_Ops\<close> has the timers, the ordered set and the worker thread as a
    state machine with one transition per step another thread can observe; the other events are time, a
    failing \<^verbatim>\<open>epoll_wait\<close>, and the calls of other threads and of callbacks. \<^verbatim>\<open>Timer_Laws\<close> proves the invariant
    of all events, \<^verbatim>\<open>Timer_Live\<close> the progress of the worker in fair runs, \<^verbatim>\<open>Timer_Spec\<close> that timers run.

  \<^item> \<^bold>\<open>Bit maps\<close> (\<^verbatim>\<open>utils/src/bitmap.cpp\<close>). \<^verbatim>\<open>Bitmap\<close> is the class on a heap of byte blocks, with an allocation
    that may fail; \<^verbatim>\<open>Bitmap_Laws\<close> relates it to lists of bits. \<^verbatim>\<open>Bitmap_Spec\<close> proves that calls of \<^verbatim>\<open>set\<close>, \<^verbatim>\<open>at\<close>, \<^verbatim>\<open>clear\<close>,
    \<^verbatim>\<open>count\<close>, \<^verbatim>\<open>capacity\<close> and \<^verbatim>\<open>reserve\<close> (for at most \<^term>\<open>2 ^ 32 - 8 :: nat\<close> bits, where the capacity does not wrap) act on that
    list, and that copying and assigning a bit map overflow.

  \<^item> \<^bold>\<open>Bidirectional maps\<close> (\<^verbatim>\<open>utils/include/utils/bimap.h\<close>, \<^verbatim>\<open>bimap.hpp\<close>). \<^verbatim>\<open>Bimap\<close> has the template with its
    index of pointers into the nodes of a \<^verbatim>\<open>std::map\<close>; \<^verbatim>\<open>Bimap_Laws\<close> the agreement of index and nodes,
    \<^verbatim>\<open>Bimap_Spec\<close> that programs run as on the list of pairs.

  \<^item> \<^bold>\<open>Hash tables\<close> (\<^verbatim>\<open>utils/src/hash.cpp\<close>, \<^verbatim>\<open>utils/include/utils/hash.h\<close>). \<^verbatim>\<open>Hmap_Ops\<close> has blocks with arrays of chains, whose
    ends are the block itself read as a node, and the copy-on-write handles. \<^verbatim>\<open>Hmap_Rep\<close> relates a memory to the finite maps and
    counts of its blocks; \<^verbatim>\<open>Hmap_Chain\<close> and \<^verbatim>\<open>Hmap_Rehash\<close> are the loops over chains, \<^verbatim>\<open>Hmap_Laws\<close> and \<^verbatim>\<open>Hmap_View\<close> the
    operations on blocks, \<^verbatim>\<open>Hmap_Handle\<close> those of a handle, \<^verbatim>\<open>Hmap_World\<close> programs over many handles, which run as
    on independent maps, and \<^verbatim>\<open>Hmap_Iter\<close> the iterators. The bounds of the properties (fewer than \<^term>\<open>2 ^ 30 :: nat\<close> entries and operations) keep
    the number of bits of a table in range and the count of the static block above 1.

  \<^item> \<^bold>\<open>CRC-32\<close> (\<^verbatim>\<open>crypto/crc32.cpp\<close>, \<^verbatim>\<open>crc32_table.hh\<close>). \<^verbatim>\<open>Crc_Table\<close> has the tables as the code lists them, \<^verbatim>\<open>Crc_Ops\<close> the
    check with its five braids, for both byte orders, and the combination of checks. \<^verbatim>\<open>Crc_Math\<close> multiplies polynomials by
    \<open>x\<close>; \<^verbatim>\<open>Crc_Rows\<close> and \<^verbatim>\<open>Crc_Big_Rows\<close> prove every entry of the tables from eight of them, as the tables are linear; \<^verbatim>\<open>Crc_Swap\<close> is
    the order of bytes, \<^verbatim>\<open>Crc_Laws\<close> and \<^verbatim>\<open>Crc_Braid\<close> show that bytes, words and braids compute the check bit by bit,
    \<^verbatim>\<open>Crc_Power\<close> products and powers.

  \<^item> \<^bold>\<open>Character sets\<close> (\<^verbatim>\<open>utils/src/convert.cpp\<close>). \<^verbatim>\<open>Conv_Ops\<close> has the recognition of UTF-8 and the conversion to GBK with
    \<^verbatim>\<open>iconv\<close> as a parameter; \<^verbatim>\<open>Conv_Spec\<close> says what they do with texts encoded in UTF-8.

  \<^item> \<^bold>\<open>INI files\<close> (\<^verbatim>\<open>config/IniConfig.cpp\<close>). \<^verbatim>\<open>Ini_Ops\<close> has the reader, the access to values and the writer, \<^verbatim>\<open>Ini_Laws\<close> what one line
    does, \<^verbatim>\<open>Ini_Spec\<close> that what is written is read back but for empty nodes, and the lines that are misread. \<^verbatim>\<open>keep\<close> ends without a
    result when it succeeds: the model then has none either.

  \<^item> \<^bold>\<open>Reader-writer lock\<close> (\<^verbatim>\<open>config/rwmutex.cpp\<close>). \<^verbatim>\<open>Rw_Ops\<close> has the threads' steps, one access to a shared variable each, as a
    transition relation; \<^verbatim>\<open>Rw_Spec\<close> the invariant of the reachable states, and schedules by which the lock fails.

  \<^bold>\<open>Conventions.\<close> A pointer is an optional address. A partial operation returns an option: \<^term>\<open>None\<close> is
  a null or dangling dereference, an access outside a block or array, a failed assertion or a loop
  that does not end; so a theorem that concludes \<^verbatim>\<open>= Some ...\<close> says that the code returns without any of
  these. Exceptions and error codes the code handles are values of their own. Loops whose end is not
  evident are \<^verbatim>\<open>partial_function (option)\<close>, and their ending is proved; no fuel is used. Fixed-width
  integers that can wrap (hash words and counters, stream positions, indices of the bit map) are
  words; sizes of objects in memory are natural numbers, narrowed where the code narrows them.

  \<^bold>\<open>Memory.\<close> Allocation returns addresses that were never used before; in \<^verbatim>\<open>Map\<close> and \<^verbatim>\<open>Bitmap\<close> it is a parameter that
  may fail, elsewhere it succeeds. Fresh memory has arbitrary contents (a parameter of the memory). A
  reallocated block moves. The machine is little-endian (the check of \<^verbatim>\<open>crc32.cpp\<close> holds for either order), \<^verbatim>\<open>char\<close> is eight bits and byte strings are lists
  of 8-bit words.

  \<^bold>\<open>Not modelled.\<close> Threads and memory orders, except for the timer's worker and the reader-writer lock: the other components run in one thread, an
  atomic counter is a number (\<^verbatim>\<open>utils/src/mutex.cpp\<close>, \<^verbatim>\<open>thread.cpp\<close>, \<^verbatim>\<open>condition.cpp\<close> are calls of pthreads).
  Wrappers whose work is done by libraries outside the repository: \<^verbatim>\<open>crypto/*_openssl.cpp\<close> (OpenSSL),
  \<^verbatim>\<open>sqlutils\<close> (MySQL, hiredis, SQLite), \<^verbatim>\<open>config\<close> (yaml-cpp and the vendored XML and JSON parsers). Vendored code: tinyxml2, jsoncpp, nlohmann
  json, Catch. The CRC for ARM instructions and for words of four bytes. Input and output: files, logging, elapsed time, call stacks. Templates
  that only wrap the type system (\<^verbatim>\<open>any.hpp\<close>, reflection, singletons). \<^verbatim>\<open>HashMap::erase\<close>, which does not compile.
\<close>

end
